(* ===== verification/Prelude.thy ===== *)
theory Prelude
  imports Main "HOL-Library.Word" "HOL-Library.AList" "HOL-Library.Monad_Syntax"
begin

unbundle bit_operations_syntax

text \<open>
  Shared vocabulary of the development: the machine integer types of the Rust sources, saturating
  arithmetic, byte-order conversions, array slices whose range checks are explicit, and the keyed
  stores (\<^verbatim>\<open>HashMap\<close>, \<^verbatim>\<open>DashMap\<close>) as association lists together with the contract the
  components rely on.

  Conventions: a Rust panic is the value \<^term>\<open>None\<close> of an option type; a function that may both
  panic and return a Rust \<^verbatim>\<open>Option\<close> has a nested option as its result.  A Rust \<^verbatim>\<open>Result\<close> is a
  sum whose left summand is the error.
\<close>

section \<open>Collections of facts\<close>

named_theorems layout_simps \<open>sizes and offsets of wire headers\<close>
named_theorems slice_simps \<open>slices with explicit range checks\<close>
named_theorems store_simps \<open>keyed stores\<close>

section \<open>Machine integers\<close>

type_synonym u8 = "8 word"
type_synonym u16 = "16 word"
type_synonym u32 = "32 word"
type_synonym u64 = "64 word"
type_synonym u128 = "128 word"
type_synonym bytes = "u8 list"

definition u64_max :: nat where
  "u64_max = 2 ^ 64 - 1"

text \<open>\<^verbatim>\<open>u64::saturating_add\<close> on values read as natural numbers; \<^verbatim>\<open>saturating_sub\<close> is
  subtraction on \<^typ>\<open>nat\<close>.\<close>

definition saturating_add64 :: "nat \<Rightarrow> nat \<Rightarrow> nat" where
  "saturating_add64 a b = min (a + b) u64_max"

lemma saturating_add64_bounds [simp]:
  "saturating_add64 a b \<le> u64_max" "saturating_add64 a b \<le> a + b"
  by (simp_all add: saturating_add64_def)

definition saturating_add :: "'a::len word \<Rightarrow> 'a word \<Rightarrow> 'a word" where
  "saturating_add a b = (if a + b < a then - 1 else a + b)"

lemma saturating_add_ge: "a \<le> saturating_add a b"
  by (auto simp: saturating_add_def not_less)

section \<open>Byte order\<close>

text \<open>\<^verbatim>\<open>to_le_bytes\<close>, \<^verbatim>\<open>to_be_bytes\<close> and their inverses for a word of \<open>n\<close> bytes.\<close>

fun to_le_bytes :: "nat \<Rightarrow> 'a::len word \<Rightarrow> bytes" where
  "to_le_bytes 0 w = []"
| "to_le_bytes (Suc n) w = ucast w # to_le_bytes n (drop_bit 8 w)"

fun from_le_bytes :: "bytes \<Rightarrow> 'a::len word" where
  "from_le_bytes [] = 0"
| "from_le_bytes (b # bs) = ucast b OR push_bit 8 (from_le_bytes bs)"

definition to_be_bytes :: "nat \<Rightarrow> 'a::len word \<Rightarrow> bytes" where
  "to_be_bytes n w = rev (to_le_bytes n w)"

definition from_be_bytes :: "bytes \<Rightarrow> 'a::len word" where
  "from_be_bytes bs = from_le_bytes (rev bs)"

lemma length_to_le_bytes [simp]: "length (to_le_bytes n w) = n"
  by (induction n arbitrary: w) auto

lemma length_to_be_bytes [simp]: "length (to_be_bytes n w) = n"
  by (simp add: to_be_bytes_def)

lemma bit_from_to_le_bytes:
  "bit (from_le_bytes (to_le_bytes n w) :: 'a::len word) i \<longleftrightarrow> i < 8 * n \<and> bit (w :: 'a word) i"
proof (induction n arbitrary: w i)
  case 0
  then show ?case by simp
next
  case (Suc n)
  show ?case
    by (auto simp: Suc bit_or_iff bit_push_bit_iff bit_ucast_iff bit_drop_bit_eq
        dest: bit_imp_le_length)
qed

lemma from_to_le_bytes:
  assumes "LENGTH('a) \<le> 8 * n"
  shows "from_le_bytes (to_le_bytes n w) = (w :: 'a::len word)"
  by (rule bit_word_eqI) (use assms in \<open>auto simp: bit_from_to_le_bytes\<close>)

lemma from_to_be_bytes:
  assumes "LENGTH('a) \<le> 8 * n"
  shows "from_be_bytes (to_be_bytes n w) = (w :: 'a::len word)"
  by (simp add: from_be_bytes_def to_be_bytes_def from_to_le_bytes assms)

lemma ucast_byte_or:
  fixes b :: u8 and x :: "'a::len word"
  assumes "8 \<le> LENGTH('a)"
  shows "ucast (ucast b OR push_bit 8 x :: 'a word) = b"
  by (rule bit_word_eqI)
    (use assms in \<open>auto simp: bit_ucast_iff bit_or_iff bit_push_bit_iff\<close>)

lemma drop_byte_or:
  fixes b :: u8 and x :: "'a::len word"
  shows "drop_bit 8 (ucast b OR push_bit 8 x :: 'a word) = x AND mask (LENGTH('a) - 8)"
  by (rule bit_word_eqI)
    (auto simp: bit_ucast_iff bit_or_iff bit_push_bit_iff bit_drop_bit_eq bit_and_iff bit_mask_iff
      dest: bit_imp_le_length)

lemma bit_from_le_bytes:
  assumes "8 * length bs \<le> LENGTH('a)"
  shows "bit (from_le_bytes bs :: 'a::len word) i \<longleftrightarrow> i < 8 * length bs \<and> bit (bs ! (i div 8)) (i mod 8)"
  using assms
proof (induction bs arbitrary: i)
  case Nil
  then show ?case by simp
next
  case (Cons b bs)
  show ?case
  proof (cases "i < 8")
    case True
    with Cons.prems show ?thesis
      by (auto simp: bit_or_iff bit_push_bit_iff bit_ucast_iff)
  next
    case False
    then obtain j where i: "i = 8 + j"
      using le_Suc_ex not_less by blast
    have nb: "\<not> bit b (8 + j)"
      using bit_imp_le_length [of b "8 + j"] by auto
    have IH: "bit (from_le_bytes bs :: 'a word) j \<longleftrightarrow> j < 8 * length bs \<and> bit (bs ! (j div 8)) (j mod 8)"
      using Cons.prems by (intro Cons.IH) simp
    have "bit (from_le_bytes (b # bs) :: 'a word) i
        \<longleftrightarrow> 8 + j < LENGTH('a) \<and> bit (from_le_bytes bs :: 'a word) j"
      by (simp add: i nb bit_or_iff bit_push_bit_iff bit_ucast_iff)
    moreover have "(8 + j) div 8 = Suc (j div 8)" by simp
    ultimately show ?thesis
      unfolding IH using Cons.prems by (auto simp: i)
  qed
qed

lemma to_le_bytes_nth:
  "k < n \<Longrightarrow> to_le_bytes n w ! k = ucast (drop_bit (8 * k) w)"
  by (induction n arbitrary: k w) (auto simp: nth_Cons' drop_bit_drop_bit algebra_simps)

lemma to_from_le_bytes:
  assumes "8 * length bs \<le> LENGTH('a)" and "n = length bs"
  shows "to_le_bytes n (from_le_bytes bs :: 'a::len word) = bs"
proof (rule nth_equalityI)
  show "length (to_le_bytes n (from_le_bytes bs :: 'a word)) = length bs"
    using assms by simp
next
  fix k assume "k < length (to_le_bytes n (from_le_bytes bs :: 'a word))"
  then have k: "k < n" by simp
  show "to_le_bytes n (from_le_bytes bs :: 'a word) ! k = bs ! k"
  proof (rule bit_word_eqI)
    fix i assume i: "i < LENGTH(8)"
    then have "(8 * k + i) div 8 = k" "(8 * k + i) mod 8 = i" by simp_all
    with i k assms show "bit (to_le_bytes n (from_le_bytes bs :: 'a word) ! k) i = bit (bs ! k) i"
      by (simp add: to_le_bytes_nth bit_ucast_iff bit_drop_bit_eq bit_from_le_bytes)
  qed
qed

lemma from_le_bytes_inject:
  assumes "length xs = length ys" "8 * length xs \<le> LENGTH('a)"
    and "(from_le_bytes xs :: 'a::len word) = from_le_bytes ys"
  shows "xs = ys"
  using assms to_from_le_bytes [of xs "length xs", where 'a = 'a]
    to_from_le_bytes [of ys "length xs", where 'a = 'a] by simp

section \<open>Slices\<close>

text \<open>\<^verbatim>\<open>&xs[a..b]\<close> panics outside the bounds; \<^verbatim>\<open>xs.get(a..)\<close> returns \<^verbatim>\<open>None\<close> there.
  Both are an option here: the caller says which of the two it is.\<close>

definition slice :: "nat \<Rightarrow> nat \<Rightarrow> 'a list \<Rightarrow> 'a list option" where
  "slice a b xs = (if a \<le> b \<and> b \<le> length xs then Some (take (b - a) (drop a xs)) else None)"

definition slice_from :: "nat \<Rightarrow> 'a list \<Rightarrow> 'a list option" where
  "slice_from a xs = (if a \<le> length xs then Some (drop a xs) else None)"

text \<open>Writing \<open>ys\<close> over \<open>xs\<close> at \<open>a\<close>: \<^verbatim>\<open>xs[a..a + ys.len()].copy_from_slice(ys)\<close>.\<close>

definition overwrite :: "nat \<Rightarrow> 'a list \<Rightarrow> 'a list \<Rightarrow> 'a list option" where
  "overwrite a ys xs = (if a + length ys \<le> length xs
     then Some (take a xs @ ys @ drop (a + length ys) xs) else None)"

lemma slice_Some_iff [slice_simps]:
  "slice a b xs = Some ys \<longleftrightarrow> a \<le> b \<and> b \<le> length xs \<and> ys = take (b - a) (drop a xs)"
  by (auto simp: slice_def)

lemma slice_from_Some_iff [slice_simps]:
  "slice_from a xs = Some ys \<longleftrightarrow> a \<le> length xs \<and> ys = drop a xs"
  by (auto simp: slice_from_def)

lemma overwrite_Some_iff [slice_simps]:
  "overwrite a ys xs = Some zs \<longleftrightarrow> a + length ys \<le> length xs \<and> zs = take a xs @ ys @ drop (a + length ys) xs"
  by (auto simp: overwrite_def)

lemma length_overwrite: "overwrite a ys xs = Some zs \<Longrightarrow> length zs = length xs"
  by (auto simp: slice_simps)

lemma slice_overwrite:
  assumes "overwrite a ys xs = Some zs"
  shows "slice a (a + length ys) zs = Some ys"
  using assms by (auto simp: slice_simps)

lemma overwrite_append:
  "length ys = n \<Longrightarrow> length ps = a \<Longrightarrow> overwrite a ys (ps @ zs @ qs) = Some (ps @ ys @ qs)" if "length zs = n"
  using that by (auto simp: overwrite_def)

section \<open>Keyed stores\<close>

text \<open>
  A \<^verbatim>\<open>HashMap\<close> or \<^verbatim>\<open>DashMap\<close> is an association list with distinct keys.  The order of the list is
  the iteration order, which the Rust library leaves open, so every theorem holds for all of them.
\<close>

type_synonym ('k, 'v) store = "('k \<times> 'v) list"

definition st_get :: "('k, 'v) store \<Rightarrow> 'k \<Rightarrow> 'v option" where
  "st_get m = map_of m"

definition st_insert :: "'k \<Rightarrow> 'v \<Rightarrow> ('k, 'v) store \<Rightarrow> ('k, 'v) store" where
  "st_insert k v m = AList.update k v m"

definition st_remove :: "'k \<Rightarrow> ('k, 'v) store \<Rightarrow> ('k, 'v) store" where
  "st_remove k m = AList.delete k m"

definition st_retain :: "('k \<Rightarrow> 'v \<Rightarrow> bool) \<Rightarrow> ('k, 'v) store \<Rightarrow> ('k, 'v) store" where
  "st_retain P m = filter (\<lambda>(k, v). P k v) m"

definition st_wf :: "('k, 'v) store \<Rightarrow> bool" where
  "st_wf m \<longleftrightarrow> distinct (map fst m)"

text \<open>The contract of a keyed store, as its clients use it.\<close>

locale keyed_store =
  fixes empty :: 's
    and get :: "'s \<Rightarrow> 'k \<Rightarrow> 'v option"
    and insert :: "'k \<Rightarrow> 'v \<Rightarrow> 's \<Rightarrow> 's"
    and remove :: "'k \<Rightarrow> 's \<Rightarrow> 's"
    and retain :: "('k \<Rightarrow> 'v \<Rightarrow> bool) \<Rightarrow> 's \<Rightarrow> 's"
    and size_of :: "'s \<Rightarrow> nat"
    and wf :: "'s \<Rightarrow> bool"
  assumes get_empty: "get empty k = None"
    and get_insert: "get (insert k v s) k' = (if k' = k then Some v else get s k')"
    and get_remove: "get (remove k s) k' = (if k' = k then None else get s k')"
    and get_retain: "wf s \<Longrightarrow> get (retain P s) k =
      (case get s k of None \<Rightarrow> None | Some v \<Rightarrow> if P k v then Some v else None)"
    and size_of_card: "wf s \<Longrightarrow> size_of s = card {k. \<exists>v. get s k = Some v}"
    and finite_keys: "finite {k. \<exists>v. get s k = Some v}"
    and wf_empty: "wf empty"
    and wf_insert: "wf s \<Longrightarrow> wf (insert k v s)"
    and wf_remove: "wf s \<Longrightarrow> wf (remove k s)"
    and wf_retain: "wf s \<Longrightarrow> wf (retain P s)"
begin

lemma get_insert_same [simp]: "get (insert k v s) k = Some v"
  by (simp add: get_insert)

lemma get_remove_same [simp]: "get (remove k s) k = None"
  by (simp add: get_remove)

lemma get_retain_Some_iff:
  "wf s \<Longrightarrow> get (retain P s) k = Some v \<longleftrightarrow> get s k = Some v \<and> P k v"
  by (auto simp: get_retain split: option.splits)

lemma size_retain_le: "wf s \<Longrightarrow> size_of (retain P s) \<le> size_of s"
  by (auto simp: size_of_card wf_retain get_retain split: option.splits if_splits
      intro!: card_mono finite_keys)

lemma size_insert_le: "wf s \<Longrightarrow> size_of (insert k v s) \<le> Suc (size_of s)"
proof -
  assume wf: "wf s"
  have "{k'. \<exists>w. get (insert k v s) k' = Some w} = Set.insert k {k'. \<exists>w. get s k' = Some w}"
    by (auto simp: get_insert)
  then show ?thesis
    by (simp add: size_of_card wf wf_insert card_insert_le_m1 card_insert_if finite_keys)
qed

lemma retain_all: "wf s \<Longrightarrow> (\<And>k v. get s k = Some v \<Longrightarrow> P k v) \<Longrightarrow> get (retain P s) k = get s k"
  by (auto simp: get_retain split: option.splits)

end

interpretation st: keyed_store "[]" st_get st_insert st_remove st_retain length st_wf
proof unfold_locales
  fix s :: "('k, 'v) store" and P k
  assume wf: "st_wf s"
  then show "st_get (st_retain P s) k =
      (case st_get s k of None \<Rightarrow> None | Some v \<Rightarrow> if P k v then Some v else None)"
    by (induction s) (force simp: st_get_def st_retain_def st_wf_def map_of_eq_None_iff
        split: option.splits)+
  have "{k. \<exists>v. st_get s k = Some v} = set (map fst s)"
    using dom_map_of_conv_image_fst [of s] by (auto simp: st_get_def dom_def)
  with wf show "length s = card {k. \<exists>v. st_get s k = Some v}"
    by (metis distinct_card length_map st_wf_def)
next
  fix s :: "('k, 'v) store"
  show "finite {k. \<exists>v. st_get s k = Some v}"
    using finite_dom_map_of [of s] by (simp add: st_get_def dom_def)
qed (auto simp: st_get_def st_insert_def st_remove_def st_retain_def st_wf_def update_conv'
    delete_conv' distinct_update distinct_delete distinct_map_filter)

lemmas st_simps [store_simps] =
  st.get_empty st.get_insert st.get_remove st.wf_empty st.wf_insert st.wf_remove st.wf_retain

text \<open>\<^verbatim>\<open>entry(k).or_insert_with(f)\<close> leaves an existing value alone.\<close>

definition st_entry_or_insert :: "'k \<Rightarrow> 'v \<Rightarrow> ('k, 'v) store \<Rightarrow> ('k, 'v) store" where
  "st_entry_or_insert k v m = (case st_get m k of None \<Rightarrow> st_insert k v m | Some _ \<Rightarrow> m)"

lemma st_get_entry_or_insert [store_simps]:
  "st_get (st_entry_or_insert k v m) k' =
     (if k' = k \<and> st_get m k = None then Some v else st_get m k')"
  by (auto simp: st_entry_or_insert_def store_simps split: option.splits)

lemma st_wf_entry_or_insert [store_simps]: "st_wf m \<Longrightarrow> st_wf (st_entry_or_insert k v m)"
  by (auto simp: st_entry_or_insert_def store_simps split: option.splits)

end
