(* ===== verification/Token_Bucket.thy ===== *)
theory Token_Bucket
  imports Complex_Main "HOL-Library.Log_Nat" Prelude
begin

text \<open>
  The token bucket of \<^verbatim>\<open>common/token_bucket.rs\<close>: its configuration, the refill arithmetic in 64-bit
  floats, \<^verbatim>\<open>try_consume\<close>, the blocking \<^verbatim>\<open>consume\<close>, the bucket manager, and the compare-exchange
  loops as interleaved steps of any number of threads.  All counters are \<^verbatim>\<open>u64\<close>; they are natural
  numbers here with saturation and wrap-around written out.
\<close>

section \<open>Configuration\<close>

record bucket_config =
  capacity :: nat
  fill_rate :: nat
  refill_interval :: nat

text \<open>\<^verbatim>\<open>LimiterConfig\<close> as it arrives over protobuf: every field is optional.\<close>

record limiter_config =
  lc_burst_rate :: "nat option"
  lc_bps :: "nat option"
  lc_fill_duration_ms :: "nat option"

text \<open>Durations are in milliseconds.  The product that gives the capacity wraps in a release build.\<close>

definition bucket_config_from :: "limiter_config \<Rightarrow> bucket_config" where
  "bucket_config_from cfg =
     (let burst_rate = max 1 (case lc_burst_rate cfg of None \<Rightarrow> 1 | Some b \<Rightarrow> b);
          rate = max 8196 (case lc_bps cfg of None \<Rightarrow> u64_max div burst_rate | Some b \<Rightarrow> b);
          interval = (case lc_fill_duration_ms cfg of None \<Rightarrow> 10 | Some x \<Rightarrow> max 1 x)
      in \<lparr>capacity = (burst_rate * rate) mod 2 ^ 64, fill_rate = rate, refill_interval = interval\<rparr>)"

section \<open>Refill arithmetic in 64-bit floats\<close>

text \<open>
  Rounding of a non-negative rational to the nearest 53-bit significand, ties to even.  The values
  the code computes stay far from the overflow and underflow thresholds of \<^verbatim>\<open>f64\<close>.
\<close>

definition round_half_even :: "rat \<Rightarrow> int" where
  "round_half_even x =
     (let f = \<lfloor>x\<rfloor>; d = x - of_int f
      in if d < 1 / 2 then f else if 1 / 2 < d then f + 1 else if even f then f else f + 1)"

definition f64_exponent :: "rat \<Rightarrow> int" where
  "f64_exponent x =
     (case quotient_of x of (p, q) \<Rightarrow>
        let k = bitlen p - bitlen q in if 2 powi k \<le> x then k else k - 1)"

definition f64_round :: "rat \<Rightarrow> rat" where
  "f64_round x =
     (if x \<le> 0 then 0
      else let ulp = 2 powi (f64_exponent x - 52) in of_int (round_half_even (x / ulp)) * ulp)"

text \<open>\<^verbatim>\<open>(fill_rate as f64 * (elapsed as f64 / 1_000_000.0)) as u64\<close>; the last cast saturates.\<close>

definition tokens_to_add :: "nat \<Rightarrow> nat \<Rightarrow> nat" where
  "tokens_to_add rate elapsed =
     (let elapsed_secs = f64_round (f64_round (of_nat elapsed) / 1000000);
          product = f64_round (f64_round (of_nat rate) * elapsed_secs)
      in min (nat \<lfloor>product\<rfloor>) u64_max)"

section \<open>The bucket\<close>

text \<open>\<open>start_time\<close> and the clock readings \<open>now\<close> are in microseconds.\<close>

record token_bucket =
  available_tokens :: nat
  last_refill_time :: nat
  bucket_cfg :: bucket_config
  start_time :: nat

definition new_from_cfg :: "nat \<Rightarrow> bucket_config \<Rightarrow> token_bucket" where
  "new_from_cfg now config =
     \<lparr>available_tokens = capacity config, last_refill_time = 0, bucket_cfg = config, start_time = now\<rparr>"

definition bucket_new :: "nat \<Rightarrow> nat \<Rightarrow> nat \<Rightarrow> nat \<Rightarrow> token_bucket" where
  "bucket_new now cap bps interval =
     new_from_cfg now \<lparr>capacity = cap, fill_rate = bps, refill_interval = interval\<rparr>"

definition elapsed_micros :: "nat \<Rightarrow> token_bucket \<Rightarrow> nat" where
  "elapsed_micros now b = (now - start_time b) mod 2 ^ 64"

definition refilled :: "nat \<Rightarrow> nat \<Rightarrow> nat \<Rightarrow> nat" where
  "refilled cap add current = min (saturating_add64 current add) cap"

definition refill :: "nat \<Rightarrow> token_bucket \<Rightarrow> token_bucket" where
  "refill now b =
     (let now_micros = elapsed_micros now b;
          prev_time = last_refill_time b;
          b' = b\<lparr>last_refill_time := now_micros\<rparr>;
          add = tokens_to_add (fill_rate (bucket_cfg b)) (now_micros - prev_time)
      in if add = 0 then b'
         else b'\<lparr>available_tokens := refilled (capacity (bucket_cfg b)) add (available_tokens b)\<rparr>)"

definition try_consume :: "nat \<Rightarrow> token_bucket \<Rightarrow> bool \<times> token_bucket" where
  "try_consume tokens b =
     (if capacity (bucket_cfg b) < tokens then (False, b)
      else if available_tokens b < tokens then (False, b)
      else (True, b\<lparr>available_tokens := available_tokens b - tokens\<rparr>))"

text \<open>
  \<^verbatim>\<open>consume\<close> retries after every notification of the refill task.  The list holds the clock of each
  refill that happens while the caller waits; \<^term>\<open>None\<close> means it is still waiting at the end.
\<close>

fun consume :: "nat \<Rightarrow> nat list \<Rightarrow> token_bucket \<Rightarrow> token_bucket option" where
  "consume tokens ticks b =
     (case try_consume tokens b of
        (True, b') \<Rightarrow> Some b'
      | (False, b') \<Rightarrow> (case ticks of [] \<Rightarrow> None | t # ts \<Rightarrow> consume tokens ts (refill t b')))"

declare consume.simps [simp del]

type_synonym bucket_manager = "(string, token_bucket) store"

definition get_or_create :: "nat \<Rightarrow> string \<Rightarrow> bucket_config \<Rightarrow> bucket_manager \<Rightarrow> token_bucket option \<times> bucket_manager" where
  "get_or_create now key cfg buckets =
     (let buckets' = st_entry_or_insert key (new_from_cfg now cfg) buckets
      in (st_get buckets' key, buckets'))"

text \<open>One round of the manager's retain task: buckets nobody else holds are dropped.\<close>

definition retain_buckets :: "(string \<Rightarrow> nat) \<Rightarrow> bucket_manager \<Rightarrow> bucket_manager" where
  "retain_buckets strong_count buckets = st_retain (\<lambda>k _. 1 < strong_count k) buckets"

section \<open>The compare-exchange loops, interleaved\<close>

text \<open>
  Threads run \<^verbatim>\<open>try_consume\<close> and \<^verbatim>\<open>refill\<close> concurrently on one \<^verbatim>\<open>AtomicU64\<close>.  A thread is idle or
  holds the value it last read; \<^verbatim>\<open>compare_exchange_weak\<close> may fail even when the value is current.
  \<open>granted\<close> and \<open>added\<close> count what successful exchanges took out and put in.
\<close>

datatype bucket_pc = Idle | Consuming nat nat | Refilling nat nat

record bucket_sys =
  avail :: nat
  pcs :: "nat \<Rightarrow> bucket_pc"
  granted :: nat
  added :: nat

definition bucket_init :: "nat \<Rightarrow> bucket_sys" where
  "bucket_init cap = \<lparr>avail = cap, pcs = (\<lambda>_. Idle), granted = 0, added = 0\<rparr>"

inductive bucket_step :: "nat \<Rightarrow> bucket_sys \<Rightarrow> bucket_sys \<Rightarrow> bool" for cap where
  consume_load: "pcs s i = Idle \<Longrightarrow> t \<le> cap \<Longrightarrow>
    bucket_step cap s (s\<lparr>pcs := (pcs s)(i := Consuming t (avail s))\<rparr>)"
| consume_short: "pcs s i = Consuming t c \<Longrightarrow> c < t \<Longrightarrow>
    bucket_step cap s (s\<lparr>pcs := (pcs s)(i := Idle)\<rparr>)"
| consume_exchange: "pcs s i = Consuming t c \<Longrightarrow> t \<le> c \<Longrightarrow> avail s = c \<Longrightarrow>
    bucket_step cap s (s\<lparr>avail := c - t, pcs := (pcs s)(i := Idle), granted := granted s + t\<rparr>)"
| consume_retry: "pcs s i = Consuming t c \<Longrightarrow> t \<le> c \<Longrightarrow>
    bucket_step cap s (s\<lparr>pcs := (pcs s)(i := Consuming t (avail s))\<rparr>)"
| refill_load: "pcs s i = Idle \<Longrightarrow> 0 < a \<Longrightarrow>
    bucket_step cap s (s\<lparr>pcs := (pcs s)(i := Refilling a (avail s))\<rparr>)"
| refill_exchange: "pcs s i = Refilling a c \<Longrightarrow> avail s = c \<Longrightarrow>
    bucket_step cap s (s\<lparr>avail := refilled cap a c, pcs := (pcs s)(i := Idle),
      added := added s + (refilled cap a c - c)\<rparr>)"
| refill_retry: "pcs s i = Refilling a c \<Longrightarrow>
    bucket_step cap s (s\<lparr>pcs := (pcs s)(i := Refilling a (avail s))\<rparr>)"

inductive bucket_reachable :: "nat \<Rightarrow> bucket_sys \<Rightarrow> bool" for cap where
  init: "bucket_reachable cap (bucket_init cap)"
| step: "bucket_reachable cap s \<Longrightarrow> bucket_step cap s s' \<Longrightarrow> bucket_reachable cap s'"

inductive_cases bucket_stepE: "bucket_step cap s s'"

section \<open>Bounds on the refill arithmetic\<close>

lemma round_half_even_bound: "\<bar>of_int (round_half_even x) - x\<bar> \<le> 1 / 2"
proof -
  have "of_int \<lfloor>x\<rfloor> \<le> x" "x < of_int \<lfloor>x\<rfloor> + 1" by linarith+
  then show ?thesis
    unfolding round_half_even_def Let_def by (auto simp: abs_le_iff)
qed

lemma bitlen_bounds_rat:
  assumes "0 < (p :: int)"
  shows "2 powi (bitlen p - 1) \<le> (of_int p :: rat)" and "(of_int p :: rat) < 2 powi (bitlen p)"
proof -
  have "0 \<le> bitlen p - 1"
    using assms bitlen_nonneg [of p] bitlen_eq_zero_iff [of p] by linarith
  then obtain n where n: "bitlen p - 1 = int n"
    using nonneg_int_cases by blast
  then have n': "bitlen p = int (Suc n)" by simp
  have "2 ^ nat (int n) \<le> p \<and> p < 2 ^ nat (int (Suc n))"
    using bitlen_bounds [OF assms] unfolding n [symmetric] n' [symmetric] .
  then have "of_int (2 ^ n) \<le> (of_int p :: rat)" "(of_int p :: rat) < of_int (2 ^ Suc n)"
    by (simp_all only: of_int_le_iff of_int_less_iff nat_int)
  then have "2 powi (int n) \<le> (of_int p :: rat)" "(of_int p :: rat) < 2 powi (int (Suc n))"
    by (simp_all only: power_int_of_nat of_int_power of_int_numeral)
  then show "2 powi (bitlen p - 1) \<le> (of_int p :: rat)" "(of_int p :: rat) < 2 powi (bitlen p)"
    by (simp only: n, simp only: n')
qed

lemma f64_exponent_le:
  assumes "0 < x"
  shows "2 powi (f64_exponent x) \<le> x"
proof -
  obtain p q where pq: "quotient_of x = (p, q)" by (cases "quotient_of x")
  then have x: "x = of_int p / of_int q" and q: "0 < q"
    by (simp_all add: quotient_of_div quotient_of_denom_pos)
  from x q assms have p: "0 < p"
    by (simp add: zero_less_divide_iff)
  have "(2 powi (bitlen p - bitlen q - 1) :: rat) = 2 powi (bitlen p - 1) / 2 powi (bitlen q)"
    by (simp add: power_int_diff)
  also have "\<dots> \<le> of_int p / of_int q"
    using bitlen_bounds_rat(1) [OF p] bitlen_bounds_rat(2) [OF q] q p
    by (intro frac_le) auto
  finally have "2 powi (bitlen p - bitlen q - 1) \<le> x" by (simp only: x)
  then show ?thesis
    by (auto simp: f64_exponent_def pq Let_def)
qed

lemma f64_round_nonneg [simp]: "0 \<le> f64_round x"
proof (cases "x \<le> 0")
  case False
  define ulp :: rat where "ulp = 2 powi (f64_exponent x - 52)"
  have "0 < ulp" by (simp add: ulp_def)
  with False have "0 \<le> x / ulp" by simp
  then have "0 \<le> round_half_even (x / ulp)"
    by (auto simp: round_half_even_def Let_def)
  with False \<open>0 < ulp\<close> show ?thesis
    by (simp add: f64_round_def Let_def flip: ulp_def)
qed (simp add: f64_round_def)

lemma f64_round_close:
  assumes "0 \<le> x" shows "\<bar>f64_round x - x\<bar> \<le> x / 2 ^ 53"
proof (cases "x = 0")
  case False
  with assms have x: "0 < x" by simp
  define ulp :: rat where "ulp = 2 powi (f64_exponent x - 52)"
  have ulp: "0 < ulp" by (simp add: ulp_def)
  have "ulp = 2 powi (f64_exponent x) / 2 ^ 52"
    by (simp add: ulp_def power_int_diff)
  also have "\<dots> \<le> x / 2 ^ 52"
    using f64_exponent_le [OF x] by (intro divide_right_mono) auto
  finally have small: "ulp / 2 \<le> x / 2 ^ 53" by simp
  have "f64_round x - x = (of_int (round_half_even (x / ulp)) - x / ulp) * ulp"
    using x ulp by (simp add: f64_round_def Let_def algebra_simps flip: ulp_def)
  then have "\<bar>f64_round x - x\<bar> = \<bar>of_int (round_half_even (x / ulp)) - x / ulp\<bar> * ulp"
    using ulp by (simp add: abs_mult)
  also have "\<dots> \<le> 1 / 2 * ulp"
    using ulp by (intro mult_right_mono round_half_even_bound) auto
  finally show ?thesis using small by simp
qed (simp add: f64_round_def)

lemma f64_round_upper: "0 \<le> x \<Longrightarrow> f64_round x \<le> x * (1 + 1 / 2 ^ 53)"
  using abs_le_D1 [OF f64_round_close [of x]] by (simp add: field_simps)

lemma f64_round_lower: "0 \<le> x \<Longrightarrow> x * (1 - 1 / 2 ^ 53) \<le> f64_round x"
  using abs_le_D2 [OF f64_round_close [of x]] by (simp add: field_simps)

lemma f64_round_lower_trans:
  assumes "0 \<le> y" "y \<le> x" shows "y * (1 - 1 / 2 ^ 53) \<le> f64_round x"
proof -
  have "y * (1 - 1 / 2 ^ 53) \<le> x * (1 - 1 / 2 ^ 53)"
    using assms by (intro mult_right_mono) auto
  also have "\<dots> \<le> f64_round x"
    using assms by (intro f64_round_lower) simp
  finally show ?thesis .
qed

lemma f64_round_upper_trans:
  assumes "0 \<le> x" "x \<le> y" shows "f64_round x \<le> y * (1 + 1 / 2 ^ 53)"
  using f64_round_upper [OF assms(1)] assms(2)
  by (meson mult_right_mono order_trans add_nonneg_nonneg zero_le_one zero_le_divide_1_iff
      zero_le_numeral zero_le_power)

lemma tokens_to_add_upper:
  "of_nat (tokens_to_add rate elapsed) \<le> (of_nat rate * of_nat elapsed / 1000000 :: rat) * (1 + 1 / 2 ^ 53) ^ 4"
proof -
  let ?c = "1 + 1 / 2 ^ 53 :: rat"
  have e: "f64_round (f64_round (of_nat elapsed) / 1000000) \<le> (of_nat elapsed * ?c / 1000000) * ?c"
    by (intro f64_round_upper_trans divide_right_mono f64_round_upper) auto
  have p: "f64_round (of_nat rate) * f64_round (f64_round (of_nat elapsed) / 1000000)
      \<le> (of_nat rate * ?c) * ((of_nat elapsed * ?c / 1000000) * ?c)"
    by (intro mult_mono e f64_round_upper) auto
  have "f64_round (f64_round (of_nat rate) * f64_round (f64_round (of_nat elapsed) / 1000000))
      \<le> (of_nat rate * ?c) * ((of_nat elapsed * ?c / 1000000) * ?c) * ?c"
    by (intro f64_round_upper_trans p) auto
  also have "\<dots> = of_nat rate * of_nat elapsed / 1000000 * ?c ^ 4"
    by (simp add: power4_eq_xxxx)
  finally have main: "f64_round (f64_round (of_nat rate) * f64_round (f64_round (of_nat elapsed) / 1000000))
      \<le> of_nat rate * of_nat elapsed / 1000000 * ?c ^ 4" .
  have "of_nat (min (nat \<lfloor>y\<rfloor>) u64_max) \<le> y" if "0 \<le> y" for y :: rat
  proof -
    have "of_nat (min (nat \<lfloor>y\<rfloor>) u64_max) \<le> (of_nat (nat \<lfloor>y\<rfloor>) :: rat)" by simp
    also have "\<dots> \<le> y" using that by simp
    finally show ?thesis .
  qed
  from this [OF f64_round_nonneg] main show ?thesis
    unfolding tokens_to_add_def Let_def by (rule order_trans)
qed

text \<open>Below one token per refill (with a margin for rounding) nothing is added at all.\<close>

lemma tokens_to_add_zero:
  assumes "rate * elapsed \<le> 999999"
  shows "tokens_to_add rate elapsed = 0"
proof -
  have "(of_nat rate * of_nat elapsed :: rat) \<le> 999999"
    using assms by (metis of_nat_le_iff of_nat_mult of_nat_numeral)
  then have "(of_nat rate * of_nat elapsed / 1000000 :: rat) * (1 + 1 / 2 ^ 53) ^ 4
      \<le> 999999 / 1000000 * (1 + 1 / 2 ^ 53) ^ 4"
    by (intro mult_right_mono divide_right_mono) auto
  also have "\<dots> < 1" by (simp add: power4_eq_xxxx)
  finally have "(of_nat (tokens_to_add rate elapsed) :: rat) < 1"
    using tokens_to_add_upper [of rate elapsed] by linarith
  then show ?thesis by simp
qed

lemma tokens_to_add_pos:
  assumes "1000001 \<le> rate * elapsed"
  shows "0 < tokens_to_add rate elapsed"
proof -
  let ?c = "1 - 1 / 2 ^ 53 :: rat"
  let ?secs = "f64_round (f64_round (of_nat elapsed) / 1000000)"
  have e: "(of_nat elapsed * ?c / 1000000) * ?c \<le> ?secs"
    by (intro f64_round_lower_trans divide_right_mono f64_round_lower) auto
  have p: "(of_nat rate * ?c) * ((of_nat elapsed * ?c / 1000000) * ?c) \<le> f64_round (of_nat rate) * ?secs"
    by (intro mult_mono e f64_round_lower) auto
  have "(1000001 :: rat) \<le> of_nat rate * of_nat elapsed"
    using assms by (metis of_nat_le_iff of_nat_mult of_nat_numeral)
  then have "1000001 / 1000000 * ?c ^ 4 \<le> of_nat rate * of_nat elapsed / 1000000 * ?c ^ 4"
    by (intro mult_right_mono divide_right_mono) auto
  also have "\<dots> = (of_nat rate * ?c) * ((of_nat elapsed * ?c / 1000000) * ?c) * ?c"
    by (simp add: power4_eq_xxxx)
  also have "\<dots> \<le> f64_round (f64_round (of_nat rate) * ?secs)"
    by (intro f64_round_lower_trans p) auto
  finally have "1000001 / 1000000 * ?c ^ 4 \<le> f64_round (f64_round (of_nat rate) * ?secs)" .
  moreover have "1 \<le> 1000001 / 1000000 * ?c ^ 4" by (simp add: power4_eq_xxxx)
  ultimately have "1 \<le> f64_round (f64_round (of_nat rate) * ?secs)" by (rule order_trans [rotated])
  then show ?thesis
    by (simp add: tokens_to_add_def Let_def u64_max_def)
qed

section \<open>Sequential behaviour\<close>

definition bucket_ok :: "token_bucket \<Rightarrow> bool" where
  "bucket_ok b \<longleftrightarrow> available_tokens b \<le> capacity (bucket_cfg b)"

text \<open>What a rate limiter promises its clients: a grant takes exactly the tokens it grants, and a
  refusal changes nothing.\<close>

locale rate_limiter =
  fixes tokens :: "'b \<Rightarrow> nat"
    and limit :: "'b \<Rightarrow> nat"
    and grab :: "nat \<Rightarrow> 'b \<Rightarrow> bool \<times> 'b"
  assumes grab_ok: "grab n b = (True, b') \<Longrightarrow> tokens b = tokens b' + n \<and> limit b' = limit b"
    and grab_fail: "grab n b = (False, b') \<Longrightarrow> b' = b"
    and grab_iff: "fst (grab n b) \<longleftrightarrow> n \<le> tokens b \<and> n \<le> limit b"
begin

text \<open>A burst of requests without a refill in between, and the amount it is granted.\<close>

fun grab_run :: "nat list \<Rightarrow> 'b \<Rightarrow> nat \<times> 'b" where
  "grab_run [] b = (0, b)"
| "grab_run (n # ns) b =
     (case grab n b of (ok, b') \<Rightarrow> case grab_run ns b' of (k, b'') \<Rightarrow> ((if ok then n else 0) + k, b''))"

lemma grab_run_balance: "grab_run ns b = (k, b') \<Longrightarrow> k + tokens b' = tokens b"
proof (induction ns arbitrary: b k b')
  case Nil
  then show ?case by simp
next
  case (Cons n ns)
  obtain ok b1 where g: "grab n b = (ok, b1)" by (cases "grab n b")
  obtain k1 b2 where r: "grab_run ns b1 = (k1, b2)" by (cases "grab_run ns b1")
  have "k1 + tokens b2 = tokens b1" by (rule Cons.IH [OF r])
  with Cons.prems g r show ?case
    by (cases ok) (auto dest: grab_ok grab_fail)
qed

lemma grab_run_bound: "fst (grab_run ns b) \<le> tokens b"
  using grab_run_balance [of ns b] by (cases "grab_run ns b") fastforce

end

interpretation bucket: rate_limiter available_tokens "\<lambda>b. capacity (bucket_cfg b)" try_consume
  by unfold_locales (auto simp: try_consume_def split: if_splits)

lemma try_consume_ok: "bucket_ok b \<Longrightarrow> bucket_ok (snd (try_consume n b))"
  by (auto simp: bucket_ok_def try_consume_def)

lemma try_consume_cfg [simp]:
  "bucket_cfg (snd (try_consume n b)) = bucket_cfg b"
  "start_time (snd (try_consume n b)) = start_time b"
  "last_refill_time (snd (try_consume n b)) = last_refill_time b"
  by (auto simp: try_consume_def)

lemma refill_cfg [simp]: "bucket_cfg (refill now b) = bucket_cfg b" "start_time (refill now b) = start_time b"
  by (auto simp: refill_def Let_def)

lemma refill_last [simp]: "last_refill_time (refill now b) = elapsed_micros now b"
  by (auto simp: refill_def Let_def)

lemma refill_ok: "bucket_ok b \<Longrightarrow> bucket_ok (refill now b)"
  by (auto simp: bucket_ok_def refill_def refilled_def Let_def)

lemma refilled_ge: "c \<le> cap \<Longrightarrow> cap \<le> u64_max \<Longrightarrow> c \<le> refilled cap a c"
  by (auto simp: refilled_def saturating_add64_def)

lemma refill_monotone:
  "bucket_ok b \<Longrightarrow> capacity (bucket_cfg b) \<le> u64_max \<Longrightarrow> available_tokens b \<le> available_tokens (refill now b)"
  by (auto simp: bucket_ok_def refill_def Let_def refilled_ge)

lemma refill_adds:
  assumes "bucket_ok b" "capacity (bucket_cfg b) \<le> u64_max"
    and "0 < tokens_to_add (fill_rate (bucket_cfg b)) (elapsed_micros now b - last_refill_time b)"
  shows "min (Suc (available_tokens b)) (capacity (bucket_cfg b)) \<le> available_tokens (refill now b)"
  using assms by (auto simp: bucket_ok_def refill_def refilled_def saturating_add64_def Let_def)

text \<open>A run of refills at increasing clock readings.\<close>

fun refill_run :: "nat list \<Rightarrow> token_bucket \<Rightarrow> token_bucket" where
  "refill_run [] b = b"
| "refill_run (t # ts) b = refill_run ts (refill t b)"

lemma refill_added_le:
  "available_tokens (refill now b) - available_tokens b
    \<le> tokens_to_add (fill_rate (bucket_cfg b)) (elapsed_micros now b - last_refill_time b)"
  by (auto simp: refill_def refilled_def saturating_add64_def Let_def)

text \<open>
  A refill keeps the bucket within its capacity, never takes tokens away, and adds at most the
  configured rate times the elapsed time (up to the rounding of four float operations).
\<close>

lemma refill_bounds:
  assumes "bucket_ok b" and "capacity (bucket_cfg b) \<le> u64_max"
  shows "bucket_ok (refill now b)
    \<and> available_tokens b \<le> available_tokens (refill now b)
    \<and> of_nat (available_tokens (refill now b) - available_tokens b)
      \<le> (of_nat (fill_rate (bucket_cfg b)) * of_nat (elapsed_micros now b - last_refill_time b) / 1000000 :: rat)
        * (1 + 1 / 2 ^ 53) ^ 4"
proof (intro conjI)
  show "of_nat (available_tokens (refill now b) - available_tokens b)
      \<le> (of_nat (fill_rate (bucket_cfg b)) * of_nat (elapsed_micros now b - last_refill_time b) / 1000000 :: rat)
        * (1 + 1 / 2 ^ 53) ^ 4"
    using refill_added_le [of now b] tokens_to_add_upper by (meson of_nat_mono order_trans)
qed (use assms in \<open>auto intro: refill_ok refill_monotone\<close>)

lemma refill_bounds_witness:
  "bucket_ok (refill 2000000 (snd (try_consume 400 (bucket_new 0 1000 100 10))))
    \<and> 600 \<le> available_tokens (refill 2000000 (snd (try_consume 400 (bucket_new 0 1000 100 10))))"
  using refill_bounds [of "snd (try_consume 400 (bucket_new 0 1000 100 10))" 2000000]
  by (simp add: bucket_ok_def try_consume_def bucket_new_def new_from_cfg_def u64_max_def)

text \<open>The clock readings \<open>ts\<close> follow \<open>prev\<close> at most \<open>d\<close> microseconds apart, on a clock that does
  not wrap.\<close>

fun ticks_within :: "nat \<Rightarrow> nat \<Rightarrow> nat list \<Rightarrow> bool" where
  "ticks_within d prev [] \<longleftrightarrow> True"
| "ticks_within d prev (t # ts) \<longleftrightarrow> t \<le> prev + d \<and> t < 2 ^ 64 \<and> ticks_within d t ts"

lemma refill_zero:
  "tokens_to_add (fill_rate (bucket_cfg b)) (elapsed_micros now b - last_refill_time b) = 0
    \<Longrightarrow> available_tokens (refill now b) = available_tokens b"
  by (simp add: refill_def Let_def)

lemma refill_run_starves:
  assumes "fill_rate (bucket_cfg b) * d \<le> 999999" "start_time b = 0"
    and "ticks_within d (last_refill_time b) ts"
  shows "available_tokens (refill_run ts b) = available_tokens b"
  using assms
proof (induction ts arbitrary: b)
  case Nil
  then show ?case by simp
next
  case (Cons t ts)
  then have t: "elapsed_micros t b = t" and gap: "t - last_refill_time b \<le> d"
    by (auto simp: elapsed_micros_def)
  from gap have "fill_rate (bucket_cfg b) * (t - last_refill_time b) \<le> 999999"
    using Cons.prems(1) mult_le_mono2 order_trans by blast
  then have "available_tokens (refill t b) = available_tokens b"
    by (intro refill_zero tokens_to_add_zero) (simp add: t)
  moreover have "available_tokens (refill_run ts (refill t b)) = available_tokens (refill t b)"
    using Cons.prems t by (intro Cons.IH) simp_all
  ultimately show ?case by simp
qed

text \<open>
  A refill that computes less than one whole token still advances the time of the last refill, so
  the fraction is lost.  When the refills come close enough together for the rate, a bucket is never
  refilled, however many refills happen: for the ACL rate limiters, which refill every 10 ms, this is
  every limit below 100 packets per second.
\<close>

theorem slow_rate_never_refills:
  assumes "fill_rate (bucket_cfg b) < 100" and "start_time b = 0" and "available_tokens b = 0"
    and "ticks_within 10000 (last_refill_time b) ts"
  shows "available_tokens (refill_run ts b) = 0 \<and> \<not> fst (try_consume 1 (refill_run ts b))"
proof -
  have "fill_rate (bucket_cfg b) * 10000 \<le> 999999"
    using assms(1) by simp
  then have "available_tokens (refill_run ts b) = 0"
    using refill_run_starves [OF _ assms(2) assms(4)] assms(3) by simp
  then show ?thesis
    by (simp add: bucket.grab_iff)
qed

theorem slow_rate_never_refills_witness:
  "\<not> fst (try_consume 1 (refill_run [10000, 20000, 30000]
      (snd (try_consume 5 (bucket_new 0 5 50 10)))))"
  using slow_rate_never_refills [of "snd (try_consume 5 (bucket_new 0 5 50 10))" "[10000, 20000, 30000]"]
  by (simp add: try_consume_def bucket_new_def new_from_cfg_def)

section \<open>Blocking consumption\<close>

lemma refill_run_cfg [simp]: "bucket_cfg (refill_run ts b) = bucket_cfg b"
  by (induction ts arbitrary: b) simp_all

lemma consume_oversized: "capacity (bucket_cfg b) < n \<Longrightarrow> consume n ts b = None"
proof (induction ts arbitrary: b)
  case Nil
  then show ?case by (simp add: consume.simps [of n "[]"] try_consume_def)
next
  case (Cons t ts)
  then show ?case by (simp add: consume.simps [of n "t # ts"] try_consume_def)
qed

text \<open>Every refill in the run computes at least one token.\<close>

fun productive :: "nat list \<Rightarrow> token_bucket \<Rightarrow> bool" where
  "productive [] b \<longleftrightarrow> True"
| "productive (t # ts) b \<longleftrightarrow>
     0 < tokens_to_add (fill_rate (bucket_cfg b)) (elapsed_micros t b - last_refill_time b)
     \<and> productive ts (refill t b)"

lemma consume_productive:
  assumes "bucket_ok b" "capacity (bucket_cfg b) \<le> u64_max" "n \<le> capacity (bucket_cfg b)"
    and "productive ts b" "n - available_tokens b \<le> length ts"
  shows "\<exists>b'. consume n ts b = Some b'"
  using assms
proof (induction ts arbitrary: b)
  case Nil
  then show ?case by (simp add: consume.simps [of n "[]"] try_consume_def)
next
  case (Cons t ts)
  show ?case
  proof (cases "n \<le> available_tokens b")
    case True
    with Cons.prems show ?thesis by (simp add: consume.simps [of n "t # ts"] try_consume_def)
  next
    case False
    then have c: "consume n (t # ts) b = consume n ts (refill t b)"
      by (simp add: consume.simps [of n "t # ts"] try_consume_def)
    have "min (Suc (available_tokens b)) (capacity (bucket_cfg b)) \<le> available_tokens (refill t b)"
      using Cons.prems by (intro refill_adds) auto
    then have "\<exists>b'. consume n ts (refill t b) = Some b'"
      using Cons.prems by (intro Cons.IH) (auto intro: refill_ok)
    with c show ?thesis by simp
  qed
qed

text \<open>
  C21: \<^verbatim>\<open>consume\<close> returns once enough refills have happened, at most one per missing token, when the
  request fits the bucket's capacity and every refill computes at least one token; a request above
  the capacity never returns.
\<close>

theorem consume_returns_iff_fits:
  assumes "bucket_ok b" and "capacity (bucket_cfg b) \<le> u64_max"
    and "productive ts b" and "n - available_tokens b \<le> length ts"
  shows "(\<exists>b'. consume n ts b = Some b') \<longleftrightarrow> n \<le> capacity (bucket_cfg b)"
  using consume_productive [OF assms(1,2) _ assms(3,4)] consume_oversized [of b n ts]
  by (cases "n \<le> capacity (bucket_cfg b)") auto

theorem consume_returns_iff_fits_witness:
  "(\<exists>b'. consume 2 [1000000, 2000000] (snd (try_consume 3 (bucket_new 0 3 2 10))) = Some b') \<longleftrightarrow> (2::nat) \<le> 3"
  using consume_returns_iff_fits
    [of "snd (try_consume 3 (bucket_new 0 3 2 10))" "[1000000, 2000000]" 2]
  by (simp add: try_consume_def bucket_new_def new_from_cfg_def bucket_ok_def u64_max_def
      elapsed_micros_def tokens_to_add_pos)

section \<open>Concurrent behaviour\<close>

definition bucket_inv :: "nat \<Rightarrow> bucket_sys \<Rightarrow> bool" where
  "bucket_inv cap s \<longleftrightarrow> avail s \<le> cap \<and> granted s + avail s = cap + added s"

lemma bucket_step_inv:
  assumes "bucket_step cap s s'" "cap \<le> u64_max" "bucket_inv cap s"
  shows "bucket_inv cap s'"
  using assms(1)
proof (cases rule: bucket_step.cases)
  case (refill_exchange i a c)
  have "c \<le> refilled cap a c" "refilled cap a c \<le> cap"
    using assms refill_exchange by (auto simp: bucket_inv_def refilled_ge) (simp add: refilled_def)
  with assms(3) refill_exchange show ?thesis by (simp add: bucket_inv_def)
qed (use assms(3) in \<open>auto simp: bucket_inv_def\<close>)

lemma bucket_reachable_inv: "bucket_reachable cap s \<Longrightarrow> cap \<le> u64_max \<Longrightarrow> bucket_inv cap s"
proof (induction rule: bucket_reachable.induct)
  case init
  show ?case by (simp add: bucket_inv_def bucket_init_def)
next
  case (step s s')
  then show ?case by (blast intro: bucket_step_inv)
qed

text \<open>The bucket that a state of the interleaved system stands for.\<close>

definition bucket_of :: "token_bucket \<Rightarrow> bucket_sys \<Rightarrow> token_bucket" where
  "bucket_of b s = b\<lparr>available_tokens := avail s\<rparr>"

text \<open>Every step of a thread either leaves the bucket alone or has the effect of one sequential
  \<^verbatim>\<open>try_consume\<close> that is granted, or of one refill.\<close>

lemma bucket_step_refines:
  assumes "bucket_step cap s s'" "cap = capacity (bucket_cfg b)" "avail s \<le> cap"
  shows "bucket_of b s' = bucket_of b s
    \<or> (\<exists>t. granted s' = granted s + t \<and> try_consume t (bucket_of b s) = (True, bucket_of b s'))
    \<or> (\<exists>a. added s' = added s + (avail s' - avail s) \<and> avail s' = refilled cap a (avail s))"
  using assms(1)
proof (cases rule: bucket_step.cases)
  case (consume_exchange i t c)
  with assms show ?thesis
    by (intro disjI2 disjI1 exI [of _ t]) (auto simp: bucket_of_def try_consume_def)
next
  case (refill_exchange i a c)
  then show ?thesis by (intro disjI2 exI [of _ a]) auto
qed (auto simp: bucket_of_def)

text \<open>
  C20: under every interleaving of the compare-exchange loops of any number of threads, the tokens
  granted so far are exactly those the bucket started with and was refilled with, less what is left:
  no token is granted twice and none is lost, and the bucket never exceeds its capacity.
\<close>

theorem concurrent_grants_balance:
  assumes "bucket_reachable cap s" and "cap \<le> u64_max"
  shows "granted s + avail s = cap + added s \<and> avail s \<le> cap"
  using bucket_reachable_inv [OF assms] by (simp add: bucket_inv_def)

text \<open>Two threads read 5 tokens; one takes 2, the exchange of the other fails, and it reads again and takes the other 3.\<close>

definition contended_bucket :: bucket_sys where
  "contended_bucket = \<lparr>avail = 0, pcs = (\<lambda>_. Idle)(0 := Idle, Suc 0 := Idle), granted = 5, added = 0\<rparr>"

lemma contended_bucket_reachable: "bucket_reachable 5 contended_bucket"
proof -
  define s1 where "s1 = \<lparr>avail = 5, pcs = (\<lambda>_. Idle)(0 := Consuming 3 5), granted = 0, added = 0\<rparr>"
  define s2 where "s2 = \<lparr>avail = 5, pcs = (\<lambda>_. Idle)(0 := Consuming 3 5, Suc 0 := Consuming 2 5), granted = 0, added = 0\<rparr>"
  define s3 where "s3 = \<lparr>avail = 3, pcs = (\<lambda>_. Idle)(0 := Consuming 3 5, Suc 0 := Idle), granted = 2, added = 0\<rparr>"
  define s4 where "s4 = \<lparr>avail = 3, pcs = (\<lambda>_. Idle)(0 := Consuming 3 3, Suc 0 := Idle), granted = 2, added = 0\<rparr>"
  have 1: "bucket_step 5 (bucket_init 5) s1"
    using consume_load [of "bucket_init 5" 0 3 5] by (simp add: bucket_init_def s1_def)
  have 2: "bucket_step 5 s1 s2"
    using consume_load [of s1 "Suc 0" 2 5] by (simp add: s1_def s2_def)
  have 3: "bucket_step 5 s2 s3"
    using consume_exchange [of s2 "Suc 0" 2 5 5] by (simp add: s2_def s3_def fun_upd_twist numeral_2_eq_2)
  have 4: "bucket_step 5 s3 s4"
    using consume_retry [of s3 0 3 5 5] by (simp add: s3_def s4_def fun_upd_twist)
  have 5: "bucket_step 5 s4 contended_bucket"
    using consume_exchange [of s4 0 3 3 5] by (simp add: s4_def contended_bucket_def fun_upd_twist numeral_eq_Suc)
  show ?thesis
    by (rule bucket_reachable.step [OF bucket_reachable.step [OF bucket_reachable.step [OF bucket_reachable.step [OF
        bucket_reachable.step [OF bucket_reachable.init 1] 2] 3] 4] 5])
qed

theorem concurrent_grants_balance_witness:
  "bucket_reachable 5 contended_bucket \<and> granted contended_bucket = 5
    \<and> granted contended_bucket + avail contended_bucket = 5 + added contended_bucket \<and> avail contended_bucket \<le> 5"
  using concurrent_grants_balance [OF contended_bucket_reachable] contended_bucket_reachable
  by (simp add: u64_max_def contended_bucket_def)

end
