(* ===== verification/Packet_Def.thy ===== *)
theory Packet_Def
  imports Prelude
begin

text \<open>
  Wire formats of \<^verbatim>\<open>tunnel/packet_def.rs\<close>: the packed header structs, their byte images, the flag
  accessors of the peer manager header, and the \<^verbatim>\<open>ZCPacket\<close> buffer with the offsets of its headers for
  every kind of tunnel.

  \<^verbatim>\<open>usize\<close> is 64 bits wide and its arithmetic wraps, as in the release profile.  A header accessor
  that returns a mutable reference is a function that applies an update to the header and writes it
  back.  Bytes exposed by \<^verbatim>\<open>set_len\<close> are not initialised: they come from a parameter \<open>g\<close>.
\<close>

section \<open>Header structs\<close>

record tcp_tunnel_header =
  tcp_len :: u32

record udp_tunnel_header =
  conn_id :: u32
  msg_type :: u8
  padding :: u8
  udp_len :: u16

record wg_tunnel_header =
  ipv4_header :: bytes

record v4_hole_punch_packet =
  dst_ipv4 :: bytes
  v4_dst_port :: u16

record v6_hole_punch_packet =
  dst_ipv6 :: bytes
  v6_dst_port :: u16

record peer_manager_header =
  from_peer_id :: u32
  to_peer_id :: u32
  packet_type :: u8
  flags :: u8
  forward_counter :: u8
  reserved :: u8
  pm_len :: u32

record foreign_network_packet_header =
  header_len :: u16
  dst_peer_id :: u32
  network_name_offset :: u16
  network_name_len :: u16

record aead_tail =
  tail_tag :: bytes
  tail_nonce :: bytes

record compressor_tail =
  algo :: u8

definition TCP_TUNNEL_HEADER_SIZE :: nat where "TCP_TUNNEL_HEADER_SIZE = 4"
definition UDP_TUNNEL_HEADER_SIZE :: nat where "UDP_TUNNEL_HEADER_SIZE = 8"
definition WG_TUNNEL_HEADER_SIZE :: nat where "WG_TUNNEL_HEADER_SIZE = 20"
definition PEER_MANAGER_HEADER_SIZE :: nat where "PEER_MANAGER_HEADER_SIZE = 16"
definition FOREIGN_NETWORK_HEADER_SIZE :: nat where "FOREIGN_NETWORK_HEADER_SIZE = 10"
definition AEAD_TAIL_SIZE :: nat where "AEAD_TAIL_SIZE = 28"
definition COMPRESSOR_TAIL_SIZE :: nat where "COMPRESSOR_TAIL_SIZE = 1"

lemmas header_sizes [layout_simps] =
  TCP_TUNNEL_HEADER_SIZE_def UDP_TUNNEL_HEADER_SIZE_def WG_TUNNEL_HEADER_SIZE_def
  PEER_MANAGER_HEADER_SIZE_def FOREIGN_NETWORK_HEADER_SIZE_def AEAD_TAIL_SIZE_def
  COMPRESSOR_TAIL_SIZE_def

definition TAIL_RESERVED_SIZE :: nat where
  "TAIL_RESERVED_SIZE = max AEAD_TAIL_SIZE COMPRESSOR_TAIL_SIZE"

subsection \<open>Packet types and compression algorithms\<close>

datatype udp_packet_type =
  UdpInvalid | Syn | Sack | UdpData | Fin | HolePunch | V4HolePunch | V6HolePunch

fun udp_packet_type_u8 :: "udp_packet_type \<Rightarrow> u8" where
  "udp_packet_type_u8 UdpInvalid = 0"
| "udp_packet_type_u8 Syn = 1"
| "udp_packet_type_u8 Sack = 2"
| "udp_packet_type_u8 UdpData = 3"
| "udp_packet_type_u8 Fin = 4"
| "udp_packet_type_u8 HolePunch = 5"
| "udp_packet_type_u8 V4HolePunch = 6"
| "udp_packet_type_u8 V6HolePunch = 7"

datatype packet_kind =
  Invalid | Data | HandShake | RoutePacket | Ping | Pong | TaRpc | Route | RpcReq | RpcResp
  | ForeignNetworkPacket | KcpSrc | KcpDst | QuicSrc | QuicDst
  | NoiseHandshakeMsg1 | NoiseHandshakeMsg2 | NoiseHandshakeMsg3
  | RelayHandshake | RelayHandshakeAck | DataWithKcpSrcModified | DataWithQuicSrcModified

fun packet_kind_u8 :: "packet_kind \<Rightarrow> u8" where
  "packet_kind_u8 Invalid = 0"
| "packet_kind_u8 Data = 1"
| "packet_kind_u8 HandShake = 2"
| "packet_kind_u8 RoutePacket = 3"
| "packet_kind_u8 Ping = 4"
| "packet_kind_u8 Pong = 5"
| "packet_kind_u8 TaRpc = 6"
| "packet_kind_u8 Route = 7"
| "packet_kind_u8 RpcReq = 8"
| "packet_kind_u8 RpcResp = 9"
| "packet_kind_u8 ForeignNetworkPacket = 10"
| "packet_kind_u8 KcpSrc = 11"
| "packet_kind_u8 KcpDst = 12"
| "packet_kind_u8 QuicSrc = 16"
| "packet_kind_u8 QuicDst = 17"
| "packet_kind_u8 NoiseHandshakeMsg1 = 13"
| "packet_kind_u8 NoiseHandshakeMsg2 = 14"
| "packet_kind_u8 NoiseHandshakeMsg3 = 15"
| "packet_kind_u8 RelayHandshake = 20"
| "packet_kind_u8 RelayHandshakeAck = 21"
| "packet_kind_u8 DataWithKcpSrcModified = 18"
| "packet_kind_u8 DataWithQuicSrcModified = 19"

datatype compressor_algo = AlgoNone | ZstdDefault

fun compressor_algo_u8 :: "compressor_algo \<Rightarrow> u8" where
  "compressor_algo_u8 AlgoNone = 0"
| "compressor_algo_u8 ZstdDefault = 1"

definition compressor_tail_new :: "compressor_algo \<Rightarrow> compressor_tail" where
  "compressor_tail_new a = \<lparr>algo = compressor_algo_u8 a\<rparr>"

definition get_algo :: "compressor_tail \<Rightarrow> compressor_algo option" where
  "get_algo t = (if algo t = 1 then Some ZstdDefault else None)"

subsection \<open>Byte images\<close>

definition tcp_as_bytes :: "tcp_tunnel_header \<Rightarrow> bytes" where
  "tcp_as_bytes h = to_le_bytes 4 (tcp_len h)"

definition tcp_read :: "bytes \<Rightarrow> tcp_tunnel_header" where
  "tcp_read bs = \<lparr>tcp_len = from_le_bytes bs\<rparr>"

definition udp_as_bytes :: "udp_tunnel_header \<Rightarrow> bytes" where
  "udp_as_bytes h = to_le_bytes 4 (conn_id h) @ [msg_type h, padding h] @ to_le_bytes 2 (udp_len h)"

definition udp_read :: "bytes \<Rightarrow> udp_tunnel_header" where
  "udp_read bs = \<lparr>conn_id = from_le_bytes (take 4 bs), msg_type = bs ! 4, padding = bs ! 5,
     udp_len = from_le_bytes (drop 6 bs)\<rparr>"

definition pm_as_bytes :: "peer_manager_header \<Rightarrow> bytes" where
  "pm_as_bytes h = to_le_bytes 4 (from_peer_id h) @ to_le_bytes 4 (to_peer_id h)
     @ [packet_type h, flags h, forward_counter h, reserved h] @ to_le_bytes 4 (pm_len h)"

definition pm_read :: "bytes \<Rightarrow> peer_manager_header" where
  "pm_read bs = \<lparr>from_peer_id = from_le_bytes (take 4 bs), to_peer_id = from_le_bytes (take 4 (drop 4 bs)),
     packet_type = bs ! 8, flags = bs ! 9, forward_counter = bs ! 10, reserved = bs ! 11,
     pm_len = from_le_bytes (drop 12 bs)\<rparr>"

definition fn_as_bytes :: "foreign_network_packet_header \<Rightarrow> bytes" where
  "fn_as_bytes h = to_le_bytes 2 (header_len h) @ to_le_bytes 4 (dst_peer_id h)
     @ to_le_bytes 2 (network_name_offset h) @ to_le_bytes 2 (network_name_len h)"

definition fn_read :: "bytes \<Rightarrow> foreign_network_packet_header" where
  "fn_read bs = \<lparr>header_len = from_le_bytes (take 2 bs), dst_peer_id = from_le_bytes (take 4 (drop 2 bs)),
     network_name_offset = from_le_bytes (take 2 (drop 6 bs)), network_name_len = from_le_bytes (drop 8 bs)\<rparr>"

definition aead_tail_as_bytes :: "aead_tail \<Rightarrow> bytes" where
  "aead_tail_as_bytes t = tail_tag t @ tail_nonce t"

definition aead_tail_read :: "bytes \<Rightarrow> aead_tail" where
  "aead_tail_read bs = \<lparr>tail_tag = take 16 bs, tail_nonce = drop 16 bs\<rparr>"

text \<open>\<^verbatim>\<open>ref_from_prefix\<close> and \<^verbatim>\<open>ref_from_suffix\<close> view the first or last \<open>n\<close> bytes as a struct.\<close>

definition ref_from_prefix :: "nat \<Rightarrow> (bytes \<Rightarrow> 'h) \<Rightarrow> bytes \<Rightarrow> 'h option" where
  "ref_from_prefix n rd bs = (if n \<le> length bs then Some (rd (take n bs)) else None)"

definition ref_from_suffix :: "nat \<Rightarrow> (bytes \<Rightarrow> 'h) \<Rightarrow> bytes \<Rightarrow> 'h option" where
  "ref_from_suffix n rd bs = (if n \<le> length bs then Some (rd (drop (length bs - n) bs)) else None)"

section \<open>Flags of the peer manager header\<close>

definition ENCRYPTED :: u8 where "ENCRYPTED = 1"
definition LATENCY_FIRST :: u8 where "LATENCY_FIRST = 2"
definition EXIT_NODE :: u8 where "EXIT_NODE = 4"
definition NO_PROXY :: u8 where "NO_PROXY = 8"
definition COMPRESSED :: u8 where "COMPRESSED = 16"
definition NOT_SEND_TO_TUN :: u8 where "NOT_SEND_TO_TUN = 64"

lemmas flag_defs = ENCRYPTED_def LATENCY_FIRST_def EXIT_NODE_def NO_PROXY_def COMPRESSED_def
  NOT_SEND_TO_TUN_def

text \<open>The flag set accepts every bit (\<^verbatim>\<open>const _ = !0\<close>), so \<^verbatim>\<open>from_bits(..).unwrap()\<close> never panics.\<close>

definition has_flag :: "u8 \<Rightarrow> peer_manager_header \<Rightarrow> bool" where
  "has_flag f h \<longleftrightarrow> flags h AND f = f"

definition set_flag :: "u8 \<Rightarrow> bool \<Rightarrow> peer_manager_header \<Rightarrow> peer_manager_header" where
  "set_flag f on h = h\<lparr>flags := (if on then flags h OR f else flags h AND NOT f)\<rparr>"

definition is_encrypted :: "peer_manager_header \<Rightarrow> bool" where
  "is_encrypted = has_flag ENCRYPTED"

definition set_encrypted :: "bool \<Rightarrow> peer_manager_header \<Rightarrow> peer_manager_header" where
  "set_encrypted = set_flag ENCRYPTED"

definition is_latency_first :: "peer_manager_header \<Rightarrow> bool" where
  "is_latency_first = has_flag LATENCY_FIRST"

definition set_latency_first :: "bool \<Rightarrow> peer_manager_header \<Rightarrow> peer_manager_header" where
  "set_latency_first = set_flag LATENCY_FIRST"

definition is_exit_node :: "peer_manager_header \<Rightarrow> bool" where
  "is_exit_node = has_flag EXIT_NODE"

definition set_exit_node :: "bool \<Rightarrow> peer_manager_header \<Rightarrow> peer_manager_header" where
  "set_exit_node = set_flag EXIT_NODE"

definition is_no_proxy :: "peer_manager_header \<Rightarrow> bool" where
  "is_no_proxy = has_flag NO_PROXY"

definition set_no_proxy :: "bool \<Rightarrow> peer_manager_header \<Rightarrow> peer_manager_header" where
  "set_no_proxy = set_flag NO_PROXY"

definition is_compressed :: "peer_manager_header \<Rightarrow> bool" where
  "is_compressed = has_flag COMPRESSED"

definition set_compressed :: "bool \<Rightarrow> peer_manager_header \<Rightarrow> peer_manager_header" where
  "set_compressed = set_flag COMPRESSED"

definition is_not_send_to_tun :: "peer_manager_header \<Rightarrow> bool" where
  "is_not_send_to_tun = has_flag NOT_SEND_TO_TUN"

definition set_not_send_to_tun :: "bool \<Rightarrow> peer_manager_header \<Rightarrow> peer_manager_header" where
  "set_not_send_to_tun = set_flag NOT_SEND_TO_TUN"

text \<open>The two markers assert that the packet is a plain data packet.\<close>

definition mark_kcp_src_modified :: "peer_manager_header \<Rightarrow> peer_manager_header option" where
  "mark_kcp_src_modified h = (if packet_type h = packet_kind_u8 Data
     then Some (h\<lparr>packet_type := packet_kind_u8 DataWithKcpSrcModified\<rparr>) else None)"

definition is_kcp_src_modified :: "peer_manager_header \<Rightarrow> bool" where
  "is_kcp_src_modified h \<longleftrightarrow> packet_type h = packet_kind_u8 DataWithKcpSrcModified"

definition mark_quic_src_modified :: "peer_manager_header \<Rightarrow> peer_manager_header option" where
  "mark_quic_src_modified h = (if packet_type h = packet_kind_u8 Data
     then Some (h\<lparr>packet_type := packet_kind_u8 DataWithQuicSrcModified\<rparr>) else None)"

definition is_quic_src_modified :: "peer_manager_header \<Rightarrow> bool" where
  "is_quic_src_modified h \<longleftrightarrow> packet_type h = packet_kind_u8 DataWithQuicSrcModified"

section \<open>Packet buffers\<close>

record zc_packet_offsets =
  payload_off :: nat
  peer_manager_header_off :: nat
  tcp_tunnel_header_off :: nat
  udp_tunnel_header_off :: nat
  wg_tunnel_header_off :: nat
  dummy_tunnel_header_off :: nat

datatype zc_packet_type = TCP | UDP | WG | NIC | DummyTunnel

definition PAYLOAD_OFFSET_FOR_NIC_PACKET :: nat where
  "PAYLOAD_OFFSET_FOR_NIC_PACKET =
     max (max TCP_TUNNEL_HEADER_SIZE UDP_TUNNEL_HEADER_SIZE) WG_TUNNEL_HEADER_SIZE
     + PEER_MANAGER_HEADER_SIZE"

definition INVALID_OFFSET :: nat where
  "INVALID_OFFSET = 2 ^ 64 - 1"

definition get_converted_offset :: "nat \<Rightarrow> nat \<Rightarrow> nat" where
  "get_converted_offset old_hdr_size new_hdr_size =
     (if old_hdr_size < new_hdr_size then INVALID_OFFSET else old_hdr_size - new_hdr_size)"

fun get_packet_offsets :: "zc_packet_type \<Rightarrow> zc_packet_offsets" where
  "get_packet_offsets TCP = \<lparr>
     payload_off = TCP_TUNNEL_HEADER_SIZE + PEER_MANAGER_HEADER_SIZE,
     peer_manager_header_off = TCP_TUNNEL_HEADER_SIZE,
     tcp_tunnel_header_off = 0,
     udp_tunnel_header_off = get_converted_offset TCP_TUNNEL_HEADER_SIZE UDP_TUNNEL_HEADER_SIZE,
     wg_tunnel_header_off = get_converted_offset TCP_TUNNEL_HEADER_SIZE WG_TUNNEL_HEADER_SIZE,
     dummy_tunnel_header_off = get_converted_offset TCP_TUNNEL_HEADER_SIZE 0\<rparr>"
| "get_packet_offsets UDP = \<lparr>
     payload_off = UDP_TUNNEL_HEADER_SIZE + PEER_MANAGER_HEADER_SIZE,
     peer_manager_header_off = UDP_TUNNEL_HEADER_SIZE,
     tcp_tunnel_header_off = get_converted_offset UDP_TUNNEL_HEADER_SIZE TCP_TUNNEL_HEADER_SIZE,
     udp_tunnel_header_off = 0,
     wg_tunnel_header_off = get_converted_offset UDP_TUNNEL_HEADER_SIZE WG_TUNNEL_HEADER_SIZE,
     dummy_tunnel_header_off = get_converted_offset UDP_TUNNEL_HEADER_SIZE 0\<rparr>"
| "get_packet_offsets WG = \<lparr>
     payload_off = WG_TUNNEL_HEADER_SIZE + PEER_MANAGER_HEADER_SIZE,
     peer_manager_header_off = WG_TUNNEL_HEADER_SIZE,
     tcp_tunnel_header_off = get_converted_offset WG_TUNNEL_HEADER_SIZE TCP_TUNNEL_HEADER_SIZE,
     udp_tunnel_header_off = get_converted_offset WG_TUNNEL_HEADER_SIZE UDP_TUNNEL_HEADER_SIZE,
     wg_tunnel_header_off = 0,
     dummy_tunnel_header_off = get_converted_offset WG_TUNNEL_HEADER_SIZE 0\<rparr>"
| "get_packet_offsets NIC = \<lparr>
     payload_off = PAYLOAD_OFFSET_FOR_NIC_PACKET,
     peer_manager_header_off = PAYLOAD_OFFSET_FOR_NIC_PACKET - PEER_MANAGER_HEADER_SIZE,
     tcp_tunnel_header_off =
       PAYLOAD_OFFSET_FOR_NIC_PACKET - PEER_MANAGER_HEADER_SIZE - TCP_TUNNEL_HEADER_SIZE,
     udp_tunnel_header_off =
       PAYLOAD_OFFSET_FOR_NIC_PACKET - PEER_MANAGER_HEADER_SIZE - UDP_TUNNEL_HEADER_SIZE,
     wg_tunnel_header_off =
       PAYLOAD_OFFSET_FOR_NIC_PACKET - PEER_MANAGER_HEADER_SIZE - WG_TUNNEL_HEADER_SIZE,
     dummy_tunnel_header_off = PAYLOAD_OFFSET_FOR_NIC_PACKET - PEER_MANAGER_HEADER_SIZE\<rparr>"
| "get_packet_offsets DummyTunnel = \<lparr>
     payload_off = PEER_MANAGER_HEADER_SIZE,
     peer_manager_header_off = 0,
     tcp_tunnel_header_off = get_converted_offset 0 TCP_TUNNEL_HEADER_SIZE,
     udp_tunnel_header_off = get_converted_offset 0 UDP_TUNNEL_HEADER_SIZE,
     wg_tunnel_header_off = get_converted_offset 0 WG_TUNNEL_HEADER_SIZE,
     dummy_tunnel_header_off = 0\<rparr>"

record zc_packet =
  inner :: bytes
  zc_type :: zc_packet_type

definition new_nic_packet :: zc_packet where
  "new_nic_packet = \<lparr>inner = [], zc_type = NIC\<rparr>"

definition new_from_buf :: "bytes \<Rightarrow> zc_packet_type \<Rightarrow> zc_packet" where
  "new_from_buf buf pt = \<lparr>inner = buf, zc_type = pt\<rparr>"

definition payload_offset :: "zc_packet \<Rightarrow> nat" where
  "payload_offset p = payload_off (get_packet_offsets (zc_type p))"

text \<open>\<open>uninit g n\<close>: the \<open>n\<close> bytes that \<^verbatim>\<open>set_len\<close> exposes.\<close>

definition uninit :: "(nat \<Rightarrow> u8) \<Rightarrow> nat \<Rightarrow> bytes" where
  "uninit g n = map g [0..<n]"

definition mut_payload :: "(bytes \<Rightarrow> bytes option) \<Rightarrow> zc_packet \<Rightarrow> zc_packet option" where
  "mut_payload f p = do {
     body \<leftarrow> slice_from (payload_offset p) (inner p);
     body' \<leftarrow> f body;
     Some (p\<lparr>inner := take (payload_offset p) (inner p) @ body'\<rparr>)
   }"

definition new_with_payload :: "(nat \<Rightarrow> u8) \<Rightarrow> bytes \<Rightarrow> zc_packet option" where
  "new_with_payload g payload =
     (let ret = new_nic_packet;
          total_len = payload_offset ret + length payload
      in mut_payload (overwrite 0 payload) (ret\<lparr>inner := uninit g total_len\<rparr>))"

definition new_for_tun :: "(nat \<Rightarrow> u8) \<Rightarrow> nat \<Rightarrow> zc_packet option" where
  "new_for_tun g packet_info_len =
     (let ret = new_nic_packet
      in if packet_info_len \<le> payload_offset ret
         then Some (ret\<lparr>inner := uninit g (payload_offset ret - packet_info_len)\<rparr>) else None)"

definition payload :: "zc_packet \<Rightarrow> bytes option" where
  "payload p = slice_from (payload_offset p) (inner p)"

definition tunnel_payload :: "zc_packet \<Rightarrow> bytes option" where
  "tunnel_payload p = slice_from (peer_manager_header_off (get_packet_offsets (zc_type p))) (inner p)"

definition udp_payload :: "zc_packet \<Rightarrow> bytes option" where
  "udp_payload p = slice_from
     ((udp_tunnel_header_off (get_packet_offsets (zc_type p)) + UDP_TUNNEL_HEADER_SIZE) mod 2 ^ 64) (inner p)"

definition payload_len :: "zc_packet \<Rightarrow> nat" where
  "payload_len p = (length (inner p) + 2 ^ 64 - payload_offset p) mod 2 ^ 64"

definition buf_len :: "zc_packet \<Rightarrow> nat" where
  "buf_len p = length (inner p)"

text \<open>\<open>header_at off n rd\<close> reads a header, \<open>update_header_at off n rd wr f\<close> updates it in place; both
  give \<^term>\<open>None\<close> where the buffer is too short, as the source's accessors do.\<close>

definition header_at :: "nat \<Rightarrow> nat \<Rightarrow> (bytes \<Rightarrow> 'h) \<Rightarrow> zc_packet \<Rightarrow> 'h option" where
  "header_at off n rd p = do { bs \<leftarrow> slice_from off (inner p); ref_from_prefix n rd bs }"

definition update_header_at ::
  "nat \<Rightarrow> nat \<Rightarrow> (bytes \<Rightarrow> 'h) \<Rightarrow> ('h \<Rightarrow> bytes) \<Rightarrow> ('h \<Rightarrow> 'h) \<Rightarrow> zc_packet \<Rightarrow> zc_packet option" where
  "update_header_at off n rd wr f p = do {
     h \<leftarrow> header_at off n rd p;
     buf \<leftarrow> overwrite off (wr (f h)) (inner p);
     Some (p\<lparr>inner := buf\<rparr>)
   }"

definition peer_manager_header_of :: "zc_packet \<Rightarrow> peer_manager_header option" where
  "peer_manager_header_of p =
     header_at (peer_manager_header_off (get_packet_offsets (zc_type p))) PEER_MANAGER_HEADER_SIZE pm_read p"

definition mut_peer_manager_header ::
  "(peer_manager_header \<Rightarrow> peer_manager_header) \<Rightarrow> zc_packet \<Rightarrow> zc_packet option" where
  "mut_peer_manager_header f p =
     update_header_at (peer_manager_header_off (get_packet_offsets (zc_type p)))
       PEER_MANAGER_HEADER_SIZE pm_read pm_as_bytes f p"

definition tcp_tunnel_header_of :: "zc_packet \<Rightarrow> tcp_tunnel_header option" where
  "tcp_tunnel_header_of p =
     header_at (tcp_tunnel_header_off (get_packet_offsets (zc_type p))) TCP_TUNNEL_HEADER_SIZE tcp_read p"

definition mut_tcp_tunnel_header ::
  "(tcp_tunnel_header \<Rightarrow> tcp_tunnel_header) \<Rightarrow> zc_packet \<Rightarrow> zc_packet option" where
  "mut_tcp_tunnel_header f p =
     update_header_at (tcp_tunnel_header_off (get_packet_offsets (zc_type p)))
       TCP_TUNNEL_HEADER_SIZE tcp_read tcp_as_bytes f p"

definition udp_tunnel_header_of :: "zc_packet \<Rightarrow> udp_tunnel_header option" where
  "udp_tunnel_header_of p =
     header_at (udp_tunnel_header_off (get_packet_offsets (zc_type p))) UDP_TUNNEL_HEADER_SIZE udp_read p"

definition mut_udp_tunnel_header ::
  "(udp_tunnel_header \<Rightarrow> udp_tunnel_header) \<Rightarrow> zc_packet \<Rightarrow> zc_packet option" where
  "mut_udp_tunnel_header f p =
     update_header_at (udp_tunnel_header_off (get_packet_offsets (zc_type p)))
       UDP_TUNNEL_HEADER_SIZE udp_read udp_as_bytes f p"

definition mut_wg_tunnel_header ::
  "(wg_tunnel_header \<Rightarrow> wg_tunnel_header) \<Rightarrow> zc_packet \<Rightarrow> zc_packet option" where
  "mut_wg_tunnel_header f p =
     update_header_at (wg_tunnel_header_off (get_packet_offsets (zc_type p)))
       WG_TUNNEL_HEADER_SIZE (\<lambda>bs. \<lparr>ipv4_header = bs\<rparr>) ipv4_header f p"

definition fill_peer_manager_hdr :: "u32 \<Rightarrow> u32 \<Rightarrow> u8 \<Rightarrow> zc_packet \<Rightarrow> zc_packet option" where
  "fill_peer_manager_hdr from_peer to_peer ptype p =
     mut_peer_manager_header (\<lambda>hdr. hdr\<lparr>from_peer_id := from_peer, to_peer_id := to_peer,
       packet_type := ptype, flags := 0, forward_counter := 1, pm_len := of_nat (payload_len p)\<rparr>) p"

text \<open>\<^verbatim>\<open>BytesMut::split_off\<close>; beyond the length the outcome depends on spare capacity, which is not
  modelled, and counts as a panic.\<close>

definition split_off :: "nat \<Rightarrow> bytes \<Rightarrow> bytes option" where
  "split_off at buf = slice_from at buf"

definition payload_bytes :: "zc_packet \<Rightarrow> bytes option" where
  "payload_bytes p = split_off (payload_offset p) (inner p)"

definition tunnel_payload_bytes :: "zc_packet \<Rightarrow> bytes option" where
  "tunnel_payload_bytes p = split_off (peer_manager_header_off (get_packet_offsets (zc_type p))) (inner p)"

definition convert_offset :: "zc_packet_type \<Rightarrow> zc_packet_type \<Rightarrow> nat option" where
  "convert_offset from_type target = (case target of
       TCP \<Rightarrow> Some (tcp_tunnel_header_off (get_packet_offsets from_type))
     | UDP \<Rightarrow> Some (udp_tunnel_header_off (get_packet_offsets from_type))
     | WG \<Rightarrow> Some (wg_tunnel_header_off (get_packet_offsets from_type))
     | DummyTunnel \<Rightarrow> Some (dummy_tunnel_header_off (get_packet_offsets from_type))
     | NIC \<Rightarrow> None)"

definition convert_type :: "(nat \<Rightarrow> u8) \<Rightarrow> zc_packet_type \<Rightarrow> zc_packet \<Rightarrow> zc_packet option" where
  "convert_type g target p =
     (if target = zc_type p then Some p
      else do {
        new_offset \<leftarrow> convert_offset (zc_type p) target;
        if new_offset = INVALID_OFFSET then do {
          tp \<leftarrow> tunnel_payload p;
          Some (new_from_buf (uninit g (peer_manager_header_off (get_packet_offsets target)) @ tp) target)
        } else do {
          buf \<leftarrow> split_off new_offset (inner p);
          Some (new_from_buf buf target)
        }
      })"

definition is_lossy :: "zc_packet \<Rightarrow> bool" where
  "is_lossy p = (case peer_manager_header_of p of
     None \<Rightarrow> False | Some hdr \<Rightarrow> packet_type hdr = packet_kind_u8 Data)"

definition get_src_peer_id :: "zc_packet \<Rightarrow> u32 option" where
  "get_src_peer_id p = map_option from_peer_id (peer_manager_header_of p)"

definition get_dst_peer_id :: "zc_packet \<Rightarrow> u32 option" where
  "get_dst_peer_id p = map_option to_peer_id (peer_manager_header_of p)"

section \<open>Packets of foreign networks\<close>

text \<open>\<open>network_name\<close> is the UTF-8 encoding of the name.\<close>

definition foreign_network_packet_header_new :: "u32 \<Rightarrow> bytes \<Rightarrow> foreign_network_packet_header" where
  "foreign_network_packet_header_new dst network_name =
     (let name_offset = (of_nat FOREIGN_NETWORK_HEADER_SIZE :: u16);
          name_len = (of_nat (length network_name) :: u16)
      in \<lparr>header_len = name_offset + name_len, dst_peer_id = dst,
          network_name_offset = name_offset, network_name_len = name_len\<rparr>)"

definition get_header_len :: "foreign_network_packet_header \<Rightarrow> nat" where
  "get_header_len h = unat (header_len h)"

text \<open>The byte range of the name; the source then panics unless it is valid UTF-8.\<close>

definition get_network_name :: "foreign_network_packet_header \<Rightarrow> bytes \<Rightarrow> bytes option" where
  "get_network_name h zc_packet_payload =
     slice (unat (network_name_offset h)) (unat (network_name_offset h) + unat (network_name_len h))
       zc_packet_payload"

definition new_for_foreign_network ::
  "(nat \<Rightarrow> u8) \<Rightarrow> bytes \<Rightarrow> u32 \<Rightarrow> zc_packet \<Rightarrow> zc_packet option" where
  "new_for_foreign_network g network_name dst foreign_zc_packet = do {
     let fhdr = foreign_network_packet_header_new dst network_name;
     tp \<leftarrow> tunnel_payload foreign_zc_packet;
     let total_payload_len = get_header_len fhdr + length tp;
     let ret = new_nic_packet\<lparr>inner := uninit g (payload_offset new_nic_packet + total_payload_len)\<rparr>;
     ret1 \<leftarrow> mut_payload (overwrite 0 (fn_as_bytes fhdr)) ret;
     ret2 \<leftarrow> (if length network_name = unat (network_name_len fhdr)
       then mut_payload (overwrite (unat (network_name_offset fhdr)) network_name) ret1 else None);
     ret3 \<leftarrow> mut_payload (overwrite (get_header_len fhdr) tp) ret2;
     mut_peer_manager_header (\<lambda>hdr. hdr\<lparr>from_peer_id := 0, to_peer_id := 0,
       packet_type := packet_kind_u8 ForeignNetworkPacket, pm_len := of_nat total_payload_len\<rparr>) ret3
   }"

definition foreign_network_hdr :: "zc_packet \<Rightarrow> foreign_network_packet_header option option" where
  "foreign_network_hdr p = do {
     hdr \<leftarrow> peer_manager_header_of p;
     if packet_type hdr = packet_kind_u8 ForeignNetworkPacket then do {
       pl \<leftarrow> payload p;
       Some (ref_from_prefix FOREIGN_NETWORK_HEADER_SIZE fn_read pl)
     } else Some None
   }"

definition foreign_network_inner_packet_type :: "zc_packet \<Rightarrow> u8 option option" where
  "foreign_network_inner_packet_type p = (case peer_manager_header_of p of
       None \<Rightarrow> Some None
     | Some hdr \<Rightarrow>
         if packet_type hdr \<noteq> packet_kind_u8 ForeignNetworkPacket then Some None
         else do {
           pl \<leftarrow> payload p;
           Some (do {
             fhdr \<leftarrow> ref_from_prefix FOREIGN_NETWORK_HEADER_SIZE fn_read pl;
             inner_packet \<leftarrow> slice_from (get_header_len fhdr) pl;
             map_option packet_type (ref_from_prefix PEER_MANAGER_HEADER_SIZE pm_read inner_packet)
           })
         })"

definition foreign_network_packet :: "zc_packet \<Rightarrow> zc_packet option" where
  "foreign_network_packet p = do {
     mhdr \<leftarrow> foreign_network_hdr p;
     hdr \<leftarrow> mhdr;
     buf \<leftarrow> split_off (get_header_len hdr + payload_offset p) (inner p);
     Some (new_from_buf buf DummyTunnel)
   }"

section \<open>Header images round trip\<close>

text \<open>A fixed-size header: reading inverts writing and writing inverts reading.\<close>

locale header_codec =
  fixes hsize :: nat
    and as_bytes :: "'h \<Rightarrow> bytes"
    and read :: "bytes \<Rightarrow> 'h"
  assumes length_as_bytes: "length (as_bytes h) = hsize"
    and read_as_bytes: "read (as_bytes h) = h"
    and as_bytes_read: "length bs = hsize \<Longrightarrow> as_bytes (read bs) = bs"
begin

lemma as_bytes_inject: "as_bytes h = as_bytes h' \<longleftrightarrow> h = h'"
  by (metis read_as_bytes)

lemma prefix_as_bytes: "ref_from_prefix hsize read (as_bytes h @ bs) = Some h"
  by (simp add: ref_from_prefix_def length_as_bytes read_as_bytes)

lemma suffix_as_bytes: "ref_from_suffix hsize read (bs @ as_bytes h) = Some h"
  by (simp add: ref_from_suffix_def length_as_bytes read_as_bytes)

lemma update_header_at_Some:
  assumes "off + hsize \<le> length (inner p)"
  shows "\<exists>q. update_header_at off hsize read as_bytes f p = Some q
    \<and> zc_type q = zc_type p \<and> length (inner q) = length (inner p)
    \<and> take off (inner q) = take off (inner p)
    \<and> drop (off + hsize) (inner q) = drop (off + hsize) (inner p)
    \<and> header_at off hsize read q = map_option f (header_at off hsize read p)"
  using assms
  by (auto simp: update_header_at_def header_at_def slice_from_def ref_from_prefix_def overwrite_def
      length_as_bytes read_as_bytes)

end

lemma list16_conv:
  "length xs = 16 \<Longrightarrow>
    xs = take 4 xs @ take 4 (drop 4 xs) @ [xs ! 8, xs ! 9, xs ! 10, xs ! 11] @ drop 12 xs"
  by (auto simp: length_Suc_conv numeral_eq_Suc)

lemma list8_conv: "length xs = 8 \<Longrightarrow> xs = take 4 xs @ [xs ! 4, xs ! 5] @ drop 6 xs"
  by (auto simp: length_Suc_conv numeral_eq_Suc)

lemma list10_conv:
  "length xs = 10 \<Longrightarrow> xs = take 2 xs @ take 4 (drop 2 xs) @ take 2 (drop 6 xs) @ drop 8 xs"
  by (auto simp: length_Suc_conv numeral_eq_Suc)

interpretation tcp: header_codec TCP_TUNNEL_HEADER_SIZE tcp_as_bytes tcp_read
  by unfold_locales
    (auto simp: layout_simps tcp_as_bytes_def tcp_read_def from_to_le_bytes to_from_le_bytes)

interpretation udp: header_codec UDP_TUNNEL_HEADER_SIZE udp_as_bytes udp_read
proof unfold_locales
  fix bs :: bytes assume "length bs = UDP_TUNNEL_HEADER_SIZE"
  then show "udp_as_bytes (udp_read bs) = bs"
    using list8_conv [of bs]
    by (simp add: layout_simps udp_as_bytes_def udp_read_def to_from_le_bytes)
qed (simp_all add: layout_simps udp_as_bytes_def udp_read_def from_to_le_bytes nth_append)

interpretation pm: header_codec PEER_MANAGER_HEADER_SIZE pm_as_bytes pm_read
proof unfold_locales
  fix bs :: bytes assume "length bs = PEER_MANAGER_HEADER_SIZE"
  then show "pm_as_bytes (pm_read bs) = bs"
    using list16_conv [of bs]
    by (simp add: layout_simps pm_as_bytes_def pm_read_def to_from_le_bytes)
qed (simp_all add: layout_simps pm_as_bytes_def pm_read_def from_to_le_bytes nth_append)

interpretation fn: header_codec FOREIGN_NETWORK_HEADER_SIZE fn_as_bytes fn_read
proof unfold_locales
  fix bs :: bytes assume "length bs = FOREIGN_NETWORK_HEADER_SIZE"
  then show "fn_as_bytes (fn_read bs) = bs"
    using list10_conv [of bs]
    by (simp add: layout_simps fn_as_bytes_def fn_read_def to_from_le_bytes)
qed (simp_all add: layout_simps fn_as_bytes_def fn_read_def from_to_le_bytes)

text \<open>
  The peer manager header, the tunnel headers and the foreign network header round trip through
  their packed little-endian images: every header is recovered from its bytes, and every image of the
  right size is the image of the header read from it.
\<close>

lemma headers_roundtrip:
  "pm_read (pm_as_bytes h) = h \<and> tcp_read (tcp_as_bytes th) = th \<and> udp_read (udp_as_bytes uh) = uh
    \<and> fn_read (fn_as_bytes fh) = fh
    \<and> (length bs = PEER_MANAGER_HEADER_SIZE \<longrightarrow> pm_as_bytes (pm_read bs) = bs)
    \<and> (length bs = FOREIGN_NETWORK_HEADER_SIZE \<longrightarrow> fn_as_bytes (fn_read bs) = bs)"
  by (simp add: pm.read_as_bytes tcp.read_as_bytes udp.read_as_bytes fn.read_as_bytes
      pm.as_bytes_read fn.as_bytes_read)

lemma headers_roundtrip_witness:
  "pm_as_bytes (pm_read (replicate 16 7)) = replicate 16 7"
  using headers_roundtrip [where bs = "replicate 16 7"] by (simp add: layout_simps)

section \<open>Flags are independent\<close>

lemmas flag_accessors =
  is_encrypted_def is_latency_first_def is_exit_node_def is_no_proxy_def is_compressed_def
  is_not_send_to_tun_def set_encrypted_def set_latency_first_def set_exit_node_def set_no_proxy_def
  set_compressed_def set_not_send_to_tun_def

definition header_flags :: "u8 list" where
  "header_flags = [ENCRYPTED, LATENCY_FIRST, EXIT_NODE, NO_PROXY, COMPRESSED, NOT_SEND_TO_TUN]"

lemma header_flags_bits: "f \<in> set header_flags \<Longrightarrow> \<exists>i. i < 8 \<and> f = 2 ^ i"
  by (auto simp: header_flags_def flag_defs intro: exI [of _ 0] exI [of _ 1] exI [of _ 2]
      exI [of _ 3] exI [of _ 4] exI [of _ 6])

lemma bit_u8_exp: "bit (2 ^ i :: u8) n \<longleftrightarrow> i < 8 \<and> n = i"
  by (auto simp: bit_exp_iff)

lemma has_flag_bit: "i < 8 \<Longrightarrow> has_flag (2 ^ i) h \<longleftrightarrow> bit (flags h) i"
  by (auto simp: has_flag_def bit_eq_iff [where 'a = u8] bit_and_iff bit_u8_exp)

lemma u8_exp_inj: "i < 8 \<Longrightarrow> 2 ^ j = (2 ^ i :: u8) \<longleftrightarrow> j = i"
  by (metis bit_u8_exp)

lemma has_flag_set_flag_bits:
  "i < 8 \<Longrightarrow> j < 8 \<Longrightarrow> has_flag (2 ^ j) (set_flag (2 ^ i) on h)
    \<longleftrightarrow> (if j = i then on else has_flag (2 ^ j) h)"
  by (auto simp: has_flag_bit set_flag_def bit_or_iff bit_and_iff bit_not_iff bit_u8_exp)

text \<open>
  Each flag accessor reads what the matching setter wrote, and setting or clearing one flag leaves
  every other flag and every other field of the header alone.
\<close>

lemma flag_set_get:
  assumes "f \<in> set header_flags" and "f' \<in> set header_flags"
  shows "(has_flag f' (set_flag f on h) \<longleftrightarrow> (if f' = f then on else has_flag f' h))
    \<and> set_flag f on h = h\<lparr>flags := flags (set_flag f on h)\<rparr>"
proof -
  obtain i j where "i < 8" "f = 2 ^ i" "j < 8" "f' = 2 ^ j"
    using assms header_flags_bits by meson
  then show ?thesis
    by (simp add: has_flag_set_flag_bits u8_exp_inj) (simp add: set_flag_def)
qed

lemma flag_set_get_witness:
  "\<not> is_encrypted (set_compressed True (set_encrypted False \<lparr>from_peer_id = 1, to_peer_id = 2,
      packet_type = 1, flags = 255, forward_counter = 1, reserved = 0, pm_len = 0\<rparr>))"
  using flag_set_get [of COMPRESSED ENCRYPTED True "set_encrypted False \<lparr>from_peer_id = 1,
      to_peer_id = 2, packet_type = 1, flags = 255, forward_counter = 1, reserved = 0, pm_len = 0\<rparr>"]
    flag_set_get [of ENCRYPTED ENCRYPTED False "\<lparr>from_peer_id = 1, to_peer_id = 2,
      packet_type = 1, flags = 255, forward_counter = 1, reserved = 0, pm_len = 0\<rparr>"]
  by (simp add: flag_accessors header_flags_def flag_defs)

section \<open>Buffers\<close>

lemmas offset_defs [layout_simps] =
  PAYLOAD_OFFSET_FOR_NIC_PACKET_def INVALID_OFFSET_def get_converted_offset_def

lemma payload_offset_pm:
  "payload_off (get_packet_offsets pt) = peer_manager_header_off (get_packet_offsets pt) + PEER_MANAGER_HEADER_SIZE"
  by (cases pt) (simp_all add: layout_simps)

lemma length_uninit [simp]: "length (uninit g n) = n"
  by (simp add: uninit_def)

text \<open>The offset at which the buffer is cut lies exactly one new tunnel header before the peer
  manager header.\<close>

lemma convert_offset_pm:
  assumes "convert_offset pt target = Some off" "off \<noteq> INVALID_OFFSET"
  shows "off + peer_manager_header_off (get_packet_offsets target) = peer_manager_header_off (get_packet_offsets pt)"
  using assms by (cases target; cases pt) (auto simp: convert_offset_def layout_simps)

lemma convert_type_works:
  assumes "target = NIC \<Longrightarrow> zc_type p = NIC"
    and "peer_manager_header_off (get_packet_offsets (zc_type p)) \<le> length (inner p)"
  shows "\<exists>q. convert_type g target p = Some q \<and> zc_type q = target \<and> tunnel_payload q = tunnel_payload p
    \<and> tunnel_payload q \<noteq> None"
proof (cases "target = zc_type p")
  case True
  with assms show ?thesis by (simp add: convert_type_def tunnel_payload_def slice_from_def)
next
  case False
  with assms(1) have "target \<noteq> NIC" by auto
  then obtain off where off: "convert_offset (zc_type p) target = Some off"
    by (cases target) (auto simp: convert_offset_def)
  show ?thesis
  proof (cases "off = INVALID_OFFSET")
    case True
    with False off assms(2) show ?thesis
      by (auto simp: convert_type_def tunnel_payload_def slice_from_def new_from_buf_def)
  next
    case valid: False
    note cut = convert_offset_pm [OF off valid]
    with False off valid assms(2) show ?thesis
      by (auto simp: convert_type_def tunnel_payload_def split_off_def slice_from_def new_from_buf_def
          add.commute)
  qed
qed

text \<open>
  Converting a packet to any tunnel type succeeds whenever the buffer reaches the peer manager
  header, and keeps the peer manager header and the payload: the tunnel payload of the result is the
  tunnel payload of the original, whether the buffer was cut in place or copied.
\<close>

theorem convert_type_preserves:
  assumes "target \<noteq> NIC"
    and "peer_manager_header_off (get_packet_offsets (zc_type p)) \<le> length (inner p)"
  shows "\<exists>q. convert_type g target p = Some q \<and> zc_type q = target
    \<and> tunnel_payload q = tunnel_payload p \<and> peer_manager_header_of q = peer_manager_header_of p
    \<and> payload q = payload p"
proof -
  obtain q where q: "convert_type g target p = Some q" "zc_type q = target"
    "tunnel_payload q = tunnel_payload p" "tunnel_payload q \<noteq> None"
    using convert_type_works [of target p g] assms by blast
  have "payload r = (case tunnel_payload r of None \<Rightarrow> None | Some tp \<Rightarrow> slice_from PEER_MANAGER_HEADER_SIZE tp)"
    for r
    by (auto simp: payload_def tunnel_payload_def slice_from_def payload_offset_def payload_offset_pm add.commute)
  moreover have "peer_manager_header_of r
      = (case tunnel_payload r of None \<Rightarrow> None | Some tp \<Rightarrow> ref_from_prefix PEER_MANAGER_HEADER_SIZE pm_read tp)" for r
    by (auto simp: peer_manager_header_of_def tunnel_payload_def header_at_def slice_from_def)
  ultimately show ?thesis using q by auto
qed

theorem convert_type_preserves_witness:
  "\<exists>q. convert_type (\<lambda>_. 0) UDP \<lparr>inner = replicate 20 9, zc_type = TCP\<rparr> = Some q \<and> payload q = Some []"
proof -
  have "payload \<lparr>inner = replicate 20 9, zc_type = TCP\<rparr> = Some []"
    by (simp add: payload_def payload_offset_def layout_simps slice_from_def)
  with convert_type_preserves [of UDP "\<lparr>inner = replicate 20 9, zc_type = TCP\<rparr>" "\<lambda>_. 0"]
  show ?thesis by (auto simp: layout_simps)
qed

lemma new_with_payload_eq:
  "new_with_payload g body = Some \<lparr>inner = uninit g 36 @ body, zc_type = NIC\<rparr>"
proof -
  have "take 36 (uninit g (36 + length body)) = uninit g 36"
    by (simp add: uninit_def take_map)
  then show ?thesis
    by (simp add: new_with_payload_def mut_payload_def new_nic_packet_def payload_offset_def layout_simps
        slice_from_def overwrite_def)
qed

lemma mut_peer_manager_header_Some:
  assumes "payload_offset p \<le> length (inner p)"
  shows "\<exists>q. mut_peer_manager_header f p = Some q \<and> zc_type q = zc_type p
    \<and> length (inner q) = length (inner p) \<and> payload q = payload p
    \<and> peer_manager_header_of q = map_option f (peer_manager_header_of p)
    \<and> peer_manager_header_of p \<noteq> None"
proof -
  let ?off = "peer_manager_header_off (get_packet_offsets (zc_type p))"
  have len: "?off + PEER_MANAGER_HEADER_SIZE \<le> length (inner p)"
    using assms by (simp add: payload_offset_def payload_offset_pm)
  from pm.update_header_at_Some [OF len, of f] obtain q where
    q: "mut_peer_manager_header f p = Some q" "zc_type q = zc_type p" "length (inner q) = length (inner p)"
      "drop (?off + PEER_MANAGER_HEADER_SIZE) (inner q) = drop (?off + PEER_MANAGER_HEADER_SIZE) (inner p)"
      "peer_manager_header_of q = map_option f (peer_manager_header_of p)"
    unfolding mut_peer_manager_header_def peer_manager_header_of_def by auto
  moreover have "peer_manager_header_of p \<noteq> None"
    using len by (simp add: peer_manager_header_of_def header_at_def slice_from_def ref_from_prefix_def)
  moreover have "payload q = payload p"
    using q by (simp add: payload_def payload_offset_def payload_offset_pm slice_from_def)
  ultimately show ?thesis by blast
qed

lemma payload_len_eq:
  assumes "payload_offset p \<le> length (inner p)" "length (inner p) < 2 ^ 64"
  shows "payload_len p = length (inner p) - payload_offset p"
proof -
  have "length (inner p) + 2 ^ 64 - payload_offset p = (length (inner p) - payload_offset p) + 2 ^ 64"
    using assms(1) by simp
  then show ?thesis
    using assms(2) unfolding payload_len_def by (simp only: mod_add_self2) simp
qed

text \<open>
  A packet built from a payload carries exactly that payload, and filling the peer manager header
  records the sender, the receiver, the packet type and the payload length without touching the
  payload.
\<close>

lemma new_packet_fill_header:
  assumes "length body < 2 ^ 32"
  shows "\<exists>p q hdr. new_with_payload g body = Some p \<and> payload p = Some body
    \<and> fill_peer_manager_hdr src dst pt p = Some q \<and> payload q = Some body
    \<and> peer_manager_header_of q = Some hdr \<and> from_peer_id hdr = src \<and> to_peer_id hdr = dst
    \<and> packet_type hdr = pt \<and> flags hdr = 0 \<and> forward_counter hdr = 1
    \<and> unat (pm_len hdr) = length body"
proof -
  define p where "p = \<lparr>inner = uninit g 36 @ body, zc_type = NIC\<rparr>"
  have p: "payload_offset p \<le> length (inner p)" "payload p = Some body" "payload_len p = length body"
    using assms by (auto simp: p_def payload_offset_def payload_def slice_from_def layout_simps payload_len_def)
  let ?f = "\<lambda>hdr. hdr\<lparr>from_peer_id := src, to_peer_id := dst, packet_type := pt, flags := 0,
    forward_counter := 1, pm_len := of_nat (payload_len p)\<rparr>"
  obtain q where q: "fill_peer_manager_hdr src dst pt p = Some q" "payload q = Some body"
      "peer_manager_header_of q = map_option ?f (peer_manager_header_of p)" "peer_manager_header_of p \<noteq> None"
    using mut_peer_manager_header_Some [OF p(1), of ?f] p(2)
    unfolding fill_peer_manager_hdr_def by auto
  then obtain h where "peer_manager_header_of q = Some (?f h)" by auto
  moreover have "unat (of_nat (payload_len p) :: u32) = length body"
    using assms p(3) by (simp add: unat_of_nat)
  ultimately show ?thesis
    using q p(2) new_with_payload_eq [of g body] by (auto simp: p_def)
qed

section \<open>Foreign network packets unwrap\<close>

lemma fn_header_len:
  assumes "length name \<le> 65525"
  shows "get_header_len (foreign_network_packet_header_new dst name) = 10 + length name"
    and "unat (network_name_len (foreign_network_packet_header_new dst name)) = length name"
    and "unat (network_name_offset (foreign_network_packet_header_new dst name)) = 10"
proof -
  have "unat (of_nat (length name) :: u16) = length name"
    using assms by (simp add: unat_of_nat)
  moreover have "unat (10 + of_nat (length name) :: u16) = 10 + length name"
    using assms by (simp add: unat_word_ariths unat_of_nat)
  ultimately show
    "get_header_len (foreign_network_packet_header_new dst name) = 10 + length name"
    "unat (network_name_len (foreign_network_packet_header_new dst name)) = length name"
    "unat (network_name_offset (foreign_network_packet_header_new dst name)) = 10"
    by (simp_all add: get_header_len_def foreign_network_packet_header_new_def layout_simps Let_def)
qed

lemma mut_payload_overwrite:
  assumes "payload p = Some body" "a + length ys \<le> length body"
  shows "mut_payload (overwrite a ys) p
    = Some (p\<lparr>inner := take (payload_offset p) (inner p) @ take a body @ ys @ drop (a + length ys) body\<rparr>)"
  using assms by (auto simp: mut_payload_def payload_def slice_from_def overwrite_def split: if_splits)

lemma payload_inner_update:
  assumes "payload p = Some body" "length body' = length body"
  shows "payload (p\<lparr>inner := take (payload_offset p) (inner p) @ body'\<rparr>) = Some body'"
  using assms by (auto simp: payload_def slice_from_def payload_offset_def split: if_splits)

lemma new_for_foreign_network_eq:
  fixes dst :: u32
  assumes "length name \<le> 65525" "tunnel_payload pkt = Some tp"
  defines "fh \<equiv> foreign_network_packet_header_new dst name"
  shows "\<exists>q hdr. new_for_foreign_network g name dst pkt = Some q \<and> zc_type q = NIC
    \<and> payload q = Some (fn_as_bytes fh @ name @ tp)
    \<and> peer_manager_header_of q = Some hdr \<and> packet_type hdr = packet_kind_u8 ForeignNetworkPacket"
proof -
  note len = fn_header_len [OF assms(1), of dst, folded fh_def]
  define n where "n = 10 + length name + length tp"
  define pre where "pre = take 36 (uninit g (36 + n))"
  define body where "body = drop 36 (uninit g (36 + n))"
  define buf where "buf xs = \<lparr>inner = pre @ xs, zc_type = NIC\<rparr>" for xs
  have off: "payload_offset (buf xs) = 36" "payload_offset new_nic_packet = 36" for xs
    by (simp_all add: buf_def payload_offset_def new_nic_packet_def layout_simps)
  have lens: "length pre = 36" "length body = n" "length (fn_as_bytes fh) = 10"
    using fn.length_as_bytes [of fh] by (simp_all add: pre_def body_def layout_simps)
  have wr: "mut_payload (overwrite a ys) (buf xs) = Some (buf (take a xs @ ys @ drop (a + length ys) xs))"
    if "a + length ys \<le> length xs" for a ys xs
    using that lens(1) by (simp add: mut_payload_def off slice_from_def overwrite_def) (simp add: buf_def lens)
  have r0: "new_nic_packet\<lparr>inner := uninit g (36 + n)\<rparr> = buf body"
    by (simp add: buf_def pre_def body_def new_nic_packet_def)
  have s1: "mut_payload (overwrite 0 (fn_as_bytes fh)) (buf body) = Some (buf (fn_as_bytes fh @ drop 10 body))"
    using lens by (subst wr) (simp_all add: n_def)
  have s2: "mut_payload (overwrite 10 name) (buf (fn_as_bytes fh @ drop 10 body))
      = Some (buf (fn_as_bytes fh @ name @ drop (10 + length name) body))"
    using lens by (subst wr) (simp_all add: n_def add.commute)
  have s3: "mut_payload (overwrite (10 + length name) tp) (buf (fn_as_bytes fh @ name @ drop (10 + length name) body))
      = Some (buf (fn_as_bytes fh @ name @ tp))"
    using lens by (subst wr) (simp_all add: n_def)
  let ?r3 = "buf (fn_as_bytes fh @ name @ tp)"
  have p3: "payload ?r3 = Some (fn_as_bytes fh @ name @ tp)" "payload_offset ?r3 \<le> length (inner ?r3)"
    using lens by (simp_all add: payload_def slice_from_def off) (simp_all add: buf_def)
  obtain q where q: "mut_peer_manager_header (\<lambda>hdr. hdr\<lparr>from_peer_id := 0, to_peer_id := 0,
       packet_type := packet_kind_u8 ForeignNetworkPacket, pm_len := of_nat n\<rparr>) ?r3 = Some q"
      "zc_type q = NIC" "payload q = payload ?r3" "\<exists>hdr. peer_manager_header_of q = Some hdr
        \<and> packet_type hdr = packet_kind_u8 ForeignNetworkPacket"
    using mut_peer_manager_header_Some [OF p3(2), of "\<lambda>hdr. hdr\<lparr>from_peer_id := 0, to_peer_id := 0,
       packet_type := packet_kind_u8 ForeignNetworkPacket, pm_len := of_nat n\<rparr>"]
    by (auto simp: buf_def)
  have "new_for_foreign_network g name dst pkt = Some q"
    using q(1) by (simp only: new_for_foreign_network_def Let_def assms(2) len off r0 s1 s2 s3
        bind.bind_lunit simp_thms if_True fh_def [symmetric] n_def [symmetric])
  with q p3(1) show ?thesis by auto
qed

text \<open>
  C22: a packet wrapped for a foreign network unwraps to the original: the header of the wrapped packet
  names the destination peer and the network, and cutting it off leaves exactly the tunnel payload of
  the original packet.  This holds for every network name of at most 65525 bytes, the longest the
  16-bit header length can describe.
\<close>

theorem foreign_network_roundtrip:
  assumes "length name \<le> 65525" and "tunnel_payload pkt = Some tp"
  shows "\<exists>q fh r. new_for_foreign_network g name dst pkt = Some q
    \<and> foreign_network_hdr q = Some (Some fh) \<and> dst_peer_id fh = dst
    \<and> Option.bind (payload q) (get_network_name fh) = Some name
    \<and> foreign_network_packet q = Some r \<and> zc_type r = DummyTunnel \<and> inner r = tp"
proof -
  let ?fh = "foreign_network_packet_header_new dst name"
  obtain q hdr where q: "new_for_foreign_network g name dst pkt = Some q" "zc_type q = NIC"
      "payload q = Some (fn_as_bytes ?fh @ name @ tp)"
      "peer_manager_header_of q = Some hdr" "packet_type hdr = packet_kind_u8 ForeignNetworkPacket"
    using new_for_foreign_network_eq [OF assms, of g dst] by blast
  have fl: "length (fn_as_bytes ?fh) = 10"
    using fn.length_as_bytes [of ?fh] by (simp add: layout_simps)
  have hdr: "foreign_network_hdr q = Some (Some ?fh)"
    using q by (simp add: foreign_network_hdr_def fn.prefix_as_bytes)
  define pre where "pre = take (payload_offset q) (inner q)"
  have "length pre = payload_offset q" "inner q = pre @ fn_as_bytes ?fh @ name @ tp"
    using q(3) append_take_drop_id [of "payload_offset q" "inner q"]
    by (auto simp: pre_def payload_def slice_from_def split: if_splits) (metis append_take_drop_id)
  then have "foreign_network_packet q = Some \<lparr>inner = tp, zc_type = DummyTunnel\<rparr>"
    using fl by (simp add: foreign_network_packet_def hdr fn_header_len [OF assms(1)] split_off_def
        slice_from_def new_from_buf_def)
  moreover have "get_network_name ?fh (fn_as_bytes ?fh @ name @ tp) = Some name"
    using fl by (simp add: get_network_name_def fn_header_len [OF assms(1)] slice_def)
  moreover have "dst_peer_id ?fh = dst"
    by (simp add: foreign_network_packet_header_new_def Let_def)
  ultimately show ?thesis using q hdr by auto
qed

theorem foreign_network_roundtrip_witness:
  "\<exists>q r. new_for_foreign_network (\<lambda>_. 0) [110, 101, 116] 5 \<lparr>inner = replicate 16 1, zc_type = DummyTunnel\<rparr> = Some q
    \<and> foreign_network_packet q = Some r \<and> inner r = replicate 16 1"
  using foreign_network_roundtrip [of "[110, 101, 116]"
      "\<lparr>inner = replicate 16 1, zc_type = DummyTunnel\<rparr>" "replicate 16 1" "\<lambda>_. 0" 5]
  by (auto simp: tunnel_payload_def slice_from_def)

end
