(* ===== verification/Replay_Window.thy ===== *)
theory Replay_Window
  imports Prelude
begin

text \<open>
  The 256-entry anti-replay window of \<^verbatim>\<open>peers/secure_datagram.rs\<close>: a 32-byte bitmap whose bit \<open>i\<close>
  says whether the sequence number \<open>max_seq - i\<close> was seen.  The byte and bit loops of
  \<^verbatim>\<open>shift_right\<close> are modelled as written and shown to be one shift of the 256-bit vector; the window
  then refines a filter that remembers the set of accepted numbers.
\<close>

record replay_window =
  max_seq :: u64
  bitmap :: bytes
  window_valid :: bool

definition window_default :: replay_window where
  "window_default = \<lparr>max_seq = 0, bitmap = replicate 32 0, window_valid = False\<rparr>"

definition window_clear :: "replay_window \<Rightarrow> replay_window" where
  "window_clear w = w\<lparr>max_seq := 0, bitmap := replicate (length (bitmap w)) 0, window_valid := False\<rparr>"

definition test_bit :: "replay_window \<Rightarrow> nat \<Rightarrow> bool" where
  "test_bit w idx \<longleftrightarrow> (let byte = idx div 8; b = idx mod 8 in drop_bit b (bitmap w ! byte) AND 1 = 1)"

definition set_bit_at :: "nat \<Rightarrow> replay_window \<Rightarrow> replay_window" where
  "set_bit_at idx w =
     (let byte = idx div 8; b = idx mod 8
      in w\<lparr>bitmap := (bitmap w)[byte := bitmap w ! byte OR push_bit b 1]\<rparr>)"

text \<open>The loop over the bytes from the last to the first, and the carry loop from the first to the
  last.\<close>

fun shift_bytes :: "nat \<Rightarrow> nat \<Rightarrow> bytes \<Rightarrow> bytes" where
  "shift_bytes byte_shift 0 bm = bm"
| "shift_bytes byte_shift (Suc i) bm =
     shift_bytes byte_shift i (bm[i := if byte_shift \<le> i then bm ! (i - byte_shift) else 0])"

fun shift_bits :: "nat \<Rightarrow> u8 \<Rightarrow> bytes \<Rightarrow> bytes" where
  "shift_bits bit_shift carry [] = []"
| "shift_bits bit_shift carry (b # bs) =
     (push_bit bit_shift b OR carry) # shift_bits bit_shift (drop_bit (8 - bit_shift) b) bs"

definition shift_right :: "nat \<Rightarrow> replay_window \<Rightarrow> replay_window" where
  "shift_right shift w =
     (if shift = 0 then w
      else if 256 \<le> shift then w\<lparr>bitmap := replicate (length (bitmap w)) 0\<rparr>
      else let byte_shift = shift div 8; bit_shift = shift mod 8;
               bm1 = (if 0 < byte_shift then shift_bytes byte_shift (length (bitmap w)) (bitmap w) else bitmap w);
               bm2 = (if 0 < bit_shift then shift_bits bit_shift 0 bm1 else bm1)
           in w\<lparr>bitmap := bm2\<rparr>)"

definition accept :: "u64 \<Rightarrow> replay_window \<Rightarrow> bool \<times> replay_window" where
  "accept seq w =
     (if \<not> window_valid w then (True, set_bit_at 0 (w\<lparr>window_valid := True, max_seq := seq\<rparr>))
      else if max_seq w < seq then
        (True, set_bit_at 0 ((shift_right (unat (seq - max_seq w)) w)\<lparr>max_seq := seq\<rparr>))
      else let delta = unat (max_seq w - seq)
           in if 256 \<le> delta then (False, w)
              else if test_bit w delta then (False, w)
              else (True, set_bit_at delta w))"

definition can_accept :: "u64 \<Rightarrow> replay_window \<Rightarrow> bool" where
  "can_accept seq w \<longleftrightarrow>
     (if \<not> window_valid w \<or> max_seq w < seq then True
      else let delta = unat (max_seq w - seq) in delta < 256 \<and> \<not> test_bit w delta)"

section \<open>The loops are one shift\<close>

definition bm_bit :: "bytes \<Rightarrow> nat \<Rightarrow> bool" where
  "bm_bit bm idx \<longleftrightarrow> bit (bm ! (idx div 8)) (idx mod 8)"

lemma test_bit_bm: "test_bit w idx \<longleftrightarrow> bm_bit (bitmap w) idx"
  by (simp add: test_bit_def bm_bit_def Let_def bit_iff_and_drop_bit_eq_1)

lemma length_shift_bytes [simp]: "length (shift_bytes s n bm) = length bm"
  by (induction n arbitrary: bm) auto

lemma shift_bytes_nth:
  "n \<le> length bm \<Longrightarrow> i < length bm \<Longrightarrow>
    shift_bytes s n bm ! i = (if i < n then if s \<le> i then bm ! (i - s) else 0 else bm ! i)"
  by (induction n arbitrary: bm) (auto simp: nth_list_update less_Suc_eq)

lemma length_shift_bits [simp]: "length (shift_bits s c bm) = length bm"
  by (induction bm arbitrary: c) auto

lemma bit_shift_bits:
  assumes "0 < s" "s < 8" "k < length bm" "i < 8"
    and "\<And>j. s \<le> j \<Longrightarrow> \<not> bit c j"
  shows "bit (shift_bits s c bm ! k) i \<longleftrightarrow>
    (if s \<le> i then bit (bm ! k) (i - s)
     else if k = 0 then bit c i else bit (bm ! (k - 1)) (i + 8 - s))"
  using assms
proof (induction bm arbitrary: c k)
  case Nil
  then show ?case by simp
next
  case (Cons b bm)
  show ?case
  proof (cases k)
    case 0
    with Cons.prems show ?thesis
      by (auto simp: bit_or_iff bit_push_bit_iff)
  next
    case (Suc k')
    have noc: "\<not> bit (drop_bit (8 - s) b) j" if "s \<le> j" for j
      using that Cons.prems bit_imp_le_length [of b "8 - s + j"] by (auto simp: bit_drop_bit_eq)
    have "bit (shift_bits s (drop_bit (8 - s) b) bm ! k') i \<longleftrightarrow>
        (if s \<le> i then bit (bm ! k') (i - s)
         else if k' = 0 then bit (drop_bit (8 - s) b) i else bit (bm ! (k' - 1)) (i + 8 - s))"
      using Suc Cons.prems by (intro Cons.IH noc) auto
    moreover have "8 - s + i = i + 8 - s"
      using Cons.prems by simp
    ultimately show ?thesis
      using Suc Cons.prems by (auto simp: bit_drop_bit_eq nth_Cons')
  qed
qed

lemma bm_bit_shift_bits:
  assumes "0 < s" "s < 8" "idx < 8 * length bm"
  shows "bm_bit (shift_bits s 0 bm) idx \<longleftrightarrow> s \<le> idx \<and> bm_bit bm (idx - s)"
proof -
  define k i where "k = idx div 8" and "i = idx mod 8"
  have idx: "idx = 8 * k + i" "i < 8" by (simp_all add: k_def i_def)
  have k: "k < length bm" using assms(3) idx by simp
  have main: "bm_bit (shift_bits s 0 bm) idx \<longleftrightarrow>
      (if s \<le> i then bit (bm ! k) (i - s) else if k = 0 then False else bit (bm ! (k - 1)) (i + 8 - s))"
    unfolding bm_bit_def k_def [symmetric] i_def [symmetric]
    by (subst bit_shift_bits) (use assms idx k in auto)
  show ?thesis
  proof (cases "s \<le> i")
    case True
    then have "(idx - s) div 8 = k" "(idx - s) mod 8 = i - s"
      using idx by (auto simp: div_nat_eqI mod_nat_eqI)
    with True idx show ?thesis unfolding main by (simp add: bm_bit_def)
  next
    case lt: False
    show ?thesis
    proof (cases k)
      case 0
      with lt idx show ?thesis unfolding main by simp
    next
      case (Suc k')
      then have "idx - s = 8 * k' + (i + 8 - s)" "i + 8 - s < 8" using lt idx assms by auto
      then have "(idx - s) div 8 = k'" "(idx - s) mod 8 = i + 8 - s" by simp_all
      with lt idx Suc assms show ?thesis unfolding main by (simp add: bm_bit_def)
    qed
  qed
qed

lemma bm_bit_shift_bytes:
  assumes "idx < 8 * length bm"
  shows "bm_bit (shift_bytes s (length bm) bm) idx \<longleftrightarrow> 8 * s \<le> idx \<and> bm_bit bm (idx - 8 * s)"
proof (cases "8 * s \<le> idx")
  case True
  then obtain m where m: "idx = 8 * s + m" using le_Suc_ex by blast
  then have "idx div 8 = s + m div 8" "idx mod 8 = m mod 8" by simp_all
  moreover have "s + m div 8 < length bm" using assms m by linarith
  ultimately show ?thesis using m by (simp add: bm_bit_def shift_bytes_nth)
next
  case False
  then have "idx div 8 < s" "idx div 8 < length bm" using assms by auto
  with False show ?thesis by (simp add: bm_bit_def shift_bytes_nth)
qed

lemma length_shift_right [simp]: "length (bitmap (shift_right n w)) = length (bitmap w)"
  by (simp add: shift_right_def Let_def)

lemma test_bit_shift_right:
  assumes "length (bitmap w) = 32" "idx < 256"
  shows "test_bit (shift_right n w) idx \<longleftrightarrow> n \<le> idx \<and> test_bit w (idx - n)"
proof -
  consider "n = 0" | "256 \<le> n" | "0 < n" "n < 256" by linarith
  then show ?thesis
  proof cases
    case 1
    then show ?thesis by (simp add: shift_right_def)
  next
    case 2
    with assms show ?thesis by (auto simp: shift_right_def test_bit_bm bm_bit_def)
  next
    case 3
    let ?bm1 = "if 0 < n div 8 then shift_bytes (n div 8) (length (bitmap w)) (bitmap w) else bitmap w"
    have l: "length ?bm1 = 32" using assms by simp
    have 1: "bm_bit ?bm1 j \<longleftrightarrow> 8 * (n div 8) \<le> j \<and> bm_bit (bitmap w) (j - 8 * (n div 8))" if "j < 256" for j
      using that assms bm_bit_shift_bytes [of j "bitmap w" "n div 8"] by auto
    have "bm_bit (bitmap (shift_right n w)) idx \<longleftrightarrow> n mod 8 \<le> idx \<and> bm_bit ?bm1 (idx - n mod 8)"
      using 3 assms l bm_bit_shift_bits [of "n mod 8" idx ?bm1]
      by (cases "n mod 8 = 0") (auto simp: shift_right_def Let_def)
    also have "\<dots> \<longleftrightarrow> n mod 8 \<le> idx \<and> 8 * (n div 8) \<le> idx - n mod 8
        \<and> bm_bit (bitmap w) (idx - n mod 8 - 8 * (n div 8))"
      using 1 [of "idx - n mod 8"] assms by auto
    also have "\<dots> \<longleftrightarrow> n \<le> idx \<and> bm_bit (bitmap w) (idx - n)"
    proof -
      have "n = n mod 8 + 8 * (n div 8)" by simp
      then have "n mod 8 \<le> idx \<and> 8 * (n div 8) \<le> idx - n mod 8 \<longleftrightarrow> n \<le> idx"
        and "idx - n mod 8 - 8 * (n div 8) = idx - n" by linarith+
      then show ?thesis by auto
    qed
    finally show ?thesis by (simp add: test_bit_bm)
  qed
qed

lemma test_bit_set_bit_at:
  assumes "length (bitmap w) = 32" "idx < 256" "j < 256"
  shows "test_bit (set_bit_at j w) idx \<longleftrightarrow> idx = j \<or> test_bit w idx"
proof -
  have "j div 8 < 32" "idx div 8 < 32" using assms by auto
  moreover have "idx = j \<longleftrightarrow> idx div 8 = j div 8 \<and> idx mod 8 = j mod 8"
    by (metis mult_div_mod_eq)
  ultimately show ?thesis using assms
    by (auto simp: test_bit_bm bm_bit_def set_bit_at_def Let_def nth_list_update bit_or_iff
        bit_exp_iff)
qed

lemma set_bit_at_fields [simp]:
  "max_seq (set_bit_at j w) = max_seq w" "window_valid (set_bit_at j w) = window_valid w"
  "length (bitmap (set_bit_at j w)) = length (bitmap w)"
  by (simp_all add: set_bit_at_def Let_def)

lemma shift_right_fields [simp]:
  "max_seq (shift_right n w) = max_seq w" "window_valid (shift_right n w) = window_valid w"
  by (simp_all add: shift_right_def Let_def)

lemma test_bit_fields [simp]:
  "test_bit (w\<lparr>max_seq := s\<rparr>) idx = test_bit w idx" "test_bit (w\<lparr>window_valid := v\<rparr>) idx = test_bit w idx"
  by (simp_all add: test_bit_def)

section \<open>The window refines a set of seen numbers\<close>

text \<open>
  \<open>window_sees w S\<close>: the window \<open>w\<close> has accepted exactly the sequence numbers \<open>S\<close> since it was
  cleared, as far as its 256 entries reach.
\<close>

definition window_sees :: "replay_window \<Rightarrow> nat set \<Rightarrow> bool" where
  "window_sees w S \<longleftrightarrow> length (bitmap w) = 32
     \<and> (\<forall>i < 256. test_bit w i \<longleftrightarrow> i \<le> unat (max_seq w) \<and> unat (max_seq w) - i \<in> S)
     \<and> (\<forall>s \<in> S. s \<le> unat (max_seq w))
     \<and> (if window_valid w then unat (max_seq w) \<in> S else S = {})"

lemma window_sees_length: "window_sees w S \<Longrightarrow> length (bitmap w) = 32"
  by (simp add: window_sees_def)

lemma window_sees_default: "window_sees window_default {}"
  by (auto simp: window_sees_def window_default_def test_bit_bm bm_bit_def)

text \<open>The answer a window with history \<open>S\<close> gives.\<close>

definition window_spec :: "bool \<Rightarrow> nat \<Rightarrow> nat set \<Rightarrow> nat \<Rightarrow> bool" where
  "window_spec valid mx S seq \<longleftrightarrow> \<not> valid \<or> mx < seq \<or> (mx < seq + 256 \<and> seq \<notin> S)"

lemma can_accept_spec:
  assumes "window_sees w S"
  shows "can_accept seq w \<longleftrightarrow> window_spec (window_valid w) (unat (max_seq w)) S (unat seq)"
proof (cases "window_valid w \<and> \<not> max_seq w < seq")
  case True
  then have le: "unat seq \<le> unat (max_seq w)" and d: "unat (max_seq w - seq) = unat (max_seq w) - unat seq"
    by (auto simp: not_less word_le_nat_alt unat_sub)
  show ?thesis
    using True le assms by (auto simp: can_accept_def window_spec_def Let_def d window_sees_def)
next
  case False
  then show ?thesis by (auto simp: can_accept_def window_spec_def word_less_nat_alt)
qed

lemma accept_iff_can_accept: "fst (accept seq w) \<longleftrightarrow> can_accept seq w"
  by (auto simp: accept_def can_accept_def Let_def)

lemma accept_sees:
  assumes "window_sees w S" "accept seq w = (ok, w')"
  shows "window_sees w' (if ok then insert (unat seq) S else S)"
proof -
  note len = window_sees_length [OF assms(1)]
  consider (first) "\<not> window_valid w" | (newer) "window_valid w" "max_seq w < seq"
    | (old) "window_valid w" "seq \<le> max_seq w" by fastforce
  then show ?thesis
  proof cases
    case first
    with assms len show ?thesis
      by (auto simp: accept_def window_sees_def test_bit_set_bit_at)
  next
    case newer
    let ?d = "unat (seq - max_seq w)"
    have d: "unat seq = unat (max_seq w) + ?d" and d0: "0 < ?d"
      using newer(2) by (simp_all add: unat_sub word_less_nat_alt less_imp_le word_le_nat_alt)
    have "test_bit (set_bit_at 0 (shift_right ?d w\<lparr>max_seq := seq\<rparr>)) i \<longleftrightarrow>
        i \<le> unat seq \<and> unat seq - i \<in> insert (unat seq) S" if "i < 256" for i
    proof -
      have "unat seq - i \<in> S \<Longrightarrow> ?d \<le> i"
        using assms(1) d by (auto simp: window_sees_def)
      moreover have "?d \<le> i \<Longrightarrow> unat seq - i = unat (max_seq w) - (i - ?d)"
        using d by simp
      ultimately show ?thesis
        using that len assms(1) d d0
        by (auto simp: test_bit_set_bit_at test_bit_shift_right window_sees_def)
    qed
    with newer assms len d show ?thesis
      by (auto simp: accept_def window_sees_def)
  next
    case old
    then have le: "unat seq \<le> unat (max_seq w)" and d: "unat (max_seq w - seq) = unat (max_seq w) - unat seq"
      by (auto simp: word_le_nat_alt unat_sub)
    show ?thesis
    proof (cases ok)
      case True
      with old assms(2) have w': "w' = set_bit_at (unat (max_seq w - seq)) w" "unat (max_seq w - seq) < 256"
        by (auto simp: accept_def Let_def split: if_splits)
      have "i = unat (max_seq w) - unat seq \<longleftrightarrow> unat (max_seq w) - i = unat seq" if "i \<le> unat (max_seq w)" for i
        using that le by auto
      with True w' old assms(1) len le d show ?thesis
        by (auto simp: window_sees_def test_bit_set_bit_at)
    next
      case False
      with assms old show ?thesis by (auto simp: accept_def Let_def split: if_splits)
    qed
  qed
qed

text \<open>What a replay filter promises: it never accepts a number twice, and it accepts every number
  that is new and not too old.\<close>

locale replay_filter =
  fixes seen :: "'w \<Rightarrow> nat set \<Rightarrow> bool"
    and probe :: "'n \<Rightarrow> 'w \<Rightarrow> bool"
    and commit :: "'n \<Rightarrow> 'w \<Rightarrow> bool \<times> 'w"
    and num :: "'n \<Rightarrow> nat"
  assumes commit_probe: "fst (commit n w) \<longleftrightarrow> probe n w"
    and commit_fresh: "seen w S \<Longrightarrow> probe n w \<Longrightarrow> num n \<notin> S"
    and commit_seen: "seen w S \<Longrightarrow> commit n w = (ok, w') \<Longrightarrow> seen w' (if ok then insert (num n) S else S)"
begin

text \<open>The numbers of a run that are accepted, in order.\<close>

fun accepted :: "'n list \<Rightarrow> 'w \<Rightarrow> nat list" where
  "accepted [] w = []"
| "accepted (n # ns) w = (case commit n w of (ok, w') \<Rightarrow> (if ok then [num n] else []) @ accepted ns w')"

lemma accepted_fresh: "seen w S \<Longrightarrow> distinct (accepted ns w) \<and> set (accepted ns w) \<inter> S = {}"
proof (induction ns arbitrary: w S)
  case Nil
  then show ?case by simp
next
  case (Cons n ns)
  obtain ok w' where c: "commit n w = (ok, w')" by (cases "commit n w")
  have "seen w' (if ok then insert (num n) S else S)"
    using Cons.prems c by (rule commit_seen)
  then have IH: "distinct (accepted ns w')" "set (accepted ns w') \<inter> (if ok then insert (num n) S else S) = {}"
    using Cons.IH by blast+
  moreover have "ok \<Longrightarrow> num n \<notin> S"
    using Cons.prems c commit_probe [of n w] commit_fresh by simp
  ultimately show ?case using c by (cases ok) auto
qed

end

lemma window_spec_fresh:
  "window_sees w S \<Longrightarrow> window_spec (window_valid w) (unat (max_seq w)) S seq \<Longrightarrow> seq \<notin> S"
  by (auto simp: window_sees_def window_spec_def split: if_splits)

interpretation window: replay_filter window_sees can_accept accept unat
proof unfold_locales
  fix w S and n :: u64
  assume "window_sees w S" "can_accept n w"
  then show "unat n \<notin> S" using window_spec_fresh can_accept_spec by blast
qed (auto simp: accept_iff_can_accept accept_sees)

text \<open>
  The anti-replay window accepts no sequence number twice: whatever numbers arrive in whatever
  order at a fresh window, the accepted ones are pairwise distinct.
\<close>

lemma window_no_replay: "distinct (window.accepted seqs window_default)"
  using window.accepted_fresh [OF window_sees_default] by blast

text \<open>
  C17: the bitmap window decides exactly like a filter that remembers the whole set of accepted
  numbers and rejects a number that was accepted before or lies 256 or more below the highest
  accepted one; the byte-wise and bit-wise loops of \<^verbatim>\<open>shift_right\<close> keep that correspondence.
\<close>

theorem window_refines_set:
  assumes "window_sees w S" and "accept seq w = (ok, w')"
  shows "(ok \<longleftrightarrow> window_spec (window_valid w) (unat (max_seq w)) S (unat seq))
    \<and> window_sees w' (if ok then insert (unat seq) S else S)"
  using assms accept_sees can_accept_spec accept_iff_can_accept [of seq w] by fastforce

theorem window_refines_set_witness:
  "fst (accept 300 (snd (accept 5 window_default)))
    \<and> window_sees (snd (accept 300 (snd (accept 5 window_default)))) {300, 5}"
proof -
  obtain ok w where 1: "accept 5 window_default = (ok, w)" by (cases "accept 5 window_default")
  then have ok: "ok" by (simp add: accept_def window_default_def split: if_splits)
  obtain ok' w' where 2: "accept 300 w = (ok', w')" by (cases "accept 300 w")
  have s: "window_sees w {5}"
    using window_refines_set [OF window_sees_default 1] ok by simp
  have m: "max_seq w = 5" "window_valid w"
    using 1 by (auto simp: accept_def window_default_def)
  have "ok' \<longleftrightarrow> window_spec (window_valid w) (unat (max_seq w)) {5} (unat (300 :: u64))"
    and "window_sees w' (if ok' then insert (unat (300 :: u64)) {5} else {5})"
    using window_refines_set [OF s 2] by blast+
  then show ?thesis using 1 2 m by (simp add: window_spec_def)
qed

lemma window_clear_sees: "window_sees w S \<Longrightarrow> window_sees (window_clear w) {}"
  by (auto simp: window_sees_def window_clear_def test_bit_bm bm_bit_def)

end
