(* ===== verification/Encrypt.thy ===== *)
theory Encrypt
  imports Packet_Def
begin

text \<open>
  The \<^verbatim>\<open>Encryptor\<close> implementations of \<^verbatim>\<open>peers/encrypt\<close>: the null cipher, the XOR cipher and the
  AEAD ciphers of the default build (\<^verbatim>\<open>ring.rs\<close>), and the choice between them by algorithm name.
  The AEAD primitives and HMAC come from crates; they are the fields of the parameter record
  \<open>crypto\<close>.  A result is \<^term>\<open>None\<close> on a panic, an error on the left, the changed packet on the right.
\<close>

datatype encrypt_error = PacketTooShort nat | DecryptionFailed | EncryptionFailed | InvalidTag bytes

datatype aead_alg = AES_128_GCM | AES_256_GCM | CHACHA20_POLY1305

record crypto =
  hmac_sha256 :: "bytes \<Rightarrow> bytes \<Rightarrow> bytes"
  aead_seal :: "aead_alg \<Rightarrow> bytes \<Rightarrow> bytes \<Rightarrow> bytes \<Rightarrow> (bytes \<times> bytes) option"
  aead_open :: "aead_alg \<Rightarrow> bytes \<Rightarrow> bytes \<Rightarrow> bytes \<Rightarrow> bytes option"

text \<open>The documented behaviour of the primitives: sealing keeps the length, makes a 16-byte tag, and
  opening ciphertext and tag gives the plaintext back; opening yields 16 bytes less than its input.\<close>

definition crypto_correct :: "crypto \<Rightarrow> bool" where
  "crypto_correct cr \<longleftrightarrow>
     (\<forall>alg key n pt ct tg. aead_seal cr alg key n pt = Some (ct, tg) \<longrightarrow>
        length ct = length pt \<and> length tg = 16 \<and> aead_open cr alg key n (ct @ tg) = Some pt)
     \<and> (\<forall>alg key n ct pt. aead_open cr alg key n ct = Some pt \<longrightarrow> length pt + 16 = length ct)"

datatype cipher = NullCipher | XorCipher bytes | RingCipher aead_alg bytes

definition null_decrypt :: "zc_packet \<Rightarrow> (encrypt_error + zc_packet) option" where
  "null_decrypt p = do {
     hdr \<leftarrow> peer_manager_header_of p;
     Some (if is_encrypted hdr then Inl DecryptionFailed else Inr p)
   }"

definition null_encrypt :: "zc_packet \<Rightarrow> (encrypt_error + zc_packet) option" where
  "null_encrypt p = Some (Inr p)"

definition xor_new :: "bytes \<Rightarrow> cipher option" where
  "xor_new key = (if key = [] then None else Some (XorCipher key))"

definition xor_data :: "bytes \<Rightarrow> bytes \<Rightarrow> bytes" where
  "xor_data key dat = map (\<lambda>(i, b). b XOR key ! (i mod length key)) (enumerate 0 dat)"

definition xor_decrypt :: "bytes \<Rightarrow> zc_packet \<Rightarrow> (encrypt_error + zc_packet) option" where
  "xor_decrypt key p = do {
     hdr \<leftarrow> peer_manager_header_of p;
     if \<not> is_encrypted hdr then Some (Inr p)
     else do {
       p1 \<leftarrow> mut_payload (\<lambda>dat. Some (xor_data key dat)) p;
       p2 \<leftarrow> mut_peer_manager_header (set_encrypted False) p1;
       Some (Inr p2)
     }
   }"

definition xor_encrypt :: "bytes \<Rightarrow> zc_packet \<Rightarrow> (encrypt_error + zc_packet) option" where
  "xor_encrypt key p = do {
     hdr \<leftarrow> peer_manager_header_of p;
     if is_encrypted hdr then Some (Inr p)
     else do {
       p1 \<leftarrow> mut_payload (\<lambda>dat. Some (xor_data key dat)) p;
       p2 \<leftarrow> mut_peer_manager_header (set_encrypted True) p1;
       Some (Inr p2)
     }
   }"

definition ring_decrypt :: "crypto \<Rightarrow> aead_alg \<Rightarrow> bytes \<Rightarrow> zc_packet \<Rightarrow> (encrypt_error + zc_packet) option" where
  "ring_decrypt cr alg key p = do {
     hdr \<leftarrow> peer_manager_header_of p;
     if \<not> is_encrypted hdr then Some (Inr p)
     else do {
       pl \<leftarrow> payload p;
       let plen = length pl;
       if plen < AEAD_TAIL_SIZE then Some (Inl (PacketTooShort plen))
       else do {
         let text_and_tag_len = plen - AEAD_TAIL_SIZE + 16;
         tail \<leftarrow> ref_from_suffix AEAD_TAIL_SIZE aead_tail_read pl;
         (case aead_open cr alg key (tail_nonce tail) (take text_and_tag_len pl) of
            None \<Rightarrow> Some (Inl DecryptionFailed)
          | Some text \<Rightarrow> do {
              p1 \<leftarrow> mut_payload (overwrite 0 text) p;
              p2 \<leftarrow> mut_peer_manager_header (set_encrypted False) p1;
              Some (Inr (p2\<lparr>inner := take (buf_len p2 - AEAD_TAIL_SIZE) (inner p2)\<rparr>))
            })
       }
     }
   }"

text \<open>\<open>rnd\<close> are the bytes the random generator fills in when the caller gives no nonce.\<close>

definition ring_encrypt_with_nonce ::
  "crypto \<Rightarrow> bytes \<Rightarrow> aead_alg \<Rightarrow> bytes \<Rightarrow> bytes option \<Rightarrow> zc_packet \<Rightarrow> (encrypt_error + zc_packet) option" where
  "ring_encrypt_with_nonce cr rnd alg key mnonce p = do {
     hdr \<leftarrow> peer_manager_header_of p;
     if is_encrypted hdr then Some (Inr p)
     else (case (case mnonce of None \<Rightarrow> Some rnd | Some n \<Rightarrow> if length n = 12 then Some n else None) of
         None \<Rightarrow> Some (Inl EncryptionFailed)
       | Some n \<Rightarrow> do {
           pl \<leftarrow> payload p;
           (case aead_seal cr alg key n pl of
              None \<Rightarrow> Some (Inl EncryptionFailed)
            | Some (ct, tg) \<Rightarrow>
                if length tg \<noteq> 16 then Some (Inl (InvalidTag tg))
                else do {
                  p1 \<leftarrow> mut_payload (overwrite 0 ct) p;
                  p2 \<leftarrow> mut_peer_manager_header (set_encrypted True) p1;
                  Some (Inr (p2\<lparr>inner := inner p2 @ aead_tail_as_bytes \<lparr>tail_tag = tg, tail_nonce = n\<rparr>\<rparr>))
                })
         })
   }"

fun encryptor_decrypt :: "crypto \<Rightarrow> cipher \<Rightarrow> zc_packet \<Rightarrow> (encrypt_error + zc_packet) option" where
  "encryptor_decrypt cr NullCipher p = null_decrypt p"
| "encryptor_decrypt cr (XorCipher key) p = xor_decrypt key p"
| "encryptor_decrypt cr (RingCipher alg key) p = ring_decrypt cr alg key p"

text \<open>The null and XOR ciphers inherit the default method, which ignores the nonce.\<close>

fun encrypt_with_nonce ::
  "crypto \<Rightarrow> bytes \<Rightarrow> cipher \<Rightarrow> bytes option \<Rightarrow> zc_packet \<Rightarrow> (encrypt_error + zc_packet) option" where
  "encrypt_with_nonce cr rnd NullCipher n p = null_encrypt p"
| "encrypt_with_nonce cr rnd (XorCipher key) n p = xor_encrypt key p"
| "encrypt_with_nonce cr rnd (RingCipher alg key) n p = ring_encrypt_with_nonce cr rnd alg key n p"

subsection \<open>Algorithm names\<close>

datatype encryption_algorithm = Xor | AesGcm | Aes256Gcm | ChaCha20

definition ascii_lower :: "char \<Rightarrow> char" where
  "ascii_lower c = (let n = (of_char c :: nat) in if 65 \<le> n \<and> n \<le> 90 then char_of (n + 32) else c)"

definition encryption_algorithm_try_from :: "string \<Rightarrow> encryption_algorithm option" where
  "encryption_algorithm_try_from s =
     (let l = map ascii_lower s
      in if l = ''xor'' then Some Xor else if l = ''aes-gcm'' then Some AesGcm
         else if l = ''aes-256-gcm'' then Some Aes256Gcm else if l = ''chacha20'' then Some ChaCha20
         else None)"

definition create_encryptor :: "string \<Rightarrow> bytes \<Rightarrow> bytes \<Rightarrow> cipher" where
  "create_encryptor algorithm key_128 key_256 =
     (case (case encryption_algorithm_try_from algorithm of Some a \<Rightarrow> a | None \<Rightarrow> AesGcm) of
        Xor \<Rightarrow> XorCipher key_128
      | AesGcm \<Rightarrow> RingCipher AES_128_GCM key_128
      | Aes256Gcm \<Rightarrow> RingCipher AES_256_GCM key_256
      | ChaCha20 \<Rightarrow> RingCipher CHACHA20_POLY1305 key_256)"

section \<open>Decryption inverts encryption\<close>

lemma length_xor_data [simp]: "length (xor_data key dat) = length dat"
  by (simp add: xor_data_def)

lemma xor_data_involution [simp]: "xor_data key (xor_data key dat) = dat"
  by (rule nth_equalityI) (simp_all add: xor_data_def nth_enumerate_eq xor.assoc)

lemma set_encrypted_twice:
  assumes "\<not> is_encrypted h"
  shows "set_encrypted False (set_encrypted True h) = h" and "is_encrypted (set_encrypted True h)"
proof -
  have "has_flag (2 ^ 0) (set_flag (2 ^ 0) True h)"
    by (subst has_flag_set_flag_bits) simp_all
  then show "is_encrypted (set_encrypted True h)"
    by (simp add: is_encrypted_def set_encrypted_def ENCRYPTED_def)
  have "\<not> bit (flags h) 0"
    using assms has_flag_bit [of 0 h] by (simp add: is_encrypted_def ENCRYPTED_def)
  then have "(flags h OR 1) AND NOT 1 = flags h"
    by (intro bit_word_eqI) (auto simp: bit_or_iff bit_and_iff bit_not_iff bit_1_iff intro: gr0I)
  then show "set_encrypted False (set_encrypted True h) = h"
    by (simp add: set_encrypted_def set_flag_def ENCRYPTED_def)
qed

text \<open>A packet with its header in place, taken apart: bytes before the header, header, payload.\<close>

lemma packet_parts:
  assumes "payload_offset p \<le> length (inner p)"
  obtains pre h body where "inner p = pre @ pm_as_bytes h @ body"
    and "length pre = peer_manager_header_off (get_packet_offsets (zc_type p))"
proof -
  let ?off = "peer_manager_header_off (get_packet_offsets (zc_type p))"
  let ?hb = "take PEER_MANAGER_HEADER_SIZE (drop ?off (inner p))"
  have "?off + PEER_MANAGER_HEADER_SIZE \<le> length (inner p)"
    using assms by (simp add: payload_offset_def payload_offset_pm)
  then have "pm_as_bytes (pm_read ?hb) = ?hb" "length (take ?off (inner p)) = ?off"
    by (auto intro: pm.as_bytes_read)
  then have "inner p = take ?off (inner p) @ pm_as_bytes (pm_read ?hb)
      @ drop (PEER_MANAGER_HEADER_SIZE + ?off) (inner p)"
    by (simp add: drop_drop [symmetric] del: drop_drop)
  with that \<open>length (take ?off (inner p)) = ?off\<close> show thesis by blast
qed

definition packet_of :: "zc_packet_type \<Rightarrow> bytes \<Rightarrow> peer_manager_header \<Rightarrow> bytes \<Rightarrow> zc_packet" where
  "packet_of pt pre h body = \<lparr>inner = pre @ pm_as_bytes h @ body, zc_type = pt\<rparr>"

lemma packet_of_cases:
  assumes "payload_offset p \<le> length (inner p)"
  obtains pt pre h body where "p = packet_of pt pre h body"
    and "length pre = peer_manager_header_off (get_packet_offsets pt)"
  using packet_parts [OF assms] by (metis packet_of_def zc_packet.surjective old.unit.exhaust)

lemma packet_of_access [simp]:
  assumes "length pre = peer_manager_header_off (get_packet_offsets pt)"
  shows "peer_manager_header_of (packet_of pt pre h body) = Some h"
    and "payload (packet_of pt pre h body) = Some body"
    and "payload_offset (packet_of pt pre h body) \<le> length (inner (packet_of pt pre h body))"
  using assms pm.length_as_bytes [of h]
  by (simp_all add: peer_manager_header_of_def packet_of_def header_at_def slice_from_def
      pm.prefix_as_bytes payload_def payload_offset_def payload_offset_pm)

lemma mut_payload_packet_of [simp]:
  assumes "length pre = peer_manager_header_off (get_packet_offsets pt)"
  shows "mut_payload f (packet_of pt pre h body) = map_option (packet_of pt pre h) (f body)"
  using assms pm.length_as_bytes [of h]
  by (cases "f body") (simp_all add: mut_payload_def packet_of_def slice_from_def payload_offset_def payload_offset_pm)

lemma mut_header_packet_of [simp]:
  assumes "length pre = peer_manager_header_off (get_packet_offsets pt)"
  shows "mut_peer_manager_header f (packet_of pt pre h body) = Some (packet_of pt pre (f h) body)"
proof -
  have "overwrite (length pre) (pm_as_bytes (f h)) (pre @ pm_as_bytes h @ body) = Some (pre @ pm_as_bytes (f h) @ body)"
    using pm.length_as_bytes by (intro overwrite_append) auto
  with assms show ?thesis
    by (simp add: mut_peer_manager_header_def update_header_at_def header_at_def packet_of_def slice_from_def
        pm.prefix_as_bytes)
qed


text \<open>
  A packet cipher: decryption inverts encryption of a plain packet, encrypting twice is encrypting
  once, and neither fails to return on a packet that has its header.
\<close>

locale packet_cipher =
  fixes enc dec :: "zc_packet \<Rightarrow> (encrypt_error + zc_packet) option"
  assumes enc_returns: "payload_offset p \<le> length (inner p) \<Longrightarrow> enc p \<noteq> None"
    and dec_enc: "payload_offset p \<le> length (inner p) \<Longrightarrow> peer_manager_header_of p = Some h \<Longrightarrow>
      \<not> is_encrypted h \<Longrightarrow> enc p = Some (Inr q) \<Longrightarrow> dec q = Some (Inr p)"
    and enc_enc: "payload_offset p \<le> length (inner p) \<Longrightarrow> enc p = Some (Inr q) \<Longrightarrow> enc q = Some (Inr q)"
begin

text \<open>Relaying hops that encrypt again change nothing: the packet is still opened by one decryption.\<close>

fun hops :: "nat \<Rightarrow> zc_packet \<Rightarrow> (encrypt_error + zc_packet) option" where
  "hops 0 p = Some (Inr p)"
| "hops (Suc n) p = (case hops n p of Some (Inr q) \<Rightarrow> enc q | r \<Rightarrow> r)"

lemma hops_enc: "payload_offset p \<le> length (inner p) \<Longrightarrow> enc p = Some (Inr q) \<Longrightarrow> hops (Suc n) p = Some (Inr q)"
  by (induction n) (auto simp: enc_enc)

lemma dec_hops:
  "payload_offset p \<le> length (inner p) \<Longrightarrow> peer_manager_header_of p = Some h \<Longrightarrow> \<not> is_encrypted h \<Longrightarrow>
    enc p = Some (Inr q) \<Longrightarrow> hops (Suc n) p = Some (Inr q) \<and> dec q = Some (Inr p)"
  using hops_enc dec_enc by blast

end

lemmas cipher_defs =
  xor_encrypt_def xor_decrypt_def null_encrypt_def null_decrypt_def ring_decrypt_def
  ring_encrypt_with_nonce_def

interpretation null: packet_cipher null_encrypt null_decrypt
  by unfold_locales (auto simp: cipher_defs)

lemma xor_encrypt_packet_of:
  assumes "length pre = peer_manager_header_off (get_packet_offsets pt)"
  shows "xor_encrypt key (packet_of pt pre h body) = Some (Inr (if is_encrypted h then packet_of pt pre h body
    else packet_of pt pre (set_encrypted True h) (xor_data key body)))"
  using assms by (simp add: xor_encrypt_def)

interpretation xor: packet_cipher "xor_encrypt key" "xor_decrypt key" for key
proof unfold_locales
  fix p q h
  assume p: "payload_offset p \<le> length (inner p)"
  then obtain pt pre h0 body where pk: "p = packet_of pt pre h0 body"
      "length pre = peer_manager_header_off (get_packet_offsets pt)"
    by (rule packet_of_cases)
  note simps = pk(2) xor_encrypt_packet_of [OF pk(2)] set_encrypted_twice
  show "xor_encrypt key p \<noteq> None"
    by (simp add: pk(1) simps)
  show "xor_encrypt key q = Some (Inr q)" if "xor_encrypt key p = Some (Inr q)"
    using that by (auto simp: pk(1) simps split: if_splits)
  show "xor_decrypt key q = Some (Inr p)"
    if "peer_manager_header_of p = Some h" "\<not> is_encrypted h" "xor_encrypt key p = Some (Inr q)"
    using that by (auto simp: pk(1) simps xor_decrypt_def)
qed


lemma tail_suffix:
  "length tg = 16 \<Longrightarrow> length n = 12 \<Longrightarrow>
    ref_from_suffix AEAD_TAIL_SIZE aead_tail_read (ct @ tg @ n) = Some \<lparr>tail_tag = tg, tail_nonce = n\<rparr>"
  by (simp add: ref_from_suffix_def layout_simps aead_tail_read_def)

lemma packet_of_append: "(packet_of pt pre h b)\<lparr>inner := inner (packet_of pt pre h b) @ t\<rparr> = packet_of pt pre h (b @ t)"
  by (simp add: packet_of_def)

lemma packet_of_shrink:
  "length t = n \<Longrightarrow> (packet_of pt pre h (b @ t))\<lparr>inner := take (buf_len (packet_of pt pre h (b @ t)) - n)
     (inner (packet_of pt pre h (b @ t)))\<rparr> = packet_of pt pre h b"
  by (simp add: packet_of_def buf_len_def)

text \<open>The nonce an encryption uses: the one given, or the random one.\<close>

definition used_nonce :: "bytes \<Rightarrow> bytes option \<Rightarrow> bytes" where
  "used_nonce rnd mnonce = (case mnonce of None \<Rightarrow> rnd | Some n \<Rightarrow> n)"

lemma ring_encrypt_packet_of:
  assumes "length pre = peer_manager_header_off (get_packet_offsets pt)" "\<not> is_encrypted h"
    and "length (used_nonce rnd mn) = 12" "aead_seal cr alg key (used_nonce rnd mn) body = Some (ct, tg)"
    and "length ct = length body" "length tg = 16"
  shows "ring_encrypt_with_nonce cr rnd alg key mn (packet_of pt pre h body)
    = Some (Inr (packet_of pt pre (set_encrypted True h) (ct @ tg @ used_nonce rnd mn)))"
  using assms
  by (cases mn) (simp_all add: ring_encrypt_with_nonce_def used_nonce_def overwrite_def
      aead_tail_as_bytes_def packet_of_append)

lemma ring_decrypt_packet_of:
  assumes "length pre = peer_manager_header_off (get_packet_offsets pt)" "is_encrypted h"
    and "aead_open cr alg key n (ct @ tg) = Some text" "length text = length ct" "length tg = 16" "length n = 12"
  shows "ring_decrypt cr alg key (packet_of pt pre h (ct @ tg @ n))
    = Some (Inr (packet_of pt pre (set_encrypted False h) text))"
  using assms packet_of_shrink [of "tg @ n" AEAD_TAIL_SIZE pt pre "set_encrypted False h" "text"]
  by (simp add: ring_decrypt_def tail_suffix Let_def)
    (simp add: AEAD_TAIL_SIZE_def overwrite_def)

lemma ring_encrypt_cases:
  assumes "length pre = peer_manager_header_off (get_packet_offsets pt)" "crypto_correct cr" "mn = None \<longrightarrow> length rnd = 12"
    and "ring_encrypt_with_nonce cr rnd alg key mn (packet_of pt pre h body) = Some (Inr q)"
  obtains (skip) "is_encrypted h" "q = packet_of pt pre h body"
  | (sealed) ct tg where "\<not> is_encrypted h" "aead_seal cr alg key (used_nonce rnd mn) body = Some (ct, tg)"
      "length (used_nonce rnd mn) = 12" "length ct = length body" "length tg = 16"
      "aead_open cr alg key (used_nonce rnd mn) (ct @ tg) = Some body"
      "q = packet_of pt pre (set_encrypted True h) (ct @ tg @ used_nonce rnd mn)"
proof (cases "is_encrypted h")
  case True
  with assms skip show thesis by (simp add: ring_encrypt_with_nonce_def)
next
  case False
  with assms have n: "length (used_nonce rnd mn) = 12"
    by (auto simp: ring_encrypt_with_nonce_def used_nonce_def split: option.splits if_splits)
  obtain ct tg where ct: "aead_seal cr alg key (used_nonce rnd mn) body = Some (ct, tg)"
    using False assms
    by (auto simp: ring_encrypt_with_nonce_def used_nonce_def split: option.splits if_splits prod.splits)
  then have "length ct = length body" "length tg = 16"
      "aead_open cr alg key (used_nonce rnd mn) (ct @ tg) = Some body"
    using assms(2) by (auto simp: crypto_correct_def)
  with sealed False n ct ring_encrypt_packet_of [OF assms(1) False n ct] assms(4) show thesis by auto
qed

text \<open>An AEAD cipher is a packet cipher for each choice of nonce, provided the primitives are correct.\<close>

lemma ring_packet_cipher:
  assumes "crypto_correct cr" "mn = None \<longrightarrow> length rnd = 12"
  shows "packet_cipher (ring_encrypt_with_nonce cr rnd alg key mn) (ring_decrypt cr alg key)"
proof unfold_locales
  fix p q h
  assume p: "payload_offset p \<le> length (inner p)"
  then obtain pt pre h0 body where pk: "p = packet_of pt pre h0 body"
      "length pre = peer_manager_header_off (get_packet_offsets pt)"
    by (rule packet_of_cases)
  have ol: "aead_seal cr alg key n pl = Some (ct, tg) \<Longrightarrow> length ct = length pl" for n pl ct tg
    using assms(1) by (auto simp: crypto_correct_def)
  show "ring_encrypt_with_nonce cr rnd alg key mn p \<noteq> None"
    using pk ol by (auto simp: ring_encrypt_with_nonce_def overwrite_def split: option.splits)
  show "ring_encrypt_with_nonce cr rnd alg key mn q = Some (Inr q)"
    if "ring_encrypt_with_nonce cr rnd alg key mn p = Some (Inr q)"
    using that [unfolded pk(1)]
    by (rule ring_encrypt_cases [OF pk(2) assms])
      (simp_all add: ring_encrypt_with_nonce_def pk(2) set_encrypted_twice)
  show "ring_decrypt cr alg key q = Some (Inr p)"
    if "peer_manager_header_of p = Some h" "\<not> is_encrypted h" "ring_encrypt_with_nonce cr rnd alg key mn p = Some (Inr q)"
    using that(3) [unfolded pk(1)]
    by (rule ring_encrypt_cases [OF pk(2) assms])
      (use that(1,2) pk in \<open>auto simp: ring_decrypt_packet_of set_encrypted_twice\<close>)
qed


text \<open>
  C18: decryption inverts encryption for every cipher a packet can be given: whenever encrypting a
  plain packet succeeds, with a given or a random nonce, relays that encrypt it again leave it alone
  and decrypting with the same cipher gives back the very same packet, header, payload and length
  included.  For the AEAD ciphers this rests on the documented behaviour of the primitives.
\<close>

theorem encrypt_decrypt_roundtrip:
  assumes "crypto_correct cr" and "mn = None \<longrightarrow> length rnd = 12"
    and "payload_offset p \<le> length (inner p)" and "peer_manager_header_of p = Some h" and "\<not> is_encrypted h"
    and "encrypt_with_nonce cr rnd c mn p = Some (Inr q)"
  shows "encryptor_decrypt cr c q = Some (Inr p) \<and> encrypt_with_nonce cr rnd c mn q = Some (Inr q)"
proof (cases c)
  case NullCipher
  with assms(6) have "null_encrypt p = Some (Inr q)" by simp
  then show ?thesis
    using NullCipher null.dec_enc [OF assms(3-5)] null.enc_enc [OF assms(3)] by simp
next
  case (XorCipher key)
  with assms(6) have "xor_encrypt key p = Some (Inr q)" by simp
  then show ?thesis
    using XorCipher xor.dec_enc [OF assms(3-5)] xor.enc_enc [OF assms(3)] by simp
next
  case (RingCipher alg key)
  note ring = ring_packet_cipher [OF assms(1,2), of alg key]
  from RingCipher assms(6) have "ring_encrypt_with_nonce cr rnd alg key mn p = Some (Inr q)" by simp
  then show ?thesis
    using RingCipher packet_cipher.dec_enc [OF ring assms(3-5)] packet_cipher.enc_enc [OF ring assms(3)] by simp
qed

text \<open>A transparent instance of the primitives, for evaluation: the tag is a checksum of key and
  nonce lengths.\<close>

definition toy_crypto :: crypto where
  "toy_crypto = \<lparr>hmac_sha256 = (\<lambda>k m. take 32 (k @ m @ replicate 32 0)),
     aead_seal = (\<lambda>alg key n pt. Some (pt, replicate 16 (of_nat (length key + length n)))),
     aead_open = (\<lambda>alg key n ct. if 16 \<le> length ct
         \<and> drop (length ct - 16) ct = replicate 16 (of_nat (length key + length n))
       then Some (take (length ct - 16) ct) else None)\<rparr>"

lemma toy_crypto_seal:
  "aead_seal toy_crypto alg key n pt = Some (pt, replicate 16 (of_nat (length key + length n)))"
  by (simp add: toy_crypto_def)

lemma toy_crypto_correct: "crypto_correct toy_crypto"
  unfolding crypto_correct_def toy_crypto_def
  by (intro conjI allI impI) (auto split: if_split_asm)

definition toy_packet :: zc_packet where
  "toy_packet = \<lparr>inner = replicate 16 0 @ [1, 2, 3], zc_type = DummyTunnel\<rparr>"

lemma toy_packet_header:
  "payload_offset toy_packet \<le> length (inner toy_packet)"
  "\<exists>h. peer_manager_header_of toy_packet = Some h \<and> \<not> is_encrypted h"
  by (simp_all add: toy_packet_def payload_offset_def layout_simps peer_manager_header_of_def header_at_def
      slice_from_def ref_from_prefix_def pm_read_def is_encrypted_def has_flag_def ENCRYPTED_def)

lemma toy_ring_encrypts:
  assumes "length (used_nonce rnd mn) = 12" "payload_offset p \<le> length (inner p)"
    "peer_manager_header_of p = Some h" "\<not> is_encrypted h"
  shows "\<exists>q. encrypt_with_nonce toy_crypto rnd (RingCipher alg key) mn p = Some (Inr q)"
proof -
  obtain pt pre h0 body where pk: "p = packet_of pt pre h0 body"
      "length pre = peer_manager_header_off (get_packet_offsets pt)"
    using assms(2) by (rule packet_of_cases)
  then have "\<not> is_encrypted h0" using assms(3,4) by simp
  then show ?thesis
    unfolding pk(1) encrypt_with_nonce.simps
    by (intro exI, rule ring_encrypt_packet_of [OF pk(2)]) (use assms(1) in \<open>auto simp: toy_crypto_seal\<close>)
qed

theorem encrypt_decrypt_roundtrip_witness:
  "\<exists>q. encrypt_with_nonce toy_crypto (replicate 12 0) (RingCipher AES_128_GCM [1]) (Some (replicate 12 9)) toy_packet
      = Some (Inr q)
    \<and> encryptor_decrypt toy_crypto (RingCipher AES_128_GCM [1]) q = Some (Inr toy_packet)"
proof -
  let ?enc = "encrypt_with_nonce toy_crypto (replicate 12 0) (RingCipher AES_128_GCM [1]) (Some (replicate 12 9))"
  obtain h where h: "peer_manager_header_of toy_packet = Some h" "\<not> is_encrypted h"
    using toy_packet_header(2) by blast
  obtain q where "?enc toy_packet = Some (Inr q)"
    using toy_ring_encrypts [OF _ toy_packet_header(1) h, of "replicate 12 0" "Some (replicate 12 9)"]
    by (auto simp: used_nonce_def)
  with encrypt_decrypt_roundtrip [OF toy_crypto_correct _ toy_packet_header(1) h this] show ?thesis by auto
qed

end
