(* ===== verification/Secure_Datagram.thy ===== *)
theory Secure_Datagram
  imports Encrypt Replay_Window
begin

text \<open>
  The secure datagram session of \<^verbatim>\<open>peers/secure_datagram.rs\<close>: key derivation per epoch and direction
  with its two-entry key cache, nonce allocation and epoch rotation on the sending side, the two
  receive slots per direction with their replay windows, idle eviction and the grace copy kept across
  a key synchronisation, and the encryption and decryption of payloads.

  Every method is a function on the session record; the \<^verbatim>\<open>[_; 2]\<close> arrays are pairs.  Milliseconds are
  natural numbers and the clock reading is an argument.  \<^term>\<open>None\<close> is a panic.
\<close>

section \<open>State\<close>

datatype direction = AToB | BToA

fun dir_idx :: "direction \<Rightarrow> nat" where
  "dir_idx AToB = 0"
| "dir_idx BToA = 1"

definition dsel :: "direction \<Rightarrow> 'a \<times> 'a \<Rightarrow> 'a" where
  "dsel d p = (if dir_idx d = 0 then fst p else snd p)"

definition dset :: "direction \<Rightarrow> 'a \<Rightarrow> 'a \<times> 'a \<Rightarrow> 'a \<times> 'a" where
  "dset d x p = (if dir_idx d = 0 then (x, snd p) else (fst p, x))"

lemma dsel_dset [simp]: "dsel d (dset d' x p) = (if d = d' then x else dsel d p)"
  by (cases d; cases d') (auto simp: dsel_def dset_def)

lemma dsel_map_prod [simp]: "dsel d (map_prod f f p) = f (dsel d p)"
  by (cases p) (auto simp: dsel_def)

lemma dsel_pair [simp]: "dsel d (x, x) = x"
  by (simp add: dsel_def)

lemma dsel_rows: "dsel d (f AToB, f BToA) = f d"
  by (cases d) (simp_all add: dsel_def)

record epoch_key_slot =
  key_epoch :: u32
  key_generation :: u32
  key_valid :: bool
  send_cipher :: "cipher option"
  recv_cipher :: "cipher option"

definition key_slot_default :: epoch_key_slot where
  "key_slot_default = \<lparr>key_epoch = 0, key_generation = 0, key_valid = False, send_cipher = None, recv_cipher = None\<rparr>"

definition get_encryptor :: "bool \<Rightarrow> epoch_key_slot \<Rightarrow> cipher option" where
  "get_encryptor is_send slot = (if is_send then send_cipher slot else recv_cipher slot)"

record epoch_rx_slot =
  rx_epoch :: u32
  rx_window :: replay_window
  last_rx_ms :: nat
  rx_valid :: bool

definition rx_slot_default :: epoch_rx_slot where
  "rx_slot_default = \<lparr>rx_epoch = 0, rx_window = window_default, last_rx_ms = 0, rx_valid = False\<rparr>"

definition rx_slot_clear :: "epoch_rx_slot \<Rightarrow> epoch_rx_slot" where
  "rx_slot_clear s = s\<lparr>rx_epoch := 0, rx_window := window_clear (rx_window s), last_rx_ms := 0, rx_valid := False\<rparr>"

type_synonym dir_slots = "epoch_rx_slot \<times> epoch_rx_slot"
type_synonym slot_table = "dir_slots \<times> dir_slots"

record sync_rx_grace_t =
  grace_slots :: slot_table
  expires_at_ms :: nat
  grace_valid :: bool

definition empty_slots :: slot_table where
  "empty_slots = ((rx_slot_default, rx_slot_default), (rx_slot_default, rx_slot_default))"

definition grace_default :: sync_rx_grace_t where
  "grace_default = \<lparr>grace_slots = empty_slots, expires_at_ms = 0, grace_valid = False\<rparr>"

definition grace_clear :: "sync_rx_grace_t \<Rightarrow> sync_rx_grace_t" where
  "grace_clear g = g\<lparr>grace_slots := empty_slots, expires_at_ms := 0, grace_valid := False\<rparr>"

definition grace_refresh :: "slot_table \<Rightarrow> nat \<Rightarrow> sync_rx_grace_t \<Rightarrow> sync_rx_grace_t" where
  "grace_refresh slots exp g = g\<lparr>grace_slots := slots, expires_at_ms := exp, grace_valid := True\<rparr>"

definition grace_maybe_expire :: "nat \<Rightarrow> sync_rx_grace_t \<Rightarrow> sync_rx_grace_t" where
  "grace_maybe_expire now g = (if grace_valid g \<and> expires_at_ms g \<le> now then grace_clear g else g)"

record session =
  root_key :: bytes
  session_generation :: u32
  send_epoch :: u32
  send_seq :: "u64 \<times> u64"
  send_epoch_started_ms :: nat
  send_packets_since_epoch :: u64
  rx_slots :: slot_table
  key_cache :: "(epoch_key_slot \<times> epoch_key_slot) \<times> (epoch_key_slot \<times> epoch_key_slot)"
  sync_rx_grace :: sync_rx_grace_t
  sync_rx_grace_expires_at_ms :: nat
  send_cipher_algorithm :: string
  recv_cipher_algorithm :: string
  invalidated :: bool
  decrypt_fail_count :: u32

definition EVICT_IDLE_AFTER_MS :: nat where "EVICT_IDLE_AFTER_MS = 30000"
definition SYNC_RX_GRACE_AFTER_MS :: nat where "SYNC_RX_GRACE_AFTER_MS = 5000"
definition ROTATE_AFTER_PACKETS :: u64 where "ROTATE_AFTER_PACKETS = 1000000"
definition ROTATE_AFTER_MS :: nat where "ROTATE_AFTER_MS = 600000"
definition MAX_ACCEPTED_RX_EPOCH_AHEAD :: u32 where "MAX_ACCEPTED_RX_EPOCH_AHEAD = 3"
definition DECRYPT_FAIL_THRESHOLD :: u32 where "DECRYPT_FAIL_THRESHOLD = 10"

definition no_keys :: "(epoch_key_slot \<times> epoch_key_slot) \<times> (epoch_key_slot \<times> epoch_key_slot)" where
  "no_keys = ((key_slot_default, key_slot_default), (key_slot_default, key_slot_default))"

definition session_new :: "nat \<Rightarrow> bytes \<Rightarrow> u32 \<Rightarrow> u32 \<Rightarrow> string \<Rightarrow> string \<Rightarrow> session" where
  "session_new now key generation initial_epoch send_alg recv_alg = \<lparr>
     root_key = key, session_generation = generation, send_epoch = initial_epoch,
     send_seq = (0, 0), send_epoch_started_ms = now, send_packets_since_epoch = 0,
     rx_slots = empty_slots, key_cache = no_keys,
     sync_rx_grace = grace_default, sync_rx_grace_expires_at_ms = 0,
     send_cipher_algorithm = send_alg, recv_cipher_algorithm = recv_alg,
     invalidated = False, decrypt_fail_count = 0\<rparr>"

definition session_invalidate :: "session \<Rightarrow> session" where
  "session_invalidate s = s\<lparr>invalidated := True\<rparr>"

definition session_is_valid :: "session \<Rightarrow> bool" where
  "session_is_valid s \<longleftrightarrow> \<not> invalidated s"

section \<open>Epochs and keys\<close>

definition max_valid :: "epoch_rx_slot \<Rightarrow> u32 \<Rightarrow> u32" where
  "max_valid slot e = (if rx_valid slot then max e (rx_epoch slot) else e)"

definition next_sync_epoch :: "session \<Rightarrow> u32" where
  "next_sync_epoch s =
     (let m0 = send_epoch s;
          m1 = max_valid (snd (dsel AToB (rx_slots s))) (max_valid (fst (dsel AToB (rx_slots s))) m0);
          m2 = max_valid (snd (dsel BToA (rx_slots s))) (max_valid (fst (dsel BToA (rx_slots s))) m1)
      in m2 + 1)"

definition check_encrypt_algo_same :: "string \<Rightarrow> string \<Rightarrow> session \<Rightarrow> bool" where
  "check_encrypt_algo_same send_alg recv_alg s \<longleftrightarrow>
     send_cipher_algorithm s = send_alg \<and> recv_cipher_algorithm s = recv_alg"

text \<open>The part of a key synchronisation that holds the lock of the receive slots: the grace copy is
  taken or dropped and the slots are cleared.\<close>

definition sync_rx :: "nat \<Rightarrow> bool \<Rightarrow> session \<Rightarrow> session" where
  "sync_rx now can_preserve s =
     (let s1 = (if can_preserve
                then let exp = saturating_add64 now SYNC_RX_GRACE_AFTER_MS
                     in s\<lparr>sync_rx_grace := grace_refresh (rx_slots s) exp (sync_rx_grace s),
                          sync_rx_grace_expires_at_ms := exp\<rparr>
                else s\<lparr>sync_rx_grace := grace_clear (sync_rx_grace s), sync_rx_grace_expires_at_ms := 0\<rparr>)
      in s1\<lparr>rx_slots := map_prod (map_prod rx_slot_clear rx_slot_clear)
              (map_prod rx_slot_clear rx_slot_clear) (rx_slots s1)\<rparr>)"

definition sync_root_key :: "nat \<Rightarrow> bytes \<Rightarrow> u32 \<Rightarrow> u32 \<Rightarrow> bool \<Rightarrow> session \<Rightarrow> session" where
  "sync_root_key now key generation initial_epoch preserve_rx_grace s =
     (let can_preserve = preserve_rx_grace \<and> root_key s = key;
          s1 = s\<lparr>root_key := key\<rparr>;
          s2 = s1\<lparr>session_generation := generation\<rparr>;
          s3 = s2\<lparr>send_epoch := initial_epoch\<rparr>;
          s4 = s3\<lparr>send_seq := dset AToB 0 (send_seq s3)\<rparr>;
          s5 = s4\<lparr>send_seq := dset BToA 0 (send_seq s4)\<rparr>;
          s6 = s5\<lparr>send_epoch_started_ms := now\<rparr>;
          s7 = s6\<lparr>send_packets_since_epoch := 0\<rparr>;
          s8 = sync_rx now can_preserve s7
      in s8\<lparr>key_cache := no_keys\<rparr>)"

lemma sync_root_key_fields:
  "root_key (sync_root_key now key gen ep pres s) = key"
  "session_generation (sync_root_key now key gen ep pres s) = gen"
  "send_epoch (sync_root_key now key gen ep pres s) = ep"
  "key_cache (sync_root_key now key gen ep pres s) = no_keys"
  "send_cipher_algorithm (sync_root_key now key gen ep pres s) = send_cipher_algorithm s"
  "recv_cipher_algorithm (sync_root_key now key gen ep pres s) = recv_cipher_algorithm s"
  "invalidated (sync_root_key now key gen ep pres s) = invalidated s"
  "send_seq (sync_root_key now key gen ep pres s) = (0, 0)"
  by (simp_all add: sync_root_key_def sync_rx_def Let_def dset_def)

text \<open>\<^verbatim>\<open>et-traffic\<close> as bytes.\<close>

definition traffic_label :: bytes where
  "traffic_label = [101, 116, 45, 116, 114, 97, 102, 102, 105, 99]"

definition hkdf_traffic_key :: "crypto \<Rightarrow> bytes \<Rightarrow> u32 \<Rightarrow> direction \<Rightarrow> bytes option" where
  "hkdf_traffic_key cr key epoch d =
     (let salt = replicate 32 0;
          prk = hmac_sha256 cr salt key;
          info = traffic_label @ to_be_bytes 4 epoch @ [of_nat (dir_idx d)];
          okm = hmac_sha256 cr prk (info @ [1])
      in slice 0 32 okm)"

definition get_or_create_encryptor ::
  "crypto \<Rightarrow> u32 \<Rightarrow> direction \<Rightarrow> u32 \<Rightarrow> bool \<Rightarrow> session \<Rightarrow> (cipher \<times> session) option" where
  "get_or_create_encryptor cr epoch d generation is_send s =
     (let hit = (\<lambda>slot. key_valid slot \<and> key_epoch slot = epoch \<and> key_generation slot = generation);
          (k0, k1) = dsel d (key_cache s)
      in if hit k0 then map_option (\<lambda>c. (c, s)) (get_encryptor is_send k0)
         else if hit k1 then map_option (\<lambda>c. (c, s)) (get_encryptor is_send k1)
         else do {
           key \<leftarrow> hkdf_traffic_key cr (root_key s) epoch d;
           key_128 \<leftarrow> slice 0 16 key;
           let slot = \<lparr>key_epoch = epoch, key_generation = generation, key_valid = True,
                       send_cipher = Some (create_encryptor (send_cipher_algorithm s) key_128 key),
                       recv_cipher = Some (create_encryptor (recv_cipher_algorithm s) key_128 key)\<rparr>;
           ret \<leftarrow> get_encryptor is_send slot;
           let row = (if \<not> key_valid k0 \<or> key_epoch k0 = epoch then (slot, k1) else (k0, slot));
           Some (ret, s\<lparr>key_cache := dset d row (key_cache s)\<rparr>)
         })"

section \<open>Nonces\<close>

text \<open>The atomic operations of the sending side: the packet counter and the sequence counter are
  advanced by \<^verbatim>\<open>fetch_add\<close>, which returns the old value, and the epoch by \<^verbatim>\<open>compare_exchange\<close>.\<close>

definition count_packet :: "session \<Rightarrow> u64 \<times> session" where
  "count_packet s =
     (send_packets_since_epoch s, s\<lparr>send_packets_since_epoch := send_packets_since_epoch s + 1\<rparr>)"

definition cas_epoch :: "u32 \<Rightarrow> u32 \<Rightarrow> session \<Rightarrow> bool \<times> session" where
  "cas_epoch cur new s = (if send_epoch s = cur then (True, s\<lparr>send_epoch := new\<rparr>) else (False, s))"

definition fetch_seq :: "direction \<Rightarrow> session \<Rightarrow> u64 \<times> session" where
  "fetch_seq d s =
     (dsel d (send_seq s), s\<lparr>send_seq := dset d (dsel d (send_seq s) + 1) (send_seq s)\<rparr>)"

definition maybe_rotate_epoch :: "nat \<Rightarrow> session \<Rightarrow> session" where
  "maybe_rotate_epoch now s =
     (let (old, s1) = count_packet s;
          packets = old + 1
      in if packets < ROTATE_AFTER_PACKETS \<and> now - send_epoch_started_ms s1 < ROTATE_AFTER_MS then s1
         else let cur = send_epoch s1;
                  (ok, s2) = cas_epoch cur (cur + 1) s1
              in if ok then (s2\<lparr>send_epoch_started_ms := now\<rparr>)\<lparr>send_packets_since_epoch := 0\<rparr> else s2)"

definition nonce_of :: "u32 \<Rightarrow> u64 \<Rightarrow> bytes" where
  "nonce_of epoch seq = to_be_bytes 4 epoch @ to_be_bytes 8 seq"

definition next_nonce :: "nat \<Rightarrow> direction \<Rightarrow> session \<Rightarrow> (u32 \<times> u64 \<times> bytes) \<times> session" where
  "next_nonce now d s =
     (let s1 = maybe_rotate_epoch now s;
          epoch = send_epoch s1;
          (seq, s2) = fetch_seq d s1
      in ((epoch, seq, nonce_of epoch seq), s2))"

lemma next_nonce_ex: "\<exists>epoch seq s'. next_nonce now d s = ((epoch, seq, nonce_of epoch seq), s')"
  by (simp add: next_nonce_def Let_def split_beta)

definition parse_tail :: "bytes \<Rightarrow> bytes option" where
  "parse_tail pl = map_option tail_nonce (ref_from_suffix AEAD_TAIL_SIZE aead_tail_read pl)"

section \<open>Replay checks\<close>

definition evict_slot :: "nat \<Rightarrow> epoch_rx_slot \<Rightarrow> epoch_rx_slot" where
  "evict_slot now slot =
     (if \<not> rx_valid slot then slot
      else if last_rx_ms slot \<noteq> 0 \<and> EVICT_IDLE_AFTER_MS < now - last_rx_ms slot then rx_slot_clear slot
      else slot)"

definition evict_old_rx_slots :: "nat \<Rightarrow> slot_table \<Rightarrow> slot_table" where
  "evict_old_rx_slots now = map_prod (map_prod (evict_slot now) (evict_slot now))
     (map_prod (evict_slot now) (evict_slot now))"

definition slot_for :: "u32 \<Rightarrow> epoch_rx_slot \<Rightarrow> bool" where
  "slot_for epoch slot \<longleftrightarrow> rx_valid slot \<and> rx_epoch slot = epoch"

definition epoch_in_slots :: "dir_slots \<Rightarrow> u32 \<Rightarrow> bool" where
  "epoch_in_slots slots epoch \<longleftrightarrow> slot_for epoch (fst slots) \<or> slot_for epoch (snd slots)"

definition sync_rx_grace_active :: "nat \<Rightarrow> session \<Rightarrow> bool \<times> session" where
  "sync_rx_grace_active now s =
     (if sync_rx_grace_expires_at_ms s = 0 then (False, s)
      else if now < sync_rx_grace_expires_at_ms s then (True, s)
      else (False, s\<lparr>sync_rx_grace_expires_at_ms := 0\<rparr>))"

text \<open>The common opening of the replay checks: evict idle slots, and lock the grace copy when it is
  still live.  The flag says whether the grace guard is held.\<close>

definition open_slots :: "nat \<Rightarrow> session \<Rightarrow> bool \<times> session" where
  "open_slots now s =
     (let s1 = s\<lparr>rx_slots := evict_old_rx_slots now (rx_slots s)\<rparr>;
          (active, s2) = sync_rx_grace_active now s1
      in if \<not> active then (False, s2)
         else let g = grace_maybe_expire now (sync_rx_grace s2)
              in if grace_valid g
                 then (True, s2\<lparr>sync_rx_grace := g\<lparr>grace_slots := evict_old_rx_slots now (grace_slots g)\<rparr>\<rparr>)
                 else (False, s2\<lparr>sync_rx_grace := g, sync_rx_grace_expires_at_ms := 0\<rparr>))"

definition prune_slot :: "u32 \<Rightarrow> dir_slots \<Rightarrow> dir_slots option \<Rightarrow> epoch_key_slot \<Rightarrow> epoch_key_slot" where
  "prune_slot se rx grace k =
     (if \<not> key_valid k then k
      else let e = key_epoch k;
               allowed = (e = se \<or> slot_for e (fst rx) \<or> slot_for e (snd rx)
                 \<or> (case grace of None \<Rightarrow> False | Some g \<Rightarrow> epoch_in_slots g e))
           in if allowed then k else k\<lparr>key_valid := False\<rparr>)"

definition prune_key_cache :: "bool \<Rightarrow> session \<Rightarrow> session" where
  "prune_key_cache guard s =
     (let row = (\<lambda>d. map_prod (prune_slot (send_epoch s) (dsel d (rx_slots s))
                         (if guard then Some (dsel d (grace_slots (sync_rx_grace s))) else None))
                       (prune_slot (send_epoch s) (dsel d (rx_slots s))
                         (if guard then Some (dsel d (grace_slots (sync_rx_grace s))) else None))
                       (dsel d (key_cache s)))
      in s\<lparr>key_cache := (row AToB, row BToA)\<rparr>)"

definition max_allowed_epoch :: "u32 \<Rightarrow> dir_slots \<Rightarrow> u32" where
  "max_allowed_epoch se rx =
     saturating_add (max_valid (snd rx) (max_valid (fst rx) se)) MAX_ACCEPTED_RX_EPOCH_AHEAD"

definition precheck_replay :: "u32 \<Rightarrow> u64 \<Rightarrow> direction \<Rightarrow> nat \<Rightarrow> session \<Rightarrow> bool \<times> session" where
  "precheck_replay epoch seq d now s =
     (let (guard, s1) = open_slots now s;
          g = dsel d (grace_slots (sync_rx_grace s1));
          rx = dsel d (rx_slots s1);
          ok = (if guard \<and> epoch_in_slots g epoch
                then can_accept seq (rx_window (if slot_for epoch (fst g) then fst g else snd g))
                else if \<not> rx_valid (fst rx) then True
                else if epoch = rx_epoch (fst rx) then can_accept seq (rx_window (fst rx))
                else if slot_for epoch (snd rx) then can_accept seq (rx_window (snd rx))
                else if rx_epoch (fst rx) < epoch then \<not> max_allowed_epoch (send_epoch s1) rx < epoch
                else False)
      in (ok, s1))"

definition slot_accept :: "u64 \<Rightarrow> nat \<Rightarrow> epoch_rx_slot \<Rightarrow> bool \<times> epoch_rx_slot" where
  "slot_accept seq now slot =
     (let (ok, w) = accept seq (rx_window slot) in (ok, slot\<lparr>last_rx_ms := now, rx_window := w\<rparr>))"

definition fresh_slot :: "u32 \<Rightarrow> nat \<Rightarrow> epoch_rx_slot" where
  "fresh_slot epoch now = \<lparr>rx_epoch = epoch, rx_window = window_default, last_rx_ms = now, rx_valid = True\<rparr>"

text \<open>The two slots of a direction after a packet; the grace copy only ever updates an existing
  slot, the live table may open a new epoch.\<close>

definition grace_commit :: "u32 \<Rightarrow> u64 \<Rightarrow> nat \<Rightarrow> dir_slots \<Rightarrow> bool \<times> dir_slots" where
  "grace_commit epoch seq now g =
     (if slot_for epoch (fst g) then let (ok, x) = slot_accept seq now (fst g) in (ok, (x, snd g))
      else if slot_for epoch (snd g) then let (ok, x) = slot_accept seq now (snd g) in (ok, (fst g, x))
      else (False, g))"

definition live_commit :: "u32 \<Rightarrow> u32 \<Rightarrow> u64 \<Rightarrow> nat \<Rightarrow> dir_slots \<Rightarrow> bool \<times> dir_slots" where
  "live_commit se epoch seq now rx0 =
     (let rx = (if \<not> rx_valid (fst rx0) then (fresh_slot epoch now, snd rx0) else rx0)
      in if slot_for epoch (fst rx) then let (ok, x) = slot_accept seq now (fst rx) in (ok, (x, snd rx))
         else if slot_for epoch (snd rx) then let (ok, x) = slot_accept seq now (snd rx) in (ok, (fst rx, x))
         else if rx_valid (fst rx) \<and> rx_epoch (fst rx) < epoch then
           if max_allowed_epoch se rx < epoch then (False, rx)
           else let (ok, w) = accept seq window_default
                in (ok, ((fresh_slot epoch now)\<lparr>rx_window := w\<rparr>, fst rx))
         else (False, rx))"

definition commit_replay :: "u32 \<Rightarrow> u64 \<Rightarrow> direction \<Rightarrow> nat \<Rightarrow> session \<Rightarrow> bool \<times> session" where
  "commit_replay epoch seq d now s =
     (let (guard, s1) = open_slots now s;
          gs = grace_slots (sync_rx_grace s1);
          (accepted, s2) =
            (if guard \<and> epoch_in_slots (dsel d gs) epoch
             then let (ok, g') = grace_commit epoch seq now (dsel d gs)
                  in (ok, s1\<lparr>sync_rx_grace := (sync_rx_grace s1)\<lparr>grace_slots := dset d g' gs\<rparr>\<rparr>)
             else let (ok, rx') = live_commit (send_epoch s1) epoch seq now (dsel d (rx_slots s1))
                  in (ok, s1\<lparr>rx_slots := dset d rx' (rx_slots s1)\<rparr>))
      in (accepted, prune_key_cache guard s2))"

definition check_replay :: "u32 \<Rightarrow> u64 \<Rightarrow> direction \<Rightarrow> nat \<Rightarrow> session \<Rightarrow> bool \<times> session" where
  "check_replay epoch seq d now s =
     (let (ok, s1) = precheck_replay epoch seq d now s
      in if ok then commit_replay epoch seq d now s1 else (False, s1))"

section \<open>Payloads\<close>

datatype session_error = SessionInvalidated | NoTail | ReplayRejected | CipherError encrypt_error

definition session_encrypt_payload ::
  "crypto \<Rightarrow> nat \<Rightarrow> direction \<Rightarrow> zc_packet \<Rightarrow> session \<Rightarrow> ((session_error + zc_packet) \<times> session) option" where
  "session_encrypt_payload cr now d pkt s =
     (if \<not> session_is_valid s then Some (Inl SessionInvalidated, s)
      else do {
        let ((epoch, seq, nonce_bytes), s1) = next_nonce now d s;
        (encryptor, s2) \<leftarrow> get_or_create_encryptor cr epoch d (session_generation s1) True s1;
        r \<leftarrow> encrypt_with_nonce cr [] encryptor (Some nonce_bytes) pkt;
        (case r of
           Inl e \<Rightarrow> Some (Inl (CipherError e), session_invalidate s2)
         | Inr pkt' \<Rightarrow> Some (Inr pkt', s2))
      })"

definition session_decrypt_payload ::
  "crypto \<Rightarrow> nat \<Rightarrow> direction \<Rightarrow> zc_packet \<Rightarrow> session \<Rightarrow> ((session_error + zc_packet) \<times> session) option" where
  "session_decrypt_payload cr now d pkt s =
     (if \<not> session_is_valid s then Some (Inl SessionInvalidated, s)
      else do {
        pl \<leftarrow> payload pkt;
        (case parse_tail pl of
           None \<Rightarrow> Some (Inl NoTail, s)
         | Some nonce_bytes \<Rightarrow> do {
             let epoch = from_be_bytes (take 4 nonce_bytes);
             let seq = from_be_bytes (drop 4 nonce_bytes);
             let (ok, s1) = precheck_replay epoch seq d now s;
             if \<not> ok then Some (Inl ReplayRejected, s1)
             else do {
               (encryptor, s2) \<leftarrow> get_or_create_encryptor cr epoch d (session_generation s1) False s1;
               r \<leftarrow> encryptor_decrypt cr encryptor pkt;
               (case r of
                  Inl e \<Rightarrow>
                    let cnt = decrypt_fail_count s2 + 1;
                        s3 = s2\<lparr>decrypt_fail_count := cnt\<rparr>
                    in Some (Inl (CipherError e),
                         if DECRYPT_FAIL_THRESHOLD \<le> cnt then session_invalidate s3 else s3)
                | Inr pkt' \<Rightarrow>
                    let s3 = s2\<lparr>decrypt_fail_count := 0\<rparr>;
                        (committed, s4) = commit_replay epoch seq d now s3
                    in Some (if committed then Inr pkt' else Inl ReplayRejected, s4))
             }
           })
      })"

section \<open>Precheck and commit agree\<close>

lemma rx_slot_clear_invalid [simp]: "\<not> rx_valid (rx_slot_clear s)"
  by (simp add: rx_slot_clear_def)

lemma evict_slot_idem [simp]: "evict_slot now (evict_slot now slot) = evict_slot now slot"
  by (simp add: evict_slot_def)

lemma evict_old_idem [simp]: "evict_old_rx_slots now (evict_old_rx_slots now t) = evict_old_rx_slots now t"
  by (cases t) (auto simp: evict_old_rx_slots_def map_prod_def split: prod.splits)

text \<open>What the opening leaves alone, and that repeating it at the same time changes nothing, also
  after changes to fields it does not read.\<close>

lemma open_slots_frame:
  assumes "open_slots now s = (guard, s1)"
  shows "send_epoch s1 = send_epoch s" "root_key s1 = root_key s" "session_generation s1 = session_generation s"
    "key_cache s1 = key_cache s" "send_seq s1 = send_seq s" "invalidated s1 = invalidated s"
    "send_cipher_algorithm s1 = send_cipher_algorithm s" "recv_cipher_algorithm s1 = recv_cipher_algorithm s"
    "decrypt_fail_count s1 = decrypt_fail_count s" "rx_slots s1 = evict_old_rx_slots now (rx_slots s)"
  using assms
  by (auto simp: open_slots_def sync_rx_grace_active_def Let_def split: if_splits)

lemma open_slots_cases:
  assumes "open_slots now s = (guard, s1)"
  obtains (closed) "\<not> guard" "sync_rx_grace_expires_at_ms s1 = 0"
  | (live) g where "guard" "sync_rx_grace_expires_at_ms s1 = sync_rx_grace_expires_at_ms s"
      "now < sync_rx_grace_expires_at_ms s"
      "sync_rx_grace s1 = g\<lparr>grace_slots := evict_old_rx_slots now (grace_slots g)\<rparr>"
      "grace_valid g" "now < expires_at_ms g" "sync_rx_grace s = g"
  using assms
  by (auto simp: open_slots_def sync_rx_grace_active_def Let_def grace_maybe_expire_def grace_clear_def
      split: if_splits)

lemma open_slots_idem:
  assumes "open_slots now s = (guard, s1)" "rx_slots s2 = rx_slots s1" "sync_rx_grace s2 = sync_rx_grace s1"
    "sync_rx_grace_expires_at_ms s2 = sync_rx_grace_expires_at_ms s1"
  shows "open_slots now s2 = (guard, s2)"
  using assms(1)
proof (cases rule: open_slots_cases)
  case closed
  with assms open_slots_frame(10) [OF assms(1)] show ?thesis
    by (simp add: open_slots_def sync_rx_grace_active_def)
next
  case (live g)
  with assms open_slots_frame(10) [OF assms(1)] show ?thesis
    by (simp add: open_slots_def sync_rx_grace_active_def grace_maybe_expire_def)
qed

lemma accept_default [simp]: "fst (accept seq window_default)" "can_accept seq window_default"
  by (simp_all add: accept_iff_can_accept) (simp_all add: can_accept_def window_default_def)

lemma slot_accept_simps [simp]:
  "fst (slot_accept seq now slot) \<longleftrightarrow> can_accept seq (rx_window slot)"
  "snd (slot_accept seq now slot) = slot\<lparr>last_rx_ms := now, rx_window := snd (accept seq (rx_window slot))\<rparr>"
  by (simp_all add: slot_accept_def accept_iff_can_accept [symmetric] split: prod.splits)

lemma slot_for_fresh [simp]: "slot_for e (fresh_slot e' now) \<longleftrightarrow> e = e'" "rx_valid (fresh_slot e now)"
  "rx_epoch (fresh_slot e now) = e" "rx_window (fresh_slot e now) = window_default"
  "last_rx_ms (fresh_slot e now) = now"
  by (auto simp: slot_for_def fresh_slot_def)

lemma live_commit_fst:
  "fst (live_commit se epoch seq now rx) \<longleftrightarrow>
     (if \<not> rx_valid (fst rx) then True
      else if epoch = rx_epoch (fst rx) then can_accept seq (rx_window (fst rx))
      else if slot_for epoch (snd rx) then can_accept seq (rx_window (snd rx))
      else if rx_epoch (fst rx) < epoch then \<not> max_allowed_epoch se rx < epoch
      else False)"
  by (auto simp: live_commit_def Let_def slot_for_def split_beta)

lemma grace_commit_fst:
  "epoch_in_slots g epoch \<Longrightarrow> fst (grace_commit epoch seq now g) \<longleftrightarrow>
     can_accept seq (rx_window (if slot_for epoch (fst g) then fst g else snd g))"
  by (auto simp: grace_commit_def epoch_in_slots_def split_beta)

lemma commit_agrees:
  assumes "open_slots now s = (guard, s1)" "rx_slots s2 = rx_slots s1" "sync_rx_grace s2 = sync_rx_grace s1"
    "sync_rx_grace_expires_at_ms s2 = sync_rx_grace_expires_at_ms s1" "send_epoch s2 = send_epoch s1"
  shows "fst (commit_replay epoch seq d now s2) \<longleftrightarrow> fst (precheck_replay epoch seq d now s)"
  by (auto simp: commit_replay_def precheck_replay_def open_slots_idem [OF assms(1-4)] assms
      live_commit_fst grace_commit_fst split_beta Let_def)

lemma precheck_state: "snd (precheck_replay epoch seq d now s) = snd (open_slots now s)"
  by (simp add: precheck_replay_def split_beta Let_def)

section \<open>The key cache is transparent\<close>

text \<open>The cipher a session has to use for an epoch and a direction, computed without the cache.\<close>

definition traffic_cipher :: "crypto \<Rightarrow> bytes \<Rightarrow> string \<Rightarrow> u32 \<Rightarrow> direction \<Rightarrow> cipher option" where
  "traffic_cipher cr key alg epoch d = do {
     k \<leftarrow> hkdf_traffic_key cr key epoch d;
     k128 \<leftarrow> slice 0 16 k;
     Some (create_encryptor alg k128 k)
   }"

text \<open>The digest of SHA-256 has 32 bytes.\<close>

definition hmac_sized :: "crypto \<Rightarrow> bool" where
  "hmac_sized cr \<longleftrightarrow> (\<forall>k m. length (hmac_sha256 cr k m) = 32)"

lemma traffic_cipher_total: "hmac_sized cr \<Longrightarrow> traffic_cipher cr key alg epoch d \<noteq> None"
  by (simp add: traffic_cipher_def hkdf_traffic_key_def hmac_sized_def slice_def Let_def)

definition key_slot_ok :: "crypto \<Rightarrow> session \<Rightarrow> direction \<Rightarrow> epoch_key_slot \<Rightarrow> bool" where
  "key_slot_ok cr s d k \<longleftrightarrow> (key_valid k \<longrightarrow>
     send_cipher k = traffic_cipher cr (root_key s) (send_cipher_algorithm s) (key_epoch k) d
     \<and> recv_cipher k = traffic_cipher cr (root_key s) (recv_cipher_algorithm s) (key_epoch k) d)"

definition key_inv :: "crypto \<Rightarrow> session \<Rightarrow> bool" where
  "key_inv cr s \<longleftrightarrow> (\<forall>d. key_slot_ok cr s d (fst (dsel d (key_cache s))) \<and> key_slot_ok cr s d (snd (dsel d (key_cache s))))"

lemma key_slot_ok_cache [simp]: "key_slot_ok cr (s\<lparr>key_cache := x\<rparr>) d k = key_slot_ok cr s d k"
  by (simp add: key_slot_ok_def)

lemma key_inv_frame:
  assumes "key_inv cr s" "key_cache s' = key_cache s" "root_key s' = root_key s"
    "send_cipher_algorithm s' = send_cipher_algorithm s" "recv_cipher_algorithm s' = recv_cipher_algorithm s"
  shows "key_inv cr s'"
  using assms by (simp add: key_inv_def key_slot_ok_def)

lemma key_inv_no_keys: "key_cache s = no_keys \<Longrightarrow> key_inv cr s"
  by (simp add: key_inv_def key_slot_ok_def no_keys_def key_slot_default_def dsel_def)

lemma get_or_create_frame:
  assumes "get_or_create_encryptor cr epoch d gen is_send s = Some (c, s')"
  shows "s' = s\<lparr>key_cache := key_cache s'\<rparr>"
  using assms
  by (auto simp: get_or_create_encryptor_def Let_def get_encryptor_def
      split: prod.splits if_splits option.splits bind_splits)

lemma get_or_create_spec:
  assumes "key_inv cr s" "hmac_sized cr"
  obtains c s' where "get_or_create_encryptor cr epoch d gen is_send s = Some (c, s')"
    and "traffic_cipher cr (root_key s) (if is_send then send_cipher_algorithm s else recv_cipher_algorithm s) epoch d = Some c"
    and "key_inv cr s'"
proof -
  obtain k0 k1 where k: "dsel d (key_cache s) = (k0, k1)" by (cases "dsel d (key_cache s)")
  have ok: "key_slot_ok cr s d k0" "key_slot_ok cr s d k1"
    using assms(1) k by (auto simp: key_inv_def dest: spec [of _ d])
  let ?hit = "\<lambda>k. key_valid k \<and> key_epoch k = epoch \<and> key_generation k = gen"
  let ?alg = "if is_send then send_cipher_algorithm s else recv_cipher_algorithm s"
  obtain c where c: "traffic_cipher cr (root_key s) ?alg epoch d = Some c"
    using traffic_cipher_total [OF assms(2)] by blast
  have hit: "get_encryptor is_send k = Some c" if "?hit k" "key_slot_ok cr s d k" for k
    using that c by (auto simp: get_encryptor_def key_slot_ok_def)
  show thesis
  proof (cases "?hit k0 \<or> ?hit k1")
    case True
    then have "get_or_create_encryptor cr epoch d gen is_send s = Some (c, s)"
      using k hit ok by (auto simp: get_or_create_encryptor_def Let_def)
    with that c assms(1) show thesis by blast
  next
    case False
    obtain key key128 where key: "hkdf_traffic_key cr (root_key s) epoch d = Some key" "slice 0 16 key = Some key128"
      using c by (auto simp: traffic_cipher_def split: bind_splits)
    define slot where "slot = \<lparr>key_epoch = epoch, key_generation = gen, key_valid = True,
       send_cipher = Some (create_encryptor (send_cipher_algorithm s) key128 key),
       recv_cipher = Some (create_encryptor (recv_cipher_algorithm s) key128 key)\<rparr>"
    define row where "row = (if \<not> key_valid k0 \<or> key_epoch k0 = epoch then (slot, k1) else (k0, slot))"
    let ?s' = "s\<lparr>key_cache := dset d row (key_cache s)\<rparr>"
    have slot_ok: "key_slot_ok cr s d slot" "get_encryptor is_send slot = Some c"
      using key c by (auto simp: key_slot_ok_def slot_def traffic_cipher_def get_encryptor_def)
    then have "get_or_create_encryptor cr epoch d gen is_send s = Some (c, ?s')"
      using False k key unfolding get_or_create_encryptor_def
      by (auto simp: Let_def slot_def [symmetric] row_def)
    moreover have "key_inv cr ?s'"
      using assms(1) slot_ok(1) ok by (auto simp: key_inv_def row_def)
    ultimately show thesis using that c by blast
  qed
qed

lemma prune_slot_ok: "key_slot_ok cr s d k \<Longrightarrow> key_slot_ok cr s d (prune_slot se rx g k)"
  by (simp add: key_slot_ok_def prune_slot_def Let_def)

lemma prune_cache_row:
  "dsel d (key_cache (prune_key_cache guard s)) =
     (let f = prune_slot (send_epoch s) (dsel d (rx_slots s))
        (if guard then Some (dsel d (grace_slots (sync_rx_grace s))) else None)
      in map_prod f f (dsel d (key_cache s)))"
  by (cases d) (simp_all add: prune_key_cache_def Let_def dsel_def)

lemma prune_frame [simp]:
  "root_key (prune_key_cache guard s) = root_key s"
  "send_cipher_algorithm (prune_key_cache guard s) = send_cipher_algorithm s"
  "recv_cipher_algorithm (prune_key_cache guard s) = recv_cipher_algorithm s"
  "rx_slots (prune_key_cache guard s) = rx_slots s"
  "sync_rx_grace (prune_key_cache guard s) = sync_rx_grace s"
  "sync_rx_grace_expires_at_ms (prune_key_cache guard s) = sync_rx_grace_expires_at_ms s"
  "send_seq (prune_key_cache guard s) = send_seq s"
  "send_epoch (prune_key_cache guard s) = send_epoch s"
  "invalidated (prune_key_cache guard s) = invalidated s"
  "decrypt_fail_count (prune_key_cache guard s) = decrypt_fail_count s"
  by (simp_all add: prune_key_cache_def Let_def)

lemma prune_key_inv:
  assumes "key_inv cr s"
  shows "key_inv cr (prune_key_cache guard s)"
proof -
  have "key_slot_ok cr (prune_key_cache guard s) d k = key_slot_ok cr s d k" for d k
    by (simp add: key_slot_ok_def)
  with assms show ?thesis
    by (simp add: key_inv_def prune_cache_row Let_def prune_slot_ok)
qed

section \<open>Runs of a session\<close>

text \<open>
  The atomic steps of a session, in any order: several threads send, receive and synchronise keys on
  one session.  A step is one lock scope (the two replay checks, the key cache, the receive part of a
  key synchronisation) or one atomic operation.  What a thread carries between its steps is not in
  the session and may have any value: the epoch it read before it fetched a sequence number, the
  epoch it compares and exchanges, the generation, the new key and whether the grace copy is to be
  kept.  The events record, the latest first, the accepted and the issued sequence numbers, when a
  sequence counter was restarted, when the receive slots were renewed (with or without a grace copy),
  when the root key was written and when the key cache was emptied.  All clock readings of a run lie
  in \<open>t0\<close> to \<open>t1\<close>, in any order.
\<close>

datatype session_event =
    is_accepted: Accepted (ev_dir: direction) (ev_epoch: u32) (ev_seq: u64)
  | is_issued: Issued (ev_dir: direction) (ev_epoch: u32) (ev_seq: u64)
  | Restarted (ev_dir: direction)
  | is_renewed: Renewed (ev_keeps: bool)
  | Rekeyed
  | Emptied

inductive datagram_step ::
  "crypto \<Rightarrow> nat \<Rightarrow> nat \<Rightarrow> session \<Rightarrow> session_event list \<Rightarrow> session \<Rightarrow> bool"
  for cr t0 t1 where
  step_precheck: "t0 \<le> now \<Longrightarrow> now \<le> t1 \<Longrightarrow> precheck_replay epoch seq d now s = (ok, s') \<Longrightarrow>
    datagram_step cr t0 t1 s [] s'"
| step_commit: "t0 \<le> now \<Longrightarrow> now \<le> t1 \<Longrightarrow> commit_replay epoch seq d now s = (ok, s') \<Longrightarrow>
    datagram_step cr t0 t1 s (if ok then [Accepted d epoch seq] else []) s'"
| step_count_packet: "count_packet s = (n, s') \<Longrightarrow> datagram_step cr t0 t1 s [] s'"
| step_cas_epoch: "cas_epoch cur (cur + 1) s = (ok, s') \<Longrightarrow> datagram_step cr t0 t1 s [] s'"
| step_started: "datagram_step cr t0 t1 s [] (s\<lparr>send_epoch_started_ms := now\<rparr>)"
| step_packets: "datagram_step cr t0 t1 s [] (s\<lparr>send_packets_since_epoch := 0\<rparr>)"
| step_issue: "fetch_seq d s = (seq, s') \<Longrightarrow> datagram_step cr t0 t1 s [Issued d epoch seq] s'"
| step_key: "get_or_create_encryptor cr epoch d gen is_send s = Some (c, s') \<Longrightarrow> datagram_step cr t0 t1 s [] s'"
| step_fail_count: "datagram_step cr t0 t1 s [] (s\<lparr>decrypt_fail_count := k\<rparr>)"
| step_invalidate: "datagram_step cr t0 t1 s [] (session_invalidate s)"
| step_root_key: "datagram_step cr t0 t1 s [Rekeyed] (s\<lparr>root_key := key\<rparr>)"
| step_generation: "datagram_step cr t0 t1 s [] (s\<lparr>session_generation := gen\<rparr>)"
| step_epoch: "datagram_step cr t0 t1 s [] (s\<lparr>send_epoch := ep\<rparr>)"
| step_restart: "datagram_step cr t0 t1 s [Restarted d] (s\<lparr>send_seq := dset d 0 (send_seq s)\<rparr>)"
| step_renew: "t0 \<le> now \<Longrightarrow> now \<le> t1 \<Longrightarrow> datagram_step cr t0 t1 s [Renewed keep] (sync_rx now keep s)"
| step_empty: "datagram_step cr t0 t1 s [Emptied] (s\<lparr>key_cache := no_keys\<rparr>)"

inductive session_run ::
  "crypto \<Rightarrow> nat \<Rightarrow> nat \<Rightarrow> session \<Rightarrow> session_event list \<Rightarrow> session \<Rightarrow> bool"
  for cr t0 t1 s0 where
  run_start: "session_run cr t0 t1 s0 [] s0"
| run_step: "session_run cr t0 t1 s0 evs s \<Longrightarrow> datagram_step cr t0 t1 s ev s' \<Longrightarrow>
    session_run cr t0 t1 s0 (ev @ evs) s'"

lemma run_silent: "session_run cr t0 t1 s0 evs s \<Longrightarrow> datagram_step cr t0 t1 s [] s' \<Longrightarrow> session_run cr t0 t1 s0 evs s'"
  using run_step by fastforce

lemma run_event: "session_run cr t0 t1 s0 evs s \<Longrightarrow> datagram_step cr t0 t1 s [ev] s' \<Longrightarrow>
    session_run cr t0 t1 s0 (ev # evs) s'"
  using run_step by fastforce

lemmas run_precheck = run_silent [OF _ step_precheck]
lemmas run_key = run_silent [OF _ step_key]
lemmas run_count = run_silent [OF _ step_fail_count]
lemmas run_invalidate = run_silent [OF _ step_invalidate]

lemma run_commit: "session_run cr t0 t1 s0 evs s \<Longrightarrow> t0 \<le> now \<Longrightarrow> now \<le> t1 \<Longrightarrow>
    commit_replay epoch seq d now s = (ok, s') \<Longrightarrow>
    session_run cr t0 t1 s0 (if ok then Accepted d epoch seq # evs else evs) s'"
  using run_step [OF _ step_commit] by (cases ok) fastforce+

lemma run_nonce:
  assumes run: "session_run cr t0 t1 s0 evs s" and "next_nonce now d s = ((epoch, seq, n), s')"
  shows "session_run cr t0 t1 s0 (Issued d epoch seq # evs) s'"
proof -
  let ?c = "snd (count_packet s)" and ?e = "\<lambda>x. snd (cas_epoch (send_epoch x) (send_epoch x + 1) x)"
  have c: "session_run cr t0 t1 s0 evs ?c"
    by (rule run_silent [OF run step_count_packet]) (rule prod.collapse [symmetric])
  have e: "session_run cr t0 t1 s0 evs (?e ?c)"
    by (rule run_silent [OF c step_cas_epoch]) (rule prod.collapse [symmetric])
  have "session_run cr t0 t1 s0 evs (maybe_rotate_epoch now s)"
    using c e run_silent [OF run_silent [OF e step_started] step_packets]
    by (simp add: maybe_rotate_epoch_def Let_def split_beta)
  from run_event [OF this step_issue] show ?thesis
    using assms(2) by (auto simp: next_nonce_def Let_def split: prod.splits)
qed

lemma sync_is_run:
  assumes run: "session_run cr t0 t1 s0 evs s" and now: "t0 \<le> now" "now \<le> t1"
  shows "session_run cr t0 t1 s0
    (Emptied # Renewed (pres \<and> root_key s = key) # Restarted BToA # Restarted AToB # Rekeyed # evs)
    (sync_root_key now key gen ep pres s)"
  unfolding sync_root_key_def Let_def
  by (intro run_event [OF _ step_empty] run_event [OF _ step_renew [OF now]] run_silent [OF _ step_packets]
      run_silent [OF _ step_started] run_event [OF _ step_restart] run_silent [OF _ step_epoch]
      run_silent [OF _ step_generation] run_event [OF _ step_root_key] run)

text \<open>The whole methods are runs of their steps.\<close>

lemma decrypt_is_run:
  assumes "session_run cr t0 t1 s0 evs s" "t0 \<le> now" "now \<le> t1"
    and "session_decrypt_payload cr now d pkt s = Some (r, s')"
  shows "session_run cr t0 t1 s0 evs s' \<and> (\<exists>e. r = Inl e)
    \<or> (\<exists>pl nonce pkt'. r = Inr pkt' \<and> payload pkt = Some pl \<and> parse_tail pl = Some nonce
        \<and> session_run cr t0 t1 s0 (Accepted d (from_be_bytes (take 4 nonce)) (from_be_bytes (drop 4 nonce)) # evs) s')"
proof (cases "session_is_valid s")
  case False
  with assms show ?thesis by (auto simp: session_decrypt_payload_def)
next
  case True
  with assms(4) obtain pl where pl: "payload pkt = Some pl"
    by (auto simp: session_decrypt_payload_def split: bind_splits)
  show ?thesis
  proof (cases "parse_tail pl")
    case None
    with True pl assms show ?thesis by (auto simp: session_decrypt_payload_def)
  next
    case (Some n)
    let ?e = "from_be_bytes (take 4 n) :: u32" and ?q = "from_be_bytes (drop 4 n) :: u64"
    obtain ok s1 where pre: "precheck_replay ?e ?q d now s = (ok, s1)" by (cases "precheck_replay ?e ?q d now s")
    note r1 = run_precheck [OF assms(1-3) pre]
    show ?thesis
    proof (cases ok)
      case False
      with True pl Some pre assms(4) r1 show ?thesis by (auto simp: session_decrypt_payload_def)
    next
      case ok: True
      obtain c s2 x where s2: "get_or_create_encryptor cr ?e d (session_generation s1) False s1 = Some (c, s2)"
          "encryptor_decrypt cr c pkt = Some x"
        using True pl Some pre ok assms(4) by (auto simp: session_decrypt_payload_def Let_def split: bind_splits)
      note r2 = run_key [OF r1 s2(1)]
      show ?thesis
      proof (cases x)
        case (Inl err)
        with True pl Some pre ok s2 assms(4) run_count [OF r2] run_invalidate [OF run_count [OF r2]]
        show ?thesis by (auto simp: session_decrypt_payload_def Let_def split: if_splits)
      next
        case (Inr pkt')
        obtain fin s4 where c: "commit_replay ?e ?q d now (s2\<lparr>decrypt_fail_count := 0\<rparr>) = (fin, s4)"
          by (cases "commit_replay ?e ?q d now (s2\<lparr>decrypt_fail_count := 0\<rparr>)")
        with True pl Some pre ok s2 Inr assms(4) run_commit [OF run_count [OF r2] assms(2,3) c]
        show ?thesis by (cases fin) (auto simp: session_decrypt_payload_def Let_def)
      qed
    qed
  qed
qed

lemma encrypt_is_run:
  assumes "session_run cr t0 t1 s0 evs s" "t0 \<le> now" "now \<le> t1"
    and "session_encrypt_payload cr now d pkt s = Some (r, s')" "session_is_valid s"
  shows "\<exists>epoch seq. session_run cr t0 t1 s0 (Issued d epoch seq # evs) s'"
proof -
  obtain epoch seq n s1 where nn: "next_nonce now d s = ((epoch, seq, n), s1)"
    by (cases "next_nonce now d s") auto
  note r1 = run_nonce [OF assms(1) nn]
  obtain c s2 where s2: "get_or_create_encryptor cr epoch d (session_generation s1) True s1 = Some (c, s2)"
    using assms(4,5) nn by (auto simp: session_encrypt_payload_def split: bind_splits)
  note r2 = run_key [OF r1 s2]
  from assms(4,5) nn s2 have "s' = s2 \<or> s' = session_invalidate s2"
    by (auto simp: session_encrypt_payload_def split: bind_splits sum.splits)
  then show ?thesis using r2 run_invalidate [OF r2] by blast
qed

section \<open>No replay within the idle time\<close>

definition seen_seqs :: "session_event list \<Rightarrow> direction \<Rightarrow> u32 \<Rightarrow> nat set" where
  "seen_seqs evs d e = {unat n | n. Accepted d e n \<in> set evs}"

definition slots_inv :: "nat \<Rightarrow> session_event list \<Rightarrow> direction \<Rightarrow> dir_slots \<Rightarrow> bool" where
  "slots_inv t0 evs d rx \<longleftrightarrow>
     (\<forall>x \<in> {fst rx, snd rx}. rx_valid x \<longrightarrow>
        window_sees (rx_window x) (seen_seqs evs d (rx_epoch x)) \<and> t0 \<le> last_rx_ms x)
     \<and> (rx_valid (snd rx) \<longrightarrow> rx_valid (fst rx) \<and> rx_epoch (snd rx) < rx_epoch (fst rx))
     \<and> (\<forall>e n. Accepted d e n \<in> set evs \<longrightarrow> rx_valid (fst rx) \<and> e \<le> rx_epoch (fst rx))"

definition replay_inv :: "nat \<Rightarrow> session_event list \<Rightarrow> session \<Rightarrow> bool" where
  "replay_inv t0 evs s \<longleftrightarrow> sync_rx_grace_expires_at_ms s = 0 \<and> (\<forall>d. slots_inv t0 evs d (dsel d (rx_slots s)))"

lemma seen_seqs_Cons:
  "seen_seqs (Accepted d e n # evs) d' e' =
     (if d = d' \<and> e = e' then insert (unat n) (seen_seqs evs d' e') else seen_seqs evs d' e')"
  by (auto simp: seen_seqs_def)

lemma mem_seen: "Accepted d e n \<in> set evs \<longleftrightarrow> unat n \<in> seen_seqs evs d e"
  by (auto simp: seen_seqs_def simp flip: word_unat_eq_iff)

lemma slots_inv_other:
  "d' \<noteq> d \<Longrightarrow> slots_inv t0 (Accepted d e n # evs) d' rx = slots_inv t0 evs d' rx"
  by (simp add: slots_inv_def seen_seqs_Cons)

lemma slots_inv_silent: "\<not> is_accepted ev \<Longrightarrow> slots_inv t0 (ev # evs) d rx = slots_inv t0 evs d rx"
  by (cases ev) (simp_all add: slots_inv_def seen_seqs_def)

lemma replay_inv_silent: "\<not> is_accepted ev \<Longrightarrow> replay_inv t0 (ev # evs) s = replay_inv t0 evs s"
  by (simp add: replay_inv_def slots_inv_silent)

text \<open>One packet at the two slots of a direction.\<close>

lemma slot_accept_sees:
  assumes "window_sees (rx_window x) S" "slot_accept seq now x = (ok, x')"
  shows "window_sees (rx_window x') (if ok then insert (unat seq) S else S)"
    and "ok \<Longrightarrow> unat seq \<notin> S"
    and "rx_epoch x' = rx_epoch x" "rx_valid x' = rx_valid x" "last_rx_ms x' = now"
proof -
  obtain w where w: "accept seq (rx_window x) = (ok, w)" "x' = x\<lparr>last_rx_ms := now, rx_window := w\<rparr>"
    using assms(2) by (auto simp: slot_accept_def split: prod.splits)
  then show "window_sees (rx_window x') (if ok then insert (unat seq) S else S)"
    and "rx_epoch x' = rx_epoch x" "rx_valid x' = rx_valid x" "last_rx_ms x' = now"
    using assms(1) accept_sees by auto
  show "unat seq \<notin> S" if ok
    using that assms(1) w accept_iff_can_accept [of seq "rx_window x"] window.commit_fresh by simp
qed

lemma fresh_slot_sees: "window_sees (rx_window (fresh_slot epoch now)) {}"
  by (simp add: window_sees_default)

lemma live_commit_inv:
  assumes inv: "slots_inv t0 evs d rx" and t: "t0 \<le> now" and c: "live_commit se epoch seq now rx = (ok, rx')"
  shows "slots_inv t0 (if ok then Accepted d epoch seq # evs else evs) d rx'
    \<and> (ok \<longrightarrow> Accepted d epoch seq \<notin> set evs)"
proof (cases "rx_valid (fst rx)")
  case False
  then have none: "seen_seqs evs d e = {}" "\<not> rx_valid (snd rx)" "Accepted d e n \<notin> set evs" for e n
    using inv by (auto simp: slots_inv_def seen_seqs_def)
  obtain x where x: "slot_accept seq now (fresh_slot epoch now) = (ok, x)" "rx' = (x, snd rx)"
    using c False by (auto simp: live_commit_def Let_def split: prod.splits)
  note acc = slot_accept_sees [OF fresh_slot_sees x(1)]
  show ?thesis
    using acc none t x(2) by (auto simp: slots_inv_def seen_seqs_Cons split: if_splits)
next
  case True
  obtain x0 x1 where rx: "rx = (x0, x1)" by (cases rx)
  have v0: "rx_valid x0" using True rx by simp
  have inv0: "window_sees (rx_window x0) (seen_seqs evs d (rx_epoch x0))" "t0 \<le> last_rx_ms x0"
    and inv1: "rx_valid x1 \<Longrightarrow> window_sees (rx_window x1) (seen_seqs evs d (rx_epoch x1))"
      "rx_valid x1 \<Longrightarrow> t0 \<le> last_rx_ms x1" "rx_valid x1 \<Longrightarrow> rx_epoch x1 < rx_epoch x0"
    and le: "\<And>e n. Accepted d e n \<in> set evs \<Longrightarrow> e \<le> rx_epoch x0"
    using inv v0 rx by (auto simp: slots_inv_def)
  consider (cur) "slot_for epoch x0" | (prev) "\<not> slot_for epoch x0" "slot_for epoch x1"
    | (open_epoch) "\<not> slot_for epoch x0" "\<not> slot_for epoch x1" "rx_epoch x0 < epoch" "\<not> max_allowed_epoch se rx < epoch"
    | (reject) "\<not> ok" "rx' = rx"
    using c v0 rx by (auto simp: live_commit_def Let_def split: if_splits prod.splits)
  then show ?thesis
  proof cases
    case cur
    then obtain x where x: "slot_accept seq now x0 = (ok, x)" "rx' = (x, x1)" "epoch = rx_epoch x0"
      using c v0 rx by (auto simp: live_commit_def Let_def slot_for_def split: prod.splits)
    note acc = slot_accept_sees [OF inv0(1) x(1)]
    show ?thesis
      using acc v0 inv1 le t x(2,3)
      by (auto simp: slots_inv_def seen_seqs_Cons mem_seen split: if_splits)
  next
    case prev
    then obtain x where x: "slot_accept seq now x1 = (ok, x)" "rx' = (x0, x)" "epoch = rx_epoch x1" "rx_valid x1"
      using c v0 rx by (auto simp: live_commit_def Let_def slot_for_def split: prod.splits)
    note acc = slot_accept_sees [OF inv1(1) [OF x(4)] x(1)]
    show ?thesis
      using acc v0 inv0 inv1 le t x
      by (auto simp: slots_inv_def seen_seqs_Cons mem_seen split: if_splits)
  next
    case open_epoch
    obtain x where x: "slot_accept seq now (fresh_slot epoch now) = (ok, x)" "rx' = (x, x0)"
      using c v0 rx open_epoch
      by (auto simp: live_commit_def Let_def slot_accept_def fresh_slot_def split: prod.splits)
    have le': "e \<le> epoch" if "Accepted d e n \<in> set evs" for e n
      using le [OF that] open_epoch(3) by simp
    have none: "Accepted d epoch n \<notin> set evs" for n using le open_epoch(3) by force
    then have "seen_seqs evs d epoch = {}" by (auto simp: seen_seqs_def)
    moreover note slot_accept_sees [OF fresh_slot_sees x(1)]
    ultimately show ?thesis
      using none v0 inv0 le' t x(2) open_epoch(3)
      by (auto simp: slots_inv_def seen_seqs_Cons split: if_splits)
  next
    case reject
    with inv show ?thesis by simp
  qed
qed

lemma evict_noop:
  assumes "slots_inv t0 evs d rx" "now \<le> t0 + EVICT_IDLE_AFTER_MS"
  shows "map_prod (evict_slot now) (evict_slot now) rx = rx"
proof (cases rx)
  case (Pair x0 x1)
  have "evict_slot now x = x" if "x \<in> {x0, x1}" for x
    using that assms Pair by (auto simp: slots_inv_def evict_slot_def)
  then show ?thesis by (simp add: Pair)
qed

lemma open_slots_noop:
  assumes "replay_inv t0 evs s" "now \<le> t0 + EVICT_IDLE_AFTER_MS"
  shows "open_slots now s = (False, s)"
proof -
  have "dsel d (evict_old_rx_slots now (rx_slots s)) = dsel d (rx_slots s)" for d
    using assms evict_noop [of t0 evs d "dsel d (rx_slots s)" now]
    by (simp add: replay_inv_def evict_old_rx_slots_def)
  then have "evict_old_rx_slots now (rx_slots s) = rx_slots s"
    by (metis dsel_def dir_idx.simps prod_eq_iff zero_neq_one)
  with assms(1) show ?thesis
    by (simp add: open_slots_def sync_rx_grace_active_def replay_inv_def)
qed

lemma replay_inv_frame:
  "replay_inv t0 evs s \<Longrightarrow> rx_slots s' = rx_slots s \<Longrightarrow>
    sync_rx_grace_expires_at_ms s' = sync_rx_grace_expires_at_ms s \<Longrightarrow> replay_inv t0 evs s'"
  by (simp add: replay_inv_def)

lemma commit_replay_inv:
  assumes "replay_inv t0 evs s" "t0 \<le> now" "now \<le> t0 + EVICT_IDLE_AFTER_MS"
    and "commit_replay epoch seq d now s = (ok, s')"
  shows "replay_inv t0 (if ok then Accepted d epoch seq # evs else evs) s'
    \<and> (ok \<longrightarrow> Accepted d epoch seq \<notin> set evs)"
proof -
  obtain rx' where rx': "live_commit (send_epoch s) epoch seq now (dsel d (rx_slots s)) = (ok, rx')"
      "s' = prune_key_cache False (s\<lparr>rx_slots := dset d rx' (rx_slots s)\<rparr>)"
    using assms(4) open_slots_noop [OF assms(1,3)]
    by (auto simp: commit_replay_def Let_def split: prod.splits)
  have inv: "slots_inv t0 evs d' (dsel d' (rx_slots s))" "sync_rx_grace_expires_at_ms s = 0" for d'
    using assms(1) by (auto simp: replay_inv_def)
  note step = live_commit_inv [OF inv(1) assms(2) rx'(1)]
  have "slots_inv t0 (if ok then Accepted d epoch seq # evs else evs) d' (dsel d' (dset d rx' (rx_slots s)))" for d'
    using step inv(1) [of d'] by (auto simp: slots_inv_other)
  with step inv(2) show ?thesis by (simp add: replay_inv_def rx'(2))
qed

lemma next_nonce_frame:
  assumes "next_nonce now d s = (x, s')"
  shows "rx_slots s' = rx_slots s" "sync_rx_grace_expires_at_ms s' = sync_rx_grace_expires_at_ms s"
    "key_cache s' = key_cache s" "root_key s' = root_key s" "send_cipher_algorithm s' = send_cipher_algorithm s"
    "recv_cipher_algorithm s' = recv_cipher_algorithm s" "session_generation s' = session_generation s"
    "send_seq s' = dset d (dsel d (send_seq s) + 1) (send_seq s)" "fst (snd x) = dsel d (send_seq s)"
    "fst x = send_epoch s'" "snd (snd x) = nonce_of (fst x) (fst (snd x))" "invalidated s' = invalidated s"
  using assms
  by (auto simp: next_nonce_def maybe_rotate_epoch_def count_packet_def cas_epoch_def fetch_seq_def Let_def
      split: if_splits)

text \<open>The events since the receive slots were last renewed, and whether that renewal kept a grace copy.\<close>

definition current_era :: "session_event list \<Rightarrow> session_event list" where
  "current_era evs = takeWhile (\<lambda>ev. \<not> is_renewed ev) evs"

fun keeps_grace :: "session_event list \<Rightarrow> bool" where
  "keeps_grace [] = False"
| "keeps_grace (Renewed keep # _) = keep"
| "keeps_grace (_ # evs) = keeps_grace evs"

lemma current_era_simps [simp]:
  "current_era [] = []" "current_era (Renewed keep # evs) = []"
  "\<not> is_renewed ev \<Longrightarrow> current_era (ev # evs) = ev # current_era evs"
  by (simp_all add: current_era_def)

lemma keeps_grace_other [simp]: "\<not> is_renewed ev \<Longrightarrow> keeps_grace (ev # evs) = keeps_grace evs"
  by (cases ev) simp_all

lemma fresh_replay_inv:
  assumes "\<And>d. \<not> rx_valid (fst (dsel d (rx_slots s))) \<and> \<not> rx_valid (snd (dsel d (rx_slots s)))"
    and "sync_rx_grace_expires_at_ms s = 0"
  shows "replay_inv t0 [] s"
  using assms by (auto simp: replay_inv_def slots_inv_def)

lemma sync_rx_inv: "replay_inv t0 [] (sync_rx now False s)"
  by (rule fresh_replay_inv) (simp_all add: sync_rx_def)

definition no_replay_so_far :: "nat \<Rightarrow> session_event list \<Rightarrow> session \<Rightarrow> bool" where
  "no_replay_so_far t0 evs s \<longleftrightarrow> (\<not> keeps_grace evs \<longrightarrow>
     replay_inv t0 (current_era evs) s \<and> distinct (filter is_accepted (current_era evs)))"

lemma so_far_frame:
  assumes "no_replay_so_far t0 evs s" "rx_slots s' = rx_slots s"
    "sync_rx_grace_expires_at_ms s' = sync_rx_grace_expires_at_ms s"
  shows "no_replay_so_far t0 evs s'"
    and "\<not> is_accepted ev \<Longrightarrow> \<not> is_renewed ev \<Longrightarrow> no_replay_so_far t0 (ev # evs) s'"
  using assms by (auto simp: no_replay_so_far_def replay_inv_silent elim: replay_inv_frame)

lemma step_no_replay:
  assumes "datagram_step cr t0 t1 s ev s'" "no_replay_so_far t0 evs s" "t1 \<le> t0 + EVICT_IDLE_AFTER_MS"
  shows "no_replay_so_far t0 (ev @ evs) s'"
  using assms
proof (induction rule: datagram_step.induct)
  case (step_precheck now epoch seq d s ok s')
  have "s' = s" if "\<not> keeps_grace evs"
    using that step_precheck open_slots_noop [of t0 "current_era evs" s now] precheck_state [of epoch seq d now s]
    by (simp add: no_replay_so_far_def)
  with step_precheck show ?case by (auto simp: no_replay_so_far_def)
next
  case (step_commit now epoch seq d s ok s')
  then show ?case
    using commit_replay_inv [of t0 "current_era evs" s now epoch seq d ok s'] by (auto simp: no_replay_so_far_def)
next
  case (step_key epoch d gen is_send s c s')
  have "no_replay_so_far t0 evs (s\<lparr>key_cache := key_cache s'\<rparr>)"
    using step_key by (auto intro: so_far_frame)
  with step_key get_or_create_frame [OF step_key.hyps] show ?case by simp
next
  case (step_renew now s keep)
  then show ?case by (cases keep) (simp_all add: no_replay_so_far_def sync_rx_inv)
qed (auto simp: session_invalidate_def count_packet_def cas_epoch_def fetch_seq_def split: if_splits intro: so_far_frame)

lemma run_no_replay:
  assumes "session_run cr t0 t1 s0 evs s" "replay_inv t0 [] s0" "t1 \<le> t0 + EVICT_IDLE_AFTER_MS"
  shows "no_replay_so_far t0 evs s"
  using assms
proof (induction rule: session_run.induct)
  case run_start
  then show ?case by (simp add: no_replay_so_far_def)
qed (auto intro: step_no_replay)

lemma session_new_inv: "replay_inv t0 [] (session_new now key gen ep sa ra)"
  by (rule fresh_replay_inv) (simp_all add: session_new_def empty_slots_def rx_slot_default_def dsel_def)

text \<open>
  C1: no replay.  On a new session, under every interleaving of the atomic steps of any number of
  threads that receive, send and synchronise keys, with clock readings that span at most the idle time
  of 30 seconds, no combination of direction, epoch and sequence number is accepted twice since the
  receive slots were last renewed by a key synchronisation (since the session began, when there was
  none), and every successful decryption is a new acceptance in that sense.  This holds when there was
  no renewal or the last one did not keep a grace copy, as when the root key changes.  A renewal starts
  afresh, so a number of an earlier era can be accepted again if its key is still in use; after a
  renewal with a grace copy, numbers can be accepted twice.
\<close>

theorem session_no_replay:
  assumes "session_run cr t0 t1 (session_new now0 key gen ep sa ra) evs s"
    and "t1 \<le> t0 + EVICT_IDLE_AFTER_MS" and "\<not> keeps_grace evs"
  shows "distinct (filter is_accepted (current_era evs))
    \<and> (\<forall>now d pkt pkt' s'. t0 \<le> now \<and> now \<le> t1
        \<and> session_decrypt_payload cr now d pkt s = Some (Inr pkt', s') \<longrightarrow>
        (\<exists>pl nonce. payload pkt = Some pl \<and> parse_tail pl = Some nonce
          \<and> Accepted d (from_be_bytes (take 4 nonce)) (from_be_bytes (drop 4 nonce)) \<notin> set (current_era evs)))"
proof -
  note inv = run_no_replay [OF _ session_new_inv assms(2), unfolded no_replay_so_far_def]
  have "\<exists>pl nonce. payload pkt = Some pl \<and> parse_tail pl = Some nonce
      \<and> Accepted d (from_be_bytes (take 4 nonce)) (from_be_bytes (drop 4 nonce)) \<notin> set (current_era evs)"
    if "t0 \<le> now" "now \<le> t1" "session_decrypt_payload cr now d pkt s = Some (Inr pkt', s')" for now d pkt pkt' s'
    using decrypt_is_run [OF assms(1) that] inv assms(3) by fastforce
  with inv [OF assms(1)] assms(3) show ?thesis by blast
qed

section \<open>Nonces are unique\<close>

text \<open>The nonces issued for a direction since its sequence counter was last restarted.\<close>

definition issued_by :: "direction \<Rightarrow> session_event list \<Rightarrow> session_event list" where
  "issued_by d evs = filter (\<lambda>ev. is_issued ev \<and> ev_dir ev = d) (takeWhile (\<lambda>ev. ev \<noteq> Restarted d) evs)"

lemma issued_by_simps [simp]:
  "issued_by d [] = []" "issued_by d (Restarted d' # evs) = (if d' = d then [] else issued_by d evs)"
  "issued_by d (Issued d' e n # evs) = (if d' = d then Issued d' e n # issued_by d evs else issued_by d evs)"
  "issued_by d (Accepted d' e n # evs) = issued_by d evs" "issued_by d (Renewed keep # evs) = issued_by d evs"
  "issued_by d (Rekeyed # evs) = issued_by d evs" "issued_by d (Emptied # evs) = issued_by d evs"
  by (simp_all add: issued_by_def)

lemma issued_by_length: "length (issued_by d evs) \<le> length evs"
  unfolding issued_by_def by (meson le_trans length_filter_le length_takeWhile_le)

lemma open_send_seq: "send_seq (snd (open_slots now s)) = send_seq s"
  by (metis open_slots_frame(5) prod.collapse)

lemma commit_send_seq: "send_seq (snd (commit_replay epoch seq d now s)) = send_seq s"
  by (simp add: commit_replay_def Let_def split_beta open_send_seq)

definition counts_issued :: "direction \<Rightarrow> session_event list \<Rightarrow> session \<Rightarrow> bool" where
  "counts_issued d evs s \<longleftrightarrow> dsel d (send_seq s) = of_nat (length (issued_by d evs))
    \<and> map ev_seq (issued_by d evs) = map of_nat (rev [0 ..< length (issued_by d evs)])"

lemma step_issued:
  assumes "datagram_step cr t0 t1 s ev s'" "counts_issued d evs s"
  shows "counts_issued d (ev @ evs) s'"
  using assms
proof (induction rule: datagram_step.induct)
  case (step_precheck now epoch seq d' s ok s')
  then show ?case
    using precheck_state [of epoch seq d' now s] open_send_seq [of now s] by (simp add: counts_issued_def)
next
  case (step_commit now epoch seq d' s ok s')
  then show ?case using commit_send_seq [of epoch seq d' now s] by (simp add: counts_issued_def)
next
  case (step_key epoch d' gen is_send s c s')
  have "counts_issued d evs (s\<lparr>key_cache := key_cache s'\<rparr>)" using step_key by (simp add: counts_issued_def)
  with get_or_create_frame [OF step_key.hyps] show ?case by simp
next
  case (step_issue d' s seq s' epoch)
  then show ?case by (auto simp: fetch_seq_def counts_issued_def)
next
  case (step_restart s d')
  then show ?case by (auto simp: counts_issued_def)
next
  case (step_renew now s keep)
  then show ?case by (simp add: sync_rx_def counts_issued_def Let_def)
qed (auto simp: counts_issued_def session_invalidate_def count_packet_def cas_epoch_def split: if_splits)

lemma run_issued:
  assumes "session_run cr t0 t1 s0 evs s" "send_seq s0 = (0, 0)"
  shows "counts_issued d evs s"
  using assms
proof (induction rule: session_run.induct)
  case run_start
  then show ?case by (simp add: counts_issued_def)
qed (auto intro: step_issued)

lemma nonce_of_parts:
  "take 4 (nonce_of e n) = to_be_bytes 4 e" "drop 4 (nonce_of e n) = to_be_bytes 8 n"
  "length (nonce_of e n) = 12"
  by (simp_all add: nonce_of_def)

lemma nonce_of_read:
  "from_be_bytes (take 4 (nonce_of e n)) = e" "from_be_bytes (drop 4 (nonce_of e n)) = n"
  by (simp_all add: nonce_of_parts from_to_be_bytes)

lemma nonce_of_inject: "nonce_of e n = nonce_of e' n' \<longleftrightarrow> e = e' \<and> n = n'"
  by (metis nonce_of_read)

lemma distinct_of_nat_upt:
  assumes "k \<le> 2 ^ 64"
  shows "distinct (map (of_nat :: nat \<Rightarrow> u64) (rev [0 ..< k]))"
proof -
  have "unat (of_nat x :: u64) = x" if "x < k" for x
    using that assms by (simp add: unat_of_nat)
  then have "inj_on (of_nat :: nat \<Rightarrow> u64) {0 ..< k}"
    by (intro inj_onI) (metis atLeastLessThan_iff)
  then show ?thesis by (simp add: distinct_map)
qed

text \<open>
  C8: nonces are never reused while a sequence counter runs.  In every interleaving of the atomic
  steps of any number of threads on a new session, with at most \<open>2 ^ 64\<close> events, the nonces issued for
  a direction since its sequence counter was last restarted by a key synchronisation are pairwise
  distinct 12-byte strings.  A nonce is issued when the counter is fetched and incremented, with
  whatever epoch the thread has read before; epoch rotations by packet count or by time happen in
  between, piece by piece.
\<close>

theorem nonces_unique:
  assumes "session_run cr t0 t1 (session_new now0 key gen ep sa ra) evs s" and "length evs \<le> 2 ^ 64"
  shows "distinct (map (\<lambda>ev. nonce_of (ev_epoch ev) (ev_seq ev)) (issued_by d evs))"
proof -
  have "send_seq (session_new now0 key gen ep sa ra) = (0, 0)" by (simp add: session_new_def)
  from run_issued [OF assms(1) this, of d]
  have seqs: "map ev_seq (issued_by d evs) = map of_nat (rev [0 ..< length (issued_by d evs)])"
    by (simp add: counts_issued_def)
  have "length (issued_by d evs) \<le> 2 ^ 64"
    using assms(2) issued_by_length [of d evs] by (rule le_trans [rotated])
  then have "distinct (map ev_seq (issued_by d evs))"
    unfolding seqs by (rule distinct_of_nat_upt)
  then show ?thesis
    by (auto simp: distinct_map inj_on_def nonce_of_inject)
qed

section \<open>Sessions talk to each other\<close>

lemma commit_frame:
  "root_key (snd (commit_replay epoch seq d now s)) = root_key s"
  "send_cipher_algorithm (snd (commit_replay epoch seq d now s)) = send_cipher_algorithm s"
  "recv_cipher_algorithm (snd (commit_replay epoch seq d now s)) = recv_cipher_algorithm s"
  by (cases "open_slots now s"; simp add: commit_replay_def Let_def split_beta open_slots_frame)+

lemma commit_key_inv: "key_inv cr s \<Longrightarrow> key_inv cr (snd (commit_replay epoch seq d now s))"
  by (cases "open_slots now s")
    (auto simp: commit_replay_def Let_def split_beta intro!: prune_key_inv
      elim!: key_inv_frame dest: open_slots_frame)

lemma precheck_key_inv:
  assumes "key_inv cr s" "precheck_replay epoch seq d now s = (ok, s')"
  shows "key_inv cr s'"
proof -
  obtain g where "open_slots now s = (g, s')"
    using precheck_state [of epoch seq d now s] assms(2) by (cases "open_slots now s") auto
  from open_slots_frame [OF this] show ?thesis using assms(1) by (auto elim: key_inv_frame)
qed

text \<open>The key cache is coherent whenever it was emptied after the root key was last written, also when
  other threads fill it in between; the algorithms never change.\<close>

fun sync_settled :: "session_event list \<Rightarrow> bool" where
  "sync_settled [] = True"
| "sync_settled (Rekeyed # _) = False"
| "sync_settled (Emptied # _) = True"
| "sync_settled (_ # evs) = sync_settled evs"

lemma step_key_inv:
  assumes "datagram_step cr t0 t1 s ev s'" "hmac_sized cr" "sync_settled evs \<longrightarrow> key_inv cr s"
  shows "sync_settled (ev @ evs) \<longrightarrow> key_inv cr s'"
  using assms
proof (induction rule: datagram_step.induct)
  case (step_precheck now epoch seq d s ok s')
  then show ?case by (auto intro: precheck_key_inv)
next
  case (step_commit now epoch seq d s ok s')
  then show ?case using commit_key_inv [of cr s epoch seq d now] by simp
next
  case (step_key epoch d gen is_send s c s')
  then show ?case by simp (metis get_or_create_spec option.inject prod.inject)
next
  case (step_renew now s keep)
  have "key_inv cr (sync_rx now keep s)" if "key_inv cr s"
    using that by (rule key_inv_frame) (simp_all add: sync_rx_def Let_def)
  with step_renew show ?case by simp
next
  case (step_empty s)
  then show ?case by (simp add: key_inv_no_keys)
qed (auto elim!: key_inv_frame simp: session_invalidate_def count_packet_def cas_epoch_def fetch_seq_def split: if_splits)

lemma run_key_inv:
  assumes "session_run cr t0 t1 s0 evs s" "key_inv cr s0" "hmac_sized cr" "sync_settled evs"
  shows "key_inv cr s"
proof -
  have "sync_settled evs \<longrightarrow> key_inv cr s"
    using assms(1-3) by (induction rule: session_run.induct) (auto dest: step_key_inv)
  with assms(4) show ?thesis by blast
qed

definition same_algorithms :: "session \<Rightarrow> session \<Rightarrow> bool" where
  "same_algorithms s s' \<longleftrightarrow> send_cipher_algorithm s' = send_cipher_algorithm s
    \<and> recv_cipher_algorithm s' = recv_cipher_algorithm s"

lemma step_algorithms:
  assumes "datagram_step cr t0 t1 s ev s'"
  shows "same_algorithms s s'"
  using assms
proof (induction rule: datagram_step.induct)
  case (step_precheck now epoch seq d s ok s')
  then obtain g where "open_slots now s = (g, s')"
    using precheck_state [of epoch seq d now s] by (cases "open_slots now s") auto
  from open_slots_frame [OF this] show ?case by (simp add: same_algorithms_def)
next
  case (step_commit now epoch seq d s ok s')
  then show ?case using commit_frame [of epoch seq d now s] by (simp add: same_algorithms_def)
next
  case (step_key epoch d gen is_send s c s')
  have "same_algorithms s (s\<lparr>key_cache := key_cache s'\<rparr>)" by (simp add: same_algorithms_def)
  with get_or_create_frame [OF step_key] show ?case by simp
next
  case (step_renew now s keep)
  then show ?case by (simp add: sync_rx_def same_algorithms_def Let_def)
qed (auto simp: same_algorithms_def session_invalidate_def count_packet_def cas_epoch_def fetch_seq_def split: if_splits)

lemma run_algorithms:
  assumes "session_run cr t0 t1 s0 evs s"
  shows "same_algorithms s0 s"
  using assms
  by (induction rule: session_run.induct) (auto simp: same_algorithms_def dest!: step_algorithms)

lemma ring_sealed_tail:
  assumes "crypto_correct cr" "payload_offset p \<le> length (inner p)" "peer_manager_header_of p = Some h"
    "\<not> is_encrypted h" "ring_encrypt_with_nonce cr rnd alg key (Some n) p = Some (Inr q)"
  shows "(\<exists>pl. payload q = Some pl \<and> parse_tail pl = Some n)
    \<and> peer_manager_header_of q = Some (set_encrypted True h)"
proof -
  obtain pt pre h0 body where pk: "p = packet_of pt pre h0 body"
      "length pre = peer_manager_header_off (get_packet_offsets pt)"
    using assms(2) by (rule packet_of_cases)
  show ?thesis
    by (rule ring_encrypt_cases [OF pk(2) assms(1) _ assms(5) [unfolded pk(1)]])
      (use assms(3,4) pk in \<open>auto simp: parse_tail_def tail_suffix used_nonce_def\<close>)
qed

lemma create_encryptor_ring:
  "encryption_algorithm_try_from alg \<noteq> Some Xor \<Longrightarrow> \<exists>a k. create_encryptor alg k128 k256 = RingCipher a k"
  by (auto simp: create_encryptor_def split: option.splits encryption_algorithm.splits)

lemma encrypt_payload_steps:
  assumes "session_encrypt_payload cr now d p s = Some (Inr q, s')" "key_inv cr s" "hmac_sized cr"
  obtains epoch seq s1 c where "next_nonce now d s = ((epoch, seq, nonce_of epoch seq), s1)"
    "traffic_cipher cr (root_key s) (send_cipher_algorithm s) epoch d = Some c"
    "encrypt_with_nonce cr [] c (Some (nonce_of epoch seq)) p = Some (Inr q)"
proof -
  obtain epoch seq s1 where nn: "next_nonce now d s = ((epoch, seq, nonce_of epoch seq), s1)"
    using next_nonce_ex by blast
  have k1: "key_inv cr s1" using assms(2) next_nonce_frame [OF nn] by (auto elim: key_inv_frame)
  obtain c s2 where c: "get_or_create_encryptor cr epoch d (session_generation s1) True s1 = Some (c, s2)"
      "traffic_cipher cr (root_key s1) (send_cipher_algorithm s1) epoch d = Some c"
    by (rule get_or_create_spec [OF k1 assms(3), of epoch d "session_generation s1" True]) simp
  have "encrypt_with_nonce cr [] c (Some (nonce_of epoch seq)) p = Some (Inr q)"
    using assms(1) nn c(1)
    by (auto simp: session_encrypt_payload_def split: if_splits bind_splits sum.splits)
  with that nn c(2) next_nonce_frame [OF nn] show thesis by simp
qed

lemma decrypt_payload_ok:
  assumes "session_is_valid s" "key_inv cr s" "hmac_sized cr"
    and "payload q = Some pl" "parse_tail pl = Some (nonce_of epoch seq)"
    and "fst (precheck_replay epoch seq d now s)"
    and "traffic_cipher cr (root_key s) (recv_cipher_algorithm s) epoch d = Some c"
    and "encryptor_decrypt cr c q = Some (Inr p)"
  shows "\<exists>s'. session_decrypt_payload cr now d q s = Some (Inr p, s')"
proof -
  obtain s1 where s1: "precheck_replay epoch seq d now s = (True, s1)"
    using assms(6) by (cases "precheck_replay epoch seq d now s") auto
  then obtain g where g: "open_slots now s = (g, s1)"
    using precheck_state [of epoch seq d now s] by (cases "open_slots now s") auto
  note k1 = precheck_key_inv [OF assms(2) s1]
  obtain c' s2 where s2: "get_or_create_encryptor cr epoch d (session_generation s1) False s1 = Some (c', s2)"
      "traffic_cipher cr (root_key s1) (recv_cipher_algorithm s1) epoch d = Some c'"
    by (rule get_or_create_spec [OF k1 assms(3), of epoch d "session_generation s1" False]) simp
  have "c' = c" using s2(2) assms(7) open_slots_frame [OF g] by simp
  have "fst (commit_replay epoch seq d now (s2\<lparr>decrypt_fail_count := 0\<rparr>)) = fst (precheck_replay epoch seq d now s)"
    by (rule commit_agrees [OF g]; subst get_or_create_frame [OF s2(1)]; simp)
  with assms s1 s2(1) \<open>c' = c\<close> show ?thesis
    by (cases "commit_replay epoch seq d now (s2\<lparr>decrypt_fail_count := 0\<rparr>)")
      (auto simp: session_decrypt_payload_def nonce_of_read)
qed

lemma session_new_key_inv: "key_inv cr (session_new now key gen ep sa ra)"
  by (rule key_inv_no_keys) (simp add: session_new_def)

lemma sessions_understand:
  assumes "crypto_correct cr" and "hmac_sized cr"
    and "session_run cr t0 t1 (session_new n0 key g0 e0 alg alg') evsA A" and "sync_settled evsA"
    and "session_run cr u0 u1 (session_new m0 key' g1 e1 alg' alg) evsB B" and "sync_settled evsB"
    and "root_key A = root_key B"
    and "encryption_algorithm_try_from alg \<noteq> Some Xor"
    and "payload_offset p \<le> length (inner p)" and "peer_manager_header_of p = Some h" and "\<not> is_encrypted h"
    and "session_encrypt_payload cr nowA d p A = Some (Inr q, A')"
    and "next_nonce nowA d A = ((epoch, seq, nonce), A1)"
    and "session_is_valid B" and "fst (precheck_replay epoch seq d nowB B)"
  shows "\<exists>B'. session_decrypt_payload cr nowB d q B = Some (Inr p, B')"
proof -
  note keyA = run_key_inv [OF assms(3) session_new_key_inv assms(2,4)]
  note keyB = run_key_inv [OF assms(5) session_new_key_inv assms(2,6)]
  have alg: "send_cipher_algorithm A = alg" "recv_cipher_algorithm B = alg"
    using run_algorithms [OF assms(3)] run_algorithms [OF assms(5)]
    by (simp_all add: same_algorithms_def session_new_def)
  obtain c where c: "nonce = nonce_of epoch seq" "traffic_cipher cr (root_key A) alg epoch d = Some c"
      "encrypt_with_nonce cr [] c (Some (nonce_of epoch seq)) p = Some (Inr q)"
    by (rule encrypt_payload_steps [OF assms(12) keyA assms(2)]) (use assms(13) alg in auto)
  obtain a k where ring: "c = RingCipher a k"
    using c(2) create_encryptor_ring [OF assms(8)] by (fastforce simp: traffic_cipher_def split: bind_splits)
  obtain pl where pl: "payload q = Some pl" "parse_tail pl = Some (nonce_of epoch seq)"
    using ring_sealed_tail [OF assms(1,9-11)] c(3) [unfolded ring encrypt_with_nonce.simps] by blast
  have "packet_cipher (ring_encrypt_with_nonce cr [] a k (Some (nonce_of epoch seq))) (ring_decrypt cr a k)"
    using assms(1) by (rule ring_packet_cipher) simp
  then have "encryptor_decrypt cr c q = Some (Inr p)"
    using packet_cipher.dec_enc [OF _ assms(9-11)] c(3) ring by simp
  moreover have "traffic_cipher cr (root_key B) (recv_cipher_algorithm B) epoch d = Some c"
    using c(2) alg assms(7) by simp
  ultimately show ?thesis
    using decrypt_payload_ok [OF assms(14) keyB assms(2) pl assms(15)] by blast
qed

text \<open>
  C5: two sessions that share a root key understand each other.  Let each of them have gone through any
  interleaving of sending, receiving and key synchronisation steps in which the key cache was emptied
  after the last write of the root key, so that no synchronisation is half done.  If the two now have
  the same root key and the sender's algorithm is an AEAD algorithm (not XOR, whose packets carry no
  tail and are not decrypted), a plain packet that the sender encrypts is decrypted by the receiver to
  the very same packet, provided the receiver is not invalidated and its replay check has not ruled out
  the epoch and sequence number: key derivation, both key caches, nonce and tail formats and the
  two-phase replay check fit together.
\<close>

theorem session_roundtrip:
  assumes "crypto_correct cr" and "hmac_sized cr"
    and "session_run cr t0 t1 (session_new n0 key g0 e0 alg alg') evsA A" and "sync_settled evsA"
    and "session_run cr u0 u1 (session_new m0 key' g1 e1 alg' alg) evsB B" and "sync_settled evsB"
    and "root_key A = root_key B"
    and "encryption_algorithm_try_from alg \<noteq> Some Xor"
    and "payload_offset p \<le> length (inner p)" and "peer_manager_header_of p = Some h" and "\<not> is_encrypted h"
    and "session_encrypt_payload cr nowA d p A = Some (Inr q, A')"
    and "next_nonce nowA d A = ((epoch, seq, nonce), A1)"
    and "session_is_valid B" and "fst (precheck_replay epoch seq d nowB B)"
  shows "\<exists>B'. session_decrypt_payload cr nowB d q B = Some (Inr p, B')"
  by (rule sessions_understand [OF assms])

lemma encrypt_payload_header:
  assumes "crypto_correct cr" "hmac_sized cr" "key_inv cr s"
    and "encryption_algorithm_try_from (send_cipher_algorithm s) \<noteq> Some Xor"
    and "payload_offset p \<le> length (inner p)" "peer_manager_header_of p = Some h" "\<not> is_encrypted h"
    and "session_encrypt_payload cr now d p s = Some (Inr q, s')"
  shows "peer_manager_header_of q = Some (set_encrypted True h)"
proof -
  obtain epoch seq c where c: "traffic_cipher cr (root_key s) (send_cipher_algorithm s) epoch d = Some c"
      "encrypt_with_nonce cr [] c (Some (nonce_of epoch seq)) p = Some (Inr q)"
    by (rule encrypt_payload_steps [OF assms(8,3,2)])
  obtain a k where ring: "c = RingCipher a k"
    using c(1) create_encryptor_ring [OF assms(4)] by (fastforce simp: traffic_cipher_def split: bind_splits)
  show ?thesis
    using ring_sealed_tail [OF assms(1,5-7)] c(2) [unfolded ring encrypt_with_nonce.simps] by blast
qed

section \<open>What the replay protection does not cover\<close>

text \<open>
  An idle receiver forgets what it has seen.  When both slots of a direction were last used more
  than 30 seconds ago and no grace copy is live, every epoch and sequence number passes the replay
  check again, whether or not it was accepted before.
\<close>

lemma idle_session_accepts_anything:
  assumes "sync_rx_grace_expires_at_ms s = 0"
    and "\<forall>x \<in> {fst (dsel d (rx_slots s)), snd (dsel d (rx_slots s))}.
      rx_valid x \<longrightarrow> last_rx_ms x \<noteq> 0 \<and> EVICT_IDLE_AFTER_MS < now - last_rx_ms x"
  shows "fst (check_replay epoch seq d now s)"
proof -
  obtain s1 where s1: "open_slots now s = (False, s1)" "rx_slots s1 = evict_old_rx_slots now (rx_slots s)"
    using assms(1) by (simp add: open_slots_def sync_rx_grace_active_def)
  have "\<not> rx_valid (fst (dsel d (rx_slots s1)))"
    using assms(2) s1(2) by (auto simp: evict_old_rx_slots_def evict_slot_def)
  then have "fst (precheck_replay epoch seq d now s)"
    using s1(1) by (simp add: precheck_replay_def)
  moreover have "snd (precheck_replay epoch seq d now s) = s1"
    using s1(1) by (simp add: precheck_state)
  ultimately show ?thesis
    using commit_agrees [OF s1(1) refl refl refl refl, of epoch seq d]
    by (simp add: check_replay_def split_beta)
qed

text \<open>
  A key synchronisation that keeps the root key forgets every epoch but the two most recent ones.
  Right after it, a packet of any epoch outside the preserved slots passes the replay check, although
  the traffic key of that epoch is unchanged and the packet may have been accepted before.
\<close>

theorem sync_accepts_old_epochs:
  assumes "\<not> epoch_in_slots (dsel d (rx_slots s)) epoch"
  shows "fst (check_replay epoch seq d now (sync_root_key now (root_key s) gen ep True s))
    \<and> hkdf_traffic_key cr (root_key (sync_root_key now (root_key s) gen ep True s)) epoch d
      = hkdf_traffic_key cr (root_key s) epoch d"
proof -
  let ?s = "sync_root_key now (root_key s) gen ep True s"
  obtain guard s1 where o: "open_slots now ?s = (guard, s1)" by (cases "open_slots now ?s")
  have "rx_slots ?s = map_prod (map_prod rx_slot_clear rx_slot_clear) (map_prod rx_slot_clear rx_slot_clear) (rx_slots s)"
    by (simp add: sync_root_key_def sync_rx_def Let_def)
  then have inv: "\<not> rx_valid (fst (dsel d (rx_slots s1)))"
    using open_slots_frame(10) [OF o] by (simp add: evict_old_rx_slots_def evict_slot_def)
  have g: "\<not> epoch_in_slots (dsel d (grace_slots (sync_rx_grace s1))) epoch" if guard
    using o
  proof (cases rule: open_slots_cases)
    case (live g)
    have "grace_slots g = rx_slots s"
      using live(7) by (auto simp: sync_root_key_def sync_rx_def grace_refresh_def Let_def)
    with live(4) assms show ?thesis
      by (auto simp: evict_old_rx_slots_def epoch_in_slots_def slot_for_def evict_slot_def split: if_splits)
  qed (use that in simp)
  have "fst (precheck_replay epoch seq d now ?s)"
    using o inv g by (auto simp: precheck_replay_def Let_def)
  moreover have "snd (precheck_replay epoch seq d now ?s) = s1"
    using o by (simp add: precheck_state)
  ultimately show ?thesis
    using commit_agrees [OF o refl refl refl refl, of epoch seq d]
    by (simp add: check_replay_def split_beta) (simp add: sync_root_key_fields)
qed

text \<open>
  A key synchronisation that keeps the root key can make a sender use a nonce twice under one traffic
  key.  One thread sends with the first nonce of the epoch.  A second thread reads that epoch; before
  it fetches its sequence number, a synchronisation moves the session to a later epoch and restarts the
  counters.  The second thread then gets sequence number 0 for the old epoch: the same direction, epoch
  and sequence number under the same root key.
\<close>

lemma sync_race_reuses_nonce:
  fixes ep :: u32
  assumes "t0 \<le> now" "now \<le> t1"
  shows "\<exists>evs s. session_run cr t0 t1 (session_new now0 key gen ep sa ra) (Issued d ep 0 # evs @ [Issued d ep 0]) s
    \<and> root_key s = key \<and> send_epoch s = ep + 1"
proof -
  let ?s0 = "session_new now0 key gen ep sa ra"
  have r1: "session_run cr t0 t1 ?s0 [Issued d ep 0] (snd (fetch_seq d ?s0))"
    by (rule run_event [OF run_start step_issue]) (simp add: fetch_seq_def session_new_def)
  let ?s2 = "sync_root_key now key (gen + 1) (ep + 1) True (snd (fetch_seq d ?s0))"
  obtain evs where r2: "session_run cr t0 t1 ?s0 (evs @ [Issued d ep 0]) ?s2"
    using sync_is_run [OF r1 assms, of True key "gen + 1" "ep + 1"] by (metis append_Cons append_Nil)
  have "fetch_seq d ?s2 = (0, snd (fetch_seq d ?s2))"
    by (simp add: fetch_seq_def sync_root_key_fields)
  from run_event [OF r2 step_issue [OF this]]
  have r3: "session_run cr t0 t1 ?s0 (Issued d ep 0 # evs @ [Issued d ep 0]) (snd (fetch_seq d ?s2))" .
  have "root_key (snd (fetch_seq d ?s2)) = key" "send_epoch (snd (fetch_seq d ?s2)) = ep + 1"
    by (simp_all add: fetch_seq_def sync_root_key_fields)
  with r3 show ?thesis by blast
qed

text \<open>
  A packet whose header does not carry the encrypted flag passes the decryption of a session
  unchanged and unauthenticated: its last 12 bytes only have to spell an epoch and a sequence number
  the replay check lets through.
\<close>

lemma plaintext_passes_decryption:
  assumes "session_is_valid s" and "key_inv cr s" and "hmac_sized cr"
    and "encryption_algorithm_try_from (recv_cipher_algorithm s) \<noteq> Some Xor"
    and "peer_manager_header_of p = Some h" and "\<not> is_encrypted h"
    and "payload p = Some pl" and "parse_tail pl = Some (nonce_of epoch seq)"
    and "fst (precheck_replay epoch seq d now s)"
  shows "\<exists>s'. session_decrypt_payload cr now d p s = Some (Inr p, s')"
proof -
  obtain c where c: "traffic_cipher cr (root_key s) (recv_cipher_algorithm s) epoch d = Some c"
    using traffic_cipher_total [OF assms(3)] by blast
  then obtain a k where "c = RingCipher a k"
    using create_encryptor_ring [OF assms(4)] by (fastforce simp: traffic_cipher_def split: bind_splits)
  then have "encryptor_decrypt cr c p = Some (Inr p)"
    using assms(5,6) by (simp add: ring_decrypt_def)
  then show ?thesis
    using decrypt_payload_ok [OF assms(1-3,7-9) c] by blast
qed

section \<open>Concrete sessions\<close>

definition toy_session :: session where
  "toy_session = session_new 1 (replicate 32 7) 1 0 ''aes-gcm'' ''aes-gcm''"

lemma toy_hmac_sized: "hmac_sized toy_crypto"
  by (auto simp: hmac_sized_def toy_crypto_def min_def)

lemma toy_open: "open_slots now toy_session = (False, toy_session)"
  by (simp add: open_slots_def sync_rx_grace_active_def toy_session_def session_new_def evict_old_rx_slots_def
      empty_slots_def evict_slot_def rx_slot_default_def)

lemma toy_precheck: "fst (precheck_replay epoch seq d now toy_session)"
  by (simp add: precheck_replay_def toy_open Let_def)
    (simp add: toy_session_def session_new_def empty_slots_def rx_slot_default_def dsel_def)

lemma toy_commit: "fst (commit_replay epoch seq d now toy_session)"
  using commit_agrees [OF toy_open refl refl refl refl] toy_precheck by blast

lemma toy_run: "session_run toy_crypto t0 t1 toy_session [] toy_session"
  by (rule run_start)

text \<open>A session accepts a packet, synchronises to a new key and accepts the same number again: the two
  acceptances are in different eras.\<close>

theorem session_no_replay_witness:
  "\<exists>s evs. session_run toy_crypto 1 30001 (session_new 1 (replicate 32 7) 1 0 ''aes-gcm'' ''aes-gcm'')
        (Accepted AToB 0 5 # evs @ [Accepted AToB 0 5]) s
    \<and> \<not> keeps_grace (Accepted AToB 0 5 # evs @ [Accepted AToB 0 5])
    \<and> current_era (Accepted AToB 0 5 # evs @ [Accepted AToB 0 5]) = [Accepted AToB 0 5, Emptied]
    \<and> distinct (filter is_accepted (current_era (Accepted AToB 0 5 # evs @ [Accepted AToB 0 5])))"
proof -
  obtain s where c: "commit_replay 0 5 AToB 2 toy_session = (True, s)"
    using toy_commit [of 0 5 AToB 2] by (cases "commit_replay 0 5 AToB 2 toy_session") auto
  have r1: "session_run toy_crypto 1 30001 toy_session [Accepted AToB 0 5] s"
    using run_commit [OF toy_run [of 1 30001] _ _ c] by simp
  define s2 where "s2 = sync_root_key 3 (replicate 32 8) 2 1 False s"
  define mid where "mid = [Emptied, Renewed False, Restarted BToA, Restarted AToB, Rekeyed]"
  have r2: "session_run toy_crypto 1 30001 toy_session (mid @ [Accepted AToB 0 5]) s2"
    using sync_is_run [OF r1, of 3 False "replicate 32 8" 2 1] by (simp add: s2_def mid_def)
  have "open_slots 4 s2 = (False, s2)"
    by (rule open_slots_noop [of 4 "[]"])
      (simp_all add: s2_def sync_root_key_def Let_def replay_inv_frame [OF sync_rx_inv])
  then have "fst (precheck_replay 0 5 AToB 4 s2)"
    by (simp add: precheck_replay_def s2_def sync_root_key_def sync_rx_def Let_def)
  with commit_agrees [OF \<open>open_slots 4 s2 = (False, s2)\<close> refl refl refl refl, of 0 5 AToB]
  obtain s3 where c3: "commit_replay 0 5 AToB 4 s2 = (True, s3)"
    by (cases "commit_replay 0 5 AToB 4 s2") auto
  have r3: "session_run toy_crypto 1 30001 (session_new 1 (replicate 32 7) 1 0 ''aes-gcm'' ''aes-gcm'')
      (Accepted AToB 0 5 # mid @ [Accepted AToB 0 5]) s3"
    using run_commit [OF r2 _ _ c3] by (simp add: toy_session_def)
  have k: "\<not> keeps_grace (Accepted AToB 0 5 # mid @ [Accepted AToB 0 5])" by (simp add: mid_def)
  with session_no_replay [OF r3] r3 show ?thesis
    by (intro exI [of _ s3] exI [of _ mid]) (auto simp: EVICT_IDLE_AFTER_MS_def mid_def)
qed

theorem nonces_unique_witness:
  "\<exists>s evs. session_run toy_crypto 1 9 (session_new 1 (replicate 32 7) 1 0 ''aes-gcm'' ''aes-gcm'') evs s
    \<and> length (issued_by BToA evs) = 2
    \<and> distinct (map (\<lambda>ev. nonce_of (ev_epoch ev) (ev_seq ev)) (issued_by BToA evs))"
proof -
  obtain e n b s where 1: "next_nonce 2 BToA toy_session = ((e, n, b), s)" by (cases "next_nonce 2 BToA toy_session") auto
  obtain e' n' b' s' where 2: "next_nonce 3 BToA s = ((e', n', b'), s')" by (cases "next_nonce 3 BToA s") auto
  have "session_run toy_crypto 1 9 toy_session [Issued BToA e' n', Issued BToA e n] s'"
    by (rule run_nonce [OF run_nonce [OF toy_run 1] 2])
  then have r: "session_run toy_crypto 1 9 (session_new 1 (replicate 32 7) 1 0 ''aes-gcm'' ''aes-gcm'')
      [Issued BToA e' n', Issued BToA e n] s'" by (simp add: toy_session_def)
  with nonces_unique [OF r, of BToA] show ?thesis by (intro exI [of _ s'] exI [of _ "[Issued BToA e' n', Issued BToA e n]"]) auto
qed

lemma idle_session_accepts_anything_witness:
  "fst (check_replay 5 7 AToB 40000 (toy_session\<lparr>rx_slots :=
     ((snd (slot_accept 7 1 (fresh_slot 5 1)), rx_slot_default), (rx_slot_default, rx_slot_default))\<rparr>))"
  by (rule idle_session_accepts_anything)
    (simp_all add: toy_session_def session_new_def dsel_def rx_slot_default_def EVICT_IDLE_AFTER_MS_def)

theorem sync_accepts_old_epochs_witness:
  "fst (check_replay 1 7 AToB 100 (sync_root_key 100 (root_key toy_session) 2 4 True (toy_session\<lparr>rx_slots :=
     ((fresh_slot 3 90, fresh_slot 2 80), (rx_slot_default, rx_slot_default))\<rparr>)))"
  using sync_accepts_old_epochs [of AToB "toy_session\<lparr>rx_slots :=
     ((fresh_slot 3 90, fresh_slot 2 80), (rx_slot_default, rx_slot_default))\<rparr>" 1 7 100 2 4]
  by (simp add: epoch_in_slots_def dsel_def)

lemma aes_gcm_not_xor: "encryption_algorithm_try_from ''aes-gcm'' = Some AesGcm"
  by code_simp

definition toy_plain :: zc_packet where
  "toy_plain = \<lparr>inner = replicate 44 0, zc_type = DummyTunnel\<rparr>"

lemma plaintext_passes_decryption_witness:
  "\<exists>s'. session_decrypt_payload toy_crypto 9 AToB toy_plain toy_session = Some (Inr toy_plain, s')"
proof (rule plaintext_passes_decryption)
  have z: "nonce_of 0 0 = replicate 12 0" by (simp add: nonce_of_def to_be_bytes_def numeral_eq_Suc)
  show "parse_tail (replicate 28 0) = Some (nonce_of 0 0)"
    by (simp add: z parse_tail_def ref_from_suffix_def layout_simps aead_tail_read_def)
  show "peer_manager_header_of toy_plain = Some (pm_read (replicate 16 0))"
    by (simp add: toy_plain_def peer_manager_header_of_def header_at_def slice_from_def ref_from_prefix_def layout_simps)
  show "\<not> is_encrypted (pm_read (replicate 16 0))"
    by (simp add: is_encrypted_def has_flag_def ENCRYPTED_def pm_read_def)
qed (simp_all add: toy_precheck toy_hmac_sized toy_plain_def payload_def payload_offset_def slice_from_def layout_simps
    session_is_valid_def aes_gcm_not_xor,
    simp_all add: toy_session_def session_new_def session_new_key_inv [unfolded session_new_def] aes_gcm_not_xor)

lemma encrypt_payload_ok:
  assumes "session_is_valid s" "key_inv cr s" "hmac_sized cr"
    and "next_nonce now d s = ((epoch, seq, n), s1)"
    and "traffic_cipher cr (root_key s) (send_cipher_algorithm s) epoch d = Some c"
    and "encrypt_with_nonce cr [] c (Some n) p = Some (Inr q)"
  shows "\<exists>s'. session_encrypt_payload cr now d p s = Some (Inr q, s')"
proof -
  have k1: "key_inv cr s1" using assms(2) next_nonce_frame [OF assms(4)] by (auto elim: key_inv_frame)
  obtain c' s2 where c: "get_or_create_encryptor cr epoch d (session_generation s1) True s1 = Some (c', s2)"
      "traffic_cipher cr (root_key s1) (send_cipher_algorithm s1) epoch d = Some c'"
    by (rule get_or_create_spec [OF k1 assms(3), of epoch d "session_generation s1" True]) simp
  then have "c' = c" using assms(5) next_nonce_frame [OF assms(4)] by simp
  with assms c(1) show ?thesis by (simp add: session_encrypt_payload_def)
qed

lemma toy_session_fields:
  "session_is_valid toy_session" "key_inv toy_crypto toy_session" "send_cipher_algorithm toy_session = ''aes-gcm''"
  using session_new_key_inv [of toy_crypto 1 "replicate 32 7" 1 0 "''aes-gcm''" "''aes-gcm''"]
  by (simp_all add: toy_session_def) (simp_all add: session_new_def session_is_valid_def)

lemma toy_session_encrypts:
  assumes "payload_offset p \<le> length (inner p)" "peer_manager_header_of p = Some h" "\<not> is_encrypted h"
  shows "\<exists>q s'. session_encrypt_payload toy_crypto now d p toy_session = Some (Inr q, s')"
proof -
  obtain epoch seq A1 where nn: "next_nonce now d toy_session = ((epoch, seq, nonce_of epoch seq), A1)"
    using next_nonce_ex by blast
  obtain c where c: "traffic_cipher toy_crypto (root_key toy_session) ''aes-gcm'' epoch d = Some c"
    using traffic_cipher_total [OF toy_hmac_sized] by blast
  then obtain a k where ring: "c = RingCipher a k"
    using create_encryptor_ring [of "''aes-gcm''"] aes_gcm_not_xor
    by (fastforce simp: traffic_cipher_def split: bind_splits)
  obtain q where q: "encrypt_with_nonce toy_crypto [] c (Some (nonce_of epoch seq)) p = Some (Inr q)"
    using toy_ring_encrypts [OF _ assms, of "[]" "Some (nonce_of epoch seq)"] ring
    by (auto simp: used_nonce_def nonce_of_parts)
  show ?thesis
    using encrypt_payload_ok [OF toy_session_fields(1,2) toy_hmac_sized nn _ q] c toy_session_fields(3) by auto
qed

theorem session_roundtrip_witness:
  "\<exists>q A' B'. session_encrypt_payload toy_crypto 5 AToB toy_packet toy_session = Some (Inr q, A')
    \<and> session_decrypt_payload toy_crypto 6 AToB q toy_session = Some (Inr toy_packet, B')"
proof -
  obtain epoch seq A1 where nn: "next_nonce 5 AToB toy_session = ((epoch, seq, nonce_of epoch seq), A1)"
    using next_nonce_ex by blast
  obtain h where h: "peer_manager_header_of toy_packet = Some h" "\<not> is_encrypted h"
    using toy_packet_header(2) by blast
  obtain q A' where A': "session_encrypt_payload toy_crypto 5 AToB toy_packet toy_session = Some (Inr q, A')"
    using toy_session_encrypts [OF toy_packet_header(1) h] by blast
  note run = run_start [of toy_crypto 0 9 toy_session, unfolded toy_session_def]
  have "encryption_algorithm_try_from ''aes-gcm'' \<noteq> Some Xor" by (simp add: aes_gcm_not_xor)
  from session_roundtrip [OF toy_crypto_correct toy_hmac_sized run _ run _ refl this toy_packet_header(1) h,
      folded toy_session_def, OF _ _ A' nn toy_session_fields(1) toy_precheck] A'
  show ?thesis by auto
qed

end
