(* ===== verification/Peer_Session.thy ===== *)
theory Peer_Session
  imports Secure_Datagram
begin

text \<open>
  Peer sessions and their store (\<^verbatim>\<open>peers/peer_session.rs\<close>), the two ends of the session handshake
  (\<^verbatim>\<open>upsert_responder_session\<close> and \<^verbatim>\<open>apply_initiator_action\<close>), and the tunnel filter of
  \<^verbatim>\<open>peers/peer_conn.rs\<close> that encrypts and decrypts with the session of a connection.

  A session is shared by the store and by connections, so the store keeps addresses into a heap of
  sessions; a session removed from the store stays alive for the connections that hold it.
\<close>

section \<open>State\<close>

record peer_session =
  ps_peer_id :: u32
  peer_static_pubkey :: "bytes option"
  datagram :: session
  ps_invalidated :: bool

record session_key =
  sk_network_name :: string
  sk_peer_id :: u32

record session_store =
  sess_heap :: "peer_session list"
  sessions :: "(session_key, nat) store"

datatype session_action = Join | Sync | Create

datatype store_error =
  AlgoNotSame | PubkeyMismatch | NoLocalSession | GenerationMismatch | MissingRootKey

record upsert_return =
  ret_session :: nat
  ret_action :: session_action
  ret_generation :: u32
  ret_root_key :: "bytes option"
  ret_initial_epoch :: u32

definition store_new :: session_store where
  "store_new = \<lparr>sess_heap = [], sessions = []\<rparr>"

section \<open>Peer sessions\<close>

definition peer_session_new ::
  "nat \<Rightarrow> u32 \<Rightarrow> bytes \<Rightarrow> u32 \<Rightarrow> u32 \<Rightarrow> string \<Rightarrow> string \<Rightarrow> bytes option \<Rightarrow> peer_session" where
  "peer_session_new now peer key generation initial_epoch send_alg recv_alg pubkey = \<lparr>
     ps_peer_id = peer, peer_static_pubkey = pubkey,
     datagram = session_new now key generation initial_epoch send_alg recv_alg, ps_invalidated = False\<rparr>"

definition peer_session_invalidate :: "peer_session \<Rightarrow> peer_session" where
  "peer_session_invalidate p = p\<lparr>ps_invalidated := True, datagram := session_invalidate (datagram p)\<rparr>"

definition peer_session_is_valid :: "peer_session \<Rightarrow> bool" where
  "peer_session_is_valid p \<longleftrightarrow> \<not> ps_invalidated p \<and> session_is_valid (datagram p)"

definition check_or_set_peer_static_pubkey :: "bytes option \<Rightarrow> peer_session \<Rightarrow> store_error + peer_session" where
  "check_or_set_peer_static_pubkey pubkey p = (case pubkey of
       None \<Rightarrow> Inr p
     | Some k \<Rightarrow> (case peer_static_pubkey p of
           Some existing \<Rightarrow> if existing \<noteq> k then Inl PubkeyMismatch else Inr p
         | None \<Rightarrow> Inr (p\<lparr>peer_static_pubkey := Some k\<rparr>)))"

definition peer_session_sync_root_key :: "nat \<Rightarrow> bytes \<Rightarrow> u32 \<Rightarrow> u32 \<Rightarrow> bool \<Rightarrow> peer_session \<Rightarrow> peer_session" where
  "peer_session_sync_root_key now key generation initial_epoch preserve p =
     p\<lparr>datagram := sync_root_key now key generation initial_epoch preserve (datagram p)\<rparr>"

definition dir_for_sender :: "u32 \<Rightarrow> u32 \<Rightarrow> direction" where
  "dir_for_sender sender receiver = (if sender < receiver then AToB else BToA)"

definition peer_session_encrypt ::
  "crypto \<Rightarrow> nat \<Rightarrow> u32 \<Rightarrow> u32 \<Rightarrow> zc_packet \<Rightarrow> peer_session \<Rightarrow> ((session_error + zc_packet) \<times> peer_session) option" where
  "peer_session_encrypt cr now sender receiver pkt p =
     (if \<not> peer_session_is_valid p then Some (Inl SessionInvalidated, p)
      else map_option (\<lambda>(r, s). (r, p\<lparr>datagram := s\<rparr>))
        (session_encrypt_payload cr now (dir_for_sender sender receiver) pkt (datagram p)))"

definition peer_session_decrypt ::
  "crypto \<Rightarrow> nat \<Rightarrow> u32 \<Rightarrow> u32 \<Rightarrow> zc_packet \<Rightarrow> peer_session \<Rightarrow> ((session_error + zc_packet) \<times> peer_session) option" where
  "peer_session_decrypt cr now sender receiver pkt p =
     (if \<not> peer_session_is_valid p then Some (Inl SessionInvalidated, p)
      else map_option (\<lambda>(r, s). (r, p\<lparr>datagram := s\<rparr>))
        (session_decrypt_payload cr now (dir_for_sender sender receiver) pkt (datagram p)))"

section \<open>The store\<close>

definition heap_put :: "nat \<Rightarrow> peer_session \<Rightarrow> session_store \<Rightarrow> session_store" where
  "heap_put a p st = st\<lparr>sess_heap := (sess_heap st)[a := p]\<rparr>"

text \<open>\<^verbatim>\<open>Arc::new\<close> followed by an insertion into the map.\<close>

definition store_alloc :: "session_key \<Rightarrow> peer_session \<Rightarrow> session_store \<Rightarrow> nat \<times> session_store" where
  "store_alloc key p st =
     (let a = length (sess_heap st)
      in (a, st\<lparr>sess_heap := sess_heap st @ [p], sessions := st_insert key a (sessions st)\<rparr>))"

definition store_get :: "session_key \<Rightarrow> session_store \<Rightarrow> nat option \<times> session_store" where
  "store_get key st = (case st_get (sessions st) key of
       None \<Rightarrow> (None, st)
     | Some a \<Rightarrow> if peer_session_is_valid (sess_heap st ! a) then (Some a, st)
                 else (None, st\<lparr>sessions := st_remove key (sessions st)\<rparr>))"

definition store_remove :: "session_key \<Rightarrow> session_store \<Rightarrow> session_store" where
  "store_remove key st = st\<lparr>sessions := st_remove key (sessions st)\<rparr>"

definition insert_session :: "session_key \<Rightarrow> nat \<Rightarrow> session_store \<Rightarrow> session_store" where
  "insert_session key a st = st\<lparr>sessions := st_insert key a (sessions st)\<rparr>"

text \<open>\<open>strong_count a\<close>: the number of owners of the session at \<open>a\<close>, the store included.\<close>

definition evict_unused_sessions :: "(nat \<Rightarrow> nat) \<Rightarrow> session_store \<Rightarrow> session_store" where
  "evict_unused_sessions strong_count st =
     st\<lparr>sessions := st_retain (\<lambda>key a. 1 < strong_count a) (sessions st)\<rparr>"

text \<open>\<open>rnd_key\<close> is the key the random generator delivers.\<close>

definition upsert_responder_session ::
  "nat \<Rightarrow> bytes \<Rightarrow> session_key \<Rightarrow> u32 option \<Rightarrow> string \<Rightarrow> string \<Rightarrow> bytes option \<Rightarrow> session_store \<Rightarrow>
     (store_error + upsert_return) \<times> session_store" where
  "upsert_responder_session now rnd_key key a_generation send_alg recv_alg pubkey st =
     (case (case st_get (sessions st) key of
              None \<Rightarrow> None
            | Some a \<Rightarrow> if peer_session_is_valid (sess_heap st ! a) then Some a else None) of
        None \<Rightarrow>
          let (a, st') = store_alloc key
                (peer_session_new now (sk_peer_id key) rnd_key 1 0 send_alg recv_alg pubkey) st
          in (Inr \<lparr>ret_session = a, ret_action = Create, ret_generation = 1, ret_root_key = Some rnd_key,
                   ret_initial_epoch = 0\<rparr>, st')
      | Some a \<Rightarrow>
          let p = sess_heap st ! a
          in if \<not> check_encrypt_algo_same send_alg recv_alg (datagram p) then (Inl AlgoNotSame, st)
             else (case check_or_set_peer_static_pubkey pubkey p of
                 Inl e \<Rightarrow> (Inl e, st)
               | Inr p1 \<Rightarrow>
                   let st1 = heap_put a p1 st;
                       local_gen = session_generation (datagram p1)
                   in if a_generation = Some local_gen
                      then (Inr \<lparr>ret_session = a, ret_action = Join, ret_generation = local_gen,
                                 ret_root_key = None, ret_initial_epoch = 0\<rparr>, st1)
                      else (Inr \<lparr>ret_session = a, ret_action = Sync, ret_generation = local_gen,
                                 ret_root_key = Some (root_key (datagram p1)),
                                 ret_initial_epoch = next_sync_epoch (datagram p1)\<rparr>, st1)))"

text \<open>The two checks both branches of the initiator make.\<close>

definition check_session ::
  "string \<Rightarrow> string \<Rightarrow> bytes option \<Rightarrow> nat \<Rightarrow> session_store \<Rightarrow> (store_error \<times> session_store) + session_store" where
  "check_session send_alg recv_alg pubkey a st =
     (if \<not> check_encrypt_algo_same send_alg recv_alg (datagram (sess_heap st ! a)) then Inl (AlgoNotSame, st)
      else (case check_or_set_peer_static_pubkey pubkey (sess_heap st ! a) of
          Inl e \<Rightarrow> Inl (e, st)
        | Inr p1 \<Rightarrow> Inr (heap_put a p1 st)))"

definition apply_initiator_action ::
  "nat \<Rightarrow> session_key \<Rightarrow> session_action \<Rightarrow> u32 \<Rightarrow> bytes option \<Rightarrow> u32 \<Rightarrow> string \<Rightarrow> string \<Rightarrow> bytes option \<Rightarrow>
     session_store \<Rightarrow> (store_error + nat) \<times> session_store" where
  "apply_initiator_action now key action b_generation root_key_32 initial_epoch send_alg recv_alg pubkey st =
     (case action of
        Join \<Rightarrow> (case store_get key st of
            (None, st1) \<Rightarrow> (Inl NoLocalSession, st1)
          | (Some a, st1) \<Rightarrow> (case check_session send_alg recv_alg pubkey a st1 of
                Inl (e, st2) \<Rightarrow> (Inl e, st2)
              | Inr st2 \<Rightarrow> if session_generation (datagram (sess_heap st2 ! a)) \<noteq> b_generation
                  then (Inl GenerationMismatch, st2) else (Inr a, st2)))
      | _ \<Rightarrow> (case root_key_32 of
            None \<Rightarrow> (Inl MissingRootKey, st)
          | Some key_bytes \<Rightarrow>
              let st1 = snd (store_get key st);
                  (a, st2) = (case st_get (sessions st1) key of
                      Some a \<Rightarrow> (a, st1)
                    | None \<Rightarrow> store_alloc key (peer_session_new now (sk_peer_id key) key_bytes b_generation
                        initial_epoch send_alg recv_alg pubkey) st1)
              in (case check_session send_alg recv_alg pubkey a st2 of
                  Inl (e, st3) \<Rightarrow> (Inl e, st3)
                | Inr st3 \<Rightarrow> (Inr a, heap_put a
                    (peer_session_sync_root_key now key_bytes b_generation initial_epoch (action = Sync)
                      (sess_heap st3 ! a)) st3))))"

section \<open>The tunnel filter\<close>

record session_filter =
  filter_enabled :: bool
  filter_my_peer_id :: u32
  filter_peer_id :: "u32 option"
  filter_session :: "nat option"

definition filter_new :: "bool \<Rightarrow> session_filter" where
  "filter_new enabled = \<lparr>filter_enabled = enabled, filter_my_peer_id = 0, filter_peer_id = None, filter_session = None\<rparr>"

definition filter_new_with_peer :: "u32 \<Rightarrow> bool \<Rightarrow> session_filter" where
  "filter_new_with_peer my enabled =
     \<lparr>filter_enabled = enabled, filter_my_peer_id = my, filter_peer_id = None, filter_session = None\<rparr>"

definition should_skip_encrypt :: "peer_manager_header \<Rightarrow> bool" where
  "should_skip_encrypt hdr \<longleftrightarrow> packet_type hdr \<in> set (map packet_kind_u8
     [NoiseHandshakeMsg1, NoiseHandshakeMsg2, NoiseHandshakeMsg3, RelayHandshake, RelayHandshakeAck, Ping, Pong])"

datatype tunnel_item = Packet zc_packet | TunnelError | SessionClosed

text \<open>The outcome of a filter is the item passed on, or none when it is dropped.\<close>

definition before_send ::
  "crypto \<Rightarrow> nat \<Rightarrow> session_filter \<Rightarrow> zc_packet \<Rightarrow> peer_session list \<Rightarrow>
     (zc_packet option \<times> peer_session list) option" where
  "before_send cr now f pkt heap =
     (if \<not> filter_enabled f then Some (Some pkt, heap)
      else (case peer_manager_header_of pkt of
          None \<Rightarrow> Some (Some pkt, heap)
        | Some hdr \<Rightarrow>
            if should_skip_encrypt hdr then Some (Some pkt, heap)
            else (case (filter_peer_id f, filter_session f) of
                (Some peer, Some a) \<Rightarrow>
                  if filter_my_peer_id f \<noteq> from_peer_id hdr then Some (Some pkt, heap)
                  else (case peer_session_encrypt cr now (filter_my_peer_id f) peer pkt (heap ! a) of
                      None \<Rightarrow> None
                    | Some (Inl e, p) \<Rightarrow> Some (None, heap[a := p])
                    | Some (Inr pkt', p) \<Rightarrow> Some (Some pkt', heap[a := p]))
              | _ \<Rightarrow> Some (Some pkt, heap))))"

definition after_received ::
  "crypto \<Rightarrow> nat \<Rightarrow> session_filter \<Rightarrow> tunnel_item \<Rightarrow> peer_session list \<Rightarrow>
     (tunnel_item option \<times> peer_session list) option" where
  "after_received cr now f item heap =
     (if \<not> filter_enabled f then Some (Some item, heap)
      else (case item of
          Packet pkt \<Rightarrow> (case peer_manager_header_of pkt of
              None \<Rightarrow> Some (Some item, heap)
            | Some hdr \<Rightarrow>
                if should_skip_encrypt hdr \<or> from_peer_id hdr = 0 then Some (Some item, heap)
                else (case filter_peer_id f of
                    None \<Rightarrow> Some (Some item, heap)
                  | Some peer \<Rightarrow>
                      if from_peer_id hdr \<noteq> peer then Some (Some item, heap)
                      else (case filter_session f of
                          None \<Rightarrow> Some (Some item, heap)
                        | Some a \<Rightarrow>
                            if to_peer_id hdr \<noteq> filter_my_peer_id f then Some (Some item, heap)
                            else (case peer_session_decrypt cr now (from_peer_id hdr) (filter_my_peer_id f) pkt (heap ! a) of
                                None \<Rightarrow> None
                              | Some (Inr pkt', p) \<Rightarrow> Some (Some (Packet pkt'), heap[a := p])
                              | Some (Inl e, p) \<Rightarrow>
                                  Some (if \<not> peer_session_is_valid p then Some SessionClosed else None, heap[a := p])))))
        | _ \<Rightarrow> Some (Some item, heap)))"

section \<open>Store operations keep what they promise\<close>

definition store_ok :: "session_store \<Rightarrow> bool" where
  "store_ok st \<longleftrightarrow> st_wf (sessions st) \<and> (\<forall>k a. st_get (sessions st) k = Some a \<longrightarrow> a < length (sess_heap st))"

text \<open>The heap only grows, and a static key once recorded for a session stays.\<close>

definition heap_extends :: "peer_session list \<Rightarrow> peer_session list \<Rightarrow> bool" where
  "heap_extends h h' \<longleftrightarrow> length h \<le> length h' \<and> (\<forall>a < length h. ps_peer_id (h' ! a) = ps_peer_id (h ! a)
     \<and> (\<forall>k. peer_static_pubkey (h ! a) = Some k \<longrightarrow> peer_static_pubkey (h' ! a) = Some k))"

lemma heap_extends_refl [simp]: "heap_extends h h"
  by (simp add: heap_extends_def)

lemma heap_extends_trans: "heap_extends h1 h2 \<Longrightarrow> heap_extends h2 h3 \<Longrightarrow> heap_extends h1 h3"
  by (auto simp: heap_extends_def)

lemma heap_extends_append: "heap_extends h (h @ [p])"
  by (simp add: heap_extends_def nth_append)

lemma heap_extends_update:
  assumes "a < length h \<Longrightarrow> ps_peer_id p = ps_peer_id (h ! a)"
    and "\<And>k. a < length h \<Longrightarrow> peer_static_pubkey (h ! a) = Some k \<Longrightarrow> peer_static_pubkey p = Some k"
  shows "heap_extends h (h[a := p])"
  using assms by (cases "a < length h") (auto simp: heap_extends_def nth_list_update)

locale store_operation =
  fixes step :: "session_store \<Rightarrow> session_store"
  assumes keeps_ok: "store_ok st \<Longrightarrow> store_ok (step st)"
    and extends: "store_ok st \<Longrightarrow> heap_extends (sess_heap st) (sess_heap (step st))"
begin

lemma iterate_keeps: "store_ok st \<Longrightarrow> store_ok ((step ^^ n) st)"
  by (induction n) (auto simp: keeps_ok)

lemma iterate_extends: "store_ok st \<Longrightarrow> heap_extends (sess_heap st) (sess_heap ((step ^^ n) st))"
  by (induction n) (auto intro: heap_extends_trans extends iterate_keeps)

end

lemma store_alloc_simps:
  assumes "store_alloc key p st = (a, st')"
  shows "a = length (sess_heap st)" "sess_heap st' = sess_heap st @ [p]"
    "sessions st' = st_insert key a (sessions st)"
  using assms by (auto simp: store_alloc_def Let_def)

lemma store_alloc_ok: "store_ok st \<Longrightarrow> store_alloc key p st = (a, st') \<Longrightarrow> store_ok st'"
  by (auto simp: store_ok_def store_alloc_simps store_simps dest: store_alloc_simps intro: less_SucI split: if_splits)

lemma store_alloc_fresh:
  assumes "store_ok st" "store_alloc key (peer_session_new now peer rk gen ep sa ra pk) st = (a, st')"
  shows "store_ok st'" "heap_extends (sess_heap st) (sess_heap st')" "st_get (sessions st') key = Some a"
    "a < length (sess_heap st')" "peer_session_is_valid (sess_heap st' ! a)"
  using store_alloc_ok [OF assms] store_alloc_simps [OF assms(2)]
  by (simp_all add: heap_extends_append store_simps peer_session_is_valid_def session_is_valid_def
      peer_session_new_def session_new_def)

lemma heap_put_ok: "store_ok st \<Longrightarrow> store_ok (heap_put a p st)"
  by (simp add: store_ok_def heap_put_def)

lemma store_get_ok:
  "store_ok st \<Longrightarrow> store_ok (snd (store_get key st))" "sess_heap (snd (store_get key st)) = sess_heap st"
  by (auto simp: store_ok_def store_get_def store_simps split: option.splits if_splits)

lemma store_get_Some:
  assumes "store_get key st = (Some a, st')" "store_ok st"
  shows "st' = st" "a < length (sess_heap st)" "peer_session_is_valid (sess_heap st ! a)"
    "st_get (sessions st) key = Some a"
  using assms by (auto simp: store_ok_def store_get_def split: option.splits if_splits)

lemma pubkey_ok:
  assumes "check_or_set_peer_static_pubkey pk p = Inr p'"
  shows "datagram p' = datagram p" "ps_peer_id p' = ps_peer_id p" "ps_invalidated p' = ps_invalidated p"
    "peer_static_pubkey p = Some k \<Longrightarrow> peer_static_pubkey p' = Some k"
    "pk = Some k \<Longrightarrow> peer_static_pubkey p' = Some k"
  using assms by (auto simp: check_or_set_peer_static_pubkey_def split: option.splits if_splits)

interpretation get: store_operation "\<lambda>st. snd (store_get key st)" for key
  by unfold_locales (simp_all add: store_get_ok)

interpretation remove: store_operation "store_remove key" for key
  by unfold_locales (auto simp: store_remove_def store_ok_def store_simps)

interpretation evict: store_operation "evict_unused_sessions count" for count
  by unfold_locales (auto simp: evict_unused_sessions_def store_ok_def store_simps st.get_retain
      split: option.splits if_splits)

lemma upsert_cases:
  assumes "upsert_responder_session now rk key gen sa ra pk st = (r, st')" "store_ok st"
  obtains (create) a where "store_alloc key (peer_session_new now (sk_peer_id key) rk 1 0 sa ra pk) st = (a, st')"
      "r = Inr \<lparr>ret_session = a, ret_action = Create, ret_generation = 1, ret_root_key = Some rk, ret_initial_epoch = 0\<rparr>"
  | (error) e where "r = Inl e" "st' = st"
  | (known) a p where "st_get (sessions st) key = Some a" "a < length (sess_heap st)"
      "peer_session_is_valid (sess_heap st ! a)" "check_encrypt_algo_same sa ra (datagram (sess_heap st ! a))"
      "check_or_set_peer_static_pubkey pk (sess_heap st ! a) = Inr p" "st' = heap_put a p st"
      "r = Inr (if gen = Some (session_generation (datagram p))
        then \<lparr>ret_session = a, ret_action = Join, ret_generation = session_generation (datagram p),
          ret_root_key = None, ret_initial_epoch = 0\<rparr>
        else \<lparr>ret_session = a, ret_action = Sync, ret_generation = session_generation (datagram p),
          ret_root_key = Some (root_key (datagram p)), ret_initial_epoch = next_sync_epoch (datagram p)\<rparr>)"
proof (cases "case st_get (sessions st) key of None \<Rightarrow> None
    | Some a \<Rightarrow> if peer_session_is_valid (sess_heap st ! a) then Some a else None")
  case None
  with assms(1) create show thesis
    by (auto simp: upsert_responder_session_def Let_def split: prod.splits)
next
  case (Some a)
  then have a: "st_get (sessions st) key = Some a" "peer_session_is_valid (sess_heap st ! a)"
    by (auto split: option.splits if_splits)
  with assms(2) have len: "a < length (sess_heap st)" by (auto simp: store_ok_def)
  note u = assms(1) [unfolded upsert_responder_session_def Some option.case Let_def]
  show thesis
  proof (cases "check_encrypt_algo_same sa ra (datagram (sess_heap st ! a))")
    case False
    with u error show thesis by auto
  next
    case algo: True
    show thesis
    proof (cases "check_or_set_peer_static_pubkey pk (sess_heap st ! a)")
      case (Inl e)
      with u algo error show thesis by auto
    next
      case (Inr p)
      show thesis
        by (rule known [OF a(1) len a(2) algo Inr]) (use u algo Inr in \<open>auto split: if_splits\<close>)
    qed
  qed
qed

interpretation upsert: store_operation "\<lambda>st. snd (upsert_responder_session now rk key gen sa ra pk st)"
  for now rk key gen sa ra pk
proof unfold_locales
  fix st assume ok: "store_ok st"
  obtain r st' where u: "upsert_responder_session now rk key gen sa ra pk st = (r, st')"
    by (cases "upsert_responder_session now rk key gen sa ra pk st")
  show "store_ok (snd (upsert_responder_session now rk key gen sa ra pk st))"
    by (rule upsert_cases [OF u ok]) (use ok u in \<open>simp_all add: store_alloc_ok heap_put_ok\<close>)
  show "heap_extends (sess_heap st) (sess_heap (snd (upsert_responder_session now rk key gen sa ra pk st)))"
    using u ok
  proof (cases rule: upsert_cases)
    case (create a)
    then show ?thesis using u by (simp add: store_alloc_simps heap_extends_append)
  next
    case (known a p)
    then show ?thesis
      using u by (auto simp: heap_put_def intro!: heap_extends_update dest: pubkey_ok)
  qed (simp add: u)
qed

lemma check_session_cases:
  assumes "check_session sa ra pk a st = r"
  obtains (error) e where "r = Inl (e, st)"
  | (ok) p where "r = Inr (heap_put a p st)" "check_encrypt_algo_same sa ra (datagram (sess_heap st ! a))"
      "check_or_set_peer_static_pubkey pk (sess_heap st ! a) = Inr p"
  using assms by (auto simp: check_session_def split: if_splits sum.splits)

text \<open>The session an initiator works on for SYNC and CREATE: the live one, or a new one.\<close>

lemma apply_sync_cases:
  assumes "apply_initiator_action now key act gen (Some rk) ep sa ra pk st = (r, st')" "act \<noteq> Join" "store_ok st"
  obtains (error) e st2 where "r = Inl e" "st' = st2" "store_ok st2" "heap_extends (sess_heap st) (sess_heap st2)"
  | (ok) a p st2 where "r = Inr a" "store_ok st2" "heap_extends (sess_heap st) (sess_heap st2)"
      "st_get (sessions st2) key = Some a" "a < length (sess_heap st2)" "peer_session_is_valid (sess_heap st2 ! a)"
      "check_encrypt_algo_same sa ra (datagram (sess_heap st2 ! a))"
      "check_or_set_peer_static_pubkey pk (sess_heap st2 ! a) = Inr p"
      "st' = heap_put a (peer_session_sync_root_key now rk gen ep (act = Sync) p) st2"
proof -
  define st1 where "st1 = snd (store_get key st)"
  have st1: "store_ok st1" "sess_heap st1 = sess_heap st" using assms(3) store_get_ok by (auto simp: st1_def)
  define pick where "pick = (case st_get (sessions st1) key of Some a \<Rightarrow> (a, st1)
    | None \<Rightarrow> store_alloc key (peer_session_new now (sk_peer_id key) rk gen ep sa ra pk) st1)"
  obtain a st2 where p: "pick = (a, st2)" by (cases pick)
  have v: "peer_session_is_valid (sess_heap st1 ! b)" if "st_get (sessions st1) key = Some b" for b
    using that by (auto simp: st1_def store_get_def store_simps split: option.splits if_splits)
  have st2: "store_ok st2" "heap_extends (sess_heap st) (sess_heap st2)" "st_get (sessions st2) key = Some a"
      "a < length (sess_heap st2)" "peer_session_is_valid (sess_heap st2 ! a)"
    using p st1 v store_alloc_fresh [OF st1(1)] unfolding pick_def
    by (auto simp: store_ok_def split: option.splits)
  have r: "(r, st') = (case check_session sa ra pk a st2 of Inl (e, st3) \<Rightarrow> (Inl e, st3)
      | Inr st3 \<Rightarrow> (Inr a, heap_put a (peer_session_sync_root_key now rk gen ep (act = Sync) (sess_heap st3 ! a)) st3))"
    using assms(1,2) p unfolding apply_initiator_action_def pick_def st1_def
    by (cases act) (auto simp: Let_def split: prod.splits)
  show thesis
  proof (rule check_session_cases [OF refl, of sa ra pk a st2])
    fix e assume "check_session sa ra pk a st2 = Inl (e, st2)"
    with r st2 error show thesis by simp
  next
    fix p assume "check_session sa ra pk a st2 = Inr (heap_put a p st2)"
      "check_encrypt_algo_same sa ra (datagram (sess_heap st2 ! a))"
      "check_or_set_peer_static_pubkey pk (sess_heap st2 ! a) = Inr p"
    with r st2 ok [of a st2 p] show thesis by (simp add: heap_put_def)
  qed
qed

lemma heap_put_extends:
  assumes "a < length (sess_heap st) \<Longrightarrow> ps_peer_id p = ps_peer_id (sess_heap st ! a)"
    and "\<And>k. a < length (sess_heap st) \<Longrightarrow> peer_static_pubkey (sess_heap st ! a) = Some k \<Longrightarrow> peer_static_pubkey p = Some k"
  shows "heap_extends (sess_heap st) (sess_heap (heap_put a p st))"
  using assms heap_extends_update by (simp add: heap_put_def)

lemma sync_fields [simp]:
  "ps_peer_id (peer_session_sync_root_key now rk gen ep b p) = ps_peer_id p"
  "peer_static_pubkey (peer_session_sync_root_key now rk gen ep b p) = peer_static_pubkey p"
  "ps_invalidated (peer_session_sync_root_key now rk gen ep b p) = ps_invalidated p"
  "root_key (datagram (peer_session_sync_root_key now rk gen ep b p)) = rk"
  "session_generation (datagram (peer_session_sync_root_key now rk gen ep b p)) = gen"
  "send_epoch (datagram (peer_session_sync_root_key now rk gen ep b p)) = ep"
  "send_cipher_algorithm (datagram (peer_session_sync_root_key now rk gen ep b p)) = send_cipher_algorithm (datagram p)"
  "recv_cipher_algorithm (datagram (peer_session_sync_root_key now rk gen ep b p)) = recv_cipher_algorithm (datagram p)"
  "invalidated (datagram (peer_session_sync_root_key now rk gen ep b p)) = invalidated (datagram p)"
  by (simp_all add: peer_session_sync_root_key_def sync_root_key_fields)

lemma apply_join_cases:
  assumes "apply_initiator_action now key Join gen rk ep sa ra pk st = (r, st')" "store_ok st"
  obtains (error) e where "r = Inl e" "store_ok st'" "heap_extends (sess_heap st) (sess_heap st')"
  | (ok) a p where "r = Inr a" "st_get (sessions st) key = Some a" "a < length (sess_heap st)"
      "peer_session_is_valid (sess_heap st ! a)" "check_encrypt_algo_same sa ra (datagram (sess_heap st ! a))"
      "check_or_set_peer_static_pubkey pk (sess_heap st ! a) = Inr p"
      "session_generation (datagram p) = gen" "st' = heap_put a p st"
proof (cases "store_get key st")
  case (Pair o1 st1)
  show thesis
  proof (cases o1)
    case None
    have "store_ok st1" "sess_heap st1 = sess_heap st"
      using store_get_ok(1) [OF assms(2), of key] store_get_ok(2) [of key st] Pair by simp_all
    with None Pair assms(1) error show thesis by (auto simp: apply_initiator_action_def)
  next
    case (Some a)
    note g = store_get_Some [OF Pair [unfolded Some] assms(2)]
    show thesis
    proof (rule check_session_cases [OF refl, of sa ra pk a st])
      fix e assume "check_session sa ra pk a st = Inl (e, st)"
      with Pair Some g assms error show thesis by (auto simp: apply_initiator_action_def)
    next
      fix p assume p: "check_session sa ra pk a st = Inr (heap_put a p st)"
        "check_encrypt_algo_same sa ra (datagram (sess_heap st ! a))"
        "check_or_set_peer_static_pubkey pk (sess_heap st ! a) = Inr p"
      have x: "sess_heap (heap_put a p st) ! a = p" using g(2) by (simp add: heap_put_def)
      have "heap_extends (sess_heap st) (sess_heap (heap_put a p st))"
        by (rule heap_put_extends) (use pubkey_ok [OF p(3)] in auto)
      with Pair Some g x p assms(1) heap_put_ok [OF assms(2), of a p] error ok [of a p]
      show thesis by (auto simp: apply_initiator_action_def split: if_splits)
    qed
  qed
qed

interpretation initiate: store_operation "\<lambda>st. snd (apply_initiator_action now key act gen rk ep sa ra pk st)"
  for now key act gen rk ep sa ra pk
proof unfold_locales
  fix st assume ok: "store_ok st"
  obtain r st' where u: "apply_initiator_action now key act gen rk ep sa ra pk st = (r, st')"
    by (cases "apply_initiator_action now key act gen rk ep sa ra pk st")
  have "store_ok st' \<and> heap_extends (sess_heap st) (sess_heap st')"
  proof (cases "act = Join")
    case True
    show ?thesis
      by (rule apply_join_cases [OF u [unfolded True] ok])
        (use ok in \<open>auto simp: heap_put_ok intro!: heap_put_extends dest: pubkey_ok\<close>)
  next
    case False
    show ?thesis
    proof (cases rk)
      case None
      with False u ok show ?thesis by (cases act) (auto simp: apply_initiator_action_def)
    next
      case (Some k)
      show ?thesis
        by (rule apply_sync_cases [OF u [unfolded Some] False ok])
          (auto simp: heap_put_ok intro!: heap_extends_trans [OF _ heap_put_extends] dest: pubkey_ok)
    qed
  qed
  then show "store_ok (snd (apply_initiator_action now key act gen rk ep sa ra pk st))"
    "heap_extends (sess_heap st) (sess_heap (snd (apply_initiator_action now key act gen rk ep sa ra pk st)))"
    by (simp_all add: u)
qed

section \<open>Both ends of a handshake agree\<close>

lemma handshake_agreement:
  assumes "store_ok R" and "store_ok I"
    and "upsert_responder_session now rk keyI gen alg alg' (Some pubI) R = (Inr ret, R')"
    and "ret_action ret \<noteq> Join"
    and "apply_initiator_action now' keyR (ret_action ret) (ret_generation ret) (ret_root_key ret)
      (ret_initial_epoch ret) alg' alg (Some pubR) I = (Inr a, I')"
  shows "let r = sess_heap R' ! ret_session ret; i = sess_heap I' ! a
    in peer_session_is_valid r \<and> peer_session_is_valid i
      \<and> root_key (datagram r) = root_key (datagram i)
      \<and> session_generation (datagram r) = session_generation (datagram i)
      \<and> send_cipher_algorithm (datagram r) = recv_cipher_algorithm (datagram i)
      \<and> recv_cipher_algorithm (datagram r) = send_cipher_algorithm (datagram i)
      \<and> send_epoch (datagram i) = ret_initial_epoch ret
      \<and> peer_static_pubkey r = Some pubI \<and> peer_static_pubkey i = Some pubR"
proof -
  obtain k where k: "ret_root_key ret = Some k" "root_key (datagram (sess_heap R' ! ret_session ret)) = k"
    and R: "peer_session_is_valid (sess_heap R' ! ret_session ret)"
      "session_generation (datagram (sess_heap R' ! ret_session ret)) = ret_generation ret"
      "send_cipher_algorithm (datagram (sess_heap R' ! ret_session ret)) = alg"
      "recv_cipher_algorithm (datagram (sess_heap R' ! ret_session ret)) = alg'"
      "peer_static_pubkey (sess_heap R' ! ret_session ret) = Some pubI"
    using assms(3,1)
  proof (cases rule: upsert_cases)
    case (create b)
    have "sess_heap R' ! b = peer_session_new now (sk_peer_id keyI) rk 1 0 alg alg' (Some pubI)"
      using store_alloc_simps [OF create(1)] by simp
    with create(2) that show ?thesis
      by (simp add: peer_session_new_def session_new_def peer_session_is_valid_def session_is_valid_def)
  next
    case (known b p)
    note pk = pubkey_ok [OF known(5)]
    from known assms(4) have "gen \<noteq> Some (session_generation (datagram p))" by (auto split: if_splits)
    with known pk that show ?thesis
      by (auto simp: heap_put_def peer_session_is_valid_def check_encrypt_algo_same_def)
  qed simp
  show ?thesis
    by (rule apply_sync_cases [OF assms(5) [unfolded k(1)] assms(4,2)])
      (use k R pubkey_ok in \<open>auto simp: Let_def heap_put_def peer_session_is_valid_def session_is_valid_def
        check_encrypt_algo_same_def dest: pubkey_ok\<close>)
qed

text \<open>
  C9: handshake agreement.  When the responder answers CREATE or SYNC and the initiator applies that
  answer, both ends hold valid sessions with the same root key and the same generation, the send
  algorithm of each end is the receive algorithm of the other, the initiator sends in the announced
  epoch, and both ends have the static key they were given on record.
\<close>

theorem handshake_agrees:
  assumes "store_ok R" and "store_ok I"
    and "upsert_responder_session now rk keyI gen alg alg' (Some pubI) R = (Inr ret, R')"
    and "ret_action ret \<noteq> Join"
    and "apply_initiator_action now' keyR (ret_action ret) (ret_generation ret) (ret_root_key ret)
      (ret_initial_epoch ret) alg' alg (Some pubR) I = (Inr a, I')"
  shows "let r = sess_heap R' ! ret_session ret; i = sess_heap I' ! a
    in peer_session_is_valid r \<and> peer_session_is_valid i
      \<and> root_key (datagram r) = root_key (datagram i)
      \<and> session_generation (datagram r) = session_generation (datagram i)
      \<and> send_cipher_algorithm (datagram r) = recv_cipher_algorithm (datagram i)
      \<and> recv_cipher_algorithm (datagram r) = send_cipher_algorithm (datagram i)
      \<and> send_epoch (datagram i) = ret_initial_epoch ret
      \<and> peer_static_pubkey r = Some pubI \<and> peer_static_pubkey i = Some pubR"
  using assms by (rule handshake_agreement)

lemma first_contact:
  assumes "upsert_responder_session t rk key None alg alg (Some pub) store_new = (Inr ret, S)"
  shows "S = \<lparr>sess_heap = [peer_session_new t (sk_peer_id key) rk 1 0 alg alg (Some pub)], sessions = [(key, 0)]\<rparr>"
    and "ret_action ret = Create" "ret_generation ret = 1" "ret_root_key ret = Some rk" "ret_initial_epoch ret = 0"
  using assms
  by (auto simp: upsert_responder_session_def store_alloc_def store_new_def st_get_def st_insert_def Let_def)

lemma create_over_existing:
  assumes "apply_initiator_action u key Create 1 (Some rk') 0 alg alg (Some pub)
      \<lparr>sess_heap = [peer_session_new t (sk_peer_id key) rk 1 0 alg alg (Some pub)], sessions = [(key, 0)]\<rparr> = (Inr a, S)"
  shows "a = 0" "sessions S = [(key, 0)]"
    "sess_heap S = [peer_session_sync_root_key u rk' 1 0 False (peer_session_new t (sk_peer_id key) rk 1 0 alg alg (Some pub))]"
  using assms
  by (auto simp: apply_initiator_action_def store_get_def st_get_def Let_def check_session_def check_encrypt_algo_same_def
      check_or_set_peer_static_pubkey_def heap_put_def peer_session_new_def session_new_def peer_session_is_valid_def
      session_is_valid_def)

text \<open>
  Handshakes that cross give the two ends different keys for good.  When both peers are responder
  and initiator at the same time, each overwrites the key it chose by the one the other chose; since
  every created session has generation 1, both report equal generations and every later handshake is
  answered JOIN, which never compares the keys.
\<close>

lemma crossing_handshakes_swap_keys:
  assumes "upsert_responder_session t rkA keyB None alg alg (Some pubB) store_new = (Inr retA, A1)"
    and "upsert_responder_session t rkB keyA None alg alg (Some pubA) store_new = (Inr retB, B1)"
    and "apply_initiator_action u keyB (ret_action retB) (ret_generation retB) (ret_root_key retB)
      (ret_initial_epoch retB) alg alg (Some pubB) A1 = (Inr a, A2)"
    and "apply_initiator_action u keyA (ret_action retA) (ret_generation retA) (ret_root_key retA)
      (ret_initial_epoch retA) alg alg (Some pubA) B1 = (Inr b, B2)"
  shows "root_key (datagram (sess_heap A2 ! a)) = rkB \<and> root_key (datagram (sess_heap B2 ! b)) = rkA
    \<and> (\<exists>ret st. upsert_responder_session v rk keyB (Some (session_generation (datagram (sess_heap B2 ! b))))
        alg alg (Some pubB) A2 = (Inr ret, st) \<and> ret_action ret = Join)"
proof -
  note f = first_contact [OF assms(1)] first_contact [OF assms(2)]
  note A = create_over_existing [OF assms(3) [unfolded f]]
  note B = create_over_existing [OF assms(4) [unfolded f]]
  have "\<exists>ret st. upsert_responder_session v rk keyB (Some 1) alg alg (Some pubB) A2 = (Inr ret, st) \<and> ret_action ret = Join"
    using A by (simp add: upsert_responder_session_def st_get_def peer_session_is_valid_def session_is_valid_def Let_def
        check_encrypt_algo_same_def check_or_set_peer_static_pubkey_def) (simp add: peer_session_new_def session_new_def)
  with A B show ?thesis by simp
qed

section \<open>Static keys are pinned\<close>

datatype store_op =
    OpUpsert nat bytes session_key "u32 option" string string "bytes option"
  | OpApply nat session_key session_action u32 "bytes option" u32 string string "bytes option"
  | OpGet session_key | OpRemove session_key | OpEvict "nat \<Rightarrow> nat"

fun exec_op :: "store_op \<Rightarrow> session_store \<Rightarrow> session_store" where
  "exec_op (OpUpsert now rk key gen sa ra pk) st = snd (upsert_responder_session now rk key gen sa ra pk st)"
| "exec_op (OpApply now key act gen rk ep sa ra pk) st = snd (apply_initiator_action now key act gen rk ep sa ra pk st)"
| "exec_op (OpGet key) st = snd (store_get key st)"
| "exec_op (OpRemove key) st = store_remove key st"
| "exec_op (OpEvict count) st = evict_unused_sessions count st"

interpretation exec: store_operation "exec_op op" for op
  by (cases op; unfold_locales)
    (simp_all add: upsert.keeps_ok upsert.extends initiate.keeps_ok initiate.extends get.keeps_ok
      get.extends remove.keeps_ok remove.extends evict.keeps_ok evict.extends)

lemma exec_fold: "store_ok st \<Longrightarrow> store_ok (fold exec_op ops st) \<and> heap_extends (sess_heap st) (sess_heap (fold exec_op ops st))"
proof (induction ops arbitrary: st)
  case (Cons op ops)
  from Cons.IH [OF exec.keeps_ok [OF Cons.prems]] exec.extends [OF Cons.prems] show ?case
    by (auto intro: heap_extends_trans)
qed simp

text \<open>
  C19: the static key of a peer is pinned.  Once a session has recorded the static public key of its
  peer, no sequence of store operations changes it, and a handshake that presents another key for
  that session is refused by the responder and by the initiator.
\<close>

theorem static_key_pinned:
  assumes "store_ok st" and "a < length (sess_heap st)" and "peer_static_pubkey (sess_heap st ! a) = Some k"
  shows "let st' = fold exec_op ops st
    in peer_static_pubkey (sess_heap st' ! a) = Some k
      \<and> (st_get (sessions st') key = Some a \<and> peer_session_is_valid (sess_heap st' ! a) \<and> k' \<noteq> k \<longrightarrow>
          (\<exists>e. fst (upsert_responder_session now rk key gen sa ra (Some k') st') = Inl e)
          \<and> (\<exists>e. fst (apply_initiator_action now key act bgen mrk ep sa ra (Some k') st') = Inl e))"
proof -
  let ?st = "fold exec_op ops st"
  have ok: "store_ok ?st" and pin: "peer_static_pubkey (sess_heap ?st ! a) = Some k"
    using exec_fold [OF assms(1), of ops] assms(2,3) by (auto simp: heap_extends_def)
  have ref: "check_or_set_peer_static_pubkey (Some k') (sess_heap ?st ! a) = Inl PubkeyMismatch" if "k' \<noteq> k"
    using pin that by (simp add: check_or_set_peer_static_pubkey_def)
  show ?thesis
    using pin ref
    by (auto simp: Let_def upsert_responder_session_def apply_initiator_action_def store_get_def check_session_def
        split: session_action.splits option.splits)
qed

section \<open>Packets cross the filters unchanged\<close>

lemma set_encrypted_fields [simp]:
  "from_peer_id (set_encrypted b h) = from_peer_id h" "to_peer_id (set_encrypted b h) = to_peer_id h"
  "packet_type (set_encrypted b h) = packet_type h"
  by (simp_all add: set_encrypted_def set_flag_def)

lemma before_send_encrypts:
  assumes "before_send cr now f p heap = Some (Some q, heap')" "filter_enabled f" "filter_peer_id f = Some peer"
    "filter_session f = Some a" "peer_manager_header_of p = Some h" "\<not> should_skip_encrypt h"
    "from_peer_id h = filter_my_peer_id f" "peer_session_is_valid (heap ! a)"
  shows "\<exists>s'. session_encrypt_payload cr now (dir_for_sender (filter_my_peer_id f) peer) p (datagram (heap ! a))
    = Some (Inr q, s')"
  using assms by (auto simp: before_send_def peer_session_encrypt_def split: option.splits sum.splits prod.splits)

text \<open>
  C14: packets cross a pair of session filters unchanged.  Let both ends of a connection hold valid
  sessions with the same root key, each after any interleaving of sending, receiving and completed key
  synchronisations, and let the sender's algorithm be an AEAD algorithm (not XOR).  A data packet from
  one peer to the other that the sending filter lets out is handed on by the receiving filter as the
  identical packet, as long as the receiver's replay check lets its epoch and sequence number through.
\<close>

theorem filter_roundtrip:
  assumes "crypto_correct cr" and "hmac_sized cr"
    and "session_run cr t0 t1 (session_new n0 key g0 e0 alg alg') evsA (datagram (heapA ! a))" and "sync_settled evsA"
    and "session_run cr u0 u1 (session_new m0 key' g1 e1 alg' alg) evsB (datagram (heapB ! b))" and "sync_settled evsB"
    and "root_key (datagram (heapA ! a)) = root_key (datagram (heapB ! b))"
    and "encryption_algorithm_try_from alg \<noteq> Some Xor"
    and "fA = \<lparr>filter_enabled = True, filter_my_peer_id = x, filter_peer_id = Some y, filter_session = Some a\<rparr>"
    and "fB = \<lparr>filter_enabled = True, filter_my_peer_id = y, filter_peer_id = Some x, filter_session = Some b\<rparr>"
    and "peer_session_is_valid (heapA ! a)" and "peer_session_is_valid (heapB ! b)"
    and "payload_offset p \<le> length (inner p)" and "peer_manager_header_of p = Some h" and "\<not> is_encrypted h"
    and "from_peer_id h = x" and "to_peer_id h = y" and "x \<noteq> 0" and "\<not> should_skip_encrypt h"
    and "before_send cr nowA fA p heapA = Some (Some q, heapA')"
    and "next_nonce nowA (dir_for_sender x y) (datagram (heapA ! a)) = ((epoch, seq, nonce), A1)"
    and "fst (precheck_replay epoch seq (dir_for_sender x y) nowB (datagram (heapB ! b)))"
  shows "\<exists>heapB'. after_received cr nowB fB (Packet q) heapB = Some (Some (Packet p), heapB')"
proof -
  obtain A' where enc: "session_encrypt_payload cr nowA (dir_for_sender x y) p (datagram (heapA ! a)) = Some (Inr q, A')"
    using before_send_encrypts [OF assms(20), of y a h] assms(9,11,14,16,19) by auto
  have vB: "session_is_valid (datagram (heapB ! b))" using assms(12) by (simp add: peer_session_is_valid_def)
  obtain B' where dec: "session_decrypt_payload cr nowB (dir_for_sender x y) q (datagram (heapB ! b)) = Some (Inr p, B')"
    using sessions_understand [OF assms(1-8,13-15) enc assms(21) vB assms(22)] by blast
  have "send_cipher_algorithm (datagram (heapA ! a)) = alg"
    using run_algorithms [OF assms(3)] by (simp add: same_algorithms_def session_new_def)
  then have "peer_manager_header_of q = Some (set_encrypted True h)"
    using encrypt_payload_header [OF assms(1,2) run_key_inv [OF assms(3) session_new_key_inv assms(2,4)] _ assms(13-15) enc]
      assms(8) by simp
  then show ?thesis
    using assms(9,10,12,16-19) dec
    by (simp add: after_received_def peer_session_decrypt_def should_skip_encrypt_def)
qed

section \<open>Concrete stores\<close>

definition toy_key :: "u32 \<Rightarrow> session_key" where
  "toy_key peer = \<lparr>sk_network_name = ''net'', sk_peer_id = peer\<rparr>"

lemma store_new_ok: "store_ok store_new"
  by (simp add: store_ok_def store_new_def store_simps)

lemma upsert_new:
  "upsert_responder_session t rk key gen sa ra pk store_new =
     (Inr \<lparr>ret_session = 0, ret_action = Create, ret_generation = 1, ret_root_key = Some rk, ret_initial_epoch = 0\<rparr>,
      \<lparr>sess_heap = [peer_session_new t (sk_peer_id key) rk 1 0 sa ra pk], sessions = [(key, 0)]\<rparr>)"
  by (simp add: upsert_responder_session_def store_alloc_def store_new_def st_get_def st_insert_def Let_def)

lemma apply_create_new:
  "apply_initiator_action t key Create gen (Some rk) ep sa ra (Some pk) store_new =
     (Inr 0, \<lparr>sess_heap = [peer_session_sync_root_key t rk gen ep False
        (peer_session_new t (sk_peer_id key) rk gen ep sa ra (Some pk))], sessions = [(key, 0)]\<rparr>)"
  by (simp add: apply_initiator_action_def store_get_def store_alloc_def store_new_def st_get_def st_insert_def Let_def
      check_session_def check_encrypt_algo_same_def check_or_set_peer_static_pubkey_def heap_put_def
      peer_session_new_def session_new_def)

theorem handshake_agrees_witness:
  "\<exists>ret R' a I'. upsert_responder_session 1 [7] (toy_key 2) None ''x'' ''y'' (Some [1]) store_new = (Inr ret, R')
    \<and> apply_initiator_action 2 (toy_key 3) Create 1 (Some [7]) 0 ''y'' ''x'' (Some [2]) store_new = (Inr a, I')
    \<and> root_key (datagram (sess_heap R' ! ret_session ret)) = root_key (datagram (sess_heap I' ! a))"
proof -
  obtain ret R' where u: "upsert_responder_session 1 [7] (toy_key 2) None ''x'' ''y'' (Some [1]) store_new = (Inr ret, R')"
    and ret: "ret_action ret = Create" "ret_generation ret = 1" "ret_root_key ret = Some [7]" "ret_initial_epoch ret = 0"
    by (simp add: upsert_new)
  obtain a I' where ap: "apply_initiator_action 2 (toy_key 3) Create 1 (Some [7]) 0 ''y'' ''x'' (Some [2]) store_new
      = (Inr a, I')"
    by (simp add: apply_create_new)
  from handshake_agrees [OF store_new_ok store_new_ok u, unfolded ret, OF _ ap] u ap show ?thesis
    by (auto simp: Let_def)
qed

lemma crossing_handshakes_swap_keys_witness:
  "\<exists>retA A1 retB B1 a A2 b B2.
      upsert_responder_session 1 [1] (toy_key 2) None ''x'' ''x'' (Some [12]) store_new = (Inr retA, A1)
    \<and> upsert_responder_session 1 [2] (toy_key 3) None ''x'' ''x'' (Some [11]) store_new = (Inr retB, B1)
    \<and> apply_initiator_action 2 (toy_key 2) Create 1 (Some [2]) 0 ''x'' ''x'' (Some [12]) A1 = (Inr a, A2)
    \<and> apply_initiator_action 2 (toy_key 3) Create 1 (Some [1]) 0 ''x'' ''x'' (Some [11]) B1 = (Inr b, B2)
    \<and> root_key (datagram (sess_heap A2 ! a)) = [2] \<and> root_key (datagram (sess_heap B2 ! b)) = [1]"
proof -
  obtain retA A1 where uA: "upsert_responder_session 1 [1] (toy_key 2) None ''x'' ''x'' (Some [12]) store_new = (Inr retA, A1)"
    by (simp add: upsert_new)
  obtain retB B1 where uB: "upsert_responder_session 1 [2] (toy_key 3) None ''x'' ''x'' (Some [11]) store_new = (Inr retB, B1)"
    by (simp add: upsert_new)
  note f = first_contact [OF uA] first_contact [OF uB]
  have ap: "\<exists>a S. apply_initiator_action 2 key Create 1 (Some rk') 0 ''x'' ''x'' (Some pub)
      \<lparr>sess_heap = [peer_session_new 1 (sk_peer_id key) rk 1 0 ''x'' ''x'' (Some pub)], sessions = [(key, 0)]\<rparr> = (Inr a, S)"
    for key rk rk' pub
    by (simp add: apply_initiator_action_def store_get_def st_get_def Let_def check_session_def check_encrypt_algo_same_def
        check_or_set_peer_static_pubkey_def peer_session_new_def session_new_def peer_session_is_valid_def session_is_valid_def)
  obtain a A2 where aA: "apply_initiator_action 2 (toy_key 2) Create 1 (Some [2]) 0 ''x'' ''x'' (Some [12]) A1 = (Inr a, A2)"
    using ap f(1) by blast
  obtain b B2 where aB: "apply_initiator_action 2 (toy_key 3) Create 1 (Some [1]) 0 ''x'' ''x'' (Some [11]) B1 = (Inr b, B2)"
    using ap f(6) by blast
  from crossing_handshakes_swap_keys [OF uA uB, unfolded f(2-5,7-10), OF aA aB] uA aA uB aB show ?thesis by blast
qed

theorem static_key_pinned_witness:
  "peer_static_pubkey (sess_heap (fold exec_op [OpRemove (toy_key 2), OpUpsert 5 [8] (toy_key 2) None ''x'' ''y'' (Some [9])]
      (snd (upsert_responder_session 1 [7] (toy_key 2) None ''x'' ''y'' (Some [1]) store_new))) ! 0) = Some [1]"
proof -
  let ?st = "snd (upsert_responder_session 1 [7] (toy_key 2) None ''x'' ''y'' (Some [1]) store_new)"
  have "0 < length (sess_heap ?st)" "peer_static_pubkey (sess_heap ?st ! 0) = Some [1]"
    by (simp_all add: upsert_new peer_session_new_def)
  from static_key_pinned [OF upsert.keeps_ok [OF store_new_ok] this,
      where ops = "[OpRemove (toy_key 2), OpUpsert 5 [8] (toy_key 2) None ''x'' ''y'' (Some [9])]"]
  show ?thesis unfolding Let_def by blast
qed

definition toy_data :: zc_packet where
  "toy_data = \<lparr>inner = [3, 0, 0, 0, 4, 0, 0, 0, 1] @ replicate 7 0 @ [1, 2, 3], zc_type = DummyTunnel\<rparr>"

lemma toy_data_header:
  "payload_offset toy_data \<le> length (inner toy_data)"
  "\<exists>h. peer_manager_header_of toy_data = Some h \<and> \<not> is_encrypted h \<and> from_peer_id h = 3 \<and> to_peer_id h = 4
    \<and> \<not> should_skip_encrypt h"
  by (simp_all add: toy_data_def payload_offset_def layout_simps peer_manager_header_of_def header_at_def
      slice_from_def ref_from_prefix_def pm_read_def is_encrypted_def has_flag_def ENCRYPTED_def should_skip_encrypt_def)

theorem filter_roundtrip_witness:
  "\<exists>q heapA' heapB'. before_send toy_crypto 5 \<lparr>filter_enabled = True, filter_my_peer_id = 3, filter_peer_id = Some 4,
        filter_session = Some 0\<rparr> toy_data
        [\<lparr>ps_peer_id = 4, peer_static_pubkey = None, datagram = toy_session, ps_invalidated = False\<rparr>] = Some (Some q, heapA')
    \<and> after_received toy_crypto 6 \<lparr>filter_enabled = True, filter_my_peer_id = 4, filter_peer_id = Some 3,
        filter_session = Some 0\<rparr> (Packet q)
        [\<lparr>ps_peer_id = 3, peer_static_pubkey = None, datagram = toy_session, ps_invalidated = False\<rparr>]
      = Some (Some (Packet toy_data), heapB')"
proof -
  let ?heap = "\<lambda>peer. [\<lparr>ps_peer_id = peer, peer_static_pubkey = None, datagram = toy_session, ps_invalidated = False\<rparr>]"
  let ?f = "\<lambda>me peer. \<lparr>filter_enabled = True, filter_my_peer_id = me, filter_peer_id = Some peer, filter_session = Some 0\<rparr>"
  obtain h where h: "peer_manager_header_of toy_data = Some h" "\<not> is_encrypted h" "from_peer_id h = 3" "to_peer_id h = 4"
      "\<not> should_skip_encrypt h"
    using toy_data_header(2) by blast
  obtain q s' where "session_encrypt_payload toy_crypto 5 (dir_for_sender 3 4) toy_data toy_session = Some (Inr q, s')"
    using toy_session_encrypts [OF toy_data_header(1) h(1,2)] by blast
  then obtain heapA' where send: "before_send toy_crypto 5 (?f 3 4) toy_data (?heap 4) = Some (Some q, heapA')"
    using h toy_session_fields(1) by (simp add: before_send_def peer_session_encrypt_def peer_session_is_valid_def)
  obtain epoch seq A1 where nn: "next_nonce 5 (dir_for_sender 3 4) toy_session = ((epoch, seq, nonce_of epoch seq), A1)"
    using next_nonce_ex by blast
  have run: "session_run toy_crypto 0 9 (session_new 1 (replicate 32 7) 1 0 ''aes-gcm'' ''aes-gcm'') [] (datagram (?heap peer ! 0))" for peer
    using run_start [of toy_crypto 0 9 toy_session] by (simp add: toy_session_def)
  have "peer_session_is_valid (?heap peer ! 0)" for peer
    using toy_session_fields(1) by (simp add: peer_session_is_valid_def)
  note v = this [of 4] this [of 3]
  have x: "encryption_algorithm_try_from ''aes-gcm'' \<noteq> Some Xor" by (simp add: aes_gcm_not_xor)
  from filter_roundtrip [OF toy_crypto_correct toy_hmac_sized run [of 4] _ run [of 3] _ _ x refl refl v toy_data_header(1)
      h(1-4) _ h(5) send] nn toy_precheck send
  show ?thesis by auto
qed

end
