(* ===== verification/Acl_Rules.thy ===== *)
theory Acl_Rules
  imports Prelude
begin

text \<open>
  The configuration side of the access control lists (\<^verbatim>\<open>common/acl_processor.rs\<close> and
  \<^verbatim>\<open>proto/acl.proto\<close>): the configuration messages, port specifications, the conversion of
  configured rules into lookup rules, the matching of a packet against a rule, and the builder that
  turns port whitelists into a chain.

  CIDR parsing and membership come from the \<^verbatim>\<open>cidr\<close> crate; they are the fields of the parameter
  record \<open>cidr_lib\<close>.
\<close>

section \<open>Configuration messages\<close>

datatype protocol = Unspecified | Tcp | Udp | Icmp | IcmPv6 | Any
datatype action = Noop | Allow | Drop
datatype chain_type = UnspecifiedChain | Inbound | Outbound | Forward

fun protocol_i32 :: "protocol \<Rightarrow> int" where
  "protocol_i32 Unspecified = 0" | "protocol_i32 Tcp = 1" | "protocol_i32 Udp = 2"
| "protocol_i32 Icmp = 3" | "protocol_i32 IcmPv6 = 4" | "protocol_i32 Any = 5"

fun action_i32 :: "action \<Rightarrow> int" where
  "action_i32 Noop = 0" | "action_i32 Allow = 1" | "action_i32 Drop = 2"

fun chain_type_i32 :: "chain_type \<Rightarrow> int" where
  "chain_type_i32 UnspecifiedChain = 0" | "chain_type_i32 Inbound = 1" | "chain_type_i32 Outbound = 2"
| "chain_type_i32 Forward = 3"

text \<open>Reading an enumeration field gives the default value for an unknown number.\<close>

definition protocol_of :: "int \<Rightarrow> protocol" where
  "protocol_of i = (case find (\<lambda>p. protocol_i32 p = i) [Tcp, Udp, Icmp, IcmPv6, Any] of
     None \<Rightarrow> Unspecified | Some p \<Rightarrow> p)"

definition action_of :: "int \<Rightarrow> action" where
  "action_of i = (case find (\<lambda>a. action_i32 a = i) [Allow, Drop] of None \<Rightarrow> Noop | Some a \<Rightarrow> a)"

definition chain_type_of :: "int \<Rightarrow> chain_type" where
  "chain_type_of i = (case find (\<lambda>c. chain_type_i32 c = i) [Inbound, Outbound, Forward] of
     None \<Rightarrow> UnspecifiedChain | Some c \<Rightarrow> c)"

lemma protocol_roundtrip [simp]: "protocol_of (protocol_i32 p) = p"
  by (cases p) (simp_all add: protocol_of_def)

lemma action_roundtrip [simp]: "action_of (action_i32 a) = a"
  by (cases a) (simp_all add: action_of_def)

lemma chain_type_roundtrip [simp]: "chain_type_of (chain_type_i32 c) = c"
  by (cases c) (simp_all add: chain_type_of_def)

lemma protocol_i32_inject [simp]: "protocol_i32 p = protocol_i32 q \<longleftrightarrow> p = q"
  by (metis protocol_roundtrip)

record acl_rule =
  rule_name :: string
  rule_description :: string
  rule_priority :: u32
  rule_enabled :: bool
  rule_protocol :: int
  rule_ports :: "string list"
  rule_source_ips :: "string list"
  rule_destination_ips :: "string list"
  rule_source_ports :: "string list"
  rule_action :: int
  rule_rate_limit :: u32
  rule_burst_limit :: u32
  rule_stateful :: bool
  rule_source_groups :: "string list"
  rule_destination_groups :: "string list"

record acl_chain =
  chain_name :: string
  chain_kind :: int
  chain_description :: string
  chain_enabled :: bool
  chain_rules :: "acl_rule list"
  chain_default_action :: int

record acl_v1 =
  v1_chains :: "acl_chain list"
  v1_group :: "(string list \<times> string list) option"

type_synonym acl = "acl_v1 option"

section \<open>Ports\<close>

text \<open>\<^verbatim>\<open>char::is_whitespace\<close> on the code points below 256.\<close>

definition is_whitespace :: "char \<Rightarrow> bool" where
  "is_whitespace c \<longleftrightarrow> (let n = (of_char c :: nat) in (9 \<le> n \<and> n \<le> 13) \<or> n = 32 \<or> n = 133 \<or> n = 160)"

definition trim :: "string \<Rightarrow> string" where
  "trim s = rev (dropWhile is_whitespace (rev (dropWhile is_whitespace s)))"

definition digit_value :: "char \<Rightarrow> nat option" where
  "digit_value c = (let n = (of_char c :: nat) in if 48 \<le> n \<and> n \<le> 57 then Some (n - 48) else None)"

text \<open>The loop of \<^verbatim>\<open>u16::from_str\<close>: digit by digit, with the overflow checks.\<close>

fun parse_digits :: "nat \<Rightarrow> string \<Rightarrow> nat option" where
  "parse_digits acc [] = Some acc"
| "parse_digits acc (c # cs) = (case digit_value c of
     None \<Rightarrow> None
   | Some d \<Rightarrow> if 65535 < acc * 10 + d then None else parse_digits (acc * 10 + d) cs)"

definition parse_u16 :: "string \<Rightarrow> u16 option" where
  "parse_u16 s = (case s of
       [] \<Rightarrow> None
     | c # cs \<Rightarrow> let ds = (if c = CHR ''+'' then cs else s)
                 in if ds = [] then None else map_option of_nat (parse_digits 0 ds))"

definition split_once :: "char \<Rightarrow> string \<Rightarrow> (string \<times> string) option" where
  "split_once sep s = (case dropWhile (\<lambda>c. c \<noteq> sep) s of
     [] \<Rightarrow> None | _ # rest \<Rightarrow> Some (takeWhile (\<lambda>c. c \<noteq> sep) s, rest))"

fun split_all :: "char \<Rightarrow> string \<Rightarrow> string \<Rightarrow> string list" where
  "split_all sep cur [] = [rev cur]"
| "split_all sep cur (c # cs) = (if c = sep then rev cur # split_all sep [] cs else split_all sep (c # cur) cs)"

definition parse_port_range :: "string \<Rightarrow> (u16 \<times> u16) option" where
  "parse_port_range s = (case split_once (CHR ''-'') s of
       Some (a, b) \<Rightarrow> do { start \<leftarrow> parse_u16 (trim a); end' \<leftarrow> parse_u16 (trim b); Some (start, end') }
     | None \<Rightarrow> do { port \<leftarrow> parse_u16 (trim s); Some (port, port) })"

definition parse_port_start :: "string list \<Rightarrow> u16 option" where
  "parse_port_start ss = (let xs = List.map_filter (\<lambda>s. map_option fst (parse_port_range s)) ss
     in if xs = [] then None else Some (foldr min xs (- 1)))"

definition parse_port_end :: "string list \<Rightarrow> u16 option" where
  "parse_port_end ss = (let xs = List.map_filter (\<lambda>s. map_option snd (parse_port_range s)) ss
     in if xs = [] then None else Some (foldr max xs 0))"

text \<open>Decimal digits, as \<^verbatim>\<open>u16::to_string\<close> prints them.\<close>

fun show_nat :: "nat \<Rightarrow> string" where
  "show_nat n = (if n < 10 then [char_of (48 + n)] else show_nat (n div 10) @ [char_of (48 + n mod 10)])"

definition show_u16 :: "u16 \<Rightarrow> string" where
  "show_u16 p = show_nat (unat p)"

declare show_nat.simps [simp del]

section \<open>Lookup rules\<close>

datatype ip_addr = IpV4 u32 | IpV6 u128
datatype ip_cidr = CidrV4 u32 nat | CidrV6 u128 nat

record cidr_lib =
  cidr_parse :: "string \<Rightarrow> ip_cidr option"
  cidr4_contains :: "u32 \<Rightarrow> nat \<Rightarrow> u32 \<Rightarrow> bool"
  cidr6_contains :: "u128 \<Rightarrow> nat \<Rightarrow> u128 \<Rightarrow> bool"

text \<open>The counters of a rule are shared between the rule and cached results, and are updated in
  place: rules and cache entries hold the address of a counter cell.\<close>

record rule_stats =
  rs_rule :: "acl_rule option"
  packet_count :: u64
  byte_count :: u64

record fast_rule =
  fr_priority :: u32
  fr_protocol :: protocol
  src_ip_ranges :: "ip_cidr list"
  dst_ip_ranges :: "ip_cidr list"
  src_port_ranges :: "(u16 \<times> u16) list"
  dst_port_ranges :: "(u16 \<times> u16) list"
  fr_source_groups :: "string list"
  fr_destination_groups :: "string list"
  fr_action :: action
  fr_enabled :: bool
  fr_stateful :: bool
  fr_rate_limit :: u32
  fr_burst_limit :: u32
  fr_stats :: nat

record packet_info =
  src_ip :: ip_addr
  dst_ip :: ip_addr
  src_port :: "u16 option"
  dst_port :: "u16 option"
  pkt_protocol :: protocol
  packet_size :: nat
  src_groups :: "string list"
  dst_groups :: "string list"

definition convert_ip_inet_to_cidr :: "cidr_lib \<Rightarrow> string \<Rightarrow> ip_cidr option" where
  "convert_ip_inet_to_cidr lib s = cidr_parse lib s"

definition convert_to_fast_lookup_rule :: "cidr_lib \<Rightarrow> nat \<Rightarrow> acl_rule \<Rightarrow> fast_rule" where
  "convert_to_fast_lookup_rule lib addr r = \<lparr>
     fr_priority = rule_priority r,
     fr_protocol = protocol_of (rule_protocol r),
     src_ip_ranges = List.map_filter (convert_ip_inet_to_cidr lib) (rule_source_ips r),
     dst_ip_ranges = List.map_filter (convert_ip_inet_to_cidr lib) (rule_destination_ips r),
     src_port_ranges = List.map_filter parse_port_range (rule_source_ports r),
     dst_port_ranges = List.map_filter parse_port_range (rule_ports r),
     fr_source_groups = rule_source_groups r,
     fr_destination_groups = rule_destination_groups r,
     fr_action = action_of (rule_action r),
     fr_enabled = rule_enabled r,
     fr_stateful = rule_stateful r,
     fr_rate_limit = rule_rate_limit r,
     fr_burst_limit = rule_burst_limit r,
     fr_stats = addr\<rparr>"

fun cidr_contains :: "cidr_lib \<Rightarrow> ip_cidr \<Rightarrow> ip_addr \<Rightarrow> bool" where
  "cidr_contains lib (CidrV4 a n) (IpV4 ip) = cidr4_contains lib a n ip"
| "cidr_contains lib (CidrV6 a n) (IpV6 ip) = cidr6_contains lib a n ip"
| "cidr_contains lib _ _ = False"

definition ports_match :: "(u16 \<times> u16) list \<Rightarrow> u16 option \<Rightarrow> bool" where
  "ports_match ranges port = (case port of
       None \<Rightarrow> True
     | Some p \<Rightarrow> ranges = [] \<or> list_ex (\<lambda>(start, end'). start \<le> p \<and> p \<le> end') ranges)"

definition groups_match :: "string list \<Rightarrow> string list \<Rightarrow> bool" where
  "groups_match wanted have' \<longleftrightarrow> wanted = [] \<or> list_ex (\<lambda>g. g \<in> set wanted) have'"

definition ips_match :: "cidr_lib \<Rightarrow> ip_cidr list \<Rightarrow> ip_addr \<Rightarrow> bool" where
  "ips_match lib ranges ip \<longleftrightarrow> ranges = [] \<or> list_ex (\<lambda>c. cidr_contains lib c ip) ranges"

definition rule_matches :: "cidr_lib \<Rightarrow> fast_rule \<Rightarrow> packet_info \<Rightarrow> bool" where
  "rule_matches lib r p \<longleftrightarrow>
     (if fr_protocol r \<noteq> Any \<and> protocol_i32 (fr_protocol r) \<noteq> protocol_i32 (pkt_protocol p) then False
      else if \<not> ips_match lib (src_ip_ranges r) (src_ip p) then False
      else if \<not> ips_match lib (dst_ip_ranges r) (dst_ip p) then False
      else if \<not> ports_match (src_port_ranges r) (src_port p) then False
      else if \<not> ports_match (dst_port_ranges r) (dst_port p) then False
      else if \<not> groups_match (fr_source_groups r) (src_groups p) then False
      else if \<not> groups_match (fr_destination_groups r) (dst_groups p) then False
      else True)"

section \<open>Building the rule vectors\<close>

definition new_cell :: "acl_rule option \<Rightarrow> rule_stats" where
  "new_cell r = \<lparr>rs_rule = r, packet_count = 0, byte_count = 0\<rparr>"

fun alloc_rules :: "cidr_lib \<Rightarrow> acl_rule list \<Rightarrow> rule_stats list \<Rightarrow> fast_rule list \<times> rule_stats list" where
  "alloc_rules lib [] cells = ([], cells)"
| "alloc_rules lib (r # rs) cells =
     (let fr = convert_to_fast_lookup_rule lib (length cells) r;
          (frs, cells') = alloc_rules lib rs (cells @ [new_cell (Some r)])
      in (fr # frs, cells'))"

text \<open>A stable sort with the highest priority first.\<close>

definition sort_rules :: "fast_rule list \<Rightarrow> fast_rule list" where
  "sort_rules = sort_key (\<lambda>r. - int (unat (fr_priority r)))"

type_synonym rule_vectors = "fast_rule list \<times> fast_rule list \<times> fast_rule list"

fun build_chains :: "cidr_lib \<Rightarrow> acl_chain list \<Rightarrow> rule_vectors \<Rightarrow> rule_stats list \<Rightarrow> rule_vectors \<times> rule_stats list" where
  "build_chains lib [] vs cells = (vs, cells)"
| "build_chains lib (c # cs) (inb, outb, fwd) cells =
     (if \<not> chain_enabled c then build_chains lib cs (inb, outb, fwd) cells
      else let (frs, cells') = alloc_rules lib (filter rule_enabled (chain_rules c)) cells;
               rules = sort_rules frs
           in (case chain_type_of (chain_kind c) of
                 Inbound \<Rightarrow> build_chains lib cs (inb @ rules, outb, fwd) cells'
               | Outbound \<Rightarrow> build_chains lib cs (inb, outb @ rules, fwd) cells'
               | Forward \<Rightarrow> build_chains lib cs (inb, outb, fwd @ rules) cells'
               | _ \<Rightarrow> build_chains lib cs (inb, outb, fwd) cells'))"

definition build_rules :: "cidr_lib \<Rightarrow> acl \<Rightarrow> rule_vectors \<times> rule_stats list" where
  "build_rules lib cfg = (case cfg of
     None \<Rightarrow> (([], [], []), []) | Some v1 \<Rightarrow> build_chains lib (v1_chains v1) ([], [], []) [])"

definition default_for :: "acl \<Rightarrow> chain_type \<Rightarrow> action" where
  "default_for cfg ct = (case cfg of
       None \<Rightarrow> Allow
     | Some v1 \<Rightarrow> (case find (\<lambda>c. chain_kind c = chain_type_i32 ct) (v1_chains v1) of
           None \<Rightarrow> Allow | Some c \<Rightarrow> action_of (chain_default_action c)))"

definition build_default_actions :: "acl \<Rightarrow> action \<times> action \<times> action" where
  "build_default_actions cfg = (default_for cfg Inbound, default_for cfg Outbound, default_for cfg Forward)"

section \<open>Whitelists\<close>

datatype builder_error =
  InvalidRangeFormat string | InvalidStartPort string | InvalidEndPort string
  | StartAfterEnd string | InvalidPort string

record acl_rule_builder =
  builder_acl :: "acl option"
  tcp_whitelist :: "string list"
  udp_whitelist :: "string list"
  whitelist_priority :: "u32 option"

definition parse_port_spec :: "string \<Rightarrow> builder_error + string" where
  "parse_port_spec spec =
     (if CHR ''-'' \<in> set spec then
        let parts = split_all (CHR ''-'') [] spec
        in if length parts \<noteq> 2 then Inl (InvalidRangeFormat spec)
           else (case parse_u16 (parts ! 0) of
               None \<Rightarrow> Inl (InvalidStartPort spec)
             | Some start \<Rightarrow> (case parse_u16 (parts ! 1) of
                 None \<Rightarrow> Inl (InvalidEndPort spec)
               | Some end' \<Rightarrow> if end' < start then Inl (StartAfterEnd spec) else Inr spec))
      else (case parse_u16 spec of
          None \<Rightarrow> Inl (InvalidPort spec)
        | Some port \<Rightarrow> Inr (show_u16 port)))"

fun parse_port_list :: "string list \<Rightarrow> builder_error + string list" where
  "parse_port_list [] = Inr []"
| "parse_port_list (spec # specs) = (case parse_port_spec spec of
     Inl e \<Rightarrow> Inl e
   | Inr p \<Rightarrow> (case parse_port_list specs of Inl e \<Rightarrow> Inl e | Inr ps \<Rightarrow> Inr (p # ps)))"

text \<open>The generated rules: one that allows the listed ports and one that drops every other port.\<close>

definition whitelist_rule :: "string \<Rightarrow> string \<Rightarrow> u32 \<Rightarrow> protocol \<Rightarrow> string list \<Rightarrow> action \<Rightarrow> bool \<Rightarrow> acl_rule" where
  "whitelist_rule name descr prio proto ports act stateful = \<lparr>
     rule_name = name, rule_description = descr, rule_priority = prio, rule_enabled = True,
     rule_protocol = protocol_i32 proto, rule_ports = ports, rule_source_ips = [], rule_destination_ips = [],
     rule_source_ports = [], rule_action = action_i32 act, rule_rate_limit = 0, rule_burst_limit = 0,
     rule_stateful = stateful, rule_source_groups = [], rule_destination_groups = []\<rparr>"

definition tcp_whitelist_rules :: "u32 \<Rightarrow> string list \<Rightarrow> acl_rule list" where
  "tcp_whitelist_rules prio ports =
     [whitelist_rule ''tcp_whitelist'' ''Auto-generated TCP whitelist rule'' prio Tcp ports Allow True,
      whitelist_rule ''tcp_whitelist_deny_other'' ''Auto-generated TCP whitelist rule to deny other ports''
        0 Tcp [''0-65535''] Drop False]"

definition udp_whitelist_rules :: "u32 \<Rightarrow> string list \<Rightarrow> acl_rule list" where
  "udp_whitelist_rules prio ports =
     [whitelist_rule ''udp_whitelist'' ''Auto-generated UDP whitelist rule'' prio Udp ports Allow False,
      whitelist_rule ''udp_whitelist_deny_other'' ''Auto-generated UDP whitelist rule to deny other ports''
        0 Udp [''0-65535''] Drop False]"

definition whitelist_chain :: "acl_rule list \<Rightarrow> acl_chain" where
  "whitelist_chain rules = \<lparr>chain_name = ''inbound_whitelist'', chain_kind = chain_type_i32 Inbound,
     chain_description = ''Auto-generated inbound whitelist from CLI'', chain_enabled = True,
     chain_rules = rules, chain_default_action = action_i32 Allow\<rparr>"

definition generate_acl_from_whitelists :: "acl_rule_builder \<Rightarrow> builder_error + acl_rule_builder" where
  "generate_acl_from_whitelists b =
     (if tcp_whitelist b = [] \<and> udp_whitelist b = [] then Inr b
      else
        let prio = (case whitelist_priority b of None \<Rightarrow> 1000 | Some p \<Rightarrow> p)
        in (case (if tcp_whitelist b = [] then Inr ([], prio)
                  else (case parse_port_list (tcp_whitelist b) of
                      Inl e \<Rightarrow> Inl e
                    | Inr ports \<Rightarrow> Inr (tcp_whitelist_rules prio ports, prio - 1))) of
              Inl e \<Rightarrow> Inl e
            | Inr (tcp_rules, prio') \<Rightarrow>
                (case (if udp_whitelist b = [] then Inr []
                       else (case parse_port_list (udp_whitelist b) of
                           Inl e \<Rightarrow> Inl e
                         | Inr ports \<Rightarrow> Inr (udp_whitelist_rules prio' ports))) of
                   Inl e \<Rightarrow> Inl e
                 | Inr udp_rules \<Rightarrow>
                     let chain = whitelist_chain (tcp_rules @ udp_rules);
                         cfg = (case builder_acl b of None \<Rightarrow> None | Some a \<Rightarrow> a);
                         cfg' = (case cfg of
                             Some v1 \<Rightarrow> Some (v1\<lparr>v1_chains := v1_chains v1 @ [chain]\<rparr>)
                           | None \<Rightarrow> Some \<lparr>v1_chains = [chain], v1_group = Some ([], [])\<rparr>)
                     in Inr (b\<lparr>builder_acl := Some cfg'\<rparr>))))"

definition do_build :: "acl_rule_builder \<Rightarrow> builder_error + acl option" where
  "do_build b = (case generate_acl_from_whitelists b of Inl e \<Rightarrow> Inl e | Inr b' \<Rightarrow> Inr (builder_acl b'))"

section \<open>Port numbers round trip through their printed form\<close>

lemma digit_value_char: "d < 10 \<Longrightarrow> digit_value (char_of (48 + d)) = Some d"
  by (simp add: digit_value_def Let_def)

lemma parse_digits_append:
  "parse_digits acc (xs @ ys) = (case parse_digits acc xs of None \<Rightarrow> None | Some a \<Rightarrow> parse_digits a ys)"
  by (induction xs arbitrary: acc) (auto split: option.splits)

lemma show_nat_nonempty [simp]: "show_nat n \<noteq> []"
  by (subst show_nat.simps) simp

lemma parse_show_nat: "n \<le> 65535 \<Longrightarrow> parse_digits 0 (show_nat n) = Some n"
proof (induction n rule: show_nat.induct)
  case (1 n)
  show ?case
  proof (cases "n < 10")
    case True
    then show ?thesis by (subst show_nat.simps) (simp add: digit_value_char)
  next
    case False
    with 1 have "parse_digits 0 (show_nat (n div 10)) = Some (n div 10)" by simp
    moreover have "n div 10 * 10 + n mod 10 = n" by simp
    ultimately show ?thesis
      using False 1(2) by (subst show_nat.simps) (simp add: parse_digits_append digit_value_char)
  qed
qed

lemma digits_of_show_nat: "c \<in> set (show_nat n) \<Longrightarrow> digit_value c \<noteq> None"
proof (induction n rule: show_nat.induct)
  case (1 n)
  then show ?case
    by (cases "n < 10") (subst (asm) (2) show_nat.simps; auto simp: digit_value_char)+
qed

lemma digit_not_special: "digit_value c \<noteq> None \<Longrightarrow> c \<noteq> CHR ''+'' \<and> c \<noteq> CHR ''-'' \<and> \<not> is_whitespace c"
  by (auto simp: digit_value_def is_whitespace_def Let_def split: if_splits)

lemma parse_show_u16 [simp]: "parse_u16 (show_u16 p) = Some p"
proof -
  have "unat p \<le> 65535" using unsigned_less [of p, where 'a = nat] by simp
  note num = parse_show_nat [OF this]
  obtain c cs where c: "show_nat (unat p) = c # cs" by (cases "show_nat (unat p)") auto
  then have "c \<noteq> CHR ''+''" using digits_of_show_nat [of c "unat p"] digit_not_special by force
  then show ?thesis using num c by (simp add: parse_u16_def show_u16_def)
qed

text \<open>A string that parses as a number contains neither blanks nor a dash.\<close>

lemma parse_digits_chars: "parse_digits acc s = Some n \<Longrightarrow> c \<in> set s \<Longrightarrow> digit_value c \<noteq> None"
  by (induction s arbitrary: acc) (auto split: option.splits if_splits)

lemma parse_u16_chars:
  assumes "parse_u16 s = Some p" "c \<in> set s"
  shows "\<not> is_whitespace c \<and> c \<noteq> CHR ''-''"
proof -
  have "\<not> is_whitespace (CHR ''+'')" by (simp add: is_whitespace_def Let_def)
  moreover have "c = CHR ''+'' \<or> digit_value c \<noteq> None"
  proof -
    obtain x xs where s: "s = x # xs" using assms(1) by (cases s) (auto simp: parse_u16_def)
    then obtain n where "parse_digits 0 (if x = CHR ''+'' then xs else s) = Some n"
      using assms(1) by (auto simp: parse_u16_def Let_def simp del: parse_digits.simps split: if_splits)
    then show ?thesis
      using parse_digits_chars [of 0 xs n c] parse_digits_chars [of 0 s n c] assms(2) s
      by (auto simp del: parse_digits.simps split: if_splits)
  qed
  ultimately show ?thesis using digit_not_special by auto
qed

lemma trim_id: "(\<And>c. c \<in> set s \<Longrightarrow> \<not> is_whitespace c) \<Longrightarrow> trim s = s"
proof -
  assume a: "\<And>c. c \<in> set s \<Longrightarrow> \<not> is_whitespace c"
  then have "dropWhile is_whitespace s = s" "dropWhile is_whitespace (rev s) = rev s"
    by (simp_all add: dropWhile_eq_self_iff) (metis hd_in_set hd_rev last_in_set)+
  then show ?thesis by (simp add: trim_def)
qed

lemma trim_number: "parse_u16 s = Some p \<Longrightarrow> trim s = s"
  using parse_u16_chars trim_id by blast

lemma split_once_none: "CHR ''-'' \<notin> set s \<Longrightarrow> split_once (CHR ''-'') s = None"
proof -
  assume "CHR ''-'' \<notin> set s"
  then have "dropWhile (\<lambda>c. c \<noteq> CHR ''-'') s = []" by (auto simp: dropWhile_eq_Nil_conv)
  then show ?thesis by (simp only: split_once_def list.case)
qed

lemma split_once_Cons:
  "c \<noteq> sep \<Longrightarrow> split_once sep (c # cs) = map_option (\<lambda>(x, y). (c # x, y)) (split_once sep cs)"
  by (cases "dropWhile (\<lambda>c. c \<noteq> sep) cs") (simp_all add: split_once_def del: dropWhile_eq_Nil_conv)

lemma split_all_two:
  assumes "split_all sep cur s = [a, b]"
  shows "\<exists>x. split_once sep s = Some (x, b) \<and> a = rev cur @ x"
  using assms
proof (induction s arbitrary: cur)
  case (Cons c cs)
  show ?case
  proof (cases "c = sep")
    case True
    with Cons.prems have ab: "a = rev cur" "split_all sep [] cs = [b]" by auto
    have "split_all sep cur' s \<noteq> []" for cur' s by (induction s arbitrary: cur') auto
    then have "split_all sep cur' s = [b'] \<Longrightarrow> b' = rev cur' @ s" for cur' s b'
    proof (induction s arbitrary: cur')
      case (Cons x xs)
      then show ?case using Cons.IH [of "x # cur'"] by (auto split: if_splits)
    qed simp
    from this [OF ab(2)] have "b = cs" by simp
    with True ab show ?thesis by (simp add: split_once_def)
  next
    case False
    with Cons.IH [of "c # cur"] Cons.prems show ?thesis
      by (auto simp: split_once_Cons)
  qed
qed simp

section \<open>What a port specification means\<close>

text \<open>The ports a whitelist entry stands for, read off the entry itself.\<close>

definition spec_ports :: "string \<Rightarrow> u16 set" where
  "spec_ports spec =
     (case split_all (CHR ''-'') [] spec of
        [a] \<Rightarrow> (case parse_u16 a of None \<Rightarrow> {} | Some p \<Rightarrow> {p})
      | [a, b] \<Rightarrow> (case (parse_u16 a, parse_u16 b) of (Some x, Some y) \<Rightarrow> {x..y} | _ \<Rightarrow> {})
      | _ \<Rightarrow> {})"

lemma split_all_single: "CHR ''-'' \<notin> set s \<Longrightarrow> split_all (CHR ''-'') cur s = [rev cur @ s]"
  by (induction s arbitrary: cur) auto

lemma parse_port_spec_range:
  assumes "parse_port_spec spec = Inr out"
  shows "\<exists>a b. parse_port_range out = Some (a, b) \<and> spec_ports spec = {a..b}"
proof (cases "CHR ''-'' \<in> set spec")
  case True
  let ?parts = "split_all (CHR ''-'') [] spec"
  from True assms obtain x y where len: "length ?parts = 2"
      and xy: "parse_u16 (?parts ! 0) = Some x" "parse_u16 (?parts ! 1) = Some y" "out = spec"
    by (auto simp: parse_port_spec_def Let_def split: if_splits option.splits)
  obtain a b where ab: "?parts = [a, b]"
    using len by (auto simp: length_Suc_conv numeral_2_eq_2)
  with xy have p: "parse_u16 a = Some x" "parse_u16 b = Some y" by simp_all
  have "split_once (CHR ''-'') spec = Some (a, b)" using split_all_two [OF ab] by simp
  then have "parse_port_range spec = Some (x, y)"
    using p trim_number [OF p(1)] trim_number [OF p(2)] by (simp add: parse_port_range_def)
  with ab p xy(3) show ?thesis by (simp add: spec_ports_def)
next
  case False
  with assms obtain x where x: "parse_u16 spec = Some x" "out = show_u16 x"
    by (auto simp: parse_port_spec_def split: option.splits)
  have px: "parse_u16 (show_u16 x) = Some x" by simp
  then have "split_once (CHR ''-'') (show_u16 x) = None"
    using parse_u16_chars by (intro split_once_none) blast
  then have "parse_port_range out = Some (x, x)"
    using x trim_number [OF px] by (simp add: parse_port_range_def)
  with False x show ?thesis by (simp add: spec_ports_def split_all_single)
qed

lemma parse_port_list_ranges:
  assumes "parse_port_list specs = Inr outs"
  shows "length outs = length specs"
    and "list_ex (\<lambda>(a, b). a \<le> q \<and> q \<le> b) (List.map_filter parse_port_range outs) \<longleftrightarrow> (\<exists>s \<in> set specs. q \<in> spec_ports s)"
    and "specs \<noteq> [] \<Longrightarrow> List.map_filter parse_port_range outs \<noteq> []"
  using assms
proof (induction specs arbitrary: outs)
  case (Cons spec specs)
  {
    case 1
    with Cons.IH(1) show ?case by (auto split: sum.splits)
  next
    case 2
    then obtain out outs' where o: "parse_port_spec spec = Inr out" "parse_port_list specs = Inr outs'" "outs = out # outs'"
      by (auto split: sum.splits)
    with parse_port_spec_range [OF o(1)] Cons.IH(2) [OF o(2)] show ?case
      by (auto simp: List.map_filter_def)
  next
    case 3
    then obtain out outs' where o: "parse_port_spec spec = Inr out" "outs = out # outs'"
      by (auto split: sum.splits)
    with parse_port_spec_range [OF o(1)] show ?case by (auto simp: List.map_filter_def)
  }
qed (auto simp: List.map_filter_def)

lemma ports_match_list:
  assumes "parse_port_list specs = Inr outs" "specs \<noteq> []"
  shows "ports_match (List.map_filter parse_port_range outs) (Some q) \<longleftrightarrow> (\<exists>s \<in> set specs. q \<in> spec_ports s)"
  using parse_port_list_ranges(2) [OF assms(1), of q] parse_port_list_ranges(3) [OF assms]
  by (simp add: ports_match_def)

section \<open>First match\<close>

definition first_match :: "cidr_lib \<Rightarrow> fast_rule list \<Rightarrow> packet_info \<Rightarrow> fast_rule option" where
  "first_match lib rules p = find (\<lambda>r. fr_enabled r \<and> rule_matches lib r p) rules"

text \<open>The decision of a rule vector: the action of the first matching rule, or the default.\<close>

definition acl_decision :: "cidr_lib \<Rightarrow> fast_rule list \<Rightarrow> action \<Rightarrow> packet_info \<Rightarrow> action" where
  "acl_decision lib rules dflt p = (case first_match lib rules p of None \<Rightarrow> dflt | Some r \<Rightarrow> fr_action r)"

lemma all_ports: "parse_port_range ''0-65535'' = Some (0, 65535)"
  by (simp add: parse_port_range_def split_once_def trim_def is_whitespace_def parse_u16_def digit_value_def Let_def)

lemma ports_match_nil [simp]: "ports_match [] q"
  by (cases q) (simp_all add: ports_match_def)

lemma map_filter_Nil [simp]: "List.map_filter f [] = []"
  by (simp add: List.map_filter_def)

lemma rule_matches_whitelist:
  "rule_matches lib (convert_to_fast_lookup_rule lib a (whitelist_rule name descr prio proto ports act st)) p \<longleftrightarrow>
     (proto = Any \<or> proto = pkt_protocol p) \<and> ports_match (List.map_filter parse_port_range ports) (dst_port p)"
  by (simp add: rule_matches_def convert_to_fast_lookup_rule_def whitelist_rule_def ips_match_def groups_match_def)

lemma whitelist_rule_fields:
  "fr_priority (convert_to_fast_lookup_rule lib a (whitelist_rule name descr prio proto ports act st)) = prio"
  "fr_action (convert_to_fast_lookup_rule lib a (whitelist_rule name descr prio proto ports act st)) = act"
  "fr_enabled (convert_to_fast_lookup_rule lib a (whitelist_rule name descr prio proto ports act st))"
  "rule_enabled (whitelist_rule name descr prio proto ports act st)"
  by (simp_all add: convert_to_fast_lookup_rule_def whitelist_rule_def)

lemma u16_le: "unat (a :: u16) \<le> 65535"
  using unsigned_less [of a, where 'a = nat] by simp

lemma match_all_ports: "ports_match [(0, 65535)] q"
  using u16_le by (cases q) (auto simp: ports_match_def word_le_nat_alt)

lemma build_whitelist:
  "fst (fst (build_rules lib (Some \<lparr>v1_chains = [whitelist_chain rs], v1_group = g\<rparr>)))
     = sort_rules (fst (alloc_rules lib (filter rule_enabled rs) []))"
  by (simp add: build_rules_def whitelist_chain_def split_beta Let_def chain_type_of_def)

text \<open>
  C23: the generated whitelist means what its entries say.  With TCP or UDP whitelists and no other
  configuration, an inbound packet of a protocol that has a whitelist is allowed exactly when its
  destination port is in one of the entries of that protocol.  A protocol without a whitelist is open:
  TCP packets are all allowed when there are UDP entries only, and the other way round, and so is every
  packet of another protocol.
\<close>

theorem whitelist_semantics:
  assumes "do_build \<lparr>builder_acl = None, tcp_whitelist = tcps, udp_whitelist = udps, whitelist_priority = None\<rparr>
      = Inr (Some cfg)"
    and "pkt_protocol p = Tcp \<or> pkt_protocol p = Udp \<Longrightarrow> dst_port p = Some q"
  shows "acl_decision lib (fst (fst (build_rules lib cfg))) (fst (build_default_actions cfg)) p =
    (if pkt_protocol p = Tcp \<and> tcps \<noteq> [] then if \<exists>s \<in> set tcps. q \<in> spec_ports s then Allow else Drop
     else if pkt_protocol p = Udp \<and> udps \<noteq> [] then if \<exists>s \<in> set udps. q \<in> spec_ports s then Allow else Drop
     else Allow)"
proof -
  note simps = first_match_def acl_decision_def rule_matches_whitelist whitelist_rule_fields sort_rules_def
    tcp_whitelist_rules_def udp_whitelist_rules_def match_all_ports all_ports Let_def
  have dflt: "fst (build_default_actions (Some \<lparr>v1_chains = [whitelist_chain rs], v1_group = g\<rparr>)) = Allow" for rs g
    by (simp add: build_default_actions_def default_for_def whitelist_chain_def action_of_def)
  consider (none) "tcps = []" "udps = []"
    | (tcp) ports where "tcps \<noteq> []" "udps = []" "parse_port_list tcps = Inr ports"
        "cfg = Some \<lparr>v1_chains = [whitelist_chain (tcp_whitelist_rules 1000 ports)], v1_group = Some ([], [])\<rparr>"
    | (udp) ports where "tcps = []" "udps \<noteq> []" "parse_port_list udps = Inr ports"
        "cfg = Some \<lparr>v1_chains = [whitelist_chain (udp_whitelist_rules 1000 ports)], v1_group = Some ([], [])\<rparr>"
    | (both) ports ports' where "tcps \<noteq> []" "udps \<noteq> []" "parse_port_list tcps = Inr ports"
        "parse_port_list udps = Inr ports'"
        "cfg = Some \<lparr>v1_chains = [whitelist_chain (tcp_whitelist_rules 1000 ports @ udp_whitelist_rules 999 ports')],
           v1_group = Some ([], [])\<rparr>"
    using assms(1)
    by (auto simp: do_build_def generate_acl_from_whitelists_def Let_def split: sum.splits if_splits)
  then show ?thesis
  proof cases
    case none
    with assms(1) show ?thesis by (simp add: do_build_def generate_acl_from_whitelists_def)
  next
    case tcp
    show ?thesis
      unfolding tcp(4) build_whitelist dflt
      using assms(2) ports_match_list [OF tcp(3,1)] tcp(1,2) by (auto simp: simps)
  next
    case udp
    show ?thesis
      unfolding udp(4) build_whitelist dflt
      using assms(2) ports_match_list [OF udp(3,2)] udp(1,2) by (auto simp: simps)
  next
    case both
    show ?thesis
      unfolding both(5) build_whitelist dflt
      using assms(2) ports_match_list [OF both(3,1)] ports_match_list [OF both(4,2)] both(1,2) by (auto simp: simps)
  qed
qed

section \<open>Priorities\<close>

definition inbound_chains :: "acl_chain list \<Rightarrow> acl_chain list" where
  "inbound_chains cs = filter (\<lambda>c. chain_enabled c \<and> chain_type_of (chain_kind c) = Inbound) cs"

lemma build_chains_inbound:
  "\<exists>vs. fst (fst (build_chains lib cs (inb, outb, fwd) cells)) = inb @ concat vs
    \<and> list_all2 (\<lambda>c v. \<exists>cells. v = sort_rules (fst (alloc_rules lib (filter rule_enabled (chain_rules c)) cells)))
        (inbound_chains cs) vs"
proof (induction cs arbitrary: inb outb fwd cells)
  case Nil
  then show ?case by (simp add: inbound_chains_def)
next
  case (Cons c cs)
  show ?case
  proof (cases "chain_enabled c \<and> chain_type_of (chain_kind c) = Inbound")
    case True
    obtain frs cells' where a: "alloc_rules lib (filter rule_enabled (chain_rules c)) cells = (frs, cells')" by force
    from Cons.IH [of "inb @ sort_rules frs" outb fwd cells'] obtain vs where
      "fst (fst (build_chains lib cs (inb @ sort_rules frs, outb, fwd) cells')) = inb @ concat (sort_rules frs # vs)"
      "list_all2 (\<lambda>c v. \<exists>cells. v = sort_rules (fst (alloc_rules lib (filter rule_enabled (chain_rules c)) cells)))
        (inbound_chains cs) vs" by auto
    with True a show ?thesis
      by (intro exI [of _ "sort_rules frs # vs"]) (auto simp: inbound_chains_def intro: exI [of _ cells])
  next
    case False
    then have "\<exists>outb' fwd' cells'. build_chains lib (c # cs) (inb, outb, fwd) cells = build_chains lib cs (inb, outb', fwd') cells'"
      by (cases "chain_type_of (chain_kind c)") (auto simp: split_beta Let_def)
    with Cons.IH False show ?thesis by (auto simp: inbound_chains_def)
  qed
qed

lemma alloc_rules_set:
  "r \<in> set rs \<Longrightarrow> \<exists>a. convert_to_fast_lookup_rule lib a r \<in> set (fst (alloc_rules lib rs cells))"
  by (induction rs arbitrary: cells) (auto simp: split_beta Let_def)

lemma fast_rule_enabled: "fr_enabled (convert_to_fast_lookup_rule lib a r) = rule_enabled r"
  by (simp add: convert_to_fast_lookup_rule_def)

lemma rule_matches_address:
  "rule_matches lib (convert_to_fast_lookup_rule lib a r) p = rule_matches lib (convert_to_fast_lookup_rule lib b r) p"
  by (simp add: rule_matches_def convert_to_fast_lookup_rule_def)

lemma find_sorted:
  fixes f :: "'a \<Rightarrow> 'b::linorder"
  assumes "find P (sort_key f xs) = Some x" "y \<in> set xs" "P y"
  shows "f x \<le> f y"
proof -
  have "sorted (map f ys) \<Longrightarrow> find P ys = Some x \<Longrightarrow> y \<in> set ys \<Longrightarrow> f x \<le> f y" for ys
    using assms(3) by (induction ys) (auto split: if_splits)
  from this [of "sort_key f xs"] assms(1,2) show ?thesis by simp
qed

text \<open>
  With one enabled inbound chain, the rule that decides about a packet has the highest priority of
  all enabled rules of the chain that match it, and some rule decides as soon as one matches.
\<close>

theorem first_match_highest_priority:
  assumes "inbound_chains (v1_chains v1) = [c]" and "r \<in> set (chain_rules c)" and "rule_enabled r"
    and "rule_matches lib (convert_to_fast_lookup_rule lib 0 r) p"
  shows "\<exists>w. first_match lib (fst (fst (build_rules lib (Some v1)))) p = Some w \<and> rule_priority r \<le> fr_priority w
    \<and> rule_matches lib w p"
proof -
  obtain cells where inb: "fst (fst (build_rules lib (Some v1)))
      = sort_rules (fst (alloc_rules lib (filter rule_enabled (chain_rules c)) cells))" (is "_ = sort_rules ?frs")
    using build_chains_inbound [of lib "v1_chains v1" "[]" "[]" "[]" "[]"] assms(1)
    by (auto simp: build_rules_def list_all2_Cons1)
  obtain a where a: "convert_to_fast_lookup_rule lib a r \<in> set ?frs"
    using alloc_rules_set [of r "filter rule_enabled (chain_rules c)" lib cells] assms(2,3) by auto
  let ?P = "\<lambda>x. fr_enabled x \<and> rule_matches lib x p"
  have P: "?P (convert_to_fast_lookup_rule lib a r)"
    using assms(3,4) rule_matches_address [of lib a r p 0] by (simp add: fast_rule_enabled)
  then obtain w where w: "find ?P (sort_rules ?frs) = Some w"
    using a by (cases "find ?P (sort_rules ?frs)") (auto simp: find_None_iff sort_rules_def)
  then have "?P w" by (metis (no_types, lifting) find_Some_iff)
  moreover have "rule_priority r \<le> fr_priority w"
    using find_sorted [OF w [unfolded sort_rules_def] a P]
    by (simp add: convert_to_fast_lookup_rule_def word_le_def)
  ultimately show ?thesis using w inb by (auto simp: first_match_def)
qed

text \<open>
  Priorities do not order rules of different chains.  With two enabled inbound chains, a matching
  rule of priority 1 in the first chain decides over a matching rule of priority 100 in the second.
\<close>

lemma chains_ignore_priority:
  "acl_decision lib (fst (fst (build_rules lib (Some \<lparr>v1_chains =
      [whitelist_chain [whitelist_rule ''low'' [] 1 Any [] Drop False],
       whitelist_chain [whitelist_rule ''high'' [] 100 Any [] Allow False]], v1_group = None\<rparr>)))) Allow p = Drop"
  by (simp add: build_rules_def whitelist_chain_def chain_type_of_def whitelist_rule_fields split_beta Let_def
      sort_rules_def acl_decision_def first_match_def rule_matches_whitelist)

text \<open>
  A rule fails open on unreadable addresses.  When none of the source ranges of a rule can be
  parsed, the rule matches like one without any source restriction.
\<close>

theorem unparsable_sources_match_all:
  assumes "\<forall>s \<in> set (rule_source_ips r). cidr_parse lib s = None"
  shows "rule_matches lib (convert_to_fast_lookup_rule lib a r) p
    = rule_matches lib (convert_to_fast_lookup_rule lib a (r\<lparr>rule_source_ips := []\<rparr>)) p"
proof -
  have "List.map_filter (convert_ip_inet_to_cidr lib) (rule_source_ips r) = []"
    using assms by (auto simp: List.map_filter_def convert_ip_inet_to_cidr_def filter_empty_conv)
  then show ?thesis by (simp add: rule_matches_def convert_to_fast_lookup_rule_def)
qed

section \<open>Concrete configurations\<close>

definition toy_tcp :: "u16 \<Rightarrow> packet_info" where
  "toy_tcp port = \<lparr>src_ip = IpV4 1, dst_ip = IpV4 2, src_port = Some 9, dst_port = Some port, pkt_protocol = Tcp,
     packet_size = 40, src_groups = [], dst_groups = []\<rparr>"

definition toy_cidr :: cidr_lib where
  "toy_cidr = \<lparr>cidr_parse = (\<lambda>s. None), cidr4_contains = (\<lambda>a n ip. a = ip), cidr6_contains = (\<lambda>a n ip. a = ip)\<rparr>"

lemma show_80: "show_u16 80 = ''80''"
  by (simp add: show_u16_def show_nat.simps char_of_def bit_0)

lemma spec_80: "parse_u16 ''80'' = Some 80" "spec_ports ''80'' = {80}"
  by (simp_all add: spec_ports_def parse_u16_def digit_value_def Let_def)

lemma toy_build:
  "do_build \<lparr>builder_acl = None, tcp_whitelist = [''80''], udp_whitelist = [], whitelist_priority = None\<rparr> =
    Inr (Some (Some \<lparr>v1_chains = [whitelist_chain (tcp_whitelist_rules 1000 [''80''])], v1_group = Some ([], [])\<rparr>))"
  by (simp add: do_build_def generate_acl_from_whitelists_def parse_port_spec_def spec_80 show_80 Let_def)

theorem whitelist_semantics_witness:
  "acl_decision toy_cidr (fst (fst (build_rules toy_cidr (Some \<lparr>v1_chains = [whitelist_chain (tcp_whitelist_rules 1000 [''80''])],
      v1_group = Some ([], [])\<rparr>)))) (fst (build_default_actions (Some \<lparr>v1_chains =
      [whitelist_chain (tcp_whitelist_rules 1000 [''80''])], v1_group = Some ([], [])\<rparr>))) (toy_tcp 81) = Drop"
  using whitelist_semantics [OF toy_build, of "toy_tcp 81" 81 toy_cidr] by (simp add: toy_tcp_def spec_80)

theorem first_match_highest_priority_witness:
  "\<exists>w. first_match toy_cidr (fst (fst (build_rules toy_cidr (Some \<lparr>v1_chains = [whitelist_chain
      [whitelist_rule ''a'' [] 1 Any [] Drop False, whitelist_rule ''b'' [] 7 Any [] Allow False]], v1_group = None\<rparr>))))
      (toy_tcp 80) = Some w \<and> 7 \<le> fr_priority w"
proof -
  let ?rs = "[whitelist_rule ''a'' [] 1 Any [] Drop False, whitelist_rule ''b'' [] 7 Any [] Allow False]"
  have "inbound_chains (v1_chains \<lparr>v1_chains = [whitelist_chain ?rs], v1_group = None\<rparr>) = [whitelist_chain ?rs]"
    by (simp add: inbound_chains_def whitelist_chain_def chain_type_of_def)
  from first_match_highest_priority [OF this, of "whitelist_rule ''b'' [] 7 Any [] Allow False" toy_cidr "toy_tcp 80"]
  show ?thesis by (auto simp: whitelist_chain_def whitelist_rule_fields rule_matches_whitelist) (auto simp: whitelist_rule_def)
qed

theorem unparsable_sources_match_all_witness:
  "rule_matches toy_cidr (convert_to_fast_lookup_rule toy_cidr 0
     ((whitelist_rule ''typo'' [] 5 Any [] Allow False)\<lparr>rule_source_ips := [''10.0.0.0/33'']\<rparr>)) (toy_tcp 80)"
  using unparsable_sources_match_all [of "(whitelist_rule ''typo'' [] 5 Any [] Allow False)\<lparr>rule_source_ips := [''10.0.0.0/33'']\<rparr>"
      toy_cidr 0 "toy_tcp 80"]
  by (simp add: toy_cidr_def rule_matches_def convert_to_fast_lookup_rule_def whitelist_rule_def ips_match_def
      groups_match_def protocol_of_def)

end
