(* ===== verification/Acl_Processor.thy ===== *)
theory Acl_Processor
  imports Acl_Rules Token_Bucket
begin

text \<open>
  The packet side of the access control lists (\<^verbatim>\<open>common/acl_processor.rs\<close>): the processor with its
  immutable rule vectors, rule cache, connection table, rate limiters and counters, the processing of a
  packet with and without a cached result, and the periodic clean-up tasks.

  Instants are microseconds and each call reads the clock once, except the clean-up task, whose two
  readings are separate arguments; wall-clock time is in seconds.  \<^term>\<open>None\<close> is a panic.
\<close>

section \<open>State\<close>

record rate_limit_key =
  rk_chain :: chain_type
  rk_priority :: u32

record rate_limit_value =
  limiter_bucket :: token_bucket
  last_update :: nat

datatype rule_id = RulePriority u32 | RuleStateful u32 | RuleDefault

datatype acl_log_context =
    StatefulMatch ip_addr ip_addr | RuleMatch ip_addr ip_addr action
  | DefaultDrop | DefaultAllow | UnsupportedChainType | RateLimitDrop

record acl_result =
  res_action :: action
  res_matched_rule :: "rule_id option"
  should_log :: bool
  log_context :: "acl_log_context option"

record acl_cache_key =
  ck_chain :: chain_type
  ck_protocol :: protocol
  ck_src_ip :: ip_addr
  ck_dst_ip :: ip_addr
  ck_src_port :: u16
  ck_dst_port :: u16
  ck_src_groups :: "string list"
  ck_dst_groups :: "string list"

record acl_cache_entry =
  ce_action :: action
  ce_matched_rule :: rule_id
  last_access :: nat
  ce_conn_track_key :: "string option"
  rate_limit_keys :: "rate_limit_key list"
  ce_chain :: chain_type
  ce_result :: "acl_result option"
  rule_stats_vec :: "nat list"

datatype conn_state = ConnNew | ConnEstablished | ConnRelated | ConnInvalid

record conn_track_entry =
  ct_src_addr :: "ip_addr \<times> u16"
  ct_dst_addr :: "ip_addr \<times> u16"
  ct_protocol :: protocol
  ct_state :: conn_state
  ct_created_at :: u64
  ct_last_seen :: u64
  ct_packet_count :: u64
  ct_byte_count :: u64

datatype acl_stat_key =
    CacheHits | CacheSize | CacheMaxSize | RuleMatches | DefaultAllows | DefaultDrops
  | PacketsTotal | PacketsAllowed | PacketsDropped | PacketsNoop
  | InboundPacketsTotal | InboundPacketsAllowed | InboundPacketsDropped | InboundPacketsNoop
  | OutboundPacketsTotal | OutboundPacketsAllowed | OutboundPacketsDropped | OutboundPacketsNoop
  | ForwardPacketsTotal | ForwardPacketsAllowed | ForwardPacketsDropped | ForwardPacketsNoop
  | UnknownPacketsTotal | UnknownPacketsAllowed | UnknownPacketsDropped | UnknownPacketsNoop

datatype acl_stat_type = StatTotal | StatAllowed | StatDropped | StatNoop

text \<open>The environment: the CIDR library and the printed form of an address.\<close>

record acl_env =
  env_cidr :: cidr_lib
  env_show_ip :: "ip_addr \<Rightarrow> string"

record acl_processor =
  inbound_rules :: "fast_rule list"
  outbound_rules :: "fast_rule list"
  forward_rules :: "fast_rule list"
  default_inbound_action :: action
  default_outbound_action :: action
  default_forward_action :: action
  default_rule_stats :: nat
  stat_cells :: "rule_stats list"
  conn_track :: "(string, conn_track_entry) store"
  rate_limiters :: "(rate_limit_key, rate_limit_value) store"
  rule_cache :: "(acl_cache_key, acl_cache_entry) store"
  cache_max_size :: nat
  cache_cleanup_interval :: nat
  stats :: "(acl_stat_key, u64) store"

definition new_with_shared_state ::
  "acl_env \<Rightarrow> acl \<Rightarrow> (string, conn_track_entry) store option \<Rightarrow>
     (rate_limit_key, rate_limit_value) store option \<Rightarrow> (acl_stat_key, u64) store option \<Rightarrow> acl_processor" where
  "new_with_shared_state env cfg ct rl st =
     (let ((inb, outb, fwd), cells) = build_rules (env_cidr env) cfg;
          (din, dout, dfwd) = build_default_actions cfg
      in \<lparr>inbound_rules = inb, outbound_rules = outb, forward_rules = fwd,
          default_inbound_action = din, default_outbound_action = dout, default_forward_action = dfwd,
          default_rule_stats = length cells, stat_cells = cells @ [new_cell None],
          conn_track = (case ct of None \<Rightarrow> [] | Some x \<Rightarrow> x),
          rate_limiters = (case rl of None \<Rightarrow> [] | Some x \<Rightarrow> x),
          rule_cache = [], cache_max_size = 1024, cache_cleanup_interval = 20000000,
          stats = (case st of None \<Rightarrow> [] | Some x \<Rightarrow> x)\<rparr>)"

definition processor_new :: "acl_env \<Rightarrow> acl \<Rightarrow> acl_processor" where
  "processor_new env cfg = new_with_shared_state env cfg None None None"

section \<open>Cache\<close>

definition cache_key_of :: "packet_info \<Rightarrow> chain_type \<Rightarrow> acl_cache_key" where
  "cache_key_of p ct = \<lparr>ck_chain = ct, ck_protocol = pkt_protocol p, ck_src_ip = src_ip p, ck_dst_ip = dst_ip p,
     ck_src_port = (case src_port p of None \<Rightarrow> 0 | Some q \<Rightarrow> q),
     ck_dst_port = (case dst_port p of None \<Rightarrow> 0 | Some q \<Rightarrow> q),
     ck_src_groups = src_groups p, ck_dst_groups = dst_groups p\<rparr>"

definition CACHE_EXPIRE :: nat where "CACHE_EXPIRE = 15000000"

definition cleanup_cache ::
  "nat \<Rightarrow> nat \<Rightarrow> (acl_cache_key, acl_cache_entry) store \<Rightarrow> (acl_cache_key, acl_cache_entry) store" where
  "cleanup_cache now max_size cache =
     (let expired = (if CACHE_EXPIRE \<le> now then now - CACHE_EXPIRE else now);
          cache1 = st_retain (\<lambda>_ e. expired < last_access e) cache;
          current_size = length cache1
      in if current_size \<le> max_size then cache1
         else let entries = sort_key snd (map (\<lambda>(k, e). (k, last_access e)) cache1);
                  to_remove = current_size - max_size + max_size div 5
              in fold (\<lambda>(k, _). st_remove k) (take to_remove entries) cache1)"

definition cache_result :: "nat \<Rightarrow> acl_cache_key \<Rightarrow> acl_cache_entry \<Rightarrow> acl_processor \<Rightarrow> acl_processor" where
  "cache_result now key e pr =
     (let cache = st_insert key e (rule_cache pr)
      in pr\<lparr>rule_cache := (if cache_max_size pr * 2 < length cache then cleanup_cache now (cache_max_size pr) cache
                          else cache)\<rparr>)"

section \<open>Counters, connections and rates\<close>

definition increment_stat :: "acl_stat_key \<Rightarrow> acl_processor \<Rightarrow> acl_processor" where
  "increment_stat key pr = pr\<lparr>stats := st_insert key
     (case st_get (stats pr) key of None \<Rightarrow> 1 | Some n \<Rightarrow> n + 1) (stats pr)\<rparr>"

definition bump_cell :: "nat \<Rightarrow> nat \<Rightarrow> rule_stats list \<Rightarrow> rule_stats list" where
  "bump_cell sz a cells = cells[a := (cells ! a)\<lparr>packet_count := packet_count (cells ! a) + 1,
     byte_count := byte_count (cells ! a) + of_nat sz\<rparr>]"

definition inc_cache_entry_stats :: "acl_cache_entry \<Rightarrow> packet_info \<Rightarrow> acl_processor \<Rightarrow> acl_processor" where
  "inc_cache_entry_stats e p pr =
     pr\<lparr>stat_cells := fold (bump_cell (packet_size p)) (rule_stats_vec e) (stat_cells pr)\<rparr>"

definition conn_track_key :: "acl_env \<Rightarrow> packet_info \<Rightarrow> string" where
  "conn_track_key env p =
     (let port = (\<lambda>q. show_u16 (case q of None \<Rightarrow> 0 | Some x \<Rightarrow> x))
      in env_show_ip env (src_ip p) @ '':'' @ port (src_port p) @ ''->''
         @ env_show_ip env (dst_ip p) @ '':'' @ port (dst_port p))"

definition check_connection_state :: "u64 \<Rightarrow> string \<Rightarrow> packet_info \<Rightarrow> acl_processor \<Rightarrow> acl_processor" where
  "check_connection_state secs key p pr =
     (let port = (\<lambda>q. case q of None \<Rightarrow> 0 | Some x \<Rightarrow> x);
          e = (case st_get (conn_track pr) key of
              Some x \<Rightarrow> x\<lparr>ct_last_seen := secs, ct_packet_count := ct_packet_count x + 1,
                ct_byte_count := ct_byte_count x + of_nat (packet_size p), ct_state := ConnEstablished\<rparr>
            | None \<Rightarrow> \<lparr>ct_src_addr = (src_ip p, port (src_port p)), ct_dst_addr = (dst_ip p, port (dst_port p)),
                ct_protocol = pkt_protocol p, ct_state = ConnNew, ct_created_at = secs, ct_last_seen = secs,
                ct_packet_count = 1, ct_byte_count = of_nat (packet_size p)\<rparr>)
      in pr\<lparr>conn_track := st_insert key e (conn_track pr)\<rparr>)"

definition check_rate_limit ::
  "nat \<Rightarrow> rate_limit_key \<Rightarrow> u32 \<Rightarrow> u32 \<Rightarrow> bool \<Rightarrow> acl_processor \<Rightarrow> (bool \<times> acl_processor) option" where
  "check_rate_limit now key rate burst allow_create pr =
     (if rate = 0 then Some (True, pr)
      else do {
        limiter \<leftarrow> (case st_get (rate_limiters pr) key of
            Some v \<Rightarrow> Some v
          | None \<Rightarrow> if \<not> allow_create then None
              else Some \<lparr>limiter_bucket = bucket_new now (unat burst) (unat rate) 10000, last_update = now\<rparr>);
        let (ok, b) = try_consume 1 (limiter_bucket limiter);
        Some (ok, pr\<lparr>rate_limiters := st_insert key \<lparr>limiter_bucket = b, last_update = now\<rparr> (rate_limiters pr)\<rparr>)
      })"

definition cleanup_expired_connections ::
  "u64 \<Rightarrow> u64 \<Rightarrow> (string, conn_track_entry) store \<Rightarrow> (string, conn_track_entry) store" where
  "cleanup_expired_connections current timeout ct =
     (let keys_to_remove = map fst (filter (\<lambda>(k, e). timeout < current - ct_last_seen e) ct)
      in fold st_remove keys_to_remove ct)"

section \<open>Packets\<close>

definition drop_result :: "rule_id \<Rightarrow> acl_log_context \<Rightarrow> acl_result" where
  "drop_result rid ctx = \<lparr>res_action = Drop, res_matched_rule = Some rid, should_log = False, log_context = Some ctx\<rparr>"

text \<open>The rate limits of a cached result, in order; the first that is exceeded drops the packet.\<close>

fun check_cached_limits ::
  "nat \<Rightarrow> rate_limit_key list \<Rightarrow> acl_processor \<Rightarrow> (bool \<times> acl_processor) option" where
  "check_cached_limits now [] pr = Some (True, pr)"
| "check_cached_limits now (k # ks) pr = do {
     (ok, pr') \<leftarrow> check_rate_limit now k 1 1 False pr;
     if ok then check_cached_limits now ks pr' else Some (False, pr')
   }"

definition process_packet_with_cache_entry ::
  "nat \<Rightarrow> u64 \<Rightarrow> packet_info \<Rightarrow> acl_cache_entry \<Rightarrow> acl_processor \<Rightarrow> (acl_result \<times> acl_processor) option" where
  "process_packet_with_cache_entry now secs p e pr = do {
     (ok, pr1) \<leftarrow> check_cached_limits now (rate_limit_keys e) pr;
     if \<not> ok then Some (drop_result (ce_matched_rule e) RateLimitDrop, pr1)
     else do {
       let pr2 = (case ce_conn_track_key e of None \<Rightarrow> pr1 | Some k \<Rightarrow> check_connection_state secs k p pr1);
       let pr3 = inc_cache_entry_stats e p pr2;
       r \<leftarrow> ce_result e;
       Some (r, pr3)
     }
   }"

fun chain_rules_of :: "acl_processor \<Rightarrow> chain_type \<Rightarrow> fast_rule list option" where
  "chain_rules_of pr Inbound = Some (inbound_rules pr)"
| "chain_rules_of pr Outbound = Some (outbound_rules pr)"
| "chain_rules_of pr Forward = Some (forward_rules pr)"
| "chain_rules_of pr UnspecifiedChain = None"

fun default_action_of :: "acl_processor \<Rightarrow> chain_type \<Rightarrow> action" where
  "default_action_of pr Inbound = default_inbound_action pr"
| "default_action_of pr Outbound = default_outbound_action pr"
| "default_action_of pr Forward = default_forward_action pr"
| "default_action_of pr UnspecifiedChain = Allow"

definition stateful_result :: "packet_info \<Rightarrow> fast_rule \<Rightarrow> acl_result" where
  "stateful_result p r = \<lparr>res_action = Allow, res_matched_rule = Some (RuleStateful (fr_priority r)), should_log = False,
     log_context = Some (StatefulMatch (src_ip p) (dst_ip p))\<rparr>"

definition rule_result :: "packet_info \<Rightarrow> fast_rule \<Rightarrow> acl_result" where
  "rule_result p r = \<lparr>res_action = fr_action r, res_matched_rule = Some (RulePriority (fr_priority r)), should_log = False,
     log_context = Some (RuleMatch (src_ip p) (dst_ip p) (fr_action r))\<rparr>"

definition default_result :: "action \<Rightarrow> acl_result" where
  "default_result a = \<lparr>res_action = a, res_matched_rule = Some RuleDefault, should_log = False,
     log_context = Some (if a = Drop then DefaultDrop else DefaultAllow)\<rparr>"

text \<open>The body of the rule loop for the first rule that matches; every path through it returns.\<close>

definition apply_rule ::
  "acl_env \<Rightarrow> nat \<Rightarrow> u64 \<Rightarrow> packet_info \<Rightarrow> chain_type \<Rightarrow> fast_rule \<Rightarrow> acl_cache_entry \<Rightarrow> acl_processor \<Rightarrow>
     (acl_result \<times> acl_processor) option" where
  "apply_rule env now secs p ct r e0 pr = do {
     let limited = (0 < fr_rate_limit r);
     let rule_key = \<lparr>rk_chain = ct, rk_priority = fr_priority r\<rparr>;
     let e1 = (if limited then e0\<lparr>rate_limit_keys := rate_limit_keys e0 @ [rule_key],
                 rule_stats_vec := rule_stats_vec e0 @ [fr_stats r]\<rparr> else e0);
     (ok, pr1) \<leftarrow> (if limited then check_rate_limit now rule_key (fr_rate_limit r) (fr_burst_limit r) True pr
                   else Some (True, pr));
     if \<not> ok then Some (drop_result (RulePriority (fr_priority r)) RateLimitDrop, pr1)
     else do {
       let (e2, pr2) =
         (if fr_stateful r \<and> fr_action r = Allow then
            let k = conn_track_key env p
            in (e1\<lparr>rule_stats_vec := rule_stats_vec e1 @ [fr_stats r], ce_matched_rule := RuleStateful (fr_priority r),
                   ce_conn_track_key := Some k, ce_result := Some (stateful_result p r)\<rparr>,
                check_connection_state secs k p pr1)
          else (e1\<lparr>rule_stats_vec := rule_stats_vec e1 @ [fr_stats r], ce_matched_rule := RulePriority (fr_priority r),
                   ce_result := Some (rule_result p r)\<rparr>, pr1));
       let pr3 = increment_stat RuleMatches pr2;
       let pr4 = inc_cache_entry_stats e2 p pr3;
       let pr5 = cache_result now (cache_key_of p ct) e2 pr4;
       res \<leftarrow> ce_result e2;
       Some (res, pr5)
     }
   }"

definition apply_default ::
  "nat \<Rightarrow> packet_info \<Rightarrow> chain_type \<Rightarrow> acl_cache_entry \<Rightarrow> acl_processor \<Rightarrow> (acl_result \<times> acl_processor) option" where
  "apply_default now p ct e0 pr = do {
     let a = default_action_of pr ct;
     let pr1 = increment_stat (if a = Drop then DefaultDrops else DefaultAllows) pr;
     let e1 = e0\<lparr>rule_stats_vec := rule_stats_vec e0 @ [default_rule_stats pr], ce_matched_rule := RuleDefault,
                ce_result := Some (default_result a)\<rparr>;
     let pr2 = inc_cache_entry_stats e1 p pr1;
     let pr3 = cache_result now (cache_key_of p ct) e1 pr2;
     res \<leftarrow> ce_result e1;
     Some (res, pr3)
   }"

definition empty_entry :: "nat \<Rightarrow> chain_type \<Rightarrow> acl_cache_entry" where
  "empty_entry now ct = \<lparr>ce_action = Allow, ce_matched_rule = RuleDefault, last_access = now, ce_conn_track_key = None,
     rate_limit_keys = [], ce_chain = ct, ce_result = None, rule_stats_vec = []\<rparr>"

definition process_packet ::
  "acl_env \<Rightarrow> nat \<Rightarrow> u64 \<Rightarrow> packet_info \<Rightarrow> chain_type \<Rightarrow> acl_processor \<Rightarrow> (acl_result \<times> acl_processor) option" where
  "process_packet env now secs p ct pr =
     (case st_get (rule_cache pr) (cache_key_of p ct) of
        Some e \<Rightarrow>
          let e' = e\<lparr>last_access := now\<rparr>;
              pr1 = increment_stat CacheHits (pr\<lparr>rule_cache := st_insert (cache_key_of p ct) e' (rule_cache pr)\<rparr>)
          in process_packet_with_cache_entry now secs p e' pr1
      | None \<Rightarrow> (case chain_rules_of pr ct of
            None \<Rightarrow> Some (drop_result RuleDefault UnsupportedChainType, pr)
          | Some rules \<Rightarrow> (case first_match (env_cidr env) rules p of
                Some r \<Rightarrow> apply_rule env now secs p ct r (empty_entry now ct) pr
              | None \<Rightarrow> apply_default now p ct (empty_entry now ct) pr)))"

section \<open>Background tasks and queries\<close>

text \<open>One round of the clean-up task; \<open>t1\<close> and \<open>t2\<close> are its two clock readings.\<close>

definition cleanup_tick :: "nat \<Rightarrow> nat \<Rightarrow> acl_processor \<Rightarrow> acl_processor" where
  "cleanup_tick t1 t2 pr =
     pr\<lparr>rule_cache := cleanup_cache t1 (cache_max_size pr) (rule_cache pr),
        rate_limiters := st_retain (\<lambda>_ v. t2 - last_update v < cache_cleanup_interval pr) (rate_limiters pr)\<rparr>"

definition connection_tick :: "u64 \<Rightarrow> acl_processor \<Rightarrow> acl_processor" where
  "connection_tick secs pr = pr\<lparr>conn_track := cleanup_expired_connections secs 60 (conn_track pr)\<rparr>"

text \<open>The refill task of a rate limiter's bucket.\<close>

definition refill_tick :: "nat \<Rightarrow> rate_limit_key \<Rightarrow> acl_processor \<Rightarrow> acl_processor" where
  "refill_tick now key pr = (case st_get (rate_limiters pr) key of
       None \<Rightarrow> pr
     | Some v \<Rightarrow> pr\<lparr>rate_limiters := st_insert key (v\<lparr>limiter_bucket := refill now (limiter_bucket v)\<rparr>) (rate_limiters pr)\<rparr>)"

definition get_rules_stats :: "acl_processor \<Rightarrow> rule_stats list" where
  "get_rules_stats pr = map (\<lambda>r. stat_cells pr ! fr_stats r) (inbound_rules pr @ outbound_rules pr @ forward_rules pr)"

definition get_shared_state ::
  "acl_processor \<Rightarrow> (string, conn_track_entry) store \<times> (rate_limit_key, rate_limit_value) store \<times> (acl_stat_key, u64) store" where
  "get_shared_state pr = (conn_track pr, rate_limiters pr, stats pr)"

definition get_stats :: "acl_processor \<Rightarrow> (acl_stat_key, u64) store" where
  "get_stats pr = st_insert CacheMaxSize (of_nat (cache_max_size pr))
     (st_insert CacheSize (of_nat (length (rule_cache pr))) (stats pr))"

fun from_chain_and_action :: "chain_type \<Rightarrow> acl_stat_type \<Rightarrow> acl_stat_key" where
  "from_chain_and_action Inbound StatTotal = InboundPacketsTotal"
| "from_chain_and_action Inbound StatAllowed = InboundPacketsAllowed"
| "from_chain_and_action Inbound StatDropped = InboundPacketsDropped"
| "from_chain_and_action Inbound StatNoop = InboundPacketsNoop"
| "from_chain_and_action Outbound StatTotal = OutboundPacketsTotal"
| "from_chain_and_action Outbound StatAllowed = OutboundPacketsAllowed"
| "from_chain_and_action Outbound StatDropped = OutboundPacketsDropped"
| "from_chain_and_action Outbound StatNoop = OutboundPacketsNoop"
| "from_chain_and_action Forward StatTotal = ForwardPacketsTotal"
| "from_chain_and_action Forward StatAllowed = ForwardPacketsAllowed"
| "from_chain_and_action Forward StatDropped = ForwardPacketsDropped"
| "from_chain_and_action Forward StatNoop = ForwardPacketsNoop"
| "from_chain_and_action UnspecifiedChain StatTotal = UnknownPacketsTotal"
| "from_chain_and_action UnspecifiedChain StatAllowed = UnknownPacketsAllowed"
| "from_chain_and_action UnspecifiedChain StatDropped = UnknownPacketsDropped"
| "from_chain_and_action UnspecifiedChain StatNoop = UnknownPacketsNoop"

section \<open>Clean-up of the cache\<close>

lemma st_remove_filter: "st_remove k m = filter (\<lambda>(k', v). k' \<noteq> k) m"
  by (auto simp: st_remove_def AList.delete_eq intro: filter_cong)

lemma fold_remove_filter: "fold (\<lambda>(k, _). st_remove k) xs m = filter (\<lambda>(k', v). k' \<notin> fst ` set xs) m"
  by (induction xs arbitrary: m) (auto simp: st_remove_filter intro: filter_cong)

lemma fold_remove_keys: "fold st_remove ks m = filter (\<lambda>(k', v). k' \<notin> set ks) m"
  by (induction ks arbitrary: m) (auto simp: st_remove_filter intro: filter_cong)

lemma st_wf_filter: "st_wf m \<Longrightarrow> st_wf (filter P m)"
  by (simp add: st_wf_def distinct_map_filter)

lemma st_get_filter_key: "st_get (filter (\<lambda>(k', v). P k') m) k = (if P k then st_get m k else None)"
  by (induction m) (auto simp: st_get_def)

lemma length_remove_keys:
  assumes "st_wf m" "distinct ks" "set ks \<subseteq> fst ` set m"
  shows "length (filter (\<lambda>(k, v). k \<notin> set ks) m) = length m - length ks"
proof -
  let ?xs = "map fst m"
  have d: "distinct ?xs" using assms(1) by (simp add: st_wf_def)
  have "length (filter (\<lambda>(k, v). k \<notin> set ks) m) = length (filter (\<lambda>k. k \<notin> set ks) ?xs)"
    by (simp add: filter_map o_def case_prod_unfold)
  also have "\<dots> = card (set (filter (\<lambda>k. k \<notin> set ks) ?xs))"
    using d by (metis distinct_card distinct_filter)
  also have "set (filter (\<lambda>k. k \<notin> set ks) ?xs) = set ?xs - set ks"
    by auto
  also have "card \<dots> = card (set ?xs) - card (set ks)"
    using assms(3) by (intro card_Diff_subset) auto
  also have "\<dots> = length m - length ks"
    using distinct_card [OF d] distinct_card [OF assms(2)] by simp
  finally show ?thesis .
qed

lemma cleanup_cache_length:
  assumes "st_wf cache"
  shows "length (cleanup_cache now n cache) \<le> n"
proof -
  define c1 where "c1 = st_retain (\<lambda>_ e. (if CACHE_EXPIRE \<le> now then now - CACHE_EXPIRE else now) < last_access e) cache"
  have wf: "st_wf c1" using assms by (simp add: c1_def store_simps)
  show ?thesis
  proof (cases "length c1 \<le> n")
    case True
    then show ?thesis by (simp add: cleanup_cache_def Let_def c1_def)
  next
    case False
    define es where "es = sort_key snd (map (\<lambda>(k, e). (k, last_access e)) c1)"
    define rm where "rm = length c1 - n + n div 5"
    have keys: "fst ` set es = fst ` set c1" "length es = length c1" by (force simp: es_def)+
    have "distinct (map fst (map (\<lambda>(k, e). (k, last_access e)) c1))"
      using wf by (simp add: st_wf_def o_def case_prod_unfold)
    then have "distinct (map fst es)"
      by (auto simp: es_def distinct_map intro: inj_on_imageI inj_on_imageI2)
    then have d: "distinct (map fst (take rm es))" by (simp add: take_map [symmetric] distinct_take)
    have "cleanup_cache now n cache = filter (\<lambda>(k', v). k' \<notin> fst ` set (take rm es)) c1"
      using False unfolding cleanup_cache_def Let_def c1_def [symmetric] es_def [symmetric] rm_def [symmetric]
      by (simp add: fold_remove_filter)
    also have "length \<dots> = length c1 - length (take rm es)"
      using length_remove_keys [OF wf d] image_mono [OF set_take_subset [of rm es], of fst] keys(1) by simp
    finally show ?thesis using False keys(2) by (simp add: rm_def)
  qed
qed

lemma cleanup_cache_get:
  assumes "st_wf cache" "st_get (cleanup_cache now n cache) k = Some e"
  shows "st_get cache k = Some e" "(if CACHE_EXPIRE \<le> now then now - CACHE_EXPIRE else now) < last_access e"
  using assms
  by (auto simp: cleanup_cache_def Let_def fold_remove_filter st_get_filter_key st.get_retain_Some_iff split: if_splits)

lemma cleanup_cache_wf: "st_wf cache \<Longrightarrow> st_wf (cleanup_cache now n cache)"
  by (simp add: cleanup_cache_def Let_def fold_remove_filter st_wf_filter store_simps)

section \<open>The cache is transparent\<close>

text \<open>Ports are present exactly for TCP and UDP, as the packet parser delivers them.\<close>

definition ports_regular :: "packet_info \<Rightarrow> bool" where
  "ports_regular p \<longleftrightarrow> (let tu = (pkt_protocol p = Tcp \<or> pkt_protocol p = Udp)
     in (src_port p \<noteq> None) = tu \<and> (dst_port p \<noteq> None) = tu)"

lemma cache_key_determines:
  assumes "ports_regular p" "ports_regular p'" "cache_key_of p ct = cache_key_of p' ct'"
  shows "ct' = ct" "p' = p\<lparr>packet_size := packet_size p'\<rparr>"
  using assms
  by (auto simp: ports_regular_def cache_key_of_def Let_def split: option.splits intro!: packet_info.equality)

lemma packet_size_irrelevant [simp]:
  "rule_matches lib r (p\<lparr>packet_size := n\<rparr>) = rule_matches lib r p"
  "first_match lib rules (p\<lparr>packet_size := n\<rparr>) = first_match lib rules p"
  "stateful_result (p\<lparr>packet_size := n\<rparr>) r = stateful_result p r"
  "rule_result (p\<lparr>packet_size := n\<rparr>) r = rule_result p r"
  "conn_track_key env (p\<lparr>packet_size := n\<rparr>) = conn_track_key env p"
  by (simp_all add: rule_matches_def first_match_def stateful_result_def rule_result_def conn_track_key_def)

text \<open>What the rules say about a packet, without cache and rate limits.\<close>

definition rule_verdict :: "packet_info \<Rightarrow> fast_rule \<Rightarrow> acl_result" where
  "rule_verdict p r = (if fr_stateful r \<and> fr_action r = Allow then stateful_result p r else rule_result p r)"

definition verdict :: "acl_env \<Rightarrow> acl_processor \<Rightarrow> packet_info \<Rightarrow> chain_type \<Rightarrow> acl_result" where
  "verdict env pr p ct = (case chain_rules_of pr ct of
       None \<Rightarrow> drop_result RuleDefault UnsupportedChainType
     | Some rules \<Rightarrow> (case first_match (env_cidr env) rules p of
           Some r \<Rightarrow> rule_verdict p r
         | None \<Rightarrow> default_result (default_action_of pr ct)))"

text \<open>The rate limiter a packet has to pass.\<close>

definition limiter_for :: "acl_env \<Rightarrow> acl_processor \<Rightarrow> packet_info \<Rightarrow> chain_type \<Rightarrow> rate_limit_key list" where
  "limiter_for env pr p ct = (case chain_rules_of pr ct of
       None \<Rightarrow> []
     | Some rules \<Rightarrow> (case first_match (env_cidr env) rules p of
           Some r \<Rightarrow> if 0 < fr_rate_limit r then [\<lparr>rk_chain = ct, rk_priority = fr_priority r\<rparr>] else []
         | None \<Rightarrow> []))"

definition entry_ok :: "acl_env \<Rightarrow> acl_processor \<Rightarrow> nat \<Rightarrow> acl_cache_key \<Rightarrow> acl_cache_entry \<Rightarrow> bool" where
  "entry_ok env pr clock key e \<longleftrightarrow> last_access e \<le> clock
     \<and> (\<exists>p ct. ports_regular p \<and> key = cache_key_of p ct \<and> ce_result e = Some (verdict env pr p ct)
         \<and> rate_limit_keys e = limiter_for env pr p ct)
     \<and> (\<forall>k \<in> set (rate_limit_keys e). \<exists>v. st_get (rate_limiters pr) k = Some v \<and> last_access e \<le> last_update v)"

definition acl_inv :: "acl_env \<Rightarrow> nat \<Rightarrow> acl_processor \<Rightarrow> bool" where
  "acl_inv env clock pr \<longleftrightarrow> st_wf (rule_cache pr) \<and> st_wf (rate_limiters pr)
     \<and> cache_cleanup_interval pr = 20000000
     \<and> length (rule_cache pr) \<le> 2 * cache_max_size pr
     \<and> (\<forall>k v. st_get (rate_limiters pr) k = Some v \<longrightarrow> last_update v \<le> clock)
     \<and> (\<forall>k e. st_get (rule_cache pr) k = Some e \<longrightarrow> entry_ok env pr clock k e)"

text \<open>The static part of a processor never changes.\<close>

definition same_rules :: "acl_processor \<Rightarrow> acl_processor \<Rightarrow> bool" where
  "same_rules pr pr' \<longleftrightarrow> inbound_rules pr' = inbound_rules pr \<and> outbound_rules pr' = outbound_rules pr
     \<and> forward_rules pr' = forward_rules pr \<and> default_inbound_action pr' = default_inbound_action pr
     \<and> default_outbound_action pr' = default_outbound_action pr \<and> default_forward_action pr' = default_forward_action pr
     \<and> cache_max_size pr' = cache_max_size pr \<and> cache_cleanup_interval pr' = cache_cleanup_interval pr"

lemma same_rules_spec:
  assumes "same_rules pr pr'"
  shows "chain_rules_of pr' ct = chain_rules_of pr ct" "default_action_of pr' ct = default_action_of pr ct"
    "verdict env pr' p ct = verdict env pr p ct" "limiter_for env pr' p ct = limiter_for env pr p ct"
proof -
  show 1: "chain_rules_of pr' ct = chain_rules_of pr ct" "default_action_of pr' ct = default_action_of pr ct"
    using assms by (cases ct; simp add: same_rules_def)+
  show "verdict env pr' p ct = verdict env pr p ct" "limiter_for env pr' p ct = limiter_for env pr p ct"
    unfolding verdict_def limiter_for_def 1 by (rule refl)+
qed

lemma check_rate_limit_create:
  assumes "0 < rate"
  shows "\<exists>ok v. check_rate_limit now k rate burst True pr = Some (ok, pr\<lparr>rate_limiters := st_insert k v (rate_limiters pr)\<rparr>)
    \<and> last_update v = now"
  using assms by (auto simp: check_rate_limit_def split: option.splits prod.splits)

lemma check_rate_limit_hit:
  assumes "st_get (rate_limiters pr) k = Some v0"
  shows "\<exists>ok v. check_rate_limit now k 1 1 False pr = Some (ok, pr\<lparr>rate_limiters := st_insert k v (rate_limiters pr)\<rparr>)
    \<and> last_update v = now"
  using assms by (auto simp: check_rate_limit_def split: prod.splits)

text \<open>Updating a limiter to the present keeps every cached entry in order.\<close>

lemma entry_ok_mono:
  assumes "entry_ok env pr clock k e" "same_rules pr pr'" "clock \<le> now"
    and "\<And>rk v. st_get (rate_limiters pr) rk = Some v \<Longrightarrow>
      \<exists>v'. st_get (rate_limiters pr') rk = Some v' \<and> (last_update v \<le> last_update v' \<or> last_update v' = now)"
  shows "entry_ok env pr' now k e"
proof -
  have "\<exists>v. st_get (rate_limiters pr') rk = Some v \<and> last_access e \<le> last_update v"
    if rk: "rk \<in> set (rate_limit_keys e)" for rk
  proof -
    obtain v where v: "st_get (rate_limiters pr) rk = Some v" "last_access e \<le> last_update v" "last_access e \<le> clock"
      using assms(1) rk by (auto simp: entry_ok_def)
    from assms(4) [OF v(1)] v assms(3) show ?thesis by (metis le_trans)
  qed
  moreover have "last_access e \<le> now" using assms(1,3) by (simp add: entry_ok_def)
  ultimately show ?thesis
    using assms(1) same_rules_spec [OF assms(2)] unfolding entry_ok_def by auto
qed

lemma entry_okI:
  assumes "ports_regular p" "ce_result e = Some (verdict env pr p ct)" "rate_limit_keys e = limiter_for env pr p ct"
    "last_access e \<le> clock"
    "\<And>k. k \<in> set (rate_limit_keys e) \<Longrightarrow> \<exists>v. st_get (rate_limiters pr) k = Some v \<and> last_access e \<le> last_update v"
  shows "entry_ok env pr clock (cache_key_of p ct) e"
  using assms unfolding entry_ok_def by blast

lemma acl_inv_updates:
  "acl_inv env clock pr \<Longrightarrow> clock \<le> now \<Longrightarrow> st_get (rate_limiters pr) k = Some v \<Longrightarrow> last_update v \<le> now"
  unfolding acl_inv_def by (meson le_trans)

lemma acl_inv_limiter:
  assumes "acl_inv env clock pr" "clock \<le> now" "last_update v = now"
  shows "acl_inv env now (pr\<lparr>rate_limiters := st_insert k v (rate_limiters pr)\<rparr>)"
proof -
  let ?pr = "pr\<lparr>rate_limiters := st_insert k v (rate_limiters pr)\<rparr>"
  have sr: "same_rules pr ?pr" by (simp add: same_rules_def)
  have "entry_ok env ?pr now key e" if "st_get (rule_cache pr) key = Some e" for key e
    using that assms(1) by (intro entry_ok_mono [OF _ sr assms(2)]) (auto simp: acl_inv_def store_simps assms(3))
  with assms(1,3) acl_inv_updates [OF assms(1,2)] show ?thesis
    by (auto simp: acl_inv_def store_simps split: if_splits)
qed

text \<open>Storing an entry that is in order.\<close>

lemma acl_inv_cache_result:
  assumes "acl_inv env clock pr" "clock \<le> now" "entry_ok env pr now key e"
  shows "acl_inv env now (cache_result now key e pr)"
proof -
  let ?c = "st_insert key e (rule_cache pr)"
  have wf: "st_wf ?c" using assms(1) by (simp add: acl_inv_def store_simps)
  have all: "entry_ok env pr now k x" if "st_get ?c k = Some x" for k x
  proof (cases "k = key")
    case False
    with that assms(1) have "entry_ok env pr clock k x" by (simp add: acl_inv_def store_simps)
    then show ?thesis by (rule entry_ok_mono) (use assms(2) in \<open>auto simp: same_rules_def\<close>)
  qed (use that assms(3) in \<open>simp add: store_simps\<close>)
  let ?c' = "rule_cache (cache_result now key e pr)"
  have sub: "st_get ?c k = Some x" if "st_get ?c' k = Some x" for k x
    using that cleanup_cache_get(1) [OF wf] by (auto simp: cache_result_def Let_def split: if_splits)
  have wf': "st_wf ?c'" using wf by (simp add: cache_result_def Let_def cleanup_cache_wf)
  have len: "length ?c' \<le> 2 * cache_max_size pr"
    using cleanup_cache_length [OF wf, of now "cache_max_size pr"] by (simp add: cache_result_def Let_def)
  have ok: "entry_ok env (cache_result now key e pr) now k x" if "st_get ?c' k = Some x" for k x
    by (rule entry_ok_mono [OF all [OF sub [OF that]]]) (auto simp: same_rules_def cache_result_def Let_def)
  show ?thesis
    using assms(1) acl_inv_updates [OF assms(1,2)] wf' len ok by (auto simp: acl_inv_def cache_result_def Let_def)
qed

text \<open>Counters and the connection table do not matter.\<close>

lemma acl_inv_other:
  assumes "acl_inv env clock pr" "same_rules pr pr'" "rule_cache pr' = rule_cache pr" "rate_limiters pr' = rate_limiters pr"
    "clock \<le> now"
  shows "acl_inv env now pr'"
proof -
  have "entry_ok env pr' now k e" if "st_get (rule_cache pr) k = Some e" for k e
    using that assms(1) by (intro entry_ok_mono [OF _ assms(2,5)]) (auto simp: acl_inv_def assms(4))
  with assms(1-4) acl_inv_updates [OF assms(1,5)] show ?thesis by (auto simp: acl_inv_def same_rules_def)
qed

lemma frame_other [simp]:
  "same_rules pr (increment_stat key pr)" "rule_cache (increment_stat key pr) = rule_cache pr"
  "rate_limiters (increment_stat key pr) = rate_limiters pr"
  "same_rules pr (inc_cache_entry_stats e p pr)" "rule_cache (inc_cache_entry_stats e p pr) = rule_cache pr"
  "rate_limiters (inc_cache_entry_stats e p pr) = rate_limiters pr"
  "same_rules pr (check_connection_state secs ck p pr)" "rule_cache (check_connection_state secs ck p pr) = rule_cache pr"
  "rate_limiters (check_connection_state secs ck p pr) = rate_limiters pr"
  by (simp_all add: same_rules_def increment_stat_def inc_cache_entry_stats_def check_connection_state_def Let_def)

lemma same_rules_trans: "same_rules a b \<Longrightarrow> same_rules b c \<Longrightarrow> same_rules a c"
  by (simp add: same_rules_def)

text \<open>The outcome of one packet: the verdict of the rules, or a drop by the rate limiter of the rule
  that decides.\<close>

definition outcome_ok :: "acl_env \<Rightarrow> acl_processor \<Rightarrow> packet_info \<Rightarrow> chain_type \<Rightarrow> acl_result \<Rightarrow> bool" where
  "outcome_ok env pr p ct res \<longleftrightarrow> res = verdict env pr p ct
     \<or> (limiter_for env pr p ct \<noteq> [] \<and> res_action res = Drop \<and> log_context res = Some RateLimitDrop)"

lemma acl_inv_touch:
  assumes "acl_inv env clock pr" "clock \<le> now" "st_get (rule_cache pr) key = Some e0" "entry_ok env pr now key e"
  shows "acl_inv env now (pr\<lparr>rule_cache := st_insert key e (rule_cache pr)\<rparr>)"
proof -
  let ?pr = "pr\<lparr>rule_cache := st_insert key e (rule_cache pr)\<rparr>"
  have wf: "st_wf (rule_cache pr)" using assms(1) by (simp add: acl_inv_def)
  have "{k. \<exists>v. st_get (st_insert key e (rule_cache pr)) k = Some v} = {k. \<exists>v. st_get (rule_cache pr) k = Some v}"
    using assms(3) by (auto simp: store_simps)
  then have len: "length (st_insert key e (rule_cache pr)) = length (rule_cache pr)"
    using st.size_of_card [OF wf] st.size_of_card [OF st.wf_insert [OF wf]] by simp
  have "entry_ok env ?pr now k x" if "st_get (st_insert key e (rule_cache pr)) k = Some x" for k x
  proof (rule entry_ok_mono [of env pr now])
    show "entry_ok env pr now k x"
    proof (cases "k = key")
      case False
      with that assms(1) have "entry_ok env pr clock k x" by (simp add: acl_inv_def store_simps)
      then show ?thesis by (rule entry_ok_mono) (use assms(2) in \<open>auto simp: same_rules_def\<close>)
    qed (use that assms(4) in \<open>simp add: store_simps\<close>)
  qed (auto simp: same_rules_def)
  with assms(1) len wf acl_inv_updates [OF assms(1,2)] show ?thesis by (auto simp: acl_inv_def store_simps)
qed

lemma cached_entry_spec:
  assumes "acl_inv env clock pr" "ports_regular p" "st_get (rule_cache pr) (cache_key_of p ct) = Some e"
  shows "ce_result e = Some (verdict env pr p ct)" "rate_limit_keys e = limiter_for env pr p ct"
    "k \<in> set (rate_limit_keys e) \<Longrightarrow> \<exists>v. st_get (rate_limiters pr) k = Some v"
proof -
  have e: "entry_ok env pr clock (cache_key_of p ct) e" using assms by (simp add: acl_inv_def)
  then obtain p0 ct0 where p0: "ports_regular p0" "cache_key_of p ct = cache_key_of p0 ct0"
      "ce_result e = Some (verdict env pr p0 ct0)" "rate_limit_keys e = limiter_for env pr p0 ct0"
    by (auto simp: entry_ok_def)
  from cache_key_determines [OF assms(2) p0(1,2)] have "ct0 = ct" and pk: "p0 = p\<lparr>packet_size := packet_size p0\<rparr>" by simp_all
  have "verdict env pr (p\<lparr>packet_size := n\<rparr>) ct = verdict env pr p ct"
    "limiter_for env pr (p\<lparr>packet_size := n\<rparr>) ct = limiter_for env pr p ct" for n
    by (auto simp: verdict_def rule_verdict_def limiter_for_def split: option.splits)
  with p0(3,4) pk \<open>ct0 = ct\<close> show "ce_result e = Some (verdict env pr p ct)" "rate_limit_keys e = limiter_for env pr p ct"
    by metis+
  show "\<exists>v. st_get (rate_limiters pr) k = Some v" if "k \<in> set (rate_limit_keys e)"
    using that e by (auto simp: entry_ok_def)
qed

lemma limiter_for_cases: "limiter_for env pr p ct = [] \<or> (\<exists>k. limiter_for env pr p ct = [k])"
  by (auto simp: limiter_for_def split: option.splits)

lemma hit_entry_ok:
  assumes "entry_ok env pr clock key e" "same_rules pr pr'"
    and "\<forall>k \<in> set (rate_limit_keys e). \<exists>v. st_get (rate_limiters pr') k = Some v \<and> last_update v = now"
  shows "entry_ok env pr' now key (e\<lparr>last_access := now\<rparr>)"
  using assms same_rules_spec [OF assms(2)] unfolding entry_ok_def by fastforce

lemma process_hit:
  assumes inv: "acl_inv env clock pr" and t: "clock \<le> now" and p: "ports_regular p"
    and hit: "st_get (rule_cache pr) (cache_key_of p ct) = Some e"
  shows "\<exists>res pr'. process_packet env now secs p ct pr = Some (res, pr') \<and> outcome_ok env pr p ct res
    \<and> same_rules pr pr' \<and> acl_inv env now pr'"
proof -
  let ?key = "cache_key_of p ct" and ?e = "e\<lparr>last_access := now\<rparr>"
  let ?touch = "\<lambda>pr. pr\<lparr>rule_cache := st_insert ?key ?e (rule_cache pr)\<rparr>"
  let ?pr1 = "increment_stat CacheHits (?touch pr)"
  note spec = cached_entry_spec [OF inv p hit]
  have e: "entry_ok env pr clock ?key e" using inv hit by (simp add: acl_inv_def)
  obtain ok rl where lim: "check_cached_limits now (rate_limit_keys e) ?pr1 = Some (ok, ?pr1\<lparr>rate_limiters := rl\<rparr>)"
    and ok: "limiter_for env pr p ct = [] \<Longrightarrow> ok"
    and core: "acl_inv env now (?touch (pr\<lparr>rate_limiters := rl\<rparr>))"
  proof (cases "limiter_for env pr p ct = []")
    case True
    have "acl_inv env now (?touch pr)"
      by (rule acl_inv_touch [OF inv t hit hit_entry_ok [OF e]]) (simp_all add: True spec(2) same_rules_def)
    with True that [of True "rate_limiters pr"] spec(2) show thesis
      by (simp add: increment_stat_def)
  next
    case False
    then obtain k where k: "limiter_for env pr p ct = [k]" using limiter_for_cases by blast
    obtain v0 where v0: "st_get (rate_limiters ?pr1) k = Some v0"
      using spec(3) [of k] spec(2) k by auto
    obtain ok v where c: "check_rate_limit now k 1 1 False ?pr1
        = Some (ok, ?pr1\<lparr>rate_limiters := st_insert k v (rate_limiters ?pr1)\<rparr>)" "last_update v = now"
      using check_rate_limit_hit [OF v0] by blast
    let ?prl = "pr\<lparr>rate_limiters := st_insert k v (rate_limiters pr)\<rparr>"
    have inv': "acl_inv env now ?prl" by (rule acl_inv_limiter [OF inv t c(2)])
    have hit': "st_get (rule_cache ?prl) ?key = Some e" using hit by simp
    have "entry_ok env ?prl now ?key ?e"
      by (rule hit_entry_ok [OF e]) (auto simp: same_rules_def spec(2) k store_simps c(2))
    then have "acl_inv env now (?touch ?prl)"
      by (rule acl_inv_touch [OF inv' order_refl hit'])
    with that [of ok "st_insert k v (rate_limiters pr)"] c(1) spec(2) k False show thesis by simp
  qed
  have "\<exists>res pr'. process_packet env now secs p ct pr = Some (res, pr') \<and> outcome_ok env pr p ct res
      \<and> same_rules (?pr1\<lparr>rate_limiters := rl\<rparr>) pr' \<and> rule_cache pr' = rule_cache ?pr1 \<and> rate_limiters pr' = rl"
    using hit lim ok spec(1,2)
    by (cases ok; cases "ce_conn_track_key e")
      (auto simp: process_packet_def process_packet_with_cache_entry_def Let_def outcome_ok_def drop_result_def
        intro!: same_rules_trans [OF frame_other(7) frame_other(4)] simp del: check_cached_limits.simps,
       auto simp: same_rules_def)
  then obtain res pr' where r: "process_packet env now secs p ct pr = Some (res, pr')" "outcome_ok env pr p ct res"
      "same_rules (?pr1\<lparr>rate_limiters := rl\<rparr>) pr'" "rule_cache pr' = rule_cache ?pr1" "rate_limiters pr' = rl" by blast
  have "same_rules (?touch (pr\<lparr>rate_limiters := rl\<rparr>)) pr'" "same_rules pr pr'"
    using r(3) by (simp_all add: same_rules_def increment_stat_def)
  moreover from this(1) have "acl_inv env now pr'"
    by (rule acl_inv_other [OF core _ _ _ order_refl]) (simp_all add: r(4,5))
  ultimately show ?thesis using r(1,2) by blast
qed

text \<open>The first half of the rule body: passing the rate limiter.\<close>

lemma apply_rule_limit:
  assumes "acl_inv env clock pr" "clock \<le> now"
  obtains ok rl where
    "(if 0 < fr_rate_limit r then check_rate_limit now \<lparr>rk_chain = ct, rk_priority = fr_priority r\<rparr> (fr_rate_limit r) (fr_burst_limit r) True pr
      else Some (True, pr)) = Some (ok, pr\<lparr>rate_limiters := rl\<rparr>)"
    "fr_rate_limit r = 0 \<longrightarrow> ok" "acl_inv env now (pr\<lparr>rate_limiters := rl\<rparr>)"
    "0 < fr_rate_limit r \<longrightarrow> (\<exists>v. st_get rl \<lparr>rk_chain = ct, rk_priority = fr_priority r\<rparr> = Some v \<and> last_update v = now)"
proof (cases "0 < fr_rate_limit r")
  case True
  obtain ok v where "check_rate_limit now \<lparr>rk_chain = ct, rk_priority = fr_priority r\<rparr> (fr_rate_limit r) (fr_burst_limit r) True pr
      = Some (ok, pr\<lparr>rate_limiters := st_insert \<lparr>rk_chain = ct, rk_priority = fr_priority r\<rparr> v (rate_limiters pr)\<rparr>)" "last_update v = now"
    using check_rate_limit_create [OF True] by blast
  with that [of ok "st_insert \<lparr>rk_chain = ct, rk_priority = fr_priority r\<rparr> v (rate_limiters pr)"] acl_inv_limiter [OF assms] True
  show thesis by (auto simp: store_simps word_gt_0)
next
  case False
  have "acl_inv env now (pr\<lparr>rate_limiters := rate_limiters pr\<rparr>)"
    by (rule acl_inv_other [OF assms(1) _ _ _ assms(2)]) (simp_all add: same_rules_def)
  with that [of True "rate_limiters pr"] False show thesis by simp
qed

text \<open>The second half: the cached entry, the connection table and the counters.\<close>

lemma apply_rule_ok:
  assumes "(if 0 < fr_rate_limit r then check_rate_limit now \<lparr>rk_chain = ct, rk_priority = fr_priority r\<rparr> (fr_rate_limit r) (fr_burst_limit r) True pr
      else Some (True, pr)) = Some (True, pr1)"
  obtains e pr2 where "ce_result e = Some (rule_verdict p r)" "last_access e = now"
    "rate_limit_keys e = (if 0 < fr_rate_limit r then [\<lparr>rk_chain = ct, rk_priority = fr_priority r\<rparr>] else [])"
    "rule_stats_vec e = (if 0 < fr_rate_limit r then [fr_stats r, fr_stats r] else [fr_stats r])"
    "pr2 = pr1 \<or> pr2 = check_connection_state secs (conn_track_key env p) p pr1"
    "apply_rule env now secs p ct r (empty_entry now ct) pr
        = Some (rule_verdict p r, cache_result now (cache_key_of p ct) e (inc_cache_entry_stats e p (increment_stat RuleMatches pr2)))"
proof -
  let ?k = "\<lparr>rk_chain = ct, rk_priority = fr_priority r\<rparr>"
  define e1 where "e1 = (if 0 < fr_rate_limit r then (empty_entry now ct)\<lparr>rate_limit_keys := [?k], rule_stats_vec := [fr_stats r]\<rparr>
    else empty_entry now ct)"
  have e1: "(if 0 < fr_rate_limit r then (empty_entry now ct)\<lparr>rate_limit_keys := rate_limit_keys (empty_entry now ct) @ [?k],
      rule_stats_vec := rule_stats_vec (empty_entry now ct) @ [fr_stats r]\<rparr> else empty_entry now ct) = e1"
    by (simp add: e1_def empty_entry_def)
  have f: "rate_limit_keys e1 = (if 0 < fr_rate_limit r then [?k] else [])" "last_access e1 = now"
      "rule_stats_vec e1 = (if 0 < fr_rate_limit r then [fr_stats r] else [])"
    by (simp_all add: e1_def empty_entry_def)
  note def = apply_rule_def [of env now secs p ct r "empty_entry now ct" pr, unfolded e1 Let_def assms]
  show thesis
  proof (cases "fr_stateful r \<and> fr_action r = Allow")
    case True
    show thesis
      by (rule that [of "e1\<lparr>rule_stats_vec := rule_stats_vec e1 @ [fr_stats r], ce_matched_rule := RuleStateful (fr_priority r),
            ce_conn_track_key := Some (conn_track_key env p), ce_result := Some (stateful_result p r)\<rparr>"
          "check_connection_state secs (conn_track_key env p) p pr1"])
        (use True f in \<open>simp_all add: rule_verdict_def def\<close>)
  next
    case False
    show thesis
      by (rule that [of "e1\<lparr>rule_stats_vec := rule_stats_vec e1 @ [fr_stats r], ce_matched_rule := RulePriority (fr_priority r),
            ce_result := Some (rule_result p r)\<rparr>" pr1])
        (use False f in \<open>auto simp: rule_verdict_def def\<close>)
  qed
qed

lemma process_miss_rule:
  assumes inv: "acl_inv env clock pr" and t: "clock \<le> now" and p: "ports_regular p"
    and rules: "chain_rules_of pr ct = Some rules" "first_match (env_cidr env) rules p = Some r"
  shows "\<exists>res pr'. apply_rule env now secs p ct r (empty_entry now ct) pr = Some (res, pr') \<and> outcome_ok env pr p ct res
    \<and> same_rules pr pr' \<and> acl_inv env now pr'"
proof -
  let ?k = "\<lparr>rk_chain = ct, rk_priority = fr_priority r\<rparr>"
  obtain ok rl where lim: "(if 0 < fr_rate_limit r then check_rate_limit now ?k (fr_rate_limit r) (fr_burst_limit r) True pr
      else Some (True, pr)) = Some (ok, pr\<lparr>rate_limiters := rl\<rparr>)"
    and ok: "fr_rate_limit r = 0 \<longrightarrow> ok" and inv1: "acl_inv env now (pr\<lparr>rate_limiters := rl\<rparr>)"
    and upd: "0 < fr_rate_limit r \<longrightarrow> (\<exists>v. st_get rl ?k = Some v \<and> last_update v = now)"
    by (rule apply_rule_limit [OF inv t, of r ct])
  have spec: "verdict env pr p ct = rule_verdict p r" "limiter_for env pr p ct = (if 0 < fr_rate_limit r then [?k] else [])"
    using rules by (simp_all add: verdict_def limiter_for_def)
  show ?thesis
  proof (cases ok)
    case False
    then have "0 < fr_rate_limit r" using ok by (auto simp: word_gt_0)
    with False lim inv1 spec show ?thesis
      by (auto simp: apply_rule_def outcome_ok_def drop_result_def same_rules_def Let_def)
  next
    case True
    obtain e pr2 where e: "ce_result e = Some (rule_verdict p r)" "last_access e = now"
        "rate_limit_keys e = (if 0 < fr_rate_limit r then [?k] else [])" "rule_stats_vec e = (if 0 < fr_rate_limit r then [fr_stats r, fr_stats r] else [fr_stats r])"
        "pr2 = pr\<lparr>rate_limiters := rl\<rparr> \<or> pr2 = check_connection_state secs (conn_track_key env p) p (pr\<lparr>rate_limiters := rl\<rparr>)"
      and res: "apply_rule env now secs p ct r (empty_entry now ct) pr
        = Some (rule_verdict p r, cache_result now (cache_key_of p ct) e (inc_cache_entry_stats e p (increment_stat RuleMatches pr2)))"
      by (rule apply_rule_ok [OF lim [unfolded eqTrueI [OF True]]])
    have pr2: "same_rules pr pr2" "rule_cache pr2 = rule_cache pr" "rate_limiters pr2 = rl"
      using e(5) by (auto simp: same_rules_def check_connection_state_def Let_def)
    let ?pr3 = "inc_cache_entry_stats e p (increment_stat RuleMatches pr2)"
    have sr: "same_rules pr ?pr3" using pr2(1) frame_other(1,4) same_rules_trans by blast
    have inv3: "acl_inv env now ?pr3"
      by (rule acl_inv_other [OF inv1 _ _ _ order_refl]) (use sr pr2 in \<open>simp_all add: same_rules_def\<close>)
    have "entry_ok env ?pr3 now (cache_key_of p ct) e"
      by (rule entry_okI [OF p]) (use e upd spec pr2(3) same_rules_spec [OF sr] in auto)
    then have "acl_inv env now (cache_result now (cache_key_of p ct) e ?pr3)"
      by (rule acl_inv_cache_result [OF inv3 order_refl])
    moreover have "same_rules pr (cache_result now (cache_key_of p ct) e ?pr3)"
      using sr by (simp add: same_rules_def cache_result_def Let_def)
    ultimately show ?thesis using res spec(1) by (auto simp: outcome_ok_def)
  qed
qed

lemma process_miss_default:
  assumes inv: "acl_inv env clock pr" and t: "clock \<le> now" and p: "ports_regular p"
    and rules: "chain_rules_of pr ct = Some rules" "first_match (env_cidr env) rules p = None"
  shows "\<exists>res pr'. apply_default now p ct (empty_entry now ct) pr = Some (res, pr') \<and> outcome_ok env pr p ct res
    \<and> same_rules pr pr' \<and> acl_inv env now pr'"
proof -
  let ?a = "default_action_of pr ct"
  define e where "e = (empty_entry now ct)\<lparr>rule_stats_vec := [default_rule_stats pr], ce_matched_rule := RuleDefault,
    ce_result := Some (default_result ?a)\<rparr>"
  let ?pr1 = "inc_cache_entry_stats e p (increment_stat (if ?a = Drop then DefaultDrops else DefaultAllows) pr)"
  have spec: "verdict env pr p ct = default_result ?a" "limiter_for env pr p ct = []"
    using rules by (simp_all add: verdict_def limiter_for_def)
  have res: "apply_default now p ct (empty_entry now ct) pr = Some (default_result ?a, cache_result now (cache_key_of p ct) e ?pr1)"
    by (simp add: apply_default_def e_def empty_entry_def Let_def)
  have sr: "same_rules pr ?pr1" using frame_other(1,4) same_rules_trans by blast
  have inv1: "acl_inv env now ?pr1"
    by (rule acl_inv_other [OF inv sr _ _ t]) simp_all
  have "entry_ok env ?pr1 now (cache_key_of p ct) e"
    by (rule entry_okI [OF p]) (use spec same_rules_spec [OF sr] in \<open>auto simp: e_def empty_entry_def\<close>)
  then have "acl_inv env now (cache_result now (cache_key_of p ct) e ?pr1)"
    by (rule acl_inv_cache_result [OF inv1 order_refl])
  moreover have "same_rules pr (cache_result now (cache_key_of p ct) e ?pr1)"
    using sr by (simp add: same_rules_def cache_result_def Let_def)
  ultimately show ?thesis using res spec(1) by (auto simp: outcome_ok_def)
qed

lemma process_packet_ok:
  assumes "acl_inv env clock pr" "clock \<le> now" "ports_regular p"
  shows "\<exists>res pr'. process_packet env now secs p ct pr = Some (res, pr') \<and> outcome_ok env pr p ct res
    \<and> same_rules pr pr' \<and> acl_inv env now pr'"
proof (cases "st_get (rule_cache pr) (cache_key_of p ct)")
  case (Some e)
  then show ?thesis by (rule process_hit [OF assms])
next
  case None
  show ?thesis
  proof (cases "chain_rules_of pr ct")
    case unsupported: None
    have "acl_inv env now pr"
      by (rule acl_inv_other [OF assms(1) _ _ _ assms(2)]) (simp_all add: same_rules_def)
    with None unsupported show ?thesis
      by (simp add: process_packet_def outcome_ok_def verdict_def same_rules_def)
  next
    case (Some rules)
    with None show ?thesis
      using process_miss_rule [OF assms Some] process_miss_default [OF assms Some]
      by (cases "first_match (env_cidr env) rules p") (auto simp: process_packet_def)
  qed
qed

section \<open>Runs of a processor\<close>

text \<open>
  Packets, clean-up rounds, refills and counter updates in any order, with a clock that does not run
  backwards.  A clean-up round takes at most five seconds between its two clock readings.
\<close>

inductive acl_run :: "acl_env \<Rightarrow> acl_processor \<Rightarrow> nat \<Rightarrow> acl_processor \<Rightarrow> bool" for env pr0 where
  acl_start: "acl_run env pr0 clock pr0"
| acl_packet: "acl_run env pr0 clock pr \<Longrightarrow> clock \<le> now \<Longrightarrow> ports_regular p \<Longrightarrow>
    process_packet env now secs p ct pr = Some (res, pr') \<Longrightarrow> acl_run env pr0 now pr'"
| acl_cleanup: "acl_run env pr0 clock pr \<Longrightarrow> clock \<le> t1 \<Longrightarrow> t1 \<le> t2 \<Longrightarrow> t2 \<le> t1 + 5000000 \<Longrightarrow>
    acl_run env pr0 t2 (cleanup_tick t1 t2 pr)"
| acl_connections: "acl_run env pr0 clock pr \<Longrightarrow> acl_run env pr0 clock (connection_tick secs pr)"
| acl_refill: "acl_run env pr0 clock pr \<Longrightarrow> acl_run env pr0 clock (refill_tick now k pr)"
| acl_count: "acl_run env pr0 clock pr \<Longrightarrow> acl_run env pr0 clock (increment_stat key pr)"

lemma cleanup_tick_inv:
  assumes inv: "acl_inv env clock pr" and t: "clock \<le> t1" "t1 \<le> t2" "t2 \<le> t1 + 5000000"
  shows "acl_inv env t2 (cleanup_tick t1 t2 pr)"
proof -
  let ?pr = "cleanup_tick t1 t2 pr"
  have wf: "st_wf (rule_cache pr)" "st_wf (rate_limiters pr)" and iv: "cache_cleanup_interval pr = 20000000"
    using inv by (auto simp: acl_inv_def)
  have sr: "same_rules pr ?pr" by (simp add: same_rules_def cleanup_tick_def)
  have "entry_ok env ?pr t2 k e" if "st_get (rule_cache ?pr) k = Some e" for k e
  proof -
    have g: "st_get (rule_cache pr) k = Some e" "(if CACHE_EXPIRE \<le> t1 then t1 - CACHE_EXPIRE else t1) < last_access e"
      using cleanup_cache_get [OF wf(1)] that by (auto simp: cleanup_tick_def)
    have e: "entry_ok env pr clock k e" using inv g(1) by (simp add: acl_inv_def)
    then have late: "t1 < last_access e + CACHE_EXPIRE" "last_access e \<le> t2"
      using g(2) t by (auto simp: entry_ok_def split: if_splits)
    have "\<exists>v. st_get (rate_limiters ?pr) rk = Some v \<and> last_access e \<le> last_update v" if "rk \<in> set (rate_limit_keys e)" for rk
    proof -
      obtain v where v: "st_get (rate_limiters pr) rk = Some v" "last_access e \<le> last_update v"
        using e \<open>rk \<in> _\<close> by (auto simp: entry_ok_def)
      then have "t2 - last_update v < 20000000" using late t by (simp add: CACHE_EXPIRE_def)
      with v show ?thesis by (simp add: cleanup_tick_def st.get_retain_Some_iff [OF wf(2)] iv)
    qed
    with e late same_rules_spec [OF sr] show ?thesis unfolding entry_ok_def by auto
  qed
  moreover have "length (rule_cache ?pr) \<le> 2 * cache_max_size pr"
    using cleanup_cache_length [OF wf(1), of t1 "cache_max_size pr"] by (simp add: cleanup_tick_def)
  moreover have "last_update v \<le> t2" if "st_get (rate_limiters ?pr) k = Some v" for k v
    using that acl_inv_updates [OF inv, of t2] t by (auto simp: cleanup_tick_def st.get_retain_Some_iff [OF wf(2)])
  ultimately show ?thesis
    using wf iv by (auto simp: acl_inv_def cleanup_tick_def cleanup_cache_wf store_simps)
qed

lemma refill_tick_inv:
  assumes "acl_inv env clock pr"
  shows "acl_inv env clock (refill_tick now k pr)"
proof (cases "st_get (rate_limiters pr) k")
  case (Some v)
  let ?pr = "refill_tick now k pr"
  have sr: "same_rules pr ?pr" using Some by (simp add: refill_tick_def same_rules_def)
  have "entry_ok env ?pr clock key e" if "st_get (rule_cache pr) key = Some e" for key e
    using that assms Some
    by (intro entry_ok_mono [OF _ sr order_refl]) (auto simp: acl_inv_def refill_tick_def store_simps)
  with assms Some show ?thesis by (auto simp: acl_inv_def refill_tick_def store_simps split: if_splits)
qed (use assms in \<open>simp add: refill_tick_def\<close>)

lemma acl_run_inv:
  assumes "acl_run env pr0 clock pr" "\<And>c. acl_inv env c pr0"
  shows "acl_inv env clock pr \<and> same_rules pr0 pr"
  using assms(1)
proof (induction rule: acl_run.induct)
  case (acl_start clock)
  then show ?case using assms(2) by (simp add: same_rules_def)
next
  case (acl_packet clock pr now p secs ct res pr')
  obtain res1 pr1 where "process_packet env now secs p ct pr = Some (res1, pr1)" "same_rules pr pr1" "acl_inv env now pr1"
    using process_packet_ok [of env clock pr now p secs ct] acl_packet.IH acl_packet.hyps(2,3) by blast
  with acl_packet show ?case using same_rules_trans by auto
next
  case (acl_cleanup clock pr t1 t2)
  then show ?case
    using cleanup_tick_inv [of env clock pr t1 t2] by (simp add: same_rules_def cleanup_tick_def)
next
  case (acl_connections clock pr secs)
  have "acl_inv env clock (connection_tick secs pr)"
    by (rule acl_inv_other [of env clock pr]) (use acl_connections in \<open>auto simp: same_rules_def connection_tick_def\<close>)
  with acl_connections show ?case by (simp add: same_rules_def connection_tick_def)
next
  case (acl_refill clock pr now k)
  then show ?case
    using refill_tick_inv [of env clock pr now k] by (auto simp: refill_tick_def same_rules_def split: option.splits)
next
  case (acl_count clock pr key)
  have "acl_inv env clock (increment_stat key pr)"
    by (rule acl_inv_other [of env clock pr]) (use acl_count in auto)
  with acl_count same_rules_trans [OF _ frame_other(1)] show ?case by blast
qed

lemma processor_new_inv: "acl_inv env clock (processor_new env cfg)"
  by (simp add: acl_inv_def processor_new_def new_with_shared_state_def split_beta Let_def store_simps)

text \<open>
  C16: the cached processor decides like the plain rule list.  After any run of packets, clean-up
  rounds and refills, processing a packet returns, never panics, and its result is exactly the verdict
  of the first matching rule of the configured list, or of the default action when none matches; the
  only other outcome is a drop by the rate limiter of that very rule.  The rule cache never holds more
  than twice its nominal size.
\<close>

theorem cached_decision_is_first_match:
  assumes "acl_run env (processor_new env cfg) clock pr" and "clock \<le> now" and "ports_regular p"
  shows "(\<exists>res pr'. process_packet env now secs p ct pr = Some (res, pr')
      \<and> (res = verdict env (processor_new env cfg) p ct
        \<or> (\<exists>rules r. chain_rules_of (processor_new env cfg) ct = Some rules \<and> first_match (env_cidr env) rules p = Some r
            \<and> 0 < fr_rate_limit r \<and> res_action res = Drop \<and> log_context res = Some RateLimitDrop)))
    \<and> length (rule_cache pr) \<le> 2 * 1024"
proof -
  have inv: "acl_inv env clock pr" "same_rules (processor_new env cfg) pr"
    using acl_run_inv [OF assms(1) processor_new_inv] by blast+
  obtain res pr' where r: "process_packet env now secs p ct pr = Some (res, pr')" "outcome_ok env pr p ct res"
    using process_packet_ok [OF inv(1) assms(2,3)] by blast
  have "cache_max_size pr = 1024"
    using inv(2) by (simp add: same_rules_def processor_new_def new_with_shared_state_def split_beta Let_def)
  then have "length (rule_cache pr) \<le> 2 * 1024" using inv(1) by (simp add: acl_inv_def)
  moreover have "outcome_ok env (processor_new env cfg) p ct res"
    using r(2) same_rules_spec [OF inv(2)] by (simp add: outcome_ok_def)
  then have "res = verdict env (processor_new env cfg) p ct
        \<or> (\<exists>rules r. chain_rules_of (processor_new env cfg) ct = Some rules \<and> first_match (env_cidr env) rules p = Some r
            \<and> 0 < fr_rate_limit r \<and> res_action res = Drop \<and> log_context res = Some RateLimitDrop)"
    by (auto simp: outcome_ok_def limiter_for_def split: option.splits if_splits)
  ultimately show ?thesis using r(1) by blast
qed

section \<open>Rate limits and counters\<close>

lemma fold_bump_twice:
  assumes "a < length cells"
  shows "packet_count (fold (bump_cell sz) [a, a] cells ! a) = packet_count (cells ! a) + 2"
  using assms by (simp add: bump_cell_def)

lemma cache_result_cells [simp]: "stat_cells (cache_result now key e pr) = stat_cells pr"
  by (simp add: cache_result_def Let_def)

text \<open>
  A packet that passes a rate-limited rule is counted twice.  When an uncached packet is decided
  by a rule with a rate limit and is not dropped by it, the packet counter of the rule grows by two.
\<close>

lemma rate_limited_counted_twice:
  assumes "st_get (rule_cache pr) (cache_key_of p ct) = None" and "chain_rules_of pr ct = Some rules"
    and "first_match (env_cidr env) rules p = Some r" and "0 < fr_rate_limit r" and "fr_stats r < length (stat_cells pr)"
    and "process_packet env now secs p ct pr = Some (res, pr')" and "log_context res \<noteq> Some RateLimitDrop"
  shows "packet_count (stat_cells pr' ! fr_stats r) = packet_count (stat_cells pr ! fr_stats r) + 2"
proof -
  have ap: "apply_rule env now secs p ct r (empty_entry now ct) pr = Some (res, pr')"
    using assms(1-3,6) by (simp add: process_packet_def)
  obtain ok rl where lim: "check_rate_limit now \<lparr>rk_chain = ct, rk_priority = fr_priority r\<rparr> (fr_rate_limit r) (fr_burst_limit r) True pr
      = Some (ok, pr\<lparr>rate_limiters := rl\<rparr>)"
    using check_rate_limit_create [OF assms(4)] by blast
  have ok using ap lim assms(4,7) by (cases ok) (auto simp: apply_rule_def Let_def drop_result_def)
  with lim assms(4) have "(if 0 < fr_rate_limit r then check_rate_limit now \<lparr>rk_chain = ct, rk_priority = fr_priority r\<rparr>
      (fr_rate_limit r) (fr_burst_limit r) True pr else Some (True, pr)) = Some (True, pr\<lparr>rate_limiters := rl\<rparr>)" by simp
  then obtain e pr2 where e: "rule_stats_vec e = (if 0 < fr_rate_limit r then [fr_stats r, fr_stats r] else [fr_stats r])"
      "pr2 = pr\<lparr>rate_limiters := rl\<rparr> \<or> pr2 = check_connection_state secs (conn_track_key env p) p (pr\<lparr>rate_limiters := rl\<rparr>)"
      and res: "apply_rule env now secs p ct r (empty_entry now ct) pr
        = Some (rule_verdict p r, cache_result now (cache_key_of p ct) e (inc_cache_entry_stats e p (increment_stat RuleMatches pr2)))"
    by (rule apply_rule_ok [where p = p and secs = secs and env = env])
  have "stat_cells pr2 = stat_cells pr"
    using e(2) by (auto simp: check_connection_state_def Let_def)
  then have "stat_cells pr' = fold (bump_cell (packet_size p)) [fr_stats r, fr_stats r] (stat_cells pr)"
    using ap res e(1) assms(4) by (auto simp: inc_cache_entry_stats_def increment_stat_def simp del: fold_simps)
  then show ?thesis using fold_bump_twice [OF assms(5)] by (simp del: fold_simps)
qed

text \<open>
  A rate limit without a burst allowance blocks the rule.  When the deciding rule has a rate limit
  and burst limit 0, every packet it decides is dropped, whatever its action: the packet is dropped
  now, is not cached, and the limiter it leaves behind never has a token, so the same holds for every
  later packet.
\<close>

lemma zero_burst_blocks_rule:
  assumes "st_get (rule_cache pr) (cache_key_of p ct) = None" and "chain_rules_of pr ct = Some rules"
    and "first_match (env_cidr env) rules p = Some r" and "0 < fr_rate_limit r" and "fr_burst_limit r = 0"
    and "\<forall>v. st_get (rate_limiters pr) \<lparr>rk_chain = ct, rk_priority = fr_priority r\<rparr> = Some v \<longrightarrow>
      capacity (bucket_cfg (limiter_bucket v)) = 0"
  shows "\<exists>pr' v. process_packet env now secs p ct pr = Some (drop_result (RulePriority (fr_priority r)) RateLimitDrop, pr')
    \<and> rule_cache pr' = rule_cache pr
    \<and> st_get (rate_limiters pr') \<lparr>rk_chain = ct, rk_priority = fr_priority r\<rparr> = Some v
    \<and> capacity (bucket_cfg (limiter_bucket v)) = 0"
proof -
  let ?k = "\<lparr>rk_chain = ct, rk_priority = fr_priority r\<rparr>"
  have "fr_rate_limit r \<noteq> 0" using assms(4) by (simp add: word_gt_0)
  then obtain b where b: "check_rate_limit now ?k (fr_rate_limit r) (fr_burst_limit r) True pr
      = Some (False, pr\<lparr>rate_limiters := st_insert ?k \<lparr>limiter_bucket = b, last_update = now\<rparr> (rate_limiters pr)\<rparr>)"
      "capacity (bucket_cfg b) = 0"
    using assms(5-6)
    by (cases "st_get (rate_limiters pr) ?k")
      (auto simp: check_rate_limit_def try_consume_def bucket_new_def new_from_cfg_def split_beta Let_def)
  with assms show ?thesis
    by (simp add: process_packet_def apply_rule_def Let_def store_simps)
qed

section \<open>Concrete processors\<close>

definition toy_env :: acl_env where
  "toy_env = \<lparr>env_cidr = toy_cidr, env_show_ip = (\<lambda>_. ''ip'')\<rparr>"

lemma toy_tcp_regular: "ports_regular (toy_tcp q)"
  by (simp add: ports_regular_def toy_tcp_def)

theorem cached_decision_is_first_match_witness:
  "\<exists>res pr'. process_packet toy_env 5 0 (toy_tcp 80) Inbound (processor_new toy_env None) = Some (res, pr')
    \<and> res = default_result Allow"
proof -
  have new: "chain_rules_of (processor_new toy_env None) Inbound = Some []"
      "verdict toy_env (processor_new toy_env None) (toy_tcp 80) Inbound = default_result Allow"
    by (simp_all add: verdict_def processor_new_def new_with_shared_state_def build_rules_def first_match_def
        build_default_actions_def default_for_def)
  from cached_decision_is_first_match [OF acl_start [of toy_env "processor_new toy_env None" 0] _ toy_tcp_regular, of 5 0 80 Inbound]
  show ?thesis unfolding new by (auto simp: first_match_def)
qed

definition toy_limited :: "u32 \<Rightarrow> acl" where
  "toy_limited burst = Some \<lparr>v1_chains = [whitelist_chain
     [(whitelist_rule ''lim'' [] 9 Any [] Allow False)\<lparr>rule_rate_limit := 100, rule_burst_limit := burst\<rparr>]], v1_group = None\<rparr>"

definition toy_rule :: "u32 \<Rightarrow> fast_rule" where
  "toy_rule burst = convert_to_fast_lookup_rule toy_cidr 0
     ((whitelist_rule ''lim'' [] 9 Any [] Allow False)\<lparr>rule_rate_limit := 100, rule_burst_limit := burst\<rparr>)"

lemma toy_limited_rules:
  "chain_rules_of (processor_new toy_env (toy_limited burst)) Inbound = Some [toy_rule burst]"
  "rule_cache (processor_new toy_env (toy_limited burst)) = []" "rate_limiters (processor_new toy_env (toy_limited burst)) = []"
  "length (stat_cells (processor_new toy_env (toy_limited burst))) = 2"
  "inbound_rules (processor_new toy_env (toy_limited burst)) = [toy_rule burst]"
  by (simp_all add: processor_new_def new_with_shared_state_def toy_limited_def build_rules_def whitelist_chain_def
      chain_type_of_def split_beta Let_def sort_rules_def toy_rule_def toy_env_def whitelist_rule_def)

lemma toy_rule_fields:
  "fr_rate_limit (toy_rule burst) = 100" "fr_burst_limit (toy_rule burst) = burst" "fr_stats (toy_rule burst) = 0"
  "fr_priority (toy_rule burst) = 9" "first_match (env_cidr toy_env) [toy_rule burst] p = Some (toy_rule burst)"
  by (simp_all add: toy_rule_def convert_to_fast_lookup_rule_def whitelist_rule_def first_match_def rule_matches_def
      protocol_of_def ips_match_def groups_match_def)

lemma zero_burst_blocks_rule_witness:
  "\<exists>pr'. process_packet toy_env 5 0 (toy_tcp 80) Inbound (processor_new toy_env (toy_limited 0))
    = Some (drop_result (RulePriority 9) RateLimitDrop, pr')"
  using zero_burst_blocks_rule [of "processor_new toy_env (toy_limited 0)" "toy_tcp 80" Inbound "[toy_rule 0]" toy_env
      "toy_rule 0" 5 0]
  by (auto simp: toy_limited_rules toy_rule_fields store_simps)

lemma rate_limited_counted_twice_witness:
  "\<exists>res pr'. process_packet toy_env 5 0 (toy_tcp 80) Inbound (processor_new toy_env (toy_limited 10)) = Some (res, pr')
    \<and> packet_count (stat_cells pr' ! 0) = packet_count (stat_cells (processor_new toy_env (toy_limited 10)) ! 0) + 2"
proof -
  let ?pr = "processor_new toy_env (toy_limited 10)"
  obtain res pr' where p: "process_packet toy_env 5 0 (toy_tcp 80) Inbound ?pr = Some (res, pr')"
      "log_context res \<noteq> Some RateLimitDrop"
  proof -
    have "\<exists>res pr'. process_packet toy_env 5 0 (toy_tcp 80) Inbound ?pr = Some (res, pr') \<and> log_context res \<noteq> Some RateLimitDrop"
      by (simp add: process_packet_def toy_limited_rules toy_rule_fields store_simps apply_rule_def check_rate_limit_def
          bucket_new_def new_from_cfg_def try_consume_def Let_def split_beta stateful_result_def rule_result_def)
    then show thesis using that by blast
  qed
  from rate_limited_counted_twice [of ?pr "toy_tcp 80" Inbound "[toy_rule 10]" toy_env "toy_rule 10" 5 0 res pr'] p
  show ?thesis by (auto simp: toy_limited_rules toy_rule_fields store_simps)
qed

end
