(* ===== verification/Acl_Filter.thy ===== *)
theory Acl_Filter
  imports Acl_Processor Packet_Def
begin

text \<open>
  The packet filter in front of the access control lists (\<^verbatim>\<open>peers/acl_filter.rs\<close>): parsing a packet
  into the facts the rules see, choosing the chain, the verdict of the processor, the records that let
  replies to allowed outbound packets in, and the hot reload of the rules.

  The packet parsers of the pnet crate are the parameter record \<open>pnet\<close>, the groups of a peer, which
  the route answers, the parameter \<open>groups\<close>.  One packet is processed atomically.
\<close>

section \<open>State\<close>

record ip_view =
  view_version :: nat
  view_source :: ip_addr
  view_destination :: ip_addr
  view_next :: u8
  view_payload :: bytes

text \<open>The parsers return \<^term>\<open>None\<close> for a buffer shorter than the fixed header.\<close>

record pnet =
  ipv4_packet :: "bytes \<Rightarrow> ip_view option"
  ipv6_packet :: "bytes \<Rightarrow> ip_view option"
  tcp_packet :: "bytes \<Rightarrow> (u16 \<times> u16) option"
  udp_packet :: "bytes \<Rightarrow> (u16 \<times> u16) option"

record outbound_allow_record =
  rec_src_ip :: ip_addr
  rec_dst_ip :: ip_addr
  rec_src_port :: "u16 option"
  rec_dst_port :: "u16 option"
  rec_protocol :: protocol

definition new_from_inbound_packet :: "packet_info \<Rightarrow> outbound_allow_record" where
  "new_from_inbound_packet p = \<lparr>rec_src_ip = src_ip p, rec_dst_ip = dst_ip p, rec_src_port = src_port p,
     rec_dst_port = dst_port p, rec_protocol = pkt_protocol p\<rparr>"

definition new_from_outbound_packet :: "packet_info \<Rightarrow> outbound_allow_record" where
  "new_from_outbound_packet p = \<lparr>rec_src_ip = dst_ip p, rec_dst_ip = src_ip p, rec_src_port = dst_port p,
     rec_dst_port = src_port p, rec_protocol = pkt_protocol p\<rparr>"

record acl_filter =
  filter_processor :: acl_processor
  acl_enabled :: bool
  outbound_allow_records :: "(outbound_allow_record, nat) store"

definition acl_filter_new :: "acl_env \<Rightarrow> acl_filter" where
  "acl_filter_new env = \<lparr>filter_processor = processor_new env None, acl_enabled = False, outbound_allow_records = []\<rparr>"

definition RECORD_MAX_LIFE :: nat where "RECORD_MAX_LIFE = 30000000"

definition clean_records :: "nat \<Rightarrow> acl_filter \<Rightarrow> acl_filter" where
  "clean_records now f = f\<lparr>outbound_allow_records :=
     st_retain (\<lambda>_ v. now - v < RECORD_MAX_LIFE) (outbound_allow_records f)\<rparr>"

definition reload_rules :: "acl_env \<Rightarrow> acl option \<Rightarrow> acl_filter \<Rightarrow> acl_filter" where
  "reload_rules env acl_config f =
     (let f1 = f\<lparr>outbound_allow_records := []\<rparr>
      in case acl_config of
          None \<Rightarrow> f1\<lparr>acl_enabled := False\<rparr>
        | Some cfg \<Rightarrow>
            let (ct, rl, st) = get_shared_state (filter_processor f1);
                new_processor = new_with_shared_state env cfg (Some ct) (Some rl) (Some st)
            in f1\<lparr>filter_processor := new_processor, acl_enabled := True\<rparr>)"

record acl_stats =
  global_stats :: "(acl_stat_key, u64) store"
  conn_track_entries :: "conn_track_entry list"
  rules_stats :: "rule_stats list"

definition filter_get_stats :: "acl_filter \<Rightarrow> acl_stats" where
  "filter_get_stats f =
     (let pr = filter_processor f; (ct, rl, st) = get_shared_state pr
      in \<lparr>global_stats = get_stats pr, conn_track_entries = map snd ct, rules_stats = get_rules_stats pr\<rparr>)"

section \<open>Parsing\<close>

text \<open>Next header numbers: TCP 6, UDP 17, ICMP 1, ICMPv6 58.\<close>

definition l4_ports :: "pnet \<Rightarrow> u8 \<Rightarrow> bytes \<Rightarrow> (u16 option \<times> u16 option) option" where
  "l4_ports net next_level dat =
     (if next_level = 6 then map_option (\<lambda>(s, d). (Some s, Some d)) (tcp_packet net dat)
      else if next_level = 17 then map_option (\<lambda>(s, d). (Some s, Some d)) (udp_packet net dat)
      else Some (None, None))"

definition acl_protocol_of :: "u8 \<Rightarrow> protocol" where
  "acl_protocol_of next_level = (if next_level = 6 then Tcp else if next_level = 17 then Udp
     else if next_level = 1 then Icmp else if next_level = 58 then IcmPv6 else Unspecified)"

definition packet_view :: "pnet \<Rightarrow> bytes \<Rightarrow> ip_view option" where
  "packet_view net dat = do {
     v4 \<leftarrow> ipv4_packet net dat;
     if view_version v4 = 4 then Some v4
     else if view_version v4 = 6 then ipv6_packet net dat
     else None
   }"

text \<open>The outer option is a panic of \<^verbatim>\<open>payload()\<close>, the inner one the result of the function.\<close>

definition extract_packet_info :: "pnet \<Rightarrow> (u32 \<Rightarrow> string list) \<Rightarrow> zc_packet \<Rightarrow> packet_info option option" where
  "extract_packet_info net groups pkt = do {
     pl \<leftarrow> payload pkt;
     Some (do {
       v \<leftarrow> packet_view net pl;
       (sp, dp) \<leftarrow> l4_ports net (view_next v) (view_payload v);
       Some \<lparr>src_ip = view_source v, dst_ip = view_destination v, src_port = sp, dst_port = dp,
             pkt_protocol = acl_protocol_of (view_next v), packet_size = length pl,
             src_groups = (case get_src_peer_id pkt of None \<Rightarrow> [] | Some i \<Rightarrow> groups i),
             dst_groups = (case get_dst_peer_id pkt of None \<Rightarrow> [] | Some i \<Rightarrow> groups i)\<rparr>
     })
   }"

section \<open>Decisions\<close>

definition handle_acl_result :: "acl_result \<Rightarrow> chain_type \<Rightarrow> acl_processor \<Rightarrow> acl_processor" where
  "handle_acl_result result ct pr =
     (let pr1 = (case res_action result of
            Allow \<Rightarrow> increment_stat (from_chain_and_action ct StatAllowed) (increment_stat PacketsAllowed pr)
          | Drop \<Rightarrow> increment_stat (from_chain_and_action ct StatDropped) (increment_stat PacketsDropped pr)
          | Noop \<Rightarrow> increment_stat (from_chain_and_action ct StatNoop) (increment_stat PacketsNoop pr))
      in increment_stat PacketsTotal (increment_stat (from_chain_and_action ct StatTotal) pr1))"

definition classify_chain_type :: "bool \<Rightarrow> packet_info \<Rightarrow> u32 option \<Rightarrow> (u128 \<Rightarrow> bool) \<Rightarrow> chain_type" where
  "classify_chain_type is_in p my_ipv4 is_local_ipv6 =
     (if \<not> is_in then Outbound
      else if dst_ip p = IpV4 (case my_ipv4 of None \<Rightarrow> 0 | Some a \<Rightarrow> a)
           \<or> (case dst_ip p of IpV6 d \<Rightarrow> is_local_ipv6 d | IpV4 _ \<Rightarrow> False)
      then Inbound else Forward)"

definition process_packet_with_acl ::
  "acl_env \<Rightarrow> pnet \<Rightarrow> (u32 \<Rightarrow> string list) \<Rightarrow> nat \<Rightarrow> u64 \<Rightarrow> zc_packet \<Rightarrow> bool \<Rightarrow> u32 option \<Rightarrow> (u128 \<Rightarrow> bool) \<Rightarrow> acl_filter \<Rightarrow>
     (bool \<times> acl_filter) option" where
  "process_packet_with_acl env net groups now secs pkt is_in my_ipv4 is_local_ipv6 f =
     (if \<not> acl_enabled f then Some (True, f)
      else do {
        hdr \<leftarrow> peer_manager_header_of pkt;
        if packet_type hdr \<noteq> packet_kind_u8 Data then Some (True, f)
        else do {
          info \<leftarrow> extract_packet_info net groups pkt;
          (case info of
             None \<Rightarrow> Some (True, f)
           | Some p \<Rightarrow> do {
               let ct = classify_chain_type is_in p my_ipv4 is_local_ipv6;
               (result, pr1) \<leftarrow> process_packet env now secs p ct (filter_processor f);
               let f1 = f\<lparr>filter_processor := handle_acl_result result ct pr1\<rparr>;
               let records = outbound_allow_records f1;
               Some (if res_action result \<noteq> Drop then
                   (True, if ct = Outbound
                      then f1\<lparr>outbound_allow_records := st_insert (new_from_outbound_packet p) now records\<rparr> else f1)
                 else if is_in \<and> st_get records (new_from_inbound_packet p) \<noteq> None then
                   (True, f1\<lparr>outbound_allow_records := st_insert (new_from_inbound_packet p) now records\<rparr>)
                 else (False, f1))
             })
        }
      })"

section \<open>The filter keeps the processor's invariant\<close>

lemma extract_ports_regular:
  assumes "extract_packet_info net groups pkt = Some (Some p)"
  shows "ports_regular p"
  using assms
  by (auto simp: extract_packet_info_def l4_ports_def acl_protocol_of_def ports_regular_def
      split: option.splits bind_splits if_splits prod.splits)

lemma handle_acl_result_frame:
  "same_rules pr (handle_acl_result res ct pr)" "rule_cache (handle_acl_result res ct pr) = rule_cache pr"
  "rate_limiters (handle_acl_result res ct pr) = rate_limiters pr"
  by (simp_all add: handle_acl_result_def same_rules_def increment_stat_def Let_def split: action.split)

lemma handle_acl_result_inv:
  "acl_inv env now pr \<Longrightarrow> acl_inv env now (handle_acl_result res ct pr)"
  by (rule acl_inv_other [of env now pr]) (simp_all add: handle_acl_result_frame)

text \<open>The new processor has the rules of the new configuration alone.\<close>

lemma reload_same_rules:
  "same_rules (processor_new env cfg) (new_with_shared_state env cfg ct rl st)"
  by (simp add: same_rules_def processor_new_def new_with_shared_state_def split_beta Let_def)

lemma reload_inv:
  assumes "acl_inv env clock pr"
  shows "acl_inv env clock (new_with_shared_state env cfg (Some ct) (Some (rate_limiters pr)) st)"
  using assms by (simp add: acl_inv_def new_with_shared_state_def split_beta Let_def store_simps)

section \<open>Runs of the filter\<close>

text \<open>A packet that answers another: addresses and ports exchanged, same protocol.\<close>

definition reply_to :: "packet_info \<Rightarrow> packet_info \<Rightarrow> bool" where
  "reply_to p q \<longleftrightarrow> src_ip p = dst_ip q \<and> dst_ip p = src_ip q \<and> src_port p = dst_port q \<and> dst_port p = src_port q
     \<and> pkt_protocol p = pkt_protocol q"

lemma reply_to_record: "reply_to p q \<longleftrightarrow> new_from_inbound_packet p = new_from_outbound_packet q"
  by (auto simp: reply_to_def new_from_inbound_packet_def new_from_outbound_packet_def)

text \<open>The outbound packet the filter has let through by its rules, with the time.\<close>

definition sent_info :: "pnet \<Rightarrow> (u32 \<Rightarrow> string list) \<Rightarrow> nat \<Rightarrow> zc_packet \<Rightarrow> bool \<Rightarrow> bool \<Rightarrow> acl_filter \<Rightarrow> (packet_info \<times> nat) list" where
  "sent_info net groups now pkt is_in ok f =
     (case (peer_manager_header_of pkt, extract_packet_info net groups pkt) of
        (Some hdr, Some (Some p)) \<Rightarrow>
          if acl_enabled f \<and> packet_type hdr = packet_kind_u8 Data \<and> \<not> is_in \<and> ok then [(p, now)] else []
      | _ \<Rightarrow> [])"

text \<open>
  A run of the filter with its configuration (\<^term>\<open>None\<close> while the lists are switched off) and the
  outbound packets let through since the last reload.  Packets, reloads and the clean-up tasks come in
  any order; the clock does not run backwards.
\<close>

inductive filter_run ::
  "acl_env \<Rightarrow> pnet \<Rightarrow> acl option \<Rightarrow> (packet_info \<times> nat) list \<Rightarrow> nat \<Rightarrow> acl_filter \<Rightarrow> bool" for env net where
  run_new: "filter_run env net None [] clock (acl_filter_new env)"
| run_packet: "filter_run env net cfg sent clock f \<Longrightarrow> clock \<le> now \<Longrightarrow>
    process_packet_with_acl env net groups now secs pkt is_in my_ipv4 is_local f = Some (ok, f') \<Longrightarrow>
    filter_run env net cfg (sent_info net groups now pkt is_in ok f @ sent) now f'"
| run_reload: "filter_run env net cfg sent clock f \<Longrightarrow> filter_run env net cfg' [] clock (reload_rules env cfg' f)"
| run_clean: "filter_run env net cfg sent clock f \<Longrightarrow> clock \<le> now \<Longrightarrow> filter_run env net cfg sent now (clean_records now f)"
| run_cleanup: "filter_run env net cfg sent clock f \<Longrightarrow> clock \<le> t1 \<Longrightarrow> t1 \<le> t2 \<Longrightarrow> t2 \<le> t1 + 5000000 \<Longrightarrow>
    filter_run env net cfg sent t2 (f\<lparr>filter_processor := cleanup_tick t1 t2 (filter_processor f)\<rparr>)"
| run_connections: "filter_run env net cfg sent clock f \<Longrightarrow>
    filter_run env net cfg sent clock (f\<lparr>filter_processor := connection_tick secs (filter_processor f)\<rparr>)"
| run_refill: "filter_run env net cfg sent clock f \<Longrightarrow>
    filter_run env net cfg sent clock (f\<lparr>filter_processor := refill_tick now k (filter_processor f)\<rparr>)"

definition records_inv :: "(packet_info \<times> nat) list \<Rightarrow> nat \<Rightarrow> (outbound_allow_record, nat) store \<Rightarrow> bool" where
  "records_inv sent clock rs \<longleftrightarrow> st_wf rs
     \<and> (\<forall>k v. st_get rs k = Some v \<longrightarrow> v \<le> clock \<and> (\<exists>(q, t) \<in> set sent. k = new_from_outbound_packet q))
     \<and> (\<forall>(q, t) \<in> set sent. clock < t + RECORD_MAX_LIFE \<longrightarrow>
          (\<exists>v. st_get rs (new_from_outbound_packet q) = Some v \<and> t \<le> v))"

definition filter_inv :: "acl_env \<Rightarrow> acl option \<Rightarrow> (packet_info \<times> nat) list \<Rightarrow> nat \<Rightarrow> acl_filter \<Rightarrow> bool" where
  "filter_inv env cfg sent clock f \<longleftrightarrow> acl_inv env clock (filter_processor f)
     \<and> acl_enabled f = (cfg \<noteq> None)
     \<and> (\<forall>c. cfg = Some c \<longrightarrow> same_rules (processor_new env c) (filter_processor f))
     \<and> records_inv sent clock (outbound_allow_records f)"

lemma records_inv_nil [simp]: "records_inv [] clock []"
  by (simp add: records_inv_def store_simps)

lemma records_inv_mono: "records_inv sent clock rs \<Longrightarrow> clock \<le> now \<Longrightarrow> records_inv sent now rs"
  by (fastforce simp: records_inv_def)

lemma records_inv_sent:
  assumes "records_inv sent clock rs" "clock \<le> now"
  shows "records_inv ((q, now) # sent) now (st_insert (new_from_outbound_packet q) now rs)"
  using assms by (fastforce simp: records_inv_def store_simps)

lemma records_inv_touch:
  assumes "records_inv sent clock rs" "clock \<le> now" "st_get rs k = Some v"
  shows "records_inv sent now (st_insert k now rs)"
  using assms by (fastforce simp: records_inv_def store_simps)

lemma records_inv_clean:
  assumes "records_inv sent clock rs" "clock \<le> now"
  shows "records_inv sent now (st_retain (\<lambda>_ v. now - v < RECORD_MAX_LIFE) rs)"
  using assms by (fastforce simp: records_inv_def store_simps st.get_retain_Some_iff RECORD_MAX_LIFE_def)

text \<open>The processor's part of one packet.\<close>

lemma filter_verdict:
  assumes "filter_inv env (Some c) sent clock f" "clock \<le> now" "ports_regular p"
  obtains result pr1 where "process_packet env now secs p ct (filter_processor f) = Some (result, pr1)"
    "outcome_ok env (processor_new env c) p ct result"
    "acl_inv env now (handle_acl_result result ct pr1)"
    "same_rules (processor_new env c) (handle_acl_result result ct pr1)"
proof -
  have inv: "acl_inv env clock (filter_processor f)" and sr: "same_rules (processor_new env c) (filter_processor f)"
    using assms(1) by (auto simp: filter_inv_def)
  obtain result pr1 where r: "process_packet env now secs p ct (filter_processor f) = Some (result, pr1)"
      "outcome_ok env (filter_processor f) p ct result" "same_rules (filter_processor f) pr1" "acl_inv env now pr1"
    using process_packet_ok [OF inv assms(2,3)] by blast
  have "outcome_ok env (processor_new env c) p ct result"
    using r(2) same_rules_spec [OF sr] by (simp add: outcome_ok_def)
  moreover have "same_rules (processor_new env c) (handle_acl_result result ct pr1)"
    using sr r(3) handle_acl_result_frame(1) same_rules_trans by blast
  ultimately show thesis using that r(1) handle_acl_result_inv [OF r(4)] by blast
qed

lemma filter_inv_processor:
  assumes "filter_inv env cfg sent clock f" "acl_inv env now pr" "same_rules (filter_processor f) pr" "clock \<le> now"
  shows "filter_inv env cfg sent now (f\<lparr>filter_processor := pr\<rparr>)"
  using assms same_rules_trans records_inv_mono by (fastforce simp: filter_inv_def)

lemma filter_inv_mono:
  assumes "filter_inv env cfg sent clock f" "clock \<le> now"
  shows "filter_inv env cfg sent now f"
  using filter_inv_processor [OF assms(1) acl_inv_other [of env clock "filter_processor f" "filter_processor f" now] _ assms(2)] assms
  by (simp add: filter_inv_def same_rules_def)

text \<open>What one packet of an enabled filter leads to, when its addresses and ports could be read.\<close>

lemma filter_step:
  assumes inv: "filter_inv env (Some c) sent clock f" and now: "clock \<le> now"
    and hdr: "peer_manager_header_of pkt = Some hdr" "packet_type hdr = packet_kind_u8 Data"
    and info: "extract_packet_info net groups pkt = Some (Some p)"
  obtains result ok f' where
    "process_packet_with_acl env net groups now secs pkt is_in my_ipv4 is_local f = Some (ok, f')"
    "outcome_ok env (processor_new env c) p (classify_chain_type is_in p my_ipv4 is_local) result"
    "ok \<longleftrightarrow> res_action result \<noteq> Drop \<or> is_in \<and> st_get (outbound_allow_records f) (new_from_inbound_packet p) \<noteq> None"
    "filter_inv env (Some c) (sent_info net groups now pkt is_in ok f @ sent) now f'"
proof -
  let ?ct = "classify_chain_type is_in p my_ipv4 is_local"
  obtain result pr1 where r: "process_packet env now secs p ?ct (filter_processor f) = Some (result, pr1)"
      "outcome_ok env (processor_new env c) p ?ct result" "acl_inv env now (handle_acl_result result ?ct pr1)"
      "same_rules (processor_new env c) (handle_acl_result result ?ct pr1)"
    using filter_verdict [OF inv now extract_ports_regular [OF info]] .
  have en: "acl_enabled f" and rs: "records_inv sent clock (outbound_allow_records f)"
    using inv by (auto simp: filter_inv_def)
  have out: "?ct = Outbound \<longleftrightarrow> \<not> is_in" by (simp add: classify_chain_type_def)
  show thesis
  proof (rule that [OF _ r(2)])
    show "process_packet_with_acl env net groups now secs pkt is_in my_ipv4 is_local f = Some
       (res_action result \<noteq> Drop \<or> is_in \<and> st_get (outbound_allow_records f) (new_from_inbound_packet p) \<noteq> None,
        f\<lparr>filter_processor := handle_acl_result result ?ct pr1,
          outbound_allow_records :=
            (if res_action result \<noteq> Drop then if is_in then outbound_allow_records f
               else st_insert (new_from_outbound_packet p) now (outbound_allow_records f)
             else if is_in \<and> st_get (outbound_allow_records f) (new_from_inbound_packet p) \<noteq> None
             then st_insert (new_from_inbound_packet p) now (outbound_allow_records f) else outbound_allow_records f)\<rparr>)"
      using en hdr info r(1) out by (auto simp: process_packet_with_acl_def)
  qed (use en hdr info r(3,4) rs now in \<open>auto simp: filter_inv_def sent_info_def
        intro: records_inv_mono records_inv_sent records_inv_touch\<close>)
qed

lemma cleanup_tick_same_rules: "same_rules pr (cleanup_tick t1 t2 pr)"
  by (simp add: same_rules_def cleanup_tick_def)

lemma filter_run_inv: "filter_run env net cfg sent clock f \<Longrightarrow> filter_inv env cfg sent clock f"
proof (induction rule: filter_run.induct)
  case (run_new clock)
  then show ?case by (simp add: filter_inv_def acl_filter_new_def processor_new_inv)
next
  case (run_packet cfg sent clock f now groups secs pkt is_in my_ipv4 is_local ok f')
  note keep = filter_inv_mono [OF run_packet.IH run_packet.hyps(2)]
  show ?case
  proof (cases "\<exists>c hdr p. cfg = Some c \<and> peer_manager_header_of pkt = Some hdr \<and> packet_type hdr = packet_kind_u8 Data
      \<and> extract_packet_info net groups pkt = Some (Some p)")
    case True
    then obtain c hdr p where t: "cfg = Some c" "peer_manager_header_of pkt = Some hdr" "packet_type hdr = packet_kind_u8 Data"
        "extract_packet_info net groups pkt = Some (Some p)" by blast
    obtain result ok1 f1 where
      "process_packet_with_acl env net groups now secs pkt is_in my_ipv4 is_local f = Some (ok1, f1)"
      "outcome_ok env (processor_new env c) p (classify_chain_type is_in p my_ipv4 is_local) result"
      "ok1 \<longleftrightarrow> res_action result \<noteq> Drop \<or> is_in \<and> st_get (outbound_allow_records f) (new_from_inbound_packet p) \<noteq> None"
      "filter_inv env (Some c) (sent_info net groups now pkt is_in ok1 f @ sent) now f1"
      using filter_step [OF run_packet.IH [unfolded t(1)] run_packet.hyps(2) t(2-4)] .
    with run_packet.hyps(3) t(1) show ?thesis by simp
  next
    case False
    with run_packet.hyps(3) run_packet.IH have "f' = f \<and> sent_info net groups now pkt is_in ok f = []"
      by (auto simp: process_packet_with_acl_def sent_info_def filter_inv_def split: bind_splits if_splits option.splits)
    with keep show ?thesis by simp
  qed
next
  case (run_reload cfg sent clock f cfg')
  then show ?case
    by (auto simp: filter_inv_def reload_rules_def get_shared_state_def Let_def reload_inv reload_same_rules split: option.split)
next
  case (run_clean cfg sent clock f now)
  from filter_inv_mono [OF run_clean.IH run_clean.hyps(2)] run_clean show ?case
    by (auto simp: filter_inv_def clean_records_def intro: records_inv_clean)
next
  case (run_cleanup cfg sent clock f t1 t2)
  then show ?case
    by (intro filter_inv_processor [OF run_cleanup.IH] cleanup_tick_inv [of env clock])
      (auto simp: filter_inv_def cleanup_tick_same_rules)
next
  case (run_connections cfg sent clock f secs)
  then show ?case
    by (intro filter_inv_processor [OF run_connections.IH])
      (auto simp: filter_inv_def same_rules_def connection_tick_def intro: acl_inv_other)
next
  case (run_refill cfg sent clock f now k)
  then show ?case
    by (intro filter_inv_processor [OF run_refill.IH] refill_tick_inv)
      (auto simp: filter_inv_def same_rules_def refill_tick_def split: option.split)
qed

section \<open>What the filter lets through\<close>

lemma record_is_reply:
  assumes "records_inv sent clock rs" "st_get rs (new_from_inbound_packet p) \<noteq> None"
  shows "\<exists>(q, t) \<in> set sent. reply_to p q"
proof -
  from assms(2) obtain v where "st_get rs (new_from_inbound_packet p) = Some v" by auto
  with assms(1) have "\<exists>(q, t) \<in> set sent. new_from_inbound_packet p = new_from_outbound_packet q"
    unfolding records_inv_def by blast
  then show ?thesis by (simp add: reply_to_record)
qed

lemma filter_undecided:
  assumes "filter_inv env cfg sent clock f" "peer_manager_header_of pkt = Some hdr" "payload pkt = Some pl"
    and "\<not> (\<exists>c p. cfg = Some c \<and> packet_type hdr = packet_kind_u8 Data \<and> extract_packet_info net groups pkt = Some (Some p))"
  shows "process_packet_with_acl env net groups now secs pkt is_in my_ipv4 is_local f = Some (True, f)"
proof -
  obtain x where x: "extract_packet_info net groups pkt = Some x"
    using assms(3) by (simp add: extract_packet_info_def)
  have "acl_enabled f \<longleftrightarrow> cfg \<noteq> None" using assms(1) by (simp add: filter_inv_def)
  with assms(2,4) x show ?thesis by (cases x) (auto simp: process_packet_with_acl_def)
qed

text \<open>
  C11: the filter enforces the configured rules.  In every run of packets, reloads and background tasks,
  a packet with a readable header and payload is decided without a panic.  While the lists are switched
  off every packet passes.  While they are on, a data packet whose addresses can be read passes only if
  the rules of the current configuration do not drop it, or if it comes in and answers an outbound
  packet that passed since the last reload; and it does pass if the rules do not drop it and no rate
  limit applies.
\<close>

theorem filter_enforces_rules:
  assumes "filter_run env net cfg sent clock f" and "clock \<le> now"
    and "peer_manager_header_of pkt = Some hdr" and "payload pkt = Some pl"
  shows "\<exists>ok f'. process_packet_with_acl env net groups now secs pkt is_in my_ipv4 is_local f = Some (ok, f')
    \<and> (cfg = None \<longrightarrow> ok)
    \<and> (\<forall>c p. cfg = Some c \<and> packet_type hdr = packet_kind_u8 Data
          \<and> extract_packet_info net groups pkt = Some (Some p) \<longrightarrow>
        (let ct = classify_chain_type is_in p my_ipv4 is_local; pr = processor_new env c
         in (ok \<longrightarrow> res_action (verdict env pr p ct) \<noteq> Drop \<or> is_in \<and> (\<exists>(q, t) \<in> set sent. reply_to p q))
          \<and> (res_action (verdict env pr p ct) \<noteq> Drop \<and> limiter_for env pr p ct = [] \<longrightarrow> ok)))"
proof -
  note inv = filter_run_inv [OF assms(1)]
  show ?thesis
  proof (cases "\<exists>c p. cfg = Some c \<and> packet_type hdr = packet_kind_u8 Data \<and> extract_packet_info net groups pkt = Some (Some p)")
    case True
    then obtain c p where t: "cfg = Some c" "packet_type hdr = packet_kind_u8 Data" "extract_packet_info net groups pkt = Some (Some p)"
      by blast
    obtain result ok f' where
      r: "process_packet_with_acl env net groups now secs pkt is_in my_ipv4 is_local f = Some (ok, f')"
        "outcome_ok env (processor_new env c) p (classify_chain_type is_in p my_ipv4 is_local) result"
        "ok \<longleftrightarrow> res_action result \<noteq> Drop \<or> is_in \<and> st_get (outbound_allow_records f) (new_from_inbound_packet p) \<noteq> None"
        "filter_inv env (Some c) (sent_info net groups now pkt is_in ok f @ sent) now f'"
      using filter_step [OF inv [unfolded t(1)] assms(2,3) t(2,3)] .
    have rep: "st_get (outbound_allow_records f) (new_from_inbound_packet p) \<noteq> None \<Longrightarrow> \<exists>(q, t) \<in> set sent. reply_to p q"
      using inv record_is_reply unfolding filter_inv_def by blast
    have "let ct = classify_chain_type is_in p my_ipv4 is_local; pr = processor_new env c
         in (ok \<longrightarrow> res_action (verdict env pr p ct) \<noteq> Drop \<or> is_in \<and> (\<exists>(q, t) \<in> set sent. reply_to p q))
          \<and> (res_action (verdict env pr p ct) \<noteq> Drop \<and> limiter_for env pr p ct = [] \<longrightarrow> ok)"
      using r(2,3) rep unfolding outcome_ok_def Let_def by blast
    then show ?thesis
      by (intro exI [of _ ok] exI [of _ f'] conjI allI impI r(1)) (simp_all add: t)
  next
    case False
    from filter_undecided [OF inv assms(3,4) False]
    have "process_packet_with_acl env net groups now secs pkt is_in my_ipv4 is_local f = Some (True, f)" .
    then show ?thesis
      by (intro exI [of _ True] exI [of _ f] conjI allI impI) (use False in auto)
  qed
qed

text \<open>
  C24: replies come in.  When the filter has let an outbound packet through since the last reload, a
  data packet that answers it is let in whatever the rules say, in every run, whatever packets and
  clean-up tasks came between, provided the last of them ran within 30 seconds of the outbound packet.
\<close>

theorem replies_are_admitted:
  assumes "filter_run env net (Some c) sent clock f" and "clock \<le> now"
    and "peer_manager_header_of pkt = Some hdr" and "packet_type hdr = packet_kind_u8 Data"
    and "extract_packet_info net groups pkt = Some (Some p)"
    and "(q, t) \<in> set sent" and "reply_to p q" and "clock < t + RECORD_MAX_LIFE"
  shows "\<exists>f'. process_packet_with_acl env net groups now secs pkt True my_ipv4 is_local f = Some (True, f')"
proof -
  note inv = filter_run_inv [OF assms(1)]
  obtain result ok f' where
    r: "process_packet_with_acl env net groups now secs pkt True my_ipv4 is_local f = Some (ok, f')"
      "outcome_ok env (processor_new env c) p (classify_chain_type True p my_ipv4 is_local) result"
      "ok \<longleftrightarrow> res_action result \<noteq> Drop \<or> True \<and> st_get (outbound_allow_records f) (new_from_inbound_packet p) \<noteq> None"
      "filter_inv env (Some c) (sent_info net groups now pkt True ok f @ sent) now f'"
    using filter_step [OF inv assms(2-5)] .
  have "st_get (outbound_allow_records f) (new_from_inbound_packet p) \<noteq> None"
    using inv assms(6-8) by (fastforce simp: filter_inv_def records_inv_def reply_to_record)
  with r show ?thesis by simp
qed

section \<open>Reloading\<close>

lemma check_rate_limit_keeps_config:
  assumes "check_rate_limit now k rate burst create pr = Some (ok, pr')" "st_get (rate_limiters pr) key = Some v"
  shows "\<exists>v'. st_get (rate_limiters pr') key = Some v' \<and> bucket_cfg (limiter_bucket v') = bucket_cfg (limiter_bucket v)"
  using assms try_consume_cfg(1) [of 1 "limiter_bucket v"]
  by (cases "k = key") (auto simp: check_rate_limit_def store_simps split_beta Let_def split: if_splits bind_splits)

lemma apply_rule_keeps_config:
  assumes "apply_rule env now secs p ct r e pr = Some (res, pr')" "st_get (rate_limiters pr) key = Some v"
  shows "\<exists>v'. st_get (rate_limiters pr') key = Some v' \<and> bucket_cfg (limiter_bucket v') = bucket_cfg (limiter_bucket v)"
proof (cases "0 < fr_rate_limit r")
  case True
  then obtain ok pr1 where lim: "check_rate_limit now \<lparr>rk_chain = ct, rk_priority = fr_priority r\<rparr> (fr_rate_limit r)
      (fr_burst_limit r) True pr = Some (ok, pr1)"
    using check_rate_limit_create [OF True] by blast
  have "rate_limiters pr' = rate_limiters pr1"
    using assms(1) lim True
    by (auto simp: apply_rule_def Let_def cache_result_def split: if_splits)
  then show ?thesis using check_rate_limit_keeps_config [OF lim assms(2)] by simp
next
  case False
  then have "rate_limiters pr' = rate_limiters pr"
    using assms(1) by (auto simp: apply_rule_def Let_def cache_result_def split: if_splits)
  then show ?thesis using assms(2) by simp
qed

text \<open>
  A reload keeps connections, counters and rate limiters and forgets the decisions, and an existing
  rate limiter also keeps its old rate and burst.  The first packet decided under the new rules leaves
  every limiter that existed before the reload with the configuration it had, whatever limits the new
  rules set for it.
\<close>

lemma reload_keeps_old_limits:
  assumes "st_get (rate_limiters (filter_processor f)) key = Some v"
    and "process_packet env now secs p ct (filter_processor (reload_rules env (Some cfg) f)) = Some (res, pr')"
  shows "outbound_allow_records (reload_rules env (Some cfg) f) = []
    \<and> rule_cache (filter_processor (reload_rules env (Some cfg) f)) = []
    \<and> conn_track (filter_processor (reload_rules env (Some cfg) f)) = conn_track (filter_processor f)
    \<and> stats (filter_processor (reload_rules env (Some cfg) f)) = stats (filter_processor f)
    \<and> same_rules (processor_new env cfg) (filter_processor (reload_rules env (Some cfg) f))
    \<and> (\<exists>v'. st_get (rate_limiters pr') key = Some v' \<and> bucket_cfg (limiter_bucket v') = bucket_cfg (limiter_bucket v))"
proof -
  let ?pr = "filter_processor (reload_rules env (Some cfg) f)"
  have pr: "?pr = new_with_shared_state env cfg (Some (conn_track (filter_processor f)))
      (Some (rate_limiters (filter_processor f))) (Some (stats (filter_processor f)))"
    by (simp add: reload_rules_def get_shared_state_def)
  then have f: "rule_cache ?pr = []" "rate_limiters ?pr = rate_limiters (filter_processor f)"
      "conn_track ?pr = conn_track (filter_processor f)" "stats ?pr = stats (filter_processor f)"
    by (simp_all add: new_with_shared_state_def split_beta Let_def)
  have "\<exists>v'. st_get (rate_limiters pr') key = Some v' \<and> bucket_cfg (limiter_bucket v') = bucket_cfg (limiter_bucket v)"
  proof (cases "\<exists>rules r. chain_rules_of ?pr ct = Some rules \<and> first_match (env_cidr env) rules p = Some r")
    case True
    with assms(2) f(1) obtain r where "apply_rule env now secs p ct r (empty_entry now ct) ?pr = Some (res, pr')"
      by (auto simp: process_packet_def store_simps)
    then show ?thesis by (rule apply_rule_keeps_config) (simp add: f assms(1))
  next
    case False
    with assms(2) f(1) have "rate_limiters pr' = rate_limiters ?pr"
      by (auto simp: process_packet_def store_simps apply_default_def Let_def cache_result_def
          split: option.splits)
    with assms(1) f(2) show ?thesis by simp
  qed
  moreover have "same_rules (processor_new env cfg) ?pr" unfolding pr by (rule reload_same_rules)
  ultimately show ?thesis using f by (simp add: reload_rules_def get_shared_state_def)
qed

section \<open>A concrete filter\<close>

text \<open>A toy network layer: the payload is the source and the destination address, one byte each.\<close>

definition toy_net :: pnet where
  "toy_net = \<lparr>ipv4_packet = (\<lambda>bs. case bs of [a, b] \<Rightarrow> Some \<lparr>view_version = 4, view_source = IpV4 (ucast a),
       view_destination = IpV4 (ucast b), view_next = 1, view_payload = []\<rparr> | _ \<Rightarrow> None),
     ipv6_packet = (\<lambda>_. None), tcp_packet = (\<lambda>_. None), udp_packet = (\<lambda>_. None)\<rparr>"

definition toy_ping :: "u8 \<Rightarrow> u8 \<Rightarrow> zc_packet" where
  "toy_ping a b = \<lparr>inner = [3, 0, 0, 0, 4, 0, 0, 0, 1] @ replicate 7 0 @ [a, b], zc_type = DummyTunnel\<rparr>"

definition toy_ping_info :: "u8 \<Rightarrow> u8 \<Rightarrow> packet_info" where
  "toy_ping_info a b = \<lparr>src_ip = IpV4 (ucast a), dst_ip = IpV4 (ucast b), src_port = None, dst_port = None,
     pkt_protocol = Icmp, packet_size = 2, src_groups = [], dst_groups = []\<rparr>"

lemma toy_ping_parsed:
  "payload (toy_ping a b) = Some [a, b]"
  "\<exists>h. peer_manager_header_of (toy_ping a b) = Some h \<and> packet_type h = packet_kind_u8 Data"
  "extract_packet_info toy_net (\<lambda>_. []) (toy_ping a b) = Some (Some (toy_ping_info a b))"
  by (simp_all add: toy_ping_def payload_def payload_offset_def layout_simps peer_manager_header_of_def header_at_def
      slice_from_def ref_from_prefix_def pm_read_def extract_packet_info_def toy_net_def packet_view_def l4_ports_def
      acl_protocol_of_def get_src_peer_id_def get_dst_peer_id_def toy_ping_info_def)

definition toy_filter :: acl_filter where
  "toy_filter = reload_rules toy_env (Some None) (acl_filter_new toy_env)"

lemma toy_filter_run: "filter_run toy_env toy_net (Some None) [] 0 toy_filter"
  unfolding toy_filter_def by (rule run_reload [OF run_new])

lemma toy_verdict:
  "verdict toy_env (processor_new toy_env None) p Outbound = default_result Allow"
  "limiter_for toy_env (processor_new toy_env None) p Outbound = []"
  by (simp_all add: verdict_def limiter_for_def processor_new_def new_with_shared_state_def build_rules_def first_match_def
      build_default_actions_def default_for_def)

lemma toy_sends:
  "\<exists>f'. process_packet_with_acl toy_env toy_net (\<lambda>_. []) 5 0 (toy_ping 1 2) False None (\<lambda>_. False) toy_filter = Some (True, f')"
proof -
  obtain h where h: "peer_manager_header_of (toy_ping 1 2) = Some h" "packet_type h = packet_kind_u8 Data"
    using toy_ping_parsed(2) by blast
  obtain result ok f' where
    r: "process_packet_with_acl toy_env toy_net (\<lambda>_. []) 5 0 (toy_ping 1 2) False None (\<lambda>_. False) toy_filter = Some (ok, f')"
      "outcome_ok toy_env (processor_new toy_env None) (toy_ping_info 1 2) (classify_chain_type False (toy_ping_info 1 2) None (\<lambda>_. False)) result"
      "ok \<longleftrightarrow> res_action result \<noteq> Drop \<or> False \<and> st_get (outbound_allow_records toy_filter) (new_from_inbound_packet (toy_ping_info 1 2)) \<noteq> None"
      "filter_inv toy_env (Some None) (sent_info toy_net (\<lambda>_. []) 5 (toy_ping 1 2) False ok toy_filter @ []) 5 f'"
    using filter_step [OF filter_run_inv [OF toy_filter_run] _ h toy_ping_parsed(3)] zero_le .
  then show ?thesis by (auto simp: outcome_ok_def classify_chain_type_def toy_verdict default_result_def)
qed

theorem filter_enforces_rules_witness:
  "\<exists>ok f'. process_packet_with_acl toy_env toy_net (\<lambda>_. []) 5 0 (toy_ping 1 2) False None (\<lambda>_. False) toy_filter = Some (ok, f') \<and> ok"
proof -
  obtain h where h: "peer_manager_header_of (toy_ping 1 2) = Some h" "packet_type h = packet_kind_u8 Data"
    using toy_ping_parsed(2) by blast
  from filter_enforces_rules [OF toy_filter_run _ h(1) toy_ping_parsed(1), of 5 "\<lambda>_. []" 0 False None "\<lambda>_. False"] h(2)
  show ?thesis by (auto simp: toy_ping_parsed(3) toy_verdict classify_chain_type_def default_result_def)
qed

theorem replies_are_admitted_witness:
  "\<exists>f f'. filter_run toy_env toy_net (Some None) [(toy_ping_info 1 2, 5)] 5 f
    \<and> process_packet_with_acl toy_env toy_net (\<lambda>_. []) 6 0 (toy_ping 2 1) True None (\<lambda>_. False) f = Some (True, f')"
proof -
  obtain h h1 where h: "peer_manager_header_of (toy_ping 2 1) = Some h" "packet_type h = packet_kind_u8 Data"
      "peer_manager_header_of (toy_ping 1 2) = Some h1" "packet_type h1 = packet_kind_u8 Data"
    using toy_ping_parsed(2) by blast
  obtain f where f: "process_packet_with_acl toy_env toy_net (\<lambda>_. []) 5 0 (toy_ping 1 2) False None (\<lambda>_. False) toy_filter = Some (True, f)"
    using toy_sends by blast
  have "acl_enabled toy_filter" by (simp add: toy_filter_def reload_rules_def get_shared_state_def)
  with run_packet [OF toy_filter_run _ f] h(3,4)
  have run: "filter_run toy_env toy_net (Some None) [(toy_ping_info 1 2, 5)] 5 f" by (simp add: sent_info_def toy_ping_parsed(3))
  from replies_are_admitted [OF this _ h(1,2) toy_ping_parsed(3), of 6 "toy_ping_info 1 2" 5 0 None "\<lambda>_. False"]
  have "\<exists>f'. process_packet_with_acl toy_env toy_net (\<lambda>_. []) 6 0 (toy_ping 2 1) True None (\<lambda>_. False) f = Some (True, f')"
    by (simp add: reply_to_def toy_ping_info_def RECORD_MAX_LIFE_def)
  with run show ?thesis by blast
qed

lemma reload_keeps_old_limits_witness:
  "\<exists>f pr' v'. process_packet toy_env 5 0 (toy_tcp 80) Inbound (filter_processor (reload_rules toy_env (Some (toy_limited 7)) f))
      = Some (drop_result (RulePriority 9) RateLimitDrop, pr')
    \<and> st_get (rate_limiters pr') \<lparr>rk_chain = Inbound, rk_priority = 9\<rparr> = Some v' \<and> capacity (bucket_cfg (limiter_bucket v')) = 0"
proof -
  let ?k = "\<lparr>rk_chain = Inbound, rk_priority = 9\<rparr>"
  define v where "v = \<lparr>limiter_bucket = bucket_new 0 0 100 10000, last_update = 0\<rparr>"
  define f where "f = (acl_filter_new toy_env)\<lparr>filter_processor := (processor_new toy_env None)\<lparr>rate_limiters := [(?k, v)]\<rparr>\<rparr>"
  let ?pr = "filter_processor (reload_rules toy_env (Some (toy_limited 7)) f)"
  have get: "st_get (rate_limiters (filter_processor f)) ?k = Some v" by (simp add: f_def st_get_def)
  have "inbound_rules ?pr = [toy_rule 7] \<and> rule_cache ?pr = [] \<and> rate_limiters ?pr = [(?k, v)]"
    using toy_limited_rules(5) [of 7]
    by (simp add: f_def reload_rules_def get_shared_state_def processor_new_def new_with_shared_state_def split_beta Let_def)
  then obtain pr' where p: "process_packet toy_env 5 0 (toy_tcp 80) Inbound ?pr = Some (drop_result (RulePriority 9) RateLimitDrop, pr')"
    by (simp add: process_packet_def store_simps toy_rule_fields apply_rule_def check_rate_limit_def st_get_def v_def
        try_consume_def bucket_new_def new_from_cfg_def Let_def)
  from reload_keeps_old_limits [OF get p] obtain v' where
    "st_get (rate_limiters pr') ?k = Some v'" "bucket_cfg (limiter_bucket v') = bucket_cfg (limiter_bucket v)" by blast
  moreover from this(2) have "capacity (bucket_cfg (limiter_bucket v')) = 0" by (simp add: v_def bucket_new_def new_from_cfg_def)
  ultimately show ?thesis using p by blast
qed

end
