(* ===== verification/Compressor.thy ===== *)
theory Compressor
  imports Encrypt
begin

text \<open>
  Compression of packets and of RPC bodies (\<^verbatim>\<open>common/compressor.rs\<close>, default build with zstd).
  The zstd crate is the parameter record \<open>zstd\<close>: bulk compression, and bulk decompression into a
  buffer of a given size, which fails when the buffer is too small.  As elsewhere \<^term>\<open>None\<close> is a
  panic, the left summand an error.
\<close>

datatype zstd_result = ZOk bytes | ZTooSmall | ZFailed

record zstd =
  zstd_compress :: "bytes \<Rightarrow> bytes option"
  zstd_decompress :: "bytes \<Rightarrow> nat \<Rightarrow> zstd_result"

text \<open>Documented behaviour: decompression inverts compression when the buffer holds the result.\<close>

definition zstd_correct :: "zstd \<Rightarrow> bool" where
  "zstd_correct z \<longleftrightarrow> (\<forall>dat c n. zstd_compress z dat = Some c \<longrightarrow>
     zstd_decompress z c n = (if length dat \<le> n then ZOk dat else ZTooSmall))"

datatype compress_error =
    CompressFailed | DecompressFailed | TooManyAttempts | CompressedTooShort nat | UnknownAlgo | LengthMismatch nat nat

definition compress_raw :: "zstd \<Rightarrow> bytes \<Rightarrow> compressor_algo \<Rightarrow> compress_error + bytes" where
  "compress_raw z dat compress_algo = (case compress_algo of
       ZstdDefault \<Rightarrow> (case zstd_compress z dat of None \<Rightarrow> Inl CompressFailed | Some c \<Rightarrow> Inr c)
     | AlgoNone \<Rightarrow> Inr dat)"

text \<open>The buffer of attempt \<open>i\<close>, and the attempts from the \<open>i\<close>-th on.\<close>

definition attempt_len :: "bytes \<Rightarrow> nat \<Rightarrow> nat" where
  "attempt_len dat i =
     (let len = length dat * 2 ^ i in if i = 5 \<and> len < 64 * 1024 then 64 * 1024 else len)"

fun decompress_attempts :: "zstd \<Rightarrow> bytes \<Rightarrow> nat list \<Rightarrow> compress_error + bytes" where
  "decompress_attempts z dat [] = Inl TooManyAttempts"
| "decompress_attempts z dat (i # is) = (case zstd_decompress z dat (attempt_len dat i) of
       ZOk buf \<Rightarrow> Inr buf
     | ZTooSmall \<Rightarrow> decompress_attempts z dat is
     | ZFailed \<Rightarrow> Inl DecompressFailed)"

definition decompress_raw :: "zstd \<Rightarrow> bytes \<Rightarrow> compressor_algo \<Rightarrow> compress_error + bytes" where
  "decompress_raw z dat compress_algo = (case compress_algo of
       ZstdDefault \<Rightarrow> decompress_attempts z dat [1, 2, 3, 4, 5]
     | AlgoNone \<Rightarrow> Inr dat)"

definition compressor_tail_as_bytes :: "compressor_tail \<Rightarrow> bytes" where
  "compressor_tail_as_bytes t = [algo t]"

definition compressor_tail_read :: "bytes \<Rightarrow> compressor_tail" where
  "compressor_tail_read bs = \<lparr>algo = bs ! 0\<rparr>"

text \<open>\<^verbatim>\<open>truncate\<close> to the header and append.\<close>

definition replace_payload :: "bytes \<Rightarrow> zc_packet \<Rightarrow> zc_packet" where
  "replace_payload body p = p\<lparr>inner := take (payload_offset p) (inner p) @ body\<rparr>"

definition compress :: "zstd \<Rightarrow> compressor_algo \<Rightarrow> zc_packet \<Rightarrow> (compress_error + zc_packet) option" where
  "compress z compress_algo p =
     (if compress_algo = AlgoNone then Some (Inr p)
      else do {
        pm_header \<leftarrow> peer_manager_header_of p;
        if is_compressed pm_header then Some (Inr p)
        else do {
          let tail = compressor_tail_new compress_algo;
          pl \<leftarrow> payload p;
          (case compress_raw z pl compress_algo of
             Inl e \<Rightarrow> Some (Inl e)
           | Inr buf \<Rightarrow>
               if unat (pm_len pm_header) < length buf + COMPRESSOR_TAIL_SIZE then Some (Inr p)
               else do {
                 p1 \<leftarrow> mut_peer_manager_header (set_compressed True) p;
                 Some (Inr (replace_payload (buf @ compressor_tail_as_bytes tail) p1))
               })
        }
      })"

definition decompress :: "zstd \<Rightarrow> zc_packet \<Rightarrow> (compress_error + zc_packet) option" where
  "decompress z p = do {
     pm_header \<leftarrow> peer_manager_header_of p;
     if \<not> is_compressed pm_header then Some (Inr p)
     else do {
       pl \<leftarrow> payload p;
       if length pl < COMPRESSOR_TAIL_SIZE then Some (Inl (CompressedTooShort (length pl)))
       else do {
         let text_len = length pl - COMPRESSOR_TAIL_SIZE;
         tail \<leftarrow> ref_from_suffix COMPRESSOR_TAIL_SIZE compressor_tail_read pl;
         (case get_algo tail of
            None \<Rightarrow> Some (Inl UnknownAlgo)
          | Some a \<Rightarrow> (case decompress_raw z (take text_len pl) a of
                Inl e \<Rightarrow> Some (Inl e)
              | Inr buf \<Rightarrow>
                  if length buf \<noteq> unat (pm_len pm_header)
                  then Some (Inl (LengthMismatch (length buf) (unat (pm_len pm_header))))
                  else do {
                    p1 \<leftarrow> mut_peer_manager_header (set_compressed False) p;
                    Some (Inr (replace_payload buf p1))
                  }))
       }
     }
   }"

section \<open>The attempts\<close>

text \<open>The largest buffer that is ever tried.\<close>

definition decompress_limit :: "bytes \<Rightarrow> nat" where
  "decompress_limit c = max (32 * length c) (64 * 1024)"

lemma decompress_raw_of_compress:
  assumes "zstd_correct z" "zstd_compress z dat = Some c"
  shows "decompress_raw z c ZstdDefault
    = (if length dat \<le> decompress_limit c then Inr dat else Inl TooManyAttempts)"
proof -
  have "zstd_decompress z c n = (if length dat \<le> n then ZOk dat else ZTooSmall)" for n
    using assms by (simp add: zstd_correct_def)
  then show ?thesis
    by (simp add: decompress_raw_def attempt_len_def decompress_limit_def Let_def)
qed

lemma raw_roundtrip:
  assumes "zstd_correct z" "compress_raw z dat a = Inr c" "length dat \<le> decompress_limit c \<or> a = AlgoNone"
  shows "decompress_raw z c a = Inr dat"
  using assms decompress_raw_of_compress [OF assms(1), of dat c]
  by (cases a) (auto simp: compress_raw_def decompress_raw_def split: option.splits)

section \<open>Packets\<close>

lemma replace_payload_packet_of [simp]:
  assumes "length pre = peer_manager_header_off (get_packet_offsets pt)"
  shows "replace_payload body' (packet_of pt pre h body) = packet_of pt pre h body'"
  using assms
  by (simp add: replace_payload_def packet_of_def payload_offset_def payload_offset_pm layout_simps pm_as_bytes_def)

lemma compressed_flag [simp]:
  "is_compressed (set_compressed on h) = on" "pm_len (set_compressed on h) = pm_len h"
  using has_flag_set_flag_bits [of 4 4 on h] has_flag_set_flag_bits [of 4 4 on h]
  by (simp_all add: is_compressed_def set_compressed_def COMPRESSED_def set_flag_def has_flag_def)

lemma set_flag_twice:
  assumes "i < 8" "\<not> has_flag (2 ^ i) h"
  shows "set_flag (2 ^ i) False (set_flag (2 ^ i) True h) = h"
proof -
  have "(flags h OR 2 ^ i) AND NOT (2 ^ i) = flags h"
    by (rule bit_word_eqI) (use assms has_flag_bit in \<open>auto simp: bit_and_iff bit_or_iff bit_not_iff bit_u8_exp\<close>)
  then show ?thesis by (simp add: set_flag_def)
qed

lemma set_compressed_twice: "\<not> is_compressed h \<Longrightarrow> set_compressed False (set_compressed True h) = h"
  using set_flag_twice [of 4 h] by (simp add: is_compressed_def set_compressed_def COMPRESSED_def)

lemma length_packet_of [simp]: "length (inner (packet_of pt pre h body)) = length pre + 16 + length body"
  by (simp add: packet_of_def pm_as_bytes_def)

lemma compress_packet_of:
  assumes "length pre = peer_manager_header_off (get_packet_offsets pt)" "\<not> is_compressed h" "a \<noteq> AlgoNone"
  shows "compress z a (packet_of pt pre h body) = Some (case compress_raw z body a of
      Inl e \<Rightarrow> Inl e
    | Inr buf \<Rightarrow> Inr (if unat (pm_len h) \<le> length buf then packet_of pt pre h body
        else packet_of pt pre (set_compressed True h) (buf @ [compressor_algo_u8 a])))"
  using assms
  by (auto simp: compress_def compressor_tail_as_bytes_def compressor_tail_new_def layout_simps split: sum.split)

lemma decompress_packet_of:
  assumes "length pre = peer_manager_header_off (get_packet_offsets pt)" "is_compressed h"
  shows "decompress z (packet_of pt pre h (buf @ [compressor_algo_u8 ZstdDefault])) = Some (case decompress_raw z buf ZstdDefault of
      Inl e \<Rightarrow> Inl e
    | Inr body \<Rightarrow> if length body \<noteq> unat (pm_len h) then Inl (LengthMismatch (length body) (unat (pm_len h)))
        else Inr (packet_of pt pre (set_compressed False h) body))"
  using assms
  by (auto simp: decompress_def layout_simps ref_from_suffix_def compressor_tail_read_def get_algo_def split: sum.split)

text \<open>
  Compression is transparent.  Compressing a packet that is not compressed yet never panics and
  fails only when zstd does; the result is never longer than the packet; and decompressing it gives the
  packet back, for every payload of up to 64 KiB whose length the header records.
\<close>

theorem compress_roundtrip:
  assumes "zstd_correct z" and "payload_offset p \<le> length (inner p)" and "peer_manager_header_of p = Some h"
    and "\<not> is_compressed h" and "payload p = Some body" and "unat (pm_len h) = length body" and "length body \<le> 64 * 1024"
  shows "(compress z a p = Some (Inl e) \<longrightarrow> zstd_compress z body = None) \<and> compress z a p \<noteq> None
    \<and> (\<forall>q. compress z a p = Some (Inr q) \<longrightarrow> length (inner q) \<le> length (inner p) \<and> decompress z q = Some (Inr p))"
proof -
  obtain pt pre h0 body0 where pk: "p = packet_of pt pre h0 body0"
      "length pre = peer_manager_header_off (get_packet_offsets pt)"
    using assms(2) by (rule packet_of_cases)
  have eq: "h0 = h" "body0 = body" using assms(3,5) pk by simp_all
  have plain: "decompress z p = Some (Inr p)" using assms(3,4) by (simp add: decompress_def)
  show ?thesis
  proof (cases a)
    case AlgoNone
    then show ?thesis using plain by (simp add: compress_def)
  next
    case ZstdDefault
    have c: "compress z a p = Some (case compress_raw z body a of Inl e \<Rightarrow> Inl e
        | Inr buf \<Rightarrow> Inr (if unat (pm_len h) \<le> length buf then p
            else packet_of pt pre (set_compressed True h) (buf @ [compressor_algo_u8 a])))"
      unfolding pk(1) eq by (rule compress_packet_of [OF pk(2) assms(4)]) (simp add: ZstdDefault)
    have "length (inner q) \<le> length (inner p) \<and> decompress z q = Some (Inr p)"
      if "compress_raw z body a = Inr buf" "\<not> unat (pm_len h) \<le> length buf"
        "q = packet_of pt pre (set_compressed True h) (buf @ [compressor_algo_u8 a])" for buf q
    proof -
      have "decompress_raw z buf ZstdDefault = Inr body"
        using raw_roundtrip [OF assms(1)] that(1) assms(7) ZstdDefault by (simp add: decompress_limit_def)
      then have "decompress z q = Some (Inr p)"
        using decompress_packet_of [OF pk(2), of "set_compressed True h" z buf] that(3) ZstdDefault assms(6) pk(1) eq
          set_compressed_twice [OF assms(4)] by simp
      moreover have "length (inner q) \<le> length (inner p)"
        using that(2,3) pk(1) eq assms(6) by (simp add: packet_of_def pm_as_bytes_def)
      ultimately show ?thesis by blast
    qed
    then show ?thesis
      using c plain ZstdDefault by (auto simp: compress_raw_def split: sum.splits option.splits if_splits)
  qed
qed

section \<open>Concrete compression\<close>

definition toy_zstd :: zstd where
  "toy_zstd = \<lparr>zstd_compress = (\<lambda>dat. Some (if dat = replicate 40 0 then [2] else 0 # dat)),
     zstd_decompress = (\<lambda>c n. let dat = (if c = [2] then replicate 40 0 else tl c) in if length dat \<le> n then ZOk dat else ZTooSmall)\<rparr>"

lemma toy_zstd_correct: "zstd_correct toy_zstd"
  by (auto simp: zstd_correct_def toy_zstd_def Let_def)

definition toy_zeros :: zc_packet where
  "toy_zeros = packet_of DummyTunnel [] \<lparr>from_peer_id = 3, to_peer_id = 4, packet_type = 1, flags = 0, forward_counter = 1,
     reserved = 0, pm_len = 40\<rparr> (replicate 40 0)"

theorem compress_roundtrip_witness:
  "\<exists>q. compress toy_zstd ZstdDefault toy_zeros = Some (Inr q) \<and> q \<noteq> toy_zeros \<and> decompress toy_zstd q = Some (Inr toy_zeros)"
proof -
  let ?h = "\<lparr>from_peer_id = 3, to_peer_id = 4, packet_type = 1, flags = 0, forward_counter = 1, reserved = 0, pm_len = 40\<rparr>"
  have len: "length [] = peer_manager_header_off (get_packet_offsets DummyTunnel)" by (simp add: layout_simps)
  have nc: "\<not> is_compressed ?h" by (simp add: is_compressed_def has_flag_def COMPRESSED_def)
  have "compress toy_zstd ZstdDefault toy_zeros
      = Some (Inr (packet_of DummyTunnel [] (set_compressed True ?h) ([2] @ [compressor_algo_u8 ZstdDefault])))"
    unfolding toy_zeros_def
    using compress_packet_of [OF len nc, of ZstdDefault toy_zstd "replicate 40 0"] by (simp add: compress_raw_def toy_zstd_def)
  moreover have "packet_of DummyTunnel [] (set_compressed True ?h) ([2] @ [compressor_algo_u8 ZstdDefault]) \<noteq> toy_zeros"
    (is "?q \<noteq> _")
  proof
    assume "?q = toy_zeros"
    then have "length (inner ?q) = length (inner toy_zeros)" by (rule arg_cong)
    then show False by (simp add: toy_zeros_def)
  qed
  moreover have "payload_offset toy_zeros \<le> length (inner toy_zeros)" "peer_manager_header_of toy_zeros = Some ?h"
      "payload toy_zeros = Some (replicate 40 0)"
    unfolding toy_zeros_def by (rule packet_of_access [OF len])+
  ultimately show ?thesis
    using compress_roundtrip [OF toy_zstd_correct _ _ nc, of toy_zeros "replicate 40 0" ZstdDefault] by simp
qed

end
