(* ===== verification/Rpc_Packet.thy ===== *)
theory Rpc_Packet
  imports Compressor
begin

text \<open>
  RPC messages on the wire (\<^verbatim>\<open>proto/rpc_impl/packet.rs\<close>): splitting a message into pieces that fit
  the UDP budget, merging received pieces, and compressing message bodies.  The protobuf codec of
  the prost crate is the parameter record \<open>rpc_codec\<close>; encoded lengths are the lengths of encodings.
\<close>

section \<open>Messages\<close>

record rpc_descriptor =
  domain_name :: string
  proto_name :: string
  service_name :: string
  method_index :: u32

datatype compression_algo_pb = PbInvalid | PbNone | PbZstd

fun compression_algo_pb_i32 :: "compression_algo_pb \<Rightarrow> int" where
  "compression_algo_pb_i32 PbInvalid = 0"
| "compression_algo_pb_i32 PbNone = 1"
| "compression_algo_pb_i32 PbZstd = 2"

record rpc_compression_info =
  info_algo :: int
  info_accepted_algo :: int

record rpc_packet =
  rpc_from_peer :: u32
  rpc_to_peer :: u32
  transaction_id :: u64
  descriptor :: "rpc_descriptor option"
  rpc_body :: bytes
  is_request :: bool
  total_pieces :: u32
  piece_idx :: u32
  trace_id :: u32
  compression_info :: "rpc_compression_info option"

definition rpc_packet_default :: rpc_packet where
  "rpc_packet_default = \<lparr>rpc_from_peer = 0, rpc_to_peer = 0, transaction_id = 0, descriptor = None, rpc_body = [],
     is_request = False, total_pieces = 0, piece_idx = 0, trace_id = 0, compression_info = None\<rparr>"

record rpc_codec =
  rpc_encode :: "rpc_packet \<Rightarrow> bytes"
  rpc_decode :: "bytes \<Rightarrow> rpc_packet option"
  length_delimiter_len :: "nat \<Rightarrow> nat"

text \<open>
  Documented behaviour of protobuf: decoding inverts encoding; the bytes field 5 takes nothing when
  empty and otherwise a one-byte tag, the length as a varint, and its contents; a varint grows with
  its value, takes one byte below 128 and never more than ten.
\<close>

definition codec_correct :: "rpc_codec \<Rightarrow> bool" where
  "codec_correct c \<longleftrightarrow>
     (\<forall>p. rpc_decode c (rpc_encode c p) = Some p)
     \<and> (\<forall>p. length (rpc_encode c p) = length (rpc_encode c (p\<lparr>rpc_body := []\<rparr>))
          + (if rpc_body p = [] then 0 else 1 + length_delimiter_len c (length (rpc_body p)) + length (rpc_body p)))
     \<and> (\<forall>p t i. total_pieces p \<le> t \<and> piece_idx p \<le> i \<longrightarrow>
          length (rpc_encode c p) \<le> length (rpc_encode c (p\<lparr>total_pieces := t, piece_idx := i\<rparr>)))
     \<and> (\<forall>m n. m \<le> n \<longrightarrow> length_delimiter_len c m \<le> length_delimiter_len c n)
     \<and> (\<forall>n < 128. length_delimiter_len c n = 1) \<and> (\<forall>n. length_delimiter_len c n \<le> 10)"

section \<open>Compression of bodies\<close>

datatype rpc_error = RpcCompress compress_error | InvalidAlgo | DescriptorMissing | InvalidTotalPieces u32 | PieceIdxTooLarge

definition algo_of_pb :: "compression_algo_pb \<Rightarrow> compressor_algo option" where
  "algo_of_pb a = (case a of PbZstd \<Rightarrow> Some ZstdDefault | PbNone \<Rightarrow> Some AlgoNone | PbInvalid \<Rightarrow> None)"

definition pb_of_algo :: "compressor_algo \<Rightarrow> compression_algo_pb" where
  "pb_of_algo a = (case a of ZstdDefault \<Rightarrow> PbZstd | AlgoNone \<Rightarrow> PbNone)"

definition compress_packet :: "zstd \<Rightarrow> compression_algo_pb \<Rightarrow> bytes \<Rightarrow> rpc_error + bytes \<times> compression_algo_pb" where
  "compress_packet z accepted_compression_algo content =
     (let a = (case algo_of_pb accepted_compression_algo of None \<Rightarrow> AlgoNone | Some a \<Rightarrow> a)
      in case compress_raw z content a of
          Inl e \<Rightarrow> Inl (RpcCompress e)
        | Inr compressed \<Rightarrow>
            if length content \<le> length compressed then Inr (content, PbNone) else Inr (compressed, pb_of_algo a))"

definition decompress_packet :: "zstd \<Rightarrow> compression_algo_pb \<Rightarrow> bytes \<Rightarrow> rpc_error + bytes" where
  "decompress_packet z compression_algo content = (case algo_of_pb compression_algo of
       None \<Rightarrow> Inl InvalidAlgo
     | Some a \<Rightarrow> (case decompress_raw z content a of Inl e \<Rightarrow> Inl (RpcCompress e) | Inr d \<Rightarrow> Inr d))"

section \<open>Merging\<close>

record packet_merger =
  first_piece :: "rpc_packet option"
  pieces :: "rpc_packet list"
  last_updated :: nat

definition merger_new :: "nat \<Rightarrow> packet_merger" where
  "merger_new now = \<lparr>first_piece = None, pieces = [], last_updated = now\<rparr>"

definition try_merge_pieces :: "packet_merger \<Rightarrow> rpc_packet option" where
  "try_merge_pieces m =
     (if first_piece m = None \<or> pieces m = [] then None
      else if list_ex (\<lambda>p. total_pieces p = 0) (pieces m) then None
      else Some ((pieces m ! 0)\<lparr>total_pieces := 1, piece_idx := 0, rpc_body := concat (map rpc_body (pieces m))\<rparr>))"

text \<open>\<^verbatim>\<open>Vec::resize\<close>.\<close>

definition vec_resize :: "nat \<Rightarrow> 'a \<Rightarrow> 'a list \<Rightarrow> 'a list" where
  "vec_resize n d xs = take n xs @ replicate (n - length xs) d"

definition feed :: "nat \<Rightarrow> rpc_packet \<Rightarrow> packet_merger \<Rightarrow> (rpc_error + rpc_packet option) \<times> packet_merger" where
  "feed now p m =
     (if total_pieces p = 0 \<and> piece_idx p = 0 then (Inr (Some p), m)
      else if piece_idx p = 0 \<and> descriptor p = None then (Inl DescriptorMissing, m)
      else if 32 * 1024 < total_pieces p \<or> total_pieces p = 0 then (Inl (InvalidTotalPieces (total_pieces p)), m)
      else if total_pieces p \<le> piece_idx p then (Inl PieceIdxTooLarge, m)
      else
        let m1 = (if (case first_piece m of None \<Rightarrow> True
                      | Some f \<Rightarrow> transaction_id f \<noteq> transaction_id p \<or> rpc_from_peer f \<noteq> rpc_from_peer p)
                  then m\<lparr>first_piece := Some p, pieces := []\<rparr> else m);
            ps = (vec_resize (unat (total_pieces p)) rpc_packet_default (pieces m1))[unat (piece_idx p) := p];
            m2 = m1\<lparr>pieces := ps, last_updated := now\<rparr>
        in (Inr (try_merge_pieces m2), m2))"

section \<open>Splitting\<close>

record build_args =
  arg_from_peer :: u32
  arg_to_peer :: u32
  rpc_desc :: rpc_descriptor
  arg_transaction_id :: u64
  is_req :: bool
  content :: bytes
  arg_trace_id :: u32
  arg_compression_info :: rpc_compression_info

definition RPC_PACKET_UDP_PAYLOAD_BUDGET :: nat where "RPC_PACKET_UDP_PAYLOAD_BUDGET = 1300"

definition udp_rpc_tunnel_overhead :: nat where
  "udp_rpc_tunnel_overhead = payload_off (get_packet_offsets UDP) + TAIL_RESERVED_SIZE"

definition max_rpc_packet_encoded_len_for_udp :: nat where
  "max_rpc_packet_encoded_len_for_udp = RPC_PACKET_UDP_PAYLOAD_BUDGET - udp_rpc_tunnel_overhead"

definition build_rpc_piece :: "build_args \<Rightarrow> u32 \<Rightarrow> u32 \<Rightarrow> bytes \<Rightarrow> rpc_packet" where
  "build_rpc_piece args tp idx body = \<lparr>
     rpc_from_peer = arg_from_peer args, rpc_to_peer = arg_to_peer args, transaction_id = arg_transaction_id args,
     descriptor = (if idx = 0 \<or> info_algo (arg_compression_info args) = compression_algo_pb_i32 PbNone
                   then Some (rpc_desc args) else None),
     rpc_body = body, is_request = is_req args, total_pieces = tp, piece_idx = idx, trace_id = arg_trace_id args,
     compression_info = (if idx = 0 then Some (arg_compression_info args) else None)\<rparr>"

definition pick_piece_len_for_budget :: "rpc_codec \<Rightarrow> nat \<Rightarrow> nat \<Rightarrow> nat \<Rightarrow> nat" where
  "pick_piece_len_for_budget c base remaining max_encoded_len =
     (if remaining = 0 then 0
      else if max_encoded_len < base + 3 then 1
      else let budget = max_encoded_len - base;
               reserved_for_body_header = 1 + length_delimiter_len c budget
           in max (min remaining (budget - reserved_for_body_header)) 1)"

text \<open>The loop from an offset on; the flag says whether the list of pieces is still empty.\<close>

function split_from :: "rpc_codec \<Rightarrow> nat \<Rightarrow> nat \<Rightarrow> nat \<Rightarrow> bool \<Rightarrow> nat \<Rightarrow> nat \<Rightarrow> (nat \<times> nat) list" where
  "split_from c first_base other_base max_len is_first len offset =
     (if offset < len then
        let base = (if is_first then first_base else other_base);
            piece_len = pick_piece_len_for_budget c base (len - offset) max_len
        in (offset, piece_len) # split_from c first_base other_base max_len False len (offset + piece_len)
      else [])"
  by pat_completeness auto

termination split_from
  by (relation "measure (\<lambda>(c, f, ob, m, b, len, offset). len - offset)")
    (auto simp: pick_piece_len_for_budget_def Let_def)

declare split_from.simps [simp del]

definition split_rpc_content_for_udp_budget :: "rpc_codec \<Rightarrow> build_args \<Rightarrow> (nat \<times> nat) list" where
  "split_rpc_content_for_udp_budget c args =
     (if content args = [] then [(0, 0)]
      else let max_encoded_len = max max_rpc_packet_encoded_len_for_udp 1;
               first_piece_base_len = length (rpc_encode c (build_rpc_piece args (- 1) 0 []));
               other_piece_base_len = length (rpc_encode c (build_rpc_piece args (- 1) (- 1) []))
           in split_from c first_piece_base_len other_piece_base_len max_encoded_len True (length (content args)) 0)"

definition rpc_pieces :: "rpc_codec \<Rightarrow> build_args \<Rightarrow> rpc_packet list" where
  "rpc_pieces c args =
     (let ps = split_rpc_content_for_udp_budget c args; tp = of_nat (length ps)
      in map (\<lambda>(i, offset, len). build_rpc_piece args tp (of_nat i) (take len (drop offset (content args))))
           (zip [0 ..< length ps] ps))"

definition rpc_packet_type :: "build_args \<Rightarrow> u8" where
  "rpc_packet_type args = packet_kind_u8 (if is_req args then RpcReq else RpcResp)"

definition build_rpc_packet :: "rpc_codec \<Rightarrow> (nat \<Rightarrow> u8) \<Rightarrow> build_args \<Rightarrow> zc_packet list option" where
  "build_rpc_packet c g args =
     those (map (\<lambda>cur_packet. do {
         p \<leftarrow> new_with_payload g (rpc_encode c cur_packet);
         fill_peer_manager_hdr (arg_from_peer args) (arg_to_peer args) (rpc_packet_type args) p
       }) (rpc_pieces c args))"

section \<open>The slicing plan\<close>

text \<open>The pieces of a plan follow each other without gaps.\<close>

fun contiguous :: "nat \<Rightarrow> (nat \<times> nat) list \<Rightarrow> nat \<Rightarrow> bool" where
  "contiguous start [] lim = (start = lim)"
| "contiguous start ((offset, len) # ps) lim = (offset = start \<and> contiguous (start + len) ps lim)"

lemma pick_bounds:
  "0 < remaining \<Longrightarrow> 0 < pick_piece_len_for_budget c base remaining m"
  "pick_piece_len_for_budget c base remaining m \<le> remaining"
  by (auto simp: pick_piece_len_for_budget_def Let_def)

lemma split_from_contiguous:
  assumes "offset \<le> len"
  shows "contiguous offset (split_from c fb ob m b len offset) len"
  using assms
proof (induction c fb ob m b len offset rule: split_from.induct)
  case (1 c fb ob m b len offset)
  then show ?case
    using pick_bounds(2) [of c "if b then fb else ob" "len - offset" m]
    by (auto simp: split_from.simps [of c fb ob m b len offset] Let_def)
qed

lemma split_from_lengths:
  "(o', l) \<in> set (split_from c fb ob m b len offset) \<Longrightarrow>
    \<exists>base r. (base = ob \<or> b \<and> base = fb \<and> o' = offset) \<and> l = pick_piece_len_for_budget c base r m"
proof (induction c fb ob m b len offset rule: split_from.induct)
  case (1 c fb ob m b len offset)
  then show ?case
    by (subst (asm) split_from.simps [of c fb ob m b len offset]) (auto simp: Let_def split: if_splits)
qed

lemma split_from_length: "length (split_from c fb ob m b len offset) \<le> len - offset"
proof (induction c fb ob m b len offset rule: split_from.induct)
  case (1 c fb ob m b len offset)
  show ?case
  proof (cases "offset < len")
    case True
    let ?l = "pick_piece_len_for_budget c (if b then fb else ob) (len - offset) m"
    have "length (split_from c fb ob m False len (offset + ?l)) \<le> len - (offset + ?l)" "0 < ?l"
      using 1 [OF True refl refl] pick_bounds(1) True by auto
    with True show ?thesis by (subst split_from.simps) (simp add: Let_def)
  qed (subst split_from.simps, simp)
qed

lemma contiguous_concat:
  "contiguous start ps lim \<Longrightarrow> concat (map (\<lambda>(offset, len). take len (drop offset xs)) ps) = take (lim - start) (drop start xs)
    \<and> start \<le> lim"
proof (induction start ps lim rule: contiguous.induct)
  case (2 start offset len ps lim)
  then have IH: "concat (map (\<lambda>(offset, len). take len (drop offset xs)) ps) = take (lim - (start + len)) (drop (start + len) xs)"
    and le: "start + len \<le> lim" and o: "offset = start" by auto
  from le have "take (lim - start) (drop start xs) = take (len + (lim - (start + len))) (drop start xs)" by simp
  also have "\<dots> = take len (drop start xs) @ take (lim - (start + len)) (drop (start + len) xs)"
    by (simp only: take_add drop_drop add.commute)
  finally show ?case using le by (simp add: IH o)
qed simp

lemma split_concat:
  "concat (map (\<lambda>(offset, len). take len (drop offset (content args))) (split_rpc_content_for_udp_budget c args)) = content args"
proof (cases "content args = []")
  case False
  then show ?thesis
    unfolding split_rpc_content_for_udp_budget_def Let_def
    using contiguous_concat [OF split_from_contiguous [OF zero_le], where xs = "content args"] by simp
qed (simp add: split_rpc_content_for_udp_budget_def)

lemma split_nonempty: "split_rpc_content_for_udp_budget c args \<noteq> []"
  by (subst split_rpc_content_for_udp_budget_def) (simp add: Let_def split_from.simps)

section \<open>Merging in any order\<close>

lemma rpc_pieces_nth:
  assumes "i < length (rpc_pieces c args)"
  shows "rpc_pieces c args ! i = build_rpc_piece args (of_nat (length (rpc_pieces c args))) (of_nat i)
    (case split_rpc_content_for_udp_budget c args ! i of (offset, len) \<Rightarrow> take len (drop offset (content args)))"
  using assms by (simp add: rpc_pieces_def Let_def split_beta)

lemma rpc_pieces_body: "concat (map rpc_body (rpc_pieces c args)) = content args"
proof -
  let ?ps = "split_rpc_content_for_udp_budget c args"
  have "map rpc_body (rpc_pieces c args) = map (\<lambda>(offset, len). take len (drop offset (content args))) ?ps"
    by (rule nth_equalityI) (simp_all add: rpc_pieces_def Let_def split_beta build_rpc_piece_def)
  then show ?thesis by (simp add: split_concat)
qed

lemma rpc_pieces_nonempty: "rpc_pieces c args \<noteq> []"
  using split_nonempty by (simp add: rpc_pieces_def Let_def)

text \<open>A merger that has seen nothing of this message, and one that holds exactly the pieces in \<open>I\<close>.\<close>

definition other_message :: "build_args \<Rightarrow> packet_merger \<Rightarrow> bool" where
  "other_message args m \<longleftrightarrow> (case first_piece m of None \<Rightarrow> True
     | Some f \<Rightarrow> transaction_id f \<noteq> arg_transaction_id args \<or> rpc_from_peer f \<noteq> arg_from_peer args)"

definition holds_pieces :: "rpc_codec \<Rightarrow> build_args \<Rightarrow> nat set \<Rightarrow> packet_merger \<Rightarrow> bool" where
  "holds_pieces c args I m \<longleftrightarrow> first_piece m \<noteq> None \<and> \<not> other_message args m
     \<and> pieces m = map (\<lambda>i. if i \<in> I then rpc_pieces c args ! i else rpc_packet_default) [0 ..< length (rpc_pieces c args)]"

definition merged_packet :: "rpc_codec \<Rightarrow> build_args \<Rightarrow> rpc_packet" where
  "merged_packet c args = (rpc_pieces c args ! 0)\<lparr>total_pieces := 1, piece_idx := 0, rpc_body := content args\<rparr>"

lemma vec_resize_same: "length xs = n \<Longrightarrow> vec_resize n d xs = xs"
  by (simp add: vec_resize_def)

lemma vec_resize_nil: "vec_resize n d [] = replicate n d"
  by (simp add: vec_resize_def)

lemma try_merge_holds:
  assumes "holds_pieces c args I m" "I \<subseteq> {..< length (rpc_pieces c args)}" "length (rpc_pieces c args) < 2 ^ 32"
  shows "try_merge_pieces m = (if I = {..< length (rpc_pieces c args)} then Some (merged_packet c args) else None)"
proof -
  let ?ps = "rpc_pieces c args" let ?n = "length ?ps"
  have n: "0 < ?n" using rpc_pieces_nonempty by simp
  have "total_pieces (?ps ! i) \<noteq> 0" if "i < ?n" for i
  proof -
    have "unat (of_nat ?n :: u32) = ?n" using assms(3) by (simp add: unat_of_nat)
    then have "(of_nat ?n :: u32) \<noteq> 0" using n by (metis less_irrefl unat_0)
    then show ?thesis using rpc_pieces_nth [OF that] by (simp add: build_rpc_piece_def)
  qed
  then have miss: "list_ex (\<lambda>p. total_pieces p = 0) (pieces m) \<longleftrightarrow> I \<noteq> {..< ?n}"
  proof -
    have "list_ex (\<lambda>p. total_pieces p = 0) (pieces m) \<longleftrightarrow> (\<exists>i < ?n. i \<notin> I)"
      using assms(1) \<open>\<And>i. i < ?n \<Longrightarrow> _\<close> by (auto simp: holds_pieces_def list_ex_length rpc_packet_default_def)
    then show ?thesis using assms(2) by auto
  qed
  show ?thesis
  proof (cases "I = {..< ?n}")
    case True
    then have "pieces m = ?ps" using assms(1) by (auto simp: holds_pieces_def intro!: nth_equalityI)
    moreover have "first_piece m \<noteq> None" using assms(1) by (simp add: holds_pieces_def)
    ultimately show ?thesis
      using True miss rpc_pieces_nonempty by (simp add: try_merge_pieces_def merged_packet_def rpc_pieces_body)
  qed (simp add: try_merge_pieces_def miss)
qed

lemma feed_piece:
  assumes "i < length (rpc_pieces c args)" "length (rpc_pieces c args) \<le> 32 * 1024"
    and "other_message args m \<and> I = {} \<or> holds_pieces c args I m" "I \<subseteq> {..< length (rpc_pieces c args)}"
  obtains m' where "feed now (rpc_pieces c args ! i) m = (Inr (if insert i I = {..< length (rpc_pieces c args)}
      then Some (merged_packet c args) else None), m')" "holds_pieces c args (insert i I) m'"
proof -
  let ?ps = "rpc_pieces c args" let ?n = "length ?ps" let ?p = "?ps ! i"
  have p: "?p = build_rpc_piece args (of_nat ?n) (of_nat i) (rpc_body ?p)"
    using rpc_pieces_nth [OF assms(1)] by (simp add: build_rpc_piece_def)
  have w: "unat (of_nat ?n :: u32) = ?n" "unat (of_nat i :: u32) = i"
    using assms(1,2) by (simp_all add: unat_of_nat)
  have f: "total_pieces ?p = of_nat ?n" "piece_idx ?p = of_nat i" "transaction_id ?p = arg_transaction_id args"
      "rpc_from_peer ?p = arg_from_peer args"
    by (subst p, simp add: build_rpc_piece_def)+
  have d: "piece_idx ?p = 0 \<Longrightarrow> descriptor ?p \<noteq> None"
    by (subst (asm) p, subst p) (simp add: build_rpc_piece_def)
  have g: "total_pieces ?p \<noteq> 0" "\<not> 32 * 1024 < total_pieces ?p" "\<not> total_pieces ?p \<le> piece_idx ?p"
    using assms(1,2) w f(1,2) by (auto simp: word_less_nat_alt word_le_nat_alt unat_eq_0)
  let ?m1 = "if other_message args m then m\<lparr>first_piece := Some ?p, pieces := []\<rparr> else m"
  let ?m2 = "?m1\<lparr>pieces := (vec_resize ?n rpc_packet_default (pieces ?m1))[i := ?p], last_updated := now\<rparr>"
  have om: "(case first_piece m of None \<Rightarrow> True | Some x \<Rightarrow> transaction_id x \<noteq> transaction_id ?p \<or> rpc_from_peer x \<noteq> rpc_from_peer ?p)
      = other_message args m"
    unfolding other_message_def f ..
  have feed: "feed now ?p m = (Inr (try_merge_pieces ?m2), ?m2)"
    using g d f(1,2) w unfolding feed_def om Let_def by simp
  have other: "\<not> other_message args (?m1\<lparr>pieces := xs, last_updated := now\<rparr>)" "first_piece ?m1 \<noteq> None" for xs
    using f(3,4) by (auto simp: other_message_def split: option.splits)
  have "(vec_resize ?n rpc_packet_default (pieces ?m1))[i := ?p]
      = map (\<lambda>j. if j \<in> insert i I then ?ps ! j else rpc_packet_default) [0 ..< ?n]"
    using assms(1,3)
    by (auto simp: holds_pieces_def vec_resize_same vec_resize_nil nth_list_update intro!: nth_equalityI)
  then have h: "holds_pieces c args (insert i I) ?m2"
    using other by (simp add: holds_pieces_def)
  show thesis
    by (rule that [OF _ h]) (use feed try_merge_holds [OF h] assms(1,2,4) in simp)
qed

fun feed_all :: "(nat \<times> rpc_packet) list \<Rightarrow> packet_merger \<Rightarrow> (rpc_error + rpc_packet option) list \<times> packet_merger" where
  "feed_all [] m = ([], m)"
| "feed_all ((now, p) # ps) m =
     (let (r, m1) = feed now p m; (rs, m2) = feed_all ps m1 in (r # rs, m2))"

lemma feed_all_pieces:
  assumes "length (rpc_pieces c args) \<le> 32 * 1024" "snd ` set evs \<subseteq> {..< length (rpc_pieces c args)}"
    and "other_message args m \<and> I = {} \<or> holds_pieces c args I m" "I \<subseteq> {..< length (rpc_pieces c args)}"
  shows "fst (feed_all (map (\<lambda>(now, i). (now, rpc_pieces c args ! i)) evs) m)
    = map (\<lambda>k. Inr (if I \<union> snd ` set (take (Suc k) evs) = {..< length (rpc_pieces c args)}
        then Some (merged_packet c args) else None)) [0 ..< length evs]"
  using assms(2-)
proof (induction evs arbitrary: m I)
  case (Cons ev evs)
  obtain now i where ev: "ev = (now, i)" by force
  with Cons.prems have i: "i < length (rpc_pieces c args)" "snd ` set evs \<subseteq> {..< length (rpc_pieces c args)}"
      "insert i I \<subseteq> {..< length (rpc_pieces c args)}" by auto
  obtain m' where m': "feed now (rpc_pieces c args ! i) m = (Inr (if insert i I = {..< length (rpc_pieces c args)}
      then Some (merged_packet c args) else None), m')" "holds_pieces c args (insert i I) m'"
    using feed_piece [OF i(1) assms(1) Cons.prems(2,3)] .
  show ?case
    using Cons.IH [OF i(2) disjI2 [OF m'(2)] i(3)] m'(1)
    by (simp add: ev split_beta Let_def upt_conv_Cons map_Suc_upt [symmetric] comp_def del: upt_Suc map_Suc_upt)
qed simp

section \<open>Messages survive the wire\<close>

lemma built_packet_payload:
  assumes "length bs < 2 ^ 32"
  obtains q where "(new_with_payload g bs \<bind> fill_peer_manager_hdr src dst pt) = Some q" "payload q = Some bs"
  using new_packet_fill_header [OF assms, of g src dst pt] by auto

lemma those_map_Some:
  "(\<And>x. x \<in> set xs \<Longrightarrow> f x = Some (h x)) \<Longrightarrow> those (map f xs) = Some (map h xs)"
  by (induction xs) simp_all

lemma build_rpc_packet_pieces:
  assumes "codec_correct c" "\<And>p. p \<in> set (rpc_pieces c args) \<Longrightarrow> length (rpc_encode c p) < 2 ^ 32"
  obtains zs where "build_rpc_packet c g args = Some zs" "length zs = length (rpc_pieces c args)"
    "\<And>i. i < length zs \<Longrightarrow> (payload (zs ! i) \<bind> rpc_decode c) = Some (rpc_pieces c args ! i)"
proof -
  let ?mk = "\<lambda>p. new_with_payload g (rpc_encode c p) \<bind> fill_peer_manager_hdr (arg_from_peer args) (arg_to_peer args) (rpc_packet_type args)"
  have mk: "\<exists>q. ?mk p = Some q \<and> payload q = Some (rpc_encode c p)" if "p \<in> set (rpc_pieces c args)" for p
    using built_packet_payload [OF assms(2) [OF that]] by metis
  then obtain h where h: "\<And>p. p \<in> set (rpc_pieces c args) \<Longrightarrow> ?mk p = Some (h p) \<and> payload (h p) = Some (rpc_encode c p)" by metis
  have "build_rpc_packet c g args = Some (map h (rpc_pieces c args))"
    unfolding build_rpc_packet_def by (rule those_map_Some) (use h in simp)
  moreover have "(payload (map h (rpc_pieces c args) ! i) \<bind> rpc_decode c) = Some (rpc_pieces c args ! i)"
    if "i < length (map h (rpc_pieces c args))" for i
    using that h assms(1) by (simp add: codec_correct_def)
  ultimately show thesis using that by simp
qed

text \<open>
  RPC messages survive splitting, transport and merging.  A message of at most 32768 pieces is
  built without a panic; the payload of every packet decodes to its piece; and a merger that is not
  already busy with this message answers the pieces, delivered in any order and any number of times,
  with the whole message from the moment all of them have arrived and with nothing before.  The merged
  message has the content, descriptor and compression info that were sent.
\<close>

theorem rpc_message_roundtrip:
  assumes "codec_correct c" and "length (rpc_pieces c args) \<le> 32 * 1024"
    and "\<And>p. p \<in> set (rpc_pieces c args) \<Longrightarrow> length (rpc_encode c p) < 2 ^ 32"
    and "other_message args m" and "snd ` set evs \<subseteq> {..< length (rpc_pieces c args)}"
  shows "(\<exists>zs. build_rpc_packet c g args = Some zs \<and> length zs = length (rpc_pieces c args)
        \<and> (\<forall>i < length zs. (payload (zs ! i) \<bind> rpc_decode c) = Some (rpc_pieces c args ! i)))
    \<and> fst (feed_all (map (\<lambda>(now, i). (now, rpc_pieces c args ! i)) evs) m)
      = map (\<lambda>k. Inr (if snd ` set (take (Suc k) evs) = {..< length (rpc_pieces c args)}
          then Some (merged_packet c args) else None)) [0 ..< length evs]
    \<and> rpc_body (merged_packet c args) = content args \<and> descriptor (merged_packet c args) = Some (rpc_desc args)
    \<and> compression_info (merged_packet c args) = Some (arg_compression_info args)"
proof -
  have "\<exists>zs. build_rpc_packet c g args = Some zs \<and> length zs = length (rpc_pieces c args)
      \<and> (\<forall>i < length zs. (payload (zs ! i) \<bind> rpc_decode c) = Some (rpc_pieces c args ! i))"
    using build_rpc_packet_pieces [OF assms(1,3)] by metis
  moreover have "0 < length (rpc_pieces c args)" using rpc_pieces_nonempty by simp
  ultimately show ?thesis
    using feed_all_pieces [OF assms(2,5), of m "{}"] assms(4) rpc_pieces_nth [of 0 c args]
    by (simp add: merged_packet_def build_rpc_piece_def)
qed

lemma split_from_nth:
  "i < length (split_from c fb ob m b len offset) \<Longrightarrow>
    \<exists>r. snd (split_from c fb ob m b len offset ! i) = pick_piece_len_for_budget c (if b \<and> i = 0 then fb else ob) r m"
proof (induction c fb ob m b len offset arbitrary: i rule: split_from.induct)
  case (1 c fb ob m b len offset)
  show ?case
  proof (cases "offset < len")
    case True
    with 1 show ?thesis
      by (subst split_from.simps, subst (asm) (2) split_from.simps) (cases i; auto simp: Let_def)
  next
    case False
    with 1(2) show ?thesis by (subst (asm) split_from.simps) simp
  qed
qed

lemma picked_fits:
  assumes "codec_correct c" "base + 3 \<le> m" "l \<le> pick_piece_len_for_budget c base r m" "l \<noteq> 0"
  shows "base + (1 + length_delimiter_len c l + l) \<le> m"
proof -
  let ?d = "length_delimiter_len c" let ?b = "m - base"
  have d: "\<And>x y. x \<le> y \<Longrightarrow> ?d x \<le> ?d y" "\<And>x. x < 128 \<Longrightarrow> ?d x = 1" "\<And>x. ?d x \<le> 10"
    using assms(1) by (auto simp: codec_correct_def)
  have "2 + ?d ?b \<le> ?b"
    using d(2) [of ?b] d(3) [of ?b] assms(2) by (cases "?b < 128") auto
  moreover have "pick_piece_len_for_budget c base r m \<le> max (?b - (1 + ?d ?b)) 1"
    using assms(2) by (auto simp: pick_piece_len_for_budget_def Let_def)
  ultimately have l: "l \<le> ?b - (1 + ?d ?b)" "1 + ?d ?b \<le> ?b" using assms(3) by auto
  then have "?d l \<le> ?d ?b" by (intro d(1)) simp
  with l assms(2) show ?thesis by linarith
qed

lemma piece_base_len:
  assumes "codec_correct c"
  shows "length (rpc_encode c (build_rpc_piece args tp idx []))
    \<le> length (rpc_encode c (build_rpc_piece args (- 1) (if idx = 0 then 0 else - 1) []))"
proof -
  let ?p = "build_rpc_piece args tp idx []" let ?i = "if idx = 0 then 0 else - 1 :: u32"
  have "?p\<lparr>total_pieces := - 1, piece_idx := ?i\<rparr> = build_rpc_piece args (- 1) ?i []"
    by (simp add: build_rpc_piece_def)
  moreover have "total_pieces ?p \<le> - 1" "piece_idx ?p \<le> ?i" by (simp_all add: build_rpc_piece_def)
  ultimately show ?thesis using assms unfolding codec_correct_def by metis
qed

lemma piece_len:
  assumes "codec_correct c"
  shows "length (rpc_encode c (build_rpc_piece args tp idx body)) = length (rpc_encode c (build_rpc_piece args tp idx []))
    + (if body = [] then 0 else 1 + length_delimiter_len c (length body) + length body)"
proof -
  have "(build_rpc_piece args tp idx body)\<lparr>rpc_body := []\<rparr> = build_rpc_piece args tp idx []"
      "rpc_body (build_rpc_piece args tp idx body) = body"
    by (simp_all add: build_rpc_piece_def)
  with assms show ?thesis unfolding codec_correct_def by metis
qed

lemma length_rpc_pieces: "length (content args) < 2 ^ 32 \<Longrightarrow> length (rpc_pieces c args) < 2 ^ 32"
  using split_from_length [of c _ _ _ True "length (content args)" 0]
  by (auto simp: rpc_pieces_def split_rpc_content_for_udp_budget_def Let_def intro: le_less_trans)

lemma rpc_piece_fits:
  assumes "codec_correct c" "length (content args) < 2 ^ 32"
    and B: "B = (\<lambda>i :: nat. length (rpc_encode c (build_rpc_piece args (- 1) (if i = 0 then 0 else - 1) [])))"
    and base: "\<And>i. B i + 3 \<le> max_rpc_packet_encoded_len_for_udp"
    and i: "i < length (rpc_pieces c args)"
  shows "length (rpc_encode c (rpc_pieces c args ! i)) \<le> max_rpc_packet_encoded_len_for_udp"
proof -
  let ?max = max_rpc_packet_encoded_len_for_udp and ?ps = "split_rpc_content_for_udp_budget c args"
  let ?tp = "of_nat (length (rpc_pieces c args)) :: u32"
  obtain offset len where ol: "?ps ! i = (offset, len)" by force
  define body where "body = take len (drop offset (content args))"
  have p: "rpc_pieces c args ! i = build_rpc_piece args ?tp (of_nat i) body"
    using rpc_pieces_nth [OF i] by (simp add: ol body_def)
  have "i < 2 ^ 32" using i length_rpc_pieces [OF assms(2)] less_trans by blast
  then have idx: "(of_nat i :: u32) = 0 \<longleftrightarrow> i = 0"
    using unat_of_nat [where 'a = 32, of i] unat_eq_0 [of "of_nat i :: u32"] by simp
  have le: "length (rpc_encode c (build_rpc_piece args ?tp (of_nat i) [])) \<le> B i"
    using piece_base_len [OF assms(1), of args ?tp "of_nat i"] by (simp only: B idx)
  show ?thesis
  proof (cases "body = []")
    case True
    then show ?thesis unfolding p using le base [of i] by simp
  next
    case False
    then have ne: "content args \<noteq> []" by (auto simp: body_def)
    have mx: "max ?max 1 = ?max" using base [of 0] by simp
    let ?sp = "split_from c (B 0) (B 1) ?max True (length (content args)) 0"
    have sp: "?ps = ?sp"
      unfolding split_rpc_content_for_udp_budget_def Let_def B mx if_not_P [OF ne] by simp
    have "length (rpc_pieces c args) = length ?ps" by (simp add: rpc_pieces_def Let_def)
    with i sp have "i < length ?sp" by simp
    from split_from_nth [OF this] obtain r where
      r: "snd (?sp ! i) = pick_piece_len_for_budget c (if True \<and> i = 0 then B 0 else B 1) r ?max" ..
    have "(if True \<and> i = 0 then B 0 else B 1) = B i" by (simp add: B)
    with r have "snd (?sp ! i) = pick_piece_len_for_budget c (B i) r ?max" by (simp only:)
    with sp ol have len: "len = pick_piece_len_for_budget c (B i) r ?max" by simp
    have "length body \<le> len" by (simp add: body_def)
    then have "B i + (1 + length_delimiter_len c (length body) + length body) \<le> ?max"
      using False unfolding len by (intro picked_fits [OF assms(1) base]) simp_all
    then show ?thesis
      unfolding p piece_len [OF assms(1), of args ?tp "of_nat i" body] using le False by simp
  qed
qed

text \<open>
  C25: no RPC packet exceeds the UDP budget.  When the metadata of a message leaves room for at least one
  byte of body, every piece of it, with the tunnel headers and the reserved tail, takes at most 1300
  bytes, although the plan is made before the number of pieces is known.
\<close>

theorem rpc_pieces_fit_budget:
  assumes "codec_correct c" and "length (content args) < 2 ^ 32"
    and "length (rpc_encode c (build_rpc_piece args (- 1) 0 [])) + 3 \<le> max_rpc_packet_encoded_len_for_udp"
    and "length (rpc_encode c (build_rpc_piece args (- 1) (- 1) [])) + 3 \<le> max_rpc_packet_encoded_len_for_udp"
    and "p \<in> set (rpc_pieces c args)"
  shows "udp_rpc_tunnel_overhead + length (rpc_encode c p) \<le> RPC_PACKET_UDP_PAYLOAD_BUDGET"
proof -
  obtain i where i: "i < length (rpc_pieces c args)" "p = rpc_pieces c args ! i"
    using assms(5) by (metis in_set_conv_nth)
  have "length (rpc_encode c p) \<le> max_rpc_packet_encoded_len_for_udp"
    unfolding i(2) by (rule rpc_piece_fits [OF assms(1,2) refl _ i(1)]) (use assms(3,4) in simp)
  moreover have "udp_rpc_tunnel_overhead \<le> RPC_PACKET_UDP_PAYLOAD_BUDGET"
    using assms(3) unfolding max_rpc_packet_encoded_len_for_udp_def by linarith
  ultimately show ?thesis unfolding max_rpc_packet_encoded_len_for_udp_def by linarith
qed

lemma body_recovered:
  assumes "zstd_correct z" and "compress_packet z accepted body = Inr (c, alg)"
  shows "(decompress_packet z alg c = Inr body) = (alg = PbNone \<or> length body \<le> decompress_limit c)
    \<and> (decompress_packet z alg c = Inr body \<or> decompress_packet z alg c = Inl (RpcCompress TooManyAttempts))"
proof (cases "alg = PbNone")
  case True
  then show ?thesis
    using assms(2)
    by (auto simp: compress_packet_def decompress_packet_def algo_of_pb_def pb_of_algo_def decompress_raw_def Let_def
        compress_raw_def split: sum.splits compression_algo_pb.splits compressor_algo.splits option.splits if_splits)
next
  case False
  then have "alg = PbZstd" "zstd_compress z body = Some c"
    using assms(2)
    by (auto simp: compress_packet_def algo_of_pb_def pb_of_algo_def Let_def compress_raw_def
        split: sum.splits compression_algo_pb.splits compressor_algo.splits option.splits if_splits)
  then show ?thesis
    using decompress_raw_of_compress [OF assms(1)] by (simp add: decompress_packet_def algo_of_pb_def)
qed

text \<open>
  C26: which compressed bodies can be read again.  A body that was compressed for sending is recovered by
  the receiver exactly when it was sent uncompressed or is no longer than the largest buffer the
  receiver tries, 32 times the compressed size and at least 64 KiB; a longer body is refused.
\<close>

theorem rpc_body_recovered_iff:
  assumes "zstd_correct z" and "compress_packet z accepted body = Inr (c, alg)"
  shows "(decompress_packet z alg c = Inr body) = (alg = PbNone \<or> length body \<le> decompress_limit c)
    \<and> (decompress_packet z alg c = Inr body \<or> decompress_packet z alg c = Inl (RpcCompress TooManyAttempts))"
  by (rule body_recovered [OF assms])

section \<open>A concrete codec\<close>

text \<open>Writers and readers of the field types, each reader inverting its writer in front of any rest.\<close>

definition rd_u32 :: "bytes \<Rightarrow> (u32 \<times> bytes) option" where
  "rd_u32 bs = (if length bs < 4 then None else Some (from_le_bytes (take 4 bs), drop 4 bs))"

definition rd_u64 :: "bytes \<Rightarrow> (u64 \<times> bytes) option" where
  "rd_u64 bs = (if length bs < 8 then None else Some (from_le_bytes (take 8 bs), drop 8 bs))"

fun wr_str :: "string \<Rightarrow> bytes" where
  "wr_str [] = [0]"
| "wr_str (x # xs) = 1 # of_nat (of_char x) # wr_str xs"

fun rd_str :: "bytes \<Rightarrow> (string \<times> bytes) option" where
  "rd_str (t # b # bs) = (if t = 0 then Some ([], b # bs) else map_option (\<lambda>(s, r). (char_of (unat b) # s, r)) (rd_str bs))"
| "rd_str [t] = Some ([], [])"
| "rd_str [] = None"

definition wr_int :: "int \<Rightarrow> bytes" where
  "wr_int i = (if i < 0 then 1 else 0) # replicate (nat \<bar>i\<bar>) 1 @ [0]"

fun rd_nat :: "bytes \<Rightarrow> (nat \<times> bytes) option" where
  "rd_nat [] = None"
| "rd_nat (b # bs) = (if b = 0 then Some (0, bs) else map_option (\<lambda>(n, r). (Suc n, r)) (rd_nat bs))"

fun rd_int :: "bytes \<Rightarrow> (int \<times> bytes) option" where
  "rd_int [] = None"
| "rd_int (s # bs) = map_option (\<lambda>(n, r). (if s = 0 then int n else - int n, r)) (rd_nat bs)"

fun rd_bool :: "bytes \<Rightarrow> (bool \<times> bytes) option" where
  "rd_bool [] = None"
| "rd_bool (b # bs) = Some (b \<noteq> 0, bs)"

definition rd_opt :: "(bytes \<Rightarrow> ('a \<times> bytes) option) \<Rightarrow> bytes \<Rightarrow> ('a option \<times> bytes) option" where
  "rd_opt rd bs = (case bs of [] \<Rightarrow> None
     | b # r \<Rightarrow> if b = 0 then Some (None, r) else map_option (\<lambda>(x, r). (Some x, r)) (rd r))"

definition wr_desc :: "rpc_descriptor \<Rightarrow> bytes" where
  "wr_desc d = wr_str (domain_name d) @ wr_str (proto_name d) @ wr_str (service_name d) @ to_le_bytes 4 (method_index d)"

definition rd_desc :: "bytes \<Rightarrow> (rpc_descriptor \<times> bytes) option" where
  "rd_desc bs = do {
     (a, bs) \<leftarrow> rd_str bs; (b, bs) \<leftarrow> rd_str bs; (c, bs) \<leftarrow> rd_str bs; (m, bs) \<leftarrow> rd_u32 bs;
     Some (\<lparr>domain_name = a, proto_name = b, service_name = c, method_index = m\<rparr>, bs)
   }"

definition wr_info :: "rpc_compression_info \<Rightarrow> bytes" where
  "wr_info i = wr_int (info_algo i) @ wr_int (info_accepted_algo i)"

definition rd_info :: "bytes \<Rightarrow> (rpc_compression_info \<times> bytes) option" where
  "rd_info bs = do {
     (a, bs) \<leftarrow> rd_int bs; (b, bs) \<leftarrow> rd_int bs; Some (\<lparr>info_algo = a, info_accepted_algo = b\<rparr>, bs)
   }"

definition toy_delimiter_len :: "nat \<Rightarrow> nat" where
  "toy_delimiter_len n = (if n < 128 then 1 else 10)"

definition wr_body :: "bytes \<Rightarrow> bytes" where
  "wr_body b = (if b = [] then [] else if length b < 128 then 5 # 0 # b else 5 # 1 # replicate 9 0 @ b)"

fun rd_body :: "bytes \<Rightarrow> bytes" where
  "rd_body (t # l # bs) = (if l = 0 then bs else drop 9 bs)"
| "rd_body bs = []"

definition toy_encode :: "rpc_packet \<Rightarrow> bytes" where
  "toy_encode p = to_le_bytes 4 (rpc_from_peer p) @ to_le_bytes 4 (rpc_to_peer p) @ to_le_bytes 8 (transaction_id p)
     @ (case descriptor p of None \<Rightarrow> [0] | Some d \<Rightarrow> 1 # wr_desc d) @ [if is_request p then 1 else 0]
     @ to_le_bytes 4 (total_pieces p) @ to_le_bytes 4 (piece_idx p) @ to_le_bytes 4 (trace_id p)
     @ (case compression_info p of None \<Rightarrow> [0] | Some i \<Rightarrow> 1 # wr_info i) @ wr_body (rpc_body p)"

definition toy_decode :: "bytes \<Rightarrow> rpc_packet option" where
  "toy_decode bs = do {
     (f, bs) \<leftarrow> rd_u32 bs; (t, bs) \<leftarrow> rd_u32 bs; (x, bs) \<leftarrow> rd_u64 bs; (d, bs) \<leftarrow> rd_opt rd_desc bs;
     (r, bs) \<leftarrow> rd_bool bs; (n, bs) \<leftarrow> rd_u32 bs; (i, bs) \<leftarrow> rd_u32 bs; (tr, bs) \<leftarrow> rd_u32 bs;
     (ci, bs) \<leftarrow> rd_opt rd_info bs;
     Some \<lparr>rpc_from_peer = f, rpc_to_peer = t, transaction_id = x, descriptor = d, rpc_body = rd_body bs, is_request = r,
       total_pieces = n, piece_idx = i, trace_id = tr, compression_info = ci\<rparr>
   }"

definition toy_codec :: rpc_codec where
  "toy_codec = \<lparr>rpc_encode = toy_encode, rpc_decode = toy_decode, length_delimiter_len = toy_delimiter_len\<rparr>"

lemma rd_u32_inv [simp]: "rd_u32 (to_le_bytes 4 w @ r) = Some (w, r)"
  by (simp add: rd_u32_def from_to_le_bytes)

lemma rd_u64_inv [simp]: "rd_u64 (to_le_bytes 8 w @ r) = Some (w, r)"
  by (simp add: rd_u64_def from_to_le_bytes)

lemma rd_str_inv [simp]: "rd_str (wr_str s @ r) = Some (s, r)"
proof (induction s)
  case Nil
  then show ?case by (cases r) simp_all
next
  case (Cons x s)
  have "unat (of_nat (of_char x) :: u8) = of_char x"
    by (cases x) (simp add: unat_of_nat)
  with Cons show ?case by (simp add: map_option_case)
qed

lemma rd_nat_inv [simp]: "rd_nat (replicate n 1 @ 0 # r) = Some (n, r)"
  by (induction n) simp_all

lemma rd_int_inv [simp]: "rd_int (wr_int i @ r) = Some (i, r)"
  by (simp add: wr_int_def)

lemma rd_desc_inv [simp]: "rd_desc (wr_desc d @ r) = Some (d, r)"
  by (simp add: rd_desc_def wr_desc_def)

lemma rd_info_inv [simp]: "rd_info (wr_info i @ r) = Some (i, r)"
  by (simp add: rd_info_def wr_info_def)

lemma rd_opt_inv:
  "rd_opt rd_desc ((case d of None \<Rightarrow> [0] | Some d \<Rightarrow> 1 # wr_desc d) @ r) = Some (d, r)"
  "rd_opt rd_info ((case i of None \<Rightarrow> [0] | Some i \<Rightarrow> 1 # wr_info i) @ r) = Some (i, r)"
  by (simp_all add: rd_opt_def split: option.split)

lemma rd_body_inv: "rd_body (wr_body b) = b"
  by (simp add: wr_body_def)

lemma toy_codec_roundtrip: "toy_decode (toy_encode p) = Some p"
  unfolding toy_decode_def toy_encode_def
  by (simp only: rd_u32_inv rd_u64_inv rd_opt_inv bind.simps prod.case append_Cons append_Nil rd_bool.simps rd_body_inv) simp

lemma toy_codec_correct: "codec_correct toy_codec"
  unfolding codec_correct_def
proof (intro conjI allI impI)
  show "rpc_decode toy_codec (rpc_encode toy_codec p) = Some p" for p
    by (simp add: toy_codec_def toy_codec_roundtrip)
  show "length (rpc_encode toy_codec p) = length (rpc_encode toy_codec (p\<lparr>rpc_body := []\<rparr>))
      + (if rpc_body p = [] then 0 else 1 + length_delimiter_len toy_codec (length (rpc_body p)) + length (rpc_body p))" for p
    by (simp add: toy_codec_def toy_encode_def wr_body_def toy_delimiter_len_def)
qed (simp_all add: toy_codec_def toy_delimiter_len_def toy_encode_def)

definition toy_args :: "bytes \<Rightarrow> build_args" where
  "toy_args body = \<lparr>arg_from_peer = 1, arg_to_peer = 2,
     rpc_desc = \<lparr>domain_name = '''', proto_name = ''p'', service_name = ''s'', method_index = 0\<rparr>, arg_transaction_id = 7,
     is_req = True, content = body, arg_trace_id = 0, arg_compression_info = \<lparr>info_algo = 2, info_accepted_algo = 2\<rparr>\<rparr>"

lemma toy_base:
  "length (rpc_encode toy_codec (build_rpc_piece (toy_args b) n 0 [])) = 50"
  "length (rpc_encode toy_codec (build_rpc_piece (toy_args b) n (- 1) [])) = 31"
  "max_rpc_packet_encoded_len_for_udp = 1248"
  by (simp_all add: toy_codec_def toy_encode_def build_rpc_piece_def toy_args_def wr_desc_def wr_info_def wr_int_def wr_body_def
      max_rpc_packet_encoded_len_for_udp_def RPC_PACKET_UDP_PAYLOAD_BUDGET_def udp_rpc_tunnel_overhead_def layout_simps
      TAIL_RESERVED_SIZE_def)

lemma toy_split:
  "split_rpc_content_for_udp_budget toy_codec (toy_args (replicate 2000 9)) = [(0, 1187), (1187, 813)]"
proof -
  have c: "content (toy_args (replicate 2000 9)) = replicate 2000 9" by (simp add: toy_args_def)
  have l: "length_delimiter_len toy_codec n = (if n < 128 then 1 else 10)" for n
    by (simp add: toy_codec_def toy_delimiter_len_def)
  show ?thesis
    unfolding split_rpc_content_for_udp_budget_def toy_base c
    by (simp add: split_from.simps pick_piece_len_for_budget_def l)
qed

lemma toy_pieces_length: "length (rpc_pieces toy_codec (toy_args (replicate 2000 9))) = 2"
  unfolding rpc_pieces_def Let_def toy_split by simp

lemma toy_fits:
  assumes "p \<in> set (rpc_pieces toy_codec (toy_args (replicate 2000 9)))"
  shows "length (rpc_encode toy_codec p) \<le> 1248"
proof -
  obtain i where i: "i < length (rpc_pieces toy_codec (toy_args (replicate 2000 9)))"
      "p = rpc_pieces toy_codec (toy_args (replicate 2000 9)) ! i"
    using assms by (metis in_set_conv_nth)
  have "length (rpc_encode toy_codec p) \<le> max_rpc_packet_encoded_len_for_udp"
    unfolding i(2) by (rule rpc_piece_fits [OF toy_codec_correct _ refl _ i(1)]) (simp add: toy_args_def, simp add: toy_base)
  then show ?thesis by (simp add: toy_base)
qed

theorem rpc_message_roundtrip_witness:
  "fst (feed_all (map (\<lambda>(now, i). (now, rpc_pieces toy_codec (toy_args (replicate 2000 9)) ! i)) [(5, 1), (6, 0)]) (merger_new 0))
    = [Inr None, Inr (Some (merged_packet toy_codec (toy_args (replicate 2000 9))))]"
proof -
  have "length (rpc_encode toy_codec p) < 2 ^ 32" if "p \<in> set (rpc_pieces toy_codec (toy_args (replicate 2000 9)))" for p
    using toy_fits [OF that] by simp
  note h = this
  have n: "length (rpc_pieces toy_codec (toy_args (replicate 2000 9))) \<le> 32 * 1024"
      "snd ` set [(5 :: nat, 1), (6, 0)] \<subseteq> {..< length (rpc_pieces toy_codec (toy_args (replicate 2000 9)))}"
    unfolding toy_pieces_length by auto
  have o: "other_message (toy_args (replicate 2000 9)) (merger_new 0)" by (simp add: other_message_def merger_new_def)
  note t = rpc_message_roundtrip [OF toy_codec_correct n(1) _ o n(2), where g = "\<lambda>_. 0", unfolded toy_pieces_length]
  have f: "fst (feed_all (map (\<lambda>(now, i). (now, rpc_pieces toy_codec (toy_args (replicate 2000 9)) ! i)) [(5, 1), (6, 0)]) (merger_new 0))
      = map (\<lambda>k. Inr (if snd ` set (take (Suc k) [(5 :: nat, 1 :: nat), (6, 0)]) = {..< 2}
          then Some (merged_packet toy_codec (toy_args (replicate 2000 9))) else None)) [0 ..< length [(5 :: nat, 1 :: nat), (6, 0)]]"
    by (rule conjunct1 [OF conjunct2 [OF t]]) (erule h)
  have two: "{..< 2 :: nat} = {1, 0}" by auto
  have k: "(snd ` set (take (Suc 0) [(5 :: nat, 1 :: nat), (6, 0)]) = {..< 2}) = False"
      "(snd ` set (take (Suc 1) [(5 :: nat, 1 :: nat), (6, 0)]) = {..< 2}) = True"
    by (simp_all add: two insert_eq_iff)
  have "[0 ..< length [(5 :: nat, 1 :: nat), (6, 0)]] = [0, 1]" by (simp add: upt_rec)
  with f show ?thesis by (simp only: list.map k if_True if_False)
qed

theorem rpc_pieces_fit_budget_witness:
  "udp_rpc_tunnel_overhead + length (rpc_encode toy_codec (rpc_pieces toy_codec (toy_args (replicate 2000 9)) ! 1)) \<le> 1300"
proof -
  have "rpc_pieces toy_codec (toy_args (replicate 2000 9)) ! 1 \<in> set (rpc_pieces toy_codec (toy_args (replicate 2000 9)))"
    using toy_pieces_length by simp
  from rpc_pieces_fit_budget [OF toy_codec_correct _ _ _ this] show ?thesis
    by (simp add: toy_base RPC_PACKET_UDP_PAYLOAD_BUDGET_def) (simp add: toy_args_def)
qed

text \<open>A compressor that squeezes one long body into a single byte.\<close>

definition toy_squeeze :: zstd where
  "toy_squeeze = \<lparr>zstd_compress = (\<lambda>dat. Some (if dat = replicate 70000 0 then [2] else 0 # dat)),
     zstd_decompress = (\<lambda>c n. let dat = (if c = [2] then replicate 70000 0 else tl c) in if length dat \<le> n then ZOk dat else ZTooSmall)\<rparr>"

theorem rpc_body_recovered_iff_witness:
  "compress_packet toy_squeeze PbZstd (replicate 70000 0) = Inr ([2], PbZstd)
    \<and> decompress_packet toy_squeeze PbZstd [2] = Inl (RpcCompress TooManyAttempts)"
proof -
  have "zstd_correct toy_squeeze" by (auto simp: zstd_correct_def toy_squeeze_def Let_def)
  moreover have "compress_packet toy_squeeze PbZstd (replicate 70000 0) = Inr ([2], PbZstd)"
    by (simp add: compress_packet_def algo_of_pb_def pb_of_algo_def compress_raw_def toy_squeeze_def)
  ultimately show ?thesis
    using rpc_body_recovered_iff [of toy_squeeze PbZstd "replicate 70000 0" "[2]" PbZstd]
    by (auto simp: decompress_limit_def)
qed

end
