(* ===== verification/Ip_Reassembler.thy ===== *)
theory Ip_Reassembler
  imports Prelude "HOL-Library.Multiset"
begin

unbundle bit_operations_syntax

text \<open>
  Fragmentation and reassembly of IPv4 packets (\<^verbatim>\<open>gateway/ip_reassembler.rs\<close>).  The packet views and
  setters of the pnet crate are the parameter record \<open>ipv4_lib\<close>.  Lengths and offsets keep their 16
  bits; sums of them wrap as in a release build.  \<^term>\<open>None\<close> is a panic.
\<close>

section \<open>Reassembly\<close>

text \<open>What a packet view answers.\<close>

record ipv4_view =
  identification :: u16
  fragment_offset :: u16
  view_flags :: u8
  total_length_field :: u16
  header_length :: u8
  view_payload :: bytes

record ip_fragment =
  frag_id :: u16
  frag_offset :: u16
  frag_data :: bytes

definition ip_fragment_from :: "ipv4_view \<Rightarrow> ip_fragment" where
  "ip_fragment_from v = \<lparr>frag_id = identification v, frag_offset = fragment_offset v * 8, frag_data = view_payload v\<rparr>"

record ip_packet =
  pk_source :: u32
  pk_destination :: u32
  pk_total_length :: "u16 option"
  fragments :: "ip_fragment list"

definition ip_packet_new :: "u32 \<Rightarrow> u32 \<Rightarrow> ip_packet" where
  "ip_packet_new src dst = \<lparr>pk_source = src, pk_destination = dst, pk_total_length = None, fragments = []\<rparr>"

text \<open>The second fragment starts inside the first.\<close>

definition starts_inside :: "ip_fragment \<Rightarrow> ip_fragment \<Rightarrow> bool" where
  "starts_inside f g \<longleftrightarrow> frag_offset f \<le> frag_offset g \<and> frag_offset g < frag_offset f + of_nat (length (frag_data f))"

definition packet_add_fragment :: "ip_fragment \<Rightarrow> ip_packet \<Rightarrow> ip_packet" where
  "packet_add_fragment fragment p =
     (if list_ex (\<lambda>f. starts_inside f fragment \<or> starts_inside fragment f) (fragments p) then p
      else p\<lparr>fragments := fragments p @ [fragment]\<rparr>)"

definition is_complete :: "ip_packet \<Rightarrow> bool" where
  "is_complete p = (case pk_total_length p of None \<Rightarrow> False
     | Some total_length \<Rightarrow> fold (\<lambda>f n. n + of_nat (length (frag_data f))) (fragments p) 0 = total_length)"

definition set_total_length :: "u16 \<Rightarrow> ip_packet \<Rightarrow> ip_packet" where
  "set_total_length n p = p\<lparr>pk_total_length := Some n\<rparr>"

fun write_fragments :: "ip_fragment list \<Rightarrow> bytes \<Rightarrow> bytes option" where
  "write_fragments [] buf = Some buf"
| "write_fragments (f # fs) buf = do {
     buf' \<leftarrow> overwrite (unat (frag_offset f)) (frag_data f) buf;
     write_fragments fs buf'
   }"

definition assemble :: "ip_packet \<Rightarrow> (bytes option \<times> ip_packet) option" where
  "assemble p =
     (if \<not> is_complete p then Some (None, p)
      else let p1 = p\<lparr>fragments := sort_key frag_offset (fragments p)\<rparr>
           in map_option (\<lambda>buf. (Some buf, p1))
                (write_fragments (fragments p1) (replicate (unat (the (pk_total_length p))) 0)))"

record reassembler_key =
  key_source :: u32
  key_destination :: u32
  key_id :: u16

record reassembler_value =
  val_packet :: ip_packet
  val_timestamp :: nat

record ip_reassembler =
  packets :: "(reassembler_key, reassembler_value) store"
  reassembly_timeout :: nat

definition reassembler_new :: "nat \<Rightarrow> ip_reassembler" where
  "reassembler_new timeout = \<lparr>packets = [], reassembly_timeout = timeout\<rparr>"

text \<open>The flag values of pnet: more fragments 1, don't fragment 2.\<close>

definition MoreFragments :: u8 where "MoreFragments = 1"
definition DontFragment :: u8 where "DontFragment = 2"

definition is_packet_fragmented :: "ipv4_view \<Rightarrow> bool" where
  "is_packet_fragmented v \<longleftrightarrow> fragment_offset v \<noteq> 0 \<or> view_flags v AND MoreFragments \<noteq> 0"

definition is_last_fragment :: "ipv4_view \<Rightarrow> bool" where
  "is_last_fragment v \<longleftrightarrow> view_flags v AND MoreFragments = 0"

definition add_fragment ::
  "nat \<Rightarrow> u32 \<Rightarrow> u32 \<Rightarrow> ipv4_view \<Rightarrow> ip_reassembler \<Rightarrow> (bytes option \<times> ip_reassembler) option" where
  "add_fragment now src dst v r =
     (let total_length = total_length_field v - ucast (header_length v) * 4
      in if total_length \<noteq> of_nat (length (view_payload v)) then Some (None, r)
         else
           let fragment = ip_fragment_from v;
               key = \<lparr>key_source = src, key_destination = dst, key_id = identification v\<rparr>;
               e = (case st_get (packets r) key of Some e \<Rightarrow> e
                    | None \<Rightarrow> \<lparr>val_packet = ip_packet_new src dst, val_timestamp = now\<rparr>);
               p1 = (if is_last_fragment v then set_total_length (total_length + frag_offset fragment) (val_packet e)
                     else val_packet e);
               p2 = packet_add_fragment fragment p1
           in map_option (\<lambda>(res, p3).
                case res of
                  Some dat \<Rightarrow> (Some dat, r\<lparr>packets := st_remove key (packets r)\<rparr>)
                | None \<Rightarrow> (None, r\<lparr>packets := st_insert key \<lparr>val_packet = p3, val_timestamp = now\<rparr> (packets r)\<rparr>))
              (assemble p2))"

definition remove_expired_packets :: "nat \<Rightarrow> ip_reassembler \<Rightarrow> ip_reassembler" where
  "remove_expired_packets now r =
     r\<lparr>packets := st_retain (\<lambda>_ v. now - val_timestamp v \<le> reassembly_timeout r) (packets r)\<rparr>"

section \<open>Fragmentation\<close>

text \<open>The fields the code sets; with a header length of five words they are all of the 20 header bytes.\<close>

record ipv4_header =
  hd_total_length :: u16
  hd_identification :: u16
  hd_flags :: u8
  hd_fragment_offset :: u16
  hd_ttl :: u8
  hd_source :: u32
  hd_destination :: u32
  hd_protocol :: u8

record ipv4_lib =
  header_bytes :: "ipv4_header \<Rightarrow> bytes"
  parse_ipv4 :: "bytes \<Rightarrow> ipv4_view option"

text \<open>Documented behaviour: the getters return what the setters stored, and the payload view is what
  follows the header up to the total length.\<close>

definition ipv4_correct :: "ipv4_lib \<Rightarrow> bool" where
  "ipv4_correct lib \<longleftrightarrow> (\<forall>h. length (header_bytes lib h) = 20)
     \<and> (\<forall>h body. unat (hd_total_length h) = 20 + length body \<and> hd_fragment_offset h < 2 ^ 13 \<and> hd_flags h < 8 \<longrightarrow>
          parse_ipv4 lib (header_bytes lib h @ body) = Some \<lparr>identification = hd_identification h,
            fragment_offset = hd_fragment_offset h, view_flags = hd_flags h, total_length_field = hd_total_length h,
            header_length = 5, view_payload = body\<rparr>)"

record compose_args =
  src_v4 :: u32
  dst_v4 :: u32
  next_protocol :: u8
  payload_len :: nat
  payload_mtu :: nat
  ip_id :: u16

definition fragment_header :: "compose_args \<Rightarrow> nat \<Rightarrow> nat \<Rightarrow> nat \<Rightarrow> nat \<Rightarrow> ipv4_header" where
  "fragment_header args total_pieces cur_piece fragment_off fragment_len = \<lparr>
     hd_total_length = of_nat (fragment_len + 20), hd_identification = ip_id args,
     hd_flags = (if 1 < total_pieces then (if cur_piece \<noteq> total_pieces - 1 then MoreFragments else 0) else DontFragment),
     hd_fragment_offset = (if 1 < total_pieces then of_nat fragment_off div 8 else 0),
     hd_ttl = 32, hd_source = src_v4 args, hd_destination = dst_v4 args, hd_protocol = next_protocol args\<rparr>"

text \<open>
  The loop.  The header of each fragment is written over the last 20 bytes of the one before, which
  has been sent.  The callback is given each packet; its first error ends the loop.  The result holds
  the packets given to the callback.  \<open>fuel\<close> bounds the number of rounds; a payload of \<open>n\<close> bytes
  takes at most \<open>n\<close> of them.
\<close>

primrec compose_loop ::
  "nat \<Rightarrow> ipv4_lib \<Rightarrow> (bytes \<Rightarrow> 'e + unit) \<Rightarrow> compose_args \<Rightarrow> nat \<Rightarrow> bytes \<Rightarrow> nat \<Rightarrow> nat \<Rightarrow> nat \<Rightarrow> (('e + unit) \<times> bytes list) option" where
  "compose_loop 0 lib cb args total_pieces buf buf_offset fragment_off cur_piece = None"
| "compose_loop (Suc fuel) lib cb args total_pieces buf buf_offset fragment_off cur_piece =
     (if fragment_off < payload_len args then
        let next_fragment_offset = min (fragment_off + payload_mtu args) (payload_len args);
            fragment_len = next_fragment_offset - fragment_off
        in if length buf < buf_offset + fragment_len + 20 then None
           else if 1 < total_pieces \<and> fragment_off mod 8 \<noteq> 0 then None
           else do {
             buf1 \<leftarrow> overwrite buf_offset
               (header_bytes lib (fragment_header args total_pieces cur_piece fragment_off fragment_len)) buf;
             let pkt = take (fragment_len + 20) (drop buf_offset buf1);
             (case cb pkt of
                Inl e \<Rightarrow> Some (Inl e, [pkt])
              | Inr _ \<Rightarrow> map_option (\<lambda>(res, sent). (res, pkt # sent))
                  (compose_loop fuel lib cb args total_pieces buf1 (buf_offset + fragment_len) next_fragment_offset (cur_piece + 1)))
           }
      else Some (Inr (), []))"

definition compose_ipv4_packet ::
  "ipv4_lib \<Rightarrow> (bytes \<Rightarrow> 'e + unit) \<Rightarrow> compose_args \<Rightarrow> bytes \<Rightarrow> (('e + unit) \<times> bytes list) option" where
  "compose_ipv4_packet lib cb args buf =
     (if payload_mtu args = 0 then None
      else compose_loop (Suc (payload_len args)) lib cb args
        ((payload_len args + payload_mtu args - 1) div payload_mtu args) buf 0 0 0)"

section \<open>The fragments of a datagram\<close>

definition frag_start :: "ipv4_view list \<Rightarrow> nat \<Rightarrow> nat" where
  "frag_start vs i = length (concat (map view_payload (take i vs)))"

text \<open>The views of the fragments of the datagram with payload \<open>dat\<close>, in order.\<close>

definition fragmentation :: "u16 \<Rightarrow> ipv4_view list \<Rightarrow> bytes \<Rightarrow> bool" where
  "fragmentation ident vs dat \<longleftrightarrow> vs \<noteq> [] \<and> concat (map view_payload vs) = dat \<and> length dat < 2 ^ 16
     \<and> (\<forall>i < length vs. identification (vs ! i) = ident \<and> view_payload (vs ! i) \<noteq> []
          \<and> unat (fragment_offset (vs ! i) * 8) = frag_start vs i
          \<and> total_length_field (vs ! i) - ucast (header_length (vs ! i)) * 4 = of_nat (length (view_payload (vs ! i)))
          \<and> is_last_fragment (vs ! i) = (i = length vs - 1))"

definition nth_frag :: "ipv4_view list \<Rightarrow> nat \<Rightarrow> ip_fragment" where
  "nth_frag vs i = ip_fragment_from (vs ! i)"

lemma frag_start_Suc: "i < length vs \<Longrightarrow> frag_start vs (Suc i) = frag_start vs i + length (view_payload (vs ! i))"
  by (simp add: frag_start_def take_Suc_conv_app_nth)

lemma frag_start_mono: "i \<le> j \<Longrightarrow> frag_start vs i \<le> frag_start vs j"
  by (auto simp: frag_start_def le_iff_add take_add)

lemma frag_start_all: "frag_start vs (length vs) = length (concat (map view_payload vs))"
  by (simp add: frag_start_def)

lemma frag_fields:
  assumes "fragmentation ident vs dat" "i < length vs"
  shows "unat (frag_offset (nth_frag vs i)) = frag_start vs i" "frag_data (nth_frag vs i) = view_payload (vs ! i)"
    "0 < length (view_payload (vs ! i))" "frag_start vs i + length (view_payload (vs ! i)) \<le> length dat"
proof -
  show "unat (frag_offset (nth_frag vs i)) = frag_start vs i" "frag_data (nth_frag vs i) = view_payload (vs ! i)"
    "0 < length (view_payload (vs ! i))"
    using assms by (auto simp: fragmentation_def nth_frag_def ip_fragment_from_def)
  have "frag_start vs (Suc i) \<le> frag_start vs (length vs)" using assms(2) by (intro frag_start_mono) simp
  then show "frag_start vs i + length (view_payload (vs ! i)) \<le> length dat"
    using assms frag_start_Suc [OF assms(2)] frag_start_all [of vs] by (simp add: fragmentation_def)
qed

lemma fragments_fragmented:
  assumes "fragmentation ident vs dat" "1 < length vs" "k < length vs"
  shows "is_packet_fragmented (vs ! k)"
proof (cases "k = 0")
  case True
  then have "\<not> is_last_fragment (vs ! k)" using assms by (simp add: fragmentation_def)
  then show ?thesis by (simp add: is_packet_fragmented_def is_last_fragment_def)
next
  case False
  have "frag_start vs 0 + length (view_payload (vs ! 0)) \<le> frag_start vs k"
    using frag_start_mono [of 1 k vs] frag_start_Suc [of 0 vs] False assms(2) by (cases vs) auto
  moreover have "0 < length vs" using assms(3) by linarith
  then have "0 < length (view_payload (vs ! 0))" by (rule frag_fields(3) [OF assms(1)])
  ultimately have "0 < unat (fragment_offset (vs ! k) * 8)"
    using assms(1,3) unfolding fragmentation_def by (metis add_lessD1 gr0I le_zero_eq add_is_0 not_gr0)
  then show ?thesis by (auto simp: is_packet_fragmented_def)
qed

lemma unat_u16: "n < 2 ^ 16 \<Longrightarrow> unat (of_nat n :: u16) = n"
  by (simp add: unat_of_nat)

lemma u16_add: "unat (x :: u16) = a \<Longrightarrow> unat y = b \<Longrightarrow> a + b < 2 ^ 16 \<Longrightarrow> unat (x + y) = a + b"
  by (simp add: unat_word_ariths)

lemma starts_inside_iff:
  assumes "fragmentation ident vs dat" "i < length vs" "j < length vs"
  shows "starts_inside (nth_frag vs i) (nth_frag vs j) \<longleftrightarrow> i = j"
proof -
  let ?len = "length (view_payload (vs ! i))"
  note fi = frag_fields [OF assms(1,2)] and fj = frag_fields [OF assms(1,3)]
  have N: "length dat < 2 ^ 16" using assms(1) by (simp add: fragmentation_def)
  have "unat (frag_offset (nth_frag vs i) + of_nat ?len) = frag_start vs i + ?len"
    using fi N by (simp add: unat_word_ariths unat_u16)
  then have "starts_inside (nth_frag vs i) (nth_frag vs j) \<longleftrightarrow>
      frag_start vs i \<le> frag_start vs j \<and> frag_start vs j < frag_start vs i + ?len"
    using fi fj by (simp add: starts_inside_def word_le_nat_alt word_less_nat_alt)
  also have "\<dots> \<longleftrightarrow> i = j"
  proof (cases i j rule: linorder_cases)
    case less
    then show ?thesis using frag_start_mono [of "Suc i" j vs] frag_start_Suc [OF assms(2)] by auto
  next
    case greater
    then have "frag_start vs j + length (view_payload (vs ! j)) \<le> frag_start vs i"
      using frag_start_mono [of "Suc j" i vs] frag_start_Suc [OF assms(3)] by simp
    with fj(3) have "\<not> frag_start vs i \<le> frag_start vs j" by linarith
    with greater show ?thesis by simp
  qed (use fi(3) in simp)
  finally show ?thesis .
qed

lemma fold_lengths:
  "fold (\<lambda>f n. n + of_nat (length (frag_data f))) fs (a :: u16) = a + of_nat (sum_list (map (\<lambda>f. length (frag_data f)) fs))"
  by (induction fs arbitrary: a) (simp_all add: add.assoc)

text \<open>The payload lengths of a set of fragments add up to the whole only for all of them.\<close>

lemma lengths_sum:
  assumes "fragmentation ident vs dat"
  shows "(\<Sum>i < length vs. length (view_payload (vs ! i))) = length dat"
proof -
  have "length dat = (\<Sum>v\<leftarrow>vs. length (view_payload v))"
    using assms by (auto simp: fragmentation_def length_concat comp_def)
  then show ?thesis by (simp add: sum_list_sum_nth atLeast0LessThan)
qed

lemma lengths_subset:
  assumes "fragmentation ident vs dat" "I \<subseteq> {..< length vs}"
  shows "(\<Sum>i\<in>I. length (view_payload (vs ! i))) \<le> length dat"
    and "(\<Sum>i\<in>I. length (view_payload (vs ! i))) = length dat \<longleftrightarrow> I = {..< length vs}"
proof -
  let ?l = "\<lambda>i. length (view_payload (vs ! i))"
  have split: "(\<Sum>i < length vs. ?l i) = (\<Sum>i\<in>I. ?l i) + (\<Sum>i\<in>{..< length vs} - I. ?l i)"
    using assms(2) by (simp add: sum.subset_diff [OF assms(2)] add.commute)
  then show "(\<Sum>i\<in>I. ?l i) \<le> length dat" using lengths_sum [OF assms(1)] by simp
  have "(\<Sum>i\<in>{..< length vs} - I. ?l i) = 0 \<longleftrightarrow> {..< length vs} - I = {}"
    using frag_fields(3) [OF assms(1)] by (auto simp: sum_eq_0_iff)
  then show "(\<Sum>i\<in>I. ?l i) = length dat \<longleftrightarrow> I = {..< length vs}"
    using split lengths_sum [OF assms(1)] assms(2) by auto
qed

lemma write_in_order:
  assumes "fragmentation ident vs dat" "k \<le> length vs"
  shows "write_fragments (map (nth_frag vs) [k ..< length vs]) (take (frag_start vs k) dat @ replicate (length dat - frag_start vs k) 0) = Some dat"
  using assms(2)
proof (induction "length vs - k" arbitrary: k)
  case 0
  then show ?case using assms(1) frag_start_all [of vs] by (simp add: fragmentation_def)
next
  case (Suc n)
  then have k: "k < length vs" by simp
  let ?s = "frag_start vs k" and ?b = "view_payload (vs ! k)"
  note f = frag_fields [OF assms(1) k]
  have "concat (map view_payload (take (Suc k) vs)) = take (frag_start vs (Suc k)) dat"
  proof -
    have "dat = concat (map view_payload (take (Suc k) vs)) @ concat (map view_payload (drop (Suc k) vs))"
      using assms(1) by (metis append_take_drop_id concat_append fragmentation_def map_append)
    then show ?thesis by (simp add: frag_start_def)
  qed
  moreover have "concat (map view_payload (take k vs)) = take ?s dat"
  proof -
    have "dat = concat (map view_payload (take k vs)) @ concat (map view_payload (drop k vs))"
      using assms(1) by (metis append_take_drop_id concat_append fragmentation_def map_append)
    then show ?thesis by (simp add: frag_start_def)
  qed
  ultimately have "take (frag_start vs (Suc k)) dat = take ?s dat @ ?b" using k by (simp add: take_Suc_conv_app_nth)
  then have "overwrite ?s ?b (take ?s dat @ replicate (length dat - ?s) 0)
      = Some (take (frag_start vs (Suc k)) dat @ replicate (length dat - frag_start vs (Suc k)) 0)"
    using f(4) frag_start_Suc [OF k] by (simp add: overwrite_def)
  then show ?case
    using Suc.hyps(1) [of "Suc k"] Suc.hyps(2) k f(1,2) by (simp add: upt_conv_Cons)
qed

section \<open>Reassembly in any order\<close>

text \<open>The reassembler holds exactly the fragments \<open>I\<close> of a datagram.\<close>

definition holds_fragments :: "reassembler_key \<Rightarrow> ipv4_view list \<Rightarrow> bytes \<Rightarrow> nat set \<Rightarrow> ip_reassembler \<Rightarrow> bool" where
  "holds_fragments key vs dat I r \<longleftrightarrow>
     (st_get (packets r) key = None \<and> I = {})
     \<or> (\<exists>e js. st_get (packets r) key = Some e \<and> distinct js \<and> set js = I
          \<and> fragments (val_packet e) = map (nth_frag vs) js
          \<and> pk_total_length (val_packet e) = (if length vs - 1 \<in> I then Some (of_nat (length dat)) else None))"

lemma nth_frag_inj: "fragmentation ident vs dat \<Longrightarrow> inj_on frag_offset (nth_frag vs ` {..< length vs})"
proof (rule inj_onI, clarsimp)
  fix i j
  assume f: "fragmentation ident vs dat" and ij: "i < length vs" "j < length vs"
    and eq: "frag_offset (nth_frag vs i) = frag_offset (nth_frag vs j)"
  have "frag_start vs i = frag_start vs j"
    using frag_fields(1) [OF f ij(1)] frag_fields(1) [OF f ij(2)] eq by simp
  then have "starts_inside (nth_frag vs i) (nth_frag vs j)"
    using frag_fields [OF f ij(1)] f eq
    by (simp add: starts_inside_def word_less_nat_alt unat_word_ariths unat_u16 fragmentation_def)
  then show "nth_frag vs i = nth_frag vs j" using starts_inside_iff [OF f ij] by simp
qed

lemma sort_fragments:
  assumes "fragmentation ident vs dat" "distinct js" "set js = {..< length vs}"
  shows "sort_key frag_offset (map (nth_frag vs) js) = map (nth_frag vs) [0 ..< length vs]"
proof (rule sort_key_inj_key_eq)
  have "mset js = mset [0 ..< length vs]"
    using mset_set_set [OF assms(2)] assms(3) by (simp add: atLeast0LessThan)
  then show "mset (map (nth_frag vs) js) = mset (map (nth_frag vs) [0 ..< length vs])" by simp
  show "inj_on frag_offset (set (map (nth_frag vs) js))"
    using nth_frag_inj [OF assms(1)] assms(3) by simp
  have "frag_offset (nth_frag vs i) \<le> frag_offset (nth_frag vs j)" if "i \<le> j" "j < length vs" for i j
    using that frag_fields(1) [OF assms(1)] frag_start_mono [OF that(1)] by (simp add: word_le_nat_alt)
  then show "sorted (map frag_offset (map (nth_frag vs) [0 ..< length vs]))"
    by (auto simp: sorted_iff_nth_mono)
qed

lemma assemble_holds:
  assumes "fragmentation ident vs dat" "distinct js" "set js \<subseteq> {..< length vs}" "fragments p = map (nth_frag vs) js"
    and "pk_total_length p = (if length vs - 1 \<in> set js then Some (of_nat (length dat)) else None)"
  shows "if set js = {..< length vs} then \<exists>p'. assemble p = Some (Some dat, p') else assemble p = Some (None, p)"
proof -
  have N: "length dat < 2 ^ 16" and ne: "vs \<noteq> []" using assms(1) by (auto simp: fragmentation_def)
  have lens: "length (frag_data (nth_frag vs i)) = length (view_payload (vs ! i))" for i
    by (simp add: nth_frag_def ip_fragment_from_def)
  define S where "S = (\<Sum>i\<in>set js. length (view_payload (vs ! i)))"
  have "sum_list (map (\<lambda>f. length (frag_data f)) (fragments p)) = S"
    using assms(2,4) by (simp add: lens comp_def sum_list_distinct_conv_sum_set S_def)
  then have sum: "fold (\<lambda>f n. n + of_nat (length (frag_data f))) (fragments p) (0 :: u16) = of_nat S" by (simp add: fold_lengths)
  have S: "S \<le> length dat" "S = length dat \<longleftrightarrow> set js = {..< length vs}"
    using lengths_subset [OF assms(1,3)] by (simp_all add: S_def)
  then have "unat (of_nat S :: u16) = S" "unat (of_nat (length dat) :: u16) = length dat"
    using unat_u16 [OF le_less_trans [OF S(1) N]] unat_u16 [OF N] by blast+
  then have eq: "(of_nat S :: u16) = of_nat (length dat) \<longleftrightarrow> set js = {..< length vs}"
    using S(2) by (simp add: word_unat_eq_iff)
  have "length vs - 1 \<in> {..< length vs}" using ne by simp
  then have "is_complete p \<longleftrightarrow> set js = {..< length vs}"
    using assms(5) eq by (auto simp: is_complete_def sum)
  moreover have "write_fragments (map (nth_frag vs) [0 ..< length vs]) (replicate (length dat) 0) = Some dat"
    using write_in_order [OF assms(1) zero_le] by (simp add: frag_start_def)
  ultimately show ?thesis
    using assms(4,5) sort_fragments [OF assms(1,2)] unat_u16 [OF N] ne by (simp add: assemble_def)
qed

lemma add_fragment_step:
  assumes f: "fragmentation (key_id key) vs dat" and i: "i < length vs" and wf: "st_wf (packets r)"
    and I: "I \<subseteq> {..< length vs}" and h: "holds_fragments key vs dat I r"
  shows "if insert i I = {..< length vs}
    then add_fragment now (key_source key) (key_destination key) (vs ! i) r
      = Some (Some dat, r\<lparr>packets := st_remove key (packets r)\<rparr>)
    else \<exists>r'. add_fragment now (key_source key) (key_destination key) (vs ! i) r = Some (None, r')
      \<and> holds_fragments key vs dat (insert i I) r' \<and> st_wf (packets r')"
proof -
  let ?v = "vs ! i" and ?src = "key_source key" and ?dst = "key_destination key"
  have v: "identification ?v = key_id key" "total_length_field ?v - ucast (header_length ?v) * 4 = of_nat (length (view_payload ?v))"
      "is_last_fragment ?v = (i = length vs - 1)"
    using f i by (auto simp: fragmentation_def)
  have key: "\<lparr>key_source = ?src, key_destination = ?dst, key_id = identification ?v\<rparr> = key" by (simp add: v)
  define e where "e = (case st_get (packets r) key of Some e \<Rightarrow> e | None \<Rightarrow> \<lparr>val_packet = ip_packet_new ?src ?dst, val_timestamp = now\<rparr>)"
  obtain js where js: "distinct js" "set js = I" "fragments (val_packet e) = map (nth_frag vs) js"
      "pk_total_length (val_packet e) = (if length vs - 1 \<in> I then Some (of_nat (length dat)) else None)"
    using h by (auto simp: holds_fragments_def e_def ip_packet_new_def)
  define p2 where "p2 = packet_add_fragment (nth_frag vs i)
    (if is_last_fragment ?v then set_total_length (of_nat (length (view_payload ?v)) + frag_offset (nth_frag vs i)) (val_packet e)
     else val_packet e)"
  define js' where "js' = (if i \<in> I then js else js @ [i])"
  have last_len: "of_nat (length (view_payload ?v)) + frag_offset (nth_frag vs i) = of_nat (length dat)" if "i = length vs - 1"
  proof -
    have "frag_start vs i + length (view_payload ?v) = length dat"
      using that i frag_start_Suc [OF i] frag_start_all [of vs] f by (simp add: fragmentation_def)
    moreover have "frag_offset (nth_frag vs i) = of_nat (frag_start vs i)"
      using frag_fields(1,4) [OF f i] f unat_u16 [of "frag_start vs i"] by (simp add: word_unat_eq_iff fragmentation_def)
    ultimately show ?thesis by (metis add.commute of_nat_add)
  qed
  have "list_ex (\<lambda>g. starts_inside g (nth_frag vs i) \<or> starts_inside (nth_frag vs i) g) (map (nth_frag vs) js) \<longleftrightarrow> i \<in> I"
    using starts_inside_iff [OF f _ i] starts_inside_iff [OF f i] I js(2) by (auto simp: list_ex_iff)
  then have p2: "fragments p2 = map (nth_frag vs) js'"
      "pk_total_length p2 = (if length vs - 1 \<in> insert i I then Some (of_nat (length dat)) else None)"
    using js(3,4) v(3) last_len by (auto simp: p2_def js'_def packet_add_fragment_def set_total_length_def)
  have js': "distinct js'" "set js' = insert i I" using js(1,2) by (auto simp: js'_def)
  have ass: "if insert i I = {..< length vs} then \<exists>p'. assemble p2 = Some (Some dat, p') else assemble p2 = Some (None, p2)"
    using assemble_holds [OF f js'(1) _ p2(1)] p2(2) js'(2) I i by simp
  have add: "add_fragment now ?src ?dst ?v r = map_option (\<lambda>(res, p3). case res of
        Some dat \<Rightarrow> (Some dat, r\<lparr>packets := st_remove key (packets r)\<rparr>)
      | None \<Rightarrow> (None, r\<lparr>packets := st_insert key \<lparr>val_packet = p3, val_timestamp = now\<rparr> (packets r)\<rparr>)) (assemble p2)"
    unfolding add_fragment_def Let_def key v(2) e_def [symmetric] p2_def nth_frag_def by simp
  have "holds_fragments key vs dat (insert i I) (r\<lparr>packets := st_insert key \<lparr>val_packet = p2, val_timestamp = now\<rparr> (packets r)\<rparr>)"
    unfolding holds_fragments_def
    by (intro disjI2 exI [of _ "\<lparr>val_packet = p2, val_timestamp = now\<rparr>"] exI [of _ js']) (use js' p2 in \<open>simp add: store_simps\<close>)
  then show ?thesis using ass add wf by (auto simp: store_simps)
qed

fun add_all :: "u32 \<Rightarrow> u32 \<Rightarrow> (nat \<times> ipv4_view) list \<Rightarrow> ip_reassembler \<Rightarrow> (bytes option list \<times> ip_reassembler) option" where
  "add_all src dst [] r = Some ([], r)"
| "add_all src dst ((now, v) # evs) r = do {
     (res, r1) \<leftarrow> add_fragment now src dst v r;
     (ress, r2) \<leftarrow> add_all src dst evs r1;
     Some (res # ress, r2)
   }"

lemma add_all_append:
  "add_all src dst (xs @ ys) r = do {
     (a, r1) \<leftarrow> add_all src dst xs r;
     (b, r2) \<leftarrow> add_all src dst ys r1;
     Some (a @ b, r2)
   }"
  by (induction src dst xs r rule: add_all.induct) (auto split: bind_splits)

lemma add_all_incomplete:
  assumes "fragmentation (key_id key) vs dat" "st_wf (packets r)" "holds_fragments key vs dat I r"
    and "I \<union> snd ` set evs \<subset> {..< length vs}"
  shows "\<exists>r'. add_all (key_source key) (key_destination key) (map (\<lambda>(now, i). (now, vs ! i)) evs) r
      = Some (replicate (length evs) None, r')
    \<and> st_wf (packets r') \<and> holds_fragments key vs dat (I \<union> snd ` set evs) r'"
  using assms(2-)
proof (induction evs arbitrary: r I)
  case (Cons ev evs)
  obtain now i where ev: "ev = (now, i)" by force
  have i: "i < length vs" "I \<subseteq> {..< length vs}" "insert i I \<noteq> {..< length vs}" using Cons.prems(3) ev by auto
  then obtain r1 where r1: "add_fragment now (key_source key) (key_destination key) (vs ! i) r = Some (None, r1)"
      "holds_fragments key vs dat (insert i I) r1" "st_wf (packets r1)"
    using add_fragment_step [OF assms(1) i(1) Cons.prems(1) i(2) Cons.prems(2)] by auto
  have "insert i I \<union> snd ` set evs \<subset> {..< length vs}" using Cons.prems(3) ev by auto
  from Cons.IH [OF r1(3,2) this] r1(1) ev show ?case by auto
qed simp

lemma add_all_complete:
  assumes "fragmentation (key_id key) vs dat" "st_wf (packets r)" "st_get (packets r) key = None"
    and "snd ` set evs \<subset> {..< length vs}" "insert i (snd ` set evs) = {..< length vs}"
  shows "\<exists>r'. add_all (key_source key) (key_destination key) (map (\<lambda>(now, i). (now, vs ! i)) (evs @ [(t, i)])) r
      = Some (replicate (length evs) None @ [Some dat], r') \<and> st_get (packets r') key = None"
proof -
  have "holds_fragments key vs dat {} r" using assms(3) by (simp add: holds_fragments_def)
  then obtain r1 where r1: "add_all (key_source key) (key_destination key) (map (\<lambda>(now, i). (now, vs ! i)) evs) r
      = Some (replicate (length evs) None, r1)" "st_wf (packets r1)" "holds_fragments key vs dat (snd ` set evs) r1"
    using add_all_incomplete [OF assms(1,2), of "{}" evs] assms(4) by auto
  have "i < length vs" "snd ` set evs \<subseteq> {..< length vs}" using assms(4,5) by auto
  from add_fragment_step [OF assms(1) this(1) r1(2) this(2) r1(3), of t] assms(5) r1(1)
  show ?thesis by (auto simp: add_all_append store_simps)
qed

section \<open>Fragmenting and reassembling\<close>

definition piece_count :: "nat \<Rightarrow> nat \<Rightarrow> nat" where
  "piece_count len mtu = (len + mtu - 1) div mtu"

lemma piece_count_less:
  assumes "0 < mtu"
  shows "k < piece_count len mtu \<longleftrightarrow> k * mtu < len"
proof -
  have "k < piece_count len mtu \<longleftrightarrow> Suc k * mtu \<le> len + mtu - 1"
    using assms by (simp add: piece_count_def Suc_le_eq [symmetric] less_eq_div_iff_mult_less_eq del: mult_Suc)
  then show ?thesis using assms by auto
qed

definition piece_bytes :: "ipv4_lib \<Rightarrow> compose_args \<Rightarrow> bytes \<Rightarrow> nat \<Rightarrow> bytes" where
  "piece_bytes lib args dat k =
     (let chunk = take (payload_mtu args) (drop (k * payload_mtu args) dat)
      in header_bytes lib (fragment_header args (piece_count (length dat) (payload_mtu args)) k (k * payload_mtu args) (length chunk)) @ chunk)"

text \<open>The loop from piece \<open>k\<close> on, while the buffer still holds the rest of the payload.\<close>

lemma compose_loop_from:
  assumes "ipv4_correct lib" "\<And>pkt. cb pkt = Inr ()" "payload_len args = length dat" "0 < payload_mtu args"
    and "payload_mtu args mod 8 = 0 \<or> length dat \<le> payload_mtu args"
    and "k \<le> piece_count (length dat) (payload_mtu args)" "piece_count (length dat) (payload_mtu args) - k < fuel"
    and "20 + length dat \<le> length buf" "take (length dat - off) (drop (20 + off) buf) = drop off dat"
    and "off = min (k * payload_mtu args) (length dat)"
  shows "compose_loop fuel lib cb args (piece_count (length dat) (payload_mtu args)) buf off off k
    = Some (Inr (), map (piece_bytes lib args dat) [k ..< piece_count (length dat) (payload_mtu args)])"
  using assms(6-)
proof (induction fuel arbitrary: k buf off)
  case (Suc fuel)
  let ?n = "piece_count (length dat) (payload_mtu args)" let ?m = "payload_mtu args"
  show ?case
  proof (cases "k < ?n")
    case True
    then have off: "off = k * ?m" "off < length dat"
      using piece_count_less [OF assms(4)] Suc.prems(5) by auto
    define flen where "flen = min (off + ?m) (length dat) - off"
    define hdr where "hdr = header_bytes lib (fragment_header args ?n k off flen)"
    have hdr: "length hdr = 20" using assms(1) by (simp add: hdr_def ipv4_correct_def)
    define buf1 where "buf1 = take off buf @ hdr @ drop (off + 20) buf"
    have fl: "off + flen \<le> length dat" "flen = length (take ?m (drop off dat))" using off by (auto simp: flen_def min_def)
    have ow: "overwrite off hdr buf = Some buf1"
      using Suc.prems(3) off hdr by (simp add: overwrite_def buf1_def)
    have d1: "drop off buf1 = hdr @ drop (off + 20) buf" using Suc.prems(3) off by (simp add: buf1_def)
    have chunk: "take flen (drop (off + 20) buf) = take ?m (drop off dat)"
    proof -
      have "take flen (drop (off + 20) buf) = take flen (take (length dat - off) (drop (20 + off) buf))"
        using fl(1) by (simp add: min_def add.commute)
      also have "\<dots> = take flen (drop off dat)" by (simp only: Suc.prems(4))
      also have "\<dots> = take ?m (drop off dat)" using fl(2) by (metis append_take_drop_id append_eq_conv_conj)
      finally show ?thesis .
    qed
    have pkt: "take (flen + 20) (drop off buf1) = piece_bytes lib args dat k"
    proof -
      have "take (flen + 20) (drop off buf1) = hdr @ take ?m (drop off dat)" using hdr chunk by (simp add: d1)
      then show ?thesis unfolding piece_bytes_def Let_def off(1) [symmetric] fl(2) [symmetric] hdr_def .
    qed
    have m8: "\<not> (1 < ?n \<and> off mod 8 \<noteq> 0)"
    proof (cases "length dat \<le> ?m")
      case True
      then have "\<not> 1 < ?n" using piece_count_less [OF assms(4), of 1 "length dat"] by simp
      then show ?thesis by simp
    next
      case False
      then show ?thesis using assms(5) off(1) by (metis mod_mult_right_eq mod_0 mult_0_right)
    qed
    have next_off: "off + flen = min (Suc k * ?m) (length dat)" using off by (auto simp: flen_def)
    have "take (length dat - (off + flen)) (drop (20 + (off + flen)) buf1) = drop (off + flen) dat"
    proof -
      have "drop (20 + (off + flen)) buf1 = drop (20 + flen) (drop off buf1)" by (simp add: ac_simps)
      also have "\<dots> = drop flen (drop (off + 20) buf)" using hdr by (simp add: d1)
      finally have "take (length dat - (off + flen)) (drop (20 + (off + flen)) buf1)
          = drop flen (take (length dat - off) (drop (20 + off) buf))"
        by (simp add: drop_take ac_simps)
      then show ?thesis unfolding Suc.prems(4) by (simp add: ac_simps)
    qed
    moreover have "20 + length dat \<le> length buf1" using Suc.prems(3) off hdr by (simp add: buf1_def)
    ultimately have IH: "compose_loop fuel lib cb args ?n buf1 (off + flen) (off + flen) (Suc k)
        = Some (Inr (), map (piece_bytes lib args dat) [Suc k ..< ?n])"
      using Suc.IH [of "Suc k" buf1 "off + flen"] True Suc.prems(2) next_off by simp
    have nx: "min (off + ?m) (length dat) = off + flen" using fl off by (simp add: flen_def)
    have "compose_loop (Suc fuel) lib cb args ?n buf off off k
        = Some (Inr (), piece_bytes lib args dat k # map (piece_bytes lib args dat) [Suc k ..< ?n])"
      unfolding compose_loop.simps Let_def assms(3) nx
      using off(2) fl Suc.prems(3) m8 ow IH assms(2) pkt by (simp add: hdr_def)
    then show ?thesis using True by (simp add: upt_conv_Cons)
  next
    case False
    then have "\<not> off < length dat" using piece_count_less [OF assms(4)] Suc.prems(5) by auto
    then show ?thesis using False Suc.prems(1) assms(3) by simp
  qed
qed simp

text \<open>What the receiver sees of piece \<open>k\<close>.\<close>

definition piece_view :: "compose_args \<Rightarrow> bytes \<Rightarrow> nat \<Rightarrow> ipv4_view" where
  "piece_view args dat k =
     (let chunk = take (payload_mtu args) (drop (k * payload_mtu args) dat);
          h = fragment_header args (piece_count (length dat) (payload_mtu args)) k (k * payload_mtu args) (length chunk)
      in \<lparr>identification = hd_identification h, fragment_offset = hd_fragment_offset h, view_flags = hd_flags h,
          total_length_field = hd_total_length h, header_length = 5, view_payload = chunk\<rparr>)"

lemma parse_piece:
  assumes "ipv4_correct lib" "length dat + 20 < 2 ^ 16"
  shows "parse_ipv4 lib (piece_bytes lib args dat k) = Some (piece_view args dat k)"
proof -
  let ?chunk = "take (payload_mtu args) (drop (k * payload_mtu args) dat)"
  let ?h = "fragment_header args (piece_count (length dat) (payload_mtu args)) k (k * payload_mtu args) (length ?chunk)"
  have "length ?chunk + 20 < 2 ^ 16" using assms(2) by simp
  then have "unat (hd_total_length ?h) = 20 + length ?chunk" by (simp only: fragment_header_def ipv4_header.simps unat_u16)
  moreover have "hd_fragment_offset ?h < 2 ^ 13"
  proof -
    have "unat (w div 8) < 2 ^ 13" for w :: u16
      using unsigned_less [where 'a = nat, of w] by (simp add: unat_div less_mult_imp_div_less)
    then show ?thesis by (simp add: fragment_header_def word_less_nat_alt)
  qed
  moreover have "hd_flags ?h < 8" by (simp add: fragment_header_def MoreFragments_def DontFragment_def)
  ultimately show ?thesis
    using assms(1) unfolding piece_bytes_def piece_view_def Let_def ipv4_correct_def by blast
qed

lemma concat_chunks:
  "0 < m \<Longrightarrow> concat (map (\<lambda>k. take m (drop (k * m) xs)) [0 ..< j]) = take (j * m) xs"
proof (induction j)
  case (Suc j)
  have "take (j * m + m) xs = take (j * m) xs @ take m (drop (j * m) xs)" by (rule take_add)
  with Suc show ?case by (simp add: add.commute)
qed simp

lemma pieces_fragmentation:
  assumes "0 < payload_mtu args" "payload_mtu args mod 8 = 0" "payload_mtu args < length dat" "length dat + 20 < 2 ^ 16"
  shows "fragmentation (ip_id args) (map (piece_view args dat) [0 ..< piece_count (length dat) (payload_mtu args)]) dat"
proof -
  let ?m = "payload_mtu args" let ?n = "piece_count (length dat) ?m" let ?vs = "map (piece_view args dat) [0 ..< ?n]"
  have n: "1 < ?n" using piece_count_less [OF assms(1), of 1 "length dat"] assms(3) by simp
  have len: "length dat \<le> ?n * ?m" using piece_count_less [OF assms(1), of ?n "length dat"] by simp
  have pl: "view_payload (piece_view args dat k) = take ?m (drop (k * ?m) dat)" for k by (simp add: piece_view_def Let_def)
  have "concat (map view_payload ?vs) = dat" using concat_chunks [OF assms(1), of dat ?n] len by (simp add: comp_def pl)
  moreover have "frag_start ?vs i = i * ?m" if "i < ?n" for i
  proof -
    have "i * ?m < length dat" using that piece_count_less [OF assms(1)] by simp
    then show ?thesis
      using concat_chunks [OF assms(1), of dat i] that by (simp add: frag_start_def take_map comp_def pl)
  qed
  moreover have "unat (fragment_offset (piece_view args dat i) * 8) = i * ?m" if "i < ?n" for i
  proof -
    have lt: "i * ?m < 2 ^ 16" using that piece_count_less [OF assms(1), of i "length dat"] assms(4) by simp
    obtain q where q: "i * ?m = q * 8" using assms(2) by (metis dvd_def mod_0_imp_dvd dvd_mult mult.commute)
    have "unat (of_nat (i * ?m) div 8 :: u16) = q"
      using unat_u16 [OF lt] q by (simp add: unat_div)
    then have "unat ((of_nat (i * ?m) div 8 :: u16) * 8) = i * ?m"
      using lt q by (simp add: unat_word_ariths)
    then show ?thesis using n by (simp add: piece_view_def fragment_header_def Let_def)
  qed
  moreover have "total_length_field (piece_view args dat i) - ucast (header_length (piece_view args dat i)) * 4
      = of_nat (length (view_payload (piece_view args dat i)))" for i
    by (simp add: piece_view_def fragment_header_def Let_def)
  moreover have "is_last_fragment (piece_view args dat i) = (i = ?n - 1)" for i
    using n by (simp add: is_last_fragment_def piece_view_def fragment_header_def Let_def MoreFragments_def)
  moreover have "view_payload (piece_view args dat i) \<noteq> []" if "i < ?n" for i
    using that piece_count_less [OF assms(1), of i "length dat"] assms(1) by (simp add: pl)
  moreover have "identification (piece_view args dat i) = ip_id args" for i
    by (simp add: piece_view_def fragment_header_def Let_def)
  ultimately show ?thesis using n assms(4) by (auto simp: fragmentation_def)
qed

text \<open>
  C27: what is fragmented is reassembled.  A payload that needs several fragments, with an MTU that is a
  multiple of eight, is sent without a panic as packets that the parser reads back; and a reassembler
  that knows nothing of this datagram, given these packets in any order and with any repetitions,
  answers nothing until the last missing one arrives and then exactly the payload, keeping no trace of it.
\<close>

theorem fragment_reassemble_roundtrip:
  assumes "ipv4_correct lib" and "\<And>pkt. cb pkt = Inr ()" and "payload_len args = length dat"
    and "0 < payload_mtu args" and "payload_mtu args mod 8 = 0" and "payload_mtu args < length dat" and "length dat + 20 < 2 ^ 16"
    and "length pre = 20"
    and "st_wf (packets r)" and "st_get (packets r) \<lparr>key_source = src, key_destination = dst, key_id = ip_id args\<rparr> = None"
    and "snd ` set evs \<subset> {..< piece_count (length dat) (payload_mtu args)}"
    and "insert i (snd ` set evs) = {..< piece_count (length dat) (payload_mtu args)}"
  shows "\<exists>sent views r'. compose_ipv4_packet lib cb args (pre @ dat @ rest) = Some (Inr (), sent)
    \<and> length sent = piece_count (length dat) (payload_mtu args) \<and> map (parse_ipv4 lib) sent = map Some views
    \<and> (\<forall>v \<in> set views. is_packet_fragmented v)
    \<and> add_all src dst (map (\<lambda>(now, i). (now, views ! i)) (evs @ [(t, i)])) r = Some (replicate (length evs) None @ [Some dat], r')
    \<and> st_get (packets r') \<lparr>key_source = src, key_destination = dst, key_id = ip_id args\<rparr> = None"
proof -
  let ?n = "piece_count (length dat) (payload_mtu args)" let ?vs = "map (piece_view args dat) [0 ..< ?n]"
  let ?key = "\<lparr>key_source = src, key_destination = dst, key_id = ip_id args\<rparr>"
  have "?n \<le> length dat"
    using piece_count_less [OF assms(4), of "length dat" "length dat"] assms(4) by (simp add: not_less)
  then have "compose_loop (Suc (length dat)) lib cb args ?n (pre @ dat @ rest) 0 0 0 = Some (Inr (), map (piece_bytes lib args dat) [0 ..< ?n])"
    using compose_loop_from [OF assms(1-4), of 0 "Suc (length dat)" "pre @ dat @ rest" 0] assms(5,8) by simp
  then have sent: "compose_ipv4_packet lib cb args (pre @ dat @ rest) = Some (Inr (), map (piece_bytes lib args dat) [0 ..< ?n])"
    using assms(3,4) by (simp add: compose_ipv4_packet_def piece_count_def)
  note frag = pieces_fragmentation [OF assms(4-7)]
  have fragd: "is_packet_fragmented v" if "v \<in> set ?vs" for v
  proof -
    obtain k where k: "k < length ?vs" "v = ?vs ! k" using \<open>v \<in> set ?vs\<close> by (metis in_set_conv_nth)
    have "1 < ?n" using piece_count_less [OF assms(4), of 1 "length dat"] assms(6) by simp
    then show ?thesis using fragments_fragmented [OF frag _ k(1)] k(2) by simp
  qed
  have "fragmentation (key_id ?key) ?vs dat" using frag by simp
  from add_all_complete [OF this assms(9,10), of evs i t] assms(11,12)
  obtain r' where "add_all src dst (map (\<lambda>(now, i). (now, ?vs ! i)) (evs @ [(t, i)])) r = Some (replicate (length evs) None @ [Some dat], r')"
      "st_get (packets r') ?key = None" by auto
  with sent fragd show ?thesis
    by (intro exI [of _ "map (piece_bytes lib args dat) [0 ..< ?n]"] exI [of _ ?vs] exI [of _ r'])
      (simp add: parse_piece [OF assms(1,7)])
qed

section \<open>Fragments that do not belong together\<close>

definition well_sized :: "ipv4_view \<Rightarrow> bool" where
  "well_sized v \<longleftrightarrow> total_length_field v - ucast (header_length v) * 4 = of_nat (length (view_payload v))"

text \<open>
  Two crafted fragments crash the reassembler.  After the last fragment of a datagram, at offset \<open>a\<close>
  with \<open>l\<close> bytes, a fragment with \<open>a\<close> bytes that lies beyond the end of the datagram makes the byte
  count equal to the total length although the datagram is not covered; copying that fragment into
  the buffer then indexes out of range.
\<close>

lemma stray_fragment_panics:
  assumes "well_sized v1" and "well_sized v2" and "identification v1 = identification v2"
    and "is_last_fragment v1" and "\<not> is_last_fragment v2"
    and "unat (fragment_offset v1 * 8) = a" and "0 < a" and "length (view_payload v1) = l" and "0 < l" and "length (view_payload v2) = a"
    and "a + l \<le> unat (fragment_offset v2 * 8)" and "unat (fragment_offset v2 * 8) + a < 2 ^ 16"
    and "st_get (packets r) \<lparr>key_source = src, key_destination = dst, key_id = identification v1\<rparr> = None"
  shows "\<exists>r1. add_fragment t1 src dst v1 r = Some (None, r1) \<and> add_fragment t2 src dst v2 r1 = None"
proof -
  let ?key = "\<lparr>key_source = src, key_destination = dst, key_id = identification v1\<rparr>"
  let ?f1 = "ip_fragment_from v1" and ?f2 = "ip_fragment_from v2"
  have al: "a + l < 2 ^ 16" using assms(11,12) by linarith
  then have l: "l < 2 ^ 16" "a < 2 ^ 16" by linarith+
  define tot :: u16 where "tot = of_nat l + frag_offset ?f1"
  have o1: "unat (frag_offset ?f1) = a" using assms(6) by (simp add: ip_fragment_from_def)
  have tot: "unat tot = a + l"
    unfolding tot_def add.commute [of _ "frag_offset ?f1"] by (rule u16_add [OF o1 unat_u16 [OF l(1)] al])
  define p1 where "p1 = \<lparr>pk_source = src, pk_destination = dst, pk_total_length = Some tot, fragments = [?f1]\<rparr>"
  have nc: "\<not> is_complete p1"
    using tot assms(7,8) unat_u16 [OF l(1)] by (auto simp: is_complete_def p1_def ip_fragment_from_def word_unat_eq_iff)
  have a1: "add_fragment t1 src dst v1 r = Some (None, r\<lparr>packets := st_insert ?key \<lparr>val_packet = p1, val_timestamp = t1\<rparr> (packets r)\<rparr>)"
    using assms(1,4,8,13) nc
    by (simp add: add_fragment_def well_sized_def Let_def ip_packet_new_def set_total_length_def packet_add_fragment_def
        assemble_def p1_def tot_def)
  have end1: "unat (frag_offset ?f1 + of_nat (length (frag_data ?f1))) = a + l"
    using tot assms(8) by (simp add: tot_def ip_fragment_from_def add.commute)
  have no: "\<not> starts_inside ?f1 ?f2" "\<not> starts_inside ?f2 ?f1"
    using end1 assms(6,9,11) by (auto simp: starts_inside_def word_le_nat_alt word_less_nat_alt ip_fragment_from_def)
  define p2 where "p2 = p1\<lparr>fragments := [?f1, ?f2]\<rparr>"
  have "(of_nat l :: u16) + of_nat a = tot"
    using tot u16_add [OF unat_u16 [OF l(1)] unat_u16 [OF l(2)]] al by (simp add: word_unat_eq_iff add.commute)
  then have c: "is_complete p2"
    using assms(8,10) by (simp add: is_complete_def p2_def p1_def ip_fragment_from_def)
  have "frag_offset ?f1 \<le> frag_offset ?f2" using assms(6,11) by (simp add: word_le_nat_alt ip_fragment_from_def)
  then have sorted: "sort_key frag_offset [?f1, ?f2] = [?f1, ?f2]" by simp
  have "overwrite (unat (frag_offset ?f2)) (frag_data ?f2) buf = None" if "length buf = a + l" for buf
    using that assms(7,10,11) by (simp add: overwrite_def ip_fragment_from_def)
  then have "write_fragments [?f1, ?f2] (replicate (a + l) 0) = None"
    using assms(6,8) by (simp add: overwrite_def ip_fragment_from_def)
  then have "assemble p2 = None"
    unfolding assemble_def using c sorted tot by (simp add: p2_def p1_def)
  then have "add_fragment t2 src dst v2 (r\<lparr>packets := st_insert ?key \<lparr>val_packet = p1, val_timestamp = t1\<rparr> (packets r)\<rparr>) = None"
    using assms(2,3,5) no
    by (simp add: add_fragment_def well_sized_def Let_def store_simps packet_add_fragment_def p2_def) (simp add: p1_def)
  with a1 show ?thesis by blast
qed

section \<open>Concrete datagrams\<close>

definition toy_view :: "u16 \<Rightarrow> u8 \<Rightarrow> bytes \<Rightarrow> ipv4_view" where
  "toy_view off fl dat = \<lparr>identification = 1, fragment_offset = off, view_flags = fl,
     total_length_field = of_nat (length dat + 20), header_length = 5, view_payload = dat\<rparr>"

lemma stray_fragment_panics_witness:
  "\<exists>r1. add_fragment 1 10 20 (toy_view 1 0 [7]) (reassembler_new 9) = Some (None, r1)
    \<and> add_fragment 2 10 20 (toy_view 100 1 (replicate 8 0)) r1 = None"
  by (rule stray_fragment_panics [where a = 8 and l = 1])
    (simp_all add: toy_view_def well_sized_def is_last_fragment_def MoreFragments_def reassembler_new_def store_simps)

definition toy_ipv4 :: ipv4_lib where
  "toy_ipv4 = \<lparr>header_bytes = (\<lambda>h. to_le_bytes 2 (hd_total_length h) @ to_le_bytes 2 (hd_identification h) @ [hd_flags h]
       @ to_le_bytes 2 (hd_fragment_offset h) @ replicate 13 0),
     parse_ipv4 = (\<lambda>bs. if length bs < 20 then None else Some \<lparr>identification = from_le_bytes (take 2 (drop 2 bs)),
       fragment_offset = from_le_bytes (take 2 (drop 5 bs)), view_flags = bs ! 4, total_length_field = from_le_bytes (take 2 bs),
       header_length = 5, view_payload = drop 20 bs\<rparr>)\<rparr>"

lemma toy_ipv4_correct: "ipv4_correct toy_ipv4"
  by (simp add: ipv4_correct_def toy_ipv4_def from_to_le_bytes nth_append)

definition toy_compose :: compose_args where
  "toy_compose = \<lparr>src_v4 = 10, dst_v4 = 20, next_protocol = 17, payload_len = 10, payload_mtu = 8, ip_id = 1\<rparr>"

theorem fragment_reassemble_roundtrip_witness:
  "\<exists>sent views r'. compose_ipv4_packet toy_ipv4 (\<lambda>_. Inr ()) toy_compose (replicate 20 0 @ replicate 10 7 @ []) = Some (Inr (), sent)
    \<and> map (parse_ipv4 toy_ipv4) sent = map Some views
    \<and> add_all 10 20 (map (\<lambda>(now, i). (now, views ! i)) ([(3, 1)] @ [(4, 0)])) (reassembler_new 9)
      = Some (replicate 1 None @ [Some (replicate 10 7)], r')"
proof -
  have n: "piece_count (length (replicate 10 (7 :: u8))) (payload_mtu toy_compose) = 2" by (simp add: piece_count_def toy_compose_def)
  have s: "snd ` set [(3 :: nat, 1 :: nat)] \<subset> {..< 2}" "insert 0 (snd ` set [(3 :: nat, 1 :: nat)]) = {..< 2}"
    by (simp_all add: lessThan_Suc numeral_2_eq_2 psubset_eq insert_commute)
  have "\<exists>sent views r'. compose_ipv4_packet toy_ipv4 (\<lambda>_. Inr ()) toy_compose (replicate 20 0 @ replicate 10 7 @ []) = Some (Inr (), sent)
    \<and> length sent = 2 \<and> map (parse_ipv4 toy_ipv4) sent = map Some views \<and> (\<forall>v \<in> set views. is_packet_fragmented v)
    \<and> add_all 10 20 (map (\<lambda>(now, i). (now, views ! i)) ([(3, 1)] @ [(4, 0)])) (reassembler_new 9)
      = Some (replicate (length [(3 :: nat, 1 :: nat)]) None @ [Some (replicate 10 7)], r')
    \<and> st_get (packets r') \<lparr>key_source = 10, key_destination = 20, key_id = ip_id toy_compose\<rparr> = None"
    by (rule fragment_reassemble_roundtrip [OF toy_ipv4_correct, where dat = "replicate 10 7" and args = toy_compose, unfolded n])
      (use s in \<open>simp_all add: toy_compose_def reassembler_new_def store_simps\<close>)
  then show ?thesis by force
qed

end
