(* ===== verification/Graph_Algo.thy ===== *)
theory Graph_Algo
  imports Prelude "HOL-Library.Multiset"
begin

text \<open>
  Shortest paths with first hops (\<^verbatim>\<open>peers/graph_algo.rs\<close>), the computation behind the next-hop table
  of the router.  A graph is the function giving the outgoing edges of a node, each with its target
  and cost; costs are natural numbers.  The order in which a binary heap returns entries of equal
  score is left open: \<open>pop\<close> is any function that removes a least entry.
\<close>

section \<open>The algorithm\<close>

type_synonym 'n edges = "'n \<Rightarrow> ('n \<times> nat) list"
type_synonym 'n min_heap = "(nat \<times> 'n) list"
type_synonym 'n heap_pop = "'n min_heap \<Rightarrow> ((nat \<times> 'n) \<times> 'n min_heap) option"

text \<open>The contract of \<^verbatim>\<open>BinaryHeap::pop\<close> under the reversed order of \<^verbatim>\<open>MinScored\<close>.\<close>

definition pops_least :: "'n heap_pop \<Rightarrow> bool" where
  "pops_least pop \<longleftrightarrow> (\<forall>h. (pop h = None \<longleftrightarrow> h = [])
     \<and> (\<forall>x h'. pop h = Some (x, h') \<longrightarrow> mset h = add_mset x (mset h') \<and> (\<forall>y \<in> set h. fst x \<le> fst y)))"

record 'n dijkstra_state =
  visited :: "'n list"
  scores :: "('n, nat) store"
  first_hop :: "('n, 'n \<times> nat) store"
  visit_next :: "'n min_heap"

definition dijkstra_init :: "'n \<Rightarrow> 'n dijkstra_state" where
  "dijkstra_init start = \<lparr>visited = [], scores = st_insert start 0 [], first_hop = st_insert start (start, 0) [],
     visit_next = [(0, start)]\<rparr>"

text \<open>The recorded score and first hop of the target; \<^term>\<open>None\<close> is the panic of indexing a missing
  predecessor.\<close>

definition take_edge :: "'n \<Rightarrow> 'n \<Rightarrow> 'n \<Rightarrow> nat \<Rightarrow> 'n dijkstra_state \<Rightarrow> 'n dijkstra_state option" where
  "take_edge start node next next_score st = do {
     hop \<leftarrow> (if node = start then Some (next, 0) else st_get (first_hop st) node);
     Some (st\<lparr>scores := st_insert next next_score (scores st), visit_next := (next_score, next) # visit_next st,
              first_hop := st_insert next (fst hop, snd hop + 1) (first_hop st)\<rparr>)
   }"

definition relax_edge :: "'n \<Rightarrow> 'n \<Rightarrow> nat \<Rightarrow> 'n \<times> nat \<Rightarrow> 'n dijkstra_state \<Rightarrow> 'n dijkstra_state option" where
  "relax_edge start node node_score e st =
     (let next = fst e in
      if List.member (visited st) next then Some st
      else let next_score = node_score + snd e
           in (case st_get (scores st) next of
                Some old \<Rightarrow> if next_score < old then take_edge start node next next_score st else Some st
              | None \<Rightarrow> take_edge start node next next_score st))"

fun relax_edges :: "'n \<Rightarrow> 'n \<Rightarrow> nat \<Rightarrow> ('n \<times> nat) list \<Rightarrow> 'n dijkstra_state \<Rightarrow> 'n dijkstra_state option" where
  "relax_edges start node node_score [] st = Some st"
| "relax_edges start node node_score (e # es) st = do {
     st' \<leftarrow> relax_edge start node node_score e st;
     relax_edges start node node_score es st'
   }"

partial_function (option) dijkstra_loop ::
  "'n heap_pop \<Rightarrow> 'n edges \<Rightarrow> 'n \<Rightarrow> 'n dijkstra_state \<Rightarrow> 'n dijkstra_state option" where
  "dijkstra_loop pop edges start st = (case pop (visit_next st) of
     None \<Rightarrow> Some st
   | Some ((node_score, node), h) \<Rightarrow>
       let st1 = st\<lparr>visit_next := h\<rparr>
       in if List.member (visited st1) node then dijkstra_loop pop edges start st1
          else do {
            st2 \<leftarrow> relax_edges start node node_score (edges node) st1;
            dijkstra_loop pop edges start (st2\<lparr>visited := node # visited st2\<rparr>)
          })"

definition dijkstra_with_first_hop ::
  "'n heap_pop \<Rightarrow> 'n edges \<Rightarrow> 'n \<Rightarrow> (('n, nat) store \<times> ('n, 'n \<times> nat) store) option" where
  "dijkstra_with_first_hop pop edges start =
     map_option (\<lambda>st. (scores st, first_hop st)) (dijkstra_loop pop edges start (dijkstra_init start))"

section \<open>Walks\<close>

text \<open>A walk from \<open>s\<close>: the nodes after \<open>s\<close>, the last node, the cost.\<close>

inductive walk :: "'n edges \<Rightarrow> 'n \<Rightarrow> 'n list \<Rightarrow> 'n \<Rightarrow> nat \<Rightarrow> bool" for edges s where
  walk_start: "walk edges s [] s 0"
| walk_step: "walk edges s p u c \<Longrightarrow> (v, w) \<in> set (edges u) \<Longrightarrow> walk edges s (p @ [v]) v (c + w)"

text \<open>Score and first hop of a node are those of a walk to it.\<close>

definition recorded :: "'n edges \<Rightarrow> 'n \<Rightarrow> 'n dijkstra_state \<Rightarrow> 'n \<Rightarrow> bool" where
  "recorded edges s st v \<longleftrightarrow> (\<forall>d. st_get (scores st) v = Some d \<longrightarrow>
     (\<exists>p h. walk edges s p v d \<and> st_get (first_hop st) v = Some (h, length p) \<and> (if v = s then p = [] \<and> d = 0 else p \<noteq> [] \<and> h = hd p)))"

text \<open>The part of the invariant that holds also while the edges of a node are being relaxed; \<open>lo\<close> is
  the score of that node.\<close>

definition heap_inv :: "'n edges \<Rightarrow> 'n \<Rightarrow> nat \<Rightarrow> 'n set \<Rightarrow> 'n dijkstra_state \<Rightarrow> bool" where
  "heap_inv edges s lo skip st \<longleftrightarrow>
     (\<forall>v. recorded edges s st v) \<and> st_get (scores st) s = Some 0
     \<and> (\<forall>(k, v) \<in> set (visit_next st). lo \<le> k \<and> (\<exists>d. st_get (scores st) v = Some d \<and> d \<le> k))
     \<and> (\<forall>v d. v \<notin> set (visited st) \<union> skip \<and> st_get (scores st) v = Some d \<longrightarrow> (d, v) \<in> set (visit_next st))
     \<and> (\<forall>v \<in> set (visited st). \<exists>d. st_get (scores st) v = Some d \<and> d \<le> lo)"

definition relaxed :: "'n dijkstra_state \<Rightarrow> 'n \<Rightarrow> nat \<Rightarrow> ('n \<times> nat) list \<Rightarrow> bool" where
  "relaxed st u d es \<longleftrightarrow> (\<forall>(v, w) \<in> set es. \<exists>e. st_get (scores st) v = Some e \<and> e \<le> d + w)"

definition dijkstra_inv :: "'n edges \<Rightarrow> 'n \<Rightarrow> nat \<Rightarrow> 'n dijkstra_state \<Rightarrow> bool" where
  "dijkstra_inv edges s lo st \<longleftrightarrow> heap_inv edges s lo {} st
     \<and> (\<forall>u \<in> set (visited st). \<exists>d. st_get (scores st) u = Some d \<and> relaxed st u d (edges u)
          \<and> (\<forall>p c. walk edges s p u c \<longrightarrow> d \<le> c))"

section \<open>Relaxing the edges of a node\<close>

text \<open>What relaxing keeps: scores only fall, and those of the finished nodes and of the node stay.\<close>

definition lowers :: "'n \<Rightarrow> 'n dijkstra_state \<Rightarrow> 'n dijkstra_state \<Rightarrow> bool" where
  "lowers u st st' \<longleftrightarrow> visited st' = visited st
     \<and> (\<forall>x d. st_get (scores st) x = Some d \<longrightarrow> (\<exists>d' \<le> d. st_get (scores st') x = Some d'))
     \<and> (\<forall>x \<in> insert u (set (visited st)). st_get (scores st') x = st_get (scores st) x)"

lemma lowers_refl [simp]: "lowers u st st"
  by (auto simp: lowers_def)

lemma lowersD: "lowers u a b \<Longrightarrow> st_get (scores a) x = Some d \<Longrightarrow> \<exists>d' \<le> d. st_get (scores b) x = Some d'"
  unfolding lowers_def by blast

lemma lowers_trans:
  assumes "lowers u a b" "lowers u b c"
  shows "lowers u a c"
proof -
  have "\<exists>d' \<le> d. st_get (scores c) x = Some d'" if h: "st_get (scores a) x = Some d" for x d
  proof -
    obtain d1 where "d1 \<le> d" "st_get (scores b) x = Some d1" using lowersD [OF assms(1) h] by blast
    moreover from lowersD [OF assms(2) this(2)] obtain d2 where "d2 \<le> d1" "st_get (scores c) x = Some d2" by blast
    ultimately show ?thesis by (meson le_trans)
  qed
  with assms show ?thesis by (auto simp: lowers_def)
qed

lemma relaxed_lowers:
  assumes "relaxed st u d es" "lowers x st st'"
  shows "relaxed st' u d es"
  unfolding relaxed_def
proof safe
  fix v w assume "(v, w) \<in> set es"
  then obtain e where "e \<le> d + w" "st_get (scores st) v = Some e" using assms(1) by (auto simp: relaxed_def)
  moreover from lowersD [OF assms(2) this(2)] obtain e' where "e' \<le> e" "st_get (scores st') v = Some e'" by blast
  ultimately show "\<exists>e. st_get (scores st') v = Some e \<and> e \<le> d + w" by (meson le_trans)
qed

lemma recorded_other:
  "recorded edges s st v \<Longrightarrow> st_get (scores st') v = st_get (scores st) v \<Longrightarrow> st_get (first_hop st') v = st_get (first_hop st) v
    \<Longrightarrow> recorded edges s st' v"
  by (simp add: recorded_def)

lemma recordedD:
  assumes "heap_inv edges s lo sk st" "st_get (scores st) v = Some d"
  shows "\<exists>p h. walk edges s p v d \<and> st_get (first_hop st) v = Some (h, length p)
    \<and> (if v = s then p = [] \<and> d = 0 else p \<noteq> [] \<and> h = hd p)"
  using assms unfolding heap_inv_def recorded_def by blast

lemma take_edge_ok:
  assumes inv: "heap_inv edges s lo {u} st" and u: "st_get (scores st) u = Some lo" "u \<notin> set (visited st)"
    and e: "(v, w) \<in> set (edges u)" "v \<notin> set (visited st)"
    and less: "\<And>old. st_get (scores st) v = Some old \<Longrightarrow> lo + w < old"
  obtains st' where "take_edge s u v (lo + w) st = Some st'" "heap_inv edges s lo {u} st'" "lowers u st st'"
    "st_get (scores st') v = Some (lo + w)" "length (visit_next st') = Suc (length (visit_next st))"
proof -
  have vu: "v \<noteq> u" "v \<noteq> s" using less u(1) inv by (auto simp: heap_inv_def)
  obtain p h where p: "walk edges s p u lo" "st_get (first_hop st) u = Some (h, length p)"
      "if u = s then p = [] \<and> lo = 0 else p \<noteq> [] \<and> h = hd p"
    using recordedD [OF inv u(1)] by blast
  define hop where "hop = (if u = s then (v, 0) else (h, length p))"
  define st' where "st' = st\<lparr>scores := st_insert v (lo + w) (scores st), visit_next := (lo + w, v) # visit_next st,
    first_hop := st_insert v (fst hop, snd hop + 1) (first_hop st)\<rparr>"
  have t: "take_edge s u v (lo + w) st = Some st'"
    using p(2) by (simp add: take_edge_def st'_def hop_def)
  have get: "st_get (scores st') x = (if x = v then Some (lo + w) else st_get (scores st) x)"
      "st_get (first_hop st') x = (if x = v then Some (fst hop, snd hop + 1) else st_get (first_hop st) x)" for x
    by (simp_all add: st'_def store_simps)
  have wv: "walk edges s (p @ [v]) v (lo + w)" using walk_step [OF p(1) e(1)] .
  have "recorded edges s st' v"
    unfolding recorded_def get using wv p(3) vu by (auto simp: hop_def intro!: exI [of _ "p @ [v]"])
  then have rec: "recorded edges s st' x" for x
    using inv recorded_other [of edges s st x st'] get by (cases "x = v") (auto simp: heap_inv_def)
  have "heap_inv edges s lo {u} st'"
    unfolding heap_inv_def
  proof (intro conjI)
    show "\<forall>(k, x) \<in> set (visit_next st'). lo \<le> k \<and> (\<exists>d. st_get (scores st') x = Some d \<and> d \<le> k)"
    proof safe
      fix k x assume kx: "(k, x) \<in> set (visit_next st')"
      then have "(k, x) = (lo + w, v) \<or> (k, x) \<in> set (visit_next st)" by (simp add: st'_def)
      then consider "k = lo + w" "x = v" | d where "lo \<le> k" "st_get (scores st) x = Some d" "d \<le> k"
        using inv by (auto simp: heap_inv_def)
      then have "lo \<le> k \<and> (\<exists>d. st_get (scores st') x = Some d \<and> d \<le> k)"
        by cases (use less get in \<open>auto dest: less_le_trans\<close>)
      then show "lo \<le> k" "\<exists>d. st_get (scores st') x = Some d \<and> d \<le> k" by blast+
    qed
    show "\<forall>x d. x \<notin> set (visited st') \<union> {u} \<and> st_get (scores st') x = Some d \<longrightarrow> (d, x) \<in> set (visit_next st')"
      using inv unfolding heap_inv_def get by (auto simp: st'_def)
    show "\<forall>x \<in> set (visited st'). \<exists>d. st_get (scores st') x = Some d \<and> d \<le> lo"
      using inv e(2) unfolding heap_inv_def get by (auto simp: st'_def)
  qed (use rec inv vu get in \<open>auto simp: heap_inv_def\<close>)
  moreover have "lowers u st st'"
    unfolding lowers_def get using e(2) vu less by (auto simp: st'_def intro: less_imp_le)
  ultimately show thesis using that t get(1) by (simp add: st'_def)
qed

lemma relax_edge_ok:
  assumes inv: "heap_inv edges s lo {u} st" and u: "st_get (scores st) u = Some lo" "u \<notin> set (visited st)"
    and e: "(v, w) \<in> set (edges u)"
  obtains st' where "relax_edge s u lo (v, w) st = Some st'" "heap_inv edges s lo {u} st'" "lowers u st st'"
    "relaxed st' u lo [(v, w)]" "length (visit_next st') \<le> Suc (length (visit_next st))"
proof (cases "v \<in> set (visited st)")
  case True
  then have "relax_edge s u lo (v, w) st = Some st" by (simp add: relax_edge_def)
  moreover have "relaxed st u lo [(v, w)]"
    using True inv unfolding heap_inv_def relaxed_def by (force intro: le_trans)
  ultimately show thesis using that inv by auto
next
  case False
  show thesis
  proof (cases "\<exists>old. st_get (scores st) v = Some old \<and> old \<le> lo + w")
    case True
    then show thesis using that [of st] inv False by (auto simp: relax_edge_def relaxed_def)
  next
    case F: False
    then have less: "\<And>old. st_get (scores st) v = Some old \<Longrightarrow> lo + w < old" by force
    obtain st' where t: "take_edge s u v (lo + w) st = Some st'" "heap_inv edges s lo {u} st'" "lowers u st st'"
      "st_get (scores st') v = Some (lo + w)" "length (visit_next st') = Suc (length (visit_next st))"
      using take_edge_ok [OF inv u e False less] .
    have "relax_edge s u lo (v, w) st = Some st'"
      using t(1) False less by (auto simp: relax_edge_def Let_def split: option.split)
    then show thesis using that [of st'] t by (simp add: relaxed_def)
  qed
qed

lemma relax_edges_ok:
  assumes "heap_inv edges s lo {u} st" "st_get (scores st) u = Some lo" "u \<notin> set (visited st)" "set es \<subseteq> set (edges u)"
  shows "\<exists>st'. relax_edges s u lo es st = Some st' \<and> heap_inv edges s lo {u} st' \<and> lowers u st st'
    \<and> relaxed st' u lo es \<and> length (visit_next st') \<le> length es + length (visit_next st)"
  using assms
proof (induction es arbitrary: st)
  case (Cons e es)
  obtain v w where e: "e = (v, w)" by force
  obtain st1 where s1: "relax_edge s u lo e st = Some st1" "heap_inv edges s lo {u} st1" "lowers u st st1"
      "relaxed st1 u lo [e]" "length (visit_next st1) \<le> Suc (length (visit_next st))"
    using relax_edge_ok [OF Cons.prems(1-3), of v w] Cons.prems(4) unfolding e by auto
  have "st_get (scores st1) u = Some lo" "u \<notin> set (visited st1)"
    using s1(3) Cons.prems(2,3) by (auto simp: lowers_def)
  then obtain st2 where s2: "relax_edges s u lo es st1 = Some st2" "heap_inv edges s lo {u} st2" "lowers u st1 st2"
      "relaxed st2 u lo es" "length (visit_next st2) \<le> length es + length (visit_next st1)"
    using Cons.IH [OF s1(2)] Cons.prems(4) by auto
  have "relaxed st2 u lo (e # es)"
    using s2(4) relaxed_lowers [OF s1(4) s2(3)] by (auto simp: relaxed_def)
  then show ?case using s1 s2 lowers_trans [OF s1(3) s2(3)] by auto
qed (simp add: relaxed_def)

section \<open>Rounds of the loop\<close>

text \<open>Any walk either ends at a finished node that is not costlier, or has passed an unfinished node
  with a recorded score that is not costlier.\<close>

lemma walk_frontier:
  assumes "walk edges s p v c" and inv: "dijkstra_inv edges s lo st"
  shows "(\<exists>d. v \<in> set (visited st) \<and> st_get (scores st) v = Some d \<and> d \<le> c)
    \<or> (\<exists>x d. x \<notin> set (visited st) \<and> st_get (scores st) x = Some d \<and> d \<le> c)"
  using assms(1)
proof (induction rule: walk.induct)
  case walk_start
  have "st_get (scores st) s = Some 0" using inv by (simp add: dijkstra_inv_def heap_inv_def)
  then show ?case by (cases "s \<in> set (visited st)") auto
next
  case (walk_step p u c v w)
  show ?case
  proof (cases "\<exists>d. u \<in> set (visited st) \<and> st_get (scores st) u = Some d \<and> d \<le> c")
    case True
    then obtain d where d: "u \<in> set (visited st)" "st_get (scores st) u = Some d" "d \<le> c" by blast
    then have "relaxed st u d (edges u)" using inv unfolding dijkstra_inv_def by force
    then obtain e where "st_get (scores st) v = Some e" "e \<le> d + w" using walk_step.hyps(2) by (auto simp: relaxed_def)
    then show ?thesis using d(3) by (cases "v \<in> set (visited st)") (auto intro!: exI [of _ v])
  next
    case False
    then show ?thesis using walk_step.IH by (meson trans_le_add1)
  qed
qed

lemma dijkstra_init_inv: "dijkstra_inv edges s 0 (dijkstra_init s)"
  by (auto simp: dijkstra_inv_def heap_inv_def recorded_def dijkstra_init_def store_simps walk_start split: if_splits)

lemma pop_least:
  assumes "pops_least pop" "pop h = Some (x, h')"
  shows "set h = insert x (set h')" "length h = Suc (length h')" "y \<in> set h \<Longrightarrow> fst x \<le> fst y"
proof -
  have "mset h = add_mset x (mset h')" using assms unfolding pops_least_def by blast
  then show "set h = insert x (set h')" "length h = Suc (length h')"
    by (metis set_mset_add_mset_insert set_mset_mset, metis size_add_mset size_mset)
  show "y \<in> set h \<Longrightarrow> fst x \<le> fst y" using assms unfolding pops_least_def by blast
qed

lemma skip_inv:
  assumes "pops_least pop" "dijkstra_inv edges s lo st" "pop (visit_next st) = Some ((k, u), h)" "u \<in> set (visited st)"
  shows "dijkstra_inv edges s lo (st\<lparr>visit_next := h\<rparr>)"
  using assms(2,4) pop_least(1) [OF assms(1,3)]
  by (auto simp: dijkstra_inv_def heap_inv_def recorded_def relaxed_def)

text \<open>The popped entry of an unfinished node carries its recorded score, which is its distance.\<close>

lemma popped_score:
  assumes pl: "pops_least pop" and inv: "dijkstra_inv edges s lo st" and pop: "pop (visit_next st) = Some ((k, u), h)"
    and u: "u \<notin> set (visited st)"
  shows "st_get (scores st) u = Some k" "walk edges s p u c \<Longrightarrow> k \<le> c" "lo \<le> k"
proof -
  note pp = pop_least [OF pl pop]
  have frontier: "k \<le> d" if "x \<notin> set (visited st)" "st_get (scores st) x = Some d" for x d
  proof -
    have "(d, x) \<in> set (visit_next st)" using inv that by (auto simp: dijkstra_inv_def heap_inv_def)
    then show ?thesis using pp(3) by fastforce
  qed
  have entry: "lo \<le> k" "\<exists>d. st_get (scores st) u = Some d \<and> d \<le> k"
    using inv pp(1) by (auto simp: dijkstra_inv_def heap_inv_def)
  then show "lo \<le> k" "st_get (scores st) u = Some k" using frontier [OF u] by force+
  show "k \<le> c" if "walk edges s p u c"
    using walk_frontier [OF that inv] u frontier by (meson le_trans)
qed

lemma visit_inv:
  assumes pl: "pops_least pop" and inv: "dijkstra_inv edges s lo st" and pop: "pop (visit_next st) = Some ((k, u), h)"
    and u: "u \<notin> set (visited st)"
  obtains st2 where "relax_edges s u k (edges u) (st\<lparr>visit_next := h\<rparr>) = Some st2"
    "dijkstra_inv edges s k (st2\<lparr>visited := u # visited st2\<rparr>)" "visited st2 = visited st"
    "length (visit_next st2) \<le> length (edges u) + length h"
proof -
  let ?st1 = "st\<lparr>visit_next := h\<rparr>"
  note sc = popped_score [OF pl inv pop u] and pp = pop_least [OF pl pop]
  have ent: "lo \<le> j \<and> (\<exists>d. st_get (scores st) v = Some d \<and> d \<le> j)" "k \<le> j" if "(j, v) \<in> set h" for j v
    using that inv pp(1) pp(3) [of "(j, v)"] by (auto simp: dijkstra_inv_def heap_inv_def)
  have opn: "(d, v) \<in> set h" if "v \<notin> insert u (set (visited st))" "st_get (scores st) v = Some d" for v d
    using that inv pp(1) by (auto simp: dijkstra_inv_def heap_inv_def)
  have fin: "\<exists>d. st_get (scores st) v = Some d \<and> d \<le> k" if "v \<in> set (visited st)" for v
    using that inv sc(3) by (auto simp: dijkstra_inv_def heap_inv_def intro: le_trans)
  have "heap_inv edges s k {u} ?st1"
    using inv ent opn fin by (auto simp: dijkstra_inv_def heap_inv_def recorded_def)
  from relax_edges_ok [OF this, of "edges u"] sc(1) u obtain st2 where
    s2: "relax_edges s u k (edges u) ?st1 = Some st2" "heap_inv edges s k {u} st2" "lowers u ?st1 st2" "relaxed st2 u k (edges u)"
      "length (visit_next st2) \<le> length (edges u) + length h" by auto
  let ?st3 = "st2\<lparr>visited := u # visited st2\<rparr>"
  have vis: "visited st2 = visited st" and same: "\<And>x. x \<in> insert u (set (visited st)) \<Longrightarrow> st_get (scores st2) x = st_get (scores st) x"
    using s2(3) by (auto simp: lowers_def)
  have rel: "relaxed ?st3 x d es \<longleftrightarrow> relaxed st2 x d es" for x d es by (simp add: relaxed_def)
  have "\<exists>d. st_get (scores ?st3) x = Some d \<and> relaxed ?st3 x d (edges x) \<and> (\<forall>p c. walk edges s p x c \<longrightarrow> d \<le> c)"
    if "x \<in> set (visited ?st3)" for x
  proof (cases "x = u")
    case True
    then show ?thesis using sc(1,2) s2(4) same [of u] by (simp add: rel)
  next
    case False
    then have x: "x \<in> set (visited st)" using that vis by simp
    then obtain d where d: "st_get (scores st) x = Some d" "relaxed st x d (edges x)" "\<forall>p c. walk edges s p x c \<longrightarrow> d \<le> c"
      using inv unfolding dijkstra_inv_def by blast
    have "relaxed ?st1 x d (edges x)" using d(2) by (simp add: relaxed_def)
    from relaxed_lowers [OF this s2(3)] d same [of x] x show ?thesis by (simp add: rel)
  qed
  moreover have "heap_inv edges s k {} ?st3"
    using s2(2) same [of u] sc(1) by (auto simp: heap_inv_def recorded_def)
  ultimately show thesis using that s2(1,5) vis by (simp add: dijkstra_inv_def)
qed

section \<open>The loop returns shortest paths\<close>

text \<open>Every round takes an entry off the heap and pays for new entries with the edges of a node that
  has not been finished before.\<close>

definition loop_measure :: "'n edges \<Rightarrow> 'n set \<Rightarrow> 'n dijkstra_state \<Rightarrow> nat" where
  "loop_measure edges V st = length (visit_next st) + (\<Sum>v \<in> V - set (visited st). length (edges v))"

definition edge_closed :: "'n edges \<Rightarrow> 'n set \<Rightarrow> bool" where
  "edge_closed edges V \<longleftrightarrow> (\<forall>x \<in> V. fst ` set (edges x) \<subseteq> V)"

lemma walk_closed:
  assumes "walk edges s p v c" "s \<in> V" "edge_closed edges V"
  shows "v \<in> V"
  using assms(1) by (induction rule: walk.induct) (use assms(2,3) in \<open>force simp: edge_closed_def\<close>)+

lemma dijkstra_loop_returns:
  assumes pl: "pops_least pop" and fin: "finite V" "s \<in> V" "edge_closed edges V"
    and inv: "dijkstra_inv edges s lo st"
  shows "\<exists>st' lo'. dijkstra_loop pop edges s st = Some st' \<and> dijkstra_inv edges s lo' st' \<and> visit_next st' = []"
  using inv
proof (induction "loop_measure edges V st" arbitrary: st lo rule: less_induct)
  case less
  show ?case
  proof (cases "pop (visit_next st)")
    case None
    then have "visit_next st = []" using pl by (simp add: pops_least_def)
    then show ?thesis using None less.prems by (subst dijkstra_loop.simps) auto
  next
    case (Some x)
    then obtain k u h where pop: "pop (visit_next st) = Some ((k, u), h)" by (metis prod.exhaust)
    note pp = pop_least [OF pl pop]
    show ?thesis
    proof (cases "u \<in> set (visited st)")
      case True
      have "loop_measure edges V (st\<lparr>visit_next := h\<rparr>) < loop_measure edges V st"
        using pp(2) by (simp add: loop_measure_def)
      from less.hyps [OF this skip_inv [OF pl less.prems pop True]] pop True
      show ?thesis by (subst dijkstra_loop.simps) simp
    next
      case False
      obtain st2 where s2: "relax_edges s u k (edges u) (st\<lparr>visit_next := h\<rparr>) = Some st2"
          "dijkstra_inv edges s k (st2\<lparr>visited := u # visited st2\<rparr>)" "visited st2 = visited st"
          "length (visit_next st2) \<le> length (edges u) + length h"
        using visit_inv [OF pl less.prems pop False] .
      obtain p where "walk edges s p u k"
        using recordedD [OF _ popped_score(1) [OF pl less.prems pop False]] less.prems unfolding dijkstra_inv_def by blast
      then have "u \<in> V" by (rule walk_closed [OF _ fin(2,3)])
      then have "(\<Sum>v \<in> V - set (visited st). length (edges v))
          = length (edges u) + (\<Sum>v \<in> V - set (visited st) - {u}. length (edges v))"
        using fin(1) False by (intro sum.remove) auto
      moreover have "V - insert u (set (visited st)) = V - set (visited st) - {u}" by auto
      ultimately have "loop_measure edges V (st2\<lparr>visited := u # visited st2\<rparr>) < loop_measure edges V st"
        using pp(2) s2(3,4) by (simp add: loop_measure_def)
      from less.hyps [OF this s2(2)] s2(1) pop False show ?thesis by (subst dijkstra_loop.simps) simp
    qed
  qed
qed

lemma dijkstra_correct:
  assumes "pops_least pop" and "finite V" and "s \<in> V" and "edge_closed edges V"
  shows "\<exists>sc fh. dijkstra_with_first_hop pop edges s = Some (sc, fh)
    \<and> (\<forall>v. (st_get sc v = None) = (\<nexists>p c. walk edges s p v c))
    \<and> (\<forall>v d. st_get sc v = Some d \<longrightarrow> (\<forall>p c. walk edges s p v c \<longrightarrow> d \<le> c)
        \<and> (\<exists>p h. walk edges s p v d \<and> st_get fh v = Some (h, length p) \<and> (if v = s then p = [] else p \<noteq> [] \<and> h = hd p)))"
proof -
  obtain st lo where st: "dijkstra_loop pop edges s (dijkstra_init s) = Some st" "dijkstra_inv edges s lo st" "visit_next st = []"
    using dijkstra_loop_returns [OF assms dijkstra_init_inv] by blast
  have unv: "st_get (scores st) x = None" if "x \<notin> set (visited st)" for x
    using st(2,3) that by (cases "st_get (scores st) x") (auto simp: dijkstra_inv_def heap_inv_def)
  have least: "\<exists>d. st_get (scores st) v = Some d \<and> d \<le> c" if "walk edges s p v c" for v p c
    using walk_frontier [OF that st(2)] unv by auto
  have rec: "\<exists>p h. walk edges s p v d \<and> st_get (first_hop st) v = Some (h, length p) \<and> (if v = s then p = [] else p \<noteq> [] \<and> h = hd p)"
    if "st_get (scores st) v = Some d" for v d
    using recordedD [OF _ that] st(2) unfolding dijkstra_inv_def by (metis (no_types))
  have "(st_get (scores st) v = None) = (\<nexists>p c. walk edges s p v c)" for v
    using least rec by (cases "st_get (scores st) v") fastforce+
  moreover have "d \<le> c" if "st_get (scores st) v = Some d" "walk edges s p v c" for v d p c
    using least [OF that(2)] that(1) by simp
  ultimately show ?thesis
    using st(1) rec by (simp add: dijkstra_with_first_hop_def)
qed

text \<open>
  C28: the router's path computation is correct.  On a graph whose nodes reachable from the start form a
  finite set, with any heap that pops a least entry, the computation returns, without a panic.  A node
  has a score exactly when a walk leads to it; the score is then the least cost of all walks to it, and
  the recorded first hop and hop count are the first node and the number of edges of a walk of that
  cost, for the start node of the empty walk.
\<close>

theorem dijkstra_shortest_first_hop:
  assumes "pops_least pop" and "finite V" and "s \<in> V" and "edge_closed edges V"
  shows "\<exists>sc fh. dijkstra_with_first_hop pop edges s = Some (sc, fh)
    \<and> (\<forall>v. (st_get sc v = None) = (\<nexists>p c. walk edges s p v c))
    \<and> (\<forall>v d. st_get sc v = Some d \<longrightarrow> (\<forall>p c. walk edges s p v c \<longrightarrow> d \<le> c)
        \<and> (\<exists>p h. walk edges s p v d \<and> st_get fh v = Some (h, length p) \<and> (if v = s then p = [] else p \<noteq> [] \<and> h = hd p)))"
  by (rule dijkstra_correct [OF assms])

section \<open>A concrete network\<close>

fun pop_first_least :: "'n heap_pop" where
  "pop_first_least [] = None"
| "pop_first_least (x # xs) = (case pop_first_least xs of
     None \<Rightarrow> Some (x, [])
   | Some (y, ys) \<Rightarrow> if fst x \<le> fst y then Some (x, xs) else Some (y, x # ys))"

lemma pop_first_least_correct: "pops_least pop_first_least"
proof -
  have "(pop_first_least h = None \<longleftrightarrow> h = [])
      \<and> (\<forall>x h'. pop_first_least h = Some (x, h') \<longrightarrow> mset h = add_mset x (mset h') \<and> (\<forall>y \<in> set h. fst x \<le> fst y))"
    for h :: "(nat \<times> 'a) list"
  proof (induction h)
    case (Cons a h)
    then show ?case by (cases "pop_first_least h") (fastforce split: if_splits)+
  qed simp
  then show ?thesis by (simp add: pops_least_def)
qed

definition toy_edges :: "nat edges" where
  "toy_edges n = (if n = 0 then [(1, 10), (2, 1)] else if n = 2 then [(1, 2)] else [])"

theorem dijkstra_shortest_first_hop_witness:
  "\<exists>sc fh p. dijkstra_with_first_hop pop_first_least toy_edges 0 = Some (sc, fh) \<and> st_get sc 7 = None
    \<and> (\<exists>d. st_get sc 1 = Some d \<and> d \<le> 3) \<and> walk toy_edges 0 p 1 3"
proof -
  have "walk toy_edges 0 ([] @ [2]) 2 (0 + 1)" by (rule walk_step [OF walk_start]) (simp add: toy_edges_def)
  then have w: "walk toy_edges 0 (([] @ [2]) @ [1]) 1 ((0 + 1) + 2)" by (rule walk_step) (simp add: toy_edges_def)
  have closed: "edge_closed toy_edges {0, 1, 2}" by (auto simp: edge_closed_def toy_edges_def)
  have no: "\<not> walk toy_edges 0 p 7 c" for p c
    using walk_closed [OF _ _ closed, of 0 p 7 c] by auto
  obtain sc fh where r: "dijkstra_with_first_hop pop_first_least toy_edges 0 = Some (sc, fh)"
      "\<forall>v. (st_get sc v = None) = (\<nexists>p c. walk toy_edges 0 p v c)"
      "\<forall>v d. st_get sc v = Some d \<longrightarrow> (\<forall>p c. walk toy_edges 0 p v c \<longrightarrow> d \<le> c)
        \<and> (\<exists>p h. walk toy_edges 0 p v d \<and> st_get fh v = Some (h, length p) \<and> (if v = 0 then p = [] else p \<noteq> [] \<and> h = hd p))"
    using dijkstra_shortest_first_hop [OF pop_first_least_correct _ _ closed, of 0] by auto
  have w3: "walk toy_edges 0 [2, 1] 1 3" using w by (simp add: eval_nat_numeral)
  have "st_get sc 7 = None" using r(2) no by blast
  moreover obtain d where d: "st_get sc 1 = Some d" using r(2) w3 by (metis not_None_eq)
  moreover have "d \<le> 3" using r(3) d w3 by blast
  ultimately show ?thesis using r(1) w3 by blast
qed

end
