(* ===== verification/Credential_Manager.thy ===== *)
theory Credential_Manager
  imports Acl_Rules Encrypt "HOL-Library.List_Lexorder"
begin

text \<open>
  Credentials and trusted keys: the credential manager of \<^verbatim>\<open>peers/credential_manager.rs\<close>, the signed
  proofs of \<^verbatim>\<open>proto/peer_rpc.rs\<close> and the trusted-key table of \<^verbatim>\<open>common/global_ctx.rs\<close>.

  The clock, the random private key and the fresh identifier of an operation are arguments; the
  key arithmetic, base64, the JSON printer and parser, the protobuf encoding of a credential and the
  effect of a file write are the fields of \<open>cred_lib\<close>.  Times are \<^verbatim>\<open>i64\<close> and the sum of a time and a
  lifetime wraps, as in a release build.
\<close>

section \<open>Data\<close>

type_synonym i64 = "64 word"

record credential_entry =
  ce_pubkey :: string
  ce_secret :: string
  ce_groups :: "string list"
  ce_allow_relay :: bool
  ce_allowed_proxy_cidrs :: "string list"
  ce_reusable :: bool
  ce_expiry_unix :: i64
  ce_created_at_unix :: i64

record trusted_credential_pubkey =
  tc_pubkey :: bytes
  tc_groups :: "string list"
  tc_allow_relay :: bool
  tc_expiry_unix :: i64
  tc_allowed_proxy_cidrs :: "string list"
  tc_reusable :: "bool option"

record trusted_credential_pubkey_proof =
  tcp_credential :: "trusted_credential_pubkey option"
  tcp_credential_hmac :: bytes

record credential_info =
  ci_credential_id :: string
  ci_groups :: "string list"
  ci_allow_relay :: bool
  ci_expiry_unix :: i64
  ci_allowed_proxy_cidrs :: "string list"
  ci_reusable :: "bool option"

type_synonym credential_map = "(string, credential_entry) store"

record cred_lib =
  b64_encode :: "bytes \<Rightarrow> string"
  b64_decode :: "string \<Rightarrow> bytes option"
  x25519_public :: "bytes \<Rightarrow> bytes"
  json_print :: "credential_map \<Rightarrow> string option"
  json_parse :: "string \<Rightarrow> credential_map option"
  credential_encode :: "trusted_credential_pubkey \<Rightarrow> bytes"
  fs_write :: "string \<Rightarrow> string \<Rightarrow> (string \<Rightarrow> string option) \<Rightarrow> string \<Rightarrow> string option"

text \<open>The manager together with the readable files of the host.\<close>

record credential_manager =
  credentials :: credential_map
  storage_path :: "string option"
  disk :: "string \<Rightarrow> string option"

section \<open>Signed proofs\<close>

text \<open>\<^verbatim>\<open>str::as_bytes\<close>: the UTF-8 bytes of the code points a \<^typ>\<open>char\<close> stands for.\<close>

definition utf8_char :: "char \<Rightarrow> bytes" where
  "utf8_char c = (let n = (of_char c :: nat) in
     if n < 128 then [of_nat n] else [of_nat (192 + n div 64), of_nat (128 + n mod 64)])"

definition as_bytes :: "string \<Rightarrow> bytes" where
  "as_bytes s = concat (map utf8_char s)"

record peer_group_info =
  group_name :: string
  group_proof :: bytes

definition group_data_to_sign :: "string \<Rightarrow> u32 \<Rightarrow> bytes" where
  "group_data_to_sign name peer = as_bytes name @ [0] @ to_be_bytes 4 peer"

definition generate_with_proof :: "crypto \<Rightarrow> string \<Rightarrow> string \<Rightarrow> u32 \<Rightarrow> peer_group_info" where
  "generate_with_proof cr name gsecret peer =
     \<lparr>group_name = name, group_proof = hmac_sha256 cr (as_bytes gsecret) (group_data_to_sign name peer)\<rparr>"

definition group_verify :: "crypto \<Rightarrow> peer_group_info \<Rightarrow> string \<Rightarrow> u32 \<Rightarrow> bool" where
  "group_verify cr g gsecret peer \<longleftrightarrow>
     group_proof g = hmac_sha256 cr (as_bytes gsecret) (group_data_to_sign (group_name g) peer)"

definition credential_hmac_from_bytes :: "crypto \<Rightarrow> bytes \<Rightarrow> string \<Rightarrow> bytes" where
  "credential_hmac_from_bytes cr cbytes nsecret =
     hmac_sha256 cr (as_bytes nsecret) (as_bytes ''easytier credential proof'' @ cbytes)"

definition generate_credential_hmac :: "crypto \<Rightarrow> cred_lib \<Rightarrow> trusted_credential_pubkey \<Rightarrow> string \<Rightarrow> bytes" where
  "generate_credential_hmac cr L c nsecret = credential_hmac_from_bytes cr (credential_encode L c) nsecret"

definition new_signed :: "crypto \<Rightarrow> cred_lib \<Rightarrow> trusted_credential_pubkey \<Rightarrow> string \<Rightarrow> trusted_credential_pubkey_proof" where
  "new_signed cr L c nsecret = \<lparr>tcp_credential = Some c, tcp_credential_hmac = generate_credential_hmac cr L c nsecret\<rparr>"

definition verify_credential_hmac_with_bytes :: "crypto \<Rightarrow> trusted_credential_pubkey_proof \<Rightarrow> bytes \<Rightarrow> string \<Rightarrow> bool" where
  "verify_credential_hmac_with_bytes cr p cbytes nsecret \<longleftrightarrow>
     (if tcp_credential_hmac p = [] then False
      else tcp_credential_hmac p = hmac_sha256 cr (as_bytes nsecret) (as_bytes ''easytier credential proof'' @ cbytes))"

definition verify_credential_hmac :: "crypto \<Rightarrow> cred_lib \<Rightarrow> trusted_credential_pubkey_proof \<Rightarrow> string \<Rightarrow> bool" where
  "verify_credential_hmac cr L p nsecret = (case tcp_credential p of
     None \<Rightarrow> False
   | Some c \<Rightarrow> verify_credential_hmac_with_bytes cr p (credential_encode L c) nsecret)"

section \<open>The credential manager\<close>

definition is_active_at :: "credential_entry \<Rightarrow> i64 \<Rightarrow> bool" where
  "is_active_at e now \<longleftrightarrow> sint (ce_expiry_unix e) > sint now"

definition decode_pubkey_b64 :: "cred_lib \<Rightarrow> string \<Rightarrow> bytes option" where
  "decode_pubkey_b64 L s = (case b64_decode L s of
     None \<Rightarrow> None
   | Some d \<Rightarrow> if length d \<noteq> 32 then None else Some d)"

definition to_trusted_credential :: "cred_lib \<Rightarrow> credential_entry \<Rightarrow> trusted_credential_pubkey option" where
  "to_trusted_credential L e = do {
     pk \<leftarrow> decode_pubkey_b64 L (ce_pubkey e);
     Some \<lparr>tc_pubkey = pk, tc_groups = ce_groups e, tc_allow_relay = ce_allow_relay e,
           tc_expiry_unix = ce_expiry_unix e, tc_allowed_proxy_cidrs = ce_allowed_proxy_cidrs e,
           tc_reusable = Some (ce_reusable e)\<rparr>
   }"

definition to_api_credential_info :: "credential_entry \<Rightarrow> string \<Rightarrow> credential_info" where
  "to_api_credential_info e cid = \<lparr>ci_credential_id = cid, ci_groups = ce_groups e,
     ci_allow_relay = ce_allow_relay e, ci_expiry_unix = ce_expiry_unix e,
     ci_allowed_proxy_cidrs = ce_allowed_proxy_cidrs e, ci_reusable = Some (ce_reusable e)\<rparr>"

definition save_to_disk :: "cred_lib \<Rightarrow> credential_manager \<Rightarrow> credential_manager" where
  "save_to_disk L m = (case storage_path m of
     None \<Rightarrow> m
   | Some path \<Rightarrow> (case json_print L (credentials m) of
       None \<Rightarrow> m
     | Some json \<Rightarrow> m\<lparr>disk := fs_write L path json (disk m)\<rparr>))"

definition load_from_disk :: "cred_lib \<Rightarrow> credential_manager \<Rightarrow> credential_manager" where
  "load_from_disk L m = (case storage_path m of
     None \<Rightarrow> m
   | Some path \<Rightarrow> (case disk m path of
       None \<Rightarrow> m
     | Some dat \<Rightarrow> (case json_parse L dat of
         Some loaded \<Rightarrow> m\<lparr>credentials := loaded\<rparr>
       | None \<Rightarrow> m)))"

definition manager_new :: "cred_lib \<Rightarrow> string option \<Rightarrow> (string \<Rightarrow> string option) \<Rightarrow> credential_manager" where
  "manager_new L path files = load_from_disk L \<lparr>credentials = [], storage_path = path, disk = files\<rparr>"

definition remove_expired_credentials_at :: "cred_lib \<Rightarrow> i64 \<Rightarrow> credential_manager \<Rightarrow> bool \<times> credential_manager" where
  "remove_expired_credentials_at L now m =
     (let before = length (credentials m);
          kept = st_retain (\<lambda>_ e. is_active_at e now) (credentials m);
          removed = (before \<noteq> length kept);
          m1 = m\<lparr>credentials := kept\<rparr>
      in (removed, if removed then save_to_disk L m1 else m1))"

definition build_entry :: "cred_lib \<Rightarrow> bytes \<Rightarrow> i64 \<Rightarrow> string list \<Rightarrow> bool \<Rightarrow> string list \<Rightarrow> bool \<Rightarrow> u64 \<Rightarrow> credential_entry \<times> string" where
  "build_entry L private now groups allow_relay cidrs reusable ttl =
     (let pubkey = b64_encode L (x25519_public L private);
          secret = b64_encode L private;
          expiry = now + ttl
      in (\<lparr>ce_pubkey = pubkey, ce_secret = secret, ce_groups = groups, ce_allow_relay = allow_relay,
           ce_allowed_proxy_cidrs = cidrs, ce_reusable = reusable, ce_expiry_unix = expiry,
           ce_created_at_unix = now\<rparr>, secret))"

text \<open>The outcome of asking for an identifier: an existing credential, or the identifier to use.\<close>

definition requested_id :: "credential_map \<Rightarrow> string option \<Rightarrow> string \<Rightarrow> (string \<times> string) + string" where
  "requested_id creds cid uuid = (case cid of
     None \<Rightarrow> Inr uuid
   | Some x \<Rightarrow>
       let i = trim x
       in if i = [] then Inr uuid
          else (case st_get creds i of
                  Some e \<Rightarrow> if ce_secret e \<noteq> [] then Inl (i, ce_secret e) else Inr i
                | None \<Rightarrow> Inr i))"

definition generate_credential_with_options ::
  "cred_lib \<Rightarrow> i64 \<Rightarrow> i64 \<Rightarrow> bytes \<Rightarrow> string \<Rightarrow> string list \<Rightarrow> bool \<Rightarrow> string list \<Rightarrow> u64 \<Rightarrow> string option \<Rightarrow> bool
   \<Rightarrow> credential_manager \<Rightarrow> (string \<times> string) \<times> credential_manager" where
  "generate_credential_with_options L now1 now2 private uuid groups allow_relay cidrs ttl cid reusable m =
     (let m1 = snd (remove_expired_credentials_at L now1 m)
      in case requested_id (credentials m1) cid uuid of
           Inl found \<Rightarrow> (found, m1)
         | Inr i \<Rightarrow>
             let (e, secret) = build_entry L private now2 groups allow_relay cidrs reusable ttl
             in ((i, secret), save_to_disk L (m1\<lparr>credentials := st_insert i e (credentials m1)\<rparr>)))"

definition generate_credential_with_id ::
  "cred_lib \<Rightarrow> i64 \<Rightarrow> i64 \<Rightarrow> bytes \<Rightarrow> string \<Rightarrow> string list \<Rightarrow> bool \<Rightarrow> string list \<Rightarrow> u64 \<Rightarrow> string option
   \<Rightarrow> credential_manager \<Rightarrow> (string \<times> string) \<times> credential_manager" where
  "generate_credential_with_id L now1 now2 private uuid groups allow_relay cidrs ttl cid m =
     generate_credential_with_options L now1 now2 private uuid groups allow_relay cidrs ttl cid True m"

definition generate_credential ::
  "cred_lib \<Rightarrow> i64 \<Rightarrow> i64 \<Rightarrow> bytes \<Rightarrow> string \<Rightarrow> string list \<Rightarrow> bool \<Rightarrow> string list \<Rightarrow> u64
   \<Rightarrow> credential_manager \<Rightarrow> (string \<times> string) \<times> credential_manager" where
  "generate_credential L now1 now2 private uuid groups allow_relay cidrs ttl m =
     generate_credential_with_options L now1 now2 private uuid groups allow_relay cidrs ttl None True m"

definition revoke_credential :: "cred_lib \<Rightarrow> string \<Rightarrow> credential_manager \<Rightarrow> bool \<times> credential_manager" where
  "revoke_credential L cid m =
     (let removed = (st_get (credentials m) cid \<noteq> None);
          m1 = m\<lparr>credentials := st_remove cid (credentials m)\<rparr>
      in (removed, if removed then save_to_disk L m1 else m1))"

definition get_trusted_pubkeys :: "crypto \<Rightarrow> cred_lib \<Rightarrow> i64 \<Rightarrow> string \<Rightarrow> credential_manager \<Rightarrow> trusted_credential_pubkey_proof list" where
  "get_trusted_pubkeys cr L now nsecret m =
     List.map_filter (\<lambda>e. map_option (\<lambda>c. new_signed cr L c nsecret) (to_trusted_credential L e))
       (filter (\<lambda>e. is_active_at e now) (map snd (credentials m)))"

definition manager_is_pubkey_trusted :: "cred_lib \<Rightarrow> i64 \<Rightarrow> bytes \<Rightarrow> credential_manager \<Rightarrow> bool" where
  "manager_is_pubkey_trusted L now pubkey m =
     list_ex (\<lambda>e. ce_pubkey e = b64_encode L pubkey \<and> is_active_at e now) (map snd (credentials m))"

definition list_credentials :: "i64 \<Rightarrow> credential_manager \<Rightarrow> credential_info list" where
  "list_credentials now m =
     map (\<lambda>(cid, e). to_api_credential_info e cid) (filter (\<lambda>(_, e). is_active_at e now) (credentials m))"

section \<open>Trusted keys of the networks\<close>

datatype trusted_key_source = Ospf_Node | Ospf_Credential

record trusted_key_metadata =
  tk_source :: trusted_key_source
  tk_expiry_unix :: "i64 option"

type_synonym trusted_key_map = "(bytes, trusted_key_metadata) store"
type_synonym network_trusted_keys = "(string, trusted_key_map) store"

definition is_expired :: "i64 \<Rightarrow> trusted_key_metadata \<Rightarrow> bool" where
  "is_expired now md = (case tk_expiry_unix md of
     Some expiry \<Rightarrow> sint now \<ge> sint expiry
   | None \<Rightarrow> False)"

definition update_trusted_keys :: "string \<Rightarrow> trusted_key_map \<Rightarrow> network_trusted_keys \<Rightarrow> network_trusted_keys" where
  "update_trusted_keys network keys m = st_insert network keys m"

definition remove_trusted_keys :: "string \<Rightarrow> network_trusted_keys \<Rightarrow> network_trusted_keys" where
  "remove_trusted_keys network m = st_remove network m"

definition verify_trusted_key_with_source ::
  "i64 \<Rightarrow> bytes \<Rightarrow> string \<Rightarrow> trusted_key_source option \<Rightarrow> network_trusted_keys \<Rightarrow> bool" where
  "verify_trusted_key_with_source now pubkey network src m = (case st_get m network of
     None \<Rightarrow> False
   | Some keys \<Rightarrow> (case st_get keys pubkey of
       None \<Rightarrow> False
     | Some md \<Rightarrow> (case src of
         Some s \<Rightarrow> tk_source md = s \<and> \<not> is_expired now md
       | None \<Rightarrow> \<not> is_expired now md)))"

definition verify_trusted_key :: "i64 \<Rightarrow> bytes \<Rightarrow> string \<Rightarrow> network_trusted_keys \<Rightarrow> bool" where
  "verify_trusted_key now pubkey network m = verify_trusted_key_with_source now pubkey network None m"

definition list_trusted_keys :: "i64 \<Rightarrow> string \<Rightarrow> network_trusted_keys \<Rightarrow> (bytes \<times> trusted_key_metadata) list" where
  "list_trusted_keys now network m = (case st_get m network of
     None \<Rightarrow> []
   | Some keys \<Rightarrow> sort_key fst (filter (\<lambda>(_, md). \<not> is_expired now md) keys))"

record trust_ctx =
  ctx_network_name :: string
  ctx_trusted_keys :: network_trusted_keys
  ctx_credential_manager :: credential_manager

definition is_pubkey_trusted :: "cred_lib \<Rightarrow> i64 \<Rightarrow> i64 \<Rightarrow> bytes \<Rightarrow> string \<Rightarrow> trust_ctx \<Rightarrow> bool" where
  "is_pubkey_trusted L now1 now2 pubkey network ctx =
     (if verify_trusted_key now1 pubkey network (ctx_trusted_keys ctx) then True
      else if network = ctx_network_name ctx
        then manager_is_pubkey_trusted L now2 pubkey (ctx_credential_manager ctx)
      else False)"

definition is_pubkey_trusted_with_source :: "i64 \<Rightarrow> bytes \<Rightarrow> string \<Rightarrow> trusted_key_source \<Rightarrow> trust_ctx \<Rightarrow> bool" where
  "is_pubkey_trusted_with_source now pubkey network src ctx =
     verify_trusted_key_with_source now pubkey network (Some src) (ctx_trusted_keys ctx)"

section \<open>What the libraries promise\<close>

text \<open>A written map is read back with the same bindings, and a map that is read has distinct keys.\<close>

definition json_lossless :: "cred_lib \<Rightarrow> bool" where
  "json_lossless L \<longleftrightarrow> (\<forall>m. st_wf m \<longrightarrow> (\<exists>j m'. json_print L m = Some j \<and> json_parse L j = Some m' \<and> st_get m' = st_get m))
     \<and> (\<forall>j m. json_parse L j = Some m \<longrightarrow> st_wf m)"

definition writes_succeed :: "cred_lib \<Rightarrow> bool" where
  "writes_succeed L \<longleftrightarrow> (\<forall>p s d. fs_write L p s d = d(p \<mapsto> s))"

definition b64_inverse :: "cred_lib \<Rightarrow> bool" where
  "b64_inverse L \<longleftrightarrow> (\<forall>x. b64_decode L (b64_encode L x) = Some x) \<and> (\<forall>x. b64_encode L x = [] \<longrightarrow> x = [])"

lemma b64_encode_eq_iff: "b64_inverse L \<Longrightarrow> b64_encode L x = b64_encode L y \<longleftrightarrow> x = y"
  unfolding b64_inverse_def by (metis option.inject)

section \<open>Persistence\<close>

text \<open>The file is in step with the memory: a restart finds the bindings the manager has.\<close>

definition persisted :: "cred_lib \<Rightarrow> credential_manager \<Rightarrow> bool" where
  "persisted L m \<longleftrightarrow> st_wf (credentials m)
     \<and> (storage_path m \<noteq> None \<longrightarrow> st_get (credentials (manager_new L (storage_path m) (disk m))) = st_get (credentials m))"

lemma st_get_eq_SomeD: "st_get m k = Some v \<Longrightarrow> (k, v) \<in> set m"
  by (simp add: st_get_def map_of_SomeD)

lemma st_get_in_set: "st_wf m \<Longrightarrow> (k, v) \<in> set m \<longleftrightarrow> st_get m k = Some v"
  by (simp add: st_get_def st_wf_def)

lemma save_to_disk_simps [simp]:
  "credentials (save_to_disk L m) = credentials m" "storage_path (save_to_disk L m) = storage_path m"
  by (simp_all add: save_to_disk_def split: option.splits)

lemma manager_new_simps [simp]: "storage_path (manager_new L p d) = p" "disk (manager_new L p d) = d"
  by (simp_all add: manager_new_def load_from_disk_def split: option.splits)

lemma manager_new_wf: "json_lossless L \<Longrightarrow> st_wf (credentials (manager_new L p d))"
  by (auto simp: manager_new_def load_from_disk_def json_lossless_def store_simps split: option.splits)

lemma save_to_disk_persisted:
  assumes "json_lossless L" "writes_succeed L" "st_wf (credentials m)"
  shows "persisted L (save_to_disk L m)"
proof -
  obtain j m' where "json_print L (credentials m) = Some j" "json_parse L j = Some m'" "st_get m' = st_get (credentials m)"
    using assms unfolding json_lossless_def by blast
  with assms(2,3) show ?thesis
    by (auto simp: persisted_def save_to_disk_def writes_succeed_def manager_new_def load_from_disk_def split: option.splits)
qed

lemma manager_new_persisted: "json_lossless L \<Longrightarrow> persisted L (manager_new L p d)"
  by (simp add: persisted_def manager_new_wf)

lemma persisted_cong:
  "persisted L m \<Longrightarrow> st_wf c \<Longrightarrow> st_get c = st_get (credentials m) \<Longrightarrow> persisted L (m\<lparr>credentials := c\<rparr>)"
  by (simp add: persisted_def)

lemma st_retain_same_length: "length (st_retain P m) = length m \<Longrightarrow> st_retain P m = m"
  by (metis filter_True length_filter_less linorder_neq_iff st_retain_def)

lemma persisted_wf: "persisted L m \<Longrightarrow> st_wf (credentials m)"
  by (simp add: persisted_def)

lemma remove_expired_persisted:
  assumes "json_lossless L" "writes_succeed L" "persisted L m"
  shows "persisted L (snd (remove_expired_credentials_at L now m))"
proof (cases "length (credentials m) = length (st_retain (\<lambda>_ e. is_active_at e now) (credentials m))")
  case True
  then show ?thesis
    using assms(3) st_retain_same_length [OF True [symmetric]] by (simp add: remove_expired_credentials_at_def Let_def)
next
  case False
  then show ?thesis
    using assms by (simp add: remove_expired_credentials_at_def Let_def save_to_disk_persisted persisted_wf store_simps)
qed

lemma revoke_persisted:
  assumes "json_lossless L" "writes_succeed L" "persisted L m"
  shows "persisted L (snd (revoke_credential L cid m))"
proof (cases "st_get (credentials m) cid")
  case None
  then have "st_get (st_remove cid (credentials m)) = st_get (credentials m)" by (auto simp: store_simps fun_eq_iff)
  with None assms(3) show ?thesis
    by (simp add: revoke_credential_def persisted_cong persisted_def store_simps)
next
  case (Some e)
  with assms show ?thesis
    by (simp add: revoke_credential_def save_to_disk_persisted persisted_def [of L m] store_simps)
qed

lemma generate_persisted:
  assumes "json_lossless L" "writes_succeed L" "persisted L m"
  shows "persisted L (snd (generate_credential_with_options L now1 now2 k u g r c t i re m))"
  using remove_expired_persisted [OF assms, of now1] assms(1,2)
  by (simp add: generate_credential_with_options_def Let_def split_def store_simps persisted_wf save_to_disk_persisted
      split: sum.split)

section \<open>Histories of a manager\<close>

text \<open>The calls that change a manager; \<open>Restart\<close> is a new process that reads the same file.\<close>

datatype cred_event =
    Generate i64 i64 bytes string "string list" bool "string list" u64 "string option" bool
  | Revoke string
  | Remove_Expired i64
  | Restart

fun cred_apply :: "cred_lib \<Rightarrow> cred_event \<Rightarrow> credential_manager \<Rightarrow> credential_manager" where
  "cred_apply L (Generate now1 now2 k u g r c t i re) m = snd (generate_credential_with_options L now1 now2 k u g r c t i re m)"
| "cred_apply L (Revoke cid) m = snd (revoke_credential L cid m)"
| "cred_apply L (Remove_Expired now) m = snd (remove_expired_credentials_at L now m)"
| "cred_apply L Restart m = manager_new L (storage_path m) (disk m)"

definition cred_run :: "cred_lib \<Rightarrow> cred_event list \<Rightarrow> credential_manager \<Rightarrow> credential_manager" where
  "cred_run L evs m = fold (cred_apply L) evs m"

lemma cred_apply_wf: "json_lossless L \<Longrightarrow> st_wf (credentials m) \<Longrightarrow> st_wf (credentials (cred_apply L ev m))"
  by (cases ev) (simp_all add: generate_credential_with_options_def revoke_credential_def remove_expired_credentials_at_def
      Let_def split_def store_simps manager_new_wf split: sum.split)

lemma cred_run_wf: "json_lossless L \<Longrightarrow> st_wf (credentials m) \<Longrightarrow> st_wf (credentials (cred_run L evs m))"
  unfolding cred_run_def by (induction evs arbitrary: m) (simp_all add: cred_apply_wf)

lemma cred_apply_persisted:
  "json_lossless L \<Longrightarrow> writes_succeed L \<Longrightarrow> persisted L m \<Longrightarrow> persisted L (cred_apply L ev m)"
  by (cases ev) (simp_all add: generate_persisted revoke_persisted remove_expired_persisted manager_new_persisted)

lemma cred_run_persisted:
  "json_lossless L \<Longrightarrow> writes_succeed L \<Longrightarrow> persisted L m \<Longrightarrow> persisted L (cred_run L evs m)"
  unfolding cred_run_def by (induction evs arbitrary: m) (simp_all add: cred_apply_persisted)

text \<open>The time at which an event prunes expired credentials, the key it may create and the identifier
  it falls back to.\<close>

fun prune_time :: "cred_event \<Rightarrow> i64 option" where
  "prune_time (Generate now1 _ _ _ _ _ _ _ _ _) = Some now1"
| "prune_time (Remove_Expired now) = Some now"
| "prune_time _ = None"

fun makes_key :: "cred_lib \<Rightarrow> bytes \<Rightarrow> cred_event \<Rightarrow> bool" where
  "makes_key L pk (Generate _ _ k _ _ _ _ _ _ _) \<longleftrightarrow> x25519_public L k = pk"
| "makes_key L pk _ \<longleftrightarrow> False"

fun fresh_id :: "cred_event \<Rightarrow> string option" where
  "fresh_id (Generate _ _ _ u _ _ _ _ _ _) = Some u"
| "fresh_id _ = None"

definition ends_credential :: "string \<Rightarrow> i64 \<Rightarrow> cred_event \<Rightarrow> bool" where
  "ends_credential i expiry ev \<longleftrightarrow> ev = Revoke i \<or> (case prune_time ev of Some t \<Rightarrow> sint expiry \<le> sint t | None \<Rightarrow> False)"

subsection \<open>One event\<close>

lemma get_remove_expired:
  assumes "st_wf (credentials m)"
  shows "st_get (credentials (snd (remove_expired_credentials_at L now m))) i = Some e
    \<longleftrightarrow> st_get (credentials m) i = Some e \<and> is_active_at e now"
  using assms by (simp add: remove_expired_credentials_at_def Let_def st.get_retain_Some_iff)

lemma get_revoke:
  "st_get (credentials (snd (revoke_credential L cid m))) i = (if i = cid then None else st_get (credentials m) i)"
  by (simp add: revoke_credential_def Let_def store_simps)

lemma get_generate:
  "st_get (credentials (snd (generate_credential_with_options L now1 now2 k u g r c t cid re m))) i =
     (let m1 = snd (remove_expired_credentials_at L now1 m)
      in if requested_id (credentials m1) cid u = Inr i then Some (fst (build_entry L k now2 g r c re t))
         else st_get (credentials m1) i)"
  by (auto simp: generate_credential_with_options_def Let_def split_def store_simps split: sum.split)

lemma storage_path_apply [simp]: "storage_path (cred_apply L ev m) = storage_path m"
  by (cases ev) (simp_all add: generate_credential_with_options_def revoke_credential_def
      remove_expired_credentials_at_def Let_def split_def split: sum.split)

lemma storage_path_run [simp]: "storage_path (cred_run L evs m) = storage_path m"
  unfolding cred_run_def by (induction evs arbitrary: m) simp_all

lemma build_entry_simps [simp]:
  "ce_pubkey (fst (build_entry L k now g r c re t)) = b64_encode L (x25519_public L k)"
  "ce_secret (fst (build_entry L k now g r c re t)) = b64_encode L k"
  "ce_expiry_unix (fst (build_entry L k now g r c re t)) = now + t"
  by (simp_all add: build_entry_def Let_def)

text \<open>A history survives its restarts if there are none, or if the file exists, is in step and stays so.\<close>

definition restarts_safely :: "cred_lib \<Rightarrow> cred_event list \<Rightarrow> credential_manager \<Rightarrow> bool" where
  "restarts_safely L evs m \<longleftrightarrow> Restart \<in> set evs \<longrightarrow> writes_succeed L \<and> storage_path m \<noteq> None \<and> persisted L m"

lemma restarts_safely_step:
  "json_lossless L \<Longrightarrow> restarts_safely L (ev # evs) m \<Longrightarrow> restarts_safely L evs (cred_apply L ev m)"
  by (auto simp: restarts_safely_def cred_apply_persisted)

definition key_absent :: "cred_lib \<Rightarrow> bytes \<Rightarrow> credential_manager \<Rightarrow> bool" where
  "key_absent L pk m \<longleftrightarrow> (\<forall>i e. st_get (credentials m) i = Some e \<longrightarrow> ce_pubkey e \<noteq> b64_encode L pk)"

text \<open>The entry \<open>e\<close> under \<open>i\<close> is the only one with its key, and its secret is known.\<close>

definition key_held :: "cred_lib \<Rightarrow> bytes \<Rightarrow> string \<Rightarrow> credential_entry \<Rightarrow> credential_manager \<Rightarrow> bool" where
  "key_held L pk i e m \<longleftrightarrow> st_get (credentials m) i = Some e \<and> ce_pubkey e = b64_encode L pk \<and> ce_secret e \<noteq> []
     \<and> (\<forall>j e'. j \<noteq> i \<longrightarrow> st_get (credentials m) j = Some e' \<longrightarrow> ce_pubkey e' \<noteq> b64_encode L pk)"

lemma restart_get:
  "restarts_safely L (Restart # evs) m \<Longrightarrow> st_get (credentials (cred_apply L Restart m)) = st_get (credentials m)"
  by (simp add: restarts_safely_def persisted_def)

lemma key_absent_step:
  assumes "b64_inverse L" "st_wf (credentials m)" "restarts_safely L (ev # evs) m" "key_absent L pk m" "\<not> makes_key L pk ev"
  shows "key_absent L pk (cred_apply L ev m)"
proof (cases ev)
  case (Generate now1 now2 k u g r c t cid re)
  with assms show ?thesis
    by (auto simp: key_absent_def get_generate get_remove_expired Let_def b64_encode_eq_iff split: if_splits)
next
  case (Revoke cid)
  with assms show ?thesis by (auto simp: key_absent_def get_revoke)
next
  case (Remove_Expired now)
  with assms show ?thesis by (auto simp: key_absent_def get_remove_expired)
next
  case Restart
  with assms(4) restart_get [of L evs m] assms(3) show ?thesis by (simp add: key_absent_def)
qed

lemma requested_id_held:
  "st_get c i = Some e \<Longrightarrow> ce_secret e \<noteq> [] \<Longrightarrow> u \<noteq> i \<Longrightarrow> requested_id c cid u \<noteq> Inr i"
  by (auto simp: requested_id_def Let_def split: option.splits)

lemma key_held_step:
  assumes "b64_inverse L" "st_wf (credentials m)" "restarts_safely L (ev # evs) m" "key_held L pk i e m"
    and "\<not> makes_key L pk ev" "fresh_id ev \<noteq> Some i" "\<not> ends_credential i (ce_expiry_unix e) ev"
  shows "key_held L pk i e (cred_apply L ev m)"
proof (cases ev)
  case (Generate now1 now2 k u g r c t cid re)
  let ?m1 = "snd (remove_expired_credentials_at L now1 m)"
  have e: "st_get (credentials ?m1) i = Some e" "ce_secret e \<noteq> []"
    using assms Generate by (simp_all add: key_held_def get_remove_expired ends_credential_def is_active_at_def)
  then have "requested_id (credentials ?m1) cid u \<noteq> Inr i"
    using assms(6) Generate by (intro requested_id_held) auto
  with e assms Generate show ?thesis
    by (auto simp: key_held_def get_generate get_remove_expired Let_def b64_encode_eq_iff split: if_splits)
next
  case (Revoke cid)
  with assms show ?thesis by (auto simp: key_held_def get_revoke ends_credential_def)
next
  case (Remove_Expired now)
  with assms show ?thesis by (auto simp: key_held_def get_remove_expired ends_credential_def is_active_at_def)
next
  case Restart
  with assms(4) restart_get [of L evs m] assms(3) show ?thesis by (simp add: key_held_def)
qed

lemma key_ends_step:
  assumes "b64_inverse L" "st_wf (credentials m)" "restarts_safely L (ev # evs) m" "key_held L pk i e m"
    and "\<not> makes_key L pk ev" "ends_credential i (ce_expiry_unix e) ev"
  shows "key_absent L pk (cred_apply L ev m)"
proof (cases ev)
  case (Generate now1 now2 k u g r c t cid re)
  let ?m1 = "snd (remove_expired_credentials_at L now1 m)"
  have "\<not> is_active_at e now1" using assms(6) Generate by (simp add: ends_credential_def is_active_at_def)
  then have "st_get (credentials ?m1) i \<noteq> Some x" for x
    using assms(4) get_remove_expired [OF assms(2), of L now1 i x] by (auto simp: key_held_def)
  then have none: "st_get (credentials ?m1) i = None" by (meson not_None_eq)
  have "key_absent L pk ?m1" unfolding key_absent_def
  proof (intro allI impI)
    fix j e' assume j: "st_get (credentials ?m1) j = Some e'"
    with none have "j \<noteq> i" by auto
    with j assms(4) get_remove_expired [OF assms(2)] show "ce_pubkey e' \<noteq> b64_encode L pk" by (simp add: key_held_def)
  qed
  with assms(1,5) Generate show ?thesis
    by (simp add: key_absent_def get_generate Let_def b64_encode_eq_iff)
next
  case (Revoke cid)
  with assms(4,6) show ?thesis by (simp add: key_held_def key_absent_def get_revoke ends_credential_def)
next
  case (Remove_Expired now)
  then have "\<not> is_active_at e now" using assms(6) by (simp add: ends_credential_def is_active_at_def)
  then have "j \<noteq> i" if "st_get (credentials m) j = Some e'" "is_active_at e' now" for j e'
    using assms(4) that by (auto simp: key_held_def)
  with Remove_Expired assms(4) show ?thesis
    by (simp add: key_held_def key_absent_def get_remove_expired [OF assms(2)]) blast
next
  case Restart
  with assms show ?thesis by (simp add: ends_credential_def)
qed

subsection \<open>Whole histories\<close>

lemma key_absent_run:
  assumes "json_lossless L" "b64_inverse L"
    and "st_wf (credentials m)" "restarts_safely L evs m" "key_absent L pk m" "\<forall>ev \<in> set evs. \<not> makes_key L pk ev"
  shows "key_absent L pk (cred_run L evs m)"
  using assms(3-) unfolding cred_run_def
proof (induction evs arbitrary: m)
  case (Cons ev evs)
  have "key_absent L pk (cred_apply L ev m)"
    by (rule key_absent_step [OF assms(2) Cons.prems(1,2,3)]) (use Cons.prems(4) in simp)
  with Cons.IH [OF cred_apply_wf restarts_safely_step] Cons.prems assms(1) show ?case by simp
qed simp

lemma key_held_run:
  assumes laws: "json_lossless L" "b64_inverse L"
    and "st_wf (credentials m)" "restarts_safely L evs m" "key_held L pk i e m"
    and "\<forall>ev \<in> set evs. \<not> makes_key L pk ev \<and> fresh_id ev \<noteq> Some i"
  shows "if \<exists>ev \<in> set evs. ends_credential i (ce_expiry_unix e) ev then key_absent L pk (cred_run L evs m)
         else key_held L pk i e (cred_run L evs m)"
  using assms(3-)
proof (induction evs arbitrary: m)
  case Nil
  then show ?case by (simp add: cred_run_def)
next
  case (Cons ev evs)
  have w: "st_wf (credentials (cred_apply L ev m))" by (rule cred_apply_wf [OF laws(1) Cons.prems(1)])
  have s: "restarts_safely L evs (cred_apply L ev m)" by (rule restarts_safely_step [OF laws(1) Cons.prems(2)])
  have run: "cred_run L (ev # evs) m = cred_run L evs (cred_apply L ev m)" by (simp add: cred_run_def)
  show ?case
  proof (cases "ends_credential i (ce_expiry_unix e) ev")
    case True
    have "key_absent L pk (cred_apply L ev m)"
      by (rule key_ends_step [OF laws(2) Cons.prems(1,2,3) _ True]) (use Cons.prems(4) in simp)
    with True Cons.prems w s show ?thesis by (auto simp: run intro!: key_absent_run laws)
  next
    case False
    have "key_held L pk i e (cred_apply L ev m)"
      by (rule key_held_step [OF laws(2) Cons.prems(1,2,3) _ _ False]) (use Cons.prems(4) in simp_all)
    with False Cons.prems w s Cons.IH [of "cred_apply L ev m"] show ?thesis by (simp add: run)
  qed
qed

lemma manager_trusted_iff:
  assumes "st_wf (credentials m)"
  shows "manager_is_pubkey_trusted L now pk m \<longleftrightarrow>
    (\<exists>i e. st_get (credentials m) i = Some e \<and> ce_pubkey e = b64_encode L pk \<and> is_active_at e now)"
  using st_get_in_set [OF assms] by (force simp: manager_is_pubkey_trusted_def list_ex_iff)

lemma key_absent_untrusted: "st_wf (credentials m) \<Longrightarrow> key_absent L pk m \<Longrightarrow> \<not> manager_is_pubkey_trusted L now pk m"
  by (auto simp: manager_trusted_iff key_absent_def)

lemma key_held_trusted:
  assumes "st_wf (credentials m)" "key_held L pk i e m"
  shows "manager_is_pubkey_trusted L now pk m \<longleftrightarrow> is_active_at e now"
proof
  assume "manager_is_pubkey_trusted L now pk m"
  then obtain j e' where j: "st_get (credentials m) j = Some e'" "ce_pubkey e' = b64_encode L pk" "is_active_at e' now"
    using manager_trusted_iff [OF assms(1)] by blast
  with assms(2) have "j = i" unfolding key_held_def by blast
  with j assms(2) show "is_active_at e now" by (simp add: key_held_def)
next
  assume "is_active_at e now"
  with assms(2) show "manager_is_pubkey_trusted L now pk m"
    unfolding manager_trusted_iff [OF assms(1)] key_held_def by blast
qed

lemma generated_key_held:
  assumes "b64_inverse L" "st_wf (credentials m)" "key_absent L (x25519_public L k) m" "k \<noteq> []"
    and "requested_id (credentials (snd (remove_expired_credentials_at L now1 m))) cid u = Inr i"
  shows "key_held L (x25519_public L k) i (fst (build_entry L k now2 g r c re t))
    (snd (generate_credential_with_options L now1 now2 k u g r c t cid re m))"
  using assms by (auto simp: key_held_def get_generate Let_def key_absent_def get_remove_expired b64_inverse_def)

text \<open>
  C29: the life of a credential.  Take a manager with any history, and let it generate a credential for a
  key it does not hold, under an identifier that no later call draws again.  Whatever calls follow,
  short of generating the same key again, the key is trusted exactly as long as its credential
  has not been revoked, no call has pruned it after its end, and the end, the wrapped sum of creation
  time and lifetime, is still ahead.  Restarts of the daemon may be among the calls only if the manager
  has a storage file and every write to it succeeds: without a file a restart loses the key, and
  a failed write is only logged.  Without restarts neither is needed.
\<close>

theorem credential_lifetime:
  assumes "json_lossless L" and "b64_inverse L"
    and "Restart \<in> set evs \<longrightarrow> path \<noteq> None \<and> writes_succeed L"
    and "m = cred_run L evs0 (manager_new L path files)"
    and "key_absent L (x25519_public L k) m" and "k \<noteq> []"
    and "requested_id (credentials (snd (remove_expired_credentials_at L now1 m))) cid u = Inr i"
    and "\<forall>ev \<in> set evs. \<not> makes_key L (x25519_public L k) ev \<and> fresh_id ev \<noteq> Some i"
  shows "manager_is_pubkey_trusted L now (x25519_public L k)
      (cred_run L evs (snd (generate_credential_with_options L now1 now2 k u g r c ttl cid re m)))
    \<longleftrightarrow> (\<forall>ev \<in> set evs. \<not> ends_credential i (now2 + ttl) ev) \<and> sint now < sint (now2 + ttl)"
proof -
  let ?pk = "x25519_public L k" and ?e = "fst (build_entry L k now2 g r c re ttl)"
  let ?ev = "Generate now1 now2 k u g r c ttl cid re"
  let ?m1 = "cred_apply L ?ev m"
  have wm: "st_wf (credentials m)" unfolding assms(4) by (intro cred_run_wf manager_new_wf assms(1))
  have w1: "st_wf (credentials ?m1)" by (rule cred_apply_wf [OF assms(1) wm])
  have w2: "st_wf (credentials (cred_run L evs ?m1))" by (rule cred_run_wf [OF assms(1) w1])
  have "restarts_safely L (?ev # evs) m"
    using assms(1,3,4) by (auto simp: restarts_safely_def intro!: cred_run_persisted manager_new_persisted)
  from restarts_safely_step [OF assms(1) this] have s: "restarts_safely L evs ?m1" .
  have h: "key_held L ?pk i ?e ?m1" using generated_key_held [OF assms(2) wm assms(5,6,7)] by simp
  from key_held_run [OF assms(1,2) w1 s h assms(8)] show ?thesis
    using key_absent_untrusted [OF w2, of L ?pk now] key_held_trusted [OF w2, of L ?pk i ?e now]
    by (auto simp: is_active_at_def split: if_splits)
qed

subsection \<open>Published proofs\<close>

lemma new_signed_verifies:
  "length (hmac_sha256 cr (as_bytes nsecret) (as_bytes ''easytier credential proof'' @ credential_encode L c)) = 32
   \<Longrightarrow> verify_credential_hmac cr L (new_signed cr L c nsecret) nsecret"
  by (auto simp: verify_credential_hmac_def verify_credential_hmac_with_bytes_def new_signed_def
      generate_credential_hmac_def credential_hmac_from_bytes_def)

lemma set_map_filter: "set (List.map_filter f xs) = {y. \<exists>x \<in> set xs. f x = Some y}"
  by (induction xs) (auto simp: List.map_filter_simps split: option.splits)

lemma get_trusted_pubkeys_iff:
  assumes "st_wf (credentials m)"
  shows "p \<in> set (get_trusted_pubkeys cr L now nsecret m) \<longleftrightarrow>
    (\<exists>i e c. st_get (credentials m) i = Some e \<and> is_active_at e now \<and> to_trusted_credential L e = Some c \<and> p = new_signed cr L c nsecret)"
  using st_get_in_set [OF assms] unfolding get_trusted_pubkeys_def set_map_filter by force

section \<open>A concrete library\<close>

text \<open>A self-delimiting text format that reads back every map it prints, in the place of JSON.\<close>

definition put_nat :: "nat \<Rightarrow> string" where
  "put_nat n = replicate n CHR ''1'' @ ''0''"

definition get_nat :: "string \<Rightarrow> nat \<times> string" where
  "get_nat s = (length (takeWhile (\<lambda>c. c = CHR ''1'') s), tl (dropWhile (\<lambda>c. c = CHR ''1'') s))"

fun get_many :: "(string \<Rightarrow> 'a \<times> string) \<Rightarrow> nat \<Rightarrow> string \<Rightarrow> 'a list \<times> string" where
  "get_many g 0 s = ([], s)"
| "get_many g (Suc n) s = (let (x, s1) = g s; (xs, s2) = get_many g n s1 in (x # xs, s2))"

definition put_list :: "('a \<Rightarrow> string) \<Rightarrow> 'a list \<Rightarrow> string" where
  "put_list p xs = put_nat (length xs) @ concat (map p xs)"

definition get_list :: "(string \<Rightarrow> 'a \<times> string) \<Rightarrow> string \<Rightarrow> 'a list \<times> string" where
  "get_list g s = (let (n, s1) = get_nat s in get_many g n s1)"

definition put_char :: "char \<Rightarrow> string" where
  "put_char c = [c]"

definition get_char :: "string \<Rightarrow> char \<times> string" where
  "get_char s = (hd s, tl s)"

text \<open>What a reader undoes.\<close>

definition reads :: "(string \<Rightarrow> 'a \<times> string) \<Rightarrow> ('a \<Rightarrow> string) \<Rightarrow> bool" where
  "reads g p \<longleftrightarrow> (\<forall>x r. g (p x @ r) = (x, r))"

lemma reads_nat: "reads get_nat put_nat"
proof -
  have "takeWhile (\<lambda>c. c = CHR ''1'') (replicate n CHR ''1'' @ CHR ''0'' # r) = replicate n CHR ''1''"
    "dropWhile (\<lambda>c. c = CHR ''1'') (replicate n CHR ''1'' @ CHR ''0'' # r) = CHR ''0'' # r" for n r
    by (induction n) simp_all
  then show ?thesis by (simp add: reads_def get_nat_def put_nat_def)
qed

lemma reads_char: "reads get_char put_char"
  by (simp add: reads_def get_char_def put_char_def)

lemma reads_list: "reads g p \<Longrightarrow> reads (get_list g) (put_list p)"
proof -
  assume g: "reads g p"
  then have "get_many g (length xs) (concat (map p xs) @ r) = (xs, r)" for xs r
    by (induction xs arbitrary: r) (simp_all add: reads_def)
  then show ?thesis using reads_nat by (simp add: reads_def get_list_def put_list_def)
qed

definition put_entry :: "credential_entry \<Rightarrow> string" where
  "put_entry e = put_list put_char (ce_pubkey e) @ put_list put_char (ce_secret e)
     @ put_list (put_list put_char) (ce_groups e) @ put_nat (of_bool (ce_allow_relay e))
     @ put_list (put_list put_char) (ce_allowed_proxy_cidrs e) @ put_nat (of_bool (ce_reusable e))
     @ put_nat (unat (ce_expiry_unix e)) @ put_nat (unat (ce_created_at_unix e))"

definition get_entry :: "string \<Rightarrow> credential_entry \<times> string" where
  "get_entry s = (let (pk, s) = get_list get_char s; (sec, s) = get_list get_char s;
     (gs, s) = get_list (get_list get_char) s; (ar, s) = get_nat s;
     (cs, s) = get_list (get_list get_char) s; (re, s) = get_nat s; (ex, s) = get_nat s; (cre, s) = get_nat s
   in (\<lparr>ce_pubkey = pk, ce_secret = sec, ce_groups = gs, ce_allow_relay = (ar = 1), ce_allowed_proxy_cidrs = cs,
        ce_reusable = (re = 1), ce_expiry_unix = of_nat ex, ce_created_at_unix = of_nat cre\<rparr>, s))"

lemma reads_entry: "reads get_entry put_entry"
  using reads_list [OF reads_char] reads_list [OF reads_list [OF reads_char]] reads_nat
  by (simp add: reads_def get_entry_def put_entry_def)

definition put_binding :: "string \<times> credential_entry \<Rightarrow> string" where
  "put_binding b = put_list put_char (fst b) @ put_entry (snd b)"

definition get_binding :: "string \<Rightarrow> (string \<times> credential_entry) \<times> string" where
  "get_binding s = (let (k, s) = get_list get_char s; (e, s) = get_entry s in ((k, e), s))"

lemma reads_binding: "reads get_binding put_binding"
  using reads_list [OF reads_char] reads_entry by (simp add: reads_def get_binding_def put_binding_def)

definition toy_cred_lib :: cred_lib where
  "toy_cred_lib = \<lparr>b64_encode = map (\<lambda>b. char_of (unat b)), b64_decode = (\<lambda>s. Some (map (\<lambda>c. of_nat (of_char c)) s)),
     x25519_public = rev, json_print = (\<lambda>m. Some (put_list put_binding m)),
     json_parse = (\<lambda>s. let m = fst (get_list get_binding s) in if st_wf m then Some m else None),
     credential_encode = tc_pubkey, fs_write = (\<lambda>p s d. d(p \<mapsto> s))\<rparr>"

lemma toy_cred_lib_laws: "json_lossless toy_cred_lib" "writes_succeed toy_cred_lib" "b64_inverse toy_cred_lib"
proof -
  have "fst (get_list get_binding (put_list put_binding m)) = m" for m
    using reads_list [OF reads_binding] by (metis append_Nil2 fst_conv reads_def)
  then show "json_lossless toy_cred_lib" by (auto simp: json_lossless_def toy_cred_lib_def Let_def split: if_splits)
  show "writes_succeed toy_cred_lib" by (simp add: writes_succeed_def toy_cred_lib_def)
  have "unat (b :: u8) < 256" for b using unsigned_less [of b] by simp
  then show "b64_inverse toy_cred_lib"
    by (simp add: b64_inverse_def toy_cred_lib_def comp_def of_char_of take_bit_nat_eq_self)
qed

theorem credential_lifetime_witness:
  "\<exists>m. manager_is_pubkey_trusted toy_cred_lib 50 [2, 1] (cred_run toy_cred_lib [Restart, Remove_Expired 109] m)
    \<and> \<not> manager_is_pubkey_trusted toy_cred_lib 110 [2, 1] (cred_run toy_cred_lib [Restart, Remove_Expired 109] m)
    \<and> \<not> manager_is_pubkey_trusted toy_cred_lib 50 [2, 1] (cred_run toy_cred_lib [Revoke ''id'', Restart] m)"
proof -
  let ?L = toy_cred_lib and ?new = "manager_new toy_cred_lib (Some ''f'') (\<lambda>_. None)"
  have new: "credentials ?new = []" by (simp add: manager_new_def load_from_disk_def)
  have pk: "x25519_public ?L [1, 2] = [2, 1]" by (simp add: toy_cred_lib_def)
  have req: "requested_id (credentials (snd (remove_expired_credentials_at ?L 10 ?new))) (Some ''id'') ''u'' = Inr ''id''"
    by (simp add: new remove_expired_credentials_at_def st_retain_def requested_id_def trim_def is_whitespace_def store_simps)
  have abs: "key_absent ?L (x25519_public ?L [1, 2]) ?new" by (simp add: key_absent_def new store_simps)
  have m: "?new = cred_run ?L [] ?new" by (simp add: cred_run_def)
  note life = credential_lifetime [OF toy_cred_lib_laws(1,3) _ m abs _ req, where ?now2.0 = 10 and ttl = 100 and g = "[]" and r = True and c = "[]" and re = True]
  have s: "sint (110::i64) = 110" "sint (50::i64) = 50" "sint (109::i64) = 109" by simp_all
  show ?thesis
    using life [of "[Restart, Remove_Expired 109]" 50] life [of "[Restart, Remove_Expired 109]" 110]
      life [of "[Revoke ''id'', Restart]" 50]
    by (intro exI) (auto simp: pk ends_credential_def s toy_cred_lib_laws(2))
qed

section \<open>Group membership proofs\<close>

lemma utf8_char_prefix_free:
  assumes "utf8_char c @ xs = utf8_char d @ ys"
  shows "c = d \<and> xs = ys"
proof -
  let ?m = "of_char c :: nat" and ?n = "of_char d :: nat"
  have lt: "?m < 256" "?n < 256" by simp_all
  have inj: "(of_nat a :: u8) = of_nat b \<longleftrightarrow> a = b" if "a < 256" "b < 256" for a b
    using that by (simp add: word_of_nat_eq_iff take_bit_nat_eq_self)
  have sub: "a div 64 < 4" if "a < 256" for a :: nat using that by (simp add: less_mult_imp_div_less)
  have "?m = ?n \<and> xs = ys"
  proof (cases "?m < 128")
    case True
    then show ?thesis
      using assms lt sub [OF lt(2)] by (auto simp: utf8_char_def Let_def inj simp del: of_nat_add split: if_splits)
  next
    case False
    then have "?m div 64 = ?n div 64 \<and> ?m mod 64 = ?n mod 64 \<and> xs = ys"
      using assms lt sub [OF lt(1)] sub [OF lt(2)] by (auto simp: utf8_char_def Let_def inj simp del: of_nat_add split: if_splits)
    then show ?thesis by (metis div_mult_mod_eq)
  qed
  then show ?thesis by (metis char_of_char)
qed

lemma str_bytes_inject: "as_bytes s = as_bytes t \<longleftrightarrow> s = t"
proof
  show "as_bytes s = as_bytes t \<Longrightarrow> s = t"
  proof (induction s arbitrary: t)
    case Nil
    then show ?case by (cases t) (auto simp: as_bytes_def utf8_char_def Let_def split: if_splits)
  next
    case (Cons c s)
    then obtain d t' where t: "t = d # t'"
      by (cases t) (auto simp: as_bytes_def utf8_char_def Let_def split: if_splits)
    with Cons.prems have "c = d \<and> as_bytes s = as_bytes t'"
      by (intro utf8_char_prefix_free) (simp add: as_bytes_def)
    with Cons.IH t show ?case by simp
  qed
qed simp

lemma to_be_bytes4_inject: "to_be_bytes 4 (p :: u32) = to_be_bytes 4 p' \<Longrightarrow> p = p'"
  using from_to_be_bytes [of 4 p] from_to_be_bytes [of 4 p'] by (simp add: to_be_bytes_def)

lemma group_data_to_sign_inject:
  "group_data_to_sign n p = group_data_to_sign n' p' \<longleftrightarrow> n = n' \<and> p = p'"
proof
  assume "group_data_to_sign n p = group_data_to_sign n' p'"
  then have "as_bytes n @ [0] = as_bytes n' @ [0] \<and> to_be_bytes 4 p = to_be_bytes 4 p'"
    unfolding group_data_to_sign_def append_assoc [symmetric] by (subst (asm) append_eq_append_conv) simp_all
  then show "n = n' \<and> p = p'" using to_be_bytes4_inject [of p p'] str_bytes_inject by blast
qed simp

text \<open>
  A membership proof binds group and peer.  Under a keyed hash without collisions for the group's
  secret, a proof made for one group name and peer is accepted for a name and peer exactly when they are
  the same: no other peer can replay it, and the delimiter keeps names apart from peer numbers.
\<close>

theorem group_proof_binds:
  assumes "inj (hmac_sha256 cr (as_bytes gsecret))"
  shows "group_verify cr ((generate_with_proof cr name gsecret peer)\<lparr>group_name := name'\<rparr>) gsecret peer'
    \<longleftrightarrow> name' = name \<and> peer' = peer"
  using inj_eq [OF assms] by (auto simp: group_verify_def generate_with_proof_def group_data_to_sign_inject)

theorem group_proof_binds_witness:
  "\<not> group_verify (toy_crypto\<lparr>hmac_sha256 := (@)\<rparr>) ((generate_with_proof (toy_crypto\<lparr>hmac_sha256 := (@)\<rparr>) ''ops'' ''s'' 7)\<lparr>group_name := ''ops''\<rparr>) ''s'' 8
   \<and> group_verify (toy_crypto\<lparr>hmac_sha256 := (@)\<rparr>) ((generate_with_proof (toy_crypto\<lparr>hmac_sha256 := (@)\<rparr>) ''ops'' ''s'' 7)\<lparr>group_name := ''ops''\<rparr>) ''s'' 7"
  using group_proof_binds [of "toy_crypto\<lparr>hmac_sha256 := (@)\<rparr>" "''s''" "''ops''" "''ops''" 7] by (simp add: inj_def)

section \<open>The listing of trusted keys\<close>

lemma list_trusted_keys_exact:
  assumes "\<And>network keys. st_get m network = Some keys \<Longrightarrow> st_wf keys"
  shows "sorted (map fst (list_trusted_keys now network m))" "distinct (map fst (list_trusted_keys now network m))"
    and "pk \<in> fst ` set (list_trusted_keys now network m) \<longleftrightarrow> verify_trusted_key now pk network m"
proof -
  show "sorted (map fst (list_trusted_keys now network m))"
    by (simp add: list_trusted_keys_def split: option.split)
  show "distinct (map fst (list_trusted_keys now network m))"
  proof (cases "st_get m network")
    case (Some keys)
    with assms have "distinct keys" "inj_on fst (set keys)" by (auto simp: st_wf_def distinct_map)
    with Some show ?thesis by (auto simp: list_trusted_keys_def distinct_map intro: inj_on_subset)
  qed (simp add: list_trusted_keys_def)
  show "pk \<in> fst ` set (list_trusted_keys now network m) \<longleftrightarrow> verify_trusted_key now pk network m"
  proof (cases "st_get m network")
    case (Some keys)
    have "pk \<in> fst ` set (list_trusted_keys now network m) \<longleftrightarrow> (\<exists>md. (pk, md) \<in> set keys \<and> \<not> is_expired now md)"
      using Some by (force simp: list_trusted_keys_def)
    with Some show ?thesis
      by (simp add: st_get_in_set [OF assms [OF Some]] verify_trusted_key_def verify_trusted_key_with_source_def split: option.split)
  qed (simp add: list_trusted_keys_def verify_trusted_key_def verify_trusted_key_with_source_def)
qed

end
