(* ===== verification/Ospf_Synced.thy ===== *)
theory Ospf_Synced
  imports Credential_Manager
begin

text \<open>
  The link-state database of the router: \<^verbatim>\<open>SyncedRouteInfo\<close> of \<^verbatim>\<open>peers/peer_ospf_route.rs\<close>.  It holds
  what every peer has announced (its route information, its direct connections, the foreign networks it
  serves), the groups and credentials derived from these announcements, and a version that grows
  with every change.

  Time is an argument of the operations: \<^verbatim>\<open>SystemTime\<close> and \<^verbatim>\<open>Timestamp\<close> are nanoseconds since the
  epoch, of type \<^typ>\<open>int\<close>.  A \<^verbatim>\<open>BTreeSet\<close> is a set, a \<^verbatim>\<open>HashMap\<close>, \<^verbatim>\<open>DashMap\<close> or
  \<^verbatim>\<open>OrderedHashMap\<close> a keyed store.  The dynamic protobuf messages in which unknown fields travel are
  of an arbitrary type \<open>'m\<close> with the operations of \<open>reflect_lib\<close>.
\<close>

section \<open>Data\<close>

type_synonym peer_id = u32
type_synonym stime = int

record peer_feature_flag =
  ff_is_public_server :: bool
  ff_avoid_relay_data :: bool
  ff_kcp_input :: bool
  ff_no_relay_kcp :: bool
  ff_support_conn_list_sync :: bool
  ff_quic_input :: bool
  ff_no_relay_quic :: bool
  ff_is_credential_peer :: bool
  ff_need_p2p :: bool
  ff_disable_p2p :: bool
  ff_ipv6_public_addr_provider :: bool

definition feature_flag_default :: peer_feature_flag where
  "feature_flag_default = \<lparr>ff_is_public_server = False, ff_avoid_relay_data = False, ff_kcp_input = False,
     ff_no_relay_kcp = False, ff_support_conn_list_sync = False, ff_quic_input = False, ff_no_relay_quic = False,
     ff_is_credential_peer = False, ff_need_p2p = False, ff_disable_p2p = False, ff_ipv6_public_addr_provider = False\<rparr>"

type_synonym ipv6_inet = "u128 option \<times> u32"

record route_peer_info =
  ri_peer_id :: peer_id
  ri_inst_id :: "u128 option"
  ri_cost :: u32
  ri_ipv4_addr :: "u32 option"
  ri_proxy_cidrs :: "string list"
  ri_hostname :: "string option"
  ri_udp_nat_type :: int
  ri_last_update :: "stime option"
  ri_version :: u32
  ri_easytier_version :: string
  ri_feature_flag :: "peer_feature_flag option"
  ri_peer_route_id :: u64
  ri_network_length :: u32
  ri_quic_port :: "u32 option"
  ri_ipv6_addr :: "ipv6_inet option"
  ri_groups :: "peer_group_info list"
  ri_tcp_nat_type :: int
  ri_noise_static_pubkey :: bytes
  ri_trusted_credential_pubkeys :: "trusted_credential_pubkey_proof list"
  ri_ipv6_public_addr_prefix :: "ipv6_inet option"
  ri_ipv6_public_addr_lease :: "ipv6_inet option"

record peer_id_version =
  pv_peer_id :: peer_id
  pv_version :: u32

record route_conn_bitmap =
  cb_peer_ids :: "peer_id_version list"
  cb_bitmap :: bytes

record peer_conn_info =
  pc_peer_id :: "peer_id_version option"
  pc_connected_peer_ids :: "peer_id list"

datatype conn_info = Conn_Bitmap route_conn_bitmap | Conn_Peer_List "peer_conn_info list"

record route_conn_info =
  rc_connected_peers :: "peer_id set"
  rc_version :: u32
  rc_last_update :: stime

record fn_key =
  fk_peer_id :: peer_id
  fk_network_name :: string

record fn_entry =
  fe_foreign_peer_ids :: "peer_id list"
  fe_last_update :: "stime option"
  fe_version :: u32
  fe_network_secret_digest :: bytes
  fe_my_peer_id_for_this_network :: peer_id

record fn_info =
  fi_key :: "fn_key option"
  fi_value :: "fn_entry option"

record group_identity =
  gi_group_name :: string
  gi_group_secret :: string

datatype sync_error = DuplicatePeerId | Stopped

text \<open>The values and the operations of dynamic messages the router uses.\<close>

datatype 'm reflect_value = VU32 u32 | VList "'m reflect_value list" | VMessage 'm | VOther

record 'm reflect_lib =
  get_field :: "'m \<Rightarrow> string \<Rightarrow> 'm reflect_value option"
  set_field :: "string \<Rightarrow> 'm reflect_value \<Rightarrow> 'm \<Rightarrow> 'm"
  transcode :: "route_peer_info \<Rightarrow> 'm"
  encode_to_vec :: "'m \<Rightarrow> bytes"

record 'm synced_route_info =
  si_peer_infos :: "(peer_id, route_peer_info) store"
  si_raw_peer_infos :: "(peer_id, 'm) store"
  si_conn_map :: "(peer_id, route_conn_info) store"
  si_foreign_network :: "(fn_key, fn_entry) store"
  si_group_trust_map :: "(peer_id, (string, bytes) store) store"
  si_group_trust_map_cache :: "(peer_id, string list) store"
  si_trusted_credential_pubkeys :: "(bytes, trusted_credential_pubkey) store"
  si_non_reusable_credential_owners :: "(bytes, peer_id) store"
  si_suppressed :: "(peer_id, unit) store"
  si_version :: u32

section \<open>Constants and small helpers\<close>

definition sec :: "int \<Rightarrow> stime" where
  "sec n = n * 1000000000"

definition UPDATE_PEER_INFO_PERIOD :: stime where
  "UPDATE_PEER_INFO_PERIOD = sec 3600"

definition duration_since :: "stime \<Rightarrow> stime \<Rightarrow> stime option" where
  "duration_since now t = (if t \<le> now then Some (now - t) else None)"

text \<open>The address ranges of a prefix, for \<^verbatim>\<open>first_address\<close> and \<^verbatim>\<open>last_address\<close>.\<close>

definition net_first :: "nat \<Rightarrow> 'a::len word \<Rightarrow> nat \<Rightarrow> 'a word" where
  "net_first w a len = a AND NOT (mask (w - len))"

definition net_last :: "nat \<Rightarrow> 'a::len word \<Rightarrow> nat \<Rightarrow> 'a word" where
  "net_last w a len = a OR mask (w - len)"

fun cidr_is_subset :: "ip_cidr \<Rightarrow> ip_cidr \<Rightarrow> bool" where
  "cidr_is_subset (CidrV4 c m) (CidrV4 p n) \<longleftrightarrow> net_first 32 p n \<le> net_first 32 c m \<and> net_last 32 c m \<le> net_last 32 p n"
| "cidr_is_subset (CidrV6 c m) (CidrV6 p n) \<longleftrightarrow> net_first 128 p n \<le> net_first 128 c m \<and> net_last 128 c m \<le> net_last 128 p n"
| "cidr_is_subset _ _ \<longleftrightarrow> False"

definition cidr_is_subset_str :: "cidr_lib \<Rightarrow> string \<Rightarrow> string \<Rightarrow> bool" where
  "cidr_is_subset_str cl child parent = (case cidr_parse cl child of
     None \<Rightarrow> False
   | Some c \<Rightarrow> (case cidr_parse cl parent of
       None \<Rightarrow> False
     | Some p \<Rightarrow> cidr_is_subset c p))"

fun value_as_list :: "'m reflect_value \<Rightarrow> 'm reflect_value list option" where
  "value_as_list (VList vs) = Some vs"
| "value_as_list _ = None"

fun value_as_message :: "'m reflect_value \<Rightarrow> 'm option" where
  "value_as_message (VMessage m) = Some m"
| "value_as_message _ = None"

fun value_as_u32 :: "'m reflect_value \<Rightarrow> u32 option" where
  "value_as_u32 (VU32 w) = Some w"
| "value_as_u32 _ = None"

definition patch_raw_from_info :: "'m reflect_lib \<Rightarrow> 'm \<Rightarrow> route_peer_info \<Rightarrow> string list \<Rightarrow> 'm" where
  "patch_raw_from_info R raw info names =
     fold (\<lambda>f m. case get_field R (transcode R info) f of Some v \<Rightarrow> set_field R f v m | None \<Rightarrow> m) names raw"

definition raw_credential_bytes_from_route_info :: "'m reflect_lib \<Rightarrow> 'm \<Rightarrow> nat \<Rightarrow> bytes option" where
  "raw_credential_bytes_from_route_info R raw idx = do {
     v \<leftarrow> get_field R raw ''trusted_credential_pubkeys'';
     l \<leftarrow> value_as_list v;
     p \<leftarrow> (if idx < length l then Some (l ! idx) else None);
     pm \<leftarrow> value_as_message p;
     c \<leftarrow> get_field R pm ''credential'';
     map_option (encode_to_vec R) (value_as_message c)
   }"

definition is_foreign_network_info_newer :: "fn_entry \<Rightarrow> fn_entry \<Rightarrow> bool option" where
  "is_foreign_network_info_newer next prev = do {
     n \<leftarrow> fe_last_update next;
     p \<leftarrow> fe_last_update prev;
     Some (n > p)
   }"

definition set_if_larger :: "u32 \<Rightarrow> u32 \<Rightarrow> bool \<times> u32" where
  "set_if_larger version cur = (cur < version, max cur version)"

definition route_peer_info_new :: "string \<Rightarrow> route_peer_info" where
  "route_peer_info_new easytier_version = \<lparr>ri_peer_id = 0, ri_inst_id = Some 0, ri_cost = 0, ri_ipv4_addr = None,
     ri_proxy_cidrs = [], ri_hostname = None, ri_udp_nat_type = 0, ri_last_update = None, ri_version = 0,
     ri_easytier_version = easytier_version, ri_feature_flag = None, ri_peer_route_id = 0, ri_network_length = 24,
     ri_quic_port = None, ri_ipv6_addr = None, ri_groups = [], ri_tcp_nat_type = 0, ri_noise_static_pubkey = [],
     ri_trusted_credential_pubkeys = [], ri_ipv6_public_addr_prefix = None, ri_ipv6_public_addr_lease = None\<rparr>"

definition try_update_new_peer_info :: "stime \<Rightarrow> route_peer_info \<Rightarrow> route_peer_info \<Rightarrow> bool \<times> route_peer_info" where
  "try_update_new_peer_info now old new =
     (let need_update_periodically = (case duration_since now (case ri_last_update old of Some t \<Rightarrow> t | None \<Rightarrow> 0) of
            Some d \<Rightarrow> d > UPDATE_PEER_INFO_PERIOD
          | None \<Rightarrow> True);
          new1 = new\<lparr>ri_version := ri_version old, ri_last_update := ri_last_update old\<rparr>
      in if new1 \<noteq> old \<or> need_update_periodically
         then (True, new1\<lparr>ri_version := ri_version new1 + 1\<rparr>) else (False, new1))"

section \<open>The connection bitmap\<close>

text \<open>\<^verbatim>\<open>self.bitmap[byte_idx]\<close> panics beyond the end.\<close>

definition get_bit :: "route_conn_bitmap \<Rightarrow> nat \<Rightarrow> bool option" where
  "get_bit b idx = (let byte_idx = idx div 8; bit_idx = idx mod 8
     in if byte_idx < length (cb_bitmap b) then Some (drop_bit bit_idx (cb_bitmap b ! byte_idx) AND 1 = 1) else None)"

fun collect_connected :: "route_conn_bitmap \<Rightarrow> nat \<Rightarrow> peer_id_version list \<Rightarrow> peer_id set option" where
  "collect_connected b pos [] = Some {}"
| "collect_connected b pos (p # ps) = do {
     x \<leftarrow> get_bit b pos;
     rest \<leftarrow> collect_connected b (Suc pos) ps;
     Some (if x then insert (pv_peer_id p) rest else rest)
   }"

definition get_connected_peers_at :: "route_conn_bitmap \<Rightarrow> nat \<Rightarrow> peer_id set option" where
  "get_connected_peers_at b peer_idx = collect_connected b (peer_idx * length (cb_peer_ids b)) (cb_peer_ids b)"

section \<open>Groups\<close>

definition set_peer_groups :: "peer_id \<Rightarrow> (string, bytes) store \<Rightarrow> 'm synced_route_info \<Rightarrow> 'm synced_route_info" where
  "set_peer_groups peer gs s =
     (if gs = [] then s\<lparr>si_group_trust_map := st_remove peer (si_group_trust_map s),
                        si_group_trust_map_cache := st_remove peer (si_group_trust_map_cache s)\<rparr>
      else s\<lparr>si_group_trust_map := st_insert peer gs (si_group_trust_map s),
             si_group_trust_map_cache := st_insert peer (map fst gs) (si_group_trust_map_cache s)\<rparr>)"

definition get_proof_groups :: "peer_id \<Rightarrow> 'm synced_route_info \<Rightarrow> (string, bytes) store" where
  "get_proof_groups peer s = (case st_get (si_group_trust_map s) peer of
     Some gs \<Rightarrow> filter (\<lambda>(_, proof). proof \<noteq> []) gs
   | None \<Rightarrow> [])"

definition update_my_group_trusts :: "peer_id \<Rightarrow> peer_group_info list \<Rightarrow> 'm synced_route_info \<Rightarrow> 'm synced_route_info" where
  "update_my_group_trusts my_peer gs s =
     set_peer_groups my_peer (fold (\<lambda>g m. st_insert (group_name g) (group_proof g) m) gs []) s"

section \<open>Roles\<close>

definition mark_credential_peer :: "bool \<Rightarrow> route_peer_info \<Rightarrow> route_peer_info" where
  "mark_credential_peer is_cred info =
     (let ff = (case ri_feature_flag info of Some f \<Rightarrow> f | None \<Rightarrow> feature_flag_default)
      in info\<lparr>ri_feature_flag := Some (ff\<lparr>ff_is_credential_peer := is_cred\<rparr>)\<rparr>)"

definition is_credential_peer_info :: "route_peer_info \<Rightarrow> bool" where
  "is_credential_peer_info info = (case ri_feature_flag info of Some f \<Rightarrow> ff_is_credential_peer f | None \<Rightarrow> False)"

definition is_admin_peer :: "route_peer_info \<Rightarrow> bool" where
  "is_admin_peer info \<longleftrightarrow> (if ri_version info = 0 then False else \<not> is_credential_peer_info info)"

definition is_credential_peer :: "peer_id \<Rightarrow> 'm synced_route_info \<Rightarrow> bool" where
  "is_credential_peer peer s = (case st_get (si_peer_infos s) peer of Some i \<Rightarrow> is_credential_peer_info i | None \<Rightarrow> False)"

definition credential_is_reusable :: "trusted_credential_pubkey \<Rightarrow> bool" where
  "credential_is_reusable c = (case tc_reusable c of Some b \<Rightarrow> b | None \<Rightarrow> True)"

section \<open>Credentials\<close>

definition credential_proof_is_valid ::
  "crypto \<Rightarrow> cred_lib \<Rightarrow> 'm reflect_lib \<Rightarrow> 'm option \<Rightarrow> nat \<Rightarrow> trusted_credential_pubkey_proof \<Rightarrow> string option \<Rightarrow> bool" where
  "credential_proof_is_valid cr L R raw idx proof nsecret = (case nsecret of
     Some secret \<Rightarrow>
       (case Option.bind raw (\<lambda>r. raw_credential_bytes_from_route_info R r idx) of
          Some bs \<Rightarrow> verify_credential_hmac_with_bytes cr proof bs secret
        | None \<Rightarrow> verify_credential_hmac cr L proof secret)
   | None \<Rightarrow> True)"

type_synonym trusted_pair = "(bytes, trusted_credential_pubkey) store \<times> trusted_key_map"

fun collect_proofs ::
  "crypto \<Rightarrow> cred_lib \<Rightarrow> 'm reflect_lib \<Rightarrow> 'm option \<Rightarrow> string option \<Rightarrow> i64 \<Rightarrow> nat
   \<Rightarrow> trusted_credential_pubkey_proof list \<Rightarrow> trusted_pair \<Rightarrow> trusted_pair" where
  "collect_proofs cr L R raw nsecret now idx [] acc = acc"
| "collect_proofs cr L R raw nsecret now idx (proof # proofs) acc =
     collect_proofs cr L R raw nsecret now (Suc idx) proofs
       (if \<not> credential_proof_is_valid cr L R raw idx proof nsecret then acc
        else (case tcp_credential proof of
          None \<Rightarrow> acc
        | Some c \<Rightarrow>
            if sint (tc_expiry_unix c) \<le> sint now then acc
            else (st_entry_or_insert (tc_pubkey c) c (fst acc),
                  st_insert (tc_pubkey c) \<lparr>tk_source = Ospf_Credential, tk_expiry_unix = Some (tc_expiry_unix c)\<rparr> (snd acc))))"

definition collect_peer ::
  "crypto \<Rightarrow> cred_lib \<Rightarrow> 'm reflect_lib \<Rightarrow> (peer_id, 'm) store \<Rightarrow> string option \<Rightarrow> i64
   \<Rightarrow> peer_id \<times> route_peer_info \<Rightarrow> trusted_pair \<Rightarrow> trusted_pair" where
  "collect_peer cr L R raws nsecret now p acc =
     (if \<not> is_admin_peer (snd p) then acc
      else let pk = ri_noise_static_pubkey (snd p);
               acc1 = (if pk \<noteq> [] then (fst acc, st_insert pk \<lparr>tk_source = Ospf_Node, tk_expiry_unix = None\<rparr> (snd acc)) else acc)
           in collect_proofs cr L R (st_get raws (fst p)) nsecret now 0 (ri_trusted_credential_pubkeys (snd p)) acc1)"

definition collect_trusted_credentials ::
  "crypto \<Rightarrow> cred_lib \<Rightarrow> 'm reflect_lib \<Rightarrow> string option \<Rightarrow> i64 \<Rightarrow> 'm synced_route_info \<Rightarrow> trusted_pair" where
  "collect_trusted_credentials cr L R nsecret now s =
     fold (collect_peer cr L R (si_raw_peer_infos s) nsecret now) (si_peer_infos s) ([], [])"

definition replace_trusted_credential_pubkeys ::
  "(bytes, trusted_credential_pubkey) store \<Rightarrow> 'm synced_route_info \<Rightarrow> bytes set \<times> 'm synced_route_info" where
  "replace_trusted_credential_pubkeys all_trusted s =
     (set (map fst (si_trusted_credential_pubkeys s)),
      s\<lparr>si_trusted_credential_pubkeys := fold (\<lambda>(k, c) m. st_insert k c m) all_trusted []\<rparr>)"

definition owner_candidates ::
  "(bytes, trusted_credential_pubkey) store \<Rightarrow> (peer_id \<Rightarrow> bool) \<Rightarrow> (peer_id, route_peer_info) store \<Rightarrow> (bytes, peer_id set) store" where
  "owner_candidates all_trusted active infos =
     fold (\<lambda>(peer, info) cands.
       let pk = ri_noise_static_pubkey info
       in if pk = [] then cands
          else (case st_get all_trusted pk of
            None \<Rightarrow> cands
          | Some c \<Rightarrow> if credential_is_reusable c then cands
              else if \<not> active peer then cands
              else st_insert pk (insert peer (case st_get cands pk of Some ps \<Rightarrow> ps | None \<Rightarrow> {})) cands)) infos []"

definition elect_owner :: "bytes \<times> peer_id set \<Rightarrow> (bytes, peer_id) store \<times> peer_id set \<Rightarrow> (bytes, peer_id) store \<times> peer_id set" where
  "elect_owner cand acc =
     (if snd cand = {} then acc
      else let owner = Min (snd cand) in (st_insert (fst cand) owner (fst acc), snd acc \<union> (snd cand - {owner})))"

definition collect_non_reusable_credential_owners ::
  "(bytes, trusted_credential_pubkey) store \<Rightarrow> (peer_id \<Rightarrow> bool) \<Rightarrow> (peer_id, route_peer_info) store
   \<Rightarrow> (bytes, peer_id) store \<times> peer_id set" where
  "collect_non_reusable_credential_owners all_trusted active infos =
     fold elect_owner (owner_candidates all_trusted active infos) ([], {})"

definition replace_non_reusable_credential_owners ::
  "(bytes, peer_id) store \<Rightarrow> 'm synced_route_info \<Rightarrow> 'm synced_route_info" where
  "replace_non_reusable_credential_owners owners s =
     s\<lparr>si_non_reusable_credential_owners := fold (\<lambda>(k, p) m. st_insert k p m) owners
         (st_retain (\<lambda>k _. st_get owners k \<noteq> None) (si_non_reusable_credential_owners s))\<rparr>"

definition replace_suppressed ::
  "peer_id set \<Rightarrow> 'm synced_route_info \<Rightarrow> bool \<times> 'm synced_route_info" where
  "replace_suppressed peers s =
     (if set (map fst (si_suppressed s)) = peers then (False, s)
      else (True, s\<lparr>si_suppressed := fold (\<lambda>p m. st_insert p () m) (sorted_list_of_set peers)
                       (st_retain (\<lambda>p _. p \<in> peers) (si_suppressed s)),
                    si_version := si_version s + 1\<rparr>))"

definition is_route_suppressed :: "peer_id \<Rightarrow> 'm synced_route_info \<Rightarrow> bool" where
  "is_route_suppressed peer s \<longleftrightarrow> st_get (si_suppressed s) peer \<noteq> None"

definition credential_groups_of :: "trusted_credential_pubkey \<Rightarrow> (string, bytes) store \<Rightarrow> (string, bytes) store" where
  "credential_groups_of c gs = fold (\<lambda>g m. st_entry_or_insert g [] m) (tc_groups c) gs"

definition update_credential_groups ::
  "(bytes, trusted_credential_pubkey) store \<Rightarrow> (peer_id, route_peer_info) store \<Rightarrow> 'm synced_route_info \<Rightarrow> 'm synced_route_info" where
  "update_credential_groups all_trusted infos s =
     fold (\<lambda>(_, info) s.
       if ri_noise_static_pubkey info = [] then s
       else (case st_get all_trusted (ri_noise_static_pubkey info) of
         None \<Rightarrow> s
       | Some c \<Rightarrow> set_peer_groups (ri_peer_id info) (credential_groups_of c (get_proof_groups (ri_peer_id info) s)) s)) infos s"

definition collect_revoked_credential_peers ::
  "(peer_id, route_peer_info) store \<Rightarrow> bytes set \<Rightarrow> (bytes, trusted_credential_pubkey) store \<Rightarrow> peer_id set" where
  "collect_revoked_credential_peers infos prev_trusted all_trusted =
     set (map fst (filter (\<lambda>(_, info). \<not> (ri_noise_static_pubkey info = [] \<or> ri_version info = 0)
       \<and> ri_noise_static_pubkey info \<in> prev_trusted \<and> st_get all_trusted (ri_noise_static_pubkey info) = None) infos))"

definition remove_peers :: "peer_id set \<Rightarrow> 'm synced_route_info \<Rightarrow> 'm synced_route_info" where
  "remove_peers peers s =
     (if peers = {} then s
      else let gone = sorted_list_of_set peers
           in s\<lparr>si_peer_infos := fold st_remove gone (si_peer_infos s),
                si_conn_map := fold st_remove gone (si_conn_map s),
                si_raw_peer_infos := fold st_remove gone (si_raw_peer_infos s),
                si_group_trust_map := fold st_remove gone (si_group_trust_map s),
                si_group_trust_map_cache := fold st_remove gone (si_group_trust_map_cache s),
                si_foreign_network := st_retain (\<lambda>k _. fk_peer_id k \<notin> peers) (si_foreign_network s),
                si_version := si_version s + 1\<rparr>)"

definition remove_peer :: "peer_id \<Rightarrow> 'm synced_route_info \<Rightarrow> 'm synced_route_info" where
  "remove_peer peer s = remove_peers {peer} s"

definition verify_and_update_credential_trusts_protecting ::
  "crypto \<Rightarrow> cred_lib \<Rightarrow> 'm reflect_lib \<Rightarrow> i64 \<Rightarrow> string option \<Rightarrow> (peer_id \<Rightarrow> bool) \<Rightarrow> peer_id option
   \<Rightarrow> 'm synced_route_info \<Rightarrow> (peer_id set \<times> trusted_key_map \<times> bool) \<times> 'm synced_route_info" where
  "verify_and_update_credential_trusts_protecting cr L R now nsecret active protected_peer s =
     (let infos = si_peer_infos s;
          (all_trusted, global_keys) = collect_trusted_credentials cr L R nsecret now s;
          (prev_trusted, s1) = replace_trusted_credential_pubkeys all_trusted s;
          (owners, dups) = collect_non_reusable_credential_owners all_trusted active infos;
          dups1 = (case protected_peer of Some p \<Rightarrow> dups - {p} | None \<Rightarrow> dups);
          s2 = replace_non_reusable_credential_owners owners s1;
          (suppressed_changed, s3) = replace_suppressed dups1 s2;
          s4 = update_credential_groups all_trusted infos s3;
          untrusted = collect_revoked_credential_peers infos prev_trusted all_trusted;
          untrusted1 = (case protected_peer of Some p \<Rightarrow> untrusted - {p} | None \<Rightarrow> untrusted);
          s5 = (if untrusted1 \<noteq> {} then remove_peers untrusted1 s4 else s4)
      in ((untrusted1, global_keys, suppressed_changed), s5))"

definition get_credential_info_by_pubkey :: "bytes \<Rightarrow> 'm synced_route_info \<Rightarrow> trusted_credential_pubkey option" where
  "get_credential_info_by_pubkey pk s = (if pk = [] then None else st_get (si_trusted_credential_pubkeys s) pk)"

section \<open>Announcements of other peers\<close>

definition get_connected_peers :: "peer_id \<Rightarrow> 'm synced_route_info \<Rightarrow> peer_id set option" where
  "get_connected_peers peer s = map_option rc_connected_peers (st_get (si_conn_map s) peer)"

definition fill_empty_one :: "string \<Rightarrow> stime \<Rightarrow> peer_id \<Rightarrow> bool \<times> 'm synced_route_info \<Rightarrow> bool \<times> 'm synced_route_info" where
  "fill_empty_one ver now peer acc =
     (let (need, s) = acc;
          (need1, s1) = (if st_get (si_peer_infos s) peer = None
            then (True, s\<lparr>si_peer_infos := st_insert peer ((route_peer_info_new ver)\<lparr>ri_last_update := Some now\<rparr>) (si_peer_infos s)\<rparr>)
            else (need, s))
      in if st_get (si_conn_map s1) peer = None
         then (True, s1\<lparr>si_conn_map := st_insert peer \<lparr>rc_connected_peers = {}, rc_version = 0, rc_last_update = now\<rparr> (si_conn_map s1)\<rparr>)
         else (need1, s1))"

definition fill_empty_peer_info :: "string \<Rightarrow> stime \<Rightarrow> peer_id set \<Rightarrow> 'm synced_route_info \<Rightarrow> 'm synced_route_info" where
  "fill_empty_peer_info ver now peers s =
     (let (need, s1) = fold (fill_empty_one ver now) (sorted_list_of_set peers) (False, s)
      in if need then s1\<lparr>si_version := si_version s1 + 1\<rparr> else s1)"

definition get_peer_info_version_with_default :: "peer_id \<Rightarrow> 'm synced_route_info \<Rightarrow> u32" where
  "get_peer_info_version_with_default peer s = (case st_get (si_peer_infos s) peer of Some i \<Rightarrow> ri_version i | None \<Rightarrow> 0)"

definition get_avoid_relay_data :: "peer_id \<Rightarrow> 'm synced_route_info \<Rightarrow> bool" where
  "get_avoid_relay_data peer s = (case Option.bind (st_get (si_peer_infos s) peer) ri_feature_flag of
     Some f \<Rightarrow> ff_avoid_relay_data f | None \<Rightarrow> False)"

text \<open>The outer \<^term>\<open>None\<close> is the panic on a duplicate of our own identifier.\<close>

definition check_duplicate_peer_id ::
  "peer_id \<Rightarrow> u64 \<Rightarrow> peer_id \<Rightarrow> u64 option \<Rightarrow> route_peer_info \<Rightarrow> 'm synced_route_info \<Rightarrow> (sync_error + unit) option" where
  "check_duplicate_peer_id my_peer my_route_id dst dst_route_id info s =
     (if ri_peer_id info = my_peer then
        if ri_peer_route_id info \<noteq> my_route_id \<and> ri_version info > get_peer_info_version_with_default (ri_peer_id info) s
        then None else Some (Inr ())
      else if ri_peer_id info = dst then
        (case dst_route_id of
           None \<Rightarrow> Some (Inr ())
         | Some rid \<Rightarrow>
             if rid \<noteq> ri_peer_route_id info \<and> ri_version info < get_peer_info_version_with_default (ri_peer_id info) s
             then Some (Inl DuplicatePeerId) else Some (Inr ()))
      else Some (Inr ()))"

text \<open>A newer announcement replaces the stored one; the receiver stamps it with its own clock.\<close>

definition store_peer_info :: "stime \<Rightarrow> route_peer_info \<Rightarrow> 'm \<Rightarrow> 'm synced_route_info \<Rightarrow> bool \<times> 'm synced_route_info" where
  "store_peer_info now info raw s =
     (let info1 = info\<lparr>ri_last_update := Some now\<rparr>
      in if (case st_get (si_peer_infos s) (ri_peer_id info1) of None \<Rightarrow> True | Some old \<Rightarrow> ri_version info1 > ri_version old)
         then (True, s\<lparr>si_raw_peer_infos := st_insert (ri_peer_id info1) raw (si_raw_peer_infos s),
                       si_peer_infos := st_insert (ri_peer_id info1) info1 (si_peer_infos s)\<rparr>)
         else (False, s))"

fun update_peer_infos_loop ::
  "'m reflect_lib \<Rightarrow> stime \<Rightarrow> peer_id \<Rightarrow> u64 \<Rightarrow> peer_id \<Rightarrow> route_peer_info list \<Rightarrow> 'm list \<Rightarrow> bool \<Rightarrow> 'm synced_route_info
   \<Rightarrow> ((sync_error + bool) \<times> 'm synced_route_info) option" where
  "update_peer_infos_loop R now my_peer my_route_id dst [] raws need s = Some (Inr need, s)"
| "update_peer_infos_loop R now my_peer my_route_id dst (info # infos) [] need s = None"
| "update_peer_infos_loop R now my_peer my_route_id dst (info # infos) (raw # raws) need s =
     (case check_duplicate_peer_id my_peer my_route_id dst
        (if ri_peer_id info = dst then map_option ri_peer_route_id (st_get (si_peer_infos s) dst) else None) info s of
        None \<Rightarrow> None
      | Some (Inl e) \<Rightarrow> Some (Inl e, s)
      | Some (Inr _) \<Rightarrow> do {
          v \<leftarrow> get_field R raw ''peer_id'';
          raw_id \<leftarrow> value_as_u32 v;
          (if raw_id \<noteq> ri_peer_id info then None
           else let (changed, s1) = store_peer_info now info raw s
                in update_peer_infos_loop R now my_peer my_route_id dst infos raws (need \<or> changed) s1)
        })"

definition update_peer_infos ::
  "'m reflect_lib \<Rightarrow> stime \<Rightarrow> peer_id \<Rightarrow> u64 \<Rightarrow> peer_id \<Rightarrow> route_peer_info list \<Rightarrow> 'm list \<Rightarrow> 'm synced_route_info
   \<Rightarrow> ((sync_error + unit) \<times> 'm synced_route_info) option" where
  "update_peer_infos R now my_peer my_route_id dst infos raws s =
     map_option (\<lambda>(r, s1). case r of
         Inl e \<Rightarrow> (Inl e, s1)
       | Inr need \<Rightarrow> (Inr (), if need then s1\<lparr>si_version := si_version s1 + 1\<rparr> else s1))
       (update_peer_infos_loop R now my_peer my_route_id dst infos raws False s)"

definition update_conn_info_one_peer ::
  "stime \<Rightarrow> peer_id_version \<Rightarrow> peer_id set \<Rightarrow> 'm synced_route_info \<Rightarrow> bool \<times> 'm synced_route_info" where
  "update_conn_info_one_peer now pv connected s =
     (if (case st_get (si_conn_map s) (pv_peer_id pv) of None \<Rightarrow> True | Some old \<Rightarrow> pv_version pv > rc_version old)
      then (True, s\<lparr>si_conn_map := st_insert (pv_peer_id pv)
              \<lparr>rc_connected_peers = connected, rc_version = pv_version pv, rc_last_update = now\<rparr> (si_conn_map s)\<rparr>)
      else (False, s))"

fun update_conn_bitmap_loop ::
  "string \<Rightarrow> stime \<Rightarrow> route_conn_bitmap \<Rightarrow> nat \<Rightarrow> peer_id_version list \<Rightarrow> bool \<Rightarrow> 'm synced_route_info
   \<Rightarrow> (bool \<times> 'm synced_route_info) option" where
  "update_conn_bitmap_loop ver now b idx [] need s = Some (need, s)"
| "update_conn_bitmap_loop ver now b idx (pv # pvs) need s = do {
     connected \<leftarrow> get_connected_peers_at b idx;
     let (changed, s1) = update_conn_info_one_peer now pv connected (fill_empty_peer_info ver now connected s)
     in update_conn_bitmap_loop ver now b (Suc idx) pvs (need \<or> changed) s1
   }"

definition update_conn_info_with_bitmap ::
  "string \<Rightarrow> stime \<Rightarrow> route_conn_bitmap \<Rightarrow> 'm synced_route_info \<Rightarrow> 'm synced_route_info option" where
  "update_conn_info_with_bitmap ver now b s =
     map_option (\<lambda>(need, s1). if need then s1\<lparr>si_version := si_version s1 + 1\<rparr> else s1)
       (update_conn_bitmap_loop ver now b 0 (cb_peer_ids b) False
          (fill_empty_peer_info ver now (set (map pv_peer_id (cb_peer_ids b))) s))"

fun update_conn_list_loop ::
  "string \<Rightarrow> stime \<Rightarrow> peer_conn_info list \<Rightarrow> bool \<Rightarrow> 'm synced_route_info \<Rightarrow> bool \<times> 'm synced_route_info" where
  "update_conn_list_loop ver now [] need s = (need, s)"
| "update_conn_list_loop ver now (pc # pcs) need s = (case pc_peer_id pc of
     None \<Rightarrow> update_conn_list_loop ver now pcs need s
   | Some pv \<Rightarrow>
       let connected = set (pc_connected_peer_ids pc);
           (changed, s1) = update_conn_info_one_peer now pv connected (fill_empty_peer_info ver now connected s)
       in update_conn_list_loop ver now pcs (need \<or> changed) s1)"

definition update_conn_info_with_list ::
  "string \<Rightarrow> stime \<Rightarrow> peer_conn_info list \<Rightarrow> 'm synced_route_info \<Rightarrow> 'm synced_route_info" where
  "update_conn_info_with_list ver now pcs s =
     (let (need, s1) = update_conn_list_loop ver now pcs False s
      in if need then s1\<lparr>si_version := si_version s1 + 1\<rparr> else s1)"

fun update_conn_info :: "string \<Rightarrow> stime \<Rightarrow> conn_info \<Rightarrow> 'm synced_route_info \<Rightarrow> 'm synced_route_info option" where
  "update_conn_info ver now (Conn_Bitmap b) s = update_conn_info_with_bitmap ver now b s"
| "update_conn_info ver now (Conn_Peer_List l) s = Some (update_conn_info_with_list ver now l s)"

definition update_foreign_one :: "stime \<Rightarrow> fn_info \<Rightarrow> bool \<times> 'm synced_route_info \<Rightarrow> bool \<times> 'm synced_route_info" where
  "update_foreign_one now item acc = (case (fi_key item, fi_value item) of
     (Some key, Some entry) \<Rightarrow>
       let (changed, s) = acc;
           e = entry\<lparr>fe_last_update := Some now\<rparr>
       in (case st_get (si_foreign_network s) key of
             Some old \<Rightarrow> if fe_version e > fe_version old
               then (True, s\<lparr>si_foreign_network := st_insert key e (si_foreign_network s)\<rparr>) else (changed, s)
           | None \<Rightarrow> (True, s\<lparr>si_foreign_network := st_insert key e (si_foreign_network s)\<rparr>))
   | _ \<Rightarrow> acc)"

definition update_foreign_network :: "stime \<Rightarrow> fn_info list \<Rightarrow> 'm synced_route_info \<Rightarrow> bool \<times> 'm synced_route_info" where
  "update_foreign_network now items s = fold (update_foreign_one now) items (False, s)"

definition verify_groups ::
  "crypto \<Rightarrow> (string, string) store \<Rightarrow> bool \<Rightarrow> route_peer_info \<Rightarrow> (string, bytes) store" where
  "verify_groups cr decls trust_admin info =
     (let proved = fold (\<lambda>g m. case st_get decls (group_name g) of
            Some secret \<Rightarrow> if group_verify cr g secret (ri_peer_id info) then st_insert (group_name g) (group_proof g) m else m
          | None \<Rightarrow> m) (ri_groups info) []
      in if trust_admin \<and> is_admin_peer info
         then fold (\<lambda>g m. st_entry_or_insert (group_name g) [] m) (ri_groups info) proved else proved)"

definition update_group_trust_one :: "peer_id \<Rightarrow> (string, bytes) store \<Rightarrow> 'm synced_route_info \<Rightarrow> 'm synced_route_info" where
  "update_group_trust_one peer gs s = (case st_get (si_group_trust_map s) peer of
     Some _ \<Rightarrow>
       if gs = [] then s\<lparr>si_group_trust_map := st_remove peer (si_group_trust_map s),
                         si_group_trust_map_cache := st_remove peer (si_group_trust_map_cache s)\<rparr>
       else s\<lparr>si_group_trust_map_cache := st_insert peer (map fst gs) (si_group_trust_map_cache s),
              si_group_trust_map := st_insert peer gs (si_group_trust_map s)\<rparr>
   | None \<Rightarrow>
       if gs \<noteq> [] then s\<lparr>si_group_trust_map_cache := st_insert peer (map fst gs) (si_group_trust_map_cache s),
                          si_group_trust_map := st_insert peer gs (si_group_trust_map s)\<rparr>
       else s)"

definition verify_and_update_group_trusts ::
  "crypto \<Rightarrow> route_peer_info list \<Rightarrow> group_identity list \<Rightarrow> bool \<Rightarrow> 'm synced_route_info \<Rightarrow> 'm synced_route_info" where
  "verify_and_update_group_trusts cr infos decls trust_admin s =
     (let dm = fold (\<lambda>g m. st_insert (gi_group_name g) (gi_group_secret g) m) decls []
      in fold (\<lambda>info s. update_group_trust_one (ri_peer_id info) (verify_groups cr dm trust_admin info) s) infos s)"

section \<open>Our own announcements\<close>

text \<open>\<open>new\<close> is the announcement built from the current configuration.\<close>

definition update_my_peer_info :: "stime \<Rightarrow> peer_id \<Rightarrow> route_peer_info \<Rightarrow> 'm synced_route_info \<Rightarrow> bool \<times> 'm synced_route_info" where
  "update_my_peer_info now my_peer new s =
     (let old = st_get (si_peer_infos s) my_peer;
          new_version = (case old of Some o' \<Rightarrow> ri_version o' | None \<Rightarrow> 0) + 1;
          (need_insert, new1) = (case old of Some o' \<Rightarrow> try_update_new_peer_info now o' new | None \<Rightarrow> (True, new))
      in if need_insert
         then let gs = (if (case old of Some o' \<Rightarrow> ri_groups o' \<noteq> ri_groups new1 | None \<Rightarrow> True) then Some (ri_groups new1) else None);
                  s1 = s\<lparr>si_peer_infos := st_insert my_peer (new1\<lparr>ri_last_update := Some now, ri_version := new_version\<rparr>) (si_peer_infos s)\<rparr>;
                  s2 = (case gs of Some g \<Rightarrow> update_my_group_trusts my_peer g s1 | None \<Rightarrow> s1)
              in (True, s2\<lparr>si_version := si_version s2 + 1\<rparr>)
         else (False, s))"

definition update_my_conn_info :: "string \<Rightarrow> stime \<Rightarrow> peer_id \<Rightarrow> peer_id set \<Rightarrow> 'm synced_route_info \<Rightarrow> bool \<times> 'm synced_route_info" where
  "update_my_conn_info ver now my_peer connected s =
     (let s1 = fill_empty_peer_info ver now connected s;
          mine = st_get (si_conn_map s1) my_peer;
          new_version = (case mine of Some c \<Rightarrow> rc_version c | None \<Rightarrow> 0) + 1
      in if (case mine of None \<Rightarrow> True | Some c \<Rightarrow> rc_connected_peers c \<noteq> connected)
         then (True, s1\<lparr>si_conn_map := st_insert my_peer
                \<lparr>rc_connected_peers = connected, rc_version = new_version, rc_last_update = now\<rparr> (si_conn_map s1),
              si_version := si_version s1 + 1\<rparr>)
         else (False, s1))"

text \<open>One stored entry of ours against the current foreign networks; \<^term>\<open>None\<close> is a failed assertion.\<close>

definition renew_my_entry ::
  "stime \<Rightarrow> fn_entry \<Rightarrow> fn_entry option \<Rightarrow> (bool \<times> fn_entry) option" where
  "renew_my_entry now e cur =
     (let now_version = of_int (now div sec 1) :: u32
      in case cur of
        Some new \<Rightarrow>
          if fe_foreign_peer_ids new = [] then None
          else Some (case is_foreign_network_info_newer new e of
            Some newer \<Rightarrow>
              let since = (case duration_since now (the (fe_last_update e)) of Some d \<Rightarrow> d | None \<Rightarrow> 0)
              in if newer \<or> since > UPDATE_PEER_INFO_PERIOD
                 then (True, new\<lparr>fe_version := max (fe_version new + 1) now_version\<rparr>) else (False, e)
          | None \<Rightarrow> (False, e))
      | None \<Rightarrow>
          if fe_foreign_peer_ids e \<noteq> []
          then Some (True, e\<lparr>fe_foreign_peer_ids := [], fe_last_update := Some now,
                            fe_version := max (fe_version e + 1) now_version\<rparr>)
          else Some (False, e))"

fun renew_my_entries ::
  "stime \<Rightarrow> peer_id \<Rightarrow> (fn_key, fn_entry) store \<Rightarrow> (fn_key, fn_entry) store
   \<Rightarrow> (bool \<times> (fn_key, fn_entry) store \<times> (fn_key, fn_entry) store) option" where
  "renew_my_entries now my_peer [] nets = Some (False, [], nets)"
| "renew_my_entries now my_peer ((k, e) # es) nets =
     (if fk_peer_id k \<noteq> my_peer then do {
        (u, es', nets') \<leftarrow> renew_my_entries now my_peer es nets;
        Some (u, (k, e) # es', nets')
      } else do {
        (u1, e') \<leftarrow> renew_my_entry now e (st_get nets k);
        (u2, es', nets') \<leftarrow> renew_my_entries now my_peer es (st_remove k nets);
        Some (u1 \<or> u2, (k, e') # es', nets')
      })"

fun add_my_entries :: "u32 \<Rightarrow> (fn_key, fn_entry) store \<Rightarrow> (fn_key, fn_entry) store \<Rightarrow> (fn_key, fn_entry) store option" where
  "add_my_entries now_version [] stored = Some stored"
| "add_my_entries now_version ((k, v) # nets) stored =
     (if fe_foreign_peer_ids v = [] then None
      else add_my_entries now_version nets (case st_get stored k of
        Some old \<Rightarrow> if fe_version v > fe_version old then st_insert k v stored else stored
      | None \<Rightarrow> st_insert k (v\<lparr>fe_version := now_version\<rparr>) stored))"

definition update_my_foreign_network ::
  "stime \<Rightarrow> peer_id \<Rightarrow> (fn_key, fn_entry) store \<Rightarrow> 'm synced_route_info \<Rightarrow> (bool \<times> 'm synced_route_info) option" where
  "update_my_foreign_network now my_peer nets s = do {
     (u, stored, rest) \<leftarrow> renew_my_entries now my_peer (si_foreign_network s) nets;
     stored' \<leftarrow> add_my_entries (of_int (now div sec 1)) rest stored;
     let updated = u \<or> rest \<noteq> [];
         s1 = s\<lparr>si_foreign_network := stored'\<rparr>
     in Some (updated, if updated then s1\<lparr>si_version := si_version s1 + 1\<rparr> else s1)
   }"

section \<open>Reading the connection bitmap\<close>

lemma get_bit_None: "get_bit b i = None \<longleftrightarrow> 8 * length (cb_bitmap b) \<le> i"
  by (auto simp: get_bit_def Let_def)

lemma collect_connected_None:
  "collect_connected b i ps = None \<longleftrightarrow> ps \<noteq> [] \<and> 8 * length (cb_bitmap b) < i + length ps"
proof (induction ps arbitrary: i)
  case (Cons p ps)
  show ?case
  proof (cases "get_bit b i")
    case None
    then have "8 * length (cb_bitmap b) \<le> i" by (simp add: get_bit_None)
    with None show ?thesis by simp
  next
    case (Some x)
    then have "i < 8 * length (cb_bitmap b)" using get_bit_None [of b i] by (metis not_le option.distinct(1))
    with Some show ?thesis
      by (cases "collect_connected b (Suc i) ps") (use Cons.IH [of "Suc i"] in auto)
  qed
qed simp

lemma collect_connected_Some:
  "collect_connected b i ps = Some c \<Longrightarrow> c = {pv_peer_id (ps ! j) |j. j < length ps \<and> get_bit b (i + j) = Some True}"
proof (induction ps arbitrary: i c)
  case (Cons p ps)
  then obtain x c' where x: "get_bit b i = Some x" "collect_connected b (Suc i) ps = Some c'"
      "c = (if x then insert (pv_peer_id p) c' else c')"
    by (auto split: bind_splits)
  have "{pv_peer_id ((p # ps) ! j) |j. j < length (p # ps) \<and> get_bit b (i + j) = Some True}
      = (if get_bit b i = Some True then {pv_peer_id p} else {})
        \<union> {pv_peer_id (ps ! j) |j. j < length ps \<and> get_bit b (Suc i + j) = Some True}" (is "?L = ?A \<union> ?B")
  proof (intro equalityI subsetI)
    fix q assume "q \<in> ?L"
    then obtain j where "j < Suc (length ps)" "get_bit b (i + j) = Some True" "q = pv_peer_id ((p # ps) ! j)" by auto
    then show "q \<in> ?A \<union> ?B" by (cases j) auto
  next
    fix q assume "q \<in> ?A \<union> ?B"
    then show "q \<in> ?L"
    proof
      assume "q \<in> ?A"
      then show ?thesis by (auto split: if_splits intro: exI [of _ 0])
    next
      assume "q \<in> ?B"
      then obtain j where "j < length ps" "get_bit b (Suc i + j) = Some True" "q = pv_peer_id (ps ! j)" by auto
      then show ?thesis by (auto intro!: exI [of _ "Suc j"])
    qed
  qed
  with x Cons.IH [OF x(2)] show ?case by auto
qed simp

lemma get_connected_peers_at_None:
  assumes "k < length (cb_peer_ids b)"
  shows "get_connected_peers_at b k = None \<longleftrightarrow> 8 * length (cb_bitmap b) < (k + 1) * length (cb_peer_ids b)"
proof -
  have "cb_peer_ids b \<noteq> []" using assms by auto
  then show ?thesis by (simp add: get_connected_peers_at_def collect_connected_None add.commute)
qed

lemma update_conn_bitmap_loop_None:
  assumes "k + length pvs = length (cb_peer_ids b)"
  shows "update_conn_bitmap_loop ver now b k pvs need s = None
    \<longleftrightarrow> pvs \<noteq> [] \<and> 8 * length (cb_bitmap b) < length (cb_peer_ids b) * length (cb_peer_ids b)"
  using assms
proof (induction pvs arbitrary: k need s)
  case (Cons pv pvs)
  let ?n = "length (cb_peer_ids b)"
  have k: "k < ?n" using Cons.prems by simp
  then have le: "(k + 1) * ?n \<le> ?n * ?n" by (intro mult_right_mono) auto
  show ?case
  proof (cases "get_connected_peers_at b k")
    case None
    then have "8 * length (cb_bitmap b) < (k + 1) * ?n" using get_connected_peers_at_None [OF k] by simp
    then have "8 * length (cb_bitmap b) < ?n * ?n" using le by linarith
    with None show ?thesis by simp
  next
    case (Some c)
    then have ge: "(k + 1) * ?n \<le> 8 * length (cb_bitmap b)" using get_connected_peers_at_None [OF k] by (metis not_le option.distinct(1))
    have "update_conn_bitmap_loop ver now b (Suc k) pvs need' s' = None
        \<longleftrightarrow> pvs \<noteq> [] \<and> 8 * length (cb_bitmap b) < ?n * ?n" for need' and s' :: "'a synced_route_info"
      using Cons by simp
    moreover have "pvs = [] \<Longrightarrow> \<not> 8 * length (cb_bitmap b) < ?n * ?n" using Cons.prems ge by simp
    ultimately show ?thesis using Some by (auto simp: split_def Let_def)
  qed
qed simp

text \<open>
  When an announced connection bitmap brings the daemon down.  Processing the bitmap of a peer
  panics exactly when it has fewer bits than the square of the number of peers it names; every
  other bitmap is processed.
\<close>

lemma conn_bitmap_panics_iff:
  "update_conn_info ver now (Conn_Bitmap b) s = None
   \<longleftrightarrow> 8 * length (cb_bitmap b) < length (cb_peer_ids b) * length (cb_peer_ids b)"
  using update_conn_bitmap_loop_None [of 0 "cb_peer_ids b" b] by (auto simp: update_conn_info_with_bitmap_def)

section \<open>Newer announcements win\<close>

type_synonym 'm announcement = "route_peer_info \<times> 'm"

definition announce :: "stime \<Rightarrow> 'm announcement \<Rightarrow> 'm synced_route_info \<Rightarrow> 'm synced_route_info" where
  "announce now a s = snd (store_peer_info now (fst a) (snd a) s)"

lemma update_peer_infos_loop_announces:
  "update_peer_infos_loop R now my_peer my_route_id dst infos raws need s = Some (Inr need', s')
   \<Longrightarrow> s' = fold (announce now) (zip infos raws) s"
proof (induction R now my_peer my_route_id dst infos raws need s rule: update_peer_infos_loop.induct)
  case (3 R now my_peer my_route_id dst info infos raw raws need s)
  obtain u v where
    c: "check_duplicate_peer_id my_peer my_route_id dst
          (if ri_peer_id info = dst then map_option ri_peer_route_id (st_get (si_peer_infos s) dst) else None) info s = Some (Inr u)"
    and v: "get_field R raw ''peer_id'' = Some v" "value_as_u32 v = Some (ri_peer_id info)"
    using "3.prems" by (auto split: option.splits sum.splits bind_splits if_splits)
  obtain ch s1 where st: "store_peer_info now info raw s = (ch, s1)" by fastforce
  show ?case
    using "3.IH" [OF c refl v _ refl st [symmetric]] "3.prems" c v st by (simp add: announce_def)
qed simp_all

lemma update_peer_infos_announces:
  assumes "update_peer_infos R now my_peer my_route_id dst infos raws s = Some (Inr (), s')"
  shows "\<exists>v. s' = (fold (announce now) (zip infos raws) s)\<lparr>si_version := v\<rparr>"
proof -
  obtain r s1 where r: "update_peer_infos_loop R now my_peer my_route_id dst infos raws False s = Some (r, s1)"
    using assms by (auto simp: update_peer_infos_def)
  with assms obtain need where "r = Inr need" "s' = (if need then s1\<lparr>si_version := si_version s1 + 1\<rparr> else s1)"
    by (cases r) (auto simp: update_peer_infos_def)
  with r have "update_peer_infos_loop R now my_peer my_route_id dst infos raws False s = Some (Inr need, s1)"
      "s' = (if need then s1\<lparr>si_version := si_version s1 + 1\<rparr> else s1)" by simp_all
  then have "s' = (fold (announce now) (zip infos raws) s)\<lparr>si_version := si_version s'\<rparr>"
    using update_peer_infos_loop_announces by (cases need) fastforce+
  then show ?thesis ..
qed

text \<open>What is stored for a peer after a sequence of announcements: what was there when none is newer,
  otherwise one of the newest.\<close>

definition settled :: "'m announcement set \<Rightarrow> stime \<Rightarrow> peer_id \<Rightarrow> 'm synced_route_info \<Rightarrow> 'm synced_route_info \<Rightarrow> bool" where
  "settled As now p s s' \<longleftrightarrow>
     st_get (si_peer_infos s') p = st_get (si_peer_infos s) p \<and> st_get (si_raw_peer_infos s') p = st_get (si_raw_peer_infos s) p
       \<and> (\<forall>(i, r) \<in> As. ri_peer_id i = p \<longrightarrow> (\<exists>old. st_get (si_peer_infos s) p = Some old \<and> ri_version i \<le> ri_version old))
   \<or> (\<exists>(i, r) \<in> As. ri_peer_id i = p \<and> st_get (si_peer_infos s') p = Some (i\<lparr>ri_last_update := Some now\<rparr>)
       \<and> st_get (si_raw_peer_infos s') p = Some r
       \<and> (\<forall>old. st_get (si_peer_infos s) p = Some old \<longrightarrow> ri_version old < ri_version i)
       \<and> (\<forall>(j, q) \<in> As. ri_peer_id j = p \<longrightarrow> ri_version j \<le> ri_version i))"

lemma announce_get:
  "st_get (si_peer_infos (announce now (i, r) s)) p =
     (if p = ri_peer_id i \<and> (case st_get (si_peer_infos s) p of None \<Rightarrow> True | Some old \<Rightarrow> ri_version old < ri_version i)
      then Some (i\<lparr>ri_last_update := Some now\<rparr>) else st_get (si_peer_infos s) p)"
  "st_get (si_raw_peer_infos (announce now (i, r) s)) p =
     (if p = ri_peer_id i \<and> (case st_get (si_peer_infos s) p of None \<Rightarrow> True | Some old \<Rightarrow> ri_version old < ri_version i)
      then Some r else st_get (si_raw_peer_infos s) p)"
  by (auto simp: announce_def store_peer_info_def Let_def store_simps split: option.splits)

lemma settled_cases:
  assumes "settled As now p s s'"
  obtains (old) "st_get (si_peer_infos s') p = st_get (si_peer_infos s) p" "st_get (si_raw_peer_infos s') p = st_get (si_raw_peer_infos s) p"
      "\<forall>(i, r) \<in> As. ri_peer_id i = p \<longrightarrow> (\<exists>old. st_get (si_peer_infos s) p = Some old \<and> ri_version i \<le> ri_version old)"
  | (new) k q where "(k, q) \<in> As" "ri_peer_id k = p" "st_get (si_peer_infos s') p = Some (k\<lparr>ri_last_update := Some now\<rparr>)"
      "st_get (si_raw_peer_infos s') p = Some q" "\<forall>old. st_get (si_peer_infos s) p = Some old \<longrightarrow> ri_version old < ri_version k"
      "\<forall>(j, q) \<in> As. ri_peer_id j = p \<longrightarrow> ri_version j \<le> ri_version k"
  using assms unfolding settled_def by auto

lemma settled_step:
  assumes "settled As now p s s'"
  shows "settled (insert (i, r) As) now p s (announce now (i, r) s')"
proof (cases "ri_peer_id i = p")
  case False
  with assms show ?thesis by (auto simp: settled_def announce_get)
next
  case True
  show ?thesis using assms
  proof (cases rule: settled_cases)
    case old
    show ?thesis
    proof (cases "st_get (si_peer_infos s) p")
      case None
      with old True have "\<forall>(j, q) \<in> As. ri_peer_id j \<noteq> p" by auto
      with None old True show ?thesis unfolding settled_def by (intro disjI2) (auto simp: announce_get)
    next
      case (Some o')
      with old True show ?thesis unfolding settled_def
        by (cases "ri_version o' < ri_version i") (fastforce simp: announce_get)+
    qed
  next
    case (new k q)
    show ?thesis
    proof (cases "ri_version k < ri_version i")
      case True': True
      have "\<forall>old. st_get (si_peer_infos s) p = Some old \<longrightarrow> ri_version old < ri_version i" using new(5) True' by fastforce
      moreover have "\<forall>(j, q) \<in> insert (i, r) As. ri_peer_id j = p \<longrightarrow> ri_version j \<le> ri_version i" using new(6) True' by fastforce
      ultimately show ?thesis unfolding settled_def using True True' new(3)
        by (intro disjI2 bexI [of _ "(i, r)"]) (simp_all add: announce_get)
    next
      case False
      then show ?thesis unfolding settled_def using True new
        by (intro disjI2 bexI [of _ "(k, q)"]) (auto simp: announce_get)
    qed
  qed
qed

lemma settled_fold: "settled (set l) now p s (fold (announce now) l s)"
proof (induction l rule: rev_induct)
  case Nil
  then show ?case by (simp add: settled_def)
next
  case (snoc a l)
  then show ?case using settled_step [of "set l" now p s _ "fst a" "snd a"] by simp
qed

lemma settled_agree:
  assumes "settled As now p s s1" "settled As now' p s s2"
    and same: "\<And>i r j q. (i, r) \<in> As \<Longrightarrow> (j, q) \<in> As \<Longrightarrow> ri_peer_id i = ri_peer_id j \<Longrightarrow> ri_version i = ri_version j \<Longrightarrow> i = j \<and> r = q"
  shows "map_option (ri_last_update_update (\<lambda>_. None)) (st_get (si_peer_infos s1) p)
       = map_option (ri_last_update_update (\<lambda>_. None)) (st_get (si_peer_infos s2) p)
    \<and> st_get (si_raw_peer_infos s1) p = st_get (si_raw_peer_infos s2) p"
  using assms(1)
proof (cases rule: settled_cases)
  case old1: old
  show ?thesis using assms(2)
  proof (cases rule: settled_cases)
    case old
    with old1 show ?thesis by simp
  next
    case (new k q)
    from old1(3) new(1,2) obtain o' where "st_get (si_peer_infos s) p = Some o'" "ri_version k \<le> ri_version o'" by blast
    with new(5) show ?thesis by fastforce
  qed
next
  case new1: (new k q)
  show ?thesis using assms(2)
  proof (cases rule: settled_cases)
    case old
    from old(3) new1(1,2) obtain o' where "st_get (si_peer_infos s) p = Some o'" "ri_version k \<le> ri_version o'" by blast
    with new1(5) show ?thesis by fastforce
  next
    case (new k' q')
    have "ri_version k' \<le> ri_version k" "ri_version k \<le> ri_version k'" using new1(6) new(1,2) new(6) new1(1,2) by blast+
    then have "k = k' \<and> q = q'" using same [OF new1(1) new(1)] new1(2) new(2) by simp
    with new1 new show ?thesis by simp
  qed
qed

text \<open>
  C30: the order of announcements does not matter.  Take two orders of the same announcements, possibly
  received at different times and through different neighbours, where an origin never signs two
  different announcements with one version.  When both are processed, every peer ends up with the same
  stored announcement (up to the local time stamp) and the same raw message.
\<close>

theorem announcements_commute:
  assumes "update_peer_infos R now my_peer my_route_id dst infos raws s = Some (Inr (), s1)"
    and "update_peer_infos R' now' my_peer my_route_id dst' infos' raws' s = Some (Inr (), s2)"
    and "set (zip infos raws) = set (zip infos' raws')"
    and "\<forall>(i, r) \<in> set (zip infos raws). \<forall>(j, q) \<in> set (zip infos raws).
      ri_peer_id i = ri_peer_id j \<and> ri_version i = ri_version j \<longrightarrow> i = j \<and> r = q"
  shows "map_option (ri_last_update_update (\<lambda>_. None)) (st_get (si_peer_infos s1) p)
       = map_option (ri_last_update_update (\<lambda>_. None)) (st_get (si_peer_infos s2) p)
    \<and> st_get (si_raw_peer_infos s1) p = st_get (si_raw_peer_infos s2) p"
proof -
  let ?As = "set (zip infos raws)"
  have st: "settled ?As now p s s1" "settled ?As now' p s s2"
    using update_peer_infos_announces [OF assms(1)] update_peer_infos_announces [OF assms(2)]
      settled_fold [of "zip infos raws" now p s] settled_fold [of "zip infos' raws'" now' p s] assms(3)
    by (auto simp: settled_def)
  from settled_agree [OF st] assms(4) show ?thesis by fast
qed

section \<open>Trusted keys come from administrators\<close>

text \<open>The keys an administrator vouches for, in the order in which they are collected.\<close>

datatype trust_item = Node_Key bytes | Credential_Key trusted_credential_pubkey

fun item_key :: "trust_item \<Rightarrow> bytes" where
  "item_key (Node_Key pk) = pk"
| "item_key (Credential_Key c) = tc_pubkey c"

fun item_metadata :: "trust_item \<Rightarrow> trusted_key_metadata" where
  "item_metadata (Node_Key pk) = \<lparr>tk_source = Ospf_Node, tk_expiry_unix = None\<rparr>"
| "item_metadata (Credential_Key c) = \<lparr>tk_source = Ospf_Credential, tk_expiry_unix = Some (tc_expiry_unix c)\<rparr>"

fun add_item :: "trust_item \<Rightarrow> trusted_pair \<Rightarrow> trusted_pair" where
  "add_item (Node_Key pk) acc = (fst acc, st_insert pk (item_metadata (Node_Key pk)) (snd acc))"
| "add_item (Credential_Key c) acc =
     (st_entry_or_insert (tc_pubkey c) c (fst acc), st_insert (tc_pubkey c) (item_metadata (Credential_Key c)) (snd acc))"

definition accepted :: "crypto \<Rightarrow> cred_lib \<Rightarrow> 'm reflect_lib \<Rightarrow> 'm option \<Rightarrow> string option \<Rightarrow> i64 \<Rightarrow> nat
    \<Rightarrow> trusted_credential_pubkey_proof \<Rightarrow> trusted_credential_pubkey option" where
  "accepted cr L R raw nsecret now idx proof =
     (if credential_proof_is_valid cr L R raw idx proof nsecret
      then (case tcp_credential proof of Some c \<Rightarrow> if sint now < sint (tc_expiry_unix c) then Some c else None | None \<Rightarrow> None)
      else None)"

definition peer_items :: "crypto \<Rightarrow> cred_lib \<Rightarrow> 'm reflect_lib \<Rightarrow> (peer_id, 'm) store \<Rightarrow> string option \<Rightarrow> i64
    \<Rightarrow> peer_id \<times> route_peer_info \<Rightarrow> trust_item list" where
  "peer_items cr L R raws nsecret now p =
     (if is_admin_peer (snd p)
      then (if ri_noise_static_pubkey (snd p) \<noteq> [] then [Node_Key (ri_noise_static_pubkey (snd p))] else [])
        @ List.map_filter (\<lambda>(idx, proof). map_option Credential_Key (accepted cr L R (st_get raws (fst p)) nsecret now idx proof))
            (enumerate 0 (ri_trusted_credential_pubkeys (snd p)))
      else [])"

definition trust_items :: "crypto \<Rightarrow> cred_lib \<Rightarrow> 'm reflect_lib \<Rightarrow> string option \<Rightarrow> i64 \<Rightarrow> 'm synced_route_info \<Rightarrow> trust_item list" where
  "trust_items cr L R nsecret now s = concat (map (peer_items cr L R (si_raw_peer_infos s) nsecret now) (si_peer_infos s))"

lemma collect_proofs_items:
  "collect_proofs cr L R raw nsecret now idx proofs acc =
     fold add_item (List.map_filter (\<lambda>(i, p). map_option Credential_Key (accepted cr L R raw nsecret now i p)) (enumerate idx proofs)) acc"
  by (induction proofs arbitrary: idx acc)
    (auto simp: List.map_filter_simps accepted_def not_le split: option.splits)

lemma collect_trusted_credentials_items:
  "collect_trusted_credentials cr L R nsecret now s = fold add_item (trust_items cr L R nsecret now s) ([], [])"
proof -
  have "collect_peer cr L R raws nsecret now p acc = fold add_item (peer_items cr L R raws nsecret now p) acc" for raws p acc
    by (simp add: collect_peer_def peer_items_def collect_proofs_items Let_def)
  then have "fold (collect_peer cr L R raws nsecret now) infos acc
      = fold add_item (concat (map (peer_items cr L R raws nsecret now) infos)) acc" for raws infos acc
    by (induction infos arbitrary: acc) simp_all
  then show ?thesis by (simp add: collect_trusted_credentials_def trust_items_def)
qed

lemma add_items_keys:
  "st_get (snd (fold add_item items acc)) pk =
     (case filter (\<lambda>it. item_key it = pk) items of [] \<Rightarrow> st_get (snd acc) pk | its \<Rightarrow> Some (item_metadata (List.last its)))"
proof (induction items rule: rev_induct)
  case (snoc it items)
  then show ?case by (cases it) (auto simp: store_simps split: list.splits)
qed simp

lemma find_append: "List.find P (xs @ ys) = (case List.find P xs of Some x \<Rightarrow> Some x | None \<Rightarrow> List.find P ys)"
  by (induction xs) simp_all

lemma add_items_credentials:
  "st_get (fst (fold add_item items ([], snd acc))) pk = List.find (\<lambda>c. tc_pubkey c = pk)
     (List.map_filter (\<lambda>it. case it of Credential_Key c \<Rightarrow> Some c | _ \<Rightarrow> None) items)"
proof (induction items rule: rev_induct)
  case (snoc it items)
  then show ?case
    by (cases it) (auto simp: store_simps List.map_filter_def find_append split: option.splits)
qed (simp add: store_simps List.map_filter_simps)

text \<open>What an administrator's announcement in the database vouches for.\<close>

definition vouched :: "crypto \<Rightarrow> cred_lib \<Rightarrow> 'm reflect_lib \<Rightarrow> string option \<Rightarrow> i64 \<Rightarrow> 'm synced_route_info \<Rightarrow> trusted_credential_pubkey \<Rightarrow> bool" where
  "vouched cr L R nsecret now s c \<longleftrightarrow> (\<exists>p info idx. (p, info) \<in> set (si_peer_infos s) \<and> is_admin_peer info
     \<and> idx < length (ri_trusted_credential_pubkeys info)
     \<and> accepted cr L R (st_get (si_raw_peer_infos s) p) nsecret now idx (ri_trusted_credential_pubkeys info ! idx) = Some c)"

definition admin_node_key :: "'m synced_route_info \<Rightarrow> bytes \<Rightarrow> bool" where
  "admin_node_key s pk \<longleftrightarrow> pk \<noteq> [] \<and> (\<exists>(p, info) \<in> set (si_peer_infos s). is_admin_peer info \<and> ri_noise_static_pubkey info = pk)"

lemma set_peer_items:
  "it \<in> set (peer_items cr L R raws nsecret now (p, info)) \<longleftrightarrow> is_admin_peer info
     \<and> (it = Node_Key (ri_noise_static_pubkey info) \<and> ri_noise_static_pubkey info \<noteq> []
       \<or> (\<exists>idx < length (ri_trusted_credential_pubkeys info). \<exists>c. it = Credential_Key c
            \<and> accepted cr L R (st_get raws p) nsecret now idx (ri_trusted_credential_pubkeys info ! idx) = Some c))"
  unfolding peer_items_def set_append set_map_filter
  by (auto simp: set_map_filter in_set_enumerate_eq Bex_def)

lemma set_trust_items:
  "it \<in> set (trust_items cr L R nsecret now s) \<longleftrightarrow>
     (case it of Node_Key pk \<Rightarrow> admin_node_key s pk | Credential_Key c \<Rightarrow> vouched cr L R nsecret now s c)"
proof -
  have "it \<in> set (trust_items cr L R nsecret now s)
      \<longleftrightarrow> (\<exists>p info. (p, info) \<in> set (si_peer_infos s) \<and> it \<in> set (peer_items cr L R (si_raw_peer_infos s) nsecret now (p, info)))"
    by (auto simp: trust_items_def)
  then show ?thesis unfolding set_peer_items by (cases it) (auto simp: admin_node_key_def vouched_def)
qed

lemma accepted_not_expired: "accepted cr L R raw nsecret now idx proof = Some c \<Longrightarrow> sint now < sint (tc_expiry_unix c)"
  by (auto simp: accepted_def split: option.splits if_splits)

lemma vouched_not_expired: "vouched cr L R nsecret now s c \<Longrightarrow> sint now < sint (tc_expiry_unix c)"
  by (auto simp: vouched_def accepted_not_expired)

lemma refresh_keys:
  "verify_and_update_credential_trusts_protecting cr L R now nsecret active pp s = ((untrusted, keys, changed), s')
   \<Longrightarrow> keys = snd (collect_trusted_credentials cr L R nsecret now s)"
  by (auto simp: verify_and_update_credential_trusts_protecting_def Let_def split_def)

lemma refreshed_key_metadata:
  assumes "verify_and_update_credential_trusts_protecting cr L R now nsecret active pp s = ((untrusted, keys, changed), s')"
  shows "st_get keys pk = Some md \<Longrightarrow> \<exists>it. md = item_metadata it \<and> item_key it = pk
      \<and> (case it of Node_Key pk \<Rightarrow> admin_node_key s pk | Credential_Key c \<Rightarrow> vouched cr L R nsecret now s c)"
    and "st_get keys pk = None \<Longrightarrow> \<not> admin_node_key s pk \<and> (\<forall>c. vouched cr L R nsecret now s c \<longrightarrow> tc_pubkey c \<noteq> pk)"
proof -
  let ?its = "trust_items cr L R nsecret now s"
  let ?fs = "filter (\<lambda>it. item_key it = pk) ?its"
  have k: "st_get keys pk = (case ?fs of [] \<Rightarrow> None | its \<Rightarrow> Some (item_metadata (List.last its)))"
    using refresh_keys [OF assms] by (simp add: collect_trusted_credentials_items add_items_keys store_simps split: list.split)
  show "\<exists>it. md = item_metadata it \<and> item_key it = pk
      \<and> (case it of Node_Key pk \<Rightarrow> admin_node_key s pk | Credential_Key c \<Rightarrow> vouched cr L R nsecret now s c)" if "st_get keys pk = Some md"
  proof -
    from k that have ne: "?fs \<noteq> []" and md: "md = item_metadata (List.last ?fs)" by (auto split: list.splits)
    from last_in_set [OF ne] have "List.last ?fs \<in> set ?its" "item_key (List.last ?fs) = pk" by auto
    with md set_trust_items [of "List.last ?fs"] show ?thesis by blast
  qed
  show "\<not> admin_node_key s pk \<and> (\<forall>c. vouched cr L R nsecret now s c \<longrightarrow> tc_pubkey c \<noteq> pk)" if "st_get keys pk = None"
  proof -
    from k that have "?fs = []" by (auto split: list.splits)
    then have no: "it \<in> set ?its \<Longrightarrow> item_key it \<noteq> pk" for it by (auto simp: filter_empty_conv)
    have "\<not> admin_node_key s pk"
    proof
      assume "admin_node_key s pk"
      then show False using no [of "Node_Key pk"] by (simp add: set_trust_items)
    qed
    moreover have "tc_pubkey c \<noteq> pk" if "vouched cr L R nsecret now s c" for c
      using no [of "Credential_Key c"] that by (simp add: set_trust_items)
    ultimately show ?thesis by blast
  qed
qed

text \<open>
  C31: which keys the network trusts.  After a refresh of the credential trusts, a key is accepted for the
  network at the time of the refresh exactly when an administrator in the database uses it as its own
  key or vouches for it with a proof that verifies under the network secret; and at any later time
  an accepted key is an administrator's own or is vouched for by a credential that has not expired by then.
\<close>

theorem trusted_keys_exact:
  assumes "verify_and_update_credential_trusts_protecting cr L R now nsecret active pp s = ((untrusted, keys, changed), s')"
  shows "(verify_trusted_key now pk network (update_trusted_keys network keys m)
      \<longleftrightarrow> admin_node_key s pk \<or> (\<exists>c. vouched cr L R nsecret now s c \<and> tc_pubkey c = pk))
    \<and> (verify_trusted_key later pk network (update_trusted_keys network keys m)
      \<longrightarrow> admin_node_key s pk \<or> (\<exists>c. vouched cr L R nsecret now s c \<and> tc_pubkey c = pk \<and> sint later < sint (tc_expiry_unix c)))"
proof -
  note md = refreshed_key_metadata [OF assms, of pk]
  let ?m = "update_trusted_keys network keys m"
  have v: "verify_trusted_key t pk network ?m \<longleftrightarrow> (\<exists>md. st_get keys pk = Some md \<and> \<not> is_expired t md)" for t
    by (auto simp: verify_trusted_key_def verify_trusted_key_with_source_def update_trusted_keys_def store_simps split: option.splits)
  have late: "admin_node_key s pk \<or> (\<exists>c. vouched cr L R nsecret now s c \<and> tc_pubkey c = pk \<and> sint t < sint (tc_expiry_unix c))"
    if "verify_trusted_key t pk network ?m" for t
    using that md(1) unfolding v by (fastforce simp: is_expired_def split: trust_item.splits)
  have "verify_trusted_key now pk network ?m" if av: "admin_node_key s pk \<or> (\<exists>c. vouched cr L R nsecret now s c \<and> tc_pubkey c = pk)"
  proof -
    obtain d where d: "st_get keys pk = Some d" using md(2) av by (cases "st_get keys pk") auto
    from md(1) [OF d] have "\<not> is_expired now d"
      using vouched_not_expired [of cr L R nsecret now s] by (fastforce simp: is_expired_def split: trust_item.splits)
    with d show ?thesis unfolding v by blast
  qed
  with late show ?thesis by blast
qed

section \<open>One holder per non-reusable credential\<close>

text \<open>The active peers that present a key.\<close>

definition holders :: "(peer_id, route_peer_info) store \<Rightarrow> (peer_id \<Rightarrow> bool) \<Rightarrow> bytes \<Rightarrow> peer_id set" where
  "holders infos active pk = {p. active p \<and> (\<exists>info. (p, info) \<in> set infos \<and> ri_noise_static_pubkey info = pk)}"

lemma finite_holders: "finite (holders infos active pk)"
  by (rule finite_subset [of _ "fst ` set infos"]) (force simp: holders_def)+

definition non_reusable :: "(bytes, trusted_credential_pubkey) store \<Rightarrow> bytes \<Rightarrow> bool" where
  "non_reusable trusted pk \<longleftrightarrow> pk \<noteq> [] \<and> (\<exists>c. st_get trusted pk = Some c \<and> \<not> credential_is_reusable c)"

lemma owner_candidates_snoc:
  "st_get (owner_candidates trusted active (infos @ [(p, info)])) pk =
     (if ri_noise_static_pubkey info = pk \<and> non_reusable trusted pk \<and> active p
      then Some (insert p (case st_get (owner_candidates trusted active infos) pk of Some ps \<Rightarrow> ps | None \<Rightarrow> {}))
      else st_get (owner_candidates trusted active infos) pk)"
  by (auto simp: owner_candidates_def non_reusable_def Let_def store_simps split: option.splits)

lemma owner_candidates_wf: "st_wf (owner_candidates trusted active infos)"
  by (induction infos rule: rev_induct) (auto simp: owner_candidates_def Let_def store_simps split: option.splits)

lemma owner_candidates_get:
  "st_get (owner_candidates trusted active infos) pk =
     (if non_reusable trusted pk \<and> holders infos active pk \<noteq> {} then Some (holders infos active pk) else None)"
proof (induction infos rule: rev_induct)
  case Nil
  then show ?case by (simp add: owner_candidates_def holders_def store_simps)
next
  case (snoc a infos)
  have h: "holders (infos @ [(p, info)]) active pk =
      (if ri_noise_static_pubkey info = pk \<and> active p then insert p (holders infos active pk) else holders infos active pk)" for p info
    by (auto simp: holders_def)
  show ?case by (cases a) (simp add: owner_candidates_snoc snoc h)
qed

lemma elect_owners_get:
  "st_wf cands \<Longrightarrow> st_get (fst (fold elect_owner cands acc)) pk =
     (case st_get cands pk of Some ps \<Rightarrow> if ps = {} then st_get (fst acc) pk else Some (Min ps) | None \<Rightarrow> st_get (fst acc) pk)"
proof (induction cands arbitrary: acc)
  case (Cons a cands)
  obtain k ps where a: "a = (k, ps)" by fastforce
  have wf: "st_wf cands" "st_get cands k = None" using Cons.prems by (auto simp: a st_wf_def st_get_def map_of_eq_None_iff)
  have e: "st_get (fst (elect_owner a acc)) x = (if x = k \<and> ps \<noteq> {} then Some (Min ps) else st_get (fst acc) x)" for x
    by (simp add: a elect_owner_def Let_def store_simps)
  have g: "st_get (a # cands) pk = (if pk = k then Some ps else st_get cands pk)" by (simp add: a st_get_def)
  show ?case using Cons.IH [OF wf(1), of "elect_owner a acc"] wf(2) by (auto simp: e g split: option.splits)
qed (simp add: store_simps)

lemma elect_owners_dups:
  "snd (fold elect_owner cands acc) = snd acc \<union> (\<Union>(pk, ps) \<in> set cands. ps - {Min ps})"
proof (induction cands arbitrary: acc)
  case (Cons a cands)
  have "snd (elect_owner a acc) = snd acc \<union> (snd a - {Min (snd a)})" by (simp add: elect_owner_def Let_def)
  with Cons show ?case by (simp add: split_def Un_assoc)
qed simp

lemma collect_owners:
  "st_get (fst (collect_non_reusable_credential_owners trusted active infos)) pk =
     (if non_reusable trusted pk \<and> holders infos active pk \<noteq> {} then Some (Min (holders infos active pk)) else None)"
  "snd (collect_non_reusable_credential_owners trusted active infos) =
     {p. \<exists>pk. non_reusable trusted pk \<and> p \<in> holders infos active pk \<and> p \<noteq> Min (holders infos active pk)}"
proof -
  let ?c = "owner_candidates trusted active infos"
  show "st_get (fst (collect_non_reusable_credential_owners trusted active infos)) pk =
     (if non_reusable trusted pk \<and> holders infos active pk \<noteq> {} then Some (Min (holders infos active pk)) else None)"
    by (auto simp: collect_non_reusable_credential_owners_def elect_owners_get [OF owner_candidates_wf] owner_candidates_get store_simps)
  have "(\<Union>(pk, ps) \<in> set ?c. ps - {Min ps})
      = {p. \<exists>pk. non_reusable trusted pk \<and> p \<in> holders infos active pk \<and> p \<noteq> Min (holders infos active pk)}"
  proof (intro equalityI subsetI)
    fix p assume "p \<in> {p. \<exists>pk. non_reusable trusted pk \<and> p \<in> holders infos active pk \<and> p \<noteq> Min (holders infos active pk)}"
    then obtain pk where pk: "non_reusable trusted pk" "p \<in> holders infos active pk" "p \<noteq> Min (holders infos active pk)" by blast
    then have "(pk, holders infos active pk) \<in> set ?c"
      by (auto simp: st_get_in_set [OF owner_candidates_wf] owner_candidates_get)
    with pk show "p \<in> (\<Union>(pk, ps) \<in> set ?c. ps - {Min ps})" by blast
  qed (auto simp: st_get_in_set [OF owner_candidates_wf] owner_candidates_get split: if_splits)
  then show "snd (collect_non_reusable_credential_owners trusted active infos) =
     {p. \<exists>pk. non_reusable trusted pk \<and> p \<in> holders infos active pk \<and> p \<noteq> Min (holders infos active pk)}"
    by (simp add: collect_non_reusable_credential_owners_def elect_owners_dups)
qed

lemma fold_insert_get:
  "st_wf m \<Longrightarrow> st_get (fold (\<lambda>(k, v) n. st_insert k v n) m n) k = (case st_get m k of Some v \<Rightarrow> Some v | None \<Rightarrow> st_get n k)"
proof (induction m arbitrary: n)
  case (Cons a m)
  obtain k' v where a: "a = (k', v)" by fastforce
  have wf: "st_wf m" "st_get m k' = None" using Cons.prems by (auto simp: a st_wf_def st_get_def map_of_eq_None_iff)
  have g: "st_get (a # m) k = (if k = k' then Some v else st_get m k)" by (simp add: a st_get_def)
  show ?case using Cons.IH [OF wf(1), of "st_insert k' v n"] wf(2) by (auto simp: a g [unfolded a] store_simps split: option.splits)
qed (simp add: store_simps)

lemma fold_insert_unit: "st_get (fold (\<lambda>p m. st_insert p () m) ps m) p \<noteq> None \<longleftrightarrow> p \<in> set ps \<or> st_get m p \<noteq> None"
  by (induction ps arbitrary: m) (auto simp: store_simps split: if_splits)

lemma fold_insert_wf: "st_wf n \<Longrightarrow> st_wf (fold (\<lambda>(k, v) n. st_insert k v n) m n)"
  by (induction m arbitrary: n) (auto simp: store_simps)

lemma fold_insert_unit_wf: "st_wf m \<Longrightarrow> st_wf (fold (\<lambda>p m. st_insert p () m) ps m)"
  by (induction ps arbitrary: m) (auto simp: store_simps)

lemma collect_trusted_wf: "st_wf (fst (collect_trusted_credentials cr L R nsecret now s))"
proof -
  have "st_wf (fst acc) \<Longrightarrow> st_wf (fst (fold add_item items acc))" for items acc
  proof (induction items arbitrary: acc)
    case (Cons it items)
    then show ?case by (cases it) (auto simp: store_simps)
  qed simp
  then show ?thesis by (simp add: collect_trusted_credentials_items store_simps)
qed

lemma st_get_dom: "(st_get m k \<noteq> None) \<longleftrightarrow> k \<in> set (map fst m)"
  by (simp add: st_get_def map_of_eq_None_iff)

lemma replace_suppressed_iff:
  assumes "finite peers" "st_wf (si_suppressed s)"
  shows "is_route_suppressed p (snd (replace_suppressed peers s)) \<longleftrightarrow> p \<in> peers"
proof (cases "set (map fst (si_suppressed s)) = peers")
  case True
  then show ?thesis using st_get_dom [of "si_suppressed s" p] by (simp add: replace_suppressed_def is_route_suppressed_def)
next
  case False
  then have "snd (replace_suppressed peers s) = s\<lparr>si_suppressed := fold (\<lambda>p m. st_insert p () m) (sorted_list_of_set peers)
      (st_retain (\<lambda>p _. p \<in> peers) (si_suppressed s)), si_version := si_version s + 1\<rparr>"
    unfolding replace_suppressed_def by (simp only: if_False snd_conv)
  then show ?thesis
    using assms by (auto simp: is_route_suppressed_def fold_insert_unit [simplified] st.get_retain split: option.splits)
qed

lemma set_peer_groups_frame [simp]:
  "si_suppressed (set_peer_groups p gs s) = si_suppressed s"
  "si_trusted_credential_pubkeys (set_peer_groups p gs s) = si_trusted_credential_pubkeys s"
  "si_non_reusable_credential_owners (set_peer_groups p gs s) = si_non_reusable_credential_owners s"
  "si_peer_infos (set_peer_groups p gs s) = si_peer_infos s"
  "si_raw_peer_infos (set_peer_groups p gs s) = si_raw_peer_infos s"
  "si_conn_map (set_peer_groups p gs s) = si_conn_map s"
  "si_foreign_network (set_peer_groups p gs s) = si_foreign_network s"
  "si_version (set_peer_groups p gs s) = si_version s"
  by (simp_all add: set_peer_groups_def)

lemma update_credential_groups_frame [simp]:
  "si_suppressed (update_credential_groups t infos s) = si_suppressed s"
  "si_trusted_credential_pubkeys (update_credential_groups t infos s) = si_trusted_credential_pubkeys s"
  "si_non_reusable_credential_owners (update_credential_groups t infos s) = si_non_reusable_credential_owners s"
  "si_peer_infos (update_credential_groups t infos s) = si_peer_infos s"
  "si_raw_peer_infos (update_credential_groups t infos s) = si_raw_peer_infos s"
  "si_conn_map (update_credential_groups t infos s) = si_conn_map s"
  "si_foreign_network (update_credential_groups t infos s) = si_foreign_network s"
  "si_version (update_credential_groups t infos s) = si_version s"
  unfolding update_credential_groups_def by (induction infos arbitrary: s) (auto split: option.splits)

lemma remove_peers_frame [simp]:
  "si_suppressed (remove_peers ps s) = si_suppressed s"
  "si_trusted_credential_pubkeys (remove_peers ps s) = si_trusted_credential_pubkeys s"
  "si_non_reusable_credential_owners (remove_peers ps s) = si_non_reusable_credential_owners s"
  by (simp_all add: remove_peers_def Let_def)

lemma replace_suppressed_frame [simp]:
  "si_trusted_credential_pubkeys (snd (replace_suppressed ps s)) = si_trusted_credential_pubkeys s"
  "si_non_reusable_credential_owners (snd (replace_suppressed ps s)) = si_non_reusable_credential_owners s"
  "si_peer_infos (snd (replace_suppressed ps s)) = si_peer_infos s"
  "si_raw_peer_infos (snd (replace_suppressed ps s)) = si_raw_peer_infos s"
  "si_conn_map (snd (replace_suppressed ps s)) = si_conn_map s"
  "si_foreign_network (snd (replace_suppressed ps s)) = si_foreign_network s"
  "si_group_trust_map (snd (replace_suppressed ps s)) = si_group_trust_map s"
  "si_group_trust_map_cache (snd (replace_suppressed ps s)) = si_group_trust_map_cache s"
  by (simp_all add: replace_suppressed_def)

text \<open>The state after a refresh, field by field.\<close>

lemma remove_peers_guard: "(if u \<noteq> {} then remove_peers u s else s) = remove_peers u s"
  by (simp add: remove_peers_def)

lemma refresh_eq:
  assumes "verify_and_update_credential_trusts_protecting cr L R now nsecret active pp s = ((untrusted, keys, changed), s')"
  defines "trusted \<equiv> fst (collect_trusted_credentials cr L R nsecret now s)"
  defines "elected \<equiv> collect_non_reusable_credential_owners trusted active (si_peer_infos s)"
  shows "s' = remove_peers untrusted (update_credential_groups trusted (si_peer_infos s)
    (snd (replace_suppressed (case pp of Some p \<Rightarrow> snd elected - {p} | None \<Rightarrow> snd elected)
      (replace_non_reusable_credential_owners (fst elected) (snd (replace_trusted_credential_pubkeys trusted s))))))"
  using assms(1) unfolding trusted_def elected_def verify_and_update_credential_trusts_protecting_def Let_def split_def remove_peers_guard
  by (elim Pair_inject) (simp only: prod.sel)

lemma finite_dups: "finite (snd (collect_non_reusable_credential_owners trusted active infos))"
  by (rule finite_subset [of _ "fst ` set infos"]) (force simp: collect_owners holders_def)+

lemma collect_owners_wf: "st_wf (fst (collect_non_reusable_credential_owners trusted active infos))"
proof -
  have "st_wf (fst acc) \<Longrightarrow> st_wf (fst (fold elect_owner cands acc))" for cands acc
    by (induction cands arbitrary: acc) (auto simp: elect_owner_def Let_def store_simps)
  then show ?thesis by (simp add: collect_non_reusable_credential_owners_def store_simps)
qed

lemma refresh_state:
  assumes "verify_and_update_credential_trusts_protecting cr L R now nsecret active pp s = ((untrusted, keys, changed), s')"
    and "st_wf (si_suppressed s)" "st_wf (si_non_reusable_credential_owners s)"
  defines "trusted \<equiv> fst (collect_trusted_credentials cr L R nsecret now s)"
  shows "st_get (si_trusted_credential_pubkeys s') k = st_get trusted k"
    and "is_route_suppressed p s' \<longleftrightarrow> p \<in> snd (collect_non_reusable_credential_owners trusted active (si_peer_infos s)) \<and> pp \<noteq> Some p"
    and "st_get (si_non_reusable_credential_owners s') k = st_get (fst (collect_non_reusable_credential_owners trusted active (si_peer_infos s))) k"
proof -
  let ?e = "collect_non_reusable_credential_owners trusted active (si_peer_infos s)"
  let ?d = "case pp of Some p \<Rightarrow> snd ?e - {p} | None \<Rightarrow> snd ?e"
  let ?s2 = "replace_non_reusable_credential_owners (fst ?e) (snd (replace_trusted_credential_pubkeys trusted s))"
  note s' = refresh_eq [OF assms(1), folded trusted_def]
  show "st_get (si_trusted_credential_pubkeys s') k = st_get trusted k"
    using collect_trusted_wf [of cr L R nsecret now s]
    by (simp add: s' replace_non_reusable_credential_owners_def replace_trusted_credential_pubkeys_def fold_insert_get trusted_def store_simps
        split: option.split)
  have sup: "si_suppressed ?s2 = si_suppressed s"
    by (simp add: replace_non_reusable_credential_owners_def replace_trusted_credential_pubkeys_def)
  have "finite ?d" using finite_dups [of trusted active "si_peer_infos s"] by (simp split: option.split)
  then have "is_route_suppressed p (snd (replace_suppressed ?d ?s2)) \<longleftrightarrow> p \<in> ?d"
    using assms(2) by (intro replace_suppressed_iff) (simp_all add: sup)
  then show "is_route_suppressed p s' \<longleftrightarrow> p \<in> snd ?e \<and> pp \<noteq> Some p"
    by (auto simp: s' is_route_suppressed_def split: option.splits)
  show "st_get (si_non_reusable_credential_owners s') k = st_get (fst ?e) k"
    using collect_owners_wf [of trusted active "si_peer_infos s"] assms(3)
    by (simp add: s' replace_non_reusable_credential_owners_def replace_trusted_credential_pubkeys_def fold_insert_get st.get_retain
        split: option.split)
qed

text \<open>
  C32: a non-reusable credential has one owner.  After a refresh, among the reachable peers that present
  the key of a trusted non-reusable credential, the one with the least identifier is recorded as its owner
  and is not suppressed.  Every other one is suppressed, except the peer the refresh protects, the node
  itself: on its own tables a node is never suppressed, also when another peer owns its credential.
\<close>

theorem non_reusable_single_holder:
  assumes "verify_and_update_credential_trusts_protecting cr L R now nsecret active pp s = ((untrusted, keys, changed), s')"
    and "st_wf (si_peer_infos s)" and "st_wf (si_suppressed s)" and "st_wf (si_non_reusable_credential_owners s)"
    and "get_credential_info_by_pubkey pk s' = Some c" and "\<not> credential_is_reusable c"
    and "p \<in> holders (si_peer_infos s) active pk"
  shows "st_get (si_non_reusable_credential_owners s') pk = Some (Min (holders (si_peer_infos s) active pk))
    \<and> (is_route_suppressed p s' \<longleftrightarrow> p \<noteq> Min (holders (si_peer_infos s) active pk) \<and> pp \<noteq> Some p)"
proof -
  let ?t = "fst (collect_trusted_credentials cr L R nsecret now s)"
  note st = refresh_state [OF assms(1,3,4)]
  have nr: "non_reusable ?t pk"
    using assms(5,6) st(1) by (auto simp: non_reusable_def get_credential_info_by_pubkey_def split: if_splits)
  have only: "pk' = pk" if "p \<in> holders (si_peer_infos s) active pk'" for pk'
    using that assms(7) st_get_in_set [OF assms(2)] by (auto simp: holders_def)
  have "p \<in> snd (collect_non_reusable_credential_owners ?t active (si_peer_infos s)) \<longleftrightarrow> p \<noteq> Min (holders (si_peer_infos s) active pk)"
    unfolding collect_owners using nr assms(7) only by blast
  with st(2,3) nr assms(7) show ?thesis by (auto simp: collect_owners)
qed

end
