(* ===== verification/Ospf_Invariant.thy ===== *)
theory Ospf_Invariant
  imports Ospf_Synced
begin

text \<open>
  The invariant of the link-state database: every operation of \<open>Ospf_Synced\<close> is a step of a
  transition system, and every state reached from the empty database is well formed.  The last
  section runs the operations on a concrete database.
\<close>

section \<open>The invariant\<close>

definition groups_cached :: "'m synced_route_info \<Rightarrow> bool" where
  "groups_cached s \<longleftrightarrow> (\<forall>p. st_get (si_group_trust_map_cache s) p = map_option (map fst) (st_get (si_group_trust_map s) p)
     \<and> st_get (si_group_trust_map s) p \<noteq> Some [])"

definition own_announcements :: "'m synced_route_info \<Rightarrow> bool" where
  "own_announcements s \<longleftrightarrow> (\<forall>p i. st_get (si_peer_infos s) p = Some i \<longrightarrow> ri_peer_id i = p \<or> ri_version i = 0)"

definition stores_wf :: "'m synced_route_info \<Rightarrow> bool" where
  "stores_wf s \<longleftrightarrow> st_wf (si_peer_infos s) \<and> st_wf (si_raw_peer_infos s) \<and> st_wf (si_conn_map s)
     \<and> st_wf (si_foreign_network s) \<and> st_wf (si_group_trust_map s) \<and> st_wf (si_group_trust_map_cache s)
     \<and> st_wf (si_trusted_credential_pubkeys s) \<and> st_wf (si_non_reusable_credential_owners s) \<and> st_wf (si_suppressed s)"

definition conns_finite :: "'m synced_route_info \<Rightarrow> bool" where
  "conns_finite s \<longleftrightarrow> (\<forall>p c. st_get (si_conn_map s) p = Some c \<longrightarrow> finite (rc_connected_peers c))"

definition synced_inv :: "'m synced_route_info \<Rightarrow> bool" where
  "synced_inv s \<longleftrightarrow> stores_wf s \<and> groups_cached s \<and> own_announcements s \<and> conns_finite s"

definition synced_new :: "'m synced_route_info" where
  "synced_new = \<lparr>si_peer_infos = [], si_raw_peer_infos = [], si_conn_map = [], si_foreign_network = [],
     si_group_trust_map = [], si_group_trust_map_cache = [], si_trusted_credential_pubkeys = [],
     si_non_reusable_credential_owners = [], si_suppressed = [], si_version = 0\<rparr>"

lemmas synced_inv_defs = synced_inv_def stores_wf_def groups_cached_def own_announcements_def conns_finite_def

lemma synced_new_inv: "synced_inv synced_new"
  by (simp add: synced_inv_defs synced_new_def store_simps)

lemma synced_inv_version [simp]: "synced_inv (s\<lparr>si_version := v\<rparr>) \<longleftrightarrow> synced_inv s"
  by (simp add: synced_inv_defs)

section \<open>Operations preserve it\<close>

lemma fold_preserves: "(\<And>x s. P s \<Longrightarrow> P (f x s)) \<Longrightarrow> P s \<Longrightarrow> P (fold f xs s)"
  by (induction xs arbitrary: s) simp_all

lemma set_peer_groups_inv: "synced_inv s \<Longrightarrow> synced_inv (set_peer_groups p gs s)"
  by (auto simp: synced_inv_defs set_peer_groups_def store_simps)

lemma update_group_trust_one_inv: "synced_inv s \<Longrightarrow> synced_inv (update_group_trust_one p gs s)"
  by (auto simp: synced_inv_defs update_group_trust_one_def store_simps split: option.split)

lemma group_trusts_inv: "synced_inv s \<Longrightarrow> synced_inv (verify_and_update_group_trusts cr infos decls ta s)"
  unfolding verify_and_update_group_trusts_def Let_def by (rule fold_preserves) (rule update_group_trust_one_inv)

lemma announce_inv: "synced_inv s \<Longrightarrow> synced_inv (announce now a s)"
  by (auto simp: synced_inv_defs announce_def store_peer_info_def Let_def store_simps split: option.split)

lemma update_peer_infos_loop_inv:
  "update_peer_infos_loop R now my_peer my_route_id dst infos raws need s = Some (r, s') \<Longrightarrow> synced_inv s \<Longrightarrow> synced_inv s'"
proof (induction R now my_peer my_route_id dst infos raws need s rule: update_peer_infos_loop.induct)
  case (3 R now my_peer my_route_id dst info infos raw raws need s)
  let ?c = "check_duplicate_peer_id my_peer my_route_id dst
      (if ri_peer_id info = dst then map_option ri_peer_route_id (st_get (si_peer_infos s) dst) else None) info s"
  show ?case
  proof (cases ?c)
    case None
    with "3.prems" show ?thesis by simp
  next
    case c: (Some x)
    show ?thesis
    proof (cases x)
      case (Inl e)
      with c "3.prems" show ?thesis by simp
    next
      case (Inr u)
      with c "3.prems" obtain v where v: "get_field R raw ''peer_id'' = Some v" "value_as_u32 v = Some (ri_peer_id info)"
        by (auto split: bind_splits if_splits)
      obtain ch s1 where st: "store_peer_info now info raw s = (ch, s1)" by fastforce
      have "synced_inv s1" using announce_inv [OF "3.prems"(2), of now "(info, raw)"] st by (simp add: announce_def)
      with "3.IH" [OF c Inr v _ refl st [symmetric]] "3.prems" c Inr v st show ?thesis by simp
    qed
  qed
qed simp_all

lemma update_peer_infos_inv:
  "update_peer_infos R now my_peer my_route_id dst infos raws s = Some (r, s') \<Longrightarrow> synced_inv s \<Longrightarrow> synced_inv s'"
  unfolding update_peer_infos_def map_option_eq_Some
proof (elim exE conjE)
  fix x assume l: "update_peer_infos_loop R now my_peer my_route_id dst infos raws False s = Some x"
    and x: "(\<lambda>(r, s1). case r of Inl e \<Rightarrow> (Inl e, s1)
      | Inr need \<Rightarrow> (Inr (), if need then s1\<lparr>si_version := si_version s1 + 1\<rparr> else s1)) x = (r, s')" and inv: "synced_inv s"
  have "synced_inv (snd x)" using update_peer_infos_loop_inv [of _ _ _ _ _ _ _ _ _ "fst x" "snd x"] l inv by simp
  with x show "synced_inv s'" by (cases "fst x") (auto simp: split_def)
qed

lemma fill_empty_one_inv: "synced_inv (snd acc) \<Longrightarrow> synced_inv (snd (fill_empty_one ver now p acc))"
  by (auto simp: synced_inv_defs fill_empty_one_def Let_def split_def store_simps route_peer_info_new_def)

lemma fill_empty_inv: "synced_inv s \<Longrightarrow> synced_inv (fill_empty_peer_info ver now ps s)"
  using fold_preserves [of "\<lambda>acc. synced_inv (snd acc)" "fill_empty_one ver now" "(False, s)" "sorted_list_of_set ps"]
  by (simp add: fill_empty_peer_info_def split_def Let_def fill_empty_one_inv)

lemma update_conn_one_inv:
  "synced_inv s \<Longrightarrow> finite c \<Longrightarrow> synced_inv (snd (update_conn_info_one_peer now pv c s))"
  by (auto simp: synced_inv_defs update_conn_info_one_peer_def store_simps)

lemma collect_connected_finite: "collect_connected b i ps = Some c \<Longrightarrow> finite c"
  by (induction ps arbitrary: i c) (auto split: bind_splits if_splits)

lemma update_conn_bitmap_loop_inv:
  "update_conn_bitmap_loop ver now b i pvs need s = Some (n, s') \<Longrightarrow> synced_inv s \<Longrightarrow> synced_inv s'"
proof (induction pvs arbitrary: i need s)
  case (Cons pv pvs)
  then obtain c where c: "get_connected_peers_at b i = Some c" by (auto split: bind_splits)
  then have fin: "finite c" by (auto simp: get_connected_peers_at_def collect_connected_finite)
  obtain ch s1 where u: "update_conn_info_one_peer now pv c (fill_empty_peer_info ver now c s) = (ch, s1)" by fastforce
  have "synced_inv s1" using update_conn_one_inv [OF fill_empty_inv [OF Cons.prems(2)] fin, of now pv ver now c] u by simp
  with Cons.IH Cons.prems c u show ?case by simp
qed simp

lemma update_conn_list_loop_inv:
  "synced_inv s \<Longrightarrow> synced_inv (snd (update_conn_list_loop ver now pcs need s))"
proof (induction pcs arbitrary: need s)
  case (Cons pc pcs)
  show ?case
  proof (cases "pc_peer_id pc")
    case None
    with Cons show ?thesis by simp
  next
    case (Some pv)
    let ?c = "set (pc_connected_peer_ids pc)"
    obtain ch s1 where u: "update_conn_info_one_peer now pv ?c (fill_empty_peer_info ver now ?c s) = (ch, s1)" by fastforce
    have "synced_inv s1" using update_conn_one_inv [OF fill_empty_inv [OF Cons.prems], of ?c now pv ver now ?c] u by simp
    with Cons.IH Some u show ?thesis by simp
  qed
qed simp

lemma update_conn_info_inv: "update_conn_info ver now ci s = Some s' \<Longrightarrow> synced_inv s \<Longrightarrow> synced_inv s'"
proof (cases ci)
  case (Conn_Bitmap b)
  then show "update_conn_info ver now ci s = Some s' \<Longrightarrow> synced_inv s \<Longrightarrow> synced_inv s'"
    by (auto simp: update_conn_info_with_bitmap_def dest!: update_conn_bitmap_loop_inv intro: fill_empty_inv)
next
  case (Conn_Peer_List l)
  then show "update_conn_info ver now ci s = Some s' \<Longrightarrow> synced_inv s \<Longrightarrow> synced_inv s'"
    using update_conn_list_loop_inv [of s ver now l False]
    by (auto simp: update_conn_info_with_list_def Let_def split_def)
qed

lemma update_foreign_inv: "synced_inv s \<Longrightarrow> synced_inv (snd (update_foreign_network now items s))"
proof -
  have "synced_inv (snd acc) \<Longrightarrow> synced_inv (snd (update_foreign_one now item acc))" for item and acc :: "bool \<times> 'a synced_route_info"
    by (auto simp: synced_inv_defs update_foreign_one_def Let_def split_def store_simps split: option.split)
  then show "synced_inv s \<Longrightarrow> synced_inv (snd (update_foreign_network now items s))"
    unfolding update_foreign_network_def using fold_preserves [of "\<lambda>acc. synced_inv (snd acc)"] by fastforce
qed

lemma if_snd_eqI: "f x = z \<Longrightarrow> f y = z \<Longrightarrow> f (snd (if P then (a, x) else (b, y))) = z"
  by simp

lemma update_my_peer_info_inv:
  assumes "synced_inv s" "ri_peer_id new = my_peer"
  shows "synced_inv (snd (update_my_peer_info now my_peer new s))"
proof -
  have id: "ri_peer_id (snd (try_update_new_peer_info now o' new)) = my_peer" for o'
  proof -
    let ?n = "new\<lparr>ri_version := ri_version o', ri_last_update := ri_last_update o'\<rparr>"
    have "ri_peer_id ?n = my_peer" "ri_peer_id (?n\<lparr>ri_version := ri_version ?n + 1\<rparr>) = my_peer" using assms(2) by simp_all
    then show ?thesis unfolding try_update_new_peer_info_def Let_def by (rule if_snd_eqI [where f = ri_peer_id, rotated])
  qed
  have ins: "synced_inv (s\<lparr>si_peer_infos := st_insert my_peer i (si_peer_infos s)\<rparr>)" if "ri_peer_id i = my_peer" for i
    using assms(1) that by (auto simp: synced_inv_defs store_simps)
  show ?thesis
    using assms id ins
    by (auto simp: update_my_peer_info_def Let_def split_def update_my_group_trusts_def intro!: set_peer_groups_inv split: option.split)
qed

lemma update_my_conn_inv:
  assumes "synced_inv s" "finite c"
  shows "synced_inv (snd (update_my_conn_info ver now my_peer c s))"
  using fill_empty_inv [OF assms(1), of ver now c] assms(2)
  by (auto simp: update_my_conn_info_def Let_def synced_inv_defs store_simps)

lemma renew_my_entries_keys: "renew_my_entries now my_peer es nets = Some (u, es', nets') \<Longrightarrow> map fst es' = map fst es"
  by (induction es arbitrary: u nets es' nets') (auto split: bind_splits if_splits)

lemma add_my_entries_wf: "add_my_entries v nets st = Some st' \<Longrightarrow> st_wf st \<Longrightarrow> st_wf st'"
  by (induction nets arbitrary: st) (auto simp: store_simps split: if_splits option.splits)

lemma foreign_network_inv: "synced_inv s \<Longrightarrow> st_wf fn \<Longrightarrow> synced_inv (s\<lparr>si_foreign_network := fn\<rparr>)"
  by (simp add: synced_inv_defs)

lemma update_my_foreign_inv:
  assumes "update_my_foreign_network now my_peer nets s = Some (u, s')" "synced_inv s"
  shows "synced_inv s'"
proof -
  obtain v stored rest fn where
    r: "renew_my_entries now my_peer (si_foreign_network s) nets = Some (v, stored, rest)"
    and a: "add_my_entries (of_int (now div sec 1)) rest stored = Some fn"
    and s': "s' = (if v \<or> rest \<noteq> [] then s\<lparr>si_foreign_network := fn, si_version := si_version s + 1\<rparr> else s\<lparr>si_foreign_network := fn\<rparr>)"
  proof -
    obtain v stored rest where r: "renew_my_entries now my_peer (si_foreign_network s) nets = Some (v, stored, rest)"
      using assms(1) by (auto simp: update_my_foreign_network_def split: bind_splits)
    moreover from r obtain fn where "add_my_entries (of_int (now div sec 1)) rest stored = Some fn"
      using assms(1) by (auto simp: update_my_foreign_network_def split: bind_splits)
    ultimately show ?thesis using assms(1) that by (auto simp: update_my_foreign_network_def Let_def split: if_splits)
  qed
  have "st_wf stored" using renew_my_entries_keys [OF r] assms(2) by (simp add: synced_inv_def stores_wf_def st_wf_def)
  then have "synced_inv (s\<lparr>si_foreign_network := fn\<rparr>)" using assms(2) add_my_entries_wf [OF a] by (intro foreign_network_inv)
  then show ?thesis by (simp add: s' synced_inv_defs)
qed

lemma update_credential_groups_inv: "synced_inv s \<Longrightarrow> synced_inv (update_credential_groups t infos s)"
  unfolding update_credential_groups_def by (rule fold_preserves) (auto intro: set_peer_groups_inv split: option.split)

lemma remove_all_get: "st_get (fold st_remove ps m) k = (if k \<in> set ps then None else st_get m k)"
  by (induction ps arbitrary: m) (auto simp: store_simps)

lemma remove_all_wf: "st_wf m \<Longrightarrow> st_wf (fold st_remove ps m)"
  by (rule fold_preserves) (simp_all add: store_simps)

lemma remove_peers_inv: "synced_inv s \<Longrightarrow> synced_inv (remove_peers ps s)"
  by (auto simp: synced_inv_defs remove_peers_def Let_def remove_all_get remove_all_wf store_simps)

lemma replace_suppressed_inv: "synced_inv s \<Longrightarrow> synced_inv (snd (replace_suppressed ps s))"
  by (simp add: synced_inv_defs replace_suppressed_def fold_insert_unit_wf store_simps)

lemma refresh_inv:
  assumes "verify_and_update_credential_trusts_protecting cr L R now nsecret active pp s = ((u, keys, ch), s')" "synced_inv s"
  shows "synced_inv s'"
proof -
  let ?t = "fst (collect_trusted_credentials cr L R nsecret now s)"
  let ?o = "fst (collect_non_reusable_credential_owners ?t active (si_peer_infos s))"
  have "synced_inv (replace_non_reusable_credential_owners ?o (snd (replace_trusted_credential_pubkeys ?t s)))"
    using assms(2)
    by (simp add: synced_inv_defs replace_non_reusable_credential_owners_def replace_trusted_credential_pubkeys_def fold_insert_wf store_simps)
  then show ?thesis unfolding refresh_eq [OF assms(1)]
    by (intro remove_peers_inv update_credential_groups_inv replace_suppressed_inv)
qed

section \<open>The transition system\<close>

text \<open>A step is one operation; a failed operation may have changed the state before it failed.\<close>

inductive synced_step :: "crypto \<Rightarrow> cred_lib \<Rightarrow> 'm reflect_lib \<Rightarrow> string \<Rightarrow> 'm synced_route_info \<Rightarrow> 'm synced_route_info \<Rightarrow> bool"
  for cr L R ver where
  peer_infos: "update_peer_infos R now my_peer my_route_id dst infos raws s = Some (r, s') \<Longrightarrow> synced_step cr L R ver s s'"
| conn_info: "update_conn_info ver now ci s = Some s' \<Longrightarrow> synced_step cr L R ver s s'"
| foreign: "synced_step cr L R ver s (snd (update_foreign_network now items s))"
| group_trusts: "synced_step cr L R ver s (verify_and_update_group_trusts cr infos decls ta s)"
| my_peer_info: "ri_peer_id new = my_peer \<Longrightarrow> synced_step cr L R ver s (snd (update_my_peer_info now my_peer new s))"
| my_conn_info: "finite c \<Longrightarrow> synced_step cr L R ver s (snd (update_my_conn_info ver now my_peer c s))"
| my_foreign: "update_my_foreign_network now my_peer nets s = Some (u, s') \<Longrightarrow> synced_step cr L R ver s s'"
| refresh: "verify_and_update_credential_trusts_protecting cr L R t nsecret active pp s = (out, s') \<Longrightarrow> synced_step cr L R ver s s'"
| remove: "synced_step cr L R ver s (remove_peers ps s)"

lemma synced_step_inv: "synced_step cr L R ver s s' \<Longrightarrow> synced_inv s \<Longrightarrow> synced_inv s'"
proof (induction rule: synced_step.induct)
  case (refresh t nsecret active pp s out s')
  then show ?case by (cases out) (auto intro: refresh_inv)
qed (auto intro: update_peer_infos_inv update_conn_info_inv update_foreign_inv group_trusts_inv
    update_my_peer_info_inv update_my_conn_inv update_my_foreign_inv remove_peers_inv)

text \<open>
  The link-state database is always well formed.  Whatever operations are applied to an empty
  database, in any order and with any data from the network, every table keeps its keys distinct, the
  announcement stored under a peer is that peer's own or an empty placeholder, the group names
  served to the access control are exactly the names in the trust table, and connection sets are finite.
\<close>

theorem synced_reachable_inv:
  assumes "(synced_step cr L R ver)\<^sup>*\<^sup>* synced_new s"
  shows "synced_inv s"
  using assms by (induction rule: rtranclp_induct) (simp_all add: synced_new_inv synced_step_inv)

section \<open>A concrete database\<close>

definition toy_reflect :: "u32 reflect_lib" where
  "toy_reflect = \<lparr>get_field = (\<lambda>m f. if f = ''peer_id'' then Some (VU32 m) else None), set_field = (\<lambda>_ _ m. m),
     transcode = ri_peer_id, encode_to_vec = (\<lambda>_. [])\<rparr>"

definition toy_info :: "u32 \<Rightarrow> u32 \<Rightarrow> route_peer_info" where
  "toy_info p v = (route_peer_info_new ''2'')\<lparr>ri_peer_id := p, ri_version := v\<rparr>"

lemma toy_info_simps [simp]:
  "ri_peer_id (toy_info p v) = p" "ri_version (toy_info p v) = v" "ri_peer_route_id (toy_info p v) = 0"
  "ri_noise_static_pubkey (toy_info p v) = []" "ri_trusted_credential_pubkeys (toy_info p v) = []" "ri_feature_flag (toy_info p v) = None"
  by (simp_all add: toy_info_def route_peer_info_new_def)

lemma toy_receive:
  "\<exists>s. update_peer_infos toy_reflect now 9 0 8 [toy_info 1 v, toy_info 1 w] [1, 1] synced_new = Some (Inr (), s)"
  by (simp add: update_peer_infos_def check_duplicate_peer_id_def toy_reflect_def split_def synced_new_def store_peer_info_def Let_def store_simps)

theorem announcements_commute_witness:
  "\<exists>s1 s2. update_peer_infos toy_reflect 100 9 0 8 [toy_info 1 5, toy_info 1 7] [1, 1] synced_new = Some (Inr (), s1)
     \<and> update_peer_infos toy_reflect 200 9 0 8 [toy_info 1 7, toy_info 1 5] [1, 1] synced_new = Some (Inr (), s2)
     \<and> st_get (si_raw_peer_infos s1) 1 = st_get (si_raw_peer_infos s2) 1"
proof -
  obtain s1 where 1: "update_peer_infos toy_reflect 100 9 0 8 [toy_info 1 5, toy_info 1 7] [1, 1] synced_new = Some (Inr (), s1)"
    using toy_receive by blast
  obtain s2 where 2: "update_peer_infos toy_reflect 200 9 0 8 [toy_info 1 7, toy_info 1 5] [1, 1] synced_new = Some (Inr (), s2)"
    using toy_receive by blast
  have "st_get (si_raw_peer_infos s1) 1 = st_get (si_raw_peer_infos s2) 1"
    using announcements_commute [OF 1 2, of 1] by (simp add: insert_commute)
  with 1 2 show ?thesis by blast
qed

definition toy_credential :: trusted_credential_pubkey where
  "toy_credential = \<lparr>tc_pubkey = [5], tc_groups = [], tc_allow_relay = False, tc_expiry_unix = 100,
     tc_allowed_proxy_cidrs = [], tc_reusable = Some False\<rparr>"

text \<open>An administrator with its own key that vouches for one credential, and two peers presenting it.\<close>

definition toy_synced :: "u32 synced_route_info" where
  "toy_synced = synced_new\<lparr>si_peer_infos :=
     [(1, (toy_info 1 1)\<lparr>ri_noise_static_pubkey := [7],
             ri_trusted_credential_pubkeys := [new_signed toy_crypto toy_cred_lib toy_credential ''s'']\<rparr>),
      (4, mark_credential_peer True ((toy_info 4 1)\<lparr>ri_noise_static_pubkey := [5]\<rparr>)),
      (3, mark_credential_peer True ((toy_info 3 1)\<lparr>ri_noise_static_pubkey := [5]\<rparr>))]\<rparr>"

lemma toy_accepted: "accepted toy_crypto toy_cred_lib toy_reflect None (Some ''s'') 50 0 (new_signed toy_crypto toy_cred_lib toy_credential ''s'') = Some toy_credential"
proof -
  have "verify_credential_hmac toy_crypto toy_cred_lib (new_signed toy_crypto toy_cred_lib toy_credential ''s'') ''s''"
    by (rule new_signed_verifies) (simp add: toy_crypto_def)
  then show ?thesis by (simp add: accepted_def credential_proof_is_valid_def new_signed_def toy_credential_def)
qed

lemma toy_trust_items:
  "trust_items toy_crypto toy_cred_lib toy_reflect (Some ''s'') 50 toy_synced = [Node_Key [7], Credential_Key toy_credential]"
  by (simp add: trust_items_def peer_items_def toy_synced_def synced_new_def is_admin_peer_def is_credential_peer_info_def
      mark_credential_peer_def toy_accepted store_simps List.map_filter_simps)

theorem trusted_keys_exact_witness:
  "\<exists>untrusted keys ch s'. verify_and_update_credential_trusts_protecting toy_crypto toy_cred_lib toy_reflect 50 (Some ''s'') (\<lambda>_. True) None toy_synced
     = ((untrusted, keys, ch), s') \<and> verify_trusted_key 50 [7] ''net'' (update_trusted_keys ''net'' keys [])
     \<and> verify_trusted_key 50 [5] ''net'' (update_trusted_keys ''net'' keys [])
     \<and> \<not> verify_trusted_key 50 [6] ''net'' (update_trusted_keys ''net'' keys [])"
proof -
  obtain u keys ch s' where r: "verify_and_update_credential_trusts_protecting toy_crypto toy_cred_lib toy_reflect 50 (Some ''s'') (\<lambda>_. True) None toy_synced
      = ((u, keys, ch), s')" by (metis prod_cases4 surj_pair)
  have a: "admin_node_key toy_synced pk \<longleftrightarrow> pk = [7]" for pk
    using set_trust_items [of "Node_Key pk" toy_crypto toy_cred_lib toy_reflect "Some ''s''" 50 toy_synced] by (simp add: toy_trust_items)
  have v: "vouched toy_crypto toy_cred_lib toy_reflect (Some ''s'') 50 toy_synced c \<longleftrightarrow> c = toy_credential" for c
    using set_trust_items [of "Credential_Key c" toy_crypto toy_cred_lib toy_reflect "Some ''s''" 50 toy_synced] by (simp add: toy_trust_items)
  have pk: "tc_pubkey toy_credential = [5]" by (simp add: toy_credential_def)
  show ?thesis
    using r trusted_keys_exact [OF r, of "[7]" "''net''" "[]" 50] trusted_keys_exact [OF r, of "[5]" "''net''" "[]" 50]
      trusted_keys_exact [OF r, of "[6]" "''net''" "[]" 50]
    by (simp add: a v pk)
qed

theorem non_reusable_single_holder_witness:
  "\<exists>out s'. verify_and_update_credential_trusts_protecting toy_crypto toy_cred_lib toy_reflect 50 (Some ''s'') (\<lambda>_. True) None toy_synced
     = (out, s') \<and> \<not> is_route_suppressed 3 s' \<and> is_route_suppressed 4 s'"
proof -
  obtain u keys ch s' where r: "verify_and_update_credential_trusts_protecting toy_crypto toy_cred_lib toy_reflect 50 (Some ''s'') (\<lambda>_. True) None toy_synced
      = ((u, keys, ch), s')" by (metis prod_cases4 surj_pair)
  have wf: "st_wf (si_peer_infos toy_synced)" "st_wf (si_suppressed toy_synced)" "st_wf (si_non_reusable_credential_owners toy_synced)"
    by (simp_all add: toy_synced_def synced_new_def st_wf_def)
  have "st_get (si_trusted_credential_pubkeys s') [5] = Some toy_credential"
    using refresh_state(1) [OF r wf(2,3), of "[5]"]
    by (simp add: collect_trusted_credentials_items toy_trust_items toy_credential_def store_simps)
  then have c: "get_credential_info_by_pubkey [5] s' = Some toy_credential" by (simp add: get_credential_info_by_pubkey_def)
  have nr: "\<not> credential_is_reusable toy_credential" by (simp add: credential_is_reusable_def toy_credential_def)
  have h: "holders (si_peer_infos toy_synced) (\<lambda>_. True) [5] = {3, 4}"
    by (auto simp: holders_def toy_synced_def mark_credential_peer_def)
  show ?thesis
    using r non_reusable_single_holder [OF r wf c nr, of 3] non_reusable_single_holder [OF r wf c nr, of 4] by (simp add: h)
qed

theorem synced_reachable_inv_witness:
  "\<exists>s. (synced_step toy_crypto toy_cred_lib toy_reflect ''2'')\<^sup>*\<^sup>* synced_new s \<and> si_peer_infos s \<noteq> [] \<and> synced_inv s"
proof -
  let ?s = "snd (update_my_peer_info 100 1 (toy_info 1 0) (synced_new :: u32 synced_route_info))"
  have "(synced_step toy_crypto toy_cred_lib toy_reflect ''2'')\<^sup>*\<^sup>* synced_new ?s"
    by (rule r_into_rtranclp) (rule synced_step.my_peer_info, simp)
  moreover have "si_peer_infos ?s \<noteq> []"
    by (simp add: update_my_peer_info_def synced_new_def update_my_group_trusts_def store_simps Let_def st_insert_def)
  ultimately show ?thesis using synced_reachable_inv by blast
qed

end
