(* ===== verification/Route_Table.thy ===== *)
theory Route_Table
  imports Ospf_Invariant Graph_Algo
begin

text \<open>
  The route table of \<^verbatim>\<open>peers/peer_ospf_route.rs\<close>: the graph built from the link-state database, the next
  hops with fewest hops or least cost, and the maps from addresses and prefixes to peers.

  A node of the graph is named by its peer; \<^verbatim>\<open>NodeIndex::end()\<close> is \<^term>\<open>None\<close>.  The heap of the shortest
  path computation is the argument \<open>pop\<close> of \<open>Graph_Algo\<close>, the Dijkstra routine of \<^verbatim>\<open>petgraph\<close> is the
  argument \<open>pg\<close>, and the longest prefix match of the prefix trie is the parameter \<open>prefix_lib\<close>.  A
  route cost is an \<^verbatim>\<open>i32\<close> cast to \<^verbatim>\<open>usize\<close>, so a negative cost becomes a very large one; sums of costs
  along a path are natural numbers (with non-negative costs they stay below \<open>2 ^ 64\<close> on every simple
  path).
\<close>

section \<open>Data\<close>

record next_hop_info =
  nh_next_hop_peer_id :: peer_id
  nh_path_latency :: "32 word"
  nh_path_len :: nat
  nh_version :: u32

type_synonym cidr4_map = "(u32 \<times> nat, peer_id_version) store"
type_synonym cidr6_map = "(u128 \<times> nat, peer_id_version) store"

record route_table =
  rt_peer_infos :: "(peer_id, route_peer_info) store"
  rt_next_hop_map :: "(peer_id, next_hop_info) store"
  rt_suppressed :: "(peer_id, unit) store"
  rt_ipv4_peer_id_map :: "(u32, peer_id_version) store"
  rt_ipv6_peer_id_map :: "(u128, peer_id_version) store"
  rt_cidr_peer_id_map :: cidr4_map
  rt_cidr_v6_peer_id_map :: cidr6_map
  rt_next_hop_map_version :: u32

definition route_table_new :: route_table where
  "route_table_new = \<lparr>rt_peer_infos = [], rt_next_hop_map = [], rt_suppressed = [], rt_ipv4_peer_id_map = [],
     rt_ipv6_peer_id_map = [], rt_cidr_peer_id_map = [], rt_cidr_v6_peer_id_map = [], rt_next_hop_map_version = 0\<rparr>"

datatype next_hop_policy = LeastHop | LeastCost

record peer_graph =
  pg_nodes :: "peer_id list"
  pg_edges :: "(peer_id \<times> peer_id \<times> nat) list"

definition out_edges :: "(peer_id \<times> peer_id \<times> nat) list \<Rightarrow> peer_id edges" where
  "out_edges es u = map snd (filter (\<lambda>e. fst e = u) es)"

definition AVOID_RELAY_COST :: nat where
  "AVOID_RELAY_COST = 2 ^ 31 - 1"

type_synonym cost_calc = "peer_id \<Rightarrow> peer_id \<Rightarrow> 32 word"
type_synonym pg_dijkstra = "peer_id edges \<Rightarrow> peer_id \<Rightarrow> (peer_id, nat) store"

section \<open>Lookups\<close>

definition get_topology_next_hop :: "peer_id \<Rightarrow> route_table \<Rightarrow> next_hop_info option" where
  "get_topology_next_hop dst t = (case st_get (rt_next_hop_map t) dst of
     Some x \<Rightarrow> if nh_version x \<ge> rt_next_hop_map_version t then Some x else None
   | None \<Rightarrow> None)"

definition get_next_hop :: "peer_id \<Rightarrow> route_table \<Rightarrow> next_hop_info option" where
  "get_next_hop dst t = (if st_get (rt_suppressed t) dst \<noteq> None then None else get_topology_next_hop dst t)"

definition peer_reachable :: "peer_id \<Rightarrow> route_table \<Rightarrow> bool" where
  "peer_reachable peer t \<longleftrightarrow> get_next_hop peer t \<noteq> None"

definition topology_peer_reachable :: "peer_id \<Rightarrow> route_table \<Rightarrow> bool" where
  "topology_peer_reachable peer t \<longleftrightarrow> get_topology_next_hop peer t \<noteq> None"

definition sync_suppressed_peer_ids :: "'m synced_route_info \<Rightarrow> route_table \<Rightarrow> route_table" where
  "sync_suppressed_peer_ids s t =
     t\<lparr>rt_suppressed := fold (\<lambda>p m. st_insert p () m) (map fst (si_suppressed s))
         (st_retain (\<lambda>p _. is_route_suppressed p s) (rt_suppressed t))\<rparr>"

datatype nat_type = Unknown | OpenInternet | NoPat | FullCone | Restricted | PortRestricted | Symmetric | SymUdpFirewall
  | SymmetricEasyInc | SymmetricEasyDec

text \<open>\<^verbatim>\<open>NatType::try_from\<close>; the default of the enumeration is \<^verbatim>\<open>Unknown\<close>.\<close>

definition nat_type_try_from :: "int \<Rightarrow> nat_type option" where
  "nat_type_try_from n = map_of (zip [0..9] [Unknown, OpenInternet, NoPat, FullCone, Restricted, PortRestricted, Symmetric,
     SymUdpFirewall, SymmetricEasyInc, SymmetricEasyDec]) n"

definition get_udp_nat_type :: "peer_id \<Rightarrow> route_table \<Rightarrow> nat_type option" where
  "get_udp_nat_type peer t = map_option (\<lambda>x. case nat_type_try_from (ri_udp_nat_type x) of Some n \<Rightarrow> n | None \<Rightarrow> Unknown)
     (st_get (rt_peer_infos t) peer)"

section \<open>The graph\<close>

definition graph_nodes :: "'m synced_route_info \<Rightarrow> peer_id list" where
  "graph_nodes s = map fst (filter (\<lambda>(_, info). ri_version info \<noteq> 0) (si_peer_infos s))"

definition edge_cost :: "cost_calc \<Rightarrow> 'm synced_route_info \<Rightarrow> peer_id \<Rightarrow> peer_id \<Rightarrow> nat" where
  "edge_cost calc s src dst =
     (let cost = (scast (calc src dst) :: u64)
      in unat (if get_avoid_relay_data src s then cost + of_nat AVOID_RELAY_COST else cost))"

definition edges_from :: "peer_id \<Rightarrow> cost_calc \<Rightarrow> 'm synced_route_info \<Rightarrow> peer_id \<Rightarrow> (peer_id \<times> peer_id \<times> nat) list" where
  "edges_from my_peer calc s src =
     (if src \<noteq> my_peer \<and> is_route_suppressed src s then []
      else let connected = (case get_connected_peers src s of Some c \<Rightarrow> c | None \<Rightarrow> {})
           in map (\<lambda>dst. (src, dst, edge_cost calc s src dst))
                (filter (\<lambda>dst. dst \<in> set (graph_nodes s)) (sorted_list_of_set connected)))"

definition build_peer_graph_from_synced_info ::
  "peer_id \<Rightarrow> cost_calc \<Rightarrow> 'm synced_route_info \<Rightarrow> peer_graph \<times> peer_id option" where
  "build_peer_graph_from_synced_info my_peer calc s =
     (let nodes = graph_nodes s
      in if my_peer \<notin> set nodes then (\<lparr>pg_nodes = nodes, pg_edges = []\<rparr>, None)
         else (\<lparr>pg_nodes = nodes, pg_edges = concat (map (edges_from my_peer calc s) nodes)\<rparr>, Some my_peer))"

section \<open>Next hops\<close>

definition clean_expired_route_info :: "route_table \<Rightarrow> route_table" where
  "clean_expired_route_info t =
     (let t1 = t\<lparr>rt_next_hop_map := st_retain (\<lambda>_ v. nh_version v \<ge> rt_next_hop_map_version t) (rt_next_hop_map t)\<rparr>
      in t1\<lparr>rt_peer_infos := st_retain (\<lambda>k _. peer_reachable k t1) (rt_peer_infos t1),
            rt_ipv4_peer_id_map := st_retain (\<lambda>_ v. peer_reachable (pv_peer_id v) t1) (rt_ipv4_peer_id_map t1),
            rt_ipv6_peer_id_map := st_retain (\<lambda>_ v. peer_reachable (pv_peer_id v) t1) (rt_ipv6_peer_id_map t1)\<rparr>)"

text \<open>Recording the result of a path computation; a missing cost is a panic.\<close>

fun record_hops :: "u32 \<Rightarrow> (peer_id, nat) store \<Rightarrow> (peer_id \<times> peer_id \<times> nat) list \<Rightarrow> (peer_id, next_hop_info) store
    \<Rightarrow> (peer_id, next_hop_info) store option" where
  "record_hops version costs [] m = Some m"
| "record_hops version costs ((dst, hop, len) # hops) m = (case st_get costs dst of
     None \<Rightarrow> None
   | Some c \<Rightarrow>
       let info = \<lparr>nh_next_hop_peer_id = hop, nh_path_latency = of_nat (c mod AVOID_RELAY_COST), nh_path_len = len, nh_version = version\<rparr>
       in record_hops version costs hops (case st_get m dst of
            Some x \<Rightarrow> if nh_version x < version then st_insert dst info m else m
          | None \<Rightarrow> st_insert dst info m))"

definition gen_next_hop_map_with_least_cost ::
  "peer_id heap_pop \<Rightarrow> peer_graph \<Rightarrow> peer_id \<Rightarrow> u32 \<Rightarrow> route_table \<Rightarrow> route_table option" where
  "gen_next_hop_map_with_least_cost pop g start version t =
     (if start \<notin> set (pg_nodes g) then Some t
      else do {
        (costs, hops) \<leftarrow> dijkstra_with_first_hop pop (out_edges (pg_edges g)) start;
        m \<leftarrow> record_hops version costs hops (rt_next_hop_map t);
        Some (t\<lparr>rt_next_hop_map := m, rt_next_hop_map_version := snd (set_if_larger version (rt_next_hop_map_version t))\<rparr>)
      })"

definition normalize_edge_cost :: "nat \<Rightarrow> nat" where
  "normalize_edge_cost w = (if w \<ge> AVOID_RELAY_COST then AVOID_RELAY_COST + 1 else 1)"

definition normalized :: "(peer_id \<times> peer_id \<times> nat) list \<Rightarrow> (peer_id \<times> peer_id \<times> nat) list" where
  "normalized es = map (\<lambda>(u, v, w). (u, v, normalize_edge_cost w)) es"

text \<open>The edges that lie on a path with fewest hops.\<close>

definition shortest_edges :: "(peer_id, nat) store \<Rightarrow> (peer_id \<times> peer_id \<times> nat) list \<Rightarrow> (peer_id \<times> peer_id \<times> nat) list" where
  "shortest_edges lens es = filter (\<lambda>(u, v, w). case (st_get lens u, st_get lens v) of
     (Some a, Some b) \<Rightarrow> a + normalize_edge_cost w = b
   | _ \<Rightarrow> False) es"

definition gen_next_hop_map_with_least_hop ::
  "peer_id heap_pop \<Rightarrow> pg_dijkstra \<Rightarrow> peer_graph \<Rightarrow> peer_id \<Rightarrow> u32 \<Rightarrow> route_table \<Rightarrow> route_table option" where
  "gen_next_hop_map_with_least_hop pop pg g start version t =
     (if start \<notin> set (pg_nodes g) then Some t
      else let lens = pg (out_edges (normalized (pg_edges g))) start
           in gen_next_hop_map_with_least_cost pop (g\<lparr>pg_edges := shortest_edges lens (pg_edges g)\<rparr>) start version t)"

section \<open>Addresses and prefixes\<close>

definition is_new_peer_better :: "route_table \<Rightarrow> peer_id_version \<Rightarrow> next_hop_info \<Rightarrow> peer_id_version \<Rightarrow> bool" where
  "is_new_peer_better t new new_hop old =
     (if pv_version new > pv_version old then True
      else if pv_peer_id new = pv_peer_id old then False
      else (case get_next_hop (pv_peer_id old) t of None \<Rightarrow> True | Some oh \<Rightarrow> nh_path_len new_hop < nh_path_len oh))"

definition claim_entry :: "(peer_id_version \<Rightarrow> bool) \<Rightarrow> peer_id_version \<Rightarrow> 'k \<Rightarrow> ('k, peer_id_version) store \<Rightarrow> ('k, peer_id_version) store" where
  "claim_entry better pv k m = (case st_get m k of
     Some old \<Rightarrow> if better old then st_insert k pv m else m
   | None \<Rightarrow> st_insert k pv m)"

definition claim_opt :: "(peer_id_version \<Rightarrow> bool) \<Rightarrow> peer_id_version \<Rightarrow> 'k option \<Rightarrow> ('k, peer_id_version) store \<Rightarrow> ('k, peer_id_version) store" where
  "claim_opt better pv k m = (case k of Some x \<Rightarrow> claim_entry better pv x m | None \<Rightarrow> m)"

definition claim_cidr ::
  "cidr_lib \<Rightarrow> peer_id \<Rightarrow> ip_cidr list \<Rightarrow> (peer_id_version \<Rightarrow> bool) \<Rightarrow> peer_id_version \<Rightarrow> string \<Rightarrow> cidr4_map \<times> cidr6_map \<Rightarrow> cidr4_map \<times> cidr6_map" where
  "claim_cidr cl my_peer local_cidrs better pv str tries = (case cidr_parse cl str of
     None \<Rightarrow> tries
   | Some cidr \<Rightarrow>
       if pv_peer_id pv \<noteq> my_peer \<and> list_ex (\<lambda>l. cidr_is_subset cidr l) local_cidrs then tries
       else (case cidr of
         CidrV4 a n \<Rightarrow> (claim_entry (\<lambda>e. pv_peer_id pv = my_peer \<or> better e) pv (a, n) (fst tries), snd tries)
       | CidrV6 a n \<Rightarrow> (fst tries, claim_entry (\<lambda>e. pv_peer_id pv = my_peer \<or> better e) pv (a, n) (snd tries))))"

definition add_peer_routes ::
  "cidr_lib \<Rightarrow> peer_id \<Rightarrow> u32 \<Rightarrow> ip_cidr list \<Rightarrow> 'm synced_route_info \<Rightarrow> peer_id \<times> next_hop_info
   \<Rightarrow> route_table \<times> cidr4_map \<times> cidr6_map \<Rightarrow> route_table \<times> cidr4_map \<times> cidr6_map" where
  "add_peer_routes cl my_peer version local_cidrs s item acc =
     (let (t, tries) = acc; (peer, hop) = item
      in if nh_version hop < version then acc
         else if \<not> peer_reachable peer t then acc
         else (case st_get (si_peer_infos s) peer of
           None \<Rightarrow> acc
         | Some info \<Rightarrow>
             let pv = \<lparr>pv_peer_id = peer, pv_version = version\<rparr>;
                 better = is_new_peer_better t pv hop
             in (t\<lparr>rt_peer_infos := st_insert peer info (rt_peer_infos t),
                   rt_ipv4_peer_id_map := claim_opt better pv (ri_ipv4_addr info) (rt_ipv4_peer_id_map t),
                   rt_ipv6_peer_id_map := claim_opt better pv (Option.bind (ri_ipv6_public_addr_lease info) fst)
                     (claim_opt better pv (Option.bind (ri_ipv6_addr info) fst) (rt_ipv6_peer_id_map t))\<rparr>,
                 fold (claim_cidr cl my_peer local_cidrs better pv) (ri_proxy_cidrs info) tries)))"

definition build_from_synced_info ::
  "peer_id heap_pop \<Rightarrow> pg_dijkstra \<Rightarrow> cidr_lib \<Rightarrow> peer_id \<Rightarrow> next_hop_policy \<Rightarrow> cost_calc \<Rightarrow> 'm synced_route_info
   \<Rightarrow> route_table \<Rightarrow> route_table option" where
  "build_from_synced_info pop pg cl my_peer policy calc s t =
     (let version = si_version s;
          t1 = sync_suppressed_peer_ids s t;
          local_cidrs = List.map_filter (cidr_parse cl)
            (case st_get (si_peer_infos s) my_peer of Some info \<Rightarrow> ri_proxy_cidrs info | None \<Rightarrow> []);
          (g, start) = build_peer_graph_from_synced_info my_peer calc s;
          stale = clean_expired_route_info (t1\<lparr>rt_next_hop_map_version := snd (set_if_larger version (rt_next_hop_map_version t1))\<rparr>)
      in if pg_nodes g = [] then Some stale
         else (case start of
           None \<Rightarrow> Some stale
         | Some st \<Rightarrow> do {
             t2 \<leftarrow> (case policy of
               LeastHop \<Rightarrow> gen_next_hop_map_with_least_hop pop pg g st version t1
             | LeastCost \<Rightarrow> gen_next_hop_map_with_least_cost pop g st version t1);
             let (t3, trie, trie6) = fold (add_peer_routes cl my_peer version local_cidrs s) (rt_next_hop_map t2) (t2, [], [])
             in Some (clean_expired_route_info (t3\<lparr>rt_cidr_peer_id_map := trie, rt_cidr_v6_peer_id_map := trie6\<rparr>))
           }))"

text \<open>Longest prefix match in the trie: \<^verbatim>\<open>PrefixMap::get_lpm\<close>.\<close>

record prefix_lib =
  get_lpm4 :: "cidr4_map \<Rightarrow> u32 \<Rightarrow> peer_id_version option"
  get_lpm6 :: "cidr6_map \<Rightarrow> u128 \<Rightarrow> peer_id_version option"

fun get_peer_id_for_proxy :: "prefix_lib \<Rightarrow> ip_addr \<Rightarrow> route_table \<Rightarrow> peer_id option" where
  "get_peer_id_for_proxy P (IpV4 a) t = map_option pv_peer_id (get_lpm4 P (rt_cidr_peer_id_map t) a)"
| "get_peer_id_for_proxy P (IpV6 a) t = map_option pv_peer_id (get_lpm6 P (rt_cidr_v6_peer_id_map t) a)"

text \<open>The lookups of the router; \<open>same_network\<close> says whether the address is in our own network.\<close>

definition get_peer_id_by_ipv4 :: "prefix_lib \<Rightarrow> (ip_addr \<Rightarrow> bool) \<Rightarrow> u32 \<Rightarrow> route_table \<Rightarrow> peer_id option" where
  "get_peer_id_by_ipv4 P same_network a t = (case st_get (rt_ipv4_peer_id_map t) a of
     Some p \<Rightarrow> Some (pv_peer_id p)
   | None \<Rightarrow> if same_network (IpV4 a) then None else get_peer_id_for_proxy P (IpV4 a) t)"

definition get_peer_id_by_ipv6 :: "prefix_lib \<Rightarrow> (ip_addr \<Rightarrow> bool) \<Rightarrow> u128 \<Rightarrow> route_table \<Rightarrow> peer_id option" where
  "get_peer_id_by_ipv6 P same_network a t = (case st_get (rt_ipv6_peer_id_map t) a of
     Some p \<Rightarrow> Some (pv_peer_id p)
   | None \<Rightarrow> if same_network (IpV6 a) then None else get_peer_id_for_proxy P (IpV6 a) t)"

definition get_next_hop_with_policy :: "route_table \<times> route_table \<Rightarrow> peer_id \<Rightarrow> next_hop_policy \<Rightarrow> peer_id option" where
  "get_next_hop_with_policy tables dst policy =
     map_option nh_next_hop_peer_id (get_next_hop dst (case policy of LeastCost \<Rightarrow> snd tables | LeastHop \<Rightarrow> fst tables))"

end
