(* ===== verification/Route_Optimal.thy ===== *)
theory Route_Optimal
  imports Route_Table
begin

text \<open>
  Correctness of the route table: the next hops lie on paths with fewest hops (or least cost) in the
  graph the link-state database describes, and packets that follow them arrive.
\<close>

section \<open>The path computation has a cost for every hop it records\<close>

definition hops_scored :: "'n dijkstra_state \<Rightarrow> bool" where
  "hops_scored st \<longleftrightarrow> (\<forall>v. st_get (first_hop st) v \<noteq> None \<longrightarrow> st_get (scores st) v \<noteq> None)"

lemma take_edge_scored: "take_edge start node next sc st = Some st' \<Longrightarrow> hops_scored st \<Longrightarrow> hops_scored st'"
  by (auto simp: take_edge_def hops_scored_def store_simps split: bind_splits if_splits)

lemma relax_edge_scored: "relax_edge start node sc e st = Some st' \<Longrightarrow> hops_scored st \<Longrightarrow> hops_scored st'"
  by (auto simp: relax_edge_def Let_def split: if_splits option.splits intro: take_edge_scored)

lemma relax_edges_scored: "relax_edges start node sc es st = Some st' \<Longrightarrow> hops_scored st \<Longrightarrow> hops_scored st'"
  by (induction es arbitrary: st) (auto split: bind_splits intro: relax_edge_scored)

lemma dijkstra_loop_scored:
  "dijkstra_loop pop edges start st = Some st' \<Longrightarrow> hops_scored st \<longrightarrow> hops_scored st'"
proof (erule dijkstra_loop.raw_induct [where P = "\<lambda>pop edges start st st'. hops_scored st \<longrightarrow> hops_scored st'", rotated])
  fix loop :: "'a heap_pop \<Rightarrow> 'a edges \<Rightarrow> 'a \<Rightarrow> 'a dijkstra_state \<Rightarrow> 'a dijkstra_state option" and pop edges start st st'
  assume IH: "\<And>edges start st b y. loop edges start st b = Some y \<Longrightarrow> hops_scored b \<longrightarrow> hops_scored y"
    and step: "(case pop (visit_next st) of None \<Rightarrow> Some st
      | Some ((node_score, node), h) \<Rightarrow>
          let st1 = st\<lparr>visit_next := h\<rparr>
          in if List.member (visited st1) node then loop pop edges start st1
             else relax_edges start node node_score (edges node) st1 \<bind> (\<lambda>st2. loop pop edges start (st2\<lparr>visited := node # visited st2\<rparr>))) = Some st'"
  show "hops_scored st \<longrightarrow> hops_scored st'"
  proof
    assume sc: "hops_scored st"
    then have sc': "hops_scored (st\<lparr>visit_next := h\<rparr>)" "hops_scored (st\<lparr>visited := vs\<rparr>)" for h vs by (simp_all add: hops_scored_def)
    have v: "hops_scored (x\<lparr>visited := vs\<rparr>) \<longleftrightarrow> hops_scored x" for x :: "'a dijkstra_state" and vs by (simp add: hops_scored_def)
    show "hops_scored st'"
      using step sc sc' by (auto simp: v Let_def split: option.splits if_splits bind_splits dest!: IH relax_edges_scored)
  qed
qed

lemma dijkstra_hops_scored:
  assumes "dijkstra_with_first_hop pop edges s = Some (sc, fh)" "st_get fh v \<noteq> None"
  shows "st_get sc v \<noteq> None"
proof -
  obtain st where st: "dijkstra_loop pop edges s (dijkstra_init s) = Some st" "sc = scores st" "fh = first_hop st"
    using assms(1) by (auto simp: dijkstra_with_first_hop_def)
  have "hops_scored (dijkstra_init s)" by (auto simp: hops_scored_def dijkstra_init_def store_simps)
  with dijkstra_loop_scored [OF st(1)] assms(2) st(2,3) show ?thesis by (simp add: hops_scored_def)
qed

section \<open>Recording next hops\<close>

definition hop_entry :: "u32 \<Rightarrow> (peer_id, nat) store \<Rightarrow> peer_id \<Rightarrow> peer_id \<times> nat \<Rightarrow> next_hop_info" where
  "hop_entry version costs dst h = \<lparr>nh_next_hop_peer_id = fst h, nh_path_latency = of_nat (the (st_get costs dst) mod AVOID_RELAY_COST),
     nh_path_len = snd h, nh_version = version\<rparr>"

definition note_hop :: "u32 \<Rightarrow> (peer_id, nat) store \<Rightarrow> peer_id \<Rightarrow> peer_id \<times> nat \<Rightarrow> (peer_id, next_hop_info) store \<Rightarrow> (peer_id, next_hop_info) store" where
  "note_hop version costs d h m = (case st_get m d of
     Some x \<Rightarrow> if nh_version x < version then st_insert d (hop_entry version costs d h) m else m
   | None \<Rightarrow> st_insert d (hop_entry version costs d h) m)"

lemma record_hops_Cons:
  "record_hops version costs ((d, h) # hops) m =
     (if st_get costs d = None then None else record_hops version costs hops (note_hop version costs d h m))"
  by (cases h) (auto simp: note_hop_def hop_entry_def Let_def split: option.split)

lemma note_hop_get:
  "st_get (note_hop version costs d h m) d' =
     (if d' = d \<and> (\<forall>x. st_get m d = Some x \<longrightarrow> nh_version x < version) then Some (hop_entry version costs d h) else st_get m d')"
  by (auto simp: note_hop_def store_simps split: option.split)

lemma note_hop_wf: "st_wf m \<Longrightarrow> st_wf (note_hop version costs d h m)"
  by (simp add: note_hop_def store_simps split: option.split)

lemma record_hops_returns:
  "(\<And>d h. (d, h) \<in> set hops \<Longrightarrow> st_get costs d \<noteq> None) \<Longrightarrow> \<exists>m'. record_hops version costs hops m = Some m'"
proof (induction hops arbitrary: m)
  case (Cons a hops)
  obtain d h where a: "a = (d, h)" by (cases a)
  then have "st_get costs d \<noteq> None" using Cons.prems [of d h] by simp
  moreover have "\<exists>m'. record_hops version costs hops (note_hop version costs d h m) = Some m'"
    using Cons.prems by (intro Cons.IH) auto
  ultimately show ?case unfolding a record_hops_Cons by simp
qed simp

lemma record_hops_keeps:
  "record_hops version costs hops m = Some m' \<Longrightarrow> st_get m d = Some x \<Longrightarrow> \<not> nh_version x < version \<Longrightarrow> st_get m' d = Some x"
proof (induction hops arbitrary: m)
  case (Cons a hops)
  obtain d' h where a: "a = (d', h)" by (cases a)
  from Cons.prems(1) have "record_hops version costs hops (note_hop version costs d' h m) = Some m'"
    by (simp add: a record_hops_Cons split: if_splits)
  moreover have "st_get (note_hop version costs d' h m) d = Some x" using Cons.prems(2,3) by (auto simp: note_hop_get)
  ultimately show ?case using Cons.IH Cons.prems(3) by blast
qed simp

lemma record_hops_get:
  assumes "record_hops version costs hops m = Some m'" "\<And>x. st_get m d = Some x \<Longrightarrow> nh_version x < version"
  shows "st_get m' d = (case st_get hops d of Some h \<Rightarrow> Some (hop_entry version costs d h) | None \<Rightarrow> st_get m d)"
  using assms
proof (induction hops arbitrary: m)
  case Nil
  then show ?case by (simp add: store_simps)
next
  case (Cons a hops)
  obtain d' h where a: "a = (d', h)" by (cases a)
  from Cons.prems(1) have r: "record_hops version costs hops (note_hop version costs d' h m) = Some m'"
    by (simp add: a record_hops_Cons split: if_splits)
  have g: "st_get (a # hops) d = (if d = d' then Some h else st_get hops d)" by (simp add: a st_get_def)
  show ?case
  proof (cases "d = d'")
    case True
    then have "st_get (note_hop version costs d' h m) d = Some (hop_entry version costs d h)"
      using Cons.prems(2) by (simp add: note_hop_get)
    moreover have "\<not> nh_version (hop_entry version costs d h) < version" by (simp add: hop_entry_def)
    ultimately show ?thesis using record_hops_keeps [OF r] True g by simp
  next
    case False
    then have "st_get (note_hop version costs d' h m) d = st_get m d" by (simp add: note_hop_get)
    with Cons.IH [OF r] Cons.prems(2) g False show ?thesis by (simp split: option.split)
  qed
qed

lemma record_hops_wf: "record_hops version costs hops m = Some m' \<Longrightarrow> st_wf m \<Longrightarrow> st_wf m'"
proof (induction hops arbitrary: m)
  case (Cons a hops)
  obtain d h where a: "a = (d, h)" by (cases a)
  from Cons.prems(1) have "record_hops version costs hops (note_hop version costs d h m) = Some m'"
    by (simp add: a record_hops_Cons split: if_splits)
  with Cons.IH Cons.prems(2) show ?case by (simp add: note_hop_wf)
qed simp

section \<open>Next hops of a graph\<close>

text \<open>What a table knows about a destination after a path computation over \<open>edges\<close>.\<close>

definition best_route :: "peer_id edges \<Rightarrow> peer_id \<Rightarrow> peer_id \<Rightarrow> next_hop_info option \<Rightarrow> bool" where
  "best_route edges s dst r \<longleftrightarrow> (case r of
     None \<Rightarrow> \<nexists>p c. walk edges s p dst c
   | Some nh \<Rightarrow> \<exists>p c. walk edges s p dst c \<and> (\<forall>p' c'. walk edges s p' dst c' \<longrightarrow> c \<le> c')
       \<and> nh_path_len nh = length p \<and> nh_path_latency nh = of_nat (c mod AVOID_RELAY_COST)
       \<and> (if dst = s then p = [] else p \<noteq> [] \<and> nh_next_hop_peer_id nh = hd p))"

definition hops_older :: "u32 \<Rightarrow> route_table \<Rightarrow> bool" where
  "hops_older version t \<longleftrightarrow> st_wf (rt_next_hop_map t) \<and> rt_next_hop_map_version t \<le> version
     \<and> (\<forall>d x. st_get (rt_next_hop_map t) d = Some x \<longrightarrow> nh_version x < version)"

lemma out_edges_closed: "edge_closed (out_edges es) (insert s (set (map (fst \<circ> snd) es)))"
  by (force simp: edge_closed_def out_edges_def)

lemma least_cost_ok:
  assumes pl: "pops_least pop" and s: "s \<in> set (pg_nodes g)" and old: "hops_older version t"
  shows "\<exists>t'. gen_next_hop_map_with_least_cost pop g s version t = Some t' \<and> rt_next_hop_map_version t' = version
    \<and> st_wf (rt_next_hop_map t') \<and> rt_suppressed t' = rt_suppressed t
    \<and> (\<forall>d x. st_get (rt_next_hop_map t') d = Some x \<longrightarrow> nh_version x \<le> version)
    \<and> (\<forall>d. best_route (out_edges (pg_edges g)) s d (get_topology_next_hop d t'))"
proof -
  let ?es = "out_edges (pg_edges g)"
  obtain sc fh where dj: "dijkstra_with_first_hop pop ?es s = Some (sc, fh)"
      and none: "\<forall>v. (st_get sc v = None) = (\<nexists>p c. walk ?es s p v c)"
      and some: "\<forall>v d. st_get sc v = Some d \<longrightarrow> (\<forall>p c. walk ?es s p v c \<longrightarrow> d \<le> c)
        \<and> (\<exists>p h. walk ?es s p v d \<and> st_get fh v = Some (h, length p) \<and> (if v = s then p = [] else p \<noteq> [] \<and> h = hd p))"
    using dijkstra_correct [OF pl _ _ out_edges_closed, of s "pg_edges g" s] by auto
  have "st_get sc d \<noteq> None" if "(d, h) \<in> set fh" for d h
  proof (rule dijkstra_hops_scored [OF dj])
    show "st_get fh d \<noteq> None" using that by (auto simp: st_get_def map_of_eq_None_iff rev_image_eqI)
  qed
  then obtain m where m: "record_hops version sc fh (rt_next_hop_map t) = Some m" using record_hops_returns by meson
  let ?t = "t\<lparr>rt_next_hop_map := m, rt_next_hop_map_version := snd (set_if_larger version (rt_next_hop_map_version t))\<rparr>"
  have v: "snd (set_if_larger version (rt_next_hop_map_version t)) = version" using old by (simp add: hops_older_def set_if_larger_def max_def)
  have get: "st_get m d = (case st_get fh d of Some h \<Rightarrow> Some (hop_entry version sc d h) | None \<Rightarrow> st_get (rt_next_hop_map t) d)" for d
    using record_hops_get [OF m] old by (simp add: hops_older_def)
  have top: "get_topology_next_hop d ?t = map_option (hop_entry version sc d) (st_get fh d)" for d
    using old by (auto simp: get_topology_next_hop_def get v hops_older_def hop_entry_def split: option.split dest: leD)
  have "best_route ?es s d (get_topology_next_hop d ?t)" for d
  proof (cases "st_get sc d")
    case None
    then have "st_get fh d = None" using dijkstra_hops_scored [OF dj] by blast
    with None none show ?thesis by (simp add: top best_route_def)
  next
    case (Some c)
    with some obtain p h where p: "walk ?es s p d c" "\<forall>p' c'. walk ?es s p' d c' \<longrightarrow> c \<le> c'" "st_get fh d = Some (h, length p)" "if d = s then p = [] else p \<noteq> [] \<and> h = hd p"
      by blast
    from p(3) Some have "get_topology_next_hop d ?t = Some (hop_entry version sc d (h, length p))" by (simp add: top)
    with p(1,2,4) Some show ?thesis unfolding best_route_def
      by - (simp only: option.case, rule exI [of _ p], rule exI [of _ c], simp add: hop_entry_def)
  qed
  moreover have "gen_next_hop_map_with_least_cost pop g s version t = Some ?t"
    using s by (simp add: gen_next_hop_map_with_least_cost_def dj m)
  moreover have "nh_version x \<le> version" if "st_get m d = Some x" for d x
    using that old by (auto simp: get hops_older_def hop_entry_def less_imp_le split: option.splits)
  ultimately show ?thesis using v record_hops_wf [OF m] old by (intro exI [of _ ?t]) (auto simp: hops_older_def)
qed

section \<open>Fewest hops first\<close>

text \<open>A route through the edges \<open>es\<close>: the nodes after the start, the last node, the number of hops
  (with the surcharge of relays to be avoided) and the cost.\<close>

inductive route :: "(peer_id \<times> peer_id \<times> nat) list \<Rightarrow> peer_id \<Rightarrow> peer_id list \<Rightarrow> peer_id \<Rightarrow> nat \<Rightarrow> nat \<Rightarrow> bool" for es s where
  route_start: "route es s [] s 0 0"
| route_step: "route es s p u k c \<Longrightarrow> (u, v, w) \<in> set es \<Longrightarrow> route es s (p @ [v]) v (k + normalize_edge_cost w) (c + w)"

lemma in_out_edges: "(v, w) \<in> set (out_edges es u) \<longleftrightarrow> (u, v, w) \<in> set es"
  by (force simp: out_edges_def)

lemma route_walk: "route es s p v k c \<Longrightarrow> walk (out_edges es) s p v c"
  by (induction rule: route.induct) (auto intro: walk_start walk_step simp: in_out_edges)

lemma route_normalized_walk: "route es s p v k c \<Longrightarrow> walk (out_edges (normalized es)) s p v k"
proof (induction rule: route.induct)
  case (route_step p u k c v w)
  then have "(u, v, normalize_edge_cost w) \<in> set (normalized es)" by (force simp: normalized_def)
  with route_step show ?case by (auto intro: walk_step simp: in_out_edges)
qed (rule walk_start)

lemma walk_route: "walk (out_edges es) s p v c \<Longrightarrow> \<exists>k. route es s p v k c"
  by (induction rule: walk.induct) (auto intro: route.intros simp: in_out_edges)

lemma normalized_walk_route: "walk (out_edges (normalized es)) s p v k \<Longrightarrow> \<exists>c. route es s p v k c"
proof (induction rule: walk.induct)
  case (walk_step p u k v w)
  then obtain c w' where "route es s p u k c" "(u, v, w') \<in> set es" "w = normalize_edge_cost w'"
    by (auto simp: in_out_edges normalized_def)
  then show ?case using route_step by blast
qed (auto intro: route_start)

text \<open>What the Dijkstra routine of the graph library promises.\<close>

definition computes_distances :: "pg_dijkstra \<Rightarrow> bool" where
  "computes_distances pg \<longleftrightarrow> (\<forall>edges s V. finite V \<and> s \<in> V \<and> edge_closed edges V \<longrightarrow>
     (\<forall>v. case st_get (pg edges s) v of
        None \<Rightarrow> \<nexists>p c. walk edges s p v c
      | Some d \<Rightarrow> (\<exists>p. walk edges s p v d) \<and> (\<forall>p c. walk edges s p v c \<longrightarrow> d \<le> c)))"

definition hop_distance :: "(peer_id, nat) store \<Rightarrow> (peer_id \<times> peer_id \<times> nat) list \<Rightarrow> peer_id \<Rightarrow> bool" where
  "hop_distance lens es s \<longleftrightarrow> (\<forall>v. case st_get lens v of
     None \<Rightarrow> \<nexists>p k c. route es s p v k c
   | Some d \<Rightarrow> (\<exists>p c. route es s p v d c) \<and> (\<forall>p k c. route es s p v k c \<longrightarrow> d \<le> k))"

lemma pg_hop_distance:
  assumes "computes_distances pg"
  shows "hop_distance (pg (out_edges (normalized es)) s) es s"
proof -
  let ?es = "out_edges (normalized es)"
  have *: "case st_get (pg ?es s) v of None \<Rightarrow> \<nexists>p c. walk ?es s p v c
      | Some d \<Rightarrow> (\<exists>p. walk ?es s p v d) \<and> (\<forall>p c. walk ?es s p v c \<longrightarrow> d \<le> c)" for v
    using assms [unfolded computes_distances_def, rule_format, OF conjI [OF _ conjI [OF _ out_edges_closed]], of s "normalized es" s v]
    by simp
  show ?thesis unfolding hop_distance_def
  proof
    fix v
    show "case st_get (pg ?es s) v of None \<Rightarrow> \<nexists>p k c. route es s p v k c
      | Some d \<Rightarrow> (\<exists>p c. route es s p v d c) \<and> (\<forall>p k c. route es s p v k c \<longrightarrow> d \<le> k)"
      using * [of v] route_normalized_walk [of es s _ v] normalized_walk_route [of es s _ v]
      by (cases "st_get (pg ?es s) v") (simp, blast, simp, blast)
  qed
qed

lemma hop_distance_le:
  "hop_distance lens es s \<Longrightarrow> route es s p v k c \<Longrightarrow> \<exists>d. st_get lens v = Some d \<and> d \<le> k"
  unfolding hop_distance_def by (drule spec [of _ v]) (cases "st_get lens v"; auto)

lemma hop_distance_Some:
  "hop_distance lens es s \<Longrightarrow> st_get lens v = Some d \<Longrightarrow> \<exists>p c. route es s p v d c"
  unfolding hop_distance_def by (drule spec [of _ v]) simp

lemma hop_distance_start: "hop_distance lens es s \<Longrightarrow> st_get lens s = Some 0"
  using hop_distance_le [OF _ route_start] by fastforce

lemma in_shortest_edges:
  "(u, v, w) \<in> set (shortest_edges lens es) \<longleftrightarrow> (u, v, w) \<in> set es
     \<and> (\<exists>a. st_get lens u = Some a \<and> st_get lens v = Some (a + normalize_edge_cost w))"
  by (auto simp: shortest_edges_def split: option.splits)

lemma shortest_walk_route:
  assumes "hop_distance lens es s" "walk (out_edges (shortest_edges lens es)) s p v c"
  shows "\<exists>k. st_get lens v = Some k \<and> route es s p v k c"
  using assms(2)
proof (induction rule: walk.induct)
  case walk_start
  then show ?case using hop_distance_start [OF assms(1)] route_start by blast
next
  case (walk_step p u c v w)
  then obtain k where "st_get lens u = Some k" "route es s p u k c" by blast
  moreover from walk_step(2) this(1) have "(u, v, w) \<in> set es" "st_get lens v = Some (k + normalize_edge_cost w)"
    by (auto simp: in_out_edges in_shortest_edges)
  ultimately show ?case using route_step by blast
qed

lemma shortest_route_walk:
  assumes "hop_distance lens es s" "route es s p v k c" "st_get lens v = Some k"
  shows "walk (out_edges (shortest_edges lens es)) s p v c"
  using assms(2,3)
proof (induction rule: route.induct)
  case route_start
  show ?case by (rule walk_start)
next
  case (route_step p u k c v w)
  obtain d where d: "st_get lens u = Some d" "d \<le> k" using hop_distance_le [OF assms(1) route_step(1)] by blast
  obtain q c' where q: "route es s q u d c'" using hop_distance_Some [OF assms(1) d(1)] by blast
  from hop_distance_le [OF assms(1) route.route_step [OF q route_step(2)]] route_step.prems
  have "k + normalize_edge_cost w \<le> d + normalize_edge_cost w" by auto
  with d have "st_get lens u = Some k" by simp
  with route_step show ?case by (intro walk.walk_step) (auto simp: in_out_edges in_shortest_edges)
qed

text \<open>What a table knows about a destination after a computation with fewest hops.\<close>

definition best_hop_route :: "(peer_id \<times> peer_id \<times> nat) list \<Rightarrow> peer_id \<Rightarrow> peer_id \<Rightarrow> next_hop_info option \<Rightarrow> bool" where
  "best_hop_route es s dst r \<longleftrightarrow> (case r of
     None \<Rightarrow> \<nexists>p k c. route es s p dst k c
   | Some nh \<Rightarrow> \<exists>p k c. route es s p dst k c \<and> (\<forall>p' k' c'. route es s p' dst k' c' \<longrightarrow> k < k' \<or> k = k' \<and> c \<le> c')
       \<and> nh_path_len nh = length p \<and> nh_path_latency nh = of_nat (c mod AVOID_RELAY_COST)
       \<and> (if dst = s then p = [] else p \<noteq> [] \<and> nh_next_hop_peer_id nh = hd p))"

lemma best_route_shortest:
  assumes d: "hop_distance lens es s" and b: "best_route (out_edges (shortest_edges lens es)) s dst r"
  shows "best_hop_route es s dst r"
proof (cases r)
  case None
  have "\<not> route es s p dst k c" for p k c
  proof
    assume "route es s p dst k c"
    then obtain d' where "st_get lens dst = Some d'" using hop_distance_le [OF d] by blast
    with hop_distance_Some [OF d] shortest_route_walk [OF d] b None show False by (fastforce simp: best_route_def)
  qed
  with None show ?thesis by (simp add: best_hop_route_def)
next
  case nh: (Some nh)
  with b obtain p c where p: "walk (out_edges (shortest_edges lens es)) s p dst c"
      "\<forall>p' c'. walk (out_edges (shortest_edges lens es)) s p' dst c' \<longrightarrow> c \<le> c'"
      "nh_path_len nh = length p" "nh_path_latency nh = of_nat (c mod AVOID_RELAY_COST)"
      "if dst = s then p = [] else p \<noteq> [] \<and> nh_next_hop_peer_id nh = hd p"
    by (auto simp: best_route_def)
  obtain k where k: "st_get lens dst = Some k" "route es s p dst k c" using shortest_walk_route [OF d p(1)] by blast
  have "k < k' \<or> k = k' \<and> c \<le> c'" if "route es s p' dst k' c'" for p' k' c'
    using hop_distance_le [OF d that] k(1) p(2) shortest_route_walk [OF d that] by (cases "k = k'") auto
  then have "\<forall>p' k' c'. route es s p' dst k' c' \<longrightarrow> k < k' \<or> k = k' \<and> c \<le> c'" by blast
  with k(2) p(3-5) show ?thesis unfolding best_hop_route_def nh option.case by blast
qed

lemma least_hop_ok:
  assumes "pops_least pop" "computes_distances pg" "s \<in> set (pg_nodes g)" "hops_older version t"
  shows "\<exists>t'. gen_next_hop_map_with_least_hop pop pg g s version t = Some t' \<and> rt_next_hop_map_version t' = version
    \<and> st_wf (rt_next_hop_map t') \<and> rt_suppressed t' = rt_suppressed t
    \<and> (\<forall>d x. st_get (rt_next_hop_map t') d = Some x \<longrightarrow> nh_version x \<le> version)
    \<and> (\<forall>d. best_hop_route (pg_edges g) s d (get_topology_next_hop d t'))"
proof -
  let ?lens = "pg (out_edges (normalized (pg_edges g))) s"
  note d = pg_hop_distance [OF assms(2), of "pg_edges g" s]
  have s: "s \<in> set (pg_nodes (g\<lparr>pg_edges := shortest_edges ?lens (pg_edges g)\<rparr>))" using assms(3) by simp
  from least_cost_ok [OF assms(1) s assms(4)] best_route_shortest [OF d] assms(3) show ?thesis
    by (auto simp: gen_next_hop_map_with_least_hop_def Let_def)
qed

section \<open>The whole rebuild\<close>

lemma add_peer_routes_frame:
  "rt_next_hop_map (fst (add_peer_routes cl my v lc s item acc)) = rt_next_hop_map (fst acc)"
  "rt_suppressed (fst (add_peer_routes cl my v lc s item acc)) = rt_suppressed (fst acc)"
  "rt_next_hop_map_version (fst (add_peer_routes cl my v lc s item acc)) = rt_next_hop_map_version (fst acc)"
  by (simp_all add: add_peer_routes_def Let_def split_def split: option.split)

lemma add_all_routes_frame:
  "rt_next_hop_map (fst (fold (add_peer_routes cl my v lc s) items acc)) = rt_next_hop_map (fst acc)"
  "rt_suppressed (fst (fold (add_peer_routes cl my v lc s) items acc)) = rt_suppressed (fst acc)"
  "rt_next_hop_map_version (fst (fold (add_peer_routes cl my v lc s) items acc)) = rt_next_hop_map_version (fst acc)"
  by (induction items arbitrary: acc) (simp_all add: add_peer_routes_frame)

lemma clean_expired_frame [simp]:
  "rt_suppressed (clean_expired_route_info t) = rt_suppressed t"
  "rt_next_hop_map_version (clean_expired_route_info t) = rt_next_hop_map_version t"
  "rt_cidr_peer_id_map (clean_expired_route_info t) = rt_cidr_peer_id_map t"
  "rt_cidr_v6_peer_id_map (clean_expired_route_info t) = rt_cidr_v6_peer_id_map t"
  by (simp_all add: clean_expired_route_info_def Let_def)

lemma clean_expired_next_hop:
  "st_wf (rt_next_hop_map t) \<Longrightarrow> get_topology_next_hop d (clean_expired_route_info t) = get_topology_next_hop d t"
  by (auto simp: get_topology_next_hop_def clean_expired_route_info_def Let_def st.get_retain split: option.split)

definition peer_edges :: "peer_id \<Rightarrow> cost_calc \<Rightarrow> 'm synced_route_info \<Rightarrow> (peer_id \<times> peer_id \<times> nat) list" where
  "peer_edges my_peer calc s = concat (map (edges_from my_peer calc s) (graph_nodes s))"

lemma build_graph_eq:
  "my \<in> set (graph_nodes s) \<Longrightarrow>
   build_peer_graph_from_synced_info my calc s = (\<lparr>pg_nodes = graph_nodes s, pg_edges = peer_edges my calc s\<rparr>, Some my)"
  by (simp add: build_peer_graph_from_synced_info_def peer_edges_def Let_def)

lemma suppressed_synced:
  assumes "st_wf (rt_suppressed t)"
  shows "(st_get (rt_suppressed (sync_suppressed_peer_ids s t)) p \<noteq> None) = is_route_suppressed p s"
proof -
  have "st_get (rt_suppressed (sync_suppressed_peer_ids s t)) p \<noteq> None
      \<longleftrightarrow> p \<in> set (map fst (si_suppressed s)) \<or> st_get (st_retain (\<lambda>p _. is_route_suppressed p s) (rt_suppressed t)) p \<noteq> None"
    using fold_insert_unit [of "map fst (si_suppressed s)" "st_retain (\<lambda>p _. is_route_suppressed p s) (rt_suppressed t)" p]
    by (simp add: sync_suppressed_peer_ids_def)
  then show ?thesis using assms st_get_dom [of "si_suppressed s" p]
    by (auto simp: st.get_retain is_route_suppressed_def split: option.splits)
qed

definition policy_route :: "next_hop_policy \<Rightarrow> (peer_id \<times> peer_id \<times> nat) list \<Rightarrow> peer_id \<Rightarrow> peer_id \<Rightarrow> next_hop_info option \<Rightarrow> bool" where
  "policy_route policy es s dst r = (case policy of LeastHop \<Rightarrow> best_hop_route es s dst r | LeastCost \<Rightarrow> best_route (out_edges es) s dst r)"

text \<open>The part of a rebuild after the path computation.\<close>

definition local_cidrs :: "cidr_lib \<Rightarrow> peer_id \<Rightarrow> 'm synced_route_info \<Rightarrow> ip_cidr list" where
  "local_cidrs cl my s = List.map_filter (cidr_parse cl) (case st_get (si_peer_infos s) my of Some info \<Rightarrow> ri_proxy_cidrs info | None \<Rightarrow> [])"

definition all_routes :: "cidr_lib \<Rightarrow> peer_id \<Rightarrow> 'm synced_route_info \<Rightarrow> route_table \<Rightarrow> route_table \<times> cidr4_map \<times> cidr6_map" where
  "all_routes cl my s t = fold (add_peer_routes cl my (si_version s) (local_cidrs cl my s) s) (rt_next_hop_map t) (t, [], [])"

definition with_routes :: "cidr_lib \<Rightarrow> peer_id \<Rightarrow> 'm synced_route_info \<Rightarrow> route_table \<Rightarrow> route_table" where
  "with_routes cl my s t = (fst (all_routes cl my s t))\<lparr>rt_cidr_peer_id_map := fst (snd (all_routes cl my s t)),
     rt_cidr_v6_peer_id_map := snd (snd (all_routes cl my s t))\<rparr>"

lemma with_routes_frame:
  "rt_next_hop_map (with_routes cl my s t) = rt_next_hop_map t"
  "rt_suppressed (with_routes cl my s t) = rt_suppressed t"
  "rt_next_hop_map_version (with_routes cl my s t) = rt_next_hop_map_version t"
  by (simp_all add: with_routes_def all_routes_def add_all_routes_frame)

lemma next_hop_frame:
  assumes "rt_next_hop_map t' = rt_next_hop_map t" "rt_suppressed t' = rt_suppressed t" "rt_next_hop_map_version t' = rt_next_hop_map_version t"
  shows "get_topology_next_hop d t' = get_topology_next_hop d t" "get_next_hop d t' = get_next_hop d t"
  unfolding get_next_hop_def get_topology_next_hop_def assms by (rule refl)+

lemma clean_expired_hops:
  "st_wf (rt_next_hop_map t) \<Longrightarrow> get_next_hop d (clean_expired_route_info t) = get_next_hop d t"
  by (simp add: get_next_hop_def clean_expired_next_hop)

lemma least_cost_frame:
  "gen_next_hop_map_with_least_cost pop g st v t = Some t' \<Longrightarrow>
   rt_ipv4_peer_id_map t' = rt_ipv4_peer_id_map t \<and> rt_ipv6_peer_id_map t' = rt_ipv6_peer_id_map t"
  by (auto simp: gen_next_hop_map_with_least_cost_def split: if_splits bind_splits)

lemma least_hop_frame:
  "gen_next_hop_map_with_least_hop pop pg g st v t = Some t' \<Longrightarrow>
   rt_ipv4_peer_id_map t' = rt_ipv4_peer_id_map t \<and> rt_ipv6_peer_id_map t' = rt_ipv6_peer_id_map t"
  by (auto simp: gen_next_hop_map_with_least_hop_def Let_def split: if_splits dest: least_cost_frame)

text \<open>A rebuild is a path computation that leaves the addresses alone, followed by the routes of all peers.\<close>

lemma build_shape:
  assumes pl: "pops_least pop" "computes_distances pg" and my: "my \<in> set (graph_nodes s)" and old: "hops_older (si_version s) t"
  obtains t2 where "build_from_synced_info pop pg cl my policy calc s t = Some (clean_expired_route_info (with_routes cl my s t2))"
    and "st_wf (rt_next_hop_map t2)" "rt_suppressed t2 = rt_suppressed (sync_suppressed_peer_ids s t)"
    and "rt_next_hop_map_version t2 = si_version s" "\<forall>d x. st_get (rt_next_hop_map t2) d = Some x \<longrightarrow> nh_version x \<le> si_version s"
    and "rt_ipv4_peer_id_map t2 = rt_ipv4_peer_id_map t" "rt_ipv6_peer_id_map t2 = rt_ipv6_peer_id_map t"
    and "\<forall>d. policy_route policy (peer_edges my calc s) my d (get_topology_next_hop d t2)"
proof -
  let ?g = "\<lparr>pg_nodes = graph_nodes s, pg_edges = peer_edges my calc s\<rparr>"
  let ?t1 = "sync_suppressed_peer_ids s t"
  have ne: "graph_nodes s \<noteq> []" using my by auto
  have s: "my \<in> set (pg_nodes ?g)" using my by simp
  have old1: "hops_older (si_version s) ?t1" using old by (simp add: hops_older_def sync_suppressed_peer_ids_def)
  obtain t2 where t2: "(case policy of LeastHop \<Rightarrow> gen_next_hop_map_with_least_hop pop pg ?g my (si_version s) ?t1
        | LeastCost \<Rightarrow> gen_next_hop_map_with_least_cost pop ?g my (si_version s) ?t1) = Some t2"
      "st_wf (rt_next_hop_map t2)" "rt_suppressed t2 = rt_suppressed ?t1" "rt_next_hop_map_version t2 = si_version s"
      "\<forall>d x. st_get (rt_next_hop_map t2) d = Some x \<longrightarrow> nh_version x \<le> si_version s"
      "\<forall>d. policy_route policy (peer_edges my calc s) my d (get_topology_next_hop d t2)"
    using least_hop_ok [OF pl s old1] least_cost_ok [OF pl(1) s old1]
    by (cases policy) (auto simp: policy_route_def)
  have "build_from_synced_info pop pg cl my policy calc s t = Some (clean_expired_route_info (with_routes cl my s t2))"
    using ne t2(1)
    by (cases policy) (simp_all add: build_from_synced_info_def build_graph_eq [OF my] Let_def split_def with_routes_def all_routes_def local_cidrs_def)
  moreover have "rt_ipv4_peer_id_map t2 = rt_ipv4_peer_id_map ?t1 \<and> rt_ipv6_peer_id_map t2 = rt_ipv6_peer_id_map ?t1"
    using t2(1) by (cases policy) (auto dest: least_hop_frame least_cost_frame)
  then have "rt_ipv4_peer_id_map t2 = rt_ipv4_peer_id_map t" "rt_ipv6_peer_id_map t2 = rt_ipv6_peer_id_map t"
    by (simp_all add: sync_suppressed_peer_ids_def)
  ultimately show thesis using that t2(2-6) by blast
qed

lemma build_ok:
  assumes pl: "pops_least pop" "computes_distances pg" and my: "my \<in> set (graph_nodes s)"
    and old: "hops_older (si_version s) t" and wf: "st_wf (rt_suppressed t)"
  shows "\<exists>t'. build_from_synced_info pop pg cl my policy calc s t = Some t'
    \<and> (\<forall>d. policy_route policy (peer_edges my calc s) my d (get_topology_next_hop d t'))
    \<and> (\<forall>d. get_next_hop d t' = (if is_route_suppressed d s then None else get_topology_next_hop d t'))"
proof -
  obtain t2 where t2: "build_from_synced_info pop pg cl my policy calc s t = Some (clean_expired_route_info (with_routes cl my s t2))"
      "st_wf (rt_next_hop_map t2)" "rt_suppressed t2 = rt_suppressed (sync_suppressed_peer_ids s t)"
      "\<forall>d. policy_route policy (peer_edges my calc s) my d (get_topology_next_hop d t2)"
    using build_shape [OF pl my old] by metis
  let ?t = "clean_expired_route_info (with_routes cl my s t2)"
  have top: "get_topology_next_hop d ?t = get_topology_next_hop d t2" for d
    using clean_expired_next_hop [of "with_routes cl my s t2"] next_hop_frame(1) [OF with_routes_frame] t2(2) by (simp add: with_routes_frame)
  have "get_next_hop d ?t = (if is_route_suppressed d s then None else get_topology_next_hop d ?t)" for d
    using suppressed_synced [OF wf, of s d] t2(3) by (auto simp: get_next_hop_def with_routes_frame)
  with t2(1,4) top show ?thesis by auto
qed

text \<open>
  C15: the next hops are best.  When the table of a node is rebuilt from a database in which the node has
  announced itself, the rebuild returns, without a panic.  For every destination, the table has a next hop
  exactly when the graph of the announced connections has a route to it.  Under the policy of fewest hops
  the next hop starts a route with the fewest hops (relays that avoid data counted as more than any number
  of others) and, among these, the least cost; under the other policy a route of least cost.  Suppressed
  peers have no next hop.
\<close>

theorem next_hops_are_best:
  assumes "pops_least pop" and "computes_distances pg" and "my \<in> set (graph_nodes s)"
    and "hops_older (si_version s) t" and "st_wf (rt_suppressed t)"
  shows "\<exists>t'. build_from_synced_info pop pg cl my policy calc s t = Some t'
    \<and> (\<forall>d. policy_route policy (peer_edges my calc s) my d (get_topology_next_hop d t'))
    \<and> (\<forall>d. get_next_hop d t' = (if is_route_suppressed d s then None else get_topology_next_hop d t'))"
  by (rule build_ok [OF assms])

section \<open>Packets arrive\<close>

lemma route_head:
  "route es s p v k c \<Longrightarrow> p \<noteq> [] \<Longrightarrow>
   \<exists>w k' c'. (s, hd p, w) \<in> set es \<and> route es (hd p) (tl p) v k' c' \<and> k = normalize_edge_cost w + k'"
proof (induction rule: route.induct)
  case (route_step p u k c v w)
  show ?case
  proof (cases "p = []")
    case True
    with route_step(1) have "u = s" "k = 0" by (auto elim: route.cases)
    with route_step(2) True route_start [of es v] show ?thesis by (intro exI [of _ w] exI [of _ 0]) simp
  next
    case False
    with route_step.IH obtain w' k' c' where *: "(s, hd p, w') \<in> set es" "route es (hd p) (tl p) u k' c'" "k = normalize_edge_cost w' + k'"
      by blast
    from route.route_step [OF *(2) route_step(2)] *(1,3) False show ?thesis
      by - (rule exI [of _ w'], rule exI [of _ "k' + normalize_edge_cost w"], rule exI [of _ "c' + w"], simp)
  qed
qed simp

lemma normalize_pos: "0 < normalize_edge_cost w"
  by (simp add: normalize_edge_cost_def)

lemma in_peer_edges:
  "(u, v, w) \<in> set (peer_edges my calc s) \<Longrightarrow> v \<in> set (graph_nodes s) \<and> (u = my \<or> \<not> is_route_suppressed u s)"
  by (auto simp: peer_edges_def edges_from_def Let_def split: if_splits)

lemma peer_edges_same:
  assumes "\<not> is_route_suppressed u s" "\<not> is_route_suppressed v s"
  shows "peer_edges u calc s = peer_edges v calc s"
proof -
  have "edges_from u calc s = edges_from v calc s" using assms by (intro ext) (auto simp: edges_from_def)
  then show ?thesis by (simp add: peer_edges_def)
qed

lemma peer_edges_version: "peer_edges u calc (s\<lparr>si_version := v\<rparr>) = peer_edges u calc s"
proof -
  have "graph_nodes (s\<lparr>si_version := v\<rparr>) = graph_nodes s" by (simp add: graph_nodes_def)
  moreover have "edges_from u calc (s\<lparr>si_version := v\<rparr>) = edges_from u calc s"
    by (intro ext) (simp add: edges_from_def edge_cost_def graph_nodes_def get_connected_peers_def is_route_suppressed_def get_avoid_relay_data_def)
  ultimately show ?thesis by (simp add: peer_edges_def)
qed

text \<open>A packet handed from table to table until it is at its destination, with the number of hops.\<close>

inductive delivered :: "(peer_id \<Rightarrow> route_table) \<Rightarrow> peer_id \<Rightarrow> peer_id \<Rightarrow> nat \<Rightarrow> bool" for T dst where
  arrived: "delivered T dst dst 0"
| forwarded: "u \<noteq> dst \<Longrightarrow> get_next_hop dst (T u) = Some nh \<Longrightarrow> delivered T dst (nh_next_hop_peer_id nh) n \<Longrightarrow> delivered T dst u (Suc n)"

text \<open>Every node that may forward has rebuilt its table with fewest hops from the same announcements,
  with a database version of its own.\<close>

definition converged :: "peer_id heap_pop \<Rightarrow> pg_dijkstra \<Rightarrow> cidr_lib \<Rightarrow> cost_calc \<Rightarrow> 'm synced_route_info \<Rightarrow> (peer_id \<Rightarrow> u32)
    \<Rightarrow> (peer_id \<Rightarrow> route_table) \<Rightarrow> (peer_id \<Rightarrow> route_table) \<Rightarrow> bool" where
  "converged pop pg cl calc s ver T0 T \<longleftrightarrow> (\<forall>u \<in> set (graph_nodes s). \<not> is_route_suppressed u s \<longrightarrow>
     hops_older (ver u) (T0 u) \<and> st_wf (rt_suppressed (T0 u))
     \<and> build_from_synced_info pop pg cl u LeastHop calc (s\<lparr>si_version := ver u\<rparr>) (T0 u) = Some (T u))"

lemma converged_next_hop:
  assumes "pops_least pop" "computes_distances pg" "converged pop pg cl calc s ver T0 T"
    and u: "u \<in> set (graph_nodes s)" "\<not> is_route_suppressed u s" and dst: "\<not> is_route_suppressed dst s"
  shows "best_hop_route (peer_edges u calc s) u dst (get_next_hop dst (T u))"
proof -
  let ?s = "s\<lparr>si_version := ver u\<rparr>"
  have c: "hops_older (si_version ?s) (T0 u)" "st_wf (rt_suppressed (T0 u))"
      "build_from_synced_info pop pg cl u LeastHop calc ?s (T0 u) = Some (T u)"
    using assms(3) u unfolding converged_def by auto
  have n: "u \<in> set (graph_nodes ?s)" using u(1) by (simp add: graph_nodes_def)
  have "\<not> is_route_suppressed dst ?s" using dst by (simp add: is_route_suppressed_def)
  then show ?thesis
    using build_ok [OF assms(1,2) n c(1,2), of cl LeastHop calc] c(3) by (auto simp: policy_route_def peer_edges_version)
qed

lemma delivered_within:
  assumes laws: "pops_least pop" "computes_distances pg" "converged pop pg cl calc s ver T0 T" and dst: "\<not> is_route_suppressed dst s"
  shows "u \<in> set (graph_nodes s) \<Longrightarrow> \<not> is_route_suppressed u s \<Longrightarrow> route (peer_edges u calc s) u q dst d c \<Longrightarrow> \<exists>n. delivered T dst u n"
proof (induction d arbitrary: u q c rule: less_induct)
  case (less d)
  show ?case
  proof (cases "u = dst")
    case True
    then show ?thesis using arrived by blast
  next
    case ne: False
    let ?es = "peer_edges u calc s"
    note best = converged_next_hop [OF laws less.prems(1,2) dst]
    from best less.prems(3) obtain nh where nh: "get_next_hop dst (T u) = Some nh" by (cases "get_next_hop dst (T u)") (auto simp: best_hop_route_def)
    with best ne obtain p k c1 where p: "route ?es u p dst k c1" "p \<noteq> []" "nh_next_hop_peer_id nh = hd p"
        "\<forall>p' k' c'. route ?es u p' dst k' c' \<longrightarrow> k < k' \<or> k = k' \<and> c1 \<le> c'"
      by (auto simp: best_hop_route_def)
    then have kd: "k \<le> d" using less.prems(3) by fastforce
    obtain w k' c' where h: "(u, hd p, w) \<in> set ?es" "route ?es (hd p) (tl p) dst k' c'" "k = normalize_edge_cost w + k'"
      using route_head [OF p(1,2)] by blast
    have hn: "hd p \<in> set (graph_nodes s)" using in_peer_edges [OF h(1)] by blast
    have hs: "\<not> is_route_suppressed (hd p) s"
    proof (cases "tl p = []")
      case True
      with h(2) have "hd p = dst" by (auto elim: route.cases)
      with dst show ?thesis by simp
    next
      case False
      from route_head [OF h(2) False] in_peer_edges less.prems(2) show ?thesis by metis
    qed
    have "route (peer_edges (hd p) calc s) (hd p) (tl p) dst k' c'"
      using h(2) peer_edges_same [OF less.prems(2) hs] by simp
    moreover have "k' < d" using h(3) kd normalize_pos [of w] by linarith
    ultimately obtain n where "delivered T dst (hd p) n" using less.IH hn hs by blast
    then show ?thesis using forwarded [of u dst T nh n] ne nh p(3) by auto
  qed
qed

text \<open>
  C4: packets arrive.  Once all nodes that may forward have rebuilt their tables from the same
  announcements, a packet at such a node whose table has a next hop to the destination is handed from node
  to node and reaches the destination after finitely many hops: forwarding by fewest hops has no loops,
  whatever the link costs are and however each node breaks ties.
\<close>

theorem packets_arrive:
  assumes "pops_least pop" and "computes_distances pg" and "converged pop pg cl calc s ver T0 T"
    and "u \<in> set (graph_nodes s)" and "\<not> is_route_suppressed u s" and "get_next_hop dst (T u) = Some nh"
    and "\<not> is_route_suppressed dst s"
  shows "\<exists>n. delivered T dst u n"
proof -
  from converged_next_hop [OF assms(1-3) assms(4,5,7)] assms(6) obtain p k c where "route (peer_edges u calc s) u p dst k c"
    by (auto simp: best_hop_route_def)
  from delivered_within [OF assms(1-3) assms(7) assms(4,5) this] show ?thesis .
qed

section \<open>A concrete network\<close>

text \<open>The verified path computation itself has the documented behaviour of the library's.\<close>

definition own_distances :: pg_dijkstra where
  "own_distances edges s = (case dijkstra_with_first_hop pop_first_least edges s of Some (sc, _) \<Rightarrow> sc | None \<Rightarrow> [])"

lemma own_distances_correct: "computes_distances own_distances"
proof -
  have "case st_get (own_distances edges s) v of None \<Rightarrow> \<nexists>p c. walk edges s p v c
      | Some d \<Rightarrow> (\<exists>p. walk edges s p v d) \<and> (\<forall>p c. walk edges s p v c \<longrightarrow> d \<le> c)"
    if V: "finite V" "s \<in> V" "edge_closed edges V" for edges :: "peer_id edges" and s v V
  proof -
    from dijkstra_correct [OF pop_first_least_correct V] obtain sc fh where
      r: "dijkstra_with_first_hop pop_first_least edges s = Some (sc, fh)" "(st_get sc v = None) = (\<nexists>p c. walk edges s p v c)"
        "\<And>d. st_get sc v = Some d \<Longrightarrow> (\<forall>p c. walk edges s p v c \<longrightarrow> d \<le> c) \<and> (\<exists>p. walk edges s p v d)" by blast
    then show ?thesis by (cases "st_get sc v") (simp_all add: own_distances_def)
  qed
  then show ?thesis by (auto simp: computes_distances_def)
qed

text \<open>Three nodes in a line.\<close>

definition line_conn :: "peer_id set \<Rightarrow> route_conn_info" where
  "line_conn ps = \<lparr>rc_connected_peers = ps, rc_version = 1, rc_last_update = 0\<rparr>"

definition line_synced :: "u32 synced_route_info" where
  "line_synced = synced_new\<lparr>si_peer_infos := [(1, toy_info 1 1), (2, toy_info 2 1), (3, toy_info 3 1)],
     si_conn_map := [(1, line_conn {2}), (2, line_conn {1, 3}), (3, line_conn {2})], si_version := 1\<rparr>"

lemma line_nodes: "graph_nodes line_synced = [1, 2, 3]" "\<not> is_route_suppressed u line_synced" "si_version line_synced = 1"
  by (simp_all add: line_synced_def graph_nodes_def is_route_suppressed_def synced_new_def store_simps)

lemma line_connected:
  "get_connected_peers 1 line_synced = Some {2}" "get_connected_peers 2 line_synced = Some {1, 3}"
  "\<not> get_avoid_relay_data u line_synced"
  by (simp_all add: get_connected_peers_def line_conn_def get_avoid_relay_data_def line_synced_def synced_new_def store_simps st_get_def)

lemma line_edges: "(1, 2, 7) \<in> set (peer_edges u (\<lambda>_ _. 7) line_synced)" "(2, 3, 7) \<in> set (peer_edges u (\<lambda>_ _. 7) line_synced)"
  by (simp_all add: peer_edges_def edges_from_def line_nodes edge_cost_def line_connected)

lemma line_route: "\<exists>p k c. route (peer_edges u (\<lambda>_ _. 7) line_synced) 1 p 3 k c"
  using route_step [OF route_step [OF route_start line_edges(1)] line_edges(2)] by fastforce

lemma line_table: "hops_older (si_version line_synced) route_table_new" "st_wf (rt_suppressed route_table_new)"
  by (simp_all add: hops_older_def route_table_new_def store_simps st_wf_def)

theorem next_hops_are_best_witness:
  "\<exists>t' nh. build_from_synced_info pop_first_least own_distances toy_cidr 1 LeastHop (\<lambda>_ _. 7) line_synced route_table_new = Some t'
    \<and> get_next_hop 3 t' = Some nh"
proof -
  from next_hops_are_best [OF pop_first_least_correct own_distances_correct _ line_table, of 1 toy_cidr LeastHop "\<lambda>_ _. 7"] line_nodes
  obtain t' where t': "build_from_synced_info pop_first_least own_distances toy_cidr 1 LeastHop (\<lambda>_ _. 7) line_synced route_table_new = Some t'"
      "policy_route LeastHop (peer_edges 1 (\<lambda>_ _. 7) line_synced) 1 3 (get_next_hop 3 t')" by auto
  obtain nh where "get_next_hop 3 t' = Some nh"
    using t'(2) line_route [of 1] by (cases "get_next_hop 3 t'") (auto simp: policy_route_def best_hop_route_def)
  with t'(1) show ?thesis by blast
qed

theorem packets_arrive_witness:
  "\<exists>T n. converged pop_first_least own_distances toy_cidr (\<lambda>_ _. 7) line_synced (\<lambda>_. 1) (\<lambda>_. route_table_new) T \<and> delivered T 3 1 n"
proof -
  let ?build = "\<lambda>u. build_from_synced_info pop_first_least own_distances toy_cidr u LeastHop (\<lambda>_ _. 7) line_synced route_table_new"
  have b: "\<exists>t. ?build u = Some t \<and> policy_route LeastHop (peer_edges u (\<lambda>_ _. 7) line_synced) u 3 (get_next_hop 3 t)"
    if "u \<in> set (graph_nodes line_synced)" for u
    using build_ok [OF pop_first_least_correct own_distances_correct that line_table, of toy_cidr LeastHop "\<lambda>_ _. 7"] line_nodes(2) by fastforce
  have same: "line_synced\<lparr>si_version := 1\<rparr> = line_synced" by (simp add: line_synced_def)
  have c: "converged pop_first_least own_distances toy_cidr (\<lambda>_ _. 7) line_synced (\<lambda>_. 1) (\<lambda>_. route_table_new) (\<lambda>u. the (?build u))"
    using b line_table unfolding converged_def same line_nodes(3) by fastforce
  obtain nh where "get_next_hop 3 (the (?build 1)) = Some nh"
  proof (cases "get_next_hop 3 (the (?build 1))")
    case None
    with b [of 1] line_route [of 1] show ?thesis by (auto simp: policy_route_def best_hop_route_def line_nodes)
  qed
  from packets_arrive [OF pop_first_least_correct own_distances_correct c _ _ this] c show ?thesis
    by (auto simp: line_nodes)
qed

end
