(* ===== verification/Route_Address.thy ===== *)
theory Route_Address
  imports Route_Optimal
begin

text \<open>
  Addresses and subnets in the route table: which peer an address leads to after a rebuild.
\<close>

section \<open>Claims\<close>

text \<open>The entry of an address belongs to a claimant that no other claimant is closer than.\<close>

definition closest_owner :: "(peer_id \<Rightarrow> nat) \<Rightarrow> u32 \<Rightarrow> peer_id set \<Rightarrow> peer_id_version option \<Rightarrow> bool" where
  "closest_owner len v C e \<longleftrightarrow> (\<exists>q \<in> C. e = Some \<lparr>pv_peer_id = q, pv_version = v\<rparr> \<and> (\<forall>p \<in> C. len q \<le> len p))"

definition owner_inv :: "(peer_id \<Rightarrow> nat) \<Rightarrow> u32 \<Rightarrow> peer_id set \<Rightarrow> peer_id_version option \<Rightarrow> peer_id_version option \<Rightarrow> bool" where
  "owner_inv len v C old e \<longleftrightarrow> (if C = {} then e = old else closest_owner len v C e)"

lemma claim_entry_get:
  "st_get (claim_entry better pv k m) k' =
     (if k' = k \<and> (\<forall>e. st_get m k = Some e \<longrightarrow> better e) then Some pv else st_get m k')"
  by (auto simp: claim_entry_def store_simps split: option.split)

lemma claim_entry_wf: "st_wf m \<Longrightarrow> st_wf (claim_entry better pv k m)"
  by (simp add: claim_entry_def store_simps split: option.split)

lemma claim_opt_wf: "st_wf m \<Longrightarrow> st_wf (claim_opt better pv k m)"
  by (simp add: claim_opt_def claim_entry_wf split: option.split)

text \<open>A test that prefers newer and closer claimants.\<close>

definition prefers :: "(peer_id \<Rightarrow> nat) \<Rightarrow> u32 \<Rightarrow> peer_id \<Rightarrow> peer_id set \<Rightarrow> (peer_id_version \<Rightarrow> bool) \<Rightarrow> bool" where
  "prefers len v p C better \<longleftrightarrow> (\<forall>e. pv_version e < v \<longrightarrow> better e)
     \<and> (\<forall>q \<in> C. if better \<lparr>pv_peer_id = q, pv_version = v\<rparr> then len p \<le> len q else len q \<le> len p)"

lemma claim_owner:
  assumes inv: "owner_inv len v C old (st_get m k)" and old: "\<And>e. old = Some e \<Longrightarrow> pv_version e < v"
    and pr: "prefers len v p C better"
  shows "owner_inv len v (insert p C) old (st_get (claim_entry better \<lparr>pv_peer_id = p, pv_version = v\<rparr> k m) k)"
proof (cases "C = {}")
  case True
  with inv old pr show ?thesis by (auto simp: owner_inv_def closest_owner_def claim_entry_get prefers_def)
next
  case False
  with inv obtain q where q: "q \<in> C" "st_get m k = Some \<lparr>pv_peer_id = q, pv_version = v\<rparr>" "\<forall>p \<in> C. len q \<le> len p"
    by (auto simp: owner_inv_def closest_owner_def)
  show ?thesis
  proof (cases "better \<lparr>pv_peer_id = q, pv_version = v\<rparr>")
    case True
    with pr q(1) have "len p \<le> len q" by (auto simp: prefers_def)
    with True q show ?thesis by (auto simp: owner_inv_def closest_owner_def claim_entry_get intro: order_trans)
  next
    case False
    with pr q(1) have "len q \<le> len p" by (auto simp: prefers_def)
    with False q show ?thesis by (auto simp: owner_inv_def closest_owner_def claim_entry_get)
  qed
qed

lemma claim_opt_owner:
  assumes "owner_inv len v C old (st_get m k)" "\<And>e. old = Some e \<Longrightarrow> pv_version e < v" "prefers len v p C better"
  shows "owner_inv len v (if x = Some k then insert p C else C) old (st_get (claim_opt better \<lparr>pv_peer_id = p, pv_version = v\<rparr> x m) k)"
  using claim_owner [OF assms] assms(1) by (cases x) (auto simp: claim_opt_def claim_entry_get)

lemma prefers_insert: "prefers len v p C better \<Longrightarrow> prefers len v p (insert p C) better"
  by (auto simp: prefers_def)

definition route_len :: "route_table \<Rightarrow> peer_id \<Rightarrow> nat" where
  "route_len t p = (case get_next_hop p t of Some h \<Rightarrow> nh_path_len h | None \<Rightarrow> 0)"

lemma is_new_peer_better_prefers:
  assumes "get_next_hop p t = Some hop" "\<forall>q \<in> C. peer_reachable q t"
  shows "prefers (route_len t) v p C (is_new_peer_better t \<lparr>pv_peer_id = p, pv_version = v\<rparr> hop)"
  using assms by (fastforce simp: prefers_def is_new_peer_better_def route_len_def peer_reachable_def split: option.splits)

lemma local_first_prefers:
  assumes "prefers len v p C better" "len my = 0"
  shows "prefers len v p C (\<lambda>e. p = my \<or> better e)"
  using assms by (auto simp: prefers_def)

section \<open>Claimants\<close>

definition announces4 :: "'m synced_route_info \<Rightarrow> u32 \<Rightarrow> peer_id \<Rightarrow> bool" where
  "announces4 s a p \<longleftrightarrow> (\<exists>info. st_get (si_peer_infos s) p = Some info \<and> ri_ipv4_addr info = Some a)"

definition announces6 :: "'m synced_route_info \<Rightarrow> u128 \<Rightarrow> peer_id \<Rightarrow> bool" where
  "announces6 s a p \<longleftrightarrow> (\<exists>info. st_get (si_peer_infos s) p = Some info
     \<and> (Option.bind (ri_ipv6_addr info) fst = Some a \<or> Option.bind (ri_ipv6_public_addr_lease info) fst = Some a))"

text \<open>A subnet a peer announces, unless it is another peer's and lies inside one of our own.\<close>

definition offers :: "cidr_lib \<Rightarrow> peer_id \<Rightarrow> ip_cidr list \<Rightarrow> string list \<Rightarrow> ip_cidr \<Rightarrow> peer_id \<Rightarrow> bool" where
  "offers cl my lc strs c p \<longleftrightarrow> (\<exists>str \<in> set strs. cidr_parse cl str = Some c) \<and> (p = my \<or> \<not> list_ex (cidr_is_subset c) lc)"

definition announces_cidr :: "cidr_lib \<Rightarrow> peer_id \<Rightarrow> 'm synced_route_info \<Rightarrow> ip_cidr \<Rightarrow> peer_id \<Rightarrow> bool" where
  "announces_cidr cl my s c p \<longleftrightarrow> (\<exists>info. st_get (si_peer_infos s) p = Some info
     \<and> offers cl my (local_cidrs cl my s) (ri_proxy_cidrs info) c p)"

text \<open>The entry of a subnet in the two tries.\<close>

fun trie_get :: "cidr4_map \<times> cidr6_map \<Rightarrow> ip_cidr \<Rightarrow> peer_id_version option" where
  "trie_get tries (CidrV4 a n) = st_get (fst tries) (a, n)"
| "trie_get tries (CidrV6 a n) = st_get (snd tries) (a, n)"

lemma claim_cidr_get:
  "trie_get (claim_cidr cl my lc better pv str tries) c =
     (if cidr_parse cl str = Some c \<and> (pv_peer_id pv = my \<or> \<not> list_ex (cidr_is_subset c) lc)
         \<and> (\<forall>e. trie_get tries c = Some e \<longrightarrow> pv_peer_id pv = my \<or> better e)
      then Some pv else trie_get tries c)"
  by (cases c) (auto simp: claim_cidr_def claim_entry_get split: option.split ip_cidr.split)

lemma claim_cidr_owner:
  assumes inv: "owner_inv len v C None (trie_get tries c)" and pr: "prefers len v p C better" and my: "len my = 0"
  shows "owner_inv len v (if cidr_parse cl str = Some c \<and> (p = my \<or> \<not> list_ex (cidr_is_subset c) lc) then insert p C else C) None
    (trie_get (claim_cidr cl my lc better \<lparr>pv_peer_id = p, pv_version = v\<rparr> str tries) c)"
proof -
  let ?m = "case trie_get tries c of None \<Rightarrow> [] | Some e \<Rightarrow> [((), e)]"
  have m: "st_get ?m () = trie_get tries c" by (simp add: st_get_def split: option.split)
  have "owner_inv len v (insert p C) None (st_get (claim_entry (\<lambda>e. p = my \<or> better e) \<lparr>pv_peer_id = p, pv_version = v\<rparr> () ?m) ())"
    using claim_owner [of len v C None ?m "()" p "\<lambda>e. p = my \<or> better e"] inv local_first_prefers [OF pr my] m by simp
  with inv m show ?thesis by (auto simp: claim_cidr_get claim_entry_get)
qed

lemma claim_cidrs_owner:
  assumes "owner_inv len v C None (trie_get tries c)" "prefers len v p C better" "len my = 0"
  shows "owner_inv len v (if offers cl my lc strs c p then insert p C else C) None
    (trie_get (fold (claim_cidr cl my lc better \<lparr>pv_peer_id = p, pv_version = v\<rparr>) strs tries) c)"
  using assms
proof (induction strs arbitrary: tries C)
  case (Cons str strs)
  let ?C = "if cidr_parse cl str = Some c \<and> (p = my \<or> \<not> list_ex (cidr_is_subset c) lc) then insert p C else C"
  have pr: "prefers len v p ?C better" using Cons.prems(2) prefers_insert by auto
  have "(if offers cl my lc strs c p then insert p ?C else ?C) = (if offers cl my lc (str # strs) c p then insert p C else C)"
    by (auto simp: offers_def)
  with Cons.IH [OF claim_cidr_owner [OF Cons.prems, of cl str lc] pr Cons.prems(3)] show ?case by simp
qed (simp add: offers_def)

section \<open>All routes\<close>

text \<open>What holds after the peers in \<open>D\<close> have been added to the table \<open>t\<close> of the path computation.\<close>

definition claimants :: "route_table \<Rightarrow> peer_id set \<Rightarrow> (peer_id \<Rightarrow> bool) \<Rightarrow> peer_id set" where
  "claimants t D f = {p \<in> D. peer_reachable p t \<and> f p}"

definition same_hops :: "route_table \<Rightarrow> route_table \<Rightarrow> bool" where
  "same_hops t t' \<longleftrightarrow> rt_next_hop_map t' = rt_next_hop_map t \<and> rt_suppressed t' = rt_suppressed t
     \<and> rt_next_hop_map_version t' = rt_next_hop_map_version t"

definition routes_inv :: "cidr_lib \<Rightarrow> peer_id \<Rightarrow> 'm synced_route_info \<Rightarrow> route_table \<Rightarrow> peer_id set \<Rightarrow> route_table \<times> cidr4_map \<times> cidr6_map \<Rightarrow> bool" where
  "routes_inv cl my s t D acc \<longleftrightarrow> same_hops t (fst acc) \<and> st_wf (rt_ipv4_peer_id_map (fst acc)) \<and> st_wf (rt_ipv6_peer_id_map (fst acc))
     \<and> (\<forall>a. owner_inv (route_len t) (si_version s) (claimants t D (announces4 s a)) (st_get (rt_ipv4_peer_id_map t) a) (st_get (rt_ipv4_peer_id_map (fst acc)) a))
     \<and> (\<forall>a. owner_inv (route_len t) (si_version s) (claimants t D (announces6 s a)) (st_get (rt_ipv6_peer_id_map t) a) (st_get (rt_ipv6_peer_id_map (fst acc)) a))
     \<and> (\<forall>c. owner_inv (route_len t) (si_version s) (claimants t D (announces_cidr cl my s c)) None (trie_get (snd acc) c))"

text \<open>Addresses recorded before a rebuild are older than it.\<close>

definition addresses_older :: "u32 \<Rightarrow> route_table \<Rightarrow> bool" where
  "addresses_older v t \<longleftrightarrow> st_wf (rt_ipv4_peer_id_map t) \<and> st_wf (rt_ipv6_peer_id_map t)
     \<and> (\<forall>a e. st_get (rt_ipv4_peer_id_map t) a = Some e \<longrightarrow> pv_version e < v)
     \<and> (\<forall>a e. st_get (rt_ipv6_peer_id_map t) a = Some e \<longrightarrow> pv_version e < v)"

lemma claimants_insert:
  "claimants t (insert p D) f = (if peer_reachable p t \<and> f p then insert p (claimants t D f) else claimants t D f)"
  by (auto simp: claimants_def)

lemma claimants_reachable: "\<forall>q \<in> claimants t D f. peer_reachable q t"
  by (simp add: claimants_def)

lemma same_hops_next: "same_hops t t' \<Longrightarrow> get_next_hop d t' = get_next_hop d t"
  unfolding same_hops_def by (blast intro: next_hop_frame(2))

lemma add_peer_routes_inv:
  assumes inv: "routes_inv cl my s t D acc" and wf: "st_wf (rt_next_hop_map t)" and v: "rt_next_hop_map_version t = si_version s"
    and old: "addresses_older (si_version s) t" and item: "(p, hop) \<in> set (rt_next_hop_map t)" and my: "route_len t my = 0"
  shows "routes_inv cl my s t (insert p D) (add_peer_routes cl my (si_version s) (local_cidrs cl my s) s (p, hop) acc)"
proof -
  obtain t1 tries where acc: "acc = (t1, tries)" by (cases acc)
  have same: "same_hops t t1" using inv acc by (simp add: routes_inv_def)
  have get: "st_get (rt_next_hop_map t) p = Some hop" using wf item by (auto simp: st_get_def st_wf_def)
  have reach: "peer_reachable p t1 \<longleftrightarrow> peer_reachable p t" using same_hops_next [OF same] by (simp add: peer_reachable_def)
  have hop: "get_next_hop p t = Some hop" if "peer_reachable p t"
    using that get by (auto simp: peer_reachable_def get_next_hop_def get_topology_next_hop_def split: if_splits)
  have hv: "\<not> nh_version hop < si_version s" if "peer_reachable p t"
    using that get v by (auto simp: peer_reachable_def get_next_hop_def get_topology_next_hop_def split: if_splits)
  show ?thesis
  proof (cases "peer_reachable p t")
    case False
    then have "add_peer_routes cl my (si_version s) (local_cidrs cl my s) s (p, hop) acc = acc"
      by (simp add: add_peer_routes_def acc reach)
    with False inv show ?thesis by (simp add: routes_inv_def claimants_insert)
  next
    case r: True
    show ?thesis
    proof (cases "st_get (si_peer_infos s) p")
      case None
      then have "add_peer_routes cl my (si_version s) (local_cidrs cl my s) s (p, hop) acc = acc"
        by (simp add: add_peer_routes_def acc Let_def)
      moreover have "\<not> announces4 s a p" "\<not> announces6 s b p" "\<not> announces_cidr cl my s c p" for a b c
        using None by (auto simp: announces4_def announces6_def announces_cidr_def)
      ultimately show ?thesis using inv by (simp add: routes_inv_def claimants_insert)
    next
      case (Some info)
      let ?v = "si_version s" and ?pv = "\<lparr>pv_peer_id = p, pv_version = si_version s\<rparr>"
      define better where "better = is_new_peer_better t1 ?pv hop"
      have "better = is_new_peer_better t ?pv hop"
        using same_hops_next [OF same] by (auto simp: better_def is_new_peer_better_def fun_eq_iff)
      then have pr: "prefers (route_len t) ?v p (claimants t D f) better" for f
        using is_new_peer_better_prefers [OF hop [OF r] claimants_reachable] by simp
      have add: "add_peer_routes cl my ?v (local_cidrs cl my s) s (p, hop) acc =
          (t1\<lparr>rt_peer_infos := st_insert p info (rt_peer_infos t1),
              rt_ipv4_peer_id_map := claim_opt better ?pv (ri_ipv4_addr info) (rt_ipv4_peer_id_map t1),
              rt_ipv6_peer_id_map := claim_opt better ?pv (Option.bind (ri_ipv6_public_addr_lease info) fst)
                (claim_opt better ?pv (Option.bind (ri_ipv6_addr info) fst) (rt_ipv6_peer_id_map t1))\<rparr>,
           fold (claim_cidr cl my (local_cidrs cl my s) better ?pv) (ri_proxy_cidrs info) tries)"
        using Some r reach hv by (simp add: add_peer_routes_def acc better_def Let_def)
      have a4: "announces4 s a p \<longleftrightarrow> ri_ipv4_addr info = Some a"
        and a6: "announces6 s b p \<longleftrightarrow> Option.bind (ri_ipv6_addr info) fst = Some b \<or> Option.bind (ri_ipv6_public_addr_lease info) fst = Some b"
        and ac: "announces_cidr cl my s c p \<longleftrightarrow> offers cl my (local_cidrs cl my s) (ri_proxy_cidrs info) c p" for a b c
        using Some by (simp_all add: announces4_def announces6_def announces_cidr_def)
      have "owner_inv (route_len t) ?v (claimants t (insert p D) (announces4 s a)) (st_get (rt_ipv4_peer_id_map t) a)
          (st_get (claim_opt better ?pv (ri_ipv4_addr info) (rt_ipv4_peer_id_map t1)) a)" for a
        using claim_opt_owner [of "route_len t" ?v "claimants t D (announces4 s a)" "st_get (rt_ipv4_peer_id_map t) a" "rt_ipv4_peer_id_map t1" a p better "ri_ipv4_addr info"]
          inv old pr r by (simp add: routes_inv_def acc addresses_older_def claimants_insert a4)
      moreover have "owner_inv (route_len t) ?v (claimants t (insert p D) (announces6 s a)) (st_get (rt_ipv6_peer_id_map t) a)
          (st_get (claim_opt better ?pv (Option.bind (ri_ipv6_public_addr_lease info) fst)
             (claim_opt better ?pv (Option.bind (ri_ipv6_addr info) fst) (rt_ipv6_peer_id_map t1))) a)" (is "owner_inv _ _ _ ?old (st_get (claim_opt _ _ ?x2 (claim_opt _ _ ?x1 _)) a)") for a
      proof -
        let ?C = "claimants t D (announces6 s a)"
        have o: "\<And>e. ?old = Some e \<Longrightarrow> pv_version e < ?v" using old by (simp add: addresses_older_def)
        have 0: "owner_inv (route_len t) ?v ?C ?old (st_get (rt_ipv6_peer_id_map t1) a)" using inv by (simp add: routes_inv_def acc)
        have 1: "owner_inv (route_len t) ?v (if ?x1 = Some a then insert p ?C else ?C) ?old (st_get (claim_opt better ?pv ?x1 (rt_ipv6_peer_id_map t1)) a)"
          by (rule claim_opt_owner [OF 0 o pr])
        have "prefers (route_len t) ?v p (if ?x1 = Some a then insert p ?C else ?C) better" using pr prefers_insert by auto
        from claim_opt_owner [OF 1 o this, of ?x2] r show ?thesis by (auto simp: claimants_insert a6 split: if_splits)
      qed
      moreover have "owner_inv (route_len t) ?v (claimants t (insert p D) (announces_cidr cl my s c)) None
          (trie_get (fold (claim_cidr cl my (local_cidrs cl my s) better ?pv) (ri_proxy_cidrs info) tries) c)" for c
        using claim_cidrs_owner [of "route_len t" ?v "claimants t D (announces_cidr cl my s c)" tries c p better my cl "local_cidrs cl my s" "ri_proxy_cidrs info"]
          inv pr my r by (simp add: routes_inv_def acc claimants_insert ac)
      moreover have "st_wf (rt_ipv4_peer_id_map t1)" "st_wf (rt_ipv6_peer_id_map t1)" using inv by (simp_all add: routes_inv_def acc)
      ultimately show ?thesis using same unfolding add by (simp add: routes_inv_def same_hops_def claim_opt_wf)
    qed
  qed
qed

lemma all_routes_inv:
  assumes wf: "st_wf (rt_next_hop_map t)" and v: "rt_next_hop_map_version t = si_version s"
    and old: "addresses_older (si_version s) t" and my: "route_len t my = 0"
  shows "routes_inv cl my s t (fst ` set (rt_next_hop_map t)) (all_routes cl my s t)"
proof -
  have "routes_inv cl my s t (D \<union> fst ` set items) (fold (add_peer_routes cl my (si_version s) (local_cidrs cl my s) s) items acc)"
    if "set items \<subseteq> set (rt_next_hop_map t)" "routes_inv cl my s t D acc" for items D acc
    using that
  proof (induction items arbitrary: D acc)
    case (Cons item items)
    obtain p hop where item: "item = (p, hop)" by (cases item)
    with Cons.prems(1) have "(p, hop) \<in> set (rt_next_hop_map t)" by simp
    from add_peer_routes_inv [OF Cons.prems(2) wf v old this my]
    have "routes_inv cl my s t (insert p D) (add_peer_routes cl my (si_version s) (local_cidrs cl my s) s item acc)"
      by (simp add: item)
    from Cons.IH [OF _ this] Cons.prems(1) show ?case by (simp add: item)
  qed simp
  moreover have "trie_get ([], []) c = None" for c by (cases c) (simp_all add: store_simps)
  then have "routes_inv cl my s t {} (t, [], [])"
    using old by (simp add: routes_inv_def same_hops_def addresses_older_def claimants_def owner_inv_def)
  ultimately show ?thesis unfolding all_routes_def by (metis Un_empty_left subset_refl)
qed

lemma reachable_in_map:
  "peer_reachable p t \<Longrightarrow> p \<in> fst ` set (rt_next_hop_map t)"
  by (auto simp: peer_reachable_def get_next_hop_def get_topology_next_hop_def st_get_def split: if_splits option.splits dest!: map_of_SomeD)
   force+

lemma claimants_all: "claimants t (fst ` set (rt_next_hop_map t)) f = {p. peer_reachable p t \<and> f p}"
  using reachable_in_map by (auto simp: claimants_def)

lemma policy_route_self:
  "policy_route policy es my my (get_topology_next_hop my t) \<Longrightarrow> route_len t my = 0"
  by (auto simp: policy_route_def best_route_def best_hop_route_def route_len_def get_next_hop_def split: next_hop_policy.splits option.splits)

lemma policy_route_other:
  "policy_route policy es my p (get_topology_next_hop p t) \<Longrightarrow> p \<noteq> my \<Longrightarrow> peer_reachable p t \<Longrightarrow> 0 < route_len t p"
  by (auto simp: policy_route_def best_route_def best_hop_route_def route_len_def peer_reachable_def get_next_hop_def
      split: next_hop_policy.splits option.splits if_splits)

lemma clean_expired_addresses:
  assumes "st_wf (rt_next_hop_map t)" "st_wf (rt_ipv4_peer_id_map t)" "st_wf (rt_ipv6_peer_id_map t)"
  shows "st_get (rt_ipv4_peer_id_map (clean_expired_route_info t)) a =
      (case st_get (rt_ipv4_peer_id_map t) a of Some e \<Rightarrow> if peer_reachable (pv_peer_id e) t then Some e else None | None \<Rightarrow> None)"
    and "st_get (rt_ipv6_peer_id_map (clean_expired_route_info t)) b =
      (case st_get (rt_ipv6_peer_id_map t) b of Some e \<Rightarrow> if peer_reachable (pv_peer_id e) t then Some e else None | None \<Rightarrow> None)"
proof -
  let ?t1 = "t\<lparr>rt_next_hop_map := st_retain (\<lambda>_ v. nh_version v \<ge> rt_next_hop_map_version t) (rt_next_hop_map t)\<rparr>"
  have "peer_reachable p ?t1 \<longleftrightarrow> peer_reachable p t" for p
    using assms(1) by (auto simp: peer_reachable_def get_next_hop_def get_topology_next_hop_def st.get_retain split: option.split)
  then show "st_get (rt_ipv4_peer_id_map (clean_expired_route_info t)) a =
      (case st_get (rt_ipv4_peer_id_map t) a of Some e \<Rightarrow> if peer_reachable (pv_peer_id e) t then Some e else None | None \<Rightarrow> None)"
    "st_get (rt_ipv6_peer_id_map (clean_expired_route_info t)) b =
      (case st_get (rt_ipv6_peer_id_map t) b of Some e \<Rightarrow> if peer_reachable (pv_peer_id e) t then Some e else None | None \<Rightarrow> None)"
    using assms(2,3) by (simp_all add: clean_expired_route_info_def Let_def st.get_retain)
qed

text \<open>The entries that survive the clean-up.\<close>

definition kept :: "route_table \<Rightarrow> peer_id_version option \<Rightarrow> peer_id_version option" where
  "kept t e = (case e of Some e \<Rightarrow> if peer_reachable (pv_peer_id e) t then Some e else None | None \<Rightarrow> None)"

lemma kept_reachable: "kept t e = Some e' \<Longrightarrow> peer_reachable (pv_peer_id e') t"
  by (auto simp: kept_def split: option.splits if_splits)

lemma kept_owner:
  assumes "owner_inv len v {p. peer_reachable p t \<and> f p} old e" "\<exists>p. peer_reachable p t \<and> f p"
  shows "closest_owner len v {p. peer_reachable p t \<and> f p} (kept t e)"
proof -
  have "closest_owner len v {p. peer_reachable p t \<and> f p} e" using assms by (auto simp: owner_inv_def split: if_splits)
  moreover from this have "kept t e = e" by (auto simp: closest_owner_def kept_def)
  ultimately show ?thesis by simp
qed

lemma build_owners:
  assumes "pops_least pop" "computes_distances pg" "my \<in> set (graph_nodes s)" "hops_older (si_version s) t" "addresses_older (si_version s) t"
    and b: "build_from_synced_info pop pg cl my policy calc s t = Some t'"
  obtains w :: route_table where
    "\<forall>a. owner_inv (route_len t') (si_version s) {p. peer_reachable p t' \<and> announces4 s a p} (st_get (rt_ipv4_peer_id_map t) a) (st_get (rt_ipv4_peer_id_map w) a)"
    "\<forall>a. owner_inv (route_len t') (si_version s) {p. peer_reachable p t' \<and> announces6 s a p} (st_get (rt_ipv6_peer_id_map t) a) (st_get (rt_ipv6_peer_id_map w) a)"
    "\<forall>c. owner_inv (route_len t') (si_version s) {p. peer_reachable p t' \<and> announces_cidr cl my s c p} None (trie_get (rt_cidr_peer_id_map t', rt_cidr_v6_peer_id_map t') c)"
    "\<forall>a. st_get (rt_ipv4_peer_id_map t') a = kept t' (st_get (rt_ipv4_peer_id_map w) a)"
    "\<forall>a. st_get (rt_ipv6_peer_id_map t') a = kept t' (st_get (rt_ipv6_peer_id_map w) a)"
    "route_len t' my = 0" "\<forall>p. p \<noteq> my \<longrightarrow> peer_reachable p t' \<longrightarrow> 0 < route_len t' p"
proof -
  obtain t2 where t2: "t' = clean_expired_route_info (with_routes cl my s t2)" "st_wf (rt_next_hop_map t2)"
      "rt_next_hop_map_version t2 = si_version s" "rt_ipv4_peer_id_map t2 = rt_ipv4_peer_id_map t" "rt_ipv6_peer_id_map t2 = rt_ipv6_peer_id_map t"
      "\<forall>d. policy_route policy (peer_edges my calc s) my d (get_topology_next_hop d t2)"
    using build_shape [OF assms(1-4), of cl policy calc] b by (metis option.inject)
  have old: "addresses_older (si_version s) t2" using assms(5) by (simp add: addresses_older_def t2(4,5))
  note my0 = policy_route_self [OF t2(6) [rule_format]]
  let ?w = "with_routes cl my s t2"
  from all_routes_inv [OF t2(2,3) old my0, of cl] have inv: "routes_inv cl my s t2 (fst ` set (rt_next_hop_map t2)) (all_routes cl my s t2)" .
  have wfw: "st_wf (rt_next_hop_map ?w)" "st_wf (rt_ipv4_peer_id_map ?w)" "st_wf (rt_ipv6_peer_id_map ?w)"
    using inv t2(2) by (simp_all add: with_routes_frame) (simp_all add: with_routes_def routes_inv_def)
  have "get_next_hop d t' = get_next_hop d t2" for d
    using clean_expired_hops [OF wfw(1)] next_hop_frame(2) [OF with_routes_frame] t2(1) by simp
  then have r: "peer_reachable d t' = peer_reachable d t2" "peer_reachable d ?w = peer_reachable d t2" "route_len t' = route_len t2" for d
    by (auto simp: peer_reachable_def route_len_def next_hop_frame(2) [OF with_routes_frame])
  have tries: "rt_cidr_peer_id_map t' = rt_cidr_peer_id_map ?w" "rt_cidr_v6_peer_id_map t' = rt_cidr_v6_peer_id_map ?w"
    by (simp_all add: t2(1))
  show thesis
  proof (rule that [of ?w])
    show "\<forall>a. st_get (rt_ipv4_peer_id_map t') a = kept t' (st_get (rt_ipv4_peer_id_map ?w) a)"
      "\<forall>a. st_get (rt_ipv6_peer_id_map t') a = kept t' (st_get (rt_ipv6_peer_id_map ?w) a)"
      using clean_expired_addresses [OF wfw, folded t2(1)] by (simp_all add: kept_def r split: option.split)
    show "\<forall>p. p \<noteq> my \<longrightarrow> peer_reachable p t' \<longrightarrow> 0 < route_len t' p"
      using policy_route_other [OF t2(6) [rule_format]] by (simp add: r)
  qed (use inv my0 in \<open>simp_all add: routes_inv_def with_routes_def claimants_all t2(4,5) r tries\<close>)
qed

text \<open>An address that no reachable peer announces any more still leads to the peer it led to, while that peer is reachable.\<close>

lemma abandoned_address_kept:
  assumes "pops_least pop" "computes_distances pg" "my \<in> set (graph_nodes s)" "hops_older (si_version s) t" "addresses_older (si_version s) t"
    and "build_from_synced_info pop pg cl my policy calc s t = Some t'"
    and "st_get (rt_ipv4_peer_id_map t) a = Some e" "peer_reachable (pv_peer_id e) t'" "\<And>p. peer_reachable p t' \<Longrightarrow> \<not> announces4 s a p"
  shows "st_get (rt_ipv4_peer_id_map t') a = Some e"
proof (rule build_owners [OF assms(1-6)])
  fix w :: route_table
  assume w: "\<forall>a. owner_inv (route_len t') (si_version s) {p. peer_reachable p t' \<and> announces4 s a p} (st_get (rt_ipv4_peer_id_map t) a) (st_get (rt_ipv4_peer_id_map w) a)"
    "\<forall>a. st_get (rt_ipv4_peer_id_map t') a = kept t' (st_get (rt_ipv4_peer_id_map w) a)"
  have "{p. peer_reachable p t' \<and> announces4 s a p} = {}" using assms(9) by auto
  with w(1) [rule_format, of a] assms(7,8) w(2) show ?thesis by (simp add: owner_inv_def kept_def)
qed

text \<open>
  C33: addresses lead to the closest peer that announces them.  After a rebuild, an IPv4 or IPv6 address that
  some reachable peer announces leads to a reachable peer that announces it and that no other such peer has a
  shorter route than; every entry of the address maps leads to a reachable peer.  The entries of the subnet
  tries are exactly the subnets that reachable peers announce, apart from the subnets of others that lie
  inside our own, again with a closest announcer; a subnet we announce ourselves leads to us.
\<close>

theorem addresses_reach_closest:
  assumes "pops_least pop" and "computes_distances pg" and "my \<in> set (graph_nodes s)"
    and "hops_older (si_version s) t" and "addresses_older (si_version s) t"
    and "build_from_synced_info pop pg cl my policy calc s t = Some t'"
  shows "(\<forall>a. (\<exists>p. peer_reachable p t' \<and> announces4 s a p) \<longrightarrow>
        closest_owner (route_len t') (si_version s) {p. peer_reachable p t' \<and> announces4 s a p} (st_get (rt_ipv4_peer_id_map t') a))
    \<and> (\<forall>a. (\<exists>p. peer_reachable p t' \<and> announces6 s a p) \<longrightarrow>
        closest_owner (route_len t') (si_version s) {p. peer_reachable p t' \<and> announces6 s a p} (st_get (rt_ipv6_peer_id_map t') a))
    \<and> (\<forall>a e. st_get (rt_ipv4_peer_id_map t') a = Some e \<longrightarrow> peer_reachable (pv_peer_id e) t')
    \<and> (\<forall>a e. st_get (rt_ipv6_peer_id_map t') a = Some e \<longrightarrow> peer_reachable (pv_peer_id e) t')
    \<and> (\<forall>c. let C = {p. peer_reachable p t' \<and> announces_cidr cl my s c p}; e = trie_get (rt_cidr_peer_id_map t', rt_cidr_v6_peer_id_map t') c
        in if C = {} then e = None else closest_owner (route_len t') (si_version s) C e \<and> (my \<in> C \<longrightarrow> map_option pv_peer_id e = Some my))"
proof (rule build_owners [OF assms])
  fix w :: route_table
  assume w: "\<forall>a. owner_inv (route_len t') (si_version s) {p. peer_reachable p t' \<and> announces4 s a p} (st_get (rt_ipv4_peer_id_map t) a) (st_get (rt_ipv4_peer_id_map w) a)"
    "\<forall>a. owner_inv (route_len t') (si_version s) {p. peer_reachable p t' \<and> announces6 s a p} (st_get (rt_ipv6_peer_id_map t) a) (st_get (rt_ipv6_peer_id_map w) a)"
    "\<forall>c. owner_inv (route_len t') (si_version s) {p. peer_reachable p t' \<and> announces_cidr cl my s c p} None (trie_get (rt_cidr_peer_id_map t', rt_cidr_v6_peer_id_map t') c)"
    "\<forall>a. st_get (rt_ipv4_peer_id_map t') a = kept t' (st_get (rt_ipv4_peer_id_map w) a)"
    "\<forall>a. st_get (rt_ipv6_peer_id_map t') a = kept t' (st_get (rt_ipv6_peer_id_map w) a)"
    "route_len t' my = 0" "\<forall>p. p \<noteq> my \<longrightarrow> peer_reachable p t' \<longrightarrow> 0 < route_len t' p"
  have "map_option pv_peer_id e = Some my" if "closest_owner (route_len t') (si_version s) {p. peer_reachable p t' \<and> announces_cidr cl my s c p} e"
    "peer_reachable my t'" "announces_cidr cl my s c my" for e c
    using that w(6,7) by (fastforce simp: closest_owner_def)
  then have c: "let C = {p. peer_reachable p t' \<and> announces_cidr cl my s c p}; e = trie_get (rt_cidr_peer_id_map t', rt_cidr_v6_peer_id_map t') c
        in if C = {} then e = None else closest_owner (route_len t') (si_version s) C e \<and> (my \<in> C \<longrightarrow> map_option pv_peer_id e = Some my)" for c
    using w(3) [rule_format, of c] by (auto simp: owner_inv_def Let_def split: if_splits)
  show ?thesis using kept_owner [OF w(1) [rule_format]] kept_owner [OF w(2) [rule_format]] kept_reachable c by (simp add: w(4,5))
qed

section \<open>A concrete network\<close>

definition addressed_synced :: "u32 synced_route_info" where
  "addressed_synced = line_synced\<lparr>si_peer_infos := [(1, toy_info 1 1), (2, (toy_info 2 1)\<lparr>ri_ipv4_addr := Some 9\<rparr>), (3, (toy_info 3 1)\<lparr>ri_ipv4_addr := Some 9\<rparr>)]\<rparr>"

lemma addressed_frame:
  "graph_nodes addressed_synced = [1, 2, 3]" "\<not> is_route_suppressed u addressed_synced" "si_version addressed_synced = 1"
  "announces4 addressed_synced 9 p \<longleftrightarrow> p = 2 \<or> p = 3"
  by (auto simp: addressed_synced_def graph_nodes_def is_route_suppressed_def line_synced_def synced_new_def store_simps announces4_def st_get_def
      toy_info_def route_peer_info_new_def split: if_splits)

lemma addressed_connected:
  "get_connected_peers 1 addressed_synced = Some {2}" "\<not> get_avoid_relay_data u addressed_synced"
  by (simp_all add: get_connected_peers_def line_conn_def get_avoid_relay_data_def addressed_synced_def line_synced_def synced_new_def
      store_simps st_get_def toy_info_def route_peer_info_new_def)

lemma addressed_edges: "(1, 2, 7) \<in> set (peer_edges u (\<lambda>_ _. 7) addressed_synced)"
  by (simp add: peer_edges_def edges_from_def addressed_frame edge_cost_def addressed_connected)

theorem addresses_reach_closest_witness:
  "\<exists>t' e. build_from_synced_info pop_first_least own_distances toy_cidr 1 LeastHop (\<lambda>_ _. 7) addressed_synced route_table_new = Some t'
    \<and> st_get (rt_ipv4_peer_id_map t') 9 = Some e \<and> pv_peer_id e \<in> {2, 3}"
proof -
  have o: "hops_older (si_version addressed_synced) route_table_new" "addresses_older (si_version addressed_synced) route_table_new"
    "st_wf (rt_suppressed route_table_new)" "1 \<in> set (graph_nodes addressed_synced)"
    by (simp_all add: hops_older_def addresses_older_def addressed_frame route_table_new_def store_simps st_wf_def)
  from build_ok [OF pop_first_least_correct own_distances_correct o(4,1,3), of toy_cidr LeastHop "\<lambda>_ _. 7"] obtain t' where
    t': "build_from_synced_info pop_first_least own_distances toy_cidr 1 LeastHop (\<lambda>_ _. 7) addressed_synced route_table_new = Some t'"
      "policy_route LeastHop (peer_edges 1 (\<lambda>_ _. 7) addressed_synced) 1 2 (get_next_hop 2 t')" using addressed_frame by auto
  have "peer_reachable 2 t'"
    using t'(2) route_step [OF route_start addressed_edges, of 1] by (cases "get_next_hop 2 t'") (auto simp: policy_route_def best_hop_route_def peer_reachable_def)
  then have "closest_owner (route_len t') (si_version addressed_synced) {p. peer_reachable p t' \<and> announces4 addressed_synced 9 p} (st_get (rt_ipv4_peer_id_map t') 9)"
    using addresses_reach_closest [OF pop_first_least_correct own_distances_correct o(4,1,2) t'(1)] addressed_frame(4) by blast
  with t'(1) show ?thesis by (auto simp: closest_owner_def addressed_frame)
qed

end
