(* ===== verification/Route_Session.thy ===== *)
theory Route_Session
  imports Route_Table
begin

text \<open>
  The synchronisation sessions of \<^verbatim>\<open>peers/peer_ospf_route.rs\<close>: what we remember of the announcements the other
  end already has, the selection of what to send, and the handling of the answer.

  Instants and system times are nanoseconds.  \<^verbatim>\<open>OrderedHashMap\<close> keeps its entries in the order of their last
  insertion; the argument \<open>recent\<close> of the selection functions is that order, newest entry first.  A
  \<^verbatim>\<open>BTreeMap\<close> is a store whose entries are visited in the order of the keys.
\<close>

section \<open>Data\<close>

record version_and_touch_time =
  vt_version :: u32
  vt_touch_time :: stime

type_synonym 'k saved = "('k, version_and_touch_time) store"

record sync_session =
  ss_my_peer_id :: peer_id
  ss_dst_peer_id :: peer_id
  ss_saved_peer_infos :: "peer_id saved"
  ss_saved_conn_infos :: "peer_id saved"
  ss_saved_foreign :: "fn_key saved"
  ss_unreachable_peer_infos :: "(peer_id, u32) store"
  ss_unreachable_conn_infos :: "(peer_id, u32) store"
  ss_last_sync_succ :: "stime option"
  ss_my_session_id :: u64
  ss_dst_session_id :: u64
  ss_we_are_initiator :: bool
  ss_dst_is_initiator :: bool
  ss_need_sync_initiator_info :: bool
  ss_rpc_tx_count :: u32
  ss_rpc_rx_count :: u32

text \<open>\<open>sid\<close> is the random session identifier.\<close>

definition sync_session_new :: "peer_id \<Rightarrow> peer_id \<Rightarrow> u64 \<Rightarrow> sync_session" where
  "sync_session_new my_peer dst sid = \<lparr>ss_my_peer_id = my_peer, ss_dst_peer_id = dst, ss_saved_peer_infos = [],
     ss_saved_conn_infos = [], ss_saved_foreign = [], ss_unreachable_peer_infos = [], ss_unreachable_conn_infos = [],
     ss_last_sync_succ = None, ss_my_session_id = sid, ss_dst_session_id = 0, ss_we_are_initiator = False,
     ss_dst_is_initiator = False, ss_need_sync_initiator_info = False, ss_rpc_tx_count = 0, ss_rpc_rx_count = 0\<rparr>"

section \<open>Versions the other end has\<close>

definition vt_default :: "stime \<Rightarrow> version_and_touch_time" where
  "vt_default now = \<lparr>vt_version = 0, vt_touch_time = now\<rparr>"

definition touch :: "stime \<Rightarrow> version_and_touch_time \<Rightarrow> version_and_touch_time" where
  "touch now v = v\<lparr>vt_touch_time := now\<rparr>"

definition vt_set_if_larger :: "u32 \<Rightarrow> version_and_touch_time \<Rightarrow> version_and_touch_time" where
  "vt_set_if_larger version v = v\<lparr>vt_version := snd (set_if_larger version (vt_version v))\<rparr>"

definition vt_is_expired :: "stime \<Rightarrow> version_and_touch_time \<Rightarrow> bool" where
  "vt_is_expired now v \<longleftrightarrow> now - vt_touch_time v > sec 60"

text \<open>The common part of the three checks; \<open>p\<close> is the peer the entry is about.\<close>

definition check_saved :: "stime \<Rightarrow> peer_id \<Rightarrow> peer_id \<Rightarrow> 'k \<Rightarrow> u32 \<Rightarrow> 'k saved \<Rightarrow> bool \<times> 'k saved" where
  "check_saved now dst p k version m =
     (if version = 0 \<or> p = dst then (True, m)
      else (case st_get m k of
        Some v \<Rightarrow> (vt_version v \<ge> version, st_insert k (touch now v) m)
      | None \<Rightarrow> (False, m)))"

definition check_saved_peer_info_update_to_date :: "stime \<Rightarrow> peer_id \<Rightarrow> u32 \<Rightarrow> sync_session \<Rightarrow> bool \<times> sync_session" where
  "check_saved_peer_info_update_to_date now p version ss =
     (let (ok, m) = check_saved now (ss_dst_peer_id ss) p p version (ss_saved_peer_infos ss) in (ok, ss\<lparr>ss_saved_peer_infos := m\<rparr>))"

definition check_saved_conn_version_update_to_date :: "stime \<Rightarrow> peer_id \<Rightarrow> u32 \<Rightarrow> sync_session \<Rightarrow> bool \<times> sync_session" where
  "check_saved_conn_version_update_to_date now p version ss =
     (let (ok, m) = check_saved now (ss_dst_peer_id ss) p p version (ss_saved_conn_infos ss) in (ok, ss\<lparr>ss_saved_conn_infos := m\<rparr>))"

definition check_saved_foreign_network_version_update_to_date :: "stime \<Rightarrow> fn_key \<Rightarrow> u32 \<Rightarrow> sync_session \<Rightarrow> bool \<times> sync_session" where
  "check_saved_foreign_network_version_update_to_date now k version ss =
     (let (ok, m) = check_saved now (ss_dst_peer_id ss) (fk_peer_id k) k version (ss_saved_foreign ss) in (ok, ss\<lparr>ss_saved_foreign := m\<rparr>))"

definition raise_saved :: "stime \<Rightarrow> peer_id \<Rightarrow> peer_id \<Rightarrow> 'k \<Rightarrow> u32 \<Rightarrow> 'k saved \<Rightarrow> 'k saved" where
  "raise_saved now dst p k version m =
     (if p = dst then m
      else st_insert k (vt_set_if_larger version (case st_get m k of Some v \<Rightarrow> v | None \<Rightarrow> vt_default now)) m)"

definition update_dst_saved_peer_info_version :: "stime \<Rightarrow> route_peer_info list \<Rightarrow> peer_id \<Rightarrow> sync_session \<Rightarrow> sync_session" where
  "update_dst_saved_peer_info_version now infos dst ss =
     ss\<lparr>ss_saved_peer_infos := fold (\<lambda>i. raise_saved now dst (ri_peer_id i) (ri_peer_id i) (ri_version i)) infos (ss_saved_peer_infos ss)\<rparr>"

definition update_dst_saved_conn_bitmap_version :: "stime \<Rightarrow> route_conn_bitmap \<Rightarrow> peer_id \<Rightarrow> sync_session \<Rightarrow> sync_session" where
  "update_dst_saved_conn_bitmap_version now b dst ss =
     ss\<lparr>ss_saved_conn_infos := fold (\<lambda>pv. raise_saved now dst (pv_peer_id pv) (pv_peer_id pv) (pv_version pv)) (cb_peer_ids b) (ss_saved_conn_infos ss)\<rparr>"

definition update_dst_saved_conn_peer_list_version :: "stime \<Rightarrow> peer_conn_info list \<Rightarrow> peer_id \<Rightarrow> sync_session \<Rightarrow> sync_session" where
  "update_dst_saved_conn_peer_list_version now l dst ss =
     ss\<lparr>ss_saved_conn_infos := fold (\<lambda>pc m. case pc_peer_id pc of
         None \<Rightarrow> m
       | Some pv \<Rightarrow> raise_saved now dst (pv_peer_id pv) (pv_peer_id pv) (pv_version pv) m) l (ss_saved_conn_infos ss)\<rparr>"

fun update_dst_saved_conn_info_version :: "stime \<Rightarrow> conn_info \<Rightarrow> peer_id \<Rightarrow> sync_session \<Rightarrow> sync_session" where
  "update_dst_saved_conn_info_version now (Conn_Bitmap b) dst ss = update_dst_saved_conn_bitmap_version now b dst ss"
| "update_dst_saved_conn_info_version now (Conn_Peer_List l) dst ss = update_dst_saved_conn_peer_list_version now l dst ss"

text \<open>A missing key or value is a panic.\<close>

fun raise_saved_foreign :: "stime \<Rightarrow> fn_info list \<Rightarrow> peer_id \<Rightarrow> fn_key saved \<Rightarrow> fn_key saved option" where
  "raise_saved_foreign now [] dst m = Some m"
| "raise_saved_foreign now (item # items) dst m = do {
     k \<leftarrow> fi_key item;
     (if fk_peer_id k = dst then raise_saved_foreign now items dst m
      else do {
        e \<leftarrow> fi_value item;
        raise_saved_foreign now items dst (raise_saved now dst (fk_peer_id k) k (fe_version e) m)
      })
   }"

definition update_dst_saved_foreign_network_version :: "stime \<Rightarrow> fn_info list \<Rightarrow> peer_id \<Rightarrow> sync_session \<Rightarrow> sync_session option" where
  "update_dst_saved_foreign_network_version now items dst ss =
     map_option (\<lambda>m. ss\<lparr>ss_saved_foreign := m\<rparr>) (raise_saved_foreign now items dst (ss_saved_foreign ss))"

definition update_initiator_flag :: "bool \<Rightarrow> sync_session \<Rightarrow> sync_session" where
  "update_initiator_flag b ss = ss\<lparr>ss_we_are_initiator := b, ss_need_sync_initiator_info := True\<rparr>"

definition update_dst_session_id :: "u64 \<Rightarrow> sync_session \<Rightarrow> sync_session" where
  "update_dst_session_id sid ss =
     (if sid \<noteq> ss_dst_session_id ss
      then ss\<lparr>ss_dst_session_id := sid, ss_saved_conn_infos := [], ss_saved_peer_infos := [], ss_last_sync_succ := None,
              ss_unreachable_peer_infos := [], ss_unreachable_conn_infos := []\<rparr>
      else ss)"

definition clean_dst_saved_map :: "stime \<Rightarrow> sync_session \<Rightarrow> sync_session" where
  "clean_dst_saved_map now ss =
     ss\<lparr>ss_saved_peer_infos := st_retain (\<lambda>_ v. \<not> vt_is_expired now v) (ss_saved_peer_infos ss),
        ss_saved_conn_infos := st_retain (\<lambda>_ v. \<not> vt_is_expired now v) (ss_saved_conn_infos ss),
        ss_saved_foreign := st_retain (\<lambda>_ v. \<not> vt_is_expired now v) (ss_saved_foreign ss)\<rparr>"

definition update_last_sync_succ_timestamp :: "stime \<Rightarrow> sync_session \<Rightarrow> sync_session" where
  "update_last_sync_succ_timestamp t ss =
     (if (case ss_last_sync_succ ss of None \<Rightarrow> True | Some old \<Rightarrow> old < t) then ss\<lparr>ss_last_sync_succ := Some t\<rparr> else ss)"

section \<open>Selecting what to send\<close>

text \<open>
  The two loops of \<^verbatim>\<open>build_route_info\<close> and \<^verbatim>\<open>build_conn_peer_list\<close>.  The first visits the entries from the
  newest on, stops at the first entry older than the last successful synchronisation and sets aside the
  unreachable ones; the second visits the entries set aside.
\<close>

record 'i entry_kind =
  ek_peer :: "peer_id \<times> 'i \<Rightarrow> peer_id"
  ek_version :: "'i \<Rightarrow> u32"
  ek_last_update :: "'i \<Rightarrow> stime option"

type_synonym 'i selection = "peer_id saved \<times> (peer_id, u32) store \<times> (peer_id \<times> 'i) list"

definition too_old :: "stime option \<Rightarrow> stime option \<Rightarrow> bool" where
  "too_old last_update last_sync \<longleftrightarrow> (case last_update of
     Some u \<Rightarrow> (case last_sync of Some t \<Rightarrow> u < t | None \<Rightarrow> False)
   | None \<Rightarrow> False)"

fun scan_recent :: "'i entry_kind \<Rightarrow> stime \<Rightarrow> peer_id \<Rightarrow> stime option \<Rightarrow> (peer_id \<Rightarrow> bool) \<Rightarrow> (peer_id \<times> 'i) list \<Rightarrow> 'i selection \<Rightarrow> 'i selection" where
  "scan_recent K now dst last_sync reach [] sel = sel"
| "scan_recent K now dst last_sync reach (x # xs) sel =
     (let (saved, unreach, out) = sel
      in if too_old (ek_last_update K (snd x)) last_sync then sel
         else let (ok, saved1) = check_saved now dst (ek_peer K x) (ek_peer K x) (ek_version K (snd x)) saved
              in scan_recent K now dst last_sync reach xs
                   (if ok then (saved1, unreach, out)
                    else if \<not> reach (fst x) then (saved1, st_insert (fst x) (ek_version K (snd x)) unreach, out)
                    else (saved1, unreach, out @ [x])))"

fun scan_aside :: "stime \<Rightarrow> peer_id \<Rightarrow> (peer_id \<Rightarrow> bool) \<Rightarrow> (peer_id, 'i) store \<Rightarrow> (peer_id \<times> u32) list \<Rightarrow> 'i selection \<Rightarrow> 'i selection" where
  "scan_aside now dst reach entries [] sel = sel"
| "scan_aside now dst reach entries ((p, version) # ps) sel =
     (let (saved, unreach, out) = sel;
          (ok, saved1) = check_saved now dst p p version saved
      in scan_aside now dst reach entries ps
           (if ok then (saved1, st_remove p unreach, out)
            else (case st_get entries p of
              None \<Rightarrow> (saved1, st_remove p unreach, out)
            | Some i \<Rightarrow> (saved1, unreach, if reach p then out @ [(p, i)] else out))))"

definition select_news :: "'i entry_kind \<Rightarrow> stime \<Rightarrow> peer_id \<Rightarrow> stime option \<Rightarrow> (peer_id \<Rightarrow> bool) \<Rightarrow> (peer_id \<times> 'i) list \<Rightarrow> (peer_id, 'i) store
    \<Rightarrow> peer_id saved \<Rightarrow> (peer_id, u32) store \<Rightarrow> 'i selection" where
  "select_news K now dst last_sync reach recent entries saved unreach =
     (let (saved1, unreach1, out) = scan_recent K now dst last_sync reach recent (saved, unreach, [])
      in scan_aside now dst reach entries (sort_key fst unreach1) (saved1, unreach1, out))"

definition info_kind :: "route_peer_info entry_kind" where
  "info_kind = \<lparr>ek_peer = (\<lambda>x. ri_peer_id (snd x)), ek_version = ri_version, ek_last_update = ri_last_update\<rparr>"

definition conn_kind :: "route_conn_info entry_kind" where
  "conn_kind = \<lparr>ek_peer = fst, ek_version = rc_version, ek_last_update = (\<lambda>c. Some (rc_last_update c))\<rparr>"

definition build_route_info :: "stime \<Rightarrow> (peer_id \<times> route_peer_info) list \<Rightarrow> 'm synced_route_info \<Rightarrow> route_table \<Rightarrow> sync_session
    \<Rightarrow> route_peer_info list option \<times> sync_session" where
  "build_route_info now recent s t ss =
     (let (saved, unreach, out) = select_news info_kind now (ss_dst_peer_id ss) (ss_last_sync_succ ss) (\<lambda>p. topology_peer_reachable p t)
            recent (si_peer_infos s) (ss_saved_peer_infos ss) (ss_unreachable_peer_infos ss)
      in (if out = [] then None else Some (map snd out), ss\<lparr>ss_saved_peer_infos := saved, ss_unreachable_peer_infos := unreach\<rparr>))"

definition conn_entry :: "peer_id \<times> route_conn_info \<Rightarrow> peer_conn_info" where
  "conn_entry x = \<lparr>pc_peer_id = Some \<lparr>pv_peer_id = fst x, pv_version = rc_version (snd x)\<rparr>,
     pc_connected_peer_ids = sorted_list_of_set (rc_connected_peers (snd x))\<rparr>"

text \<open>The second component is the estimated size: 8 bytes for a \<^verbatim>\<open>PeerIdVersion\<close>, 4 for a \<^verbatim>\<open>PeerId\<close>.\<close>

definition build_conn_peer_list :: "stime \<Rightarrow> (peer_id \<times> route_conn_info) list \<Rightarrow> 'm synced_route_info \<Rightarrow> route_table \<Rightarrow> sync_session
    \<Rightarrow> (peer_conn_info list option \<times> nat) \<times> sync_session" where
  "build_conn_peer_list now recent s t ss =
     (let (saved, unreach, out) = select_news conn_kind now (ss_dst_peer_id ss) (ss_last_sync_succ ss) (\<lambda>p. topology_peer_reachable p t)
            recent (si_conn_map s) (ss_saved_conn_infos ss) (ss_unreachable_conn_infos ss)
      in ((if out = [] then None else Some (map conn_entry out), sum_list (map (\<lambda>x. 8 + card (rc_connected_peers (snd x)) * 4) out)),
          ss\<lparr>ss_saved_conn_infos := saved, ss_unreachable_conn_infos := unreach\<rparr>))"

fun scan_foreign :: "stime \<Rightarrow> (fn_key \<times> fn_entry) list \<Rightarrow> sync_session \<times> fn_info list \<Rightarrow> sync_session \<times> fn_info list" where
  "scan_foreign now [] acc = acc"
| "scan_foreign now ((k, e) # es) acc =
     (let (ok, ss) = check_saved_foreign_network_version_update_to_date now k (fe_version e) (fst acc)
      in scan_foreign now es (ss, if ok then snd acc else snd acc @ [\<lparr>fi_key = Some k, fi_value = Some e\<rparr>]))"

definition build_foreign_network_info :: "stime \<Rightarrow> 'm synced_route_info \<Rightarrow> sync_session \<Rightarrow> fn_info list option \<times> sync_session" where
  "build_foreign_network_info now s ss =
     (let (ss1, items) = scan_foreign now (si_foreign_network s) (ss, []) in (if items = [] then None else Some items, ss1))"

text \<open>The bitmap is the cached one of the service; \<open>force\<close> is \<^verbatim>\<open>FORCE_USE_CONN_LIST\<close>.\<close>

definition estimate_conn_bitmap_size :: "route_conn_bitmap \<Rightarrow> nat" where
  "estimate_conn_bitmap_size b = length (cb_bitmap b) + length (cb_peer_ids b) * 8"

definition build_conn_info :: "stime \<Rightarrow> bool \<Rightarrow> (peer_id \<times> route_conn_info) list \<Rightarrow> 'm synced_route_info \<Rightarrow> route_table \<Rightarrow> route_conn_bitmap
    \<Rightarrow> peer_id \<Rightarrow> sync_session \<Rightarrow> conn_info option \<times> sync_session" where
  "build_conn_info now force recent s t cached dst ss =
     (let supports = (case Option.bind (st_get (si_peer_infos s) dst) ri_feature_flag of Some f \<Rightarrow> ff_support_conn_list_sync f | None \<Rightarrow> False) \<or> force;
          ((l, list_size), ss1) = build_conn_peer_list now recent s t ss
      in case l of
           None \<Rightarrow> (None, ss1)
         | Some pcs \<Rightarrow>
             (Some (if list_size < estimate_conn_bitmap_size cached \<and> supports then Conn_Peer_List pcs else Conn_Bitmap cached), ss1))"

record sync_request =
  sr_peer_infos :: "route_peer_info list option"
  sr_conn_info :: "conn_info option"
  sr_foreign_network :: "fn_info list option"

definition build_sync_request :: "stime \<Rightarrow> bool \<Rightarrow> (peer_id \<times> route_peer_info) list \<Rightarrow> (peer_id \<times> route_conn_info) list
    \<Rightarrow> 'm synced_route_info \<Rightarrow> route_table \<Rightarrow> route_conn_bitmap \<Rightarrow> peer_id \<Rightarrow> sync_session \<Rightarrow> sync_request \<times> sync_session" where
  "build_sync_request now force recent_infos recent_conns s t cached dst ss =
     (let (infos, ss1) = build_route_info now recent_infos s t ss;
          (conn, ss2) = build_conn_info now force recent_conns s t cached dst ss1;
          (foreign, ss3) = build_foreign_network_info now s ss2
      in (\<lparr>sr_peer_infos = infos, sr_conn_info = conn, sr_foreign_network = foreign\<rparr>, ss3))"

section \<open>One synchronisation\<close>

text \<open>The part of \<^verbatim>\<open>sync_route_with_peer\<close> before the call; no request means that there is nothing to do.\<close>

definition sync_prepare :: "stime \<Rightarrow> bool \<Rightarrow> (peer_id \<times> route_peer_info) list \<Rightarrow> (peer_id \<times> route_conn_info) list
    \<Rightarrow> 'm synced_route_info \<Rightarrow> route_table \<Rightarrow> route_conn_bitmap \<Rightarrow> peer_id \<Rightarrow> bool \<Rightarrow> sync_session \<Rightarrow> sync_request option \<times> sync_session" where
  "sync_prepare now force recent_infos recent_conns s t cached dst sync_as_initiator ss =
     (let (req, ss1) = build_sync_request now force recent_infos recent_conns s t cached dst ss
      in if sr_peer_infos req = None \<and> sr_conn_info req = None \<and> sr_foreign_network req = None
            \<and> \<not> ss_need_sync_initiator_info ss1 \<and> \<not> (sync_as_initiator \<and> ss_we_are_initiator ss1)
         then (None, ss1) else (Some req, ss1\<lparr>ss_need_sync_initiator_info := False\<rparr>))"

text \<open>The answer of the other end: the call failed, it reports an error, or it is accepted.\<close>

datatype sync_answer = Call_Failed | Sync_Error int | Sync_Accepted bool u64

definition DUPLICATE_PEER_ID_CODE :: int where
  "DUPLICATE_PEER_ID_CODE = 0"

text \<open>The part after the call; \<open>t0\<close> is the time before the request was built, \<^term>\<open>None\<close> a panic.\<close>

fun sync_finish :: "stime \<Rightarrow> stime \<Rightarrow> bool \<Rightarrow> sync_request \<Rightarrow> peer_id \<Rightarrow> sync_answer \<Rightarrow> sync_session \<Rightarrow> sync_session option" where
  "sync_finish now t0 is_public_server req dst Call_Failed ss = Some (ss\<lparr>ss_need_sync_initiator_info := True\<rparr>)"
| "sync_finish now t0 is_public_server req dst (Sync_Error e) ss =
     (if e = DUPLICATE_PEER_ID_CODE then (if is_public_server then Some ss else None)
      else Some (ss\<lparr>ss_need_sync_initiator_info := True\<rparr>))"
| "sync_finish now t0 is_public_server req dst (Sync_Accepted is_initiator sid) ss =
     (let ss1 = update_dst_session_id sid (ss\<lparr>ss_rpc_tx_count := ss_rpc_tx_count ss + 1, ss_dst_is_initiator := is_initiator\<rparr>);
          ss2 = (case sr_peer_infos req of Some is \<Rightarrow> update_dst_saved_peer_info_version now is dst ss1 | None \<Rightarrow> ss1);
          ss3 = (case sr_conn_info req of Some c \<Rightarrow> update_dst_saved_conn_info_version now c dst ss2 | None \<Rightarrow> ss2)
      in map_option (update_last_sync_succ_timestamp t0)
           (case sr_foreign_network req of Some f \<Rightarrow> update_dst_saved_foreign_network_version now f dst ss3 | None \<Rightarrow> Some ss3))"

end
