(* ===== verification/Route_Progress.thy ===== *)
theory Route_Progress
  imports Route_Session
begin

text \<open>
  What the synchronisation sessions guarantee: announcements that the other end does not have stay due until
  it confirms them, as long as its session identifier does not change with an answer; when it does, they
  are lost.
\<close>

section \<open>Recorded versions\<close>

definition saved_ver :: "'k saved \<Rightarrow> 'k \<Rightarrow> u32" where
  "saved_ver m k = (case st_get m k of Some v \<Rightarrow> vt_version v | None \<Rightarrow> 0)"

definition up_to_date :: "peer_id \<Rightarrow> 'k saved \<Rightarrow> peer_id \<Rightarrow> 'k \<Rightarrow> u32 \<Rightarrow> bool" where
  "up_to_date dst m p k v \<longleftrightarrow> p = dst \<or> v \<le> saved_ver m k"

lemma check_saved_result: "fst (check_saved now dst p k v m) \<longleftrightarrow> up_to_date dst m p k v"
  by (auto simp: check_saved_def up_to_date_def saved_ver_def split: option.split)

lemma check_saved_ver: "saved_ver (snd (check_saved now dst p k v m)) = saved_ver m"
  by (auto simp: check_saved_def saved_ver_def touch_def store_simps fun_eq_iff split: option.split)

lemma up_to_date_check: "up_to_date dst (snd (check_saved now dst' p' k' v' m)) = up_to_date dst m"
  by (simp add: fun_eq_iff up_to_date_def check_saved_ver)

lemma raise_saved_ver:
  "saved_ver (raise_saved now dst p k v m) k' = (if k' = k \<and> p \<noteq> dst then max (saved_ver m k) v else saved_ver m k')"
  by (auto simp: raise_saved_def saved_ver_def vt_set_if_larger_def set_if_larger_def vt_default_def store_simps split: option.split)

lemma retain_saved_ver: "saved_ver (st_retain P m) k \<le> saved_ver m k" if "st_wf m"
  using that by (auto simp: saved_ver_def st.get_retain split: option.split)

section \<open>The selection\<close>

abbreviation due :: "'i entry_kind \<Rightarrow> peer_id \<Rightarrow> peer_id saved \<Rightarrow> peer_id \<times> 'i \<Rightarrow> bool" where
  "due K dst m x \<equiv> \<not> up_to_date dst m (ek_peer K x) (ek_peer K x) (ek_version K (snd x))"

abbreviation fresh :: "'i entry_kind \<Rightarrow> stime option \<Rightarrow> peer_id \<times> 'i \<Rightarrow> bool" where
  "fresh K last_sync x \<equiv> \<not> too_old (ek_last_update K (snd x)) last_sync"

lemma scan_recent_eq:
  "scan_recent K now dst last_sync reach xs (saved, unreach, out) = (saved', unreach', out') \<Longrightarrow>
     saved_ver saved' = saved_ver saved
     \<and> unreach' = fold (\<lambda>x. st_insert (fst x) (ek_version K (snd x))) (filter (\<lambda>x. due K dst saved x \<and> \<not> reach (fst x)) (takeWhile (fresh K last_sync) xs)) unreach
     \<and> out' = out @ filter (\<lambda>x. due K dst saved x \<and> reach (fst x)) (takeWhile (fresh K last_sync) xs)"
proof (induction xs arbitrary: saved unreach out)
  case (Cons x xs)
  show ?case
  proof (cases "fresh K last_sync x")
    case False
    with Cons.prems show ?thesis by simp
  next
    case True
    obtain ok saved1 where c: "check_saved now dst (ek_peer K x) (ek_peer K x) (ek_version K (snd x)) saved = (ok, saved1)" by fastforce
    have ok: "ok \<longleftrightarrow> \<not> due K dst saved x"
      using check_saved_result [of now dst "ek_peer K x" "ek_peer K x" "ek_version K (snd x)" saved] c by simp
    have v: "saved_ver saved1 = saved_ver saved" "up_to_date dst saved1 = up_to_date dst saved"
      using check_saved_ver [of now dst "ek_peer K x" "ek_peer K x" "ek_version K (snd x)" saved]
        up_to_date_check [of dst now dst "ek_peer K x" "ek_peer K x" "ek_version K (snd x)" saved] c by simp_all
    show ?thesis
    proof (cases "due K dst saved x")
      case False
      with ok True Cons.prems c have "scan_recent K now dst last_sync reach xs (saved1, unreach, out) = (saved', unreach', out')" by simp
      from Cons.IH [OF this] False True v show ?thesis by simp
    next
      case d: True
      show ?thesis
      proof (cases "reach (fst x)")
        case r: True
        with d ok True Cons.prems c have "scan_recent K now dst last_sync reach xs (saved1, unreach, out @ [x]) = (saved', unreach', out')" by simp
        from Cons.IH [OF this] d r True v show ?thesis by simp
      next
        case r: False
        with d ok True Cons.prems c
        have "scan_recent K now dst last_sync reach xs (saved1, st_insert (fst x) (ek_version K (snd x)) unreach, out) = (saved', unreach', out')" by simp
        from Cons.IH [OF this] d r True v show ?thesis by simp
      qed
    qed
  qed
qed simp

lemma scan_aside_eq:
  "scan_aside now dst reach entries ps (saved, unreach, out) = (saved', unreach', out') \<Longrightarrow>
     saved_ver saved' = saved_ver saved
     \<and> unreach' = fold (\<lambda>x. st_remove (fst x)) (filter (\<lambda>x. up_to_date dst saved (fst x) (fst x) (snd x) \<or> st_get entries (fst x) = None) ps) unreach
     \<and> out' = out @ map (\<lambda>x. (fst x, the (st_get entries (fst x))))
         (filter (\<lambda>x. \<not> up_to_date dst saved (fst x) (fst x) (snd x) \<and> st_get entries (fst x) \<noteq> None \<and> reach (fst x)) ps)"
proof (induction ps arbitrary: saved unreach out)
  case (Cons x ps)
  obtain p v where x: "x = (p, v)" by (cases x)
  obtain ok saved1 where c: "check_saved now dst p p v saved = (ok, saved1)" by fastforce
  have ok: "ok \<longleftrightarrow> up_to_date dst saved p p v" using check_saved_result [of now dst p p v saved] c by simp
  have v: "saved_ver saved1 = saved_ver saved" "up_to_date dst saved1 = up_to_date dst saved"
    using check_saved_ver [of now dst p p v saved] up_to_date_check [of dst now dst p p v saved] c by simp_all
  show ?case
  proof (cases "ok \<or> st_get entries p = None")
    case True
    with Cons.prems c x have "scan_aside now dst reach entries ps (saved1, st_remove p unreach, out) = (saved', unreach', out')"
      by (auto simp: Let_def split: if_splits option.splits)
    from Cons.IH [OF this] True v x ok show ?thesis by auto
  next
    case False
    then obtain i where i: "st_get entries p = Some i" "\<not> ok" by auto
    with Cons.prems c x have "scan_aside now dst reach entries ps (saved1, unreach, if reach p then out @ [(p, i)] else out) = (saved', unreach', out')"
      by (simp add: Let_def)
    from Cons.IH [OF this] i v x ok show ?thesis by (auto split: if_splits)
  qed
qed simp

text \<open>The order of an \<^verbatim>\<open>OrderedHashMap\<close> whose entries are stamped when they are inserted, newest first.\<close>

definition newest_first :: "'i entry_kind \<Rightarrow> (peer_id \<times> 'i) list \<Rightarrow> (peer_id, 'i) store \<Rightarrow> bool" where
  "newest_first K recent entries \<longleftrightarrow> set recent = set entries \<and> distinct (map fst recent)
     \<and> (\<forall>x \<in> set recent. ek_last_update K (snd x) \<noteq> None)
     \<and> sorted_wrt (\<lambda>x y. the (ek_last_update K (snd y)) \<le> the (ek_last_update K (snd x))) recent"

lemma fold_insert_notin:
  "p \<notin> fst ` set xs \<Longrightarrow> st_get (fold (\<lambda>x. st_insert (fst x) (f x)) xs m) p = st_get m p"
  by (induction xs arbitrary: m) (auto simp: store_simps)

lemma fold_insert_in:
  "distinct (map fst xs) \<Longrightarrow> x \<in> set xs \<Longrightarrow> st_get (fold (\<lambda>x. st_insert (fst x) (f x)) xs m) (fst x) = Some (f x)"
  by (induction xs arbitrary: m) (auto simp: store_simps fold_insert_notin)

lemma fold_put_wf: "st_wf m \<Longrightarrow> st_wf (fold (\<lambda>x. st_insert (fst x) (f x)) xs m)"
  by (induction xs arbitrary: m) (auto simp: store_simps)

lemma fold_remove_get:
  "st_get (fold (\<lambda>x. st_remove (fst x)) xs m) p = (if p \<in> fst ` set xs then None else st_get m p)"
  by (induction xs arbitrary: m) (auto simp: store_simps)

lemma fold_remove_wf: "st_wf m \<Longrightarrow> st_wf (fold (\<lambda>x. st_remove (fst x)) xs m)"
  by (induction xs arbitrary: m) (auto simp: store_simps)

lemma fresh_takeWhile:
  assumes "newest_first K recent entries" "x \<in> set recent" "fresh K last_sync x"
  shows "x \<in> set (takeWhile (fresh K last_sync) recent)"
proof -
  obtain ys zs where r: "recent = ys @ x # zs" using assms(2) by (auto simp: in_set_conv_decomp)
  have "fresh K last_sync y" if "y \<in> set ys" for y
    using assms(1,3) that by (fastforce simp: newest_first_def r sorted_wrt_append too_old_def split: option.splits)
  then show ?thesis using assms(3) r by (simp add: takeWhile_append)
qed

lemma st_get_set: "st_wf m \<Longrightarrow> st_get m p = Some v \<longleftrightarrow> (p, v) \<in> set m"
  by (auto simp: st_get_def st_wf_def dest: map_of_SomeD)

lemma distinct_map_takeWhile: "distinct (map f xs) \<Longrightarrow> distinct (map f (takeWhile P xs))"
  by (metis distinct_append map_append takeWhile_dropWhile_id)

lemma fst_filter_sort: "p \<in> fst ` set (filter P (sort_key fst m)) \<longleftrightarrow> (\<exists>v. (p, v) \<in> set m \<and> P (p, v))"
  by (auto simp: image_iff)

lemma select_news_parts:
  assumes sel: "select_news K now dst last_sync reach recent entries saved unreach = (saved', unreach', out)"
    and wf: "st_wf unreach"
  obtains unreach1 where
    "unreach1 = fold (\<lambda>x. st_insert (fst x) (ek_version K (snd x))) (filter (\<lambda>x. due K dst saved x \<and> \<not> reach (fst x)) (takeWhile (fresh K last_sync) recent)) unreach"
    "saved_ver saved' = saved_ver saved" "st_wf unreach'"
    "\<forall>p. st_get unreach' p = (case st_get unreach1 p of
        Some v \<Rightarrow> if up_to_date dst saved p p v \<or> st_get entries p = None then None else Some v
      | None \<Rightarrow> None)"
    "\<forall>p i. (p, i) \<in> set out \<longleftrightarrow> (p, i) \<in> set (takeWhile (fresh K last_sync) recent) \<and> due K dst saved (p, i) \<and> reach p
        \<or> (\<exists>v. st_get unreach1 p = Some v \<and> \<not> up_to_date dst saved p p v \<and> st_get entries p = Some i \<and> reach p)"
proof -
  obtain saved1 unreach1 out1 where 1: "scan_recent K now dst last_sync reach recent (saved, unreach, []) = (saved1, unreach1, out1)"
    by (metis prod_cases3)
  with sel have 2: "scan_aside now dst reach entries (sort_key fst unreach1) (saved1, unreach1, out1) = (saved', unreach', out)"
    by (simp add: select_news_def)
  note a = scan_recent_eq [OF 1] and b = scan_aside_eq [OF 2]
  have u1: "unreach1 = fold (\<lambda>x. st_insert (fst x) (ek_version K (snd x))) (filter (\<lambda>x. due K dst saved x \<and> \<not> reach (fst x)) (takeWhile (fresh K last_sync) recent)) unreach"
    using a by blast
  have wf1: "st_wf unreach1" using wf by (simp add: u1 fold_put_wf)
  have u: "up_to_date dst saved1 = up_to_date dst saved" using a by (simp add: fun_eq_iff up_to_date_def)
  let ?gone = "filter (\<lambda>x. up_to_date dst saved (fst x) (fst x) (snd x) \<or> st_get entries (fst x) = None) (sort_key fst unreach1)"
  let ?sent = "filter (\<lambda>x. \<not> up_to_date dst saved (fst x) (fst x) (snd x) \<and> st_get entries (fst x) \<noteq> None \<and> reach (fst x)) (sort_key fst unreach1)"
  have u': "unreach' = fold (\<lambda>x. st_remove (fst x)) ?gone unreach1" using b unfolding u by blast
  have o: "out = out1 @ map (\<lambda>x. (fst x, the (st_get entries (fst x)))) ?sent" using b unfolding u by blast
  have o1: "out1 = filter (\<lambda>x. due K dst saved x \<and> reach (fst x)) (takeWhile (fresh K last_sync) recent)" using a by simp
  have g: "p \<in> fst ` set ?gone \<longleftrightarrow> (\<exists>v. st_get unreach1 p = Some v \<and> (up_to_date dst saved p p v \<or> st_get entries p = None))" for p
    unfolding fst_filter_sort by (simp add: st_get_set [OF wf1])
  have sent: "(p, i) \<in> set (map (\<lambda>x. (fst x, the (st_get entries (fst x)))) ?sent)
      \<longleftrightarrow> (\<exists>v. st_get unreach1 p = Some v \<and> \<not> up_to_date dst saved p p v \<and> st_get entries p = Some i \<and> reach p)" for p i
    using st_get_set [OF wf1] by (auto simp: image_iff)
  show thesis
  proof (rule that [of unreach1])
    show "\<forall>p. st_get unreach' p = (case st_get unreach1 p of
        Some v \<Rightarrow> if up_to_date dst saved p p v \<or> st_get entries p = None then None else Some v | None \<Rightarrow> None)"
      unfolding u' fold_remove_get g by (simp split: option.split)
    show "\<forall>p i. (p, i) \<in> set out \<longleftrightarrow> (p, i) \<in> set (takeWhile (fresh K last_sync) recent) \<and> due K dst saved (p, i) \<and> reach p
        \<or> (\<exists>v. st_get unreach1 p = Some v \<and> \<not> up_to_date dst saved p p v \<and> st_get entries p = Some i \<and> reach p)"
      unfolding o set_append Un_iff sent by (simp add: o1)
    show "saved_ver saved' = saved_ver saved" using a b by simp
    show "st_wf unreach'" unfolding u' by (rule fold_remove_wf [OF wf1])
  qed (rule u1)
qed

lemma select_due:
  assumes sel: "select_news K now dst last_sync reach recent entries saved unreach = (saved', unreach', out)"
    and nf: "newest_first K recent entries" and wf: "st_wf unreach" "st_wf entries"
    and i: "st_get entries p = Some i" and key: "ek_peer K (p, i) = p" and due: "\<not> up_to_date dst saved p p (ek_version K i)"
    and pending: "fresh K last_sync (p, i) \<or> st_get unreach p = Some (ek_version K i)"
  shows "(if reach p then (p, i) \<in> set out else st_get unreach' p = Some (ek_version K i))
    \<and> (st_get unreach p = Some (ek_version K i) \<longrightarrow> st_get unreach' p = Some (ek_version K i))"
proof (rule select_news_parts [OF sel wf(1)])
  fix unreach1
  let ?xs = "filter (\<lambda>x. due K dst saved x \<and> \<not> reach (fst x)) (takeWhile (fresh K last_sync) recent)"
  assume u: "unreach1 = fold (\<lambda>x. st_insert (fst x) (ek_version K (snd x))) ?xs unreach"
      "\<forall>p. st_get unreach' p = (case st_get unreach1 p of
          Some v \<Rightarrow> if up_to_date dst saved p p v \<or> st_get entries p = None then None else Some v | None \<Rightarrow> None)"
      "\<forall>p i. (p, i) \<in> set out \<longleftrightarrow> (p, i) \<in> set (takeWhile (fresh K last_sync) recent) \<and> due K dst saved (p, i) \<and> reach p
        \<or> (\<exists>v. st_get unreach1 p = Some v \<and> \<not> up_to_date dst saved p p v \<and> st_get entries p = Some i \<and> reach p)"
  have nf': "distinct (map fst recent)" "set recent = set entries" using nf by (simp_all add: newest_first_def)
  have mem: "(p, i) \<in> set recent" using i wf(2) nf'(2) by (simp add: st_get_set)
  have dist: "distinct (map fst ?xs)" by (rule distinct_map_filter [OF distinct_map_takeWhile [OF nf'(1)]])
  have only: "i' = i" if "(p, i') \<in> set ?xs" for i'
  proof -
    have "(p, i') \<in> set recent" using that by (auto dest: set_takeWhileD)
    with mem nf'(1) show ?thesis by (metis eq_key_imp_eq_value)
  qed
  have keep: "st_get unreach1 p = Some (ek_version K i)" if "(p, i) \<in> set ?xs \<or> st_get unreach p = Some (ek_version K i)"
  proof (cases "(p, i) \<in> set ?xs")
    case True
    from fold_insert_in [OF dist True, of "\<lambda>x. ek_version K (snd x)" unreach] show ?thesis by (simp add: u(1))
  next
    case False
    have "p \<notin> fst ` set ?xs"
    proof
      assume "p \<in> fst ` set ?xs"
      then obtain x where x: "x \<in> set ?xs" "p = fst x" by (rule imageE)
      then have "(p, snd x) \<in> set ?xs" by (simp only: prod.collapse)
      with only [OF this] False show False by simp
    qed
    from fold_insert_notin [OF this, of "\<lambda>x. ek_version K (snd x)" unreach] that False show ?thesis unfolding u(1) by argo
  qed
  have kept: "st_get unreach' p = Some (ek_version K i)" if "st_get unreach1 p = Some (ek_version K i)"
    unfolding u(2) [rule_format] that using due i by simp
  have 1: "(p, i) \<in> set ?xs" if "fresh K last_sync (p, i)" "\<not> reach p"
    using fresh_takeWhile [OF nf mem that(1)] that(2) due key by simp
  have 2: "(p, i) \<in> set out" if "fresh K last_sync (p, i)" "reach p"
    unfolding u(3) [rule_format] using fresh_takeWhile [OF nf mem that(1)] that(2) due key by simp
  have 3: "(p, i) \<in> set out" if "st_get unreach p = Some (ek_version K i)" "reach p"
    unfolding u(3) [rule_format] using keep that due i by blast
  show ?thesis
  proof (cases "st_get unreach p = Some (ek_version K i)")
    case True
    with 3 keep kept show ?thesis by simp
  next
    case False
    with pending have f: "fresh K last_sync (p, i)" by blast
    show ?thesis
    proof (cases "reach p")
      case True
      with 2 f False show ?thesis by simp
    next
      case r: False
      with keep [OF disjI1 [OF 1 [OF f r]]] kept False show ?thesis by simp
    qed
  qed
qed

section \<open>Runs of a session\<close>

text \<open>
  What a run of a session consists of, for the announcements of peers: changes of the database, the other end
  making itself known, announcements it sends, requests and their answers, and the clean-up.  \<open>ps_acked\<close> is
  the highest version of a peer's announcement the other end confirmed or sent, under the session identifier
  we know.  \<open>ps_since\<close> is the time of the request during or with whose answer that identifier last changed, if
  it did not change between requests: announcements that are older may have got lost there.
\<close>

record 'm progress =
  ps_now :: stime
  ps_db :: "'m synced_route_info"
  ps_session :: sync_session
  ps_in_flight :: "(stime \<times> sync_request) option"
  ps_acked :: "peer_id \<Rightarrow> u32"
  ps_since :: "stime option"

text \<open>A change of the database stamps what it stores with the current time.\<close>

definition stamped :: "stime \<Rightarrow> 'm synced_route_info \<Rightarrow> 'm synced_route_info \<Rightarrow> bool" where
  "stamped now s s' \<longleftrightarrow> st_wf (si_peer_infos s') \<and> (\<forall>p i. st_get (si_peer_infos s') p = Some i \<longrightarrow>
     st_get (si_peer_infos s) p = Some i \<or> ri_last_update i = Some now \<and> (ri_peer_id i = p \<or> ri_version i = 0))"

definition ack_infos :: "route_peer_info list \<Rightarrow> (peer_id \<Rightarrow> u32) \<Rightarrow> peer_id \<Rightarrow> u32" where
  "ack_infos infos a = fold (\<lambda>i a. a(ri_peer_id i := max (a (ri_peer_id i)) (ri_version i))) infos a"

definition sent_infos :: "sync_request \<Rightarrow> route_peer_info list" where
  "sent_infos req = (case sr_peer_infos req of Some is \<Rightarrow> is | None \<Rightarrow> [])"

text \<open>An answer is regular unless it carries a session identifier we did not know.\<close>

fun regular_answer :: "sync_answer \<Rightarrow> sync_session \<Rightarrow> bool" where
  "regular_answer (Sync_Accepted _ sid) ss \<longleftrightarrow> sid = ss_dst_session_id ss"
| "regular_answer _ ss \<longleftrightarrow> True"

fun acked_by :: "sync_answer \<Rightarrow> sync_request \<Rightarrow> sync_session \<Rightarrow> (peer_id \<Rightarrow> u32) \<Rightarrow> peer_id \<Rightarrow> u32" where
  "acked_by (Sync_Accepted _ sid) req ss a = ack_infos (sent_infos req) (if sid = ss_dst_session_id ss then a else (\<lambda>_. 0))"
| "acked_by _ req ss a = a"

inductive session_step :: "'m progress \<Rightarrow> 'm progress \<Rightarrow> bool" where
  db_change: "ps_now x \<le> now \<Longrightarrow> stamped now (ps_db x) s' \<Longrightarrow> session_step x (x\<lparr>ps_now := now, ps_db := s'\<rparr>)"
| contact: "session_step x (x\<lparr>ps_session := update_dst_session_id sid (ps_session x),
      ps_acked := if sid = ss_dst_session_id (ps_session x) then ps_acked x else (\<lambda>_. 0),
      ps_since := if sid = ss_dst_session_id (ps_session x) then ps_since x else map_option fst (ps_in_flight x)\<rparr>)"
| received: "session_step x (x\<lparr>ps_acked := ack_infos infos (ps_acked x),
    ps_session := update_dst_saved_peer_info_version (ps_now x) infos (ss_dst_peer_id (ps_session x)) (ps_session x)\<rparr>)"
| request: "ps_in_flight x = None \<Longrightarrow> newest_first info_kind recent (si_peer_infos (ps_db x)) \<Longrightarrow>
    sync_prepare (ps_now x) force recent recent_conns (ps_db x) t cached (ss_dst_peer_id (ps_session x)) b (ps_session x) = (r, ss') \<Longrightarrow>
    session_step x (x\<lparr>ps_session := ss', ps_in_flight := map_option (Pair (ps_now x)) r\<rparr>)"
| answer: "ps_in_flight x = Some (t0, req) \<Longrightarrow>
    sync_finish (ps_now x) t0 pub req (ss_dst_peer_id (ps_session x)) ans (ps_session x) = Some ss' \<Longrightarrow>
    session_step x (x\<lparr>ps_session := ss', ps_in_flight := None, ps_acked := acked_by ans req (ps_session x) (ps_acked x),
      ps_since := if regular_answer ans (ps_session x) then ps_since x else Some t0\<rparr>)"
| initiator: "session_step x (x\<lparr>ps_session := update_initiator_flag b (ps_session x)\<rparr>)"
| clean: "session_step x (x\<lparr>ps_session := clean_dst_saved_map (ps_now x) (ps_session x)\<rparr>)"

inductive_cases session_stepE: "session_step x y"

text \<open>An announcement is due until the other end has it: it is newer than the last synchronisation or set aside.\<close>

definition pending :: "sync_session \<Rightarrow> peer_id \<Rightarrow> route_peer_info \<Rightarrow> bool" where
  "pending ss p i \<longleftrightarrow> fresh info_kind (ss_last_sync_succ ss) (p, i) \<or> st_get (ss_unreachable_peer_infos ss) p = Some (ri_version i)"

definition wanted :: "'m progress \<Rightarrow> peer_id \<Rightarrow> route_peer_info \<Rightarrow> bool" where
  "wanted x p i \<longleftrightarrow> st_get (si_peer_infos (ps_db x)) p = Some i \<and> ri_version i \<noteq> 0 \<and> p \<noteq> ss_dst_peer_id (ps_session x)
     \<and> fresh info_kind (ps_since x) (p, i)"

text \<open>After the request that is on its way, an older announcement is confirmed or set aside.\<close>

definition covered :: "'m progress \<Rightarrow> stime \<Rightarrow> sync_request \<Rightarrow> bool" where
  "covered x t0 req \<longleftrightarrow> t0 \<le> ps_now x \<and> (\<forall>p i. wanted x p i \<and> \<not> fresh info_kind (Some t0) (p, i) \<longrightarrow>
     ri_version i \<le> ack_infos (sent_infos req) (ps_acked x) p \<or> st_get (ss_unreachable_peer_infos (ps_session x)) p = Some (ri_version i))"

definition db_stamped :: "'m progress \<Rightarrow> bool" where
  "db_stamped x \<longleftrightarrow> st_wf (si_peer_infos (ps_db x)) \<and> (\<forall>p i. st_get (si_peer_infos (ps_db x)) p = Some i \<longrightarrow>
     (\<exists>u. ri_last_update i = Some u \<and> u \<le> ps_now x) \<and> (ri_peer_id i = p \<or> ri_version i = 0))"

definition progress_inv :: "'m progress \<Rightarrow> bool" where
  "progress_inv x \<longleftrightarrow> db_stamped x
     \<and> st_wf (ss_saved_peer_infos (ps_session x)) \<and> st_wf (ss_unreachable_peer_infos (ps_session x))
     \<and> (\<forall>k. saved_ver (ss_saved_peer_infos (ps_session x)) k \<le> ps_acked x k)
     \<and> (\<forall>t. ss_last_sync_succ (ps_session x) = Some t \<longrightarrow> t \<le> ps_now x)
     \<and> (\<forall>p i. wanted x p i \<longrightarrow> ri_version i \<le> ps_acked x p \<or> pending (ps_session x) p i)
     \<and> (\<forall>t0 req. ps_in_flight x = Some (t0, req) \<longrightarrow> covered x t0 req)"

definition progress_start :: "stime \<Rightarrow> 'm synced_route_info \<Rightarrow> peer_id \<Rightarrow> peer_id \<Rightarrow> u64 \<Rightarrow> 'm progress" where
  "progress_start now s my_peer dst sid = \<lparr>ps_now = now, ps_db = s, ps_session = sync_session_new my_peer dst sid,
     ps_in_flight = None, ps_acked = (\<lambda>_. 0), ps_since = None\<rparr>"

section \<open>The steps keep what is due\<close>

lemma ack_infos_ge: "a p \<le> ack_infos infos a p"
proof (induction infos arbitrary: a)
  case (Cons i infos)
  have "a p \<le> (a(ri_peer_id i := max (a (ri_peer_id i)) (ri_version i))) p" by simp
  also have "\<dots> \<le> ack_infos infos (a(ri_peer_id i := max (a (ri_peer_id i)) (ri_version i))) p" by (rule Cons.IH)
  finally show ?case by (simp add: ack_infos_def)
qed (simp add: ack_infos_def)

lemma ack_infos_sent: "i \<in> set infos \<Longrightarrow> ri_version i \<le> ack_infos infos a (ri_peer_id i)"
proof (induction infos arbitrary: a)
  case (Cons j infos)
  let ?a = "a(ri_peer_id j := max (a (ri_peer_id j)) (ri_version j))"
  show ?case
  proof (cases "i = j")
    case True
    have "ri_version i \<le> ?a (ri_peer_id i)" using True by simp
    also have "\<dots> \<le> ack_infos infos ?a (ri_peer_id i)" by (rule ack_infos_ge)
    finally show ?thesis by (simp add: ack_infos_def)
  next
    case False
    with Cons have "ri_version i \<le> ack_infos infos ?a (ri_peer_id i)" by simp
    then show ?thesis by (simp add: ack_infos_def)
  qed
qed simp

lemma max_left_mono: "(a::'a::linorder) \<le> b \<Longrightarrow> max a c \<le> max b c"
  by (rule max.mono) simp_all

lemma raise_infos_acked:
  "\<forall>k. saved_ver m k \<le> a k \<Longrightarrow>
   saved_ver (fold (\<lambda>i. raise_saved now dst (ri_peer_id i) (ri_peer_id i) (ri_version i)) infos m) k \<le> ack_infos infos a k"
proof (induction infos arbitrary: m a)
  case (Cons i infos)
  let ?a = "a(ri_peer_id i := max (a (ri_peer_id i)) (ri_version i))"
  have "\<forall>k'. saved_ver (raise_saved now dst (ri_peer_id i) (ri_peer_id i) (ri_version i) m) k' \<le> ?a k'"
    using Cons.prems by (auto simp: raise_saved_ver max_left_mono simp del: max.bounded_iff intro: max.coboundedI1)
  then have "saved_ver (fold (\<lambda>i. raise_saved now dst (ri_peer_id i) (ri_peer_id i) (ri_version i)) infos
      (raise_saved now dst (ri_peer_id i) (ri_peer_id i) (ri_version i) m)) k \<le> ack_infos infos ?a k" by (rule Cons.IH)
  moreover have "ack_infos (i # infos) a = ack_infos infos ?a" by (simp add: ack_infos_def)
  ultimately show ?case by (simp only: fold_simps)
qed (simp add: ack_infos_def)

lemma raise_saved_wf: "st_wf m \<Longrightarrow> st_wf (raise_saved now dst p k v m)"
  by (simp add: raise_saved_def store_simps)

lemma raise_infos_wf:
  "st_wf m \<Longrightarrow> st_wf (fold (\<lambda>i. raise_saved now dst (ri_peer_id i) (ri_peer_id i) (ri_version i)) infos m)"
  by (induction infos arbitrary: m) (simp_all add: raise_saved_wf)

lemma check_saved_wf: "st_wf m \<Longrightarrow> st_wf (snd (check_saved now dst p k v m))"
  by (simp add: check_saved_def store_simps split: option.split)

lemma scan_recent_wf: "st_wf (fst sel) \<Longrightarrow> st_wf (fst (scan_recent K now dst last_sync reach xs sel))"
proof (induction xs arbitrary: sel)
  case (Cons x xs)
  obtain saved unreach out where sel: "sel = (saved, unreach, out)" by (cases sel)
  with Cons.prems check_saved_wf [of saved now dst "ek_peer K x" "ek_peer K x" "ek_version K (snd x)"] show ?case
    by (auto simp: Let_def split_def intro!: Cons.IH)
qed simp

lemma scan_aside_wf: "st_wf (fst sel) \<Longrightarrow> st_wf (fst (scan_aside now dst reach entries ps sel))"
proof (induction ps arbitrary: sel)
  case (Cons x ps)
  obtain saved unreach out where sel: "sel = (saved, unreach, out)" by (cases sel)
  obtain p v where x: "x = (p, v)" by (cases x)
  from Cons.prems sel check_saved_wf [of saved now dst p p v] show ?case
    by (auto simp: x Let_def split_def split: option.split intro!: Cons.IH)
qed simp

lemma select_news_wf: "st_wf saved \<Longrightarrow> st_wf (fst (select_news K now dst last_sync reach recent entries saved unreach))"
  using scan_recent_wf [of "(saved, unreach, [])" K now dst last_sync reach recent]
  by (auto simp: select_news_def Let_def split_def intro!: scan_aside_wf)

text \<open>The fields of a session the announcements of peers depend on.\<close>

definition same_infos :: "sync_session \<Rightarrow> sync_session \<Rightarrow> bool" where
  "same_infos ss ss' \<longleftrightarrow> ss_saved_peer_infos ss' = ss_saved_peer_infos ss \<and> ss_unreachable_peer_infos ss' = ss_unreachable_peer_infos ss
     \<and> ss_last_sync_succ ss' = ss_last_sync_succ ss \<and> ss_dst_peer_id ss' = ss_dst_peer_id ss \<and> ss_dst_session_id ss' = ss_dst_session_id ss"

lemma build_conn_info_frame: "same_infos ss (snd (build_conn_info now force recent s t cached dst ss))"
  by (simp add: build_conn_info_def build_conn_peer_list_def same_infos_def Let_def split_def split: option.split)

lemma scan_foreign_frame: "same_infos ss (fst (scan_foreign now es (ss, items)))"
proof (induction es arbitrary: ss items)
  case (Cons x es)
  obtain k e where x: "x = (k, e)" by (cases x)
  obtain ok ss1 where c: "check_saved_foreign_network_version_update_to_date now k (fe_version e) ss = (ok, ss1)" by fastforce
  then have "same_infos ss ss1" by (auto simp: check_saved_foreign_network_version_update_to_date_def same_infos_def split_def Let_def)
  with Cons.IH [of ss1] c x show ?case by (auto simp: same_infos_def Let_def)
qed (simp add: same_infos_def)

lemma sync_prepare_infos:
  assumes "sync_prepare now force recent rc s t cached dst b ss = (r, ss')" "dst = ss_dst_peer_id ss"
  obtains saved unreach out where
    "select_news info_kind now dst (ss_last_sync_succ ss) (\<lambda>p. topology_peer_reachable p t) recent (si_peer_infos s)
       (ss_saved_peer_infos ss) (ss_unreachable_peer_infos ss) = (saved, unreach, out)"
    "same_infos (ss\<lparr>ss_saved_peer_infos := saved, ss_unreachable_peer_infos := unreach\<rparr>) ss'"
    "case r of Some req \<Rightarrow> sent_infos req = map snd out | None \<Rightarrow> out = []"
proof -
  obtain saved unreach out where sel: "select_news info_kind now dst (ss_last_sync_succ ss) (\<lambda>p. topology_peer_reachable p t) recent (si_peer_infos s)
       (ss_saved_peer_infos ss) (ss_unreachable_peer_infos ss) = (saved, unreach, out)" by (metis prod_cases3)
  let ?ss1 = "ss\<lparr>ss_saved_peer_infos := saved, ss_unreachable_peer_infos := unreach\<rparr>"
  have 1: "build_route_info now recent s t ss = (if out = [] then None else Some (map snd out), ?ss1)"
    using sel assms(2) by (simp add: build_route_info_def)
  obtain conn ss2 where 2: "build_conn_info now force rc s t cached dst ?ss1 = (conn, ss2)" by fastforce
  obtain items ss3 where 3: "scan_foreign now (si_foreign_network s) (ss2, []) = (ss3, items)" by fastforce
  have same: "same_infos ?ss1 ss3"
    using build_conn_info_frame [of ?ss1 now force rc s t cached dst] scan_foreign_frame [of ss2 now "si_foreign_network s" "[]"] 2 3
    by (simp add: same_infos_def)
  show thesis
    by (rule that [OF sel]) (use assms(1) same in
      \<open>auto simp: sync_prepare_def build_sync_request_def build_foreign_network_info_def 1 2 3 Let_def same_infos_def sent_infos_def split: if_splits\<close>)
qed

lemma progress_invD:
  assumes "progress_inv x"
  shows "db_stamped x" "st_wf (ss_saved_peer_infos (ps_session x))" "st_wf (ss_unreachable_peer_infos (ps_session x))"
    "saved_ver (ss_saved_peer_infos (ps_session x)) k \<le> ps_acked x k"
    "ss_last_sync_succ (ps_session x) = Some t \<Longrightarrow> t \<le> ps_now x"
    "wanted x p i \<Longrightarrow> ri_version i \<le> ps_acked x p \<or> pending (ps_session x) p i"
    "ps_in_flight x = Some (t0, req) \<Longrightarrow> covered x t0 req"
  using assms unfolding progress_inv_def by blast+

lemma late_fresh: "ri_last_update i = Some u \<Longrightarrow> (\<And>t. last_sync = Some t \<Longrightarrow> t \<le> u) \<Longrightarrow> fresh info_kind last_sync (p, i)"
  by (auto simp: too_old_def info_kind_def not_less split: option.split)

lemma db_change_stamped:
  assumes db: "db_stamped x" and now: "ps_now x \<le> now" and st: "stamped now (ps_db x) s'"
  shows "db_stamped (x\<lparr>ps_now := now, ps_db := s'\<rparr>)"
proof -
  have "(\<exists>u. ri_last_update i = Some u \<and> u \<le> now) \<and> (ri_peer_id i = p \<or> ri_version i = 0)"
    if i: "st_get (si_peer_infos s') p = Some i" for p i
  proof (cases "st_get (si_peer_infos (ps_db x)) p = Some i")
    case True
    then obtain u where "ri_last_update i = Some u" "u \<le> ps_now x" "ri_peer_id i = p \<or> ri_version i = 0"
      using db unfolding db_stamped_def by blast
    with now show ?thesis by auto
  next
    case False
    with st i show ?thesis by (auto simp: stamped_def)
  qed
  with st show ?thesis by (simp add: db_stamped_def stamped_def)
qed

lemma db_change_inv:
  assumes inv: "progress_inv x" and now: "ps_now x \<le> now" and st: "stamped now (ps_db x) s'"
  shows "progress_inv (x\<lparr>ps_now := now, ps_db := s'\<rparr>)"
proof -
  let ?y = "x\<lparr>ps_now := now, ps_db := s'\<rparr>"
  note I = progress_invD [OF inv]
  have cases: "st_get (si_peer_infos (ps_db x)) p = Some i \<or> ri_last_update i = Some now"
    if "st_get (si_peer_infos s') p = Some i" for p i
    using st that by (auto simp: stamped_def)
  have "db_stamped ?y" by (rule db_change_stamped [OF I(1) now st])
  moreover have new: "wanted x p i \<or> ri_last_update i = Some now" if "wanted ?y p i" for p i
    using that cases [of p i] by (auto simp: wanted_def)
  have "ri_version i \<le> ps_acked x p \<or> pending (ps_session x) p i" if "wanted ?y p i" for p i
    using new [OF that]
  proof
    assume "ri_last_update i = Some now"
    then have "fresh info_kind (ss_last_sync_succ (ps_session x)) (p, i)"
      by (rule late_fresh) (rule order_trans [OF I(5) now])
    then show ?thesis by (simp add: pending_def)
  qed (rule I(6))
  moreover have "covered ?y t0 req" if "ps_in_flight x = Some (t0, req)" for t0 req
  proof -
    from I(7) [OF that] have c: "t0 \<le> ps_now x" "\<forall>p i. wanted x p i \<and> \<not> fresh info_kind (Some t0) (p, i) \<longrightarrow>
        ri_version i \<le> ack_infos (sent_infos req) (ps_acked x) p \<or> st_get (ss_unreachable_peer_infos (ps_session x)) p = Some (ri_version i)"
      unfolding covered_def by blast+
    have "wanted x p i" if "wanted ?y p i" "\<not> fresh info_kind (Some t0) (p, i)" for p i
      using new [OF that(1)] late_fresh [of i now "Some t0" p] that(2) c(1) now by auto
    with c now show ?thesis unfolding covered_def by auto
  qed
  ultimately show ?thesis using I(2-5) now unfolding progress_inv_def by (auto intro: order_trans)
qed

text \<open>Operations that leave the fields of the announcements alone, or forget recorded versions.\<close>

lemma weaker_session_inv:
  assumes inv: "progress_inv x" and "st_wf (ss_saved_peer_infos ss')" "\<And>k. saved_ver (ss_saved_peer_infos ss') k \<le> ps_acked x k"
    "ss_unreachable_peer_infos ss' = ss_unreachable_peer_infos (ps_session x)" "ss_last_sync_succ ss' = ss_last_sync_succ (ps_session x)"
    "ss_dst_peer_id ss' = ss_dst_peer_id (ps_session x)"
  shows "progress_inv (x\<lparr>ps_session := ss'\<rparr>)"
  using assms by (simp add: progress_inv_def db_stamped_def wanted_def pending_def covered_def)

lemma more_acked_inv:
  assumes inv: "progress_inv x" and a: "\<And>k. ps_acked x k \<le> a k"
  shows "progress_inv (x\<lparr>ps_acked := a\<rparr>)"
proof -
  note I = progress_invD [OF inv]
  have mono: "ack_infos infos f k \<le> ack_infos infos g k" if "\<And>k. f k \<le> g k" for infos f g k
    using that
  proof (induction infos arbitrary: f g)
    case (Cons i infos)
    have "ack_infos infos (f(ri_peer_id i := max (f (ri_peer_id i)) (ri_version i))) k \<le> ack_infos infos (g(ri_peer_id i := max (g (ri_peer_id i)) (ri_version i))) k"
      by (rule Cons.IH) (simp add: Cons.prems max_left_mono del: max.bounded_iff)
    then show ?case by (simp add: ack_infos_def)
  qed (simp add: ack_infos_def)
  have "covered (x\<lparr>ps_acked := a\<rparr>) t0 req" if "ps_in_flight x = Some (t0, req)" for t0 req
  proof -
    have m: "ack_infos (sent_infos req) (ps_acked x) p \<le> ack_infos (sent_infos req) a p" for p by (rule mono) (rule a)
    show ?thesis using I(7) [OF that] unfolding covered_def wanted_def by (auto intro: order_trans [OF _ m])
  qed
  moreover have "ri_version i \<le> a p \<or> pending (ps_session x) p i" if "wanted x p i" for p i
    using I(6) [OF that] a [of p] by auto
  moreover have "saved_ver (ss_saved_peer_infos (ps_session x)) k \<le> a k" for k using I(4) a order_trans by blast
  ultimately show ?thesis using I(1-3,5) unfolding progress_inv_def db_stamped_def wanted_def by auto
qed

lemma prepare_inv:
  assumes inv: "progress_inv x" and nf: "newest_first info_kind recent (si_peer_infos (ps_db x))" and idle: "ps_in_flight x = None"
    and prep: "sync_prepare (ps_now x) force recent rc (ps_db x) t cached (ss_dst_peer_id (ps_session x)) b (ps_session x) = (r, ss')"
  shows "progress_inv (x\<lparr>ps_session := ss', ps_in_flight := map_option (Pair (ps_now x)) r\<rparr>)"
proof (rule sync_prepare_infos [OF prep refl])
  fix saved unreach out
  let ?dst = "ss_dst_peer_id (ps_session x)" and ?ss = "ps_session x" and ?y = "x\<lparr>ps_session := ss', ps_in_flight := map_option (Pair (ps_now x)) r\<rparr>"
  assume sel: "select_news info_kind (ps_now x) ?dst (ss_last_sync_succ ?ss) (\<lambda>p. topology_peer_reachable p t) recent (si_peer_infos (ps_db x))
       (ss_saved_peer_infos ?ss) (ss_unreachable_peer_infos ?ss) = (saved, unreach, out)"
    and same: "same_infos (?ss\<lparr>ss_saved_peer_infos := saved, ss_unreachable_peer_infos := unreach\<rparr>) ss'"
    and r: "case r of Some req \<Rightarrow> sent_infos req = map snd out | None \<Rightarrow> out = []"
  note I = progress_invD [OF inv]
  have ss': "ss_saved_peer_infos ss' = saved" "ss_unreachable_peer_infos ss' = unreach" "ss_last_sync_succ ss' = ss_last_sync_succ ?ss"
    "ss_dst_peer_id ss' = ?dst" using same by (simp_all add: same_infos_def)
  have wfdb: "st_wf (si_peer_infos (ps_db x))" using I(1) by (simp add: db_stamped_def)
  have wf': "st_wf saved" using select_news_wf [OF I(2), of info_kind "ps_now x" ?dst "ss_last_sync_succ ?ss"] sel by (metis fst_conv)
  have sv: "saved_ver saved = saved_ver (ss_saved_peer_infos ?ss)" "st_wf unreach"
    using select_news_parts [OF sel I(3)] by blast+
  have w: "wanted ?y p i = wanted x p i" for p i by (simp add: wanted_def ss')
  have kept: "(if topology_peer_reachable p t then (p, i) \<in> set out else st_get unreach p = Some (ri_version i))
      \<and> (st_get (ss_unreachable_peer_infos ?ss) p = Some (ri_version i) \<longrightarrow> st_get unreach p = Some (ri_version i))"
    if wa: "wanted x p i" "\<not> ri_version i \<le> ps_acked x p" for p i
  proof -
    have i: "st_get (si_peer_infos (ps_db x)) p = Some i" "ri_version i \<noteq> 0" "p \<noteq> ?dst" using wa by (simp_all add: wanted_def)
    have key: "ri_peer_id i = p" using I(1) i unfolding db_stamped_def by blast
    have "\<not> ri_version i \<le> saved_ver (ss_saved_peer_infos ?ss) p" using wa(2) I(4) [of p] order_trans by blast
    then have d: "\<not> up_to_date ?dst (ss_saved_peer_infos ?ss) p p (ri_version i)" using i(3) by (simp add: up_to_date_def)
    have "pending ?ss p i" using I(6) [OF wa(1)] wa(2) by blast
    with select_due [OF sel nf I(3) wfdb i(1)] key d show ?thesis by (simp add: info_kind_def pending_def)
  qed
  have "ri_version i \<le> ps_acked x p \<or> pending ss' p i" if "wanted x p i" for p i
    using I(6) [OF that] kept [OF that] by (auto simp: pending_def ss')
  moreover have "covered ?y t0 req" if "ps_in_flight ?y = Some (t0, req)" for t0 req
  proof -
    from that have t0: "t0 = ps_now x" "r = Some req" by auto
    with r have sent: "sent_infos req = map snd out" by simp
    have "ri_version i \<le> ack_infos (map snd out) (ps_acked x) p \<or> st_get unreach p = Some (ri_version i)" if wa: "wanted x p i" for p i
    proof (cases "ri_version i \<le> ps_acked x p")
      case True
      with ack_infos_ge show ?thesis using order_trans by blast
    next
      case False
      have key: "ri_peer_id i = p" using I(1) wa unfolding db_stamped_def wanted_def by blast
      from kept [OF wa False] ack_infos_sent [of i "map snd out" "ps_acked x"] show ?thesis by (force simp: key split: if_splits)
    qed
    then show ?thesis unfolding covered_def w by (simp add: t0(1) sent ss')
  qed
  ultimately show ?thesis using I(1,4,5) wf' sv by (auto simp: progress_inv_def w ss' db_stamped_def)
qed

lemma conn_version_frame: "same_infos ss (update_dst_saved_conn_info_version now c dst ss)"
  by (cases c) (simp_all add: same_infos_def update_dst_saved_conn_bitmap_version_def update_dst_saved_conn_peer_list_version_def)

lemma foreign_version_frame: "update_dst_saved_foreign_network_version now f dst ss = Some ss' \<Longrightarrow> same_infos ss ss'"
  by (auto simp: update_dst_saved_foreign_network_version_def same_infos_def)

definition later_sync :: "stime \<Rightarrow> stime option \<Rightarrow> stime option" where
  "later_sync t0 old = (if (case old of None \<Rightarrow> True | Some t \<Rightarrow> t < t0) then Some t0 else old)"

lemma last_sync_fields:
  "ss_last_sync_succ (update_last_sync_succ_timestamp t0 ss) = later_sync t0 (ss_last_sync_succ ss)"
  "ss_saved_peer_infos (update_last_sync_succ_timestamp t0 ss) = ss_saved_peer_infos ss"
  "ss_unreachable_peer_infos (update_last_sync_succ_timestamp t0 ss) = ss_unreachable_peer_infos ss"
  "ss_dst_peer_id (update_last_sync_succ_timestamp t0 ss) = ss_dst_peer_id ss"
  "ss_dst_session_id (update_last_sync_succ_timestamp t0 ss) = ss_dst_session_id ss"
  by (simp_all add: update_last_sync_succ_timestamp_def later_sync_def)

text \<open>What an accepted request leaves in the session, whatever session identifier the answer carries.\<close>

lemma sync_finish_accepted:
  assumes "sync_finish now t0 pub req dst (Sync_Accepted b sid) ss = Some ss'"
  defines "ss1 \<equiv> update_dst_session_id sid ss"
  shows "ss_saved_peer_infos ss' = fold (\<lambda>i. raise_saved now dst (ri_peer_id i) (ri_peer_id i) (ri_version i)) (sent_infos req) (ss_saved_peer_infos ss1)"
    "ss_unreachable_peer_infos ss' = ss_unreachable_peer_infos ss1" "ss_last_sync_succ ss' = later_sync t0 (ss_last_sync_succ ss1)"
    "ss_dst_peer_id ss' = ss_dst_peer_id ss" "ss_dst_session_id ss' = sid"
proof -
  let ?a = "update_dst_session_id sid (ss\<lparr>ss_rpc_tx_count := ss_rpc_tx_count ss + 1, ss_dst_is_initiator := b\<rparr>)"
  let ?b = "case sr_peer_infos req of Some is \<Rightarrow> update_dst_saved_peer_info_version now is dst ?a | None \<Rightarrow> ?a"
  let ?c = "case sr_conn_info req of Some c \<Rightarrow> update_dst_saved_conn_info_version now c dst ?b | None \<Rightarrow> ?b"
  obtain d where d: "(case sr_foreign_network req of Some f \<Rightarrow> update_dst_saved_foreign_network_version now f dst ?c | None \<Rightarrow> Some ?c) = Some d"
      "ss' = update_last_sync_succ_timestamp t0 d"
    using assms(1) by (auto simp: Let_def)
  have cd: "same_infos ?c d" using d(1) foreign_version_frame by (cases "sr_foreign_network req") (auto simp: same_infos_def)
  have bc: "same_infos ?b ?c" using conn_version_frame by (cases "sr_conn_info req") (auto simp: same_infos_def)
  have b: "ss_saved_peer_infos ?b = fold (\<lambda>i. raise_saved now dst (ri_peer_id i) (ri_peer_id i) (ri_version i)) (sent_infos req) (ss_saved_peer_infos ?a)"
    "ss_unreachable_peer_infos ?b = ss_unreachable_peer_infos ?a" "ss_last_sync_succ ?b = ss_last_sync_succ ?a" "ss_dst_peer_id ?b = ss_dst_peer_id ?a"
    "ss_dst_session_id ?b = ss_dst_session_id ?a"
    by (cases "sr_peer_infos req"; simp add: update_dst_saved_peer_info_version_def sent_infos_def)+
  have a: "ss_saved_peer_infos ?a = ss_saved_peer_infos ss1" "ss_unreachable_peer_infos ?a = ss_unreachable_peer_infos ss1"
    "ss_last_sync_succ ?a = ss_last_sync_succ ss1" "ss_dst_peer_id ?a = ss_dst_peer_id ss" "ss_dst_session_id ?a = sid"
    by (simp_all add: update_dst_session_id_def ss1_def)
  show "ss_saved_peer_infos ss' = fold (\<lambda>i. raise_saved now dst (ri_peer_id i) (ri_peer_id i) (ri_version i)) (sent_infos req) (ss_saved_peer_infos ss1)"
    "ss_unreachable_peer_infos ss' = ss_unreachable_peer_infos ss1" "ss_last_sync_succ ss' = later_sync t0 (ss_last_sync_succ ss1)"
    "ss_dst_peer_id ss' = ss_dst_peer_id ss" "ss_dst_session_id ss' = sid"
    using a b bc cd by (simp_all add: d(2) last_sync_fields same_infos_def)
qed

lemma refused_fields:
  assumes "sync_finish now t0 pub req dst ans ss = Some ss'" "\<forall>b sid. ans \<noteq> Sync_Accepted b sid"
  shows "same_infos ss ss'"
  using assms by (cases ans) (auto simp: same_infos_def split: if_splits)

lemma answer_inv:
  assumes inv: "progress_inv x" and fl: "ps_in_flight x = Some (t0, req)" and reg: "regular_answer ans (ps_session x)"
    and fin: "sync_finish (ps_now x) t0 pub req (ss_dst_peer_id (ps_session x)) ans (ps_session x) = Some ss'"
  shows "progress_inv (x\<lparr>ps_session := ss', ps_in_flight := None, ps_acked := acked_by ans req (ps_session x) (ps_acked x)\<rparr>)"
proof (cases "\<exists>b sid. ans = Sync_Accepted b sid")
  case False
  then have "same_infos (ps_session x) ss'" "acked_by ans req (ps_session x) (ps_acked x) = ps_acked x"
    using refused_fields [OF fin] by (blast, cases ans, auto)
  with inv show ?thesis by (simp add: progress_inv_def same_infos_def db_stamped_def wanted_def pending_def)
next
  case True
  then obtain b where ans: "ans = Sync_Accepted b (ss_dst_session_id (ps_session x))" using reg by (cases ans) auto
  let ?a = "ack_infos (sent_infos req) (ps_acked x)" and ?ss = "ps_session x"
  note I = progress_invD [OF inv] and F = sync_finish_accepted [OF fin [unfolded ans]]
  have id: "update_dst_session_id (ss_dst_session_id ?ss) ?ss = ?ss" by (simp add: update_dst_session_id_def)
  from I(7) [OF fl] have c: "t0 \<le> ps_now x" "\<And>p i. wanted x p i \<Longrightarrow> \<not> fresh info_kind (Some t0) (p, i) \<Longrightarrow>
      ri_version i \<le> ?a p \<or> st_get (ss_unreachable_peer_infos ?ss) p = Some (ri_version i)"
    unfolding covered_def by blast+
  have "ri_version i \<le> ?a p \<or> pending ss' p i" if w: "wanted x p i" for p i
  proof (cases "fresh info_kind (Some t0) (p, i)")
    case False
    with c(2) [OF w] show ?thesis by (auto simp: pending_def F(2) id)
  next
    case fr: True
    show ?thesis
    proof (cases "ri_version i \<le> ps_acked x p")
      case True
      with ack_infos_ge show ?thesis using order_trans by blast
    next
      case False
      with I(6) [OF w] fr show ?thesis by (auto simp: pending_def F(2,3) id later_sync_def)
    qed
  qed
  moreover have "saved_ver (ss_saved_peer_infos ss') k \<le> ?a k" for k unfolding F(1) id by (rule raise_infos_acked) (simp add: I(4))
  moreover have "t \<le> ps_now x" if "ss_last_sync_succ ss' = Some t" for t
    using that c(1) I(5) by (auto simp: F(3) id later_sync_def split: if_splits)
  moreover have "st_wf (ss_saved_peer_infos ss')" unfolding F(1) id by (rule raise_infos_wf [OF I(2)])
  ultimately show ?thesis using I(1,3) by (simp add: progress_inv_def ans F(2,4) id db_stamped_def wanted_def)
qed

text \<open>An answer with an unknown identifier: everything stored since the request was built is due.\<close>

lemma unknown_answer_inv:
  assumes inv: "progress_inv x" and fl: "ps_in_flight x = Some (t0, req)" and new: "sid \<noteq> ss_dst_session_id (ps_session x)"
    and fin: "sync_finish (ps_now x) t0 pub req (ss_dst_peer_id (ps_session x)) (Sync_Accepted b sid) (ps_session x) = Some ss'"
  shows "progress_inv (x\<lparr>ps_session := ss', ps_in_flight := None, ps_acked := ack_infos (sent_infos req) (\<lambda>_. 0), ps_since := Some t0\<rparr>)"
proof -
  note I = progress_invD [OF inv] and F = sync_finish_accepted [OF fin]
  have t0: "t0 \<le> ps_now x" using I(7) [OF fl] by (simp add: covered_def)
  have l: "ss_last_sync_succ ss' = Some t0" "ss_unreachable_peer_infos ss' = []"
    using new by (simp_all add: F(2,3) update_dst_session_id_def later_sync_def)
  have "saved_ver (ss_saved_peer_infos ss') k \<le> ack_infos (sent_infos req) (\<lambda>_. 0) k" for k
    unfolding F(1) by (rule raise_infos_acked) (use new in \<open>simp add: update_dst_session_id_def saved_ver_def store_simps\<close>)
  moreover have "st_wf (ss_saved_peer_infos ss')"
    unfolding F(1) by (rule raise_infos_wf) (use new in \<open>simp add: update_dst_session_id_def store_simps\<close>)
  ultimately show ?thesis
    using I(1) t0 by (simp add: progress_inv_def db_stamped_def wanted_def pending_def l store_simps)
qed

lemma any_answer_inv:
  assumes inv: "progress_inv x" and fl: "ps_in_flight x = Some (t0, req)"
    and fin: "sync_finish (ps_now x) t0 pub req (ss_dst_peer_id (ps_session x)) ans (ps_session x) = Some ss'"
  shows "progress_inv (x\<lparr>ps_session := ss', ps_in_flight := None, ps_acked := acked_by ans req (ps_session x) (ps_acked x),
      ps_since := if regular_answer ans (ps_session x) then ps_since x else Some t0\<rparr>)"
proof (cases "regular_answer ans (ps_session x)")
  case True
  have same: "y\<lparr>ps_since := ps_since x\<rparr> = y" if "ps_since y = ps_since x" for y :: "'m progress" using that by (cases y) simp
  from answer_inv [OF inv fl True fin] True show ?thesis by (simp add: same)
next
  case False
  then obtain b sid where ans: "ans = Sync_Accepted b sid" "sid \<noteq> ss_dst_session_id (ps_session x)" by (cases ans) auto
  from unknown_answer_inv [OF inv fl ans(2) fin [unfolded ans(1)]] ans show ?thesis by simp
qed

lemma contact_inv:
  assumes inv: "progress_inv x"
  shows "progress_inv (x\<lparr>ps_session := update_dst_session_id sid (ps_session x),
      ps_acked := if sid = ss_dst_session_id (ps_session x) then ps_acked x else (\<lambda>_. 0),
      ps_since := if sid = ss_dst_session_id (ps_session x) then ps_since x else map_option fst (ps_in_flight x)\<rparr>)"
proof (cases "sid = ss_dst_session_id (ps_session x)")
  case True
  with inv show ?thesis by (simp add: update_dst_session_id_def)
next
  case False
  note I = progress_invD [OF inv]
  let ?ss = "update_dst_session_id sid (ps_session x)"
  let ?y = "x\<lparr>ps_session := ?ss, ps_acked := \<lambda>_. 0, ps_since := map_option fst (ps_in_flight x)\<rparr>"
  have ss: "ss_saved_peer_infos ?ss = []" "ss_unreachable_peer_infos ?ss = []" "ss_last_sync_succ ?ss = None" "ss_dst_peer_id ?ss = ss_dst_peer_id (ps_session x)"
    using False by (simp_all add: update_dst_session_id_def)
  have "covered ?y t0 req" if "ps_in_flight x = Some (t0, req)" for t0 req
    using that I(7) [OF that] by (auto simp: covered_def wanted_def)
  then have "progress_inv ?y"
    using I(1) by (simp add: progress_inv_def ss saved_ver_def store_simps db_stamped_def pending_def too_old_def split: option.split)
  with False show ?thesis by simp
qed

lemma session_step_inv: "session_step x y \<Longrightarrow> progress_inv x \<Longrightarrow> progress_inv y"
proof (induction rule: session_step.induct)
  case (received x infos)
  let ?ss = "update_dst_saved_peer_info_version (ps_now x) infos (ss_dst_peer_id (ps_session x)) (ps_session x)"
  have a: "progress_inv (x\<lparr>ps_acked := ack_infos infos (ps_acked x)\<rparr>)" by (rule more_acked_inv [OF received]) (rule ack_infos_ge)
  have "progress_inv ((x\<lparr>ps_acked := ack_infos infos (ps_acked x)\<rparr>)\<lparr>ps_session := ?ss\<rparr>)"
    by (rule weaker_session_inv [OF a])
      (use progress_invD(2,4) [OF received] in \<open>simp_all add: update_dst_saved_peer_info_version_def raise_infos_wf raise_infos_acked\<close>)
  then show ?case by simp
next
  case (initiator x b)
  then show ?case by (intro weaker_session_inv) (simp_all add: update_initiator_flag_def progress_invD)
next
  case (clean x)
  have "saved_ver (ss_saved_peer_infos (clean_dst_saved_map (ps_now x) (ps_session x))) k \<le> ps_acked x k" for k
    using retain_saved_ver [OF progress_invD(2) [OF clean]] progress_invD(4) [OF clean, of k]
    by (simp add: clean_dst_saved_map_def) (meson order_trans)
  with clean show ?case by (intro weaker_session_inv) (simp_all add: clean_dst_saved_map_def progress_invD store_simps)
qed (simp_all only: db_change_inv contact_inv prepare_inv any_answer_inv)

lemma progress_start_inv:
  assumes "db_stamped (progress_start now s my_peer dst sid)"
  shows "progress_inv (progress_start now s my_peer dst sid)"
  using assms by (simp add: progress_inv_def progress_start_def sync_session_new_def saved_ver_def store_simps pending_def too_old_def
      st_wf_def split: option.split)

lemma session_run_inv:
  assumes "session_step\<^sup>*\<^sup>* (progress_start now s my_peer dst sid) x" "db_stamped (progress_start now s my_peer dst sid)"
  shows "progress_inv x"
  using assms(1) by (induction rule: rtranclp_induct) (use progress_start_inv [OF assms(2)] session_step_inv in auto)

text \<open>
  C34: a session forgets no announcement that was stored since the other end's session identifier settled.  In
  every run of a session with one request at a time, whatever answers fail or get lost and whenever the other end
  changes its session identifier, by an answer or by calling us: the announcement of a reachable peer that the
  other end has not confirmed in its current version under its present identifier is in the next request, unless
  the identifier last changed during a request or with its answer and the announcement is older than that request.
  The first answer of a session we open is such a change; what is older is in that request if its peer was
  reachable, and may be lost otherwise.
\<close>

theorem session_forgets_nothing:
  assumes "session_step\<^sup>*\<^sup>* (progress_start now s my_peer dst sid) x" and "db_stamped (progress_start now s my_peer dst sid)"
    and "newest_first info_kind recent (si_peer_infos (ps_db x))" and "wanted x p i" and "topology_peer_reachable p t"
    and "\<not> ri_version i \<le> ps_acked x p"
  shows "\<exists>infos ss'. build_route_info now' recent (ps_db x) t (ps_session x) = (Some infos, ss') \<and> i \<in> set infos"
proof -
  note I = progress_invD [OF session_run_inv [OF assms(1,2)]]
  let ?ss = "ps_session x"
  have i: "st_get (si_peer_infos (ps_db x)) p = Some i" "ri_version i \<noteq> 0" "p \<noteq> ss_dst_peer_id ?ss" using assms(4) by (simp_all add: wanted_def)
  have key: "ri_peer_id i = p" and wf: "st_wf (si_peer_infos (ps_db x))" using I(1) i unfolding db_stamped_def by blast+
  have "\<not> ri_version i \<le> saved_ver (ss_saved_peer_infos ?ss) p" using assms(6) I(4) [of p] order_trans by blast
  then have d: "\<not> up_to_date (ss_dst_peer_id ?ss) (ss_saved_peer_infos ?ss) p p (ri_version i)" using i(3) by (simp add: up_to_date_def)
  obtain saved unreach out where sel: "select_news info_kind now' (ss_dst_peer_id ?ss) (ss_last_sync_succ ?ss) (\<lambda>p. topology_peer_reachable p t) recent
      (si_peer_infos (ps_db x)) (ss_saved_peer_infos ?ss) (ss_unreachable_peer_infos ?ss) = (saved, unreach, out)" by (metis prod_cases3)
  have "pending ?ss p i" using I(6) [OF assms(4)] assms(6) by blast
  with select_due [OF sel assms(3) I(3) wf i(1)] key d assms(5) have "(p, i) \<in> set out" by (simp add: info_kind_def pending_def)
  then show ?thesis using sel by (auto simp: build_route_info_def intro: image_eqI [of _ snd "(p, i)"])
qed

section \<open>An answer with a new session identifier\<close>

text \<open>An announcement that is neither new nor set aside.\<close>

definition forgotten :: "sync_session \<Rightarrow> peer_id \<Rightarrow> route_peer_info \<Rightarrow> bool" where
  "forgotten ss p i \<longleftrightarrow> \<not> fresh info_kind (ss_last_sync_succ ss) (p, i) \<and> st_get (ss_unreachable_peer_infos ss) p = None"

lemma select_forgotten:
  assumes sel: "select_news K now dst last_sync reach recent entries saved unreach = (saved', unreach', out)"
    and wf: "st_wf unreach" and rec: "distinct (map fst recent)" "(p, i) \<in> set recent"
    and old: "\<not> fresh K last_sync (p, i)" "st_get unreach p = None"
  shows "st_get unreach' p = None \<and> (\<forall>j. (p, j) \<notin> set out)"
proof (rule select_news_parts [OF sel wf])
  fix unreach1
  let ?xs = "filter (\<lambda>x. due K dst saved x \<and> \<not> reach (fst x)) (takeWhile (fresh K last_sync) recent)"
  assume u: "unreach1 = fold (\<lambda>x. st_insert (fst x) (ek_version K (snd x))) ?xs unreach"
      "\<forall>p. st_get unreach' p = (case st_get unreach1 p of
          Some v \<Rightarrow> if up_to_date dst saved p p v \<or> st_get entries p = None then None else Some v | None \<Rightarrow> None)"
      "\<forall>p i. (p, i) \<in> set out \<longleftrightarrow> (p, i) \<in> set (takeWhile (fresh K last_sync) recent) \<and> due K dst saved (p, i) \<and> reach p
        \<or> (\<exists>v. st_get unreach1 p = Some v \<and> \<not> up_to_date dst saved p p v \<and> st_get entries p = Some i \<and> reach p)"
  have no: "(p, j) \<notin> set (takeWhile (fresh K last_sync) recent)" for j
  proof
    assume "(p, j) \<in> set (takeWhile (fresh K last_sync) recent)"
    then have "(p, j) \<in> set recent" "fresh K last_sync (p, j)" by (auto dest: set_takeWhileD)
    with rec old(1) show False by (metis eq_key_imp_eq_value)
  qed
  then have "p \<notin> fst ` set ?xs" by auto
  from fold_insert_notin [OF this, of "\<lambda>x. ek_version K (snd x)" unreach] old(2) have "st_get unreach1 p = None" unfolding u(1) by argo
  with no u(2,3) show ?thesis by simp
qed

text \<open>Steps that keep the session identifier and the announcement in question.\<close>

definition quiet_step :: "peer_id \<Rightarrow> route_peer_info \<Rightarrow> 'm progress \<Rightarrow> 'm progress \<Rightarrow> bool" where
  "quiet_step p i x y \<longleftrightarrow> session_step x y \<and> st_get (si_peer_infos (ps_db y)) p = Some i
     \<and> ss_dst_session_id (ps_session y) = ss_dst_session_id (ps_session x)"

lemma later_not_fresh: "\<not> fresh K last_sync x \<Longrightarrow> \<not> fresh K (later_sync t0 last_sync) x"
  by (auto simp: too_old_def later_sync_def split: option.splits if_splits)

text \<open>Forgotten, in a database whose announcements are stored under the identifier of their peer.\<close>

definition lost :: "peer_id \<Rightarrow> route_peer_info \<Rightarrow> 'm progress \<Rightarrow> bool" where
  "lost p i x \<longleftrightarrow> db_stamped x \<and> st_wf (ss_unreachable_peer_infos (ps_session x)) \<and> forgotten (ps_session x) p i
     \<and> st_get (si_peer_infos (ps_db x)) p = Some i \<and> ri_version i \<noteq> 0"

lemma lost_selection:
  assumes l: "lost p i x" and nf: "newest_first info_kind recent (si_peer_infos (ps_db x))"
    and sel: "select_news info_kind now dst (ss_last_sync_succ (ps_session x)) reach recent (si_peer_infos (ps_db x))
       saved (ss_unreachable_peer_infos (ps_session x)) = (saved', unreach', out)"
  shows "st_get unreach' p = None" "i \<notin> snd ` set out"
proof -
  have wf: "st_wf (si_peer_infos (ps_db x))" and i: "st_get (si_peer_infos (ps_db x)) p = Some i" and u: "st_wf (ss_unreachable_peer_infos (ps_session x))"
    using l by (simp_all add: lost_def db_stamped_def)
  have mem: "(p, i) \<in> set recent" "distinct (map fst recent)" using nf i wf by (simp_all add: newest_first_def st_get_set)
  have f: "\<not> fresh info_kind (ss_last_sync_succ (ps_session x)) (p, i)" "st_get (ss_unreachable_peer_infos (ps_session x)) p = None"
    using l by (simp_all add: lost_def forgotten_def)
  note F = select_forgotten [OF sel u mem(2,1) f]
  then show "st_get unreach' p = None" by blast
  show "i \<notin> snd ` set out"
  proof
    assume "i \<in> snd ` set out"
    then obtain q where q: "(q, i) \<in> set out" by auto
    have "st_get (si_peer_infos (ps_db x)) q = Some i"
    proof (rule select_news_parts [OF sel u])
      fix unreach1 :: "(peer_id, u32) store"
      assume "\<forall>p i. (p, i) \<in> set out \<longleftrightarrow> (p, i) \<in> set (takeWhile (fresh info_kind (ss_last_sync_succ (ps_session x))) recent) \<and> due info_kind dst saved (p, i) \<and> reach p
        \<or> (\<exists>v. st_get unreach1 p = Some v \<and> \<not> up_to_date dst saved p p v \<and> st_get (si_peer_infos (ps_db x)) p = Some i \<and> reach p)"
      with q show ?thesis using nf wf by (auto simp: newest_first_def st_get_set dest: set_takeWhileD)
    qed
    then have "ri_peer_id i = q" using l unfolding lost_def db_stamped_def by blast
    moreover have "ri_peer_id i = p" using l unfolding lost_def db_stamped_def by blast
    ultimately show False using q F by blast
  qed
qed

lemma quiet_session:
  assumes "lost p i x" "st_wf (ss_unreachable_peer_infos ss')" "st_get (ss_unreachable_peer_infos ss') p = None"
    "ss_last_sync_succ ss' = ss_last_sync_succ (ps_session x) \<or> ss_last_sync_succ ss' = later_sync t0 (ss_last_sync_succ (ps_session x))"
  shows "lost p i (x\<lparr>ps_session := ss', ps_in_flight := q, ps_acked := a, ps_since := since\<rparr>)"
  using assms later_not_fresh [of info_kind "(p, i)" "ss_last_sync_succ (ps_session x)" t0]
  by (auto simp: lost_def forgotten_def db_stamped_def)

lemma regular_finish_fields:
  assumes "sync_finish now t0 pub req dst ans ss = Some ss'" "regular_answer ans ss"
  shows "ss_unreachable_peer_infos ss' = ss_unreachable_peer_infos ss"
    "ss_last_sync_succ ss' = ss_last_sync_succ ss \<or> ss_last_sync_succ ss' = later_sync t0 (ss_last_sync_succ ss)"
proof -
  have "ss_unreachable_peer_infos ss' = ss_unreachable_peer_infos ss
    \<and> (ss_last_sync_succ ss' = ss_last_sync_succ ss \<or> ss_last_sync_succ ss' = later_sync t0 (ss_last_sync_succ ss))"
  proof (cases "\<exists>b sid. ans = Sync_Accepted b sid")
    case True
    then obtain b where ans: "ans = Sync_Accepted b (ss_dst_session_id ss)" using assms(2) by (cases ans) auto
    from sync_finish_accepted [OF assms(1) [unfolded ans]] show ?thesis by (simp add: update_dst_session_id_def)
  next
    case False
    with refused_fields [OF assms(1)] show ?thesis by (auto simp: same_infos_def)
  qed
  then show "ss_unreachable_peer_infos ss' = ss_unreachable_peer_infos ss"
    "ss_last_sync_succ ss' = ss_last_sync_succ ss \<or> ss_last_sync_succ ss' = later_sync t0 (ss_last_sync_succ ss)" by blast+
qed

lemma quiet_step_lost:
  assumes "quiet_step p i x y" "lost p i x"
  shows "lost p i y"
proof -
  have st: "session_step x y" and i: "st_get (si_peer_infos (ps_db y)) p = Some i" and sid: "ss_dst_session_id (ps_session y) = ss_dst_session_id (ps_session x)"
    using assms(1) by (simp_all add: quiet_step_def)
  note L = assms(2) [unfolded lost_def forgotten_def]
  from st show ?thesis
  proof (cases rule: session_step.cases)
    case (db_change now s')
    with db_change_stamped L have "db_stamped y" by blast
    with L i db_change(1) show ?thesis by (simp add: lost_def forgotten_def)
  next
    case (contact sid')
    with sid have "sid' = ss_dst_session_id (ps_session x)" by (simp add: update_dst_session_id_def split: if_splits)
    with contact assms(2) show ?thesis by (simp add: update_dst_session_id_def)
  next
    case (received infos)
    with L i show ?thesis by (simp add: lost_def forgotten_def db_stamped_def update_dst_saved_peer_info_version_def)
  next
    case (request recent force rc t cached b r ss')
    obtain saved unreach out where sel: "select_news info_kind (ps_now x) (ss_dst_peer_id (ps_session x)) (ss_last_sync_succ (ps_session x))
        (\<lambda>p. topology_peer_reachable p t) recent (si_peer_infos (ps_db x)) (ss_saved_peer_infos (ps_session x)) (ss_unreachable_peer_infos (ps_session x))
          = (saved, unreach, out)" "ss_unreachable_peer_infos ss' = unreach" "ss_last_sync_succ ss' = ss_last_sync_succ (ps_session x)"
      by (rule sync_prepare_infos [OF request(4) refl]) (simp add: same_infos_def)
    have "st_wf unreach" using select_news_parts [OF sel(1)] L by blast
    with lost_selection(1) [OF assms(2) request(3) sel(1)] quiet_session [OF assms(2), where ss' = ss' and a = "ps_acked x" and since = "ps_since x"] sel(2,3) request(1)
    show ?thesis by simp
  next
    case (answer t0 req pub ans ss')
    have reg: "regular_answer ans (ps_session x)"
    proof (cases ans)
      case (Sync_Accepted b sid')
      with sync_finish_accepted(5) [OF answer(3) [unfolded Sync_Accepted]] sid answer(1) show ?thesis by simp
    qed simp_all
    from regular_finish_fields [OF answer(3) reg] L answer(1)
      quiet_session [OF assms(2), where ss' = ss' and ?t0.0 = t0 and q = None and a = "acked_by ans req (ps_session x) (ps_acked x)"]
    show ?thesis by auto
  next
    case (initiator b)
    with L i show ?thesis by (simp add: lost_def forgotten_def db_stamped_def update_initiator_flag_def)
  next
    case clean
    with L i show ?thesis by (simp add: lost_def forgotten_def db_stamped_def clean_dst_saved_map_def)
  qed
qed

text \<open>The announcements the next request would carry.\<close>

definition offered :: "stime \<Rightarrow> (peer_id \<times> route_peer_info) list \<Rightarrow> 'm synced_route_info \<Rightarrow> route_table \<Rightarrow> sync_session \<Rightarrow> route_peer_info list" where
  "offered now recent s t ss = (case fst (build_route_info now recent s t ss) of Some infos \<Rightarrow> infos | None \<Rightarrow> [])"

lemma offered_selection:
  assumes "select_news info_kind now (ss_dst_peer_id ss) (ss_last_sync_succ ss) (\<lambda>p. topology_peer_reachable p t) recent (si_peer_infos s)
    (ss_saved_peer_infos ss) (ss_unreachable_peer_infos ss) = (saved, unreach, out)"
  shows "offered now recent s t ss = map snd out"
  using assms by (simp add: offered_def build_route_info_def)

text \<open>
  An answer with an unknown session identifier makes us forget announcements.  When a request is
  accepted with a session identifier we did not know, which is the case for the first request of every
  session we open, the versions recorded for the other end and the announcements set aside are dropped,
  but the time of the request becomes the time of the last synchronisation.  From then on, as long as the
  session and the announcement stay, no announcement older than the request is sent, whether the other end
  has it or not and whether its peer becomes reachable or not.
\<close>

lemma unknown_session_forgets:
  assumes "sync_finish (ps_now x) t0 pub req (ss_dst_peer_id (ps_session x)) (Sync_Accepted b sid) (ps_session x) = Some ss'"
    and "sid \<noteq> ss_dst_session_id (ps_session x)" and "db_stamped x" and "st_get (si_peer_infos (ps_db x)) p = Some i \<and> ri_version i \<noteq> 0"
    and "ri_last_update i = Some u" and "u < t0"
    and "(quiet_step p i)\<^sup>*\<^sup>* (x\<lparr>ps_session := ss', ps_in_flight := None\<rparr>) y"
    and "newest_first info_kind recent (si_peer_infos (ps_db y))"
  shows "i \<notin> set (offered now recent (ps_db y) t (ps_session y))"
proof -
  note F = sync_finish_accepted [OF assms(1)]
  have "lost p i (x\<lparr>ps_session := ss', ps_in_flight := None\<rparr>)"
    using assms(2-6) F(2,3)
    by (simp add: lost_def forgotten_def db_stamped_def update_dst_session_id_def later_sync_def too_old_def info_kind_def store_simps)
  with assms(7) have l: "lost p i y" by (induction rule: rtranclp_induct) (auto intro: quiet_step_lost)
  obtain saved unreach out where sel: "select_news info_kind now (ss_dst_peer_id (ps_session y)) (ss_last_sync_succ (ps_session y)) (\<lambda>p. topology_peer_reachable p t)
      recent (si_peer_infos (ps_db y)) (ss_saved_peer_infos (ps_session y)) (ss_unreachable_peer_infos (ps_session y)) = (saved, unreach, out)"
    by (metis prod_cases3)
  from lost_selection(2) [OF l assms(8) sel] offered_selection [OF sel] show ?thesis by simp
qed

section \<open>A concrete session\<close>

definition old_info :: route_peer_info where
  "old_info = (toy_info 3 1)\<lparr>ri_last_update := Some 5\<rparr>"

definition one_info :: "u32 synced_route_info" where
  "one_info = synced_new\<lparr>si_peer_infos := [(3, old_info)]\<rparr>"

definition direct_table :: route_table where
  "direct_table = route_table_new\<lparr>rt_next_hop_map := [(3, \<lparr>nh_next_hop_peer_id = 3, nh_path_latency = 1, nh_path_len = 1, nh_version = 0\<rparr>)]\<rparr>"

lemma one_info_facts:
  "newest_first info_kind [(3, old_info)] (si_peer_infos one_info)" "topology_peer_reachable 3 direct_table"
  "ri_version old_info = 1" "ri_peer_id old_info = 3" "ri_last_update old_info = Some 5"
  "st_get (si_peer_infos one_info) p = (if p = 3 then Some old_info else None)" "st_wf (si_peer_infos one_info)"
  by (simp_all add: newest_first_def one_info_def old_info_def info_kind_def topology_peer_reachable_def get_topology_next_hop_def
      direct_table_def route_table_new_def st_get_def st_wf_def toy_info_def)

lemma one_info_stamped: "ps_now x = 10 \<Longrightarrow> ps_db x = one_info \<Longrightarrow> db_stamped x"
  by (auto simp: db_stamped_def one_info_facts split: if_splits)

theorem session_forgets_nothing_witness:
  "\<exists>x infos ss'. session_step\<^sup>*\<^sup>* (progress_start 10 one_info 1 2 5) x \<and> ss_dst_session_id (ps_session x) = 7
     \<and> build_route_info 10 [(3, old_info)] (ps_db x) direct_table (ps_session x) = (Some infos, ss') \<and> old_info \<in> set infos"
proof -
  let ?s = "progress_start 10 one_info 1 2 5"
  let ?x = "?s\<lparr>ps_session := update_dst_session_id 7 (ps_session ?s), ps_acked := if 7 = ss_dst_session_id (ps_session ?s) then ps_acked ?s else (\<lambda>_. 0),
    ps_since := if 7 = ss_dst_session_id (ps_session ?s) then ps_since ?s else map_option fst (ps_in_flight ?s)\<rparr>"
  have run: "session_step\<^sup>*\<^sup>* ?s ?x" by (rule r_into_rtranclp, rule contact)
  have db: "db_stamped ?s" by (rule one_info_stamped) (simp_all add: progress_start_def)
  have w: "wanted ?x 3 old_info" "newest_first info_kind [(3, old_info)] (si_peer_infos (ps_db ?x))" "\<not> ri_version old_info \<le> ps_acked ?x 3"
    by (simp_all add: wanted_def progress_start_def one_info_facts update_dst_session_id_def sync_session_new_def too_old_def split: option.split)
  have "ss_dst_session_id (ps_session ?x) = 7" by (simp add: progress_start_def update_dst_session_id_def sync_session_new_def)
  with run session_forgets_nothing [OF run db w(2,1) one_info_facts(2) w(3), of 10] show ?thesis by blast
qed

lemma unknown_session_forgets_witness:
  "\<exists>ss'. sync_finish 10 10 False \<lparr>sr_peer_infos = None, sr_conn_info = None, sr_foreign_network = None\<rparr> 2 (Sync_Accepted False 7) (sync_session_new 1 2 5) = Some ss'
     \<and> topology_peer_reachable 3 direct_table \<and> old_info \<notin> set (offered 11 [(3, old_info)] one_info direct_table ss')"
proof -
  let ?req = "\<lparr>sr_peer_infos = None, sr_conn_info = None, sr_foreign_network = None\<rparr>"
  define x :: "u32 progress" where "x = \<lparr>ps_now = 10, ps_db = one_info, ps_session = sync_session_new 1 2 5, ps_in_flight = Some (10, ?req), ps_acked = (\<lambda>_. 0), ps_since = None\<rparr>"
  have x: "ps_now x = 10" "ps_db x = one_info" "ps_session x = sync_session_new 1 2 5" by (simp_all add: x_def)
  obtain ss' where f: "sync_finish 10 10 False ?req 2 (Sync_Accepted False 7) (sync_session_new 1 2 5) = Some ss'" by simp
  then have f': "sync_finish (ps_now x) 10 False ?req (ss_dst_peer_id (ps_session x)) (Sync_Accepted False 7) (ps_session x) = Some ss'"
    by (simp add: x sync_session_new_def)
  have w: "7 \<noteq> ss_dst_session_id (ps_session x)" "st_get (si_peer_infos (ps_db x)) 3 = Some old_info \<and> ri_version old_info \<noteq> 0" "newest_first info_kind [(3, old_info)] (si_peer_infos (ps_db (x\<lparr>ps_session := ss', ps_in_flight := None\<rparr>)))"
    by (simp_all add: x one_info_facts sync_session_new_def)
  from unknown_session_forgets [OF f' w(1) one_info_stamped [OF x(1,2)] w(2) one_info_facts(5) _ rtranclp.rtrancl_refl w(3), of 11 direct_table]
  have "old_info \<notin> set (offered 11 [(3, old_info)] one_info direct_table ss')" by (simp add: x)
  with f one_info_facts(2) show ?thesis by blast
qed

end
