(* ===== verification/Route_Service.thy ===== *)
theory Route_Service
  imports Route_Progress
begin

text \<open>
  The routing service of \<^verbatim>\<open>peers/peer_ospf_route.rs\<close>: its state, the rebuild of the route tables and of the
  connection bitmap, the refresh of the trusted keys, the handler of synchronisation requests, the expiry of
  peers and the choice of the peer we initiate a session with.

  An operation that can panic returns an option.  The services the router calls (the peer map behind
  \<^verbatim>\<open>RouteInterface\<close>, the configuration, the clock, random numbers) are arguments; the peers it asks to close and
  the request for an immediate synchronisation are results.  The notification of the public IPv6 service is
  left out.
\<close>

section \<open>Data\<close>

datatype peer_identity = Admin | Credential | Shared_Node

record 'm route_service =
  rs_my_peer_id :: peer_id
  rs_my_peer_route_id :: u64
  rs_sessions :: "(peer_id, sync_session) store"
  rs_route_table :: route_table
  rs_route_table_with_cost :: route_table
  rs_foreign_owner_map :: "(string \<times> bytes, peer_id list) store"
  rs_foreign_my_peer_id_map :: "(string \<times> peer_id, peer_id) store"
  rs_synced :: "'m synced_route_info"
  rs_cached_conn_map :: route_conn_bitmap
  rs_cached_conn_map_version :: u32
  rs_interface_generation :: u64
  rs_applied_generation :: u64
  rs_last_update_my_foreign :: "stime option"
  rs_peer_info_last_update :: stime
  rs_trusted_keys :: network_trusted_keys

text \<open>Libraries, configuration and the peer map.\<close>

record 'm service_env =
  se_crypto :: crypto
  se_cred_lib :: cred_lib
  se_reflect :: "'m reflect_lib"
  se_cidr :: cidr_lib
  se_pop :: "peer_id heap_pop"
  se_pg :: pg_dijkstra
  se_cost :: cost_calc
  se_version :: string
  se_network_name :: string
  se_network_secret :: "string option"
  se_acl_groups :: "group_identity list"
  se_identity :: "peer_id \<Rightarrow> peer_identity option"
  se_pubkey :: "peer_id \<Rightarrow> bytes option"

definition route_service_new :: "peer_id \<Rightarrow> u64 \<Rightarrow> stime \<Rightarrow> network_trusted_keys \<Rightarrow> 'm route_service" where
  "route_service_new my_peer route_id now keys = \<lparr>rs_my_peer_id = my_peer, rs_my_peer_route_id = route_id, rs_sessions = [],
     rs_route_table = route_table_new, rs_route_table_with_cost = route_table_new, rs_foreign_owner_map = [],
     rs_foreign_my_peer_id_map = [], rs_synced = synced_new, rs_cached_conn_map = \<lparr>cb_peer_ids = [], cb_bitmap = []\<rparr>,
     rs_cached_conn_map_version = 0, rs_interface_generation = 1, rs_applied_generation = 0, rs_last_update_my_foreign = None,
     rs_peer_info_last_update = now, rs_trusted_keys = keys\<rparr>"

section \<open>Sessions\<close>

definition get_session :: "peer_id \<Rightarrow> 'm route_service \<Rightarrow> sync_session option" where
  "get_session p svc = st_get (rs_sessions svc) p"

definition get_or_create_session :: "u64 \<Rightarrow> peer_id \<Rightarrow> 'm route_service \<Rightarrow> sync_session \<times> 'm route_service" where
  "get_or_create_session sid p svc = (case st_get (rs_sessions svc) p of
     Some ss \<Rightarrow> (ss, svc)
   | None \<Rightarrow> let ss = sync_session_new (rs_my_peer_id svc) p sid in (ss, svc\<lparr>rs_sessions := st_insert p ss (rs_sessions svc)\<rparr>))"

definition remove_session :: "peer_id \<Rightarrow> 'm route_service \<Rightarrow> 'm route_service" where
  "remove_session p svc = svc\<lparr>rs_sessions := st_remove p (rs_sessions svc)\<rparr>"

definition list_session_peers :: "'m route_service \<Rightarrow> peer_id list" where
  "list_session_peers svc = map fst (rs_sessions svc)"

definition put_session :: "peer_id \<Rightarrow> sync_session \<Rightarrow> 'm route_service \<Rightarrow> 'm route_service" where
  "put_session p ss svc = svc\<lparr>rs_sessions := st_insert p ss (rs_sessions svc)\<rparr>"

definition mark_interface_peers_dirty :: "'m route_service \<Rightarrow> 'm route_service" where
  "mark_interface_peers_dirty svc = svc\<lparr>rs_interface_generation := rs_interface_generation svc + 1\<rparr>"

section \<open>The connection bitmap\<close>

definition add_to_all_peer_ids :: "peer_id \<Rightarrow> u32 \<Rightarrow> (peer_id, u32) store \<Rightarrow> (peer_id, u32) store" where
  "add_to_all_peer_ids p version m = (case st_get m p of
     Some x \<Rightarrow> if x < version then st_insert p version m else m
   | None \<Rightarrow> st_insert p version m)"

definition all_peer_ids :: "'m synced_route_info \<Rightarrow> route_table \<Rightarrow> (peer_id, u32) store" where
  "all_peer_ids s t = fold (\<lambda>(src, c) m.
     if \<not> topology_peer_reachable src t then m
     else fold (\<lambda>dst. add_to_all_peer_ids dst 0) (sorted_list_of_set (rc_connected_peers c)) (add_to_all_peer_ids src (rc_version c) m))
     (si_conn_map s) []"

definition set_conn_bit :: "nat \<Rightarrow> bytes \<Rightarrow> bytes option" where
  "set_conn_bit bit_idx bm = (if bit_idx div 8 < length bm
     then Some (bm[bit_idx div 8 := bm ! (bit_idx div 8) OR push_bit (bit_idx mod 8) 1]) else None)"

fun set_conn_row :: "nat \<Rightarrow> peer_id set \<Rightarrow> peer_id_version list \<Rightarrow> bytes \<Rightarrow> bytes option" where
  "set_conn_row pos connected [] bm = Some bm"
| "set_conn_row pos connected (pv # pvs) bm = do {
     bm1 \<leftarrow> (if pv_peer_id pv \<in> connected then set_conn_bit pos bm else Some bm);
     set_conn_row (Suc pos) connected pvs bm1
   }"

fun set_conn_rows :: "(peer_id, route_conn_info) store \<Rightarrow> peer_id_version list \<Rightarrow> nat \<Rightarrow> peer_id_version list \<Rightarrow> bytes \<Rightarrow> bytes option" where
  "set_conn_rows conns all_ids idx [] bm = Some bm"
| "set_conn_rows conns all_ids idx (pv # pvs) bm = do {
     bm1 \<leftarrow> (case st_get conns (pv_peer_id pv) of
       None \<Rightarrow> Some bm
     | Some c \<Rightarrow> set_conn_row (idx * length all_ids) (rc_connected_peers c) all_ids bm);
     set_conn_rows conns all_ids (Suc idx) pvs bm1
   }"

definition build_local_conn_bitmap :: "'m synced_route_info \<Rightarrow> route_table \<Rightarrow> route_conn_bitmap option" where
  "build_local_conn_bitmap s t =
     (let ids = map (\<lambda>(p, v). \<lparr>pv_peer_id = p, pv_version = v\<rparr>) (sort_key fst (all_peer_ids s t));
          n = length ids
      in map_option (\<lambda>bm. \<lparr>cb_peer_ids = ids, cb_bitmap = bm\<rparr>)
           (set_conn_rows (si_conn_map s) ids 0 ids (replicate ((n * n + 7) div 8) 0)))"

section \<open>Route tables\<close>

definition update_route_table :: "'m service_env \<Rightarrow> 'm route_service \<Rightarrow> 'm route_service option" where
  "update_route_table E svc = do {
     t \<leftarrow> build_from_synced_info (se_pop E) (se_pg E) (se_cidr E) (rs_my_peer_id svc) LeastHop (se_cost E) (rs_synced svc) (rs_route_table svc);
     tc \<leftarrow> build_from_synced_info (se_pop E) (se_pg E) (se_cidr E) (rs_my_peer_id svc) LeastCost (se_cost E) (rs_synced svc) (rs_route_table_with_cost svc);
     Some (svc\<lparr>rs_route_table := t, rs_route_table_with_cost := tc\<rparr>)
   }"

definition update_route_table_and_cached_local_conn_bitmap :: "'m service_env \<Rightarrow> stime \<Rightarrow> 'm route_service \<Rightarrow> 'm route_service option" where
  "update_route_table_and_cached_local_conn_bitmap E now svc = do {
     svc1 \<leftarrow> update_route_table E (svc\<lparr>rs_peer_info_last_update := now\<rparr>);
     bitmap \<leftarrow> build_local_conn_bitmap (rs_synced svc1) (rs_route_table svc1);
     let (larger, v) = set_if_larger (si_version (rs_synced svc1)) (rs_cached_conn_map_version svc1);
         svc2 = svc1\<lparr>rs_cached_conn_map_version := v\<rparr>
     in Some (if larger then svc2\<lparr>rs_cached_conn_map := bitmap\<rparr> else svc2)
   }"

text \<open>\<^verbatim>\<open>try_into\<close> of the digest to 32 bytes, zero bytes otherwise.\<close>

definition digest_key :: "bytes \<Rightarrow> bytes" where
  "digest_key d = (if length d = 32 then d else replicate 32 0)"

definition update_foreign_network_owner_map :: "'m route_service \<Rightarrow> 'm route_service" where
  "update_foreign_network_owner_map svc =
     fold (\<lambda>(key, e) v.
       if fk_peer_id key = rs_my_peer_id v \<or> \<not> peer_reachable (fk_peer_id key) (rs_route_table v) \<or> fe_foreign_peer_ids e = [] then v
       else let nid = (fk_network_name key, digest_key (fe_network_secret_digest e));
                owners = (case st_get (rs_foreign_owner_map v) nid of Some ps \<Rightarrow> ps | None \<Rightarrow> [])
            in v\<lparr>rs_foreign_owner_map := st_insert nid (owners @ [fe_my_peer_id_for_this_network e]) (rs_foreign_owner_map v),
                 rs_foreign_my_peer_id_map := st_insert (fk_network_name key, fe_my_peer_id_for_this_network e) (fk_peer_id key)
                   (rs_foreign_my_peer_id_map v)\<rparr>)
       (si_foreign_network (rs_synced svc)) (svc\<lparr>rs_foreign_my_peer_id_map := [], rs_foreign_owner_map := []\<rparr>)"

section \<open>Trust\<close>

text \<open>Unix time in seconds, as an \<^verbatim>\<open>i64\<close>.\<close>

definition unix_seconds :: "stime \<Rightarrow> i64" where
  "unix_seconds now = of_int (now div sec 1)"

definition refresh_credential_trusts :: "'m service_env \<Rightarrow> stime \<Rightarrow> 'm route_service \<Rightarrow> peer_id set \<times> 'm route_service" where
  "refresh_credential_trusts E now svc =
     (let ((untrusted, keys, _), s) = verify_and_update_credential_trusts_protecting (se_crypto E) (se_cred_lib E) (se_reflect E) (unix_seconds now)
            (se_network_secret E) (\<lambda>_. True) (Some (rs_my_peer_id svc)) (rs_synced svc)
      in (untrusted, svc\<lparr>rs_synced := s, rs_trusted_keys := update_trusted_keys (se_network_name E) keys (rs_trusted_keys svc)\<rparr>))"

definition refresh_credential_trusts_with_current_topology ::
  "'m service_env \<Rightarrow> stime \<Rightarrow> 'm route_service \<Rightarrow> (peer_id set \<times> 'm route_service) option" where
  "refresh_credential_trusts_with_current_topology E now svc = do {
     svc1 \<leftarrow> update_route_table_and_cached_local_conn_bitmap E now svc;
     let ((untrusted, keys, suppressed_changed), s) =
           verify_and_update_credential_trusts_protecting (se_crypto E) (se_cred_lib E) (se_reflect E) (unix_seconds now) (se_network_secret E)
             (\<lambda>p. p = rs_my_peer_id svc1 \<or> topology_peer_reachable p (rs_route_table svc1)) (Some (rs_my_peer_id svc1)) (rs_synced svc1);
         svc2 = svc1\<lparr>rs_synced := s, rs_trusted_keys := update_trusted_keys (se_network_name E) keys (rs_trusted_keys svc1)\<rparr>
     in do {
       svc3 \<leftarrow> (if untrusted \<noteq> {} \<or> suppressed_changed then update_route_table_and_cached_local_conn_bitmap E now svc2 else Some svc2);
       Some (untrusted, svc3)
     }
   }"

section \<open>Synchronisation requests of other peers\<close>

text \<open>What a credential peer may say: its own announcement, with the subnets its credential allows.\<close>

definition extract_credential_peer_info ::
  "cidr_lib \<Rightarrow> 'm reflect_lib \<Rightarrow> peer_id \<Rightarrow> route_peer_info list \<Rightarrow> 'm list \<Rightarrow> trusted_credential_pubkey \<Rightarrow> (route_peer_info \<times> 'm) option option" where
  "extract_credential_peer_info cl R from_peer infos raws c = (case find (\<lambda>(k, i). ri_peer_id i = from_peer) (enumerate 0 infos) of
     None \<Rightarrow> Some None
   | Some (k, i) \<Rightarrow>
       if length raws \<le> k then None
       else let allowed = tc_allowed_proxy_cidrs c;
                i1 = i\<lparr>ri_proxy_cidrs := if allowed \<noteq> [] then filter (\<lambda>s. list_ex (cidr_is_subset_str cl s) allowed) (ri_proxy_cidrs i) else []\<rparr>;
                i2 = mark_credential_peer True i1
            in Some (Some (i2, patch_raw_from_info R (raws ! k) i2 [''proxy_cidrs'', ''feature_flag''])))"

definition select_infos ::
  "'m service_env \<Rightarrow> peer_id \<Rightarrow> trusted_credential_pubkey option \<Rightarrow> route_peer_info list \<Rightarrow> 'm list option
   \<Rightarrow> (route_peer_info list \<times> 'm list) option" where
  "select_infos E from_peer cred infos raws = (case raws of
     None \<Rightarrow> None
   | Some rs \<Rightarrow> (case cred of
       Some c \<Rightarrow> map_option (\<lambda>r. case r of Some (i, raw) \<Rightarrow> ([i], [raw]) | None \<Rightarrow> ([], []))
         (extract_credential_peer_info (se_cidr E) (se_reflect E) from_peer infos rs c)
     | None \<Rightarrow> Some (infos, rs)))"

text \<open>The announcements of a request: an error, or whether the route table has to be rebuilt.\<close>

definition accept_infos ::
  "'m service_env \<Rightarrow> stime \<Rightarrow> peer_id \<Rightarrow> trusted_credential_pubkey option \<Rightarrow> route_peer_info list option \<Rightarrow> 'm list option
   \<Rightarrow> sync_session \<Rightarrow> 'm route_service \<Rightarrow> ((sync_error + bool) \<times> sync_session \<times> 'm route_service) option" where
  "accept_infos E now from_peer cred infos raws ss svc = (case infos of
     None \<Rightarrow> Some (Inr False, ss, svc)
   | Some is \<Rightarrow> do {
       (pi, rpi) \<leftarrow> select_infos E from_peer cred is raws;
       (if pi = [] then Some (Inr False, ss, svc)
        else do {
          (r, s) \<leftarrow> update_peer_infos (se_reflect E) now (rs_my_peer_id svc) (rs_my_peer_route_id svc) from_peer pi rpi (rs_synced svc);
          Some (case r of
            Inl e \<Rightarrow> (Inl e, ss, svc\<lparr>rs_synced := s\<rparr>)
          | Inr _ \<Rightarrow>
              (Inr True, update_dst_saved_peer_info_version now pi from_peer ss,
               svc\<lparr>rs_synced := verify_and_update_group_trusts (se_crypto E) pi (se_acl_groups E) (se_network_secret E = None) s\<rparr>))
        })
     })"

definition accept_conn_info ::
  "'m service_env \<Rightarrow> stime \<Rightarrow> peer_id \<Rightarrow> trusted_credential_pubkey option \<Rightarrow> conn_info option \<Rightarrow> sync_session \<Rightarrow> 'm route_service
   \<Rightarrow> (bool \<times> sync_session \<times> 'm route_service) option" where
  "accept_conn_info E now from_peer cred conn ss svc = (case conn of
     None \<Rightarrow> Some (False, ss, svc)
   | Some c \<Rightarrow>
       if (case cred of None \<Rightarrow> True | Some tc \<Rightarrow> tc_allow_relay tc)
       then do {
         s \<leftarrow> update_conn_info (se_version E) now c (rs_synced svc);
         Some (True, update_dst_saved_conn_info_version now c from_peer ss, svc\<lparr>rs_synced := s\<rparr>)
       } else Some (False, ss, svc))"

definition accept_foreign ::
  "stime \<Rightarrow> peer_id \<Rightarrow> bool \<Rightarrow> fn_info list option \<Rightarrow> sync_session \<Rightarrow> 'm route_service \<Rightarrow> (bool \<times> sync_session \<times> 'm route_service) option" where
  "accept_foreign now from_peer from_is_credential foreign ss svc = (case foreign of
     None \<Rightarrow> Some (False, ss, svc)
   | Some items \<Rightarrow>
       if from_is_credential then Some (False, ss, svc)
       else let (changed, s) = update_foreign_network now items (rs_synced svc)
            in map_option (\<lambda>ss1. (changed, ss1, svc\<lparr>rs_synced := s\<rparr>)) (update_dst_saved_foreign_network_version now items from_peer ss))"

record sync_outcome =
  so_answer :: "sync_error + bool \<times> u64"
  so_closed :: "peer_id set"
  so_sync_now :: bool

definition refused :: "sync_error \<Rightarrow> sync_outcome" where
  "refused e = \<lparr>so_answer = Inl e, so_closed = {}, so_sync_now = False\<rparr>"

text \<open>\<open>sid\<close> is the identifier of the session if a new one is created.\<close>

definition do_sync_route_info ::
  "'m service_env \<Rightarrow> stime \<Rightarrow> u64 \<Rightarrow> peer_id \<Rightarrow> u64 \<Rightarrow> bool \<Rightarrow> route_peer_info list option \<Rightarrow> 'm list option \<Rightarrow> conn_info option
   \<Rightarrow> fn_info list option \<Rightarrow> 'm route_service \<Rightarrow> (sync_outcome \<times> 'm route_service) option" where
  "do_sync_route_info E now sid from_peer from_session_id is_initiator infos raws conn foreign svc =
     (let (ss0, svc0) = get_or_create_session sid from_peer svc;
          from_is_credential = ((case se_identity E from_peer of Some t \<Rightarrow> t | None \<Rightarrow> Admin) = Credential);
          cred = (if from_is_credential
            then Option.bind (se_pubkey E from_peer) (\<lambda>pk. get_credential_info_by_pubkey pk (rs_synced svc0)) else None)
      in if from_is_credential \<and> cred = None then Some (refused Stopped, svc0)
         else let ss1 = update_dst_session_id from_session_id (ss0\<lparr>ss_rpc_rx_count := ss_rpc_rx_count ss0 + 1\<rparr>) in do {
           (r, ss2, svc2) \<leftarrow> accept_infos E now from_peer cred infos raws ss1 svc0;
           (case r of
              Inl e \<Rightarrow> Some (refused e, put_session from_peer ss2 svc2)
            | Inr infos_accepted \<Rightarrow> do {
                (conn_accepted, ss3, svc3) \<leftarrow> accept_conn_info E now from_peer cred conn ss2 svc2;
                (untrusted, svc4) \<leftarrow> (if infos_accepted \<or> conn_accepted then refresh_credential_trusts_with_current_topology E now svc3 else Some ({}, svc3));
                (foreign_changed, ss5, svc5) \<leftarrow> accept_foreign now from_peer from_is_credential foreign ss3 svc4;
                svc6 \<leftarrow> (if infos_accepted \<or> conn_accepted \<or> foreign_changed
                  then map_option update_foreign_network_owner_map (update_route_table_and_cached_local_conn_bitmap E now svc5) else Some svc5);
                let ss6 = ss5\<lparr>ss_dst_is_initiator := is_initiator\<rparr>
                in Some (\<lparr>so_answer = Inr (ss_we_are_initiator ss6, ss_my_session_id ss6), so_closed = untrusted,
                          so_sync_now = infos_accepted \<or> conn_accepted \<or> foreign_changed\<rparr>, put_session from_peer ss6 svc6)
              })
         })"

end
