(* ===== verification/Route_Bitmap.thy ===== *)
theory Route_Bitmap
  imports Route_Service Route_Optimal
begin

text \<open>
  The connection bitmap of the routing service: the bitmap a node builds says what its database says, and a
  peer that processes it learns the connections it did not know.
\<close>

section \<open>Setting and reading bits\<close>

definition bit_at :: "bytes \<Rightarrow> nat \<Rightarrow> bool" where
  "bit_at bm j \<longleftrightarrow> j div 8 < length bm \<and> bit (bm ! (j div 8)) (j mod 8)"

lemma get_bit_at: "j < 8 * length (cb_bitmap b) \<Longrightarrow> get_bit b j = Some (bit_at (cb_bitmap b) j)"
  by (auto simp: get_bit_def bit_at_def Let_def bit_iff_odd_drop_bit and_one_eq odd_iff_mod_2_eq_one)

lemma set_conn_bit_at:
  assumes "i < 8 * length bm"
  obtains bm' where "set_conn_bit i bm = Some bm'" "length bm' = length bm" "\<forall>j. bit_at bm' j \<longleftrightarrow> j = i \<or> bit_at bm j"
proof -
  have i: "i div 8 < length bm" using assms by simp
  let ?bm = "bm[i div 8 := bm ! (i div 8) OR push_bit (i mod 8) 1]"
  have "bit_at ?bm j \<longleftrightarrow> j = i \<or> bit_at bm j" for j
  proof (cases "j div 8 = i div 8")
    case True
    have "j mod 8 = i mod 8 \<longleftrightarrow> j = i" using True by (metis div_mult_mod_eq)
    then show ?thesis using i True by (auto simp: bit_at_def bit_or_iff bit_exp_iff)
  next
    case False
    then have "j \<noteq> i" by auto
    with False show ?thesis by (simp add: bit_at_def)
  qed
  with that [of ?bm] i show thesis by (simp add: set_conn_bit_def)
qed

lemma ex_Cons: "(\<exists>r < length (x # xs). P r ((x # xs) ! r)) \<longleftrightarrow> P 0 x \<or> (\<exists>r < length xs. P (Suc r) (xs ! r))"
  by (auto simp: less_Suc_eq_0_disj)

lemma set_conn_row_at:
  "pos + length pvs \<le> 8 * length bm \<Longrightarrow> \<exists>bm'. set_conn_row pos connected pvs bm = Some bm' \<and> length bm' = length bm
     \<and> (\<forall>j. bit_at bm' j \<longleftrightarrow> bit_at bm j \<or> (\<exists>k < length pvs. j = pos + k \<and> pv_peer_id (pvs ! k) \<in> connected))"
proof (induction pvs arbitrary: pos bm)
  case (Cons pv pvs)
  have split: "(\<exists>k < length (pv # pvs). j = pos + k \<and> pv_peer_id ((pv # pvs) ! k) \<in> connected)
      \<longleftrightarrow> j = pos \<and> pv_peer_id pv \<in> connected \<or> (\<exists>k < length pvs. j = Suc pos + k \<and> pv_peer_id (pvs ! k) \<in> connected)" for j
    using ex_Cons [where x = pv and xs = pvs and P = "\<lambda>k pv. j = pos + k \<and> pv_peer_id pv \<in> connected"] by simp
  obtain bm1 where bm1: "(if pv_peer_id pv \<in> connected then set_conn_bit pos bm else Some bm) = Some bm1" "length bm1 = length bm"
      "\<forall>j. bit_at bm1 j \<longleftrightarrow> j = pos \<and> pv_peer_id pv \<in> connected \<or> bit_at bm j"
  proof (cases "pv_peer_id pv \<in> connected")
    case True
    have "pos < 8 * length bm" using Cons.prems by simp
    from set_conn_bit_at [OF this] obtain bm1 where "set_conn_bit pos bm = Some bm1" "length bm1 = length bm" "\<forall>j. bit_at bm1 j \<longleftrightarrow> j = pos \<or> bit_at bm j" .
    with True that show thesis by simp
  next
    case False
    with that [of bm] show thesis by simp
  qed
  have "Suc pos + length pvs \<le> 8 * length bm1" using Cons.prems bm1(2) by simp
  from Cons.IH [OF this] bm1 show ?case unfolding split by (auto simp: bm1)
qed simp

lemma set_conn_rows_at:
  "(idx + length pvs) * length ids \<le> 8 * length bm \<Longrightarrow> \<exists>bm'. set_conn_rows conns ids idx pvs bm = Some bm' \<and> length bm' = length bm
     \<and> (\<forall>j. bit_at bm' j \<longleftrightarrow> bit_at bm j \<or> (\<exists>r < length pvs. \<exists>k < length ids. \<exists>c. st_get conns (pv_peer_id (pvs ! r)) = Some c
          \<and> j = (idx + r) * length ids + k \<and> pv_peer_id (ids ! k) \<in> rc_connected_peers c))"
proof (induction pvs arbitrary: idx bm)
  case (Cons pv pvs)
  let ?n = "length ids"
  have split: "(\<exists>r < length (pv # pvs). \<exists>k < ?n. \<exists>c. st_get conns (pv_peer_id ((pv # pvs) ! r)) = Some c
          \<and> j = (idx + r) * ?n + k \<and> pv_peer_id (ids ! k) \<in> rc_connected_peers c)
      \<longleftrightarrow> (\<exists>k < ?n. \<exists>c. st_get conns (pv_peer_id pv) = Some c \<and> j = idx * ?n + k \<and> pv_peer_id (ids ! k) \<in> rc_connected_peers c)
        \<or> (\<exists>r < length pvs. \<exists>k < ?n. \<exists>c. st_get conns (pv_peer_id (pvs ! r)) = Some c
          \<and> j = (Suc idx + r) * ?n + k \<and> pv_peer_id (ids ! k) \<in> rc_connected_peers c)" for j
    using ex_Cons [where x = pv and xs = pvs and P = "\<lambda>r pv. \<exists>k < ?n. \<exists>c. st_get conns (pv_peer_id pv) = Some c
      \<and> j = (idx + r) * ?n + k \<and> pv_peer_id (ids ! k) \<in> rc_connected_peers c"] by simp
  have le: "idx * ?n + ?n \<le> 8 * length bm"
  proof -
    have "(idx + 1) * ?n \<le> (idx + length (pv # pvs)) * ?n" by (intro mult_right_mono) simp_all
    from order_trans [OF this Cons.prems] show ?thesis by simp
  qed
  obtain bm1 where bm1: "(case st_get conns (pv_peer_id pv) of None \<Rightarrow> Some bm
        | Some c \<Rightarrow> set_conn_row (idx * ?n) (rc_connected_peers c) ids bm) = Some bm1" "length bm1 = length bm"
      "\<forall>j. bit_at bm1 j \<longleftrightarrow> bit_at bm j \<or> (\<exists>k < ?n. \<exists>c. st_get conns (pv_peer_id pv) = Some c \<and> j = idx * ?n + k \<and> pv_peer_id (ids ! k) \<in> rc_connected_peers c)"
  proof (cases "st_get conns (pv_peer_id pv)")
    case None
    with that [of bm] show thesis by simp
  next
    case (Some c)
    with set_conn_row_at [OF le, of "rc_connected_peers c"] that show thesis by auto
  qed
  have "(Suc idx + length pvs) * ?n \<le> 8 * length bm1" using Cons.prems bm1(2) by simp
  from Cons.IH [OF this] obtain bm' where bm': "set_conn_rows conns ids (Suc idx) pvs bm1 = Some bm'" "length bm' = length bm1"
      "\<forall>j. bit_at bm' j \<longleftrightarrow> bit_at bm1 j \<or> (\<exists>r < length pvs. \<exists>k < ?n. \<exists>c. st_get conns (pv_peer_id (pvs ! r)) = Some c
          \<and> j = (Suc idx + r) * ?n + k \<and> pv_peer_id (ids ! k) \<in> rc_connected_peers c)" by blast
  show ?case unfolding split
  proof (intro exI [of _ bm'] conjI)
    show "set_conn_rows conns ids idx (pv # pvs) bm = Some bm'" using bm1(1) bm'(1) by simp
    show "length bm' = length bm" using bm1(2) bm'(2) by simp
  qed (use bm1(3) bm'(3) in blast)
qed simp

section \<open>The bitmap of a node\<close>

definition row_of :: "(peer_id, route_conn_info) store \<Rightarrow> peer_id_version list \<Rightarrow> nat \<Rightarrow> peer_id set" where
  "row_of conns ids r = {q \<in> pv_peer_id ` set ids. \<exists>c. st_get conns (pv_peer_id (ids ! r)) = Some c \<and> q \<in> rc_connected_peers c}"

lemma div_mod_unique:
  assumes "(r::nat) * n + k = r' * n + k'" "k < n" "k' < n"
  shows "r = r' \<and> k = k'"
proof -
  have "(r * n + k) div n = r" "(r' * n + k') div n = r'" "(r * n + k) mod n = k" "(r' * n + k') mod n = k'" using assms(2,3) by simp_all
  with assms(1) show ?thesis by metis
qed

lemma set_conn_rows_read:
  assumes rows: "set_conn_rows conns ids 0 ids (replicate ((length ids * length ids + 7) div 8) 0) = Some bm" and r: "r < length ids"
  shows "get_connected_peers_at \<lparr>cb_peer_ids = ids, cb_bitmap = bm\<rparr> r = Some (row_of conns ids r)"
proof -
  let ?n = "length ids" and ?z = "replicate ((length ids * length ids + 7) div 8) (0 :: u8)" and ?b = "\<lparr>cb_peer_ids = ids, cb_bitmap = bm\<rparr>"
  have size: "?n * ?n \<le> 8 * length ?z" by simp
  have zero: "\<not> bit_at ?z j" for j by (simp add: bit_at_def)
  from set_conn_rows_at [of 0 ids ids ?z conns] size rows have len: "length bm = length ?z" and
    bits: "\<And>j. bit_at bm j \<longleftrightarrow> (\<exists>r < ?n. \<exists>k < ?n. \<exists>c. st_get conns (pv_peer_id (ids ! r)) = Some c \<and> j = r * ?n + k \<and> pv_peer_id (ids ! k) \<in> rc_connected_peers c)"
    using zero by auto
  have "(r + 1) * ?n \<le> ?n * ?n" using r by (intro mult_right_mono) simp_all
  then have le: "(r + 1) * ?n \<le> 8 * length bm" using size len by simp
  have in_range: "r * ?n + k < 8 * length bm" if "k < ?n" for k
  proof -
    have "r * ?n + k < (r + 1) * ?n" using that by simp
    with le show ?thesis by linarith
  qed
  have "\<not> 8 * length bm < (r + 1) * ?n" using le by simp
  then obtain c where c: "get_connected_peers_at ?b r = Some c" using get_connected_peers_at_None [of r ?b] r by fastforce
  then have "c = {pv_peer_id (ids ! k) |k. k < ?n \<and> get_bit ?b (r * ?n + k) = Some True}"
    using collect_connected_Some [of ?b "r * ?n" ids c] by (simp add: get_connected_peers_at_def)
  also have "\<dots> = {pv_peer_id (ids ! k) |k. k < ?n \<and> bit_at bm (r * ?n + k)}"
    using get_bit_at [of _ ?b] in_range by auto
  also have "\<dots> = row_of conns ids r"
  proof -
    have "bit_at bm (r * ?n + k) \<longleftrightarrow> (\<exists>c. st_get conns (pv_peer_id (ids ! r)) = Some c \<and> pv_peer_id (ids ! k) \<in> rc_connected_peers c)" if "k < ?n" for k
      unfolding bits using div_mod_unique [OF _ that] r that by metis
    then show ?thesis by (auto simp: row_of_def set_conv_nth image_iff)
  qed
  finally show ?thesis using c by simp
qed

definition known_ver :: "(peer_id, u32) store \<Rightarrow> peer_id \<Rightarrow> u32" where
  "known_ver m p = (case st_get m p of Some v \<Rightarrow> v | None \<Rightarrow> 0)"

lemma add_known:
  "known_ver (add_to_all_peer_ids p v m) q = (if q = p then max (known_ver m p) v else known_ver m q)"
  "st_get (add_to_all_peer_ids p v m) q = None \<longleftrightarrow> q \<noteq> p \<and> st_get m q = None"
  "st_wf m \<Longrightarrow> st_wf (add_to_all_peer_ids p v m)"
  by (auto simp: known_ver_def add_to_all_peer_ids_def store_simps split: option.split)

lemma add_all_known:
  "known_ver (fold (\<lambda>d. add_to_all_peer_ids d 0) ds m) q = known_ver m q"
  "st_get (fold (\<lambda>d. add_to_all_peer_ids d 0) ds m) q = None \<longleftrightarrow> q \<notin> set ds \<and> st_get m q = None"
  "st_wf m \<Longrightarrow> st_wf (fold (\<lambda>d. add_to_all_peer_ids d 0) ds m)"
  by (induction ds arbitrary: m) (auto simp: add_known)

definition add_conn :: "route_table \<Rightarrow> peer_id \<times> route_conn_info \<Rightarrow> (peer_id, u32) store \<Rightarrow> (peer_id, u32) store" where
  "add_conn t x m = (if \<not> topology_peer_reachable (fst x) t then m
     else fold (\<lambda>d. add_to_all_peer_ids d 0) (sorted_list_of_set (rc_connected_peers (snd x))) (add_to_all_peer_ids (fst x) (rc_version (snd x)) m))"

lemma all_peer_ids_fold: "all_peer_ids s t = fold (add_conn t) (si_conn_map s) []"
  unfolding all_peer_ids_def by (intro arg_cong [where f = "\<lambda>f. fold f _ _"] ext) (simp add: add_conn_def split_def)

lemma add_conn_known:
  assumes "finite (rc_connected_peers (snd x))"
  shows "known_ver (add_conn t x m) p = max (known_ver m p) (if p = fst x \<and> topology_peer_reachable p t then rc_version (snd x) else 0)"
    "st_get (add_conn t x m) p = None \<longleftrightarrow> st_get m p = None
      \<and> (topology_peer_reachable (fst x) t \<longrightarrow> p \<noteq> fst x \<and> p \<notin> rc_connected_peers (snd x))"
    "st_wf m \<Longrightarrow> st_wf (add_conn t x m)"
  using assms by (auto simp: add_conn_def add_known add_all_known)

lemma add_conns_known:
  assumes "\<forall>x \<in> set cm. finite (rc_connected_peers (snd x))" "distinct (map fst cm)"
  shows "known_ver (fold (add_conn t) cm m) p
      = max (known_ver m p) (case map_of cm p of Some c \<Rightarrow> if topology_peer_reachable p t then rc_version c else 0 | None \<Rightarrow> 0)"
    and "st_get (fold (add_conn t) cm m) p = None \<longleftrightarrow> st_get m p = None
      \<and> (\<forall>x \<in> set cm. topology_peer_reachable (fst x) t \<longrightarrow> p \<noteq> fst x \<and> p \<notin> rc_connected_peers (snd x))"
    and "st_wf m \<Longrightarrow> st_wf (fold (add_conn t) cm m)"
  using assms
proof (induction cm arbitrary: m)
  case (Cons x cm)
  { case 1
    have n: "map_of cm (fst x) = None" using 1 by (simp add: map_of_eq_None_iff)
    have f: "finite (rc_connected_peers (snd x))" using 1 by simp
    have "known_ver (fold (add_conn t) (x # cm) m) p
        = max (known_ver (add_conn t x m) p) (case map_of cm p of Some c \<Rightarrow> if topology_peer_reachable p t then rc_version c else 0 | None \<Rightarrow> 0)"
      using 1 by (simp only: fold_simps) (intro Cons.IH(1), auto)
    with n show ?case by (cases "p = fst x") (auto simp: add_conn_known(1) [OF f] split: prod.split) }
  { case 2
    have f: "finite (rc_connected_peers (snd x))" using 2 by simp
    have "st_get (fold (add_conn t) (x # cm) m) p = None \<longleftrightarrow> st_get (add_conn t x m) p = None
        \<and> (\<forall>x \<in> set cm. topology_peer_reachable (fst x) t \<longrightarrow> p \<noteq> fst x \<and> p \<notin> rc_connected_peers (snd x))"
      using 2 by (simp only: fold_simps) (intro Cons.IH(2), auto)
    then show ?case by (auto simp: add_conn_known(2) [OF f]) }
  { case 3
    then show ?case by (simp add: Cons.IH(3) add_conn_known(3)) }
qed auto

lemma bitmap_built:
  assumes inv: "synced_inv s"
  obtains b where "build_local_conn_bitmap s t = Some b" "distinct (map pv_peer_id (cb_peer_ids b))"
    "length (cb_peer_ids b) * length (cb_peer_ids b) \<le> 8 * length (cb_bitmap b)"
    "\<And>p c. st_get (si_conn_map s) p = Some c \<Longrightarrow> topology_peer_reachable p t \<Longrightarrow>
       \<exists>r < length (cb_peer_ids b). cb_peer_ids b ! r = \<lparr>pv_peer_id = p, pv_version = rc_version c\<rparr>
         \<and> get_connected_peers_at b r = Some (rc_connected_peers c)"
proof -
  define m where "m = all_peer_ids s t"
  define ids where "ids = map (\<lambda>(p, v). \<lparr>pv_peer_id = p, pv_version = v\<rparr>) (sort_key fst m)"
  define z where "z = replicate ((length ids * length ids + 7) div 8) (0 :: u8)"
  have wfc: "st_wf (si_conn_map s)" using inv by (simp add: synced_inv_defs)
  have fin: "\<forall>x \<in> set (si_conn_map s). finite (rc_connected_peers (snd x))"
    using inv st_get_set [OF wfc] by (auto simp: synced_inv_def conns_finite_def)
  have dist: "distinct (map fst (si_conn_map s))" using wfc by (simp add: st_wf_def)
  note K = add_conns_known [OF fin dist, where t = t and m = "[]", folded all_peer_ids_fold m_def]
  have wfm: "st_wf m" by (rule K(3)) (simp add: st_wf_def)
  have pids: "map pv_peer_id ids = map fst (sort_key fst m)" by (simp add: ids_def split_def)
  have "distinct (map fst (sort_key fst m))"
    using wfm mset_eq_imp_distinct_iff [of "map fst (sort_key fst m)" "map fst m"] by (simp add: st_wf_def)
  then have d: "distinct (map pv_peer_id ids)" by (simp only: pids)
  have size: "(0 + length ids) * length ids \<le> 8 * length z" by (simp add: z_def)
  from set_conn_rows_at [OF size] obtain bm where bm: "set_conn_rows (si_conn_map s) ids 0 ids z = Some bm" "length bm = length z" by blast
  let ?b = "\<lparr>cb_peer_ids = ids, cb_bitmap = bm\<rparr>"
  have b: "build_local_conn_bitmap s t = Some ?b"
    using bm(1) by (simp add: build_local_conn_bitmap_def Let_def ids_def [symmetric] m_def [symmetric] z_def [symmetric])
  have found: "\<exists>r < length ids. ids ! r = \<lparr>pv_peer_id = p, pv_version = rc_version c\<rparr> \<and> get_connected_peers_at ?b r = Some (rc_connected_peers c)"
    if c: "st_get (si_conn_map s) p = Some c" "topology_peer_reachable p t" for p c
  proof -
    have mem: "(p, c) \<in> set (si_conn_map s)" using c(1) st_get_set [OF wfc] by simp
    have "st_get m p \<noteq> None" using K(2) [of p] mem c(2) by fastforce
    moreover have "known_ver m p = rc_version c" using K(1) [of p] c by (simp add: st_get_def known_ver_def)
    ultimately have "st_get m p = Some (rc_version c)" by (auto simp: known_ver_def)
    then have "(p, rc_version c) \<in> set m" using st_get_set [OF wfm] by simp
    then have "(\<lambda>(p, v). \<lparr>pv_peer_id = p, pv_version = v\<rparr>) (p, rc_version c) \<in> set ids" unfolding ids_def set_map by (intro imageI) simp
    then obtain r where r: "r < length ids" "ids ! r = \<lparr>pv_peer_id = p, pv_version = rc_version c\<rparr>" unfolding in_set_conv_nth by auto
    have all: "q \<in> pv_peer_id ` set ids" if "q \<in> rc_connected_peers c" for q
    proof -
      have "st_get m q \<noteq> None" using K(2) [of q] mem c(2) that by fastforce
      then obtain v where "(q, v) \<in> set m" using st_get_set [OF wfm] by blast
      then have "q \<in> set (map fst (sort_key fst m))" by force
      then show ?thesis by (simp add: pids [symmetric])
    qed
    have "row_of (si_conn_map s) ids r = rc_connected_peers c" using all c(1) r(2) by (auto simp: row_of_def)
    then have "get_connected_peers_at ?b r = Some (rc_connected_peers c)" using set_conn_rows_read [OF bm(1) [unfolded z_def] r(1)] by simp
    with r show ?thesis by blast
  qed
  show thesis
  proof (rule that [OF b])
    show "distinct (map pv_peer_id (cb_peer_ids ?b))" using d by simp
    show "length (cb_peer_ids ?b) * length (cb_peer_ids ?b) \<le> 8 * length (cb_bitmap ?b)" using bm(2) size by simp
  qed (use found in simp)
qed

section \<open>A peer that reads it\<close>

abbreviation blank_conn :: "stime \<Rightarrow> route_conn_info" where
  "blank_conn now \<equiv> \<lparr>rc_connected_peers = {}, rc_version = 0, rc_last_update = now\<rparr>"

definition conn_ver :: "'m synced_route_info \<Rightarrow> peer_id \<Rightarrow> u32" where
  "conn_ver s p = (case st_get (si_conn_map s) p of Some c \<Rightarrow> rc_version c | None \<Rightarrow> 0)"

lemma fill_one_conn:
  "st_get (si_conn_map (snd (fill_empty_one ver now q acc))) p =
     (if p = q \<and> st_get (si_conn_map (snd acc)) p = None then Some (blank_conn now) else st_get (si_conn_map (snd acc)) p)"
  by (simp add: fill_empty_one_def Let_def split_def store_simps)

lemma fill_conn:
  assumes "finite ps"
  shows "st_get (si_conn_map (fill_empty_peer_info ver now ps s)) p =
     (if p \<in> ps \<and> st_get (si_conn_map s) p = None then Some (blank_conn now) else st_get (si_conn_map s) p)"
proof -
  have "st_get (si_conn_map (snd (fold (fill_empty_one ver now) qs acc))) p =
     (if p \<in> set qs \<and> st_get (si_conn_map (snd acc)) p = None then Some (blank_conn now) else st_get (si_conn_map (snd acc)) p)"
    for qs and acc :: "bool \<times> 'a synced_route_info"
    by (induction qs arbitrary: acc) (auto simp: fill_one_conn)
  from this [of "sorted_list_of_set ps" "(False, s)"] assms show ?thesis
    by (simp add: fill_empty_peer_info_def Let_def split_def)
qed

lemma update_one_conn:
  "st_get (si_conn_map (snd (update_conn_info_one_peer now pv connected s))) p =
     (if p = pv_peer_id pv \<and> (st_get (si_conn_map s) p = None \<or> conn_ver s p < pv_version pv)
      then Some \<lparr>rc_connected_peers = connected, rc_version = pv_version pv, rc_last_update = now\<rparr> else st_get (si_conn_map s) p)"
  by (auto simp: update_conn_info_one_peer_def conn_ver_def store_simps split: option.split)

lemma enumerate_snd: "(k, x) \<in> set (enumerate n xs) \<Longrightarrow> x \<in> set xs"
  by (auto simp: enumerate_eq_zip dest: set_zip_rightD)

lemma bitmap_loop_conn:
  "update_conn_bitmap_loop ver now b idx pvs need s = Some (need', s') \<Longrightarrow> distinct (map pv_peer_id pvs) \<Longrightarrow>
   st_get (si_conn_map s) p \<noteq> None \<Longrightarrow>
   st_get (si_conn_map s') p = (case find (\<lambda>(k, pv). pv_peer_id pv = p) (enumerate idx pvs) of
       Some (k, pv) \<Rightarrow> if conn_ver s p < pv_version pv
         then Some \<lparr>rc_connected_peers = the (get_connected_peers_at b k), rc_version = pv_version pv, rc_last_update = now\<rparr>
         else st_get (si_conn_map s) p
     | None \<Rightarrow> st_get (si_conn_map s) p)"
proof (induction pvs arbitrary: idx need s)
  case (Cons pv pvs)
  obtain connected where c: "get_connected_peers_at b idx = Some connected" using Cons.prems(1) by (auto split: bind_splits)
  have fin: "finite connected" using c collect_connected_finite by (auto simp: get_connected_peers_at_def)
  let ?f = "fill_empty_peer_info ver now connected s"
  obtain ch s1 where u: "update_conn_info_one_peer now pv connected ?f = (ch, s1)" by fastforce
  then have rec: "update_conn_bitmap_loop ver now b (Suc idx) pvs (need \<or> ch) s1 = Some (need', s')"
    using Cons.prems(1) c by simp
  have f: "st_get (si_conn_map ?f) p = st_get (si_conn_map s) p" "conn_ver ?f p = conn_ver s p"
    using fill_conn [OF fin, of ver now s p] Cons.prems(3) by (auto simp: conn_ver_def)
  have s1: "st_get (si_conn_map s1) p = (if p = pv_peer_id pv \<and> conn_ver s p < pv_version pv
      then Some \<lparr>rc_connected_peers = connected, rc_version = pv_version pv, rc_last_update = now\<rparr> else st_get (si_conn_map s) p)"
    using update_one_conn [of now pv connected ?f p] u f Cons.prems(3) by auto
  then have ne: "st_get (si_conn_map s1) p \<noteq> None" using Cons.prems(3) by simp
  have IH: "st_get (si_conn_map s') p = (case find (\<lambda>(k, pv). pv_peer_id pv = p) (enumerate (Suc idx) pvs) of
       Some (k, pv) \<Rightarrow> if conn_ver s1 p < pv_version pv
         then Some \<lparr>rc_connected_peers = the (get_connected_peers_at b k), rc_version = pv_version pv, rc_last_update = now\<rparr>
         else st_get (si_conn_map s1) p
     | None \<Rightarrow> st_get (si_conn_map s1) p)" using Cons.IH [OF rec _ ne] Cons.prems(2) by simp
  show ?case
  proof (cases "pv_peer_id pv = p")
    case True
    have "find (\<lambda>(k, pv). pv_peer_id pv = p) (enumerate (Suc idx) pvs) = None"
      using Cons.prems(2) True by (auto simp: find_None_iff dest!: enumerate_snd) (metis image_eqI)
    with IH s1 True c show ?thesis by simp
  next
    case False
    then have "conn_ver s1 p = conn_ver s p" using s1 by (auto simp: conn_ver_def)
    with IH s1 False show ?thesis by (auto split: option.split)
  qed
qed simp

lemma find_enumerate:
  assumes "distinct (map f xs)" "k < length xs"
  shows "find (\<lambda>(j, x). f x = f (xs ! k)) (enumerate n xs) = Some (n + k, xs ! k)"
  using assms
proof (induction xs arbitrary: n k)
  case (Cons x xs)
  show ?case
  proof (cases k)
    case (Suc j)
    then have "f x \<noteq> f (xs ! j)" using Cons.prems by auto
    with Suc Cons show ?thesis by simp
  qed simp
qed simp

text \<open>
  C35: the connection bitmap delivers.  The bitmap a node builds from a well-formed database is built and can
  be processed by any peer without a panic.  The peer then has, for every reachable peer of the sender,
  exactly the connections and the version the sender has, if it had an older version before; otherwise it
  keeps what it had.
\<close>

theorem conn_bitmap_delivers:
  assumes "synced_inv s"
  shows "\<exists>b r'. build_local_conn_bitmap s t = Some b \<and> update_conn_info ver now (Conn_Bitmap b) r = Some r'
    \<and> (\<forall>p c. st_get (si_conn_map s) p = Some c \<and> topology_peer_reachable p t \<longrightarrow>
         st_get (si_conn_map r') p = (if conn_ver r p < rc_version c
           then Some \<lparr>rc_connected_peers = rc_connected_peers c, rc_version = rc_version c, rc_last_update = now\<rparr>
           else Some (case st_get (si_conn_map r) p of Some old \<Rightarrow> old | None \<Rightarrow> blank_conn now)))"
proof -
  obtain b where b: "build_local_conn_bitmap s t = Some b" "distinct (map pv_peer_id (cb_peer_ids b))"
    "length (cb_peer_ids b) * length (cb_peer_ids b) \<le> 8 * length (cb_bitmap b)"
    "\<And>p c. st_get (si_conn_map s) p = Some c \<Longrightarrow> topology_peer_reachable p t \<Longrightarrow>
       \<exists>r < length (cb_peer_ids b). cb_peer_ids b ! r = \<lparr>pv_peer_id = p, pv_version = rc_version c\<rparr>
         \<and> get_connected_peers_at b r = Some (rc_connected_peers c)"
    using bitmap_built [OF assms, of t] by metis
  let ?f = "fill_empty_peer_info ver now (set (map pv_peer_id (cb_peer_ids b))) r"
  have "update_conn_bitmap_loop ver now b 0 (cb_peer_ids b) False ?f \<noteq> None"
    using update_conn_bitmap_loop_None [of 0 "cb_peer_ids b" b ver now False ?f] b(3) by simp
  then obtain need r1 where l: "update_conn_bitmap_loop ver now b 0 (cb_peer_ids b) False ?f = Some (need, r1)" by auto
  let ?r = "if need then r1\<lparr>si_version := si_version r1 + 1\<rparr> else r1"
  have u: "update_conn_info ver now (Conn_Bitmap b) r = Some ?r" using l by (simp add: update_conn_info_with_bitmap_def)
  have "st_get (si_conn_map ?r) p = (if conn_ver r p < rc_version c
           then Some \<lparr>rc_connected_peers = rc_connected_peers c, rc_version = rc_version c, rc_last_update = now\<rparr>
           else Some (case st_get (si_conn_map r) p of Some old \<Rightarrow> old | None \<Rightarrow> blank_conn now))"
    if c: "st_get (si_conn_map s) p = Some c" "topology_peer_reachable p t" for p c
  proof -
    obtain k where k: "k < length (cb_peer_ids b)" "cb_peer_ids b ! k = \<lparr>pv_peer_id = p, pv_version = rc_version c\<rparr>"
      "get_connected_peers_at b k = Some (rc_connected_peers c)" using b(4) [OF c] by blast
    have "p \<in> set (map pv_peer_id (cb_peer_ids b))" using k(1,2) by (metis (no_types, lifting) in_set_conv_nth length_map nth_map peer_id_version.select_convs(1))
    then have f: "st_get (si_conn_map ?f) p = Some (case st_get (si_conn_map r) p of Some old \<Rightarrow> old | None \<Rightarrow> blank_conn now)"
      using fill_conn [of "set (map pv_peer_id (cb_peer_ids b))" ver now r p] by (auto split: option.split)
    then have "conn_ver ?f p = conn_ver r p" by (auto simp: conn_ver_def split: option.split)
    with bitmap_loop_conn [OF l b(2), of p] f k find_enumerate [OF b(2) k(1), of 0] show ?thesis by simp
  qed
  with b(1) u show ?thesis by blast
qed

theorem conn_bitmap_delivers_witness:
  "\<exists>b r'. build_local_conn_bitmap line_synced direct_table = Some b
     \<and> update_conn_info ''2'' 7 (Conn_Bitmap b) (synced_new :: u32 synced_route_info) = Some r'
     \<and> st_get (si_conn_map r') 3 = Some \<lparr>rc_connected_peers = {2}, rc_version = 1, rc_last_update = 7\<rparr>"
proof -
  have "synced_inv line_synced"
    by (auto simp: synced_inv_defs line_synced_def synced_new_def store_simps st_wf_def st_get_def line_conn_def split: if_splits)
  moreover have "st_get (si_conn_map line_synced) 3 = Some (line_conn {2})" by (simp add: line_synced_def st_get_def)
  moreover have "conn_ver (synced_new :: u32 synced_route_info) 3 = 0" by (simp add: conn_ver_def synced_new_def store_simps)
  ultimately show ?thesis
    using conn_bitmap_delivers [of line_synced direct_table "''2''" 7 "synced_new :: u32 synced_route_info"] one_info_facts(2)
    by (fastforce simp: line_conn_def)
qed

end
