(* ===== verification/Route_Confined.thy ===== *)
theory Route_Confined
  imports Route_Service Route_Optimal
begin

text \<open>
  What the handler of synchronisation requests lets a credential peer do to the database.
\<close>

section \<open>Changes of the database\<close>

definition sub_store :: "('k, 'v) store \<Rightarrow> ('k, 'v) store \<Rightarrow> bool" where
  "sub_store m' m \<longleftrightarrow> (\<forall>k v. st_get m' k = Some v \<longrightarrow> st_get m k = Some v)"

text \<open>The announcements a credential peer may leave: its own, marked and with allowed subnets.\<close>

definition own_allowed :: "cidr_lib \<Rightarrow> peer_id \<Rightarrow> trusted_credential_pubkey \<Rightarrow> peer_id \<Rightarrow> route_peer_info \<Rightarrow> bool" where
  "own_allowed cl from_peer c p i \<longleftrightarrow> p = from_peer \<and> is_credential_peer_info i
     \<and> (\<forall>x \<in> set (ri_proxy_cidrs i). \<exists>a \<in> set (tc_allowed_proxy_cidrs c). cidr_is_subset_str cl x a)"

definition confined :: "cidr_lib \<Rightarrow> peer_id \<Rightarrow> trusted_credential_pubkey \<Rightarrow> 'm synced_route_info \<Rightarrow> 'm synced_route_info \<Rightarrow> bool" where
  "confined cl from_peer c s s' \<longleftrightarrow> sub_store (si_foreign_network s') (si_foreign_network s)
     \<and> (\<forall>p i. st_get (si_peer_infos s') p = Some i \<longrightarrow>
          st_get (si_peer_infos s) p = Some i \<or> tc_allow_relay c \<and> ri_version i = 0 \<or> own_allowed cl from_peer c p i)
     \<and> (\<not> tc_allow_relay c \<longrightarrow> sub_store (si_conn_map s') (si_conn_map s))"

lemma confined_refl: "confined cl from_peer c s s"
  by (simp add: confined_def sub_store_def)

lemma confined_trans: "confined cl from_peer c s s' \<Longrightarrow> confined cl from_peer c s' s'' \<Longrightarrow> confined cl from_peer c s s''"
  unfolding confined_def sub_store_def by blast

lemma confined_same:
  "si_foreign_network s' = si_foreign_network s \<Longrightarrow> si_peer_infos s' = si_peer_infos s \<Longrightarrow> si_conn_map s' = si_conn_map s \<Longrightarrow>
   confined cl from_peer c s s'"
  by (simp add: confined_def sub_store_def)

section \<open>The stages of the handler\<close>

lemma update_peer_infos_loop_changes:
  "update_peer_infos_loop R now my rid dst infos raws need s = Some (r, s') \<Longrightarrow>
     si_foreign_network s' = si_foreign_network s \<and> si_conn_map s' = si_conn_map s
     \<and> (\<forall>p i. st_get (si_peer_infos s') p = Some i \<longrightarrow> st_get (si_peer_infos s) p = Some i
          \<or> (\<exists>j \<in> set infos. p = ri_peer_id j \<and> i = j\<lparr>ri_last_update := Some now\<rparr>))"
proof (induction R now my rid dst infos raws need s rule: update_peer_infos_loop.induct)
  case (3 R now my rid dst info infos raw raws need s)
  let ?d = "if ri_peer_id info = dst then map_option ri_peer_route_id (st_get (si_peer_infos s) dst) else None"
  show ?case
  proof (cases "check_duplicate_peer_id my rid dst ?d info s")
    case None
    with "3.prems" show ?thesis by simp
  next
    case c: (Some x)
    show ?thesis
    proof (cases x)
      case (Inl e)
      with c "3.prems" show ?thesis by simp
    next
      case (Inr u)
      obtain changed s1 where s1: "store_peer_info now info raw s = (changed, s1)" by fastforce
      obtain v raw_id where v: "get_field R raw ''peer_id'' = Some v" "value_as_u32 v = Some raw_id" "raw_id = ri_peer_id info"
          "update_peer_infos_loop R now my rid dst infos raws (need \<or> changed) s1 = Some (r, s')"
        using "3.prems" c Inr s1 by (auto split: bind_splits if_splits)
      have st: "si_foreign_network s1 = si_foreign_network s" "si_conn_map s1 = si_conn_map s"
        "\<And>p i. st_get (si_peer_infos s1) p = Some i \<Longrightarrow> st_get (si_peer_infos s) p = Some i \<or> p = ri_peer_id info \<and> i = info\<lparr>ri_last_update := Some now\<rparr>"
        using s1 by (auto simp: store_peer_info_def Let_def store_simps split: if_splits)
      from "3.IH" [OF c Inr v(1,2) _ s1 [symmetric] refl v(4)] v(3) st show ?thesis by fastforce
    qed
  qed
qed simp_all

lemma fill_one_changes:
  "si_foreign_network (snd (fill_empty_one ver now q acc)) = si_foreign_network (snd acc)
   \<and> (\<forall>p i. st_get (si_peer_infos (snd (fill_empty_one ver now q acc))) p = Some i \<longrightarrow> st_get (si_peer_infos (snd acc)) p = Some i
     \<or> ri_version i = 0 \<and> ri_last_update i \<noteq> None)"
  by (auto simp: fill_empty_one_def Let_def split_def store_simps route_peer_info_new_def split: if_splits)

text \<open>Operations that add at most placeholders and leave the foreign networks alone.\<close>

definition adds_placeholders :: "'m synced_route_info \<Rightarrow> 'm synced_route_info \<Rightarrow> bool" where
  "adds_placeholders s s' \<longleftrightarrow> si_foreign_network s' = si_foreign_network s
     \<and> (\<forall>p i. st_get (si_peer_infos s') p = Some i \<longrightarrow> st_get (si_peer_infos s) p = Some i
          \<or> ri_version i = 0 \<and> ri_last_update i \<noteq> None)"

lemma adds_placeholders_refl [simp]: "adds_placeholders s s"
  by (simp add: adds_placeholders_def)

lemma adds_placeholders_trans: "adds_placeholders s s' \<Longrightarrow> adds_placeholders s' s'' \<Longrightarrow> adds_placeholders s s''"
  unfolding adds_placeholders_def by metis

lemma adds_placeholders_version [simp]: "adds_placeholders s (s'\<lparr>si_version := v\<rparr>) \<longleftrightarrow> adds_placeholders s s'"
  by (simp add: adds_placeholders_def)

lemma fill_adds: "adds_placeholders s (fill_empty_peer_info ver now ps s)"
proof -
  have "adds_placeholders (snd acc) (snd (fold (fill_empty_one ver now) qs acc))" for qs and acc :: "bool \<times> 'a synced_route_info"
  proof (induction qs arbitrary: acc)
    case (Cons q qs)
    have "adds_placeholders (snd acc) (snd (fill_empty_one ver now q acc))" using fill_one_changes [of ver now q acc] by (simp add: adds_placeholders_def)
    with Cons.IH adds_placeholders_trans show ?case by (simp only: fold_simps) blast
  qed simp
  from this [of "(False, s)" "sorted_list_of_set ps"] show ?thesis by (simp add: fill_empty_peer_info_def Let_def split_def)
qed

lemma update_one_adds: "adds_placeholders s (snd (update_conn_info_one_peer now pv c s))"
  by (simp add: update_conn_info_one_peer_def adds_placeholders_def split: option.split)

lemma fill_then_update_adds: "update_conn_info_one_peer now pv c (fill_empty_peer_info ver now c s) = (ch, s1) \<Longrightarrow> adds_placeholders s s1"
  using adds_placeholders_trans [OF fill_adds [of s ver now c] update_one_adds [of "fill_empty_peer_info ver now c s" now pv c]] by simp

lemma bitmap_loop_adds: "update_conn_bitmap_loop ver now b idx pvs need s = Some (need', s') \<Longrightarrow> adds_placeholders s s'"
proof (induction pvs arbitrary: idx need s)
  case (Cons pv pvs)
  then obtain c where c: "get_connected_peers_at b idx = Some c" by (auto split: bind_splits)
  obtain ch s1 where u: "update_conn_info_one_peer now pv c (fill_empty_peer_info ver now c s) = (ch, s1)" by fastforce
  from Cons.prems c u have "update_conn_bitmap_loop ver now b (Suc idx) pvs (need \<or> ch) s1 = Some (need', s')" by simp
  from adds_placeholders_trans [OF fill_then_update_adds [OF u] Cons.IH [OF this]] show ?case .
qed simp

lemma list_loop_adds: "adds_placeholders s (snd (update_conn_list_loop ver now pcs need s))"
proof (induction pcs arbitrary: need s)
  case (Cons pc pcs)
  show ?case
  proof (cases "pc_peer_id pc")
    case None
    with Cons show ?thesis by simp
  next
    case (Some pv)
    obtain ch s1 where u: "update_conn_info_one_peer now pv (set (pc_connected_peer_ids pc)) (fill_empty_peer_info ver now (set (pc_connected_peer_ids pc)) s) = (ch, s1)"
      by fastforce
    from adds_placeholders_trans [OF fill_then_update_adds [OF u] Cons.IH, of "need \<or> ch"] u Some show ?thesis by simp
  qed
qed simp

lemma update_conn_info_adds:
  assumes "update_conn_info ver now ci s = Some s'"
  shows "adds_placeholders s s'"
proof (cases ci)
  case (Conn_Bitmap b)
  with assms obtain need s1 where "update_conn_bitmap_loop ver now b 0 (cb_peer_ids b) False (fill_empty_peer_info ver now (set (map pv_peer_id (cb_peer_ids b))) s) = Some (need, s1)"
      "s' = (if need then s1\<lparr>si_version := si_version s1 + 1\<rparr> else s1)" by (auto simp: update_conn_info_with_bitmap_def)
  with adds_placeholders_trans [OF fill_adds bitmap_loop_adds] show ?thesis by fastforce
next
  case (Conn_Peer_List l)
  with assms list_loop_adds [of s ver now l False] show ?thesis by (auto simp: update_conn_info_with_list_def Let_def split_def)
qed

lemma refresh_shrinks:
  assumes r: "verify_and_update_credential_trusts_protecting cr L R now nsecret active pp s = ((u, keys, ch), s')" and inv: "synced_inv s"
  shows "sub_store (si_foreign_network s') (si_foreign_network s)" "sub_store (si_peer_infos s') (si_peer_infos s)" "sub_store (si_conn_map s') (si_conn_map s)"
proof -
  define s4 where "s4 = update_credential_groups (fst (collect_trusted_credentials cr L R nsecret now s)) (si_peer_infos s)
    (snd (replace_suppressed (case pp of
         Some p \<Rightarrow> snd (collect_non_reusable_credential_owners (fst (collect_trusted_credentials cr L R nsecret now s)) active (si_peer_infos s)) - {p}
       | None \<Rightarrow> snd (collect_non_reusable_credential_owners (fst (collect_trusted_credentials cr L R nsecret now s)) active (si_peer_infos s)))
      (replace_non_reusable_credential_owners (fst (collect_non_reusable_credential_owners (fst (collect_trusted_credentials cr L R nsecret now s)) active (si_peer_infos s)))
        (snd (replace_trusted_credential_pubkeys (fst (collect_trusted_credentials cr L R nsecret now s)) s)))))"
  have s': "s' = remove_peers u s4" unfolding s4_def by (rule refresh_eq [OF r])
  have f: "si_foreign_network s4 = si_foreign_network s" "si_peer_infos s4 = si_peer_infos s" "si_conn_map s4 = si_conn_map s"
    by (simp_all add: s4_def replace_non_reusable_credential_owners_def replace_trusted_credential_pubkeys_def)
  have wf: "st_wf (si_foreign_network s)" using inv by (simp add: synced_inv_defs)
  show "sub_store (si_foreign_network s') (si_foreign_network s)" "sub_store (si_peer_infos s') (si_peer_infos s)" "sub_store (si_conn_map s') (si_conn_map s)"
    using wf by (simp_all add: s' f remove_peers_def Let_def sub_store_def remove_all_get st.get_retain_Some_iff)
qed

lemma update_peer_infos_changes:
  assumes "update_peer_infos R now my rid dst infos raws s = Some (r, s')"
  shows "si_foreign_network s' = si_foreign_network s \<and> si_conn_map s' = si_conn_map s
     \<and> (\<forall>p i. st_get (si_peer_infos s') p = Some i \<longrightarrow> st_get (si_peer_infos s) p = Some i
          \<or> (\<exists>j \<in> set infos. p = ri_peer_id j \<and> i = j\<lparr>ri_last_update := Some now\<rparr>))"
proof -
  obtain r1 s1 where l: "update_peer_infos_loop R now my rid dst infos raws False s = Some (r1, s1)" and
    s': "s' = s1 \<or> s' = s1\<lparr>si_version := si_version s1 + 1\<rparr>"
    using assms unfolding update_peer_infos_def map_option_eq_Some by (force split: sum.splits if_splits)
  have same: "si_foreign_network s' = si_foreign_network s1" "si_peer_infos s' = si_peer_infos s1" "si_conn_map s' = si_conn_map s1"
    using s' by auto
  show ?thesis unfolding same by (rule update_peer_infos_loop_changes [OF l])
qed

lemma group_trust_one_same [simp]:
  "si_foreign_network (update_group_trust_one p gs s) = si_foreign_network s"
  "si_peer_infos (update_group_trust_one p gs s) = si_peer_infos s"
  "si_conn_map (update_group_trust_one p gs s) = si_conn_map s"
  by (simp_all add: update_group_trust_one_def split: option.split)

lemma group_trusts_same [simp]:
  "si_foreign_network (verify_and_update_group_trusts cr infos decls ta s) = si_foreign_network s"
  "si_peer_infos (verify_and_update_group_trusts cr infos decls ta s) = si_peer_infos s"
  "si_conn_map (verify_and_update_group_trusts cr infos decls ta s) = si_conn_map s"
  unfolding verify_and_update_group_trusts_def Let_def
  by (induction infos arbitrary: s) simp_all

text \<open>The announcement the filter lets through is the sender's own.\<close>

lemma extract_own:
  assumes "extract_credential_peer_info cl R from_peer infos raws c = Some (Some (i, raw))"
  shows "ri_peer_id i = from_peer \<and> own_allowed cl from_peer c (ri_peer_id i) (i\<lparr>ri_last_update := t\<rparr>)"
proof -
  obtain k j where f: "find (\<lambda>(k, i). ri_peer_id i = from_peer) (enumerate 0 infos) = Some (k, j)"
    and i: "i = mark_credential_peer True (j\<lparr>ri_proxy_cidrs := if tc_allowed_proxy_cidrs c \<noteq> []
        then filter (\<lambda>s. list_ex (cidr_is_subset_str cl s) (tc_allowed_proxy_cidrs c)) (ri_proxy_cidrs j) else []\<rparr>)"
    using assms by (auto simp: extract_credential_peer_info_def Let_def split: option.splits if_splits)
  have "ri_peer_id j = from_peer" using f by (auto simp: find_Some_iff)
  then show ?thesis unfolding i
    by (auto simp: own_allowed_def is_credential_peer_info_def mark_credential_peer_def list_ex_iff split: option.split)
qed

lemma accept_infos_confined:
  assumes a: "accept_infos E now from_peer (Some c) infos raws ss svc = Some (r, ss', svc')" and inv: "synced_inv (rs_synced svc)"
  shows "confined (se_cidr E) from_peer c (rs_synced svc) (rs_synced svc') \<and> synced_inv (rs_synced svc')"
proof (cases infos)
  case None
  with a inv show ?thesis by (simp add: accept_infos_def confined_refl)
next
  case (Some items)
  with a obtain rs x where x: "raws = Some rs" "extract_credential_peer_info (se_cidr E) (se_reflect E) from_peer items rs c = Some x"
    by (cases raws) (auto simp: accept_infos_def select_infos_def split: bind_splits)
  show ?thesis
  proof (cases x)
    case None
    with a x Some inv show ?thesis by (simp add: accept_infos_def select_infos_def confined_refl)
  next
    case y: (Some y)
    obtain i raw where i: "y = (i, raw)" by fastforce
    obtain r1 s1 where u: "update_peer_infos (se_reflect E) now (rs_my_peer_id svc) (rs_my_peer_route_id svc) from_peer [i] [raw] (rs_synced svc) = Some (r1, s1)"
        and s': "rs_synced svc' = s1 \<or> rs_synced svc' = verify_and_update_group_trusts (se_crypto E) [i] (se_acl_groups E) (se_network_secret E = None) s1"
      using a x y Some i by (auto simp: accept_infos_def select_infos_def split: bind_splits sum.splits)
    have inv': "synced_inv (rs_synced svc')" using s' update_peer_infos_inv [OF u inv] group_trusts_inv by auto
    have same: "si_foreign_network (rs_synced svc') = si_foreign_network s1" "si_peer_infos (rs_synced svc') = si_peer_infos s1"
      "si_conn_map (rs_synced svc') = si_conn_map s1" using s' by auto
    have own: "own_allowed (se_cidr E) from_peer c (ri_peer_id i) (i\<lparr>ri_last_update := Some now\<rparr>)"
      using extract_own [OF x(2) [unfolded y i], of "Some now"] by blast
    have "confined (se_cidr E) from_peer c (rs_synced svc) s1"
      using update_peer_infos_changes [OF u] own unfolding confined_def sub_store_def by auto
    from confined_trans [OF this confined_same [OF same]] inv' show ?thesis by blast
  qed
qed

lemma adds_placeholders_confined:
  "adds_placeholders s s' \<Longrightarrow> tc_allow_relay c \<Longrightarrow> confined cl from_peer c s s'"
  by (auto simp: adds_placeholders_def confined_def sub_store_def)

lemma accept_conn_info_confined:
  assumes a: "accept_conn_info E now from_peer (Some c) conn ss svc = Some (r, ss', svc')" and inv: "synced_inv (rs_synced svc)"
  shows "confined (se_cidr E) from_peer c (rs_synced svc) (rs_synced svc') \<and> synced_inv (rs_synced svc')"
proof (cases "conn \<noteq> None \<and> tc_allow_relay c")
  case True
  with a obtain ci where "conn = Some ci" and u: "update_conn_info (se_version E) now ci (rs_synced svc) = Some (rs_synced svc')"
    by (auto simp: accept_conn_info_def split: bind_splits)
  with update_conn_info_inv [OF u inv] adds_placeholders_confined [OF update_conn_info_adds [OF u]] True show ?thesis by simp
next
  case False
  with a inv show ?thesis by (auto simp: accept_conn_info_def confined_refl split: option.splits)
qed

section \<open>Rebuilding the routes\<close>

lemma update_route_table_synced: "update_route_table E svc = Some svc' \<Longrightarrow> rs_synced svc' = rs_synced svc"
  by (auto simp: update_route_table_def split: bind_splits)

lemma update_tables_synced:
  "update_route_table_and_cached_local_conn_bitmap E now svc = Some svc' \<Longrightarrow> rs_synced svc' = rs_synced svc"
  by (auto simp: update_route_table_and_cached_local_conn_bitmap_def Let_def split_def dest!: update_route_table_synced split: bind_splits)

lemma owner_map_synced [simp]: "rs_synced (update_foreign_network_owner_map svc) = rs_synced svc"
proof -
  have "rs_synced (fold f xs v) = rs_synced v" if "\<And>x v. rs_synced (f x v) = rs_synced v" for f :: "'b \<Rightarrow> 'a route_service \<Rightarrow> 'a route_service" and xs v
    by (induction xs arbitrary: v) (simp_all add: that)
  then show ?thesis unfolding update_foreign_network_owner_map_def
    by (rule trans) (auto simp: Let_def split_def)
qed

lemma outcome_cases: obtains a b c d where "x = ((a, b, c), d)"
  by (cases x) auto

lemma refresh_topology_cases:
  assumes a: "refresh_credential_trusts_with_current_topology E now svc = Some (u, svc')"
  obtains svc1 active keys ch s svc2 where "update_route_table_and_cached_local_conn_bitmap E now svc = Some svc1"
    "verify_and_update_credential_trusts_protecting (se_crypto E) (se_cred_lib E) (se_reflect E) (unix_seconds now) (se_network_secret E)
       active (Some (rs_my_peer_id svc1)) (rs_synced svc1) = ((u, keys, ch), s)"
    "svc2 = svc1\<lparr>rs_synced := s, rs_trusted_keys := update_trusted_keys (se_network_name E) keys (rs_trusted_keys svc1)\<rparr>"
    "svc' = svc2 \<or> update_route_table_and_cached_local_conn_bitmap E now svc2 = Some svc'"
proof -
  obtain svc1 where 1: "update_route_table_and_cached_local_conn_bitmap E now svc = Some svc1"
    using a by (auto simp: refresh_credential_trusts_with_current_topology_def split: bind_splits)
  obtain u1 keys ch s where v: "verify_and_update_credential_trusts_protecting (se_crypto E) (se_cred_lib E) (se_reflect E) (unix_seconds now) (se_network_secret E)
             (\<lambda>p. p = rs_my_peer_id svc1 \<or> topology_peer_reachable p (rs_route_table svc1)) (Some (rs_my_peer_id svc1)) (rs_synced svc1) = ((u1, keys, ch), s)"
    by (rule outcome_cases)
  define svc2 where "svc2 = svc1\<lparr>rs_synced := s, rs_trusted_keys := update_trusted_keys (se_network_name E) keys (rs_trusted_keys svc1)\<rparr>"
  have "u1 = u \<and> (svc' = svc2 \<or> update_route_table_and_cached_local_conn_bitmap E now svc2 = Some svc')"
    using a unfolding refresh_credential_trusts_with_current_topology_def 1 bind.bind_lunit Let_def v prod.case svc2_def [symmetric]
    by (cases "u1 = {}"; cases ch) (auto split: bind_split_asm)
  with that [OF 1 _ svc2_def] v show thesis by blast
qed

lemma refresh_topology_confined:
  assumes a: "refresh_credential_trusts_with_current_topology E now svc = Some (u, svc')" and inv: "synced_inv (rs_synced svc)"
  shows "confined cl from_peer c (rs_synced svc) (rs_synced svc')"
proof (rule refresh_topology_cases [OF a])
  fix svc1 active keys ch s svc2
  assume 1: "update_route_table_and_cached_local_conn_bitmap E now svc = Some svc1"
    and v: "verify_and_update_credential_trusts_protecting (se_crypto E) (se_cred_lib E) (se_reflect E) (unix_seconds now) (se_network_secret E)
       active (Some (rs_my_peer_id svc1)) (rs_synced svc1) = ((u, keys, ch), s)"
    and 2: "svc2 = svc1\<lparr>rs_synced := s, rs_trusted_keys := update_trusted_keys (se_network_name E) keys (rs_trusted_keys svc1)\<rparr>"
      "svc' = svc2 \<or> update_route_table_and_cached_local_conn_bitmap E now svc2 = Some svc'"
  have "rs_synced svc' = s" using 2 update_tables_synced [of E now svc2 svc'] by auto
  moreover have "confined cl from_peer c (rs_synced svc1) s"
    using refresh_shrinks [OF v] inv update_tables_synced [OF 1] by (auto simp: confined_def sub_store_def)
  ultimately show ?thesis using update_tables_synced [OF 1] by simp
qed

section \<open>The handler\<close>

lemma get_or_create_synced: "get_or_create_session sid p svc = (ss, svc') \<Longrightarrow> rs_synced svc' = rs_synced svc"
  by (auto simp: get_or_create_session_def Let_def split: option.splits)

lemma put_session_synced [simp]: "rs_synced (put_session p ss svc) = rs_synced svc"
  by (simp add: put_session_def)

lemma accept_foreign_credential: "accept_foreign now p True foreign ss svc = Some (False, ss, svc)"
  by (simp add: accept_foreign_def split: option.split)

lemma do_sync_cases:
  assumes a: "do_sync_route_info E now sid from_peer from_sid init infos raws conn foreign svc = Some (out, svc')"
    and cred: "se_identity E from_peer = Some Credential"
    and c: "Option.bind (se_pubkey E from_peer) (\<lambda>pk. get_credential_info_by_pubkey pk (rs_synced svc)) = Some c"
  obtains ss0 svc0 r ss2 svc2 where "get_or_create_session sid from_peer svc = (ss0, svc0)"
    "accept_infos E now from_peer (Some c) infos raws (update_dst_session_id from_sid (ss0\<lparr>ss_rpc_rx_count := ss_rpc_rx_count ss0 + 1\<rparr>)) svc0 = Some (r, ss2, svc2)"
    "rs_synced svc' = rs_synced svc2"
  | ss0 svc0 b ss2 svc2 cb ss3 svc3 u svc4 where "get_or_create_session sid from_peer svc = (ss0, svc0)"
    "accept_infos E now from_peer (Some c) infos raws (update_dst_session_id from_sid (ss0\<lparr>ss_rpc_rx_count := ss_rpc_rx_count ss0 + 1\<rparr>)) svc0 = Some (Inr b, ss2, svc2)"
    "accept_conn_info E now from_peer (Some c) conn ss2 svc2 = Some (cb, ss3, svc3)"
    "(if b \<or> cb then refresh_credential_trusts_with_current_topology E now svc3 else Some ({}, svc3)) = Some (u, svc4)"
    "rs_synced svc' = rs_synced svc4"
proof -
  obtain ss0 svc0 where g: "get_or_create_session sid from_peer svc = (ss0, svc0)" by fastforce
  have c0: "Option.bind (se_pubkey E from_peer) (\<lambda>pk. get_credential_info_by_pubkey pk (rs_synced svc0)) = Some c"
    using c get_or_create_synced [OF g] by simp
  define ss1 where "ss1 = update_dst_session_id from_sid (ss0\<lparr>ss_rpc_rx_count := ss_rpc_rx_count ss0 + 1\<rparr>)"
  note a1 = a [unfolded do_sync_route_info_def g Let_def prod.case cred option.case simp_thms if_True c0 if_False option.distinct ss1_def [symmetric]]
  obtain r ss2 svc2 where i: "accept_infos E now from_peer (Some c) infos raws ss1 svc0 = Some (r, ss2, svc2)"
    using a1 by (auto split: bind_split_asm)
  show thesis
  proof (cases r)
    case (Inl e)
    with a1 i have "rs_synced svc' = rs_synced svc2" by auto
    with that(1) g i show thesis unfolding ss1_def by blast
  next
    case (Inr b)
    note a2 = a1 [unfolded i bind.bind_lunit prod.case Inr sum.case accept_foreign_credential]
    obtain cb ss3 svc3 where k: "accept_conn_info E now from_peer (Some c) conn ss2 svc2 = Some (cb, ss3, svc3)"
      using a2 by (auto split: bind_split_asm)
    note a3 = a2 [unfolded k bind.bind_lunit prod.case]
    obtain u svc4 where f: "(if b \<or> cb then refresh_credential_trusts_with_current_topology E now svc3 else Some ({}, svc3)) = Some (u, svc4)"
      using a3 by (auto split: bind_split_asm)
    have "rs_synced svc' = rs_synced svc4"
      using a3 unfolding f bind.bind_lunit prod.case
      by (auto dest!: update_tables_synced split: bind_split_asm if_splits)
    with that(2) g i k f Inr show thesis unfolding ss1_def by blast
  qed
qed

text \<open>
  C7: a credential peer is confined to what its credential allows.  When the sender of a synchronisation
  request is known to be a credential peer, then without a trusted credential the request is refused and the
  database is left alone; with one, whatever the request contains, the handler adds no foreign network, the
  only announcement it adds is the sender's own, marked as a credential peer's and with subnets inside the ones the
  credential allows (or, for a credential that may relay, an empty placeholder), and it adds
  connections only for a credential that may relay.
\<close>

theorem credential_peer_confined:
  assumes inv: "synced_inv (rs_synced svc)"
    and a: "do_sync_route_info E now sid from_peer from_sid init infos raws conn foreign svc = Some (out, svc')"
    and cred: "se_identity E from_peer = Some Credential"
  shows "case Option.bind (se_pubkey E from_peer) (\<lambda>pk. get_credential_info_by_pubkey pk (rs_synced svc)) of
      None \<Rightarrow> so_answer out = Inl Stopped \<and> rs_synced svc' = rs_synced svc
    | Some c \<Rightarrow> confined (se_cidr E) from_peer c (rs_synced svc) (rs_synced svc')"
proof (cases "Option.bind (se_pubkey E from_peer) (\<lambda>pk. get_credential_info_by_pubkey pk (rs_synced svc))")
  case None
  obtain ss0 svc0 where g: "get_or_create_session sid from_peer svc = (ss0, svc0)" by fastforce
  with a cred None get_or_create_synced [OF g] show ?thesis by (auto simp: do_sync_route_info_def refused_def)
next
  case (Some c)
  have "confined (se_cidr E) from_peer c (rs_synced svc) (rs_synced svc')"
  proof (rule do_sync_cases [OF a cred Some])
    fix ss0 svc0 r ss2 svc2
    assume g: "get_or_create_session sid from_peer svc = (ss0, svc0)" and "rs_synced svc' = rs_synced svc2"
      and "accept_infos E now from_peer (Some c) infos raws (update_dst_session_id from_sid (ss0\<lparr>ss_rpc_rx_count := ss_rpc_rx_count ss0 + 1\<rparr>)) svc0 = Some (r, ss2, svc2)"
    with accept_infos_confined inv get_or_create_synced [OF g] show ?thesis by metis
  next
    fix ss0 svc0 b ss2 svc2 cb ss3 svc3 u svc4
    assume g: "get_or_create_session sid from_peer svc = (ss0, svc0)"
      and i: "accept_infos E now from_peer (Some c) infos raws (update_dst_session_id from_sid (ss0\<lparr>ss_rpc_rx_count := ss_rpc_rx_count ss0 + 1\<rparr>)) svc0 = Some (Inr b, ss2, svc2)"
      and k: "accept_conn_info E now from_peer (Some c) conn ss2 svc2 = Some (cb, ss3, svc3)"
      and f: "(if b \<or> cb then refresh_credential_trusts_with_current_topology E now svc3 else Some ({}, svc3)) = Some (u, svc4)"
      and e: "rs_synced svc' = rs_synced svc4"
    have 2: "confined (se_cidr E) from_peer c (rs_synced svc) (rs_synced svc2)" "synced_inv (rs_synced svc2)"
      using accept_infos_confined [OF i] inv get_or_create_synced [OF g] by simp_all
    have 3: "confined (se_cidr E) from_peer c (rs_synced svc2) (rs_synced svc3)" "synced_inv (rs_synced svc3)"
      using accept_conn_info_confined [OF k 2(2)] by simp_all
    have 4: "confined (se_cidr E) from_peer c (rs_synced svc3) (rs_synced svc4)"
      using f refresh_topology_confined [OF _ 3(2), of E now u svc4] by (auto simp: confined_refl split: if_splits)
    from confined_trans [OF 2(1) confined_trans [OF 3(1) 4]] e show ?thesis by simp
  qed
  then show ?thesis by (simp add: Some)
qed

text \<open>A credential peer that tries to speak for the administrator, to announce a link and a foreign network.\<close>

definition confined_env :: "u32 service_env" where
  "confined_env = \<lparr>se_crypto = toy_crypto, se_cred_lib = toy_cred_lib, se_reflect = toy_reflect, se_cidr = toy_cidr, se_pop = pop_first_least,
     se_pg = own_distances, se_cost = (\<lambda>_ _. 1), se_version = ''2'', se_network_name = ''net'', se_network_secret = Some ''s'',
     se_acl_groups = [], se_identity = (\<lambda>p. if p = 4 then Some Credential else None), se_pubkey = (\<lambda>p. if p = 4 then Some [5] else None)\<rparr>"

definition toy_service :: "u32 route_service" where
  "toy_service = (route_service_new 9 0 0 [])\<lparr>rs_synced := toy_synced\<lparr>si_trusted_credential_pubkeys := [([5], toy_credential)]\<rparr>\<rparr>"

theorem credential_peer_confined_witness:
  "\<exists>out svc'. do_sync_route_info confined_env 100 77 4 66 True (Some [toy_info 1 9]) (Some [1])
       (Some (Conn_Peer_List [\<lparr>pc_peer_id = Some \<lparr>pv_peer_id = 1, pv_version = 9\<rparr>, pc_connected_peer_ids = [4]\<rparr>])) (Some []) toy_service = Some (out, svc')
     \<and> confined toy_cidr 4 toy_credential (rs_synced toy_service) (rs_synced svc')"
proof -
  have inv: "synced_inv (rs_synced toy_service)"
    by (auto simp: synced_inv_defs toy_service_def toy_synced_def synced_new_def store_simps st_wf_def st_get_def mark_credential_peer_def split: if_splits)
  obtain out svc' where a: "do_sync_route_info confined_env 100 77 4 66 True (Some [toy_info 1 9]) (Some [1])
       (Some (Conn_Peer_List [\<lparr>pc_peer_id = Some \<lparr>pv_peer_id = 1, pv_version = 9\<rparr>, pc_connected_peer_ids = [4]\<rparr>])) (Some []) toy_service = Some (out, svc')"
    by (auto simp: do_sync_route_info_def get_or_create_session_def confined_env_def toy_service_def route_service_new_def st_get_def Let_def
        get_credential_info_by_pubkey_def accept_infos_def select_infos_def extract_credential_peer_info_def accept_conn_info_def toy_credential_def
        accept_foreign_def)
  show ?thesis using credential_peer_confined [OF inv a] a
    by (simp add: confined_env_def toy_service_def route_service_new_def get_credential_info_by_pubkey_def st_get_def)
qed

end
