(* ===== verification/Route_Maintain.thy ===== *)
theory Route_Maintain
  imports Route_Confined
begin

text \<open>
  The background tasks of the router in \<^verbatim>\<open>peers/peer_ospf_route.rs\<close>: renewing our own announcements, expiry of
  dead peers, refresh of the group memberships, and the choice of the peers we keep a session with.  The
  transition system of the whole service, with what every reachable state satisfies.
\<close>

section \<open>Our own announcements\<close>

record interface_peer_snapshot =
  sn_generation :: u64
  sn_peers :: "peer_id set"
  sn_identity_types :: "(peer_id, peer_identity option) store"

text \<open>\<open>requery\<close> is the answer of \<^verbatim>\<open>need_periodic_requery_peers\<close>.\<close>

definition service_update_my_conn_info ::
  "'m service_env \<Rightarrow> stime \<Rightarrow> bool \<Rightarrow> interface_peer_snapshot \<Rightarrow> 'm route_service \<Rightarrow> bool \<times> 'm route_service" where
  "service_update_my_conn_info E now requery snap svc =
     (let generation_applied = (rs_applied_generation svc = rs_interface_generation svc)
      in if generation_applied \<and> \<not> requery then (False, svc)
         else let svc1 = (if generation_applied then mark_interface_peers_dirty svc else svc);
                  (updated, s) = update_my_conn_info (se_version E) now (rs_my_peer_id svc1) (sn_peers snap) (rs_synced svc1)
              in (updated, svc1\<lparr>rs_synced := s, rs_applied_generation := sn_generation snap\<rparr>))"

definition OSPF_UPDATE_MY_GLOBAL_FOREIGN_NETWORK_INTERVAL_SEC :: int where
  "OSPF_UPDATE_MY_GLOBAL_FOREIGN_NETWORK_INTERVAL_SEC = 10"

definition service_update_my_foreign_network ::
  "stime \<Rightarrow> (fn_key, fn_entry) store \<Rightarrow> 'm route_service \<Rightarrow> (bool \<times> 'm route_service) option" where
  "service_update_my_foreign_network now nets svc =
     (if (case rs_last_update_my_foreign svc of
            Some t \<Rightarrow> (now - t) div sec 1 < OSPF_UPDATE_MY_GLOBAL_FOREIGN_NETWORK_INTERVAL_SEC | None \<Rightarrow> False)
      then Some (False, svc)
      else map_option (\<lambda>(u, s). (u, svc\<lparr>rs_last_update_my_foreign := Some now, rs_synced := s\<rparr>))
             (update_my_foreign_network now (rs_my_peer_id svc) nets (rs_synced svc)))"

definition rebuild_all :: "'m service_env \<Rightarrow> stime \<Rightarrow> 'm route_service \<Rightarrow> 'm route_service option" where
  "rebuild_all E now svc = map_option update_foreign_network_owner_map (update_route_table_and_cached_local_conn_bitmap E now svc)"

text \<open>
  \<open>new\<close> is our announcement as built from the configuration.  The result says whether something changed and
  which peers are disconnected.
\<close>

definition update_my_infos ::
  "'m service_env \<Rightarrow> stime \<Rightarrow> route_peer_info \<Rightarrow> bool \<Rightarrow> interface_peer_snapshot \<Rightarrow> (fn_key, fn_entry) store \<Rightarrow> 'm route_service
   \<Rightarrow> (bool \<times> peer_id set \<times> 'm route_service) option" where
  "update_my_infos E now new requery snap nets svc =
     (let (info_updated, s) = update_my_peer_info now (rs_my_peer_id svc) new (rs_synced svc);
          (conn_updated, svc1) = service_update_my_conn_info E now requery snap (svc\<lparr>rs_synced := s\<rparr>) in do {
        (foreign_updated, svc2) \<leftarrow> service_update_my_foreign_network now nets svc1;
        (untrusted, svc3) \<leftarrow> (if info_updated \<or> conn_updated then refresh_credential_trusts_with_current_topology E now svc2 else Some ({}, svc2));
        svc4 \<leftarrow> (if info_updated \<or> conn_updated \<or> untrusted \<noteq> {} then rebuild_all E now svc3 else Some svc3);
        Some (info_updated \<or> conn_updated \<or> foreign_updated, untrusted,
              if info_updated then svc4\<lparr>rs_peer_info_last_update := now\<rparr> else svc4)
      })"

definition refresh_acl_groups ::
  "'m service_env \<Rightarrow> stime \<Rightarrow> route_peer_info \<Rightarrow> 'm route_service \<Rightarrow> (bool \<times> peer_id set \<times> 'm route_service) option" where
  "refresh_acl_groups E now new svc =
     (let (info_updated, s) = update_my_peer_info now (rs_my_peer_id svc) new (rs_synced svc);
          s1 = verify_and_update_group_trusts (se_crypto E) (map snd (si_peer_infos s)) (se_acl_groups E) (se_network_secret E = None) s in do {
        (untrusted, svc1) \<leftarrow> refresh_credential_trusts_with_current_topology E now (svc\<lparr>rs_synced := s1\<rparr>);
        svc2 \<leftarrow> (if info_updated \<or> untrusted \<noteq> {} then rebuild_all E now svc1 else Some svc1);
        Some (info_updated \<or> untrusted \<noteq> {}, untrusted, if info_updated then svc2\<lparr>rs_peer_info_last_update := now\<rparr> else svc2)
      })"

section \<open>Expiry\<close>

definition REMOVE_DEAD_PEER_INFO_AFTER :: stime where
  "REMOVE_DEAD_PEER_INFO_AFTER = sec 3660"

definition REMOVE_UNREACHABLE_PEER_INFO_AFTER :: stime where
  "REMOVE_UNREACHABLE_PEER_INFO_AFTER = sec 90"

text \<open>Whether an announcement has expired; one that was never stamped is a panic.  A time in the future is
  not expired.\<close>

definition info_expired :: "stime \<Rightarrow> route_table \<Rightarrow> peer_id \<Rightarrow> route_peer_info \<Rightarrow> bool option" where
  "info_expired now t p i = map_option (\<lambda>u. u \<le> now \<and>
     (now - u > REMOVE_DEAD_PEER_INFO_AFTER \<or> now - u > REMOVE_UNREACHABLE_PEER_INFO_AFTER \<and> \<not> topology_peer_reachable p t)) (ri_last_update i)"

fun expired_infos :: "stime \<Rightarrow> route_table \<Rightarrow> (peer_id, route_peer_info) store \<Rightarrow> peer_id list option" where
  "expired_infos now t [] = Some []"
| "expired_infos now t ((p, i) # m) = do {
     e \<leftarrow> info_expired now t p i;
     ps \<leftarrow> expired_infos now t m;
     Some (if e then p # ps else ps)
   }"

definition foreign_expired :: "stime \<Rightarrow> fn_entry \<Rightarrow> bool" where
  "foreign_expired now e = (case fe_last_update e of
     None \<Rightarrow> True
   | Some u \<Rightarrow> if now < u then True else now - u > REMOVE_DEAD_PEER_INFO_AFTER)"

definition clear_expired_peer :: "'m service_env \<Rightarrow> stime \<Rightarrow> 'm route_service \<Rightarrow> (peer_id set \<times> 'm route_service) option" where
  "clear_expired_peer E now svc = do {
     gone \<leftarrow> expired_infos now (rs_route_table svc) (si_peer_infos (rs_synced svc));
     let s = remove_peers (set gone) (rs_synced svc);
         s1 = s\<lparr>si_foreign_network := st_retain (\<lambda>_ e. \<not> foreign_expired now e) (si_foreign_network s)\<rparr>
     in do {
       (untrusted, svc1) \<leftarrow> refresh_credential_trusts_with_current_topology E now (svc\<lparr>rs_synced := s1\<rparr>);
       Some (untrusted, svc1\<lparr>rs_route_table := clean_expired_route_info (rs_route_table svc1),
         rs_route_table_with_cost := clean_expired_route_info (rs_route_table_with_cost svc1)\<rparr>)
     }
   }"

text \<open>The link costs have changed.\<close>

definition cost_calculator_updated :: "'m service_env \<Rightarrow> 'm route_service \<Rightarrow> 'm route_service option" where
  "cost_calculator_updated E svc =
     update_route_table E (svc\<lparr>rs_synced := (rs_synced svc)\<lparr>si_version := si_version (rs_synced svc) + 1\<rparr>\<rparr>)"

section \<open>Choosing the session we initiate\<close>

text \<open>The session manager: the service and the peer we currently initiate a session with.\<close>

record 'm session_manager =
  sm_service :: "'m route_service"
  sm_initiate :: "peer_id option"

definition list_session_peer_set :: "'m route_service \<Rightarrow> peer_id set" where
  "list_session_peer_set svc = set (list_session_peers svc)"

text \<open>Sessions with peers that are no longer connected.\<close>

definition stop_gone_sessions :: "interface_peer_snapshot \<Rightarrow> peer_id list \<Rightarrow> 'm session_manager \<Rightarrow> 'm session_manager" where
  "stop_gone_sessions snap ps M = fold (\<lambda>p M.
     if p \<in> sn_peers snap then M
     else M\<lparr>sm_initiate := if sm_initiate M = Some p then None else sm_initiate M, sm_service := remove_session p (sm_service M)\<rparr>) ps M"

definition initiator_candidates :: "interface_peer_snapshot \<Rightarrow> 'm route_service \<Rightarrow> peer_id list" where
  "initiator_candidates snap svc = filter (\<lambda>p.
     (case st_get (sn_identity_types snap) p of Some (Some t) \<Rightarrow> t | _ \<Rightarrow> Admin) \<noteq> Credential
     \<and> (case get_session p svc of None \<Rightarrow> True | Some ss \<Rightarrow> \<not> ss_dst_is_initiator ss)) (sorted_list_of_set (sn_peers snap))"

definition new_initiator_dst :: "'m route_service \<Rightarrow> peer_id list \<Rightarrow> peer_id option" where
  "new_initiator_dst svc cs =
     (case find (\<lambda>p. get_udp_nat_type p (rs_route_table svc) \<in> {Some NoPat, Some OpenInternet}) cs of
        Some p \<Rightarrow> Some p
      | None \<Rightarrow> (case cs of [] \<Rightarrow> None | c # _ \<Rightarrow> Some c))"

definition flag_session :: "bool \<Rightarrow> peer_id \<Rightarrow> 'm route_service \<Rightarrow> 'm route_service" where
  "flag_session b p svc = (case get_session p svc of None \<Rightarrow> svc | Some ss \<Rightarrow> put_session p (update_initiator_flag b ss) svc)"

text \<open>\<open>sid\<close> is the identifier of the session if a new one is created.\<close>

definition change_initiator :: "u64 \<Rightarrow> peer_id \<Rightarrow> 'm session_manager \<Rightarrow> 'm session_manager" where
  "change_initiator sid p M =
     (let svc1 = (case sm_initiate M of Some q \<Rightarrow> flag_session False q (sm_service M) | None \<Rightarrow> sm_service M);
          (ss, svc2) = get_or_create_session sid p svc1
      in M\<lparr>sm_initiate := Some p, sm_service := put_session p (update_initiator_flag True ss) svc2\<rparr>)"

text \<open>\<open>running\<close> says which sessions have a running task.\<close>

definition clear_idle_sessions :: "(peer_id \<Rightarrow> bool) \<Rightarrow> peer_id list \<Rightarrow> 'm route_service \<Rightarrow> 'm route_service" where
  "clear_idle_sessions running ps svc = fold (\<lambda>p v. case get_session p v of
     None \<Rightarrow> v
   | Some ss \<Rightarrow>
       if (ss_dst_is_initiator ss \<or> ss_we_are_initiator ss \<or> ss_need_sync_initiator_info ss) \<and> running p then v
       else remove_session p v) ps svc"

text \<open>One round of the loop; the result says whether a synchronisation is triggered.\<close>

definition maintain_sessions ::
  "u64 \<Rightarrow> interface_peer_snapshot \<Rightarrow> (peer_id \<Rightarrow> bool) \<Rightarrow> 'm session_manager \<Rightarrow> bool \<times> 'm session_manager" where
  "maintain_sessions sid snap running M =
     (let session_peers = sorted_list_of_set (list_session_peer_set (sm_service M));
          M1 = stop_gone_sessions snap session_peers M
      in case new_initiator_dst (sm_service M1) (initiator_candidates snap (sm_service M1)) of
           None \<Rightarrow> (False, M1)
         | Some p \<Rightarrow>
             let change = (Some p \<noteq> sm_initiate M1);
                 M2 = (if change then change_initiator sid p M1 else M1)
             in (change, M2\<lparr>sm_service := clear_idle_sessions running session_peers (sm_service M2)\<rparr>))"

section \<open>Operations that leave the sessions alone\<close>

definition infos_stamped :: "'m synced_route_info \<Rightarrow> bool" where
  "infos_stamped s \<longleftrightarrow> (\<forall>p i. st_get (si_peer_infos s) p = Some i \<longrightarrow> ri_last_update i \<noteq> None)"

definition database_ok :: "'m route_service \<Rightarrow> bool" where
  "database_ok svc \<longleftrightarrow> synced_inv (rs_synced svc) \<and> infos_stamped (rs_synced svc)"

definition calm :: "'m route_service \<Rightarrow> 'm route_service \<Rightarrow> bool" where
  "calm svc svc' \<longleftrightarrow> rs_sessions svc' = rs_sessions svc \<and> rs_my_peer_id svc' = rs_my_peer_id svc \<and> (database_ok svc \<longrightarrow> database_ok svc')"

lemma calm_refl [simp]: "calm svc svc"
  by (simp add: calm_def)

lemma calm_trans: "calm svc svc' \<Longrightarrow> calm svc' svc'' \<Longrightarrow> calm svc svc''"
  by (simp add: calm_def)

lemma calm_synced:
  "rs_sessions svc' = rs_sessions svc \<Longrightarrow> rs_my_peer_id svc' = rs_my_peer_id svc \<Longrightarrow>
   (synced_inv (rs_synced svc) \<Longrightarrow> synced_inv (rs_synced svc')) \<Longrightarrow>
   (synced_inv (rs_synced svc) \<Longrightarrow> infos_stamped (rs_synced svc) \<Longrightarrow> infos_stamped (rs_synced svc')) \<Longrightarrow> calm svc svc'"
  by (simp add: calm_def database_ok_def)

lemma calm_same:
  "rs_sessions svc' = rs_sessions svc \<Longrightarrow> rs_my_peer_id svc' = rs_my_peer_id svc \<Longrightarrow> rs_synced svc' = rs_synced svc \<Longrightarrow> calm svc svc'"
  by (simp add: calm_def database_ok_def)

lemma stamped_sub: "sub_store (si_peer_infos s') (si_peer_infos s) \<Longrightarrow> infos_stamped s \<Longrightarrow> infos_stamped s'"
  unfolding infos_stamped_def sub_store_def by blast

lemma stamped_placeholders: "adds_placeholders s s' \<Longrightarrow> infos_stamped s \<Longrightarrow> infos_stamped s'"
  unfolding infos_stamped_def adds_placeholders_def by blast

lemma stamped_infos:
  "update_peer_infos R now my rid dst infos raws s = Some (r, s') \<Longrightarrow> infos_stamped s \<Longrightarrow> infos_stamped s'"
  using update_peer_infos_changes [of R now my rid dst infos raws s r s'] unfolding infos_stamped_def by fastforce

lemma stamped_my_info: "infos_stamped s \<Longrightarrow> infos_stamped (snd (update_my_peer_info now my new s))"
  by (auto simp: infos_stamped_def update_my_peer_info_def update_my_group_trusts_def Let_def split_def store_simps split: option.splits if_splits)

lemma my_conn_adds: "adds_placeholders s (snd (update_my_conn_info ver now my c s))"
  using fill_adds [of s ver now c] by (simp add: update_my_conn_info_def Let_def adds_placeholders_def)

lemma my_foreign_infos: "update_my_foreign_network now my nets s = Some (u, s') \<Longrightarrow> si_peer_infos s' = si_peer_infos s"
  by (auto simp: update_my_foreign_network_def Let_def split: bind_splits if_splits)

lemma foreign_infos: "si_peer_infos (snd (update_foreign_network now items s)) = si_peer_infos s"
proof -
  have "si_peer_infos (snd (fold (update_foreign_one now) items acc)) = si_peer_infos (snd acc)" for acc :: "bool \<times> 'a synced_route_info"
    by (induction items arbitrary: acc) (auto simp: update_foreign_one_def Let_def split_def split: option.split)
  then show ?thesis by (simp add: update_foreign_network_def)
qed

lemma update_route_table_calm: "update_route_table E svc = Some svc' \<Longrightarrow> calm svc svc'"
  by (auto simp: update_route_table_def calm_def database_ok_def split: bind_splits)

lemma update_tables_calm: "update_route_table_and_cached_local_conn_bitmap E now svc = Some svc' \<Longrightarrow> calm svc svc'"
  by (auto simp: update_route_table_and_cached_local_conn_bitmap_def Let_def split_def calm_def database_ok_def
      dest!: update_route_table_calm split: bind_splits)

lemma owner_map_calm: "calm svc (update_foreign_network_owner_map svc)"
proof -
  have fold_calm: "calm v (fold f xs v)" if "\<And>x v. calm v (f x v)" for f :: "'b \<Rightarrow> 'a route_service \<Rightarrow> 'a route_service" and xs v
  proof (induction xs arbitrary: v)
    case (Cons x xs)
    show ?case using calm_trans [OF that Cons.IH] by simp
  qed simp
  have "calm (svc\<lparr>rs_foreign_my_peer_id_map := [], rs_foreign_owner_map := []\<rparr>) (update_foreign_network_owner_map svc)"
    unfolding update_foreign_network_owner_map_def by (rule fold_calm) (auto simp: Let_def split_def calm_def database_ok_def)
  then show ?thesis by (simp add: calm_def database_ok_def)
qed

lemma rebuild_all_calm: "rebuild_all E now svc = Some svc' \<Longrightarrow> calm svc svc'"
  using calm_trans [OF update_tables_calm owner_map_calm] by (auto simp: rebuild_all_def)

lemma refresh_topology_calm:
  assumes a: "refresh_credential_trusts_with_current_topology E now svc = Some (u, svc')"
  shows "calm svc svc'"
proof (rule refresh_topology_cases [OF a])
  fix svc1 active keys ch s svc2
  assume 1: "update_route_table_and_cached_local_conn_bitmap E now svc = Some svc1"
    and v: "verify_and_update_credential_trusts_protecting (se_crypto E) (se_cred_lib E) (se_reflect E) (unix_seconds now) (se_network_secret E)
       active (Some (rs_my_peer_id svc1)) (rs_synced svc1) = ((u, keys, ch), s)"
    and s2: "svc2 = svc1\<lparr>rs_synced := s, rs_trusted_keys := update_trusted_keys (se_network_name E) keys (rs_trusted_keys svc1)\<rparr>"
    and e: "svc' = svc2 \<or> update_route_table_and_cached_local_conn_bitmap E now svc2 = Some svc'"
  have 2: "calm svc1 svc2" unfolding s2
    by (rule calm_synced) (use refresh_inv [OF v] refresh_shrinks [OF v] stamped_sub in auto)
  have 3: "calm svc2 svc'" using e update_tables_calm by auto
  from calm_trans [OF update_tables_calm [OF 1] calm_trans [OF 2 3]] show ?thesis .
qed

lemma accept_infos_calm:
  assumes a: "accept_infos E now from_peer cred infos raws ss svc = Some (r, ss', svc')"
  shows "calm svc svc' \<and> ss_we_are_initiator ss' = ss_we_are_initiator ss"
proof (cases infos)
  case None
  with a show ?thesis by (simp add: accept_infos_def)
next
  case (Some items)
  with a obtain pi rpi where sel: "select_infos E from_peer cred items raws = Some (pi, rpi)"
    by (auto simp: accept_infos_def split: bind_splits)
  show ?thesis
  proof (cases "pi = []")
    case True
    with a Some sel show ?thesis by (simp add: accept_infos_def)
  next
    case False
    obtain r1 s1 where u: "update_peer_infos (se_reflect E) now (rs_my_peer_id svc) (rs_my_peer_route_id svc) from_peer pi rpi (rs_synced svc) = Some (r1, s1)"
        and s': "svc' = svc\<lparr>rs_synced := s1\<rparr> \<or> svc' = svc\<lparr>rs_synced := verify_and_update_group_trusts (se_crypto E) pi (se_acl_groups E) (se_network_secret E = None) s1\<rparr>"
        and ss': "ss' = ss \<or> ss' = update_dst_saved_peer_info_version now pi from_peer ss"
      using a sel False Some by (auto simp: accept_infos_def split: bind_splits sum.splits)
    have "calm svc svc'" using s' update_peer_infos_inv [OF u] stamped_infos [OF u] group_trusts_inv
      by (auto intro!: calm_synced simp: infos_stamped_def)
    with ss' show ?thesis by (auto simp: update_dst_saved_peer_info_version_def)
  qed
qed

lemma saved_conn_keeps_initiator [simp]:
  "ss_we_are_initiator (update_dst_saved_conn_info_version now c p ss) = ss_we_are_initiator ss"
  by (cases c) (simp_all add: update_dst_saved_conn_bitmap_version_def update_dst_saved_conn_peer_list_version_def)

lemma saved_foreign_keeps_initiator:
  "update_dst_saved_foreign_network_version now items p ss = Some ss' \<Longrightarrow> ss_we_are_initiator ss' = ss_we_are_initiator ss"
  by (auto simp: update_dst_saved_foreign_network_version_def split: bind_splits)

lemma accept_conn_info_calm:
  assumes a: "accept_conn_info E now from_peer cred conn ss svc = Some (r, ss', svc')"
  shows "calm svc svc' \<and> ss_we_are_initiator ss' = ss_we_are_initiator ss"
proof (cases "conn \<noteq> None \<and> (case cred of None \<Rightarrow> True | Some tc \<Rightarrow> tc_allow_relay tc)")
  case True
  then obtain c where c: "conn = Some c" by blast
  with True a obtain s where u: "update_conn_info (se_version E) now c (rs_synced svc) = Some s"
      and "svc' = svc\<lparr>rs_synced := s\<rparr>" "ss' = update_dst_saved_conn_info_version now c from_peer ss"
    by (auto simp: accept_conn_info_def split: bind_split_asm)
  then show ?thesis using update_conn_info_inv [OF u] stamped_placeholders [OF update_conn_info_adds [OF u]]
    by (simp add: calm_synced)
next
  case False
  with a show ?thesis by (cases conn) (simp_all add: accept_conn_info_def)
qed

lemma accept_foreign_calm:
  assumes "accept_foreign now from_peer cred foreign ss svc = Some (r, ss', svc')"
  shows "calm svc svc' \<and> ss_we_are_initiator ss' = ss_we_are_initiator ss"
proof (cases "svc' = svc \<and> ss' = ss")
  case False
  with assms obtain items where "svc' = svc\<lparr>rs_synced := snd (update_foreign_network now items (rs_synced svc))\<rparr>"
      "update_dst_saved_foreign_network_version now items from_peer ss = Some ss'"
    by (auto simp: accept_foreign_def Let_def split_def split: option.splits if_splits)
  then show ?thesis using update_foreign_inv [of "rs_synced svc" now items] foreign_infos [of now items "rs_synced svc"] saved_foreign_keeps_initiator
    by (auto intro!: calm_synced simp: infos_stamped_def)
qed simp

lemma update_dst_session_keeps_initiator [simp]: "ss_we_are_initiator (update_dst_session_id sid ss) = ss_we_are_initiator ss"
  by (simp add: update_dst_session_id_def)

text \<open>A handled request stores the session of its sender and is otherwise calm.\<close>

lemma do_sync_sessions:
  assumes a: "do_sync_route_info E now sid from_peer from_sid init infos raws conn foreign svc = Some (out, svc')"
    and g: "get_or_create_session sid from_peer svc = (ss0, svc0)"
  shows "svc' = svc0 \<or> (\<exists>svc1 ss1. svc' = put_session from_peer ss1 svc1 \<and> calm svc0 svc1 \<and> ss_we_are_initiator ss1 = ss_we_are_initiator ss0)"
proof (cases "svc' = svc0")
  case False
  define isc where "isc \<longleftrightarrow> (case se_identity E from_peer of Some t \<Rightarrow> t | None \<Rightarrow> Admin) = Credential"
  define cred where "cred = (if isc then Option.bind (se_pubkey E from_peer) (\<lambda>pk. get_credential_info_by_pubkey pk (rs_synced svc0)) else None)"
  define ss1 where "ss1 = update_dst_session_id from_sid (ss0\<lparr>ss_rpc_rx_count := ss_rpc_rx_count ss0 + 1\<rparr>)"
  note a0 = a [unfolded do_sync_route_info_def g Let_def prod.case isc_def [symmetric], folded cred_def, folded ss1_def]
  have n: "\<not> (isc \<and> cred = None)"
  proof
    assume "isc \<and> cred = None"
    with a0 have "svc' = svc0" by simp
    with False show False by simp
  qed
  note a1 = a0 [unfolded if_not_P [OF n]]
  obtain r ss2 svc2 where i: "accept_infos E now from_peer cred infos raws ss1 svc0 = Some (r, ss2, svc2)"
    using a1 by (auto split: bind_split_asm)
  note c2 = accept_infos_calm [OF i]
  have w1: "ss_we_are_initiator ss1 = ss_we_are_initiator ss0" by (simp add: ss1_def)
  show ?thesis
  proof (cases r)
    case (Inl e)
    with a1 i have "svc' = put_session from_peer ss2 svc2" by auto
    with c2 w1 show ?thesis by blast
  next
    case (Inr b)
    note a2 = a1 [unfolded i bind.bind_lunit prod.case Inr sum.case]
    obtain cb ss3 svc3 where k: "accept_conn_info E now from_peer cred conn ss2 svc2 = Some (cb, ss3, svc3)"
      using a2 by (auto split: bind_split_asm)
    note a3 = a2 [unfolded k bind.bind_lunit prod.case]
    obtain u svc4 where f: "(if b \<or> cb then refresh_credential_trusts_with_current_topology E now svc3 else Some ({}, svc3)) = Some (u, svc4)"
      using a3 by (auto split: bind_split_asm)
    note a4 = a3 [unfolded f bind.bind_lunit prod.case]
    obtain fc ss5 svc5 where h: "accept_foreign now from_peer isc foreign ss3 svc4 = Some (fc, ss5, svc5)"
      using a4 by (auto split: bind_split_asm)
    note a5 = a4 [unfolded h bind.bind_lunit prod.case, folded rebuild_all_def]
    obtain svc6 where t: "(if b \<or> cb \<or> fc then rebuild_all E now svc5 else Some svc5) = Some svc6"
      using a5 by (auto split: bind_split_asm)
    note a6 = a5 [unfolded t bind.bind_lunit]
    have c4: "calm svc3 svc4" using f refresh_topology_calm by (auto split: if_splits)
    have c6: "calm svc5 svc6" using t rebuild_all_calm by (auto split: if_splits)
    have c: "calm svc0 svc6"
      using c2 accept_conn_info_calm [OF k] c4 accept_foreign_calm [OF h] c6 calm_trans by meson
    have "svc' = put_session from_peer (ss5\<lparr>ss_dst_is_initiator := init\<rparr>) svc6" using a6 by simp
    moreover have "ss_we_are_initiator (ss5\<lparr>ss_dst_is_initiator := init\<rparr>) = ss_we_are_initiator ss0"
      using c2 accept_conn_info_calm [OF k] accept_foreign_calm [OF h] w1 by simp
    ultimately show ?thesis using c by blast
  qed
qed simp

lemma maybe_rebuild_calm: "(if b then rebuild_all E now svc else Some svc) = Some svc' \<Longrightarrow> calm svc svc'"
  using rebuild_all_calm by (cases b) auto

lemma maybe_refresh_calm:
  "(if b then refresh_credential_trusts_with_current_topology E now svc else Some ({}, svc)) = Some (u, svc') \<Longrightarrow> calm svc svc'"
  using refresh_topology_calm by (cases b) auto

lemma update_my_infos_calm:
  assumes a: "update_my_infos E now new requery snap nets svc = Some (b, u, svc')" and new: "ri_peer_id new = rs_my_peer_id svc"
    and fin: "finite (sn_peers snap)"
  shows "calm svc svc'"
proof -
  define svc0 where "svc0 = svc\<lparr>rs_synced := snd (update_my_peer_info now (rs_my_peer_id svc) new (rs_synced svc))\<rparr>"
  define svc1 where "svc1 = snd (service_update_my_conn_info E now requery snap svc0)"
  have 0: "calm svc svc0" unfolding svc0_def
    by (rule calm_synced) (simp_all add: update_my_peer_info_inv [OF _ new] stamped_my_info)
  have 1: "calm svc0 svc1" unfolding svc1_def service_update_my_conn_info_def mark_interface_peers_dirty_def Let_def split_def
    by (auto intro!: calm_synced update_my_conn_inv [OF _ fin] stamped_placeholders [OF my_conn_adds])
  note a0 = a [unfolded update_my_infos_def Let_def split_def, folded svc0_def, folded svc1_def]
  obtain f svc2 where g: "service_update_my_foreign_network now nets svc1 = Some (f, svc2)"
    using a0 by (auto split: bind_split_asm)
  have 2: "calm svc1 svc2" using g
    by (auto simp: service_update_my_foreign_network_def infos_stamped_def dest: my_foreign_infos update_my_foreign_inv intro!: calm_synced split: if_splits)
  note a1 = a0 [unfolded g bind.bind_lunit fst_conv snd_conv]
  define iu where "iu = fst (update_my_peer_info now (rs_my_peer_id svc) new (rs_synced svc))"
  define cu where "cu = fst (service_update_my_conn_info E now requery snap svc0)"
  obtain r where r: "(if iu \<or> cu then refresh_credential_trusts_with_current_topology E now svc2 else Some ({}, svc2)) = Some r"
      "(if iu \<or> cu \<or> fst r \<noteq> {} then rebuild_all E now (snd r) else Some (snd r)) \<bind>
         (\<lambda>svc4. Some (iu \<or> cu \<or> f, fst r, if iu then svc4\<lparr>rs_peer_info_last_update := now\<rparr> else svc4)) = Some (b, u, svc')"
    using a1 unfolding iu_def [symmetric] cu_def [symmetric] bind_eq_Some_conv [of "if iu \<or> cu then _ else _"] by blast
  then obtain svc4 where 4: "(if iu \<or> cu \<or> fst r \<noteq> {} then rebuild_all E now (snd r) else Some (snd r)) = Some svc4"
      and e: "svc' = svc4 \<or> svc' = svc4\<lparr>rs_peer_info_last_update := now\<rparr>"
    unfolding bind_eq_Some_conv by (auto split: if_splits)
  have 3: "calm svc2 (snd r)" using maybe_refresh_calm r(1) by (metis prod.collapse)
  have "calm svc4 svc'" using e by (auto simp: calm_def database_ok_def)
  with 0 1 2 3 maybe_rebuild_calm [OF 4] calm_trans show ?thesis by meson
qed

lemma refresh_acl_groups_calm:
  assumes a: "refresh_acl_groups E now new svc = Some (b, u, svc')" and new: "ri_peer_id new = rs_my_peer_id svc"
  shows "calm svc svc'"
proof -
  define s where "s = snd (update_my_peer_info now (rs_my_peer_id svc) new (rs_synced svc))"
  define svc0 where "svc0 = svc\<lparr>rs_synced := verify_and_update_group_trusts (se_crypto E) (map snd (si_peer_infos s)) (se_acl_groups E) (se_network_secret E = None) s\<rparr>"
  have 0: "calm svc svc0" unfolding svc0_def s_def
    by (rule calm_synced) (simp_all add: group_trusts_inv update_my_peer_info_inv [OF _ new] stamped_my_info [unfolded infos_stamped_def] infos_stamped_def)
  note a0 = a [unfolded refresh_acl_groups_def Let_def split_def, folded s_def, folded svc0_def]
  obtain u1 svc1 where g: "refresh_credential_trusts_with_current_topology E now svc0 = Some (u1, svc1)"
    using a0 by (auto split: bind_split_asm)
  note a1 = a0 [unfolded g bind.bind_lunit fst_conv snd_conv]
  then obtain svc2 where "(if fst (update_my_peer_info now (rs_my_peer_id svc) new (rs_synced svc)) \<or> u1 \<noteq> {} then rebuild_all E now svc1 else Some svc1) = Some svc2"
      and e: "svc' = svc2 \<or> svc' = svc2\<lparr>rs_peer_info_last_update := now\<rparr>"
    unfolding bind_eq_Some_conv by (auto split: if_splits)
  from maybe_rebuild_calm [OF this(1)] e have "calm svc1 svc2" "svc' = svc2 \<or> svc' = svc2\<lparr>rs_peer_info_last_update := now\<rparr>" .
  then have "calm svc1 svc'" by (auto simp: calm_def database_ok_def)
  with 0 refresh_topology_calm [OF g] calm_trans show ?thesis by meson
qed

lemma clear_expired_calm:
  assumes a: "clear_expired_peer E now svc = Some (u, svc')"
  shows "calm svc svc'"
proof -
  obtain gone where e: "expired_infos now (rs_route_table svc) (si_peer_infos (rs_synced svc)) = Some gone"
    using a by (auto simp: clear_expired_peer_def split: bind_split_asm)
  define s where "s = remove_peers (set gone) (rs_synced svc)"
  define svc0 where "svc0 = svc\<lparr>rs_synced := s\<lparr>si_foreign_network := st_retain (\<lambda>_ e. \<not> foreign_expired now e) (si_foreign_network s)\<rparr>\<rparr>"
  have "sub_store (si_peer_infos s) (si_peer_infos (rs_synced svc))"
    by (simp add: s_def remove_peers_def Let_def sub_store_def remove_all_get)
  then have st: "infos_stamped (rs_synced svc) \<Longrightarrow> infos_stamped s" by (rule stamped_sub)
  have inv: "synced_inv (rs_synced svc) \<Longrightarrow> synced_inv s" unfolding s_def by (rule remove_peers_inv)
  then have wf: "synced_inv (rs_synced svc) \<Longrightarrow> st_wf (si_foreign_network s)" by (simp add: synced_inv_defs)
  have 0: "calm svc svc0" unfolding svc0_def
    by (rule calm_synced) (use st in \<open>simp_all add: foreign_network_inv inv wf store_simps infos_stamped_def\<close>)
  obtain svc1 where g: "refresh_credential_trusts_with_current_topology E now svc0 = Some (u, svc1)"
      and s': "svc' = svc1\<lparr>rs_route_table := clean_expired_route_info (rs_route_table svc1),
         rs_route_table_with_cost := clean_expired_route_info (rs_route_table_with_cost svc1)\<rparr>"
    using a e unfolding clear_expired_peer_def svc0_def s_def Let_def by (auto split: bind_split_asm)
  have "calm svc1 svc'" by (simp add: s' calm_def database_ok_def)
  with 0 refresh_topology_calm [OF g] calm_trans show ?thesis by meson
qed

lemma cost_updated_calm: "cost_calculator_updated E svc = Some svc' \<Longrightarrow> calm svc svc'"
  using calm_trans [of svc "svc\<lparr>rs_synced := (rs_synced svc)\<lparr>si_version := si_version (rs_synced svc) + 1\<rparr>\<rparr>" svc'] update_route_table_calm
  by (fastforce simp: cost_calculator_updated_def calm_def database_ok_def infos_stamped_def)

section \<open>At most one session we initiate\<close>

definition initiator_is :: "peer_id option \<Rightarrow> 'm route_service \<Rightarrow> bool" where
  "initiator_is cur svc \<longleftrightarrow> st_wf (rs_sessions svc)
     \<and> (\<forall>p ss. get_session p svc = Some ss \<and> ss_we_are_initiator ss \<longrightarrow> cur = Some p)"

lemma calm_initiator: "calm svc svc' \<Longrightarrow> initiator_is cur svc' = initiator_is cur svc"
  by (simp add: calm_def initiator_is_def get_session_def)

lemma remove_session_initiator: "initiator_is cur svc \<Longrightarrow> initiator_is cur (remove_session p svc)"
  by (auto simp: initiator_is_def remove_session_def get_session_def store_simps split: if_splits)

lemma remove_session_gone:
  "initiator_is cur svc \<Longrightarrow> initiator_is (if cur = Some p then None else cur) (remove_session p svc)"
  by (auto simp: initiator_is_def remove_session_def get_session_def store_simps split: if_splits)

lemma put_session_initiator:
  "initiator_is cur svc \<Longrightarrow> (ss_we_are_initiator ss \<Longrightarrow> cur = Some p) \<Longrightarrow> initiator_is cur (put_session p ss svc)"
  by (auto simp: initiator_is_def put_session_def get_session_def store_simps split: if_splits)

lemma put_same_initiator:
  "initiator_is cur svc \<Longrightarrow> get_session p svc = Some ss \<Longrightarrow> ss_we_are_initiator ss' = ss_we_are_initiator ss \<Longrightarrow>
   initiator_is cur (put_session p ss' svc)"
  by (rule put_session_initiator) (auto simp: initiator_is_def)

lemma get_or_create_initiator:
  assumes "get_or_create_session sid p svc = (ss, svc')" and "initiator_is cur svc"
  shows "initiator_is cur svc'" and "ss_we_are_initiator ss \<Longrightarrow> cur = Some p" and "calm svc svc' \<or> rs_synced svc' = rs_synced svc"
  using assms by (auto simp: get_or_create_session_def Let_def initiator_is_def get_session_def sync_session_new_def store_simps split: option.splits if_splits)

lemma stop_gone_initiator:
  "initiator_is (sm_initiate M) (sm_service M) \<Longrightarrow>
   initiator_is (sm_initiate (stop_gone_sessions snap ps M)) (sm_service (stop_gone_sessions snap ps M))
   \<and> rs_synced (sm_service (stop_gone_sessions snap ps M)) = rs_synced (sm_service M)"
  unfolding stop_gone_sessions_def
proof (induction ps arbitrary: M)
  case (Cons p ps)
  from Cons.prems remove_session_gone [of "sm_initiate M" "sm_service M" p] Cons.IH show ?case
    by (simp add: remove_session_def)
qed simp

lemma clear_idle_initiator:
  "initiator_is cur svc \<Longrightarrow> initiator_is cur (clear_idle_sessions running ps svc) \<and> rs_synced (clear_idle_sessions running ps svc) = rs_synced svc"
  unfolding clear_idle_sessions_def
proof (induction ps arbitrary: svc)
  case (Cons p ps)
  from Cons.prems remove_session_initiator [of cur svc p] Cons.IH show ?case
    by (simp add: remove_session_def split: option.split)
qed simp

lemma change_initiator_initiator:
  assumes "initiator_is (sm_initiate M) (sm_service M)"
  shows "initiator_is (Some p) (sm_service (change_initiator sid p M)) \<and> sm_initiate (change_initiator sid p M) = Some p
    \<and> rs_synced (sm_service (change_initiator sid p M)) = rs_synced (sm_service M)"
proof -
  define svc1 where "svc1 = (case sm_initiate M of Some q \<Rightarrow> flag_session False q (sm_service M) | None \<Rightarrow> sm_service M)"
  have 1: "initiator_is None svc1 \<and> rs_synced svc1 = rs_synced (sm_service M)"
    using assms by (auto simp: svc1_def initiator_is_def flag_session_def put_session_def get_session_def update_initiator_flag_def store_simps
        split: option.splits if_splits)
  obtain ss svc2 where g: "get_or_create_session sid p svc1 = (ss, svc2)" by fastforce
  have 2: "initiator_is None svc2" using get_or_create_initiator(1) [OF g] 1 by blast
  have "initiator_is (Some p) svc2" using 2 by (auto simp: initiator_is_def)
  then have "initiator_is (Some p) (put_session p (update_initiator_flag True ss) svc2)" by (rule put_session_initiator) simp
  then show ?thesis using g 1 get_or_create_synced [OF g] by (simp add: change_initiator_def Let_def svc1_def [symmetric] put_session_def)
qed

lemma maintain_sessions_initiator:
  assumes i: "initiator_is (sm_initiate M) (sm_service M)" and m: "maintain_sessions sid snap running M = (b, M')"
  shows "initiator_is (sm_initiate M') (sm_service M') \<and> rs_synced (sm_service M') = rs_synced (sm_service M)"
proof -
  define ps where "ps = sorted_list_of_set (list_session_peer_set (sm_service M))"
  define M1 where "M1 = stop_gone_sessions snap ps M"
  have 1: "initiator_is (sm_initiate M1) (sm_service M1)" "rs_synced (sm_service M1) = rs_synced (sm_service M)"
    using stop_gone_initiator [OF i] by (simp_all add: M1_def)
  note m0 = m [unfolded maintain_sessions_def Let_def, folded ps_def, folded M1_def]
  show ?thesis
  proof (cases "new_initiator_dst (sm_service M1) (initiator_candidates snap (sm_service M1))")
    case None
    with m0 1 show ?thesis by simp
  next
    case (Some p)
    define M2 where "M2 = (if Some p \<noteq> sm_initiate M1 then change_initiator sid p M1 else M1)"
    have 2: "initiator_is (sm_initiate M2) (sm_service M2)" "rs_synced (sm_service M2) = rs_synced (sm_service M)"
      using change_initiator_initiator [OF 1(1), of p sid] 1 by (auto simp: M2_def)
    have "M' = M2\<lparr>sm_service := clear_idle_sessions running ps (sm_service M2)\<rparr>" using m0 Some by (auto simp: M2_def)
    with clear_idle_initiator [OF 2(1), of running ps] 2(2) show ?thesis by simp
  qed
qed

section \<open>The transition system of the service\<close>

definition session_manager_new :: "peer_id \<Rightarrow> u64 \<Rightarrow> stime \<Rightarrow> network_trusted_keys \<Rightarrow> 'm session_manager" where
  "session_manager_new my_peer route_id now keys = \<lparr>sm_service = route_service_new my_peer route_id now keys, sm_initiate = None\<rparr>"

text \<open>
  A step is a handled request, one round of a background task, or one half of a synchronisation with a
  peer we have a session with; the request that is answered may belong to an earlier session with the peer.
\<close>

inductive service_step :: "'m service_env \<Rightarrow> 'm session_manager \<Rightarrow> 'm session_manager \<Rightarrow> bool"
  for E where
  handle: "do_sync_route_info E now sid from_peer from_sid init infos raws conn foreign (sm_service M) = Some (out, svc') \<Longrightarrow>
    service_step E M (M\<lparr>sm_service := svc'\<rparr>)"
| maintain: "maintain_sessions sid snap running M = (b, M') \<Longrightarrow> service_step E M M'"
| my_infos: "ri_peer_id new = rs_my_peer_id (sm_service M) \<Longrightarrow> finite (sn_peers snap) \<Longrightarrow>
    update_my_infos E now new requery snap nets (sm_service M) = Some (b, u, svc') \<Longrightarrow> service_step E M (M\<lparr>sm_service := svc'\<rparr>)"
| acl_groups: "ri_peer_id new = rs_my_peer_id (sm_service M) \<Longrightarrow>
    refresh_acl_groups E now new (sm_service M) = Some (b, u, svc') \<Longrightarrow> service_step E M (M\<lparr>sm_service := svc'\<rparr>)"
| expire: "clear_expired_peer E now (sm_service M) = Some (u, svc') \<Longrightarrow> service_step E M (M\<lparr>sm_service := svc'\<rparr>)"
| cost: "cost_calculator_updated E (sm_service M) = Some svc' \<Longrightarrow> service_step E M (M\<lparr>sm_service := svc'\<rparr>)"
| dirty: "service_step E M (M\<lparr>sm_service := mark_interface_peers_dirty (sm_service M)\<rparr>)"
| prepare: "get_session p (sm_service M) = Some ss \<Longrightarrow>
    sync_prepare now force ri rc (rs_synced (sm_service M)) (rs_route_table (sm_service M)) (rs_cached_conn_map (sm_service M)) p b ss = (r, ss') \<Longrightarrow>
    service_step E M (M\<lparr>sm_service := put_session p ss' (sm_service M)\<rparr>)"
| finish: "get_session p (sm_service M) = Some ss \<Longrightarrow> sync_finish now t0 pub req p ans ss = Some ss' \<Longrightarrow>
    service_step E M (M\<lparr>sm_service := put_session p ss' (sm_service M)\<rparr>)"
| clean: "get_session p (sm_service M) = Some ss \<Longrightarrow>
    service_step E M (M\<lparr>sm_service := put_session p (clean_dst_saved_map now ss) (sm_service M)\<rparr>)"

definition manager_inv :: "'m session_manager \<Rightarrow> bool" where
  "manager_inv M \<longleftrightarrow> database_ok (sm_service M) \<and> initiator_is (sm_initiate M) (sm_service M)"

lemma manager_new_inv: "manager_inv (session_manager_new my_peer route_id now keys)"
  using synced_new_inv by (simp add: manager_inv_def session_manager_new_def route_service_new_def database_ok_def infos_stamped_def initiator_is_def
      get_session_def synced_new_def store_simps st_wf_def)

lemma calm_manager_inv: "calm (sm_service M) svc' \<Longrightarrow> manager_inv M \<Longrightarrow> manager_inv (M\<lparr>sm_service := svc'\<rparr>)"
  by (simp add: manager_inv_def calm_initiator) (simp add: calm_def)

lemma put_manager_inv:
  "manager_inv M \<Longrightarrow> get_session p (sm_service M) = Some ss \<Longrightarrow> ss_we_are_initiator ss' = ss_we_are_initiator ss \<Longrightarrow>
   manager_inv (M\<lparr>sm_service := put_session p ss' (sm_service M)\<rparr>)"
  using put_same_initiator [of "sm_initiate M" "sm_service M" p ss ss'] by (simp add: manager_inv_def database_ok_def)

lemma handle_inv:
  assumes inv: "manager_inv M"
    and a: "do_sync_route_info E now sid from_peer from_sid init infos raws conn foreign (sm_service M) = Some (out, svc')"
  shows "manager_inv (M\<lparr>sm_service := svc'\<rparr>)"
proof -
  obtain ss0 svc0 where g: "get_or_create_session sid from_peer (sm_service M) = (ss0, svc0)" by fastforce
  have i: "initiator_is (sm_initiate M) svc0" "ss_we_are_initiator ss0 \<Longrightarrow> sm_initiate M = Some from_peer"
    using get_or_create_initiator [OF g] inv by (auto simp: manager_inv_def)
  have d: "database_ok svc0" using inv get_or_create_synced [OF g] by (simp add: manager_inv_def database_ok_def)
  from do_sync_sessions [OF a g] show ?thesis
  proof (elim disjE exE conjE)
    fix svc1 ss1
    assume s': "svc' = put_session from_peer ss1 svc1" and c: "calm svc0 svc1" and w: "ss_we_are_initiator ss1 = ss_we_are_initiator ss0"
    have "initiator_is (sm_initiate M) svc'" unfolding s' using i w calm_initiator [OF c] by (intro put_session_initiator) auto
    moreover have "database_ok svc'" using d c by (simp add: s' calm_def database_ok_def)
    ultimately show ?thesis by (simp add: manager_inv_def)
  qed (use i d in \<open>simp add: manager_inv_def\<close>)
qed

lemma build_parts_keep_initiator [simp]:
  "ss_we_are_initiator (snd (build_route_info now ri s t ss)) = ss_we_are_initiator ss"
  "ss_we_are_initiator (snd (build_conn_info now force rc s t cached dst ss)) = ss_we_are_initiator ss"
  by (simp_all add: build_route_info_def build_conn_info_def build_conn_peer_list_def Let_def split_def split: option.split)

lemma check_foreign_keeps_initiator [simp]:
  "ss_we_are_initiator (snd (check_saved_foreign_network_version_update_to_date now k v ss)) = ss_we_are_initiator ss"
  by (simp add: check_saved_foreign_network_version_update_to_date_def Let_def split_def)

lemma scan_foreign_keeps_initiator [simp]: "ss_we_are_initiator (fst (scan_foreign now es acc)) = ss_we_are_initiator (fst acc)"
  by (induction now es acc rule: scan_foreign.induct) (simp_all add: Let_def split_def)

lemma prepare_keeps_initiator: "sync_prepare now force ri rc s t cached p b ss = (r, ss') \<Longrightarrow> ss_we_are_initiator ss' = ss_we_are_initiator ss"
proof -
  assume a: "sync_prepare now force ri rc s t cached p b ss = (r, ss')"
  have "ss_we_are_initiator (snd (build_sync_request now force ri rc s t cached p ss)) = ss_we_are_initiator ss"
    by (simp add: build_sync_request_def build_foreign_network_info_def Let_def split_def)
  then show ?thesis using a by (auto simp: sync_prepare_def Let_def split_def split: if_splits)
qed

lemma saved_infos_keeps_initiator [simp]:
  "ss_we_are_initiator (update_dst_saved_peer_info_version now is p ss) = ss_we_are_initiator ss"
  "ss_we_are_initiator (update_last_sync_succ_timestamp t ss) = ss_we_are_initiator ss"
  by (simp_all add: update_dst_saved_peer_info_version_def update_last_sync_succ_timestamp_def)

lemma finish_keeps_initiator: "sync_finish now t0 pub req p ans ss = Some ss' \<Longrightarrow> ss_we_are_initiator ss' = ss_we_are_initiator ss"
proof (cases ans)
  case (Sync_Accepted b sid)
  assume a: "sync_finish now t0 pub req p ans ss = Some ss'"
  define ss3 where "ss3 = (let ss1 = update_dst_session_id sid (ss\<lparr>ss_rpc_tx_count := ss_rpc_tx_count ss + 1, ss_dst_is_initiator := b\<rparr>);
          ss2 = (case sr_peer_infos req of Some is' \<Rightarrow> update_dst_saved_peer_info_version now is' p ss1 | None \<Rightarrow> ss1)
      in (case sr_conn_info req of Some c \<Rightarrow> update_dst_saved_conn_info_version now c p ss2 | None \<Rightarrow> ss2))"
  have w: "ss_we_are_initiator ss3 = ss_we_are_initiator ss" by (simp add: ss3_def Let_def split: option.split)
  have "map_option (update_last_sync_succ_timestamp t0)
      (case sr_foreign_network req of Some f \<Rightarrow> update_dst_saved_foreign_network_version now f p ss3 | None \<Rightarrow> Some ss3) = Some ss'"
    using a unfolding Sync_Accepted sync_finish.simps ss3_def Let_def .
  then show ?thesis using w by (cases "sr_foreign_network req") (auto dest: saved_foreign_keeps_initiator)
qed (auto split: if_splits)

lemma service_step_inv: "service_step E M M' \<Longrightarrow> manager_inv M \<Longrightarrow> manager_inv M'"
proof (induction rule: service_step.induct)
  case (handle now sid from_peer from_sid init infos raws conn foreign M out svc')
  then show ?case using handle_inv by blast
next
  case (maintain sid snap running M b M')
  then show ?case using maintain_sessions_initiator [of M sid snap running b M'] by (simp add: manager_inv_def database_ok_def)
next
  case (my_infos new M snap now requery nets b u svc')
  then show ?case using calm_manager_inv [OF update_my_infos_calm] by blast
next
  case (acl_groups new M now b u svc')
  then show ?case using calm_manager_inv [OF refresh_acl_groups_calm] by blast
next
  case (expire now M u svc')
  then show ?case using calm_manager_inv [OF clear_expired_calm] by blast
next
  case (cost M svc')
  then show ?case using calm_manager_inv [OF cost_updated_calm] by blast
next
  case (dirty M)
  then show ?case by (intro calm_manager_inv) (simp_all add: calm_def database_ok_def mark_interface_peers_dirty_def)
next
  case (prepare p M ss now force ri rc b r ss')
  then show ?case using put_manager_inv prepare_keeps_initiator by blast
next
  case (finish p M ss now t0 pub req ans ss')
  then show ?case using put_manager_inv finish_keeps_initiator by blast
next
  case (clean p M ss now)
  then show ?case by (intro put_manager_inv) (simp_all add: clean_dst_saved_map_def)
qed

lemma expired_infos_total:
  assumes "\<And>p i. (p, i) \<in> set m \<Longrightarrow> ri_last_update i \<noteq> None"
  shows "expired_infos now t m \<noteq> None"
  using assms by (induction m) (fastforce simp: info_expired_def)+

text \<open>
  C36: the routing service keeps its invariants.  In every run of the router from its start, through handled
  requests with any content, rounds of every background task and synchronisations, in any order, the
  database stays well formed, at most one session is marked as initiated by us and it is the one the session
  manager chose, and the expiry of dead peers finds every announcement stamped and does not panic on it.
\<close>

theorem service_reachable_inv:
  assumes "(service_step E)\<^sup>*\<^sup>* (session_manager_new my_peer route_id now keys) M"
  shows "synced_inv (rs_synced (sm_service M))
    \<and> (\<forall>p ss. get_session p (sm_service M) = Some ss \<and> ss_we_are_initiator ss \<longrightarrow> sm_initiate M = Some p)
    \<and> (\<forall>t. expired_infos t (rs_route_table (sm_service M)) (si_peer_infos (rs_synced (sm_service M))) \<noteq> None)"
proof -
  from assms have inv: "manager_inv M"
    by (induction rule: rtranclp_induct) (auto simp: manager_new_inv intro: service_step_inv)
  have "st_wf (si_peer_infos (rs_synced (sm_service M)))" using inv by (simp add: manager_inv_def database_ok_def synced_inv_defs)
  then have "ri_last_update i \<noteq> None" if "(p, i) \<in> set (si_peer_infos (rs_synced (sm_service M)))" for p i
    using inv that by (auto simp: manager_inv_def database_ok_def infos_stamped_def st_get_def st_wf_def)
  from expired_infos_total [OF this] inv show ?thesis by (simp add: manager_inv_def database_ok_def initiator_is_def)
qed

text \<open>A round that opens a session with the only connected peer, which then asks for one itself.\<close>

definition one_peer_snapshot :: interface_peer_snapshot where
  "one_peer_snapshot = \<lparr>sn_generation = 1, sn_peers = {3}, sn_identity_types = [(3, Some Admin)]\<rparr>"

theorem service_reachable_inv_witness:
  "\<exists>M ss. (service_step confined_env)\<^sup>*\<^sup>* (session_manager_new 9 0 0 []) M \<and> get_session 3 (sm_service M) = Some ss \<and> ss_we_are_initiator ss
     \<and> sm_initiate M = Some 3"
proof -
  obtain b and M :: "u32 session_manager" where m: "maintain_sessions 77 one_peer_snapshot (\<lambda>_. True) (session_manager_new 9 0 0 []) = (b, M)" by fastforce
  have c: "initiator_candidates one_peer_snapshot (route_service_new 9 0 0 [] :: u32 route_service) = [3]"
    by (simp add: initiator_candidates_def one_peer_snapshot_def get_session_def route_service_new_def st_get_def)
  have "get_udp_nat_type 3 route_table_new = None" by (simp add: get_udp_nat_type_def route_table_new_def st_get_def)
  then have n: "new_initiator_dst (route_service_new 9 0 0 [] :: u32 route_service) [3] = Some 3"
    by (simp add: new_initiator_dst_def route_service_new_def)
  have s: "service_step confined_env (session_manager_new 9 0 0 []) M" using maintain [OF m] .
  have "\<exists>ss. get_session 3 (sm_service M) = Some ss \<and> ss_we_are_initiator ss"
    using m c n by (auto simp: maintain_sessions_def Let_def stop_gone_sessions_def session_manager_new_def list_session_peer_set_def
        list_session_peers_def clear_idle_sessions_def change_initiator_def get_or_create_session_def put_session_def get_session_def
        update_initiator_flag_def route_service_new_def store_simps)
  with service_reachable_inv [OF r_into_rtranclp [where r = "service_step confined_env", OF s]] s show ?thesis by blast
qed

end
