(* ===== verification/Framed.thy ===== *)
theory Framed
  imports Packet_Def "HOL-Library.Sublist"
begin

text \<open>
  Packets over byte streams: the queue of buffers of \<^verbatim>\<open>tunnel/buf.rs\<close> and the length-delimited reader and writer
  of \<^verbatim>\<open>tunnel/common.rs\<close>, which every tunnel over a stream uses (TCP, Unix sockets, QUIC).

  The transport is the environment.  What its calls answer is a list of events, one for each call; a list
  that ends is a transport that is not ready.  The capacity of a \<^verbatim>\<open>BytesMut\<close> after an operation is up to the
  library: it comes from the functions of \<open>bytesmut_lib\<close>.
\<close>

section \<open>Queue of buffers\<close>

type_synonym buf_list = "bytes list"

definition buf_list_new :: buf_list where
  "buf_list_new = []"

definition buf_push :: "bytes \<Rightarrow> buf_list \<Rightarrow> buf_list" where
  "buf_push b bl = bl @ [b]"

definition bufs_cnt :: "buf_list \<Rightarrow> nat" where
  "bufs_cnt bl = length bl"

definition remaining :: "buf_list \<Rightarrow> nat" where
  "remaining bl = sum_list (map length bl)"

definition chunk :: "buf_list \<Rightarrow> bytes" where
  "chunk bl = (case bl of [] \<Rightarrow> [] | b # _ \<Rightarrow> b)"

text \<open>Indexing the empty queue is a panic.\<close>

fun advance :: "nat \<Rightarrow> buf_list \<Rightarrow> buf_list option" where
  "advance 0 bl = Some bl"
| "advance (Suc n) [] = None"
| "advance (Suc n) (b # bl) = (if length b > Suc n then Some (drop (Suc n) b # bl) else advance (Suc n - length b) bl)"

text \<open>\<open>n\<close> slots; a buffer fills one slot if it is not empty.\<close>

definition chunks_vectored :: "nat \<Rightarrow> buf_list \<Rightarrow> bytes list" where
  "chunks_vectored n bl = take n (filter (\<lambda>b. b \<noteq> []) bl)"

section \<open>Writer\<close>

datatype tunnel_error = InvalidPacket string | IOError

text \<open>\<^verbatim>\<open>TcpZCPacketToBytes\<close>: the packet as a TCP packet with its length in the header.  \<^term>\<open>None\<close> is a panic, of the
  conversion or of a length beyond 32 bits.\<close>

definition zcpacket_into_bytes :: "(nat \<Rightarrow> u8) \<Rightarrow> zc_packet \<Rightarrow> (tunnel_error + bytes) option" where
  "zcpacket_into_bytes g item = do {
     p \<leftarrow> convert_type g TCP item;
     let tcp_length = (PEER_MANAGER_HEADER_SIZE + payload_len p) mod 2 ^ 64
     in (case tcp_tunnel_header_of p of
           None \<Rightarrow> Some (Inl (InvalidPacket ''packet too short''))
         | Some _ \<Rightarrow>
             if tcp_length < 2 ^ 32
             then map_option (\<lambda>q. Inr (inner q)) (mut_tcp_tunnel_header (\<lambda>h. h\<lparr>tcp_len := of_nat tcp_length\<rparr>) p) else None)
   }"

definition max_buffer_count :: nat where
  "max_buffer_count = 64"

definition start_send :: "(nat \<Rightarrow> u8) \<Rightarrow> zc_packet \<Rightarrow> buf_list \<Rightarrow> ((tunnel_error + unit) \<times> buf_list) option" where
  "start_send g item bl = map_option (\<lambda>r. case r of Inl e \<Rightarrow> (Inl e, bl) | Inr bs \<Rightarrow> (Inr (), buf_push bs bl)) (zcpacket_into_bytes g item)"

datatype write_event = Write_Pending | Write_Failed | Wrote nat

datatype flush_result = Flush_Pending | Flush_Error | Flush_Done

text \<open>What one write is offered: \<^verbatim>\<open>poll_write_buf\<close> writes up to 64 buffers at once if the transport can.\<close>

definition offered_bytes :: "bool \<Rightarrow> buf_list \<Rightarrow> bytes" where
  "offered_bytes vectored bl = (if vectored then concat (chunks_vectored 64 bl) else chunk bl)"

text \<open>The result, the bytes written, and the queue; a write of nothing is the error \<^verbatim>\<open>WriteZero\<close>.\<close>

fun flush_loop :: "bool \<Rightarrow> write_event list \<Rightarrow> nat \<Rightarrow> buf_list \<Rightarrow> (flush_result \<times> bytes \<times> buf_list) option" where
  "flush_loop v evs 0 bl = Some (case evs of Wrote _ # _ \<Rightarrow> Flush_Done | Write_Failed # _ \<Rightarrow> Flush_Error | _ \<Rightarrow> Flush_Pending, [], bl)"
| "flush_loop v (Wrote n # evs) (Suc rem) bl =
     (let data = take n (offered_bytes v bl) in do {
        bl1 \<leftarrow> advance (length data) bl;
        (if data = [] then Some (Flush_Error, [], bl1)
         else map_option (\<lambda>(r, out, bl2). (r, data @ out, bl2)) (flush_loop v evs (Suc rem - length data) bl1))
      })"
| "flush_loop v (Write_Failed # evs) (Suc rem) bl = Some (Flush_Error, [], bl)"
| "flush_loop v (Write_Pending # evs) (Suc rem) bl = Some (Flush_Pending, [], bl)"
| "flush_loop v [] (Suc rem) bl = Some (Flush_Pending, [], bl)"

definition poll_flush :: "bool \<Rightarrow> write_event list \<Rightarrow> buf_list \<Rightarrow> (flush_result \<times> bytes \<times> buf_list) option" where
  "poll_flush v evs bl = flush_loop v evs (remaining bl) bl"

text \<open>The writer takes another packet at once unless 64 are waiting.\<close>

definition poll_ready :: "bool \<Rightarrow> write_event list \<Rightarrow> buf_list \<Rightarrow> (flush_result \<times> bytes \<times> buf_list) option" where
  "poll_ready v evs bl = (if bufs_cnt bl \<ge> max_buffer_count then poll_flush v evs bl else Some (Flush_Done, [], bl))"

section \<open>Reader\<close>

record bytesmut_lib =
  bm_with_capacity :: "nat \<Rightarrow> nat"
  bm_reserve :: "nat \<Rightarrow> nat \<Rightarrow> nat \<Rightarrow> nat"
  bm_split_to :: "nat \<Rightarrow> nat \<Rightarrow> nat \<Rightarrow> nat"

record framed_reader =
  fr_buf :: bytes
  fr_capacity :: nat
  fr_max_packet_size :: nat
  fr_error :: "tunnel_error option"

definition framed_reader_new :: "bytesmut_lib \<Rightarrow> nat \<Rightarrow> framed_reader" where
  "framed_reader_new B max_packet_size =
     \<lparr>fr_buf = [], fr_capacity = bm_with_capacity B max_packet_size, fr_max_packet_size = max_packet_size, fr_error = None\<rparr>"

definition extract_one_packet :: "nat \<Rightarrow> bytes \<Rightarrow> (tunnel_error + zc_packet \<times> bytes) option" where
  "extract_one_packet max_packet_size buf =
     (if length buf < TCP_TUNNEL_HEADER_SIZE then None
      else let body_len = unat (tcp_len (tcp_read (take TCP_TUNNEL_HEADER_SIZE buf)))
           in if body_len > max_packet_size then Some (Inl (InvalidPacket ''body too long''))
              else if body_len < PEER_MANAGER_HEADER_SIZE then Some (Inl (InvalidPacket ''body too short''))
              else if length buf < TCP_TUNNEL_HEADER_SIZE + body_len then None
              else Some (Inr (new_from_buf (take (TCP_TUNNEL_HEADER_SIZE + body_len) buf) TCP, drop (TCP_TUNNEL_HEADER_SIZE + body_len) buf)))"

definition reserve_buf :: "bytesmut_lib \<Rightarrow> nat \<Rightarrow> nat \<Rightarrow> framed_reader \<Rightarrow> framed_reader" where
  "reserve_buf B min_size max_size r =
     (if fr_capacity r < min_size then r\<lparr>fr_capacity := bm_reserve B (fr_capacity r) (length (fr_buf r)) max_size\<rparr> else r)"

datatype read_event = Read_Pending | Read_Failed | Read_Ready nat

datatype read_outcome = Not_Ready | Failed | Got bytes

text \<open>
  One read into \<open>room\<close> bytes from a transport that holds the bytes \<open>pipe\<close>: a ready transport delivers at least one
  and at most \<open>n + 1\<close> of them; a read into no room, and a read at the end of a closed stream, deliver nothing.
\<close>

fun poll_read :: "bool \<Rightarrow> read_event \<Rightarrow> nat \<Rightarrow> bytes \<Rightarrow> read_outcome" where
  "poll_read closed Read_Pending room pipe = Not_Ready"
| "poll_read closed Read_Failed room pipe = Failed"
| "poll_read closed (Read_Ready n) room pipe =
     (if pipe = [] then (if closed then Got [] else Not_Ready) else Got (take (min (Suc n) room) pipe))"

datatype poll_item = Poll_Pending | Poll_End | Poll_Item "tunnel_error + zc_packet"

fun poll_next :: "bytesmut_lib \<Rightarrow> bool \<Rightarrow> read_event list \<Rightarrow> bytes \<Rightarrow> framed_reader \<Rightarrow> poll_item \<times> bytes \<times> framed_reader" where
  "poll_next B closed evs pipe r =
     (if fr_error r \<noteq> None then (Poll_End, pipe, r)
      else case extract_one_packet (fr_max_packet_size r) (fr_buf r) of
        Some (Inl e) \<Rightarrow> (Poll_Item (Inl e), pipe, r\<lparr>fr_error := Some e\<rparr>)
      | Some (Inr (pkt, rest)) \<Rightarrow>
          (Poll_Item (Inr pkt), pipe,
           r\<lparr>fr_buf := rest, fr_capacity := bm_split_to B (fr_capacity r) (length (fr_buf r)) (length (inner pkt))\<rparr>)
      | None \<Rightarrow>
          let r1 = reserve_buf B (fr_max_packet_size r) (fr_max_packet_size r * 2) r
          in case evs of
               [] \<Rightarrow> (Poll_Pending, pipe, r1)
             | ev # evs' \<Rightarrow>
                 (case poll_read closed ev (fr_capacity r1 - length (fr_buf r1)) pipe of
                    Not_Ready \<Rightarrow> (Poll_Pending, pipe, r1)
                  | Failed \<Rightarrow> (Poll_Item (Inl IOError), pipe, r1)
                  | Got data \<Rightarrow>
                      let pipe1 = drop (length data) pipe; r2 = r1\<lparr>fr_buf := fr_buf r1 @ data\<rparr>
                      in if data = [] then (Poll_End, pipe1, r2) else poll_next B closed evs' pipe1 r2))"

declare poll_next.simps [simp del]

section \<open>The queue holds its bytes in order\<close>

lemma remaining_concat: "remaining bl = length (concat bl)"
  by (simp add: remaining_def length_concat)

lemma advance_drops: "n \<le> remaining bl \<Longrightarrow> \<exists>bl'. advance n bl = Some bl' \<and> concat bl' = drop n (concat bl)"
  by (induction n bl rule: advance.induct) (auto simp: remaining_concat)

lemma filter_nonempty_concat: "concat (filter (\<lambda>b. b \<noteq> []) bl) = concat bl"
  by (induction bl) auto

lemma offered_prefix: "prefix (offered_bytes v bl) (concat bl)"
proof -
  have "concat (chunks_vectored 64 bl) @ concat (drop 64 (filter (\<lambda>b. b \<noteq> []) bl)) = concat bl"
    by (metis append_take_drop_id chunks_vectored_def concat_append filter_nonempty_concat)
  then have "prefix (concat (chunks_vectored 64 bl)) (concat bl)" by (metis prefixI)
  then show ?thesis by (cases bl) (simp_all add: offered_bytes_def chunk_def)
qed

lemma flush_loop_writes:
  "rem = remaining bl \<Longrightarrow> \<exists>r out bl'. flush_loop v evs rem bl = Some (r, out, bl') \<and> out @ concat bl' = concat bl"
proof (induction v evs rem bl rule: flush_loop.induct)
  case (2 v n evs rem bl)
  define data where "data = take n (offered_bytes v bl)"
  have p: "prefix data (concat bl)" unfolding data_def by (meson offered_prefix prefix_order.trans take_is_prefix)
  then have l: "length data \<le> remaining bl" by (simp add: remaining_concat prefix_length_le)
  from advance_drops [OF this] obtain bl1 where bl1: "advance (length data) bl = Some bl1" "concat bl1 = drop (length data) (concat bl)" by blast
  have split: "data @ concat bl1 = concat bl" using p bl1(2) by (auto simp: prefix_def)
  show ?case
  proof (cases "data = []")
    case True
    with bl1 split show ?thesis unfolding flush_loop.simps Let_def data_def [symmetric] by simp
  next
    case False
    have "Suc rem - length data = remaining bl1" using "2.prems" bl1(2) by (simp add: remaining_concat)
    from "2.IH" [OF data_def bl1(1) False this] bl1(1) False split show ?thesis
      unfolding flush_loop.simps Let_def data_def [symmetric] by auto
  qed
qed (unfold flush_loop.simps, simp_all)

text \<open>Flushing writes a prefix of the waiting bytes, keeps the rest, and does not panic.\<close>

lemma poll_flush_writes: "\<exists>r out bl'. poll_flush v evs bl = Some (r, out, bl') \<and> out @ concat bl' = concat bl"
  unfolding poll_flush_def by (rule flush_loop_writes) simp

section \<open>Frames\<close>

text \<open>A frame of at most \<open>m\<close> bytes: the length and the body, which holds at least the peer manager header.\<close>

definition is_frame :: "nat \<Rightarrow> bytes \<Rightarrow> bool" where
  "is_frame m f \<longleftrightarrow> (\<exists>body. f = tcp_as_bytes \<lparr>tcp_len = of_nat (length body)\<rparr> @ body \<and> PEER_MANAGER_HEADER_SIZE \<le> length body
     \<and> length body < 2 ^ 32 \<and> length f \<le> m)"

lemma tcp_as_bytes_length [simp]: "length (tcp_as_bytes h) = 4"
  using tcp.length_as_bytes [of h] by (simp add: layout_simps)

lemma extract_frame:
  assumes "is_frame m f" "m \<le> mps + 4"
  shows "extract_one_packet mps (f @ rest) = Some (Inr (new_from_buf f TCP, rest))"
proof -
  obtain body where f: "f = tcp_as_bytes \<lparr>tcp_len = of_nat (length body)\<rparr> @ body" "PEER_MANAGER_HEADER_SIZE \<le> length body"
    "length body < 2 ^ 32" "length f \<le> m" using assms(1) by (auto simp: is_frame_def)
  have "tcp_read (take TCP_TUNNEL_HEADER_SIZE (f @ rest)) = \<lparr>tcp_len = of_nat (length body)\<rparr>"
    using tcp.read_as_bytes by (simp add: f(1) layout_simps)
  moreover have "unat (of_nat (length body) :: u32) = length body" using f(3) by (simp add: unat_of_nat take_bit_nat_eq_self)
  ultimately show ?thesis using f assms(2) by (simp add: extract_one_packet_def layout_simps)
qed

lemma extract_incomplete:
  assumes "is_frame m f" "m \<le> mps + 4" "prefix buf f" "buf \<noteq> f"
  shows "extract_one_packet mps buf = None"
proof -
  obtain body where f: "f = tcp_as_bytes \<lparr>tcp_len = of_nat (length body)\<rparr> @ body" "PEER_MANAGER_HEADER_SIZE \<le> length body"
    "length body < 2 ^ 32" "length f \<le> m" using assms(1) by (auto simp: is_frame_def)
  have l: "length buf < length f" using assms(3,4) by (auto simp: prefix_def)
  show ?thesis
  proof (cases "length buf < TCP_TUNNEL_HEADER_SIZE")
    case False
    then have "take 4 buf = take 4 f" using assms(3) by (auto simp: prefix_def layout_simps)
    then have "tcp_read (take TCP_TUNNEL_HEADER_SIZE buf) = \<lparr>tcp_len = of_nat (length body)\<rparr>"
      using tcp.read_as_bytes by (simp add: f(1) layout_simps)
    moreover have "unat (of_nat (length body) :: u32) = length body" using f(3) by (simp add: unat_of_nat take_bit_nat_eq_self)
    ultimately show ?thesis using f assms(2) l by (simp add: extract_one_packet_def layout_simps)
  qed (simp add: extract_one_packet_def)
qed

text \<open>The writer makes a frame of every packet that has a peer manager header.\<close>

lemma into_bytes_frame:
  assumes tp: "tunnel_payload p = Some tp" and l: "PEER_MANAGER_HEADER_SIZE \<le> length tp" "length tp + 4 \<le> m" "length tp < 2 ^ 32"
  shows "\<exists>f. zcpacket_into_bytes g p = Some (Inr f) \<and> is_frame m f \<and> tunnel_payload (new_from_buf f TCP) = Some tp"
proof -
  have "peer_manager_header_off (get_packet_offsets (zc_type p)) \<le> length (inner p)"
    using tp by (auto simp: tunnel_payload_def slice_from_def split: if_splits)
  then obtain q where q: "convert_type g TCP p = Some q" "zc_type q = TCP" "tunnel_payload q = Some tp"
    using convert_type_works [of TCP p g] tp by auto
  have in4: "4 \<le> length (inner q)" "drop 4 (inner q) = tp"
    using q by (auto simp: tunnel_payload_def slice_from_def layout_simps split: if_splits)
  then have len: "length (inner q) = 4 + length tp" by (metis diff_add_inverse length_drop le_add_diff_inverse)
  have pl: "payload_len q = length tp - 16"
    using l len payload_len_eq [of q] by (simp add: payload_offset_def q(2) layout_simps)
  have h: "tcp_tunnel_header_of q \<noteq> None"
    using in4 by (simp add: tcp_tunnel_header_of_def header_at_def slice_from_def ref_from_prefix_def q(2) layout_simps)
  have "(PEER_MANAGER_HEADER_SIZE + payload_len q) mod 2 ^ 64 = length tp" using pl l by (simp add: layout_simps)
  then have "zcpacket_into_bytes g p = map_option (\<lambda>q. Inr (inner q)) (mut_tcp_tunnel_header (\<lambda>h. h\<lparr>tcp_len := of_nat (length tp)\<rparr>) q)"
    using q(1) h l(3) by (auto simp: zcpacket_into_bytes_def)
  also have "mut_tcp_tunnel_header (\<lambda>h. h\<lparr>tcp_len := of_nat (length tp)\<rparr>) q = Some (q\<lparr>inner := tcp_as_bytes \<lparr>tcp_len = of_nat (length tp)\<rparr> @ tp\<rparr>)"
    using in4 by (simp add: mut_tcp_tunnel_header_def update_header_at_def header_at_def slice_from_def ref_from_prefix_def overwrite_def q(2) layout_simps tcp_read_def)
  finally have "zcpacket_into_bytes g p = Some (Inr (tcp_as_bytes \<lparr>tcp_len = of_nat (length tp)\<rparr> @ tp))" by simp
  then show ?thesis using l by (simp add: is_frame_def tunnel_payload_def slice_from_def new_from_buf_def layout_simps)
qed

section \<open>Reading frames\<close>

text \<open>What the documentation of \<^verbatim>\<open>BytesMut\<close> promises about capacities.\<close>

definition bytesmut_ok :: "bytesmut_lib \<Rightarrow> bool" where
  "bytesmut_ok B \<longleftrightarrow> (\<forall>n. n \<le> bm_with_capacity B n) \<and> (\<forall>c l a. l \<le> c \<longrightarrow> l + a \<le> bm_reserve B c l a)
     \<and> (\<forall>c l a. a \<le> l \<and> l \<le> c \<longrightarrow> l - a \<le> bm_split_to B c l a)"

text \<open>The reader is in step with a stream that still carries the frames \<open>fs\<close>; \<open>w\<close> has not been written yet.\<close>

definition in_step :: "bytes list \<Rightarrow> framed_reader \<Rightarrow> bytes \<Rightarrow> bytes \<Rightarrow> bool" where
  "in_step fs r pipe w \<longleftrightarrow> fr_error r = None \<and> length (fr_buf r) \<le> fr_capacity r \<and> fr_buf r @ pipe @ w = concat fs
     \<and> (\<forall>f \<in> set fs. is_frame (fr_max_packet_size r) f)"

lemma frame_nonempty: "is_frame m f \<Longrightarrow> f \<noteq> []"
  by (auto simp: is_frame_def layout_simps)

lemma in_step_extract:
  assumes "in_step fs r pipe w"
  shows "case extract_one_packet (fr_max_packet_size r) (fr_buf r) of
      None \<Rightarrow> length (fr_buf r) < fr_max_packet_size r \<or> fs = []
    | Some x \<Rightarrow> \<exists>f fs' rest. fs = f # fs' \<and> fr_buf r = f @ rest \<and> rest @ pipe @ w = concat fs' \<and> x = Inr (new_from_buf f TCP, rest)"
proof (cases fs)
  case Nil
  with assms have "fr_buf r = []" by (simp add: in_step_def)
  with Nil show ?thesis by (simp add: extract_one_packet_def layout_simps)
next
  case (Cons f fs')
  with assms have f: "is_frame (fr_max_packet_size r) f" and e: "fr_buf r @ pipe @ w = f @ concat fs'" by (auto simp: in_step_def)
  show ?thesis
  proof (cases "prefix f (fr_buf r)")
    case True
    then obtain rest where rest: "fr_buf r = f @ rest" by (auto simp: prefix_def)
    with extract_frame [OF f, of "fr_max_packet_size r" rest] e Cons show ?thesis by simp
  next
    case False
    then have "prefix (fr_buf r) f" "fr_buf r \<noteq> f" using e by (auto simp: prefix_def append_eq_append_conv2)
    moreover from this have "length (fr_buf r) < length f" by (auto simp: prefix_def)
    ultimately show ?thesis using extract_incomplete [OF f, of "fr_max_packet_size r"] f by (auto simp: is_frame_def)
  qed
qed

lemma reserve_room:
  assumes "bytesmut_ok B" "length (fr_buf r) \<le> fr_capacity r"
  defines "r1 \<equiv> reserve_buf B (fr_max_packet_size r) (fr_max_packet_size r * 2) r"
  shows "fr_max_packet_size r \<le> fr_capacity r1" "length (fr_buf r1) \<le> fr_capacity r1" "fr_buf r1 = fr_buf r"
    "fr_error r1 = fr_error r" "fr_max_packet_size r1 = fr_max_packet_size r"
proof -
  have "length (fr_buf r) + fr_max_packet_size r * 2 \<le> bm_reserve B (fr_capacity r) (length (fr_buf r)) (fr_max_packet_size r * 2)"
    using assms(1,2) by (simp add: bytesmut_ok_def)
  then show "fr_max_packet_size r \<le> fr_capacity r1" "length (fr_buf r1) \<le> fr_capacity r1" "fr_buf r1 = fr_buf r"
    "fr_error r1 = fr_error r" "fr_max_packet_size r1 = fr_max_packet_size r"
    using assms(2) by (auto simp: r1_def reserve_buf_def)
qed

lemma poll_delivers:
  assumes B: "bytesmut_ok B" and st: "in_step fs r pipe w" and x: "extract_one_packet (fr_max_packet_size r) (fr_buf r) = Some x"
  shows "\<exists>f fs' r'. fs = f # fs' \<and> poll_next B closed evs pipe r = (Poll_Item (Inr (new_from_buf f TCP)), pipe, r') \<and> in_step fs' r' pipe w
    \<and> fr_max_packet_size r' = fr_max_packet_size r"
proof -
  obtain f fs' rest where f: "fs = f # fs'" "fr_buf r = f @ rest" "rest @ pipe @ w = concat fs'" "x = Inr (new_from_buf f TCP, rest)"
    using in_step_extract [OF st] x by auto
  define r' where "r' = r\<lparr>fr_buf := rest, fr_capacity := bm_split_to B (fr_capacity r) (length (fr_buf r)) (length f)\<rparr>"
  have "length rest \<le> bm_split_to B (fr_capacity r) (length (fr_buf r)) (length f)"
    using B st f(2) unfolding bytesmut_ok_def in_step_def by (metis diff_add_inverse le_add1 length_append)
  then have "in_step fs' r' pipe w" using st f by (simp add: in_step_def r'_def)
  moreover have "poll_next B closed evs pipe r = (Poll_Item (Inr (new_from_buf f TCP)), pipe, r')"
    using st x f(4) by (simp add: poll_next.simps [of B closed evs] in_step_def r'_def new_from_buf_def)
  ultimately show ?thesis using f(1) by (auto simp: r'_def)
qed

text \<open>Between two packets the reader has room and takes in at least one byte, unless the transport has none.\<close>

lemma poll_reads:
  assumes B: "bytesmut_ok B" and st: "in_step fs r pipe w" and x: "extract_one_packet (fr_max_packet_size r) (fr_buf r) = None"
    and ev: "ev \<noteq> Read_Failed"
  shows "\<exists>pipe' r'. in_step fs r' pipe' w \<and> fr_max_packet_size r' = fr_max_packet_size r \<and>
    (poll_next B False (ev # evs) pipe r = (Poll_Pending, pipe', r') \<and> fr_buf r' = fr_buf r
     \<or> poll_next B False (ev # evs) pipe r = poll_next B False evs pipe' r')"
proof -
  define r1 where "r1 = reserve_buf B (fr_max_packet_size r) (fr_max_packet_size r * 2) r"
  note R = reserve_room [OF B, of r, folded r1_def]
  have st1: "in_step fs r1 pipe w" using st R by (simp add: in_step_def)
  have e: "fr_error r = None" using st by (simp add: in_step_def)
  note P = poll_next.simps [of B False "ev # evs" pipe r, unfolded x option.case list.case Let_def r1_def [symmetric]]
  show ?thesis
  proof (cases "\<exists>n. ev = Read_Ready n \<and> pipe \<noteq> []")
    case False
    then have "poll_read False ev room pipe = Not_Ready" for room using ev by (cases ev) auto
    with P e have "poll_next B False (ev # evs) pipe r = (Poll_Pending, pipe, r1)" by simp
    moreover have "fr_buf r1 = fr_buf r \<and> fr_max_packet_size r1 = fr_max_packet_size r" using R st by (simp add: in_step_def)
    ultimately show ?thesis using st1 by blast
  next
    case True
    then obtain n where n: "ev = Read_Ready n" "pipe \<noteq> []" by blast
    define data where "data = take (min (Suc n) (fr_capacity r1 - length (fr_buf r1))) pipe"
    define r2 where "r2 = r1\<lparr>fr_buf := fr_buf r1 @ data\<rparr>"
    have "fs \<noteq> []" using st n(2) by (auto simp: in_step_def)
    then have "length (fr_buf r) < fr_max_packet_size r" using in_step_extract [OF st] x by simp
    then have "fr_capacity r1 - length (fr_buf r1) > 0" using R st by (simp add: in_step_def)
    then have d: "data \<noteq> []" using n(2) by (simp add: data_def)
    have dl: "length data \<le> fr_capacity r1 - length (fr_buf r1)" "data @ drop (length data) pipe = pipe"
      by (simp_all add: data_def min_def)
    have "fr_buf r1 @ data @ drop (length data) pipe @ w = concat fs" using st1 dl(2) unfolding in_step_def by (metis append.assoc)
    moreover have "length (fr_buf r1) + length data \<le> fr_capacity r1" using st1 dl(1) by (auto simp: in_step_def)
    ultimately have "in_step fs r2 (drop (length data) pipe) w" using st1 by (simp add: in_step_def r2_def)
    moreover have "poll_read False ev (fr_capacity r1 - length (fr_buf r1)) pipe = Got data" using n by (simp add: data_def)
    then have "poll_next B False (ev # evs) pipe r = poll_next B False evs (drop (length data) pipe) r2"
      using P e d by (simp add: r2_def)
    moreover have "fr_max_packet_size r2 = fr_max_packet_size r" using R st by (simp add: r2_def in_step_def)
    ultimately show ?thesis by blast
  qed
qed

text \<open>A poll of a reader in step delivers the next frame or waits, and keeps in step.\<close>

lemma poll_next_in_step:
  assumes B: "bytesmut_ok B"
  shows "in_step fs r pipe w \<Longrightarrow> Read_Failed \<notin> set evs \<Longrightarrow>
    \<exists>pipe' r'. fr_max_packet_size r' = fr_max_packet_size r \<and>
      (poll_next B False evs pipe r = (Poll_Pending, pipe', r') \<and> in_step fs r' pipe' w
       \<or> (\<exists>f fs'. fs = f # fs' \<and> poll_next B False evs pipe r = (Poll_Item (Inr (new_from_buf f TCP)), pipe', r') \<and> in_step fs' r' pipe' w))"
proof (induction evs arbitrary: pipe r)
  case (Cons ev evs)
  show ?case
  proof (cases "extract_one_packet (fr_max_packet_size r) (fr_buf r)")
    case None
    have "ev \<noteq> Read_Failed" using Cons.prems(2) by auto
    from poll_reads [OF B Cons.prems(1) None this, of evs] obtain pipe' r' where p: "in_step fs r' pipe' w" "fr_max_packet_size r' = fr_max_packet_size r"
      "poll_next B False (ev # evs) pipe r = (Poll_Pending, pipe', r') \<or> poll_next B False (ev # evs) pipe r = poll_next B False evs pipe' r'"
      by blast
    have "Read_Failed \<notin> set evs" using Cons.prems(2) by simp
    from Cons.IH [OF p(1) this] p show ?thesis by metis
  next
    case (Some y)
    from poll_delivers [OF B Cons.prems(1) Some] show ?thesis by blast
  qed
next
  case Nil
  show ?case
  proof (cases "extract_one_packet (fr_max_packet_size r) (fr_buf r)")
    case None
    then show ?thesis using Nil.prems(1) reserve_room [OF B, of r]
      by (auto simp: poll_next.simps [of B False "[]"] in_step_def Let_def)
  next
    case (Some y)
    from poll_delivers [OF B Nil.prems(1) Some] show ?thesis by blast
  qed
qed

section \<open>A link\<close>

text \<open>A writer and a reader joined by a transport, with the packets given to the one and delivered by the other.\<close>

record link =
  lk_sent :: "zc_packet list"
  lk_writer :: buf_list
  lk_pipe :: bytes
  lk_reader :: framed_reader
  lk_received :: "zc_packet list"
  lk_broken :: bool

definition link_new :: "bytesmut_lib \<Rightarrow> nat \<Rightarrow> link" where
  "link_new B m = \<lparr>lk_sent = [], lk_writer = buf_list_new, lk_pipe = [], lk_reader = framed_reader_new B m, lk_received = [], lk_broken = False\<rparr>"

text \<open>What the user of the reader sees of a poll.\<close>

fun observe :: "poll_item \<Rightarrow> link \<Rightarrow> link" where
  "observe Poll_Pending L = L"
| "observe Poll_End L = L\<lparr>lk_broken := True\<rparr>"
| "observe (Poll_Item (Inl e)) L = L\<lparr>lk_broken := True\<rparr>"
| "observe (Poll_Item (Inr p)) L = L\<lparr>lk_received := lk_received L @ [p]\<rparr>"

text \<open>
  A packet is sent whose body fits the frame size with its length field; the writer flushes with any answers of
  the transport; the reader is polled with any answers but a failure, and the stream stays open.
\<close>

inductive link_step :: "bytesmut_lib \<Rightarrow> nat \<Rightarrow> link \<Rightarrow> link \<Rightarrow> bool" for B m where
  send: "tunnel_payload p = Some tp \<Longrightarrow> PEER_MANAGER_HEADER_SIZE \<le> length tp \<Longrightarrow> length tp + 4 \<le> m \<Longrightarrow>
    start_send g p (lk_writer L) = Some (Inr (), bl) \<Longrightarrow> link_step B m L (L\<lparr>lk_sent := lk_sent L @ [p], lk_writer := bl\<rparr>)"
| flush: "poll_flush v evs (lk_writer L) = Some (r, out, bl) \<Longrightarrow> link_step B m L (L\<lparr>lk_writer := bl, lk_pipe := lk_pipe L @ out\<rparr>)"
| poll: "Read_Failed \<notin> set evs \<Longrightarrow> poll_next B False evs (lk_pipe L) (lk_reader L) = (item, pipe, r) \<Longrightarrow>
    link_step B m L (observe item (L\<lparr>lk_pipe := pipe, lk_reader := r\<rparr>))"

definition link_inv :: "nat \<Rightarrow> link \<Rightarrow> bool" where
  "link_inv m L \<longleftrightarrow> \<not> lk_broken L \<and> fr_max_packet_size (lk_reader L) = m
     \<and> (\<exists>fs. map tunnel_payload (lk_sent L) = map tunnel_payload (lk_received L) @ map (\<lambda>f. tunnel_payload (new_from_buf f TCP)) fs
         \<and> in_step fs (lk_reader L) (lk_pipe L) (concat (lk_writer L)))"

lemma link_new_inv: "bytesmut_ok B \<Longrightarrow> link_inv m (link_new B m)"
  by (auto simp: link_inv_def link_new_def buf_list_new_def framed_reader_new_def in_step_def intro: exI [of _ "[]"])

lemma in_step_more:
  "in_step fs r pipe w \<Longrightarrow> is_frame (fr_max_packet_size r) f \<Longrightarrow> in_step (fs @ [f]) r pipe (w @ f)"
  by (auto simp: in_step_def)

lemma link_step_inv:
  assumes B: "bytesmut_ok B" and m: "m < 2 ^ 32"
  shows "link_step B m L L' \<Longrightarrow> link_inv m L \<Longrightarrow> link_inv m L'"
proof (induction rule: link_step.induct)
  case (send p tp g L bl)
  obtain f where f: "zcpacket_into_bytes g p = Some (Inr f)" "is_frame m f" "tunnel_payload (new_from_buf f TCP) = Some tp"
    using into_bytes_frame [OF send(1-3)] send(3) m by (metis add_leD1 le_less_trans)
  have bl: "bl = lk_writer L @ [f]" using send(4) f(1) by (auto simp: start_send_def buf_push_def)
  from send.prems obtain fs where fs: "map tunnel_payload (lk_sent L) = map tunnel_payload (lk_received L) @ map (\<lambda>f. tunnel_payload (new_from_buf f TCP)) fs"
      "in_step fs (lk_reader L) (lk_pipe L) (concat (lk_writer L))" and r: "\<not> lk_broken L" "fr_max_packet_size (lk_reader L) = m"
    by (auto simp: link_inv_def)
  from in_step_more [OF fs(2), of f] f(2) r have "in_step (fs @ [f]) (lk_reader L) (lk_pipe L) (concat bl)" by (simp add: bl)
  with fs(1) f(3) r send(1) show ?case unfolding link_inv_def by (auto intro!: exI [of _ "fs @ [f]"])
next
  case (flush v evs L r out bl)
  have o: "out @ concat bl = concat (lk_writer L)" using poll_flush_writes [of v evs "lk_writer L"] flush(1) by auto
  from flush.prems show ?case unfolding link_inv_def in_step_def by (auto simp: o [symmetric])
next
  case (poll evs L item pipe r)
  from poll.prems obtain fs where fs: "map tunnel_payload (lk_sent L) = map tunnel_payload (lk_received L) @ map (\<lambda>f. tunnel_payload (new_from_buf f TCP)) fs"
      "in_step fs (lk_reader L) (lk_pipe L) (concat (lk_writer L))" and b: "\<not> lk_broken L" "fr_max_packet_size (lk_reader L) = m"
    by (auto simp: link_inv_def)
  from poll_next_in_step [OF B fs(2) poll(1)] poll(2) b(2) have "fr_max_packet_size r = m
      \<and> (item = Poll_Pending \<and> in_step fs r pipe (concat (lk_writer L))
       \<or> (\<exists>f fs'. fs = f # fs' \<and> item = Poll_Item (Inr (new_from_buf f TCP)) \<and> in_step fs' r pipe (concat (lk_writer L))))" by auto
  then show ?case
  proof (elim conjE disjE exE)
    assume i: "item = Poll_Pending" "in_step fs r pipe (concat (lk_writer L))" "fr_max_packet_size r = m"
    with fs(1) b show ?thesis by (auto simp: link_inv_def)
  next
    fix f fs'
    assume i: "fs = f # fs'" "item = Poll_Item (Inr (new_from_buf f TCP))" "in_step fs' r pipe (concat (lk_writer L))" "fr_max_packet_size r = m"
    with fs(1) b show ?thesis by (auto simp: link_inv_def)
  qed
qed

text \<open>
  C12: a stream tunnel delivers what is sent.  However the transport splits and joins the bytes it takes and
  gives, and however sending, flushing and polling interleave, the reader never reports an error or the end
  of the open stream, it delivers the packets that were sent, complete and in their order, and when the
  writer has nothing left, the transport is empty and the reader finds no further packet, all of them have
  been delivered.  The bodies of the packets are at most four bytes shorter than the limit of the reader.
\<close>

theorem framed_stream_delivers:
  assumes "bytesmut_ok B" and "m < 2 ^ 32" and "(link_step B m)\<^sup>*\<^sup>* (link_new B m) L"
  shows "\<not> lk_broken L \<and> prefix (map tunnel_payload (lk_received L)) (map tunnel_payload (lk_sent L))
    \<and> (lk_writer L = [] \<and> lk_pipe L = [] \<and> extract_one_packet m (fr_buf (lk_reader L)) = None \<longrightarrow>
        map tunnel_payload (lk_received L) = map tunnel_payload (lk_sent L))"
proof -
  from assms(3) have inv: "link_inv m L"
    by (induction rule: rtranclp_induct) (auto simp: link_new_inv [OF assms(1)] intro: link_step_inv [OF assms(1,2)])
  then obtain fs where fs: "map tunnel_payload (lk_sent L) = map tunnel_payload (lk_received L) @ map (\<lambda>f. tunnel_payload (new_from_buf f TCP)) fs"
      "in_step fs (lk_reader L) (lk_pipe L) (concat (lk_writer L))" and r: "\<not> lk_broken L" "fr_max_packet_size (lk_reader L) = m"
    by (auto simp: link_inv_def)
  have "fs = []" if e: "lk_writer L = []" "lk_pipe L = []" "extract_one_packet m (fr_buf (lk_reader L)) = None"
  proof (cases fs)
    case (Cons f fs')
    with fs(2) e(1,2) have "fr_buf (lk_reader L) = f @ concat fs'" "is_frame m f" using r(2) by (auto simp: in_step_def)
    with extract_frame [of m f m "concat fs'"] e(3) show ?thesis by simp
  qed
  with fs(1) r show ?thesis by auto
qed

text \<open>
  The largest packets end the stream.  The limit of the reader is for the body, but its buffer first
  holds only as many bytes as the limit and is not enlarged while it has that capacity.  A packet whose
  body is within the limit and whose frame is longer than it fills the buffer, the next read has no room,
  and the reader reports the end of the stream.
\<close>

lemma largest_packets_end_stream:
  assumes "bm_with_capacity B m = m" and "is_frame (m + 4) f" and "m < length f"
  shows "fst (poll_next B False [Read_Ready m, Read_Ready 0] f (framed_reader_new B m)) = Poll_End"
proof -
  define r where "r = (framed_reader_new B m)\<lparr>fr_buf := take m f\<rparr>"
  have pos: "0 < m" using assms(2,3) by (auto simp: is_frame_def layout_simps)
  have x0: "extract_one_packet m [] = None" by (simp add: extract_one_packet_def layout_simps)
  have x: "extract_one_packet m (take m f) = None"
    using assms(3) by (intro extract_incomplete [OF assms(2)]) (auto simp: take_is_prefix dest: arg_cong [of _ _ length])
  have rest: "f \<noteq> []" "drop m f \<noteq> []" "take (min (Suc m) m) f = take m f" using assms(3) by auto
  have 1: "poll_next B False [Read_Ready m, Read_Ready 0] f (framed_reader_new B m) = poll_next B False [Read_Ready 0] (drop m f) r"
    using assms(1,3) x0 rest pos by (subst poll_next.simps) (simp add: framed_reader_new_def reserve_buf_def r_def Let_def min_def)
  have "fst (poll_next B False [Read_Ready 0] (drop m f) r) = Poll_End"
    using assms(1,3) x rest(2) by (subst poll_next.simps) (simp add: framed_reader_new_def reserve_buf_def r_def Let_def)
  with 1 show ?thesis by simp
qed

section \<open>A concrete link\<close>

definition exact_bytesmut :: bytesmut_lib where
  "exact_bytesmut = \<lparr>bm_with_capacity = (\<lambda>n. n), bm_reserve = (\<lambda>c l a. max c (l + a)), bm_split_to = (\<lambda>c l a. c - a)\<rparr>"

definition framed_packet :: zc_packet where
  "framed_packet = \<lparr>inner = replicate 20 7, zc_type = TCP\<rparr>"

lemma exact_bytesmut_ok: "bytesmut_ok exact_bytesmut"
  by (auto simp: bytesmut_ok_def exact_bytesmut_def)

theorem framed_stream_delivers_witness:
  "\<exists>L. (link_step exact_bytesmut 2000)\<^sup>*\<^sup>* (link_new exact_bytesmut 2000) L \<and> lk_sent L = [framed_packet] \<and> \<not> lk_broken L"
proof -
  have tp: "tunnel_payload framed_packet = Some (replicate 16 7)"
    by (simp add: tunnel_payload_def framed_packet_def slice_from_def layout_simps)
  from into_bytes_frame [OF tp, of 2000] obtain f where f: "zcpacket_into_bytes (\<lambda>_. 0) framed_packet = Some (Inr f)" by (auto simp: layout_simps)
  let ?L = "link_new exact_bytesmut 2000"
  let ?L' = "?L\<lparr>lk_sent := lk_sent ?L @ [framed_packet], lk_writer := [f]\<rparr>"
  have "link_step exact_bytesmut 2000 ?L ?L'"
    by (rule send [OF tp, where g = "\<lambda>_. 0"]) (simp_all add: start_send_def f buf_push_def link_new_def buf_list_new_def layout_simps)
  then have r: "(link_step exact_bytesmut 2000)\<^sup>*\<^sup>* ?L ?L'" by blast
  have "\<not> lk_broken ?L'" using framed_stream_delivers [OF exact_bytesmut_ok _ r] by simp
  with r show ?thesis by (intro exI [of _ ?L']) (simp add: link_new_def)
qed

lemma largest_packets_end_stream_witness:
  "fst (poll_next exact_bytesmut False [Read_Ready 20, Read_Ready 0] (tcp_as_bytes \<lparr>tcp_len = 20\<rparr> @ replicate 20 0)
     (framed_reader_new exact_bytesmut 20)) = Poll_End"
  by (rule largest_packets_end_stream) (auto simp: exact_bytesmut_def is_frame_def layout_simps intro!: exI [of _ "replicate 20 0"])

end
