(* ===== verification/Rpc_Call.thy ===== *)
theory Rpc_Call
  imports Rpc_Packet
begin

text \<open>
  Remote calls: the service registry, server and client of \<^verbatim>\<open>proto/rpc_impl\<close> (\<^verbatim>\<open>service_registry.rs\<close>, \<^verbatim>\<open>server.rs\<close>,
  \<^verbatim>\<open>client.rs\<close>) and the error codes of \<^verbatim>\<open>proto/error.rs\<close>.

  A service is a function from a method index and the request bytes to its answer; a call that exceeds its
  time is a service that answers with the error for it.  The message codecs are parameters.  Times are in
  milliseconds.  Statistics are left out.
\<close>

section \<open>Errors\<close>

datatype call_error = ExecutionError string | DecodeError | EncodeError | InvalidMethodIndex u8 string | InvalidServiceKey string string
  | MalformatRpcPacket string | TimeoutError string | PacketError rpc_error | ShutdownError

datatype pb_error = PbExecute string | PbProstDecode | PbProstEncode | PbInvalidMethodIndex u32 string | PbInvalidService string
  | PbMalformat string | PbTimeout string | PbOther string

text \<open>\<open>dbg\<close> is the formatting of \<^verbatim>\<open>{:?}\<close>; the error of a failed decompression is an execution error.\<close>

fun error_to_pb :: "(call_error \<Rightarrow> string) \<Rightarrow> call_error \<Rightarrow> pb_error" where
  "error_to_pb dbg (ExecutionError e) = PbExecute (dbg (ExecutionError e))"
| "error_to_pb dbg (PacketError e) = PbExecute (dbg (PacketError e))"
| "error_to_pb dbg DecodeError = PbProstDecode"
| "error_to_pb dbg EncodeError = PbProstEncode"
| "error_to_pb dbg (InvalidMethodIndex m s) = PbInvalidMethodIndex (ucast m) (dbg (InvalidMethodIndex m s))"
| "error_to_pb dbg (InvalidServiceKey s p) = PbInvalidService (dbg (InvalidServiceKey s p))"
| "error_to_pb dbg (MalformatRpcPacket e) = PbMalformat (dbg (MalformatRpcPacket e))"
| "error_to_pb dbg (TimeoutError e) = PbTimeout (dbg (TimeoutError e))"
| "error_to_pb dbg ShutdownError = PbOther (dbg ShutdownError)"

fun error_of_pb :: "pb_error \<Rightarrow> call_error" where
  "error_of_pb (PbExecute e) = ExecutionError e"
| "error_of_pb PbProstDecode = DecodeError"
| "error_of_pb PbProstEncode = EncodeError"
| "error_of_pb (PbInvalidMethodIndex m s) = InvalidMethodIndex (ucast m) s"
| "error_of_pb (PbInvalidService s) = InvalidServiceKey s []"
| "error_of_pb (PbMalformat e) = MalformatRpcPacket e"
| "error_of_pb (PbTimeout e) = ExecutionError e"
| "error_of_pb (PbOther e) = ExecutionError e"

section \<open>Service registry\<close>

record service_key =
  sk_domain_name :: string
  sk_service_name :: string
  sk_proto_name :: string

type_synonym rpc_service = "u8 \<Rightarrow> bytes \<Rightarrow> call_error + bytes"

type_synonym service_registry = "(service_key, rpc_service) store"

definition service_key_from :: "rpc_descriptor \<Rightarrow> service_key" where
  "service_key_from d = \<lparr>sk_domain_name = domain_name d, sk_service_name = service_name d, sk_proto_name = proto_name d\<rparr>"

definition registry_new :: service_registry where
  "registry_new = []"

definition register :: "service_key \<Rightarrow> rpc_service \<Rightarrow> service_registry \<Rightarrow> service_registry" where
  "register k h reg = st_insert k h reg"

definition unregister :: "service_key \<Rightarrow> service_registry \<Rightarrow> unit option \<times> service_registry" where
  "unregister k reg = (map_option (\<lambda>_. ()) (st_get reg k), st_remove k reg)"

definition unregister_by_domain :: "string \<Rightarrow> service_registry \<Rightarrow> service_registry" where
  "unregister_by_domain d reg = st_retain (\<lambda>k _. sk_domain_name k \<noteq> d) reg"

definition unregister_all :: "service_registry \<Rightarrow> service_registry" where
  "unregister_all reg = []"

definition replace_registry :: "service_registry \<Rightarrow> service_registry \<Rightarrow> service_registry" where
  "replace_registry other reg = fold (\<lambda>(k, v). st_insert k v) other []"

text \<open>The method index is truncated to a byte.\<close>

definition call_method :: "rpc_descriptor \<Rightarrow> bytes \<Rightarrow> service_registry \<Rightarrow> call_error + bytes" where
  "call_method d input reg = (case st_get reg (service_key_from d) of
     None \<Rightarrow> Inl (InvalidServiceKey (service_name d) (proto_name d))
   | Some h \<Rightarrow> h (ucast (method_index d)) input)"

section \<open>Messages\<close>

record rpc_request =
  rq_request :: bytes
  rq_timeout_ms :: int

record rpc_response =
  rp_response :: bytes
  rp_error :: "pb_error option"
  rp_runtime_us :: u64

record call_codec =
  request_encode :: "rpc_request \<Rightarrow> bytes"
  request_decode :: "bytes \<Rightarrow> rpc_request option"
  response_encode :: "rpc_response \<Rightarrow> bytes"
  response_decode :: "bytes \<Rightarrow> rpc_response option"

definition call_codec_correct :: "call_codec \<Rightarrow> bool" where
  "call_codec_correct k \<longleftrightarrow> (\<forall>r. request_decode k (request_encode k r) = Some r) \<and> (\<forall>r. response_decode k (response_encode k r) = Some r)"

text \<open>An unknown code counts as the invalid algorithm.\<close>

definition pb_of_i32 :: "int \<Rightarrow> compression_algo_pb" where
  "pb_of_i32 i = (if i = 1 then PbNone else if i = 2 then PbZstd else PbInvalid)"

definition info_default :: rpc_compression_info where
  "info_default = \<lparr>info_algo = 0, info_accepted_algo = 0\<rparr>"

section \<open>Server\<close>

type_synonym merger_key = "u32 \<times> u64"

record rpc_server =
  sv_registry :: service_registry
  sv_mergers :: "(merger_key, packet_merger) store"

definition merger_key_of :: "rpc_packet \<Rightarrow> merger_key" where
  "merger_key_of p = (rpc_from_peer p, transaction_id p)"

text \<open>A received packet; a complete request is handed to a task of its own.\<close>

definition server_receive :: "nat \<Rightarrow> rpc_packet \<Rightarrow> rpc_server \<Rightarrow> rpc_packet option \<times> rpc_server" where
  "server_receive now p sv =
     (if \<not> is_request p then (None, sv)
      else let key = merger_key_of p;
               m = (case st_get (sv_mergers sv) key of Some m \<Rightarrow> m | None \<Rightarrow> merger_new now);
               (r, m1) = feed now p m
           in case r of
                Inr (Some q) \<Rightarrow> (Some q, sv\<lparr>sv_mergers := st_remove key (sv_mergers sv)\<rparr>)
              | _ \<Rightarrow> (None, sv\<lparr>sv_mergers := st_insert key m1 (sv_mergers sv)\<rparr>))"

definition server_clean :: "nat \<Rightarrow> rpc_server \<Rightarrow> rpc_server" where
  "server_clean now sv = sv\<lparr>sv_mergers := st_retain (\<lambda>_ m. (now - last_updated m) div 1000 < 10) (sv_mergers sv)\<rparr>"

text \<open>\<^term>\<open>None\<close> is the panic of a request without a descriptor.\<close>

definition handle_rpc_request :: "zstd \<Rightarrow> call_codec \<Rightarrow> rpc_packet \<Rightarrow> service_registry \<Rightarrow> (call_error + bytes) option" where
  "handle_rpc_request z k p reg =
     (case (case compression_info p of
         Some i \<Rightarrow> (case decompress_packet z (pb_of_i32 (info_algo i)) (rpc_body p) of Inl e \<Rightarrow> Inl (PacketError e) | Inr b \<Rightarrow> Inr b)
       | None \<Rightarrow> Inr (rpc_body p)) of
      Inl e \<Rightarrow> Some (Inl e)
    | Inr body \<Rightarrow> (case request_decode k body of
        None \<Rightarrow> Some (Inl DecodeError)
      | Some rq \<Rightarrow> map_option (\<lambda>d. call_method d (rq_request rq) reg) (descriptor p)))"

definition response_of :: "(call_error \<Rightarrow> string) \<Rightarrow> u64 \<Rightarrow> call_error + bytes \<Rightarrow> rpc_response" where
  "response_of dbg runtime r = (case r of
     Inr b \<Rightarrow> \<lparr>rp_response = b, rp_error = None, rp_runtime_us = runtime\<rparr>
   | Inl e \<Rightarrow> \<lparr>rp_response = [], rp_error = Some (error_to_pb dbg e), rp_runtime_us = runtime\<rparr>)"

text \<open>The answer to a request; \<^term>\<open>None\<close> is a panic, of a missing descriptor or of the compression.\<close>

definition handle_rpc_args :: "zstd \<Rightarrow> call_codec \<Rightarrow> (call_error \<Rightarrow> string) \<Rightarrow> u64 \<Rightarrow> service_registry \<Rightarrow> rpc_packet \<Rightarrow> build_args option" where
  "handle_rpc_args z k dbg runtime reg p = do {
     desc \<leftarrow> descriptor p;
     r \<leftarrow> handle_rpc_request z k p reg;
     let accepted = pb_of_i32 (info_accepted_algo (case compression_info p of Some i \<Rightarrow> i | None \<Rightarrow> info_default))
     in (case compress_packet z accepted (response_encode k (response_of dbg runtime r)) of
           Inl e \<Rightarrow> None
         | Inr (compressed, alg) \<Rightarrow> Some \<lparr>arg_from_peer = rpc_to_peer p, arg_to_peer = rpc_from_peer p, rpc_desc = desc,
             arg_transaction_id = transaction_id p, is_req = False, content = compressed, arg_trace_id = trace_id p,
             arg_compression_info = \<lparr>info_algo = compression_algo_pb_i32 alg, info_accepted_algo = compression_algo_pb_i32 PbZstd\<rparr>\<rparr>)
   }"

definition handle_rpc :: "rpc_codec \<Rightarrow> (nat \<Rightarrow> u8) \<Rightarrow> zstd \<Rightarrow> call_codec \<Rightarrow> (call_error \<Rightarrow> string) \<Rightarrow> u64 \<Rightarrow> service_registry \<Rightarrow> rpc_packet
    \<Rightarrow> zc_packet list option" where
  "handle_rpc c g z k dbg runtime reg p = Option.bind (handle_rpc_args z k dbg runtime reg p) (build_rpc_packet c g)"

section \<open>Client\<close>

type_synonym inflight_key = "u32 \<times> u32 \<times> u64"

record rpc_client =
  cl_next_tid :: u64
  cl_inflight :: "(inflight_key, packet_merger) store"
  cl_peer_info :: "(u32, rpc_compression_info \<times> nat option) store"

text \<open>The first part of a call: a new transaction, and the request.  \<^term>\<open>None\<close> is the panic of a failed compression.\<close>

definition client_call :: "zstd \<Rightarrow> call_codec \<Rightarrow> nat \<Rightarrow> u32 \<Rightarrow> u32 \<Rightarrow> rpc_descriptor \<Rightarrow> u32 \<Rightarrow> rpc_request \<Rightarrow> rpc_client
    \<Rightarrow> (build_args \<times> rpc_client) option" where
  "client_call z k now from_peer to_peer desc trace rq cl =
     (let tid = cl_next_tid cl;
          cl1 = cl\<lparr>cl_next_tid := tid + 1, cl_inflight := st_insert (from_peer, to_peer, tid) (merger_new now) (cl_inflight cl)\<rparr>;
          info = (case st_get (cl_peer_info cl) to_peer of Some (i, _) \<Rightarrow> i | None \<Rightarrow> info_default)
      in case compress_packet z (pb_of_i32 (info_accepted_algo info)) (request_encode k rq) of
           Inl e \<Rightarrow> None
         | Inr (buf, alg) \<Rightarrow> Some (\<lparr>arg_from_peer = from_peer, arg_to_peer = to_peer, rpc_desc = desc, arg_transaction_id = tid, is_req = True,
             content = buf, arg_trace_id = trace,
             arg_compression_info = \<lparr>info_algo = compression_algo_pb_i32 alg, info_accepted_algo = compression_algo_pb_i32 PbZstd\<rparr>\<rparr>, cl1))"

definition inflight_key_of :: "rpc_packet \<Rightarrow> inflight_key" where
  "inflight_key_of p = (rpc_to_peer p, rpc_from_peer p, transaction_id p)"

text \<open>A received packet; a complete response goes to the call that waits for it.\<close>

definition client_receive :: "nat \<Rightarrow> rpc_packet \<Rightarrow> rpc_client \<Rightarrow> rpc_packet option \<times> rpc_client" where
  "client_receive now p cl =
     (if is_request p then (None, cl)
      else let key = inflight_key_of p
           in case st_get (cl_inflight cl) key of
                None \<Rightarrow> (None, cl)
              | Some m \<Rightarrow>
                  let (r, m1) = feed now p m; cl1 = cl\<lparr>cl_inflight := st_insert key m1 (cl_inflight cl)\<rparr>
                  in (case r of Inr q \<Rightarrow> q | Inl e \<Rightarrow> None, cl1))"

text \<open>The end of a call: the entry is removed in any case; \<^term>\<open>None\<close> is the failed assertion.\<close>

definition client_finish :: "zstd \<Rightarrow> call_codec \<Rightarrow> nat \<Rightarrow> u32 \<Rightarrow> u32 \<Rightarrow> u64 \<Rightarrow> rpc_packet \<Rightarrow> rpc_client
    \<Rightarrow> ((call_error + bytes) \<times> rpc_client) option" where
  "client_finish z k now from_peer to_peer tid p cl =
     (let cl1 = cl\<lparr>cl_inflight := st_remove (from_peer, to_peer, tid) (cl_inflight cl)\<rparr>;
          (body, cl2) = (case compression_info p of
             Some i \<Rightarrow> (case decompress_packet z (pb_of_i32 (info_algo i)) (rpc_body p) of Inl e \<Rightarrow> Inl (PacketError e) | Inr b \<Rightarrow> Inr b,
               cl1\<lparr>cl_peer_info := st_insert to_peer (i, Some now) (cl_peer_info cl1)\<rparr>)
           | None \<Rightarrow> (Inr (rpc_body p), cl1))
      in case body of
           Inl e \<Rightarrow> Some (Inl e, cl2)
         | Inr b \<Rightarrow>
             if transaction_id p \<noteq> tid then None
             else Some (case response_decode k b of
                 None \<Rightarrow> Inl DecodeError
               | Some r \<Rightarrow> (case rp_error r of Some e \<Rightarrow> Inl (error_of_pb e) | None \<Rightarrow> Inr (rp_response r)), cl2))"

text \<open>A call that is given up.\<close>

definition client_abort :: "u32 \<Rightarrow> u32 \<Rightarrow> u64 \<Rightarrow> rpc_client \<Rightarrow> rpc_client" where
  "client_abort from_peer to_peer tid cl = cl\<lparr>cl_inflight := st_remove (from_peer, to_peer, tid) (cl_inflight cl)\<rparr>"

definition client_clean :: "nat \<Rightarrow> rpc_client \<Rightarrow> rpc_client" where
  "client_clean now cl = cl\<lparr>cl_peer_info := st_retain (\<lambda>_ (_, t). case t of Some a \<Rightarrow> now - a < 120 * 1000 | None \<Rightarrow> True) (cl_peer_info cl)\<rparr>"

section \<open>Runs\<close>

text \<open>The packets that arrive, with the time; the result is what is handed on, with the key it arrived under.\<close>

fun receive_run :: "(nat \<Rightarrow> rpc_packet \<Rightarrow> 's \<Rightarrow> rpc_packet option \<times> 's) \<Rightarrow> (rpc_packet \<Rightarrow> 'k) \<Rightarrow> (nat \<times> rpc_packet) list \<Rightarrow> 's
    \<Rightarrow> ('k \<times> rpc_packet) list \<times> 's" where
  "receive_run recv key_of [] s = ([], s)"
| "receive_run recv key_of ((now, p) # evs) s =
     (let (q, s1) = recv now p s; (qs, s2) = receive_run recv key_of evs s1
      in (case q of Some x \<Rightarrow> (key_of p, x) # qs | None \<Rightarrow> qs, s2))"

text \<open>The pieces of a message, each arriving once, in any order and among other traffic.\<close>

definition arrives :: "(rpc_packet \<Rightarrow> bool) \<Rightarrow> rpc_packet list \<Rightarrow> (nat \<times> rpc_packet) list \<Rightarrow> bool" where
  "arrives mine ps evs \<longleftrightarrow> (\<exists>idx. distinct idx \<and> set idx = {..< length ps} \<and> map snd (filter (\<lambda>x. mine (snd x)) evs) = map (\<lambda>i. ps ! i) idx)"

lemma piece_facts:
  assumes "i < length (rpc_pieces c args)"
  shows "rpc_from_peer (rpc_pieces c args ! i) = arg_from_peer args" "rpc_to_peer (rpc_pieces c args ! i) = arg_to_peer args"
    "transaction_id (rpc_pieces c args ! i) = arg_transaction_id args" "is_request (rpc_pieces c args ! i) = is_req args"
  using rpc_pieces_nth [OF assms] by (simp_all add: build_rpc_piece_def)

text \<open>
  What server and client promise of the messages they collect.  \<open>wanted\<close> are the packets they look at, \<open>collected c args I s\<close>
  says that of the message \<open>args\<close> exactly the pieces in \<open>I\<close> have arrived.  Packets of other messages do not disturb
  a message, and the last piece completes it.
\<close>

locale message_receiver =
  fixes receive :: "nat \<Rightarrow> rpc_packet \<Rightarrow> 's \<Rightarrow> rpc_packet option \<times> 's"
    and key_of :: "rpc_packet \<Rightarrow> 'k"
    and wanted :: "rpc_packet \<Rightarrow> bool"
    and args_key :: "build_args \<Rightarrow> 'k"
    and collected :: "rpc_codec \<Rightarrow> build_args \<Rightarrow> nat set \<Rightarrow> 's \<Rightarrow> bool"
  assumes undisturbed: "\<not> (wanted p \<and> key_of p = args_key args) \<Longrightarrow> collected c args I s \<Longrightarrow> collected c args I (snd (receive now p s))"
    and unwanted: "\<not> wanted p \<Longrightarrow> fst (receive now p s) = None"
    and piece_key: "i < length (rpc_pieces c args) \<Longrightarrow> key_of (rpc_pieces c args ! i) = args_key args"
    and piece: "i < length (rpc_pieces c args) \<Longrightarrow> wanted (rpc_pieces c args ! i) \<Longrightarrow> length (rpc_pieces c args) \<le> 32 * 1024 \<Longrightarrow>
      I \<subseteq> {..< length (rpc_pieces c args)} \<Longrightarrow> collected c args I s \<Longrightarrow>
      fst (receive now (rpc_pieces c args ! i) s) = (if insert i I = {..< length (rpc_pieces c args)} then Some (merged_packet c args) else None)
      \<and> (insert i I \<noteq> {..< length (rpc_pieces c args)} \<longrightarrow> collected c args (insert i I) (snd (receive now (rpc_pieces c args ! i) s)))"
begin

lemma run_Cons:
  "filter (\<lambda>x. fst x = k) (fst (receive_run receive key_of ((now, p) # evs) s)) =
     (case fst (receive now p s) of Some q \<Rightarrow> if key_of p = k then [(k, q)] else [] | None \<Rightarrow> [])
     @ filter (\<lambda>x. fst x = k) (fst (receive_run receive key_of evs (snd (receive now p s))))"
  by (simp add: Let_def split_def split: option.split)

lemma other_packet: "\<not> (wanted p \<and> key_of p = k) \<Longrightarrow> fst (receive now p s) \<noteq> None \<Longrightarrow> key_of p \<noteq> k"
  using unwanted by metis

lemma run_nothing:
  "filter (\<lambda>x. wanted (snd x) \<and> key_of (snd x) = k) evs = [] \<Longrightarrow> filter (\<lambda>x. fst x = k) (fst (receive_run receive key_of evs s)) = []"
proof (induction evs arbitrary: s)
  case (Cons ev evs)
  obtain now p where ev: "ev = (now, p)" by fastforce
  with Cons.prems have "\<not> (wanted p \<and> key_of p = k)" by (auto split: if_splits)
  with other_packet [OF this, of now s] Cons.IH [of "snd (receive now p s)"] Cons.prems show ?case
    unfolding ev run_Cons by (auto split: option.split if_splits)
qed simp

lemma run_message:
  assumes n: "length (rpc_pieces c args) \<le> 32 * 1024"
  shows "map snd (filter (\<lambda>x. wanted (snd x) \<and> key_of (snd x) = args_key args) evs) = map (\<lambda>i. rpc_pieces c args ! i) idx \<Longrightarrow>
    distinct idx \<Longrightarrow> set idx \<inter> I = {} \<Longrightarrow> set idx \<union> I = {..< length (rpc_pieces c args)} \<Longrightarrow> idx \<noteq> [] \<Longrightarrow> collected c args I s \<Longrightarrow>
    filter (\<lambda>x. fst x = args_key args) (fst (receive_run receive key_of evs s)) = [(args_key args, merged_packet c args)]"
proof (induction evs arbitrary: idx I s)
  case (Cons ev evs)
  obtain now p where ev: "ev = (now, p)" by fastforce
  show ?case
  proof (cases "wanted p \<and> key_of p = args_key args")
    case False
    have q: "fst (receive now p s) \<noteq> None \<Longrightarrow> key_of p \<noteq> args_key args" by (rule other_packet [OF False])
    have "map snd (filter (\<lambda>x. wanted (snd x) \<and> key_of (snd x) = args_key args) evs) = map (\<lambda>i. rpc_pieces c args ! i) idx"
      using Cons.prems(1) False ev by auto
    from Cons.IH [OF this Cons.prems(2-5) undisturbed [OF False Cons.prems(6), of now]] q show ?thesis
      unfolding ev run_Cons by (auto split: option.split)
  next
    case True
    then obtain i idx' where idx: "idx = i # idx'" "p = rpc_pieces c args ! i"
        "map snd (filter (\<lambda>x. wanted (snd x) \<and> key_of (snd x) = args_key args) evs) = map (\<lambda>i. rpc_pieces c args ! i) idx'"
      using Cons.prems(1) ev by auto
    have i: "i < length (rpc_pieces c args)" "I \<subseteq> {..< length (rpc_pieces c args)}" using Cons.prems(4) idx(1) by auto
    note P = piece [OF i(1) _ n i(2) Cons.prems(6), of now, folded idx(2)]
    show ?thesis
    proof (cases "idx' = []")
      case last: True
      with Cons.prems(4) idx(1) have "insert i I = {..< length (rpc_pieces c args)}" by simp
      with P True have q: "fst (receive now p s) = Some (merged_packet c args)" by simp
      have "filter (\<lambda>x. wanted (snd x) \<and> key_of (snd x) = args_key args) evs = []" using idx(3) last by simp
      from run_nothing [OF this] q True show ?thesis unfolding ev run_Cons by simp
    next
      case more: False
      then obtain j where "j \<in> set idx'" by (cases idx') auto
      then have "j \<noteq> i" "j \<notin> I" "j \<in> {..< length (rpc_pieces c args)}"
        using Cons.prems(2,3) idx(1) unfolding Cons.prems(4) [symmetric] by auto
      then have "insert i I \<noteq> {..< length (rpc_pieces c args)}" by blast
      with P True have q: "fst (receive now p s) = None" "collected c args (insert i I) (snd (receive now p s))" by simp_all
      have "filter (\<lambda>x. fst x = args_key args) (fst (receive_run receive key_of evs (snd (receive now p s)))) = [(args_key args, merged_packet c args)]"
        using Cons.prems(2,3,4) idx(1) by (intro Cons.IH [OF idx(3) _ _ _ more q(2)]) auto
      with q(1) show ?thesis unfolding ev run_Cons by simp
    qed
  qed
qed simp

text \<open>A message whose pieces arrive is handed on exactly once.\<close>

lemma message_handed_on:
  assumes "length (rpc_pieces c args) \<le> 32 * 1024" and "arrives (\<lambda>p. wanted p \<and> key_of p = args_key args) (rpc_pieces c args) evs"
    and "collected c args {} s"
  shows "filter (\<lambda>x. fst x = args_key args) (fst (receive_run receive key_of evs s)) = [(args_key args, merged_packet c args)]"
proof -
  obtain idx where idx: "distinct idx" "set idx = {..< length (rpc_pieces c args)}"
    "map snd (filter (\<lambda>x. wanted (snd x) \<and> key_of (snd x) = args_key args) evs) = map (\<lambda>i. rpc_pieces c args ! i) idx"
    using assms(2) by (auto simp: arrives_def)
  have "0 \<in> set idx" unfolding idx(2) using rpc_pieces_nonempty [of c args] by simp
  then have "idx \<noteq> []" by (cases idx) simp_all
  from run_message [OF assms(1) idx(3,1) _ _ this assms(3)] idx(2) show ?thesis by simp
qed

end

text \<open>What a merger holds: nothing of the message, or the pieces in \<open>I\<close>.\<close>

definition merging :: "rpc_codec \<Rightarrow> build_args \<Rightarrow> nat set \<Rightarrow> packet_merger \<Rightarrow> bool" where
  "merging c args I m \<longleftrightarrow> other_message args m \<and> I = {} \<or> holds_pieces c args I m"

lemma feed_merging:
  assumes "i < length (rpc_pieces c args)" "length (rpc_pieces c args) \<le> 32 * 1024" "merging c args I m" "I \<subseteq> {..< length (rpc_pieces c args)}"
  shows "fst (feed now (rpc_pieces c args ! i) m) = Inr (if insert i I = {..< length (rpc_pieces c args)} then Some (merged_packet c args) else None)
    \<and> merging c args (insert i I) (snd (feed now (rpc_pieces c args ! i) m))"
  using feed_piece [OF assms(1,2) assms(3) [unfolded merging_def] assms(4), of now] by (metis fst_conv merging_def snd_conv)

lemma merger_new_merging: "merging c args {} (merger_new now)"
  by (simp add: merging_def other_message_def merger_new_def)

definition server_collected :: "rpc_codec \<Rightarrow> build_args \<Rightarrow> nat set \<Rightarrow> rpc_server \<Rightarrow> bool" where
  "server_collected c args I sv \<longleftrightarrow> (case st_get (sv_mergers sv) (arg_from_peer args, arg_transaction_id args) of
     None \<Rightarrow> I = {} | Some m \<Rightarrow> merging c args I m)"

lemma server_receive_other:
  "\<not> (is_request p \<and> merger_key_of p = key) \<Longrightarrow> st_get (sv_mergers (snd (server_receive now p sv))) key = st_get (sv_mergers sv) key"
  by (auto simp: server_receive_def Let_def split_def store_simps split: sum.splits option.splits)

interpretation rpc_sv: message_receiver server_receive merger_key_of is_request "\<lambda>args. (arg_from_peer args, arg_transaction_id args)" server_collected
proof unfold_locales
  fix p args c I sv now
  assume a: "\<not> (is_request p \<and> merger_key_of p = (arg_from_peer args, arg_transaction_id args))" and "server_collected c args I sv"
  then show "server_collected c args I (snd (server_receive now p sv))" unfolding server_collected_def server_receive_other [OF a] by simp
next
  fix i c args I sv now
  assume i: "i < length (rpc_pieces c args)" and w: "is_request (rpc_pieces c args ! i)" and n: "length (rpc_pieces c args) \<le> 32 * 1024"
    and I: "I \<subseteq> {..< length (rpc_pieces c args)}" and s: "server_collected c args I sv"
  define m0 where "m0 = (case st_get (sv_mergers sv) (arg_from_peer args, arg_transaction_id args) of Some m \<Rightarrow> m | None \<Rightarrow> merger_new now)"
  have "merging c args I m0" using s merger_new_merging by (auto simp: m0_def server_collected_def split: option.splits)
  note F = feed_merging [OF i n this I, of now]
  have k: "merger_key_of (rpc_pieces c args ! i) = (arg_from_peer args, arg_transaction_id args)"
    using piece_facts [OF i] by (simp add: merger_key_of_def)
  show "fst (server_receive now (rpc_pieces c args ! i) sv) = (if insert i I = {..< length (rpc_pieces c args)} then Some (merged_packet c args) else None)
      \<and> (insert i I \<noteq> {..< length (rpc_pieces c args)} \<longrightarrow> server_collected c args (insert i I) (snd (server_receive now (rpc_pieces c args ! i) sv)))"
    using F k w by (simp add: server_receive_def m0_def [symmetric] Let_def split_def server_collected_def store_simps)
qed (simp_all add: server_receive_def merger_key_of_def piece_facts)

definition client_collected :: "rpc_codec \<Rightarrow> build_args \<Rightarrow> nat set \<Rightarrow> rpc_client \<Rightarrow> bool" where
  "client_collected c args I cl \<longleftrightarrow> (\<exists>m. st_get (cl_inflight cl) (arg_to_peer args, arg_from_peer args, arg_transaction_id args) = Some m \<and> merging c args I m)"

lemma client_receive_other:
  "\<not> (\<not> is_request p \<and> inflight_key_of p = key) \<Longrightarrow> st_get (cl_inflight (snd (client_receive now p cl))) key = st_get (cl_inflight cl) key"
  by (auto simp: client_receive_def Let_def split_def store_simps split: option.splits)

interpretation rpc_cl: message_receiver client_receive inflight_key_of "\<lambda>p. \<not> is_request p"
    "\<lambda>args. (arg_to_peer args, arg_from_peer args, arg_transaction_id args)" client_collected
proof unfold_locales
  fix p args c I cl now
  assume a: "\<not> (\<not> is_request p \<and> inflight_key_of p = (arg_to_peer args, arg_from_peer args, arg_transaction_id args))" and "client_collected c args I cl"
  then show "client_collected c args I (snd (client_receive now p cl))" unfolding client_collected_def client_receive_other [OF a] by simp
next
  fix i c args I cl now
  assume i: "i < length (rpc_pieces c args)" and w: "\<not> is_request (rpc_pieces c args ! i)" and n: "length (rpc_pieces c args) \<le> 32 * 1024"
    and I: "I \<subseteq> {..< length (rpc_pieces c args)}" and s: "client_collected c args I cl"
  obtain m where m: "st_get (cl_inflight cl) (arg_to_peer args, arg_from_peer args, arg_transaction_id args) = Some m" "merging c args I m"
    using s by (auto simp: client_collected_def)
  note F = feed_merging [OF i n m(2) I, of now]
  have k: "inflight_key_of (rpc_pieces c args ! i) = (arg_to_peer args, arg_from_peer args, arg_transaction_id args)"
    using piece_facts [OF i] by (simp add: inflight_key_of_def)
  show "fst (client_receive now (rpc_pieces c args ! i) cl) = (if insert i I = {..< length (rpc_pieces c args)} then Some (merged_packet c args) else None)
      \<and> (insert i I \<noteq> {..< length (rpc_pieces c args)} \<longrightarrow> client_collected c args (insert i I) (snd (client_receive now (rpc_pieces c args ! i) cl)))"
    using F k w m(1) by (simp add: client_receive_def Let_def split_def client_collected_def store_simps)
qed (simp_all add: client_receive_def inflight_key_of_def piece_facts)

section \<open>Calls\<close>

lemma pb_of_i32_inv [simp]: "pb_of_i32 (compression_algo_pb_i32 a) = a"
  by (cases a) (simp_all add: pb_of_i32_def)

lemma recovered:
  "zstd_correct z \<Longrightarrow> compress_packet z acc body = Inr (buf, alg) \<Longrightarrow> length body \<le> 64 * 1024 \<Longrightarrow> decompress_packet z alg buf = Inr body"
  using body_recovered [of z acc body buf alg] by (auto simp: decompress_limit_def max_def)

lemma merged_facts [simp]:
  "rpc_body (merged_packet c args) = content args" "descriptor (merged_packet c args) = Some (rpc_desc args)"
  "compression_info (merged_packet c args) = Some (arg_compression_info args)" "transaction_id (merged_packet c args) = arg_transaction_id args"
  "rpc_from_peer (merged_packet c args) = arg_from_peer args" "rpc_to_peer (merged_packet c args) = arg_to_peer args"
  using rpc_pieces_nonempty [of c args] rpc_pieces_nth [of 0 c args] by (simp_all add: merged_packet_def build_rpc_piece_def)

lemma client_callD:
  assumes "client_call z k now from_peer to_peer desc trace rq cl = Some (args, cl1)"
  shows "arg_from_peer args = from_peer" "arg_to_peer args = to_peer" "rpc_desc args = desc" "arg_transaction_id args = cl_next_tid cl"
    "st_get (cl_inflight cl1) (from_peer, to_peer, cl_next_tid cl) = Some (merger_new now)"
    "zstd_correct z \<Longrightarrow> length (request_encode k rq) \<le> 64 * 1024 \<Longrightarrow>
      decompress_packet z (pb_of_i32 (info_algo (arg_compression_info args))) (content args) = Inr (request_encode k rq)"
  using assms recovered by (auto simp: client_call_def Let_def store_simps split: sum.splits)

lemma handle_argsD:
  assumes "handle_rpc_args z k dbg runtime reg p = Some args" and "handle_rpc_request z k p reg = Some r"
  shows "arg_from_peer args = rpc_to_peer p" "arg_to_peer args = rpc_from_peer p" "arg_transaction_id args = transaction_id p" "\<not> is_req args"
    "zstd_correct z \<Longrightarrow> length (response_encode k (response_of dbg runtime r)) \<le> 64 * 1024 \<Longrightarrow>
      decompress_packet z (pb_of_i32 (info_algo (arg_compression_info args))) (content args) = Inr (response_encode k (response_of dbg runtime r))"
  using assms recovered by (auto simp: handle_rpc_args_def Let_def split: sum.splits bind_splits)

text \<open>What the caller sees of the answer of the service: errors go through their codes.\<close>

definition seen_by_caller :: "(call_error \<Rightarrow> string) \<Rightarrow> call_error + bytes \<Rightarrow> call_error + bytes" where
  "seen_by_caller dbg r = (case r of Inr b \<Rightarrow> Inr b | Inl e \<Rightarrow> Inl (error_of_pb (error_to_pb dbg e)))"

lemma client_finish_result:
  assumes k: "call_codec_correct k" and c: "compression_info p = Some i" and t: "transaction_id p = tid"
    and d: "decompress_packet z (pb_of_i32 (info_algo i)) (rpc_body p) = Inr (response_encode k (response_of dbg runtime r))"
  shows "map_option fst (client_finish z k now from_peer to_peer tid p cl) = Some (seen_by_caller dbg r)"
  using k c t d by (simp add: client_finish_def call_codec_correct_def seen_by_caller_def response_of_def Let_def split: sum.split)

text \<open>
  C13: a remote call returns the answer of the service.  A client sends a request of at most 64 KiB; each of
  its packets reaches a server that holds nothing of it exactly once, in any order and among any other
  traffic, with no clean-up of the server in between.  Then exactly one request is handed to the handler
  for this call, complete.  When the handler produces an answer, of at most 64 KiB and at most 32768 packets,
  and each packet of the answer reaches the client exactly once, in any order and among any other traffic,
  exactly one response is given to the waiting call.  The call returns the very bytes the service returned
  for the service, method and input of the call; an error of the service comes back as the error its code on
  the wire stands for, which is not always the same error.
\<close>

theorem rpc_call_returns:
  assumes "zstd_correct z" and "call_codec_correct k"
    and "client_call z k now from_peer to_peer desc trace rq cl = Some (args, cl1)"
    and "length (request_encode k rq) \<le> 64 * 1024" and "length (rpc_pieces c args) \<le> 32 * 1024"
    and "st_get (sv_mergers sv) (from_peer, cl_next_tid cl) = None"
    and "arrives (\<lambda>p. is_request p \<and> merger_key_of p = (from_peer, cl_next_tid cl)) (rpc_pieces c args) evs"
    and "handle_rpc_args z k dbg runtime reg (merged_packet c args) = Some args'"
    and "length (response_encode k (response_of dbg runtime (call_method desc (rq_request rq) reg))) \<le> 64 * 1024"
    and "length (rpc_pieces c args') \<le> 32 * 1024"
    and "arrives (\<lambda>p. \<not> is_request p \<and> inflight_key_of p = (from_peer, to_peer, cl_next_tid cl)) (rpc_pieces c args') evs'"
  shows "filter (\<lambda>x. fst x = (from_peer, cl_next_tid cl)) (fst (receive_run server_receive merger_key_of evs sv))
      = [((from_peer, cl_next_tid cl), merged_packet c args)]
    \<and> filter (\<lambda>x. fst x = (from_peer, to_peer, cl_next_tid cl)) (fst (receive_run client_receive inflight_key_of evs' cl1))
      = [((from_peer, to_peer, cl_next_tid cl), merged_packet c args')]
    \<and> map_option fst (client_finish z k now' from_peer to_peer (cl_next_tid cl) (merged_packet c args') cl2)
      = Some (seen_by_caller dbg (call_method desc (rq_request rq) reg))"
proof -
  note C = client_callD [OF assms(3)]
  have 1: "filter (\<lambda>x. fst x = (from_peer, cl_next_tid cl)) (fst (receive_run server_receive merger_key_of evs sv))
      = [((from_peer, cl_next_tid cl), merged_packet c args)]"
    using rpc_sv.message_handed_on [OF assms(5), of evs sv] assms(6,7) C(1,4) by (simp add: server_collected_def)
  have rq: "request_decode k (request_encode k rq) = Some rq" using assms(2) by (simp add: call_codec_correct_def)
  have h: "handle_rpc_request z k (merged_packet c args) reg = Some (call_method desc (rq_request rq) reg)"
    using C(6) [OF assms(1,4)] rq C(3) by (simp add: handle_rpc_request_def)
  note H = handle_argsD [OF assms(8) h]
  have "client_collected c args' {} cl1"
    using C(5) H(1-3) C(1,2,4) merger_new_merging by (simp add: client_collected_def)
  then have 2: "filter (\<lambda>x. fst x = (from_peer, to_peer, cl_next_tid cl)) (fst (receive_run client_receive inflight_key_of evs' cl1))
      = [((from_peer, to_peer, cl_next_tid cl), merged_packet c args')]"
    using rpc_cl.message_handed_on [OF assms(10), of evs' cl1] assms(11) H(1-3) C(1,2,4) by simp
  have 3: "map_option fst (client_finish z k now' from_peer to_peer (cl_next_tid cl) (merged_packet c args') cl2)
      = Some (seen_by_caller dbg (call_method desc (rq_request rq) reg))"
    using H(3) C(4) H(5) [OF assms(1,9)] by (intro client_finish_result [OF assms(2), of _ "arg_compression_info args'" _ _ dbg runtime]) simp_all
  from 1 2 3 show ?thesis by blast
qed

text \<open>
  A request without a descriptor stops the server.  A single packet in the old format, without piece
  numbers and without a descriptor, is handed on as a complete request, and handling it panics.
\<close>

lemma undescribed_request_panics:
  assumes "is_request p" and "total_pieces p = 0" and "piece_idx p = 0" and "descriptor p = None"
  shows "fst (server_receive now p sv) = Some p \<and> handle_rpc c g z k dbg runtime reg p = None"
  using assms by (simp add: server_receive_def feed_def Let_def handle_rpc_def handle_rpc_args_def)

section \<open>A concrete call\<close>

fun pb_code :: "pb_error \<Rightarrow> int \<times> string \<times> u32" where
  "pb_code (PbExecute e) = (0, e, 0)"
| "pb_code PbProstDecode = (1, [], 0)"
| "pb_code PbProstEncode = (2, [], 0)"
| "pb_code (PbInvalidMethodIndex m e) = (3, e, m)"
| "pb_code (PbInvalidService e) = (4, e, 0)"
| "pb_code (PbMalformat e) = (5, e, 0)"
| "pb_code (PbTimeout e) = (6, e, 0)"
| "pb_code (PbOther e) = (7, e, 0)"

definition pb_decode :: "int \<times> string \<times> u32 \<Rightarrow> pb_error" where
  "pb_decode x = (case x of (t, e, m) \<Rightarrow>
     if t = 0 then PbExecute e else if t = 1 then PbProstDecode else if t = 2 then PbProstEncode else if t = 3 then PbInvalidMethodIndex m e
     else if t = 4 then PbInvalidService e else if t = 5 then PbMalformat e else if t = 6 then PbTimeout e else PbOther e)"

lemma pb_decode_code [simp]: "pb_decode (pb_code e) = e"
  by (cases e) (simp_all add: pb_decode_def)

definition wr_pb :: "pb_error \<Rightarrow> bytes" where
  "wr_pb e = (case pb_code e of (t, s, m) \<Rightarrow> wr_int t @ wr_str s @ to_le_bytes 4 m)"

definition rd_pb :: "bytes \<Rightarrow> (pb_error \<times> bytes) option" where
  "rd_pb bs = do { (t, bs) \<leftarrow> rd_int bs; (s, bs) \<leftarrow> rd_str bs; (m, bs) \<leftarrow> rd_u32 bs; Some (pb_decode (t, s, m), bs) }"

lemma rd_pb_inv [simp]: "rd_pb (wr_pb e @ r) = Some (e, r)"
  by (cases "pb_code e") (simp add: wr_pb_def rd_pb_def, metis pb_decode_code)

definition toy_call_codec :: call_codec where
  "toy_call_codec = \<lparr>request_encode = (\<lambda>r. wr_int (rq_timeout_ms r) @ rq_request r),
     request_decode = (\<lambda>bs. map_option (\<lambda>(t, b). \<lparr>rq_request = b, rq_timeout_ms = t\<rparr>) (rd_int bs)),
     response_encode = (\<lambda>r. (case rp_error r of None \<Rightarrow> [0] | Some e \<Rightarrow> 1 # wr_pb e) @ to_le_bytes 8 (rp_runtime_us r) @ rp_response r),
     response_decode = (\<lambda>bs. do { (e, bs) \<leftarrow> rd_opt rd_pb bs; (t, bs) \<leftarrow> rd_u64 bs; Some \<lparr>rp_response = bs, rp_error = e, rp_runtime_us = t\<rparr> })\<rparr>"

lemma toy_call_codec_correct: "call_codec_correct toy_call_codec"
  by (auto simp: call_codec_correct_def toy_call_codec_def rd_opt_def split: option.split)

lemma pieces_arrive:
  assumes "\<And>i. i < length ps \<Longrightarrow> mine (ps ! i)"
  shows "arrives mine ps (map (Pair t) ps)"
proof -
  have all: "\<forall>p \<in> set ps. mine p" using assms by (metis in_set_conv_nth)
  then have "filter (\<lambda>x. mine (snd x)) (map (Pair t) ps) = map (Pair t) ps" by (auto intro: filter_True)
  then show ?thesis unfolding arrives_def by (intro exI [of _ "[0 ..< length ps]"]) (auto simp: map_nth comp_def)
qed

lemma few_pieces: "length (rpc_pieces c args) \<le> max 1 (length (content args))"
  using split_from_length [of c _ _ _ True "length (content args)" 0]
  by (auto simp: rpc_pieces_def split_rpc_content_for_udp_budget_def Let_def le_max_iff_disj)

definition toy_desc :: rpc_descriptor where
  "toy_desc = \<lparr>domain_name = ''net'', proto_name = ''p'', service_name = ''s'', method_index = 3\<rparr>"

definition toy_registry :: service_registry where
  "toy_registry = register (service_key_from toy_desc) (\<lambda>m input. if m = 3 then Inr (rev input) else Inl (InvalidMethodIndex m [])) registry_new"

definition toy_client :: rpc_client where
  "toy_client = \<lparr>cl_next_tid = - 1, cl_inflight = [], cl_peer_info = []\<rparr>"

definition toy_call_args :: build_args where
  "toy_call_args = \<lparr>arg_from_peer = 5, arg_to_peer = 6, rpc_desc = toy_desc, arg_transaction_id = - 1, is_req = True, content = [0, 0, 1, 2],
     arg_trace_id = 0, arg_compression_info = \<lparr>info_algo = 1, info_accepted_algo = 2\<rparr>\<rparr>"

definition toy_answer_args :: build_args where
  "toy_answer_args = \<lparr>arg_from_peer = 6, arg_to_peer = 5, rpc_desc = toy_desc, arg_transaction_id = - 1, is_req = False,
     content = [0] @ to_le_bytes 8 (9 :: u64) @ [2, 1], arg_trace_id = trace_id (merged_packet toy_codec toy_call_args),
     arg_compression_info = \<lparr>info_algo = 1, info_accepted_algo = 2\<rparr>\<rparr>"

theorem rpc_call_returns_witness:
  "map_option fst (client_finish toy_squeeze toy_call_codec 0 5 6 (- 1) (merged_packet toy_codec toy_answer_args) toy_client) = Some (Inr [2, 1])"
proof -
  have z: "zstd_correct toy_squeeze" by (auto simp: zstd_correct_def toy_squeeze_def Let_def)
  have call: "client_call toy_squeeze toy_call_codec 0 5 6 toy_desc 0 \<lparr>rq_request = [1, 2], rq_timeout_ms = 0\<rparr> toy_client
      = Some (toy_call_args, toy_client\<lparr>cl_next_tid := 0, cl_inflight := st_insert (5, 6, - 1) (merger_new 0) []\<rparr>)"
    by (simp add: client_call_def toy_client_def toy_call_codec_def compress_packet_def algo_of_pb_def pb_of_algo_def compress_raw_def
        info_default_def pb_of_i32_def toy_call_args_def Let_def wr_int_def store_simps)
  have m: "call_method toy_desc [1, 2] toy_registry = Inr [2, 1]"
    by (simp add: call_method_def toy_registry_def register_def registry_new_def store_simps toy_desc_def)
  have d: "decompress_packet toy_squeeze (pb_of_i32 1) [0, 0, 1, 2] = Inr [0, 0, 1, 2]"
    by (simp add: decompress_packet_def pb_of_i32_def algo_of_pb_def decompress_raw_def)
  have rq: "request_decode toy_call_codec [0, 0, 1, 2] = Some \<lparr>rq_request = [1, 2], rq_timeout_ms = 0\<rparr>"
    by (simp add: toy_call_codec_def)
  have resp: "response_encode toy_call_codec (response_of (\<lambda>_. []) 9 (Inr [2, 1])) = [0] @ to_le_bytes 8 (9 :: u64) @ [2, 1]"
    by (simp add: toy_call_codec_def response_of_def)
  have h: "handle_rpc_request toy_squeeze toy_call_codec (merged_packet toy_codec toy_call_args) toy_registry = Some (Inr [2, 1])"
    using d rq m by (simp add: handle_rpc_request_def toy_call_args_def)
  have cp: "compress_packet toy_squeeze (pb_of_i32 2) body = Inr (body, PbNone)" if "length body < 20" for body
    using that by (auto simp: compress_packet_def pb_of_i32_def algo_of_pb_def compress_raw_def toy_squeeze_def)
  have a: "handle_rpc_args toy_squeeze toy_call_codec (\<lambda>_. []) 9 toy_registry (merged_packet toy_codec toy_call_args) = Some toy_answer_args"
    using h resp cp [of "[0] @ to_le_bytes 8 (9 :: u64) @ [2, 1]"]
    by (simp add: handle_rpc_args_def toy_answer_args_def toy_call_args_def)
  have n: "length (rpc_pieces toy_codec toy_call_args) \<le> 32 * 1024" "length (rpc_pieces toy_codec toy_answer_args) \<le> 32 * 1024"
    using few_pieces [of toy_codec toy_call_args] few_pieces [of toy_codec toy_answer_args] by (simp_all add: toy_call_args_def toy_answer_args_def)
  have e: "arrives (\<lambda>p. is_request p \<and> merger_key_of p = (5, - 1)) (rpc_pieces toy_codec toy_call_args) (map (Pair 0) (rpc_pieces toy_codec toy_call_args))"
    by (rule pieces_arrive) (simp add: merger_key_of_def piece_facts, simp add: toy_call_args_def)
  have e': "arrives (\<lambda>p. \<not> is_request p \<and> inflight_key_of p = (5, 6, - 1)) (rpc_pieces toy_codec toy_answer_args)
      (map (Pair 0) (rpc_pieces toy_codec toy_answer_args))"
    by (rule pieces_arrive) (simp add: inflight_key_of_def piece_facts, simp add: toy_answer_args_def)
  have tid: "cl_next_tid toy_client = - 1" by (simp add: toy_client_def)
  have l: "length (request_encode toy_call_codec \<lparr>rq_request = [1, 2], rq_timeout_ms = 0\<rparr>) \<le> 64 * 1024"
      "length (response_encode toy_call_codec (response_of (\<lambda>_. []) 9 (call_method toy_desc (rq_request \<lparr>rq_request = [1, 2], rq_timeout_ms = 0\<rparr>) toy_registry))) \<le> 64 * 1024"
    using resp m by (simp_all add: toy_call_codec_def wr_int_def)
  show ?thesis
    using rpc_call_returns [OF z toy_call_codec_correct call l(1) n(1) _ _ a l(2) n(2), of "\<lparr>sv_registry = [], sv_mergers = []\<rparr>",
        unfolded tid, OF _ e e', of 0 toy_client] m
    by (simp add: seen_by_caller_def st_get_def)
qed

lemma undescribed_request_panics_witness:
  "handle_rpc toy_codec (\<lambda>_. 0) toy_squeeze toy_call_codec (\<lambda>_. []) 0 toy_registry (rpc_packet_default\<lparr>is_request := True\<rparr>) = None"
  using undescribed_request_panics [of "rpc_packet_default\<lparr>is_request := True\<rparr>"] by (simp add: rpc_packet_default_def)

end
