(* ===== verification/Peer_Map.thy ===== *)
theory Peer_Map
  imports Packet_Def Route_Service
begin

text \<open>
  Connected peers: a peer with its connections (\<^verbatim>\<open>peers/peer.rs\<close>), the map of all connected peers
  (\<^verbatim>\<open>peers/peer_map.rs\<close>) and the client side of foreign networks (\<^verbatim>\<open>peers/foreign_network_client.rs\<close>), which
  is a second such map.

  A connection is what these files read of a \<^verbatim>\<open>PeerConn\<close>.  Packets leave as values of \<open>outgoing\<close>; whether the
  tunnel of a connection takes a packet is the argument \<open>up\<close>.  The router behind the \<^verbatim>\<open>Route\<close> trait is a record of
  functions.  Events for the user interface are left out.  Adding a connection awaits in between and is also given in
  its atomic parts, which other tasks may come between.
\<close>

section \<open>Peers and their connections\<close>

record peer_conn =
  pc_id :: u128
  pc_node_id :: peer_id
  pc_identity :: peer_identity
  pc_pubkey :: bytes
  pc_latency_us :: u64
  pc_closed :: bool
  pc_hole_punched :: bool
  pc_client_url :: "string option"

record peer =
  peer_node_id :: peer_id
  peer_conns :: "(u128, peer_conn) store"
  default_conn_id :: u128
  peer_identity_type :: "peer_identity option"
  peer_public_key :: "bytes option"

datatype pm_error = SecretKeyError | PeerNoConnectionError peer_id | RouteError | NotFound | SinkError | OtherError

datatype outgoing = To_Self zc_packet | To_Conn peer_id u128 zc_packet

definition peer_new :: "peer_id \<Rightarrow> peer" where
  "peer_new i = \<lparr>peer_node_id = i, peer_conns = [], default_conn_id = 0, peer_identity_type = None, peer_public_key = None\<rparr>"

text \<open>
  The atomic parts of \<^verbatim>\<open>add_peer_conn\<close>: the identity type read before is tested, and set when there was none; the
  public key is tested or set under its lock; the connection is inserted.
\<close>

definition test_type :: "peer_conn \<Rightarrow> peer_identity option \<Rightarrow> peer \<Rightarrow> pm_error + peer" where
  "test_type c loaded p =
     (case loaded of
        Some t \<Rightarrow> if t \<noteq> pc_identity c then Inl SecretKeyError else Inr p
      | None \<Rightarrow> Inr (p\<lparr>peer_identity_type := Some (pc_identity c)\<rparr>))"

definition test_key :: "peer_conn \<Rightarrow> peer \<Rightarrow> pm_error + peer" where
  "test_key c p =
     (case peer_public_key p of
        Some k \<Rightarrow> if k \<noteq> pc_pubkey c then Inl SecretKeyError else Inr p
      | None \<Rightarrow> Inr (p\<lparr>peer_public_key := Some (pc_pubkey c)\<rparr>))"

definition insert_conn :: "peer_conn \<Rightarrow> peer \<Rightarrow> peer" where
  "insert_conn c p = p\<lparr>peer_conns := st_insert (pc_id c) c (peer_conns p)\<rparr>"

definition add_peer_conn :: "peer_conn \<Rightarrow> peer \<Rightarrow> (pm_error + unit) \<times> peer" where
  "add_peer_conn c p =
     (case test_type c (peer_identity_type p) p of
        Inl e \<Rightarrow> (Inl e, p)
      | Inr p1 \<Rightarrow> (case test_key c p1 of
          Inl e \<Rightarrow> (Inl e, p1)
        | Inr p2 \<Rightarrow> (Inr (), insert_conn c p2)))"

lemmas add_parts = test_type_def test_key_def insert_conn_def

text \<open>The listener of close events and the task that forgets the default connection.\<close>

definition on_conn_closed :: "u128 \<Rightarrow> peer \<Rightarrow> peer" where
  "on_conn_closed i p =
     (case st_get (peer_conns p) i of
        None \<Rightarrow> p
      | Some c \<Rightarrow> let p1 = p\<lparr>peer_conns := st_remove i (peer_conns p)\<rparr>
          in if peer_conns p1 = [] then p1\<lparr>peer_identity_type := None, peer_public_key := None\<rparr> else p1)"

definition clear_default_conn :: "peer \<Rightarrow> peer" where
  "clear_default_conn p = (if 1 < length (peer_conns p) then p\<lparr>default_conn_id := 0\<rparr> else p)"

text \<open>The loop of \<^verbatim>\<open>select_conn\<close>: the least latency so far and the connection that has it.\<close>

fun least_latency :: "(u128, peer_conn) store \<Rightarrow> u64 \<Rightarrow> u128 \<Rightarrow> u128" where
  "least_latency [] m d = d"
| "least_latency ((i, c) # cs) m d =
     (if pc_latency_us c < m then least_latency cs (pc_latency_us c) (pc_id c) else least_latency cs m d)"

definition select_conn :: "peer \<Rightarrow> peer_conn option \<times> peer" where
  "select_conn p =
     (case st_get (peer_conns p) (default_conn_id p) of
        Some c \<Rightarrow> (Some c, p)
      | None \<Rightarrow> let d = least_latency (peer_conns p) (- 1) (default_conn_id p)
          in (st_get (peer_conns p) d, p\<lparr>default_conn_id := d\<rparr>))"

definition peer_send_msg :: "(u128 \<Rightarrow> bool) \<Rightarrow> zc_packet \<Rightarrow> peer \<Rightarrow> (pm_error + outgoing) \<times> peer" where
  "peer_send_msg up msg p =
     (case select_conn p of
        (None, p1) \<Rightarrow> (Inl (PeerNoConnectionError (peer_node_id p)), p1)
      | (Some c, p1) \<Rightarrow> (if up (pc_id c) then Inr (To_Conn (peer_node_id p) (pc_id c) msg) else Inl SinkError, p1))"

text \<open>The result is the close event that is sent.\<close>

definition peer_close_conn :: "u128 \<Rightarrow> peer \<Rightarrow> pm_error + u128" where
  "peer_close_conn i p = (if st_get (peer_conns p) i = None then Inl NotFound else Inr i)"

text \<open>Connections that are open, and the close events for the others.\<close>

definition peer_list_conns :: "peer \<Rightarrow> peer_conn list \<times> u128 list" where
  "peer_list_conns p =
     (let cs = map snd (peer_conns p)
      in (filter (\<lambda>c. \<not> pc_closed c) cs, map pc_id (filter pc_closed cs)))"

definition has_live_conns :: "peer \<Rightarrow> bool" where
  "has_live_conns p \<longleftrightarrow> (\<exists>c \<in> set (map snd (peer_conns p)). \<not> pc_closed c)"

definition has_directly_connected_conn :: "peer \<Rightarrow> bool" where
  "has_directly_connected_conn p \<longleftrightarrow> (\<exists>c \<in> set (map snd (peer_conns p)). \<not> pc_closed c \<and> \<not> pc_hole_punched c)"

definition get_directly_connections :: "peer \<Rightarrow> u128 list" where
  "get_directly_connections p = map pc_id (filter (\<lambda>c. \<not> pc_hole_punched c) (map snd (peer_conns p)))"

section \<open>The peer map\<close>

text \<open>What the peer map asks of a router; \<open>via_list_routes\<close> has the peer, its next hop and its IPv4 address.\<close>

record route_iface =
  via_next_hop :: "peer_id \<Rightarrow> next_hop_policy \<Rightarrow> peer_id option"
  via_peer_id_by_ipv4 :: "u32 \<Rightarrow> peer_id option"
  via_peer_id_by_ipv6 :: "u128 \<Rightarrow> peer_id option"
  via_peer_info :: "peer_id \<Rightarrow> route_peer_info option"
  via_origin_my_peer_id :: "bytes \<Rightarrow> peer_id \<Rightarrow> peer_id option"
  via_list_routes :: "(peer_id \<times> peer_id \<times> u32 option) list"

record peer_map =
  map_my_peer_id :: peer_id
  map_peers :: "(peer_id, peer) store"
  map_routes :: "route_iface list"
  alive_client_urls :: "(string, u128 list) store"

definition peer_map_new :: "peer_id \<Rightarrow> peer_map" where
  "peer_map_new me = \<lparr>map_my_peer_id = me, map_peers = [], map_routes = [], alive_client_urls = []\<rparr>"

text \<open>A multimap keeps the values of a key in the order of their insertion.\<close>

definition maintain_alive_client_urls :: "peer_conn \<Rightarrow> peer_map \<Rightarrow> peer_map" where
  "maintain_alive_client_urls c m =
     (case pc_client_url c of
        None \<Rightarrow> m
      | Some u \<Rightarrow> m\<lparr>alive_client_urls := st_insert u (case st_get (alive_client_urls m) u of None \<Rightarrow> [pc_id c] | Some js \<Rightarrow> js @ [pc_id c])
          (alive_client_urls m)\<rparr>)"

text \<open>The task that waits for the end of the connection.\<close>

definition forget_client_url :: "string \<Rightarrow> u128 \<Rightarrow> peer_map \<Rightarrow> peer_map" where
  "forget_client_url u i m =
     (case st_get (alive_client_urls m) u of
        None \<Rightarrow> m
      | Some js \<Rightarrow> let rest = filter (\<lambda>j. j \<noteq> i) js; urls = st_remove u (alive_client_urls m)
          in m\<lparr>alive_client_urls := if rest = [] then urls else st_insert u rest urls\<rparr>)"

definition is_client_url_alive :: "string \<Rightarrow> peer_map \<Rightarrow> bool" where
  "is_client_url_alive u m \<longleftrightarrow> st_get (alive_client_urls m) u \<noteq> None"

definition put_peer :: "peer \<Rightarrow> peer_map \<Rightarrow> peer_map" where
  "put_peer p m = m\<lparr>map_peers := st_insert (peer_node_id p) p (map_peers m)\<rparr>"

definition add_new_peer_conn :: "peer_conn \<Rightarrow> peer_map \<Rightarrow> (pm_error + unit) \<times> peer_map" where
  "add_new_peer_conn c m0 =
     (let m = maintain_alive_client_urls c m0
      in case st_get (map_peers m) (pc_node_id c) of
          None \<Rightarrow> (case add_peer_conn c (peer_new (pc_node_id c)) of
              (Inl e, p) \<Rightarrow> (Inl e, m)
            | (Inr _, p) \<Rightarrow> (Inr (), put_peer p m))
        | Some p0 \<Rightarrow> (case add_peer_conn c p0 of (r, p) \<Rightarrow> (r, put_peer p m)))"

definition has_peer :: "peer_id \<Rightarrow> peer_map \<Rightarrow> bool" where
  "has_peer i m \<longleftrightarrow> i = map_my_peer_id m \<or> st_get (map_peers m) i \<noteq> None"

definition send_msg_directly :: "(u128 \<Rightarrow> bool) \<Rightarrow> zc_packet \<Rightarrow> peer_id \<Rightarrow> peer_map \<Rightarrow> (pm_error + outgoing) \<times> peer_map" where
  "send_msg_directly up msg dst m =
     (if dst = map_my_peer_id m then (Inr (To_Self msg), m)
      else (case st_get (map_peers m) dst of
          Some p \<Rightarrow> (case peer_send_msg up msg p of (r, p1) \<Rightarrow> (r, put_peer p1 m))
        | None \<Rightarrow> (Inl RouteError, m)))"

text \<open>The first answer of the routers, asked in turn.\<close>

fun first_answer :: "('r \<Rightarrow> 'a option) \<Rightarrow> 'r list \<Rightarrow> 'a option" where
  "first_answer f [] = None"
| "first_answer f (r # rs) = (case f r of None \<Rightarrow> first_answer f rs | Some a \<Rightarrow> Some a)"

definition get_gateway_peer_id :: "peer_id \<Rightarrow> next_hop_policy \<Rightarrow> peer_map \<Rightarrow> peer_id option" where
  "get_gateway_peer_id dst policy m =
     (if dst = map_my_peer_id m then Some dst
      else if has_peer dst m \<and> policy = LeastHop then Some dst
      else first_answer (\<lambda>r. via_next_hop r dst policy) (map_routes m))"

definition map_send_msg :: "(u128 \<Rightarrow> bool) \<Rightarrow> zc_packet \<Rightarrow> peer_id \<Rightarrow> next_hop_policy \<Rightarrow> peer_map \<Rightarrow> (pm_error + outgoing) \<times> peer_map" where
  "map_send_msg up msg dst policy m =
     (case get_gateway_peer_id dst policy m of
        None \<Rightarrow> (Inl RouteError, m)
      | Some gw \<Rightarrow> send_msg_directly up msg gw m)"

definition map_peer_id_by_ipv4 :: "u32 \<Rightarrow> peer_map \<Rightarrow> peer_id option" where
  "map_peer_id_by_ipv4 a m = first_answer (\<lambda>r. via_peer_id_by_ipv4 r a) (map_routes m)"

definition map_peer_id_by_ipv6 :: "u128 \<Rightarrow> peer_map \<Rightarrow> peer_id option" where
  "map_peer_id_by_ipv6 a m = first_answer (\<lambda>r. via_peer_id_by_ipv6 r a) (map_routes m)"

definition get_route_peer_info :: "peer_id \<Rightarrow> peer_map \<Rightarrow> route_peer_info option" where
  "get_route_peer_info i m = first_answer (\<lambda>r. via_peer_info r i) (map_routes m)"

definition map_origin_my_peer_id :: "bytes \<Rightarrow> peer_id \<Rightarrow> peer_map \<Rightarrow> peer_id option" where
  "map_origin_my_peer_id name i m = first_answer (\<lambda>r. via_origin_my_peer_id r name i) (map_routes m)"

definition list_peers_with_conn :: "peer_map \<Rightarrow> peer_id list" where
  "list_peers_with_conn m = map fst (filter (\<lambda>(i, p). has_live_conns p) (map_peers m))"

definition map_close_peer_conn :: "peer_id \<Rightarrow> u128 \<Rightarrow> peer_map \<Rightarrow> pm_error + u128" where
  "map_close_peer_conn i c m = (case st_get (map_peers m) i of Some p \<Rightarrow> peer_close_conn c p | None \<Rightarrow> Inl NotFound)"

definition map_close_peer :: "peer_id \<Rightarrow> peer_map \<Rightarrow> peer_map" where
  "map_close_peer i m = m\<lparr>map_peers := st_remove i (map_peers m)\<rparr>"

definition map_add_route :: "route_iface \<Rightarrow> peer_map \<Rightarrow> peer_map" where
  "map_add_route r m = m\<lparr>map_routes := r # map_routes m\<rparr>"

definition clean_peer_without_conn :: "peer_map \<Rightarrow> peer_map" where
  "clean_peer_without_conn m =
     fold map_close_peer (map fst (filter (\<lambda>(i, p). fst (peer_list_conns p) = []) (map_peers m))) m"

text \<open>All routers report their routes, later reports replace earlier ones.\<close>

definition map_list_routes :: "peer_map \<Rightarrow> (peer_id, peer_id) store" where
  "map_list_routes m = fold (\<lambda>(i, hop, _). st_insert i hop) (concat (map via_list_routes (map_routes m))) []"

definition list_route_infos :: "peer_map \<Rightarrow> (peer_id \<times> peer_id \<times> u32 option) list" where
  "list_route_infos m = (case map_routes m of [] \<Rightarrow> [] | r # _ \<Rightarrow> via_list_routes r)"

definition need_relay_by_foreign_network :: "peer_id \<Rightarrow> peer_map \<Rightarrow> pm_error + bool" where
  "need_relay_by_foreign_network dst m =
     (case get_gateway_peer_id dst LeastHop m of None \<Rightarrow> Inl RouteError | Some gw \<Rightarrow> Inr (\<not> has_peer gw m))"

text \<open>The close event of a connection, at its peer.\<close>

definition map_conn_closed :: "peer_id \<Rightarrow> u128 \<Rightarrow> peer_map \<Rightarrow> peer_map" where
  "map_conn_closed i c m = (case st_get (map_peers m) i of None \<Rightarrow> m | Some p \<Rightarrow> put_peer (on_conn_closed c p) m)"

section \<open>Client of foreign networks\<close>

definition fclient_next_hop :: "peer_id \<Rightarrow> peer_map \<Rightarrow> peer_id option" where
  "fclient_next_hop i m = (if has_peer i m then Some i else None)"

definition fclient_send_msg :: "(u128 \<Rightarrow> bool) \<Rightarrow> zc_packet \<Rightarrow> peer_id \<Rightarrow> peer_map \<Rightarrow> (pm_error + outgoing) \<times> peer_map" where
  "fclient_send_msg up msg i m =
     (case fclient_next_hop i m of Some hop \<Rightarrow> send_msg_directly up msg hop m | None \<Rightarrow> (Inl RouteError, m))"

section \<open>Connections of a peer agree\<close>

text \<open>
  The connections of a peer carry the public key the peer has on record, each is kept under its own identifier, and a
  peer is kept under its own.
\<close>

definition conns_agree :: "peer \<Rightarrow> bool" where
  "conns_agree p \<longleftrightarrow> st_wf (peer_conns p) \<and> (peer_public_key p \<noteq> None \<longrightarrow> peer_identity_type p \<noteq> None)
     \<and> (\<forall>i c. st_get (peer_conns p) i = Some c \<longrightarrow> pc_id c = i \<and> pc_node_id c = peer_node_id p
          \<and> peer_public_key p = Some (pc_pubkey c))"

definition peer_map_ok :: "peer_map \<Rightarrow> bool" where
  "peer_map_ok m \<longleftrightarrow> (\<forall>i p. st_get (map_peers m) i = Some p \<longrightarrow> peer_node_id p = i \<and> conns_agree p)"

lemma peer_new_agrees: "conns_agree (peer_new i)"
  by (simp add: conns_agree_def peer_new_def store_simps)

lemma test_type_keeps:
  assumes "test_type c loaded p = Inr p'" "conns_agree p"
  shows "conns_agree p'" "peer_node_id p' = peer_node_id p" "peer_public_key p' = peer_public_key p"
    "peer_identity_type p \<noteq> None \<Longrightarrow> peer_identity_type p' \<noteq> None" "loaded = None \<Longrightarrow> peer_identity_type p' \<noteq> None"
  using assms by (auto simp: test_type_def conns_agree_def split: option.splits if_splits)

lemma test_key_keeps:
  assumes "test_key c p = Inr p'" "conns_agree p" "peer_identity_type p \<noteq> None"
  shows "conns_agree p'" "peer_node_id p' = peer_node_id p" "peer_public_key p' = Some (pc_pubkey c)"
    "peer_identity_type p' = peer_identity_type p" "peer_public_key p = Some k \<Longrightarrow> peer_public_key p' = Some k"
  using assms by (auto simp: test_key_def conns_agree_def split: option.splits if_splits)

lemma insert_conn_keeps:
  assumes "conns_agree p" "peer_public_key p = Some (pc_pubkey c)" "pc_node_id c = peer_node_id p"
  shows "conns_agree (insert_conn c p)"
  using assms by (simp add: insert_conn_def conns_agree_def store_simps)

lemma insert_conn_record [simp]:
  "peer_node_id (insert_conn c p) = peer_node_id p" "peer_public_key (insert_conn c p) = peer_public_key p"
  "peer_identity_type (insert_conn c p) = peer_identity_type p"
  by (simp_all add: insert_conn_def)

lemma new_peer_added:
  "\<exists>p. add_peer_conn c (peer_new (pc_node_id c)) = (Inr (), p) \<and> conns_agree p \<and> peer_node_id p = pc_node_id c"
  by (simp add: add_peer_conn_def add_parts peer_new_def conns_agree_def store_simps)

lemma on_conn_closed_agrees:
  assumes "conns_agree p"
  shows "conns_agree (on_conn_closed i p)" and "peer_node_id (on_conn_closed i p) = peer_node_id p"
  using assms by (auto simp: on_conn_closed_def conns_agree_def store_simps Let_def split: option.split if_splits)

lemma send_keeps_conns:
  "peer_conns (snd (peer_send_msg up msg p)) = peer_conns p" "peer_node_id (snd (peer_send_msg up msg p)) = peer_node_id p"
  "peer_public_key (snd (peer_send_msg up msg p)) = peer_public_key p"
  "peer_identity_type (snd (peer_send_msg up msg p)) = peer_identity_type p"
  "conns_agree (snd (peer_send_msg up msg p)) = conns_agree p"
  by (auto simp: peer_send_msg_def select_conn_def conns_agree_def Let_def split: option.split prod.split)

lemma put_peer_ok:
  "peer_map_ok m \<Longrightarrow> conns_agree p \<Longrightarrow> peer_map_ok (put_peer p m)"
  by (auto simp: peer_map_ok_def put_peer_def store_simps)

lemma peer_map_okD: "peer_map_ok m \<Longrightarrow> st_get (map_peers m) i = Some p \<Longrightarrow> peer_node_id p = i \<and> conns_agree p"
  by (simp add: peer_map_ok_def)

lemma peer_map_ok_peers: "map_peers m' = map_peers m \<Longrightarrow> peer_map_ok m' = peer_map_ok m"
  by (simp add: peer_map_ok_def)

section \<open>Additions under way\<close>

text \<open>
  Several tasks add connections at the same time.  An addition to a peer that is in the map goes through the parts of
  \<^verbatim>\<open>add_peer_conn\<close>: it has read the identity type, has tested it, or has tested the key.  An addition to a peer not yet
  in the map works on a peer of its own, which it puts into the map at the end, in place of one that has come there
  since.  An addition to a peer that is taken out of the map, or replaced there, goes on without effect on the map.
\<close>

datatype adding = Loaded peer_conn "peer_identity option" | Typed peer_conn | Keyed peer_conn | Fresh peer

record peer_hub =
  hub_map :: peer_map
  hub_adding :: "adding list"

definition hub_new :: "peer_id \<Rightarrow> peer_hub" where
  "hub_new me = \<lparr>hub_map = peer_map_new me, hub_adding = []\<rparr>"

fun adds_to :: "peer_id \<Rightarrow> adding \<Rightarrow> bool" where
  "adds_to i (Loaded c t) \<longleftrightarrow> pc_node_id c = i"
| "adds_to i (Typed c) \<longleftrightarrow> pc_node_id c = i"
| "adds_to i (Keyed c) \<longleftrightarrow> pc_node_id c = i"
| "adds_to i (Fresh p) \<longleftrightarrow> False"

definition detach :: "peer_id \<Rightarrow> adding list \<Rightarrow> adding list" where
  "detach i xs = filter (\<lambda>x. \<not> adds_to i x) xs"

definition detach_gone :: "peer_map \<Rightarrow> adding list \<Rightarrow> adding list" where
  "detach_gone m xs = filter (\<lambda>x. \<forall>i \<in> {i. adds_to i x}. st_get (map_peers m) i \<noteq> None) xs"

text \<open>
  Everything that happens to a map of peers: connections come part by part, change and close, messages are sent, peers
  are closed, the tasks run.  One interleaving is left out: the listener of close events does not forget the identity
  type and the key of a peer while an addition to this peer is under way.
\<close>

inductive hub_step :: "peer_hub \<Rightarrow> peer_hub \<Rightarrow> bool" where
  add_known: "st_get (map_peers m) (pc_node_id c) = Some p \<Longrightarrow>
    hub_step \<lparr>hub_map = m, hub_adding = xs\<rparr>
      \<lparr>hub_map = maintain_alive_client_urls c m, hub_adding = Loaded c (peer_identity_type p) # xs\<rparr>"
| add_unknown: "st_get (map_peers m) (pc_node_id c) = None \<Longrightarrow> add_peer_conn c (peer_new (pc_node_id c)) = (Inr (), p) \<Longrightarrow>
    hub_step \<lparr>hub_map = m, hub_adding = xs\<rparr> \<lparr>hub_map = maintain_alive_client_urls c m, hub_adding = Fresh p # xs\<rparr>"
| type_tested: "Loaded c t \<in> set xs \<Longrightarrow> st_get (map_peers m) (pc_node_id c) = Some p \<Longrightarrow> test_type c t p = Inr p' \<Longrightarrow>
    hub_step \<lparr>hub_map = m, hub_adding = xs\<rparr> \<lparr>hub_map = put_peer p' m, hub_adding = Typed c # remove1 (Loaded c t) xs\<rparr>"
| key_tested: "Typed c \<in> set xs \<Longrightarrow> st_get (map_peers m) (pc_node_id c) = Some p \<Longrightarrow> test_key c p = Inr p' \<Longrightarrow>
    hub_step \<lparr>hub_map = m, hub_adding = xs\<rparr> \<lparr>hub_map = put_peer p' m, hub_adding = Keyed c # remove1 (Typed c) xs\<rparr>"
| conn_inserted: "Keyed c \<in> set xs \<Longrightarrow> st_get (map_peers m) (pc_node_id c) = Some p \<Longrightarrow>
    hub_step \<lparr>hub_map = m, hub_adding = xs\<rparr> \<lparr>hub_map = put_peer (insert_conn c p) m, hub_adding = remove1 (Keyed c) xs\<rparr>"
| conn_refused: "hub_step \<lparr>hub_map = m, hub_adding = xs\<rparr> \<lparr>hub_map = m, hub_adding = remove1 x xs\<rparr>"
| peer_added: "Fresh p \<in> set xs \<Longrightarrow>
    hub_step \<lparr>hub_map = m, hub_adding = xs\<rparr>
      \<lparr>hub_map = put_peer p m, hub_adding = detach (peer_node_id p) (remove1 (Fresh p) xs)\<rparr>"
| fresh_closed: "Fresh p \<in> set xs \<Longrightarrow>
    hub_step \<lparr>hub_map = m, hub_adding = xs\<rparr> \<lparr>hub_map = m, hub_adding = Fresh (on_conn_closed j p) # remove1 (Fresh p) xs\<rparr>"
| conn_changed: "st_get (map_peers m) i = Some p \<Longrightarrow> st_get (peer_conns p) j = Some c \<Longrightarrow>
    hub_step \<lparr>hub_map = m, hub_adding = xs\<rparr>
      \<lparr>hub_map = put_peer (p\<lparr>peer_conns := st_insert j (c\<lparr>pc_latency_us := l, pc_closed := d, pc_hole_punched := h\<rparr>) (peer_conns p)\<rparr>) m, hub_adding = xs\<rparr>"
| conn_closed: "st_get (map_peers m) i = Some p \<Longrightarrow> peer_conns (on_conn_closed j p) \<noteq> [] \<or> (\<forall>x \<in> set xs. \<not> adds_to i x) \<Longrightarrow>
    hub_step \<lparr>hub_map = m, hub_adding = xs\<rparr> \<lparr>hub_map = map_conn_closed i j m, hub_adding = xs\<rparr>"
| default_cleared: "st_get (map_peers m) i = Some p \<Longrightarrow>
    hub_step \<lparr>hub_map = m, hub_adding = xs\<rparr> \<lparr>hub_map = put_peer (clear_default_conn p) m, hub_adding = xs\<rparr>"
| url_forgotten: "hub_step \<lparr>hub_map = m, hub_adding = xs\<rparr> \<lparr>hub_map = forget_client_url u j m, hub_adding = xs\<rparr>"
| msg_sent: "hub_step \<lparr>hub_map = m, hub_adding = xs\<rparr> \<lparr>hub_map = snd (send_msg_directly up msg dst m), hub_adding = xs\<rparr>"
| peer_closed: "hub_step \<lparr>hub_map = m, hub_adding = xs\<rparr> \<lparr>hub_map = map_close_peer i m, hub_adding = detach i xs\<rparr>"
| cleaned: "hub_step \<lparr>hub_map = m, hub_adding = xs\<rparr>
    \<lparr>hub_map = clean_peer_without_conn m, hub_adding = detach_gone (clean_peer_without_conn m) xs\<rparr>"
| route_added: "hub_step \<lparr>hub_map = m, hub_adding = xs\<rparr> \<lparr>hub_map = map_add_route r m, hub_adding = xs\<rparr>"

text \<open>What holds of an addition to a peer of the map with a given type and key on record.\<close>

fun adding_ok :: "(peer_id \<Rightarrow> (peer_identity option \<times> bytes option) option) \<Rightarrow> adding \<Rightarrow> bool" where
  "adding_ok rec (Loaded c t) = (\<forall>ty k. rec (pc_node_id c) = Some (ty, k) \<longrightarrow> (t \<noteq> None \<longrightarrow> ty \<noteq> None))"
| "adding_ok rec (Typed c) = (\<forall>ty k. rec (pc_node_id c) = Some (ty, k) \<longrightarrow> ty \<noteq> None)"
| "adding_ok rec (Keyed c) = (\<forall>ty k. rec (pc_node_id c) = Some (ty, k) \<longrightarrow> ty \<noteq> None \<and> k = Some (pc_pubkey c))"
| "adding_ok rec (Fresh p) = conns_agree p"

definition peer_record :: "peer_map \<Rightarrow> peer_id \<Rightarrow> (peer_identity option \<times> bytes option) option" where
  "peer_record m i = map_option (\<lambda>p. (peer_identity_type p, peer_public_key p)) (st_get (map_peers m) i)"

definition hub_ok :: "peer_hub \<Rightarrow> bool" where
  "hub_ok s \<longleftrightarrow> peer_map_ok (hub_map s) \<and> (\<forall>x \<in> set (hub_adding s). adding_ok (peer_record (hub_map s)) x)"

text \<open>The record of a peer is kept, or it only grows, or no addition to this peer is under way.\<close>

definition record_grows :: "peer_map \<Rightarrow> peer_map \<Rightarrow> adding \<Rightarrow> bool" where
  "record_grows m m' x \<longleftrightarrow> (\<forall>i ty' k'. adds_to i x \<longrightarrow> peer_record m' i = Some (ty', k') \<longrightarrow>
     (\<exists>ty k. peer_record m i = Some (ty, k) \<and> (ty \<noteq> None \<longrightarrow> ty' \<noteq> None) \<and> (k \<noteq> None \<longrightarrow> k' = k)))"

lemma adding_ok_grows:
  assumes "adding_ok (peer_record m) x" "record_grows m m' x"
  shows "adding_ok (peer_record m') x"
  using assms by (cases x) (fastforce simp: record_grows_def)+

lemma record_grows_same:
  assumes "\<And>i. adds_to i x \<Longrightarrow> st_get (map_peers m') i = None \<or> st_get (map_peers m') i = st_get (map_peers m) i"
  shows "record_grows m m' x"
  unfolding record_grows_def
proof (intro allI impI)
  fix i ty' k' assume i: "adds_to i x" "peer_record m' i = Some (ty', k')"
  then have "peer_record m i = Some (ty', k')" using assms [OF i(1)] by (auto simp: peer_record_def)
  then show "\<exists>ty k. peer_record m i = Some (ty, k) \<and> (ty \<noteq> None \<longrightarrow> ty' \<noteq> None) \<and> (k \<noteq> None \<longrightarrow> k' = k)" by simp
qed

lemma record_grows_peers: "map_peers m' = map_peers m \<Longrightarrow> record_grows m m' x"
  by (rule record_grows_same) simp

lemma record_grows_put:
  assumes "st_get (map_peers m) (peer_node_id p') = Some p"
    and "peer_identity_type p \<noteq> None \<longrightarrow> peer_identity_type p' \<noteq> None" "peer_public_key p \<noteq> None \<longrightarrow> peer_public_key p' = peer_public_key p"
  shows "record_grows m (put_peer p' m) x"
  using assms by (auto simp: record_grows_def peer_record_def put_peer_def store_simps)

lemma record_grows_detached:
  assumes "x \<in> set (detach i xs)" "\<And>j. j \<noteq> i \<Longrightarrow> st_get (map_peers m') j = st_get (map_peers m) j"
  shows "record_grows m m' x"
proof (rule record_grows_same)
  fix j assume "adds_to j x"
  then have "j \<noteq> i" using assms(1) by (auto simp: detach_def)
  then show "st_get (map_peers m') j = None \<or> st_get (map_peers m') j = st_get (map_peers m) j" using assms(2) by blast
qed

lemma hub_okI:
  assumes "hub_ok s" "peer_map_ok m'"
    and "\<And>x. x \<in> set ys \<Longrightarrow> (x \<in> set (hub_adding s) \<and> record_grows (hub_map s) m' x) \<or> adding_ok (peer_record m') x"
  shows "hub_ok \<lparr>hub_map = m', hub_adding = ys\<rparr>"
  using assms by (auto simp: hub_ok_def intro: adding_ok_grows)

text \<open>One peer of the map changes and its record only grows.\<close>

lemma hub_ok_put:
  assumes ok: "hub_ok \<lparr>hub_map = m, hub_adding = xs\<rparr>" and p: "st_get (map_peers m) (peer_node_id p') = Some p"
    and p': "conns_agree p'"
    and grows: "peer_identity_type p \<noteq> None \<longrightarrow> peer_identity_type p' \<noteq> None" "peer_public_key p \<noteq> None \<longrightarrow> peer_public_key p' = peer_public_key p"
    and ys: "\<And>x. x \<in> set ys \<Longrightarrow> x \<in> set xs \<or> adding_ok (peer_record (put_peer p' m)) x"
  shows "hub_ok \<lparr>hub_map = put_peer p' m, hub_adding = ys\<rparr>"
proof (rule hub_okI [OF ok])
  show "peer_map_ok (put_peer p' m)" using ok p' by (auto simp: hub_ok_def intro: put_peer_ok)
qed (use record_grows_put [OF p grows] ys in auto)

lemma put_peer_record: "peer_record (put_peer p m) (peer_node_id p) = Some (peer_identity_type p, peer_public_key p)"
  by (simp add: peer_record_def put_peer_def store_simps)

lemma hub_ok_peer:
  assumes "hub_ok \<lparr>hub_map = m, hub_adding = xs\<rparr>" "st_get (map_peers m) i = Some p"
  shows "peer_node_id p = i" "conns_agree p" "peer_record m i = Some (peer_identity_type p, peer_public_key p)"
  using assms peer_map_okD [of m i p] by (auto simp: hub_ok_def peer_record_def)

lemma hub_ok_adding: "hub_ok \<lparr>hub_map = m, hub_adding = xs\<rparr> \<Longrightarrow> x \<in> set xs \<Longrightarrow> adding_ok (peer_record m) x"
  by (simp add: hub_ok_def)

lemma hub_ok_same_peers:
  assumes "hub_ok \<lparr>hub_map = m, hub_adding = xs\<rparr>" "map_peers m' = map_peers m" "set ys \<subseteq> set xs"
  shows "hub_ok \<lparr>hub_map = m', hub_adding = ys\<rparr>"
proof (rule hub_okI [OF assms(1)])
  show "peer_map_ok m'" using assms(1) peer_map_ok_peers [OF assms(2)] by (simp add: hub_ok_def)
qed (use record_grows_peers [of m' m] assms(2,3) in auto)

lemma conn_changed_agrees:
  assumes "conns_agree p" and "st_get (peer_conns p) j = Some c"
  shows "conns_agree (p\<lparr>peer_conns := st_insert j (c\<lparr>pc_latency_us := l, pc_closed := d, pc_hole_punched := h\<rparr>) (peer_conns p)\<rparr>)"
proof -
  have "pc_id c = j \<and> pc_node_id c = peer_node_id p \<and> peer_public_key p = Some (pc_pubkey c)"
    using assms unfolding conns_agree_def by blast
  with assms(1) show ?thesis unfolding conns_agree_def by (simp add: store_simps)
qed

lemma close_peer_ok: "peer_map_ok m \<Longrightarrow> peer_map_ok (map_close_peer i m)"
  by (simp add: peer_map_ok_def map_close_peer_def store_simps)

lemma close_peers_ok: "peer_map_ok m \<Longrightarrow> peer_map_ok (fold map_close_peer ids m)"
  by (induction ids arbitrary: m) (simp_all add: close_peer_ok)

lemma close_peers_get:
  "st_get (map_peers (fold map_close_peer ids m)) i = (if i \<in> set ids then None else st_get (map_peers m) i)"
  by (induction ids arbitrary: m) (auto simp: map_close_peer_def store_simps)

lemma maintain_keeps_peers [simp]: "map_peers (maintain_alive_client_urls c m) = map_peers m"
  by (simp add: maintain_alive_client_urls_def split: option.split)

lemma in_remove1: "x \<in> set (remove1 y xs) \<Longrightarrow> x \<in> set xs"
  using set_remove1_subset by fast

lemma closed_keeps_record:
  assumes "peer_conns (on_conn_closed j p) \<noteq> []"
  shows "peer_identity_type (on_conn_closed j p) = peer_identity_type p" "peer_public_key (on_conn_closed j p) = peer_public_key p"
  using assms by (auto simp: on_conn_closed_def Let_def split: option.splits if_splits)

text \<open>The parts of an addition to a peer in the map.\<close>

lemma addition_steps_ok:
  assumes ok: "hub_ok \<lparr>hub_map = m, hub_adding = xs\<rparr>" and p: "st_get (map_peers m) (pc_node_id c) = Some p"
  shows "Loaded c t \<in> set xs \<Longrightarrow> test_type c t p = Inr p' \<Longrightarrow> hub_ok \<lparr>hub_map = put_peer p' m, hub_adding = Typed c # remove1 (Loaded c t) xs\<rparr>"
    and "Typed c \<in> set xs \<Longrightarrow> test_key c p = Inr p' \<Longrightarrow> hub_ok \<lparr>hub_map = put_peer p' m, hub_adding = Keyed c # remove1 (Typed c) xs\<rparr>"
    and "Keyed c \<in> set xs \<Longrightarrow> hub_ok \<lparr>hub_map = put_peer (insert_conn c p) m, hub_adding = remove1 (Keyed c) xs\<rparr>"
proof -
  note i = hub_ok_peer [OF ok p]
  show "hub_ok \<lparr>hub_map = put_peer p' m, hub_adding = Typed c # remove1 (Loaded c t) xs\<rparr>"
    if x: "Loaded c t \<in> set xs" "test_type c t p = Inr p'"
  proof -
    note k = test_type_keeps [OF x(2) i(2)]
    have ty: "peer_identity_type p' \<noteq> None"
      using hub_ok_adding [OF ok x(1)] i(3) k(4,5) by (cases t) auto
    have id: "peer_node_id p' = pc_node_id c" using k(2) i(1) by simp
    show ?thesis
    proof (rule hub_ok_put [OF ok _ k(1)])
      show "st_get (map_peers m) (peer_node_id p') = Some p" using p id by simp
      have "adding_ok (peer_record (put_peer p' m)) (Typed c)"
        using put_peer_record [of p' m] ty id by simp
      then show "x \<in> set xs \<or> adding_ok (peer_record (put_peer p' m)) x" if "x \<in> set (Typed c # remove1 (Loaded c t) xs)" for x
        using that in_remove1 by auto
    qed (use k ty in auto)
  qed
  show "hub_ok \<lparr>hub_map = put_peer p' m, hub_adding = Keyed c # remove1 (Typed c) xs\<rparr>"
    if x: "Typed c \<in> set xs" "test_key c p = Inr p'"
  proof -
    have ty: "peer_identity_type p \<noteq> None" using hub_ok_adding [OF ok x(1)] i(3) by auto
    note k = test_key_keeps [OF x(2) i(2) ty]
    have id: "peer_node_id p' = pc_node_id c" using k(2) i(1) by simp
    show ?thesis
    proof (rule hub_ok_put [OF ok _ k(1)])
      show "st_get (map_peers m) (peer_node_id p') = Some p" using p id by simp
      have "adding_ok (peer_record (put_peer p' m)) (Keyed c)"
        using put_peer_record [of p' m] ty k(3,4) id by simp
      then show "x \<in> set xs \<or> adding_ok (peer_record (put_peer p' m)) x" if "x \<in> set (Keyed c # remove1 (Typed c) xs)" for x
        using that in_remove1 by auto
    qed (use k ty in auto)
  qed
  show "hub_ok \<lparr>hub_map = put_peer (insert_conn c p) m, hub_adding = remove1 (Keyed c) xs\<rparr>" if x: "Keyed c \<in> set xs"
  proof (rule hub_ok_put [OF ok])
    show "st_get (map_peers m) (peer_node_id (insert_conn c p)) = Some p" using p i(1) by simp
    have "peer_public_key p = Some (pc_pubkey c)" using hub_ok_adding [OF ok x] i(3) by auto
    then show "conns_agree (insert_conn c p)" using insert_conn_keeps [OF i(2)] i(1) by simp
  qed (auto dest: in_remove1)
qed

text \<open>The close of a connection.\<close>

lemma close_step_ok:
  assumes ok: "hub_ok \<lparr>hub_map = m, hub_adding = xs\<rparr>" and p: "st_get (map_peers m) i = Some p"
    and ex: "peer_conns (on_conn_closed j p) \<noteq> [] \<or> (\<forall>x \<in> set xs. \<not> adds_to i x)"
  shows "hub_ok \<lparr>hub_map = map_conn_closed i j m, hub_adding = xs\<rparr>"
proof -
  note q = hub_ok_peer [OF ok p]
  note c = on_conn_closed_agrees [OF q(2), of j]
  have eq: "map_conn_closed i j m = put_peer (on_conn_closed j p) m" using p by (simp add: map_conn_closed_def)
  show ?thesis
  proof (cases "peer_conns (on_conn_closed j p) = []")
    case False
    show ?thesis unfolding eq
      by (rule hub_ok_put [OF ok _ c(1)]) (use p q(1) c(2) closed_keeps_record [OF False] in auto)
  next
    case True
    then have free: "\<And>x. x \<in> set xs \<Longrightarrow> \<not> adds_to i x" using ex by blast
    have "record_grows m (put_peer (on_conn_closed j p) m) x" if "x \<in> set xs" for x
      by (rule record_grows_same) (use free [OF that] q(1) c(2) in \<open>auto simp: put_peer_def store_simps\<close>)
    then show ?thesis unfolding eq
      by (intro hub_okI [OF ok]) (use ok c(1) in \<open>auto simp: hub_ok_def intro: put_peer_ok\<close>)
  qed
qed

lemma hub_step_ok: "hub_step s s' \<Longrightarrow> hub_ok s \<Longrightarrow> hub_ok s'"
proof (induction rule: hub_step.induct)
  case (add_known m c p xs)
  then show ?case
    using hub_ok_peer(3) [OF add_known(2,1)] hub_ok_same_peers [OF add_known(2), of "maintain_alive_client_urls c m" xs]
    by (auto simp: hub_ok_def peer_record_def)
next
  case (add_unknown m c p xs)
  then show ?case
    using new_peer_added [of c] hub_ok_same_peers [OF add_unknown(3), of "maintain_alive_client_urls c m" xs]
    by (auto simp: hub_ok_def)
next
  case (type_tested c t xs m p p')
  then show ?case using addition_steps_ok(1) by blast
next
  case (key_tested c xs m p p')
  then show ?case using addition_steps_ok(2) by blast
next
  case (conn_inserted c xs m p)
  then show ?case using addition_steps_ok(3) by blast
next
  case (conn_refused m xs x)
  then show ?case by (rule hub_ok_same_peers) (auto dest: in_remove1)
next
  case (peer_added p xs m)
  have "conns_agree p" using hub_ok_adding [OF peer_added(2,1)] by simp
  then have ok: "peer_map_ok (put_peer p m)" using peer_added(2) by (simp add: hub_ok_def put_peer_ok)
  show ?case
  proof (rule hub_okI [OF peer_added(2) ok])
    fix x assume x: "x \<in> set (detach (peer_node_id p) (remove1 (Fresh p) xs))"
    have "record_grows m (put_peer p m) x"
      by (rule record_grows_detached [OF x]) (simp add: put_peer_def store_simps)
    moreover have "x \<in> set xs" using x in_remove1 by (auto simp: detach_def)
    ultimately show "x \<in> set (hub_adding \<lparr>hub_map = m, hub_adding = xs\<rparr>) \<and> record_grows (hub_map \<lparr>hub_map = m, hub_adding = xs\<rparr>) (put_peer p m) x
        \<or> adding_ok (peer_record (put_peer p m)) x" by simp
  qed
next
  case (fresh_closed p xs m j)
  then show ?case
    using on_conn_closed_agrees(1) [of p j] hub_ok_adding [OF fresh_closed(2,1)] by (auto simp: hub_ok_def dest: in_remove1)
next
  case (conn_changed m i p j c xs l d h)
  note q = hub_ok_peer [OF conn_changed(3,1)]
  show ?case
    by (rule hub_ok_put [OF conn_changed(3) _ conn_changed_agrees [OF q(2) conn_changed(2)]]) (use conn_changed(1) q in auto)
next
  case (conn_closed m i p j xs)
  then show ?case using close_step_ok by blast
next
  case (default_cleared m i p xs)
  note q = hub_ok_peer [OF default_cleared(2,1)]
  show ?case
    by (rule hub_ok_put [OF default_cleared(2)]) (use default_cleared(1) q in \<open>auto simp: clear_default_conn_def conns_agree_def\<close>)
next
  case (url_forgotten m xs u j)
  then show ?case by (rule hub_ok_same_peers) (simp_all add: forget_client_url_def Let_def split: option.split)
next
  case (msg_sent m xs up msg dst)
  show ?case
  proof (cases "dst = map_my_peer_id m \<or> st_get (map_peers m) dst = None")
    case True
    then show ?thesis using msg_sent by (auto simp: send_msg_directly_def)
  next
    case False
    then obtain p where p: "st_get (map_peers m) dst = Some p" by blast
    note q = hub_ok_peer [OF msg_sent p]
    have "snd (send_msg_directly up msg dst m) = put_peer (snd (peer_send_msg up msg p)) m"
      using False p by (simp add: send_msg_directly_def split_beta)
    moreover have "hub_ok \<lparr>hub_map = put_peer (snd (peer_send_msg up msg p)) m, hub_adding = xs\<rparr>"
      by (rule hub_ok_put [OF msg_sent]) (use p q in \<open>auto simp: send_keeps_conns\<close>)
    ultimately show ?thesis by simp
  qed
next
  case (peer_closed m xs i)
  show ?case
    by (rule hub_okI [OF peer_closed])
      (use peer_closed record_grows_detached [of _ i xs "map_close_peer i m" m] in
        \<open>auto simp: hub_ok_def close_peer_ok detach_def\<close>, auto simp: map_close_peer_def store_simps)
next
  case (cleaned m xs)
  define m' where "m' = clean_peer_without_conn m"
  have "record_grows m m' x" if "x \<in> set (detach_gone m' xs)" for x
    by (rule record_grows_same) (auto simp: m'_def clean_peer_without_conn_def close_peers_get)
  moreover have "peer_map_ok m'" using cleaned by (simp add: m'_def clean_peer_without_conn_def close_peers_ok hub_ok_def)
  ultimately show ?case unfolding m'_def [symmetric]
    by (intro hub_okI [OF cleaned]) (auto simp: detach_gone_def)
next
  case (route_added m xs r)
  then show ?case by (rule hub_ok_same_peers) (simp_all add: map_add_route_def)
qed

lemma hub_reachable_ok: "hub_step\<^sup>*\<^sup>* (hub_new me) s \<Longrightarrow> hub_ok s"
proof (induction rule: rtranclp_induct)
  case base
  show ?case by (simp add: hub_ok_def hub_new_def peer_map_ok_def peer_map_new_def store_simps)
next
  case (step y z)
  then show ?case using hub_step_ok by blast
qed

lemma hub_reachable_peer:
  assumes "hub_step\<^sup>*\<^sup>* (hub_new me) s" "st_get (map_peers (hub_map s)) i = Some p"
  shows "peer_node_id p = i \<and> conns_agree p"
  using hub_reachable_ok [OF assms(1)] assms(2) peer_map_okD by (auto simp: hub_ok_def)

section \<open>Choice of the connection\<close>

lemma least_latency_least:
  assumes "\<And>i c. (i, c) \<in> set cs \<Longrightarrow> pc_id c = i"
  shows "(least_latency cs m d = d \<and> (\<forall>(i, c) \<in> set cs. m \<le> pc_latency_us c))
    \<or> (\<exists>c. (least_latency cs m d, c) \<in> set cs \<and> pc_latency_us c < m \<and> (\<forall>(i, c') \<in> set cs. pc_latency_us c \<le> pc_latency_us c'))"
  using assms
proof (induction cs m d rule: least_latency.induct)
  case (2 i c cs m d)
  show ?case
  proof (cases "pc_latency_us c < m")
    case True
    with 2 have "(least_latency cs (pc_latency_us c) (pc_id c) = pc_id c \<and> (\<forall>(i, c') \<in> set cs. pc_latency_us c \<le> pc_latency_us c'))
        \<or> (\<exists>c1. (least_latency cs (pc_latency_us c) (pc_id c), c1) \<in> set cs \<and> pc_latency_us c1 < pc_latency_us c
             \<and> (\<forall>(i, c') \<in> set cs. pc_latency_us c1 \<le> pc_latency_us c'))"
      by (meson list.set_intros(2))
    moreover have "pc_id c = i" using 2(3) by simp
    ultimately show ?thesis using True by (auto intro: less_trans less_imp_le)
  next
    case False
    with 2 have "(least_latency cs m d = d \<and> (\<forall>(i, c') \<in> set cs. m \<le> pc_latency_us c'))
        \<or> (\<exists>c1. (least_latency cs m d, c1) \<in> set cs \<and> pc_latency_us c1 < m \<and> (\<forall>(i, c') \<in> set cs. pc_latency_us c1 \<le> pc_latency_us c'))"
      by (meson list.set_intros(2))
    with False show ?thesis by (auto simp: not_less intro: less_imp_le order.trans)
  qed
qed simp

text \<open>
  The connection a message takes: the default one while it lasts, otherwise one of least latency, which becomes the
  default.  There is none only if no connection has a latency below the largest number.
\<close>

lemma select_conn_cases:
  assumes "conns_agree p"
  obtains (dflt) c where "select_conn p = (Some c, p)" "st_get (peer_conns p) (default_conn_id p) = Some c" "pc_id c = default_conn_id p"
  | (least) c where "select_conn p = (Some c, p\<lparr>default_conn_id := pc_id c\<rparr>)" "st_get (peer_conns p) (pc_id c) = Some c"
      "\<And>i c'. st_get (peer_conns p) i = Some c' \<Longrightarrow> pc_latency_us c \<le> pc_latency_us c'"
  | (nothing) "fst (select_conn p) = None" "\<And>i c. st_get (peer_conns p) i = Some c \<Longrightarrow> pc_latency_us c = - 1"
proof (cases "st_get (peer_conns p) (default_conn_id p)")
  case (Some c)
  moreover from this have "pc_id c = default_conn_id p" using assms by (auto simp: conns_agree_def)
  ultimately show thesis by (intro dflt) (simp_all add: select_conn_def)
next
  case None
  have wf: "st_wf (peer_conns p)" using assms by (simp add: conns_agree_def)
  define d where "d = least_latency (peer_conns p) (- 1) (default_conn_id p)"
  have sel: "select_conn p = (st_get (peer_conns p) d, p\<lparr>default_conn_id := d\<rparr>)"
    using None by (simp add: select_conn_def d_def Let_def)
  have "pc_id c = i" if "(i, c) \<in> set (peer_conns p)" for i c
    using that assms st_get_in_set [OF wf] by (auto simp: conns_agree_def)
  from least_latency_least [OF this, where m = "- 1" and d = "default_conn_id p"]
  consider "d = default_conn_id p" "\<forall>(i, c) \<in> set (peer_conns p). - 1 \<le> pc_latency_us c"
    | c where "(d, c) \<in> set (peer_conns p)" "\<forall>(i, c') \<in> set (peer_conns p). pc_latency_us c \<le> pc_latency_us c'"
    unfolding d_def by blast
  then show thesis
  proof cases
    case 1
    show thesis
    proof (rule nothing)
      show "fst (select_conn p) = None" using None 1(1) sel by simp
      show "pc_latency_us c = - 1" if "st_get (peer_conns p) i = Some c" for i c
        using that 1(2) st_get_in_set [OF wf] by (auto intro: order.antisym simp: word_order.extremum)
    qed
  next
    case (2 c)
    then have c: "st_get (peer_conns p) d = Some c" using st_get_in_set [OF wf] by blast
    then have "pc_id c = d" using assms by (auto simp: conns_agree_def)
    with c sel 2(2) st_get_in_set [OF wf] show thesis by (intro least [of c]) auto
  qed
qed

text \<open>
  C37: the connections of a peer agree.  Connections come, each through the parts of an addition in any interleaving with
  the others, change and close, messages are sent and the tasks run; only the listener of close events does not forget
  the record of a peer while an addition to this peer is under way.  Then all connections kept for a peer were made for
  this peer with one public key, the one on record, and every further connection that presents another key, or an
  identity type other than the one on record, is refused and changes no peer.
\<close>

theorem peer_conns_agree:
  assumes "hub_step\<^sup>*\<^sup>* (hub_new me) s" and "st_get (map_peers (hub_map s)) i = Some p" and "st_get (peer_conns p) j = Some c"
  shows "peer_node_id p = i \<and> pc_node_id c = i \<and> pc_id c = j \<and> peer_public_key p = Some (pc_pubkey c)
    \<and> (\<forall>d. pc_node_id d = i \<and> (peer_identity_type p \<noteq> Some (pc_identity d) \<or> pc_pubkey d \<noteq> pc_pubkey c) \<longrightarrow>
        fst (add_new_peer_conn d (hub_map s)) = Inl SecretKeyError
        \<and> (\<forall>k. st_get (map_peers (snd (add_new_peer_conn d (hub_map s)))) k = st_get (map_peers (hub_map s)) k))"
proof -
  note p = hub_reachable_peer [OF assms(1,2)]
  then have c: "pc_node_id c = i" "pc_id c = j" "peer_public_key p = Some (pc_pubkey c)" "peer_identity_type p \<noteq> None"
    using assms(3) by (auto simp: conns_agree_def)
  have "fst (add_new_peer_conn d (hub_map s)) = Inl SecretKeyError
      \<and> (\<forall>k. st_get (map_peers (snd (add_new_peer_conn d (hub_map s)))) k = st_get (map_peers (hub_map s)) k)"
    if d: "pc_node_id d = i" "peer_identity_type p \<noteq> Some (pc_identity d) \<or> pc_pubkey d \<noteq> pc_pubkey c" for d
  proof -
    have "add_peer_conn d p = (Inl SecretKeyError, p)"
      using d(2) c(3,4) by (auto simp: add_peer_conn_def add_parts)
    then show ?thesis
      using assms(2) d(1) p by (auto simp: add_new_peer_conn_def put_peer_def store_simps)
  qed
  with p c show ?thesis by blast
qed

text \<open>
  The interleaving that is left out breaks this.  An addition has tested its key against the record; the last
  connection of the peer closes, and the listener forgets the record; then the addition inserts its connection.  The
  peer is left with a connection and without a record, and a connection with any other key is added to it.  Likewise two
  additions that both read no identity type may set two different ones.
\<close>

lemma closing_races_addition:
  assumes "peer_conns p = [(j, c)]" "test_key d p = Inr p" "pc_id e \<noteq> pc_id d" "pc_pubkey e \<noteq> pc_pubkey d"
  shows "peer_public_key (insert_conn d (on_conn_closed j p)) = None"
    and "\<exists>q. add_peer_conn e (insert_conn d (on_conn_closed j p)) = (Inr (), q)
      \<and> st_get (peer_conns q) (pc_id d) = Some d \<and> st_get (peer_conns q) (pc_id e) = Some e"
proof -
  let ?p = "insert_conn d (on_conn_closed j p)"
  have p: "?p = p\<lparr>peer_conns := [(pc_id d, d)], peer_identity_type := None, peer_public_key := None\<rparr>"
    using assms(1) by (simp add: on_conn_closed_def insert_conn_def st_get_def st_remove_def st_insert_def)
  then show "peer_public_key ?p = None" by simp
  show "\<exists>q. add_peer_conn e ?p = (Inr (), q) \<and> st_get (peer_conns q) (pc_id d) = Some d \<and> st_get (peer_conns q) (pc_id e) = Some e"
    unfolding p using assms(3) by (simp add: add_peer_conn_def add_parts store_simps) (simp add: st_get_def)
qed

lemma types_race:
  assumes "test_type c None p = Inr p1" "test_type d None p1 = Inr p2" "pc_identity c \<noteq> pc_identity d"
  shows "peer_identity_type p2 = Some (pc_identity d)" "peer_identity_type p2 \<noteq> Some (pc_identity c)"
  using assms by (auto simp: test_type_def)

text \<open>
  A message to a connected peer leaves on the best connection.  In every reachable map, a message for a peer with a
  connection of known latency is given to exactly one of the connections of that peer: the one in use, or else one of
  least latency.
\<close>

lemma message_takes_best_conn:
  assumes "hub_step\<^sup>*\<^sup>* (hub_new me) s" and "m = hub_map s" and "st_get (map_peers m) i = Some p" and "i \<noteq> map_my_peer_id m"
    and "st_get (peer_conns p) j = Some c" and "pc_latency_us c \<noteq> - 1"
  shows "\<exists>b. st_get (peer_conns p) (pc_id b) = Some b
    \<and> fst (send_msg_directly up msg i m) = (if up (pc_id b) then Inr (To_Conn i (pc_id b) msg) else Inl SinkError)
    \<and> (pc_id b = default_conn_id p \<or> (\<forall>k d. st_get (peer_conns p) k = Some d \<longrightarrow> pc_latency_us b \<le> pc_latency_us d))"
proof -
  note p = hub_reachable_peer [OF assms(1) assms(3) [unfolded assms(2)]]
  then have "conns_agree p" by blast
  then show ?thesis
  proof (cases rule: select_conn_cases)
    case (dflt b)
    with p assms(3,4) show ?thesis by (intro exI [of _ b]) (simp add: send_msg_directly_def peer_send_msg_def)
  next
    case (least b)
    with p assms(3,4) show ?thesis by (intro exI [of _ b]) (simp add: send_msg_directly_def peer_send_msg_def)
  next
    case nothing
    with assms(5,6) show ?thesis by blast
  qed
qed

section \<open>A concrete map\<close>

definition sample_conn :: "u128 \<Rightarrow> u64 \<Rightarrow> peer_conn" where
  "sample_conn i l = \<lparr>pc_id = i, pc_node_id = 7, pc_identity = Admin, pc_pubkey = [1, 2], pc_latency_us = l, pc_closed = False,
     pc_hole_punched = False, pc_client_url = None\<rparr>"

definition sample_peer_map :: peer_map where
  "sample_peer_map = snd (add_new_peer_conn (sample_conn 12 5) (snd (add_new_peer_conn (sample_conn 11 9) (peer_map_new 1))))"

lemma sample_peer_map_eq:
  "sample_peer_map = \<lparr>map_my_peer_id = 1, map_peers = [(7, \<lparr>peer_node_id = 7, peer_conns = [(11, sample_conn 11 9), (12, sample_conn 12 5)],
     default_conn_id = 0, peer_identity_type = Some Admin, peer_public_key = Some [1, 2]\<rparr>)], map_routes = [], alive_client_urls = []\<rparr>"
  by (simp add: sample_peer_map_def sample_conn_def add_new_peer_conn_def maintain_alive_client_urls_def peer_map_new_def peer_new_def
      add_peer_conn_def add_parts put_peer_def st_get_def st_insert_def)

text \<open>Two connections of peer 7 are added at the same time; the first one makes the peer.\<close>

definition sample_peer :: "(u128, peer_conn) store \<Rightarrow> peer" where
  "sample_peer cs = \<lparr>peer_node_id = 7, peer_conns = cs, default_conn_id = 0, peer_identity_type = Some Admin, peer_public_key = Some [1, 2]\<rparr>"

definition sample_map_of :: "peer \<Rightarrow> peer_map" where
  "sample_map_of p = \<lparr>map_my_peer_id = 1, map_peers = [(7, p)], map_routes = [], alive_client_urls = []\<rparr>"

definition sample_hub :: peer_hub where
  "sample_hub = \<lparr>hub_map = sample_peer_map, hub_adding = []\<rparr>"

lemmas sample_hub_simps = sample_peer_def sample_map_of_def sample_conn_def st_get_def st_insert_def put_peer_def

lemma sample_first_added:
  "hub_step\<^sup>*\<^sup>* (hub_new 1) \<lparr>hub_map = sample_map_of (sample_peer [(11, sample_conn 11 9)]), hub_adding = []\<rparr>"
proof -
  define a where "a = sample_conn 11 9"
  define p where "p = sample_peer [(11, a)]"
  have add: "add_peer_conn a (peer_new (pc_node_id a)) = (Inr (), p)"
    by (simp add: add_peer_conn_def add_parts peer_new_def sample_hub_simps a_def p_def)
  have "maintain_alive_client_urls a m = m" for m
    by (simp add: maintain_alive_client_urls_def sample_conn_def a_def)
  moreover have "st_get (map_peers (peer_map_new 1)) (pc_node_id a) = None" by (simp add: peer_map_new_def st_get_def)
  ultimately have 1: "hub_step (hub_new 1) \<lparr>hub_map = peer_map_new 1, hub_adding = [Fresh p]\<rparr>"
    using add_unknown [OF _ add, of "peer_map_new 1" "[]"] by (simp add: hub_new_def)
  have "put_peer p (peer_map_new 1) = sample_map_of p"
    by (simp add: put_peer_def peer_map_new_def sample_map_of_def st_insert_def p_def sample_peer_def)
  then have 2: "hub_step \<lparr>hub_map = peer_map_new 1, hub_adding = [Fresh p]\<rparr> \<lparr>hub_map = sample_map_of p, hub_adding = []\<rparr>"
    using peer_added [of p "[Fresh p]" "peer_map_new 1"] by (simp add: detach_def)
  from 1 2 show ?thesis unfolding p_def a_def by (rule converse_rtranclp_into_rtranclp [OF _ r_into_rtranclp])
qed

lemma sample_second_added:
  "hub_step\<^sup>*\<^sup>* \<lparr>hub_map = sample_map_of (sample_peer [(11, sample_conn 11 9)]), hub_adding = []\<rparr> sample_hub"
proof -
  define b where "b = sample_conn 12 5"
  define p where "p = sample_peer [(11, sample_conn 11 9)]"
  define m where "m = sample_map_of p"
  have url: "maintain_alive_client_urls b m = m" by (simp add: maintain_alive_client_urls_def sample_conn_def b_def)
  have get: "st_get (map_peers m) (pc_node_id b) = Some p" by (simp add: m_def b_def sample_map_of_def sample_conn_def st_get_def)
  have tests: "test_type b (peer_identity_type p) p = Inr p" "test_key b p = Inr p"
    by (simp_all add: add_parts b_def p_def sample_peer_def sample_conn_def)
  have "peer_node_id p = 7" by (simp add: p_def sample_peer_def)
  then have put: "put_peer p m = m" by (simp add: put_peer_def m_def sample_map_of_def st_insert_def)
  have "put_peer (insert_conn b p) m = sample_peer_map"
    unfolding sample_peer_map_eq by (simp add: m_def p_def b_def insert_conn_def sample_hub_simps)
  then have 6: "hub_step \<lparr>hub_map = m, hub_adding = [Keyed b]\<rparr> sample_hub"
    using conn_inserted [OF _ get, of "[Keyed b]"] by (simp add: sample_hub_def)
  have 3: "hub_step \<lparr>hub_map = m, hub_adding = []\<rparr> \<lparr>hub_map = m, hub_adding = [Loaded b (peer_identity_type p)]\<rparr>"
    using add_known [OF get, of "[]"] url by simp
  have 4: "hub_step \<lparr>hub_map = m, hub_adding = [Loaded b (peer_identity_type p)]\<rparr> \<lparr>hub_map = m, hub_adding = [Typed b]\<rparr>"
    using type_tested [OF _ get tests(1), of "[Loaded b (peer_identity_type p)]"] put by simp
  have 5: "hub_step \<lparr>hub_map = m, hub_adding = [Typed b]\<rparr> \<lparr>hub_map = m, hub_adding = [Keyed b]\<rparr>"
    using key_tested [OF _ get tests(2), of "[Typed b]"] put by simp
  show ?thesis unfolding p_def [symmetric] m_def [symmetric]
    by (rule converse_rtranclp_into_rtranclp [OF 3 converse_rtranclp_into_rtranclp [OF 4
        converse_rtranclp_into_rtranclp [OF 5 r_into_rtranclp [where r = hub_step, OF 6]]]])
qed

lemma sample_hub_reachable: "hub_step\<^sup>*\<^sup>* (hub_new 1) sample_hub"
  using sample_first_added sample_second_added by (rule rtranclp_trans)

theorem peer_conns_agree_witness:
  "hub_step\<^sup>*\<^sup>* (hub_new 1) sample_hub
    \<and> fst (add_new_peer_conn (sample_conn 13 1\<lparr>pc_pubkey := [3]\<rparr>) (hub_map sample_hub)) = Inl SecretKeyError"
proof -
  define d where "d = sample_conn 13 1\<lparr>pc_pubkey := [3]\<rparr>"
  obtain p where "st_get (map_peers (hub_map sample_hub)) 7 = Some p" "st_get (peer_conns p) 11 = Some (sample_conn 11 9)"
    by (simp add: sample_hub_def sample_peer_map_eq st_get_def)
  from peer_conns_agree [OF sample_hub_reachable this] sample_hub_reachable show ?thesis
    unfolding d_def [symmetric] by (simp add: d_def sample_conn_def)
qed

lemma message_takes_best_conn_witness:
  "fst (send_msg_directly (\<lambda>_. True) new_nic_packet 7 sample_peer_map) = Inr (To_Conn 7 12 new_nic_packet)"
proof -
  define p where "p = \<lparr>peer_node_id = 7, peer_conns = [(11, sample_conn 11 9), (12, sample_conn 12 5)],
     default_conn_id = 0, peer_identity_type = Some Admin, peer_public_key = Some [1, 2]\<rparr>"
  have p: "st_get (map_peers sample_peer_map) 7 = Some p" "st_get (peer_conns p) 11 = Some (sample_conn 11 9)"
    "st_get (peer_conns p) 12 = Some (sample_conn 12 5)" "st_get (peer_conns p) k = Some b \<Longrightarrow> b = sample_conn 11 9 \<or> b = sample_conn 12 5" for k b
    by (auto simp: sample_peer_map_eq st_get_def p_def split: if_splits)
  obtain b where "st_get (peer_conns p) (pc_id b) = Some b"
      "fst (send_msg_directly (\<lambda>_. True) new_nic_packet 7 sample_peer_map) = Inr (To_Conn 7 (pc_id b) new_nic_packet)"
      "pc_id b = 0 \<or> pc_latency_us b \<le> 5"
  proof -
    have "7 \<noteq> map_my_peer_id sample_peer_map" "pc_latency_us (sample_conn 11 9) \<noteq> - 1" "default_conn_id p = 0" "pc_latency_us (sample_conn 12 5) = 5"
      by (simp_all add: sample_peer_map_eq sample_conn_def p_def)
    with message_takes_best_conn [OF sample_hub_reachable _ p(1) _ p(2), unfolded sample_hub_def, simplified, of "\<lambda>_. True" new_nic_packet] p(3) that
    show thesis by metis
  qed
  with p(4) [of "pc_id b" b] show ?thesis by (auto simp: sample_conn_def)
qed

end
