(* ===== verification/Relay_Peer.thy ===== *)
theory Relay_Peer
  imports Peer_Map Peer_Session
begin

text \<open>
  Sessions with peers that are not directly connected (\<^verbatim>\<open>peers/relay_peer_map.rs\<close>): packets for them are encrypted with a
  session of the store; while there is none they wait, and a handshake over the next hops makes one.

  The Noise messages come from the snow crate: the functions of \<open>noise_lib\<close> build and read them, with the codecs of their
  payloads.  A handshake task is a sequence of calls: \<open>handshake_start\<close>, then for each attempt \<open>attempt_begin\<close> and
  \<open>attempt_end\<close>, with the answer or the reason there is none.  Times are in milliseconds.  \<^term>\<open>None\<close> is a panic.
\<close>

section \<open>State\<close>

definition HANDSHAKE_RETRY_BASE_MS :: nat where "HANDSHAKE_RETRY_BASE_MS = 200"
definition HANDSHAKE_MAX_ATTEMPTS :: nat where "HANDSHAKE_MAX_ATTEMPTS = 3"
definition MAX_PENDING_PACKETS_PER_PEER :: nat where "MAX_PENDING_PACKETS_PER_PEER = 32"

record relay_peer_state =
  last_active_at :: nat
  failure_count :: u32
  next_retry_at :: "nat option"

definition relay_peer_state_default :: "nat \<Rightarrow> relay_peer_state" where
  "relay_peer_state_default now = \<lparr>last_active_at = now, failure_count = 0, next_retry_at = None\<rparr>"

record relay_msg1 =
  m1_generation :: "u32 option"
  m1_conn_id :: "u128 option"
  m1_client_algorithm :: string

record relay_msg2 =
  m2_action :: "32 word"
  m2_generation :: u32
  m2_root_key :: "bytes option"
  m2_initial_epoch :: u32
  m2_conn_id_echo :: "u128 option"
  m2_server_algorithm :: string

text \<open>
  Reading the first message gives its payload, the static key of the initiator and the state for the answer.
  Randomness is an argument.
\<close>

record 'h noise_lib =
  nz_write1 :: "bytes \<Rightarrow> bytes \<Rightarrow> bytes \<Rightarrow> bytes \<Rightarrow> (bytes \<times> 'h) option"
  nz_read1 :: "bytes \<Rightarrow> bytes \<Rightarrow> (bytes \<times> bytes \<times> 'h) option"
  nz_write2 :: "'h \<Rightarrow> bytes \<Rightarrow> bytes \<Rightarrow> bytes option"
  nz_read2 :: "'h \<Rightarrow> bytes \<Rightarrow> bytes option"
  enc_msg1 :: "relay_msg1 \<Rightarrow> bytes"
  dec_msg1 :: "bytes \<Rightarrow> relay_msg1 option"
  enc_msg2 :: "relay_msg2 \<Rightarrow> bytes"
  dec_msg2 :: "bytes \<Rightarrow> relay_msg2 option"

record relay_config =
  rc_my_peer_id :: peer_id
  rc_network_name :: string
  rc_secure_mode :: bool
  rc_private_key :: "bytes option"
  rc_algorithm :: string

text \<open>
  A lock of the map is a number; \<open>held_locks\<close> are those a handshake task has.  An entry of \<open>pending_handshakes\<close> is the
  number of the attempt that waits for the answer.
\<close>

record relay_map =
  relay_states :: "(peer_id, relay_peer_state) store"
  pending_handshakes :: "(peer_id, nat) store"
  handshake_locks :: "(peer_id, nat) store"
  held_locks :: "nat list"
  pending_packets :: "(peer_id, (zc_packet \<times> next_hop_policy) list) store"
  relay_fresh :: nat

record relay_node =
  rn_relay :: relay_map
  rn_peers :: peer_map
  rn_foreign :: "peer_map option"
  rn_store :: session_store

definition relay_map_new :: relay_map where
  "relay_map_new = \<lparr>relay_states = [], pending_handshakes = [], handshake_locks = [], held_locks = [], pending_packets = [], relay_fresh = 0\<rparr>"

definition relay_session_key :: "relay_config \<Rightarrow> peer_id \<Rightarrow> session_key" where
  "relay_session_key cfg i = \<lparr>sk_network_name = rc_network_name cfg, sk_peer_id = i\<rparr>"

section \<open>Sending\<close>

definition get_remote_static_pubkey :: "peer_id \<Rightarrow> relay_node \<Rightarrow> bytes option" where
  "get_remote_static_pubkey i n = do {
     info \<leftarrow> get_route_peer_info i (rn_peers n);
     if ri_noise_static_pubkey info = [] then None else Some (ri_noise_static_pubkey info)
   }"

definition send_via_next_hop :: "(u128 \<Rightarrow> bool) \<Rightarrow> zc_packet \<Rightarrow> peer_id \<Rightarrow> next_hop_policy \<Rightarrow> relay_node \<Rightarrow> (pm_error + outgoing) \<times> relay_node" where
  "send_via_next_hop up msg dst policy n =
     (case get_gateway_peer_id dst policy (rn_peers n) of
        None \<Rightarrow> (Inl RouteError, n)
      | Some hop \<Rightarrow>
          if has_peer hop (rn_peers n) then
            (case send_msg_directly up msg hop (rn_peers n) of (r, m) \<Rightarrow> (r, n\<lparr>rn_peers := m\<rparr>))
          else (case rn_foreign n of
              Some f \<Rightarrow> (case fclient_send_msg up msg hop f of (r, f') \<Rightarrow> (r, n\<lparr>rn_foreign := Some f'\<rparr>))
            | None \<Rightarrow> (Inl RouteError, n)))"

definition touch_state :: "nat \<Rightarrow> peer_id \<Rightarrow> relay_map \<Rightarrow> relay_map" where
  "touch_state now i rl = rl\<lparr>relay_states := st_insert i
     ((case st_get (relay_states rl) i of None \<Rightarrow> relay_peer_state_default now | Some s \<Rightarrow> s)\<lparr>last_active_at := now\<rparr>) (relay_states rl)\<rparr>"

definition buffer_pending_packet :: "peer_id \<Rightarrow> zc_packet \<Rightarrow> next_hop_policy \<Rightarrow> relay_map \<Rightarrow> relay_map" where
  "buffer_pending_packet dst pkt policy rl =
     (let q = (case st_get (pending_packets rl) dst of None \<Rightarrow> [] | Some q \<Rightarrow> q)
      in rl\<lparr>pending_packets := st_insert dst (if length q < MAX_PENDING_PACKETS_PER_PEER then q @ [(pkt, policy)] else q) (pending_packets rl)\<rparr>)"

text \<open>
  \<^verbatim>\<open>ensure_session\<close>: the session, or the lock of the handshake task that is started now, if no other holds it.
\<close>

definition get_handshake_lock :: "peer_id \<Rightarrow> relay_map \<Rightarrow> nat \<times> relay_map" where
  "get_handshake_lock i rl = (case st_get (handshake_locks rl) i of
     Some l \<Rightarrow> (l, rl)
   | None \<Rightarrow> (relay_fresh rl, rl\<lparr>handshake_locks := st_insert i (relay_fresh rl) (handshake_locks rl), relay_fresh := Suc (relay_fresh rl)\<rparr>))"

definition ensure_session :: "relay_config \<Rightarrow> peer_id \<Rightarrow> relay_node \<Rightarrow> (nat option + nat) \<times> relay_node" where
  "ensure_session cfg dst n =
     (case store_get (relay_session_key cfg dst) (rn_store n) of
        (Some a, st) \<Rightarrow> (Inr a, n\<lparr>rn_store := st\<rparr>)
      | (None, st) \<Rightarrow>
          (case get_handshake_lock dst (rn_relay n) of (l, rl) \<Rightarrow>
             if l \<in> set (held_locks rl) then (Inl None, n\<lparr>rn_store := st, rn_relay := rl\<rparr>)
             else (Inl (Some l), n\<lparr>rn_store := st, rn_relay := rl\<lparr>held_locks := l # held_locks rl\<rparr>\<rparr>)))"

text \<open>\<^verbatim>\<open>session.encrypt_payload\<close> on a session of the store.\<close>

definition encrypt_with ::
  "crypto \<Rightarrow> nat \<Rightarrow> relay_config \<Rightarrow> nat \<Rightarrow> peer_id \<Rightarrow> zc_packet \<Rightarrow> relay_node \<Rightarrow> ((session_error + zc_packet) \<times> relay_node) option" where
  "encrypt_with cr now cfg a dst pkt n = do {
     (r, p) \<leftarrow> peer_session_encrypt cr now (rc_my_peer_id cfg) dst pkt (sess_heap (rn_store n) ! a);
     Some (r, n\<lparr>rn_store := heap_put a p (rn_store n)\<rparr>)
   }"

text \<open>The result, the packet that leaves if one does, and the handshake task that is started.\<close>

definition relay_send_msg ::
  "crypto \<Rightarrow> (u128 \<Rightarrow> bool) \<Rightarrow> nat \<Rightarrow> relay_config \<Rightarrow> zc_packet \<Rightarrow> peer_id \<Rightarrow> next_hop_policy \<Rightarrow> relay_node \<Rightarrow>
     ((pm_error + unit) \<times> outgoing option \<times> nat option \<times> relay_node) option" where
  "relay_send_msg cr up now cfg msg dst policy n0 =
     (let n = n0\<lparr>rn_relay := touch_state now dst (rn_relay n0)\<rparr>;
          send = (\<lambda>pkt k. case send_via_next_hop up pkt dst policy k of
             (Inl e, k') \<Rightarrow> (Inl e, None, None, k')
           | (Inr out, k') \<Rightarrow> (Inr (), Some out, None, k'))
      in if rc_secure_mode cfg then
           (case ensure_session cfg dst n of
              (Inr a, n1) \<Rightarrow> (case encrypt_with cr now cfg a dst msg n1 of
                  None \<Rightarrow> None
                | Some (Inl e, n2) \<Rightarrow> Some (Inl RouteError, None, None, n2)
                | Some (Inr pkt, n2) \<Rightarrow> Some (send pkt n2))
            | (Inl task, n1) \<Rightarrow> Some (Inr (), None, task, n1\<lparr>rn_relay := buffer_pending_packet dst msg policy (rn_relay n1)\<rparr>))
         else Some (send msg n))"

text \<open>The loop of \<^verbatim>\<open>flush_pending_packets\<close>; the packets that leave, in order.\<close>

fun flush_loop_relay ::
  "crypto \<Rightarrow> (u128 \<Rightarrow> bool) \<Rightarrow> nat \<Rightarrow> relay_config \<Rightarrow> peer_id \<Rightarrow> nat \<Rightarrow> (zc_packet \<times> next_hop_policy) list \<Rightarrow> relay_node \<Rightarrow>
     (outgoing list \<times> relay_node) option" where
  "flush_loop_relay cr up now cfg dst a [] n = Some ([], n)"
| "flush_loop_relay cr up now cfg dst a ((pkt, policy) # ps) n =
     (case encrypt_with cr now cfg a dst pkt n of
        None \<Rightarrow> None
      | Some (Inl e, n1) \<Rightarrow> flush_loop_relay cr up now cfg dst a ps n1
      | Some (Inr pkt', n1) \<Rightarrow> (case send_via_next_hop up pkt' dst policy n1 of
            (Inl e, n2) \<Rightarrow> flush_loop_relay cr up now cfg dst a ps n2
          | (Inr out, n2) \<Rightarrow> map_option (\<lambda>(outs, n3). (out # outs, n3)) (flush_loop_relay cr up now cfg dst a ps n2)))"

definition flush_pending_packets ::
  "crypto \<Rightarrow> (u128 \<Rightarrow> bool) \<Rightarrow> nat \<Rightarrow> relay_config \<Rightarrow> peer_id \<Rightarrow> nat \<Rightarrow> relay_node \<Rightarrow> (outgoing list \<times> relay_node) option" where
  "flush_pending_packets cr up now cfg dst a n =
     (case st_get (pending_packets (rn_relay n)) dst of
        None \<Rightarrow> Some ([], n)
      | Some ps \<Rightarrow> flush_loop_relay cr up now cfg dst a ps
          (n\<lparr>rn_relay := (rn_relay n)\<lparr>pending_packets := st_remove dst (pending_packets (rn_relay n))\<rparr>\<rparr>))"

definition relay_has_session :: "relay_config \<Rightarrow> peer_id \<Rightarrow> relay_node \<Rightarrow> bool \<times> relay_node" where
  "relay_has_session cfg dst n = (case store_get (relay_session_key cfg dst) (rn_store n) of (r, st) \<Rightarrow> (r \<noteq> None, n\<lparr>rn_store := st\<rparr>))"

section \<open>Handshakes\<close>

definition send_handshake_packet ::
  "(nat \<Rightarrow> u8) \<Rightarrow> (u128 \<Rightarrow> bool) \<Rightarrow> relay_config \<Rightarrow> bytes \<Rightarrow> packet_kind \<Rightarrow> peer_id \<Rightarrow> next_hop_policy \<Rightarrow> relay_node \<Rightarrow>
     ((pm_error + outgoing) \<times> relay_node) option" where
  "send_handshake_packet g up cfg pl kind dst policy n = do {
     pkt0 \<leftarrow> new_with_payload g pl;
     pkt \<leftarrow> fill_peer_manager_hdr (rc_my_peer_id cfg) dst (packet_kind_u8 kind) pkt0;
     Some (send_via_next_hop up pkt dst policy n)
   }"

definition drop_pending_packets :: "peer_id \<Rightarrow> relay_node \<Rightarrow> relay_node" where
  "drop_pending_packets dst n = n\<lparr>rn_relay := (rn_relay n)\<lparr>pending_packets := st_remove dst (pending_packets (rn_relay n))\<rparr>\<rparr>"

definition drop_pending_handshake :: "peer_id \<Rightarrow> relay_node \<Rightarrow> relay_node" where
  "drop_pending_handshake dst n = n\<lparr>rn_relay := (rn_relay n)\<lparr>pending_handshakes := st_remove dst (pending_handshakes (rn_relay n))\<rparr>\<rparr>"

definition update_state :: "nat \<Rightarrow> peer_id \<Rightarrow> (relay_peer_state \<Rightarrow> relay_peer_state) \<Rightarrow> relay_node \<Rightarrow> relay_node" where
  "update_state now i f n = n\<lparr>rn_relay := (rn_relay n)\<lparr>relay_states := st_insert i
     (f (case st_get (relay_states (rn_relay n)) i of None \<Rightarrow> relay_peer_state_default now | Some s \<Rightarrow> s)) (relay_states (rn_relay n))\<rparr>\<rparr>"

definition register_handshake_success :: "nat \<Rightarrow> peer_id \<Rightarrow> relay_node \<Rightarrow> relay_node" where
  "register_handshake_success now dst = update_state now dst (\<lambda>s. s\<lparr>failure_count := 0, next_retry_at := None\<rparr>)"

definition register_handshake_failure :: "nat \<Rightarrow> peer_id \<Rightarrow> nat \<Rightarrow> relay_node \<Rightarrow> relay_node" where
  "register_handshake_failure now dst attempt =
     update_state now dst (\<lambda>s. s\<lparr>failure_count := saturating_add (failure_count s) 1,
       next_retry_at := Some (now + HANDSHAKE_RETRY_BASE_MS * 2 ^ attempt)\<rparr>)"

text \<open>The first part of a handshake task; the flag says whether it goes on with its attempts.\<close>

definition handshake_start ::
  "crypto \<Rightarrow> (u128 \<Rightarrow> bool) \<Rightarrow> nat \<Rightarrow> relay_config \<Rightarrow> peer_id \<Rightarrow> relay_node \<Rightarrow> (bool \<times> outgoing list \<times> relay_node) option" where
  "handshake_start cr up now cfg dst n =
     (case store_get (relay_session_key cfg dst) (rn_store n) of
        (Some a, st) \<Rightarrow> map_option (\<lambda>(outs, n'). (False, outs, n')) (flush_pending_packets cr up now cfg dst a (n\<lparr>rn_store := st\<rparr>))
      | (None, st) \<Rightarrow> let n1 = n\<lparr>rn_store := st\<rparr>
          in (case st_get (relay_states (rn_relay n1)) dst \<bind> next_retry_at of
                Some t \<Rightarrow> if now < t then Some (False, [], drop_pending_packets dst n1) else Some (True, [], n1)
              | None \<Rightarrow> Some (True, [], n1)))"

record 'h relay_attempt =
  at_id :: nat
  at_state :: 'h
  at_conn_id :: u128
  at_remote_static :: bytes

text \<open>\<^verbatim>\<open>handshake_session_once\<close> up to the point where it waits; \<open>cid\<close> is the fresh identifier, \<open>rnd\<close> the randomness.\<close>

definition attempt_begin ::
  "'h noise_lib \<Rightarrow> (nat \<Rightarrow> u8) \<Rightarrow> (u128 \<Rightarrow> bool) \<Rightarrow> bytes \<Rightarrow> u128 \<Rightarrow> relay_config \<Rightarrow> peer_id \<Rightarrow> next_hop_policy \<Rightarrow> relay_node \<Rightarrow>
     ((pm_error + 'h relay_attempt) \<times> outgoing option \<times> relay_node) option" where
  "attempt_begin L g up rnd cid cfg dst policy n =
     (case (rc_private_key cfg, get_remote_static_pubkey dst n) of
        (Some priv, Some remote) \<Rightarrow>
          (case store_get (relay_session_key cfg dst) (rn_store n) of (ma, st) \<Rightarrow>
             let n1 = n\<lparr>rn_store := st\<rparr>;
                 msg1 = \<lparr>m1_generation = map_option (\<lambda>a. session_generation (datagram (sess_heap st ! a))) ma,
                   m1_conn_id = Some cid, m1_client_algorithm = rc_algorithm cfg\<rparr>
             in (case nz_write1 L priv remote rnd (enc_msg1 L msg1) of
                   None \<Rightarrow> Some (Inl RouteError, None, n1)
                 | Some (out, hs) \<Rightarrow>
                     let i = relay_fresh (rn_relay n1);
                         n2 = n1\<lparr>rn_relay := (rn_relay n1)\<lparr>relay_fresh := Suc i,
                           pending_handshakes := st_insert dst i (pending_handshakes (rn_relay n1))\<rparr>\<rparr>
                     in (case send_handshake_packet g up cfg out RelayHandshake dst policy n2 of
                           None \<Rightarrow> None
                         | Some (Inl e, n3) \<Rightarrow> Some (Inl e, None, drop_pending_handshake dst n3)
                         | Some (Inr o1, n3) \<Rightarrow>
                             Some (Inr \<lparr>at_id = i, at_state = hs, at_conn_id = cid, at_remote_static = remote\<rparr>, Some o1, n3))))
      | _ \<Rightarrow> Some (Inl RouteError, None, n))"

datatype attempt_event = Answer zc_packet | Cancelled | Timed_Out

fun session_action_of :: "32 word \<Rightarrow> session_action option" where
  "session_action_of i = (if i = 0 then Some Join else if i = 1 then Some Sync else if i = 2 then Some Create else None)"

fun session_action_pb :: "session_action \<Rightarrow> 32 word" where
  "session_action_pb Join = 0"
| "session_action_pb Sync = 1"
| "session_action_pb Create = 2"

text \<open>Reading a handshake packet; the outer option is a panic.\<close>

definition handshake_payload :: "packet_kind \<Rightarrow> zc_packet \<Rightarrow> bytes option option" where
  "handshake_payload kind pkt =
     (case peer_manager_header_of pkt of
        None \<Rightarrow> Some None
      | Some hdr \<Rightarrow> if packet_type hdr \<noteq> packet_kind_u8 kind then Some None else map_option Some (payload pkt))"

definition attempt_end ::
  "'h noise_lib \<Rightarrow> nat \<Rightarrow> relay_config \<Rightarrow> peer_id \<Rightarrow> 'h relay_attempt \<Rightarrow> attempt_event \<Rightarrow> relay_node \<Rightarrow> ((pm_error + nat) \<times> relay_node) option" where
  "attempt_end L now cfg dst att ev n =
     (case ev of
        Answer pkt \<Rightarrow> do {
          mpl \<leftarrow> handshake_payload RelayHandshakeAck pkt;
          Some (case mpl \<bind> nz_read2 L (at_state att) \<bind> dec_msg2 L of
              None \<Rightarrow> (Inl RouteError, n)
            | Some m2 \<Rightarrow>
                if m2_conn_id_echo m2 \<noteq> Some (at_conn_id att) then (Inl RouteError, n)
                else (case session_action_of (m2_action m2) of
                    None \<Rightarrow> (Inl RouteError, n)
                  | Some action \<Rightarrow>
                      (case apply_initiator_action now (relay_session_key cfg dst) action (m2_generation m2)
                          (m2_root_key m2 \<bind> (\<lambda>k. if length k = 32 then Some k else None)) (m2_initial_epoch m2)
                          (rc_algorithm cfg) (m2_server_algorithm m2)
                          (if length (at_remote_static att) = 32 then Some (at_remote_static att) else None) (rn_store n) of
                         (Inl e, st) \<Rightarrow> (Inl RouteError, n\<lparr>rn_store := st\<rparr>)
                       | (Inr a, st) \<Rightarrow> (Inr a, n\<lparr>rn_store := st\<rparr>))))
        }
      | _ \<Rightarrow> Some (Inl RouteError, drop_pending_handshake dst n))"

text \<open>What the task does with the outcome of an attempt; the flag asks for a further attempt, after a pause.\<close>

definition attempt_done ::
  "crypto \<Rightarrow> (u128 \<Rightarrow> bool) \<Rightarrow> nat \<Rightarrow> relay_config \<Rightarrow> peer_id \<Rightarrow> nat \<Rightarrow> pm_error + nat \<Rightarrow> relay_node \<Rightarrow>
     (bool \<times> outgoing list \<times> relay_node) option" where
  "attempt_done cr up now cfg dst attempt res n =
     (case res of
        Inr a \<Rightarrow> map_option (\<lambda>(outs, n'). (False, outs, n')) (flush_pending_packets cr up now cfg dst a (register_handshake_success now dst n))
      | Inl e \<Rightarrow> let n1 = register_handshake_failure now dst attempt n
          in Some (if attempt + 1 < HANDSHAKE_MAX_ATTEMPTS then (True, [], n1) else (False, [], drop_pending_packets dst n1)))"

definition release_lock :: "nat \<Rightarrow> relay_node \<Rightarrow> relay_node" where
  "release_lock l n = n\<lparr>rn_relay := (rn_relay n)\<lparr>held_locks := removeAll l (held_locks (rn_relay n))\<rparr>\<rparr>"

text \<open>
  Reading a first message: its content, the static key of the initiator, which must be the announced one, and the
  state of the Noise answer.
\<close>

definition read_relay_msg1 ::
  "'h noise_lib \<Rightarrow> relay_config \<Rightarrow> zc_packet \<Rightarrow> peer_id \<Rightarrow> relay_node \<Rightarrow> (relay_msg1 \<times> bytes \<times> 'h) option option" where
  "read_relay_msg1 L cfg pkt remote n =
     (case rc_private_key cfg of
        None \<Rightarrow> Some None
      | Some priv \<Rightarrow> map_option (\<lambda>mpl. do {
            pl \<leftarrow> mpl;
            (body, remote_static, hs) \<leftarrow> nz_read1 L priv pl;
            m1 \<leftarrow> dec_msg1 L body;
            if get_remote_static_pubkey remote n = Some remote_static then Some (m1, remote_static, hs) else None
          }) (handshake_payload RelayHandshake pkt))"

text \<open>The session and the answer: \<open>rk\<close> is the fresh root key, \<open>rnd\<close> the randomness of the Noise answer.\<close>

definition answer_relay_msg1 ::
  "crypto \<Rightarrow> 'h noise_lib \<Rightarrow> (nat \<Rightarrow> u8) \<Rightarrow> (u128 \<Rightarrow> bool) \<Rightarrow> nat \<Rightarrow> bytes \<Rightarrow> bytes \<Rightarrow> relay_config \<Rightarrow> peer_id \<Rightarrow>
     relay_msg1 \<times> bytes \<times> 'h \<Rightarrow> relay_node \<Rightarrow> ((pm_error + unit) \<times> outgoing list \<times> relay_node) option" where
  "answer_relay_msg1 cr L g up now rk rnd cfg remote m n =
     (case m of (m1, remote_static, hs) \<Rightarrow>
        (case upsert_responder_session now rk (relay_session_key cfg remote) (m1_generation m1) (rc_algorithm cfg)
            (m1_client_algorithm m1) (if length remote_static = 32 then Some remote_static else None) (rn_store n) of
           (Inl e, st) \<Rightarrow> Some (Inl RouteError, [], n\<lparr>rn_store := st\<rparr>)
         | (Inr ret, st) \<Rightarrow>
             (case nz_write2 L hs rnd (enc_msg2 L \<lparr>m2_action = session_action_pb (ret_action ret), m2_generation = ret_generation ret,
                 m2_root_key = ret_root_key ret, m2_initial_epoch = ret_initial_epoch ret, m2_conn_id_echo = m1_conn_id m1,
                 m2_server_algorithm = rc_algorithm cfg\<rparr>) of
                None \<Rightarrow> Some (Inl RouteError, [], n\<lparr>rn_store := st\<rparr>)
              | Some out \<Rightarrow>
                  (case send_handshake_packet g up cfg out RelayHandshakeAck remote LeastHop (register_handshake_success now remote (n\<lparr>rn_store := st\<rparr>)) of
                     None \<Rightarrow> None
                   | Some (Inl e, n2) \<Rightarrow> Some (Inl e, [], n2)
                   | Some (Inr o1, n2) \<Rightarrow>
                       map_option (\<lambda>(outs, n3). (Inr (), o1 # outs, n3)) (flush_pending_packets cr up now cfg remote (ret_session ret) n2)))))"

text \<open>
  Of two peers that have both sent a first message the one with the smaller identifier stays initiator; the other gives
  up its own attempt.
\<close>

definition handle_relay_msg1 ::
  "crypto \<Rightarrow> 'h noise_lib \<Rightarrow> (nat \<Rightarrow> u8) \<Rightarrow> (u128 \<Rightarrow> bool) \<Rightarrow> nat \<Rightarrow> bytes \<Rightarrow> bytes \<Rightarrow> relay_config \<Rightarrow> zc_packet \<Rightarrow> peer_id \<Rightarrow> relay_node \<Rightarrow>
     ((pm_error + unit) \<times> outgoing list \<times> relay_node) option" where
  "handle_relay_msg1 cr L g up now rk rnd cfg pkt remote n0 =
     (if st_get (pending_handshakes (rn_relay n0)) remote \<noteq> None \<and> \<not> remote < rc_my_peer_id cfg then Some (Inl RouteError, [], n0)
      else let n = (if st_get (pending_handshakes (rn_relay n0)) remote \<noteq> None then drop_pending_handshake remote n0 else n0)
        in (case read_relay_msg1 L cfg pkt remote n of
              None \<Rightarrow> None
            | Some None \<Rightarrow> Some (Inl RouteError, [], n)
            | Some (Some m) \<Rightarrow> answer_relay_msg1 cr L g up now rk rnd cfg remote m n))"

text \<open>The third component is the attempt that gets the answer.\<close>

definition handle_handshake_packet ::
  "crypto \<Rightarrow> 'h noise_lib \<Rightarrow> (nat \<Rightarrow> u8) \<Rightarrow> (u128 \<Rightarrow> bool) \<Rightarrow> nat \<Rightarrow> bytes \<Rightarrow> bytes \<Rightarrow> relay_config \<Rightarrow> zc_packet \<Rightarrow> relay_node \<Rightarrow>
     ((pm_error + unit) \<times> outgoing list \<times> nat option \<times> relay_node) option" where
  "handle_handshake_packet cr L g up now rk rnd cfg pkt n =
     (case peer_manager_header_of pkt of
        None \<Rightarrow> Some (Inl RouteError, [], None, n)
      | Some hdr \<Rightarrow>
          if packet_type hdr = packet_kind_u8 RelayHandshake then
            map_option (\<lambda>(r, outs, n'). (r, outs, None, n')) (handle_relay_msg1 cr L g up now rk rnd cfg pkt (from_peer_id hdr) n)
          else if packet_type hdr = packet_kind_u8 RelayHandshakeAck then
            Some (Inr (), [], st_get (pending_handshakes (rn_relay n)) (from_peer_id hdr), drop_pending_handshake (from_peer_id hdr) n)
          else Some (Inr (), [], None, n))"

section \<open>Receiving and clean-up\<close>

text \<open>The flag of the result, the packet, and the handshake task that is started.\<close>

definition decrypt_if_needed ::
  "crypto \<Rightarrow> nat \<Rightarrow> relay_config \<Rightarrow> zc_packet \<Rightarrow> relay_node \<Rightarrow> ((pm_error + bool) \<times> zc_packet \<times> nat option \<times> relay_node) option" where
  "decrypt_if_needed cr now cfg pkt n =
     (if \<not> rc_secure_mode cfg then Some (Inr False, pkt, None, n)
      else (case peer_manager_header_of pkt of
          None \<Rightarrow> Some (Inl RouteError, pkt, None, n)
        | Some hdr \<Rightarrow>
            (case store_get (relay_session_key cfg (from_peer_id hdr)) (rn_store n) of
               (None, st) \<Rightarrow> Some (case ensure_session cfg (from_peer_id hdr) (n\<lparr>rn_store := st\<rparr>) of
                   (Inl task, n1) \<Rightarrow> (Inl RouteError, pkt, task, n1)
                 | (Inr _, n1) \<Rightarrow> (Inr False, pkt, None, n1))
             | (Some a, st) \<Rightarrow>
                 let n1 = n\<lparr>rn_store := st, rn_relay := touch_state now (from_peer_id hdr) (rn_relay n)\<rparr>
                 in (case peer_session_decrypt cr now (from_peer_id hdr) (rc_my_peer_id cfg) pkt (sess_heap st ! a) of
                       None \<Rightarrow> None
                     | Some (Inl e, p) \<Rightarrow> Some (Inl OtherError, pkt, None, n1\<lparr>rn_store := heap_put a p (rn_store n1)\<rparr>)
                     | Some (Inr pkt', p) \<Rightarrow> Some (Inr True, pkt', None, n1\<lparr>rn_store := heap_put a p (rn_store n1)\<rparr>)))))"

definition relay_remove_peer :: "peer_id \<Rightarrow> relay_map \<Rightarrow> relay_map" where
  "relay_remove_peer i rl = rl\<lparr>relay_states := st_remove i (relay_states rl), pending_handshakes := st_remove i (pending_handshakes rl),
     handshake_locks := st_remove i (handshake_locks rl), pending_packets := st_remove i (pending_packets rl)\<rparr>"

definition evict_idle_sessions :: "nat \<Rightarrow> nat \<Rightarrow> relay_map \<Rightarrow> relay_map" where
  "evict_idle_sessions now idle rl =
     fold relay_remove_peer (map fst (filter (\<lambda>(i, s). idle < now - last_active_at s) (relay_states rl))) rl"

definition is_backoff_active :: "nat \<Rightarrow> peer_id \<Rightarrow> relay_map \<Rightarrow> bool" where
  "is_backoff_active now i rl = (case st_get (relay_states rl) i \<bind> next_retry_at of None \<Rightarrow> False | Some t \<Rightarrow> now < t)"

end
