(* ===== verification/Relay_Secure.thy ===== *)
theory Relay_Secure
  imports Relay_Peer
begin

text \<open>
  What the relay sessions guarantee: in secure mode nothing but handshakes leaves unencrypted, the waiting packets stay
  bounded, and two handshakes that cross end with one session.
\<close>

section \<open>Encrypted packets\<close>

lemma encrypted_flag:
  assumes "encrypt_with_nonce cr rnd c mn p = Some (Inr q)" and "c \<noteq> NullCipher"
  shows "\<exists>h. peer_manager_header_of q = Some h \<and> is_encrypted h"
proof (cases "\<exists>h. peer_manager_header_of p = Some h \<and> \<not> is_encrypted h")
  case False
  with assms show ?thesis
    by (cases c) (auto simp: xor_encrypt_def ring_encrypt_with_nonce_def split: bind_splits if_splits)
next
  case True
  then obtain h where h: "peer_manager_header_of p = Some h" "\<not> is_encrypted h" by blast
  then have "payload_offset p \<le> length (inner p)"
    by (auto simp: peer_manager_header_of_def header_at_def slice_from_def ref_from_prefix_def payload_offset_def payload_offset_pm
        split: if_splits bind_splits)
  then obtain pt pre h0 body where pk: "p = packet_of pt pre h0 body" "length pre = peer_manager_header_off (get_packet_offsets pt)"
    by (rule packet_of_cases)
  with h have h0: "h0 = h" by simp
  show ?thesis
  proof (cases c)
    case (XorCipher key)
    with assms pk h h0 have "q = packet_of pt pre (set_encrypted True h) (xor_data key body)"
      by (simp add: xor_encrypt_def)
    with pk(2) h(2) show ?thesis by (simp add: set_encrypted_twice)
  next
    case (RingCipher alg key)
    from RingCipher assms pk h h0 obtain ct tl where q: "q = packet_of pt pre (set_encrypted True h) (ct @ tl)"
      by (auto simp: ring_encrypt_with_nonce_def packet_of_append split: option.splits if_splits bind_splits)
    with pk(2) h(2) show ?thesis by (simp add: set_encrypted_twice)
  qed (use assms in simp)
qed

lemma create_encryptor_real: "create_encryptor alg k k' \<noteq> NullCipher"
  by (simp add: create_encryptor_def split: encryption_algorithm.split option.split)

lemma session_encrypt_flag:
  assumes "session_encrypt_payload cr now d p s = Some (Inr q, s')" "key_inv cr s" "hmac_sized cr"
  shows "\<exists>h. peer_manager_header_of q = Some h \<and> is_encrypted h"
proof (rule encrypt_payload_steps [OF assms])
  fix epoch seq s1 c
  assume c: "traffic_cipher cr (root_key s) (send_cipher_algorithm s) epoch d = Some c"
    and e: "encrypt_with_nonce cr [] c (Some (nonce_of epoch seq)) p = Some (Inr q)"
  from c have "c \<noteq> NullCipher" by (auto simp: traffic_cipher_def create_encryptor_real split: bind_splits)
  with e show ?thesis by (rule encrypted_flag)
qed

section \<open>The keys of the sessions stay right\<close>

lemma session_encrypt_key_inv:
  assumes "session_encrypt_payload cr now d p s = Some (r, s')" "key_inv cr s" "hmac_sized cr"
  shows "key_inv cr s'"
proof (cases "session_is_valid s")
  case True
  obtain x s1 where nn: "next_nonce now d s = (x, s1)" by (cases "next_nonce now d s")
  then have k1: "key_inv cr s1" using assms(2) next_nonce_frame [OF nn] by (auto elim: key_inv_frame)
  obtain c s2 where c: "get_or_create_encryptor cr (fst x) d (session_generation s1) True s1 = Some (c, s2)" "key_inv cr s2"
    using get_or_create_spec [OF k1 assms(3)] by metis
  have "s' = s2 \<or> s' = session_invalidate s2"
    using assms(1) True nn c(1) by (cases x) (auto simp: session_encrypt_payload_def split: bind_splits sum.splits)
  with c(2) show ?thesis by (auto simp: session_invalidate_def elim: key_inv_frame)
next
  case False
  with assms show ?thesis by (simp add: session_encrypt_payload_def)
qed

lemma session_decrypt_key_inv:
  assumes "session_decrypt_payload cr now d p s = Some (r, s')" "key_inv cr s" "hmac_sized cr"
  shows "key_inv cr s'"
proof (cases "\<exists>pl n. session_is_valid s \<and> payload p = Some pl \<and> parse_tail pl = Some n")
  case True
  then obtain pl n where v: "session_is_valid s" "payload p = Some pl" "parse_tail pl = Some n" by blast
  define epoch :: u32 where "epoch = from_be_bytes (take 4 n)"
  define seq :: u64 where "seq = from_be_bytes (drop 4 n)"
  obtain ok s1 where p: "precheck_replay epoch seq d now s = (ok, s1)" by (cases "precheck_replay epoch seq d now s")
  note k1 = precheck_key_inv [OF assms(2) p]
  obtain c s2 where c: "get_or_create_encryptor cr epoch d (session_generation s1) False s1 = Some (c, s2)" "key_inv cr s2"
    using get_or_create_spec [OF k1 assms(3)] by metis
  note frame = key_inv_frame [OF c(2)]
  have k3: "key_inv cr (s2\<lparr>decrypt_fail_count := m\<rparr>)" for m by (rule frame) simp_all
  have "s' = s1 \<or> (\<exists>m. s' = s2\<lparr>decrypt_fail_count := m\<rparr> \<or> s' = session_invalidate (s2\<lparr>decrypt_fail_count := m\<rparr>))
      \<or> s' = snd (commit_replay epoch seq d now (s2\<lparr>decrypt_fail_count := 0\<rparr>))"
    using assms(1) v p c(1) unfolding session_decrypt_payload_def epoch_def [symmetric] seq_def [symmetric]
    by (simp add: epoch_def [symmetric] seq_def [symmetric] split_beta Let_def split: if_splits bind_splits sum.splits) blast+
  moreover have "key_inv cr (session_invalidate (s2\<lparr>decrypt_fail_count := m\<rparr>))" for m
    by (rule frame) (simp_all add: session_invalidate_def)
  ultimately show ?thesis using k1 k3 commit_key_inv [OF k3 [of 0]] by auto
next
  case False
  with assms show ?thesis by (auto simp: session_decrypt_payload_def split: if_splits bind_splits option.splits)
qed

definition heap_keys :: "crypto \<Rightarrow> session_store \<Rightarrow> bool" where
  "heap_keys cr st \<longleftrightarrow> (\<forall>p \<in> set (sess_heap st). key_inv cr (datagram p))"

lemma heap_keys_nth: "heap_keys cr st \<Longrightarrow> a < length (sess_heap st) \<Longrightarrow> key_inv cr (datagram (sess_heap st ! a))"
  by (simp add: heap_keys_def)

lemma heap_keys_put:
  assumes "heap_keys cr st" and "a < length (sess_heap st) \<Longrightarrow> key_inv cr (datagram p)"
  shows "heap_keys cr (heap_put a p st)"
proof (cases "a < length (sess_heap st)")
  case True
  with assms show ?thesis
    using set_update_subset_insert [of "sess_heap st" a p] by (auto simp: heap_keys_def heap_put_def)
next
  case False
  with assms(1) show ?thesis by (simp add: heap_keys_def heap_put_def list_update_beyond)
qed

lemma heap_keys_get: "heap_keys cr (snd (store_get key st)) = heap_keys cr st"
  by (simp add: heap_keys_def store_get_ok)

lemma heap_keys_alloc:
  "store_alloc key p st = (a, st') \<Longrightarrow> heap_keys cr st \<Longrightarrow> key_inv cr (datagram p) \<Longrightarrow> heap_keys cr st'"
  by (simp add: heap_keys_def store_alloc_simps(2))

lemma peer_session_new_keys: "key_inv cr (datagram (peer_session_new now i rk gen ep sa ra pk))"
  by (simp add: peer_session_new_def session_new_key_inv)

lemma heap_keys_upsert:
  assumes "upsert_responder_session now rk key gen sa ra pk st = (r, st')" "store_ok st" "heap_keys cr st"
  shows "heap_keys cr st'"
  using assms(1,2)
proof (cases rule: upsert_cases)
  case (create a)
  from heap_keys_alloc [OF create(1) assms(3) peer_session_new_keys] show ?thesis .
next
  case (known a p)
  with pubkey_ok(1) [OF known(5)] show ?thesis
    using assms(3) by (auto intro!: heap_keys_put heap_keys_nth)
qed (use assms in simp)

lemma heap_keys_check:
  assumes "heap_keys cr st"
  shows "check_session sa ra pk a st = Inl (e, st') \<Longrightarrow> heap_keys cr st'" "check_session sa ra pk a st = Inr st' \<Longrightarrow> heap_keys cr st'"
  using assms pubkey_ok(1)
  by (auto simp: check_session_def heap_keys_nth intro!: heap_keys_put split: if_splits sum.splits)

lemma sync_keys: "key_inv cr (datagram (peer_session_sync_root_key now rk gen ep keep p))"
  by (rule key_inv_no_keys) (simp add: peer_session_sync_root_key_def sync_root_key_fields)

lemma heap_keys_apply:
  assumes "heap_keys cr st"
  shows "heap_keys cr (snd (apply_initiator_action now key act gen rk ep sa ra pk st))"
proof -
  define st1 where "st1 = snd (store_get key st)"
  have 1: "heap_keys cr st1" using assms by (simp add: st1_def heap_keys_get)
  show ?thesis
  proof (cases "act = Join")
    case True
    with 1 show ?thesis
      by (auto simp: apply_initiator_action_def st1_def split: prod.split option.split sum.split dest: heap_keys_check)
  next
    case False
    show ?thesis
    proof (cases rk)
      case None
      with False assms show ?thesis by (cases act) (simp_all add: apply_initiator_action_def)
    next
      case (Some k)
      obtain a st2 where p: "(case st_get (sessions st1) key of Some a \<Rightarrow> (a, st1)
          | None \<Rightarrow> store_alloc key (peer_session_new now (sk_peer_id key) k gen ep sa ra pk) st1) = (a, st2)"
        by (meson surj_pair)
      have 2: "heap_keys cr st2"
        using p 1 heap_keys_alloc [OF _ 1 peer_session_new_keys] by (auto split: option.splits)
      have "apply_initiator_action now key act gen rk ep sa ra pk st = (case check_session sa ra pk a st2 of Inl (e, st3) \<Rightarrow> (Inl e, st3)
          | Inr st3 \<Rightarrow> (Inr a, heap_put a (peer_session_sync_root_key now k gen ep (act = Sync) (sess_heap st3 ! a)) st3))"
        using False Some p unfolding apply_initiator_action_def st1_def by (cases act) simp_all
      then show ?thesis
        using heap_keys_check [OF 2] by (auto split: sum.split prod.split intro!: heap_keys_put sync_keys)
    qed
  qed
qed

lemma peer_session_encrypt_keys:
  assumes "peer_session_encrypt cr now x y pkt p = Some (r, p')" "key_inv cr (datagram p)" "hmac_sized cr"
  shows "key_inv cr (datagram p')"
  using assms session_encrypt_key_inv [OF _ assms(2,3)] by (auto simp: peer_session_encrypt_def split: if_splits)

lemma peer_session_decrypt_keys:
  assumes "peer_session_decrypt cr now x y pkt p = Some (r, p')" "key_inv cr (datagram p)" "hmac_sized cr"
  shows "key_inv cr (datagram p')"
  using assms session_decrypt_key_inv [OF _ assms(2,3)] by (auto simp: peer_session_decrypt_def split: if_splits)

lemma heap_keys_exec:
  assumes "store_ok st" "heap_keys cr st"
  shows "heap_keys cr (exec_op op st)"
  using assms
proof (cases op)
  case (OpUpsert now rk key gen sa ra pk)
  then show ?thesis using heap_keys_upsert [OF prod.collapse [symmetric] assms] by simp
next
  case (OpApply now key act gen rk ep sa ra pk)
  then show ?thesis using heap_keys_apply [OF assms(2)] by simp
qed (simp_all add: heap_keys_get, simp_all add: heap_keys_def store_remove_def evict_unused_sessions_def)

section \<open>Nothing leaves in the clear\<close>

fun out_packet :: "outgoing \<Rightarrow> zc_packet" where
  "out_packet (To_Self p) = p"
| "out_packet (To_Conn i c p) = p"

definition relay_node_new :: "peer_id \<Rightarrow> relay_node" where
  "relay_node_new me = \<lparr>rn_relay = relay_map_new, rn_peers = peer_map_new me, rn_foreign = Some (peer_map_new me), rn_store = store_new\<rparr>"

text \<open>
  Everything that happens to a node, with the packets that leave: messages, the parts of the handshake tasks, packets of
  handshakes, decryption, the clean-up tasks; the store of sessions is also used by direct connections, and the peers
  change on their own.
\<close>

inductive relay_step :: "crypto \<Rightarrow> 'h noise_lib \<Rightarrow> relay_config \<Rightarrow> relay_node \<Rightarrow> outgoing list \<Rightarrow> relay_node \<Rightarrow> bool"
  for cr L cfg where
  msg_sent: "relay_send_msg cr up now cfg msg dst policy n = Some (r, out, task, n') \<Longrightarrow>
    relay_step cr L cfg n (case out of None \<Rightarrow> [] | Some x \<Rightarrow> [x]) n'"
| task_started: "handshake_start cr up now cfg dst n = Some (go, outs, n') \<Longrightarrow> relay_step cr L cfg n outs n'"
| attempt_begun: "attempt_begin L g up rnd cid cfg dst policy n = Some (r', out, n') \<Longrightarrow>
    relay_step cr L cfg n (case out of None \<Rightarrow> [] | Some x \<Rightarrow> [x]) n'"
| attempt_over: "attempt_end L now cfg dst att ev n = Some (res, n1) \<Longrightarrow> attempt_done cr up later cfg dst k res n1 = Some (go, outs, n') \<Longrightarrow>
    relay_step cr L cfg n outs n'"
| task_over: "relay_step cr L cfg n [] (release_lock l n)"
| handshake_packet: "handle_handshake_packet cr L g up now rk rnd cfg pkt n = Some (r, outs, att, n') \<Longrightarrow> relay_step cr L cfg n outs n'"
| packet_decrypted: "decrypt_if_needed cr now cfg pkt n = Some (r2, pkt', task, n') \<Longrightarrow> relay_step cr L cfg n [] n'"
| idle_evicted: "relay_step cr L cfg n [] (n\<lparr>rn_relay := evict_idle_sessions now idle (rn_relay n)\<rparr>)"
| peer_removed: "relay_step cr L cfg n [] (n\<lparr>rn_relay := relay_remove_peer i (rn_relay n)\<rparr>)"
| store_used: "relay_step cr L cfg n [] (n\<lparr>rn_store := exec_op op (rn_store n)\<rparr>)"
| session_encrypts: "a < length (sess_heap (rn_store n)) \<Longrightarrow> peer_session_encrypt cr now x y pkt (sess_heap (rn_store n) ! a) = Some (er, p) \<Longrightarrow>
    relay_step cr L cfg n [] (n\<lparr>rn_store := heap_put a p (rn_store n)\<rparr>)"
| session_decrypts: "a < length (sess_heap (rn_store n)) \<Longrightarrow> peer_session_decrypt cr now x y pkt (sess_heap (rn_store n) ! a) = Some (er, p) \<Longrightarrow>
    relay_step cr L cfg n [] (n\<lparr>rn_store := heap_put a p (rn_store n)\<rparr>)"
| peers_changed: "relay_step cr L cfg n [] (n\<lparr>rn_peers := m, rn_foreign := f\<rparr>)"

definition relay_inv :: "crypto \<Rightarrow> relay_node \<Rightarrow> bool" where
  "relay_inv cr n \<longleftrightarrow> store_ok (rn_store n) \<and> heap_keys cr (rn_store n)
     \<and> (\<forall>i q. st_get (pending_packets (rn_relay n)) i = Some q \<longrightarrow> length q \<le> MAX_PENDING_PACKETS_PER_PEER)"

definition guarded :: "zc_packet \<Rightarrow> bool" where
  "guarded p \<longleftrightarrow> (\<exists>h. peer_manager_header_of p = Some h
     \<and> (is_encrypted h \<or> packet_type h = packet_kind_u8 RelayHandshake \<or> packet_type h = packet_kind_u8 RelayHandshakeAck))"

text \<open>Sending changes the peer maps only, and what leaves is the message.\<close>

lemma send_via_next_hop_frame:
  assumes "send_via_next_hop up msg dst policy n = (r, n')"
  shows "rn_store n' = rn_store n" "rn_relay n' = rn_relay n" "r = Inr out \<Longrightarrow> out_packet out = msg"
proof -
  have p: "r = Inr out \<Longrightarrow> out_packet out = msg" if "send_msg_directly up msg hop m = (r, m')" for r hop m m'
    using that by (auto simp: send_msg_directly_def peer_send_msg_def split: if_splits option.splits prod.splits)
  show "rn_store n' = rn_store n" "rn_relay n' = rn_relay n"
    using assms by (auto simp: send_via_next_hop_def split: option.splits if_splits prod.splits)
  show "r = Inr out \<Longrightarrow> out_packet out = msg"
    using assms p by (auto simp: send_via_next_hop_def fclient_send_msg_def split: option.splits if_splits prod.splits)
qed

definition handshake_of :: "packet_kind \<Rightarrow> peer_id \<Rightarrow> bytes \<Rightarrow> zc_packet \<Rightarrow> bool" where
  "handshake_of kind sender pl p \<longleftrightarrow> payload p = Some pl
     \<and> (\<exists>h. peer_manager_header_of p = Some h \<and> packet_type h = packet_kind_u8 kind \<and> from_peer_id h = sender)"

lemma send_handshake_frame:
  assumes "send_handshake_packet g up cfg pl kind dst policy n = Some (r, n')"
  shows "rn_store n' = rn_store n" "rn_relay n' = rn_relay n" "r = Inr out \<Longrightarrow> handshake_of kind (rc_my_peer_id cfg) pl (out_packet out)"
proof -
  obtain pkt0 pkt where p: "new_with_payload g pl = Some pkt0"
      "fill_peer_manager_hdr (rc_my_peer_id cfg) dst (packet_kind_u8 kind) pkt0 = Some pkt" "send_via_next_hop up pkt dst policy n = (r, n')"
    using assms by (auto simp: send_handshake_packet_def split: bind_splits)
  define f :: "peer_manager_header \<Rightarrow> peer_manager_header" where "f = (\<lambda>hdr. hdr\<lparr>from_peer_id := rc_my_peer_id cfg, to_peer_id := dst, packet_type := packet_kind_u8 kind, flags := 0,
    forward_counter := 1, pm_len := of_nat (payload_len pkt0)\<rparr>)"
  have f: "mut_peer_manager_header f pkt0 = Some pkt" using p(2) unfolding fill_peer_manager_hdr_def f_def by simp
  have o: "payload_offset pkt0 \<le> length (inner pkt0)" "payload pkt0 = Some pl"
    using p(1) by (auto simp: new_with_payload_eq payload_offset_def payload_def slice_from_def layout_simps)
  from mut_peer_manager_header_Some [OF o(1), of f] f o(2) have h: "handshake_of kind (rc_my_peer_id cfg) pl pkt"
    by (auto simp: handshake_of_def f_def)
  show "rn_store n' = rn_store n" "rn_relay n' = rn_relay n" using send_via_next_hop_frame [OF p(3)] by auto
  show "handshake_of kind (rc_my_peer_id cfg) pl (out_packet out)" if "r = Inr out"
    using send_via_next_hop_frame(3) [OF p(3) that] h by simp
qed

lemma handshake_guarded: "handshake_of kind i pl p \<Longrightarrow> kind = RelayHandshake \<or> kind = RelayHandshakeAck \<Longrightarrow> guarded p"
  by (auto simp: handshake_of_def guarded_def)

text \<open>Encryption with a session of the store keeps the invariant and marks the packet.\<close>

lemma encrypt_with_inv:
  assumes "encrypt_with cr now cfg a dst pkt n = Some (r, n')" "relay_inv cr n" "hmac_sized cr" "a < length (sess_heap (rn_store n))"
  shows "relay_inv cr n'" "length (sess_heap (rn_store n')) = length (sess_heap (rn_store n))" "rn_relay n' = rn_relay n"
    "r = Inr q \<Longrightarrow> guarded q"
proof -
  obtain p where p: "peer_session_encrypt cr now (rc_my_peer_id cfg) dst pkt (sess_heap (rn_store n) ! a) = Some (r, p)"
      "n' = n\<lparr>rn_store := heap_put a p (rn_store n)\<rparr>"
    using assms(1) by (auto simp: encrypt_with_def split: bind_splits)
  have k: "key_inv cr (datagram (sess_heap (rn_store n) ! a))"
    using assms(2,4) by (simp add: relay_inv_def heap_keys_nth)
  show "relay_inv cr n'"
    using assms(2) p peer_session_encrypt_keys [OF p(1) k assms(3)]
    by (auto simp: relay_inv_def intro!: heap_keys_put heap_put_ok)
  show "length (sess_heap (rn_store n')) = length (sess_heap (rn_store n))" "rn_relay n' = rn_relay n"
    using p(2) by (simp_all add: heap_put_def)
  show "guarded q" if ok: "r = Inr q"
  proof -
    obtain s' where "session_encrypt_payload cr now (dir_for_sender (rc_my_peer_id cfg) dst) pkt (datagram (sess_heap (rn_store n) ! a)) = Some (Inr q, s')"
      using p(1) ok by (auto simp: peer_session_encrypt_def split: if_splits)
    from session_encrypt_flag [OF this k assms(3)] show ?thesis unfolding guarded_def by blast
  qed
qed

lemma relay_inv_same: "rn_store n' = rn_store n \<Longrightarrow> pending_packets (rn_relay n') = pending_packets (rn_relay n) \<Longrightarrow> relay_inv cr n' = relay_inv cr n"
  by (simp add: relay_inv_def)

lemma send_inv:
  assumes "send_via_next_hop up msg dst policy n = (r, n')" "relay_inv cr n"
  shows "relay_inv cr n'"
  using send_via_next_hop_frame [OF assms(1)] assms(2) relay_inv_same by metis

lemma flush_loop_inv:
  assumes "flush_loop_relay cr up now cfg dst a ps n = Some (outs, n')" "relay_inv cr n" "hmac_sized cr" "a < length (sess_heap (rn_store n))"
  shows "relay_inv cr n' \<and> (\<forall>out \<in> set outs. guarded (out_packet out))"
  using assms
proof (induction ps arbitrary: n outs)
  case (Cons x ps)
  obtain pkt policy where x: "x = (pkt, policy)" by fastforce
  obtain r n1 where e: "encrypt_with cr now cfg a dst pkt n = Some (r, n1)"
    using Cons.prems(1) x by (auto split: option.splits)
  note inv1 = encrypt_with_inv [OF e Cons.prems(2-4)]
  show ?case
  proof (cases r)
    case (Inl err)
    with Cons x e inv1 show ?thesis by auto
  next
    case (Inr pkt')
    obtain r2 n2 where s: "send_via_next_hop up pkt' dst policy n1 = (r2, n2)" by fastforce
    note f = send_via_next_hop_frame [OF s] and inv2 = send_inv [OF s inv1(1)]
    have len: "a < length (sess_heap (rn_store n2))" using f(1) inv1(2) Cons.prems(4) by simp
    show ?thesis
    proof (cases r2)
      case (Inl err)
      with Cons.prems(1) x e Inr s have "flush_loop_relay cr up now cfg dst a ps n2 = Some (outs, n')" by simp
      from Cons.IH [OF this inv2 Cons.prems(3) len] show ?thesis .
    next
      case (Inr out)
      with Cons.prems(1) x e \<open>r = Inr pkt'\<close> s obtain outs' where o: "flush_loop_relay cr up now cfg dst a ps n2 = Some (outs', n')" "outs = out # outs'"
        by (auto split: option.splits)
      from Cons.IH [OF o(1) inv2 Cons.prems(3) len] f(3) [OF Inr] inv1(4) [OF \<open>r = Inr pkt'\<close>] o(2) show ?thesis by auto
    qed
  qed
qed simp

lemma drop_pending_inv: "relay_inv cr n \<Longrightarrow> relay_inv cr (drop_pending_packets dst n)"
  by (auto simp: relay_inv_def drop_pending_packets_def store_simps split: if_splits)

lemma flush_inv:
  assumes "flush_pending_packets cr up now cfg dst a n = Some (outs, n')" "relay_inv cr n" "hmac_sized cr" "a < length (sess_heap (rn_store n))"
  shows "relay_inv cr n' \<and> (\<forall>out \<in> set outs. guarded (out_packet out))"
proof (cases "st_get (pending_packets (rn_relay n)) dst")
  case None
  with assms show ?thesis by (auto simp: flush_pending_packets_def)
next
  case (Some ps)
  then have "flush_loop_relay cr up now cfg dst a ps (drop_pending_packets dst n) = Some (outs, n')"
    using assms(1) by (simp add: flush_pending_packets_def drop_pending_packets_def)
  from flush_loop_inv [OF this drop_pending_inv [OF assms(2)] assms(3)] assms(4) show ?thesis
    by (simp add: drop_pending_packets_def)
qed

lemma ensure_session_inv:
  assumes "ensure_session cfg dst n = (r, n')" "relay_inv cr n"
  shows "relay_inv cr n'" "r = Inr a \<Longrightarrow> a < length (sess_heap (rn_store n'))" "rn_peers n' = rn_peers n"
    "pending_packets (rn_relay n') = pending_packets (rn_relay n)"
proof -
  obtain ma st where g: "store_get (relay_session_key cfg dst) (rn_store n) = (ma, st)" by fastforce
  have ok: "store_ok (rn_store n)" using assms(2) by (simp add: relay_inv_def)
  have st: "store_ok st" "sess_heap st = sess_heap (rn_store n)" "heap_keys cr st"
    using assms(2) g store_get_ok(1) [OF ok, of "relay_session_key cfg dst"] store_get_ok(2) [of "relay_session_key cfg dst" "rn_store n"]
      heap_keys_get [of cr "relay_session_key cfg dst" "rn_store n"]
    by (auto simp: relay_inv_def)
  have r: "a < length (sess_heap st)" if "r = Inr a"
  proof -
    have "ma = Some a" using that assms(1) g by (auto simp: ensure_session_def split: option.splits prod.splits if_splits)
    with g ok st(2) show ?thesis using store_get_Some(2) by simp
  qed
  show "pending_packets (rn_relay n') = pending_packets (rn_relay n)" "rn_peers n' = rn_peers n"
    using assms(1) g by (auto simp: ensure_session_def get_handshake_lock_def split: option.splits prod.splits if_splits)
  moreover have s: "rn_store n' = st"
    using assms(1) g by (auto simp: ensure_session_def split: option.splits prod.splits if_splits)
  ultimately show "relay_inv cr n'" using assms(2) st by (simp add: relay_inv_def)
  show "r = Inr a \<Longrightarrow> a < length (sess_heap (rn_store n'))" using r s by simp
qed

lemma touch_inv: "relay_inv cr (n\<lparr>rn_relay := touch_state now i (rn_relay n)\<rparr>) = relay_inv cr n"
  by (rule relay_inv_same) (simp_all add: touch_state_def)

lemma buffer_inv: "relay_inv cr n \<Longrightarrow> relay_inv cr (n\<lparr>rn_relay := buffer_pending_packet dst msg policy (rn_relay n)\<rparr>)"
  by (auto simp: relay_inv_def buffer_pending_packet_def Let_def store_simps not_less intro: le_antisym split: option.splits)

text \<open>What one step has to show: the invariant afterwards, and that no packet leaves in the clear.\<close>

abbreviation (input) step_ok :: "crypto \<Rightarrow> outgoing list \<Rightarrow> relay_node \<Rightarrow> bool" where
  "step_ok cr outs n' \<equiv> relay_inv cr n' \<and> (\<forall>out \<in> set outs. guarded (out_packet out))"

lemma relay_send_ok:
  assumes "relay_send_msg cr up now cfg msg dst policy n = Some (r, out, task, n')" "relay_inv cr n" "hmac_sized cr" "rc_secure_mode cfg"
  shows "step_ok cr (case out of None \<Rightarrow> [] | Some x \<Rightarrow> [x]) n'"
proof -
  define n0 where "n0 = n\<lparr>rn_relay := touch_state now dst (rn_relay n)\<rparr>"
  have 0: "relay_inv cr n0" using assms(2) by (simp add: n0_def touch_inv)
  obtain er n1 where e: "ensure_session cfg dst n0 = (er, n1)" by fastforce
  note inv1 = ensure_session_inv [OF e 0]
  show ?thesis
  proof (cases er)
    case (Inl tk)
    then have "out = None" "n' = n1\<lparr>rn_relay := buffer_pending_packet dst msg policy (rn_relay n1)\<rparr>"
      using assms(1,4) e unfolding relay_send_msg_def n0_def [symmetric] Let_def by auto
    with inv1(1) buffer_inv show ?thesis by simp
  next
    case (Inr a)
    obtain q n2 where x: "encrypt_with cr now cfg a dst msg n1 = Some (q, n2)"
      using assms(1,4) e Inr unfolding relay_send_msg_def n0_def [symmetric] Let_def by (auto split: option.splits)
    note inv2 = encrypt_with_inv [OF x inv1(1) assms(3) inv1(2) [OF Inr]]
    show ?thesis
    proof (cases q)
      case (Inl er2)
      then have "out = None" "n' = n2"
        using assms(1,4) e Inr x unfolding relay_send_msg_def n0_def [symmetric] Let_def by auto
      with inv2(1) show ?thesis by simp
    next
      case (Inr pkt)
      obtain sr n3 where s: "send_via_next_hop up pkt dst policy n2 = (sr, n3)" by fastforce
      have "n' = n3" "out = (case sr of Inl _ \<Rightarrow> None | Inr x \<Rightarrow> Some x)"
        using assms(1,4) e \<open>er = Inr a\<close> x Inr s unfolding relay_send_msg_def n0_def [symmetric] Let_def by (auto split: sum.splits)
      with send_inv [OF s inv2(1)] send_via_next_hop_frame(3) [OF s] inv2(4) [OF Inr] show ?thesis
        by (auto split: sum.splits)
    qed
  qed
qed

lemma store_get_inv:
  assumes "store_get key (rn_store n) = (ma, st)" "relay_inv cr n"
  shows "relay_inv cr (n\<lparr>rn_store := st\<rparr>)" "ma = Some a \<Longrightarrow> a < length (sess_heap st)"
proof -
  have ok: "store_ok (rn_store n)" using assms(2) by (simp add: relay_inv_def)
  show "relay_inv cr (n\<lparr>rn_store := st\<rparr>)"
    using assms heap_keys_get [of cr key "rn_store n"] store_get_ok(1) [OF ok, of key] by (simp add: relay_inv_def)
  show "a < length (sess_heap st)" if "ma = Some a"
    using store_get_Some(1,2) [OF assms(1) [unfolded that] ok] by simp
qed

lemma handshake_start_ok:
  assumes "handshake_start cr up now cfg dst n = Some (go, outs, n')" "relay_inv cr n" "hmac_sized cr"
  shows "step_ok cr outs n'"
proof -
  obtain ma st where g: "store_get (relay_session_key cfg dst) (rn_store n) = (ma, st)" by fastforce
  note i = store_get_inv [OF g assms(2)]
  show ?thesis
  proof (cases ma)
    case None
    with assms(1) g i(1) drop_pending_inv [OF i(1), of dst] show ?thesis
      by (auto simp: handshake_start_def Let_def split: option.splits if_splits)
  next
    case (Some a)
    then have "flush_pending_packets cr up now cfg dst a (n\<lparr>rn_store := st\<rparr>) = Some (outs, n')"
      using assms(1) g by (auto simp: handshake_start_def)
    from flush_inv [OF this i(1) assms(3)] i(2) [OF Some] show ?thesis by simp
  qed
qed

lemma attempt_begin_ok:
  assumes "attempt_begin L g up rnd cid cfg dst policy n = Some (r, out, n')" "relay_inv cr n"
  shows "step_ok cr (case out of None \<Rightarrow> [] | Some x \<Rightarrow> [x]) n'"
proof (cases "\<exists>priv remote. rc_private_key cfg = Some priv \<and> get_remote_static_pubkey dst n = Some remote")
  case False
  with assms show ?thesis by (auto simp: attempt_begin_def split: option.splits)
next
  case True
  then obtain priv remote where k: "rc_private_key cfg = Some priv" "get_remote_static_pubkey dst n = Some remote" by blast
  obtain ma st where gt: "store_get (relay_session_key cfg dst) (rn_store n) = (ma, st)" by fastforce
  note i = store_get_inv [OF gt assms(2)]
  define n1 where "n1 = n\<lparr>rn_store := st\<rparr>"
  define m1 where "m1 = \<lparr>m1_generation = map_option (\<lambda>a. session_generation (datagram (sess_heap st ! a))) ma,
    m1_conn_id = Some cid, m1_client_algorithm = rc_algorithm cfg\<rparr>"
  define n2 where "n2 = n1\<lparr>rn_relay := (rn_relay n1)\<lparr>relay_fresh := Suc (relay_fresh (rn_relay n1)),
    pending_handshakes := st_insert dst (relay_fresh (rn_relay n1)) (pending_handshakes (rn_relay n1))\<rparr>\<rparr>"
  have 2: "relay_inv cr n2" using i(1) by (simp add: relay_inv_def n2_def n1_def)
  note eq = assms(1) [unfolded attempt_begin_def k gt prod.case option.case Let_def n1_def [symmetric] m1_def [symmetric] n2_def [symmetric]]
  show ?thesis
  proof (cases "nz_write1 L priv remote rnd (enc_msg1 L m1)")
    case None
    with eq i(1) show ?thesis by (auto simp: n1_def)
  next
    case (Some x)
    obtain o1 hs where x: "x = (o1, hs)" by fastforce
    obtain sr n3 where s: "send_handshake_packet g up cfg o1 RelayHandshake dst policy n2 = Some (sr, n3)"
      using eq Some x by (auto split: option.splits)
    note f = send_handshake_frame [OF s]
    have 3: "relay_inv cr n3" "relay_inv cr (drop_pending_handshake dst n3)"
      using 2 f(1,2) by (simp_all add: relay_inv_def drop_pending_handshake_def)
    show ?thesis
    proof (cases sr)
      case (Inl e)
      with eq Some x s 3 show ?thesis by auto
    next
      case (Inr p)
      with eq Some x s 3 handshake_guarded [OF f(3) [OF Inr]] show ?thesis by auto
    qed
  qed
qed

lemma apply_address:
  assumes "apply_initiator_action now key act gen rk ep sa ra pk st = (Inr a, st')" "store_ok st"
  shows "a < length (sess_heap st')" "st_get (sessions st') key = Some a"
proof -
  have "a < length (sess_heap st') \<and> st_get (sessions st') key = Some a"
  proof (cases "act = Join")
    case True
    show ?thesis by (rule apply_join_cases [OF assms(1) [unfolded True] assms(2)]) (simp_all add: heap_put_def)
  next
    case False
    then obtain k where k: "rk = Some k" using assms(1) by (cases rk; cases act) (auto simp: apply_initiator_action_def)
    show ?thesis by (rule apply_sync_cases [OF assms(1) [unfolded k] False assms(2)]) (simp_all add: heap_put_def)
  qed
  then show "a < length (sess_heap st')" "st_get (sessions st') key = Some a" by auto
qed

lemma drop_handshake_inv: "relay_inv cr (drop_pending_handshake dst n) = relay_inv cr n"
  by (rule relay_inv_same) (simp_all add: drop_pending_handshake_def)

lemma attempt_end_ok:
  assumes "attempt_end L now cfg dst att ev n = Some (res, n')" "relay_inv cr n"
  shows "relay_inv cr n' \<and> (\<forall>a. res = Inr a \<longrightarrow> a < length (sess_heap (rn_store n')))"
proof -
  have ap: "relay_inv cr (n\<lparr>rn_store := st\<rparr>) \<and> (\<forall>a. r = Inr a \<longrightarrow> a < length (sess_heap st))"
    if "apply_initiator_action now key act gen rk ep sa ra pk (rn_store n) = (r, st)" for key act gen rk ep sa ra pk r st
    using that assms(2) initiate.keeps_ok [of "rn_store n" now key act gen rk ep sa ra pk]
      heap_keys_apply [of cr "rn_store n" now key act gen rk ep sa ra pk] apply_address(1) [of now key act gen rk ep sa ra pk "rn_store n"]
    by (auto simp: relay_inv_def)
  show ?thesis
  proof (cases ev)
    case (Answer pkt)
    with assms show ?thesis
      by (auto simp: attempt_end_def split: bind_split_asm option.splits if_splits prod.splits sum.splits dest!: ap)
  qed (use assms in \<open>auto simp: attempt_end_def drop_handshake_inv\<close>)
qed

lemma update_state_inv: "relay_inv cr (update_state now i f n) = relay_inv cr n" "rn_store (update_state now i f n) = rn_store n"
  by (simp_all add: relay_inv_def update_state_def)

lemma attempt_done_ok:
  assumes "attempt_done cr up now cfg dst k res n = Some (go, outs, n')" "relay_inv cr n" "hmac_sized cr"
    "\<And>a. res = Inr a \<Longrightarrow> a < length (sess_heap (rn_store n))"
  shows "step_ok cr outs n'"
proof (cases res)
  case (Inl e)
  with assms(1,2) show ?thesis
    by (auto simp: attempt_done_def register_handshake_failure_def update_state_inv Let_def intro!: drop_pending_inv split: if_splits)
next
  case (Inr a)
  then have "flush_pending_packets cr up now cfg dst a (register_handshake_success now dst n) = Some (outs, n')"
    using assms(1) by (auto simp: attempt_done_def)
  from flush_inv [OF this _ assms(3)] assms(2) assms(4) [OF Inr] show ?thesis
    by (simp add: register_handshake_success_def update_state_inv)
qed

lemma upsert_inv:
  assumes "upsert_responder_session now rk key gen sa ra pk (rn_store n) = (r, st)" "relay_inv cr n"
  shows "relay_inv cr (n\<lparr>rn_store := st\<rparr>)" "r = Inr ret \<Longrightarrow> ret_session ret < length (sess_heap st)"
proof -
  have ok: "store_ok (rn_store n)" "heap_keys cr (rn_store n)" using assms(2) by (auto simp: relay_inv_def)
  show "relay_inv cr (n\<lparr>rn_store := st\<rparr>)"
    using upsert.keeps_ok [OF ok(1), of now rk key gen sa ra pk] heap_keys_upsert [OF assms(1) ok] assms by (simp add: relay_inv_def)
  show "ret_session ret < length (sess_heap st)" if "r = Inr ret"
    using assms(1) ok(1)
  proof (cases rule: upsert_cases)
    case (create a)
    with that store_alloc_simps [OF create(1)] show ?thesis by auto
  next
    case (known a p)
    with that show ?thesis by (auto simp: heap_put_def)
  qed (use that in simp)
qed

lemma answer_ok:
  assumes "answer_relay_msg1 cr L g up now rk rnd cfg remote (m1, rs, hs) n = Some (r, outs, n')" "relay_inv cr n" "hmac_sized cr"
  shows "step_ok cr outs n'"
proof -
  obtain u st where u: "upsert_responder_session now rk (relay_session_key cfg remote) (m1_generation m1) (rc_algorithm cfg)
      (m1_client_algorithm m1) (if length rs = 32 then Some rs else None) (rn_store n) = (u, st)" by fastforce
  note i = upsert_inv [OF u assms(2)]
  note eq = assms(1) [unfolded answer_relay_msg1_def prod.case u]
  show ?thesis
  proof (cases u)
    case (Inl e)
    with eq i show ?thesis by auto
  next
    case (Inr ret)
    define m2 where "m2 = \<lparr>m2_action = session_action_pb (ret_action ret), m2_generation = ret_generation ret, m2_root_key = ret_root_key ret,
      m2_initial_epoch = ret_initial_epoch ret, m2_conn_id_echo = m1_conn_id m1, m2_server_algorithm = rc_algorithm cfg\<rparr>"
    define n1 where "n1 = register_handshake_success now remote (n\<lparr>rn_store := st\<rparr>)"
    have 1: "relay_inv cr n1" "rn_store n1 = st" using i(1) by (simp_all add: n1_def register_handshake_success_def update_state_inv)
    note eq1 = eq [unfolded Inr sum.case m2_def [symmetric] n1_def [symmetric]]
    show ?thesis
    proof (cases "nz_write2 L hs rnd (enc_msg2 L m2)")
      case None
      with eq1 i show ?thesis by auto
    next
      case (Some out)
      note eq2 = eq1 [unfolded Some option.case]
      obtain sr n2 where s: "send_handshake_packet g up cfg out RelayHandshakeAck remote LeastHop n1 = Some (sr, n2)"
        using eq2 by (cases "send_handshake_packet g up cfg out RelayHandshakeAck remote LeastHop n1") auto
      note f = send_handshake_frame [OF s]
      have 2: "relay_inv cr n2" using 1 f(1,2) by (simp add: relay_inv_def)
      show ?thesis
      proof (cases sr)
        case (Inl e)
        with eq2 s 2 show ?thesis by auto
      next
        case (Inr o1)
        with eq2 s obtain rest where fl: "flush_pending_packets cr up now cfg remote (ret_session ret) n2 = Some (rest, n')" "outs = o1 # rest"
          by auto
        have "ret_session ret < length (sess_heap (rn_store n2))" using i(2) \<open>u = Inr ret\<close> f(1) 1(2) by simp
        from flush_inv [OF fl(1) 2 assms(3) this] handshake_guarded [OF f(3) [OF Inr]] fl(2) show ?thesis by simp
      qed
    qed
  qed
qed

lemma handle_packet_ok:
  assumes "handle_handshake_packet cr L g up now rk rnd cfg pkt n = Some (r, outs, att, n')" "relay_inv cr n" "hmac_sized cr"
  shows "step_ok cr outs n'"
proof -
  have msg1: "step_ok cr outs n1" if h: "handle_relay_msg1 cr L g up now rk rnd cfg pkt remote n = Some (r, outs, n1)" for remote outs n1 r
  proof -
    define m where "m = (if st_get (pending_handshakes (rn_relay n)) remote \<noteq> None then drop_pending_handshake remote n else n)"
    have m: "relay_inv cr m" using assms(2) by (simp add: m_def drop_handshake_inv)
    from h consider "outs = []" "n1 = n" | "outs = []" "n1 = m"
      | m1 rs hs where "answer_relay_msg1 cr L g up now rk rnd cfg remote (m1, rs, hs) m = Some (r, outs, n1)"
      unfolding handle_relay_msg1_def m_def [symmetric] Let_def by (auto split: if_splits option.splits)
    then show ?thesis
    proof cases
      case (3 m1 rs hs)
      from answer_ok [OF this m assms(3)] show ?thesis .
    qed (use m assms(2) in auto)
  qed
  show ?thesis
    using assms(1,2) msg1 by (auto simp: handle_handshake_packet_def drop_handshake_inv split: option.splits if_splits)
qed

lemma decrypt_ok:
  assumes "decrypt_if_needed cr now cfg pkt n = Some (r, pkt', task, n')" "relay_inv cr n" "hmac_sized cr"
  shows "relay_inv cr n'"
proof (cases "rc_secure_mode cfg \<and> peer_manager_header_of pkt \<noteq> None")
  case False
  with assms show ?thesis by (auto simp: decrypt_if_needed_def split: if_splits)
next
  case True
  then obtain h where h: "rc_secure_mode cfg" "peer_manager_header_of pkt = Some h" by blast
  obtain ma st where g: "store_get (relay_session_key cfg (from_peer_id h)) (rn_store n) = (ma, st)" by fastforce
  note i = store_get_inv [OF g assms(2)]
  note eq = assms(1) [unfolded decrypt_if_needed_def h option.case g prod.case]
  show ?thesis
  proof (cases ma)
    case None
    with eq h(1) obtain er n1 where "ensure_session cfg (from_peer_id h) (n\<lparr>rn_store := st\<rparr>) = (er, n1)" "n' = n1"
      by (auto split: prod.splits sum.splits)
    with ensure_session_inv(1) [OF _ i(1)] show ?thesis by blast
  next
    case (Some a)
    define n1 where "n1 = n\<lparr>rn_store := st, rn_relay := touch_state now (from_peer_id h) (rn_relay n)\<rparr>"
    have 1: "relay_inv cr n1" "rn_store n1 = st" using i(1) by (simp_all add: relay_inv_def n1_def touch_state_def)
    obtain dr p where d: "peer_session_decrypt cr now (from_peer_id h) (rc_my_peer_id cfg) pkt (sess_heap st ! a) = Some (dr, p)"
      "n' = n1\<lparr>rn_store := heap_put a p (rn_store n1)\<rparr>"
      using eq h(1) Some by (auto simp: n1_def Let_def split: option.splits prod.splits sum.splits)
    have "key_inv cr (datagram (sess_heap st ! a))" using i Some 1 by (auto simp: relay_inv_def intro: heap_keys_nth)
    from peer_session_decrypt_keys [OF d(1) this assms(3)] show ?thesis
      using d(2) 1 by (auto simp: relay_inv_def intro!: heap_keys_put heap_put_ok)
  qed
qed

lemma remove_peer_inv: "relay_inv cr n \<Longrightarrow> relay_inv cr (n\<lparr>rn_relay := relay_remove_peer i (rn_relay n)\<rparr>)"
  by (auto simp: relay_inv_def relay_remove_peer_def store_simps split: if_splits)

lemma relay_remove_peers_inv: "relay_inv cr n \<Longrightarrow> relay_inv cr (n\<lparr>rn_relay := fold relay_remove_peer ids (rn_relay n)\<rparr>)"
proof (induction ids arbitrary: n)
  case (Cons i ids)
  from Cons.IH [OF remove_peer_inv [OF Cons.prems, of i]] show ?case by simp
qed simp

lemma relay_step_ok:
  assumes "relay_step cr L cfg n outs n'" "relay_inv cr n" "hmac_sized cr" "rc_secure_mode cfg"
  shows "step_ok cr outs n'"
  using assms(1,2)
proof (cases rule: relay_step.cases)
  case (msg_sent up now msg dst policy r out task)
  from relay_send_ok [OF msg_sent(2) assms(2-4)] msg_sent(1) show ?thesis by simp
next
  case (task_started up now dst go)
  from handshake_start_ok [OF this assms(2,3)] show ?thesis .
next
  case (attempt_begun g up rnd cid dst policy r out)
  from attempt_begin_ok [OF attempt_begun(2) assms(2)] attempt_begun(1) show ?thesis by simp
next
  case (attempt_over now dst att ev res n1 up later k go)
  note e = attempt_end_ok [OF attempt_over(1) assms(2)]
  from attempt_done_ok [OF attempt_over(2) _ assms(3)] e show ?thesis by blast
next
  case (task_over l)
  with assms(2) show ?thesis by (simp add: relay_inv_def release_lock_def)
next
  case (handshake_packet g up now rk rnd pkt r att)
  from handle_packet_ok [OF this assms(2,3)] show ?thesis .
next
  case (packet_decrypted now pkt r pkt' task)
  from decrypt_ok [OF packet_decrypted(2) assms(2,3)] packet_decrypted(1) show ?thesis by simp
next
  case (idle_evicted now idle)
  with relay_remove_peers_inv [OF assms(2)] show ?thesis by (simp add: evict_idle_sessions_def)
next
  case (peer_removed i)
  with remove_peer_inv [OF assms(2)] show ?thesis by simp
next
  case (store_used op)
  with assms(2) exec.keeps_ok heap_keys_exec show ?thesis by (auto simp: relay_inv_def)
next
  case (session_encrypts a now x y pkt er p)
  have "key_inv cr (datagram (sess_heap (rn_store n) ! a))" using assms(2) session_encrypts(3) by (simp add: relay_inv_def heap_keys_nth)
  from peer_session_encrypt_keys [OF session_encrypts(4) this assms(3)] assms(2) session_encrypts(1,2) show ?thesis
    by (auto simp: relay_inv_def intro!: heap_keys_put heap_put_ok)
next
  case (session_decrypts a now x y pkt er p)
  have "key_inv cr (datagram (sess_heap (rn_store n) ! a))" using assms(2) session_decrypts(3) by (simp add: relay_inv_def heap_keys_nth)
  from peer_session_decrypt_keys [OF session_decrypts(4) this assms(3)] assms(2) session_decrypts(1,2) show ?thesis
    by (auto simp: relay_inv_def intro!: heap_keys_put heap_put_ok)
next
  case (peers_changed m f)
  with assms(2) show ?thesis by (simp add: relay_inv_def)
qed

definition relay_reach :: "crypto \<Rightarrow> 'h noise_lib \<Rightarrow> relay_config \<Rightarrow> relay_node \<Rightarrow> bool" where
  "relay_reach cr L cfg n \<longleftrightarrow> (\<lambda>a b. \<exists>outs. relay_step cr L cfg a outs b)\<^sup>*\<^sup>* (relay_node_new (rc_my_peer_id cfg)) n"

lemma relay_new_inv: "relay_inv cr (relay_node_new me)"
  by (simp add: relay_inv_def relay_node_new_def relay_map_new_def store_new_ok store_simps) (simp add: heap_keys_def store_new_def)

lemma relay_reach_inv:
  assumes "relay_reach cr L cfg n" "hmac_sized cr" "rc_secure_mode cfg"
  shows "relay_inv cr n"
  using assms(1) unfolding relay_reach_def
proof (induction rule: rtranclp_induct)
  case base
  show ?case by (rule relay_new_inv)
next
  case (step y z)
  then show ?case using relay_step_ok [OF _ _ assms(2,3)] by blast
qed

text \<open>
  C6: relayed traffic is never sent in the clear.  In secure mode, whatever messages, handshakes, failures, clean-ups and
  uses of the sessions come before: every packet that leaves through the relay map is a handshake message or is marked as
  encrypted by a session, and at most 32 packets wait for any peer.
\<close>

theorem relay_never_in_clear:
  assumes "hmac_sized cr" and "rc_secure_mode cfg" and "relay_reach cr L cfg n" and "relay_step cr L cfg n outs n'"
  shows "(\<forall>out \<in> set outs. \<exists>h. peer_manager_header_of (out_packet out) = Some h
      \<and> (is_encrypted h \<or> packet_type h = packet_kind_u8 RelayHandshake \<or> packet_type h = packet_kind_u8 RelayHandshakeAck))
    \<and> (\<forall>i q. st_get (pending_packets (rn_relay n')) i = Some q \<longrightarrow> length q \<le> 32)"
  using relay_step_ok [OF assms(4) relay_reach_inv [OF assms(3,1,2)] assms(1,2)]
  unfolding guarded_def relay_inv_def MAX_PENDING_PACKETS_PER_PEER_def by blast

end
