(* ===== verification/Relay_Handshake.thy ===== *)
theory Relay_Handshake
  imports Relay_Secure
begin

text \<open>
  Relay handshakes that cross: both peers have sent a first message before either arrives.  The rule by identifiers
  leaves one of them initiator, and both ends get the same key.
\<close>

section \<open>Messages on their way\<close>

text \<open>
  The documented behaviour of the Noise pattern: the responder with the key the initiator aimed at reads the payload and
  learns the static key of the initiator, and the initiator reads the answer.  The codecs are inverted.
\<close>

definition noise_ok :: "'h noise_lib \<Rightarrow> (bytes \<Rightarrow> bytes) \<Rightarrow> bool" where
  "noise_ok L pub \<longleftrightarrow>
     (\<forall>priv priv2 rnd pl out hs. nz_write1 L priv (pub priv2) rnd pl = Some (out, hs) \<longrightarrow>
        (\<exists>hr. nz_read1 L priv2 out = Some (pl, pub priv, hr)
           \<and> (\<forall>rnd2 pl2 out2. nz_write2 L hr rnd2 pl2 = Some out2 \<longrightarrow> nz_read2 L hs out2 = Some pl2)))
     \<and> (\<forall>priv. length (pub priv) = 32)
     \<and> (\<forall>m. dec_msg1 L (enc_msg1 L m) = Some m) \<and> (\<forall>m. dec_msg2 L (enc_msg2 L m) = Some m)"

text \<open>A packet as it arrives: forwarding may change other fields of the header.\<close>

definition arrives_as :: "zc_packet \<Rightarrow> zc_packet \<Rightarrow> bool" where
  "arrives_as p q \<longleftrightarrow> payload q = payload p \<and> (\<exists>h h'. peer_manager_header_of p = Some h \<and> peer_manager_header_of q = Some h'
     \<and> packet_type h' = packet_type h \<and> from_peer_id h' = from_peer_id h)"

lemma handshake_arrives: "handshake_of kind i pl p \<Longrightarrow> arrives_as p q \<Longrightarrow> handshake_of kind i pl q"
  by (auto simp: handshake_of_def arrives_as_def)

lemma handshake_arrives_refl: "handshake_of kind i pl p \<Longrightarrow> arrives_as p p"
  by (auto simp: handshake_of_def arrives_as_def)

lemma handshake_payload_of: "handshake_of kind i pl p \<Longrightarrow> handshake_payload kind p = Some (Some pl)"
  by (auto simp: handshake_of_def handshake_payload_def)

text \<open>Sending leaves the routers alone.\<close>

lemma send_keeps_routes: "map_routes (snd (send_msg_directly up msg dst m)) = map_routes m"
  by (auto simp: send_msg_directly_def put_peer_def split: option.split prod.split)

lemma send_via_keeps_static:
  assumes "send_via_next_hop up msg dst policy n = (r, n')"
  shows "get_remote_static_pubkey i n' = get_remote_static_pubkey i n"
proof -
  have "map_routes (rn_peers n') = map_routes (rn_peers n)"
    using assms send_keeps_routes [of up msg _ "rn_peers n"]
    by (auto simp: send_via_next_hop_def split: option.splits if_splits prod.splits) (metis snd_conv)+
  then show ?thesis by (simp add: get_remote_static_pubkey_def get_route_peer_info_def)
qed

lemma send_handshake_keeps_static:
  assumes "send_handshake_packet g up cfg pl kind dst policy n = Some (r, n')"
  shows "get_remote_static_pubkey i n' = get_remote_static_pubkey i n"
  using assms send_via_keeps_static by (auto simp: send_handshake_packet_def split: bind_splits)

section \<open>A first message\<close>

lemma attempt_begun_facts:
  assumes "attempt_begin L g up rnd cid cfg dst policy n = Some (Inr att, Some o1, n')"
    and "rc_private_key cfg = Some priv" and "get_remote_static_pubkey dst n = Some remote"
  obtains m1 out where "nz_write1 L priv remote rnd (enc_msg1 L m1) = Some (out, at_state att)"
    "m1_conn_id m1 = Some cid" "m1_client_algorithm m1 = rc_algorithm cfg"
    "fst (store_get (relay_session_key cfg dst) (rn_store n)) = None \<Longrightarrow> m1_generation m1 = None"
    "at_conn_id att = cid" "at_remote_static att = remote"
    "handshake_of RelayHandshake (rc_my_peer_id cfg) out (out_packet o1)"
    "st_get (pending_handshakes (rn_relay n')) dst = Some (at_id att)"
    "rn_store n' = snd (store_get (relay_session_key cfg dst) (rn_store n))"
    "\<And>i. get_remote_static_pubkey i n' = get_remote_static_pubkey i n"
    "pending_packets (rn_relay n') = pending_packets (rn_relay n)"
proof -
  obtain ma st where gt: "store_get (relay_session_key cfg dst) (rn_store n) = (ma, st)" by fastforce
  define n1 where "n1 = n\<lparr>rn_store := st\<rparr>"
  define m1 where "m1 = \<lparr>m1_generation = map_option (\<lambda>a. session_generation (datagram (sess_heap st ! a))) ma,
    m1_conn_id = Some cid, m1_client_algorithm = rc_algorithm cfg\<rparr>"
  define n2 where "n2 = n1\<lparr>rn_relay := (rn_relay n1)\<lparr>relay_fresh := Suc (relay_fresh (rn_relay n1)),
    pending_handshakes := st_insert dst (relay_fresh (rn_relay n1)) (pending_handshakes (rn_relay n1))\<rparr>\<rparr>"
  note eq = assms(1) [unfolded attempt_begin_def assms(2,3) gt prod.case option.case Let_def n1_def [symmetric] m1_def [symmetric] n2_def [symmetric]]
  obtain out hs where w: "nz_write1 L priv remote rnd (enc_msg1 L m1) = Some (out, hs)"
    using eq by (auto split: option.splits)
  obtain sr n3 where s: "send_handshake_packet g up cfg out RelayHandshake dst policy n2 = Some (sr, n3)"
    using eq w by (auto split: option.splits)
  with eq w have r: "sr = Inr o1" "n' = n3"
      "att = \<lparr>at_id = relay_fresh (rn_relay n1), at_state = hs, at_conn_id = cid, at_remote_static = remote\<rparr>"
    by (auto split: sum.splits)
  note f = send_handshake_frame [OF s]
  have "get_remote_static_pubkey i n2 = get_remote_static_pubkey i n" for i
    by (simp add: n2_def n1_def get_remote_static_pubkey_def)
  then have st: "get_remote_static_pubkey i n' = get_remote_static_pubkey i n" for i
    using send_handshake_keeps_static [OF s] r(2) by simp
  show thesis
  proof (rule that)
    show "nz_write1 L priv remote rnd (enc_msg1 L m1) = Some (out, at_state att)" using w r(3) by simp
    show "m1_generation m1 = None" if "fst (store_get (relay_session_key cfg dst) (rn_store n)) = None"
      using that gt by (simp add: m1_def)
    show "rn_store n' = snd (store_get (relay_session_key cfg dst) (rn_store n))"
      using f(1) r(2) gt by (simp add: n2_def n1_def)
    show "st_get (pending_handshakes (rn_relay n')) dst = Some (at_id att)"
      using f(2) r(2,3) by (simp add: n2_def store_simps)
    show "pending_packets (rn_relay n') = pending_packets (rn_relay n)"
      using f(2) r(2) by (simp add: n2_def n1_def)
  qed (use f(3) [OF r(1)] r(3) st in \<open>simp_all add: m1_def\<close>)
qed

section \<open>The answer\<close>

text \<open>Encryption leaves the root keys, the map of the store and the handshakes alone.\<close>

definition roots_kept :: "relay_node \<Rightarrow> relay_node \<Rightarrow> bool" where
  "roots_kept n n' \<longleftrightarrow> sessions (rn_store n') = sessions (rn_store n) \<and> pending_handshakes (rn_relay n') = pending_handshakes (rn_relay n)
     \<and> map (\<lambda>p. root_key (datagram p)) (sess_heap (rn_store n')) = map (\<lambda>p. root_key (datagram p)) (sess_heap (rn_store n))"

lemma session_encrypt_root:
  assumes "session_encrypt_payload cr now d p s = Some (r, s')"
  shows "root_key s' = root_key s"
proof -
  obtain x s1 where nn: "next_nonce now d s = (x, s1)" by fastforce
  have "root_key s2 = root_key s1" if "get_or_create_encryptor cr e d g b s1 = Some (c, s2)" for e g b c s2
    by (subst get_or_create_frame [OF that]) simp
  with assms nn next_nonce_frame(4) [OF nn] show ?thesis
    by (auto simp: session_encrypt_payload_def session_invalidate_def split: if_splits bind_splits sum.splits prod.splits)
qed

lemma encrypt_with_roots:
  assumes "encrypt_with cr now cfg a dst pkt n = Some (r, n')" and "a < length (sess_heap (rn_store n))"
  shows "roots_kept n n'" "length (sess_heap (rn_store n')) = length (sess_heap (rn_store n))"
proof -
  obtain p where p: "peer_session_encrypt cr now (rc_my_peer_id cfg) dst pkt (sess_heap (rn_store n) ! a) = Some (r, p)"
      "n' = n\<lparr>rn_store := heap_put a p (rn_store n)\<rparr>"
    using assms(1) by (auto simp: encrypt_with_def split: bind_splits)
  have "root_key (datagram p) = root_key (datagram (sess_heap (rn_store n) ! a))"
    using p(1) session_encrypt_root by (auto simp: peer_session_encrypt_def split: if_splits)
  with p(2) assms(2) show "roots_kept n n'"
    by (simp add: roots_kept_def heap_put_def map_update list_update_same_conv)
  show "length (sess_heap (rn_store n')) = length (sess_heap (rn_store n))" using p(2) by (simp add: heap_put_def)
qed

lemma send_roots: "send_via_next_hop up msg dst policy n = (r, n') \<Longrightarrow> roots_kept n n'"
  using send_via_next_hop_frame by (simp add: roots_kept_def)

lemma roots_kept_trans: "roots_kept a b \<Longrightarrow> roots_kept b c \<Longrightarrow> roots_kept a c"
  by (simp add: roots_kept_def)

lemma roots_kept_length: "roots_kept n n' \<Longrightarrow> length (sess_heap (rn_store n')) = length (sess_heap (rn_store n))"
  unfolding roots_kept_def by (metis length_map)

lemma flush_loop_roots:
  "flush_loop_relay cr up now cfg dst a ps n = Some (outs, n') \<Longrightarrow> a < length (sess_heap (rn_store n)) \<Longrightarrow> roots_kept n n'"
proof (induction ps arbitrary: n outs)
  case Nil
  then show ?case by (simp add: roots_kept_def)
next
  case (Cons x ps)
  obtain pkt policy where x: "x = (pkt, policy)" by fastforce
  obtain r n1 where e: "encrypt_with cr now cfg a dst pkt n = Some (r, n1)"
    using Cons.prems(1) x by (auto split: option.splits)
  note k1 = encrypt_with_roots [OF e Cons.prems(2)]
  show ?case
  proof (cases r)
    case (Inl err)
    with Cons x e k1 show ?thesis by (auto intro: roots_kept_trans)
  next
    case (Inr q)
    obtain r2 n2 where s: "send_via_next_hop up q dst policy n1 = (r2, n2)" by fastforce
    note k2 = roots_kept_trans [OF k1(1) send_roots [OF s]]
    have "\<exists>outs'. flush_loop_relay cr up now cfg dst a ps n2 = Some (outs', n')"
      using Cons.prems(1) x e Inr s by (auto split: sum.splits option.splits)
    with Cons.IH [of n2] roots_kept_length [OF k2] Cons.prems(2) k2 show ?thesis by (auto intro: roots_kept_trans)
  qed
qed

lemma flush_roots:
  assumes "flush_pending_packets cr up now cfg dst a n = Some (outs, n')" "a < length (sess_heap (rn_store n))"
  shows "roots_kept n n'"
proof (cases "st_get (pending_packets (rn_relay n)) dst")
  case None
  with assms show ?thesis by (simp add: flush_pending_packets_def roots_kept_def)
next
  case (Some ps)
  then have "flush_loop_relay cr up now cfg dst a ps (drop_pending_packets dst n) = Some (outs, n')"
    using assms(1) by (simp add: flush_pending_packets_def drop_pending_packets_def)
  from flush_loop_roots [OF this] assms(2) show ?thesis by (simp add: roots_kept_def drop_pending_packets_def)
qed

text \<open>The responder has no session yet: it makes one with the fresh key and says so.\<close>

lemma answer_creates:
  assumes "answer_relay_msg1 cr L g up now rk rnd cfg remote (m1, rs, hs) n = Some (Inr (), o1 # outs, n')"
    and "st_get (sessions (rn_store n)) (relay_session_key cfg remote) = None"
  obtains out t where "nz_write2 L hs rnd (enc_msg2 L \<lparr>m2_action = 2, m2_generation = 1, m2_root_key = Some rk, m2_initial_epoch = 0,
      m2_conn_id_echo = m1_conn_id m1, m2_server_algorithm = rc_algorithm cfg\<rparr>) = Some out"
    "handshake_of RelayHandshakeAck (rc_my_peer_id cfg) out (out_packet o1)"
    "st_get (sessions (rn_store n')) (relay_session_key cfg remote) = Some t" "t < length (sess_heap (rn_store n'))"
    "root_key (datagram (sess_heap (rn_store n') ! t)) = rk" "pending_handshakes (rn_relay n') = pending_handshakes (rn_relay n)"
    "st_get (pending_packets (rn_relay n)) remote = None \<Longrightarrow> peer_session_is_valid (sess_heap (rn_store n') ! t)"
proof -
  define key where "key = relay_session_key cfg remote"
  define ps where "ps = peer_session_new now (sk_peer_id key) rk 1 0 (rc_algorithm cfg) (m1_client_algorithm m1)
    (if length rs = 32 then Some rs else None)"
  define st where "st = (rn_store n)\<lparr>sess_heap := sess_heap (rn_store n) @ [ps], sessions := st_insert key (length (sess_heap (rn_store n))) (sessions (rn_store n))\<rparr>"
  define t where "t = length (sess_heap (rn_store n))"
  have u: "upsert_responder_session now rk key (m1_generation m1) (rc_algorithm cfg) (m1_client_algorithm m1)
      (if length rs = 32 then Some rs else None) (rn_store n)
    = (Inr \<lparr>ret_session = t, ret_action = Create, ret_generation = 1, ret_root_key = Some rk, ret_initial_epoch = 0\<rparr>, st)"
    using assms(2) unfolding key_def [symmetric]
    by (simp add: upsert_responder_session_def store_alloc_def Let_def st_def ps_def t_def)
  define m2 where "m2 = \<lparr>m2_action = 2, m2_generation = 1, m2_root_key = Some rk, m2_initial_epoch = 0,
      m2_conn_id_echo = m1_conn_id m1, m2_server_algorithm = rc_algorithm cfg\<rparr>"
  define n1 where "n1 = register_handshake_success now remote (n\<lparr>rn_store := st\<rparr>)"
  have n1: "rn_store n1 = st" "pending_handshakes (rn_relay n1) = pending_handshakes (rn_relay n)"
      "pending_packets (rn_relay n1) = pending_packets (rn_relay n)"
    by (simp_all add: n1_def register_handshake_success_def update_state_def)
  note eq = assms(1) [unfolded answer_relay_msg1_def prod.case key_def [symmetric] u sum.case upsert_return.select_convs session_action_pb.simps
      m2_def [symmetric] n1_def [symmetric]]
  obtain out where w: "nz_write2 L hs rnd (enc_msg2 L m2) = Some out" using eq by (auto split: option.splits)
  note eq1 = eq [unfolded w option.case]
  obtain sr n2 where s: "send_handshake_packet g up cfg out RelayHandshakeAck remote LeastHop n1 = Some (sr, n2)"
    using eq1 by (cases "send_handshake_packet g up cfg out RelayHandshakeAck remote LeastHop n1") auto
  note f = send_handshake_frame [OF s]
  from eq1 s obtain sr': "sr = Inr o1" and fl: "flush_pending_packets cr up now cfg remote t n2 = Some (outs, n')"
    by (cases sr) auto
  have "t < length (sess_heap (rn_store n2))" using f(1) n1(1) by (simp add: st_def t_def)
  from flush_roots [OF fl this] have k: "roots_kept n2 n'" .
  have t: "t < length (sess_heap (rn_store n'))" using roots_kept_length [OF k] \<open>t < length (sess_heap (rn_store n2))\<close> by simp
  have "root_key (datagram (sess_heap (rn_store n') ! t)) = root_key (datagram (sess_heap (rn_store n2) ! t))"
    using k t roots_kept_length [OF k] unfolding roots_kept_def by (metis nth_map)
  then have rk: "root_key (datagram (sess_heap (rn_store n') ! t)) = rk"
    using f(1) n1(1) by (simp add: st_def t_def ps_def peer_session_new_def session_new_def)
  show thesis
  proof (rule that)
    show "st_get (sessions (rn_store n')) (relay_session_key cfg remote) = Some t"
      using k f(1) n1(1) by (simp add: roots_kept_def st_def t_def key_def store_simps)
    show "pending_handshakes (rn_relay n') = pending_handshakes (rn_relay n)"
      using k f(2) n1(2) by (simp add: roots_kept_def)
    show "peer_session_is_valid (sess_heap (rn_store n') ! t)" if "st_get (pending_packets (rn_relay n)) remote = None"
      using that fl f(1,2) n1(1,3)
      by (simp add: flush_pending_packets_def st_def t_def ps_def peer_session_new_def session_new_def
          peer_session_is_valid_def session_is_valid_def)
  qed (use w f(3) [OF sr'] t rk in \<open>simp_all add: m2_def\<close>)
qed

section \<open>Crossing handshakes\<close>

lemma store_get_None:
  assumes "fst (store_get key st) = None"
  shows "st_get (sessions (snd (store_get key st))) key = None"
  using assms by (auto simp: store_get_def store_simps split: option.splits if_splits)

lemma initiator_creates:
  assumes "st_get (sessions st) key = None"
  shows "\<exists>st'. apply_initiator_action now key Create gen (Some rk) ep sa ra (Some pk) st = (Inr (length (sess_heap st)), st')
    \<and> st_get (sessions st') key = Some (length (sess_heap st)) \<and> root_key (datagram (sess_heap st' ! length (sess_heap st))) = rk
    \<and> length (sess_heap st) < length (sess_heap st') \<and> peer_session_is_valid (sess_heap st' ! length (sess_heap st))"
proof -
  define p where "p = peer_session_new now (sk_peer_id key) rk gen ep sa ra (Some pk)"
  define st2 where "st2 = st\<lparr>sess_heap := sess_heap st @ [p], sessions := st_insert key (length (sess_heap st)) (sessions st)\<rparr>"
  have g: "store_get key st = (None, st)" using assms by (simp add: store_get_def)
  have c: "check_session sa ra (Some pk) (length (sess_heap st)) st2 = Inr st2"
    by (simp add: check_session_def st2_def p_def peer_session_new_def session_new_def check_encrypt_algo_same_def
        check_or_set_peer_static_pubkey_def heap_put_def)
  have "apply_initiator_action now key Create gen (Some rk) ep sa ra (Some pk) st
      = (Inr (length (sess_heap st)), heap_put (length (sess_heap st)) (peer_session_sync_root_key now rk gen ep False p) st2)"
    using assms c by (simp add: apply_initiator_action_def g store_alloc_def p_def [symmetric] st2_def [symmetric])
      (simp add: st2_def)
  moreover have "peer_session_is_valid (peer_session_sync_root_key now rk gen ep False p)"
    by (simp add: p_def peer_session_new_def session_new_def peer_session_sync_root_key_def sync_root_key_fields
        peer_session_is_valid_def session_is_valid_def)
  ultimately show ?thesis
    by (simp add: heap_put_def st2_def store_simps peer_session_sync_root_key_def sync_root_key_fields Let_def)
qed

text \<open>A peer that already has a session answers a late first message from it: the session and its key stay.\<close>

definition holds_session :: "relay_config \<Rightarrow> peer_id \<Rightarrow> nat \<Rightarrow> bytes \<Rightarrow> relay_node \<Rightarrow> bool" where
  "holds_session cfg remote a rk n \<longleftrightarrow> st_get (sessions (rn_store n)) (relay_session_key cfg remote) = Some a
     \<and> a < length (sess_heap (rn_store n)) \<and> root_key (datagram (sess_heap (rn_store n) ! a)) = rk"

lemma upsert_live:
  assumes "upsert_responder_session now rk key gen sa ra pk st = (r, st')"
    and "st_get (sessions st) key = Some a" and "peer_session_is_valid (sess_heap st ! a)"
  shows "sessions st' = sessions st" "length (sess_heap st') = length (sess_heap st)"
    "a < length (sess_heap st) \<Longrightarrow> root_key (datagram (sess_heap st' ! a)) = root_key (datagram (sess_heap st ! a))"
    "r = Inr ret \<Longrightarrow> ret_session ret = a"
  using assms by (auto simp: upsert_responder_session_def Let_def heap_put_def pubkey_ok split: if_splits sum.splits)

lemma roots_kept_holds:
  assumes "roots_kept n n'" "holds_session cfg remote a rk n"
  shows "holds_session cfg remote a rk n'"
proof -
  have "root_key (datagram (sess_heap (rn_store n') ! a)) = root_key (datagram (sess_heap (rn_store n) ! a))"
    using assms roots_kept_length [OF assms(1)] unfolding roots_kept_def holds_session_def by (metis nth_map)
  with assms roots_kept_length [OF assms(1)] show ?thesis by (simp add: roots_kept_def holds_session_def)
qed

lemma late_answer_holds:
  assumes "answer_relay_msg1 cr L g up now rk' rnd cfg remote m n = Some (r, outs, n')"
    and h: "holds_session cfg remote a rk n" and v: "peer_session_is_valid (sess_heap (rn_store n) ! a)"
  shows "holds_session cfg remote a rk n'"
proof -
  obtain m1 rs hs where m: "m = (m1, rs, hs)" by (cases m)
  obtain u st where u: "upsert_responder_session now rk' (relay_session_key cfg remote) (m1_generation m1) (rc_algorithm cfg)
      (m1_client_algorithm m1) (if length rs = 32 then Some rs else None) (rn_store n) = (u, st)" by fastforce
  note live = upsert_live [OF u _ v]
  have h1: "holds_session cfg remote a rk (n\<lparr>rn_store := st\<rparr>)"
    using h live(1-3) by (simp add: holds_session_def)
  define n1 where "n1 = register_handshake_success now remote (n\<lparr>rn_store := st\<rparr>)"
  have h2: "holds_session cfg remote a rk n1"
    using h1 by (simp add: n1_def holds_session_def register_handshake_success_def update_state_def)
  note eq = assms(1) [unfolded answer_relay_msg1_def m prod.case u n1_def [symmetric]]
  show ?thesis
  proof (cases u)
    case (Inl e)
    with eq h1 show ?thesis by auto
  next
    case (Inr ret)
    have a: "ret_session ret = a" using live(4) [of ret] Inr h by (simp add: holds_session_def)
    note eq1 = eq [unfolded Inr sum.case a]
    show ?thesis
    proof (cases "n' = n\<lparr>rn_store := st\<rparr>")
      case False
      then obtain out sr n2 where s: "send_handshake_packet g up cfg out RelayHandshakeAck remote LeastHop n1 = Some (sr, n2)"
          "n' = n2 \<or> (\<exists>os. flush_pending_packets cr up now cfg remote a n2 = Some (os, n'))"
        using eq1 by (auto split: option.splits sum.splits)
      have h3: "holds_session cfg remote a rk n2"
        using h2 send_handshake_frame(1) [OF s(1)] by (simp add: holds_session_def)
      then have "a < length (sess_heap (rn_store n2))" by (simp add: holds_session_def)
      with s(2) h3 show ?thesis
        using flush_roots [of cr up now cfg remote a n2 _ n'] roots_kept_holds [OF _ h3, of n'] by blast
    qed (use h1 in simp)
  qed
qed

lemma late_first_message_holds:
  assumes "handle_handshake_packet cr L g up now rk' rnd cfg p n = Some (r, outs, x, n')"
    and "handshake_of RelayHandshake remote pl p"
    and h: "holds_session cfg remote a rk n" and v: "peer_session_is_valid (sess_heap (rn_store n) ! a)"
  shows "holds_session cfg remote a rk n'"
proof -
  have d: "holds_session cfg remote a rk (drop_pending_handshake remote n)"
      "peer_session_is_valid (sess_heap (rn_store (drop_pending_handshake remote n)) ! a)"
    using h v by (simp_all add: holds_session_def drop_pending_handshake_def)
  have "handle_relay_msg1 cr L g up now rk' rnd cfg p remote n = Some (r, outs, n')"
    using assms(1,2) by (auto simp: handle_handshake_packet_def handshake_of_def)
  then show ?thesis
    using h v d late_answer_holds
    by (auto simp: handle_relay_msg1_def Let_def split: if_splits option.splits)
qed

text \<open>
  C3: crossing relay handshakes agree.  Two peers without a session, each with the other's static key announced, have
  each sent a first message to the other, and the larger one gets the smaller one's message and sends its answer.  The
  larger one has then given up its own attempt.  If the first message of the larger one reaches the smaller one while
  that one still waits, it is ignored.  When the answer arrives, the smaller one's attempt gets it and ends with a valid
  session, and both have a session for each other with the same root key, the one the responder drew; the responder's
  session is valid if no packets were waiting to be encrypted with it.  If the first message of the larger one arrives
  only after that, the smaller one may answer it too, and still both sessions stay in place with that key.
\<close>

theorem crossing_relay_handshakes_agree:
  assumes "noise_ok L pub" and "rc_my_peer_id cA < rc_my_peer_id cB"
    and "rc_private_key cA = Some privA" and "rc_private_key cB = Some privB" and "length rk = 32"
    and "get_remote_static_pubkey (rc_my_peer_id cB) A = Some (pub privB)" and "get_remote_static_pubkey (rc_my_peer_id cA) B = Some (pub privA)"
    and "fst (store_get (relay_session_key cA (rc_my_peer_id cB)) (rn_store A)) = None"
    and "fst (store_get (relay_session_key cB (rc_my_peer_id cA)) (rn_store B)) = None"
    and "attempt_begin L gA upA rndA cidA cA (rc_my_peer_id cB) polA A = Some (Inr attA, Some oA, A1)"
    and "attempt_begin L gB upB rndB cidB cB (rc_my_peer_id cA) polB B = Some (Inr attB, Some oB, B1)"
    and "arrives_as (out_packet oA) pA" and "arrives_as (out_packet oB) pB"
    and "handle_handshake_packet cr L g up now rk rnd cB pA B1 = Some (Inr (), oK # outs, x, B2)" and "arrives_as (out_packet oK) pK"
  shows "handle_handshake_packet cr L g' up' t rk' rnd' cA pB A1 = Some (Inl RouteError, [], None, A1)
    \<and> st_get (pending_handshakes (rn_relay B2)) (rc_my_peer_id cA) = None
    \<and> (\<exists>a A2 A3 b. handle_handshake_packet cr L g' up' t rk' rnd' cA pK A1 = Some (Inr (), [], Some (at_id attA), A2)
        \<and> attempt_end L t cA (rc_my_peer_id cB) attA (Answer pK) A2 = Some (Inr a, A3)
        \<and> holds_session cA (rc_my_peer_id cB) a rk A3 \<and> peer_session_is_valid (sess_heap (rn_store A3) ! a)
        \<and> holds_session cB (rc_my_peer_id cA) b rk B2
        \<and> (st_get (pending_packets (rn_relay B)) (rc_my_peer_id cA) = None \<longrightarrow> peer_session_is_valid (sess_heap (rn_store B2) ! b))
        \<and> (\<forall>r outs' y A4. handle_handshake_packet cr L g' up' t rk' rnd' cA pB A3 = Some (r, outs', y, A4) \<longrightarrow>
            holds_session cA (rc_my_peer_id cB) a rk A4))"
proof -
  define idA idB where "idA = rc_my_peer_id cA" and "idB = rc_my_peer_id cB"
  note ids = idA_def [symmetric] idB_def [symmetric]
  obtain mA outA where fA: "nz_write1 L privA (pub privB) rndA (enc_msg1 L mA) = Some (outA, at_state attA)"
      "m1_conn_id mA = Some cidA" "at_conn_id attA = cidA" "at_remote_static attA = pub privB"
      "handshake_of RelayHandshake idA outA (out_packet oA)" "st_get (pending_handshakes (rn_relay A1)) idB = Some (at_id attA)"
      "rn_store A1 = snd (store_get (relay_session_key cA idB) (rn_store A))"
    by (rule attempt_begun_facts [OF assms(10,3,6)]) (auto simp: ids)
  obtain outB where fB: "handshake_of RelayHandshake idB outB (out_packet oB)"
      "st_get (pending_handshakes (rn_relay B1)) idA = Some (at_id attB)"
      "rn_store B1 = snd (store_get (relay_session_key cB idA) (rn_store B))" "get_remote_static_pubkey idA B1 = Some (pub privA)"
      "pending_packets (rn_relay B1) = pending_packets (rn_relay B)"
    using attempt_begun_facts [OF assms(11,4,7)] assms(7) unfolding ids by metis
  have less: "idA < idB" "\<not> idB < idA" using assms(2) by (auto simp: ids)
  have ign: "handle_handshake_packet cr L g' up' t rk' rnd' cA pB A1 = Some (Inl RouteError, [], None, A1)"
    using handshake_arrives [OF fB(1) assms(13)] fA(6) less
    by (auto simp: handshake_of_def handle_handshake_packet_def handle_relay_msg1_def ids)
  define B1' where "B1' = drop_pending_handshake idA B1"
  have B1': "st_get (sessions (rn_store B1')) (relay_session_key cB idA) = None" "get_remote_static_pubkey idA B1' = Some (pub privA)"
      "st_get (pending_handshakes (rn_relay B1')) idA = None" "pending_packets (rn_relay B1') = pending_packets (rn_relay B)"
    using store_get_None [OF assms(9)] fB(3-5)
    by (simp_all add: B1'_def drop_pending_handshake_def ids store_simps get_remote_static_pubkey_def)
  note hA = handshake_arrives [OF fA(5) assms(12)]
  from assms(1) fA(1) obtain hr where hr: "nz_read1 L privB outA = Some (enc_msg1 L mA, pub privA, hr)"
      "\<And>rnd2 pl2 out2. nz_write2 L hr rnd2 pl2 = Some out2 \<Longrightarrow> nz_read2 L (at_state attA) out2 = Some pl2"
    unfolding noise_ok_def by blast
  have "read_relay_msg1 L cB pA idA B1' = Some (Some (mA, pub privA, hr))"
    using assms(1,4) B1'(2) hr(1) handshake_payload_of [OF hA] by (simp add: read_relay_msg1_def noise_ok_def)
  then have "handle_relay_msg1 cr L g up now rk rnd cB pA idA B1 = answer_relay_msg1 cr L g up now rk rnd cB idA (mA, pub privA, hr) B1'"
    using fB(2) less by (simp add: handle_relay_msg1_def ids B1'_def)
  then have ans: "answer_relay_msg1 cr L g up now rk rnd cB idA (mA, pub privA, hr) B1' = Some (Inr (), oK # outs, B2)"
    using assms(14) hA by (auto simp: handle_handshake_packet_def handshake_of_def)
  obtain outK b where K: "nz_write2 L hr rnd (enc_msg2 L \<lparr>m2_action = 2, m2_generation = 1, m2_root_key = Some rk, m2_initial_epoch = 0,
        m2_conn_id_echo = m1_conn_id mA, m2_server_algorithm = rc_algorithm cB\<rparr>) = Some outK"
      "handshake_of RelayHandshakeAck idB outK (out_packet oK)" "st_get (sessions (rn_store B2)) (relay_session_key cB idA) = Some b"
      "root_key (datagram (sess_heap (rn_store B2) ! b)) = rk" "pending_handshakes (rn_relay B2) = pending_handshakes (rn_relay B1')"
      "b < length (sess_heap (rn_store B2))"
      "st_get (pending_packets (rn_relay B)) idA = None \<Longrightarrow> peer_session_is_valid (sess_heap (rn_store B2) ! b)"
    by (rule answer_creates [OF ans B1'(1)]) (auto simp: ids B1'(4))
  obtain st where st: "apply_initiator_action t (relay_session_key cA idB) Create 1 (Some rk) 0 (rc_algorithm cA) (rc_algorithm cB) (Some (pub privB))
        (rn_store A1) = (Inr (length (sess_heap (rn_store A1))), st)"
      "st_get (sessions st) (relay_session_key cA idB) = Some (length (sess_heap (rn_store A1)))"
      "root_key (datagram (sess_heap st ! length (sess_heap (rn_store A1)))) = rk" "length (sess_heap (rn_store A1)) < length (sess_heap st)"
      "peer_session_is_valid (sess_heap st ! length (sess_heap (rn_store A1)))"
    using initiator_creates store_get_None [OF assms(8)] fA(7) unfolding ids by metis
  define A2 where "A2 = drop_pending_handshake idB A1"
  define A3 where "A3 = A2\<lparr>rn_store := st\<rparr>"
  note hK = handshake_arrives [OF K(2) assms(15)]
  have got: "handle_handshake_packet cr L g' up' t rk' rnd' cA pK A1 = Some (Inr (), [], Some (at_id attA), A2)"
    using hK fA(6) by (auto simp: handle_handshake_packet_def handshake_of_def A2_def)
  have "rn_store A2 = rn_store A1" by (simp add: A2_def drop_pending_handshake_def)
  then have ended: "attempt_end L t cA idB attA (Answer pK) A2 = Some (Inr (length (sess_heap (rn_store A1))), A3)"
    using handshake_payload_of [OF hK] hr(2) [OF K(1)] assms(1,5) fA(2-4) st(1)
    by (simp add: attempt_end_def noise_ok_def A3_def)
  have hold: "holds_session cA idB (length (sess_heap (rn_store A1))) rk A3" "holds_session cB idA b rk B2"
      "peer_session_is_valid (sess_heap (rn_store A3) ! length (sess_heap (rn_store A1)))"
    using st(2-5) K(3,4,6) by (simp_all add: holds_session_def A3_def)
  note late = late_first_message_holds [OF _ handshake_arrives [OF fB(1) assms(13)] hold(1,3)]
  show ?thesis
    unfolding ids by (intro conjI exI [of _ "length (sess_heap (rn_store A1))"] exI [of _ A2] exI [of _ A3] exI [of _ b] impI allI)
      (use ign K(5,7) B1'(3) got ended hold late in \<open>simp_all add: ids\<close>)
qed

section \<open>Concrete nodes\<close>

text \<open>A transport without secrecy that satisfies the documented behaviour, with a codec for its payloads.\<close>

definition put_opt :: "nat \<Rightarrow> 'a::len word option \<Rightarrow> bytes" where
  "put_opt k x = (case x of None \<Rightarrow> replicate (Suc k) 0 | Some w \<Rightarrow> 1 # to_le_bytes k w)"

definition get_opt :: "nat \<Rightarrow> bytes \<Rightarrow> 'a::len word option" where
  "get_opt k bs = (case bs of [] \<Rightarrow> None | b # r \<Rightarrow> if b = 1 then Some (from_le_bytes (take k r)) else None)"

lemma length_put_opt [simp]: "length (put_opt k x) = Suc k"
  by (simp add: put_opt_def split: option.split)

lemma get_put_opt: "LENGTH('a) \<le> 8 * k \<Longrightarrow> get_opt k (put_opt k x @ r) = (x :: 'a::len word option)"
  by (auto simp: get_opt_def put_opt_def from_to_le_bytes split: option.split)

definition put_text :: "string \<Rightarrow> bytes" where "put_text s = map (\<lambda>c. of_nat (of_char c)) s"
definition get_text :: "bytes \<Rightarrow> string" where "get_text bs = map (\<lambda>b. char_of (unat b)) bs"

lemma get_put_text [simp]: "get_text (put_text s) = s"
proof (induction s)
  case (Cons c s)
  have "of_char c < (256 :: nat)" by simp
  then have "unat (of_nat (of_char c) :: u8) = of_char c" by (simp add: unat_of_nat)
  with Cons show ?case by (simp add: get_text_def put_text_def)
qed (simp add: get_text_def put_text_def)

definition put_msg1 :: "relay_msg1 \<Rightarrow> bytes" where
  "put_msg1 m = put_opt 4 (m1_generation m) @ put_opt 16 (m1_conn_id m) @ put_text (m1_client_algorithm m)"

definition get_msg1 :: "bytes \<Rightarrow> relay_msg1 option" where
  "get_msg1 bs = Some \<lparr>m1_generation = get_opt 4 bs, m1_conn_id = get_opt 16 (drop 5 bs), m1_client_algorithm = get_text (drop 22 bs)\<rparr>"

lemma get_put_msg1: "get_msg1 (put_msg1 m) = Some m"
  by (simp add: get_msg1_def put_msg1_def get_put_opt)

text \<open>The length of the algorithm name in unary, the name, then the key.\<close>

definition put_msg2 :: "relay_msg2 \<Rightarrow> bytes" where
  "put_msg2 m = to_le_bytes 4 (m2_action m) @ to_le_bytes 4 (m2_generation m) @ to_le_bytes 4 (m2_initial_epoch m) @ put_opt 16 (m2_conn_id_echo m)
     @ replicate (length (m2_server_algorithm m)) 1 @ [0] @ put_text (m2_server_algorithm m)
     @ (case m2_root_key m of None \<Rightarrow> [] | Some k \<Rightarrow> 1 # k)"

definition get_msg2 :: "bytes \<Rightarrow> relay_msg2 option" where
  "get_msg2 bs = (let r = drop 29 bs; k = length (takeWhile (\<lambda>b. b = 1) r); t = drop (Suc k) r
     in Some \<lparr>m2_action = from_le_bytes (take 4 bs), m2_generation = from_le_bytes (take 4 (drop 4 bs)),
       m2_root_key = (case drop k t of [] \<Rightarrow> None | b # key \<Rightarrow> Some key), m2_initial_epoch = from_le_bytes (take 4 (drop 8 bs)),
       m2_conn_id_echo = get_opt 16 (drop 12 bs), m2_server_algorithm = get_text (take k t)\<rparr>)"

lemma get_put_msg2: "get_msg2 (put_msg2 m) = Some m"
proof -
  have "takeWhile (\<lambda>b. b = 1) (replicate k (1 :: u8) @ 0 # r) = replicate k 1" for k r
    by (induction k) simp_all
  moreover have "length (put_text s) = length s" for s by (simp add: put_text_def)
  ultimately show ?thesis
    by (simp add: get_msg2_def put_msg2_def Let_def get_put_opt from_to_le_bytes split: option.split)
qed

definition plain_pub :: "bytes \<Rightarrow> bytes" where "plain_pub k = take 32 (k @ replicate 32 0)"

definition plain_noise :: "unit noise_lib" where
  "plain_noise = \<lparr>nz_write1 = (\<lambda>priv remote rnd pl. Some (plain_pub priv @ pl, ())), nz_read1 = (\<lambda>priv out. Some (drop 32 out, take 32 out, ())),
     nz_write2 = (\<lambda>hs rnd pl. Some pl), nz_read2 = (\<lambda>hs out. Some out),
     enc_msg1 = put_msg1, dec_msg1 = get_msg1, enc_msg2 = put_msg2, dec_msg2 = get_msg2\<rparr>"

lemma plain_noise_ok: "noise_ok plain_noise plain_pub"
  by (auto simp: noise_ok_def plain_noise_def plain_pub_def get_put_msg1 get_put_msg2)

text \<open>A node with one connection to the other peer, whose static key is announced.\<close>

definition sample_config :: "peer_id \<Rightarrow> relay_config" where
  "sample_config me = \<lparr>rc_my_peer_id = me, rc_network_name = ''net'', rc_secure_mode = True, rc_private_key = Some [ucast me], rc_algorithm = ''aes-gcm''\<rparr>"

definition sample_route :: route_iface where
  "sample_route = \<lparr>via_next_hop = (\<lambda>_ _. None), via_peer_id_by_ipv4 = (\<lambda>_. None), via_peer_id_by_ipv6 = (\<lambda>_. None),
     via_peer_info = (\<lambda>i. Some ((route_peer_info_new [])\<lparr>ri_noise_static_pubkey := plain_pub [ucast i]\<rparr>)),
     via_origin_my_peer_id = (\<lambda>_ _. None), via_list_routes = []\<rparr>"

definition linked_map :: "peer_id \<Rightarrow> peer_id \<Rightarrow> u128 \<Rightarrow> peer_map" where
  "linked_map me other d = \<lparr>map_my_peer_id = me, map_peers = [(other, \<lparr>peer_node_id = other, peer_conns = [(11, (sample_conn 11 9)\<lparr>pc_node_id := other\<rparr>)],
     default_conn_id = d, peer_identity_type = Some Admin, peer_public_key = Some [1, 2]\<rparr>)], map_routes = [sample_route], alive_client_urls = []\<rparr>"

definition sample_node :: "peer_id \<Rightarrow> peer_id \<Rightarrow> relay_node" where
  "sample_node me other = (relay_node_new me)\<lparr>rn_peers := linked_map me other 0\<rparr>"

lemma linked_send:
  assumes "me \<noteq> other"
  shows "send_msg_directly (\<lambda>_. True) p other (linked_map me other d) = (Inr (To_Conn other 11 p), linked_map me other 11)"
  using assms by (simp add: send_msg_directly_def linked_map_def st_get_def peer_send_msg_def select_conn_def sample_conn_def Let_def
      put_peer_def st_insert_def)

lemma sample_send:
  assumes "me \<noteq> other" "rn_peers n = linked_map me other d"
  shows "send_via_next_hop (\<lambda>_. True) p other LeastHop n = (Inr (To_Conn other 11 p), n\<lparr>rn_peers := linked_map me other 11\<rparr>)"
proof -
  have "get_gateway_peer_id other LeastHop (linked_map me other d) = Some other" "has_peer other (linked_map me other d)"
    using assms(1) by (simp_all add: get_gateway_peer_id_def has_peer_def linked_map_def st_get_def)
  with linked_send [OF assms(1), of p] assms(2) show ?thesis by (auto simp: send_via_next_hop_def)
qed

lemma sample_handshake_send:
  assumes "me \<noteq> other" "rn_peers n = linked_map me other d"
  shows "\<exists>o1. send_handshake_packet g (\<lambda>_. True) cfg pl kind other LeastHop n = Some (Inr o1, n\<lparr>rn_peers := linked_map me other 11\<rparr>)"
proof -
  define p0 where "p0 = \<lparr>inner = uninit g 36 @ pl, zc_type = NIC\<rparr>"
  have "payload_offset p0 \<le> length (inner p0)" by (simp add: p0_def payload_offset_def layout_simps)
  from mut_peer_manager_header_Some [OF this] obtain p where "fill_peer_manager_hdr (rc_my_peer_id cfg) other (packet_kind_u8 kind) p0 = Some p"
    unfolding fill_peer_manager_hdr_def by blast
  with sample_send [OF assms, of p] show ?thesis by (auto simp: send_handshake_packet_def new_with_payload_eq p0_def)
qed

lemma sample_static: "rn_peers n = linked_map me other d \<Longrightarrow> get_remote_static_pubkey i n = Some (plain_pub [ucast i])"
  by (simp add: get_remote_static_pubkey_def get_route_peer_info_def linked_map_def sample_route_def plain_pub_def)

lemma sample_begins:
  assumes "me \<noteq> other"
  shows "\<exists>att o1. attempt_begin plain_noise g (\<lambda>_. True) rnd cid (sample_config me) other LeastHop (sample_node me other)
    = Some (Inr att, Some o1, (sample_node me other)\<lparr>rn_peers := linked_map me other 11, rn_relay := relay_map_new\<lparr>relay_fresh := 1, pending_handshakes := [(other, 0)]\<rparr>\<rparr>)"
proof -
  define n2 where "n2 = (sample_node me other)\<lparr>rn_relay := relay_map_new\<lparr>relay_fresh := 1, pending_handshakes := [(other, 0)]\<rparr>\<rparr>"
  define out where "out = plain_pub [ucast me] @ put_msg1 \<lparr>m1_generation = None, m1_conn_id = Some cid, m1_client_algorithm = ''aes-gcm''\<rparr>"
  have p: "rn_peers n2 = linked_map me other 0" by (simp add: n2_def sample_node_def)
  obtain o1 where o1: "send_handshake_packet g (\<lambda>_. True) (sample_config me) out RelayHandshake other LeastHop n2
      = Some (Inr o1, n2\<lparr>rn_peers := linked_map me other 11\<rparr>)"
    using sample_handshake_send [OF assms p, of g] by blast
  have st: "get_remote_static_pubkey other (sample_node me other) = Some (plain_pub [ucast other])"
    by (rule sample_static) (simp add: sample_node_def)
  have "store_get (relay_session_key (sample_config me) other) (rn_store (sample_node me other)) = (None, rn_store (sample_node me other))"
    by (simp add: store_get_def sample_node_def relay_node_new_def store_new_def st_get_def)
  moreover have "rn_relay (sample_node me other) = relay_map_new" by (simp add: sample_node_def relay_node_new_def)
  ultimately have "attempt_begin plain_noise g (\<lambda>_. True) rnd cid (sample_config me) other LeastHop (sample_node me other)
      = Some (Inr \<lparr>at_id = 0, at_state = (), at_conn_id = cid, at_remote_static = plain_pub [ucast other]\<rparr>, Some o1, n2\<lparr>rn_peers := linked_map me other 11\<rparr>)"
    using st o1 by (simp add: attempt_begin_def sample_config_def plain_noise_def Let_def out_def n2_def st_insert_def relay_map_new_def)
  then show ?thesis by (auto simp: n2_def)
qed

lemma sample_answers:
  assumes "me \<noteq> other" and "other < me" and "handshake_of RelayHandshake other (plain_pub [ucast other] @ put_msg1 m) p"
    and "n = (sample_node me other)\<lparr>rn_peers := linked_map me other 11, rn_relay := relay_map_new\<lparr>relay_fresh := 1, pending_handshakes := [(other, 0)]\<rparr>\<rparr>"
  shows "\<exists>oK n'. handle_handshake_packet cr plain_noise g (\<lambda>_. True) now rk rnd (sample_config me) p n = Some (Inr (), [oK], None, n')
    \<and> arrives_as (out_packet oK) (out_packet oK)"
proof -
  define n1 where "n1 = drop_pending_handshake other n"
  have p1: "rn_peers n1 = linked_map me other 11" "rn_store n1 = store_new" "pending_packets (rn_relay n1) = []"
    by (simp_all add: n1_def drop_pending_handshake_def assms(4) sample_node_def relay_node_new_def relay_map_new_def)
  have len: "length (plain_pub k) = 32" for k by (simp add: plain_pub_def)
  have r: "read_relay_msg1 plain_noise (sample_config me) p other n1 = Some (Some (m, plain_pub [ucast other], ()))"
    using handshake_payload_of [OF assms(3)] sample_static [OF p1(1)] get_put_msg1
    by (simp add: read_relay_msg1_def sample_config_def plain_noise_def len)
  obtain ret st where u: "upsert_responder_session now rk (relay_session_key (sample_config me) other) (m1_generation m) ''aes-gcm''
      (m1_client_algorithm m) (Some (plain_pub [ucast other])) store_new = (Inr ret, st)"
    by (simp add: upsert_responder_session_def store_new_def st_get_def Let_def store_alloc_def)
  define out where "out = put_msg2 \<lparr>m2_action = session_action_pb (ret_action ret), m2_generation = ret_generation ret, m2_root_key = ret_root_key ret,
    m2_initial_epoch = ret_initial_epoch ret, m2_conn_id_echo = m1_conn_id m, m2_server_algorithm = ''aes-gcm''\<rparr>"
  define n2 where "n2 = register_handshake_success now other (n1\<lparr>rn_store := st\<rparr>)"
  have p2: "rn_peers n2 = linked_map me other 11" "pending_packets (rn_relay n2) = []"
    using p1 by (simp_all add: n2_def register_handshake_success_def update_state_def)
  obtain oK where s: "send_handshake_packet g (\<lambda>_. True) (sample_config me) out RelayHandshakeAck other LeastHop n2
      = Some (Inr oK, n2\<lparr>rn_peers := linked_map me other 11\<rparr>)"
    using sample_handshake_send [OF assms(1) p2(1)] by blast
  have "answer_relay_msg1 cr plain_noise g (\<lambda>_. True) now rk rnd (sample_config me) other (m, plain_pub [ucast other], ()) n1
      = Some (Inr (), [oK], n2\<lparr>rn_peers := linked_map me other 11\<rparr>)"
    using u s p2 p1(2) len
    by (simp add: answer_relay_msg1_def plain_noise_def sample_config_def out_def n2_def flush_pending_packets_def st_get_def)
  with r assms(2) have "handle_relay_msg1 cr plain_noise g (\<lambda>_. True) now rk rnd (sample_config me) p other n
      = Some (Inr (), [oK], n2\<lparr>rn_peers := linked_map me other 11\<rparr>)"
    by (simp add: handle_relay_msg1_def n1_def [symmetric] assms(4) sample_config_def Let_def)
      (simp add: n1_def assms(4) st_get_def)
  moreover have "arrives_as (out_packet oK) (out_packet oK)"
    using send_handshake_frame(3) [OF s refl] by (rule handshake_arrives_refl)
  ultimately show ?thesis using assms(3) by (auto simp: handle_handshake_packet_def handshake_of_def)
qed

theorem crossing_relay_handshakes_agree_witness:
  "\<exists>attA oA A1 attB oB B1 oK B2 a A2 A3 b.
      attempt_begin plain_noise (\<lambda>_. 0) (\<lambda>_. True) [] 5 (sample_config 1) 7 LeastHop (sample_node 1 7) = Some (Inr attA, Some oA, A1)
    \<and> attempt_begin plain_noise (\<lambda>_. 0) (\<lambda>_. True) [] 6 (sample_config 7) 1 LeastHop (sample_node 7 1) = Some (Inr attB, Some oB, B1)
    \<and> handle_handshake_packet toy_crypto plain_noise (\<lambda>_. 0) (\<lambda>_. True) 3 (replicate 32 9) [] (sample_config 7) (out_packet oA) B1
        = Some (Inr (), [oK], None, B2)
    \<and> handle_handshake_packet toy_crypto plain_noise (\<lambda>_. 0) (\<lambda>_. True) 4 [] [] (sample_config 1) (out_packet oK) A1 = Some (Inr (), [], Some (at_id attA), A2)
    \<and> attempt_end plain_noise 4 (sample_config 1) 7 attA (Answer (out_packet oK)) A2 = Some (Inr a, A3)
    \<and> holds_session (sample_config 1) 7 a (replicate 32 9) A3 \<and> holds_session (sample_config 7) 1 b (replicate 32 9) B2"
proof -
  have ids: "rc_my_peer_id (sample_config i) = i" "rc_private_key (sample_config i) = Some [ucast i]" for i by (simp_all add: sample_config_def)
  have static: "get_remote_static_pubkey i (sample_node me other) = Some (plain_pub [ucast i])" for i me other
    by (rule sample_static) (simp add: sample_node_def)
  have none: "fst (store_get key (rn_store (sample_node me other))) = None" for key me other
    by (simp add: store_get_def sample_node_def relay_node_new_def store_new_def st_get_def)
  obtain attA oA A1 where A: "attempt_begin plain_noise (\<lambda>_. 0) (\<lambda>_. True) [] 5 (sample_config 1) 7 LeastHop (sample_node 1 7) = Some (Inr attA, Some oA, A1)"
    using sample_begins [of 1 7 "\<lambda>_. 0" "[]" 5] by auto
  define B1 where "B1 = (sample_node 7 1)\<lparr>rn_peers := linked_map 7 1 11, rn_relay := relay_map_new\<lparr>relay_fresh := 1, pending_handshakes := [(1, 0)]\<rparr>\<rparr>"
  obtain attB oB where B: "attempt_begin plain_noise (\<lambda>_. 0) (\<lambda>_. True) [] 6 (sample_config 7) 1 LeastHop (sample_node 7 1) = Some (Inr attB, Some oB, B1)"
    using sample_begins [of 7 1 "\<lambda>_. 0" "[]" 6] unfolding B1_def by auto
  obtain m out where m: "nz_write1 plain_noise [ucast (1 :: u32)] (plain_pub [ucast (7 :: u32)]) [] (enc_msg1 plain_noise m) = Some (out, at_state attA)"
      "handshake_of RelayHandshake (rc_my_peer_id (sample_config 1)) out (out_packet oA)"
    by (rule attempt_begun_facts [OF A ids(2) static])
  then have h: "handshake_of RelayHandshake 1 (plain_pub [ucast (1 :: u32)] @ put_msg1 m) (out_packet oA)"
    by (simp add: plain_noise_def ids)
  have hB: "\<exists>out. handshake_of RelayHandshake (rc_my_peer_id (sample_config 7)) out (out_packet oB)"
    by (rule attempt_begun_facts [OF B ids(2) static]) blast
  obtain oK B2 where K: "handle_handshake_packet toy_crypto plain_noise (\<lambda>_. 0) (\<lambda>_. True) 3 (replicate 32 9) [] (sample_config 7) (out_packet oA) B1
      = Some (Inr (), [oK], None, B2)" "arrives_as (out_packet oK) (out_packet oK)"
    using sample_answers [OF _ _ h B1_def, of toy_crypto "\<lambda>_. 0" 3 "replicate 32 9" "[]"] by auto
  have less: "rc_my_peer_id (sample_config 1) < rc_my_peer_id (sample_config 7)" by (simp add: ids)
  have len: "length (replicate 32 9 :: bytes) = 32" by simp
  obtain outB where "handshake_of RelayHandshake (rc_my_peer_id (sample_config 7)) outB (out_packet oB)" using hB by blast
  note arr = handshake_arrives_refl [OF h] handshake_arrives_refl [OF this]
  have st: "get_remote_static_pubkey (rc_my_peer_id (sample_config 7)) (sample_node 1 7) = Some (plain_pub [ucast (7 :: u32)])"
      "get_remote_static_pubkey (rc_my_peer_id (sample_config 1)) (sample_node 7 1) = Some (plain_pub [ucast (1 :: u32)])"
    by (simp_all add: static ids)
  note cross = crossing_relay_handshakes_agree [where t = 4 and rk' = "[]" and rnd' = "[]" and g' = "\<lambda>_. 0" and up' = "\<lambda>_. True",
      OF plain_noise_ok less ids(2) ids(2) len st none none, unfolded ids, OF A B arr K(1,2)]
  then obtain a A2 A3 b where
      "handle_handshake_packet toy_crypto plain_noise (\<lambda>_. 0) (\<lambda>_. True) 4 [] [] (sample_config 1) (out_packet oK) A1 = Some (Inr (), [], Some (at_id attA), A2)"
      "attempt_end plain_noise 4 (sample_config 1) 7 attA (Answer (out_packet oK)) A2 = Some (Inr a, A3)"
      "holds_session (sample_config 1) 7 a (replicate 32 9) A3" "holds_session (sample_config 7) 1 b (replicate 32 9) B2"
    by blast
  with A B K(1) show ?thesis by blast
qed

definition sample_secure_node :: relay_node where
  "sample_secure_node = (relay_node_new 3)\<lparr>rn_peers := linked_map 3 7 0, rn_foreign := None,
     rn_store := exec_op (OpUpsert 1 (replicate 32 7) (relay_session_key (sample_config 3) 7) None ''aes-gcm'' ''aes-gcm'' None) store_new\<rparr>"

lemma sample_secure_reach: "relay_reach toy_crypto plain_noise (sample_config 3) sample_secure_node"
proof -
  define a where "a = (relay_node_new 3)\<lparr>rn_peers := linked_map 3 7 0, rn_foreign := None\<rparr>"
  have "relay_step toy_crypto plain_noise (sample_config 3) (relay_node_new 3) [] a"
    unfolding a_def by (rule peers_changed)
  moreover have "relay_step toy_crypto plain_noise (sample_config 3) a [] sample_secure_node"
    using store_used [of toy_crypto plain_noise "sample_config 3" a
        "OpUpsert 1 (replicate 32 7) (relay_session_key (sample_config 3) 7) None ''aes-gcm'' ''aes-gcm'' None"]
    by (simp add: a_def sample_secure_node_def relay_node_new_def)
  moreover have "rc_my_peer_id (sample_config 3) = 3" by (simp add: sample_config_def)
  ultimately show ?thesis unfolding relay_reach_def by (metis (mono_tags, lifting) converse_rtranclp_into_rtranclp r_into_rtranclp)
qed

theorem relay_never_in_clear_witness:
  "\<exists>q n'. relay_step toy_crypto plain_noise (sample_config 3) sample_secure_node [To_Conn 7 11 q] n'
    \<and> (\<exists>h. peer_manager_header_of q = Some h
      \<and> (is_encrypted h \<or> packet_type h = packet_kind_u8 RelayHandshake \<or> packet_type h = packet_kind_u8 RelayHandshakeAck))"
proof -
  let ?cfg = "sample_config 3" and ?n = "sample_secure_node"
  define key where "key = relay_session_key ?cfg 7"
  define ps where "ps = \<lparr>ps_peer_id = 7, peer_static_pubkey = None, datagram = toy_session, ps_invalidated = False\<rparr>"
  have st: "rn_store ?n = \<lparr>sess_heap = [ps], sessions = [(key, 0)]\<rparr>"
    by (simp add: sample_secure_node_def upsert_responder_session_def store_new_def st_get_def Let_def store_alloc_def st_insert_def key_def ps_def
        peer_session_new_def toy_session_def relay_session_key_def)
  have v: "peer_session_is_valid ps" using toy_session_fields(1) by (simp add: ps_def peer_session_is_valid_def)
  obtain h where h: "peer_manager_header_of toy_data = Some h" "\<not> is_encrypted h" using toy_data_header(2) by blast
  obtain q s' where q: "session_encrypt_payload toy_crypto 5 (dir_for_sender 3 7) toy_data toy_session = Some (Inr q, s')"
    using toy_session_encrypts [OF toy_data_header(1) h] by blast
  define n0 where "n0 = ?n\<lparr>rn_relay := touch_state 5 7 (rn_relay ?n)\<rparr>"
  have e: "ensure_session ?cfg 7 n0 = (Inr 0, n0)"
    using st v by (simp add: ensure_session_def n0_def store_get_def key_def st_get_def)
  define n1 where "n1 = n0\<lparr>rn_store := heap_put 0 (ps\<lparr>datagram := s'\<rparr>) (rn_store n0)\<rparr>"
  have x: "encrypt_with toy_crypto 5 ?cfg 0 7 toy_data n0 = Some (Inr q, n1)"
    using st v q by (simp add: encrypt_with_def peer_session_encrypt_def n0_def n1_def sample_config_def) (simp add: ps_def)
  have "rn_peers n1 = linked_map 3 7 0" by (simp add: n1_def n0_def sample_secure_node_def)
  from sample_send [OF _ this, of q] have s: "send_via_next_hop (\<lambda>_. True) q 7 LeastHop n1 = (Inr (To_Conn 7 11 q), n1\<lparr>rn_peers := linked_map 3 7 11\<rparr>)"
    by simp
  have "relay_send_msg toy_crypto (\<lambda>_. True) 5 ?cfg toy_data 7 LeastHop ?n = Some (Inr (), Some (To_Conn 7 11 q), None, n1\<lparr>rn_peers := linked_map 3 7 11\<rparr>)"
    using e x s unfolding relay_send_msg_def n0_def [symmetric] by (simp add: Let_def sample_config_def)
  from msg_sent [OF this] have step: "relay_step toy_crypto plain_noise ?cfg ?n [To_Conn 7 11 q] (n1\<lparr>rn_peers := linked_map 3 7 11\<rparr>)" by simp
  have "rc_secure_mode ?cfg" by (simp add: sample_config_def)
  from relay_never_in_clear [OF toy_hmac_sized this sample_secure_reach step] step show ?thesis by auto
qed

end
