(* ===== verification/Peer_Manager.thy ===== *)
theory Peer_Manager
  imports Relay_Peer Compressor Acl_Filter
begin

text \<open>
  The packet paths of a node (\<^verbatim>\<open>peers/peer_manager.rs\<close>): sending by address, by peer and for the proxies, and the loop that
  receives packets, forwards those for others and hands the rest to the network interface or to the remote calls.

  The state is the map of connected peers, the relay sessions, the networks served for others and the access
  control filter.  The configuration, the crates and the services of other components are the fields of \<open>host\<close>; the
  filters other components register are functions.  Counters of traffic are left out.  \<^term>\<open>None\<close> is a panic.
\<close>

section \<open>State\<close>

text \<open>A network served for others: our identifier there and its connected peers.\<close>

record foreign_entry =
  fe_my_peer_id :: peer_id
  fe_peer_map :: peer_map

record manager =
  mg_node :: relay_node
  mg_foreign_networks :: "(bytes, foreign_entry) store"
  mg_acl :: acl_filter
  mg_exit_nodes :: "ip_addr list"
  mg_recent :: "(peer_id, nat) store"

record host =
  h_relay :: relay_config
  h_encryptor :: cipher
  h_compress :: compressor_algo
  h_credential_node :: bool
  h_disable_relay_data :: bool
  h_latency_first :: bool
  h_p2p_only :: bool
  h_disable_p2p :: bool
  h_lazy_p2p :: bool
  h_my_ipv4 :: "(u32 \<times> nat) option"
  h_my_ipv6 :: "(u128 \<times> nat) option"
  h_local_ipv6 :: "u128 \<Rightarrow> bool"
  h_same_network :: "ip_addr \<Rightarrow> bool"
  h_local_virtual :: "ip_addr \<Rightarrow> bool"
  h_public_gateway :: "peer_id option"
  h_crypto :: crypto
  h_zstd :: zstd
  h_acl_env :: acl_env
  h_pnet :: pnet
  h_groups :: "peer_id \<Rightarrow> string list"
  h_last4 :: "u32 \<Rightarrow> nat \<Rightarrow> u32"
  h_last6 :: "u128 \<Rightarrow> nat \<Rightarrow> u128"
  h_up :: "u128 \<Rightarrow> bool"

text \<open>The clocks a step reads: milliseconds for the sessions, microseconds and seconds for the access control rules.\<close>

record clock =
  ck_ms :: nat
  ck_us :: nat
  ck_secs :: u64

text \<open>What a step gives to the outside.\<close>

datatype effect =
    Sent outgoing
  | Start_Handshake peer_id nat
  | To_Nic zc_packet
  | To_Rpc zc_packet
  | Sent_Foreign bytes outgoing
  | Handshake_Answer nat zc_packet
  | Notify_P2p_Demand

abbreviation my_id :: "host \<Rightarrow> peer_id" where "my_id H \<equiv> rc_my_peer_id (h_relay H)"
abbreviation secure_mode :: "host \<Rightarrow> bool" where "secure_mode H \<equiv> rc_secure_mode (h_relay H)"

section \<open>Kinds of traffic\<close>

definition data_traffic :: "u8 \<Rightarrow> bool" where
  "data_traffic t \<longleftrightarrow> t \<in> set (map packet_kind_u8 [Data, KcpSrc, KcpDst, QuicSrc, QuicDst, DataWithKcpSrcModified, DataWithQuicSrcModified])"

definition is_relay_data_packet_type :: "u8 \<Rightarrow> bool" where
  "is_relay_data_packet_type t \<longleftrightarrow> data_traffic t \<or> t = packet_kind_u8 ForeignNetworkPacket"

definition is_relay_data_zc_packet :: "zc_packet \<Rightarrow> bool option" where
  "is_relay_data_zc_packet p =
     (case peer_manager_header_of p of
        None \<Rightarrow> Some False
      | Some hdr \<Rightarrow>
          if packet_type hdr = packet_kind_u8 ForeignNetworkPacket then
            map_option (\<lambda>t. case t of None \<Rightarrow> True | Some k \<Rightarrow> is_relay_data_packet_type k) (foreign_network_inner_packet_type p)
          else Some (is_relay_data_packet_type (packet_type hdr)))"

section \<open>Recent traffic\<close>

definition RECENT_HAVE_TRAFFIC_TTL :: nat where "RECENT_HAVE_TRAFFIC_TTL = 30000"

definition mg_directly_connected :: "peer_id \<Rightarrow> manager \<Rightarrow> bool" where
  "mg_directly_connected i M =
     (case st_get (map_peers (rn_peers (mg_node M))) i of
        Some p \<Rightarrow> has_directly_connected_conn p
      | None \<Rightarrow> (case rn_foreign (mg_node M) of None \<Rightarrow> False | Some f \<Rightarrow> has_peer i f))"

definition mark_recent_traffic :: "host \<Rightarrow> nat \<Rightarrow> peer_id \<Rightarrow> manager \<Rightarrow> effect list \<times> manager" where
  "mark_recent_traffic H now dst M =
     (if dst = my_id H \<or> h_disable_p2p H \<or> \<not> h_lazy_p2p H \<or> mg_directly_connected dst M then ([], M)
      else let notify = (case st_get (mg_recent M) dst of None \<Rightarrow> True | Some seen \<Rightarrow> RECENT_HAVE_TRAFFIC_TTL < now - seen)
        in (if notify then [Notify_P2p_Demand] else [], M\<lparr>mg_recent := st_insert dst now (mg_recent M)\<rparr>))"

definition has_recent_traffic :: "nat \<Rightarrow> peer_id \<Rightarrow> manager \<Rightarrow> bool" where
  "has_recent_traffic now i M \<longleftrightarrow> \<not> mg_directly_connected i M
     \<and> (case st_get (mg_recent M) i of None \<Rightarrow> False | Some seen \<Rightarrow> now - seen \<le> RECENT_HAVE_TRAFFIC_TTL)"

definition clear_recent_traffic :: "peer_id \<Rightarrow> manager \<Rightarrow> manager" where
  "clear_recent_traffic i M = M\<lparr>mg_recent := st_remove i (mg_recent M)\<rparr>"

definition gc_recent_traffic :: "nat \<Rightarrow> manager \<Rightarrow> manager" where
  "gc_recent_traffic now M =
     fold clear_recent_traffic (map fst (filter (\<lambda>(i, seen). RECENT_HAVE_TRAFFIC_TTL < now - seen \<or> mg_directly_connected i M) (mg_recent M))) M"

section \<open>Sending\<close>

text \<open>The packet after the call and whether it failed; a failed encryption leaves the compressed packet.\<close>

definition try_compress_and_encrypt ::
  "host \<Rightarrow> bytes \<Rightarrow> zc_packet \<Rightarrow> ((pm_error + unit) \<times> zc_packet) option" where
  "try_compress_and_encrypt H rnd msg = do {
     c \<leftarrow> compress (h_zstd H) (h_compress H) msg;
     (case c of
        Inl e \<Rightarrow> Some (Inl OtherError, msg)
      | Inr msg1 \<Rightarrow>
          if secure_mode H then Some (Inr (), msg1)
          else do {
            r \<leftarrow> encrypt_with_nonce (h_crypto H) rnd (h_encryptor H) None msg1;
            Some (case r of Inl e \<Rightarrow> (Inl OtherError, msg1) | Inr msg2 \<Rightarrow> (Inr (), msg2))
          })
   }"

definition get_next_hop_policy :: "bool \<Rightarrow> next_hop_policy" where
  "get_next_hop_policy first_latency = (if first_latency then LeastCost else LeastHop)"

definition check_p2p_only_before_send :: "host \<Rightarrow> peer_id \<Rightarrow> manager \<Rightarrow> pm_error + unit" where
  "check_p2p_only_before_send H dst M = (if h_p2p_only H \<and> \<not> has_peer dst (rn_peers (mg_node M)) then Inl RouteError else Inr ())"

definition client_has_next_hop :: "peer_id \<Rightarrow> relay_node \<Rightarrow> bool" where
  "client_has_next_hop i n \<longleftrightarrow> (case rn_foreign n of None \<Rightarrow> False | Some f \<Rightarrow> fclient_next_hop i f \<noteq> None)"

definition client_send :: "(u128 \<Rightarrow> bool) \<Rightarrow> zc_packet \<Rightarrow> peer_id \<Rightarrow> relay_node \<Rightarrow> (pm_error + outgoing) \<times> relay_node" where
  "client_send up msg i n = (case rn_foreign n of
     None \<Rightarrow> (Inl RouteError, n)
   | Some f \<Rightarrow> (case fclient_send_msg up msg i f of (r, f') \<Rightarrow> (r, n\<lparr>rn_foreign := Some f'\<rparr>)))"

definition sent_result :: "(pm_error + outgoing) \<times> relay_node \<Rightarrow> (pm_error + unit) \<times> effect list \<times> relay_node" where
  "sent_result x = (case x of (Inl e, n) \<Rightarrow> (Inl e, [], n) | (Inr out, n) \<Rightarrow> (Inr (), [Sent out], n))"

definition send_msg_internal ::
  "host \<Rightarrow> nat \<Rightarrow> zc_packet \<Rightarrow> peer_id \<Rightarrow> relay_node \<Rightarrow> ((pm_error + unit) \<times> effect list \<times> relay_node) option" where
  "send_msg_internal H now msg dst n = do {
     hdr \<leftarrow> peer_manager_header_of msg;
     let policy = get_next_hop_policy (is_latency_first hdr);
     if has_peer dst (rn_peers n) then
       Some (sent_result (case send_msg_directly (h_up H) msg dst (rn_peers n) of (r, m) \<Rightarrow> (r, n\<lparr>rn_peers := m\<rparr>)))
     else if client_has_next_hop dst n then Some (sent_result (client_send (h_up H) msg dst n))
     else (case get_gateway_peer_id dst policy (rn_peers n) of
         Some gateway \<Rightarrow>
           if has_peer gateway (rn_peers n) \<or> client_has_next_hop gateway n then
             map_option (\<lambda>(r, out, task, n'). (r, (case out of None \<Rightarrow> [] | Some x \<Rightarrow> [Sent x])
                 @ (case task of None \<Rightarrow> [] | Some l \<Rightarrow> [Start_Handshake dst l]), n'))
               (relay_send_msg (h_crypto H) (h_up H) now (h_relay H) msg dst policy n)
           else Some (Inl RouteError, [], n)
       | None \<Rightarrow> if client_has_next_hop dst n then Some (sent_result (client_send (h_up H) msg dst n)) else Some (Inl RouteError, [], n))
   }"

text \<open>\<^verbatim>\<open>send_msg_internal\<close> on the manager.\<close>

definition mg_send :: "host \<Rightarrow> nat \<Rightarrow> zc_packet \<Rightarrow> peer_id \<Rightarrow> manager \<Rightarrow> ((pm_error + unit) \<times> effect list \<times> manager) option" where
  "mg_send H now msg dst M = map_option (\<lambda>(r, effs, n). (r, effs, M\<lparr>mg_node := n\<rparr>)) (send_msg_internal H now msg dst (mg_node M))"

definition send_msg_for_proxy ::
  "host \<Rightarrow> nat \<Rightarrow> bytes \<Rightarrow> zc_packet \<Rightarrow> peer_id \<Rightarrow> manager \<Rightarrow> ((pm_error + unit) \<times> effect list \<times> manager) option" where
  "send_msg_for_proxy H now rnd msg dst M0 =
     (case mark_recent_traffic H now dst M0 of (effs0, M) \<Rightarrow>
        (case check_p2p_only_before_send H dst M of
           Inl e \<Rightarrow> Some (Inl e, effs0, M)
         | Inr _ \<Rightarrow> (case try_compress_and_encrypt H rnd msg of
               None \<Rightarrow> None
             | Some (Inl e, _) \<Rightarrow> Some (Inl e, effs0, M)
             | Some (Inr _, msg1) \<Rightarrow> map_option (\<lambda>(r, effs, M'). (r, effs0 @ effs, M')) (mg_send H now msg1 dst M))))"

subsection \<open>Destinations\<close>

definition ipv4_is_multicast :: "u32 \<Rightarrow> bool" where "ipv4_is_multicast a \<longleftrightarrow> drop_bit 28 a = 14"
definition ipv6_is_multicast :: "u128 \<Rightarrow> bool" where "ipv6_is_multicast a \<longleftrightarrow> drop_bit 120 a = 255"
definition ipv6_is_unicast_link_local :: "u128 \<Rightarrow> bool" where "ipv6_is_unicast_link_local a \<longleftrightarrow> drop_bit 118 a = 1018"

definition is_all_peers_broadcast_ipv4 :: "host \<Rightarrow> u32 \<Rightarrow> bool" where
  "is_all_peers_broadcast_ipv4 H a \<longleftrightarrow>
     a = - 1 \<or> ipv4_is_multicast a \<or> a = h_last4 H a (case h_my_ipv4 H of None \<Rightarrow> 24 | Some (_, len) \<Rightarrow> len)"

definition is_all_peers_broadcast_ipv6 :: "host \<Rightarrow> u128 \<Rightarrow> bool" where
  "is_all_peers_broadcast_ipv6 H a \<longleftrightarrow>
     ipv6_is_multicast a \<or> a = h_last6 H a (case h_my_ipv6 H of None \<Rightarrow> 64 | Some (_, len) \<Rightarrow> len)"

definition select_ipv4_broadcast_peers :: "(peer_id \<times> peer_id \<times> u32 option) list \<Rightarrow> peer_id \<Rightarrow> peer_id list" where
  "select_ipv4_broadcast_peers routes me = map fst (filter (\<lambda>(i, hop, addr). i \<noteq> me \<and> addr \<noteq> None) routes)"

definition exit_node_peer :: "(ip_addr \<Rightarrow> peer_id option) \<Rightarrow> ip_addr list \<Rightarrow> peer_id option" where
  "exit_node_peer lookup nodes = first_answer lookup nodes"

definition get_msg_dst_peer_ipv4 :: "host \<Rightarrow> u32 \<Rightarrow> manager \<Rightarrow> peer_id list \<times> bool" where
  "get_msg_dst_peer_ipv4 H a M =
     (let peers = rn_peers (mg_node M)
      in if is_all_peers_broadcast_ipv4 H a then (select_ipv4_broadcast_peers (list_route_infos peers) (my_id H), False)
         else (case map_peer_id_by_ipv4 a peers of
             Some i \<Rightarrow> ([i], False)
           | None \<Rightarrow>
               if h_same_network H (IpV4 a) then ([], False)
               else (case exit_node_peer (\<lambda>x. case x of IpV4 e \<Rightarrow> map_peer_id_by_ipv4 e peers | IpV6 _ \<Rightarrow> None) (mg_exit_nodes M) of
                   Some i \<Rightarrow> ([i], True)
                 | None \<Rightarrow> ([], False))))"

definition get_msg_dst_peer_ipv6 :: "host \<Rightarrow> u128 \<Rightarrow> manager \<Rightarrow> peer_id list \<times> bool" where
  "get_msg_dst_peer_ipv6 H a M =
     (let peers = rn_peers (mg_node M)
      in if is_all_peers_broadcast_ipv6 H a then (map fst (map_list_routes peers), False)
         else (case map_peer_id_by_ipv6 a peers of
             Some i \<Rightarrow> ([i], False)
           | None \<Rightarrow>
               if ipv6_is_unicast_link_local a then ([], False)
               else (case h_public_gateway H of
                   Some i \<Rightarrow> ([i], False)
                 | None \<Rightarrow> (case exit_node_peer (\<lambda>x. case x of IpV6 e \<Rightarrow> map_peer_id_by_ipv6 e peers | IpV4 _ \<Rightarrow> None) (mg_exit_nodes M) of
                       Some i \<Rightarrow> ([i], True)
                     | None \<Rightarrow> ([], False)))))"

definition get_msg_dst_peer :: "host \<Rightarrow> ip_addr \<Rightarrow> manager \<Rightarrow> peer_id list \<times> bool" where
  "get_msg_dst_peer H ip M = (case ip of IpV4 a \<Rightarrow> get_msg_dst_peer_ipv4 H a M | IpV6 a \<Rightarrow> get_msg_dst_peer_ipv6 H a M)"

subsection \<open>Packets of the network interface\<close>

text \<open>The filters registered for outgoing packets change the packet in place; the newest runs first.\<close>

definition run_nic_packet_process_pipeline ::
  "host \<Rightarrow> clock \<Rightarrow> (zc_packet \<Rightarrow> zc_packet) list \<Rightarrow> zc_packet \<Rightarrow> manager \<Rightarrow> (bool \<times> zc_packet \<times> manager) option" where
  "run_nic_packet_process_pipeline H ck filters pkt M = do {
     (ok, f) \<leftarrow> process_packet_with_acl (h_acl_env H) (h_pnet H) (h_groups H) (ck_us ck) (ck_secs ck) pkt False None (\<lambda>_. False) (mg_acl M);
     Some (ok, if ok then fold (\<lambda>g. g) (rev filters) pkt else pkt, M\<lparr>mg_acl := f\<rparr>)
   }"

definition should_mark_recent_traffic_for_fanout :: "nat \<Rightarrow> bool" where
  "should_mark_recent_traffic_for_fanout n \<longleftrightarrow> n \<le> 1"

text \<open>The header of the copy for one destination.\<close>

definition address_copy :: "host \<Rightarrow> ip_addr \<Rightarrow> bool \<Rightarrow> peer_id \<Rightarrow> peer_manager_header \<Rightarrow> peer_manager_header" where
  "address_copy H ip not_send_to_self i hdr =
     (let hdr1 = hdr\<lparr>to_peer_id := i\<rparr>
      in if not_send_to_self \<and> i = my_id H \<and> \<not> h_local_virtual H ip
         then set_no_proxy True (set_not_send_to_tun True hdr1) else hdr1)"

text \<open>The loop over the destinations; the errors in the order they are found.\<close>

fun send_to_peers ::
  "host \<Rightarrow> clock \<Rightarrow> ip_addr \<Rightarrow> bool \<Rightarrow> bool \<Rightarrow> zc_packet \<Rightarrow> peer_id list \<Rightarrow> manager \<Rightarrow> (pm_error list \<times> effect list \<times> manager) option" where
  "send_to_peers H ck ip nself mark msg [] M = Some ([], [], M)"
| "send_to_peers H ck ip nself mark msg (i # is) M =
     (case (if mark then mark_recent_traffic H (ck_ms ck) i M else ([], M)) of (effs0, M0) \<Rightarrow>
        (case check_p2p_only_before_send H i M0 of
           Inl e \<Rightarrow> do {
             (errs, effs, M') \<leftarrow> send_to_peers H ck ip nself mark msg is M0;
             Some (e # errs, effs0 @ effs, M')
           }
         | Inr _ \<Rightarrow> do {
             copy \<leftarrow> mut_peer_manager_header (address_copy H ip nself i) msg;
             (r, effs1, M1) \<leftarrow> mg_send H (ck_ms ck) copy i M0;
             (errs, effs, M') \<leftarrow> send_to_peers H ck ip nself mark msg is M1;
             Some ((case r of Inl e \<Rightarrow> e # errs | Inr _ \<Rightarrow> errs), effs0 @ effs1 @ effs, M')
           }))"

definition send_msg_by_ip ::
  "host \<Rightarrow> clock \<Rightarrow> bytes \<Rightarrow> (zc_packet \<Rightarrow> zc_packet) list \<Rightarrow> zc_packet \<Rightarrow> ip_addr \<Rightarrow> bool \<Rightarrow> manager \<Rightarrow>
     ((pm_error + unit) \<times> effect list \<times> manager) option" where
  "send_msg_by_ip H ck rnd filters msg0 ip not_send_to_self M0 = do {
     msg1 \<leftarrow> fill_peer_manager_hdr (my_id H) 0 (packet_kind_u8 Data) msg0;
     (ok, msg2, M1) \<leftarrow> run_nic_packet_process_pipeline H ck filters msg1 M0;
     if \<not> ok then Some (Inr (), [], M1)
     else do {
       hdr \<leftarrow> peer_manager_header_of msg2;
       if to_peer_id hdr \<noteq> 0 then
         (case mark_recent_traffic H (ck_ms ck) (to_peer_id hdr) M1 of (effs0, M2) \<Rightarrow>
            map_option (\<lambda>(r, effs, M'). (r, effs0 @ effs, M')) (mg_send H (ck_ms ck) msg2 (to_peer_id hdr) M2))
       else (case get_msg_dst_peer H ip M1 of (dst_peers, is_exit) \<Rightarrow>
         if dst_peers = [] then Some (Inr (), [], M1)
         else (case try_compress_and_encrypt H rnd msg2 of
             None \<Rightarrow> None
           | Some (Inl e, _) \<Rightarrow> Some (Inl e, [], M1)
           | Some (Inr _, msg3) \<Rightarrow> do {
               msg4 \<leftarrow> mut_peer_manager_header (\<lambda>hdr. set_exit_node is_exit (set_latency_first (h_latency_first H) hdr)) msg3;
               (errs, effs, M') \<leftarrow> send_to_peers H ck ip not_send_to_self
                  (should_mark_recent_traffic_for_fanout (length dst_peers)) msg4 dst_peers M1;
               Some (if errs = [] then Inr () else Inl OtherError, effs, M')
             }))
     }
   }"

section \<open>Packets of foreign networks\<close>

text \<open>The byte sequences \<^verbatim>\<open>std::str::from_utf8\<close> accepts.\<close>

definition utf8_continuation :: "u8 \<Rightarrow> bool" where "utf8_continuation b \<longleftrightarrow> 0x80 \<le> b \<and> b \<le> 0xBF"

fun valid_utf8 :: "bytes \<Rightarrow> bool" where
  "valid_utf8 [] = True"
| "valid_utf8 (b # bs) =
     (if b < 0x80 then valid_utf8 bs
      else if 0xC2 \<le> b \<and> b \<le> 0xDF then
        (case bs of c # cs \<Rightarrow> utf8_continuation c \<and> valid_utf8 cs | _ \<Rightarrow> False)
      else if 0xE0 \<le> b \<and> b \<le> 0xEF then
        (case bs of c # d # cs \<Rightarrow> (if b = 0xE0 then 0xA0 else 0x80) \<le> c \<and> c \<le> (if b = 0xED then 0x9F else 0xBF)
           \<and> utf8_continuation d \<and> valid_utf8 cs | _ \<Rightarrow> False)
      else if 0xF0 \<le> b \<and> b \<le> 0xF4 then
        (case bs of c # d # e # cs \<Rightarrow> (if b = 0xF0 then 0x90 else 0x80) \<le> c \<and> c \<le> (if b = 0xF4 then 0x8F else 0xBF)
           \<and> utf8_continuation d \<and> utf8_continuation e \<and> valid_utf8 cs | _ \<Rightarrow> False)
      else False)"

definition get_network_peer_id :: "bytes \<Rightarrow> manager \<Rightarrow> peer_id option" where
  "get_network_peer_id name M = map_option fe_my_peer_id (st_get (mg_foreign_networks M) name)"

definition forward_foreign_network_packet ::
  "host \<Rightarrow> bytes \<Rightarrow> peer_id \<Rightarrow> zc_packet \<Rightarrow> manager \<Rightarrow> (pm_error + outgoing) \<times> manager" where
  "forward_foreign_network_packet H name dst msg M =
     (case st_get (mg_foreign_networks M) name of
        None \<Rightarrow> (Inl RouteError, M)
      | Some e \<Rightarrow> (case map_send_msg (h_up H) msg dst LeastHop (fe_peer_map e) of
            (r, m) \<Rightarrow> (r, M\<lparr>mg_foreign_networks := st_insert name (e\<lparr>fe_peer_map := m\<rparr>) (mg_foreign_networks M)\<rparr>)))"

text \<open>\<open>Some p\<close> in the first place: the packet is left to the caller.\<close>

definition try_handle_foreign_network_packet ::
  "host \<Rightarrow> zc_packet \<Rightarrow> manager \<Rightarrow> (zc_packet option \<times> effect list \<times> manager) option" where
  "try_handle_foreign_network_packet H pkt M = do {
     hdr \<leftarrow> peer_manager_header_of pkt;
     if packet_type hdr \<noteq> packet_kind_u8 ForeignNetworkPacket then Some (Some pkt, [], M)
     else do {
       relay_data \<leftarrow> (if h_disable_relay_data H then is_relay_data_zc_packet pkt else Some False);
       if relay_data then Some (None, [], M)
       else do {
         mhdr \<leftarrow> foreign_network_hdr pkt;
         fhdr \<leftarrow> mhdr;
         pl \<leftarrow> payload pkt;
         name \<leftarrow> get_network_name fhdr pl;
         if \<not> valid_utf8 name then None
         else if to_peer_id hdr = my_id H then do {
           msg \<leftarrow> foreign_network_packet pkt;
           Some (case forward_foreign_network_packet H name (dst_peer_id fhdr) msg M of
               (Inl e, M') \<Rightarrow> (None, [], M')
             | (Inr out, M') \<Rightarrow> (None, [Sent_Foreign name out], M'))
         }
         else if Some (from_peer_id hdr) = get_network_peer_id name M then
           (case map_origin_my_peer_id name (to_peer_id hdr) (rn_peers (mg_node M)) of
              None \<Rightarrow> Some (Some pkt, [], M)
            | Some i \<Rightarrow> do {
                msg \<leftarrow> mut_peer_manager_header (\<lambda>hdr. hdr\<lparr>to_peer_id := i\<rparr>) pkt;
                (case map_send_msg (h_up H) msg i LeastHop (rn_peers (mg_node M)) of (r, m) \<Rightarrow>
                   Some (None, (case r of Inl e \<Rightarrow> [] | Inr out \<Rightarrow> [Sent out]), M\<lparr>mg_node := (mg_node M)\<lparr>rn_peers := m\<rparr>\<rparr>))
              })
         else Some (Some pkt, [], M)
       }
     }
   }"

section \<open>Receiving\<close>

text \<open>A filter of received packets: what it does and the packet unless it took it.\<close>

type_synonym peer_filter = "zc_packet \<Rightarrow> (effect list \<times> zc_packet option) option"

definition nic_processor :: peer_filter where
  "nic_processor pkt = do {
     hdr \<leftarrow> peer_manager_header_of pkt;
     Some (if packet_type hdr = packet_kind_u8 Data \<and> \<not> is_not_send_to_tun hdr then
         if is_encrypted hdr \<or> is_compressed hdr then ([], None) else ([To_Nic pkt], None)
       else ([], Some pkt))
   }"

definition rpc_processor :: peer_filter where
  "rpc_processor pkt = do {
     hdr \<leftarrow> peer_manager_header_of pkt;
     Some (if packet_type hdr \<in> {packet_kind_u8 TaRpc, packet_kind_u8 RpcReq, packet_kind_u8 RpcResp}
       then ([To_Rpc pkt], None) else ([], Some pkt))
   }"

definition init_packet_process_pipeline :: "peer_filter list \<Rightarrow> peer_filter list" where
  "init_packet_process_pipeline pipe = pipe @ [nic_processor, rpc_processor]"

text \<open>The filters in the order they are asked, until one takes the packet.\<close>

fun run_filters :: "peer_filter list \<Rightarrow> zc_packet \<Rightarrow> effect list option" where
  "run_filters [] pkt = Some []"
| "run_filters (f # fs) pkt = do {
     (effs, rest) \<leftarrow> f pkt;
     (case rest of None \<Rightarrow> Some effs | Some pkt' \<Rightarrow> map_option (\<lambda>effs'. effs @ effs') (run_filters fs pkt'))
   }"

definition handshake_kinds :: "u8 list" where
  "handshake_kinds = map packet_kind_u8 [HandShake, NoiseHandshakeMsg1, NoiseHandshakeMsg2, NoiseHandshakeMsg3]"

definition forward_header :: "peer_manager_header \<Rightarrow> peer_manager_header" where
  "forward_header hdr =
     (let hdr1 = (if 2 < forward_counter hdr \<and> is_latency_first hdr then set_latency_first False hdr else hdr)
      in hdr1\<lparr>forward_counter := forward_counter hdr1 + 1\<rparr>)"

text \<open>A packet for another peer.\<close>

definition forward_packet :: "host \<Rightarrow> clock \<Rightarrow> bytes \<Rightarrow> zc_packet \<Rightarrow> manager \<Rightarrow> (effect list \<times> manager) option" where
  "forward_packet H ck rnd pkt M = do {
     relay_data \<leftarrow> is_relay_data_zc_packet pkt;
     hdr \<leftarrow> peer_manager_header_of pkt;
     if h_disable_relay_data H \<and> relay_data \<or> 7 < forward_counter hdr
       \<or> h_credential_node H \<and> packet_type hdr \<in> set handshake_kinds then Some ([], M)
     else do {
       pkt1 \<leftarrow> mut_peer_manager_header forward_header pkt;
       pkt2 \<leftarrow> (if from_peer_id hdr = my_id H \<and> packet_type hdr \<in> {packet_kind_u8 Data, packet_kind_u8 KcpSrc, packet_kind_u8 KcpDst}
         then map_option snd (try_compress_and_encrypt H rnd pkt1) else Some pkt1);
       map_option (\<lambda>(r, effs, M'). (effs, M')) (mg_send H (ck_ms ck) pkt2 (to_peer_id hdr) M)
     }
   }"

text \<open>The packet after decryption, unless it is dropped.\<close>

definition decrypt_received :: "host \<Rightarrow> nat \<Rightarrow> zc_packet \<Rightarrow> manager \<Rightarrow> (zc_packet option \<times> effect list \<times> manager) option" where
  "decrypt_received H now pkt M = do {
     hdr \<leftarrow> peer_manager_header_of pkt;
     if \<not> secure_mode H then do {
       r \<leftarrow> encryptor_decrypt (h_crypto H) (h_encryptor H) pkt;
       Some (case r of Inl e \<Rightarrow> None | Inr pkt1 \<Rightarrow> Some pkt1, [], M)
     }
     else if is_encrypted hdr then do {
       (r, pkt1, task, n) \<leftarrow> decrypt_if_needed (h_crypto H) now (h_relay H) pkt (mg_node M);
       Some (if r = Inr True then Some pkt1 else None,
         (case task of None \<Rightarrow> [] | Some l \<Rightarrow> [Start_Handshake (from_peer_id hdr) l]), M\<lparr>mg_node := n\<rparr>)
     }
     else Some (Some pkt, [], M)
   }"

definition deliver_packet :: "host \<Rightarrow> clock \<Rightarrow> peer_filter list \<Rightarrow> zc_packet \<Rightarrow> manager \<Rightarrow> (effect list \<times> manager) option" where
  "deliver_packet H ck pipe pkt M = do {
     d \<leftarrow> decompress (h_zstd H) pkt;
     (case d of
        Inl e \<Rightarrow> Some ([], M)
      | Inr pkt1 \<Rightarrow> do {
          (ok, f) \<leftarrow> process_packet_with_acl (h_acl_env H) (h_pnet H) (h_groups H) (ck_us ck) (ck_secs ck) pkt1 True
            (map_option fst (h_my_ipv4 H)) (h_local_ipv6 H) (mg_acl M);
          let M1 = M\<lparr>mg_acl := f\<rparr>;
          if \<not> ok then Some ([], M1)
          else do {
            effs \<leftarrow> run_filters (rev pipe) pkt1;
            Some (effs, M1)
          }
        })
   }"

text \<open>A packet for this node; \<open>noise\<close> is \<^verbatim>\<open>handle_handshake_packet\<close> with the library, the keys and the random values of this call.\<close>

definition receive_own ::
  "host \<Rightarrow> clock \<Rightarrow> (zc_packet \<Rightarrow> relay_node \<Rightarrow> ((pm_error + unit) \<times> outgoing list \<times> nat option \<times> relay_node) option) \<Rightarrow>
     peer_filter list \<Rightarrow> zc_packet \<Rightarrow> manager \<Rightarrow> (effect list \<times> manager) option" where
  "receive_own H ck noise pipe pkt M = do {
     hdr \<leftarrow> peer_manager_header_of pkt;
     if packet_type hdr = packet_kind_u8 RelayHandshake \<or> packet_type hdr = packet_kind_u8 RelayHandshakeAck then do {
       (r, outs, answered, n) \<leftarrow> noise pkt (mg_node M);
       Some (map Sent outs @ (case answered of None \<Rightarrow> [] | Some a \<Rightarrow> [Handshake_Answer a pkt]), M\<lparr>mg_node := n\<rparr>)
     }
     else do {
       (d, effs, M1) \<leftarrow> decrypt_received H (ck_ms ck) pkt M;
       (case d of
          None \<Rightarrow> Some (effs, M1)
        | Some pkt1 \<Rightarrow> map_option (\<lambda>(effs', M2). (effs @ effs', M2)) (deliver_packet H ck pipe pkt1 M1))
     }
   }"

text \<open>One turn of the loop of \<^verbatim>\<open>start_peer_recv\<close>.\<close>

definition peer_recv ::
  "host \<Rightarrow> clock \<Rightarrow> bytes \<Rightarrow> (zc_packet \<Rightarrow> relay_node \<Rightarrow> ((pm_error + unit) \<times> outgoing list \<times> nat option \<times> relay_node) option) \<Rightarrow>
     peer_filter list \<Rightarrow> zc_packet \<Rightarrow> manager \<Rightarrow> (effect list \<times> manager) option" where
  "peer_recv H ck rnd noise pipe pkt0 M0 = do {
     (left, effs0, M) \<leftarrow> try_handle_foreign_network_packet H pkt0 M0;
     (case left of
        None \<Rightarrow> Some (effs0, M)
      | Some pkt \<Rightarrow> do {
          relay_data \<leftarrow> is_relay_data_zc_packet pkt;
          (case peer_manager_header_of pkt of
             None \<Rightarrow> Some (effs0, M)
           | Some hdr \<Rightarrow> map_option (\<lambda>(effs, M'). (effs0 @ effs, M'))
               (if to_peer_id hdr \<noteq> my_id H then forward_packet H ck rnd pkt M else receive_own H ck noise pipe pkt M))
        })
   }"

section \<open>Remote calls and credentials\<close>

definition rpc_transport_send :: "host \<Rightarrow> bytes \<Rightarrow> zc_packet \<Rightarrow> peer_id \<Rightarrow> manager \<Rightarrow> ((pm_error + unit) \<times> effect list \<times> manager) option" where
  "rpc_transport_send H rnd msg dst M =
     (let peers = rn_peers (mg_node M);
          public_server = (case Option.bind (get_route_peer_info dst peers) ri_feature_flag of
              Some ff \<Rightarrow> ff_is_public_server ff
            | None \<Rightarrow> \<not> has_peer dst peers);
          send = (\<lambda>msg1. case send_msg_directly (h_up H) msg1 (my_id H) peers of
              (Inl e, m) \<Rightarrow> (Inl e, [], M\<lparr>mg_node := (mg_node M)\<lparr>rn_peers := m\<rparr>\<rparr>)
            | (Inr out, m) \<Rightarrow> (Inr (), [Sent out], M\<lparr>mg_node := (mg_node M)\<lparr>rn_peers := m\<rparr>\<rparr>))
      in if \<not> public_server \<and> \<not> secure_mode H then do {
           r \<leftarrow> encrypt_with_nonce (h_crypto H) rnd (h_encryptor H) None msg;
           Some (case r of Inl e \<Rightarrow> (Inl OtherError, [], M) | Inr msg1 \<Rightarrow> send msg1)
         }
         else Some (send msg))"

definition close_untrusted_credential_peers :: "(bytes \<Rightarrow> bool) \<Rightarrow> peer_map \<Rightarrow> peer_map" where
  "close_untrusted_credential_peers trusted m0 =
     fold (\<lambda>i m. case st_get (map_peers m) i of
         None \<Rightarrow> m
       | Some p \<Rightarrow>
           if peer_identity_type p \<noteq> Some Credential then m
           else (case peer_public_key p of None \<Rightarrow> m | Some k \<Rightarrow> if trusted k then m else map_close_peer i m))
       (map fst (map_peers m0)) m0"

end
