(* ===== verification/Packet_Path.thy ===== *)
theory Packet_Path
  imports Peer_Manager Relay_Handshake
begin

text \<open>
  The way of a packet through several nodes: what a forwarding node changes, how often a packet can be forwarded, and
  that the packet a node takes from its network interface reaches the interface of the addressed node with its payload,
  through any number of relays.
\<close>

section \<open>What a sending step changes\<close>

text \<open>The header but for its flags.\<close>

definition same_but_flags :: "peer_manager_header \<Rightarrow> peer_manager_header \<Rightarrow> bool" where
  "same_but_flags h h' \<longleftrightarrow> (\<exists>f. h' = h\<lparr>flags := f\<rparr>)"

lemma same_but_flags_refl [simp]: "same_but_flags h h"
  unfolding same_but_flags_def by (rule exI [of _ "flags h"]) simp

lemma same_but_flags_trans: "same_but_flags a b \<Longrightarrow> same_but_flags b c \<Longrightarrow> same_but_flags a c"
  by (auto simp: same_but_flags_def)

lemma same_but_flags_set [simp]: "same_but_flags h (set_flag m on h)"
  by (auto simp: same_but_flags_def set_flag_def)

lemma same_but_flags_setters [simp]:
  "same_but_flags h (set_encrypted on h)" "same_but_flags h (set_compressed on h)" "same_but_flags h (set_latency_first on h)"
  "same_but_flags h (set_exit_node on h)" "same_but_flags h (set_no_proxy on h)" "same_but_flags h (set_not_send_to_tun on h)"
  by (simp_all add: set_encrypted_def set_compressed_def set_latency_first_def set_exit_node_def set_no_proxy_def set_not_send_to_tun_def)

definition keeps_header :: "zc_packet \<Rightarrow> zc_packet \<Rightarrow> bool" where
  "keeps_header p q \<longleftrightarrow> (\<forall>h. peer_manager_header_of p = Some h \<longrightarrow> (\<exists>h'. peer_manager_header_of q = Some h' \<and> same_but_flags h h'))"

lemma keeps_header_refl [simp]: "keeps_header p p"
  by (auto simp: keeps_header_def)

lemma keeps_header_trans: "keeps_header p q \<Longrightarrow> keeps_header q r \<Longrightarrow> keeps_header p r"
  unfolding keeps_header_def using same_but_flags_trans by blast

lemma header_in_place: "peer_manager_header_of p = Some h \<Longrightarrow> payload_offset p \<le> length (inner p)"
  by (auto simp: peer_manager_header_of_def header_at_def slice_from_def ref_from_prefix_def payload_offset_def payload_offset_pm
      split: if_splits bind_splits)

lemma packet_cases:
  assumes "peer_manager_header_of p = Some h"
  obtains pt pre body where "p = packet_of pt pre h body" "length pre = peer_manager_header_off (get_packet_offsets pt)"
proof (rule packet_of_cases [OF header_in_place [OF assms]])
  fix pt pre h0 body
  assume "p = packet_of pt pre h0 body" "length pre = peer_manager_header_off (get_packet_offsets pt)"
  with assms that show thesis by simp
qed

lemma encrypt_keeps_header:
  assumes "encrypt_with_nonce cr rnd c mn p = Some (Inr q)"
  shows "keeps_header p q"
  unfolding keeps_header_def
proof (intro allI impI)
  fix h assume h: "peer_manager_header_of p = Some h"
  then obtain pt pre body where pk: "p = packet_of pt pre h body" "length pre = peer_manager_header_off (get_packet_offsets pt)"
    by (rule packet_cases)
  show "\<exists>h'. peer_manager_header_of q = Some h' \<and> same_but_flags h h'"
  proof (cases c)
    case NullCipher
    with assms h show ?thesis by (auto simp: null_encrypt_def)
  next
    case (XorCipher key)
    with assms pk h show ?thesis by (auto simp: xor_encrypt_packet_of)
  next
    case (RingCipher alg key)
    show ?thesis
    proof (cases "is_encrypted h")
      case True
      with RingCipher assms h show ?thesis by (auto simp: ring_encrypt_with_nonce_def)
    next
      case False
      then obtain ct tl where "q = packet_of pt pre (set_encrypted True h) (ct @ tl)"
        using RingCipher assms pk by (auto simp: ring_encrypt_with_nonce_def packet_of_append split: option.splits if_splits bind_splits)
      with pk show ?thesis by auto
    qed
  qed
qed

lemma compress_keeps_header:
  assumes "compress z a p = Some (Inr q)"
  shows "keeps_header p q"
  unfolding keeps_header_def
proof (intro allI impI)
  fix h assume h: "peer_manager_header_of p = Some h"
  then obtain pt pre body where pk: "p = packet_of pt pre h body" "length pre = peer_manager_header_off (get_packet_offsets pt)"
    by (rule packet_cases)
  show "\<exists>h'. peer_manager_header_of q = Some h' \<and> same_but_flags h h'"
  proof (cases "is_compressed h \<or> a = AlgoNone")
    case True
    with assms h show ?thesis by (auto simp: compress_def split: if_splits)
  next
    case False
    with assms pk compress_packet_of [OF pk(2), of h a z body] h show ?thesis by (auto split: sum.splits if_splits)
  qed
qed

lemma try_compress_keeps_header:
  assumes "try_compress_and_encrypt H rnd p = Some (r, q)"
  shows "keeps_header p q"
  using assms compress_keeps_header encrypt_keeps_header keeps_header_trans
  by (fastforce simp: try_compress_and_encrypt_def split: bind_split_asm sum.splits if_splits)

lemma send_directly_packet: "send_msg_directly up msg hop m = (Inr out, m') \<Longrightarrow> out_packet out = msg"
  by (auto simp: send_msg_directly_def peer_send_msg_def split: if_splits option.splits prod.splits)

lemma client_send_packet: "client_send up msg i n = (Inr out, n') \<Longrightarrow> out_packet out = msg"
  by (auto simp: client_send_def fclient_send_msg_def send_directly_packet split: option.splits prod.splits)

lemma relay_send_packet:
  assumes "relay_send_msg cr up now cfg msg dst policy n = Some (r, Some out, task, n')"
  shows "keeps_header msg (out_packet out)" and "\<not> rc_secure_mode cfg \<Longrightarrow> out_packet out = msg"
proof -
  have via: "out_packet x = pkt" if "send_via_next_hop up pkt dst policy k = (Inr x, k')" for x pkt k k'
    using send_via_next_hop_frame(3) [OF that] by simp
  have enc: "keeps_header msg q" if "encrypt_with cr now cfg a dst msg k = Some (Inr q, k')" for a k q k'
    using that by (auto simp: encrypt_with_def peer_session_encrypt_def session_encrypt_payload_def split_beta Let_def
        dest: encrypt_keeps_header split: bind_split_asm if_splits prod.splits sum.splits)
  show "\<not> rc_secure_mode cfg \<Longrightarrow> out_packet out = msg"
    using assms via by (auto simp: relay_send_msg_def Let_def split: prod.splits sum.splits)
  show "keeps_header msg (out_packet out)"
    using assms via enc by (fastforce simp: relay_send_msg_def Let_def split: if_splits prod.splits sum.splits option.splits)
qed

lemma mg_send_packet:
  assumes "mg_send H now msg dst M = Some (r, effs, M')" "Sent out \<in> set effs"
  shows "keeps_header msg (out_packet out)" and "\<not> secure_mode H \<Longrightarrow> out_packet out = msg"
proof -
  obtain n where n: "send_msg_internal H now msg dst (mg_node M) = Some (r, effs, n)"
    using assms(1) by (auto simp: mg_send_def)
  have plain: "out_packet out = msg" if "sent_result x = (r, effs, n)" "\<And>o' n'. x = (Inr o', n') \<Longrightarrow> out_packet o' = msg" for x
    using that assms(2) by (auto simp: sent_result_def split: prod.splits sum.splits)
  obtain hdr where hdr: "peer_manager_header_of msg = Some hdr"
    using n by (auto simp: send_msg_internal_def split: bind_split_asm)
  note send = n [unfolded send_msg_internal_def hdr bind.bind_lunit Let_def]
  have "out_packet out = msg \<or> (\<exists>policy task n'. relay_send_msg (h_crypto H) (h_up H) now (h_relay H) msg dst policy (mg_node M) = Some (r, Some out, task, n'))"
  proof (cases "has_peer dst (rn_peers (mg_node M)) \<or> client_has_next_hop dst (mg_node M)")
    case True
    have "out_packet o' = msg"
      if "(case send_msg_directly (h_up H) msg dst (rn_peers (mg_node M)) of (r, m) \<Rightarrow> (r, (mg_node M)\<lparr>rn_peers := m\<rparr>)) = (Inr o', n')" for o' n'
      using that send_directly_packet by (auto split: prod.splits)
    with True send plain client_send_packet show ?thesis by (auto split: if_splits)
  next
    case False
    then obtain policy task n' out' where "relay_send_msg (h_crypto H) (h_up H) now (h_relay H) msg dst policy (mg_node M) = Some (r, out', task, n')"
        "effs = (case out' of None \<Rightarrow> [] | Some x \<Rightarrow> [Sent x]) @ (case task of None \<Rightarrow> [] | Some l \<Rightarrow> [Start_Handshake dst l])"
      using send assms(2) by (auto split: if_splits option.splits)
    with assms(2) show ?thesis by (auto split: option.splits)
  qed
  then show "keeps_header msg (out_packet out)" "\<not> secure_mode H \<Longrightarrow> out_packet out = msg"
    using relay_send_packet by fastforce+
qed

lemma forward_header_same: "same_but_flags (h\<lparr>forward_counter := forward_counter h + 1\<rparr>) (forward_header h)"
  unfolding same_but_flags_def
  by (rule exI [of _ "flags (forward_header h)"]) (cases h, simp add: forward_header_def Let_def set_latency_first_def set_flag_def)

text \<open>
  Packets that wait at a node for a session with their destination, and that the sending of a message appends its packet
  to them or leaves them.
\<close>

definition waiting :: "peer_id \<Rightarrow> relay_node \<Rightarrow> (zc_packet \<times> next_hop_policy) list" where
  "waiting dst n = (case st_get (pending_packets (rn_relay n)) dst of None \<Rightarrow> [] | Some q \<Rightarrow> q)"

lemma waiting_frame: "pending_packets (rn_relay n') = pending_packets (rn_relay n) \<Longrightarrow> waiting dst n' = waiting dst n"
  by (simp add: waiting_def)

lemma relay_send_waiting:
  assumes "relay_send_msg cr up now cfg msg dst policy n = Some (r, out, task, n')"
  shows "waiting dst n' = waiting dst n \<or> rc_secure_mode cfg \<and> waiting dst n' = waiting dst n @ [(msg, policy)]"
proof -
  define n0 where "n0 = n\<lparr>rn_relay := touch_state now dst (rn_relay n)\<rparr>"
  have 0: "waiting dst n0 = waiting dst n" by (rule waiting_frame) (simp add: n0_def touch_state_def)
  have via: "waiting dst k' = waiting dst k" if "send_via_next_hop up pkt dst policy k = (x, k')" for pkt k x k'
    using send_via_next_hop_frame(2) [OF that] by (intro waiting_frame) simp
  have ens: "waiting dst k' = waiting dst k" if "ensure_session cfg dst k = (x, k')" for k x k'
    using that by (intro waiting_frame) (auto simp: ensure_session_def get_handshake_lock_def split: prod.splits option.splits if_splits)
  have enc: "waiting dst k' = waiting dst k" if "encrypt_with cr now cfg a dst msg k = Some (x, k')" for a k x k'
    using that by (intro waiting_frame) (auto simp: encrypt_with_def split: bind_split_asm)
  have buf: "waiting dst (k\<lparr>rn_relay := buffer_pending_packet dst msg policy (rn_relay k)\<rparr>) \<in> {waiting dst k, waiting dst k @ [(msg, policy)]}" for k
    by (auto simp: waiting_def buffer_pending_packet_def Let_def store_simps split: option.splits)
  note eq = assms [unfolded relay_send_msg_def Let_def n0_def [symmetric]]
  show ?thesis
  proof (cases "rc_secure_mode cfg")
    case False
    with eq 0 via show ?thesis by (fastforce split: prod.splits sum.splits)
  next
    case True
    obtain x n1 where x: "ensure_session cfg dst n0 = (x, n1)" by fastforce
    note 1 = ens [OF x]
    show ?thesis
    proof (cases x)
      case (Inl tk)
      with eq True x buf [of n1] 0 1 show ?thesis by auto
    next
      case (Inr a)
      obtain y n2 where y: "encrypt_with cr now cfg a dst msg n1 = Some (y, n2)"
        using eq True x Inr by (auto split: option.splits)
      have "waiting dst n' = waiting dst n2"
        using eq True x Inr y via by (fastforce split: sum.splits prod.splits)
      with enc [OF y] 0 1 show ?thesis by simp
    qed
  qed
qed

lemma mg_send_waiting:
  assumes "mg_send H now msg dst M = Some (r, effs, M')" and "waiting dst (mg_node M') = waiting dst (mg_node M) @ [x]"
  shows "secure_mode H" and "fst x = msg"
proof -
  obtain n where n: "send_msg_internal H now msg dst (mg_node M) = Some (r, effs, n)" "mg_node M' = n"
    using assms(1) by (auto simp: mg_send_def)
  have cl: "waiting dst (snd (client_send (h_up H) msg dst (mg_node M))) = waiting dst (mg_node M)"
    by (intro waiting_frame) (auto simp: client_send_def split: option.splits prod.splits)
  have sr: "y = (r', e', n') \<Longrightarrow> n' = snd x'" if "y = sent_result x'" for y x' r' e' n'
    using that by (auto simp: sent_result_def split: prod.splits sum.splits)
  obtain hdr where hdr: "peer_manager_header_of msg = Some hdr"
    using n(1) by (auto simp: send_msg_internal_def split: bind_split_asm)
  note eq = n(1) [unfolded send_msg_internal_def hdr bind.bind_lunit Let_def]
  have "waiting dst n = waiting dst (mg_node M) \<or>
      (\<exists>policy out task. relay_send_msg (h_crypto H) (h_up H) now (h_relay H) msg dst policy (mg_node M) = Some (r, out, task, n))"
  proof (cases "has_peer dst (rn_peers (mg_node M)) \<or> client_has_next_hop dst (mg_node M)")
    case True
    have "waiting dst (snd (case send_msg_directly (h_up H) msg dst (rn_peers (mg_node M)) of (r, m) \<Rightarrow> (r, (mg_node M)\<lparr>rn_peers := m\<rparr>)))
        = waiting dst (mg_node M)"
      by (intro waiting_frame) (simp split: prod.splits)
    moreover have "n = snd (case send_msg_directly (h_up H) msg dst (rn_peers (mg_node M)) of (r, m) \<Rightarrow> (r, (mg_node M)\<lparr>rn_peers := m\<rparr>))
        \<or> n = snd (client_send (h_up H) msg dst (mg_node M))"
      using eq True sr [OF refl] by (cases "has_peer dst (rn_peers (mg_node M))") auto
    ultimately show ?thesis using cl by metis
  next
    case False
    then show ?thesis using eq by (auto split: option.splits if_splits)
  qed
  with assms(2) n(2) obtain policy out task where
      "relay_send_msg (h_crypto H) (h_up H) now (h_relay H) msg dst policy (mg_node M) = Some (r, out, task, n)" by auto
  from relay_send_waiting [OF this] assms(2) n(2) show "secure_mode H" "fst x = msg" by auto
qed

text \<open>
  A packet of a foreign network that the node itself takes care of, instead of forwarding it as it is: it serves the
  network and hands the content over, or has sent the packet for the network and puts in the real destination.
\<close>

definition takes_over :: "host \<Rightarrow> zc_packet \<Rightarrow> manager \<Rightarrow> bool" where
  "takes_over H p M \<longleftrightarrow> (case try_handle_foreign_network_packet H p M of Some (None, _) \<Rightarrow> True | _ \<Rightarrow> False)"

lemma takes_over_foreign: "takes_over H p M \<Longrightarrow> peer_manager_header_of p = Some h \<Longrightarrow> packet_type h = packet_kind_u8 ForeignNetworkPacket"
  by (auto simp: takes_over_def try_handle_foreign_network_packet_def split: if_splits)

lemma not_taken_forwards:
  assumes "peer_recv H ck rnd noise pipe p M = Some (effs, M')" and "\<not> takes_over H p M"
    and "peer_manager_header_of p = Some h" "to_peer_id h \<noteq> my_id H"
  shows "forward_packet H ck rnd p M = Some (effs, M')"
proof -
  obtain left effs0 M0 where fn: "try_handle_foreign_network_packet H p M = Some (left, effs0, M0)"
    using assms(1) by (auto simp: peer_recv_def split: bind_split_asm)
  then have "left \<noteq> None" using assms(2) by (cases left) (auto simp: takes_over_def)
  then have "left = Some p" "effs0 = []" "M0 = M"
    using fn by (auto simp: try_handle_foreign_network_packet_def split: bind_split_asm if_splits option.splits prod.splits sum.splits)
  with assms fn show ?thesis by (auto simp: peer_recv_def split: bind_split_asm)
qed

lemma taken_over_header:
  assumes "peer_recv H ck rnd noise pipe p M = Some (effs, M')" and "takes_over H p M"
    and "peer_manager_header_of p = Some h" "to_peer_id h \<noteq> my_id H" and "Sent out \<in> set effs"
  shows "\<exists>i. peer_manager_header_of (out_packet out) = Some (h\<lparr>to_peer_id := i\<rparr>)"
proof -
  have fn: "try_handle_foreign_network_packet H p M = Some (None, effs, M')"
    using assms(1,2) by (auto simp: peer_recv_def takes_over_def split: bind_split_asm option.splits prod.splits)
  then obtain i msg r m where msg: "mut_peer_manager_header (\<lambda>hdr. hdr\<lparr>to_peer_id := i\<rparr>) p = Some msg"
      "map_send_msg (h_up H) msg i LeastHop (rn_peers (mg_node M)) = (Inr out, m)"
    using assms(3-5) by (auto simp: try_handle_foreign_network_packet_def split: bind_split_asm if_splits option.splits prod.splits sum.splits)
  obtain pt pre body where pk: "p = packet_of pt pre h body" "length pre = peer_manager_header_off (get_packet_offsets pt)"
    using assms(3) by (rule packet_cases)
  have "out_packet out = msg"
    using msg(2) send_directly_packet by (auto simp: map_send_msg_def split: option.splits)
  with msg(1) pk show ?thesis by auto
qed

text \<open>
  A node that sends a received packet on has counted it, now or later when there is a session, and only a packet
  forwarded at most seven times before is sent.
\<close>

lemma forward_parts:
  assumes "forward_packet H ck rnd p M = Some (effs, M')" and "peer_manager_header_of p = Some h"
    and "effs \<noteq> [] \<or> M' \<noteq> M"
  obtains p1 p2 r where "forward_counter h \<le> 7" "mut_peer_manager_header forward_header p = Some p1"
    "mg_send H (ck_ms ck) p2 (to_peer_id h) M = Some (r, effs, M')" "from_peer_id h \<noteq> my_id H \<Longrightarrow> p2 = p1"
    "\<exists>h'. peer_manager_header_of p2 = Some h' \<and> same_but_flags (h\<lparr>forward_counter := forward_counter h + 1\<rparr>) h'"
proof -
  obtain pt pre body where pk: "p = packet_of pt pre h body" "length pre = peer_manager_header_off (get_packet_offsets pt)"
    using assms(2) by (rule packet_cases)
  define p1 where "p1 = packet_of pt pre (forward_header h) body"
  have p1: "mut_peer_manager_header forward_header p = Some p1" by (simp add: p1_def pk)
  have 7: "forward_counter h \<le> 7"
    using assms by (auto simp: forward_packet_def not_less split: bind_split_asm if_splits)
  obtain p2 r where p2: "(if from_peer_id h = my_id H \<and> packet_type h \<in> {packet_kind_u8 Data, packet_kind_u8 KcpSrc, packet_kind_u8 KcpDst}
         then map_option snd (try_compress_and_encrypt H rnd p1) else Some p1) = Some p2"
      and snt: "mg_send H (ck_ms ck) p2 (to_peer_id h) M = Some (r, effs, M')"
    using assms p1 by (auto simp: forward_packet_def split: bind_split_asm if_split_asm)
  have "keeps_header p1 p2"
    using p2 try_compress_keeps_header by (auto split: if_splits)
  then have "\<exists>h'. peer_manager_header_of p2 = Some h' \<and> same_but_flags (h\<lparr>forward_counter := forward_counter h + 1\<rparr>) h'"
    using same_but_flags_trans [OF forward_header_same [of h]] pk(2) by (auto simp: keeps_header_def p1_def)
  moreover have "p2 = p1" if "from_peer_id h \<noteq> my_id H" using p2 that by simp
  ultimately show thesis using that [OF 7 p1 snt] by blast
qed

lemma forwarded:
  assumes "peer_recv H ck rnd noise pipe p M = Some (effs, M')" and "peer_manager_header_of p = Some h"
    and "\<not> takes_over H p M" "to_peer_id h \<noteq> my_id H" and "Sent out \<in> set effs"
  shows "forward_counter h \<le> 7"
    and "\<exists>h'. peer_manager_header_of (out_packet out) = Some h' \<and> same_but_flags (h\<lparr>forward_counter := forward_counter h + 1\<rparr>) h'"
    and "\<not> secure_mode H \<Longrightarrow> from_peer_id h \<noteq> my_id H \<Longrightarrow> mut_peer_manager_header forward_header p = Some (out_packet out)"
proof -
  have "effs \<noteq> [] \<or> M' \<noteq> M" using assms(5) by auto
  then obtain p1 p2 r where f: "forward_counter h \<le> 7" "mut_peer_manager_header forward_header p = Some p1"
      "mg_send H (ck_ms ck) p2 (to_peer_id h) M = Some (r, effs, M')" "from_peer_id h \<noteq> my_id H \<Longrightarrow> p2 = p1"
      "\<exists>h'. peer_manager_header_of p2 = Some h' \<and> same_but_flags (h\<lparr>forward_counter := forward_counter h + 1\<rparr>) h'"
    by (rule forward_parts [OF not_taken_forwards [OF assms(1,3,2,4)] assms(2)]) auto
  then show "forward_counter h \<le> 7" by simp
  note sent = mg_send_packet [OF f(3) assms(5)]
  show "\<exists>h'. peer_manager_header_of (out_packet out) = Some h' \<and> same_but_flags (h\<lparr>forward_counter := forward_counter h + 1\<rparr>) h'"
    using f(5) sent(1) same_but_flags_trans by (fastforce simp: keeps_header_def)
  show "mut_peer_manager_header forward_header p = Some (out_packet out)" if "\<not> secure_mode H" "from_peer_id h \<noteq> my_id H"
    using f(2,4) sent(2) that by simp
qed

lemma forwarded_later:
  assumes "peer_recv H ck rnd noise pipe p M = Some (effs, M')" and "peer_manager_header_of p = Some h"
    and "\<not> takes_over H p M" "to_peer_id h \<noteq> my_id H"
    and "waiting (to_peer_id h) (mg_node M') = waiting (to_peer_id h) (mg_node M) @ [x]"
    and "flush_loop_relay cr up now cfg dst a [x] n = Some ([out], n')"
  shows "secure_mode H" and "forward_counter h \<le> 7"
    and "\<exists>h'. peer_manager_header_of (out_packet out) = Some h' \<and> same_but_flags (h\<lparr>forward_counter := forward_counter h + 1\<rparr>) h'"
proof -
  have "effs \<noteq> [] \<or> M' \<noteq> M" using assms(5) by auto
  then obtain p1 p2 r where f: "forward_counter h \<le> 7" "mg_send H (ck_ms ck) p2 (to_peer_id h) M = Some (r, effs, M')"
      "\<exists>h'. peer_manager_header_of p2 = Some h' \<and> same_but_flags (h\<lparr>forward_counter := forward_counter h + 1\<rparr>) h'"
    by (rule forward_parts [OF not_taken_forwards [OF assms(1,3,2,4)] assms(2)]) auto
  then show "forward_counter h \<le> 7" by simp
  note w = mg_send_waiting [OF f(2) assms(5)]
  then show "secure_mode H" by simp
  obtain pol where x: "x = (p2, pol)" using w(2) by (cases x) simp
  obtain q n1 where q: "encrypt_with cr now cfg a dst p2 n = Some (Inr q, n1)" "send_via_next_hop up q dst pol n1 = (Inr out, n')"
    using assms(6) unfolding x by (auto split: option.splits sum.splits prod.splits)
  have "out_packet out = q" using send_via_next_hop_frame(3) [OF q(2)] by simp
  moreover have "keeps_header p2 q"
    using q(1) by (auto simp: encrypt_with_def peer_session_encrypt_def session_encrypt_payload_def split_beta Let_def
        dest: encrypt_keeps_header split: bind_split_asm if_splits prod.splits sum.splits)
  ultimately show "\<exists>h'. peer_manager_header_of (out_packet out) = Some h' \<and> same_but_flags (h\<lparr>forward_counter := forward_counter h + 1\<rparr>) h'"
    using f(3) same_but_flags_trans by (fastforce simp: keeps_header_def)
qed

section \<open>Travelling packets\<close>

text \<open>A tunnel hands over header and payload; the bytes before the header may differ.\<close>

definition carried :: "zc_packet \<Rightarrow> zc_packet \<Rightarrow> bool" where
  "carried p q \<longleftrightarrow> (\<exists>h. peer_manager_header_of p = Some h \<and> peer_manager_header_of q = Some h) \<and> payload q = payload p"

text \<open>
  \<open>travels P n p q\<close>: the packet \<open>p\<close> arrives as \<open>q\<close> after nodes of the kind \<open>P\<close> have received it and sent it on, \<open>n\<close> times
  by forwarding it: at once, or after it has waited for a session and was encrypted with it; all states of the nodes are
  arbitrary.  A node that has sent a packet for a network it serves puts in the real destination, which is not a
  forwarding.
\<close>

inductive travels :: "(host \<Rightarrow> bool) \<Rightarrow> nat \<Rightarrow> zc_packet \<Rightarrow> zc_packet \<Rightarrow> bool" for P where
  direct: "carried p q \<Longrightarrow> travels P 0 p q"
| relayed: "travels P n p q \<Longrightarrow> P H \<Longrightarrow> peer_manager_header_of q = Some h \<Longrightarrow> to_peer_id h \<noteq> my_id H \<Longrightarrow>
    peer_recv H ck rnd noise pipe q M = Some (effs, M') \<Longrightarrow> \<not> takes_over H q M \<Longrightarrow> Sent out \<in> set effs \<Longrightarrow> carried (out_packet out) r \<Longrightarrow>
    travels P (Suc n) p r"
| delayed: "travels P n p q \<Longrightarrow> P H \<Longrightarrow> peer_manager_header_of q = Some h \<Longrightarrow> to_peer_id h \<noteq> my_id H \<Longrightarrow>
    peer_recv H ck rnd noise pipe q M = Some (effs, M') \<Longrightarrow> \<not> takes_over H q M \<Longrightarrow>
    waiting (to_peer_id h) (mg_node M') = waiting (to_peer_id h) (mg_node M) @ [x] \<Longrightarrow>
    flush_loop_relay (h_crypto H) up now (h_relay H) (to_peer_id h) a [x] N = Some ([out], N') \<Longrightarrow> carried (out_packet out) r \<Longrightarrow>
    travels P (Suc n) p r"
| readdressed: "travels P n p q \<Longrightarrow> P H \<Longrightarrow> peer_manager_header_of q = Some h \<Longrightarrow> to_peer_id h \<noteq> my_id H \<Longrightarrow>
    peer_recv H ck rnd noise pipe q M = Some (effs, M') \<Longrightarrow> takes_over H q M \<Longrightarrow> Sent out \<in> set effs \<Longrightarrow> carried (out_packet out) r \<Longrightarrow>
    travels P n p r"

text \<open>What a packet that came from \<open>p\<close> with the header \<open>h\<close> looks like after \<open>n\<close> forwardings.\<close>

definition counted :: "peer_manager_header \<Rightarrow> nat \<Rightarrow> zc_packet \<Rightarrow> bool" where
  "counted h n q \<longleftrightarrow> (\<exists>c f t. peer_manager_header_of q = Some (h\<lparr>forward_counter := c, flags := f, to_peer_id := t\<rparr>)
     \<and> unat c = unat (forward_counter h) + n \<and> (n = 0 \<or> unat (forward_counter h) + n \<le> 8)
     \<and> (packet_type h \<noteq> packet_kind_u8 ForeignNetworkPacket \<longrightarrow> t = to_peer_id h))"

lemma counted_Suc:
  assumes "counted h n q" "peer_manager_header_of q = Some h1" "forward_counter h1 \<le> 7"
    and "\<exists>h'. peer_manager_header_of p = Some h' \<and> same_but_flags (h1\<lparr>forward_counter := forward_counter h1 + 1\<rparr>) h'" "carried p r"
  shows "counted h (Suc n) r"
proof -
  obtain c f t where q: "h1 = h\<lparr>forward_counter := c, flags := f, to_peer_id := t\<rparr>" and c: "unat c = unat (forward_counter h) + n"
      "packet_type h \<noteq> packet_kind_u8 ForeignNetworkPacket \<longrightarrow> t = to_peer_id h"
    using assms(1,2) by (auto simp: counted_def)
  have 7: "c \<le> 7" using assms(3) q by simp
  obtain h' where h': "peer_manager_header_of r = Some h'" "same_but_flags (h1\<lparr>forward_counter := forward_counter h1 + 1\<rparr>) h'"
    using assms(4,5) by (auto simp: carried_def)
  have "unat (c + 1) = unat c + 1"
    using 7 by (simp add: unat_word_ariths(1) word_le_nat_alt)
  moreover obtain fa where "h' = h\<lparr>forward_counter := c + 1, flags := fa, to_peer_id := t\<rparr>"
    using h'(2) q by (cases h) (auto simp: same_but_flags_def)
  ultimately show ?thesis
    unfolding counted_def
    using 7 c h'(1) by (intro exI [of _ "c + 1"] exI [of _ fa] exI [of _ t]) (simp add: word_le_nat_alt)
qed

lemma counted_readdressed:
  assumes "counted h n q" "peer_manager_header_of q = Some h1" "packet_type h1 = packet_kind_u8 ForeignNetworkPacket"
    and "peer_manager_header_of p = Some (h1\<lparr>to_peer_id := i\<rparr>)" "carried p r"
  shows "counted h n r"
proof -
  obtain c f t where q: "h1 = h\<lparr>forward_counter := c, flags := f, to_peer_id := t\<rparr>" and c: "unat c = unat (forward_counter h) + n"
      "n = 0 \<or> unat (forward_counter h) + n \<le> 8"
    using assms(1,2) by (auto simp: counted_def)
  then have "peer_manager_header_of r = Some (h\<lparr>forward_counter := c, flags := f, to_peer_id := i\<rparr>)"
      "packet_type h = packet_kind_u8 ForeignNetworkPacket"
    using assms(3-5) by (auto simp: carried_def)
  with c show ?thesis unfolding counted_def by blast
qed

lemma travels_counted:
  assumes "travels P n p q" and "peer_manager_header_of p = Some h"
  shows "counted h n q"
  using assms
proof induction
  case (direct p q)
  then have "peer_manager_header_of q = Some (h\<lparr>forward_counter := forward_counter h, flags := flags h, to_peer_id := to_peer_id h\<rparr>)"
    by (auto simp: carried_def)
  then show ?case unfolding counted_def by fastforce
next
  case (relayed n p q H h1 ck rnd noise pipe M effs M' out r)
  note fw = forwarded [OF relayed.hyps(5,3,6,4,7)]
  show ?case by (rule counted_Suc [OF relayed.IH [OF relayed.prems] relayed.hyps(3) fw(1,2) relayed.hyps(8)])
next
  case (delayed n p q H h1 ck rnd noise pipe M effs M' x up now a N out N' r)
  note fw = forwarded_later [OF delayed.hyps(5,3,6,4,7,8)]
  show ?case by (rule counted_Suc [OF delayed.IH [OF delayed.prems] delayed.hyps(3) fw(2,3) delayed.hyps(9)])
next
  case (readdressed n p q H h1 ck rnd noise pipe M effs M' out r)
  obtain i where i: "peer_manager_header_of (out_packet out) = Some (h1\<lparr>to_peer_id := i\<rparr>)"
    using taken_over_header [OF readdressed.hyps(5,6,3,4,7)] by blast
  show ?case
    by (rule counted_readdressed [OF readdressed.IH [OF readdressed.prems] readdressed.hyps(3)
        takes_over_foreign [OF readdressed.hyps(6,3)] i readdressed.hyps(8)])
qed

text \<open>
  C10: no packet is forwarded for ever.  Whatever the nodes on its way believe about the network, which gateway each of
  them picks and whether they encrypt the packet, now or after it has waited for a session: a packet is forwarded at most
  eight times less its counter at the start, each time with the counter one higher, and its sender, its kind and its
  length stay as they were, and so does its destination unless it is a packet for a foreign network.  For such a packet a
  node that sent it for a network it serves replaces the destination and sends it without counting; these sendings are
  not bounded here.
\<close>

theorem forwarding_bounded:
  assumes "travels P n p q" and "peer_manager_header_of p = Some h"
  shows "\<exists>c f t. peer_manager_header_of q = Some (h\<lparr>forward_counter := c, flags := f, to_peer_id := t\<rparr>)
    \<and> unat c = unat (forward_counter h) + n \<and> (n = 0 \<or> unat (forward_counter h) + n \<le> 8)
    \<and> (packet_type h \<noteq> packet_kind_u8 ForeignNetworkPacket \<longrightarrow> t = to_peer_id h)"
  using travels_counted [OF assms] unfolding counted_def .

section \<open>Decoding what was encoded\<close>

lemma flag_reads:
  "is_encrypted (set_latency_first on h) = is_encrypted h" "is_encrypted (set_exit_node on h) = is_encrypted h"
  "is_encrypted (set_compressed on h) = is_encrypted h" "is_encrypted (set_encrypted on h) = on"
  "is_compressed (set_latency_first on h) = is_compressed h" "is_compressed (set_exit_node on h) = is_compressed h"
  "is_compressed (set_encrypted on h) = is_compressed h" "is_not_send_to_tun (set_latency_first on h) = is_not_send_to_tun h"
  "is_not_send_to_tun (set_exit_node on h) = is_not_send_to_tun h" "is_not_send_to_tun (set_compressed on h) = is_not_send_to_tun h"
  "is_not_send_to_tun (set_encrypted on h) = is_not_send_to_tun h"
  by (simp_all add: is_encrypted_def is_compressed_def is_not_send_to_tun_def set_encrypted_def set_compressed_def
      set_latency_first_def set_exit_node_def flag_set_get [THEN conjunct1] header_flags_def)
    (simp_all add: flag_defs)

lemma set_flag_off: "f \<in> set header_flags \<Longrightarrow> \<not> has_flag f h \<Longrightarrow> set_flag f False h = h"
proof -
  assume "f \<in> set header_flags" "\<not> has_flag f h"
  then obtain i where i: "i < 8" "f = 2 ^ i" "\<not> bit (flags h) i"
    using header_flags_bits [of f] has_flag_bit by blast
  then have "flags h AND NOT f = flags h"
    by (intro bit_word_eqI) (auto simp: bit_and_iff bit_not_iff bit_u8_exp)
  then show "set_flag f False h = h" by (simp add: set_flag_def)
qed

lemma clear_flags:
  "\<not> is_encrypted h \<Longrightarrow> set_encrypted False h = h" "\<not> is_compressed h \<Longrightarrow> set_compressed False h = h"
  by (simp_all add: is_encrypted_def set_encrypted_def is_compressed_def set_compressed_def set_flag_off header_flags_def)

abbreviation well_placed :: "zc_packet_type \<Rightarrow> bytes \<Rightarrow> bool" where
  "well_placed pt pre \<equiv> length pre = peer_manager_header_off (get_packet_offsets pt)"

text \<open>What encryption makes of a payload is opened whatever has become of the rest of the header.\<close>

lemma encrypt_opens:
  assumes "crypto_correct cr" "length rnd = 12" "well_placed pt pre" "\<not> is_encrypted h"
    and "encrypt_with_nonce cr rnd c None (packet_of pt pre h body) = Some (Inr q)"
  obtains e wire where "q = packet_of pt pre (set_encrypted e h) wire"
    and "\<And>pt' pre' h'. well_placed pt' pre' \<Longrightarrow> is_encrypted h' = e \<Longrightarrow>
      encryptor_decrypt cr c (packet_of pt' pre' h' wire) = Some (Inr (packet_of pt' pre' (set_encrypted False h') body))"
proof (cases c)
  case NullCipher
  then show thesis
    using assms by (intro that [of False body]) (auto simp: null_encrypt_def null_decrypt_def clear_flags)
next
  case (XorCipher key)
  then show thesis
    using assms by (intro that [of True "xor_data key body"]) (auto simp: xor_encrypt_packet_of xor_decrypt_def)
next
  case (RingCipher alg key)
  with assms(5) have r: "ring_encrypt_with_nonce cr rnd alg key None (packet_of pt pre h body) = Some (Inr q)" by simp
  have n: "(None :: bytes option) = None \<longrightarrow> length rnd = 12" using assms(2) by simp
  show thesis
  proof (rule ring_encrypt_cases [OF assms(3,1) n r])
    fix ct tg
    assume s: "aead_seal cr alg key (used_nonce rnd None) body = Some (ct, tg)" "length (used_nonce rnd None) = 12"
      "length ct = length body" "length tg = 16" "aead_open cr alg key (used_nonce rnd None) (ct @ tg) = Some body"
      "q = packet_of pt pre (set_encrypted True h) (ct @ tg @ used_nonce rnd None)"
    show thesis
      by (rule that [of True "ct @ tg @ used_nonce rnd None"]) (use s RingCipher in \<open>auto intro: ring_decrypt_packet_of\<close>)
  qed (use assms in auto)
qed

lemma compress_opens:
  assumes "zstd_correct z" "well_placed pt pre" "\<not> is_compressed h" "unat (pm_len h) = length body" "length body \<le> 64 * 1024"
    and "compress z a (packet_of pt pre h body) = Some (Inr q)"
  obtains k mid where "q = packet_of pt pre (set_compressed k h) mid"
    and "\<And>pt' pre' h'. well_placed pt' pre' \<Longrightarrow> is_compressed h' = k \<Longrightarrow> pm_len h' = pm_len h \<Longrightarrow>
      decompress z (packet_of pt' pre' h' mid) = Some (Inr (packet_of pt' pre' (set_compressed False h') body))"
proof (cases "q = packet_of pt pre h body")
  case True
  then show thesis
    using assms(2,3) by (intro that [of False body]) (auto simp: decompress_def clear_flags)
next
  case False
  then have a: "a = ZstdDefault" using assms(6) by (cases a) (auto simp: compress_def)
  then obtain buf where buf: "compress_raw z body ZstdDefault = Inr buf"
      "q = packet_of pt pre (set_compressed True h) (buf @ [compressor_algo_u8 ZstdDefault])"
    using assms(6) False compress_packet_of [OF assms(2,3), of a z body] by (auto split: sum.splits if_splits)
  have "decompress_raw z buf ZstdDefault = Inr body"
    using raw_roundtrip [OF assms(1) buf(1)] assms(5) by (simp add: decompress_limit_def)
  then show thesis
    using buf(2) assms(4) by (intro that [of True "buf @ [compressor_algo_u8 ZstdDefault]"]) (auto simp: decompress_packet_of simp del: compressor_algo_u8.simps)
qed

text \<open>The two stages together: \<open>opened\<close> says that decryption and decompression of a payload give another, under the flags and the length of a header.\<close>

definition opened :: "crypto \<Rightarrow> cipher \<Rightarrow> zstd \<Rightarrow> bool \<Rightarrow> bool \<Rightarrow> u32 \<Rightarrow> bytes \<Rightarrow> bytes \<Rightarrow> bool" where
  "opened cr c z e k len wire body \<longleftrightarrow> (\<forall>pt pre h. well_placed pt pre \<longrightarrow> is_encrypted h = e \<longrightarrow> is_compressed h = k \<longrightarrow> pm_len h = len \<longrightarrow>
     (\<exists>mid. encryptor_decrypt cr c (packet_of pt pre h wire) = Some (Inr (packet_of pt pre (set_encrypted False h) mid))
       \<and> decompress z (packet_of pt pre (set_encrypted False h) mid)
           = Some (Inr (packet_of pt pre (set_compressed False (set_encrypted False h)) body))))"

lemma pm_len_setters: "pm_len (set_encrypted on h) = pm_len h" "pm_len (set_compressed on h) = pm_len h"
  by (simp_all add: set_encrypted_def set_compressed_def set_flag_def)

lemma encoded_opens:
  assumes "crypto_correct (h_crypto H)" "zstd_correct (h_zstd H)" "length rnd = 12" "\<not> secure_mode H" "well_placed pt pre"
    and "\<not> is_encrypted h" "\<not> is_compressed h" "unat (pm_len h) = length body" "length body \<le> 64 * 1024"
    and "try_compress_and_encrypt H rnd (packet_of pt pre h body) = Some (Inr u, q)"
  obtains e k wire where "q = packet_of pt pre (set_encrypted e (set_compressed k h)) wire"
    and "opened (h_crypto H) (h_encryptor H) (h_zstd H) e k (pm_len h) wire body"
proof -
  obtain q1 where c: "compress (h_zstd H) (h_compress H) (packet_of pt pre h body) = Some (Inr q1)"
      and e: "encrypt_with_nonce (h_crypto H) rnd (h_encryptor H) None q1 = Some (Inr q)"
    using assms(4,10) by (auto simp: try_compress_and_encrypt_def split: bind_split_asm sum.splits)
  obtain k mid where m: "q1 = packet_of pt pre (set_compressed k h) mid"
      "\<And>pt' pre' h'. well_placed pt' pre' \<Longrightarrow> is_compressed h' = k \<Longrightarrow> pm_len h' = pm_len h \<Longrightarrow>
        decompress (h_zstd H) (packet_of pt' pre' h' mid) = Some (Inr (packet_of pt' pre' (set_compressed False h') body))"
    by (rule compress_opens [OF assms(2,5,7-9) c]) (rule that, assumption, blast)
  have ne: "\<not> is_encrypted (set_compressed k h)" using assms(6) by (simp add: flag_reads)
  obtain en wire where w: "q = packet_of pt pre (set_encrypted en (set_compressed k h)) wire"
      "\<And>pt' pre' h'. well_placed pt' pre' \<Longrightarrow> is_encrypted h' = en \<Longrightarrow>
        encryptor_decrypt (h_crypto H) (h_encryptor H) (packet_of pt' pre' h' wire) = Some (Inr (packet_of pt' pre' (set_encrypted False h') mid))"
    by (rule encrypt_opens [OF assms(1,3,5) ne e [unfolded m(1)]]) (rule that, assumption, blast)
  have "opened (h_crypto H) (h_encryptor H) (h_zstd H) en k (pm_len h) wire body"
    unfolding opened_def by (intro allI impI exI [of _ mid]) (simp add: m(2) w(2) flag_reads pm_len_setters)
  with w(1) show thesis by (rule that)
qed

section \<open>Relays that hold no session\<close>

text \<open>What the receiver reads of a header.\<close>

definition read_alike :: "peer_manager_header \<Rightarrow> peer_manager_header \<Rightarrow> bool" where
  "read_alike h h' \<longleftrightarrow> from_peer_id h' = from_peer_id h \<and> to_peer_id h' = to_peer_id h \<and> packet_type h' = packet_type h \<and> pm_len h' = pm_len h
     \<and> is_encrypted h' = is_encrypted h \<and> is_compressed h' = is_compressed h \<and> is_not_send_to_tun h' = is_not_send_to_tun h"

lemma same_flags_read: "is_encrypted (h\<lparr>forward_counter := c\<rparr>) = is_encrypted h" "is_compressed (h\<lparr>forward_counter := c\<rparr>) = is_compressed h"
  "is_not_send_to_tun (h\<lparr>forward_counter := c\<rparr>) = is_not_send_to_tun h" "is_encrypted (h\<lparr>to_peer_id := i\<rparr>) = is_encrypted h"
  "is_compressed (h\<lparr>to_peer_id := i\<rparr>) = is_compressed h" "is_not_send_to_tun (h\<lparr>to_peer_id := i\<rparr>) = is_not_send_to_tun h"
  by (simp_all add: is_encrypted_def is_compressed_def is_not_send_to_tun_def has_flag_def)

lemma forward_read_alike: "read_alike h (forward_header h)"
  by (simp add: read_alike_def forward_header_def Let_def same_flags_read flag_reads)
    (simp add: set_latency_first_def set_flag_def)

lemma travels_plain:
  assumes "travels (\<lambda>K. \<not> secure_mode K \<and> my_id K \<noteq> me) n p q" and "peer_manager_header_of p = Some h"
    and "packet_type h \<noteq> packet_kind_u8 ForeignNetworkPacket" and "from_peer_id h = me"
  shows "payload q = payload p \<and> (\<exists>h'. peer_manager_header_of q = Some h' \<and> read_alike h h')"
  using assms
proof induction
  case (direct p q)
  then show ?case by (auto simp: carried_def read_alike_def)
next
  case (relayed n p q H h1 ck rnd noise pipe M effs M' out r)
  have q: "payload q = payload p" "read_alike h h1"
    using relayed.IH [OF relayed.prems] relayed.hyps(3) by auto
  have h1: "from_peer_id h1 \<noteq> my_id H"
    using q(2) relayed.prems relayed.hyps(2) by (auto simp: read_alike_def)
  have m: "mut_peer_manager_header forward_header q = Some (out_packet out)"
    using forwarded(3) [OF relayed.hyps(5,3,6,4,7) _ h1] relayed.hyps(2) by blast
  obtain pt pre body where pk: "q = packet_of pt pre h1 body" "well_placed pt pre"
    using relayed.hyps(3) by (rule packet_cases)
  then have "out_packet out = packet_of pt pre (forward_header h1) body" using m by simp
  with pk relayed.hyps(8) have "payload r = payload q" "peer_manager_header_of r = Some (forward_header h1)"
    by (auto simp: carried_def)
  with q forward_read_alike [of h1] show ?case by (auto simp: read_alike_def)
next
  case (delayed n p q H h1 ck rnd noise pipe M effs M' x up now a N out N' r)
  then show ?case using forwarded_later(1) [OF delayed.hyps(5,3,6,4,7,8)] by blast
next
  case (readdressed n p q H h1 ck rnd noise pipe M effs M' out r)
  have "read_alike h h1" using readdressed.IH [OF readdressed.prems] readdressed.hyps(3) by auto
  then have "packet_type h1 \<noteq> packet_kind_u8 ForeignNetworkPacket" using readdressed.prems(2) by (simp add: read_alike_def)
  with takes_over_foreign [OF readdressed.hyps(6,3)] show ?case by blast
qed

section \<open>From interface to interface\<close>

lemma mark_no_sent: "mark_recent_traffic H now i M = (effs, M') \<Longrightarrow> Sent out \<notin> set effs"
  by (auto simp: mark_recent_traffic_def Let_def split: if_splits)

lemma fan_out_sent:
  assumes "send_to_peers H ck ip nself mark msg is M = Some (errs, effs, M')" "Sent out \<in> set effs" "\<not> secure_mode H"
  shows "\<exists>i \<in> set is. mut_peer_manager_header (address_copy H ip nself i) msg = Some (out_packet out)"
  using assms(1,2)
proof (induction "is" arbitrary: M errs effs M')
  case (Cons i "is")
  obtain effs0 M0 where 0: "(if mark then mark_recent_traffic H (ck_ms ck) i M else ([], M)) = (effs0, M0)" by fastforce
  then have n0: "Sent out \<notin> set effs0" using mark_no_sent by (auto split: if_splits)
  show ?case
  proof (cases "check_p2p_only_before_send H i M0")
    case (Inl e)
    with Cons.prems(1) 0 obtain errs' effs' M1 where "send_to_peers H ck ip nself mark msg is M0 = Some (errs', effs', M1)" "effs = effs0 @ effs'"
      by (auto split: bind_split_asm)
    with Cons.IH Cons.prems(2) n0 show ?thesis by fastforce
  next
    case (Inr u)
    with Cons.prems(1) 0 obtain copy r effs1 M1 errs' effs' M2
      where c: "mut_peer_manager_header (address_copy H ip nself i) msg = Some copy" "mg_send H (ck_ms ck) copy i M0 = Some (r, effs1, M1)"
        "send_to_peers H ck ip nself mark msg is M1 = Some (errs', effs', M2)" "effs = effs0 @ effs1 @ effs'"
      by (auto split: bind_split_asm)
    with Cons.IH Cons.prems(2) n0 mg_send_packet(2) [OF c(2) _ assms(3)] show ?thesis by fastforce
  qed
qed simp

text \<open>The header a node gives the packets of its network interface.\<close>

definition nic_header :: "host \<Rightarrow> nat \<Rightarrow> peer_manager_header \<Rightarrow> peer_manager_header" where
  "nic_header H len h = h\<lparr>from_peer_id := my_id H, to_peer_id := 0, packet_type := packet_kind_u8 Data, flags := 0, forward_counter := 1, pm_len := of_nat len\<rparr>"

lemma payload_len_packet_of: "well_placed pt pre \<Longrightarrow> length body < 2 ^ 64 \<Longrightarrow> payload_len (packet_of pt pre h body) = length body"
  using pm.length_as_bytes [of h]
  by (simp add: payload_len_def packet_of_def payload_offset_def payload_offset_pm)

lemma address_copy_reads:
  "from_peer_id (address_copy H ip nself i h) = from_peer_id h" "packet_type (address_copy H ip nself i h) = packet_type h"
  "pm_len (address_copy H ip nself i h) = pm_len h" "is_encrypted (address_copy H ip nself i h) = is_encrypted h"
  "is_compressed (address_copy H ip nself i h) = is_compressed h"
  "to_peer_id (address_copy H ip nself i h) \<noteq> my_id H \<Longrightarrow> is_not_send_to_tun (address_copy H ip nself i h) = is_not_send_to_tun h"
proof -
  have f: "is_encrypted (set_no_proxy on h') = is_encrypted h'" "is_encrypted (set_not_send_to_tun on h') = is_encrypted h'"
    "is_compressed (set_no_proxy on h') = is_compressed h'" "is_compressed (set_not_send_to_tun on h') = is_compressed h'" for on h'
    by (simp_all add: is_encrypted_def is_compressed_def set_no_proxy_def set_not_send_to_tun_def flag_set_get [THEN conjunct1] header_flags_def)
      (simp_all add: flag_defs)
  show "is_encrypted (address_copy H ip nself i h) = is_encrypted h" "is_compressed (address_copy H ip nself i h) = is_compressed h"
    by (simp_all add: address_copy_def Let_def f same_flags_read)
  show "from_peer_id (address_copy H ip nself i h) = from_peer_id h" "packet_type (address_copy H ip nself i h) = packet_type h"
    "pm_len (address_copy H ip nself i h) = pm_len h"
    by (simp_all add: address_copy_def Let_def set_no_proxy_def set_not_send_to_tun_def set_flag_def)
  show "to_peer_id (address_copy H ip nself i h) \<noteq> my_id H \<Longrightarrow> is_not_send_to_tun (address_copy H ip nself i h) = is_not_send_to_tun h"
    by (auto simp: address_copy_def Let_def same_flags_read set_no_proxy_def set_not_send_to_tun_def set_flag_def split: if_splits)
qed

lemma sent_from_nic:
  assumes "crypto_correct (h_crypto H)" "zstd_correct (h_zstd H)" "length rnd = 12" "\<not> secure_mode H"
    and "\<forall>g \<in> set filters. \<forall>p. g p = p" and "payload msg = Some body" "length body \<le> 64 * 1024"
    and "send_msg_by_ip H ck rnd filters msg ip nself M = Some (r, effs, M')" "Sent out \<in> set effs"
  obtains e k wire h where "peer_manager_header_of (out_packet out) = Some h" "payload (out_packet out) = Some wire"
    and "opened (h_crypto H) (h_encryptor H) (h_zstd H) e k (pm_len h) wire body" "is_encrypted h = e" "is_compressed h = k"
    and "from_peer_id h = my_id H" "packet_type h = packet_kind_u8 Data" "to_peer_id h \<noteq> my_id H \<Longrightarrow> \<not> is_not_send_to_tun h"
proof -
  have "payload_offset msg \<le> length (inner msg)" using assms(6) by (auto simp: payload_def slice_from_def split: if_splits)
  then obtain pt pre h0 b0 where pk0: "msg = packet_of pt pre h0 b0" "well_placed pt pre" by (rule packet_of_cases)
  with assms(6) have b0: "b0 = body" by simp
  define hn where "hn = nic_header H (length body) h0"
  have fill: "fill_peer_manager_hdr (my_id H) 0 (packet_kind_u8 Data) msg = Some (packet_of pt pre hn body)"
    using pk0 b0 assms(7) by (simp add: fill_peer_manager_hdr_def payload_len_packet_of hn_def nic_header_def)
  have flt: "fold (\<lambda>g. g) (rev filters) p = p" for p :: zc_packet
    using assms(5) by (induction filters arbitrary: p) auto
  have hn: "\<not> is_encrypted hn" "\<not> is_compressed hn" "\<not> is_not_send_to_tun hn" "unat (pm_len hn) = length body" "to_peer_id hn = 0"
      "from_peer_id hn = my_id H" "packet_type hn = packet_kind_u8 Data"
    using assms(7) by (simp_all add: hn_def nic_header_def is_encrypted_def is_compressed_def is_not_send_to_tun_def has_flag_def flag_defs unat_of_nat)
  obtain q dsts x u errs M1 mark msg4 where q: "try_compress_and_encrypt H rnd (packet_of pt pre hn body) = Some (Inr u, q)"
      and m4: "mut_peer_manager_header (\<lambda>hdr. set_exit_node x (set_latency_first (h_latency_first H) hdr)) q = Some msg4"
      and copies: "send_to_peers H ck ip nself mark msg4 dsts M1 = Some (errs, effs, M')"
    using assms(8,9) fill pk0(2) hn(5)
    by (auto simp: send_msg_by_ip_def run_nic_packet_process_pipeline_def flt split: bind_split_asm if_splits prod.splits sum.splits option.splits)
  obtain e k wire where w: "q = packet_of pt pre (set_encrypted e (set_compressed k hn)) wire"
      "opened (h_crypto H) (h_encryptor H) (h_zstd H) e k (pm_len hn) wire body"
    by (rule encoded_opens [OF assms(1-4) pk0(2) hn(1,2,4) assms(7) q])
  define h4 where "h4 = set_exit_node x (set_latency_first (h_latency_first H) (set_encrypted e (set_compressed k hn)))"
  have "send_to_peers H ck ip nself mark (packet_of pt pre h4 wire) dsts M1 = Some (errs, effs, M')"
    using copies m4 w(1) pk0(2) by (simp add: h4_def)
  from fan_out_sent [OF this assms(9,4)] obtain i where i: "out_packet out = packet_of pt pre (address_copy H ip nself i h4) wire"
    using pk0(2) by (metis mut_header_packet_of option.inject)
  have hc: "from_peer_id h4 = my_id H" "packet_type h4 = packet_kind_u8 Data" "pm_len h4 = pm_len hn" "is_encrypted h4 = e" "is_compressed h4 = k"
      "\<not> is_not_send_to_tun h4"
    using hn by (simp_all add: h4_def flag_reads) (simp_all add: set_exit_node_def set_latency_first_def set_encrypted_def set_compressed_def set_flag_def)
  note copy = address_copy_reads [of H ip nself i h4]
  show thesis
    by (rule that [of "address_copy H ip nself i h4" wire e k]) (use i pk0(2) w(2) hc copy in simp_all)
qed

text \<open>Filters of other components that leave a packet to those below them.\<close>

lemma passing_filters:
  assumes "\<forall>f \<in> set fs. \<forall>p. f p = Some ([], Some p)"
  shows "run_filters (fs @ gs) p = run_filters gs p"
  using assms by (induction fs) (auto simp: option.map_id0 id_def [symmetric] append_Nil [abs_def])

lemma received_to_nic:
  assumes "\<not> secure_mode H" and "peer_manager_header_of q = Some h" "payload q = Some wire" "to_peer_id h = my_id H"
    and "packet_type h = packet_kind_u8 Data" "\<not> is_not_send_to_tun h"
    and "opened (h_crypto H) (h_encryptor H) (h_zstd H) (is_encrypted h) (is_compressed h) (pm_len h) wire body"
    and "\<forall>p. payload p = Some body \<longrightarrow> (\<exists>f. process_packet_with_acl (h_acl_env H) (h_pnet H) (h_groups H) (ck_us ck) (ck_secs ck) p True
      (map_option fst (h_my_ipv4 H)) (h_local_ipv6 H) (mg_acl M) = Some (True, f))"
    and "\<forall>f \<in> set extra. \<forall>p. f p = Some ([], Some p)"
  shows "\<exists>d M' hd. peer_recv H ck rnd noise (init_packet_process_pipeline [] @ extra) q M = Some ([To_Nic d], M')
    \<and> payload d = Some body \<and> peer_manager_header_of d = Some hd \<and> from_peer_id hd = from_peer_id h \<and> packet_type hd = packet_kind_u8 Data"
proof -
  obtain pt pre b where pk: "q = packet_of pt pre h b" "well_placed pt pre" using assms(2) by (rule packet_cases)
  with assms(3) have b: "b = wire" by simp
  define hd where "hd = set_compressed False (set_encrypted False h)"
  have hd: "\<not> is_encrypted hd" "\<not> is_compressed hd" "\<not> is_not_send_to_tun hd" "packet_type hd = packet_kind_u8 Data" "from_peer_id hd = from_peer_id h"
    using assms(5,6) by (simp_all add: hd_def flag_reads) (simp_all add: set_encrypted_def set_compressed_def set_flag_def)
  define d where "d = packet_of pt pre hd body"
  obtain mid where dec: "encryptor_decrypt (h_crypto H) (h_encryptor H) q = Some (Inr (packet_of pt pre (set_encrypted False h) mid))"
      "decompress (h_zstd H) (packet_of pt pre (set_encrypted False h) mid) = Some (Inr d)"
    unfolding pk(1) b d_def hd_def using assms(7) [unfolded opened_def, rule_format, OF pk(2) refl refl refl] by blast
  have dh: "payload d = Some body" "peer_manager_header_of d = Some hd" using pk(2) by (simp_all add: d_def)
  obtain f where f: "process_packet_with_acl (h_acl_env H) (h_pnet H) (h_groups H) (ck_us ck) (ck_secs ck) d True
      (map_option fst (h_my_ipv4 H)) (h_local_ipv6 H) (mg_acl M) = Some (True, f)"
    using assms(8) dh(1) by blast
  have "run_filters (rev (init_packet_process_pipeline [] @ extra)) d = Some [To_Nic d]"
    using passing_filters [of "rev extra" "[rpc_processor, nic_processor]" d] assms(9) dh(2) hd
    by (simp add: init_packet_process_pipeline_def rpc_processor_def nic_processor_def)
  then have "deliver_packet H ck (init_packet_process_pipeline [] @ extra) (packet_of pt pre (set_encrypted False h) mid) M = Some ([To_Nic d], M\<lparr>mg_acl := f\<rparr>)"
    by (simp add: deliver_packet_def dec(2) f)
  then have "receive_own H ck noise (init_packet_process_pipeline [] @ extra) q M = Some ([To_Nic d], M\<lparr>mg_acl := f\<rparr>)"
    using assms(1,2,5) dec(1) by (simp add: receive_own_def decrypt_received_def)
  then have "peer_recv H ck rnd noise (init_packet_process_pipeline [] @ extra) q M = Some ([To_Nic d], M\<lparr>mg_acl := f\<rparr>)"
    using assms(2,4,5) by (simp add: peer_recv_def try_handle_foreign_network_packet_def is_relay_data_zc_packet_def)
  with dh hd show ?thesis by blast
qed

text \<open>
  C2: what one node's network interface sends, another's receives, in a network without secure mode.  A node takes a
  packet from its interface, fills in the header, checks it, finds the destinations, compresses and encrypts it and sends
  a copy to each; each copy may cross any number of relays, which count it and may change the routing flags.  At the node
  a copy is addressed to it is decrypted and decompressed, and exactly the original payload is handed to the interface,
  under the sender's identifier.  The conditions: neither end nor any relay is in secure mode (a relay in secure mode
  would encrypt the packet once more) and no relay has the sender's identifier; the payload has at most 64 KiB; the
  filters of the sender's interface leave the packet as it is; the two ends share the network's cipher and compression
  library; the receiver's rules admit the packet and its further filters pass it on.
\<close>

theorem packet_reaches_interface:
  assumes "crypto_correct (h_crypto H)" and "zstd_correct (h_zstd H)" and "length rnd = 12"
    and "\<not> secure_mode H" and "\<not> secure_mode H'"
    and "h_crypto H' = h_crypto H" and "h_encryptor H' = h_encryptor H" and "h_zstd H' = h_zstd H" and "my_id H' \<noteq> my_id H"
    and "\<forall>g \<in> set filters. \<forall>p. g p = p" and "payload msg = Some body" and "length body \<le> 64 * 1024"
    and "send_msg_by_ip H ck rnd filters msg ip nself M = Some (r, effs, M1)" and "Sent out \<in> set effs"
    and "travels (\<lambda>K. \<not> secure_mode K \<and> my_id K \<noteq> my_id H) n (out_packet out) q"
    and "peer_manager_header_of q = Some hq" and "to_peer_id hq = my_id H'"
    and "\<forall>p. payload p = Some body \<longrightarrow> (\<exists>f. process_packet_with_acl (h_acl_env H') (h_pnet H') (h_groups H') (ck_us ck') (ck_secs ck') p True
      (map_option fst (h_my_ipv4 H')) (h_local_ipv6 H') (mg_acl M') = Some (True, f))"
    and "\<forall>f \<in> set extra. \<forall>p. f p = Some ([], Some p)"
  shows "\<exists>d M'' hd. peer_recv H' ck' rnd' noise (init_packet_process_pipeline [] @ extra) q M' = Some ([To_Nic d], M'')
    \<and> payload d = Some body \<and> peer_manager_header_of d = Some hd \<and> from_peer_id hd = my_id H \<and> packet_type hd = packet_kind_u8 Data"
proof (rule sent_from_nic [OF assms(1-4,10-14)])
  fix e k wire h
  assume h: "peer_manager_header_of (out_packet out) = Some h" "payload (out_packet out) = Some wire"
    "opened (h_crypto H) (h_encryptor H) (h_zstd H) e k (pm_len h) wire body" "is_encrypted h = e" "is_compressed h = k"
    "from_peer_id h = my_id H" "packet_type h = packet_kind_u8 Data" "to_peer_id h \<noteq> my_id H \<Longrightarrow> \<not> is_not_send_to_tun h"
  have "packet_type h \<noteq> packet_kind_u8 ForeignNetworkPacket" using h(7) by simp
  from travels_plain [OF assms(15) h(1) this h(6)] have q: "payload q = Some wire" "read_alike h hq"
    using assms(16) h(2) by auto
  have tun: "\<not> is_not_send_to_tun hq" using h(8) q(2) assms(9,17) by (auto simp: read_alike_def)
  have op: "opened (h_crypto H') (h_encryptor H') (h_zstd H') (is_encrypted hq) (is_compressed hq) (pm_len hq) wire body"
    using h(3-5) q(2) assms(6-8) by (simp add: read_alike_def)
  have "packet_type hq = packet_kind_u8 Data" "from_peer_id hq = my_id H" using q(2) h(6,7) by (auto simp: read_alike_def)
  with received_to_nic [OF assms(5,16) q(1) assms(17) _ tun op assms(18,19)] show ?thesis by simp
qed

section \<open>What reaches the interface\<close>

text \<open>What is handed to the interface comes from one of the filters; the node's own filter hands over what it gets.\<close>

lemma filters_source:
  assumes "run_filters fs p = Some effs" "e \<in> set effs"
  shows "\<exists>g \<in> set fs. \<exists>x es y. g x = Some (es, y) \<and> e \<in> set es"
  using assms
proof (induction fs arbitrary: p effs)
  case (Cons g fs)
  then obtain es y where g: "g p = Some (es, y)" by (auto split: bind_split_asm)
  show ?case
  proof (cases "e \<in> set es")
    case False
    with Cons.prems g obtain p' effs' where "y = Some p'" "run_filters fs p' = Some effs'" "e \<in> set effs'"
      by (cases y) auto
    from Cons.IH [OF this(2,3)] show ?thesis by auto
  qed (use g in auto)
qed simp

definition plain_data :: "zc_packet \<Rightarrow> bool" where
  "plain_data d \<longleftrightarrow> (case peer_manager_header_of d of None \<Rightarrow> False
     | Some h \<Rightarrow> packet_type h = packet_kind_u8 Data \<and> \<not> is_encrypted h \<and> \<not> is_compressed h)"

lemma nic_processor_nic: "nic_processor x = Some (es, y) \<Longrightarrow> To_Nic d \<in> set es \<Longrightarrow> d = x \<and> plain_data d"
  by (auto simp: nic_processor_def plain_data_def split: bind_split_asm if_splits)

lemma filters_nic:
  assumes "run_filters (rev (init_packet_process_pipeline [])) p = Some effs" "To_Nic d \<in> set effs"
  shows "d = p"
  using assms by (auto simp: init_packet_process_pipeline_def rpc_processor_def nic_processor_def split: bind_split_asm if_splits)

lemma deliver_nic:
  assumes "deliver_packet H ck pipe p M = Some (effs, M')" "To_Nic d \<in> set effs"
  shows "\<exists>p1 f. decompress (h_zstd H) p = Some (Inr p1) \<and> run_filters (rev pipe) p1 = Some effs
    \<and> process_packet_with_acl (h_acl_env H) (h_pnet H) (h_groups H) (ck_us ck) (ck_secs ck) p1 True
      (map_option fst (h_my_ipv4 H)) (h_local_ipv6 H) (mg_acl M) = Some (True, f)"
  using assms by (fastforce simp: deliver_packet_def Let_def split: bind_split_asm sum.splits prod.splits if_splits)

lemma decrypt_received_frame:
  assumes "decrypt_received H now p M = Some (x, effs, M')"
  shows "To_Nic d \<notin> set effs" "mg_acl M' = mg_acl M"
    and "secure_mode H \<Longrightarrow> peer_manager_header_of p = Some h \<Longrightarrow> is_encrypted h \<Longrightarrow> x = Some p1 \<Longrightarrow>
      \<exists>task n. decrypt_if_needed (h_crypto H) now (h_relay H) p (mg_node M) = Some (Inr True, p1, task, n)"
  using assms by (auto simp: decrypt_received_def split: bind_split_asm if_splits prod.splits option.splits)

lemma foreign_frame:
  assumes "try_handle_foreign_network_packet H p M = Some (left, effs, M')"
  shows "To_Nic d \<notin> set effs" "left = Some q \<Longrightarrow> q = p \<and> M' = M"
  using assms by (auto simp: try_handle_foreign_network_packet_def split: bind_split_asm if_splits option.splits prod.splits sum.splits)

lemma mg_send_no_nic: "mg_send H now msg dst M = Some (r, effs, M') \<Longrightarrow> To_Nic d \<notin> set effs"
  by (auto simp: mg_send_def send_msg_internal_def sent_result_def Let_def split: bind_split_asm if_splits option.splits prod.splits sum.splits)

lemma forward_no_nic: "forward_packet H ck rnd p M = Some (effs, M') \<Longrightarrow> To_Nic d \<notin> set effs"
  by (auto simp: forward_packet_def dest: mg_send_no_nic split: bind_split_asm if_splits)

text \<open>
  C38: the network interface is guarded.  Whatever filters the other components of the node have added, a packet is handed
  to the interface only while the node handles a received packet that came addressed to this very node and that, after
  decryption and decompression, passed the access control rules; in secure mode a packet that was encrypted has been
  opened with the sender's session.  The packet handed over comes from one of the filters.  If that is the node's own
  filter, it is plain data, neither encrypted nor compressed any more; with the node's own filters alone, it is the very
  packet the rules admitted.  A further filter may hand over a packet it has rewritten.
\<close>

theorem interface_packets_checked:
  assumes "peer_recv H ck rnd noise pipe pkt M = Some (effs, M')" and "To_Nic d \<in> set effs"
  shows "\<exists>h pkt1 effs1 M1 p f. peer_manager_header_of pkt = Some h \<and> to_peer_id h = my_id H
    \<and> decrypt_received H (ck_ms ck) pkt M = Some (Some pkt1, effs1, M1) \<and> decompress (h_zstd H) pkt1 = Some (Inr p)
    \<and> process_packet_with_acl (h_acl_env H) (h_pnet H) (h_groups H) (ck_us ck) (ck_secs ck) p True
      (map_option fst (h_my_ipv4 H)) (h_local_ipv6 H) (mg_acl M) = Some (True, f)
    \<and> (secure_mode H \<and> is_encrypted h \<longrightarrow>
        (\<exists>task n. decrypt_if_needed (h_crypto H) (ck_ms ck) (h_relay H) pkt (mg_node M) = Some (Inr True, pkt1, task, n)))
    \<and> (\<exists>g \<in> set pipe. \<exists>x es y. g x = Some (es, y) \<and> To_Nic d \<in> set es \<and> (g = nic_processor \<longrightarrow> d = x \<and> plain_data d))
    \<and> (pipe = init_packet_process_pipeline [] \<longrightarrow> d = p)"
proof -
  obtain left effs0 M0 where fn: "try_handle_foreign_network_packet H pkt M = Some (left, effs0, M0)"
    using assms(1) by (auto simp: peer_recv_def split: bind_split_asm)
  obtain h where h: "peer_manager_header_of pkt = Some h"
    using fn by (auto simp: try_handle_foreign_network_packet_def split: bind_split_asm)
  obtain effs1 where own: "to_peer_id h = my_id H" "receive_own H ck noise pipe pkt M = Some (effs1, M')" "To_Nic d \<in> set effs1"
    using assms fn foreign_frame [OF fn] h forward_no_nic
    by (fastforce simp: peer_recv_def split: bind_split_asm option.splits if_splits)
  obtain x effs2 M1 where dr: "decrypt_received H (ck_ms ck) pkt M = Some (x, effs2, M1)"
      and dl: "\<exists>p1 effs3. x = Some p1 \<and> deliver_packet H ck pipe p1 M1 = Some (effs3, M') \<and> To_Nic d \<in> set effs3"
    using own(2,3) h decrypt_received_frame(1)
    by (fastforce simp: receive_own_def split: bind_split_asm option.splits if_splits)
  then obtain p1 effs3 where p1: "x = Some p1" and del: "deliver_packet H ck pipe p1 M1 = Some (effs3, M')" "To_Nic d \<in> set effs3"
    by blast
  obtain p f where p: "decompress (h_zstd H) p1 = Some (Inr p)" "run_filters (rev pipe) p = Some effs3"
      "process_packet_with_acl (h_acl_env H) (h_pnet H) (h_groups H) (ck_us ck) (ck_secs ck) p True
        (map_option fst (h_my_ipv4 H)) (h_local_ipv6 H) (mg_acl M) = Some (True, f)"
    using deliver_nic [OF del] decrypt_received_frame(2) [OF dr] by auto
  have src: "\<exists>g \<in> set pipe. \<exists>x es y. g x = Some (es, y) \<and> To_Nic d \<in> set es \<and> (g = nic_processor \<longrightarrow> d = x \<and> plain_data d)"
    using filters_source [OF p(2) del(2)] nic_processor_nic by fastforce
  have same: "pipe = init_packet_process_pipeline [] \<longrightarrow> d = p"
    using filters_nic p(2) del(2) by blast
  note dec = dr [unfolded p1]
  have sec: "secure_mode H \<and> is_encrypted h \<longrightarrow>
      (\<exists>task n. decrypt_if_needed (h_crypto H) (ck_ms ck) (h_relay H) pkt (mg_node M) = Some (Inr True, p1, task, n))"
    using decrypt_received_frame(3) [OF dr _ h _ p1] by blast
  show ?thesis
    by (rule exI [of _ h], rule exI [of _ p1], rule exI [of _ effs2], rule exI [of _ M1], rule exI [of _ p], rule exI [of _ f])
      (intro conjI h own(1) dec p(1,3) sec src same)
qed

text \<open>
  A packet of a foreign network too short for the inner header ends the receiving process, unless relaying of data is
  switched off; any connected peer can send one.
\<close>

lemma short_foreign_packet_panics:
  assumes "peer_manager_header_of p = Some h" "packet_type h = packet_kind_u8 ForeignNetworkPacket" "\<not> h_disable_relay_data H"
    and "payload p = Some pl" "length pl < FOREIGN_NETWORK_HEADER_SIZE"
  shows "peer_recv H ck rnd noise pipe p M = None"
  using assms by (simp add: peer_recv_def try_handle_foreign_network_packet_def foreign_network_hdr_def ref_from_prefix_def)

text \<open>In secure mode a data packet that is not encrypted is taken like one that was: no session is asked for.\<close>

lemma secure_mode_takes_plaintext:
  assumes "secure_mode H" "peer_manager_header_of p = Some h" "\<not> is_encrypted h" "to_peer_id h = my_id H" "packet_type h = packet_kind_u8 Data"
  shows "peer_recv H ck rnd noise pipe p M = deliver_packet H ck pipe p M"
  using assms
  by (simp add: peer_recv_def try_handle_foreign_network_packet_def is_relay_data_zc_packet_def receive_own_def decrypt_received_def
      option.map_comp comp_def split_beta option.map_ident)

section \<open>Three nodes in a line\<close>

text \<open>Node 3 reaches node 5, which has the address 7, through node 4.\<close>

definition line_host :: "peer_id \<Rightarrow> host" where
  "line_host me = \<lparr>h_relay = (sample_config me)\<lparr>rc_secure_mode := False\<rparr>, h_encryptor = XorCipher [1], h_compress = AlgoNone,
     h_credential_node = False, h_disable_relay_data = False, h_latency_first = False, h_p2p_only = False, h_disable_p2p = True, h_lazy_p2p = False,
     h_my_ipv4 = None, h_my_ipv6 = None, h_local_ipv6 = (\<lambda>_. False), h_same_network = (\<lambda>_. True), h_local_virtual = (\<lambda>_. False),
     h_public_gateway = None, h_crypto = toy_crypto, h_zstd = toy_zstd, h_acl_env = toy_env, h_pnet = toy_net, h_groups = (\<lambda>_. []),
     h_last4 = (\<lambda>a _. 255), h_last6 = (\<lambda>a _. 255), h_up = (\<lambda>_. True)\<rparr>"

definition line_route :: route_iface where
  "line_route = sample_route\<lparr>via_next_hop := (\<lambda>i _. if i = 5 then Some 4 else None), via_peer_id_by_ipv4 := (\<lambda>a. if a = 7 then Some 5 else None)\<rparr>"

definition line_manager :: "peer_id \<Rightarrow> peer_id \<Rightarrow> manager" where
  "line_manager me other = \<lparr>mg_node = (relay_node_new me)\<lparr>rn_peers := (linked_map me other 0)\<lparr>map_routes := [line_route]\<rparr>, rn_foreign := None\<rparr>,
     mg_foreign_networks = [], mg_acl = acl_filter_new toy_env, mg_exit_nodes = [], mg_recent = []\<rparr>"

definition line_clock :: clock where "line_clock = \<lparr>ck_ms = 5, ck_us = 5, ck_secs = 0\<rparr>"

definition line_header :: peer_manager_header where
  "line_header = \<lparr>from_peer_id = 0, to_peer_id = 0, packet_type = 0, flags = 0, forward_counter = 0, reserved = 0, pm_len = 0\<rparr>"

definition line_packet :: zc_packet where "line_packet = packet_of DummyTunnel [] line_header [9, 8, 7]"

lemma line_placed [simp]: "well_placed DummyTunnel []"
  by (simp add: layout_simps)

lemma line_send:
  assumes "other = 4 \<and> me = 3 \<or> other = 5 \<and> me = 4"
  shows "\<exists>n'. send_msg_internal (line_host me) 5 (packet_of DummyTunnel [] h b) 5 (mg_node (line_manager me other))
    = Some (Inr (), [Sent (To_Conn other 11 (packet_of DummyTunnel [] h b))], n')"
  using assms
  by (auto simp: send_msg_internal_def line_manager_def linked_map_def has_peer_def st_get_def client_has_next_hop_def get_gateway_peer_id_def
      line_route_def relay_send_msg_def line_host_def sample_config_def send_via_next_hop_def send_msg_directly_def peer_send_msg_def
      select_conn_def sample_conn_def Let_def put_peer_def st_insert_def sent_result_def)

definition line_wire :: "u8 \<Rightarrow> zc_packet" where
  "line_wire c = packet_of DummyTunnel [] \<lparr>from_peer_id = 3, to_peer_id = 5, packet_type = 1, flags = 1, forward_counter = c, reserved = 0, pm_len = 3\<rparr> [8, 9, 6]"

lemma line_acl: "process_packet_with_acl env net groups us secs p is_in addr6 local4 (mg_acl (line_manager me other)) = Some (True, mg_acl (line_manager me other))"
  by (simp add: process_packet_with_acl_def line_manager_def acl_filter_new_def)

lemma line_sends:
  "\<exists>M'. send_msg_by_ip (line_host 3) line_clock (replicate 12 0) [] line_packet (IpV4 7) False (line_manager 3 4)
    = Some (Inr (), [Sent (To_Conn 4 11 (line_wire 1))], M')"
proof -
  have fill: "fill_peer_manager_hdr 3 0 (packet_kind_u8 Data) line_packet
      = Some (packet_of DummyTunnel [] \<lparr>from_peer_id = 3, to_peer_id = 0, packet_type = 1, flags = 0, forward_counter = 1, reserved = 0, pm_len = 3\<rparr> [9, 8, 7])"
    by (simp add: fill_peer_manager_hdr_def line_packet_def payload_len_packet_of line_header_def)
  have me: "my_id (line_host me) = me" "\<not> secure_mode (line_host me)" for me by (simp_all add: line_host_def sample_config_def)
  have dst: "get_msg_dst_peer (line_host 3) (IpV4 7) (line_manager 3 4) = ([5], False)"
    by (simp add: get_msg_dst_peer_def get_msg_dst_peer_ipv4_def is_all_peers_broadcast_ipv4_def ipv4_is_multicast_def line_host_def
        map_peer_id_by_ipv4_def line_manager_def line_route_def Let_def drop_bit_eq_div)
  have enc: "try_compress_and_encrypt (line_host 3) (replicate 12 0) (packet_of DummyTunnel [] \<lparr>from_peer_id = 3, to_peer_id = 0, packet_type = 1, flags = 0,
      forward_counter = 1, reserved = 0, pm_len = 3\<rparr> [9, 8, 7])
    = Some (Inr (), packet_of DummyTunnel [] \<lparr>from_peer_id = 3, to_peer_id = 0, packet_type = 1, flags = 1, forward_counter = 1, reserved = 0, pm_len = 3\<rparr> [8, 9, 6])"
    by (simp add: try_compress_and_encrypt_def me compress_def xor_encrypt_packet_of)
      (simp add: line_host_def compress_def xor_encrypt_packet_of is_encrypted_def has_flag_def set_encrypted_def set_flag_def ENCRYPTED_def xor_data_def enumerate_eq_zip)
  obtain n' where "send_msg_internal (line_host 3) 5 (line_wire 1) 5 (mg_node (line_manager 3 4)) = Some (Inr (), [Sent (To_Conn 4 11 (line_wire 1))], n')"
    using line_send [of 4 3] unfolding line_wire_def by blast
  then have "send_to_peers (line_host 3) line_clock (IpV4 7) False True (packet_of DummyTunnel [] \<lparr>from_peer_id = 3, to_peer_id = 0, packet_type = 1,
      flags = 1, forward_counter = 1, reserved = 0, pm_len = 3\<rparr> [8, 9, 6]) [5] (line_manager 3 4)
    = Some ([], [Sent (To_Conn 4 11 (line_wire 1))], (line_manager 3 4)\<lparr>mg_node := n'\<rparr>)"
    by (simp add: mark_recent_traffic_def check_p2p_only_before_send_def address_copy_def mg_send_def line_clock_def line_host_def line_wire_def Let_def)
  moreover have "(line_manager 3 4)\<lparr>mg_acl := mg_acl (line_manager 3 4)\<rparr> = line_manager 3 4" by simp
  moreover have "set_exit_node False (set_latency_first False h) = h" if "flags h = 1" for h
    using that by (cases h) (simp add: set_exit_node_def set_latency_first_def set_flag_def flag_defs)
  moreover have "h_latency_first (line_host 3) = False" by (simp add: line_host_def)
  ultimately show ?thesis
    using fill me dst enc
    by (simp add: send_msg_by_ip_def run_nic_packet_process_pipeline_def line_acl should_mark_recent_traffic_for_fanout_def del: send_to_peers.simps)
qed

lemma line_relays:
  "\<exists>M'. peer_recv (line_host 4) line_clock [] noise pipe (line_wire 1) (line_manager 4 5) = Some ([Sent (To_Conn 5 11 (line_wire 2))], M')"
proof -
  define h :: peer_manager_header where "h = \<lparr>from_peer_id = 3, to_peer_id = 5, packet_type = 1, flags = 1, forward_counter = 1, reserved = 0, pm_len = 3\<rparr>"
  have w: "line_wire 1 = packet_of DummyTunnel [] h [8, 9, 6]" by (simp add: line_wire_def h_def)
  have hd: "peer_manager_header_of (line_wire 1) = Some h" by (simp add: w)
  have fh: "mut_peer_manager_header forward_header (line_wire 1) = Some (line_wire 2)"
    by (simp add: w) (simp add: h_def forward_header_def line_wire_def)
  obtain n' where "send_msg_internal (line_host 4) 5 (line_wire 2) 5 (mg_node (line_manager 4 5)) = Some (Inr (), [Sent (To_Conn 5 11 (line_wire 2))], n')"
    using line_send [of 5 4] unfolding line_wire_def by blast
  then have "forward_packet (line_host 4) line_clock [] (line_wire 1) (line_manager 4 5) = Some ([Sent (To_Conn 5 11 (line_wire 2))], (line_manager 4 5)\<lparr>mg_node := n'\<rparr>)"
    using fh hd by (simp add: forward_packet_def is_relay_data_zc_packet_def h_def line_host_def sample_config_def mg_send_def line_clock_def)
  with hd show ?thesis
    by (simp add: peer_recv_def try_handle_foreign_network_packet_def is_relay_data_zc_packet_def)
      (simp add: h_def line_host_def sample_config_def)
qed

lemma line_header_of: "peer_manager_header_of (line_wire c)
    = Some \<lparr>from_peer_id = 3, to_peer_id = 5, packet_type = 1, flags = 1, forward_counter = c, reserved = 0, pm_len = 3\<rparr>"
  by (simp add: line_wire_def)

lemma line_travels:
  assumes "P (line_host 4)"
  shows "travels P 1 (line_wire 1) (line_wire 2)"
proof -
  have c: "carried (line_wire c) (line_wire c)" for c by (simp add: carried_def line_header_of)
  obtain M' where "peer_recv (line_host 4) line_clock [] (\<lambda>_ _. None) [] (line_wire 1) (line_manager 4 5) = Some ([Sent (To_Conn 5 11 (line_wire 2))], M')"
    using line_relays by blast
  then have "travels P (Suc 0) (line_wire 1) (line_wire 2)"
    using relayed [where P = P and H = "line_host 4" and q = "line_wire 1" and r = "line_wire 2", OF direct [OF c] assms line_header_of]
      takes_over_foreign [OF _ line_header_of, of "line_host 4" 1 "line_manager 4 5"]
    by (fastforce simp: c line_host_def sample_config_def)
  then show ?thesis by simp
qed

theorem forwarding_bounded_witness:
  "\<exists>c f t. peer_manager_header_of (line_wire 2) = Some (\<lparr>from_peer_id = 3, to_peer_id = t, packet_type = 1, flags = f, forward_counter = c, reserved = 0, pm_len = 3\<rparr>)
    \<and> unat c = Suc (Suc 0) \<and> t = 5 \<and> travels (\<lambda>_. True) 1 (line_wire 1) (line_wire 2)"
  using forwarding_bounded [OF line_travels line_header_of, of "\<lambda>_. True"] line_travels [of "\<lambda>_. True"] by simp

lemma line_delivers:
  "\<exists>d M'' hd. peer_recv (line_host 5) line_clock [] (\<lambda>_ _. None) (init_packet_process_pipeline [] @ []) (line_wire 2) (line_manager 5 4) = Some ([To_Nic d], M'')
    \<and> payload d = Some [9, 8, 7] \<and> peer_manager_header_of d = Some hd
    \<and> from_peer_id hd = from_peer_id \<lparr>from_peer_id = 3, to_peer_id = 5, packet_type = 1, flags = 1, forward_counter = 2, reserved = 0, pm_len = 3\<rparr>
    \<and> packet_type hd = packet_kind_u8 Data"
proof (rule received_to_nic [OF _ line_header_of, where wire = "[8, 9, 6]"])
  have e: "is_encrypted \<lparr>from_peer_id = 3, to_peer_id = 5, packet_type = 1, flags = 1, forward_counter = 2, reserved = 0, pm_len = 3\<rparr>"
      "\<not> is_compressed \<lparr>from_peer_id = 3, to_peer_id = 5, packet_type = 1, flags = 1, forward_counter = 2, reserved = 0, pm_len = 3\<rparr>"
    by (simp_all add: is_encrypted_def is_compressed_def has_flag_def flag_defs)
  have x: "xor_data [1] [8, 9, 6] = [9, 8, 7]" by (simp add: xor_data_def enumerate_eq_zip)
  show "opened (h_crypto (line_host 5)) (h_encryptor (line_host 5)) (h_zstd (line_host 5))
      (is_encrypted \<lparr>from_peer_id = 3, to_peer_id = 5, packet_type = 1, flags = 1, forward_counter = 2, reserved = 0, pm_len = 3\<rparr>)
      (is_compressed \<lparr>from_peer_id = 3, to_peer_id = 5, packet_type = 1, flags = 1, forward_counter = 2, reserved = 0, pm_len = 3\<rparr>)
      (pm_len \<lparr>from_peer_id = 3, to_peer_id = 5, packet_type = 1, flags = 1, forward_counter = 2, reserved = 0, pm_len = 3\<rparr>) [8, 9, 6] [9, 8, 7]"
    using e by (auto simp: opened_def line_host_def xor_decrypt_def decompress_def flag_reads clear_flags x)
qed (simp_all add: line_host_def sample_config_def line_wire_def line_acl is_not_send_to_tun_def has_flag_def flag_defs)

theorem packet_reaches_interface_witness:
  "\<exists>d M'' hd. peer_recv (line_host 5) line_clock [] (\<lambda>_ _. None) (init_packet_process_pipeline [] @ []) (line_wire 2) (line_manager 5 4) = Some ([To_Nic d], M'')
    \<and> payload d = Some [9, 8, 7] \<and> peer_manager_header_of d = Some hd \<and> from_peer_id hd = 3 \<and> packet_type hd = packet_kind_u8 Data"
proof -
  obtain M' where s: "send_msg_by_ip (line_host 3) line_clock (replicate 12 0) [] line_packet (IpV4 7) False (line_manager 3 4)
      = Some (Inr (), [Sent (To_Conn 4 11 (line_wire 1))], M')"
    using line_sends by blast
  have me: "my_id (line_host me) = me" "\<not> secure_mode (line_host me)" "h_crypto (line_host me) = toy_crypto" "h_zstd (line_host me) = toy_zstd"
      "h_encryptor (line_host me) = XorCipher [1]" for me
    by (simp_all add: line_host_def sample_config_def)
  have "travels (\<lambda>K. \<not> secure_mode K \<and> my_id K \<noteq> my_id (line_host 3)) 1 (out_packet (To_Conn 4 11 (line_wire 1))) (line_wire 2)"
    using line_travels [of "\<lambda>K. \<not> secure_mode K \<and> my_id K \<noteq> my_id (line_host 3)"] me by simp
  from packet_reaches_interface [OF _ _ _ _ _ _ _ _ _ _ _ _ s _ this line_header_of, where H' = "line_host 5" and body = "[9, 8, 7]" and M' = "line_manager 5 4"
      and extra = "[]" and rnd' = "[]" and noise = "\<lambda>_ _. None" and ck' = line_clock]
  show ?thesis using me toy_crypto_correct toy_zstd_correct by (simp add: line_packet_def line_acl)
qed

theorem interface_packets_checked_witness:
  "\<exists>d M'' h f. peer_recv (line_host 5) line_clock [] (\<lambda>_ _. None) (init_packet_process_pipeline []) (line_wire 2) (line_manager 5 4) = Some ([To_Nic d], M'')
    \<and> peer_manager_header_of (line_wire 2) = Some h \<and> to_peer_id h = 5
    \<and> process_packet_with_acl toy_env toy_net (\<lambda>_. []) 5 0 d True None (\<lambda>_. False) (mg_acl (line_manager 5 4)) = Some (True, f)"
proof -
  obtain d M'' where r: "peer_recv (line_host 5) line_clock [] (\<lambda>_ _. None) (init_packet_process_pipeline []) (line_wire 2) (line_manager 5 4) = Some ([To_Nic d], M'')"
    using line_delivers by auto
  from interface_packets_checked [OF r, of d] r show ?thesis
    by (auto simp: line_host_def sample_config_def line_clock_def)
qed

end
