(* ===== verification/Public_Ipv6.thy ===== *)
theory Public_Ipv6
  imports Ospf_Synced "HOL-Library.Product_Lexorder"
begin

text \<open>
  Public IPv6 addresses on lease (\<^verbatim>\<open>peers/public_ipv6.rs\<close>): the choice of the provider, the provider's table of leases and
  its allocation of addresses, and the client that acquires and renews one.

  The router is the list of what it knows of the peers and a function that publishes this node's lease; the remote calls
  are functions.  Prefixes are those of the \<^verbatim>\<open>cidr\<close> crate, of which \<open>contains\<close> is an argument.  Times are milliseconds.
  A request to the provider waits for the addresses of the host between reading the table and writing it back, so it is
  two steps, \<open>acquire_start\<close> and \<open>acquire_finish\<close>; the wait of the client for an answer is left out of \<open>sync_client_state\<close>.
\<close>

section \<open>State\<close>

definition PUBLIC_IPV6_LEASE_TTL :: nat where "PUBLIC_IPV6_LEASE_TTL = 120000"
definition PUBLIC_IPV6_RENEW_INTERVAL :: nat where "PUBLIC_IPV6_RENEW_INTERVAL = 40000"

text \<open>An address with a prefix length, and a prefix by its first address and its length.\<close>

type_synonym inet6 = "u128 \<times> nat"
type_synonym inst_id = u128

record cidr6 =
  first_address :: u128
  network_length :: nat

record provider =
  pv6_peer_id :: peer_id
  pv6_inst_id :: inst_id
  pv6_prefix :: cidr6

record lease =
  ls_peer_id :: peer_id
  ls_inst_id :: inst_id
  ls_addr :: inet6
  ls_valid_until :: nat
  ls_reused :: bool

record provider_state =
  st_provider :: provider
  st_leases :: "(inst_id, lease) store"

record client_state =
  cl_provider :: provider
  cl_lease :: lease

record peer_route =
  pr6_peer_id :: peer_id
  pr6_inst_id :: "inst_id option"
  pr6_is_provider :: bool
  pr6_prefix :: "cidr6 option"
  pr6_lease :: "inet6 option"
  pr6_reachable :: bool

record ipv6_service =
  sv_provider_state :: "provider_state option"
  sv_client_state :: "client_state option"
  sv_route_cache :: "inet6 set"
  sv_my_addr_cache :: "inet6 option"

datatype lease_error = NoProvider | NotSelected | LeaseMismatch | LeaseNotFound | OwnerMismatch | NoFreeAddress

definition ipv6_service_new :: ipv6_service where
  "ipv6_service_new = \<lparr>sv_provider_state = None, sv_client_state = None, sv_route_cache = {}, sv_my_addr_cache = None\<rparr>"

section \<open>The provider\<close>

definition provider_of :: "peer_route \<Rightarrow> provider option" where
  "provider_of info = do {
     i \<leftarrow> pr6_inst_id info;
     c \<leftarrow> pr6_prefix info;
     Some \<lparr>pv6_peer_id = pr6_peer_id info, pv6_inst_id = i, pv6_prefix = c\<rparr>
   }"

text \<open>\<^verbatim>\<open>Iterator::min_by_key\<close>: the first of the least.\<close>

fun first_min_by :: "('a \<Rightarrow> 'b::linorder) \<Rightarrow> 'a list \<Rightarrow> 'a option" where
  "first_min_by key [] = None"
| "first_min_by key (x # xs) = (case first_min_by key xs of None \<Rightarrow> Some x | Some y \<Rightarrow> Some (if key y < key x then y else x))"

definition selected_provider_from_snapshot :: "peer_route list \<Rightarrow> provider option" where
  "selected_provider_from_snapshot peers =
     first_min_by pv6_inst_id (List.map_filter provider_of (filter pr6_reachable (filter pr6_is_provider peers)))"

definition set_provider_state :: "provider_state option \<Rightarrow> ipv6_service \<Rightarrow> bool \<times> ipv6_service" where
  "set_provider_state x s = (if sv_provider_state s = x then (False, s) else (True, s\<lparr>sv_provider_state := x\<rparr>))"

definition set_client_state :: "client_state option \<Rightarrow> ipv6_service \<Rightarrow> bool \<times> ipv6_service" where
  "set_client_state x s = (if sv_client_state s = x then (False, s) else (True, s\<lparr>sv_client_state := x\<rparr>))"

definition clear_provider_state_if_provider_changed :: "provider option \<Rightarrow> ipv6_service \<Rightarrow> bool \<times> ipv6_service" where
  "clear_provider_state_if_provider_changed p s =
     (case sv_provider_state s of
        None \<Rightarrow> (False, s)
      | Some st \<Rightarrow> if p \<noteq> Some (st_provider st) then set_provider_state None s else (False, s))"

definition clear_client_state_if_provider_changed :: "provider option \<Rightarrow> ipv6_service \<Rightarrow> bool \<times> ipv6_service" where
  "clear_client_state_if_provider_changed p s =
     (case sv_client_state s of
        None \<Rightarrow> (False, s)
      | Some c \<Rightarrow> if p \<noteq> Some (cl_provider c) then set_client_state None s else (False, s))"

section \<open>Allocation\<close>

text \<open>Offsets stay below \<open>2 ^ 128\<close>, so they are numbers; \<open>used\<close> are those taken.\<close>

function find_offset :: "nat \<Rightarrow> nat \<Rightarrow> nat list \<Rightarrow> nat \<Rightarrow> nat option" where
  "find_offset usable start used step =
     (if step < usable then
        let off = (start - 1 + step) mod usable + 1
        in if off \<in> set used then find_offset usable start used (Suc step) else Some off
      else None)"
  by pat_completeness auto
termination by (relation "measure (\<lambda>(usable, start, used, step). usable - step)") auto

declare find_offset.simps [simp del]

definition free_offset :: "inst_id \<Rightarrow> nat \<Rightarrow> nat list \<Rightarrow> nat option" where
  "free_offset i max_offsets used =
     (let usable = max_offsets - 1
      in if usable = 0 then (if 0 \<in> set used then None else Some 0)
         else find_offset usable (unat i mod usable + 1) used 0)"

definition offset_in :: "cidr6 \<Rightarrow> u128 \<Rightarrow> nat" where
  "offset_in c a = unat a - unat (first_address c)"

fun allocate_loop ::
  "(cidr6 \<Rightarrow> u128 \<Rightarrow> bool) \<Rightarrow> cidr6 \<Rightarrow> nat option \<Rightarrow> (inst_id, inet6) store \<Rightarrow> inst_id list \<Rightarrow> nat list \<Rightarrow> lease list" where
  "allocate_loop contains c max_offsets old [] used = []"
| "allocate_loop contains c max_offsets old (i # is) used =
     (let push = (\<lambda>addr used'. \<lparr>ls_peer_id = 0, ls_inst_id = i, ls_addr = addr, ls_valid_until = 0, ls_reused = (st_get old i = Some addr)\<rparr>
            # allocate_loop contains c max_offsets old is used')
      in case (case st_get old i of
            Some e \<Rightarrow> if contains c (fst e) \<and> offset_in c (fst e) \<notin> set used then Some e else None
          | None \<Rightarrow> None) of
         Some e \<Rightarrow> push e (offset_in c (fst e) # used)
       | None \<Rightarrow> (case max_offsets of
             None \<Rightarrow> allocate_loop contains c max_offsets old is used
           | Some m \<Rightarrow> (case free_offset i m used of
                 None \<Rightarrow> []
               | Some off \<Rightarrow> push (first_address c + of_nat off, 128) (off # used))))"

definition allocate_public_ipv6_leases ::
  "(cidr6 \<Rightarrow> u128 \<Rightarrow> bool) \<Rightarrow> cidr6 \<Rightarrow> inst_id list \<Rightarrow> u128 list \<Rightarrow> (inst_id, inet6) store \<Rightarrow> lease list" where
  "allocate_public_ipv6_leases contains c ids taken old =
     (let host_bits = 128 - network_length c
      in allocate_loop contains c (if host_bits = 128 then None else Some (2 ^ host_bits)) old ids
           (map (offset_in c) (filter (contains c) taken)))"

section \<open>Leases of the provider\<close>

definition prune_expired_leases :: "nat \<Rightarrow> provider \<Rightarrow> provider_state option \<Rightarrow> provider_state" where
  "prune_expired_leases now p cur =
     (let st = (case cur of None \<Rightarrow> \<lparr>st_provider = p, st_leases = []\<rparr> | Some st \<Rightarrow> st)
      in st\<lparr>st_provider := p, st_leases := st_retain (\<lambda>_ l. now < ls_valid_until l) (st_leases st)\<rparr>)"

definition own_provider :: "peer_id \<Rightarrow> peer_route list \<Rightarrow> lease_error + provider" where
  "own_provider me peers = (case selected_provider_from_snapshot peers of
     None \<Rightarrow> Inl NoProvider
   | Some p \<Rightarrow> if pv6_peer_id p \<noteq> me then Inl NotSelected else Inr p)"

definition collect_reserved_addrs :: "(cidr6 \<Rightarrow> u128 \<Rightarrow> bool) \<Rightarrow> cidr6 \<Rightarrow> u128 list \<Rightarrow> u128 option \<Rightarrow> u128 list" where
  "collect_reserved_addrs contains c interface_ipv6s public_ipv6 =
     filter (contains c) interface_ipv6s @ filter (contains c) (case public_ipv6 of None \<Rightarrow> [] | Some a \<Rightarrow> [a])"

text \<open>Up to the wait: an answer, or the provider and the table the request goes on with.\<close>

datatype acquire_progress = Answered "lease_error + lease" | Waiting provider provider_state

definition acquire_start ::
  "nat \<Rightarrow> peer_id \<Rightarrow> peer_route list \<Rightarrow> peer_id \<Rightarrow> inst_id \<Rightarrow> bool \<Rightarrow> inet6 option \<Rightarrow> ipv6_service \<Rightarrow> acquire_progress \<times> ipv6_service" where
  "acquire_start now me peers requester i renew_only requested s =
     (case own_provider me peers of
        Inl e \<Rightarrow> (Answered (Inl e), s)
      | Inr p \<Rightarrow>
          let st = prune_expired_leases now p (sv_provider_state s)
          in (case st_get (st_leases st) i of
                Some l \<Rightarrow>
                  if requested \<noteq> None \<and> requested \<noteq> Some (ls_addr l) then (Answered (Inl LeaseMismatch), s)
                  else let l1 = l\<lparr>ls_peer_id := requester, ls_valid_until := now + PUBLIC_IPV6_LEASE_TTL, ls_reused := True\<rparr>
                    in (Answered (Inr l1), snd (set_provider_state (Some (st\<lparr>st_leases := st_insert i l1 (st_leases st)\<rparr>)) s))
              | None \<Rightarrow> if renew_only then (Answered (Inl LeaseNotFound), s) else (Waiting p st, s)))"

definition acquire_finish ::
  "(cidr6 \<Rightarrow> u128 \<Rightarrow> bool) \<Rightarrow> nat \<Rightarrow> u128 list \<Rightarrow> provider \<Rightarrow> provider_state \<Rightarrow> peer_id \<Rightarrow> inst_id \<Rightarrow> ipv6_service \<Rightarrow>
     (lease_error + lease) \<times> ipv6_service" where
  "acquire_finish contains now host p st requester i s =
     (let old = map (\<lambda>(j, l). (j, ls_addr l)) (st_leases st);
          taken = host @ map (\<lambda>(j, l). fst (ls_addr l)) (st_leases st)
      in case allocate_public_ipv6_leases contains (pv6_prefix p) [i] taken old of
           [] \<Rightarrow> (Inl NoFreeAddress, s)
         | ls \<Rightarrow> let l = (last ls)\<lparr>ls_peer_id := requester, ls_valid_until := now + PUBLIC_IPV6_LEASE_TTL\<rparr>
             in (Inr l, snd (set_provider_state (Some (st\<lparr>st_leases := st_insert i l (st_leases st)\<rparr>)) s)))"

text \<open>A request that nothing interrupts.\<close>

definition acquire_lease ::
  "(cidr6 \<Rightarrow> u128 \<Rightarrow> bool) \<Rightarrow> nat \<Rightarrow> u128 list \<Rightarrow> u128 option \<Rightarrow> peer_id \<Rightarrow> peer_route list \<Rightarrow> peer_id \<Rightarrow> inst_id \<Rightarrow> bool \<Rightarrow> inet6 option \<Rightarrow> ipv6_service \<Rightarrow>
     (lease_error + lease) \<times> ipv6_service" where
  "acquire_lease contains now ifs pub me peers requester i renew_only requested s =
     (case acquire_start now me peers requester i renew_only requested s of
        (Answered r, s') \<Rightarrow> (r, s')
      | (Waiting p st, s') \<Rightarrow> acquire_finish contains now (collect_reserved_addrs contains (pv6_prefix p) ifs pub) p st requester i s')"

definition release_lease :: "nat \<Rightarrow> peer_id \<Rightarrow> peer_route list \<Rightarrow> peer_id \<Rightarrow> inst_id \<Rightarrow> ipv6_service \<Rightarrow> bool \<times> ipv6_service" where
  "release_lease now me peers requester i s =
     (case own_provider me peers of
        Inl e \<Rightarrow> (False, s)
      | Inr p \<Rightarrow>
          let st = prune_expired_leases now p (sv_provider_state s)
          in (case st_get (st_leases st) i of
                None \<Rightarrow> (False, s)
              | Some l \<Rightarrow> if ls_peer_id l \<noteq> requester then (False, s)
                  else set_provider_state (Some (st\<lparr>st_leases := st_remove i (st_leases st)\<rparr>)) s))"

definition get_lease ::
  "nat \<Rightarrow> peer_id \<Rightarrow> peer_route list \<Rightarrow> peer_id \<Rightarrow> inst_id \<Rightarrow> inet6 option \<Rightarrow> ipv6_service \<Rightarrow> lease_error + provider \<times> lease" where
  "get_lease now me peers requester i requested s =
     (case own_provider me peers of
        Inl e \<Rightarrow> Inl e
      | Inr p \<Rightarrow>
          (case st_get (st_leases (prune_expired_leases now p (sv_provider_state s))) i of
             None \<Rightarrow> Inl LeaseNotFound
           | Some l \<Rightarrow>
               if ls_peer_id l \<noteq> requester then Inl OwnerMismatch
               else if requested \<noteq> None \<and> requested \<noteq> Some (ls_addr l) then Inl LeaseMismatch
               else Inr (p, l)))"

definition gc_provider_leases :: "nat \<Rightarrow> peer_id \<Rightarrow> peer_route list \<Rightarrow> ipv6_service \<Rightarrow> ipv6_service" where
  "gc_provider_leases now me peers s =
     (let p = selected_provider_from_snapshot peers;
          s1 = snd (clear_provider_state_if_provider_changed p s)
      in case own_provider me peers of
           Inl e \<Rightarrow> s1
         | Inr p \<Rightarrow> snd (set_provider_state (Some (prune_expired_leases now p (sv_provider_state s1))) s1))"

definition local_provider_state :: "nat \<Rightarrow> peer_id \<Rightarrow> peer_route list \<Rightarrow> ipv6_service \<Rightarrow> (provider \<times> lease list) option" where
  "local_provider_state now me peers s =
     (case own_provider me peers of
        Inl e \<Rightarrow> None
      | Inr p \<Rightarrow> Some (p, sort_key (\<lambda>l. (ls_peer_id l, ls_inst_id l, ls_addr l))
          (map snd (st_leases (prune_expired_leases now p (sv_provider_state s))))))"

section \<open>The client\<close>

text \<open>
  The route control: what is known of the peers, and \<open>publish\<close>, which announces this node's lease and tells whether
  that changed anything.
\<close>

type_synonym publisher = "inet6 option \<Rightarrow> peer_route list \<Rightarrow> bool \<times> peer_route list"

definition collect_runtime_from_snapshot :: "peer_id \<Rightarrow> peer_route list \<Rightarrow> ipv6_service \<Rightarrow> inet6 option \<times> inet6 set" where
  "collect_runtime_from_snapshot me peers s =
     fold (\<lambda>info (my_addr, routes). case pr6_lease info of
         None \<Rightarrow> (my_addr, routes)
       | Some l \<Rightarrow> if pr6_peer_id info = me then (Some l, routes)
           else if pr6_reachable info then (my_addr, insert l routes) else (my_addr, routes))
       peers (map_option (ls_addr \<circ> cl_lease) (sv_client_state s), {})"

definition reconcile_runtime_from_snapshot :: "bool \<Rightarrow> peer_id \<Rightarrow> peer_route list \<Rightarrow> ipv6_service \<Rightarrow> ipv6_service" where
  "reconcile_runtime_from_snapshot auto me peers s =
     (case collect_runtime_from_snapshot me peers s of (my_addr, routes) \<Rightarrow>
        s\<lparr>sv_my_addr_cache := (if auto then my_addr else None), sv_route_cache := routes\<rparr>)"

definition publish_current_client_lease :: "publisher \<Rightarrow> peer_route list \<Rightarrow> ipv6_service \<Rightarrow> bool \<times> peer_route list" where
  "publish_current_client_lease publish peers s = publish (map_option (ls_addr \<circ> cl_lease) (sv_client_state s)) peers"

definition handle_route_change :: "publisher \<Rightarrow> bool \<Rightarrow> peer_id \<Rightarrow> peer_route list \<Rightarrow> ipv6_service \<Rightarrow> bool \<times> peer_route list \<times> ipv6_service" where
  "handle_route_change publish auto me peers s =
     (let p = selected_provider_from_snapshot peers;
          s1 = snd (clear_provider_state_if_provider_changed p s)
      in case clear_client_state_if_provider_changed p s1 of
           (True, s2) \<Rightarrow> (case publish_current_client_lease publish peers s2 of (ch, peers') \<Rightarrow>
               (ch, peers', reconcile_runtime_from_snapshot auto me peers' s2))
         | (False, s2) \<Rightarrow> (False, peers, reconcile_runtime_from_snapshot auto me peers s2))"

definition clear_client_lease_state ::
  "publisher \<Rightarrow> bool \<Rightarrow> peer_id \<Rightarrow> bool \<Rightarrow> peer_route list \<Rightarrow> ipv6_service \<Rightarrow> bool \<times> peer_route list \<times> ipv6_service" where
  "clear_client_lease_state publish auto me changed peers s =
     (case set_client_state None s of (ch, s1) \<Rightarrow>
        if changed \<or> ch then (case publish None peers of (ch', peers') \<Rightarrow> (ch', peers', reconcile_runtime_from_snapshot auto me peers' s1))
        else (False, peers, s1))"

text \<open>The answer to a request: the address and the end of the lease if given, whether it was reused, the error.\<close>

record lease_reply =
  rp_provider :: provider
  rp_leased_addr :: "inet6 option"
  rp_valid_until :: "nat option"
  rp_reused :: bool
  rp_error :: "lease_error option"

definition build_lease_reply :: "provider \<Rightarrow> lease option \<Rightarrow> lease_error option \<Rightarrow> lease_reply" where
  "build_lease_reply p l e = \<lparr>rp_provider = p, rp_leased_addr = map_option ls_addr l, rp_valid_until = map_option ls_valid_until l,
     rp_reused = (case l of None \<Rightarrow> False | Some x \<Rightarrow> ls_reused x), rp_error = e\<rparr>"

text \<open>The handlers of the remote calls; \<^term>\<open>None\<close> is an error of the call itself.\<close>

definition reply_to_acquire :: "peer_route list \<Rightarrow> lease_error + lease \<Rightarrow> lease_reply option" where
  "reply_to_acquire peers r = map_option (\<lambda>p. case r of Inl e \<Rightarrow> build_lease_reply p None (Some e) | Inr l \<Rightarrow> build_lease_reply p (Some l) None)
     (selected_provider_from_snapshot peers)"

definition serve_get_lease :: "nat \<Rightarrow> peer_id \<Rightarrow> peer_route list \<Rightarrow> peer_id \<Rightarrow> inst_id option \<Rightarrow> ipv6_service \<Rightarrow> lease_reply option" where
  "serve_get_lease now me peers requester mi s = (case mi of
     None \<Rightarrow> None
   | Some i \<Rightarrow> (case get_lease now me peers requester i None s of
         Inr (p, l) \<Rightarrow> Some (build_lease_reply p (Some l) None)
       | Inl e \<Rightarrow> map_option (\<lambda>p. build_lease_reply p None (Some e)) (selected_provider_from_snapshot peers)))"

definition serve_release_lease :: "nat \<Rightarrow> peer_id \<Rightarrow> peer_route list \<Rightarrow> peer_id \<Rightarrow> inst_id option \<Rightarrow> ipv6_service \<Rightarrow> unit option \<times> ipv6_service" where
  "serve_release_lease now me peers requester mi s = (case mi of
     None \<Rightarrow> (None, s)
   | Some i \<Rightarrow> (Some (), snd (release_lease now me peers requester i s)))"

text \<open>The state after an answer.\<close>

definition take_reply ::
  "nat \<Rightarrow> peer_id \<Rightarrow> inst_id \<Rightarrow> provider \<Rightarrow> client_state option \<Rightarrow> lease_reply option \<Rightarrow> ipv6_service \<Rightarrow> (bool \<times> ipv6_service) option" where
  "take_reply now me i p current reply s =
     (case reply of
        Some rp \<Rightarrow>
          if rp_error rp = None then
            (case rp_leased_addr rp of
               None \<Rightarrow> None
             | Some addr \<Rightarrow> Some (set_client_state (Some \<lparr>cl_provider = p, cl_lease = \<lparr>ls_peer_id = me, ls_inst_id = i, ls_addr = addr,
                   ls_valid_until = (case rp_valid_until rp of None \<Rightarrow> now + PUBLIC_IPV6_LEASE_TTL | Some t \<Rightarrow> t), ls_reused = rp_reused rp\<rparr>\<rparr>) s))
          else Some (if (case current of None \<Rightarrow> True | Some c \<Rightarrow> ls_valid_until (cl_lease c) \<le> now) then set_client_state None s else (False, s))
      | None \<Rightarrow> Some (if (case current of None \<Rightarrow> True | Some c \<Rightarrow> ls_valid_until (cl_lease c) \<le> now) then set_client_state None s else (False, s)))"

text \<open>\<open>renew\<close> and \<open>acquire\<close> are the remote calls, \<open>rpc_up\<close> whether they can be made.\<close>

definition sync_client_state ::
  "publisher \<Rightarrow> (inet6 \<Rightarrow> lease_reply option) \<Rightarrow> lease_reply option \<Rightarrow> bool \<Rightarrow> nat \<Rightarrow> bool \<Rightarrow> peer_id \<Rightarrow> inst_id \<Rightarrow> peer_route list \<Rightarrow> ipv6_service \<Rightarrow>
     bool \<times> peer_route list \<times> ipv6_service" where
  "sync_client_state publish renew acquire rpc_up now auto me i peers s0 =
     (if \<not> auto then (case clear_client_state_if_provider_changed None s0 of (ch, s) \<Rightarrow> clear_client_lease_state publish auto me ch peers s)
      else
        let p = selected_provider_from_snapshot peers;
            (ch, s) = clear_client_state_if_provider_changed p (snd (clear_provider_state_if_provider_changed p s0));
            settled = (False, peers, if ch then reconcile_runtime_from_snapshot auto me peers s else s)
        in (case p of
              None \<Rightarrow> clear_client_lease_state publish auto me ch peers s
            | Some p \<Rightarrow>
                if pv6_peer_id p = me then clear_client_lease_state publish auto me ch peers s
                else
                  let current = sv_client_state s;
                      need_rpc = (case current of None \<Rightarrow> True
                        | Some c \<Rightarrow> cl_provider c \<noteq> p \<or> ls_valid_until (cl_lease c) \<le> now + PUBLIC_IPV6_RENEW_INTERVAL)
                  in if \<not> need_rpc \<or> \<not> rpc_up then settled
                     else
                       let reply = (case current of
                             Some c \<Rightarrow> if cl_provider c = p then
                                 (case renew (ls_addr (cl_lease c)) of
                                    Some rp \<Rightarrow> if rp_error rp = None then Some rp else acquire
                                  | None \<Rightarrow> acquire)
                               else acquire
                           | None \<Rightarrow> acquire)
                       in (case take_reply now me i p current reply s of
                             None \<Rightarrow> (False, peers, s)
                           | Some (ch', s1) \<Rightarrow>
                               if ch \<or> ch' then (case publish_current_client_lease publish peers s1 of (r, peers') \<Rightarrow>
                                 (r, peers', reconcile_runtime_from_snapshot auto me peers' s1))
                               else (False, peers, s1))))"

definition provider_peer_id_for_client :: "ipv6_service \<Rightarrow> peer_id option" where
  "provider_peer_id_for_client s = map_option (pv6_peer_id \<circ> cl_provider) (sv_client_state s)"

section \<open>Free offsets\<close>

lemma mod_reaches: "0 < (u::nat) \<Longrightarrow> r < u \<Longrightarrow> \<exists>k < u. (b + k) mod u = r"
proof -
  assume u: "0 < u" "r < u"
  let ?k = "(r + u - b mod u) mod u"
  have "(b + ?k) mod u = (b mod u + (r + u - b mod u)) mod u" by (simp add: mod_simps)
  also have "\<dots> = (r + u) mod u" using u(1) by (simp add: less_imp_le trans_le_add2)
  finally show ?thesis using u by (intro exI [of _ ?k]) simp
qed

lemma find_offset_Some: "find_offset usable start used step = Some off \<Longrightarrow> off \<notin> set used \<and> 1 \<le> off \<and> off \<le> usable"
proof (induction usable start used step rule: find_offset.induct)
  case (1 usable start used step)
  show ?case
    using "1.prems" "1.IH" by (subst (asm) find_offset.simps) (auto simp: Let_def Suc_le_eq split: if_splits)
qed

lemma find_offset_None:
  "find_offset usable start used step = None \<Longrightarrow> step \<le> k \<Longrightarrow> k < usable \<Longrightarrow> (start - 1 + k) mod usable + 1 \<in> set used"
proof (induction usable start used step rule: find_offset.induct)
  case (1 usable start used step)
  from "1.prems" have step: "step < usable" by simp
  with "1.prems"(1) have taken: "(start - 1 + step) mod usable + 1 \<in> set used"
    and rest: "find_offset usable start used (Suc step) = None"
    by (subst (asm) find_offset.simps, auto simp: Let_def split: if_splits)+
  show ?case
  proof (cases "k = step")
    case True with taken show ?thesis by simp
  next
    case False
    with "1.prems"(2,3) "1.IH" [OF step refl taken rest] show ?thesis by simp
  qed
qed

lemma free_offset_Some:
  assumes "free_offset i m used = Some off" "0 < m"
  shows "off < m" "off \<notin> set used" "off = 0 \<Longrightarrow> m = 1"
proof -
  have f: "off \<notin> set used \<and> 1 \<le> off \<and> off \<le> m - 1" if "find_offset (m - 1) start used 0 = Some off" for start
    using find_offset_Some [OF that] .
  show "off < m" using assms f by (fastforce simp: free_offset_def Let_def split: if_splits)
  show "off \<notin> set used" "off = 0 \<Longrightarrow> m = 1" using assms f by (auto simp: free_offset_def Let_def split: if_splits)
qed

lemma free_offset_None:
  assumes "free_offset i m used = None" "off < m" "off = 0 \<longrightarrow> m = 1"
  shows "off \<in> set used"
proof (cases "m = 1")
  case True
  with assms show ?thesis by (auto simp: free_offset_def Let_def split: if_splits)
next
  case False
  let ?u = "m - 1"
  have u: "0 < ?u" "off - 1 < ?u" using False assms(2,3) by auto
  then obtain k where k: "k < ?u" "(unat i mod ?u + k) mod ?u = off - 1" using mod_reaches by blast
  have "find_offset ?u (unat i mod ?u + 1) used 0 = None" using assms(1) u(1) by (auto simp: free_offset_def Let_def split: if_splits)
  from find_offset_None [OF this _ k(1)] k(2) show ?thesis using False assms(3) by simp
qed

section \<open>Allocation of an address\<close>

text \<open>What the crate documents of a prefix: it is aligned, and it contains the addresses from its first one on.\<close>

definition prefix_ok :: "(cidr6 \<Rightarrow> u128 \<Rightarrow> bool) \<Rightarrow> cidr6 \<Rightarrow> bool" where
  "prefix_ok contains c \<longleftrightarrow> network_length c \<le> 128 \<and> unat (first_address c) + 2 ^ (128 - network_length c) \<le> 2 ^ 128
     \<and> (\<forall>a. contains c a \<longleftrightarrow> unat (first_address c) \<le> unat a \<and> unat a < unat (first_address c) + 2 ^ (128 - network_length c))"

lemma unat_address:
  assumes "prefix_ok contains c" "off < 2 ^ (128 - network_length c)"
  shows "unat (first_address c + of_nat off) = unat (first_address c) + off"
proof -
  have "unat (first_address c) + off < 2 ^ 128" using assms by (simp add: prefix_ok_def)
  moreover have "unat (of_nat off :: u128) = off" using assms calculation by (simp add: unat_of_nat)
  ultimately show ?thesis by (simp add: unat_word_ariths(1))
qed

lemma allocate_one:
  assumes "st_get old i = None"
  shows "allocate_public_ipv6_leases contains c [i] taken old =
    (if network_length c = 0 then [] else
      case free_offset i (2 ^ (128 - network_length c)) (map (offset_in c) (filter (contains c) taken)) of
        None \<Rightarrow> []
      | Some off \<Rightarrow> [\<lparr>ls_peer_id = 0, ls_inst_id = i, ls_addr = (first_address c + of_nat off, 128), ls_valid_until = 0, ls_reused = False\<rparr>])"
  using assms by (auto simp: allocate_public_ipv6_leases_def Let_def split: option.split)

lemma allocated_free:
  assumes "prefix_ok contains c" "st_get old i = None" "allocate_public_ipv6_leases contains c [i] taken old = l # ls"
  shows "ls = []" "ls_inst_id l = i" "contains c (fst (ls_addr l))" "fst (ls_addr l) \<notin> set taken"
proof -
  let ?used = "map (offset_in c) (filter (contains c) taken)" and ?m = "2 ^ (128 - network_length c) :: nat"
  obtain off where off: "free_offset i ?m ?used = Some off" "ls = []" "ls_inst_id l = i" "ls_addr l = (first_address c + of_nat off, 128)"
    using assms(3) allocate_one [OF assms(2), of contains c taken] by (auto split: if_splits option.splits)
  note f = free_offset_Some [OF off(1)]
  have a: "unat (first_address c + of_nat off) = unat (first_address c) + off" using unat_address [OF assms(1)] f(1) by simp
  show "ls = []" "ls_inst_id l = i" using off by simp_all
  show c: "contains c (fst (ls_addr l))" using assms(1) a f(1) off(4) by (simp add: prefix_ok_def)
  show "fst (ls_addr l) \<notin> set taken"
  proof
    assume "fst (ls_addr l) \<in> set taken"
    then have "offset_in c (fst (ls_addr l)) \<in> set ?used" using c by auto
    then show False using f(2) off(4) a by (simp add: offset_in_def)
  qed
qed

lemma not_allocated:
  assumes "prefix_ok contains c" "st_get old i = None" "allocate_public_ipv6_leases contains c [i] taken old = []"
    and "network_length c \<noteq> 0" "contains c a" "a \<noteq> first_address c \<or> network_length c = 128"
  shows "a \<in> set taken"
proof -
  let ?used = "map (offset_in c) (filter (contains c) taken)" and ?m = "2 ^ (128 - network_length c) :: nat"
  have none: "free_offset i ?m ?used = None"
    using assms(3,4) allocate_one [OF assms(2), of contains c taken] by (auto split: if_splits option.splits)
  have a: "unat (first_address c) \<le> unat a" "unat a < unat (first_address c) + ?m" using assms(1,5) by (auto simp: prefix_ok_def)
  have off: "offset_in c a < ?m" using a by (simp add: offset_in_def)
  have "offset_in c a = 0 \<longrightarrow> ?m = 1"
    using assms(6) a(1) by (auto simp: offset_in_def word_unat_eq_iff)
  from free_offset_None [OF none off this] obtain b where b: "b \<in> set taken" "contains c b" "offset_in c b = offset_in c a" by auto
  then have "unat (first_address c) \<le> unat b" using assms(1) by (simp add: prefix_ok_def)
  with b(3) a(1) have "unat a = unat b" by (simp add: offset_in_def)
  with b(1) show ?thesis by (metis word_unat_eq_iff)
qed

section \<open>Leases are unique\<close>

definition leases_ok :: "provider_state \<Rightarrow> bool" where
  "leases_ok st \<longleftrightarrow> st_wf (st_leases st) \<and> (\<forall>i j l m. st_get (st_leases st) i = Some l \<longrightarrow> st_get (st_leases st) j = Some m \<longrightarrow>
     fst (ls_addr l) = fst (ls_addr m) \<longrightarrow> i = j)"

definition service_ok :: "ipv6_service \<Rightarrow> bool" where
  "service_ok s \<longleftrightarrow> (\<forall>st. sv_provider_state s = Some st \<longrightarrow> leases_ok st)"

lemma set_provider_ok: "service_ok s \<Longrightarrow> (\<forall>st. x = Some st \<longrightarrow> leases_ok st) \<Longrightarrow> service_ok (snd (set_provider_state x s))"
  by (auto simp: set_provider_state_def service_ok_def)

lemma clear_provider_ok: "service_ok s \<Longrightarrow> service_ok (snd (clear_provider_state_if_provider_changed p s))"
  by (auto simp: clear_provider_state_if_provider_changed_def set_provider_state_def service_ok_def split: option.split)

lemma prune_ok: "service_ok s \<Longrightarrow> leases_ok (prune_expired_leases now p (sv_provider_state s))"
  by (cases "sv_provider_state s") (auto simp: prune_expired_leases_def leases_ok_def service_ok_def Let_def store_simps st.get_retain_Some_iff)

lemma leases_get_mem: "st_wf m \<Longrightarrow> st_get m i = Some l \<longleftrightarrow> (i, l) \<in> set m"
  by (simp add: st_get_def st_wf_def)

lemma leases_ok_same:
  assumes "leases_ok st" "st_get (st_leases st) i = Some l" "ls_addr l' = ls_addr l"
  shows "leases_ok (st\<lparr>st_leases := st_insert i l' (st_leases st)\<rparr>)"
  using assms by (auto simp: leases_ok_def store_simps split: if_splits)

lemma leases_ok_fresh:
  assumes "leases_ok st" "\<forall>j m. st_get (st_leases st) j = Some m \<longrightarrow> fst (ls_addr m) \<noteq> fst (ls_addr l)"
  shows "leases_ok (st\<lparr>st_leases := st_insert i l (st_leases st)\<rparr>)"
  using assms unfolding leases_ok_def by (simp add: store_simps split: if_splits) metis

lemma old_map_None: "st_get m i = None \<Longrightarrow> st_get (map (\<lambda>(j, l). (j, ls_addr l)) m) i = None"
  by (auto simp: st_get_def map_of_eq_None_iff image_iff)

lemma finish_cases:
  assumes "acquire_finish contains now host p st requester i s = (r, s')" "st_get (st_leases st) i = None" "prefix_ok contains (pv6_prefix p)" "leases_ok st"
  obtains (given) l where "r = Inr l" "s' = snd (set_provider_state (Some (st\<lparr>st_leases := st_insert i l (st_leases st)\<rparr>)) s)"
      "contains (pv6_prefix p) (fst (ls_addr l))" "fst (ls_addr l) \<notin> set host"
      "\<forall>j m. st_get (st_leases st) j = Some m \<longrightarrow> fst (ls_addr m) \<noteq> fst (ls_addr l)"
  | (full) "r = Inl NoFreeAddress" "s' = s"
      "\<And>a. network_length (pv6_prefix p) \<noteq> 0 \<Longrightarrow> contains (pv6_prefix p) a \<Longrightarrow> a \<noteq> first_address (pv6_prefix p) \<or> network_length (pv6_prefix p) = 128 \<Longrightarrow>
        a \<in> set host \<or> (\<exists>j m. st_get (st_leases st) j = Some m \<and> fst (ls_addr m) = a)"
proof -
  define taken where "taken = host @ map (\<lambda>(j, l). fst (ls_addr l)) (st_leases st)"
  define old where "old = map (\<lambda>(j, l). (j, ls_addr l)) (st_leases st)"
  have old: "st_get old i = None" using old_map_None [OF assms(2)] by (simp add: old_def)
  have wf: "st_wf (st_leases st)" using assms(4) by (simp add: leases_ok_def)
  have held: "st_get (st_leases st) j = Some m \<Longrightarrow> fst (ls_addr m) \<in> set taken" for j m
    using leases_get_mem [OF wf, of j m] by (force simp: taken_def)
  note fin = assms(1) [unfolded acquire_finish_def Let_def, folded taken_def old_def]
  show thesis
  proof (cases "allocate_public_ipv6_leases contains (pv6_prefix p) [i] taken old")
    case Nil
    show thesis
    proof (rule full)
      fix a assume a: "network_length (pv6_prefix p) \<noteq> 0" "contains (pv6_prefix p) a" "a \<noteq> first_address (pv6_prefix p) \<or> network_length (pv6_prefix p) = 128"
      have "a \<in> set taken" by (rule not_allocated [OF assms(3) old Nil a])
      then show "a \<in> set host \<or> (\<exists>j m. st_get (st_leases st) j = Some m \<and> fst (ls_addr m) = a)"
        using leases_get_mem [OF wf] by (force simp: taken_def)
    qed (use fin Nil in auto)
  next
    case (Cons l ls)
    note al = allocated_free [OF assms(3) old Cons]
    have no: "\<forall>j m. st_get (st_leases st) j = Some m \<longrightarrow> fst (ls_addr m) \<noteq> fst (ls_addr l)" using held al(4) by metis
    show thesis
      by (rule given [of "l\<lparr>ls_peer_id := requester, ls_valid_until := now + PUBLIC_IPV6_LEASE_TTL\<rparr>"])
        (use fin Cons al no in \<open>auto simp: taken_def\<close>)
  qed
qed

lemma start_cases:
  assumes "acquire_start now me peers requester i renew_only requested s = (pr, s')"
  obtains (refused) e where "pr = Answered (Inl e)" "s' = s"
  | (renewed) p l l' where "own_provider me peers = Inr p" "st_get (st_leases (prune_expired_leases now p (sv_provider_state s))) i = Some l"
      "pr = Answered (Inr l')" "ls_addr l' = ls_addr l"
      "s' = snd (set_provider_state (Some ((prune_expired_leases now p (sv_provider_state s))\<lparr>st_leases := st_insert i l'
        (st_leases (prune_expired_leases now p (sv_provider_state s)))\<rparr>)) s)"
  | (waiting) p where "own_provider me peers = Inr p" "pr = Waiting p (prune_expired_leases now p (sv_provider_state s))"
      "st_get (st_leases (prune_expired_leases now p (sv_provider_state s))) i = None" "s' = s"
proof (cases "own_provider me peers")
  case (Inl e)
  with assms refused show thesis by (auto simp: acquire_start_def)
next
  case (Inr p)
  define st where "st = prune_expired_leases now p (sv_provider_state s)"
  note start = assms [unfolded acquire_start_def Inr sum.case Let_def, folded st_def]
  show thesis
  proof (cases "st_get (st_leases st) i")
    case None
    with start refused waiting [OF Inr, folded st_def] show thesis by (auto split: if_splits)
  next
    case (Some l)
    with start refused renewed [OF Inr, folded st_def, OF Some] show thesis by (auto split: if_splits)
  qed
qed

text \<open>
  The provider's operations read the table of leases at one moment and write a whole new one later; other operations may
  come between, in particular while a request waits for the addresses of the host.  The run keeps every table the service
  has had, and an operation may start from any of them.
\<close>

inductive lease_history :: "(cidr6 \<Rightarrow> u128 \<Rightarrow> bool) \<Rightarrow> provider_state option list \<Rightarrow> ipv6_service \<Rightarrow> bool" for contains where
  hist_start: "lease_history contains [None] ipv6_service_new"
| hist_renew: "lease_history contains h s \<Longrightarrow> old \<in> set h \<Longrightarrow>
    acquire_start now me peers requester i renew_only requested (s\<lparr>sv_provider_state := old\<rparr>) = (Answered (Inr l), s') \<Longrightarrow>
    lease_history contains (sv_provider_state s' # h) s'"
| hist_grant: "lease_history contains h s \<Longrightarrow> old \<in> set h \<Longrightarrow>
    acquire_start now me peers requester i renew_only requested (s\<lparr>sv_provider_state := old\<rparr>) = (Waiting p st, s1) \<Longrightarrow>
    prefix_ok contains (pv6_prefix p) \<Longrightarrow>
    acquire_finish contains now' (collect_reserved_addrs contains (pv6_prefix p) ifs pub) p st requester i s = (Inr l, s') \<Longrightarrow>
    lease_history contains (sv_provider_state s' # h) s'"
| hist_release: "lease_history contains h s \<Longrightarrow> old \<in> set h \<Longrightarrow>
    release_lease now me peers requester i (s\<lparr>sv_provider_state := old\<rparr>) = (True, s') \<Longrightarrow>
    lease_history contains (sv_provider_state s' # h) s'"
| hist_gc: "lease_history contains h s \<Longrightarrow> old \<in> set h \<Longrightarrow> own_provider me peers = Inr p \<Longrightarrow>
    gc_provider_leases now me peers (s\<lparr>sv_provider_state := old\<rparr>) = s' \<Longrightarrow> lease_history contains (sv_provider_state s' # h) s'"
| hist_clear: "lease_history contains h s \<Longrightarrow> lease_history contains (None # h) (s\<lparr>sv_provider_state := None\<rparr>)"
| hist_route: "lease_history contains h s \<Longrightarrow> handle_route_change publish auto me peers s = (b, peers', s') \<Longrightarrow>
    lease_history contains (sv_provider_state s' # h) s'"
| hist_sync: "lease_history contains h s \<Longrightarrow> sync_client_state publish renew acquire rpc_up now auto me i peers s = (b, peers', s') \<Longrightarrow>
    lease_history contains (sv_provider_state s' # h) s'"

definition lease_run :: "(cidr6 \<Rightarrow> u128 \<Rightarrow> bool) \<Rightarrow> ipv6_service \<Rightarrow> bool" where
  "lease_run contains s \<longleftrightarrow> (\<exists>h. lease_history contains h s)"

lemma renew_ok:
  assumes "acquire_start now me peers requester i renew_only requested s = (Answered (Inr l), s')" "service_ok s"
  shows "service_ok s'"
  using assms(1)
proof (cases rule: start_cases)
  case (renewed p l l')
  with set_provider_ok [OF assms(2)] leases_ok_same [OF prune_ok [OF assms(2)] renewed(2,4)] show ?thesis by simp
qed auto

lemma grant_ok:
  assumes "acquire_start now me peers requester i renew_only requested s0 = (Waiting p st, s1)" "service_ok s0" "service_ok s"
    and "acquire_finish contains now' host p st requester i s = (Inr l, s')" "prefix_ok contains (pv6_prefix p)"
  shows "service_ok s'"
  using assms(1)
proof (cases rule: start_cases)
  case (waiting q)
  then have st: "st_get (st_leases st) i = None" "leases_ok st" using prune_ok [OF assms(2)] by auto
  show ?thesis
    using assms(4) st(1) assms(5) st(2)
  proof (cases rule: finish_cases)
    case (given l)
    with set_provider_ok [OF assms(3)] leases_ok_fresh [OF st(2) given(5)] show ?thesis by simp
  qed auto
qed auto

lemma release_ok: "release_lease now me peers requester i s = (b, s') \<Longrightarrow> service_ok s \<Longrightarrow> service_ok s'"
proof -
  assume r: "release_lease now me peers requester i s = (b, s')" and s: "service_ok s"
  have "leases_ok (st\<lparr>st_leases := st_remove i (st_leases st)\<rparr>)" if "leases_ok st" for st
    using that by (auto simp: leases_ok_def store_simps split: if_splits)
  with prune_ok [OF s] set_provider_ok [OF s] r s show "service_ok s'"
    by (auto simp: release_lease_def Let_def split: sum.splits option.splits if_splits) (metis option.inject snd_conv)+
qed

lemma gc_ok: "service_ok s \<Longrightarrow> service_ok (gc_provider_leases now me peers s)"
  using clear_provider_ok prune_ok set_provider_ok
  by (auto simp: gc_provider_leases_def Let_def split: sum.split)

lemma client_keeps_provider:
  "sv_provider_state (snd (set_client_state x s)) = sv_provider_state s" "sv_provider_state (snd (clear_client_state_if_provider_changed p s)) = sv_provider_state s"
  "sv_provider_state (reconcile_runtime_from_snapshot auto me peers s) = sv_provider_state s"
  "sv_provider_state (snd (snd (clear_client_lease_state publish auto me ch peers s))) = sv_provider_state s"
  by (auto simp: set_client_state_def clear_client_state_if_provider_changed_def reconcile_runtime_from_snapshot_def clear_client_lease_state_def
      split: option.split prod.split)

lemma take_reply_keeps: "take_reply now me i p current reply s = Some (ch, s') \<Longrightarrow> sv_provider_state s' = sv_provider_state s"
  by (auto simp: take_reply_def set_client_state_def split: option.splits if_splits)

lemma service_ok_same: "sv_provider_state s' = sv_provider_state s \<Longrightarrow> service_ok s' = service_ok s"
  by (simp add: service_ok_def)

lemma route_ok:
  assumes "handle_route_change publish auto me peers s = (b, peers', s')" "service_ok s"
  shows "service_ok s'"
proof -
  let ?p = "selected_provider_from_snapshot peers" and ?s1 = "snd (clear_provider_state_if_provider_changed (selected_provider_from_snapshot peers) s)"
  obtain c s2 where c: "clear_client_state_if_provider_changed ?p ?s1 = (c, s2)" by fastforce
  then have "sv_provider_state s2 = sv_provider_state ?s1" using client_keeps_provider(2) by (metis snd_conv)
  moreover have "sv_provider_state s' = sv_provider_state s2"
    using assms(1) c by (auto simp: handle_route_change_def Let_def client_keeps_provider split: bool.splits prod.splits)
  ultimately show ?thesis using clear_provider_ok [OF assms(2)] service_ok_same by metis
qed

lemma sync_ok:
  assumes "sync_client_state publish renew acquire rpc_up now auto me i peers s = (b, peers', s')" "service_ok s"
  shows "service_ok s'"
proof (cases auto)
  case False
  obtain ch s1 where c: "clear_client_state_if_provider_changed None s = (ch, s1)" by fastforce
  then have "sv_provider_state s1 = sv_provider_state s" using client_keeps_provider(2) by (metis snd_conv)
  moreover have "sv_provider_state s' = sv_provider_state s1"
    using assms(1) c False client_keeps_provider(4) [of publish auto me ch peers s1] by (simp add: sync_client_state_def)
  ultimately show ?thesis using assms(2) service_ok_same by metis
next
  case True
  let ?p = "selected_provider_from_snapshot peers" and ?s1 = "snd (clear_provider_state_if_provider_changed (selected_provider_from_snapshot peers) s)"
  obtain ch s2 where c: "clear_client_state_if_provider_changed ?p ?s1 = (ch, s2)" by fastforce
  then have 2: "sv_provider_state s2 = sv_provider_state ?s1" using client_keeps_provider(2) by (metis snd_conv)
  have cl: "sv_provider_state s' = sv_provider_state s2" if "clear_client_lease_state publish True me ch peers s2 = (b, peers', s')"
    using that client_keeps_provider(4) [of publish True me ch peers s2] by simp
  note run = assms(1) [unfolded sync_client_state_def Let_def c prod.case]
  have "sv_provider_state s' = sv_provider_state s2"
  proof (cases ?p)
    case None
    with run True cl show ?thesis by simp
  next
    case (Some p)
    with run True cl take_reply_keeps show ?thesis
      by (auto simp: client_keeps_provider split: if_splits option.splits prod.splits)
  qed
  with 2 show ?thesis using clear_provider_ok [OF assms(2)] service_ok_same by metis
qed

text \<open>Every table the service has had is consistent.\<close>

definition history_ok :: "provider_state option list \<Rightarrow> ipv6_service \<Rightarrow> bool" where
  "history_ok h s \<longleftrightarrow> service_ok s \<and> sv_provider_state s \<in> set h \<and> (\<forall>st. Some st \<in> set h \<longrightarrow> leases_ok st)"

lemma history_ok_old: "history_ok h s \<Longrightarrow> old \<in> set h \<Longrightarrow> service_ok (s\<lparr>sv_provider_state := old\<rparr>)"
  by (auto simp: history_ok_def service_ok_def)

lemma history_okI: "history_ok h s \<Longrightarrow> service_ok s' \<Longrightarrow> history_ok (sv_provider_state s' # h) s'"
  by (auto simp: history_ok_def service_ok_def)

lemma lease_history_ok: "lease_history contains h s \<Longrightarrow> history_ok h s"
proof (induction rule: lease_history.induct)
  case hist_start
  show ?case by (simp add: history_ok_def service_ok_def ipv6_service_new_def)
next
  case (hist_renew h s old now me peers requester i renew_only requested l s')
  then show ?case using history_ok_old [of h s old] by (auto intro: history_okI renew_ok)
next
  case (hist_grant h s old now me peers requester i renew_only requested p st s1 now' ifs pub l s')
  then have "service_ok s'" using history_ok_old [of h s old] grant_ok by (fastforce simp: history_ok_def)
  with hist_grant show ?case by (auto intro: history_okI)
next
  case (hist_release h s old now me peers requester i s')
  then show ?case using history_ok_old [of h s old] by (auto intro: history_okI release_ok)
next
  case (hist_gc h s old me peers p now s')
  then show ?case using history_ok_old [of h s old] gc_ok by (auto intro: history_okI)
next
  case (hist_clear h s)
  then show ?case by (auto simp: history_ok_def service_ok_def)
next
  case (hist_route h s publish auto me peers b peers' s')
  then have "service_ok s'" using route_ok by (auto simp: history_ok_def)
  with hist_route show ?case by (auto intro: history_okI)
next
  case (hist_sync h s publish renew acquire rpc_up now auto me i peers b peers' s')
  then have "service_ok s'" using sync_ok by (auto simp: history_ok_def)
  with hist_sync show ?case by (auto intro: history_okI)
qed

lemma lease_run_ok: "lease_run contains s \<Longrightarrow> service_ok s"
  using lease_history_ok by (auto simp: lease_run_def history_ok_def)

text \<open>A request that nothing interrupts is part of a run.\<close>

lemma run_acquire:
  assumes "lease_run contains s" and "\<And>p. own_provider me peers = Inr p \<Longrightarrow> prefix_ok contains (pv6_prefix p)"
    and "acquire_lease contains now ifs pub me peers requester i renew_only requested s = (r, s')"
  shows "lease_run contains s'"
proof -
  obtain h where h: "lease_history contains h s" using assms(1) by (auto simp: lease_run_def)
  then have cur: "sv_provider_state s \<in> set h" using lease_history_ok by (auto simp: history_ok_def)
  have same: "s\<lparr>sv_provider_state := sv_provider_state s\<rparr> = s" by simp
  obtain pr s1 where st: "acquire_start now me peers requester i renew_only requested s = (pr, s1)" by fastforce
  then show ?thesis
  proof (cases rule: start_cases)
    case (refused e)
    with st assms(1,3) show ?thesis by (simp add: acquire_lease_def)
  next
    case (renewed p l l')
    with st assms(3) have "s' = s1" by (simp add: acquire_lease_def)
    with hist_renew [OF h cur, unfolded same, OF st [unfolded renewed(3)]] show ?thesis unfolding lease_run_def by blast
  next
    case (waiting p)
    let ?st = "prune_expired_leases now p (sv_provider_state s)" and ?host = "collect_reserved_addrs contains (pv6_prefix p) ifs pub"
    have fin: "acquire_finish contains now ?host p ?st requester i s = (r, s')"
      using st waiting assms(3) by (simp add: acquire_lease_def)
    show ?thesis
    proof (cases r)
      case (Inl e)
      then have "s' = s" using fin by (auto simp: acquire_finish_def Let_def split: list.splits)
      with assms(1) show ?thesis by simp
    next
      case (Inr l)
      show ?thesis
        using hist_grant [OF h cur, unfolded same, OF st [unfolded waiting(2)] assms(2) [OF waiting(1)] fin [unfolded Inr]]
        unfolding lease_run_def by blast
    qed
  qed
qed

text \<open>
  C39: no address is on record for two instances.  However requests, renewals, releases, clean-ups, changes of the
  provider and the node's own client alternate and overlap, each operation working on a table of leases it may have read
  long before it writes the new one: the leases a provider has on record at one time for different instances are for
  different addresses.  Of two overlapping requests the later write can take the lease of the other off the record, so
  that both hold the same address.
\<close>

theorem leases_unique:
  assumes "lease_run contains s" and "sv_provider_state s = Some st" and "st_get (st_leases st) i = Some l" and "st_get (st_leases st) j = Some m" and "i \<noteq> j"
  shows "fst (ls_addr l) \<noteq> fst (ls_addr m)"
  using lease_run_ok [OF assms(1)] assms(2-5) by (auto simp: service_ok_def leases_ok_def)

text \<open>
  C40: a request finds a free address when there is one.  The selected provider answers a request for a new lease with
  the instance's address if it still has a lease, and otherwise with an address of its prefix that neither the host nor
  another live lease uses, on record from then on; it refuses only when every address of the prefix but the first is in
  use, whatever slot the search starts from.
\<close>

theorem acquire_finds_free_address:
  assumes "lease_run contains s" and "own_provider me peers = Inr p" and "prefix_ok contains (pv6_prefix p)" and "network_length (pv6_prefix p) \<noteq> 0"
    and "acquire_lease contains now ifs pub me peers requester i False None s = (r, s')"
  shows "case r of
      Inr l \<Rightarrow> (\<exists>st. sv_provider_state s' = Some st \<and> st_get (st_leases st) i = Some l)
        \<and> (case st_get (st_leases (prune_expired_leases now p (sv_provider_state s))) i of
             Some l0 \<Rightarrow> ls_addr l = ls_addr l0
           | None \<Rightarrow> contains (pv6_prefix p) (fst (ls_addr l)) \<and> fst (ls_addr l) \<notin> set (collect_reserved_addrs contains (pv6_prefix p) ifs pub)
               \<and> (\<forall>j m. st_get (st_leases (prune_expired_leases now p (sv_provider_state s))) j = Some m \<longrightarrow> fst (ls_addr m) \<noteq> fst (ls_addr l)))
    | Inl e \<Rightarrow> e = NoFreeAddress \<and> s' = s
        \<and> (\<forall>a. contains (pv6_prefix p) a \<longrightarrow> a \<noteq> first_address (pv6_prefix p) \<longrightarrow> a \<in> set (collect_reserved_addrs contains (pv6_prefix p) ifs pub)
             \<or> (\<exists>j m. st_get (st_leases (prune_expired_leases now p (sv_provider_state s))) j = Some m \<and> fst (ls_addr m) = a))"
proof -
  have ok: "service_ok s" by (rule lease_run_ok [OF assms(1)])
  have kept: "\<exists>st'. sv_provider_state (snd (set_provider_state (Some st) s)) = Some st' \<and> st_get (st_leases st') i = Some l"
    if "st_get (st_leases st) i = Some l" for st l
    using that by (auto simp: set_provider_state_def)
  define st where "st = prune_expired_leases now p (sv_provider_state s)"
  have st: "leases_ok st" unfolding st_def by (rule prune_ok [OF ok])
  show ?thesis
  proof (cases "st_get (st_leases st) i")
    case (Some l0)
    let ?l = "l0\<lparr>ls_peer_id := requester, ls_valid_until := now + PUBLIC_IPV6_LEASE_TTL, ls_reused := True\<rparr>"
    have "r = Inr ?l" "s' = snd (set_provider_state (Some (st\<lparr>st_leases := st_insert i ?l (st_leases st)\<rparr>)) s)"
      using assms(2,5) Some by (auto simp: acquire_lease_def acquire_start_def Let_def st_def [symmetric])
    then show ?thesis
      using Some kept [of "st\<lparr>st_leases := st_insert i ?l (st_leases st)\<rparr>" ?l] by (simp add: st_def [symmetric] store_simps)
  next
    case None
    then have fin: "acquire_finish contains now (collect_reserved_addrs contains (pv6_prefix p) ifs pub) p st requester i s = (r, s')"
      using assms(2,5) by (simp add: acquire_lease_def acquire_start_def Let_def st_def [symmetric])
    show ?thesis
      using fin None assms(3) st
    proof (cases rule: finish_cases)
      case (given l)
      with None kept [of "st\<lparr>st_leases := st_insert i l (st_leases st)\<rparr>" l] show ?thesis by (simp add: st_def [symmetric] store_simps)
    next
      case full
      with assms(4) show ?thesis by (auto simp: st_def [symmetric])
    qed
  qed
qed

text \<open>
  Requests that overlap: each reads the table before it waits and writes the whole table back after, so of two requests
  that wait at once the second takes no notice of the first.
\<close>

lemma overlapping_requests_share:
  assumes "own_provider me peers = Inr p" and "prune_expired_leases now p (sv_provider_state s) = st" and "st_get (st_leases st) i = None"
    and "st_get (st_leases st) j = None" and "i \<noteq> j" and "unat i mod (2 ^ (128 - network_length (pv6_prefix p)) - 1) = unat j mod (2 ^ (128 - network_length (pv6_prefix p)) - 1)"
    and "acquire_finish contains now host p st a i s = (Inr l, s1)"
  shows "acquire_start now me peers a i False None s = (Waiting p st, s) \<and> acquire_start now me peers b j False None s = (Waiting p st, s)
    \<and> (\<exists>m s2 st2. acquire_finish contains now host p st b j s1 = (Inr m, s2) \<and> ls_addr m = ls_addr l
      \<and> sv_provider_state s2 = Some st2 \<and> st_get (st_leases st2) i = None)"
proof -
  define c where "c = pv6_prefix p"
  define taken where "taken = host @ map (\<lambda>(j, l). fst (ls_addr l)) (st_leases st)"
  define old where "old = map (\<lambda>(j, l). (j, ls_addr l)) (st_leases st)"
  have old: "st_get old i = None" "st_get old j = None" using assms(3,4) by (simp_all add: old_def old_map_None)
  have same: "free_offset i (2 ^ (128 - network_length c)) u = free_offset j (2 ^ (128 - network_length c)) u" for u
    using assms(6) by (simp add: free_offset_def Let_def c_def)
  note fin = acquire_finish_def [unfolded Let_def, of contains now host p st, folded taken_def old_def c_def]
  obtain off where off: "network_length c \<noteq> 0" "free_offset i (2 ^ (128 - network_length c)) (map (offset_in c) (filter (contains c) taken)) = Some off"
      "ls_addr l = (first_address c + of_nat off, 128)"
    using assms(7) unfolding fin allocate_one [OF old(1)] by (auto split: if_splits option.splits)
  then obtain m where m: "acquire_finish contains now host p st b j s1
      = (Inr m, snd (set_provider_state (Some (st\<lparr>st_leases := st_insert j m (st_leases st)\<rparr>)) s1))" "ls_addr m = ls_addr l"
    unfolding fin allocate_one [OF old(2)] using same by auto
  have "\<exists>st2. sv_provider_state (snd (set_provider_state (Some (st\<lparr>st_leases := st_insert j m (st_leases st)\<rparr>)) s1)) = Some st2 \<and> st_get (st_leases st2) i = None"
    using assms(3,5) by (auto simp: set_provider_state_def store_simps)
  with m assms(1-4) show ?thesis by (auto simp: acquire_start_def Let_def)
qed

section \<open>A provider with three addresses\<close>

definition in_prefix :: "cidr6 \<Rightarrow> u128 \<Rightarrow> bool" where
  "in_prefix c a \<longleftrightarrow> unat (first_address c) \<le> unat a \<and> unat a < unat (first_address c) + 2 ^ (128 - network_length c)"

definition sample_provider :: provider where
  "sample_provider = \<lparr>pv6_peer_id = 3, pv6_inst_id = 9, pv6_prefix = \<lparr>first_address = 16, network_length = 126\<rparr>\<rparr>"

definition sample_peers :: "peer_route list" where
  "sample_peers = [\<lparr>pr6_peer_id = 3, pr6_inst_id = Some 9, pr6_is_provider = True, pr6_prefix = Some \<lparr>first_address = 16, network_length = 126\<rparr>,
     pr6_lease = None, pr6_reachable = True\<rparr>]"

definition sample_lease :: "inst_id \<Rightarrow> u128 \<Rightarrow> lease" where
  "sample_lease i a = \<lparr>ls_peer_id = 4, ls_inst_id = i, ls_addr = (a, 128), ls_valid_until = 120001, ls_reused = False\<rparr>"

lemma sample_own: "own_provider 3 sample_peers = Inr sample_provider"
  by (simp add: own_provider_def sample_peers_def sample_provider_def selected_provider_from_snapshot_def provider_of_def List.map_filter_def)

lemma sample_prefix: "prefix_ok in_prefix (pv6_prefix sample_provider)"
  by (simp add: prefix_ok_def in_prefix_def sample_provider_def)

lemma sample_first:
  "acquire_lease in_prefix 1 [17] None 3 sample_peers 4 5 False None ipv6_service_new
    = (Inr (sample_lease 5 19), ipv6_service_new\<lparr>sv_provider_state := Some \<lparr>st_provider = sample_provider, st_leases = [(5, sample_lease 5 19)]\<rparr>\<rparr>)"
proof -
  have "prune_expired_leases 1 sample_provider None = \<lparr>st_provider = sample_provider, st_leases = []\<rparr>"
    by (simp add: prune_expired_leases_def st_retain_def)
  moreover have "find_offset 3 3 [1] 0 = Some 3" by (simp add: find_offset.simps)
  ultimately show ?thesis
    by (simp add: acquire_lease_def acquire_start_def sample_own ipv6_service_new_def st_get_def Let_def acquire_finish_def collect_reserved_addrs_def
        allocate_public_ipv6_leases_def set_provider_state_def st_insert_def PUBLIC_IPV6_LEASE_TTL_def)
      (simp add: sample_provider_def in_prefix_def free_offset_def offset_in_def sample_lease_def Let_def set_provider_state_def st_insert_def
        PUBLIC_IPV6_LEASE_TTL_def)
qed

lemma sample_second:
  "acquire_lease in_prefix 1 [17] None 3 sample_peers 4 6 False None (ipv6_service_new\<lparr>sv_provider_state := Some \<lparr>st_provider = sample_provider, st_leases = [(5, sample_lease 5 19)]\<rparr>\<rparr>)
    = (Inr (sample_lease 6 18), ipv6_service_new\<lparr>sv_provider_state := Some \<lparr>st_provider = sample_provider, st_leases = [(5, sample_lease 5 19), (6, sample_lease 6 18)]\<rparr>\<rparr>)"
proof -
  have "prune_expired_leases 1 sample_provider (Some \<lparr>st_provider = sample_provider, st_leases = [(5, sample_lease 5 19)]\<rparr>)
      = \<lparr>st_provider = sample_provider, st_leases = [(5, sample_lease 5 19)]\<rparr>"
    by (simp add: prune_expired_leases_def st_retain_def sample_lease_def)
  moreover have "find_offset 3 1 [1, 3] 0 = Some 2" by (simp add: find_offset.simps)
  ultimately show ?thesis
    by (simp add: acquire_lease_def acquire_start_def sample_own ipv6_service_new_def st_get_def Let_def acquire_finish_def collect_reserved_addrs_def
        allocate_public_ipv6_leases_def set_provider_state_def st_insert_def PUBLIC_IPV6_LEASE_TTL_def)
      (simp add: sample_provider_def in_prefix_def free_offset_def offset_in_def sample_lease_def Let_def set_provider_state_def st_insert_def
        PUBLIC_IPV6_LEASE_TTL_def)
qed

lemma sample_run:
  "lease_run in_prefix (ipv6_service_new\<lparr>sv_provider_state := Some \<lparr>st_provider = sample_provider, st_leases = [(5, sample_lease 5 19)]\<rparr>\<rparr>)"
  "lease_run in_prefix (ipv6_service_new\<lparr>sv_provider_state := Some \<lparr>st_provider = sample_provider, st_leases = [(5, sample_lease 5 19), (6, sample_lease 6 18)]\<rparr>\<rparr>)"
proof -
  have p: "own_provider 3 sample_peers = Inr p \<Longrightarrow> prefix_ok in_prefix (pv6_prefix p)" for p
    using sample_own sample_prefix by simp
  show 1: "lease_run in_prefix (ipv6_service_new\<lparr>sv_provider_state := Some \<lparr>st_provider = sample_provider, st_leases = [(5, sample_lease 5 19)]\<rparr>\<rparr>)"
    by (rule run_acquire [OF _ p sample_first]) (use hist_start in \<open>auto simp: lease_run_def\<close>)
  show "lease_run in_prefix (ipv6_service_new\<lparr>sv_provider_state := Some \<lparr>st_provider = sample_provider, st_leases = [(5, sample_lease 5 19), (6, sample_lease 6 18)]\<rparr>\<rparr>)"
    by (rule run_acquire [OF 1 p sample_second])
qed

theorem leases_unique_witness:
  "\<exists>s st l m. lease_run in_prefix s \<and> sv_provider_state s = Some st \<and> st_get (st_leases st) 5 = Some l \<and> st_get (st_leases st) 6 = Some m
    \<and> fst (ls_addr l) \<noteq> fst (ls_addr m)"
proof -
  define st where "st = \<lparr>st_provider = sample_provider, st_leases = [(5, sample_lease 5 19), (6, sample_lease 6 18)]\<rparr>"
  define s where "s = ipv6_service_new\<lparr>sv_provider_state := Some st\<rparr>"
  have s: "lease_run in_prefix s" "sv_provider_state s = Some st" using sample_run(2) by (simp_all add: s_def st_def)
  have get: "st_get (st_leases st) 5 = Some (sample_lease 5 19)" "st_get (st_leases st) 6 = Some (sample_lease 6 18)"
    by (simp_all add: st_def st_get_def)
  from leases_unique [OF s get] s get show ?thesis by auto
qed

theorem acquire_finds_free_address_witness:
  "\<exists>l s'. acquire_lease in_prefix 1 [17] None 3 sample_peers 4 6 False None
      (ipv6_service_new\<lparr>sv_provider_state := Some \<lparr>st_provider = sample_provider, st_leases = [(5, sample_lease 5 19)]\<rparr>\<rparr>) = (Inr l, s')
    \<and> (\<exists>st. sv_provider_state s' = Some st \<and> st_get (st_leases st) 6 = Some l)"
  using acquire_finds_free_address [OF sample_run(1) sample_own sample_prefix _ sample_second] sample_second
  by (simp add: sample_provider_def)

end
