(* ===== verification/Spec2Isabelle.thy ===== *)
theory Spec2Isabelle
  imports Prelude Token_Bucket Packet_Def Replay_Window Encrypt Secure_Datagram Peer_Session Acl_Rules Acl_Processor Acl_Filter
    Compressor Rpc_Packet Ip_Reassembler Graph_Algo Credential_Manager Ospf_Synced Ospf_Invariant Route_Table Route_Optimal Route_Address
    Route_Session Route_Progress Route_Service Route_Bitmap Route_Confined Route_Maintain
    Framed Rpc_Call Peer_Map Relay_Peer Relay_Secure Relay_Handshake Peer_Manager Packet_Path Public_Ipv6
begin

text \<open>
  \<^bold>\<open>Verification of the iConnect overlay network daemon.\<close>

  iConnect builds a virtual network out of peers connected by tunnels.  A packet that leaves a host passes the access
  control filter, is compressed, given a next hop by the router, encrypted with the session it shares with that peer, framed and
  written to a tunnel; a packet that arrives takes the way back, or is forwarded.  Routers exchange announcements by
  remote calls over the same packets.  This library models these parts, from \<^verbatim>\<open>src/iconnectd/src\<close>, and states what
  makes each of them correct.  Paths below are relative to that directory.

  \<^bold>\<open>Conventions.\<close>  An operation is a function from the state (a record with the fields of the struct) and its arguments to
  the result and the new state.  A Rust panic is \<^term>\<open>None\<close>; the release profile aborts on it, so it ends the
  process.  A \<^verbatim>\<open>Result\<close> is a sum with the error on the left.  Integers are words where their width matters, otherwise numbers with
  the wrap-around or saturation written out; overflow wraps as in the release profile.  Clock readings, random numbers and
  configuration values are arguments.  A \<^verbatim>\<open>HashMap\<close> or \<^verbatim>\<open>DashMap\<close> is an association list behind the contract
  \<open>keyed_store\<close> of \<open>Prelude\<close>.  Concurrency is modelled where the code relies on atomic steps or locks: an atomic operation or
  a lock scope is one step of an inductive step relation, and theorems about runs hold for every interleaving.  An operation of the
  access control filter on a packet and a handler of the router are one step each; the environment of the router is fixed in a run.

  \<^bold>\<open>Theories.\<close>

  \<^item> \<open>Prelude\<close>: integer types, saturating arithmetic, byte order, range-checked slices, keyed stores.

  \<^item> \<open>Token_Bucket\<close> (\<^verbatim>\<open>common/token_bucket.rs\<close>): configuration, refill arithmetic, \<^verbatim>\<open>try_consume\<close>, \<^verbatim>\<open>consume\<close>, manager.  The
  compare-exchange loops of any number of threads balance, a blocking \<^verbatim>\<open>consume\<close> returns exactly when the request fits.

  \<^item> \<open>Packet_Def\<close> (\<^verbatim>\<open>tunnel/packet_def.rs\<close>): packed headers and their byte images, \<^verbatim>\<open>ZCPacket\<close> with the header offsets of each
  tunnel type.  Every header is recovered from its bytes (locale \<open>header_codec\<close>), wrapping for a foreign network is inverted.

  \<^item> \<open>Replay_Window\<close>, \<open>Encrypt\<close>, \<open>Secure_Datagram\<close> (\<^verbatim>\<open>peers/secure_datagram.rs\<close>, \<^verbatim>\<open>peers/encrypt\<close>): the anti-replay window with its
  bit loops refines a set of accepted numbers (locale \<open>replay_filter\<close>); the ciphers of the default build are inverted by their
  decryption (locale \<open>packet_cipher\<close>).  The relation \<open>datagram_step\<close> has every lock scope and atomic operation of the session, the
  parts of a key synchronisation too.  In every run a session accepts no number twice between two renewals of its
  receive slots and repeats no nonce between two restarts of its counter, and decrypts what the other end encrypted
  with an AEAD algorithm.  What can happen across a synchronisation is shown by separate lemmas.

  \<^item> \<open>Peer_Session\<close> (\<^verbatim>\<open>peers/peer_session.rs\<close>, the session filter of \<^verbatim>\<open>peers/peer_conn.rs\<close>): the session store with shared sessions on
  a heap, both ends of the handshake.  Every store operation keeps the invariant (locale \<open>store_operation\<close>); handshakes
  leave both ends with the same keys; a recorded static key is never replaced; packets cross filters with AEAD sessions unchanged.

  \<^item> \<open>Acl_Rules\<close>, \<open>Acl_Processor\<close>, \<open>Acl_Filter\<close> (\<^verbatim>\<open>common/acl_processor.rs\<close>, \<^verbatim>\<open>peers/acl_filter.rs\<close>): configuration to lookup rules,
  matching, whitelists; cache, connection table, rate limits, counters and clean-up; the filter with reply records
  and hot reload.  Cached decisions are those of the first matching rule, the filter enforces the rules and admits replies.

  \<^item> \<open>Compressor\<close>, \<open>Rpc_Packet\<close>, \<open>Rpc_Call\<close> (\<^verbatim>\<open>common/compressor.rs\<close>, \<^verbatim>\<open>proto/rpc_impl\<close>, \<^verbatim>\<open>proto/error.rs\<close>): compression, messages
  in pieces, registry, server and client.  Server and client collect a message in the same way (locale
  \<open>message_receiver\<close>); a call of bounded size whose packets arrive once each, in any order among other traffic, is handled once
  and returns the answer of the service, with errors as their codes on the wire stand for.

  \<^item> \<open>Framed\<close> (\<^verbatim>\<open>tunnel/common.rs\<close>, \<^verbatim>\<open>tunnel/buf.rs\<close>): reader and writer of packets over byte streams.  Under every
  interleaving of partial reads and writes a stream is a queue of packets.

  \<^item> \<open>Ip_Reassembler\<close> (\<^verbatim>\<open>gateway/ip_reassembler.rs\<close>): fragmentation and reassembly of IPv4 packets in 16-bit arithmetic.
  Reassembly inverts fragmentation for any order of the fragments, with repetitions.

  \<^item> \<open>Credential_Manager\<close> (\<^verbatim>\<open>peers/credential_manager.rs\<close>, \<^verbatim>\<open>proto/peer_rpc.rs\<close>, trusted keys of \<^verbatim>\<open>common/global_ctx.rs\<close>): credentials with
  their storage file, signed proofs, trust queries.  A key is trusted exactly during the lifetime of its credential;
  across restarts this needs a storage file and successful writes.

  \<^item> \<open>Ospf_Synced\<close>, \<open>Ospf_Invariant\<close> (\<^verbatim>\<open>SyncedRouteInfo\<close> of \<^verbatim>\<open>peers/peer_ospf_route.rs\<close>): the link-state database.  Its invariant holds
  in every reachable state, announcements commute, trusted keys and owners of non-reusable credentials are exact.

  \<^item> \<open>Graph_Algo\<close>, \<open>Route_Table\<close>, \<open>Route_Optimal\<close>, \<open>Route_Address\<close> (\<^verbatim>\<open>peers/graph_algo.rs\<close>, \<^verbatim>\<open>RouteTable\<close>): shortest paths, next hops, address
  maps.  Next hops are optimal, packets that follow them arrive, addresses lead to a closest peer that announces them.

  \<^item> \<open>Route_Session\<close>, \<open>Route_Progress\<close>, \<open>Route_Service\<close>, \<open>Route_Bitmap\<close>, \<open>Route_Confined\<close>, \<open>Route_Maintain\<close> (\<^verbatim>\<open>SyncRouteSession\<close>, \<^verbatim>\<open>PeerRouteServiceImpl\<close>,
  \<^verbatim>\<open>RouteSessionManager\<close>, \<^verbatim>\<open>PeerRoute\<close>): synchronisation of the databases.  A session forgets no announcement that was stored since the
  session identifier of the other end settled, the connection bitmap says what the database says, a credential peer can add nothing but its own
  announcement, and the invariant of the service holds in every run of its handlers and background tasks.

  \<^item> \<open>Peer_Map\<close> (\<^verbatim>\<open>peers/peer.rs\<close>, \<^verbatim>\<open>peers/peer_map.rs\<close>, \<^verbatim>\<open>peers/foreign_network_client.rs\<close>): the connections of a peer and the map of
  peers.  An addition of a connection is a sequence of parts (\<open>adding\<close>) that interleave with closing, messages and tasks
  (\<open>hub_step\<close>).  The connections of a peer agree in their key as long as the record of a peer is not forgotten while an
  addition to it is under way; what happens otherwise is a lemma.  Messages leave on the connection in use or on one of
  least latency.

  \<^item> \<open>Relay_Peer\<close>, \<open>Relay_Secure\<close>, \<open>Relay_Handshake\<close> (\<^verbatim>\<open>peers/relay_peer_map.rs\<close>): sessions with peers that are reached through
  others.  The handshake task is cut into steps at its waits.  In secure mode nothing but handshakes leaves unencrypted, and
  handshakes that cross end with the same key at both ends, also when the first message of the larger peer comes late.

  \<^item> \<open>Peer_Manager\<close>, \<open>Packet_Path\<close> (\<^verbatim>\<open>peers/peer_manager.rs\<close>, parts of \<^verbatim>\<open>peers/traffic_metrics.rs\<close> and
  \<^verbatim>\<open>peers/foreign_network_manager.rs\<close>): the ways of a packet through a node, and through several nodes, see below.

  \<^item> \<open>Public_Ipv6\<close> (\<^verbatim>\<open>peers/public_ipv6.rs\<close>): addresses on lease.  The allocation finds a free address when there is one.  In
  \<open>lease_history\<close> an operation may work on any earlier table of leases; no table has one address for two instances, though
  the later of two overlapping requests can take the lease of the other off the record.

  \<^bold>\<open>Properties across components.\<close>  \<open>Packet_Path\<close> composes packets, ciphers, compression, access control, peer map, relay sessions
  and the loops of the peer manager: the relation \<open>travels\<close> takes a packet through any number of nodes, each of which runs
  the whole receiving step and sends the packet at once, or later when a session it waited for is there, or readdressed when
  it serves the foreign network the packet is for.  A packet is forwarded a bounded number of times whatever the nodes do, a
  packet from one interface reaches the interface of its destination with its payload in a network without secure mode, and
  only checked packets reach an interface, unless a further filter rewrites them.
  \<open>Relay_Handshake\<close> composes the Noise messages with the session store of \<open>Peer_Session\<close>, \<open>Route_Optimal\<close> the database, the graph and
  the tables of all nodes on a route, \<open>Rpc_Call\<close> client, pieces and server.

  \<^bold>\<open>Loops.\<close>  Loops over data are structural recursions or have a measure (\<open>split_from\<close>: bytes left).  The Dijkstra loop is a
  \<^theory_text>\<open>partial_function\<close> into options and \<open>dijkstra_shortest_first_hop\<close> proves that it returns for every finite graph.
  The fragmentation loop has as fuel one more than the payload length, which is enough as every round consumes a byte; the
  round trip theorem shows that it returns.  The compare-exchange loops are step relations; the blocking \<^verbatim>\<open>consume\<close> recurses on the
  sequence of refill ticks.  The reader and the writer of a stream recurse on the list of answers of the transport, one for
  each call, and a list that ends is a transport that is not ready.  The search for a free address has the offsets left as its measure.

  \<^bold>\<open>Parameters.\<close>  Code outside the repository is an argument: AEAD and HMAC primitives (\<open>crypto\<close>), the Noise
  library (\<open>noise_lib\<close>), CIDR
  arithmetic (\<open>cidr_lib\<close>), packet views of pnet (\<open>pnet\<close>, \<open>ipv4_lib\<close>), zstd (\<open>zstd\<close>), protobuf codecs
  (\<open>rpc_codec\<close>, \<open>call_codec\<close>, \<open>reflect_lib\<close>), key arithmetic, JSON, base64 and files (\<open>cred_lib\<close>), the binary
  heap (\<open>pop\<close>), the Dijkstra routine of petgraph (\<open>pg\<close>), the prefix trie (\<open>prefix_lib\<close>), the order of an
  \<^verbatim>\<open>OrderedHashMap\<close> (\<open>recent\<close>), capacities of \<^verbatim>\<open>BytesMut\<close> (\<open>bytesmut_lib\<close>), and for the background tasks of the router the
  rest of the process (\<open>service_env\<close>).  What a theorem needs of them is a named hypothesis, and the witness of the
  theorem instantiates it by a concrete function.

  \<^bold>\<open>Not modelled.\<close>  Sockets, operating system calls and user interfaces (\<^verbatim>\<open>tunnel/udp.rs\<close> and the other transports, \<^verbatim>\<open>connector\<close>,
  \<^verbatim>\<open>instance\<close>, \<^verbatim>\<open>cli.rs\<close>, the web console, the Android application); the socket proxies of \<^verbatim>\<open>gateway\<close>, which are built on
  user-space network stacks of other projects; the Noise handshake of a connection, whose message patterns belong to the
  snow crate (for relay sessions the library is a parameter); how \<^verbatim>\<open>peers/peer_manager.rs\<close> accepts connections, its periodic tasks and its
  counters, and the networks a node serves for others beyond the forwarding of their packets; the log
  messages and statistics.  The tree \<^verbatim>\<open>src/iconnectd/easytier\<close> is a near copy of the modelled one.
\<close>

end
